(* ===== verification/Prelude.thy ===== *)
theory Prelude
  imports Main "HOL-Library.Word"
begin

text \<open>
  Shared vocabulary of the development: the integer types of
  \<^verbatim>\<open>src/kernel/include/base/stdint.h\<close>, the kernel error codes of
  \<^verbatim>\<open>src/kernel/include/kernel/error.h\<close>, the bit and alignment macros of
  \<^verbatim>\<open>base/bit.h\<close> and \<^verbatim>\<open>base/align.h\<close>, the direct-map macros of \<^verbatim>\<open>mm/layout.h\<close>,
  a state-and-error type for the kernel functions that return an error code, the word
  store that models directly mapped memory, and the lemmas on words that the component
  theories share.
\<close>

unbundle bit_operations_syntax

named_theorems kerr_simps \<open>unfolding of the error-propagation combinators\<close>
named_theorems addr_simps \<open>addresses: reading word arithmetic back as natural numbers\<close>

subsection \<open>Integer types\<close>

type_synonym u8 = "8 word"
type_synonym u16 = "16 word"
type_synonym u32 = "32 word"
type_synonym u64 = "64 word"

text \<open>\<open>vaddr_t\<close> and \<open>size_t\<close> are 32 bits wide, \<open>paddr_t\<close> is 64 bits wide.\<close>

type_synonym vaddr = "32 word"
type_synonym size_t = "32 word"
type_synonym paddr = "64 word"

subsection \<open>Error codes\<close>

datatype kerror =
    KERR_OK
  | KERR_INVAL
  | KERR_RANGE
  | KERR_NOMEM
  | KERR_NOENT
  | KERR_EXISTS
  | KERR_BUSY
  | KERR_NOSPC
  | KERR_NOSUP
  | KERR_NODEV

text \<open>The value of the C enumerator; functions return its negation.\<close>

fun kerr_code :: "kerror \<Rightarrow> nat" where
  "kerr_code KERR_OK = 0"
| "kerr_code KERR_INVAL = 1"
| "kerr_code KERR_RANGE = 2"
| "kerr_code KERR_NOMEM = 3"
| "kerr_code KERR_NOENT = 4"
| "kerr_code KERR_EXISTS = 5"
| "kerr_code KERR_BUSY = 6"
| "kerr_code KERR_NOSPC = 7"
| "kerr_code KERR_NOSUP = 8"
| "kerr_code KERR_NODEV = 9"

text \<open>
  A kernel function that returns an error code and works on a state of type \<open>'s\<close>:
  \<open>Inl e\<close> stands for the return value \<open>-e\<close>, \<open>Inr x\<close> for \<open>KERR_OK\<close> with \<open>x\<close> stored
  through the output parameter (\<open>()\<close> when there is none).
\<close>

type_synonym ('s, 'a) kfun = "'s \<Rightarrow> (kerror + 'a) \<times> 's"

definition kret :: "'a \<Rightarrow> ('s, 'a) kfun" where
  "kret x s = (Inr x, s)"

definition kfail :: "kerror \<Rightarrow> ('s, 'a) kfun" where
  "kfail e s = (Inl e, s)"

text \<open>\<open>KERR_TRY\<close>: an error is returned at once, in the state it left behind.\<close>

definition kerr_try :: "('s, 'a) kfun \<Rightarrow> ('a \<Rightarrow> ('s, 'b) kfun) \<Rightarrow> ('s, 'b) kfun" where
  "kerr_try f k s =
     (case f s of (Inl e, s') \<Rightarrow> (Inl e, s') | (Inr x, s') \<Rightarrow> k x s')"

text \<open>A loop whose body may return an error: the first error ends the loop and the function.\<close>

fun kerr_for :: "'a list \<Rightarrow> ('a \<Rightarrow> ('s, unit) kfun) \<Rightarrow> ('s, unit) kfun" where
  "kerr_for [] body s = (Inr (), s)"
| "kerr_for (x # xs) body s = kerr_try (body x) (\<lambda>_. kerr_for xs body) s"

text \<open>Running an operation of a component on the part of the state that holds it.\<close>

definition kzoom :: "('s \<Rightarrow> 't) \<Rightarrow> ('t \<Rightarrow> 's \<Rightarrow> 's) \<Rightarrow> ('t, 'a) kfun \<Rightarrow> ('s, 'a) kfun" where
  "kzoom get put f s = (case f (get s) of (r, t) \<Rightarrow> (r, put t s))"

lemma kret_simp [simp, kerr_simps]: "kret x s = (Inr x, s)"
  by (simp add: kret_def)

lemma kfail_simp [simp, kerr_simps]: "kfail e s = (Inl e, s)"
  by (simp add: kfail_def)

lemma kerr_try_Inr: "f s = (Inr x, s') \<Longrightarrow> kerr_try f k s = k x s'"
  by (simp add: kerr_try_def)

lemma kerr_try_Inl: "f s = (Inl e, s') \<Longrightarrow> kerr_try f k s = (Inl e, s')"
  by (simp add: kerr_try_def)

lemma kerr_try_eq_Inr:
  "kerr_try f k s = (Inr y, t) \<longleftrightarrow> (\<exists>x s'. f s = (Inr x, s') \<and> k x s' = (Inr y, t))"
  by (auto simp: kerr_try_def split: prod.splits sum.splits)

lemma kerr_try_eq_Inl:
  "kerr_try f k s = (Inl e, t) \<longleftrightarrow>
     f s = (Inl e, t) \<or> (\<exists>x s'. f s = (Inr x, s') \<and> k x s' = (Inl e, t))"
  by (auto simp: kerr_try_def split: prod.splits sum.splits)

text \<open>
  An invariant that the first step and every continuation keep is kept by the whole.
\<close>

lemma kerr_try_inv:
  assumes "P s" and "\<And>r t. P s \<Longrightarrow> f s = (r, t) \<Longrightarrow> P t"
    and "\<And>x t r u. P t \<Longrightarrow> k x t = (r, u) \<Longrightarrow> P u"
    and "kerr_try f k s = (r, u)"
  shows "P u"
proof -
  obtain q t where f: "f s = (q, t)" by (cases "f s")
  then have "P t" using assms(1,2) by blast
  then show ?thesis
    using assms(3,4) f by (cases q) (auto simp: kerr_try_def)
qed

lemma kerr_for_Cons:
  "kerr_for (x # xs) body s =
     (case body x s of (Inl e, t) \<Rightarrow> (Inl e, t) | (Inr _, t) \<Rightarrow> kerr_for xs body t)"
  by (simp add: kerr_try_def split: prod.splits sum.splits)

lemma kerr_for_inv:
  assumes "P s" and "\<forall>x\<in>set xs. \<forall>s r t. P s \<and> body x s = (r, t) \<longrightarrow> P t"
    and "kerr_for xs body s = (r, u)"
  shows "P u"
  using assms
proof (induction xs arbitrary: s)
  case (Cons x xs)
  obtain q t where b: "body x s = (q, t)" by (cases "body x s")
  then have t: "P t" using Cons.prems(1,2) by auto
  show ?case
  proof (cases q)
    case (Inl e)
    then show ?thesis using t b Cons.prems(3) by (simp add: kerr_for_Cons del: kerr_for.simps(2))
  next
    case (Inr y)
    then have "kerr_for xs body t = (r, u)"
      using b Cons.prems(3) by (simp add: kerr_for_Cons del: kerr_for.simps(2))
    moreover have "\<forall>x\<in>set xs. \<forall>s r t. P s \<and> body x s = (r, t) \<longrightarrow> P t"
      using Cons.prems(2) by (meson list.set_intros(2))
    ultimately show ?thesis by (intro Cons.IH [OF t])
  qed
qed simp

subsection \<open>Error pointers\<close>

definition KERR_MAX_ERRNO :: u32 where
  "KERR_MAX_ERRNO = 4096"

definition KERR_PTR :: "kerror \<Rightarrow> vaddr" where
  "KERR_PTR e = - of_nat (kerr_code e)"

definition KERR_PTR_IS_ERR :: "vaddr \<Rightarrow> bool" where
  "KERR_PTR_IS_ERR p \<longleftrightarrow> 0xFFFFFFFF - KERR_MAX_ERRNO + 1 \<le> p"

text \<open>\<open>KERR_PTR_ERR\<close> reads the pointer back as the signed return value.\<close>

definition KERR_PTR_ERR :: "vaddr \<Rightarrow> int" where
  "KERR_PTR_ERR p = sint p"

lemma KERR_PTR_is_err: "e \<noteq> KERR_OK \<Longrightarrow> KERR_PTR_IS_ERR (KERR_PTR e)"
  by (cases e) (simp_all add: KERR_PTR_IS_ERR_def KERR_PTR_def KERR_MAX_ERRNO_def)

lemma KERR_PTR_ERR_roundtrip: "KERR_PTR_ERR (KERR_PTR e) = - int (kerr_code e)"
  by (cases e) (simp_all add: KERR_PTR_ERR_def KERR_PTR_def)

lemma KERR_PTR_below: "unat p < 0xFFFFF000 \<Longrightarrow> \<not> KERR_PTR_IS_ERR p"
  by (simp add: KERR_PTR_IS_ERR_def KERR_MAX_ERRNO_def word_le_nat_alt)

subsection \<open>Bit and alignment macros\<close>

definition BIT :: "nat \<Rightarrow> 'a::len word" where
  "BIT n = push_bit n 1"

definition MASK_TEST :: "'a::len word \<Rightarrow> 'a word \<Rightarrow> bool" where
  "MASK_TEST v msk \<longleftrightarrow> v AND msk \<noteq> 0"

definition MASK_SET :: "'a::len word \<Rightarrow> 'a word \<Rightarrow> 'a word" where
  "MASK_SET v msk = v OR msk"

definition MASK_CLEAR :: "'a::len word \<Rightarrow> 'a word \<Rightarrow> 'a word" where
  "MASK_CLEAR v msk = v AND NOT msk"

definition FIELD_SET :: "'a::len word \<Rightarrow> 'a word \<Rightarrow> nat \<Rightarrow> 'a word \<Rightarrow> 'a word" where
  "FIELD_SET v msk shift fld = (v AND NOT msk) OR (push_bit shift fld AND msk)"

definition ALIGN_UP :: "'a::len word \<Rightarrow> 'a word \<Rightarrow> 'a word" where
  "ALIGN_UP x align = (x + align - 1) AND NOT (align - 1)"

definition ALIGN_DOWN :: "'a::len word \<Rightarrow> 'a word \<Rightarrow> 'a word" where
  "ALIGN_DOWN x align = x AND NOT (align - 1)"

definition ALIGN_TEST :: "'a::len word \<Rightarrow> 'a word \<Rightarrow> bool" where
  "ALIGN_TEST x align \<longleftrightarrow> x mod align = 0"

lemma bit_BIT: "bit (BIT n :: 'a::len word) k \<longleftrightarrow> k = n \<and> n < LENGTH('a)"
  by (auto simp: BIT_def bit_simps)

lemma MASK_TEST_BIT: "n < LENGTH('a) \<Longrightarrow> MASK_TEST v (BIT n :: 'a::len word) \<longleftrightarrow> bit v n"
  unfolding MASK_TEST_def by (subst bit_eq_iff) (auto simp: bit_and_iff bit_BIT)

lemma bit_MASK_SET_BIT:
  "bit (MASK_SET v (BIT n) :: 'a::len word) k \<longleftrightarrow> bit v k \<or> k = n \<and> n < LENGTH('a)"
  by (auto simp: MASK_SET_def bit_or_iff bit_BIT)

lemma bit_MASK_CLEAR_BIT:
  "bit (MASK_CLEAR v (BIT n) :: 'a::len word) k \<longleftrightarrow> bit v k \<and> k \<noteq> n"
  by (auto simp: MASK_CLEAR_def bit_and_iff bit_not_iff bit_BIT possible_bit_def
      dest: bit_imp_le_length)

text \<open>Masking the low bits away is rounding down to a multiple of the power of two.\<close>

lemma unat_and_not_mask:
  fixes x :: "'a::len word"
  shows "unat (x AND NOT (mask n)) = unat x div 2 ^ n * 2 ^ n"
proof -
  have "x AND NOT (mask n) = push_bit n (drop_bit n x)"
    by (rule bit_word_eqI) (auto simp: bit_simps)
  moreover have "unat (push_bit n (drop_bit n x)) = unat x div 2 ^ n * 2 ^ n"
  proof -
    have [simp]: "take_bit LENGTH('a) (unat x) = unat x"
      by (simp add: take_bit_nat_eq_self_iff)
    have "unat (push_bit n (drop_bit n x)) = take_bit LENGTH('a) (unat x div 2 ^ n * 2 ^ n)"
      unfolding unsigned_push_bit_eq unsigned_drop_bit_eq
      by (simp add: drop_bit_eq_div push_bit_eq_mult)
    moreover have "unat x div 2 ^ n * 2 ^ n < 2 ^ LENGTH('a)"
      by (rule le_less_trans [OF div_times_less_eq_dividend]) simp
    ultimately show ?thesis
      by (simp add: take_bit_nat_eq_self_iff)
  qed
  ultimately show ?thesis by simp
qed

lemma unat_ALIGN_DOWN_4096 [addr_simps]:
  fixes x :: "64 word"
  shows "unat (ALIGN_DOWN x 4096) = unat x div 4096 * 4096"
  using unat_and_not_mask [of x 12] by (simp add: ALIGN_DOWN_def mask_eq_exp_minus_1)

lemma unat_ALIGN_UP_4096 [addr_simps]:
  fixes x :: "64 word"
  assumes "unat x + 4095 < 2 ^ 64"
  shows "unat (ALIGN_UP x 4096) = (unat x + 4095) div 4096 * 4096"
proof -
  have "x + 4096 - 1 = x + 4095" by simp
  moreover have "unat (x + 4095) = unat x + 4095"
    using assms by (simp add: unat_word_ariths)
  ultimately show ?thesis
    using unat_and_not_mask [of "x + 4095" 12]
    by (simp add: ALIGN_UP_def mask_eq_exp_minus_1 add.commute)
qed

lemma unat_ALIGN_UP_4 [addr_simps]:
  fixes x :: "32 word"
  assumes "unat x + 3 < 2 ^ 32"
  shows "unat (ALIGN_UP x 4) = (unat x + 3) div 4 * 4"
proof -
  have "x + 4 - 1 = x + 3" by simp
  moreover have "unat (x + 3) = unat x + 3"
    using assms by (simp add: unat_word_ariths)
  ultimately show ?thesis
    using unat_and_not_mask [of "x + 3" 2]
    by (simp add: ALIGN_UP_def mask_eq_exp_minus_1 add.commute)
qed

subsection \<open>Reading word arithmetic as natural-number arithmetic\<close>

lemma unat_add_nowrap [addr_simps]:
  fixes x y :: "'a::len word"
  shows "unat x + unat y < 2 ^ LENGTH('a) \<Longrightarrow> unat (x + y) = unat x + unat y"
  by (simp add: unat_word_ariths)

lemma unat_sub_nowrap [addr_simps]:
  fixes x y :: "'a::len word"
  shows "unat y \<le> unat x \<Longrightarrow> unat (x - y) = unat x - unat y"
  by (simp add: unat_sub word_le_nat_alt)

lemma unat_mult_nowrap [addr_simps]:
  fixes x y :: "'a::len word"
  shows "unat x * unat y < 2 ^ LENGTH('a) \<Longrightarrow> unat (x * y) = unat x * unat y"
  by (simp add: unat_word_ariths)

lemma unat_of_nat_small [addr_simps]:
  "n < 2 ^ LENGTH('a) \<Longrightarrow> unat (of_nat n :: 'a::len word) = n"
  by (simp add: unsigned_of_nat take_bit_nat_eq_self_iff)

lemma unat32_lt [simp]: "unat (x :: 32 word) < 4294967296"
  using unsigned_less [of x] by simp

lemma unat32_lt_pow: "unat (x :: 32 word) < 2 ^ 32"
  by simp

lemma unat64_lt [simp]: "unat (x :: 64 word) < 18446744073709551616"
  using unsigned_less [of x] by simp

lemma unat_ucast_u64 [simp]: "unat (ucast (x :: 32 word) :: 64 word) = unat x"
proof -
  have "unat x < 2 ^ 64" by (rule less_trans [OF unat32_lt_pow]) simp
  then show ?thesis by (simp add: unsigned_ucast_eq take_bit_nat_eq_self_iff)
qed

lemma unat_plus_1_less [addr_simps]:
  fixes i b :: "'a::len word"
  assumes "i < b"
  shows "unat (i + 1) = unat i + 1"
proof -
  have "unat i + 1 < 2 ^ LENGTH('a)"
  proof -
    have "unat i < unat b" using assms by (simp add: word_less_nat_alt)
    moreover have "unat b < 2 ^ LENGTH('a)" by simp
    ultimately show ?thesis by linarith
  qed
  then show ?thesis
    by (simp add: unat_word_ariths)
qed

lemma unat_div_word [addr_simps]:
  fixes x y :: "'a::len word"
  shows "unat (x div y) = unat x div unat y"
  by (rule unat_div)

lemma unat_mod_word [addr_simps]:
  fixes x y :: "'a::len word"
  shows "unat (x mod y) = unat x mod unat y"
  by (rule unat_mod)

subsection \<open>Splitting a word into parts\<close>

text \<open>The part of a word that starts at bit \<open>k\<close>, cut to a narrower type and put back in its place.\<close>

lemma bit_part:
  "bit (push_bit k (ucast (ucast (drop_bit k v) :: 'b::len word)) :: 'a::len word) n
     \<longleftrightarrow> k \<le> n \<and> n < k + LENGTH('b) \<and> n < LENGTH('a) \<and> bit v n"
  for v :: "'a::len word"
proof (cases "k \<le> n")
  case True
  then obtain j where "n = k + j" by (auto simp: le_iff_add)
  then show ?thesis by (auto simp: bit_simps)
qed (simp add: bit_simps)

lemma bit_part_0:
  "bit (ucast (ucast v :: 'b::len word) :: 'a::len word) n \<longleftrightarrow> n < LENGTH('b) \<and> n < LENGTH('a) \<and> bit v n"
  for v :: "'a::len word"
  by (auto simp: bit_simps)

lemma ucast_and_mask: "ucast (x AND mask n) = (ucast x :: 'b::len word)" if "LENGTH('b) \<le> n" for x :: "'a::len word"
  using that by (intro bit_word_eqI) (auto simp: bit_simps dest: bit_imp_le_length)

subsection \<open>Loops over a range\<close>

text \<open>
  \<^verbatim>\<open>for (uint32_t i = a; i < b; i++) body\<close>. The loop counter never passes \<open>b\<close>, so
  the increment does not wrap and the values of \<open>i\<close> are the words of \<open>a, \<dots>, b - 1\<close>.
\<close>

definition words_upto :: "u32 \<Rightarrow> u32 \<Rightarrow> u32 list" where
  "words_upto a b = map of_nat [unat a..<unat b]"

definition for_u32 :: "u32 \<Rightarrow> u32 \<Rightarrow> (u32 \<Rightarrow> 's \<Rightarrow> 's) \<Rightarrow> 's \<Rightarrow> 's" where
  "for_u32 a b body s = fold body (words_upto a b) s"

lemma set_words_upto [simp]: "set (words_upto a b) = {i. a \<le> i \<and> i < b}"
proof -
  have "i \<in> of_nat ` {unat a..<unat b}" if "a \<le> i" "i < b" for i
    using that by (intro image_eqI [of _ _ "unat i"]) (auto simp: word_le_nat_alt word_less_nat_alt)
  moreover have "a \<le> of_nat n \<and> of_nat n < b" if "unat a \<le> n" "n < unat b" for n
  proof -
    have "n < 2 ^ 32" using that(2) unat32_lt [of b] by (simp del: unat32_lt)
    then show ?thesis
      using that by (simp add: word_le_nat_alt word_less_nat_alt unat_of_nat_small)
  qed
  ultimately show ?thesis
    by (auto simp: words_upto_def)
qed

lemma fold_inv:
  assumes "P s" and "\<And>x s. x \<in> set xs \<Longrightarrow> P s \<Longrightarrow> P (f x s)"
  shows "P (fold f xs s)"
  using assms by (induction xs arbitrary: s) auto

lemma for_u32_inv:
  assumes "P s" and "\<And>i s. a \<le> i \<Longrightarrow> i < b \<Longrightarrow> P s \<Longrightarrow> P (body i s)"
  shows "P (for_u32 a b body s)"
  unfolding for_u32_def by (rule fold_inv) (use assms in auto)

subsection \<open>Memory\<close>

text \<open>
  Directly mapped kernel memory as a store of 32-bit words, indexed by the byte address
  of the word. A pointer is a 32-bit value; dereferencing it reads the store at the
  address it holds.
\<close>

type_synonym mem = "nat \<Rightarrow> u32"

definition ld :: "mem \<Rightarrow> vaddr \<Rightarrow> u32" where
  "ld m p = m (unat p)"

definition st :: "vaddr \<Rightarrow> u32 \<Rightarrow> mem \<Rightarrow> mem" where
  "st p v m = m(unat p := v)"

subsection \<open>Kernel address layout\<close>

definition KERNEL_VIRT_OFFSET :: u64 where
  "KERNEL_VIRT_OFFSET = 0xC0000000"

definition KERNEL_DIRECT_MAP_SIZE :: u32 where
  "KERNEL_DIRECT_MAP_SIZE = 0x30000000"

definition DMA16_LIMIT :: u64 where
  "DMA16_LIMIT = 16 * 1024 * 1024"

definition KERNEL_LOWMEM_LIMIT :: u64 where
  "KERNEL_LOWMEM_LIMIT = 768 * 1024 * 1024"

definition PHYS_TO_VIRT :: "paddr \<Rightarrow> vaddr" where
  "PHYS_TO_VIRT phys = ucast (phys + KERNEL_VIRT_OFFSET)"

definition VIRT_TO_PHYS :: "vaddr \<Rightarrow> vaddr" where
  "VIRT_TO_PHYS virt = ucast ((ucast virt :: u64) + KERNEL_VIRT_OFFSET)"

lemma unat_PHYS_TO_VIRT [addr_simps]:
  assumes "unat p < 0x40000000"
  shows "unat (PHYS_TO_VIRT p) = unat p + 0xC0000000"
proof -
  have "unat (p + 0xC0000000) = unat p + 0xC0000000"
    using assms by (simp add: unat_word_ariths)
  then show ?thesis
    using assms
    by (simp add: PHYS_TO_VIRT_def KERNEL_VIRT_OFFSET_def unsigned_ucast_eq take_bit_nat_eq_self_iff)
qed

end
