(* ===== verification/Klib_List.thy ===== *)
theory Klib_List
  imports Prelude
begin

text \<open>
  The intrusive, circular, doubly linked list of \<^verbatim>\<open>src/kernel/include/klib/list.h\<close>, on
  the word store: a \<open>struct list_node\<close> at address \<open>n\<close> has its \<open>next\<close> pointer in the word at
  \<open>n\<close> and its \<open>prev\<close> pointer in the word at \<open>n + 4\<close>; a \<open>struct list\<close> is its sentinel node.
  The relation \<open>dll m h xs\<close> says that the nodes linked behind the sentinel \<open>h\<close> are \<open>xs\<close>, and
  each operation is shown to change \<open>xs\<close> as its documentation says.
\<close>

subsection \<open>Operations\<close>

definition node_next :: "mem \<Rightarrow> vaddr \<Rightarrow> vaddr" where
  "node_next m n = ld m n"

definition node_prev :: "mem \<Rightarrow> vaddr \<Rightarrow> vaddr" where
  "node_prev m n = ld m (n + 4)"

definition set_next :: "vaddr \<Rightarrow> vaddr \<Rightarrow> mem \<Rightarrow> mem" where
  "set_next n v m = st n v m"

definition set_prev :: "vaddr \<Rightarrow> vaddr \<Rightarrow> mem \<Rightarrow> mem" where
  "set_prev n v m = st (n + 4) v m"

definition list_init :: "vaddr \<Rightarrow> mem \<Rightarrow> mem" where
  "list_init head m = set_prev head head (set_next head head m)"

definition list_empty :: "mem \<Rightarrow> vaddr \<Rightarrow> bool" where
  "list_empty m head \<longleftrightarrow> node_next m head = head"

definition list_front :: "mem \<Rightarrow> vaddr \<Rightarrow> vaddr" where
  "list_front m head = (if list_empty m head then 0 else node_next m head)"

definition list_back :: "mem \<Rightarrow> vaddr \<Rightarrow> vaddr" where
  "list_back m head = (if list_empty m head then 0 else node_prev m head)"

definition list_insert_after :: "vaddr \<Rightarrow> vaddr \<Rightarrow> mem \<Rightarrow> mem" where
  "list_insert_after node new m =
     (let m = set_prev new node m;
          m = set_next new (node_next m node) m;
          m = set_prev (node_next m node) new m
      in set_next node new m)"

definition list_insert_before :: "vaddr \<Rightarrow> vaddr \<Rightarrow> mem \<Rightarrow> mem" where
  "list_insert_before node new m =
     (let m = set_next new node m;
          m = set_prev new (node_prev m node) m;
          m = set_next (node_prev m node) new m
      in set_prev node new m)"

definition list_remove :: "vaddr \<Rightarrow> mem \<Rightarrow> mem" where
  "list_remove node m =
     (let m = set_next (node_prev m node) (node_next m node) m;
          m = set_prev (node_next m node) (node_prev m node) m;
          m = set_next node 0 m
      in set_prev node 0 m)"

definition list_insert_front :: "vaddr \<Rightarrow> vaddr \<Rightarrow> mem \<Rightarrow> mem" where
  "list_insert_front head node m = list_insert_after head node m"

definition list_insert_back :: "vaddr \<Rightarrow> vaddr \<Rightarrow> mem \<Rightarrow> mem" where
  "list_insert_back head node m = list_insert_before head node m"

definition list_pop_front :: "vaddr \<Rightarrow> mem \<Rightarrow> vaddr \<times> mem" where
  "list_pop_front head m =
     (if list_empty m head then (0, m)
      else let node = node_next m head in (node, list_remove node m))"

definition list_pop_back :: "vaddr \<Rightarrow> mem \<Rightarrow> vaddr \<times> mem" where
  "list_pop_back head m =
     (if list_empty m head then (0, m)
      else let node = node_prev m head in (node, list_remove node m))"

definition list_replace :: "vaddr \<Rightarrow> vaddr \<Rightarrow> mem \<Rightarrow> mem" where
  "list_replace old_node new_node m =
     (let m = set_prev new_node (node_prev m old_node) m;
          m = set_next new_node (node_next m old_node) m;
          m = set_next (node_prev m old_node) new_node m;
          m = set_prev (node_next m old_node) new_node m;
          m = set_next old_node 0 m
      in set_prev old_node 0 m)"

text \<open>
  \<open>list_for_each\<close> with a body that leaves the loop at the first node that satisfies \<open>P\<close>: the
  value of the loop variable after the loop, which is the sentinel when no node does. On a
  store where the links do not lead back to the sentinel the loop does not end.
\<close>

partial_function (option) list_for_each_until ::
  "mem \<Rightarrow> vaddr \<Rightarrow> (vaddr \<Rightarrow> bool) \<Rightarrow> vaddr \<Rightarrow> vaddr option" where
  "list_for_each_until m head P node =
     (if node = head then Some head
      else if P node then Some node
      else list_for_each_until m head P (node_next m node))"

definition list_search :: "mem \<Rightarrow> vaddr \<Rightarrow> (vaddr \<Rightarrow> bool) \<Rightarrow> vaddr option" where
  "list_search m head P = list_for_each_until m head P (node_next m head)"

subsection \<open>The nodes of a list\<close>

fun links :: "mem \<Rightarrow> vaddr list \<Rightarrow> bool" where
  "links m (x # y # zs) \<longleftrightarrow> node_next m x = y \<and> node_prev m y = x \<and> links m (y # zs)"
| "links m zs \<longleftrightarrow> True"

text \<open>Two nodes do not overlap: the second word of one is not the first word of the other.\<close>

definition nodes_sep :: "vaddr set \<Rightarrow> bool" where
  "nodes_sep S \<longleftrightarrow> (\<forall>x\<in>S. \<forall>y\<in>S. x + 4 \<noteq> y)"

definition dll :: "mem \<Rightarrow> vaddr \<Rightarrow> vaddr list \<Rightarrow> bool" where
  "dll m h xs \<longleftrightarrow> distinct (h # xs) \<and> nodes_sep (set (h # xs)) \<and> links m (h # xs @ [h])"

lemma ld_st: "ld (st p v m) q = (if q = p then v else ld m q)"
  by (auto simp: ld_def st_def word_unat_eq_iff)

lemmas node_ops = node_next_def node_prev_def set_next_def set_prev_def ld_st

lemma links_append: "links m (as @ n # bs) \<longleftrightarrow> links m (as @ [n]) \<and> links m (n # bs)"
proof (induction as)
  case (Cons a as)
  then show ?case by (cases as) auto
qed simp

lemma links_cong:
  assumes "\<forall>x\<in>set (butlast zs). ld m' x = ld m x" and "\<forall>x\<in>set (tl zs). ld m' (x + 4) = ld m (x + 4)"
  shows "links m' zs \<longleftrightarrow> links m zs"
  using assms by (induction zs rule: induct_list012) (auto simp: node_next_def node_prev_def)

text \<open>The list depends on the words of its own nodes only.\<close>

lemma dll_cong:
  assumes "\<And>x. x \<in> set (h # xs) \<Longrightarrow> ld m' x = ld m x \<and> ld m' (x + 4) = ld m (x + 4)"
  shows "dll m' h xs \<longleftrightarrow> dll m h xs"
proof -
  have "links m' (h # xs @ [h]) \<longleftrightarrow> links m (h # xs @ [h])"
    by (rule links_cong) (use assms in \<open>auto simp: butlast_append\<close>)
  then show ?thesis by (simp add: dll_def)
qed

subsection \<open>Inserting, removing and replacing a node\<close>

text \<open>The words of a group of nodes.\<close>

definition node_words :: "vaddr list \<Rightarrow> vaddr set" where
  "node_words xs = set xs \<union> (\<lambda>x. x + 4) ` set xs"

lemma nodes_sepD: "nodes_sep S \<Longrightarrow> x \<in> S \<Longrightarrow> y \<in> S \<Longrightarrow> x + 4 \<noteq> y"
  by (auto simp: nodes_sep_def)

lemma nodes_sep_subset: "nodes_sep S \<Longrightarrow> T \<subseteq> S \<Longrightarrow> nodes_sep T"
  by (auto simp: nodes_sep_def)

text \<open>
  The common core of the operations: in a chain of nodes where neither the sources nor the
  targets of the links repeat (in the circular list only the sentinel occurs twice, at the two
  ends), the nodes \<open>mid\<close> between \<open>p\<close> and \<open>q\<close> are exchanged for the nodes \<open>mid'\<close>. It is enough
  that the new middle part is linked and that no other word has changed.
\<close>

lemma links_splice:
  assumes l: "links m (as @ p # mid @ q # cs)"
    and d1: "distinct (butlast (as @ p # mid @ q # cs))"
    and d2: "distinct (tl (as @ p # mid @ q # cs))"
    and sep: "nodes_sep (set (as @ p # mid @ q # cs) \<union> set mid')"
    and new: "set mid' \<inter> set (as @ p # q # cs) = {}"
    and frame: "\<And>a. a \<notin> {p, q + 4} \<union> node_words mid \<union> node_words mid' \<Longrightarrow> ld m' a = ld m a"
    and mid: "links m' (p # mid' @ [q])"
  shows "links m' (as @ p # mid' @ q # cs)"
proof -
  have l1: "links m (as @ [p])" and l2: "links m (q # cs)"
    using l links_append [of m as p "mid @ q # cs"] links_append [of m "p # mid" q cs] by auto
  have sep': "x + 4 \<noteq> y" if "x \<in> set (as @ p # mid @ q # cs) \<union> set mid'"
      "y \<in> set (as @ p # mid @ q # cs) \<union> set mid'" for x y
    using nodes_sepD [OF sep] that by blast
  have "links m' (as @ [p]) \<longleftrightarrow> links m (as @ [p])"
  proof (rule links_cong; intro ballI)
    fix x assume x: "x \<in> set (butlast (as @ [p]))"
    then show "ld m' x = ld m x"
      using d1 new sep' by (intro frame) (auto simp: butlast_append node_words_def)
  next
    fix x assume x: "x \<in> set (tl (as @ [p]))"
    then have xin: "x \<in> set (as @ [p])" by (cases as) auto
    have "x \<noteq> q \<and> x \<notin> set mid"
      using d2 x by (cases as) auto
    then show "ld m' (x + 4) = ld m (x + 4)"
      using xin new sep' [of x] by (intro frame) (auto simp: node_words_def)
  qed
  moreover have "links m' (q # cs) \<longleftrightarrow> links m (q # cs)"
  proof (rule links_cong; intro ballI)
    fix x assume x: "x \<in> set (butlast (q # cs))"
    then have xin: "x \<in> set (q # cs)" by (rule in_set_butlastD)
    have "x \<noteq> p \<and> x \<notin> set mid"
      using d1 x by (auto simp: butlast_append split: if_splits)
    then show "ld m' x = ld m x"
      using xin new sep' [of _ x] by (intro frame) (auto simp: node_words_def)
  next
    fix x assume x: "x \<in> set (tl (q # cs))"
    have "x \<noteq> q \<and> x \<notin> set mid"
      using d2 x by (cases as) auto
    then show "ld m' (x + 4) = ld m (x + 4)"
      using x new sep' [of x] by (intro frame) (auto simp: node_words_def)
  qed
  ultimately have "links m' (as @ [p])" "links m' (q # cs)"
    using l1 l2 by simp_all
  then show ?thesis
    using mid links_append [of m' as p "mid' @ q # cs"] links_append [of m' "p # mid'" q cs] by simp
qed

lemma dll_splice:
  assumes d: "dll m h (xs @ mid @ ys)"
    and new: "distinct mid'" "set mid' \<inter> set (h # xs @ ys) = {}"
    and sep: "nodes_sep (set (h # xs @ mid @ ys) \<union> set mid')"
    and pq: "p = last (h # xs)" "q = hd (ys @ [h])"
    and frame: "\<And>a. a \<notin> {p, q + 4} \<union> node_words mid \<union> node_words mid' \<Longrightarrow> ld m' a = ld m a"
    and mid: "links m' (p # mid' @ [q])"
  shows "dll m' h (xs @ mid' @ ys)"
proof -
  let ?as = "butlast (h # xs)" and ?cs = "tl (ys @ [h])"
  have front: "h # xs = ?as @ [p]" and rear: "ys @ [h] = q # ?cs"
    using pq by (simp, cases ys, auto)
  have ring: "h # (xs @ zs @ ys) @ [h] = ?as @ p # zs @ q # ?cs" for zs
    using front rear by (metis append.assoc append_Cons append_Nil)
  have sets: "set (?as @ p # zs @ q # ?cs) = set (h # xs @ zs @ ys)" for zs
    unfolding ring [symmetric] by auto
  have "links m' (?as @ p # mid' @ q # ?cs)"
  proof (rule links_splice [of m ?as p mid q ?cs])
    show "links m (?as @ p # mid @ q # ?cs)"
      using d unfolding dll_def ring [symmetric] by simp
    show "distinct (butlast (?as @ p # mid @ q # ?cs))" "distinct (tl (?as @ p # mid @ q # ?cs))"
      using d unfolding dll_def ring [symmetric] by (auto simp: butlast_append)
    show "nodes_sep (set (?as @ p # mid @ q # ?cs) \<union> set mid')"
      using sep unfolding sets .
    show "set mid' \<inter> set (?as @ p # q # ?cs) = {}"
      using new(2) sets [of "[]"] by simp
  qed (use frame mid in auto)
  then have "links m' (h # (xs @ mid' @ ys) @ [h])"
    unfolding ring .
  moreover have "distinct (h # xs @ mid' @ ys)"
    using d new by (auto simp: dll_def)
  moreover have "nodes_sep (set (h # xs @ mid' @ ys))"
    by (rule nodes_sep_subset [OF sep]) auto
  ultimately show ?thesis by (simp add: dll_def)
qed

text \<open>The links around a position of the list.\<close>

lemma dll_links_at:
  assumes "dll m h (xs @ zs @ ys)"
  shows "links m (last (h # xs) # zs @ [hd (ys @ [h])])"
proof -
  have "h # (xs @ zs @ ys) @ [h] = butlast (h # xs) @ (last (h # xs) # zs @ [hd (ys @ [h])]) @ tl (ys @ [h])"
    by (cases ys) auto
  moreover have "links m (h # (xs @ zs @ ys) @ [h])"
    using assms by (simp only: dll_def)
  ultimately have "links m (butlast (h # xs) @ (last (h # xs) # zs @ [hd (ys @ [h])]) @ tl (ys @ [h]))"
    by (simp only:)
  then have "links m ((last (h # xs) # zs) @ hd (ys @ [h]) # tl (ys @ [h]))"
    using links_append [of m "butlast (h # xs)" "last (h # xs)" "zs @ hd (ys @ [h]) # tl (ys @ [h])"]
    by (simp only: append.assoc append_Cons append_Nil)
  then show ?thesis
    using links_append [of m "last (h # xs) # zs" "hd (ys @ [h])" "tl (ys @ [h])"] by simp
qed

lemma dll_node_next:
  assumes "dll m h (xs @ ys)"
  shows "node_next m (last (h # xs)) = hd (ys @ [h])" and "node_prev m (hd (ys @ [h])) = last (h # xs)"
  using dll_links_at [of m h xs "[]" ys] assms by auto

text \<open>A node that can be linked into the list: it is not one of its nodes and overlaps none.\<close>

definition node_fresh :: "vaddr \<Rightarrow> vaddr \<Rightarrow> vaddr list \<Rightarrow> bool" where
  "node_fresh n h xs \<longleftrightarrow> n \<notin> set (h # xs) \<and> nodes_sep (insert n (set (h # xs)))"

lemma node_4_neq [simp]: "(n :: vaddr) + 4 \<noteq> n" "n \<noteq> n + 4"
  by (simp_all add: add_cancel_right_right)

lemma last_in: "last (h # xs) \<in> set (h # xs)"
  by (rule last_in_set) simp

lemma hd_in: "hd (ys @ [h]) \<in> set (h # ys)"
  by (cases ys) auto

theorem dll_insert_after:
  assumes d: "dll m h (xs @ ys)" and n: "node_fresh n h (xs @ ys)"
  shows "dll (list_insert_after (last (h # xs)) n m) h (xs @ n # ys)"
proof -
  let ?p = "last (h # xs)" and ?q = "hd (ys @ [h])"
  have q: "node_next m ?p = ?q" using dll_node_next(1) [OF d] .
  have pin: "?p \<in> set (h # xs @ ys)" and qin: "?q \<in> set (h # xs @ ys)"
    using last_in [of h xs] hd_in [of ys h] by auto
  have ne: "?p \<noteq> n" "?q \<noteq> n" using pin qin n unfolding node_fresh_def by (metis, metis)
  have s: "x + 4 \<noteq> y" if "x \<in> {?p, ?q, n}" "y \<in> {?p, ?q, n}" for x y
    using n that pin qin nodes_sepD unfolding node_fresh_def by blast
  note sx = s [of ?p ?p] s [of ?p ?q] s [of ?p n] s [of ?q ?p] s [of ?q ?q] s [of ?q n]
    s [of n ?p] s [of n ?q] s [of n n]
  have "dll (list_insert_after ?p n m) h (xs @ [n] @ ys)"
  proof (rule dll_splice [of m h xs "[]"])
    show "nodes_sep (set (h # xs @ [] @ ys) \<union> set [n])"
      using n by (simp add: node_fresh_def insert_commute)
    show "set [n] \<inter> set (h # xs @ ys) = {}" using n by (auto simp: node_fresh_def)
    show "links (list_insert_after ?p n m) (?p # [n] @ [?q])"
      using q ne sx by (simp add: list_insert_after_def node_ops Let_def del: last.simps)
    show "ld (list_insert_after ?p n m) a = ld m a"
      if "a \<notin> {?p, ?q + 4} \<union> node_words [] \<union> node_words [n]" for a
      using that q ne sx by (simp add: list_insert_after_def node_ops Let_def node_words_def del: last.simps)
  qed (use d in auto)
  then show ?thesis by simp
qed

theorem dll_insert_before:
  assumes d: "dll m h (xs @ ys)" and n: "node_fresh n h (xs @ ys)"
  shows "dll (list_insert_before (hd (ys @ [h])) n m) h (xs @ n # ys)"
proof -
  let ?p = "last (h # xs)" and ?q = "hd (ys @ [h])"
  have q: "node_prev m ?q = ?p" using dll_node_next(2) [OF d] .
  have pin: "?p \<in> set (h # xs @ ys)" and qin: "?q \<in> set (h # xs @ ys)"
    using last_in [of h xs] hd_in [of ys h] by auto
  have ne: "?p \<noteq> n" "?q \<noteq> n" using pin qin n unfolding node_fresh_def by (metis, metis)
  have s: "x + 4 \<noteq> y" if "x \<in> {?p, ?q, n}" "y \<in> {?p, ?q, n}" for x y
    using n that pin qin nodes_sepD unfolding node_fresh_def by blast
  note sx = s [of ?p ?p] s [of ?p ?q] s [of ?p n] s [of ?q ?p] s [of ?q ?q] s [of ?q n]
    s [of n ?p] s [of n ?q] s [of n n]
  have "dll (list_insert_before ?q n m) h (xs @ [n] @ ys)"
  proof (rule dll_splice [of m h xs "[]"])
    show "nodes_sep (set (h # xs @ [] @ ys) \<union> set [n])"
      using n by (simp add: node_fresh_def insert_commute)
    show "set [n] \<inter> set (h # xs @ ys) = {}" using n by (auto simp: node_fresh_def)
    show "links (list_insert_before ?q n m) (?p # [n] @ [?q])"
      using q ne sx by (simp add: list_insert_before_def node_ops Let_def del: last.simps)
    show "ld (list_insert_before ?q n m) a = ld m a"
      if "a \<notin> {?p, ?q + 4} \<union> node_words [] \<union> node_words [n]" for a
      using that q ne sx by (simp add: list_insert_before_def node_ops Let_def node_words_def del: last.simps)
  qed (use d in auto)
  then show ?thesis by simp
qed

theorem dll_remove:
  assumes d: "dll m h (xs @ n # ys)"
  shows "dll (list_remove n m) h (xs @ ys)"
    and "node_next (list_remove n m) n = 0" and "node_prev (list_remove n m) n = 0"
proof -
  let ?p = "last (h # xs)" and ?q = "hd (ys @ [h])"
  have l: "links m (?p # [n] @ [?q])" using dll_links_at [of m h xs "[n]" ys] d by simp
  have pin: "?p \<in> set (h # xs)" and qin: "?q \<in> set (h # ys)"
    using last_in [of h xs] hd_in [of ys h] by auto
  have ne: "?p \<noteq> n" "?q \<noteq> n" using pin qin d by (auto simp: dll_def)
  have s: "x + 4 \<noteq> y" if "x \<in> {?p, ?q, n}" "y \<in> {?p, ?q, n}" for x y
  proof -
    have "x \<in> set (h # xs @ n # ys)" "y \<in> set (h # xs @ n # ys)"
      using that pin qin by auto
    then show ?thesis using d nodes_sepD unfolding dll_def by blast
  qed
  note sx = s [of ?p ?p] s [of ?p ?q] s [of ?p n] s [of ?q ?p] s [of ?q ?q] s [of ?q n]
    s [of n ?p] s [of n ?q] s [of n n]
  have "dll (list_remove n m) h (xs @ [] @ ys)"
  proof (rule dll_splice [of m h xs "[n]"])
    show "dll m h (xs @ [n] @ ys)" using d by simp
    show "nodes_sep (set (h # xs @ [n] @ ys) \<union> set [])"
      using d by (simp add: dll_def)
    show "links (list_remove n m) (?p # [] @ [?q])"
      using l ne sx by (simp add: list_remove_def node_ops Let_def del: last.simps)
    show "ld (list_remove n m) a = ld m a"
      if "a \<notin> {?p, ?q + 4} \<union> node_words [n] \<union> node_words []" for a
      using that l ne sx by (simp add: list_remove_def node_ops Let_def node_words_def del: last.simps)
  qed auto
  then show "dll (list_remove n m) h (xs @ ys)" by simp
  show "node_next (list_remove n m) n = 0" "node_prev (list_remove n m) n = 0"
    using sx by (simp_all add: list_remove_def node_ops Let_def)
qed

theorem dll_replace:
  assumes d: "dll m h (xs @ old # ys)" and n: "node_fresh n h (xs @ old # ys)"
  shows "dll (list_replace old n m) h (xs @ n # ys)"
    and "node_next (list_replace old n m) old = 0" and "node_prev (list_replace old n m) old = 0"
proof -
  let ?p = "last (h # xs)" and ?q = "hd (ys @ [h])"
  have l: "links m (?p # [old] @ [?q])" using dll_links_at [of m h xs "[old]" ys] d by simp
  have pin: "?p \<in> set (h # xs)" and qin: "?q \<in> set (h # ys)"
    using last_in [of h xs] hd_in [of ys h] by auto
  have ne: "?p \<noteq> n" "?q \<noteq> n" "?p \<noteq> old" "?q \<noteq> old" "n \<noteq> old"
    using pin qin d n by (auto simp: dll_def node_fresh_def simp del: last.simps)
  have s: "x + 4 \<noteq> y" if "x \<in> {?p, ?q, old, n}" "y \<in> {?p, ?q, old, n}" for x y
  proof -
    have "x \<in> insert n (set (h # xs @ old # ys))" "y \<in> insert n (set (h # xs @ old # ys))"
      using that pin qin by auto
    then show ?thesis using n nodes_sepD unfolding node_fresh_def by blast
  qed
  note sx = s [of ?p ?p] s [of ?p ?q] s [of ?p n] s [of ?q ?p] s [of ?q ?q] s [of ?q n]
    s [of n ?p] s [of n ?q] s [of n n] s [of ?p old] s [of ?q old] s [of n old]
    s [of old ?p] s [of old ?q] s [of old n] s [of old old]
  have "dll (list_replace old n m) h (xs @ [n] @ ys)"
  proof (rule dll_splice [of m h xs "[old]"])
    show "dll m h (xs @ [old] @ ys)" using d by simp
    show "nodes_sep (set (h # xs @ [old] @ ys) \<union> set [n])"
      using n by (simp add: node_fresh_def insert_commute)
    show "set [n] \<inter> set (h # xs @ ys) = {}" using n by (auto simp: node_fresh_def)
    show "links (list_replace old n m) (?p # [n] @ [?q])"
      using l ne sx by (simp add: list_replace_def node_ops Let_def del: last.simps)
    show "ld (list_replace old n m) a = ld m a"
      if "a \<notin> {?p, ?q + 4} \<union> node_words [old] \<union> node_words [n]" for a
      using that l ne sx by (simp add: list_replace_def node_ops Let_def node_words_def del: last.simps)
  qed auto
  then show "dll (list_replace old n m) h (xs @ n # ys)" by simp
  show "node_next (list_replace old n m) old = 0" "node_prev (list_replace old n m) old = 0"
    using ne sx by (simp_all add: list_replace_def node_ops Let_def del: last.simps)
qed

text \<open>The operations write only to the words of the nodes of the list and of the new node.\<close>

lemma dll_neighbours:
  assumes "dll m h (xs @ n # ys)"
  shows "node_prev m n \<in> set (h # xs)" and "node_next m n \<in> set (h # ys)"
  using dll_links_at [of m h xs "[n]" ys] assms last_in [of h xs] hd_in [of ys h]
  by (auto simp del: last.simps)

lemma dll_remove_frame:
  assumes d: "dll m h (xs @ n # ys)" and a: "a \<notin> node_words (h # xs @ n # ys)"
  shows "ld (list_remove n m) a = ld m a"
proof -
  have sep: "n + 4 \<noteq> node_prev m n" and "node_prev m n \<noteq> n"
    using dll_neighbours(1) [OF d] d nodes_sepD [of "set (h # xs @ n # ys)" n "node_prev m n"]
    by (auto simp: dll_def)
  then show ?thesis
    using a dll_neighbours [OF d] by (auto simp: list_remove_def node_ops Let_def node_words_def)
qed

lemma dll_replace_frame:
  assumes d: "dll m h (xs @ old # ys)" and n: "node_fresh n h (xs @ old # ys)"
    and a: "a \<notin> node_words (n # h # xs @ old # ys)"
  shows "ld (list_replace old n m) a = ld m a"
proof -
  have in_ring: "node_prev m old \<in> set (h # xs @ old # ys)" "node_next m old \<in> set (h # xs @ old # ys)"
    using dll_neighbours [OF d] by auto
  have "old + 4 \<noteq> n" "n + 4 \<noteq> old" "old \<noteq> n" "old + 4 \<noteq> node_prev m old" "node_prev m old \<noteq> old"
    using n in_ring dll_neighbours(1) [OF d] d
      nodes_sepD [of "insert n (set (h # xs @ old # ys))" old n]
      nodes_sepD [of "insert n (set (h # xs @ old # ys))" n old]
      nodes_sepD [of "insert n (set (h # xs @ old # ys))" old "node_prev m old"]
    by (auto simp: node_fresh_def dll_def)
  then show ?thesis
    using a in_ring by (auto simp: list_replace_def node_ops Let_def node_words_def)
qed

lemma dll_insert_front_frame:
  assumes d: "dll m h xs" and n: "node_fresh n h xs" and a: "a \<notin> node_words (n # h # xs)"
  shows "ld (list_insert_front h n m) a = ld m a"
proof -
  have in_ring: "node_next m h \<in> set (h # xs)"
    using dll_node_next(1) [of m h "[]" xs] d hd_in [of xs h] by simp
  have "n \<noteq> h" "n + 4 \<noteq> h"
    using n nodes_sepD [of "insert n (set (h # xs))" n h] by (auto simp: node_fresh_def)
  then show ?thesis
    using a in_ring
    by (auto simp: list_insert_front_def list_insert_after_def node_ops Let_def node_words_def)
qed

subsection \<open>Queue and search operations\<close>

lemma dll_init: "dll (list_init h m) h []"
  by (simp add: dll_def list_init_def node_ops nodes_sep_def)

lemma dll_empty_iff:
  assumes "dll m h xs"
  shows "list_empty m h \<longleftrightarrow> xs = []"
  using assms dll_node_next(1) [of m h "[]" xs] by (cases xs) (auto simp: list_empty_def dll_def)

lemma dll_front_back:
  assumes "dll m h xs"
  shows "list_front m h = (case xs of [] \<Rightarrow> 0 | x # _ \<Rightarrow> x)"
    and "list_back m h = (if xs = [] then 0 else last xs)"
  using assms dll_empty_iff [OF assms] dll_node_next(1) [of m h "[]" xs] dll_node_next(2) [of m h xs "[]"]
  by (auto simp: list_front_def list_back_def split: list.split)

lemma dll_insert_front:
  assumes "dll m h xs" and "node_fresh n h xs"
  shows "dll (list_insert_front h n m) h (n # xs)"
  using dll_insert_after [of m h "[]" xs n] assms by (simp add: list_insert_front_def)

lemma dll_insert_back:
  assumes "dll m h xs" and "node_fresh n h xs"
  shows "dll (list_insert_back h n m) h (xs @ [n])"
  using dll_insert_before [of m h xs "[]" n] assms by (simp add: list_insert_back_def)

lemma dll_pop_front:
  assumes "dll m h xs"
  shows "case xs of [] \<Rightarrow> list_pop_front h m = (0, m)
         | x # xs' \<Rightarrow> fst (list_pop_front h m) = x \<and> dll (snd (list_pop_front h m)) h xs'"
  using assms dll_empty_iff [OF assms] dll_node_next(1) [of m h "[]" xs] dll_remove(1) [of m h "[]"]
  by (auto simp: list_pop_front_def Let_def split: list.split)

lemma dll_pop_back:
  assumes "dll m h (xs @ [x])"
  shows "fst (list_pop_back h m) = x \<and> dll (snd (list_pop_back h m)) h xs"
  using assms dll_empty_iff [OF assms] dll_node_next(2) [of m h "xs @ [x]" "[]"] dll_remove(1) [of m h xs x "[]"]
  by (auto simp: list_pop_back_def Let_def)

text \<open>
  The search visits the nodes in order, stops at the first one that satisfies the test, and
  ends at the sentinel when there is none: on a well-formed list the loop always ends.
\<close>

lemma list_for_each_until_spec:
  assumes "links m (zs @ [h])" and "h \<notin> set zs"
  shows "list_for_each_until m h P (hd (zs @ [h])) = Some (hd (filter P zs @ [h]))"
  using assms
proof (induction zs)
  case Nil
  then show ?case by (simp add: list_for_each_until.simps)
next
  case (Cons z zs)
  have "links m (zs @ [h])" "node_next m z = hd (zs @ [h])"
    using Cons.prems(1) by (cases zs; simp)+
  then show ?case
    using Cons by (subst list_for_each_until.simps) auto
qed

lemma dll_search:
  assumes "dll m h xs"
  shows "list_search m h P = Some (hd (filter P xs @ [h]))"
proof -
  have "links m (xs @ [h])" using assms by (cases xs) (auto simp: dll_def)
  then show ?thesis
    using assms list_for_each_until_spec [of m xs h P] dll_node_next(1) [of m h "[]" xs]
    by (simp add: list_search_def dll_def)
qed

subsection \<open>The contract of a pool of nodes\<close>

text \<open>
  What the users of the list (the free list of the heap, the region list of an address space)
  rely on: nodes are added in front, taken out anywhere, and found by a first-fit search.
\<close>

locale node_pool =
  fixes repr :: "'m \<Rightarrow> 'n list \<Rightarrow> bool"
    and fresh :: "'n \<Rightarrow> 'n list \<Rightarrow> bool"
    and add :: "'n \<Rightarrow> 'm \<Rightarrow> 'm"
    and del :: "'n \<Rightarrow> 'm \<Rightarrow> 'm"
    and search :: "'m \<Rightarrow> ('n \<Rightarrow> bool) \<Rightarrow> 'n option"
    and nothing :: 'n
  assumes repr_distinct: "repr m xs \<Longrightarrow> distinct xs \<and> nothing \<notin> set xs"
    and fresh_notin: "fresh n xs \<Longrightarrow> n \<notin> set xs"
    and add_repr: "repr m xs \<Longrightarrow> fresh n xs \<Longrightarrow> repr (add n m) (n # xs)"
    and del_repr: "repr m (xs @ n # ys) \<Longrightarrow> repr (del n m) (xs @ ys)"
    and search_repr: "repr m xs \<Longrightarrow> search m P = Some (hd (filter P xs @ [nothing]))"
begin

lemma del_member: "repr m xs \<Longrightarrow> n \<in> set xs \<Longrightarrow> repr (del n m) (remove1 n xs)"
proof -
  assume r: "repr m xs" and "n \<in> set xs"
  then obtain ys zs where xs: "xs = ys @ n # zs" by (meson split_list)
  moreover have "n \<notin> set ys" using repr_distinct [OF r] xs by auto
  ultimately show ?thesis using del_repr r by (simp add: remove1_append)
qed

lemma add_del: "repr m xs \<Longrightarrow> fresh n xs \<Longrightarrow> repr (del n (add n m)) xs"
  using add_repr del_repr [of _ "[]"] by simp

lemma search_found:
  assumes "repr m xs" and "search m P = Some n" and "n \<noteq> nothing"
  shows "n \<in> set xs" and "P n"
proof -
  have "n = hd (filter P xs @ [nothing])" using search_repr [OF assms(1), of P] assms(2) by simp
  then have "n \<in> set (filter P xs)" using assms(3) by (cases "filter P xs") auto
  then show "n \<in> set xs" "P n" by auto
qed

lemma search_nothing:
  assumes "repr m xs" and "search m P = Some nothing"
  shows "\<forall>n\<in>set xs. \<not> P n"
proof -
  have "nothing = hd (filter P xs @ [nothing])" using search_repr [OF assms(1), of P] assms(2) by simp
  moreover have "nothing \<notin> set (filter P xs)" using repr_distinct [OF assms(1)] by simp
  ultimately have "filter P xs = []" by (cases "filter P xs") auto
  then show ?thesis by (simp add: filter_empty_conv)
qed

lemma search_returns: "repr m xs \<Longrightarrow> \<exists>n. search m P = Some n"
  using search_repr by blast

end

interpretation lst: node_pool "\<lambda>m xs. dll m h xs" "\<lambda>n xs. node_fresh n h xs"
    "list_insert_front h" list_remove "\<lambda>m P. list_search m h P" h
  for h
proof unfold_locales
  show "dll m h xs \<Longrightarrow> distinct xs \<and> h \<notin> set xs" for m xs by (simp add: dll_def)
qed (auto simp: node_fresh_def dll_search dll_remove(1) intro: dll_insert_front)

end
