(* ===== verification/Klib_Bitmap.thy ===== *)
theory Klib_Bitmap
  imports Prelude
begin

text \<open>
  The bitmap of \<^verbatim>\<open>src/kernel/klib/bitmap.c\<close>: its operations, the contract they give to
  their clients (the locale \<open>bitset\<close>), the search for the first cleared bit, and the
  search for a run of cleared bits that the physical memory manager
  (\<^verbatim>\<open>pmm.c\<close>) and the IRQ layer (\<^verbatim>\<open>irq.c\<close>) both write as the same loop.
  The buffer is a raw \<open>uint32_t *\<close>: \<open>bm_data\<close> gives the word at each index from that
  pointer, within the buffer and beyond it.
\<close>

subsection \<open>Data and operations\<close>

record bitmap =
  bm_data :: "nat \<Rightarrow> u32"
  bm_nbits :: size_t
  bm_nelems :: size_t

definition BITMAP_BITS_PER_ELEM :: size_t where
  "BITMAP_BITS_PER_ELEM = 32"

definition BITMAP_ELEMS :: "size_t \<Rightarrow> size_t" where
  "BITMAP_ELEMS nbits = (nbits + BITMAP_BITS_PER_ELEM - 1) div BITMAP_BITS_PER_ELEM"

text \<open>The static initializer sets \<open>nelems\<close>, the function \<open>bitmap_init\<close> leaves it as it is.\<close>

definition BITMAP_INIT :: "(nat \<Rightarrow> u32) \<Rightarrow> size_t \<Rightarrow> bitmap" where
  "BITMAP_INIT buffer bits =
     \<lparr>bm_data = buffer, bm_nbits = bits, bm_nelems = BITMAP_ELEMS bits\<rparr>"

definition bitmap_init :: "bitmap \<Rightarrow> (nat \<Rightarrow> u32) \<Rightarrow> size_t \<Rightarrow> bitmap" where
  "bitmap_init bm buffer nbits = bm\<lparr>bm_data := buffer, bm_nbits := nbits\<rparr>"

definition bitmap_set :: "bitmap \<Rightarrow> size_t \<Rightarrow> bitmap" where
  "bitmap_set bm bitpos =
     (let i = unat (bitpos div BITMAP_BITS_PER_ELEM);
          msk = BIT (unat (bitpos mod BITMAP_BITS_PER_ELEM))
      in bm\<lparr>bm_data := (bm_data bm)(i := MASK_SET (bm_data bm i) msk)\<rparr>)"

definition bitmap_clear :: "bitmap \<Rightarrow> size_t \<Rightarrow> bitmap" where
  "bitmap_clear bm bitpos =
     (let i = unat (bitpos div BITMAP_BITS_PER_ELEM);
          msk = BIT (unat (bitpos mod BITMAP_BITS_PER_ELEM))
      in bm\<lparr>bm_data := (bm_data bm)(i := MASK_CLEAR (bm_data bm i) msk)\<rparr>)"

definition bitmap_test :: "bitmap \<Rightarrow> size_t \<Rightarrow> bool" where
  "bitmap_test bm bitpos =
     MASK_TEST (bm_data bm (unat (bitpos div BITMAP_BITS_PER_ELEM)))
       (BIT (unat (bitpos mod BITMAP_BITS_PER_ELEM)))"

definition bitmap_size :: "size_t \<Rightarrow> size_t" where
  "bitmap_size nbits =
     (nbits + BITMAP_BITS_PER_ELEM - 1) div BITMAP_BITS_PER_ELEM * 4"

text \<open>
  The nested loops of \<open>bitmap_find_zero\<close>: the outer one over the words of the buffer, the
  inner one over the bits of the complemented word.
\<close>

fun bitmap_find_zero_from :: "bitmap \<Rightarrow> nat list \<Rightarrow> size_t option" where
  "bitmap_find_zero_from bm [] = None"
| "bitmap_find_zero_from bm (i # is) =
     (let free = NOT (bm_data bm i)
      in if free = 0 then bitmap_find_zero_from bm is
         else (case find (\<lambda>b. MASK_TEST free (BIT b)) [0..<32] of
                 None \<Rightarrow> bitmap_find_zero_from bm is
               | Some b \<Rightarrow>
                   let pos = of_nat i * BITMAP_BITS_PER_ELEM + of_nat b
                   in if bm_nbits bm \<le> pos then None else Some pos))"

definition bitmap_find_zero :: "bitmap \<Rightarrow> size_t option" where
  "bitmap_find_zero bm = bitmap_find_zero_from bm [0..<unat (BITMAP_ELEMS (bm_nbits bm))]"

text \<open>
  The scan for \<open>pages\<close> consecutive cleared bits below \<open>limit\<close>: a set bit resets the count
  of consecutive cleared bits, and the scan stops when the count reaches \<open>pages\<close>.
\<close>

function bitmap_scan :: "bitmap \<Rightarrow> u32 \<Rightarrow> u32 \<Rightarrow> u32 \<Rightarrow> u32 \<Rightarrow> u32 option" where
  "bitmap_scan bm pages limit i consecutive =
     (if i < limit
      then if bitmap_test bm i then bitmap_scan bm pages limit (i + 1) 0
           else if consecutive + 1 = pages then Some (i - pages + 1)
           else bitmap_scan bm pages limit (i + 1) (consecutive + 1)
      else None)"
  by pat_completeness auto
termination
  by (relation "measure (\<lambda>(bm, pages, limit, i, c). unat limit - unat i)")
    (auto simp: unat_plus_1_less word_less_nat_alt)

declare bitmap_scan.simps [simp del]

subsection \<open>The contract of a bit set\<close>

locale bitset =
  fixes test :: "'b \<Rightarrow> 'i \<Rightarrow> bool"
    and setb :: "'b \<Rightarrow> 'i \<Rightarrow> 'b"
    and clearb :: "'b \<Rightarrow> 'i \<Rightarrow> 'b"
  assumes test_set: "test (setb b i) j \<longleftrightarrow> j = i \<or> test b j"
    and test_clear: "test (clearb b i) j \<longleftrightarrow> j \<noteq> i \<and> test b j"
begin

lemma test_set_list: "test (fold (\<lambda>i b. setb b i) is b) j \<longleftrightarrow> j \<in> set is \<or> test b j"
  by (induction "is" arbitrary: b) (auto simp: test_set)

lemma test_clear_list: "test (fold (\<lambda>i b. clearb b i) is b) j \<longleftrightarrow> j \<notin> set is \<and> test b j"
  by (induction "is" arbitrary: b) (auto simp: test_clear)

lemma test_guarded_set_list:
  "test (fold (\<lambda>i b. if P i then setb b i else b) is b) j \<longleftrightarrow> j \<in> set is \<and> P j \<or> test b j"
  by (induction "is" arbitrary: b) (auto simp: test_set)

lemma set_clear_list_id:
  assumes "\<forall>i\<in>set is. \<not> test b i"
  shows "test (fold (\<lambda>i b. clearb b i) is (fold (\<lambda>i b. setb b i) is b)) j = test b j"
  using assms by (auto simp: test_clear_list test_set_list)

end

subsection \<open>The bitmap keeps the contract\<close>

lemma bitmap_test_bit:
  "bitmap_test bm p \<longleftrightarrow> bit (bm_data bm (unat p div 32)) (unat p mod 32)"
  by (simp add: bitmap_test_def BITMAP_BITS_PER_ELEM_def MASK_TEST_BIT unat_div unat_mod)

lemma div_mod_32_eq: "(i = (j::u32)) \<longleftrightarrow> unat i div 32 = unat j div 32 \<and> unat i mod 32 = unat j mod 32"
proof
  assume "unat i div 32 = unat j div 32 \<and> unat i mod 32 = unat j mod 32"
  then have "unat i = unat j" by (metis div_mult_mod_eq)
  then show "i = j" by (simp add: word_unat_eq_iff)
qed simp

lemma bitmap_test_set: "bitmap_test (bitmap_set bm i) j \<longleftrightarrow> j = i \<or> bitmap_test bm j"
  unfolding bitmap_test_bit div_mod_32_eq [of j i]
  by (auto simp: bitmap_set_def Let_def BITMAP_BITS_PER_ELEM_def unat_div unat_mod bit_MASK_SET_BIT)

lemma bitmap_test_clear: "bitmap_test (bitmap_clear bm i) j \<longleftrightarrow> j \<noteq> i \<and> bitmap_test bm j"
  unfolding bitmap_test_bit div_mod_32_eq [of j i]
  by (auto simp: bitmap_clear_def Let_def BITMAP_BITS_PER_ELEM_def unat_div unat_mod bit_MASK_CLEAR_BIT)

interpretation bm: bitset bitmap_test bitmap_set bitmap_clear
  by unfold_locales (rule bitmap_test_set, rule bitmap_test_clear)

lemma bitmap_nbits_set [simp]: "bm_nbits (bitmap_set bm i) = bm_nbits bm"
  by (simp add: bitmap_set_def Let_def)

lemma bitmap_nbits_clear [simp]: "bm_nbits (bitmap_clear bm i) = bm_nbits bm"
  by (simp add: bitmap_clear_def Let_def)

text \<open>Only the word that holds the bit is written.\<close>

lemma bitmap_set_frame: "k \<noteq> unat i div 32 \<Longrightarrow> bm_data (bitmap_set bm i) k = bm_data bm k"
  by (simp add: bitmap_set_def Let_def BITMAP_BITS_PER_ELEM_def unat_div)

lemma bitmap_clear_frame: "k \<noteq> unat i div 32 \<Longrightarrow> bm_data (bitmap_clear bm i) k = bm_data bm k"
  by (simp add: bitmap_clear_def Let_def BITMAP_BITS_PER_ELEM_def unat_div)

subsection \<open>Searching for the first cleared bit\<close>

text \<open>\<open>bm_free bm n\<close>: bit number \<open>n\<close> is clear, with the bit number as a natural number.\<close>

definition bm_free :: "bitmap \<Rightarrow> nat \<Rightarrow> bool" where
  "bm_free bm n \<longleftrightarrow> \<not> bitmap_test bm (of_nat n)"

lemma bm_free_unat: "bm_free bm (unat p) \<longleftrightarrow> \<not> bitmap_test bm p"
  by (simp add: bm_free_def)

lemma bm_free_bit: "n < 2 ^ 32 \<Longrightarrow> bm_free bm n \<longleftrightarrow> \<not> bit (bm_data bm (n div 32)) (n mod 32)"
  by (simp add: bm_free_def bitmap_test_bit unat_of_nat_small)

lemma find_first_set_bit:
  fixes free :: u32
  assumes "free \<noteq> 0"
  obtains b where "find (\<lambda>b. MASK_TEST free (BIT b)) [0..<32] = Some b"
    and "b < 32" and "bit free b" and "\<forall>k<b. \<not> bit free k"
proof -
  have "\<exists>b<32. bit free b"
  proof (rule ccontr)
    assume "\<not> (\<exists>b<32. bit free b)"
    then have "free = 0" by (intro bit_word_eqI) auto
    with assms show False by contradiction
  qed
  then have "find (\<lambda>b. MASK_TEST free (BIT b)) [0..<32] \<noteq> None"
    by (auto simp: find_None_iff MASK_TEST_BIT)
  then obtain b where b: "find (\<lambda>b. MASK_TEST free (BIT b)) [0..<32] = Some b" by auto
  then obtain i where "i < 32" "b = i" "MASK_TEST free (BIT i)" "\<forall>k<i. \<not> MASK_TEST free (BIT k)"
    by (fastforce simp: find_Some_iff)
  then show thesis
    using that [OF b] by (simp add: MASK_TEST_BIT)
qed

text \<open>
  The outer loop from word \<open>n\<close> on: it finds the least cleared bit from there, and refuses
  it when it lies beyond \<open>nbits\<close>.
\<close>

lemma bitmap_find_zero_from_spec:
  assumes "unat (bm_nbits bm) \<le> 32 * e" and "32 * e \<le> 2 ^ 32" and "n \<le> e"
    and "\<forall>k<32 * n. \<not> bm_free bm k"
  shows "case bitmap_find_zero_from bm [n..<e] of
      Some p \<Rightarrow> p < bm_nbits bm \<and> \<not> bitmap_test bm p \<and> (\<forall>q<p. bitmap_test bm q)
    | None \<Rightarrow> \<forall>q<bm_nbits bm. bitmap_test bm q"
  using assms(3,4)
proof (induction "e - n" arbitrary: n)
  case 0
  then have "\<forall>k<32 * e. \<not> bm_free bm k" by simp
  then have "bitmap_test bm q" if "q < bm_nbits bm" for q
    using that assms(1) by (metis bm_free_unat less_le_trans word_less_nat_alt)
  with 0 show ?case by simp
next
  case (Suc d)
  then have ne: "n < e" by simp
  show ?case
  proof (cases "NOT (bm_data bm n) = 0")
    case True
    then have full: "bm_data bm n = -1" by (metis bit.double_compl bit.compl_zero)
    have "\<not> bm_free bm k" if "k < 32 * Suc n" for k
    proof (cases "k < 32 * n")
      case False
      with that have "k div 32 = n" "k mod 32 < 32" by auto
      moreover have "32 * Suc n \<le> 32 * e" using ne by simp
      with that assms(2) have "k < 2 ^ 32" by linarith
      ultimately show ?thesis by (simp add: bm_free_bit full bit_minus_1_iff)
    qed (use Suc.prems in blast)
    then have "case bitmap_find_zero_from bm [Suc n..<e] of
        Some p \<Rightarrow> p < bm_nbits bm \<and> \<not> bitmap_test bm p \<and> (\<forall>q<p. bitmap_test bm q)
      | None \<Rightarrow> \<forall>q<bm_nbits bm. bitmap_test bm q"
      using Suc.hyps ne by (intro Suc.hyps(1)) auto
    then show ?thesis using ne True by (simp add: upt_conv_Cons)
  next
    case False
    then obtain b where b: "find (\<lambda>b. MASK_TEST (NOT (bm_data bm n)) (BIT b)) [0..<32] = Some b"
      "b < 32" "\<not> bit (bm_data bm n) b" "\<forall>k<b. bit (bm_data bm n) k"
      by (rule find_first_set_bit) (simp add: bit_not_iff)
    define pos :: u32 where "pos = of_nat n * BITMAP_BITS_PER_ELEM + of_nat b"
    have lt: "32 * n + b < 2 ^ 32" using b(2) ne assms(2) by linarith
    have "pos = of_nat (32 * n + b)" by (simp add: pos_def BITMAP_BITS_PER_ELEM_def)
    moreover have "unat (of_nat (32 * n + b) :: u32) = 32 * n + b"
      by (rule unat_of_nat_small) (use lt in simp)
    ultimately have upos: "unat pos = 32 * n + b" by (simp only:)
    have free: "\<not> bitmap_test bm pos" using b by (simp add: bitmap_test_bit upos)
    have low: "bitmap_test bm q" if "q < pos" for q
    proof (cases "unat q < 32 * n")
      case True
      then show ?thesis using Suc.prems(2) bm_free_unat by blast
    next
      case False
      with that obtain t where "unat q = 32 * n + t" "t < b"
        by (auto simp: word_less_nat_alt upos not_less le_iff_add)
      then have "unat q div 32 = n" "unat q mod 32 < b" using b(2) by auto
      with b(4) show ?thesis by (simp add: bitmap_test_bit)
    qed
    have "bitmap_find_zero_from bm [n..<e] = (if bm_nbits bm \<le> pos then None else Some pos)"
      using ne False b(1) by (simp add: upt_conv_Cons pos_def)
    then show ?thesis using free low by (auto split: if_splits)
  qed
qed

lemma unat_BITMAP_ELEMS:
  assumes "unat n + 31 < 2 ^ 32"
  shows "unat (BITMAP_ELEMS n) = (unat n + 31) div 32"
proof -
  have "n + 32 - 1 = n + 31" by simp
  then have "BITMAP_ELEMS n = (n + 31) div 32"
    by (simp only: BITMAP_ELEMS_def BITMAP_BITS_PER_ELEM_def)
  moreover have "unat (n + 31) = unat n + 31"
    using assms by (simp add: unat_word_ariths)
  ultimately show ?thesis
    by (simp add: unat_div)
qed

lemma bitmap_find_zero_cases:
  assumes "unat (bm_nbits bm) + 31 < 2 ^ 32"
  shows "case bitmap_find_zero bm of
      Some p \<Rightarrow> p < bm_nbits bm \<and> \<not> bitmap_test bm p \<and> (\<forall>q<p. bitmap_test bm q)
    | None \<Rightarrow> \<forall>q<bm_nbits bm. bitmap_test bm q"
  unfolding bitmap_find_zero_def unat_BITMAP_ELEMS [OF assms]
  by (rule bitmap_find_zero_from_spec) (use assms in auto)

lemma bitmap_find_zero_SomeD:
  assumes "bitmap_find_zero bm = Some p" and "unat (bm_nbits bm) + 31 < 2 ^ 32"
  shows "p < bm_nbits bm" and "\<not> bitmap_test bm p" and "\<forall>q<p. bitmap_test bm q"
  using bitmap_find_zero_cases [OF assms(2)] assms(1) by simp_all

lemma bitmap_find_zero_None_iff:
  assumes "unat (bm_nbits bm) + 31 < 2 ^ 32"
  shows "bitmap_find_zero bm = None \<longleftrightarrow> (\<forall>q<bm_nbits bm. bitmap_test bm q)"
  using bitmap_find_zero_cases [OF assms] by (cases "bitmap_find_zero bm") auto

subsection \<open>Searching for a run of cleared bits\<close>

definition bm_run :: "bitmap \<Rightarrow> nat \<Rightarrow> nat \<Rightarrow> bool" where
  "bm_run bm p n \<longleftrightarrow> (\<forall>k. p \<le> k \<and> k < p + n \<longrightarrow> bm_free bm k)"

lemma bm_run_0 [simp]: "bm_run bm p 0"
  by (auto simp: bm_run_def)

text \<open>
  The scan at position \<open>i\<close> with \<open>c\<close> cleared bits just behind it finds the first run of
  \<open>pages\<close> cleared bits that starts at \<open>i - c\<close> or later and ends at \<open>limit\<close> at the latest,
  and finds one whenever there is one.
\<close>

lemma bitmap_scan_spec:
  assumes "unat c \<le> unat i" and "unat c < unat pages"
    and "bm_run bm (unat i - unat c) (unat c)"
  shows "case bitmap_scan bm pages limit i c of
      Some r \<Rightarrow> unat i - unat c \<le> unat r \<and> unat r + unat pages \<le> unat limit
        \<and> bm_run bm (unat r) (unat pages)
        \<and> (\<forall>q. unat i - unat c \<le> q \<and> q < unat r \<longrightarrow> \<not> bm_run bm q (unat pages))
    | None \<Rightarrow> \<forall>q. unat i - unat c \<le> q \<and> q + unat pages \<le> unat limit \<longrightarrow>
        \<not> bm_run bm q (unat pages)"
  using assms
proof (induction bm pages limit i c rule: bitmap_scan.induct)
  case (1 bm pages limit i c)
  note step = bitmap_scan.simps [of bm pages limit i c]
  show ?case
  proof (cases "i < limit")
    case False
    have "\<not> bm_run bm q (unat pages)"
      if "unat i - unat c \<le> q" "q + unat pages \<le> unat limit" for q
      using that False 1(4) by (simp add: word_less_nat_alt)
    with False show ?thesis by (simp add: step)
  next
    case lt: True
    then have i1: "unat (i + 1) = unat i + 1" by (rule unat_plus_1_less)
    show ?thesis
    proof (cases "bitmap_test bm i")
      case used: True
      have ih: "case bitmap_scan bm pages limit (i + 1) 0 of
          Some r \<Rightarrow> unat i + 1 \<le> unat r \<and> unat r + unat pages \<le> unat limit
            \<and> bm_run bm (unat r) (unat pages)
            \<and> (\<forall>q. unat i + 1 \<le> q \<and> q < unat r \<longrightarrow> \<not> bm_run bm q (unat pages))
        | None \<Rightarrow> \<forall>q. unat i + 1 \<le> q \<and> q + unat pages \<le> unat limit \<longrightarrow>
            \<not> bm_run bm q (unat pages)"
        using 1(1) [OF lt used, unfolded i1] 1(4) by (simp cong: option.case_cong)
      have blocked: "\<not> bm_run bm q (unat pages)" if "unat i - unat c \<le> q" "q \<le> unat i" for q
        using that used 1(3,4) by (auto simp: bm_run_def bm_free_unat intro!: exI [of _ "unat i"])
      show ?thesis
        using ih blocked lt used
        by (auto simp: step not_less_eq_eq split: option.splits)
          (metis Suc_leI not_less)+
    next
      case free: False
      have run: "bm_run bm (unat i - unat c) (unat c + 1)"
        using 1(3,5) free by (auto simp: bm_run_def bm_free_unat less_Suc_eq)
      have c1: "unat (c + 1) = unat c + 1"
        using 1(4) by (intro unat_plus_1_less [of c pages]) (simp add: word_less_nat_alt)
      show ?thesis
      proof (cases "c + 1 = pages")
        case True
        then have p: "unat pages = unat c + 1" using c1 by simp
        have "i - pages + 1 = i - c" using True by auto
        moreover have "unat (i - c) = unat i - unat c"
          using 1(3) by (rule unat_sub_nowrap)
        ultimately show ?thesis
          using lt free True run p 1(3) by (auto simp: step word_less_nat_alt)
      next
        case False
        then have "unat c + 1 < unat pages"
          using 1(4) c1 by (metis Suc_eq_plus1 Suc_lessI word_unat_eq_iff)
        then show ?thesis
          using 1(2) [OF lt free False, unfolded i1 c1] lt free False run 1(3)
          by (simp add: step cong: option.case_cong)
      qed
    qed
  qed
qed

subsection \<open>Marking and releasing a run\<close>

text \<open>
  The loops that mark or release the bits \<open>first, \<dots>, first + n - 1\<close>, written with the
  offset as the counter (as in \<open>pmm_reserve\<close>) or with the bit number as the counter (as in
  \<open>pmm_free\<close>).
\<close>

lemma fold_map_plus: "fold (\<lambda>i b. g b (f + i)) xs b = fold (\<lambda>i b. g b i) (map ((+) f) xs) b"
  by (induction xs arbitrary: b) auto

lemma plus_upto_iff:
  fixes f n j :: u32
  assumes "unat f + unat n \<le> 2 ^ 32"
  shows "j \<in> (+) f ` {i. i < n} \<longleftrightarrow> unat f \<le> unat j \<and> unat j < unat f + unat n"
proof
  assume "j \<in> (+) f ` {i. i < n}"
  then obtain i where i: "j = f + i" "unat i < unat n" by (auto simp: word_less_nat_alt)
  then have "unat j = unat f + unat i" using assms by (simp add: unat_add_nowrap)
  with i show "unat f \<le> unat j \<and> unat j < unat f + unat n" by simp
next
  assume h: "unat f \<le> unat j \<and> unat j < unat f + unat n"
  then have "unat (j - f) = unat j - unat f" by (simp add: unat_sub_nowrap)
  with h have "j - f < n" by (auto simp: word_less_nat_alt)
  then show "j \<in> (+) f ` {i. i < n}" by (intro image_eqI [of _ _ "j - f"]) auto
qed

lemma bitmap_test_set_run:
  assumes "unat f + unat n \<le> 2 ^ 32"
  shows "bitmap_test (for_u32 0 n (\<lambda>i b. bitmap_set b (f + i)) bm) j \<longleftrightarrow>
    unat f \<le> unat j \<and> unat j < unat f + unat n \<or> bitmap_test bm j"
  using plus_upto_iff [OF assms, of j]
  by (simp add: for_u32_def fold_map_plus [of bitmap_set] bm.test_set_list)

lemma bitmap_test_clear_run:
  assumes "unat f + unat n \<le> 2 ^ 32"
  shows "bitmap_test (for_u32 0 n (\<lambda>i b. bitmap_clear b (f + i)) bm) j \<longleftrightarrow>
    \<not> (unat f \<le> unat j \<and> unat j < unat f + unat n) \<and> bitmap_test bm j"
  using plus_upto_iff [OF assms, of j]
  by (simp add: for_u32_def fold_map_plus [of bitmap_clear] bm.test_clear_list)

lemma bitmap_test_clear_upto:
  "bitmap_test (for_u32 a b (\<lambda>i bm. bitmap_clear bm i) bm) j \<longleftrightarrow> \<not> (a \<le> j \<and> j < b) \<and> bitmap_test bm j"
  by (simp add: for_u32_def bm.test_clear_list)

lemma for_u32_nbits:
  assumes "\<And>i b. bm_nbits (body i b) = bm_nbits b"
  shows "bm_nbits (for_u32 a b body bm) = bm_nbits bm"
  by (rule for_u32_inv [of "\<lambda>b. bm_nbits b = bm_nbits bm"]) (simp_all add: assms)

subsection \<open>Counting cleared bits\<close>

definition bm_zeros :: "bitmap \<Rightarrow> nat \<Rightarrow> nat" where
  "bm_zeros bm n = card {k. k < n \<and> bm_free bm k}"

lemma bm_zeros_le: "bm_zeros bm n \<le> n"
proof -
  have "card {k. k < n \<and> bm_free bm k} \<le> card {k. k < n}" by (rule card_mono) auto
  then show ?thesis by (simp add: bm_zeros_def)
qed

lemma bm_zeros_mark:
  assumes "bm_run bm p c" and "p + c \<le> n"
    and "\<forall>k<n. bm_free bm' k \<longleftrightarrow> bm_free bm k \<and> \<not> (p \<le> k \<and> k < p + c)"
  shows "bm_zeros bm n = bm_zeros bm' n + c"
proof -
  have "{k. k < n \<and> bm_free bm k} = {k. k < n \<and> bm_free bm' k} \<union> {p..<p + c}"
    using assms by (auto simp: bm_run_def)
  moreover have "{k. k < n \<and> bm_free bm' k} \<inter> {p..<p + c} = {}"
    using assms(3) by auto
  ultimately show ?thesis by (simp add: bm_zeros_def card_Un_disjoint)
qed

lemma bm_zeros_release:
  assumes "\<forall>k. p \<le> k \<and> k < p + c \<longrightarrow> \<not> bm_free bm k" and "p + c \<le> n"
    and "\<forall>k<n. bm_free bm' k \<longleftrightarrow> bm_free bm k \<or> p \<le> k \<and> k < p + c"
  shows "bm_zeros bm' n = bm_zeros bm n + c"
proof (rule bm_zeros_mark)
  show "bm_run bm' p c" using assms(2,3) by (auto simp: bm_run_def)
  show "p + c \<le> n" by fact
  show "\<forall>k<n. bm_free bm k \<longleftrightarrow> bm_free bm' k \<and> \<not> (p \<le> k \<and> k < p + c)"
    using assms(1,3) by auto
qed

end
