(* ===== verification/Klib_Props.thy ===== *)
theory Klib_Props
  imports Klib_List Klib_Bitmap
begin

text \<open>
  The properties of the kernel library's list and bitmap and of the error pointers, as their
  users rely on them.
\<close>

subsection \<open>The list\<close>

text \<open>
  C31. At any node of a well-formed circular list the editing operations do what their names say to
  the sequence of nodes, and keep the list well-formed: a new node is linked in directly after
  or before the node, takes its place, or the node is taken out and left unlinked.
\<close>

theorem list_edit_correct:
  assumes d: "dll m h (xs @ node # ys)" and n: "node_fresh new h (xs @ node # ys)"
  shows "dll (list_insert_after node new m) h (xs @ node # new # ys)
     \<and> dll (list_insert_before node new m) h (xs @ new # node # ys)
     \<and> dll (list_replace node new m) h (xs @ new # ys)
     \<and> dll (list_remove node m) h (xs @ ys)
     \<and> node_next (list_remove node m) node = 0 \<and> node_prev (list_remove node m) node = 0"
proof (intro conjI)
  show "dll (list_insert_after node new m) h (xs @ node # new # ys)"
    using dll_insert_after [of m h "xs @ [node]" ys new] d n by simp
  show "dll (list_insert_before node new m) h (xs @ new # node # ys)"
    using dll_insert_before [of m h xs "node # ys" new] d n by simp
  show "dll (list_replace node new m) h (xs @ new # ys)" by (rule dll_replace(1) [OF d n])
  show "dll (list_remove node m) h (xs @ ys)" by (rule dll_remove(1) [OF d])
  show "node_next (list_remove node m) node = 0" by (rule dll_remove(2) [OF d])
  show "node_prev (list_remove node m) node = 0" by (rule dll_remove(3) [OF d])
qed

text \<open>A list with one node at \<open>16\<close> behind the sentinel at \<open>8\<close>, for the witnesses.\<close>

definition list_sample :: mem where
  "list_sample = list_insert_front 8 16 (list_init 8 (\<lambda>_. 0))"

lemma sample_dll: "dll list_sample 8 ([] @ 16 # [])" and sample_fresh: "node_fresh 32 8 ([] @ 16 # [])"
proof -
  have "node_fresh 16 8 []" by (simp add: node_fresh_def nodes_sep_def)
  from dll_insert_front [OF dll_init this] show "dll list_sample 8 ([] @ 16 # [])"
    by (simp add: list_sample_def)
  show "node_fresh 32 8 ([] @ 16 # [])" by (simp add: node_fresh_def nodes_sep_def)
qed

theorem list_edit_correct_witness:
  "dll (list_insert_after 16 32 list_sample) 8 [16, 32] \<and> dll (list_remove 16 list_sample) 8 []"
  using list_edit_correct [OF sample_dll sample_fresh] by simp

text \<open>
  C32. A walk over a well-formed list that stops at the first node with a given property always
  ends, at the first such node in list order, and at the sentinel when there is none.
\<close>

theorem list_search_correct:
  assumes "dll m h xs"
  shows "list_search m h P = Some (case find P xs of Some x \<Rightarrow> x | None \<Rightarrow> h)"
proof -
  have "hd (filter P xs @ [h]) = (case find P xs of Some x \<Rightarrow> x | None \<Rightarrow> h)" for xs
    by (induction xs) auto
  then show ?thesis using dll_search [OF assms] by simp
qed

theorem list_search_correct_witness:
  "list_search list_sample 8 (\<lambda>x. x = 16) = Some 16 \<and> list_search list_sample 8 (\<lambda>x. x = 20) = Some 8"
  using list_search_correct [OF sample_dll] by simp

subsection \<open>The bitmap\<close>

text \<open>
  \<open>bitmap_find_zero\<close> returns the position of the lowest cleared bit below the size of the
  bitmap, and reports a full bitmap exactly when every bit below the size is set, whatever the
  padding bits of the last word are.
\<close>

theorem bitmap_find_zero_lowest:
  assumes "unat (bm_nbits bm) + 31 < 2 ^ 32"
  shows "case bitmap_find_zero bm of
      Some p \<Rightarrow> p < bm_nbits bm \<and> \<not> bitmap_test bm p \<and> (\<forall>q<p. bitmap_test bm q)
    | None \<Rightarrow> \<forall>q<bm_nbits bm. bitmap_test bm q"
  using assms by (rule bitmap_find_zero_cases)

definition bm_sample :: bitmap where
  "bm_sample = \<lparr>bm_data = (\<lambda>i. if i = 0 then 0xFFFFFFFF else 6), bm_nbits = 40, bm_nelems = 2\<rparr>"

theorem bitmap_find_zero_lowest_witness:
  "\<exists>p. bitmap_find_zero bm_sample = Some p \<and> p < 40 \<and> \<not> bitmap_test bm_sample p \<and> (\<forall>q<p. bitmap_test bm_sample q)"
proof -
  have "\<not> bitmap_test bm_sample 32"
    by (simp add: bitmap_test_def bm_sample_def BITMAP_BITS_PER_ELEM_def MASK_TEST_def BIT_def)
  then show ?thesis
    using bitmap_find_zero_lowest [of bm_sample] by (auto simp: bm_sample_def split: option.splits)
qed

subsection \<open>Error pointers\<close>

text \<open>
  A pointer that encodes an error is recognised as one and gives the error code back, and no
  pointer below the last page of the address space is taken for one.
\<close>

theorem error_pointer_roundtrip:
  "(e \<noteq> KERR_OK \<longrightarrow> KERR_PTR_IS_ERR (KERR_PTR e)) \<and> KERR_PTR_ERR (KERR_PTR e) = - int (kerr_code e)
   \<and> (unat p < 0xFFFFF000 \<longrightarrow> \<not> KERR_PTR_IS_ERR p)"
  using KERR_PTR_is_err KERR_PTR_ERR_roundtrip KERR_PTR_below by blast

theorem error_pointer_roundtrip_witness:
  "KERR_PTR_IS_ERR (KERR_PTR KERR_NOMEM) \<and> KERR_PTR_ERR (KERR_PTR KERR_NOMEM) = - 3 \<and> \<not> KERR_PTR_IS_ERR 0xC0400010"
  using error_pointer_roundtrip [of KERR_NOMEM "0xC0400010"] by simp

text \<open>
  \<open>VIRT_TO_PHYS\<close> is not the inverse of \<open>PHYS_TO_VIRT\<close>: for every physical address of the
  direct map it is off by \<open>0x80000000\<close>.
\<close>

theorem VIRT_TO_PHYS_wrong:
  assumes "unat p < 0x30000000"
  shows "unat (VIRT_TO_PHYS (PHYS_TO_VIRT p)) = unat p + 0x80000000"
proof -
  have v: "unat (PHYS_TO_VIRT p) = unat p + 0xC0000000" using assms by (intro unat_PHYS_TO_VIRT) simp
  have "unat ((ucast (PHYS_TO_VIRT p) :: u64) + KERNEL_VIRT_OFFSET) = unat p + 0x180000000"
    using v assms by (simp add: KERNEL_VIRT_OFFSET_def unat_word_ariths)
  moreover have "(unat p + 0x80000000 + 0x100000000) mod 0x100000000 = unat p + 0x80000000"
    unfolding mod_add_self2 using assms by simp
  then have "(unat p + 0x180000000) mod 0x100000000 = unat p + 0x80000000" by (simp add: add.commute)
  ultimately show ?thesis
    by (simp add: VIRT_TO_PHYS_def unsigned_ucast_eq take_bit_eq_mod)
qed

theorem VIRT_TO_PHYS_wrong_witness:
  "unat (VIRT_TO_PHYS (PHYS_TO_VIRT 0x100000)) = 0x80100000"
  using VIRT_TO_PHYS_wrong [of "0x100000"] by simp

end
