(* ===== verification/Pmm.thy ===== *)
theory Pmm
  imports Klib_Bitmap
begin

text \<open>
  The physical memory manager, \<^verbatim>\<open>src/kernel/mm/pmm.c\<close>: one bit per 4 KiB frame, 0 for
  free and 1 for reserved or allocated. The static variable \<open>pmm\<close> is the record below.
  The linker symbols \<open>__kernel_start\<close> and \<open>__kernel_end\<close> and the old contents of the memory
  behind the kernel image, where the bitmap is placed, are arguments of \<open>pmm_init\<close>.
  The debug output at the end of \<open>pmm_init\<close> is not modelled.
\<close>

subsection \<open>Data\<close>

record pmm =
  pmm_bm :: bitmap
  pmm_max_addr :: paddr
  pmm_total_frames :: u32
  pmm_free_frames :: u32

datatype pmm_policy = PMM_POLICY_STRICT | PMM_POLICY_FALLBACK

record boot_mem_map_entry =
  me_base :: u64
  me_length :: u64
  me_type :: u32
  me_attr :: u32

definition BOOT_TYPE_USABLE :: u32 where
  "BOOT_TYPE_USABLE = 1"

definition PMM_FRAME_SIZE :: "'a::len word" where
  "PMM_FRAME_SIZE = 4096"

subsection \<open>Operations\<close>

definition pmm_addr_to_frame :: "paddr \<Rightarrow> u32" where
  "pmm_addr_to_frame addr = ucast (addr div PMM_FRAME_SIZE)"

definition pmm_frame_to_addr :: "u32 \<Rightarrow> paddr" where
  "pmm_frame_to_addr frame = ucast frame * PMM_FRAME_SIZE"

definition pmm_validate_range :: "pmm \<Rightarrow> u32 \<Rightarrow> size_t \<Rightarrow> kerror + unit" where
  "pmm_validate_range s first_frame pages =
     (if pages = 0 then Inl KERR_INVAL
      else if pmm_total_frames s \<le> first_frame then Inl KERR_INVAL
      else if pmm_total_frames s - first_frame < pages then Inl KERR_INVAL
      else Inr ())"

definition pmm_reserve :: "paddr \<Rightarrow> size_t \<Rightarrow> (pmm, unit) kfun" where
  "pmm_reserve addr pages s =
     (if pages = 0 then kfail KERR_INVAL s
      else if addr mod PMM_FRAME_SIZE \<noteq> 0 then kfail KERR_INVAL s
      else let first_frame = pmm_addr_to_frame addr in
        (case pmm_validate_range s first_frame pages of
           Inl _ \<Rightarrow> kfail KERR_INVAL s
         | Inr _ \<Rightarrow>
             if list_ex (\<lambda>i. bitmap_test (pmm_bm s) (first_frame + i)) (words_upto 0 pages)
             then kfail KERR_BUSY s
             else kret () (s\<lparr>
               pmm_bm := for_u32 0 pages (\<lambda>i b. bitmap_set b (first_frame + i)) (pmm_bm s),
               pmm_free_frames := pmm_free_frames s - pages\<rparr>)))"

definition pmm_unreserve :: "paddr \<Rightarrow> size_t \<Rightarrow> (pmm, unit) kfun" where
  "pmm_unreserve addr pages s =
     (if pages = 0 then kfail KERR_INVAL s
      else if addr mod PMM_FRAME_SIZE \<noteq> 0 then kfail KERR_INVAL s
      else let first_frame = pmm_addr_to_frame addr in
        (case pmm_validate_range s first_frame pages of
           Inl _ \<Rightarrow> kfail KERR_INVAL s
         | Inr _ \<Rightarrow>
             if list_ex (\<lambda>i. \<not> bitmap_test (pmm_bm s) (first_frame + i)) (words_upto 0 pages)
             then kfail KERR_INVAL s
             else kret () (s\<lparr>
               pmm_bm := for_u32 0 pages (\<lambda>i b. bitmap_clear b (first_frame + i)) (pmm_bm s),
               pmm_free_frames := pmm_free_frames s + pages\<rparr>)))"

definition pmm_force_reserve_range :: "u32 \<Rightarrow> size_t \<Rightarrow> pmm \<Rightarrow> pmm" where
  "pmm_force_reserve_range start_frame pages s =
     for_u32 0 pages
       (\<lambda>i s. let frame = start_frame + i
              in if frame < pmm_total_frames s
                 then s\<lparr>pmm_bm := bitmap_set (pmm_bm s) frame\<rparr> else s) s"

text \<open>
  The attempt of \<open>pmm_alloc\<close> in the frames from \<open>start_frame\<close> up to \<open>max_frame\<close>: the scan,
  then the marking of the run that it found.
\<close>

definition pmm_alloc_between :: "u32 \<Rightarrow> u32 \<Rightarrow> size_t \<Rightarrow> pmm \<Rightarrow> (paddr \<times> pmm) option" where
  "pmm_alloc_between start_frame max_frame pages s =
     (if start_frame < max_frame
      then (case bitmap_scan (pmm_bm s) pages max_frame start_frame 0 of
              None \<Rightarrow> None
            | Some first_found_frame \<Rightarrow>
                Some (pmm_frame_to_addr first_found_frame,
                  s\<lparr>pmm_bm := for_u32 0 pages
                       (\<lambda>j b. bitmap_set b (first_found_frame + j)) (pmm_bm s),
                    pmm_free_frames := pmm_free_frames s - pages\<rparr>))
      else None)"

text \<open>\<open>out\<close> is false when the caller passes a NULL output pointer.\<close>

function pmm_alloc :: "paddr \<Rightarrow> paddr \<Rightarrow> size_t \<Rightarrow> pmm_policy \<Rightarrow> bool \<Rightarrow> (pmm, paddr) kfun" where
  "pmm_alloc min_addr max_addr pages policy out s =
     (if \<not> out \<or> pages = 0 then kfail KERR_INVAL s
      else
        let start_frame = (if min_addr \<noteq> 0 then pmm_addr_to_frame (ALIGN_UP min_addr PMM_FRAME_SIZE) else 0);
            max_frame = (if max_addr \<noteq> 0 then pmm_addr_to_frame max_addr else pmm_total_frames s);
            max_frame = (if pmm_total_frames s < max_frame then pmm_total_frames s else max_frame)
        in case pmm_alloc_between start_frame max_frame pages s of
             Some (addr, s') \<Rightarrow> kret addr s'
           | None \<Rightarrow>
               if policy = PMM_POLICY_FALLBACK
               then pmm_alloc 0 0 pages PMM_POLICY_STRICT out s
               else kfail KERR_NOMEM s)"
  by pat_completeness auto
termination
  by (relation "measure (\<lambda>(min_addr, max_addr, pages, policy, out, s).
        if policy = PMM_POLICY_FALLBACK then 1 else 0)") auto

declare pmm_alloc.simps [simp del]

definition PMM_ALLOC_DMA16 :: "size_t \<Rightarrow> (pmm, paddr) kfun" where
  "PMM_ALLOC_DMA16 pages = pmm_alloc 0 DMA16_LIMIT pages PMM_POLICY_STRICT True"

definition PMM_ALLOC_LOWMEM :: "size_t \<Rightarrow> (pmm, paddr) kfun" where
  "PMM_ALLOC_LOWMEM pages = pmm_alloc 0 KERNEL_LOWMEM_LIMIT pages PMM_POLICY_STRICT True"

definition PMM_ALLOC_HIGHMEM :: "size_t \<Rightarrow> (pmm, paddr) kfun" where
  "PMM_ALLOC_HIGHMEM pages = pmm_alloc KERNEL_LOWMEM_LIMIT 0 pages PMM_POLICY_FALLBACK True"

definition PMM_ALLOC_ANY :: "size_t \<Rightarrow> (pmm, paddr) kfun" where
  "PMM_ALLOC_ANY pages = pmm_alloc 0 0 pages PMM_POLICY_STRICT True"

definition pmm_free :: "paddr \<Rightarrow> size_t \<Rightarrow> (pmm, unit) kfun" where
  "pmm_free addr pages s =
     (if pages = 0 then kfail KERR_INVAL s
      else if addr mod PMM_FRAME_SIZE \<noteq> 0 then kfail KERR_INVAL s
      else let start_frame = pmm_addr_to_frame addr in
        (case pmm_validate_range s start_frame pages of
           Inl _ \<Rightarrow> kfail KERR_INVAL s
         | Inr _ \<Rightarrow>
             if list_ex (\<lambda>i. \<not> bitmap_test (pmm_bm s) i)
                  (words_upto start_frame (start_frame + pages))
             then kfail KERR_INVAL s
             else kret () (s\<lparr>
               pmm_bm := for_u32 start_frame (start_frame + pages)
                 (\<lambda>i b. bitmap_clear b i) (pmm_bm s),
               pmm_free_frames := pmm_free_frames s + pages\<rparr>)))"

subsection \<open>Initialisation\<close>

text \<open>The end of the highest usable region of the boot memory map.\<close>

definition pmm_init_max_addr :: "boot_mem_map_entry list \<Rightarrow> paddr" where
  "pmm_init_max_addr entries =
     fold (\<lambda>e acc. if me_type e \<noteq> BOOT_TYPE_USABLE then acc
                   else let entry_end = me_base e + me_length e
                        in if acc < entry_end then entry_end else acc) entries 0"

definition pmm_init_free_usable :: "boot_mem_map_entry list \<Rightarrow> bitmap \<Rightarrow> bitmap" where
  "pmm_init_free_usable entries bm =
     fold (\<lambda>e b. if me_type e \<noteq> BOOT_TYPE_USABLE then b
                 else let start = ALIGN_UP (me_base e) PMM_FRAME_SIZE;
                          end' = ALIGN_DOWN (me_base e + me_length e) PMM_FRAME_SIZE;
                          start_frame = ucast (start div PMM_FRAME_SIZE);
                          end_frame = ucast (end' div PMM_FRAME_SIZE)
                      in for_u32 start_frame end_frame (\<lambda>frame b. bitmap_clear b frame) b)
       entries bm"

definition KERNEL_VIRT_BASE :: vaddr where
  "KERNEL_VIRT_BASE = 0xC0000000"

text \<open>
  \<open>None\<close> is the NULL memory map, \<open>Some entries\<close> an array of \<open>count = length entries\<close>
  entries. \<open>buffer\<close> is what the memory at \<open>__kernel_end\<close> held before.
\<close>

definition pmm_init ::
  "vaddr \<Rightarrow> vaddr \<Rightarrow> (nat \<Rightarrow> u32) \<Rightarrow> boot_mem_map_entry list option \<Rightarrow> (pmm, unit) kfun" where
  "pmm_init kernel_start kernel_end buffer map_ptr s =
     (case map_ptr of
        None \<Rightarrow> kfail KERR_INVAL s
      | Some entries \<Rightarrow>
          if entries = [] then kfail KERR_INVAL s
          else
            let max_addr = pmm_init_max_addr entries;
                total = ucast (ALIGN_UP max_addr PMM_FRAME_SIZE div PMM_FRAME_SIZE);
                bm = bitmap_init (pmm_bm s) buffer total;
                bm = for_u32 0 total (\<lambda>i b. bitmap_set b i) bm;
                bm = pmm_init_free_usable entries bm;
                s = s\<lparr>pmm_max_addr := max_addr, pmm_total_frames := total, pmm_bm := bm\<rparr>;
                first_mib_frames = 1024 * 1024 div PMM_FRAME_SIZE;
                s = pmm_force_reserve_range 0 first_mib_frames s;
                kernel_start_phys = ucast kernel_start - ucast KERNEL_VIRT_BASE;
                kernel_end_phys = ucast kernel_end - ucast KERNEL_VIRT_BASE;
                kernel_start_frame = pmm_addr_to_frame (ALIGN_DOWN kernel_start_phys PMM_FRAME_SIZE);
                kernel_end_frame = pmm_addr_to_frame (ALIGN_UP kernel_end_phys PMM_FRAME_SIZE);
                s = pmm_force_reserve_range kernel_start_frame
                      (kernel_end_frame - kernel_start_frame) s;
                bitmap_size_bytes = (total + 7) div 8;
                bitmap_start_phys = kernel_end_phys;
                bitmap_end_phys = bitmap_start_phys + ucast bitmap_size_bytes;
                bitmap_start_frame = pmm_addr_to_frame (ALIGN_DOWN bitmap_start_phys PMM_FRAME_SIZE);
                bitmap_end_frame = pmm_addr_to_frame (ALIGN_UP bitmap_end_phys PMM_FRAME_SIZE);
                s = pmm_force_reserve_range bitmap_start_frame
                      (bitmap_end_frame - bitmap_start_frame) s;
                free = for_u32 0 total
                         (\<lambda>i n. if bitmap_test (pmm_bm s) i then n else n + 1) 0
            in kret () (s\<lparr>pmm_free_frames := free\<rparr>))"

subsection \<open>The invariant and the view as a set of free frames\<close>

text \<open>
  \<open>frame_free s k\<close>: frame \<open>k\<close> is managed and free. The invariant: the bitmap has one bit per
  managed frame, and \<open>free_frames\<close> counts the cleared bits.
\<close>

definition frame_free :: "pmm \<Rightarrow> nat \<Rightarrow> bool" where
  "frame_free s k \<longleftrightarrow> k < unat (pmm_total_frames s) \<and> bm_free (pmm_bm s) k"

definition pmm_inv :: "pmm \<Rightarrow> bool" where
  "pmm_inv s \<longleftrightarrow> bm_nbits (pmm_bm s) = pmm_total_frames s
     \<and> unat (pmm_free_frames s) = bm_zeros (pmm_bm s) (unat (pmm_total_frames s))"

text \<open>\<open>frames_taken s r n s'\<close>: \<open>s'\<close> is \<open>s\<close> with the frames \<open>r, \<dots>, r + n - 1\<close> taken.\<close>

definition frames_taken :: "pmm \<Rightarrow> nat \<Rightarrow> nat \<Rightarrow> pmm \<Rightarrow> bool" where
  "frames_taken s r n s' \<longleftrightarrow>
     pmm_total_frames s' = pmm_total_frames s \<and> pmm_max_addr s' = pmm_max_addr s
     \<and> unat (pmm_free_frames s') + n = unat (pmm_free_frames s)
     \<and> (\<forall>k. r \<le> k \<and> k < r + n \<longrightarrow> frame_free s k)
     \<and> (\<forall>k. frame_free s' k \<longleftrightarrow> frame_free s k \<and> \<not> (r \<le> k \<and> k < r + n))"

lemma unat_pmm_frame_to_addr: "unat (pmm_frame_to_addr f) = unat f * 4096"
proof -
  have "unat (ucast f :: u64) * 4096 < 2 ^ 64"
    using unat32_lt [of f] by (simp del: unat32_lt)
  then show ?thesis
    by (simp add: pmm_frame_to_addr_def PMM_FRAME_SIZE_def unat_mult_nowrap)
qed

lemma unat_pmm_addr_to_frame:
  assumes "unat a div 4096 < 2 ^ 32"
  shows "unat (pmm_addr_to_frame a) = unat a div 4096"
  using assms
  by (simp add: pmm_addr_to_frame_def PMM_FRAME_SIZE_def unsigned_ucast_eq unat_div
      take_bit_nat_eq_self_iff)

lemma pmm_addr_frame_roundtrip: "pmm_addr_to_frame (pmm_frame_to_addr f) = f"
  by (simp add: word_unat_eq_iff unat_pmm_addr_to_frame unat_pmm_frame_to_addr)

lemma pmm_validate_range_iff:
  "pmm_validate_range s f n = Inr () \<longleftrightarrow>
     0 < unat n \<and> unat f + unat n \<le> unat (pmm_total_frames s)"
  by (auto simp: pmm_validate_range_def word_le_nat_alt word_less_nat_alt unat_sub_nowrap
      unat_gt_0 split: if_splits)

lemma pmm_take_frames:
  assumes inv: "pmm_inv s" and le: "unat r + unat n \<le> unat (pmm_total_frames s)"
    and run: "bm_run (pmm_bm s) (unat r) (unat n)"
    and s': "s' = s\<lparr>pmm_bm := for_u32 0 n (\<lambda>j b. bitmap_set b (r + j)) (pmm_bm s),
                   pmm_free_frames := pmm_free_frames s - n\<rparr>"
  shows "frames_taken s (unat r) (unat n) s'" and "pmm_inv s'"
proof -
  have le32: "unat r + unat n \<le> 2 ^ 32" using le unat32_lt_pow [of "pmm_total_frames s"] by linarith
  have eff: "bm_free (pmm_bm s') k \<longleftrightarrow> bm_free (pmm_bm s) k \<and> \<not> (unat r \<le> k \<and> k < unat r + unat n)"
    if "k < unat (pmm_total_frames s)" for k
  proof -
    have "k < 2 ^ 32" using that unat32_lt_pow [of "pmm_total_frames s"] by linarith
    then have "unat (of_nat k :: u32) = k" by (simp add: unat_of_nat_small)
    then show ?thesis
      using bitmap_test_set_run [OF le32, of "pmm_bm s" "of_nat k"] by (auto simp: s' bm_free_def)
  qed
  have z: "bm_zeros (pmm_bm s) (unat (pmm_total_frames s)) =
      bm_zeros (pmm_bm s') (unat (pmm_total_frames s)) + unat n"
    by (rule bm_zeros_mark [OF run le]) (use eff in blast)
  then have "unat n \<le> unat (pmm_free_frames s)" using inv by (simp add: pmm_inv_def)
  then have ff: "unat (pmm_free_frames s') = unat (pmm_free_frames s) - unat n"
    by (simp add: s' unat_sub_nowrap)
  show "frames_taken s (unat r) (unat n) s'"
    using eff run le ff \<open>unat n \<le> unat (pmm_free_frames s)\<close>
    by (auto simp: frames_taken_def frame_free_def bm_run_def s')
  show "pmm_inv s'"
    using inv z ff by (simp add: pmm_inv_def s' for_u32_nbits)
qed

text \<open>Giving frames back is the converse step.\<close>

lemma pmm_give_frames:
  assumes inv: "pmm_inv s" and le: "unat r + unat n \<le> unat (pmm_total_frames s)"
    and used: "\<forall>k. unat r \<le> k \<and> k < unat r + unat n \<longrightarrow> \<not> bm_free (pmm_bm s) k"
    and eff: "\<forall>k<unat (pmm_total_frames s). bm_free bm' k \<longleftrightarrow>
        bm_free (pmm_bm s) k \<or> unat r \<le> k \<and> k < unat r + unat n"
    and nb: "bm_nbits bm' = bm_nbits (pmm_bm s)"
    and s': "s' = s\<lparr>pmm_bm := bm', pmm_free_frames := pmm_free_frames s + n\<rparr>"
  shows "frames_taken s' (unat r) (unat n) s" and "pmm_inv s'"
proof -
  have z: "bm_zeros bm' (unat (pmm_total_frames s)) =
      bm_zeros (pmm_bm s) (unat (pmm_total_frames s)) + unat n"
    by (rule bm_zeros_release [OF used le]) (use eff in blast)
  moreover have "bm_zeros bm' (unat (pmm_total_frames s)) \<le> unat (pmm_total_frames s)"
    by (rule bm_zeros_le)
  ultimately have "unat (pmm_free_frames s) + unat n < 2 ^ 32"
    using inv unat32_lt_pow [of "pmm_total_frames s"] unfolding pmm_inv_def by linarith
  then have ff: "unat (pmm_free_frames s') = unat (pmm_free_frames s) + unat n"
    by (simp add: s' unat_add_nowrap)
  show "frames_taken s' (unat r) (unat n) s"
    using eff used le ff by (auto simp: frames_taken_def frame_free_def s')
  show "pmm_inv s'"
    using inv z ff nb by (simp add: pmm_inv_def s')
qed

subsection \<open>Allocation\<close>

text \<open>A run of free frames, and the frame interval in which \<open>pmm_alloc\<close> looks for one.\<close>

definition frames_free_run :: "pmm \<Rightarrow> nat \<Rightarrow> nat \<Rightarrow> bool" where
  "frames_free_run s r n \<longleftrightarrow> (\<forall>k. r \<le> k \<and> k < r + n \<longrightarrow> frame_free s k)"

definition pmm_lo_frame :: "paddr \<Rightarrow> nat" where
  "pmm_lo_frame a = (if a = 0 then 0 else unat (pmm_addr_to_frame (ALIGN_UP a 4096)))"

definition pmm_hi_frame :: "pmm \<Rightarrow> paddr \<Rightarrow> nat" where
  "pmm_hi_frame s a = (if a = 0 then unat (pmm_total_frames s)
     else min (unat (pmm_addr_to_frame a)) (unat (pmm_total_frames s)))"

text \<open>What an allocation between two frame numbers promises: first fit, or no run at all.\<close>

definition alloc_post :: "pmm \<Rightarrow> nat \<Rightarrow> nat \<Rightarrow> nat \<Rightarrow> paddr \<Rightarrow> pmm \<Rightarrow> bool" where
  "alloc_post s lo hi n addr s' \<longleftrightarrow>
     (\<exists>r. unat addr = 4096 * r \<and> lo \<le> r \<and> r + n \<le> hi
        \<and> frames_taken s r n s' \<and> pmm_inv s'
        \<and> (\<forall>q. lo \<le> q \<and> q < r \<longrightarrow> \<not> frames_free_run s q n))"

definition no_run :: "pmm \<Rightarrow> nat \<Rightarrow> nat \<Rightarrow> nat \<Rightarrow> bool" where
  "no_run s lo hi n \<longleftrightarrow> (\<forall>q. lo \<le> q \<and> q + n \<le> hi \<longrightarrow> \<not> frames_free_run s q n)"

lemma frames_free_run_bm:
  "r + n \<le> unat (pmm_total_frames s) \<Longrightarrow> frames_free_run s r n = bm_run (pmm_bm s) r n"
  by (auto simp: frames_free_run_def bm_run_def frame_free_def)

lemma pmm_alloc_between_spec:
  assumes inv: "pmm_inv s" and n: "pages \<noteq> 0" and hi: "hi \<le> pmm_total_frames s"
  shows "case pmm_alloc_between lo hi pages s of
      Some (addr, s') \<Rightarrow> alloc_post s (unat lo) (unat hi) (unat pages) addr s'
    | None \<Rightarrow> no_run s (unat lo) (unat hi) (unat pages)"
proof (cases "lo < hi")
  case False
  have "0 < unat pages" using n by (simp add: unat_gt_0)
  with False show ?thesis
    by (auto simp: pmm_alloc_between_def no_run_def word_less_nat_alt)
next
  case True
  have hi': "unat hi \<le> unat (pmm_total_frames s)" using hi by (simp add: word_le_nat_alt)
  have n0: "0 < unat pages" using n by (simp add: unat_gt_0)
  have sc: "case bitmap_scan (pmm_bm s) pages hi lo 0 of
      Some r \<Rightarrow> unat lo \<le> unat r \<and> unat r + unat pages \<le> unat hi
        \<and> bm_run (pmm_bm s) (unat r) (unat pages)
        \<and> (\<forall>q. unat lo \<le> q \<and> q < unat r \<longrightarrow> \<not> bm_run (pmm_bm s) q (unat pages))
    | None \<Rightarrow> \<forall>q. unat lo \<le> q \<and> q + unat pages \<le> unat hi \<longrightarrow> \<not> bm_run (pmm_bm s) q (unat pages)"
    using bitmap_scan_spec [of 0 lo pages "pmm_bm s" hi] n0 by (simp cong: option.case_cong)
  show ?thesis
  proof (cases "bitmap_scan (pmm_bm s) pages hi lo 0")
    case None
    then show ?thesis
      using sc True hi' by (auto simp: pmm_alloc_between_def no_run_def frames_free_run_bm)
  next
    case (Some r)
    let ?s' = "s\<lparr>pmm_bm := for_u32 0 pages (\<lambda>j b. bitmap_set b (r + j)) (pmm_bm s),
                  pmm_free_frames := pmm_free_frames s - pages\<rparr>"
    have r: "unat lo \<le> unat r" "unat r + unat pages \<le> unat hi"
      "bm_run (pmm_bm s) (unat r) (unat pages)"
      "\<forall>q. unat lo \<le> q \<and> q < unat r \<longrightarrow> \<not> bm_run (pmm_bm s) q (unat pages)"
      using sc Some by simp_all
    have "unat r + unat pages \<le> unat (pmm_total_frames s)" using r(2) hi' by simp
    note taken = pmm_take_frames [OF inv this r(3) refl]
    have "\<not> frames_free_run s q (unat pages)" if "unat lo \<le> q" "q < unat r" for q
      using that r(2,4) hi' by (subst frames_free_run_bm) auto
    then have "alloc_post s (unat lo) (unat hi) (unat pages) (pmm_frame_to_addr r) ?s'"
      unfolding alloc_post_def
      by (intro exI [of _ "unat r"]) (use r taken in \<open>simp add: unat_pmm_frame_to_addr\<close>)
    then show ?thesis using True Some by (simp add: pmm_alloc_between_def)
  qed
qed

text \<open>The strict policy: one attempt.\<close>

lemma pmm_alloc_strict_spec:
  assumes inv: "pmm_inv s" and n: "pages \<noteq> 0"
  shows "case pmm_alloc lo hi pages PMM_POLICY_STRICT True s of
      (Inr addr, s') \<Rightarrow> alloc_post s (pmm_lo_frame lo) (pmm_hi_frame s hi) (unat pages) addr s'
    | (Inl e, s') \<Rightarrow> e = KERR_NOMEM \<and> s' = s
        \<and> no_run s (pmm_lo_frame lo) (pmm_hi_frame s hi) (unat pages)"
proof -
  define a where "a = (if lo \<noteq> 0 then pmm_addr_to_frame (ALIGN_UP lo PMM_FRAME_SIZE) else 0)"
  define b where "b = (if hi \<noteq> 0 then pmm_addr_to_frame hi else pmm_total_frames s)"
  define c where "c = (if pmm_total_frames s < b then pmm_total_frames s else b)"
  have a: "unat a = pmm_lo_frame lo" by (simp add: a_def pmm_lo_frame_def PMM_FRAME_SIZE_def)
  have c: "unat c = pmm_hi_frame s hi"
    by (auto simp: b_def c_def pmm_hi_frame_def word_less_nat_alt)
  have "c \<le> pmm_total_frames s" by (auto simp: c_def)
  from pmm_alloc_between_spec [OF inv n this, of a]
  have spec: "case pmm_alloc_between a c pages s of
      Some (addr, s') \<Rightarrow> alloc_post s (pmm_lo_frame lo) (pmm_hi_frame s hi) (unat pages) addr s'
    | None \<Rightarrow> no_run s (pmm_lo_frame lo) (pmm_hi_frame s hi) (unat pages)"
    unfolding a c .
  have eq: "pmm_alloc lo hi pages PMM_POLICY_STRICT True s =
      (case pmm_alloc_between a c pages s of
         Some (addr, s') \<Rightarrow> (Inr addr, s') | None \<Rightarrow> (Inl KERR_NOMEM, s))"
    unfolding a_def c_def b_def
    by (subst pmm_alloc.simps) (simp add: n Let_def split: option.splits)
  show ?thesis
    using spec unfolding eq by (cases "pmm_alloc_between a c pages s") auto
qed

text \<open>The fallback policy: a second attempt over the whole managed range.\<close>

lemma pmm_alloc_fallback_eq:
  assumes "pages \<noteq> 0"
  shows "pmm_alloc lo hi pages PMM_POLICY_FALLBACK True s =
    (case pmm_alloc lo hi pages PMM_POLICY_STRICT True s of
       (Inr addr, s') \<Rightarrow> (Inr addr, s')
     | (Inl e, s') \<Rightarrow> pmm_alloc 0 0 pages PMM_POLICY_STRICT True s)"
  by (subst (1 2) pmm_alloc.simps) (simp add: assms Let_def split: option.splits)

lemma pmm_lo_frame_0 [simp]: "pmm_lo_frame 0 = 0"
  by (simp add: pmm_lo_frame_def)

lemma pmm_hi_frame_0 [simp]: "pmm_hi_frame s 0 = unat (pmm_total_frames s)"
  by (simp add: pmm_hi_frame_def)

lemma pmm_alloc_fallback_spec:
  assumes inv: "pmm_inv s" and n: "pages \<noteq> 0"
  shows "case pmm_alloc lo hi pages PMM_POLICY_FALLBACK True s of
      (Inr addr, s') \<Rightarrow>
        alloc_post s (pmm_lo_frame lo) (pmm_hi_frame s hi) (unat pages) addr s'
        \<or> no_run s (pmm_lo_frame lo) (pmm_hi_frame s hi) (unat pages)
          \<and> alloc_post s 0 (unat (pmm_total_frames s)) (unat pages) addr s'
    | (Inl e, s') \<Rightarrow> e = KERR_NOMEM \<and> s' = s \<and> no_run s 0 (unat (pmm_total_frames s)) (unat pages)"
  using pmm_alloc_strict_spec [OF assms, of lo hi] pmm_alloc_strict_spec [OF assms, of 0 0]
  unfolding pmm_alloc_fallback_eq [OF n]
  by (auto split: prod.splits sum.splits)

subsection \<open>Release and reservation\<close>

lemma list_ex_run:
  assumes "unat f + unat n \<le> 2 ^ 32"
  shows "list_ex (\<lambda>i. P (f + i)) (words_upto 0 n) \<longleftrightarrow>
    (\<exists>j::u32. unat f \<le> unat j \<and> unat j < unat f + unat n \<and> P j)"
proof -
  have "list_ex (\<lambda>i. P (f + i)) (words_upto 0 n) \<longleftrightarrow> (\<exists>j\<in>(+) f ` {i. i < n}. P j)"
    by (simp add: list_ex_iff)
  then show ?thesis using plus_upto_iff [OF assms] by blast
qed

lemma ex_word_iff_ex_nat:
  fixes a b :: nat
  assumes "b \<le> 2 ^ 32"
  shows "(\<exists>j::u32. a \<le> unat j \<and> unat j < b \<and> P (unat j)) \<longleftrightarrow> (\<exists>k. a \<le> k \<and> k < b \<and> P k)"
proof
  assume "\<exists>k. a \<le> k \<and> k < b \<and> P k"
  then obtain k where k: "a \<le> k" "k < b" "P k" by blast
  then have "unat (of_nat k :: u32) = k"
    using assms by (intro unat_of_nat_small) simp
  with k show "\<exists>j::u32. a \<le> unat j \<and> unat j < b \<and> P (unat j)" by metis
qed blast

definition frames_used_run :: "pmm \<Rightarrow> nat \<Rightarrow> nat \<Rightarrow> bool" where
  "frames_used_run s r n \<longleftrightarrow>
     r + n \<le> unat (pmm_total_frames s) \<and> (\<forall>k. r \<le> k \<and> k < r + n \<longrightarrow> \<not> frame_free s k)"

text \<open>When a release is accepted, and that nothing changes when it is not.\<close>

definition pmm_free_ok :: "pmm \<Rightarrow> paddr \<Rightarrow> size_t \<Rightarrow> bool" where
  "pmm_free_ok s addr pages \<longleftrightarrow>
     pages \<noteq> 0 \<and> unat addr mod 4096 = 0
     \<and> frames_used_run s (unat (pmm_addr_to_frame addr)) (unat pages)"

lemma word64_mod_4096: "(addr :: u64) mod 4096 = 0 \<longleftrightarrow> unat addr mod 4096 = 0"
  by (simp add: word_unat_eq_iff unat_mod)

lemma pmm_free_reject:
  assumes "\<not> pmm_free_ok s addr pages"
  shows "pmm_free addr pages s = (Inl KERR_INVAL, s)"
proof -
  let ?f = "pmm_addr_to_frame addr"
  have "list_ex (\<lambda>i. \<not> bitmap_test (pmm_bm s) i) (words_upto ?f (?f + pages))"
    if v: "pmm_validate_range s ?f pages = Inr ()" and p: "pages \<noteq> 0" "addr mod 4096 = 0"
  proof -
    from v have le: "unat ?f + unat pages \<le> unat (pmm_total_frames s)"
      by (simp add: pmm_validate_range_iff)
    then have lt: "unat ?f + unat pages < 2 ^ 32" using unat32_lt_pow [of "pmm_total_frames s"] by linarith
    then have "unat (?f + pages) = unat ?f + unat pages" by (simp add: unat_add_nowrap)
    moreover from assms p le obtain k where "unat ?f \<le> k" "k < unat ?f + unat pages" "bm_free (pmm_bm s) k"
      by (auto simp: pmm_free_ok_def frames_used_run_def frame_free_def word64_mod_4096)
    then have "\<exists>j::u32. unat ?f \<le> unat j \<and> unat j < unat ?f + unat pages \<and> bm_free (pmm_bm s) (unat j)"
      using lt by (subst ex_word_iff_ex_nat) auto
    ultimately show ?thesis
      by (auto simp: list_ex_iff word_le_nat_alt word_less_nat_alt bm_free_unat)
  qed
  then show ?thesis
    by (cases "pages = 0"; cases "addr mod 4096 = 0"; cases "pmm_validate_range s ?f pages")
      (simp_all add: pmm_free_def PMM_FRAME_SIZE_def Let_def)
qed

lemma pmm_free_accept:
  assumes inv: "pmm_inv s" and ok: "pmm_free_ok s addr pages"
  obtains s' where "pmm_free addr pages s = (Inr (), s')" and "pmm_inv s'"
    and "frames_taken s' (unat (pmm_addr_to_frame addr)) (unat pages) s"
proof -
  let ?f = "pmm_addr_to_frame addr"
  let ?bm = "for_u32 ?f (?f + pages) (\<lambda>i b. bitmap_clear b i) (pmm_bm s)"
  let ?s' = "s\<lparr>pmm_bm := ?bm, pmm_free_frames := pmm_free_frames s + pages\<rparr>"
  have le: "unat ?f + unat pages \<le> unat (pmm_total_frames s)"
    and used: "\<And>k. unat ?f \<le> k \<Longrightarrow> k < unat ?f + unat pages \<Longrightarrow> \<not> frame_free s k"
    using ok by (auto simp: pmm_free_ok_def frames_used_run_def)
  then have lt: "unat ?f + unat pages < 2 ^ 32" using unat32_lt_pow [of "pmm_total_frames s"] by linarith
  then have e: "unat (?f + pages) = unat ?f + unat pages" by (simp add: unat_add_nowrap)
  have used': "\<forall>k. unat ?f \<le> k \<and> k < unat ?f + unat pages \<longrightarrow> \<not> bm_free (pmm_bm s) k"
    using used le by (auto simp: frame_free_def)
  have "\<not> list_ex (\<lambda>i. \<not> bitmap_test (pmm_bm s) i) (words_upto ?f (?f + pages))"
    using used' bm_free_unat by (auto simp: list_ex_iff word_le_nat_alt word_less_nat_alt e)
  moreover have "pmm_validate_range s ?f pages = Inr ()"
    using ok le by (simp add: pmm_validate_range_iff pmm_free_ok_def unat_gt_0)
  ultimately have "pmm_free addr pages s = (Inr (), ?s')"
    using ok by (simp add: pmm_free_def pmm_free_ok_def word64_mod_4096 PMM_FRAME_SIZE_def Let_def)
  moreover have eff: "\<forall>k<unat (pmm_total_frames s). bm_free ?bm k \<longleftrightarrow>
      bm_free (pmm_bm s) k \<or> unat ?f \<le> k \<and> k < unat ?f + unat pages"
  proof (intro allI impI)
    fix k assume "k < unat (pmm_total_frames s)"
    then have "k < 2 ^ 32" using unat32_lt_pow [of "pmm_total_frames s"] by linarith
    then have "unat (of_nat k :: u32) = k" by (simp add: unat_of_nat_small)
    then show "bm_free ?bm k \<longleftrightarrow>
        bm_free (pmm_bm s) k \<or> unat ?f \<le> k \<and> k < unat ?f + unat pages"
      by (auto simp: bm_free_def bitmap_test_clear_upto word_le_nat_alt word_less_nat_alt e)
  qed
  moreover have "bm_nbits ?bm = bm_nbits (pmm_bm s)" by (simp add: for_u32_nbits)
  ultimately show thesis
    using that pmm_give_frames [OF inv le used' eff _ refl] by blast
qed

lemma pmm_reserve_spec:
  assumes inv: "pmm_inv s" and r: "pmm_reserve addr pages s = (Inr (), s')"
  shows "frames_taken s (unat (pmm_addr_to_frame addr)) (unat pages) s'" and "pmm_inv s'"
proof -
  let ?f = "pmm_addr_to_frame addr"
  from r have v: "pmm_validate_range s ?f pages = Inr ()"
    and ex: "\<not> list_ex (\<lambda>i. bitmap_test (pmm_bm s) (?f + i)) (words_upto 0 pages)"
    and s': "s' = s\<lparr>pmm_bm := for_u32 0 pages (\<lambda>i b. bitmap_set b (?f + i)) (pmm_bm s),
                 pmm_free_frames := pmm_free_frames s - pages\<rparr>"
    by (auto simp: pmm_reserve_def Let_def split: if_splits sum.splits)
  from v have le: "unat ?f + unat pages \<le> unat (pmm_total_frames s)"
    by (simp add: pmm_validate_range_iff)
  then have le32: "unat ?f + unat pages \<le> 2 ^ 32"
    using unat32_lt_pow [of "pmm_total_frames s"] by linarith
  have "\<not> (\<exists>k. unat ?f \<le> k \<and> k < unat ?f + unat pages \<and> \<not> bm_free (pmm_bm s) k)"
    using ex list_ex_run [OF le32, of "bitmap_test (pmm_bm s)"]
      ex_word_iff_ex_nat [OF le32, of "unat ?f" "\<lambda>k. \<not> bm_free (pmm_bm s) k"]
    by (simp add: bm_free_unat) blast
  then have "bm_run (pmm_bm s) (unat ?f) (unat pages)" by (auto simp: bm_run_def)
  then show "frames_taken s (unat ?f) (unat pages) s'" and "pmm_inv s'"
    using pmm_take_frames [OF inv le _ s'] by blast+
qed

lemma pmm_unreserve_spec:
  assumes inv: "pmm_inv s" and r: "pmm_unreserve addr pages s = (Inr (), s')"
  shows "frames_taken s' (unat (pmm_addr_to_frame addr)) (unat pages) s" and "pmm_inv s'"
proof -
  let ?f = "pmm_addr_to_frame addr"
  let ?bm = "for_u32 0 pages (\<lambda>i b. bitmap_clear b (?f + i)) (pmm_bm s)"
  from r have v: "pmm_validate_range s ?f pages = Inr ()"
    and ex: "\<not> list_ex (\<lambda>i. \<not> bitmap_test (pmm_bm s) (?f + i)) (words_upto 0 pages)"
    and s': "s' = s\<lparr>pmm_bm := ?bm, pmm_free_frames := pmm_free_frames s + pages\<rparr>"
    by (auto simp: pmm_unreserve_def Let_def split: if_splits sum.splits)
  from v have le: "unat ?f + unat pages \<le> unat (pmm_total_frames s)"
    by (simp add: pmm_validate_range_iff)
  then have le32: "unat ?f + unat pages \<le> 2 ^ 32"
    using unat32_lt_pow [of "pmm_total_frames s"] by linarith
  have used: "\<forall>k. unat ?f \<le> k \<and> k < unat ?f + unat pages \<longrightarrow> \<not> bm_free (pmm_bm s) k"
    using ex list_ex_run [OF le32, of "\<lambda>j. \<not> bitmap_test (pmm_bm s) j"]
      ex_word_iff_ex_nat [OF le32, of "unat ?f" "bm_free (pmm_bm s)"]
    by (simp add: bm_free_unat) blast
  have eff: "\<forall>k<unat (pmm_total_frames s). bm_free ?bm k \<longleftrightarrow>
      bm_free (pmm_bm s) k \<or> unat ?f \<le> k \<and> k < unat ?f + unat pages"
  proof (intro allI impI)
    fix k assume "k < unat (pmm_total_frames s)"
    then have "k < 2 ^ 32" using unat32_lt_pow [of "pmm_total_frames s"] by linarith
    then have "unat (of_nat k :: u32) = k" by (simp add: unat_of_nat_small)
    then show "bm_free ?bm k \<longleftrightarrow>
        bm_free (pmm_bm s) k \<or> unat ?f \<le> k \<and> k < unat ?f + unat pages"
      by (auto simp: bm_free_def bitmap_test_clear_run [OF le32])
  qed
  have "bm_nbits ?bm = bm_nbits (pmm_bm s)" by (simp add: for_u32_nbits)
  then show "frames_taken s' (unat ?f) (unat pages) s" and "pmm_inv s'"
    using pmm_give_frames [OF inv le used eff _ s'] by blast+
qed

subsection \<open>The contract of a frame allocator\<close>

text \<open>
  What the paging code relies on: single frames below a limit, taken and given back.
\<close>

locale frame_allocator =
  fixes alloc :: "('s, paddr) kfun"
    and release :: "paddr \<Rightarrow> ('s, unit) kfun"
    and avail :: "'s \<Rightarrow> nat \<Rightarrow> bool"
    and managed :: "'s \<Rightarrow> nat \<Rightarrow> bool"
    and inv :: "'s \<Rightarrow> bool"
    and limit :: nat
  assumes alloc_Inr: "inv s \<Longrightarrow> alloc s = (Inr a, s') \<Longrightarrow>
      inv s' \<and> managed s' = managed s
      \<and> (\<exists>f<limit. unat a = 4096 * f \<and> avail s f \<and> (\<forall>k. avail s' k \<longleftrightarrow> avail s k \<and> k \<noteq> f))"
    and alloc_Inl: "inv s \<Longrightarrow> alloc s = (Inl e, s') \<Longrightarrow> s' = s \<and> e = KERR_NOMEM"
    and avail_managed: "avail s f \<Longrightarrow> managed s f"
    and release_ok: "inv s \<Longrightarrow> managed s f \<Longrightarrow> \<not> avail s f \<Longrightarrow> unat a = 4096 * f \<Longrightarrow>
      \<exists>s'. release a s = (Inr (), s') \<and> inv s' \<and> managed s' = managed s
        \<and> (\<forall>k. avail s' k \<longleftrightarrow> avail s k \<or> k = f)"
begin

lemma alloc_inv: "inv s \<Longrightarrow> alloc s = (r, s') \<Longrightarrow> inv s'"
  by (cases r) (auto dest: alloc_Inr alloc_Inl)

lemma alloc_taken:
  assumes "inv s" and "alloc s = (Inr a, s')"
  shows "\<not> avail s' (unat a div 4096)"
proof -
  obtain f where "unat a = 4096 * f" "\<forall>k. avail s' k \<longleftrightarrow> avail s k \<and> k \<noteq> f"
    using alloc_Inr [OF assms] by blast
  then show ?thesis by simp
qed

lemma alloc_twice_distinct:
  assumes "inv s" and "alloc s = (Inr a, s')" and "alloc s' = (Inr b, s'')"
  shows "a \<noteq> b"
proof -
  obtain f where f: "inv s'" "unat a = 4096 * f" "\<forall>k. avail s' k \<longleftrightarrow> avail s k \<and> k \<noteq> f"
    using alloc_Inr [OF assms(1,2)] by blast
  obtain g where g: "unat b = 4096 * g" "avail s' g"
    using alloc_Inr [OF f(1) assms(3)] by blast
  then have "f \<noteq> g" using f(3) by blast
  then have "unat a \<noteq> unat b" using f(2) g(1) by linarith
  then show ?thesis by blast
qed

lemma alloc_release:
  assumes "inv s" and "alloc s = (Inr a, s')"
  shows "\<exists>s''. release a s' = (Inr (), s'') \<and> inv s'' \<and> (\<forall>k. avail s'' k \<longleftrightarrow> avail s k)"
proof -
  obtain f where f: "inv s'" "managed s' = managed s" "unat a = 4096 * f" "avail s f"
    "\<forall>k. avail s' k \<longleftrightarrow> avail s k \<and> k \<noteq> f"
    using alloc_Inr [OF assms] by blast
  then have "managed s' f" "\<not> avail s' f" using avail_managed by auto
  from release_ok [OF f(1) this f(3)] f(4,5) show ?thesis by auto
qed

end

definition LOWMEM_FRAMES :: nat where
  "LOWMEM_FRAMES = 196608"

definition frame_managed :: "pmm \<Rightarrow> nat \<Rightarrow> bool" where
  "frame_managed s k \<longleftrightarrow> k < unat (pmm_total_frames s)"

lemma pmm_hi_frame_lowmem: "pmm_hi_frame s KERNEL_LOWMEM_LIMIT \<le> LOWMEM_FRAMES"
proof -
  have "unat (pmm_addr_to_frame KERNEL_LOWMEM_LIMIT) = LOWMEM_FRAMES"
    by (simp add: unat_pmm_addr_to_frame KERNEL_LOWMEM_LIMIT_def LOWMEM_FRAMES_def)
  then show ?thesis by (simp add: pmm_hi_frame_def KERNEL_LOWMEM_LIMIT_def)
qed

lemma alloc_post_one:
  assumes "alloc_post s lo hi 1 addr s'"
  shows "pmm_inv s' \<and> frame_managed s' = frame_managed s \<and>
    (\<exists>f<hi. unat addr = 4096 * f \<and> frame_free s f
       \<and> (\<forall>k. frame_free s' k \<longleftrightarrow> frame_free s k \<and> k \<noteq> f))"
proof -
  obtain r where r: "unat addr = 4096 * r" "r + 1 \<le> hi" "frames_taken s r 1 s'" "pmm_inv s'"
    using assms by (auto simp: alloc_post_def)
  then have "frame_free s' k \<longleftrightarrow> frame_free s k \<and> k \<noteq> r" for k
    by (auto simp: frames_taken_def less_Suc_eq)
  then show ?thesis
    using r by (intro conjI exI [of _ r]) (auto simp: frames_taken_def frame_managed_def)
qed

lemma pmm_free_one:
  assumes "pmm_inv s" and "frame_managed s f" and "\<not> frame_free s f" and a: "unat a = 4096 * f"
  shows "\<exists>s'. pmm_free a 1 s = (Inr (), s') \<and> pmm_inv s' \<and> frame_managed s' = frame_managed s
    \<and> (\<forall>k. frame_free s' k \<longleftrightarrow> frame_free s k \<or> k = f)"
proof -
  have "f < 2 ^ 32"
    using assms(2) unat32_lt_pow [of "pmm_total_frames s"] unfolding frame_managed_def by linarith
  then have f: "unat (pmm_addr_to_frame a) = f" using a by (simp add: unat_pmm_addr_to_frame)
  have "pmm_free_ok s a 1"
    using assms by (auto simp: pmm_free_ok_def frames_used_run_def frame_managed_def f less_Suc_eq)
  then obtain s' where s': "pmm_free a 1 s = (Inr (), s')" "pmm_inv s'" "frames_taken s' f 1 s"
    by (rule pmm_free_accept [OF assms(1)]) (simp add: f)
  then have "frame_free s' k \<longleftrightarrow> frame_free s k \<or> k = f" for k
    by (auto simp: frames_taken_def less_Suc_eq)
  with s' show ?thesis by (auto simp: frames_taken_def frame_managed_def)
qed

interpretation lowmem: frame_allocator "PMM_ALLOC_LOWMEM 1" "\<lambda>a. pmm_free a 1"
    frame_free frame_managed pmm_inv LOWMEM_FRAMES
proof (unfold_locales, goal_cases)
  case (1 s a s')
  then have "alloc_post s 0 (pmm_hi_frame s KERNEL_LOWMEM_LIMIT) 1 a s'"
    using pmm_alloc_strict_spec [of s 1 0 KERNEL_LOWMEM_LIMIT] by (simp add: PMM_ALLOC_LOWMEM_def)
  from alloc_post_one [OF this] show ?case
    using pmm_hi_frame_lowmem [of s] by (meson less_le_trans)
next
  case (2 s e s')
  then show ?case
    using pmm_alloc_strict_spec [of s 1 0 KERNEL_LOWMEM_LIMIT] by (simp add: PMM_ALLOC_LOWMEM_def)
next
  case (3 s f)
  then show ?case by (simp add: frame_free_def frame_managed_def)
next
  case (4 s f a)
  then show ?case by (rule pmm_free_one)
qed

interpretation anymem: frame_allocator "PMM_ALLOC_ANY 1" "\<lambda>a. pmm_free a 1"
    frame_free frame_managed pmm_inv "2 ^ 32"
proof (unfold_locales, goal_cases)
  case (1 s a s')
  then have "alloc_post s 0 (unat (pmm_total_frames s)) 1 a s'"
    using pmm_alloc_strict_spec [of s 1 0 0] by (simp add: PMM_ALLOC_ANY_def)
  from alloc_post_one [OF this] show ?case
    using unat32_lt_pow [of "pmm_total_frames s"] by (meson less_trans)
next
  case (2 s e s')
  then show ?case
    using pmm_alloc_strict_spec [of s 1 0 0] by (simp add: PMM_ALLOC_ANY_def)
next
  case (3 s f)
  then show ?case by (simp add: frame_free_def frame_managed_def)
next
  case (4 s f a)
  then show ?case by (rule pmm_free_one)
qed

subsection \<open>Initialisation\<close>

definition usable :: "boot_mem_map_entry \<Rightarrow> bool" where
  "usable e \<longleftrightarrow> me_type e = BOOT_TYPE_USABLE"

definition entry_start_frame :: "boot_mem_map_entry \<Rightarrow> u32" where
  "entry_start_frame e = ucast (ALIGN_UP (me_base e) 4096 div 4096)"

definition entry_end_frame :: "boot_mem_map_entry \<Rightarrow> u32" where
  "entry_end_frame e = ucast (ALIGN_DOWN (me_base e + me_length e) 4096 div 4096)"

definition in_usable :: "boot_mem_map_entry list \<Rightarrow> u32 \<Rightarrow> bool" where
  "in_usable es j \<longleftrightarrow> (\<exists>e\<in>set es. usable e \<and> entry_start_frame e \<le> j \<and> j < entry_end_frame e)"

lemma test_pmm_init_free_usable:
  "bitmap_test (pmm_init_free_usable es bm) j \<longleftrightarrow> bitmap_test bm j \<and> \<not> in_usable es j"
  by (induction es arbitrary: bm)
    (auto simp: pmm_init_free_usable_def in_usable_def usable_def entry_start_frame_def
      entry_end_frame_def PMM_FRAME_SIZE_def Let_def bitmap_test_clear_upto)

lemma nbits_pmm_init_free_usable: "bm_nbits (pmm_init_free_usable es bm) = bm_nbits bm"
  by (induction es arbitrary: bm)
    (auto simp: pmm_init_free_usable_def Let_def for_u32_nbits)

lemma pmm_force_reserve_range_spec:
  fixes s f n
  defines "s' \<equiv> pmm_force_reserve_range f n s"
  shows "pmm_total_frames s' = pmm_total_frames s" and "pmm_max_addr s' = pmm_max_addr s"
    and "bm_nbits (pmm_bm s') = bm_nbits (pmm_bm s)"
    and "bitmap_test (pmm_bm s') j \<longleftrightarrow>
      bitmap_test (pmm_bm s) j \<or> j < pmm_total_frames s \<and> j \<in> (+) f ` {i. i < n}"
proof -
  let ?b = "\<lambda>i s. let frame = f + i
              in if frame < pmm_total_frames s
                 then s\<lparr>pmm_bm := bitmap_set (pmm_bm s) frame\<rparr> else s"
  have g: "pmm_total_frames (fold ?b xs s) = pmm_total_frames s
      \<and> pmm_max_addr (fold ?b xs s) = pmm_max_addr s
      \<and> bm_nbits (pmm_bm (fold ?b xs s)) = bm_nbits (pmm_bm s)
      \<and> (bitmap_test (pmm_bm (fold ?b xs s)) j \<longleftrightarrow>
           bitmap_test (pmm_bm s) j \<or> j < pmm_total_frames s \<and> j \<in> (+) f ` set xs)" for xs
    by (induction xs arbitrary: s) (auto simp: Let_def bitmap_test_set)
  have s': "s' = fold ?b (words_upto 0 n) s"
    by (simp add: s'_def pmm_force_reserve_range_def for_u32_def)
  show "pmm_total_frames s' = pmm_total_frames s" and "pmm_max_addr s' = pmm_max_addr s"
    and "bm_nbits (pmm_bm s') = bm_nbits (pmm_bm s)"
    using g [of "words_upto 0 n"] by (simp_all only: s')
  show "bitmap_test (pmm_bm s') j \<longleftrightarrow>
      bitmap_test (pmm_bm s) j \<or> j < pmm_total_frames s \<and> j \<in> (+) f ` {i. i < n}"
    using g [of "words_upto 0 n"] unfolding s' by simp
qed

lemma count_loop:
  "for_u32 0 t (\<lambda>i n. if P i then n else n + 1) 0 = (of_nat (card {k. k < unat t \<and> \<not> P (of_nat k)}) :: u32)"
proof -
  have "fold (\<lambda>i n. if P i then n else n + 1) (map of_nat [0..<m]) 0 =
      (of_nat (card {k. k < m \<and> \<not> P (of_nat k)}) :: u32)" for m
  proof (induction m)
    case (Suc m)
    have "{k. k < Suc m \<and> \<not> P (of_nat k)} =
        (if P (of_nat m) then {k. k < m \<and> \<not> P (of_nat k)} else insert m {k. k < m \<and> \<not> P (of_nat k)})"
      by (auto simp: less_Suc_eq)
    with Suc show ?case by simp
  qed simp
  then show ?thesis by (simp add: for_u32_def words_upto_def)
qed

text \<open>The frame number of the first frame at or above an address, and below an end address.\<close>

lemma less_ceil_4096: "k < (a + 4095) div 4096 \<longleftrightarrow> 4096 * k < (a::nat)"
  by linarith

end
