(* ===== verification/Pmm_Init.thy ===== *)
theory Pmm_Init
  imports Pmm
begin

text \<open>
  What \<open>pmm_init\<close> (\<^verbatim>\<open>src/kernel/mm/pmm.c\<close>) leaves behind: the invariant of the
  allocator, and exactly the frames of the usable regions that are outside the first MiB,
  the kernel image and the memory of the bitmap itself are free.
\<close>

text \<open>The physical bounds of the kernel image, from the linker symbols.\<close>

definition kphys :: "vaddr \<Rightarrow> nat" where
  "kphys v = unat v - 0xC0000000"

lemma unat_kernel_phys:
  assumes "0xC0000000 \<le> unat v"
  shows "unat ((ucast v :: u64) - ucast KERNEL_VIRT_BASE) = kphys v"
  using assms by (simp add: unat_sub_nowrap KERNEL_VIRT_BASE_def kphys_def)

lemma kphys_le: "kphys v \<le> 0x3FFFFFFF"
proof -
  have "unat v < 4294967296" by (rule unat32_lt)
  then show ?thesis unfolding kphys_def by linarith
qed

lemma frame_down:
  assumes "unat a div 4096 < 2 ^ 32"
  shows "unat (pmm_addr_to_frame (ALIGN_DOWN a PMM_FRAME_SIZE)) = unat a div 4096"
  using assms by (simp add: unat_pmm_addr_to_frame unat_ALIGN_DOWN_4096 PMM_FRAME_SIZE_def)

lemma frame_up:
  assumes "unat a + 4095 < 2 ^ 44"
  shows "unat (pmm_addr_to_frame (ALIGN_UP a PMM_FRAME_SIZE)) = (unat a + 4095) div 4096"
proof -
  have "unat a + 4095 < 2 ^ 64" using assms by simp
  then have u: "unat (ALIGN_UP a 4096) = (unat a + 4095) div 4096 * 4096"
    by (rule unat_ALIGN_UP_4096)
  have "(unat a + 4095) div 4096 < 2 ^ 32" using assms by simp
  then show ?thesis by (simp add: PMM_FRAME_SIZE_def unat_pmm_addr_to_frame u)
qed

text \<open>Reserving the frames from \<open>a div 4096\<close> up to the end address \<open>b\<close>, rounded up.\<close>

lemma reserved_frames_iff:
  fixes j lo hi :: u32
  assumes "unat lo = a div 4096" and "unat hi = (b + 4095) div 4096" and "a \<le> b"
  shows "j \<in> (+) lo ` {i. i < hi - lo} \<longleftrightarrow> a div 4096 \<le> unat j \<and> 4096 * unat j < b"
proof -
  have "a div 4096 \<le> (b + 4095) div 4096" using assms(3) by (intro div_le_mono) simp
  then have le: "unat lo \<le> unat hi" by (simp add: assms)
  then have d: "unat (hi - lo) = unat hi - unat lo" by (rule unat_sub_nowrap)
  have "unat lo + unat (hi - lo) \<le> 2 ^ 32"
    using d le unat32_lt_pow [of hi] by linarith
  from plus_upto_iff [OF this, of j]
  have "j \<in> (+) lo ` {i. i < hi - lo} \<longleftrightarrow> unat lo \<le> unat j \<and> unat j < unat hi"
    using d le by simp
  then show ?thesis by (simp add: assms less_ceil_4096)
qed

text \<open>The bytes that \<open>pmm_init\<close> reserves for a bitmap of \<open>t\<close> bits.\<close>

definition bitmap_bytes :: "nat \<Rightarrow> nat" where
  "bitmap_bytes t = (t + 7) div 8"

text \<open>
  The frames that are free after initialisation, in terms of the memory map, the kernel
  image \<open>[ks, ke)\<close> and the number \<open>t\<close> of managed frames.
\<close>

definition init_free :: "boot_mem_map_entry list \<Rightarrow> nat \<Rightarrow> nat \<Rightarrow> nat \<Rightarrow> nat \<Rightarrow> bool" where
  "init_free es ks ke t k \<longleftrightarrow> k < t \<and> in_usable es (of_nat k) \<and> 256 \<le> k
     \<and> \<not> (ks div 4096 \<le> k \<and> 4096 * k < ke)
     \<and> \<not> (ke div 4096 \<le> k \<and> 4096 * k < ke + bitmap_bytes t)"

definition pmm_init_total :: "boot_mem_map_entry list \<Rightarrow> u32" where
  "pmm_init_total es = ucast (ALIGN_UP (pmm_init_max_addr es) PMM_FRAME_SIZE div PMM_FRAME_SIZE)"

lemma pmm_init_spec:
  fixes es kernel_start kernel_end
  defines "t \<equiv> unat (pmm_init_total es)"
  assumes es: "es \<noteq> []" and ks: "0xC0000000 \<le> unat kernel_start"
    and ke: "unat kernel_start \<le> unat kernel_end" and t: "t + 7 < 2 ^ 32"
  obtains s' where "pmm_init kernel_start kernel_end buffer (Some es) s = (Inr (), s')"
    and "pmm_inv s'" and "unat (pmm_total_frames s') = t"
    and "\<forall>k. frame_free s' k \<longleftrightarrow> init_free es (kphys kernel_start) (kphys kernel_end) t k"
proof -
  define tw where "tw = pmm_init_total es"
  define bm1 where "bm1 = for_u32 0 tw (\<lambda>i b. bitmap_set b i) (bitmap_init (pmm_bm s) buffer tw)"
  define s1 where "s1 = s\<lparr>pmm_max_addr := pmm_init_max_addr es, pmm_total_frames := tw,
                         pmm_bm := pmm_init_free_usable es bm1\<rparr>"
  define s2 where "s2 = pmm_force_reserve_range 0 (1024 * 1024 div PMM_FRAME_SIZE) s1"
  define ksp :: u64 where "ksp = ucast kernel_start - ucast KERNEL_VIRT_BASE"
  define kep :: u64 where "kep = ucast kernel_end - ucast KERNEL_VIRT_BASE"
  define ksf where "ksf = pmm_addr_to_frame (ALIGN_DOWN ksp PMM_FRAME_SIZE)"
  define kef where "kef = pmm_addr_to_frame (ALIGN_UP kep PMM_FRAME_SIZE)"
  define s3 where "s3 = pmm_force_reserve_range ksf (kef - ksf) s2"
  define bep :: u64 where "bep = kep + ucast ((tw + 7) div 8)"
  define bsf where "bsf = pmm_addr_to_frame (ALIGN_DOWN kep PMM_FRAME_SIZE)"
  define bef where "bef = pmm_addr_to_frame (ALIGN_UP bep PMM_FRAME_SIZE)"
  define s4 where "s4 = pmm_force_reserve_range bsf (bef - bsf) s3"
  define s5 where "s5 = s4\<lparr>pmm_free_frames :=
      for_u32 0 tw (\<lambda>i n. if bitmap_test (pmm_bm s4) i then n else n + 1) 0\<rparr>"
  have run: "pmm_init kernel_start kernel_end buffer (Some es) s = (Inr (), s5)"
    using es
    by (simp add: pmm_init_def Let_def s5_def s4_def s3_def s2_def s1_def bm1_def bsf_def bef_def bep_def
        ksf_def kef_def ksp_def kep_def tw_def pmm_init_total_def)
  have tw: "unat tw = t" by (simp add: tw_def t_def)
  have total: "pmm_total_frames s5 = tw" "bm_nbits (pmm_bm s5) = tw"
    by (simp_all add: s5_def s4_def s3_def s2_def s1_def bm1_def pmm_force_reserve_range_spec
        nbits_pmm_init_free_usable for_u32_nbits bitmap_init_def)
  have ksp: "unat ksp = kphys kernel_start" "unat kep = kphys kernel_end" "kphys kernel_start \<le> kphys kernel_end"
    using ks ke by (simp_all add: ksp_def kep_def unat_kernel_phys, simp add: kphys_def)
  have bep: "unat bep = kphys kernel_end + bitmap_bytes t"
  proof -
    have "unat (tw + 7) = t + 7" using t tw by (simp add: unat_word_ariths)
    then have u: "unat ((tw + 7) div 8) = bitmap_bytes t" by (simp add: unat_div bitmap_bytes_def)
    have "kphys kernel_end + bitmap_bytes t < 2 ^ 64"
      using kphys_le [of kernel_end] t by (simp add: bitmap_bytes_def)
    then show ?thesis by (simp add: bep_def unat_add_nowrap ksp u)
  qed
  have bb: "bitmap_bytes t \<le> 2 ^ 32" using t by (simp add: bitmap_bytes_def)
  have fr: "unat ksf = kphys kernel_start div 4096" "unat kef = (kphys kernel_end + 4095) div 4096"
    "unat bsf = kphys kernel_end div 4096" "unat bef = (kphys kernel_end + bitmap_bytes t + 4095) div 4096"
    using kphys_le [of kernel_start] kphys_le [of kernel_end] bb
    by (simp_all add: ksf_def kef_def bsf_def bef_def frame_down frame_up ksp bep)
  have mib: "j < 1048576 div PMM_FRAME_SIZE \<longleftrightarrow> unat j < 256" for j :: u32
    by (simp add: PMM_FRAME_SIZE_def word_less_nat_alt)
  have test: "bitmap_test (pmm_bm s5) j \<longleftrightarrow>
      \<not> init_free es (kphys kernel_start) (kphys kernel_end) t (unat j)" if "unat j < t" for j
  proof -
    have "j < tw" using that tw by (simp add: word_less_nat_alt)
    then show ?thesis
      using that
      by (simp add: s5_def s4_def s3_def s2_def s1_def bm1_def pmm_force_reserve_range_spec init_free_def
          test_pmm_init_free_usable mib reserved_frames_iff [OF fr(1,2) ksp(3)]
          reserved_frames_iff [OF fr(3,4) le_add1] for_u32_def bm.test_set_list) auto
  qed
  have free: "frame_free s5 k \<longleftrightarrow> init_free es (kphys kernel_start) (kphys kernel_end) t k" for k
  proof (cases "k < t")
    case True
    then have "k < 2 ^ 32" using t by linarith
    then have "unat (of_nat k :: u32) = k" by (simp add: unat_of_nat_small)
    with True test [of "of_nat k"] show ?thesis by (simp add: frame_free_def bm_free_def total tw)
  qed (simp add: frame_free_def total tw init_free_def)
  have "pmm_free_frames s5 = of_nat (bm_zeros (pmm_bm s5) t)"
    by (simp add: s5_def count_loop bm_zeros_def bm_free_def tw)
  moreover have "bm_zeros (pmm_bm s5) t < 2 ^ 32"
    using bm_zeros_le [of "pmm_bm s5" t] t by linarith
  ultimately have "pmm_inv s5" by (simp add: pmm_inv_def total tw unat_of_nat_small)
  with run free show thesis by (intro that [of s5]) (simp_all add: total tw)
qed

subsection \<open>What a free frame cannot be\<close>

text \<open>
  With a memory map whose regions end below \<open>2^44\<close> a free frame lies wholly inside a usable
  region. With a kernel image that ends on a word boundary it is disjoint from the image and
  from every word of the bitmap, including the bits that pad the last word.
\<close>

definition frame_bytes :: "nat \<Rightarrow> nat set" where
  "frame_bytes k = {4096 * k..<4096 * k + 4096}"

definition sane_map :: "boot_mem_map_entry list \<Rightarrow> bool" where
  "sane_map es \<longleftrightarrow> (\<forall>e\<in>set es. unat (me_base e) + unat (me_length e) + 4095 < 2 ^ 44)"

lemma in_usable_region:
  assumes "sane_map es" and "in_usable es (of_nat k)" and "k < 2 ^ 32"
  shows "\<exists>e\<in>set es. usable e \<and>
    frame_bytes k \<subseteq> {unat (me_base e)..<unat (me_base e) + unat (me_length e)}"
proof -
  from assms(2) obtain e where e: "e \<in> set es" "usable e" "entry_start_frame e \<le> of_nat k"
    "of_nat k < entry_end_frame e"
    by (auto simp: in_usable_def)
  let ?b = "unat (me_base e)" and ?l = "unat (me_length e)"
  have lt: "?b + ?l + 4095 < 2 ^ 44" using assms(1) e(1) by (auto simp: sane_map_def)
  then have sum: "unat (me_base e + me_length e) = ?b + ?l" by (simp add: unat_add_nowrap)
  have "unat (entry_start_frame e) = (?b + 4095) div 4096"
    using frame_up [of "me_base e"] lt
    by (simp add: entry_start_frame_def pmm_addr_to_frame_def PMM_FRAME_SIZE_def)
  moreover have "unat (entry_end_frame e) = (?b + ?l) div 4096"
    using frame_down [of "me_base e + me_length e"] lt
    by (simp add: entry_end_frame_def pmm_addr_to_frame_def PMM_FRAME_SIZE_def sum)
  moreover have "unat (of_nat k :: u32) = k" using assms(3) by (simp add: unat_of_nat_small)
  ultimately have "(?b + 4095) div 4096 \<le> k" "k < (?b + ?l) div 4096"
    using e(3,4) by (simp_all add: word_le_nat_alt word_less_nat_alt)
  then have "?b \<le> 4096 * k" "4096 * k + 4096 \<le> ?b + ?l" by linarith+
  with e(1,2) show ?thesis by (auto simp: frame_bytes_def)
qed

lemma bitmap_words_covered:
  assumes "4 dvd ke" and "ke \<le> a" and "a < ke + 4 * ((t + 31) div 32)"
  shows "4096 * (a div 4096) < ke + bitmap_bytes t"
proof -
  from assms(1) obtain w where w: "ke = 4 * w" by blast
  have "a div 4 < w + (t + 31) div 32" using assms(2,3) w by linarith
  then have "4 * (a div 4) < ke + (t + 7) div 8" using w by linarith
  moreover have "a div 4096 = a div 4 div 1024" by (simp flip: div_mult2_eq)
  then have "4096 * (a div 4096) \<le> 4 * (a div 4)" by linarith
  ultimately show ?thesis by (simp add: bitmap_bytes_def)
qed

lemma init_free_disjoint:
  assumes f: "init_free es ks ke t k" and "ks \<le> ke" and "4 dvd ke"
  shows "frame_bytes k \<inter> {ks..<ke} = {}" and "frame_bytes k \<inter> {..<0x100000} = {}"
    and "frame_bytes k \<inter> {ke..<ke + 4 * ((t + 31) div 32)} = {}"
proof -
  have div: "a div 4096 = k" if "a \<in> frame_bytes k" for a
    using that by (auto simp: frame_bytes_def)
  show "frame_bytes k \<inter> {ks..<ke} = {}"
  proof (rule ccontr)
    assume "frame_bytes k \<inter> {ks..<ke} \<noteq> {}"
    then obtain a where a: "a \<in> frame_bytes k" "ks \<le> a" "a < ke" by auto
    then have "ks div 4096 \<le> k" "4096 * k < ke"
      using div [of a] div_le_mono [of ks a 4096] by (auto simp: frame_bytes_def)
    with f show False by (simp add: init_free_def)
  qed
  show "frame_bytes k \<inter> {..<0x100000} = {}"
    using f by (auto simp: init_free_def frame_bytes_def)
  show "frame_bytes k \<inter> {ke..<ke + 4 * ((t + 31) div 32)} = {}"
  proof (rule ccontr)
    assume "frame_bytes k \<inter> {ke..<ke + 4 * ((t + 31) div 32)} \<noteq> {}"
    then obtain a where a: "a \<in> frame_bytes k" "ke \<le> a" "a < ke + 4 * ((t + 31) div 32)" by auto
    then have "ke div 4096 \<le> k" "4096 * k < ke + bitmap_bytes t"
      using div [of a] div_le_mono [of ke a 4096] bitmap_words_covered [OF assms(3) a(2,3)] by auto
    with f show False by (simp add: init_free_def)
  qed
qed

end
