(* ===== verification/Pmm_Props.thy ===== *)
theory Pmm_Props
  imports Pmm_Init
begin

text \<open>
  The properties of the physical memory manager: the result of one allocation or release, the
  state after initialisation, and the runs of the allocator, in which the ranges that are
  handed out and not yet given back never overlap.
\<close>

subsection \<open>One operation\<close>

text \<open>
  C5. With the strict policy \<open>pmm_alloc\<close> hands out the lowest run of free frames between the two
  bounds, marks exactly these frames as taken and keeps the count of free frames right; it fails
  with \<open>KERR_NOMEM\<close>, changing nothing, exactly when there is no such run.
\<close>

theorem pmm_alloc_first_fit:
  assumes "pmm_inv s" and "pages \<noteq> 0"
  shows "case pmm_alloc lo hi pages PMM_POLICY_STRICT True s of
      (Inr addr, s') \<Rightarrow> alloc_post s (pmm_lo_frame lo) (pmm_hi_frame s hi) (unat pages) addr s'
    | (Inl e, s') \<Rightarrow> e = KERR_NOMEM \<and> s' = s
        \<and> no_run s (pmm_lo_frame lo) (pmm_hi_frame s hi) (unat pages)"
  using assms by (rule pmm_alloc_strict_spec)

lemma pmm_free_cases:
  assumes inv: "pmm_inv s"
  shows "if pmm_free_ok s addr pages
    then \<exists>s'. pmm_free addr pages s = (Inr (), s') \<and> pmm_inv s'
           \<and> frames_taken s' (unat (pmm_addr_to_frame addr)) (unat pages) s
    else pmm_free addr pages s = (Inl KERR_INVAL, s)"
proof (cases "pmm_free_ok s addr pages")
  case True
  then show ?thesis using pmm_free_accept [OF inv True] by metis
next
  case False
  then show ?thesis using pmm_free_reject by simp
qed

lemma pmm_alloc_any_policy:
  assumes "pmm_inv s" and "pages \<noteq> 0" and "pmm_alloc lo hi pages policy True s = (r, s')"
  shows "case r of
      Inr addr \<Rightarrow> (\<exists>f. unat addr = 4096 * f \<and> frames_taken s f (unat pages) s' \<and> pmm_inv s')
    | Inl e \<Rightarrow> e = KERR_NOMEM \<and> s' = s"
proof (cases policy)
  case PMM_POLICY_STRICT
  then show ?thesis
    using pmm_alloc_strict_spec [OF assms(1,2), of lo hi] assms(3)
    by (auto simp: alloc_post_def split: sum.split)
next
  case PMM_POLICY_FALLBACK
  then show ?thesis
    using pmm_alloc_fallback_spec [OF assms(1,2), of lo hi] assms(3)
    by (auto simp: alloc_post_def split: sum.split)
qed

lemma pmm_addr_to_frame_at:
  assumes "unat a = 4096 * f" and "f < 2 ^ 32"
  shows "unat (pmm_addr_to_frame a) = f"
  using assms by (simp add: unat_pmm_addr_to_frame)

lemma frames_taken_bound:
  assumes "frames_taken s f n s'" and "0 < n"
  shows "f + n \<le> unat (pmm_total_frames s)" and "f < 2 ^ 32"
proof -
  have "frame_free s (f + n - 1)" using assms by (simp add: frames_taken_def)
  then have "f + n - 1 < unat (pmm_total_frames s)" by (simp add: frame_free_def)
  then show "f + n \<le> unat (pmm_total_frames s)" by simp
  then show "f < 2 ^ 32" using assms(2) unat32_lt_pow [of "pmm_total_frames s"] by linarith
qed

text \<open>
  Whatever \<open>pmm_alloc\<close> hands out under either policy, \<open>pmm_free\<close> accepts, and the set and the
  count of the free frames are then the same as before.
\<close>

theorem pmm_alloc_then_free:
  assumes inv: "pmm_inv s" and n: "pages \<noteq> 0"
    and run: "pmm_alloc lo hi pages policy True s = (Inr addr, s')"
  shows "\<exists>s''. pmm_free addr pages s' = (Inr (), s'') \<and> pmm_inv s''
     \<and> pmm_free_frames s'' = pmm_free_frames s \<and> (\<forall>k. frame_free s'' k \<longleftrightarrow> frame_free s k)"
proof -
  obtain f where f: "unat addr = 4096 * f" "frames_taken s f (unat pages) s'" "pmm_inv s'"
    using pmm_alloc_any_policy [OF inv n run] by auto
  have pos: "0 < unat pages" using n by (simp add: unat_gt_0)
  note bnd = frames_taken_bound [OF f(2) pos]
  have at: "unat (pmm_addr_to_frame addr) = f" by (rule pmm_addr_to_frame_at [OF f(1) bnd(2)])
  have "pmm_free_ok s' addr pages"
    using f bnd n at by (auto simp: pmm_free_ok_def frames_used_run_def frames_taken_def)
  then obtain s'' where s'': "pmm_free addr pages s' = (Inr (), s'')" "pmm_inv s''"
    "frames_taken s'' f (unat pages) s'"
    using pmm_free_accept [OF f(3)] at by metis
  have "unat (pmm_free_frames s'') = unat (pmm_free_frames s)"
    using f(2) s''(3) by (simp add: frames_taken_def)
  moreover have "frame_free s'' k \<longleftrightarrow> frame_free s k" for k
    using f(2) s''(3) unfolding frames_taken_def by blast
  ultimately show ?thesis using s''(1,2) by (auto simp: word_unat_eq_iff)
qed

text \<open>
  \<open>pmm_free\<close> accepts exactly the aligned, non-empty ranges of managed frames that are all
  taken, and then frees these and no others; everything else, a double free among them, is
  refused with \<open>KERR_INVAL\<close> and changes nothing.
\<close>

theorem pmm_free_exact:
  assumes "pmm_inv s"
  shows "if pmm_free_ok s addr pages
    then \<exists>s'. pmm_free addr pages s = (Inr (), s') \<and> pmm_inv s'
           \<and> frames_taken s' (unat (pmm_addr_to_frame addr)) (unat pages) s
    else pmm_free addr pages s = (Inl KERR_INVAL, s)"
  using assms by (rule pmm_free_cases)

subsection \<open>Runs of the allocator\<close>

text \<open>
  The states reached from \<open>s0\<close> by calls with any arguments. \<open>held\<close> has an entry for every successful allocation: the
  frames it returned that have not been released since. A release is accepted for every range of taken frames: of a
  whole allocation, of a part of one, across several, or of frames that are reserved and were never
  allocated. Its frames are no longer held, and those that nobody held are collected in \<open>extra\<close>.
\<close>

definition freed_frames :: "paddr \<Rightarrow> size_t \<Rightarrow> nat set" where
  "freed_frames addr pages = {unat (pmm_addr_to_frame addr) ..< unat (pmm_addr_to_frame addr) + unat pages}"

inductive pmm_run :: "pmm \<Rightarrow> nat set list \<Rightarrow> nat set \<Rightarrow> pmm \<Rightarrow> bool" for s0 where
  pmm_start: "pmm_run s0 [] {} s0"
| pmm_allocated: "pmm_run s0 held extra s \<Longrightarrow> pmm_alloc lo hi pages policy out s = (Inr addr, s') \<Longrightarrow>
     pmm_run s0 ({unat addr div 4096 ..< unat addr div 4096 + unat pages} # held) extra s'"
| pmm_alloc_failed: "pmm_run s0 held extra s \<Longrightarrow> pmm_alloc lo hi pages policy out s = (Inl e, s') \<Longrightarrow>
     pmm_run s0 held extra s'"
| pmm_released: "pmm_run s0 held extra s \<Longrightarrow> pmm_free addr pages s = (Inr (), s') \<Longrightarrow>
     pmm_run s0 (map (\<lambda>A. A - freed_frames addr pages) held) (extra \<union> (freed_frames addr pages - \<Union> (set held))) s'"
| pmm_release_refused: "pmm_run s0 held extra s \<Longrightarrow> pmm_free addr pages s = (Inl e, s') \<Longrightarrow>
     pmm_run s0 held extra s'"

abbreviation apart :: "nat set list \<Rightarrow> bool" where
  "apart \<equiv> sorted_wrt (\<lambda>A B. A \<inter> B = {})"

lemma apart_minus: "apart As \<Longrightarrow> apart (map (\<lambda>A. A - R) As)"
  by (induction As) auto

lemma pmm_alloc_zero: "pmm_alloc lo hi 0 policy out s = (Inl KERR_INVAL, s)"
  by (subst pmm_alloc.simps) simp

lemma pmm_alloc_null: "pmm_alloc lo hi pages policy False s = (Inl KERR_INVAL, s)"
  by (subst pmm_alloc.simps) simp

lemma pmm_alloc_error_same:
  assumes "pmm_inv s" and "pmm_alloc lo hi pages policy out s = (Inl e, s')"
  shows "s' = s"
  using assms pmm_alloc_zero pmm_alloc_null pmm_alloc_any_policy [OF assms(1)]
  by (cases "pages = 0"; cases out) fastforce+

text \<open>
  C4. From any consistent state, after any sequence of calls of \<open>pmm_alloc\<close> and \<open>pmm_free\<close> with any arguments the count
  of free frames is right, and the frames held by different allocations are different. A frame is free exactly when
  nobody holds it and it was free at the start or was released without being held; the
  second happens only to frames that were taken at the start. So as long as callers release only what they
  hold (\<open>extra\<close> is empty), no frame that was taken at the start ever becomes free.
\<close>

theorem pmm_run_inv:
  assumes "pmm_run s0 held extra s" and s0: "pmm_inv s0"
  shows "pmm_inv s \<and> apart held \<and> \<Union> (set held) \<subseteq> {k. frame_free s0 k} \<union> extra \<and> extra \<inter> {k. frame_free s0 k} = {}
     \<and> (\<forall>k. frame_free s k \<longleftrightarrow> (frame_free s0 k \<or> k \<in> extra) \<and> k \<notin> \<Union> (set held))"
  using assms(1)
proof induction
  case pmm_start
  then show ?case using s0 by simp
next
  case (pmm_allocated held extra s lo hi pages policy out addr s')
  have n: "pages \<noteq> 0" "out" using pmm_allocated(2) pmm_alloc_zero pmm_alloc_null by (auto, metis Inl_Inr_False prod.inject)
  obtain f where f: "unat addr = 4096 * f" "frames_taken s f (unat pages) s'" "pmm_inv s'"
    using pmm_alloc_any_policy [OF _ n(1) pmm_allocated(2) [unfolded eqTrueI [OF n(2)]]] pmm_allocated.IH by auto
  then have "unat addr div 4096 = f" by simp
  then show ?case
    using pmm_allocated.IH f(2,3) by (auto simp: frames_taken_def)
next
  case (pmm_alloc_failed held extra s lo hi pages policy out e s')
  then show ?case using pmm_alloc_error_same by blast
next
  case (pmm_released held extra s addr pages s')
  let ?R = "freed_frames addr pages"
  have inv: "pmm_inv s" using pmm_released.IH by blast
  have ok: "pmm_free_ok s addr pages" using pmm_free_reject pmm_released.hyps(2) by force
  have t: "frames_taken s' (unat (pmm_addr_to_frame addr)) (unat pages) s" "pmm_inv s'"
    using pmm_free_accept [OF inv ok] pmm_released.hyps(2) by auto
  have new: "frame_free s' k \<longleftrightarrow> frame_free s k \<or> k \<in> ?R" for k
    using t(1) by (auto simp: frames_taken_def freed_frames_def)
  have used: "\<not> frame_free s k" if "k \<in> ?R" for k using ok that by (simp add: pmm_free_ok_def frames_used_run_def freed_frames_def)
  have "frame_free s' k \<longleftrightarrow> (frame_free s0 k \<or> k \<in> extra \<union> (?R - \<Union> (set held))) \<and> k \<notin> \<Union> (set (map (\<lambda>A. A - ?R) held))" for k
    unfolding new using pmm_released.IH by auto
  moreover have "(extra \<union> (?R - \<Union> (set held))) \<inter> {k. frame_free s0 k} = {}" using pmm_released.IH used by blast
  moreover have "\<Union> (set (map (\<lambda>A. A - ?R) held)) \<subseteq> {k. frame_free s0 k} \<union> (extra \<union> (?R - \<Union> (set held)))"
    using pmm_released.IH by auto
  ultimately show ?case using pmm_released.IH t(2) apart_minus by blast
next
  case (pmm_release_refused held extra s addr pages e s')
  then show ?case using pmm_free_cases [of s addr pages] by (auto split: if_splits)
qed

subsection \<open>Initialisation\<close>

text \<open>
  C6. After \<open>pmm_init\<close> the state is consistent, and every frame that is free lies wholly inside
  a usable region of the memory map and overlaps neither the first MiB, nor the kernel image,
  nor any word of the bitmap that is kept right behind it.
\<close>

theorem pmm_init_correct:
  assumes es: "es \<noteq> []" "sane_map es" and t: "unat (pmm_init_total es) + 7 < 2 ^ 32"
    and k: "0xC0000000 \<le> unat kernel_start" "unat kernel_start \<le> unat kernel_end" "4 dvd unat kernel_end"
  shows "\<exists>s'. pmm_init kernel_start kernel_end buffer (Some es) s = (Inr (), s') \<and> pmm_inv s'
     \<and> pmm_total_frames s' = pmm_init_total es \<and>
     (\<forall>f. frame_free s' f \<longrightarrow>
        (\<exists>e\<in>set es. usable e \<and> frame_bytes f \<subseteq> {unat (me_base e)..<unat (me_base e) + unat (me_length e)})
        \<and> frame_bytes f \<inter> {..<0x100000} = {}
        \<and> frame_bytes f \<inter> {kphys kernel_start..<kphys kernel_end} = {}
        \<and> frame_bytes f \<inter> {kphys kernel_end..<kphys kernel_end + 4 * ((unat (pmm_total_frames s') + 31) div 32)} = {})"
proof -
  obtain s' where s': "pmm_init kernel_start kernel_end buffer (Some es) s = (Inr (), s')" "pmm_inv s'"
    "unat (pmm_total_frames s') = unat (pmm_init_total es)"
    "\<forall>k. frame_free s' k \<longleftrightarrow> init_free es (kphys kernel_start) (kphys kernel_end) (unat (pmm_init_total es)) k"
    by (rule pmm_init_spec [OF es(1) k(1,2) t])
  have ks: "kphys kernel_start \<le> kphys kernel_end" using k(2) by (simp add: kphys_def)
  have "4 dvd kphys kernel_end" using k by (simp add: kphys_def dvd_diff_nat)
  note disj = init_free_disjoint [OF _ ks this]
  have "\<exists>e\<in>set es. usable e \<and> frame_bytes f \<subseteq> {unat (me_base e)..<unat (me_base e) + unat (me_length e)}"
    if "init_free es a b (unat (pmm_init_total es)) f" for a b f
  proof (rule in_usable_region [OF es(2)])
    show "in_usable es (of_nat f)" using that by (simp add: init_free_def)
    have "f < unat (pmm_init_total es)" using that by (simp add: init_free_def)
    then show "f < 2 ^ 32" using unat32_lt_pow [of "pmm_init_total es"] by linarith
  qed
  then show ?thesis
    using s' disj by (intro exI [of _ s']) (auto simp: word_unat_eq_iff)
qed

subsection \<open>A sample state\<close>

text \<open>A machine with 512 frames (2 MiB), all free, for the witnesses.\<close>

definition pmm_sample :: pmm where
  "pmm_sample = \<lparr>pmm_bm = \<lparr>bm_data = (\<lambda>_. 0), bm_nbits = 512, bm_nelems = 16\<rparr>, pmm_max_addr = 0x200000,
                 pmm_total_frames = 512, pmm_free_frames = 512\<rparr>"

lemma pmm_sample_free: "frame_free pmm_sample k \<longleftrightarrow> k < 512"
  by (auto simp: frame_free_def pmm_sample_def bm_free_bit)

lemma pmm_sample_inv: "pmm_inv pmm_sample"
proof -
  have "{k. k < 512 \<and> bm_free (pmm_bm pmm_sample) k} = {..<512}"
    by (auto simp: bm_free_bit pmm_sample_def)
  then show ?thesis by (simp add: pmm_inv_def bm_zeros_def pmm_sample_def)
qed

lemma pmm_sample_alloc:
  obtains addr s' where "pmm_alloc 0 0 3 PMM_POLICY_STRICT True pmm_sample = (Inr addr, s')"
proof -
  have n: "(3 :: size_t) \<noteq> 0" by simp
  obtain r s' where run: "pmm_alloc 0 0 3 PMM_POLICY_STRICT True pmm_sample = (r, s')" by fastforce
  have "frames_free_run pmm_sample 0 3" by (simp add: frames_free_run_def pmm_sample_free)
  then have "\<not> no_run pmm_sample 0 512 3" by (auto simp: no_run_def)
  then have "\<exists>addr. r = Inr addr"
    using pmm_alloc_strict_spec [OF pmm_sample_inv n, of 0 0] run
    by (cases r) (auto simp: pmm_sample_def)
  then show ?thesis using that run by blast
qed

theorem pmm_alloc_first_fit_witness:
  "\<exists>addr s'. pmm_alloc 0 0 3 PMM_POLICY_STRICT True pmm_sample = (Inr addr, s')
     \<and> alloc_post pmm_sample 0 512 3 addr s'"
proof -
  have n: "(3 :: size_t) \<noteq> 0" by simp
  obtain addr s' where run: "pmm_alloc 0 0 3 PMM_POLICY_STRICT True pmm_sample = (Inr addr, s')"
    by (rule pmm_sample_alloc)
  have "unat (pmm_total_frames pmm_sample) = 512" by (simp add: pmm_sample_def)
  then show ?thesis using pmm_alloc_first_fit [OF pmm_sample_inv n, of 0 0] run by simp
qed

theorem pmm_free_exact_witness:
  "pmm_inv pmm_sample \<and> \<not> pmm_free_ok pmm_sample 0x1000 1
     \<and> pmm_free 0x1000 1 pmm_sample = (Inl KERR_INVAL, pmm_sample)"
proof -
  have "\<not> pmm_free_ok pmm_sample 0x1000 1"
    by (auto simp: pmm_free_ok_def frames_used_run_def pmm_sample_free unat_pmm_addr_to_frame)
  then show ?thesis
    using pmm_free_exact [OF pmm_sample_inv, of "0x1000" 1] pmm_sample_inv by simp
qed

theorem pmm_alloc_then_free_witness:
  "\<exists>addr s' s''. pmm_alloc 0 0 3 PMM_POLICY_STRICT True pmm_sample = (Inr addr, s')
     \<and> pmm_free addr 3 s' = (Inr (), s'') \<and> pmm_free_frames s'' = 512"
proof -
  have n: "(3 :: size_t) \<noteq> 0" by simp
  obtain addr s' where run: "pmm_alloc 0 0 3 PMM_POLICY_STRICT True pmm_sample = (Inr addr, s')"
    by (rule pmm_sample_alloc)
  from pmm_alloc_then_free [OF pmm_sample_inv n run] run show ?thesis by (auto simp: pmm_sample_def)
qed

theorem pmm_run_inv_witness:
  "\<exists>(addr :: paddr) s'. pmm_run pmm_sample [{unat addr div 4096 ..< unat addr div 4096 + 3}] {} s' \<and> pmm_inv s'
     \<and> \<not> frame_free s' (unat addr div 4096)"
proof -
  obtain addr s' where "pmm_alloc 0 0 3 PMM_POLICY_STRICT True pmm_sample = (Inr addr, s')"
    by (rule pmm_sample_alloc)
  from pmm_allocated [OF pmm_start this] have run: "pmm_run pmm_sample [{unat addr div 4096 ..< unat addr div 4096 + 3}] {} s'" by simp
  from pmm_run_inv [OF this pmm_sample_inv] run show ?thesis by (intro exI [of _ addr] exI [of _ s']) simp
qed

text \<open>A memory map with one usable region from 1 MiB to 16 MiB.\<close>

definition map_sample :: "boot_mem_map_entry list" where
  "map_sample = [\<lparr>me_base = 0x100000, me_length = 0xF00000, me_type = BOOT_TYPE_USABLE, me_attr = 0\<rparr>]"

theorem pmm_init_correct_witness:
  "\<exists>s'. pmm_init 0xC0100000 0xC0180000 (\<lambda>_. 0) (Some map_sample) pmm_sample = (Inr (), s') \<and> pmm_inv s'
     \<and> pmm_total_frames s' = 4096"
proof -
  have t: "pmm_init_total map_sample = 4096"
    by (simp add: pmm_init_total_def pmm_init_max_addr_def map_sample_def BOOT_TYPE_USABLE_def
        PMM_FRAME_SIZE_def ALIGN_UP_def)
  have "sane_map map_sample" by (simp add: sane_map_def map_sample_def)
  moreover have "map_sample \<noteq> []" by (simp add: map_sample_def)
  ultimately show ?thesis
    using pmm_init_correct [of map_sample "0xC0100000" "0xC0180000" "\<lambda>_. 0" pmm_sample] t by auto
qed

end
