(* ===== verification/Kheap.thy ===== *)
theory Kheap
  imports Pmm Klib_List
begin

text \<open>
  The kernel heap, \<^verbatim>\<open>src/kernel/mm/kheap.c\<close>: an explicit-free-list allocator with boundary
  tags over one physically contiguous range. A block at address \<open>a\<close> has its header in the
  words \<open>a\<close> (size), \<open>a + 4\<close> (flags), \<open>a + 8\<close> and \<open>a + 12\<close> (the free-list node), its payload
  from \<open>a + 16\<close>, and its footer (the size again) in its last word. The operations work on the
  word store; the list of blocks that tile the heap and the order of the free list are the
  abstract state they are shown to refine.
\<close>

subsection \<open>Operations\<close>

text \<open>The static variables of the file; \<open>kheap_free_list\<close> is the address of the sentinel.\<close>

record kheap =
  kheap_free_list :: vaddr
  kheap_start :: vaddr
  kheap_end :: vaddr

definition KHEAP_FLAG_ALLOC :: u32 where
  "KHEAP_FLAG_ALLOC = BIT 0"

definition KHEAP_MIN_BLOCK_SIZE :: size_t where
  "KHEAP_MIN_BLOCK_SIZE = 16 + 4 + 4"

definition hdr_size :: "mem \<Rightarrow> vaddr \<Rightarrow> size_t" where
  "hdr_size m hdr = ld m hdr"

definition hdr_flags :: "mem \<Rightarrow> vaddr \<Rightarrow> u32" where
  "hdr_flags m hdr = ld m (hdr + 4)"

definition set_hdr_size :: "vaddr \<Rightarrow> size_t \<Rightarrow> mem \<Rightarrow> mem" where
  "set_hdr_size hdr v m = st hdr v m"

definition set_hdr_flags :: "vaddr \<Rightarrow> u32 \<Rightarrow> mem \<Rightarrow> mem" where
  "set_hdr_flags hdr v m = st (hdr + 4) v m"

definition free_node :: "vaddr \<Rightarrow> vaddr" where
  "free_node hdr = hdr + 8"

text \<open>\<open>container_of(node, struct kheap_header, free_node)\<close>\<close>

definition node_hdr :: "vaddr \<Rightarrow> vaddr" where
  "node_hdr node = node - 8"

definition kheap_format :: "kheap \<Rightarrow> size_t \<Rightarrow> mem \<Rightarrow> mem" where
  "kheap_format kh block_size m =
     (let hdr = kheap_start kh;
          m = set_hdr_size hdr block_size m;
          m = set_hdr_flags hdr 0 m;
          m = st (kheap_end kh - 4) block_size m;
          m = list_init (kheap_free_list kh) m
      in list_insert_front (kheap_free_list kh) (free_node hdr) m)"

definition kheap_init :: "(pmm \<times> kheap \<times> mem, unit) kfun" where
  "kheap_init s =
     (case s of (p, kh, m) \<Rightarrow>
        (case PMM_ALLOC_LOWMEM 256 p of
           (Inl e, p) \<Rightarrow> (Inl e, (p, kh, m))
         | (Inr phys, p) \<Rightarrow>
             let block_size = PMM_FRAME_SIZE * 256;
                 kh = kh\<lparr>kheap_start := PHYS_TO_VIRT phys\<rparr>;
                 kh = kh\<lparr>kheap_end := kheap_start kh + block_size\<rparr>
             in (Inr (), (p, kh, kheap_format kh block_size m))))"

text \<open>The branch of \<open>kmalloc\<close> that splits the block it has found.\<close>

definition kheap_split :: "vaddr \<Rightarrow> size_t \<Rightarrow> size_t \<Rightarrow> mem \<Rightarrow> mem" where
  "kheap_split hdr block_size remaining m =
     (let m = set_hdr_flags hdr (MASK_SET (hdr_flags m hdr) KHEAP_FLAG_ALLOC) m;
          m = set_hdr_size hdr block_size m;
          footer = hdr + block_size - 4;
          m = st footer block_size m;
          free_hdr = footer + 4;
          m = set_hdr_flags free_hdr (MASK_CLEAR (hdr_flags m free_hdr) KHEAP_FLAG_ALLOC) m;
          m = set_hdr_size free_hdr remaining m;
          free_footer = free_hdr + remaining - 4;
          m = st free_footer remaining m
      in list_replace (free_node hdr) (free_node free_hdr) m)"

definition kheap_take :: "vaddr \<Rightarrow> mem \<Rightarrow> mem" where
  "kheap_take hdr m =
     (let m = list_remove (free_node hdr) m
      in set_hdr_flags hdr (MASK_SET (hdr_flags m hdr) KHEAP_FLAG_ALLOC) m)"

definition kmalloc_block_size :: "size_t \<Rightarrow> size_t" where
  "kmalloc_block_size sz = 16 + ALIGN_UP sz 4 + 4"

text \<open>\<open>None\<close> when the walk over the free list does not end.\<close>

definition kmalloc :: "kheap \<Rightarrow> size_t \<Rightarrow> mem \<Rightarrow> (vaddr \<times> mem) option" where
  "kmalloc kh sz m =
     (if sz = 0 then Some (KERR_PTR KERR_INVAL, m)
      else let block_size = kmalloc_block_size sz in
        (case list_search m (kheap_free_list kh) (\<lambda>node. block_size \<le> hdr_size m (node_hdr node)) of
           None \<Rightarrow> None
         | Some node \<Rightarrow>
             if node = kheap_free_list kh then Some (KERR_PTR KERR_NOMEM, m)
             else let hdr = node_hdr node;
                      remaining = hdr_size m hdr - block_size
                  in Some (hdr + 16,
                       if KHEAP_MIN_BLOCK_SIZE \<le> remaining then kheap_split hdr block_size remaining m
                       else kheap_take hdr m)))"

definition kheap_merge :: "vaddr \<Rightarrow> vaddr \<Rightarrow> mem \<Rightarrow> mem" where
  "kheap_merge left right m =
     (let m = set_hdr_size left (hdr_size m left + hdr_size m right) m;
          footer = right + hdr_size m right - 4
      in st footer (hdr_size m left) m)"

definition kfree :: "kheap \<Rightarrow> vaddr \<Rightarrow> (mem, unit) kfun" where
  "kfree kh ptr m =
     (if ptr = 0 then (Inl KERR_INVAL, m)
      else if ptr < kheap_start kh + 16 \<or> kheap_end kh - KHEAP_MIN_BLOCK_SIZE \<le> ptr
      then (Inl KERR_INVAL, m)
      else if ptr mod 4 \<noteq> 0 then (Inl KERR_INVAL, m)
      else let hdr = ptr - 16 in
        if \<not> MASK_TEST (hdr_flags m hdr) KHEAP_FLAG_ALLOC then (Inl KERR_INVAL, m)
        else let m = set_hdr_flags hdr (MASK_CLEAR (hdr_flags m hdr) KHEAP_FLAG_ALLOC) m;
                 next_hdr = hdr + hdr_size m hdr;
                 next_free = (next_hdr < kheap_end kh
                   \<and> \<not> MASK_TEST (hdr_flags m next_hdr) KHEAP_FLAG_ALLOC);
                 prev_hdr = hdr - ld m (hdr - 4);
                 prev_free = (hdr \<noteq> kheap_start kh
                   \<and> \<not> MASK_TEST (hdr_flags m prev_hdr) KHEAP_FLAG_ALLOC);
                 m = (if prev_free then kheap_merge prev_hdr hdr m else m);
                 hdr = (if prev_free then prev_hdr else hdr);
                 m = (if next_free then kheap_merge hdr next_hdr (list_remove (free_node next_hdr) m) else m);
                 m = (if prev_free then m else list_insert_front (kheap_free_list kh) (free_node hdr) m)
             in (Inr (), m))"

text \<open>
  The walk of \<open>kheap_dump\<close> over the blocks: the lines it prints (address, size, allocated) in
  order, and the totals it counts (blocks, allocated blocks and bytes, free blocks and bytes).
\<close>

record kheap_totals =
  total_blocks :: size_t
  allocated_blocks :: size_t
  free_blocks :: size_t
  allocated_bytes :: size_t
  free_bytes :: size_t

definition kheap_count :: "bool \<Rightarrow> size_t \<Rightarrow> kheap_totals \<Rightarrow> kheap_totals" where
  "kheap_count allocated sz t =
     (let t = t\<lparr>total_blocks := total_blocks t + 1\<rparr>
      in if allocated then t\<lparr>allocated_blocks := allocated_blocks t + 1,
                             allocated_bytes := allocated_bytes t + sz\<rparr>
         else t\<lparr>free_blocks := free_blocks t + 1, free_bytes := free_bytes t + sz\<rparr>)"

partial_function (option) kheap_dump_blocks ::
  "kheap \<Rightarrow> mem \<Rightarrow> vaddr \<Rightarrow> kheap_totals \<Rightarrow> (vaddr \<times> size_t \<times> bool) list
     \<Rightarrow> ((vaddr \<times> size_t \<times> bool) list \<times> kheap_totals) option" where
  "kheap_dump_blocks kh m addr t out =
     (if addr < kheap_end kh then
        let allocated = MASK_TEST (hdr_flags m addr) KHEAP_FLAG_ALLOC
        in kheap_dump_blocks kh m (addr + hdr_size m addr) (kheap_count allocated (hdr_size m addr) t)
             (out @ [(addr, hdr_size m addr, allocated)])
      else Some (out, t))"

partial_function (option) kheap_dump_free ::
  "kheap \<Rightarrow> mem \<Rightarrow> vaddr \<Rightarrow> (vaddr \<times> size_t) list \<Rightarrow> (vaddr \<times> size_t) list option" where
  "kheap_dump_free kh m node out =
     (if node = kheap_free_list kh then Some out
      else kheap_dump_free kh m (node_next m node) (out @ [(node_hdr node, hdr_size m (node_hdr node))]))"

definition kheap_dump :: "kheap \<Rightarrow> mem
    \<Rightarrow> ((vaddr \<times> size_t \<times> bool) list \<times> kheap_totals \<times> (vaddr \<times> size_t) list) option" where
  "kheap_dump kh m =
     (case kheap_dump_blocks kh m (kheap_start kh)
             \<lparr>total_blocks = 0, allocated_blocks = 0, free_blocks = 0, allocated_bytes = 0, free_bytes = 0\<rparr> []
      of None \<Rightarrow> None
       | Some (lines, t) \<Rightarrow>
           (case kheap_dump_free kh m (node_next m (kheap_free_list kh)) [] of
              None \<Rightarrow> None
            | Some free_lines \<Rightarrow> Some (lines, t, free_lines)))"

subsection \<open>The blocks of the heap\<close>

datatype blk = Blk (b_addr: nat) (b_size: nat) (b_alloc: bool)

text \<open>The blocks tile a range of addresses, each of them aligned and of the minimum size.\<close>

fun tiles :: "nat \<Rightarrow> blk list \<Rightarrow> nat \<Rightarrow> bool" where
  "tiles a [] e \<longleftrightarrow> a = e"
| "tiles a (b # bs) e \<longleftrightarrow>
     b_addr b = a \<and> 24 \<le> b_size b \<and> b_size b mod 4 = 0 \<and> tiles (a + b_size b) bs e"

text \<open>No two neighbouring blocks are both free.\<close>

fun coalesced :: "blk list \<Rightarrow> bool" where
  "coalesced (b # c # bs) \<longleftrightarrow> (b_alloc b \<or> b_alloc c) \<and> coalesced (c # bs)"
| "coalesced bs \<longleftrightarrow> True"

definition blk_node :: "blk \<Rightarrow> vaddr" where
  "blk_node b = of_nat (b_addr b + 8)"

text \<open>The nodes of the free blocks.\<close>

definition free_nodes :: "blk list \<Rightarrow> vaddr set" where
  "free_nodes bs = blk_node ` {b \<in> set bs. \<not> b_alloc b}"

lemma free_nodes_simps [simp]:
  "free_nodes [] = {}"
  "free_nodes (b # bs) = (if b_alloc b then free_nodes bs else insert (blk_node b) (free_nodes bs))"
  "free_nodes (bs @ cs) = free_nodes bs \<union> free_nodes cs"
  by (auto simp: free_nodes_def)

definition blk_ok :: "mem \<Rightarrow> blk \<Rightarrow> bool" where
  "blk_ok m b \<longleftrightarrow>
     unat (m (b_addr b)) = b_size b
     \<and> (bit (m (b_addr b + 4)) 0 \<longleftrightarrow> b_alloc b)
     \<and> unat (m (b_addr b + b_size b - 4)) = b_size b"

text \<open>
  The heap lies in the higher half, below the error-pointer values, and the sentinel is a node
  outside it.
\<close>

definition heap_range :: "kheap \<Rightarrow> bool" where
  "heap_range kh \<longleftrightarrow>
     4096 \<le> unat (kheap_start kh) \<and> unat (kheap_start kh) mod 4 = 0
     \<and> unat (kheap_end kh) \<le> 0xFFFFF000
     \<and> unat (kheap_free_list kh) + 8 \<le> 2 ^ 32
     \<and> (unat (kheap_free_list kh) + 8 \<le> unat (kheap_start kh)
        \<or> unat (kheap_end kh) \<le> unat (kheap_free_list kh))"

definition heap_blocks :: "kheap \<Rightarrow> blk list \<Rightarrow> vaddr list \<Rightarrow> bool" where
  "heap_blocks kh bs ns \<longleftrightarrow>
     tiles (unat (kheap_start kh)) bs (unat (kheap_end kh)) \<and> coalesced bs
     \<and> set ns = free_nodes bs"

definition heap_inv :: "kheap \<Rightarrow> blk list \<Rightarrow> vaddr list \<Rightarrow> mem \<Rightarrow> bool" where
  "heap_inv kh bs ns m \<longleftrightarrow>
     heap_range kh \<and> heap_blocks kh bs ns \<and> (\<forall>b\<in>set bs. blk_ok m b)
     \<and> dll m (kheap_free_list kh) ns"

lemma tiles_append: "tiles a (bs @ cs) e \<longleftrightarrow> (\<exists>k. tiles a bs k \<and> tiles k cs e)"
  by (induction bs arbitrary: a) auto

lemma tiles_bounds:
  assumes "tiles a bs e" and "b \<in> set bs"
  shows "a \<le> b_addr b" and "b_addr b + b_size b \<le> e" and "24 \<le> b_size b" and "b_size b mod 4 = 0"
    and "b_addr b mod 4 = a mod 4"
proof -
  have le: "tiles a bs e \<Longrightarrow> a \<le> e" for a bs e
    by (induction bs arbitrary: a) force+
  have "a \<le> b_addr b \<and> b_addr b + b_size b \<le> e \<and> 24 \<le> b_size b \<and> b_size b mod 4 = 0
      \<and> b_addr b mod 4 = a mod 4"
    using assms
  proof (induction bs arbitrary: a)
    case (Cons c bs)
    show ?case
    proof (cases "b = c")
      case True
      then show ?thesis using Cons.prems le [of "a + b_size c" bs e] by simp
    next
      case False
      then have "b \<in> set bs" "tiles (a + b_size c) bs e" "b_size c mod 4 = 0"
        using Cons.prems by simp_all
      then have "a + b_size c \<le> b_addr b \<and> b_addr b + b_size b \<le> e \<and> 24 \<le> b_size b \<and> b_size b mod 4 = 0
          \<and> b_addr b mod 4 = (a + b_size c) mod 4"
        using Cons.IH by blast
      moreover have "(a + b_size c) mod 4 = a mod 4"
        using \<open>b_size c mod 4 = 0\<close> by (simp add: mod_add_right_eq [symmetric])
      ultimately show ?thesis by simp
    qed
  qed simp
  then show "a \<le> b_addr b" "b_addr b + b_size b \<le> e" "24 \<le> b_size b" "b_size b mod 4 = 0"
    "b_addr b mod 4 = a mod 4" by simp_all
qed

lemma tiles_le: "tiles a bs e \<Longrightarrow> a \<le> e"
  by (induction bs arbitrary: a) force+

text \<open>Two blocks of the heap do not overlap.\<close>

lemma tiles_disjoint:
  assumes "tiles a bs e" and "b \<in> set bs" and "c \<in> set bs" and "b \<noteq> c"
  shows "b_addr b + b_size b \<le> b_addr c \<or> b_addr c + b_size c \<le> b_addr b"
  using assms
proof (induction bs arbitrary: a)
  case (Cons d bs)
  then have t: "tiles (a + b_size d) bs e" and "b_addr d = a" by simp_all
  then show ?case
    using Cons tiles_bounds(1) [OF t] by (metis set_ConsD)
qed simp

end
