(* ===== verification/Kheap_Inv.thy ===== *)
theory Kheap_Inv
  imports Kheap
begin

text \<open>
  The heap operations on a well-formed heap: the abstract steps on the list of blocks and the
  free list, and the lemmas that \<open>kmalloc\<close> and \<open>kfree\<close> carry them out on the word store.
\<close>

subsection \<open>Reading and writing at natural-number addresses\<close>

lemma ld_of_nat: "k < 2 ^ 32 \<Longrightarrow> ld m (of_nat k) = m k"
  by (simp add: ld_def unat_of_nat_small)

lemma st_of_nat: "k < 2 ^ 32 \<Longrightarrow> st (of_nat k) v m = m(k := v)"
  by (simp add: st_def unat_of_nat_small)

lemma of_nat_eq_iff_small:
  "j < 2 ^ 32 \<Longrightarrow> k < 2 ^ 32 \<Longrightarrow> (of_nat j :: vaddr) = of_nat k \<longleftrightarrow> j = k"
  by (simp add: word_unat_eq_iff unat_of_nat_small)

lemma unat_eqD: "unat (w :: u32) = k \<Longrightarrow> w = of_nat k"
  by auto

subsection \<open>The words the heap keeps for itself\<close>

text \<open>The size, flags and footer words of a block, and its payload.\<close>

definition meta :: "blk \<Rightarrow> nat set" where
  "meta b = {b_addr b, b_addr b + 4, b_addr b + b_size b - 4}"

definition payload :: "blk \<Rightarrow> nat set" where
  "payload b = {b_addr b + 16 ..< b_addr b + b_size b - 4}"

text \<open>The words of the sentinel and of the free-list nodes of the blocks.\<close>

definition list_words :: "kheap \<Rightarrow> blk list \<Rightarrow> nat set" where
  "list_words kh bs =
     {unat (kheap_free_list kh), unat (kheap_free_list kh) + 4}
     \<union> (\<Union>b\<in>set bs. {b_addr b + 8, b_addr b + 12})"

lemma blk_ok_cong: "(\<And>k. k \<in> meta b \<Longrightarrow> m' k = m k) \<Longrightarrow> blk_ok m' b = blk_ok m b"
  by (simp add: blk_ok_def meta_def)

lemma own_words_not_links:
  assumes r: "heap_range kh" and t: "tiles (unat (kheap_start kh)) bs (unat (kheap_end kh))"
    and b: "b \<in> set bs" and k: "k \<in> meta b \<union> payload b"
  shows "k \<notin> list_words kh bs"
proof
  assume "k \<in> list_words kh bs"
  then consider "k = unat (kheap_free_list kh) \<or> k = unat (kheap_free_list kh) + 4"
    | c where "c \<in> set bs" "k = b_addr c + 8 \<or> k = b_addr c + 12"
    unfolding list_words_def by auto
  then show False
  proof cases
    case 1
    then show ?thesis
      using k tiles_bounds [OF t b] r by (auto simp: heap_range_def meta_def payload_def)
  next
    case 2
    then show ?thesis
      using k tiles_bounds [OF t b] tiles_bounds [OF t 2(1)] tiles_disjoint [OF t b 2(1)]
      by (cases "b = c") (auto simp: meta_def payload_def)
  qed
qed

lemma heap_addr_bound:
  assumes "heap_range kh" and "tiles (unat (kheap_start kh)) bs (unat (kheap_end kh))" and "b \<in> set bs"
  shows "b_addr b + b_size b \<le> 0xFFFFF000" and "24 \<le> b_size b" and "4096 \<le> b_addr b"
  using assms(1) tiles_bounds [OF assms(2,3)] by (auto simp: heap_range_def)

lemma blk_node_inj:
  assumes r: "heap_range kh" and t: "tiles (unat (kheap_start kh)) bs (unat (kheap_end kh))"
    and b: "b \<in> set bs" "c \<in> set bs" and eq: "blk_node b = blk_node c"
  shows "b = c"
proof (rule ccontr)
  assume "b \<noteq> c"
  then have "b_addr b \<noteq> b_addr c"
    using tiles_disjoint [OF t b] tiles_bounds(3) [OF t b(1)] tiles_bounds(3) [OF t b(2)] by linarith
  moreover have "b_addr b + 8 = b_addr c + 8"
    using eq heap_addr_bound [OF r t b(1)] heap_addr_bound [OF r t b(2)]
      of_nat_eq_iff_small [of "b_addr b + 8" "b_addr c + 8"] by (simp add: blk_node_def)
  ultimately show False by simp
qed

text \<open>The nodes of the blocks and the sentinel do not overlap.\<close>

lemma heap_nodes_sep:
  assumes r: "heap_range kh" and t: "tiles (unat (kheap_start kh)) bs (unat (kheap_end kh))"
  shows "nodes_sep (insert (kheap_free_list kh) (blk_node ` set bs))"
    and "kheap_free_list kh \<notin> blk_node ` set bs"
proof -
  let ?h = "kheap_free_list kh"
  have h4: "unat (?h + 4) = unat ?h + 4"
    using r by (simp add: heap_range_def unat_word_ariths)
  have n: "unat (blk_node b) = b_addr b + 8" and n4: "unat (blk_node b + 4) = b_addr b + 12"
    if "b \<in> set bs" for b
  proof -
    have "b_addr b + 12 < 2 ^ 32" using heap_addr_bound [OF r t that] by simp
    then show "unat (blk_node b) = b_addr b + 8"
      by (simp add: blk_node_def unat_of_nat_small del: of_nat_add)
    then show "unat (blk_node b + 4) = b_addr b + 12"
      using \<open>b_addr b + 12 < 2 ^ 32\<close> by (simp add: unat_word_ariths)
  qed
  have out: "unat ?h + 8 \<le> b_addr b \<or> b_addr b + b_size b \<le> unat ?h" if "b \<in> set bs" for b
    using r tiles_bounds [OF t that] by (auto simp: heap_range_def)
  have nn: "blk_node b + 4 \<noteq> blk_node c" if "b \<in> set bs" "c \<in> set bs" for b c
  proof -
    have "b_addr b + 12 \<noteq> b_addr c + 8"
      using tiles_disjoint [OF t that] tiles_bounds(3) [OF t that(1)] tiles_bounds(3) [OF t that(2)]
      by (cases "b = c") auto
    then show ?thesis using n n4 that by (metis)
  qed
  moreover have "?h + 4 \<noteq> blk_node b" "blk_node b + 4 \<noteq> ?h" "?h \<noteq> blk_node b" if "b \<in> set bs" for b
    using out [OF that] n [OF that] n4 [OF that] h4 tiles_bounds(3) [OF t that]
    by (auto simp: word_unat_eq_iff)
  ultimately show "nodes_sep (insert ?h (blk_node ` set bs))" "?h \<notin> blk_node ` set bs"
    by (auto simp: nodes_sep_def) metis
qed

lemma heap_node_fresh:
  assumes r: "heap_range kh" and t: "tiles (unat (kheap_start kh)) bs (unat (kheap_end kh))"
    and b: "b \<in> set bs" and ns: "set ns \<subseteq> blk_node ` (set bs - {b})"
  shows "node_fresh (blk_node b) (kheap_free_list kh) ns"
proof -
  have "blk_node b \<notin> set ns"
    using ns blk_node_inj [OF r t b] by blast
  moreover have "blk_node b \<noteq> kheap_free_list kh"
    using heap_nodes_sep(2) [OF r t] b by force
  moreover have "insert (blk_node b) (set (kheap_free_list kh # ns))
      \<subseteq> insert (kheap_free_list kh) (blk_node ` set bs)"
    using ns b by auto
  ultimately show ?thesis
    using nodes_sep_subset [OF heap_nodes_sep(1) [OF r t]] by (auto simp: node_fresh_def)
qed

text \<open>Words outside \<open>list_words\<close> are no words of the nodes of a list of block nodes.\<close>

lemma heap_node_words:
  assumes r: "heap_range kh" and t: "tiles (unat (kheap_start kh)) bs (unat (kheap_end kh))"
    and xs: "set xs \<subseteq> insert (kheap_free_list kh) (blk_node ` set bs)"
    and k: "k \<notin> list_words kh bs" "k < 2 ^ 32"
  shows "of_nat k \<notin> node_words xs"
proof
  assume "of_nat k \<in> node_words xs"
  then obtain x where x: "x \<in> set xs" "of_nat k = x \<or> of_nat k = x + 4"
    by (auto simp: node_words_def)
  from x(1) xs consider "x = kheap_free_list kh" | b where "b \<in> set bs" "x = blk_node b" by auto
  then show False
  proof cases
    case 1
    have "unat (kheap_free_list kh + 4) = unat (kheap_free_list kh) + 4"
      using r by (simp add: heap_range_def unat_word_ariths)
    moreover have "unat (of_nat k :: vaddr) = k" using k(2) by (simp add: unat_of_nat_small)
    ultimately have "k = unat (kheap_free_list kh) \<or> k = unat (kheap_free_list kh) + 4"
      using x(2) 1 by metis
    then show ?thesis using k(1) by (auto simp: list_words_def)
  next
    case 2
    then have "x = of_nat (b_addr b + 8)" "x + 4 = of_nat (b_addr b + 12)"
      by (simp_all add: blk_node_def)
    then have "k = b_addr b + 8 \<or> k = b_addr b + 12"
      using x(2) k(2) heap_addr_bound [OF r t 2(1)] of_nat_eq_iff_small [of k "b_addr b + 8"]
        of_nat_eq_iff_small [of k "b_addr b + 12"] by (auto simp del: of_nat_add)
    then show ?thesis using k(1) 2(1) by (auto simp: list_words_def)
  qed
qed

lemma heap_dll_cong:
  assumes r: "heap_range kh" and t: "tiles (unat (kheap_start kh)) bs (unat (kheap_end kh))"
    and ns: "set ns \<subseteq> blk_node ` set bs" and eq: "\<And>k. k \<in> list_words kh bs \<Longrightarrow> m' k = m k"
  shows "dll m' (kheap_free_list kh) ns \<longleftrightarrow> dll m (kheap_free_list kh) ns"
proof (rule dll_cong)
  fix x assume "x \<in> set (kheap_free_list kh # ns)"
  with ns consider "x = kheap_free_list kh" | b where "b \<in> set bs" "x = blk_node b" by auto
  then show "ld m' x = ld m x \<and> ld m' (x + 4) = ld m (x + 4)"
  proof cases
    case 1
    moreover have "unat (kheap_free_list kh + 4) = unat (kheap_free_list kh) + 4"
      using r by (simp add: heap_range_def unat_word_ariths)
    ultimately show ?thesis using eq by (simp add: ld_def list_words_def)
  next
    case 2
    then have x: "x = of_nat (b_addr b + 8)" "x + 4 = of_nat (b_addr b + 12)"
      by (simp_all add: blk_node_def)
    have "b_addr b + 8 \<in> list_words kh bs" "b_addr b + 12 \<in> list_words kh bs"
      using 2 by (auto simp: list_words_def)
    then show ?thesis
      unfolding x(2) unfolding x(1) using eq heap_addr_bound [OF r t 2(1)]
      by (simp add: ld_of_nat del: of_nat_add)
  qed
qed

subsection \<open>The abstract steps\<close>

text \<open>
  Allocation takes the first block of the free list that is large enough. It is split when the
  rest can hold a block of the minimum size; the rest then takes its place in the free list.
\<close>

definition too_small :: "nat \<Rightarrow> blk list \<Rightarrow> vaddr list \<Rightarrow> bool" where
  "too_small n bs xs \<longleftrightarrow> (\<forall>b\<in>set bs. blk_node b \<in> set xs \<longrightarrow> b_size b < n)"

inductive alloc_step ::
  "nat \<Rightarrow> nat \<Rightarrow> blk list \<times> vaddr list \<Rightarrow> blk list \<times> vaddr list \<Rightarrow> bool" where
  alloc_split:
    "n + 24 \<le> sz \<Longrightarrow> too_small n (bs1 @ Blk a sz False # bs2) ns1 \<Longrightarrow>
     alloc_step n a
       (bs1 @ Blk a sz False # bs2, ns1 @ of_nat (a + 8) # ns2)
       (bs1 @ Blk a n True # Blk (a + n) (sz - n) False # bs2, ns1 @ of_nat (a + n + 8) # ns2)"
| alloc_whole:
    "n \<le> sz \<Longrightarrow> sz < n + 24 \<Longrightarrow> too_small n (bs1 @ Blk a sz False # bs2) ns1 \<Longrightarrow>
     alloc_step n a
       (bs1 @ Blk a sz False # bs2, ns1 @ of_nat (a + 8) # ns2)
       (bs1 @ Blk a sz True # bs2, ns1 @ ns2)"

text \<open>
  Freeing joins the block with its free neighbours; the result is put in front of the free
  list unless the block before it was there already.
\<close>

definition prev_alloc :: "blk list \<Rightarrow> bool" where
  "prev_alloc bs \<longleftrightarrow> bs = [] \<or> b_alloc (last bs)"

definition next_alloc :: "blk list \<Rightarrow> bool" where
  "next_alloc bs \<longleftrightarrow> bs = [] \<or> b_alloc (hd bs)"

inductive free_step ::
  "nat \<Rightarrow> blk list \<times> vaddr list \<Rightarrow> blk list \<times> vaddr list \<Rightarrow> bool" where
  free_alone:
    "prev_alloc bs1 \<Longrightarrow> next_alloc bs2 \<Longrightarrow>
     free_step a (bs1 @ Blk a sz True # bs2, ns)
                 (bs1 @ Blk a sz False # bs2, of_nat (a + 8) # ns)"
| free_next:
    "prev_alloc bs1 \<Longrightarrow>
     free_step a (bs1 @ Blk a sz True # Blk c nsz False # bs2, ns)
                 (bs1 @ Blk a (sz + nsz) False # bs2, of_nat (a + 8) # remove1 (of_nat (c + 8)) ns)"
| free_prev:
    "next_alloc bs2 \<Longrightarrow>
     free_step a (bs1 @ Blk p psz False # Blk a sz True # bs2, ns)
                 (bs1 @ Blk p (psz + sz) False # bs2, ns)"
| free_both:
    "free_step a (bs1 @ Blk p psz False # Blk a sz True # Blk c nsz False # bs2, ns)
                 (bs1 @ Blk p (psz + sz + nsz) False # bs2, remove1 (of_nat (c + 8)) ns)"

lemma coalesced_append:
  "coalesced (bs @ cs) \<longleftrightarrow>
     coalesced bs \<and> coalesced cs \<and> (bs = [] \<or> cs = [] \<or> b_alloc (last bs) \<or> b_alloc (hd cs))"
proof (induction bs)
  case (Cons b bs)
  then show ?case by (cases bs; cases cs) auto
qed simp

lemma coalesced_Cons:
  "coalesced (b # bs) \<longleftrightarrow> coalesced bs \<and> (b_alloc b \<or> next_alloc bs)"
  by (cases bs) (auto simp: next_alloc_def)

lemma coalesced_app:
  "coalesced (bs @ b # cs) \<longleftrightarrow> coalesced bs \<and> coalesced (b # cs) \<and> (prev_alloc bs \<or> b_alloc b)"
  by (auto simp: coalesced_append prev_alloc_def)

lemma mod4_diff: "(a::nat) mod 4 = 0 \<Longrightarrow> b mod 4 = 0 \<Longrightarrow> (a - b) mod 4 = 0"
  by presburger

text \<open>The node of a block belongs to it alone.\<close>

lemma node_other:
  assumes r: "heap_range kh"
    and t: "tiles (unat (kheap_start kh)) (bs1 @ b # bs2) (unat (kheap_end kh))"
    and c: "c \<in> set bs1 \<union> set bs2"
  shows "blk_node c \<noteq> blk_node b" and "c \<noteq> b"
proof -
  show ne: "c \<noteq> b"
  proof
    assume "c = b"
    obtain k where "tiles (unat (kheap_start kh)) bs1 k" "tiles k (b # bs2) (unat (kheap_end kh))"
      using t by (auto simp: tiles_append)
    then show False
      using c \<open>c = b\<close> tiles_bounds(2,3) [of "unat (kheap_start kh)" bs1 k c]
        tiles_bounds(1) [of "k + b_size b" bs2 _ c] by force
  qed
  show "blk_node c \<noteq> blk_node b"
    using blk_node_inj [OF r t, of c b] c ne by auto
qed

lemma free_nodes_remove:
  assumes r: "heap_range kh"
    and t: "tiles (unat (kheap_start kh)) (bs1 @ b # bs2) (unat (kheap_end kh))"
    and ns: "set (xs @ blk_node b # ys) = free_nodes (bs1 @ b # bs2)"
    and d: "distinct (xs @ blk_node b # ys)"
  shows "set (xs @ ys) = free_nodes (bs1 @ bs2)"
proof -
  have "set (xs @ ys) = set (xs @ blk_node b # ys) - {blk_node b}"
    using d by auto
  also have "\<dots> = free_nodes (bs1 @ bs2)"
    unfolding ns using node_other(1) [OF r t] by (auto simp: free_nodes_def)
  finally show ?thesis .
qed

lemma Blk_node [simp]: "blk_node (Blk a sz al) = of_nat (a + 8)"
  by (simp add: blk_node_def)

lemma alloc_step_blocks:
  assumes step: "alloc_step n a (bs, ns) (bs', ns')" and r: "heap_range kh"
    and inv: "heap_blocks kh bs ns" and d: "distinct ns" and n: "24 \<le> n" "n mod 4 = 0"
  shows "heap_blocks kh bs' ns'"
  using step
proof cases
  case (alloc_split sz bs1 bs2 ns1 ns2)
  let ?b = "Blk a sz False"
  have t: "tiles (unat (kheap_start kh)) (bs1 @ ?b # bs2) (unat (kheap_end kh))"
    using inv alloc_split by (simp add: heap_blocks_def)
  have "set (ns1 @ ns2) = free_nodes (bs1 @ bs2)"
    using free_nodes_remove [OF r t, of ns1 ns2] inv d alloc_split by (simp add: heap_blocks_def)
  then have "set ns' = free_nodes bs'"
    using alloc_split by (simp add: insert_commute Un_assoc)
  then show ?thesis
    using inv alloc_split n
    by (simp add: heap_blocks_def tiles_append coalesced_app coalesced_Cons mod4_diff next_alloc_def
        del: free_nodes_simps)
next
  case (alloc_whole sz bs1 bs2 ns1 ns2)
  let ?b = "Blk a sz False"
  have t: "tiles (unat (kheap_start kh)) (bs1 @ ?b # bs2) (unat (kheap_end kh))"
    using inv alloc_whole by (simp add: heap_blocks_def)
  have "set (ns1 @ ns2) = free_nodes (bs1 @ bs2)"
    using free_nodes_remove [OF r t, of ns1 ns2] inv d alloc_whole by (simp add: heap_blocks_def)
  then have "set ns' = free_nodes bs'"
    using alloc_whole by simp
  then show ?thesis
    using inv alloc_whole
    by (simp add: heap_blocks_def tiles_append coalesced_app coalesced_Cons del: free_nodes_simps)
qed

subsection \<open>Allocation\<close>

text \<open>The words that splitting a block writes, besides the free-list links.\<close>

definition split_meta :: "nat \<Rightarrow> nat \<Rightarrow> nat \<Rightarrow> mem \<Rightarrow> mem" where
  "split_meta a n r m =
     (let m = m(a + 4 := MASK_SET (m (a + 4)) KHEAP_FLAG_ALLOC, a := of_nat n, a + n - 4 := of_nat n)
      in m(a + n + 4 := MASK_CLEAR (m (a + n + 4)) KHEAP_FLAG_ALLOC, a + n := of_nat r,
           a + n + r - 4 := of_nat r))"

lemma kheap_split_eq:
  assumes "24 \<le> n" and "24 \<le> r" and "a + n + r < 2 ^ 32"
  shows "kheap_split (of_nat a) (of_nat n) (of_nat r) m =
           list_replace (of_nat (a + 8)) (of_nat (a + n + 8)) (split_meta a n r m)"
proof -
  have w: "of_nat a + 4 = (of_nat (a + 4) :: vaddr)"
    "of_nat a + of_nat n - 4 = (of_nat (a + n - 4) :: vaddr)"
    "(of_nat (a + n - 4) :: vaddr) + 4 = of_nat (a + n)"
    "(of_nat (a + n) :: vaddr) + 4 = of_nat (a + n + 4)"
    "(of_nat (a + n) :: vaddr) + of_nat r - 4 = of_nat (a + n + r - 4)"
    "of_nat a + 8 = (of_nat (a + 8) :: vaddr)" "(of_nat (a + n) :: vaddr) + 8 = of_nat (a + n + 8)"
    using assms by (simp_all add: of_nat_diff)
  show ?thesis
    unfolding kheap_split_def set_hdr_flags_def hdr_flags_def set_hdr_size_def free_node_def Let_def w
      split_meta_def
    using assms by (simp add: st_of_nat ld_of_nat del: of_nat_add of_nat_diff fun_upd_apply)
qed

text \<open>
  Writes to the own words of blocks, none of which is a link word, followed by a list operation:
  the list is not disturbed by the first and the own words are not disturbed by the second.
\<close>

lemma bit0_set [simp]: "bit (MASK_SET v KHEAP_FLAG_ALLOC) 0"
  by (simp add: KHEAP_FLAG_ALLOC_def bit_MASK_SET_BIT)

lemma bit0_clear [simp]: "\<not> bit (MASK_CLEAR v KHEAP_FLAG_ALLOC) 0"
  by (simp add: KHEAP_FLAG_ALLOC_def bit_MASK_CLEAR_BIT)

lemma bit0_test [simp]: "MASK_TEST v KHEAP_FLAG_ALLOC \<longleftrightarrow> bit v 0"
  by (simp add: KHEAP_FLAG_ALLOC_def MASK_TEST_BIT)

lemma split_meta_blk_ok:
  assumes "24 \<le> n" and "24 \<le> r" and "a + n + r < 2 ^ 32"
  shows "blk_ok (split_meta a n r m) (Blk a n True)"
    and "blk_ok (split_meta a n r m) (Blk (a + n) r False)"
proof -
  obtain n' r' where "n = n' + 24" "r = r' + 24"
    using assms(1,2) by (metis add.commute le_Suc_ex)
  then show "blk_ok (split_meta a n r m) (Blk a n True)" "blk_ok (split_meta a n r m) (Blk (a + n) r False)"
    using assms(3) by (simp_all add: blk_ok_def split_meta_def Let_def unat_of_nat_small del: of_nat_add)
qed

lemma split_meta_frame:
  assumes "k \<notin> meta (Blk a n True) \<union> meta (Blk (a + n) r False)"
  shows "split_meta a n r m k = m k"
  using assms by (simp add: split_meta_def Let_def meta_def)

lemma heap_invD:
  assumes "heap_inv kh bs ns m"
  shows "heap_range kh" and "tiles (unat (kheap_start kh)) bs (unat (kheap_end kh))" and "coalesced bs"
    and "set ns = free_nodes bs" and "b \<in> set bs \<Longrightarrow> blk_ok m b" and "dll m (kheap_free_list kh) ns"
    and "distinct ns" and "set ns \<subseteq> blk_node ` set bs"
  using assms by (auto simp: heap_inv_def heap_blocks_def dll_def free_nodes_def)

lemma heap_size:
  assumes inv: "heap_inv kh bs ns m" and b: "b \<in> set bs"
  shows "unat (hdr_size m (of_nat (b_addr b))) = b_size b"
    and "MASK_TEST (hdr_flags m (of_nat (b_addr b))) KHEAP_FLAG_ALLOC \<longleftrightarrow> b_alloc b"
proof -
  note bnd = heap_addr_bound [OF heap_invD(1,2) [OF inv] b]
  have "of_nat (b_addr b) + 4 = (of_nat (b_addr b + 4) :: vaddr)" by simp
  then show "unat (hdr_size m (of_nat (b_addr b))) = b_size b"
    "MASK_TEST (hdr_flags m (of_nat (b_addr b))) KHEAP_FLAG_ALLOC \<longleftrightarrow> b_alloc b"
    using bnd heap_invD(5) [OF inv b]
    by (simp_all add: hdr_size_def hdr_flags_def ld_of_nat blk_ok_def del: of_nat_add)
qed

text \<open>
  A step that rewrites own words of the new blocks and then the links of the list gives a
  well-formed heap, provided the new blocks are described by their words.
\<close>

lemma heap_inv_step:
  assumes inv: "heap_inv kh bs ns m" and blocks: "heap_blocks kh bs' ns'"
    and dll: "dll m' (kheap_free_list kh) ns'"
    and ok: "\<And>b. b \<in> set bs' \<Longrightarrow> blk_ok m1 b"
    and links: "\<And>k. k < 2 ^ 32 \<Longrightarrow> k \<notin> list_words kh bs' \<Longrightarrow> m' k = m1 k"
  shows "heap_inv kh bs' ns' m'"
proof -
  have r: "heap_range kh" using inv by (simp add: heap_inv_def)
  have t: "tiles (unat (kheap_start kh)) bs' (unat (kheap_end kh))"
    using blocks by (simp add: heap_blocks_def)
  have "blk_ok m' b" if b: "b \<in> set bs'" for b
  proof -
    have "m' k = m1 k" if "k \<in> meta b" for k
    proof (rule links)
      show "k < 2 ^ 32" using that heap_addr_bound [OF r t b] by (auto simp: meta_def)
      show "k \<notin> list_words kh bs'" using own_words_not_links [OF r t b] that by blast
    qed
    then show ?thesis using ok [OF b] blk_ok_cong [of b m' m1] by blast
  qed
  then show ?thesis using r blocks dll by (simp add: heap_inv_def)
qed

lemma kheap_split_step:
  assumes inv: "heap_inv kh bs ns m"
    and bs: "bs = bs1 @ Blk a (n + r) False # bs2" and ns: "ns = ns1 @ of_nat (a + 8) # ns2"
    and blocks: "heap_blocks kh bs' ns'"
    and bs': "bs' = bs1 @ Blk a n True # Blk (a + n) r False # bs2"
    and ns': "ns' = ns1 @ of_nat (a + n + 8) # ns2"
    and m': "m' = kheap_split (of_nat a) (of_nat n) (of_nat r) m"
    and n: "24 \<le> n" "24 \<le> r"
  shows "heap_inv kh bs' ns' m'"
    and "k < 2 ^ 32 \<Longrightarrow> k \<notin> list_words kh bs' \<Longrightarrow> k \<notin> meta (Blk a n True) \<union> meta (Blk (a + n) r False) \<Longrightarrow> m' k = m k"
proof -
  let ?h = "kheap_free_list kh" and ?m1 = "split_meta a n r m"
  note r = heap_invD(1) [OF inv] and t = heap_invD(2) [OF inv]
  have t': "tiles (unat (kheap_start kh)) bs' (unat (kheap_end kh))"
    using blocks by (simp add: heap_blocks_def)
  have bnd: "a + n + r < 2 ^ 32"
    using heap_addr_bound(1) [OF r t, of "Blk a (n + r) False"] bs by simp
  then have m'_eq: "m' = list_replace (of_nat (a + 8)) (of_nat (a + n + 8)) ?m1"
    using m' n kheap_split_eq by blast
  have nodes: "set ns \<subseteq> blk_node ` (set bs' - {Blk (a + n) r False})"
  proof -
    have "c \<noteq> Blk (a + n) r False" if "c \<in> set bs1 \<union> set bs2" for c
      using node_other(2) [of kh "bs1 @ [Blk a n True]" "Blk (a + n) r False" bs2 c] r t' that bs' by auto
    moreover have "Blk a n True \<in> set bs' - {Blk (a + n) r False}"
      "blk_node (Blk a n True) = blk_node (Blk a (n + r) False)" using bs' by simp_all
    ultimately have "blk_node ` set bs \<subseteq> blk_node ` (set bs' - {Blk (a + n) r False})"
      unfolding bs bs' by (auto intro!: imageI intro: image_eqI [of _ _ "Blk a n True"])
    then show ?thesis using heap_invD(8) [OF inv] by blast
  qed
  have sub: "set ns \<subseteq> blk_node ` set bs'" using nodes by auto
  have own: "k \<notin> list_words kh bs'" if "k \<in> meta (Blk a n True) \<union> meta (Blk (a + n) r False)" for k
    using own_words_not_links [OF r t', of "Blk a n True" k] own_words_not_links [OF r t', of "Blk (a + n) r False" k]
      that bs' by auto
  have d1: "dll ?m1 ?h ns"
    using heap_dll_cong [OF r t' sub, of ?m1 m] split_meta_frame own heap_invD(6) [OF inv] by blast
  have fresh: "node_fresh (of_nat (a + n + 8)) ?h ns"
    using heap_node_fresh [OF r t', of "Blk (a + n) r False" ns] nodes bs' by simp
  have links: "m' k = ?m1 k" if k: "k < 2 ^ 32" "k \<notin> list_words kh bs'" for k
  proof -
    have "of_nat k \<notin> node_words (of_nat (a + n + 8) # ?h # ns1 @ of_nat (a + 8) # ns2)"
    proof (rule heap_node_words [OF r t' _ k(2,1)])
      show "set (of_nat (a + n + 8) # ?h # ns1 @ of_nat (a + 8) # ns2) \<subseteq> insert ?h (blk_node ` set bs')"
        using sub unfolding ns by (auto simp: bs')
    qed
    then have "ld m' (of_nat k) = ld ?m1 (of_nat k)"
      unfolding m'_eq using dll_replace_frame d1 fresh ns by blast
    then show ?thesis using k by (simp add: ld_of_nat)
  qed
  have ok: "blk_ok ?m1 b" if "b \<in> set bs'" for b
  proof -
    from that consider "b = Blk a n True" | "b = Blk (a + n) r False" | "b \<in> set bs1 \<union> set bs2"
      unfolding bs' by auto
    then show ?thesis
    proof cases
      case 3
      have "?m1 k = m k" if "k \<in> meta b" for k
      proof (rule split_meta_frame)
        have "b \<in> set bs" using 3 bs by auto
        moreover have "b \<noteq> Blk a (n + r) False"
          using node_other(2) [of kh bs1 "Blk a (n + r) False" bs2 b] r t 3 bs by auto
        ultimately have "b_addr b + b_size b \<le> a \<or> a + (n + r) \<le> b_addr b" "24 \<le> b_size b"
          using tiles_disjoint [OF t, of b "Blk a (n + r) False"] tiles_bounds(3) [OF t, of b] bs by auto
        then show "k \<notin> meta (Blk a n True) \<union> meta (Blk (a + n) r False)"
          using that n by (auto simp: meta_def)
      qed
      then show ?thesis using blk_ok_cong [of b ?m1 m] heap_invD(5) [OF inv] 3 bs by auto
    qed (use split_meta_blk_ok n bnd in auto)
  qed
  show "heap_inv kh bs' ns' m'"
  proof (rule heap_inv_step [OF inv blocks _ ok links])
    show "dll m' ?h ns'"
      unfolding m'_eq ns' using dll_replace(1) d1 fresh ns by blast
  qed
  show "m' k = m k" if "k < 2 ^ 32" "k \<notin> list_words kh bs'" "k \<notin> meta (Blk a n True) \<union> meta (Blk (a + n) r False)"
    using links split_meta_frame that by metis
qed

lemma kheap_take_step:
  assumes inv: "heap_inv kh bs ns m"
    and bs: "bs = bs1 @ Blk a sz False # bs2" and ns: "ns = ns1 @ of_nat (a + 8) # ns2"
    and blocks: "heap_blocks kh bs' (ns1 @ ns2)"
    and bs': "bs' = bs1 @ Blk a sz True # bs2"
    and m': "m' = kheap_take (of_nat a) m"
  shows "heap_inv kh bs' (ns1 @ ns2) m'"
    and "k < 2 ^ 32 \<Longrightarrow> k \<notin> list_words kh bs' \<Longrightarrow> k \<notin> meta (Blk a sz True) \<Longrightarrow> m' k = m k"
proof -
  let ?h = "kheap_free_list kh" and ?m1 = "list_remove (of_nat (a + 8)) m"
  note r = heap_invD(1) [OF inv] and t = heap_invD(2) [OF inv]
  have t': "tiles (unat (kheap_start kh)) bs' (unat (kheap_end kh))"
    using blocks by (simp add: heap_blocks_def)
  have bnd: "a + sz < 2 ^ 32" "24 \<le> sz"
    using heap_addr_bound [OF r t, of "Blk a sz False"] bs by simp_all
  have m'_eq: "m' = ?m1(a + 4 := MASK_SET (?m1 (a + 4)) KHEAP_FLAG_ALLOC)"
  proof -
    have "of_nat a + 8 = (of_nat (a + 8) :: vaddr)" "of_nat a + 4 = (of_nat (a + 4) :: vaddr)" by simp_all
    then show ?thesis
      using bnd unfolding m' kheap_take_def free_node_def set_hdr_flags_def hdr_flags_def Let_def
      by (simp only: ld_of_nat st_of_nat) 
  qed
  have words: "list_words kh bs' = list_words kh bs" by (auto simp: bs bs' list_words_def)
  have links: "?m1 k = m k" if k: "k < 2 ^ 32" "k \<notin> list_words kh bs" for k
  proof -
    have "of_nat k \<notin> node_words (?h # ns)"
      using heap_invD(8) [OF inv] by (intro heap_node_words [OF r t _ k(2,1)]) auto
    then have "ld ?m1 (of_nat k) = ld m (of_nat k)"
      using dll_remove_frame heap_invD(6) [OF inv] ns by blast
    then show ?thesis using k by (simp add: ld_of_nat)
  qed
  have own: "a + 4 \<notin> list_words kh bs"
    using own_words_not_links [OF r t, of "Blk a sz False" "a + 4"] bs by (simp add: meta_def)
  have ok: "blk_ok m' b" if b: "b \<in> set bs'" for b
  proof -
    obtain c where c: "c \<in> set bs" "b_addr b = b_addr c" "b_size b = b_size c"
      "b_alloc b = (b_addr b = a \<or> b_alloc c)"
    proof (cases "b = Blk a sz True")
      case True
      then show ?thesis using bs by (intro that [of "Blk a sz False"]) auto
    next
      case False
      then have "b \<in> set bs1 \<union> set bs2" using b bs' by auto
      moreover have "b_addr b \<noteq> a"
        using tiles_disjoint [OF t' b, of "Blk a sz True"] False bs' bnd tiles_bounds(3) [OF t' b] by force
      ultimately show ?thesis using bs by (intro that [of b]) auto
    qed
    have "?m1 k = m k" if "k \<in> meta c" for k
      using that heap_addr_bound [OF r t c(1)] own_words_not_links [OF r t c(1), of k]
      by (intro links) (auto simp: meta_def)
    then have "blk_ok ?m1 c"
      using blk_ok_cong [of c ?m1 m] heap_invD(5) [OF inv c(1)] by blast
    moreover have "a + 4 \<noteq> b_addr c" "a + 4 \<noteq> b_addr c + b_size c - 4" "a \<noteq> b_addr b \<Longrightarrow> a + 4 \<noteq> b_addr c + 4"
      using tiles_disjoint [OF t c(1), of "Blk a sz False"] bs bnd tiles_bounds(3) [OF t c(1)] c
      by (cases "c = Blk a sz False"; force)+
    ultimately show ?thesis using c unfolding m'_eq blk_ok_def by auto
  qed
  have "dll ?m1 ?h (ns1 @ ns2)"
    using dll_remove(1) heap_invD(6) [OF inv] ns by blast
  moreover have "set (ns1 @ ns2) \<subseteq> blk_node ` set bs" using heap_invD(8) [OF inv] ns by simp
  moreover have "m' k = ?m1 k" if "k \<in> list_words kh bs" for k
    using own that by (auto simp: m'_eq simp del: of_nat_add)
  ultimately have "dll m' ?h (ns1 @ ns2)"
    using heap_dll_cong [OF r t, of "ns1 @ ns2" m' ?m1] by blast
  then show "heap_inv kh bs' (ns1 @ ns2) m'"
    using ok r blocks by (simp add: heap_inv_def)
  show "m' k = m k" if "k < 2 ^ 32" "k \<notin> list_words kh bs'" "k \<notin> meta (Blk a sz True)"
    using links that words by (simp add: m'_eq meta_def)
qed

text \<open>The size of the block for a request that does not wrap around.\<close>

definition blk_need :: "nat \<Rightarrow> nat" where
  "blk_need req = (req + 3) div 4 * 4 + 20"

lemma blk_need_props: "0 < req \<Longrightarrow> 24 \<le> blk_need req" "blk_need req mod 4 = 0" "req + 20 \<le> blk_need req"
  unfolding blk_need_def by presburger+

lemma unat_kmalloc_block_size:
  assumes "unat sz \<le> 0xFFFFFFE8"
  shows "unat (kmalloc_block_size sz) = blk_need (unat sz)"
proof -
  have "unat (ALIGN_UP sz 4) = (unat sz + 3) div 4 * 4"
    using assms by (intro unat_ALIGN_UP_4) simp
  moreover have "(unat sz + 3) div 4 * 4 \<le> 0xFFFFFFE8"
    using assms by presburger
  ultimately show ?thesis
    by (simp add: kmalloc_block_size_def blk_need_def unat_word_ariths)
qed

text \<open>The block of a node of the free list.\<close>

lemma free_list_block:
  assumes inv: "heap_inv kh bs ns m" and x: "x \<in> set ns"
  obtains bs1 a sz bs2 where "bs = bs1 @ Blk a sz False # bs2" and "x = of_nat (a + 8)"
    and "node_hdr x = of_nat a" and "unat (hdr_size m (node_hdr x)) = sz" and "a + sz < 2 ^ 32"
proof -
  obtain b where b: "b \<in> set bs" "\<not> b_alloc b" "x = blk_node b"
    using heap_invD(4) [OF inv] x by (auto simp: free_nodes_def)
  obtain bs1 bs2 where "bs = bs1 @ Blk (b_addr b) (b_size b) False # bs2"
    using split_list [OF b(1)] b(2) by (metis blk.collapse)
  moreover have "node_hdr x = of_nat (b_addr b)"
    using b(3) by (simp add: node_hdr_def blk_node_def)
  ultimately show ?thesis
    using that heap_size(1) [OF inv b(1)] b(3) heap_addr_bound(1) [OF heap_invD(1,2) [OF inv] b(1)]
    by (simp add: blk_node_def)
qed

lemma kmalloc_search:
  assumes inv: "heap_inv kh bs ns m"
  shows "list_search m (kheap_free_list kh) P = Some (hd (filter P ns @ [kheap_free_list kh]))"
  using dll_search heap_invD(6) [OF inv] by blast

lemma kmalloc_nomem:
  assumes inv: "heap_inv kh bs ns m" and sz: "0 < unat sz" "unat sz \<le> 0xFFFFFFE8"
    and none: "\<And>b. b \<in> set bs \<Longrightarrow> \<not> b_alloc b \<Longrightarrow> b_size b < blk_need (unat sz)"
  shows "kmalloc kh sz m = Some (KERR_PTR KERR_NOMEM, m)"
proof -
  have "\<not> kmalloc_block_size sz \<le> hdr_size m (node_hdr x)" if x: "x \<in> set ns" for x
  proof -
    obtain bs1 a s bs2 where "bs = bs1 @ Blk a s False # bs2" "unat (hdr_size m (node_hdr x)) = s"
      using free_list_block [OF inv x] by metis
    then show ?thesis
      using none [of "Blk a s False"] unat_kmalloc_block_size [OF sz(2)] by (simp add: word_le_nat_alt)
  qed
  then have "filter (\<lambda>node. kmalloc_block_size sz \<le> hdr_size m (node_hdr node)) ns = []"
    by (simp add: filter_empty_conv)
  then show ?thesis
    using sz(1) kmalloc_search [OF inv] by (auto simp: kmalloc_def Let_def)
qed

lemma filter_hd_split:
  assumes "filter P xs = y # ys"
  obtains xs1 xs2 where "xs = xs1 @ y # xs2" and "\<forall>x\<in>set xs1. \<not> P x" and "P y"
  using assms by (auto simp: filter_eq_Cons_iff)

text \<open>The search finds the first block of the free list that is large enough.\<close>

lemma kmalloc_found:
  assumes inv: "heap_inv kh bs ns m" and sz: "0 < unat sz" "unat sz \<le> 0xFFFFFFE8"
    and some: "b \<in> set bs" "\<not> b_alloc b" "blk_need (unat sz) \<le> b_size b"
  obtains bs1 a r bs2 ns1 ns2 where "bs = bs1 @ Blk a (blk_need (unat sz) + r) False # bs2"
    and "ns = ns1 @ of_nat (a + 8) # ns2" and "too_small (blk_need (unat sz)) bs ns1"
    and "kmalloc kh sz m = Some (of_nat (a + 16),
           if 24 \<le> r then kheap_split (of_nat a) (of_nat (blk_need (unat sz))) (of_nat r) m
           else kheap_take (of_nat a) m)"
proof -
  let ?n = "blk_need (unat sz)" and ?P = "\<lambda>node. kmalloc_block_size sz \<le> hdr_size m (node_hdr node)"
  have P: "?P x \<longleftrightarrow> ?n \<le> unat (hdr_size m (node_hdr x))" for x
    using unat_kmalloc_block_size [OF sz(2)] by (simp add: word_le_nat_alt)
  have bP: "?P (blk_node c) \<longleftrightarrow> ?n \<le> b_size c" if "c \<in> set bs" for c
    using heap_size(1) [OF inv that] P [of "blk_node c"] by (simp add: node_hdr_def blk_node_def)
  have "blk_node b \<in> set ns" using some heap_invD(4) [OF inv] by (auto simp: free_nodes_def)
  then have "filter ?P ns \<noteq> []" using bP [OF some(1)] some(3) by (auto simp: filter_empty_conv)
  then obtain x xs where f: "filter ?P ns = x # xs" by (cases "filter ?P ns") auto
  then obtain ns1 ns2 where ns: "ns = ns1 @ x # ns2" and ns1: "\<forall>y\<in>set ns1. \<not> ?P y" and Px: "?P x"
    by (rule filter_hd_split)
  have "x \<in> set ns" using ns by simp
  obtain bs1 a s bs2 where bs: "bs = bs1 @ Blk a s False # bs2"
    and x: "x = of_nat (a + 8)" and hdr: "node_hdr x = of_nat a"
    and s: "unat (hdr_size m (node_hdr x)) = s" and "a + s < 2 ^ 32"
    by (rule free_list_block [OF inv \<open>x \<in> set ns\<close>])
  have xh: "x \<noteq> kheap_free_list kh" using heap_invD(6) [OF inv] ns by (auto simp: dll_def)
  have "?n \<le> s" using Px P [of x] s by simp
  then obtain r where r: "s = ?n + r" using le_Suc_ex by blast
  have rem: "unat (hdr_size m (of_nat a) - kmalloc_block_size sz) = r"
    using s hdr r unat_kmalloc_block_size [OF sz(2)] by (simp add: unat_sub_nowrap)
  have "kmalloc_block_size sz = of_nat ?n" "hdr_size m (of_nat a) - kmalloc_block_size sz = of_nat r"
    using unat_eqD [OF unat_kmalloc_block_size [OF sz(2)]] unat_eqD [OF rem] by simp_all
  moreover have "KHEAP_MIN_BLOCK_SIZE \<le> hdr_size m (of_nat a) - kmalloc_block_size sz \<longleftrightarrow> 24 \<le> r"
    using rem by (simp add: KHEAP_MIN_BLOCK_SIZE_def word_le_nat_alt)
  ultimately have "kmalloc kh sz m = Some (of_nat (a + 16),
      if 24 \<le> r then kheap_split (of_nat a) (of_nat ?n) (of_nat r) m else kheap_take (of_nat a) m)"
    using sz(1) kmalloc_search [OF inv, of ?P] f xh hdr by (auto simp: kmalloc_def Let_def)
  moreover have "too_small ?n bs ns1" using ns1 bP by (force simp: too_small_def)
  ultimately show ?thesis using that bs ns x r by blast
qed

text \<open>The payload of an allocated block is apart from the links and from a free block.\<close>

lemma payload_apart:
  assumes inv: "heap_inv kh bs ns m" and t': "tiles (unat (kheap_start kh)) bs' (unat (kheap_end kh))"
    and c: "c \<in> set bs" "c \<in> set bs'" "b_alloc c" and k: "k \<in> payload c"
    and b: "Blk a s False \<in> set bs"
  shows "k < 2 ^ 32" and "k \<notin> list_words kh bs'" and "k < a \<or> a + s \<le> k"
proof -
  note r = heap_invD(1) [OF inv] and t = heap_invD(2) [OF inv]
  show "k < 2 ^ 32" using k heap_addr_bound(1) [OF r t c(1)] by (auto simp: payload_def)
  show "k \<notin> list_words kh bs'" using own_words_not_links [OF r t' c(2)] k by blast
  have "c \<noteq> Blk a s False" using c(3) by auto
  then show "k < a \<or> a + s \<le> k"
    using tiles_disjoint [OF t c(1) b] c(3) k by (auto simp: payload_def)
qed

text \<open>
  When some free block is large enough, the first one in the order of the free list is taken:
  the block list changes by an allocation step, the result is a well-formed heap, and no
  payload word of any allocated block is written.
\<close>

theorem kmalloc_refines:
  assumes inv: "heap_inv kh bs ns m" and sz: "0 < unat sz" "unat sz \<le> 0xFFFFFFE8"
    and some: "b \<in> set bs" "\<not> b_alloc b" "blk_need (unat sz) \<le> b_size b"
  obtains a bs' ns' m' where "kmalloc kh sz m = Some (of_nat (a + 16), m')"
    and "alloc_step (blk_need (unat sz)) a (bs, ns) (bs', ns')" and "heap_inv kh bs' ns' m'"
    and "\<forall>c\<in>set bs. b_alloc c \<longrightarrow> (\<forall>k\<in>payload c. m' k = m k)"
proof -
  let ?n = "blk_need (unat sz)"
  obtain bs1 a r bs2 ns1 ns2 where bs: "bs = bs1 @ Blk a (?n + r) False # bs2"
    and ns: "ns = ns1 @ of_nat (a + 8) # ns2" and fit: "too_small ?n bs ns1"
    and km: "kmalloc kh sz m = Some (of_nat (a + 16),
           if 24 \<le> r then kheap_split (of_nat a) (of_nat ?n) (of_nat r) m else kheap_take (of_nat a) m)"
    using kmalloc_found [OF assms] .
  have n: "24 \<le> ?n" "?n mod 4 = 0" using blk_need_props sz by auto
  have old: "Blk a (?n + r) False \<in> set bs" using bs by simp
  have blocks: "heap_blocks kh bs' ns'" "tiles (unat (kheap_start kh)) bs' (unat (kheap_end kh))"
    if "alloc_step ?n a (bs, ns) (bs', ns')" for bs' ns'
    using alloc_step_blocks [OF that heap_invD(1) [OF inv] _ heap_invD(7) [OF inv] n] inv
    by (simp_all add: heap_inv_def heap_blocks_def)
  show ?thesis
  proof (cases "24 \<le> r")
    case True
    let ?bs = "bs1 @ Blk a ?n True # Blk (a + ?n) r False # bs2"
    have step: "alloc_step ?n a (bs, ns) (?bs, ns1 @ of_nat (a + ?n + 8) # ns2)"
      using alloc_split [of ?n "?n + r" bs1 a bs2 ns1 ns2] True fit bs ns by simp
    note sp = kheap_split_step [OF inv bs ns blocks(1) [OF step] refl refl refl n(1) True]
    have "kheap_split (of_nat a) (of_nat ?n) (of_nat r) m k = m k"
      if "c \<in> set bs" "b_alloc c" "k \<in> payload c" for c k
      using payload_apart [OF inv blocks(2) [OF step] that(1) _ that(2,3) old] that(1,2) bs n True
      by (intro sp(2)) (auto simp: meta_def)
    then show ?thesis using that km step sp(1) True by simp
  next
    case False
    let ?bs = "bs1 @ Blk a (?n + r) True # bs2"
    have step: "alloc_step ?n a (bs, ns) (?bs, ns1 @ ns2)"
      using alloc_whole [of ?n "?n + r" bs1 a bs2 ns1 ns2] False fit bs ns by simp
    note tk = kheap_take_step [OF inv bs ns blocks(1) [OF step] refl refl]
    have "kheap_take (of_nat a) m k = m k" if "c \<in> set bs" "b_alloc c" "k \<in> payload c" for c k
      using payload_apart [OF inv blocks(2) [OF step] that(1) _ that(2,3) old] that(1,2) bs n
      by (intro tk(2)) (auto simp: meta_def)
    then show ?thesis using that km step tk(1) False by simp
  qed
qed

end
