(* ===== verification/Kheap_Free.thy ===== *)
theory Kheap_Free
  imports Kheap_Inv
begin

text \<open>
  Freeing a block of a well-formed heap: \<open>kfree\<close> carries out the abstract step \<open>free_step\<close>, with
  its four cases of joining the block with its neighbours, and rejects every pointer that its
  guards catch.
\<close>

subsection \<open>The abstract step\<close>

lemma tiles_split:
  "tiles s (bs1 @ b # bs2) e \<longleftrightarrow>
     tiles s bs1 (b_addr b) \<and> 24 \<le> b_size b \<and> b_size b mod 4 = 0 \<and> tiles (b_addr b + b_size b) bs2 e"
  by (auto simp: tiles_append)

lemma mod4_add: "(x::nat) mod 4 = 0 \<Longrightarrow> y mod 4 = 0 \<Longrightarrow> (x + y) mod 4 = 0"
  by presburger

lemma free_nodes_remove1:
  assumes r: "heap_range kh"
    and t: "tiles (unat (kheap_start kh)) (bs1 @ b # bs2) (unat (kheap_end kh))"
    and ns: "set ns = free_nodes (bs1 @ b # bs2)" and d: "distinct ns"
  shows "set (remove1 (blk_node b) ns) = free_nodes (bs1 @ bs2)"
proof -
  have "set (remove1 (blk_node b) ns) = free_nodes (bs1 @ b # bs2) - {blk_node b}"
    using ns d by (simp add: set_remove1_eq)
  also have "\<dots> = free_nodes (bs1 @ bs2)"
    using node_other(1) [OF r t] by (auto simp: free_nodes_def)
  finally show ?thesis .
qed

lemma free_step_blocks:
  assumes step: "free_step a (bs, ns) (bs', ns')" and r: "heap_range kh"
    and inv: "heap_blocks kh bs ns" and d: "distinct ns"
  shows "heap_blocks kh bs' ns'"
  using step
proof cases
  case (free_alone bs1 bs2 sz)
  then show ?thesis
    using inv by (simp add: heap_blocks_def tiles_append coalesced_app coalesced_Cons)
next
  case (free_next bs1 sz c nsz bs2)
  have "set (remove1 (blk_node (Blk c nsz False)) ns) = free_nodes ((bs1 @ [Blk a sz True]) @ bs2)"
    using inv free_next d by (intro free_nodes_remove1 [OF r]) (simp_all add: heap_blocks_def)
  then have "set ns' = free_nodes bs'" using free_next by simp
  then show ?thesis
    using inv free_next
    by (simp add: heap_blocks_def tiles_append coalesced_app coalesced_Cons mod4_add add.assoc
        del: free_nodes_simps)
next
  case (free_prev bs2 bs1 p psz sz)
  then show ?thesis
    using inv
    by (simp add: heap_blocks_def tiles_append coalesced_app coalesced_Cons mod4_add add.assoc)
next
  case (free_both bs1 p psz sz c nsz bs2)
  have "set (remove1 (blk_node (Blk c nsz False)) ns) = free_nodes ((bs1 @ [Blk p psz False, Blk a sz True]) @ bs2)"
    using inv free_both d by (intro free_nodes_remove1 [OF r]) (simp_all add: heap_blocks_def)
  then have "set ns' = free_nodes bs'" using free_both by simp
  then show ?thesis
    using inv free_both
    by (simp add: heap_blocks_def tiles_append coalesced_app coalesced_Cons mod4_add add.assoc
        del: free_nodes_simps)
qed

subsection \<open>Joining blocks\<close>

lemma kheap_merge_eq:
  assumes ok: "blk_ok m (Blk q s x)" "blk_ok m (Blk c t y)"
    and c: "c = q + s" and sz: "24 \<le> s" "24 \<le> t" "q + s + t < 2 ^ 32"
  shows "kheap_merge (of_nat q) (of_nat c) m = m(q := of_nat (s + t), c + t - 4 := of_nat (s + t))"
    and "blk_ok (kheap_merge (of_nat q) (of_nat c) m) (Blk q (s + t) x)"
proof -
  have mq: "m q = of_nat s" "m c = of_nat t"
    using ok by (auto simp: blk_ok_def intro: unat_eqD)
  have w: "(of_nat c :: vaddr) + of_nat t - 4 = of_nat (c + t - 4)"
    using sz by (simp add: of_nat_diff)
  have qc: "q \<noteq> c" using c sz by simp
  have lt: "q < 2 ^ 32" "c < 2 ^ 32" "c + t - 4 < 2 ^ 32" using c sz by simp_all
  show eq: "kheap_merge (of_nat q) (of_nat c) m = m(q := of_nat (s + t), c + t - 4 := of_nat (s + t))"
    using qc w lt
    by (simp add: kheap_merge_def Let_def hdr_size_def set_hdr_size_def st_of_nat ld_of_nat mq
        del: of_nat_diff)
  have ne: "q \<noteq> c + t - 4" "q + 4 \<noteq> c + t - 4" "q + (s + t) - 4 = c + t - 4" using c sz by linarith+
  have ne': "q + 4 \<noteq> q + (s + t) - 4" "q \<noteq> q + (s + t) - 4" using sz by linarith+
  show "blk_ok (kheap_merge (of_nat q) (of_nat c) m) (Blk q (s + t) x)"
    unfolding eq blk_ok_def using ok(1) ne ne' sz
    by (simp add: blk_ok_def unat_of_nat_small del: of_nat_add)
qed

text \<open>
  A run of blocks is replaced by one block: enough are the words of the new block, the list,
  and that nothing else but links has been written.
\<close>

lemma heap_inv_merge:
  assumes inv: "heap_inv kh bs ns m" and bs: "bs = bs1 @ mid @ bs2"
    and blocks: "heap_blocks kh (bs1 @ b # bs2) ns'"
    and ok: "blk_ok m' b" and dll: "dll m' (kheap_free_list kh) ns'"
    and frame: "\<And>k. k < 2 ^ 32 \<Longrightarrow> k \<notin> list_words kh bs \<Longrightarrow> k \<notin> {b_addr b ..< b_addr b + b_size b} \<Longrightarrow> m' k = m k"
  shows "heap_inv kh (bs1 @ b # bs2) ns' m'"
    and "\<And>c k. c \<in> set bs1 \<union> set bs2 \<Longrightarrow> k \<in> payload c \<Longrightarrow> m' k = m k"
proof -
  note r = heap_invD(1) [OF inv] and t = heap_invD(2) [OF inv]
  have t': "tiles (unat (kheap_start kh)) (bs1 @ b # bs2) (unat (kheap_end kh))"
    using blocks by (simp add: heap_blocks_def)
  have own: "m' k = m k" if c: "c \<in> set bs1 \<union> set bs2" and k: "k \<in> meta c \<union> payload c" for c k
  proof (rule frame)
    have cb: "c \<in> set bs" using c bs by auto
    show "k < 2 ^ 32" using k heap_addr_bound [OF r t cb] by (auto simp: meta_def payload_def)
    show "k \<notin> list_words kh bs" using own_words_not_links [OF r t cb k] .
    show "k \<notin> {b_addr b ..< b_addr b + b_size b}"
      using tiles_disjoint [OF t', of c b] node_other(2) [OF r t' c] c k tiles_bounds(3) [OF t cb]
      by (auto simp: meta_def payload_def)
  qed
  show "heap_inv kh (bs1 @ b # bs2) ns' m'"
  proof -
    have "blk_ok m' c" if c: "c \<in> set bs1 \<union> set bs2" for c
      using blk_ok_cong [of c m' m] own [OF c] heap_invD(5) [OF inv] c bs by auto
    then show ?thesis using r blocks ok dll by (auto simp: heap_inv_def)
  qed
  show "\<And>c k. c \<in> set bs1 \<union> set bs2 \<Longrightarrow> k \<in> payload c \<Longrightarrow> m' k = m k" using own by blast
qed

subsection \<open>Running \<open>kfree\<close>\<close>

definition clear_flag :: "nat \<Rightarrow> mem \<Rightarrow> mem" where
  "clear_flag a m = m(a + 4 := MASK_CLEAR (m (a + 4)) KHEAP_FLAG_ALLOC)"

lemma clear_flag_blk_ok:
  assumes inv: "heap_inv kh bs ns m" and bs: "bs = bs1 @ Blk a sz True # bs2"
  shows "blk_ok (clear_flag a m) (Blk a sz False)"
    and "b \<in> set bs1 \<union> set bs2 \<Longrightarrow> blk_ok (clear_flag a m) b"
proof -
  note r = heap_invD(1) [OF inv] and t = heap_invD(2) [OF inv]
  have b: "Blk a sz True \<in> set bs" using bs by simp
  have "a + 4 \<noteq> a + sz - 4" using tiles_bounds(3) [OF t b] by simp
  then show "blk_ok (clear_flag a m) (Blk a sz False)"
    using heap_invD(5) [OF inv b] by (simp add: blk_ok_def clear_flag_def)
  assume c: "b \<in> set bs1 \<union> set bs2"
  then have cb: "b \<in> set bs" using bs by auto
  have "b \<noteq> Blk a sz True" using node_other(2) [of kh bs1 "Blk a sz True" bs2 b] r t c bs by simp
  then have "a + 4 \<notin> meta b"
    using tiles_disjoint [OF t cb b] tiles_bounds(3) [OF t b] tiles_bounds(3) [OF t cb]
    by (auto simp: meta_def)
  then have "clear_flag a m k = m k" if "k \<in> meta b" for k
    using that by (auto simp: clear_flag_def)
  then show "blk_ok (clear_flag a m) b"
    using blk_ok_cong [of b "clear_flag a m" m] heap_invD(5) [OF inv cb] by blast
qed

text \<open>What the boundary tags tell \<open>kfree\<close> about the neighbours of the block.\<close>

lemma blk_ok_hdr:
  assumes "blk_ok m b" and "b_addr b + b_size b < 2 ^ 32" and "24 \<le> b_size b"
  shows "hdr_size m (of_nat (b_addr b)) = of_nat (b_size b)"
    and "bit (hdr_flags m (of_nat (b_addr b))) 0 \<longleftrightarrow> b_alloc b"
    and "ld m (of_nat (b_addr b + b_size b) - 4) = of_nat (b_size b)"
proof -
  have w: "(of_nat (b_addr b) :: vaddr) + 4 = of_nat (b_addr b + 4)"
    "(of_nat (b_addr b + b_size b) :: vaddr) - 4 = of_nat (b_addr b + b_size b - 4)"
    using assms(3) by (simp_all add: of_nat_diff)
  show "hdr_size m (of_nat (b_addr b)) = of_nat (b_size b)"
    "bit (hdr_flags m (of_nat (b_addr b))) 0 \<longleftrightarrow> b_alloc b"
    "ld m (of_nat (b_addr b + b_size b) - 4) = of_nat (b_size b)"
    unfolding hdr_size_def hdr_flags_def w using assms
    by (simp_all add: ld_of_nat blk_ok_def unat_eqD del: of_nat_add of_nat_diff)
qed

lemma kfree_neighbours:
  assumes inv: "heap_inv kh bs ns m" and bs: "bs = bs1 @ Blk a sz True # bs2"
  shows "of_nat (a + sz) < kheap_end kh \<and> \<not> bit (hdr_flags (clear_flag a m) (of_nat (a + sz))) 0
           \<longleftrightarrow> \<not> next_alloc bs2"
    and "of_nat a \<noteq> kheap_start kh
           \<and> \<not> bit (hdr_flags (clear_flag a m) (of_nat a - ld (clear_flag a m) (of_nat a - 4))) 0
           \<longleftrightarrow> \<not> prev_alloc bs1"
    and "bs1 \<noteq> [] \<Longrightarrow> of_nat a - ld (clear_flag a m) (of_nat a - 4) = of_nat (b_addr (last bs1))"
proof -
  note r = heap_invD(1) [OF inv] and t = heap_invD(2) [OF inv]
  note ok = clear_flag_blk_ok [OF inv bs]
  have b: "Blk a sz True \<in> set bs" using bs by simp
  have t1: "tiles (unat (kheap_start kh)) bs1 a" and t2: "tiles (a + sz) bs2 (unat (kheap_end kh))"
    using t bs by (simp_all add: tiles_split)
  have lt: "a + sz < 2 ^ 32" using heap_addr_bound [OF r t b] by simp
  show "of_nat (a + sz) < kheap_end kh \<and> \<not> bit (hdr_flags (clear_flag a m) (of_nat (a + sz))) 0
           \<longleftrightarrow> \<not> next_alloc bs2"
  proof (cases bs2)
    case Nil
    then show ?thesis
      using t2 lt by (simp add: next_alloc_def word_less_nat_alt unat_of_nat_small del: of_nat_add)
  next
    case (Cons c cs)
    have cb: "c \<in> set bs" "b_addr c = a + sz" using t2 Cons bs by auto
    then show ?thesis
      using blk_ok_hdr(2) [OF ok(2), of c] heap_addr_bound [OF r t cb(1)] tiles_bounds(2,3) [OF t cb(1)] Cons lt
      by (simp add: next_alloc_def word_less_nat_alt unat_of_nat_small del: of_nat_add)
  qed
  show prev: "of_nat a - ld (clear_flag a m) (of_nat a - 4) = of_nat (b_addr (last bs1))" if ne: "bs1 \<noteq> []"
  proof -
    have "tiles (unat (kheap_start kh)) (butlast bs1 @ [last bs1]) a" using t1 ne by simp
    then have c: "b_addr (last bs1) + b_size (last bs1) = a" by (simp add: tiles_append)
    have cb: "last bs1 \<in> set bs1 \<union> set bs2" "last bs1 \<in> set bs" using ne bs by simp_all
    have "ld (clear_flag a m) (of_nat a - 4) = of_nat (b_size (last bs1))"
      using blk_ok_hdr(3) [OF ok(2) [OF cb(1)]] heap_addr_bound [OF r t cb(2)] c by simp
    then show ?thesis using c by (metis add_diff_cancel_right' of_nat_add)
  qed
  show "of_nat a \<noteq> kheap_start kh
           \<and> \<not> bit (hdr_flags (clear_flag a m) (of_nat a - ld (clear_flag a m) (of_nat a - 4))) 0
           \<longleftrightarrow> \<not> prev_alloc bs1"
  proof (cases "bs1 = []")
    case True
    then show ?thesis using t1 by (auto simp: prev_alloc_def)
  next
    case False
    have cb: "last bs1 \<in> set bs1 \<union> set bs2" "last bs1 \<in> set bs" using False bs by simp_all
    have "unat (kheap_start kh) < a"
      using tiles_bounds [OF t1, of "last bs1"] False by simp
    then have "of_nat a \<noteq> kheap_start kh"
      using lt by (auto simp: word_unat_eq_iff unat_of_nat_small)
    then show ?thesis
      using prev [OF False] blk_ok_hdr(2) [OF ok(2) [OF cb(1)]] heap_addr_bound [OF r t cb(2)] False
      by (simp add: prev_alloc_def)
  qed
qed

text \<open>
  The run of \<open>kfree\<close> on the pointer of an allocated block that its range check accepts.
\<close>

definition kfree_result :: "kheap \<Rightarrow> nat \<Rightarrow> nat \<Rightarrow> nat \<Rightarrow> bool \<Rightarrow> bool \<Rightarrow> mem \<Rightarrow> mem" where
  "kfree_result kh p a sz pf nf m =
     (let q = (if pf then p else a);
          m2 = (if pf then kheap_merge (of_nat p) (of_nat a) (clear_flag a m) else clear_flag a m);
          m3 = (if nf then kheap_merge (of_nat q) (of_nat (a + sz)) (list_remove (of_nat (a + sz + 8)) m2)
                else m2)
      in if pf then m3 else list_insert_front (kheap_free_list kh) (of_nat (a + 8)) m3)"

lemma kfree_run:
  assumes inv: "heap_inv kh bs ns m" and bs: "bs = bs1 @ Blk a sz True # bs2"
    and guard: "a + 40 < unat (kheap_end kh)"
  shows "kfree kh (of_nat (a + 16)) m =
           (Inr (), kfree_result kh (b_addr (last bs1)) a sz (\<not> prev_alloc bs1) (\<not> next_alloc bs2) m)"
proof -
  note r = heap_invD(1) [OF inv] and t = heap_invD(2) [OF inv]
  have b: "Blk a sz True \<in> set bs" using bs by simp
  have lt: "a + sz < 2 ^ 32" "24 \<le> sz" "4096 \<le> a" and al: "a mod 4 = 0"
    using heap_addr_bound [OF r t b] tiles_bounds(5) [OF t b] r by (simp_all add: heap_range_def)
  have up: "unat (of_nat (a + 16) :: vaddr) = a + 16" using lt by (simp add: unat_of_nat_small del: of_nat_add)
  have e: "unat (kheap_end kh - KHEAP_MIN_BLOCK_SIZE) = unat (kheap_end kh) - 24"
    using guard by (simp add: KHEAP_MIN_BLOCK_SIZE_def unat_sub_nowrap)
  have s: "unat (kheap_start kh + 16) = unat (kheap_start kh) + 16" "unat (kheap_start kh) \<le> a"
    using tiles_bounds(1) [OF t b] lt by (simp_all add: unat_word_ariths)
  have g1: "(of_nat (a + 16) :: vaddr) \<noteq> 0" using up by (metis add_is_0 unat_0 zero_neq_numeral)
  have g2: "\<not> of_nat (a + 16) < kheap_start kh + 16" "\<not> kheap_end kh - KHEAP_MIN_BLOCK_SIZE \<le> of_nat (a + 16)"
    using up s e guard by (simp_all add: word_less_nat_alt word_le_nat_alt del: of_nat_add)
  have g3: "(of_nat (a + 16) :: vaddr) mod 4 = 0"
    using mod4_add [OF al, of 16] up by (simp add: word_unat_eq_iff unat_mod_word del: of_nat_add)
  have w: "(of_nat (a + 16) :: vaddr) - 16 = of_nat a" by simp
  have fl: "bit (hdr_flags m (of_nat a)) 0" using heap_size(2) [OF inv b] by simp
  have m1: "set_hdr_flags (of_nat a) (MASK_CLEAR (hdr_flags m (of_nat a)) KHEAP_FLAG_ALLOC) m = clear_flag a m"
  proof -
    have "(of_nat a :: vaddr) + 4 = of_nat (a + 4)" by simp
    then show ?thesis
      using lt by (simp add: set_hdr_flags_def hdr_flags_def clear_flag_def st_of_nat ld_of_nat del: of_nat_add)
  qed
  have sz: "of_nat a + hdr_size (clear_flag a m) (of_nat a) = of_nat (a + sz)"
    using blk_ok_hdr(1) [OF clear_flag_blk_ok(1) [OF inv bs]] lt by simp
  have fn: "free_node (of_nat x) = of_nat (x + 8)" for x by (simp add: free_node_def)
  note nb = kfree_neighbours [OF inv bs]
  show ?thesis
    unfolding kfree_def Let_def w m1 sz bit0_test nb(1,2) kfree_result_def
    using g1 g2 g3 fl nb(3) by (auto simp: fn prev_alloc_def simp del: of_nat_add)
qed

subsection \<open>The phases of \<open>kfree\<close>\<close>

text \<open>
  After each phase the part of the heap from \<open>q\<close> is one free block of size \<open>s\<close>, the free list
  is \<open>ns'\<close>, and besides links only words of that block have been written. The old header of a
  block that was allocated and lies in that part is marked free.
\<close>

definition marked_free :: "blk list \<Rightarrow> nat \<Rightarrow> nat \<Rightarrow> mem \<Rightarrow> bool" where
  "marked_free bs q s m' \<longleftrightarrow>
     (\<forall>b\<in>set bs. b_alloc b \<and> q \<le> b_addr b \<and> b_addr b < q + s \<longrightarrow> \<not> bit (m' (b_addr b + 4)) 0)"

definition freed :: "kheap \<Rightarrow> blk list \<Rightarrow> mem \<Rightarrow> nat \<Rightarrow> nat \<Rightarrow> vaddr list \<Rightarrow> mem \<Rightarrow> bool" where
  "freed kh bs m q s ns' m' \<longleftrightarrow>
     blk_ok m' (Blk q s False) \<and> dll m' (kheap_free_list kh) ns' \<and> set ns' \<subseteq> blk_node ` set bs
     \<and> marked_free bs q s m'
     \<and> (\<forall>k < 2 ^ 32. k \<notin> list_words kh bs \<and> (k < q \<or> q + s \<le> k) \<longrightarrow> m' k = m k)"

lemma freed_blk_ok:
  assumes inv: "heap_inv kh bs ns m" and f: "freed kh bs m q s ns' m'"
    and b: "b \<in> set bs" and out: "b_addr b + b_size b \<le> q \<or> q + s \<le> b_addr b"
  shows "blk_ok m' b"
proof -
  note r = heap_invD(1) [OF inv] and t = heap_invD(2) [OF inv]
  have "m' k = m k" if k: "k \<in> meta b" for k
  proof -
    have "k \<notin> list_words kh bs" using own_words_not_links [OF r t b] k by blast
    moreover have "k < 2 ^ 32" "k < q \<or> q + s \<le> k"
      using k out heap_addr_bound [OF r t b] by (auto simp: meta_def)
    ultimately show ?thesis using f by (simp add: freed_def)
  qed
  then show ?thesis using blk_ok_cong [of b m' m] heap_invD(5) [OF inv b] by blast
qed

lemma freed_clear:
  assumes inv: "heap_inv kh bs ns m" and bs: "bs = bs1 @ Blk a sz True # bs2"
  shows "freed kh bs m a sz ns (clear_flag a m)"
proof -
  note r = heap_invD(1) [OF inv] and t = heap_invD(2) [OF inv]
  have b: "Blk a sz True \<in> set bs" using bs by simp
  have "a + 4 \<notin> list_words kh bs" using own_words_not_links [OF r t b, of "a + 4"] by (simp add: meta_def)
  then have "clear_flag a m k = m k" if "k \<in> list_words kh bs" for k
    using that by (auto simp: clear_flag_def)
  then have "dll (clear_flag a m) (kheap_free_list kh) ns"
    using heap_dll_cong [OF r t heap_invD(8) [OF inv]] heap_invD(6) [OF inv] by blast
  moreover have "b_addr c = a" if "c \<in> set bs" "a \<le> b_addr c" "b_addr c < a + sz" for c
    using tiles_disjoint [OF t that(1) b] that tiles_bounds(3) [OF t that(1)] by force
  then have "marked_free bs a sz (clear_flag a m)"
    unfolding marked_free_def by (auto simp: clear_flag_def)
  ultimately show ?thesis
    using clear_flag_blk_ok(1) [OF inv bs] heap_invD(8) [OF inv] tiles_bounds(3) [OF t b]
    by (auto simp: freed_def clear_flag_def)
qed

text \<open>Joining two blocks writes the first header and the last footer.\<close>

lemma freed_merge:
  assumes inv: "heap_inv kh bs ns m" and left: "l \<in> set bs" "b_addr l = q"
    and right: "c \<in> set bs" "b_addr c + b_size c = q + s + t"
    and ok: "blk_ok m1 (Blk q s False)" "blk_ok m1 (Blk (q + s) t x)" and sz: "24 \<le> s" "24 \<le> t"
    and dll: "dll m1 (kheap_free_list kh) ns'" "set ns' \<subseteq> blk_node ` set bs"
    and frame: "\<forall>k < 2 ^ 32. k \<notin> list_words kh bs \<and> (k < q \<or> q + s + t \<le> k) \<longrightarrow> m1 k = m k"
    and marked: "marked_free bs q (s + t) m1"
  shows "freed kh bs m q (s + t) ns' (kheap_merge (of_nat q) (of_nat (q + s)) m1)"
proof -
  note r = heap_invD(1) [OF inv] and t = heap_invD(2) [OF inv]
  let ?m = "kheap_merge (of_nat q) (of_nat (q + s)) m1"
  have lt: "q + s + t < 2 ^ 32" using heap_addr_bound(1) [OF r t right(1)] right(2) by simp
  note mg = kheap_merge_eq [OF ok refl sz lt]
  have "q \<notin> list_words kh bs" "q + s + t - 4 \<notin> list_words kh bs"
    using own_words_not_links [OF r t left(1), of q] own_words_not_links [OF r t right(1), of "q + s + t - 4"]
      left(2) right(2) by (simp_all add: meta_def)
  then have "?m k = m1 k" if "k \<in> list_words kh bs" for k
    using that unfolding mg(1) by auto
  then have "dll ?m (kheap_free_list kh) ns'"
    using heap_dll_cong [OF r t dll(2)] dll(1) by blast
  moreover have "?m k = m k" if "k < 2 ^ 32" "k \<notin> list_words kh bs" "k < q \<or> q + (s + t) \<le> k" for k
    using that frame sz unfolding mg(1) by (auto simp: add.assoc)
  moreover have "marked_free bs q (s + t) ?m"
  proof -
    have "?m (b_addr b + 4) = m1 (b_addr b + 4)" if b: "b \<in> set bs" for b
    proof -
      have "b_addr b + 4 \<noteq> b_addr l" "b_addr b + 4 \<noteq> b_addr c + b_size c - 4"
        using tiles_disjoint [OF t b left(1)] tiles_disjoint [OF t b right(1)] tiles_bounds(3) [OF t b]
          tiles_bounds(3) [OF t right(1)] by (cases "b = l"; cases "b = c"; force)+
      then show ?thesis using left(2) right(2) unfolding mg(1) by simp
    qed
    then show ?thesis using marked by (simp add: marked_free_def)
  qed
  ultimately show ?thesis using mg(2) dll(2) by (simp add: freed_def)
qed

lemma freed_remove:
  assumes inv: "heap_inv kh bs ns m" and f: "freed kh bs m q s ns m1"
    and x: "x \<in> set ns"
  shows "dll (list_remove x m1) (kheap_free_list kh) (remove1 x ns)"
    and "k < 2 ^ 32 \<Longrightarrow> k \<notin> list_words kh bs \<Longrightarrow> list_remove x m1 k = m1 k"
proof -
  have d: "dll m1 (kheap_free_list kh) ns" using f by (simp add: freed_def)
  then show "dll (list_remove x m1) (kheap_free_list kh) (remove1 x ns)" by (rule lst.del_member [OF _ x])
  assume k: "k < 2 ^ 32" "k \<notin> list_words kh bs"
  obtain xs ys where ns: "ns = xs @ x # ys" using split_list [OF x] by blast
  have "of_nat k \<notin> node_words (kheap_free_list kh # xs @ x # ys)"
    using heap_invD(8) [OF inv] ns
    by (intro heap_node_words [OF heap_invD(1,2) [OF inv] _ k(2,1)]) auto
  then have "ld (list_remove x m1) (of_nat k) = ld m1 (of_nat k)"
    using dll_remove_frame d ns by blast
  then show "list_remove x m1 k = m1 k" using k by (simp add: ld_of_nat)
qed

text \<open>The own words of a run of blocks, taken as one block, are no link words.\<close>

lemma region_meta:
  assumes inv: "heap_inv kh bs ns m" and l: "l \<in> set bs" "b_addr l = q"
    and c: "c \<in> set bs" "b_addr c + b_size c = q + s" and k: "k \<in> meta (Blk q s x)"
  shows "k \<notin> list_words kh bs" and "k < 2 ^ 32"
proof -
  note r = heap_invD(1) [OF inv] and t = heap_invD(2) [OF inv]
  have "k \<in> meta l \<or> k \<in> meta c" using k l(2) c(2) by (auto simp: meta_def)
  then show "k \<notin> list_words kh bs" "k < 2 ^ 32"
    using own_words_not_links [OF r t l(1), of k] own_words_not_links [OF r t c(1), of k]
      heap_addr_bound [OF r t l(1)] heap_addr_bound [OF r t c(1)] by (auto simp: meta_def)
qed

lemma freed_insert:
  assumes inv: "heap_inv kh bs ns m" and f: "freed kh bs m q s ns' m1"
    and b: "b \<in> set bs" "b_alloc b" "b_addr b = q" and ns': "set ns' \<subseteq> set ns"
    and c: "c \<in> set bs" "b_addr c + b_size c = q + s"
  shows "freed kh bs m q s (of_nat (q + 8) # ns') (list_insert_front (kheap_free_list kh) (of_nat (q + 8)) m1)"
proof -
  note r = heap_invD(1) [OF inv] and t = heap_invD(2) [OF inv]
  let ?h = "kheap_free_list kh" and ?x = "of_nat (q + 8) :: vaddr"
  let ?m = "list_insert_front ?h ?x m1"
  have x: "?x = blk_node b" using b(3) by (simp add: blk_node_def)
  have d: "dll m1 ?h ns'" using f by (simp add: freed_def)
  have sub: "set ns' \<subseteq> blk_node ` (set bs - {b})"
    using ns' heap_invD(4) [OF inv] b(2) by (auto simp: free_nodes_def)
  have fresh: "node_fresh ?x ?h ns'" unfolding x using heap_node_fresh [OF r t b(1) sub] .
  have links: "?m k = m1 k" if k: "k < 2 ^ 32" "k \<notin> list_words kh bs" for k
  proof -
    have "of_nat k \<notin> node_words (?x # ?h # ns')"
      using sub b(1) x by (intro heap_node_words [OF r t _ k(2,1)]) auto
    then have "ld ?m (of_nat k) = ld m1 (of_nat k)" using dll_insert_front_frame d fresh by blast
    then show ?thesis using k by (simp add: ld_of_nat)
  qed
  have "?m k = m1 k" if k: "k \<in> meta (Blk q s False)" for k
    using region_meta [OF inv b(1,3) c k] links by blast
  then have "blk_ok ?m (Blk q s False)"
    using blk_ok_cong [of "Blk q s False" ?m m1] f by (simp add: freed_def)
  moreover have "?m (b_addr e + 4) = m1 (b_addr e + 4)" if e: "e \<in> set bs" for e
    using own_words_not_links [OF r t e, of "b_addr e + 4"] heap_addr_bound [OF r t e]
    by (intro links) (auto simp: meta_def)
  then have "marked_free bs q s ?m" using f by (simp add: freed_def marked_free_def)
  ultimately show ?thesis
    using f links dll_insert_front [OF d fresh] x b(1) by (auto simp: freed_def)
qed

lemma freed_next:
  assumes inv: "heap_inv kh bs ns m" and f: "freed kh bs m q s ns m1"
    and left: "l \<in> set bs" "b_addr l = q" and mid: "e \<in> set bs" "b_addr e + b_size e = q + s"
    and c: "Blk (q + s) nsz False \<in> set bs" and s: "24 \<le> s"
  shows "freed kh bs m q (s + nsz) (remove1 (of_nat (q + s + 8)) ns)
           (kheap_merge (of_nat q) (of_nat (q + s)) (list_remove (of_nat (q + s + 8)) m1))"
proof -
  note r = heap_invD(1) [OF inv] and t = heap_invD(2) [OF inv]
  let ?c = "Blk (q + s) nsz False" and ?x = "of_nat (q + s + 8) :: vaddr"
  have x: "?x \<in> set ns" using heap_invD(4) [OF inv] c by (force simp: free_nodes_def)
  note rm = freed_remove [OF inv f x]
  have n: "24 \<le> nsz" "q + s + nsz < 2 ^ 32" using heap_addr_bound [OF r t c] by simp_all
  have own: "list_remove ?x m1 k = m1 k" if "k \<in> meta (Blk q s False) \<union> meta ?c" "k \<notin> list_words kh bs" for k
    using that n s by (intro rm(2)) (auto simp: meta_def)
  show ?thesis
  proof (rule freed_merge [OF inv left c _ _ _ s n(1) rm(1)])
    show "b_addr ?c + b_size ?c = q + s + nsz" by simp
    have mc: "k \<notin> list_words kh bs" if "k \<in> meta ?c" for k
      using own_words_not_links [OF r t c, of k] that by blast
    then show "blk_ok (list_remove ?x m1) ?c"
      using own blk_ok_cong [of ?c "list_remove ?x m1" m1] freed_blk_ok [OF inv f c] by simp
    have "list_remove ?x m1 k = m1 k" if "k \<in> meta (Blk q s False)" for k
      using region_meta [OF inv left mid that] own that by blast
    then show "blk_ok (list_remove ?x m1) (Blk q s False)"
      using blk_ok_cong [of "Blk q s False" "list_remove ?x m1" m1] f by (simp add: freed_def)
    show "set (remove1 ?x ns) \<subseteq> blk_node ` set bs"
      using heap_invD(8) [OF inv] set_remove1_subset by fast
    show "\<forall>k<2 ^ 32. k \<notin> list_words kh bs \<and> (k < q \<or> q + s + nsz \<le> k) \<longrightarrow> list_remove ?x m1 k = m k"
      using f rm(2) by (auto simp: freed_def)
    have keep: "list_remove ?x m1 (b_addr b + 4) = m1 (b_addr b + 4)" if b: "b \<in> set bs" for b
      using own_words_not_links [OF r t b, of "b_addr b + 4"] heap_addr_bound [OF r t b]
      by (intro rm(2)) (auto simp: meta_def)
    have "b_addr b < q + s" if "b \<in> set bs" "b_alloc b" "b_addr b < q + (s + nsz)" for b
      using tiles_disjoint [OF t that(1) c] that tiles_bounds(3) [OF t that(1)] by force
    then show "marked_free bs q (s + nsz) (list_remove ?x m1)"
      using f keep by (auto simp: freed_def marked_free_def)
  qed
qed

text \<open>
  Freeing the block of a pointer that the range check accepts: the block list changes by a free
  step, the result is a well-formed heap, and no payload word of another allocated block is
  written.
\<close>

definition others_kept :: "blk list \<Rightarrow> nat \<Rightarrow> mem \<Rightarrow> mem \<Rightarrow> bool" where
  "others_kept bs a m m' \<longleftrightarrow>
     (\<forall>c\<in>set bs. b_alloc c \<longrightarrow> b_addr c \<noteq> a \<longrightarrow> (\<forall>k\<in>payload c. m' k = m k))"

lemma freed_final:
  assumes inv: "heap_inv kh bs ns m" and bs: "bs = bs1 @ mid @ bs2"
    and step: "free_step a (bs, ns) (bs1 @ Blk q s False # bs2, ns')"
    and f: "freed kh bs m q s ns' m'" and mid: "\<forall>c\<in>set mid. b_alloc c \<longrightarrow> b_addr c = a"
    and a: "\<exists>b\<in>set mid. b_alloc b" and all: "\<forall>c\<in>set mid. q \<le> b_addr c \<and> b_addr c < q + s"
  shows "heap_inv kh (bs1 @ Blk q s False # bs2) ns' m' \<and> others_kept bs a m m' \<and> \<not> bit (m' (a + 4)) 0"
proof -
  have blocks: "heap_blocks kh (bs1 @ Blk q s False # bs2) ns'"
    using free_step_blocks [OF step heap_invD(1) [OF inv] _ heap_invD(7) [OF inv]] inv
    by (simp add: heap_inv_def)
  have fr: "k < 2 ^ 32 \<Longrightarrow> k \<notin> list_words kh bs
      \<Longrightarrow> k \<notin> {b_addr (Blk q s False) ..< b_addr (Blk q s False) + b_size (Blk q s False)} \<Longrightarrow> m' k = m k" for k
    using f by (auto simp: freed_def)
  note hm = heap_inv_merge [OF inv bs blocks _ _ fr]
  have ok: "blk_ok m' (Blk q s False)" "dll m' (kheap_free_list kh) ns'" using f by (simp_all add: freed_def)
  have "others_kept bs a m m'"
    unfolding others_kept_def using hm(2) [OF ok] bs mid by auto
  moreover have "\<not> bit (m' (a + 4)) 0"
    using f mid a all bs by (auto simp: freed_def marked_free_def)
  ultimately show ?thesis using hm(1) [OF ok] by blast
qed

lemma next_free_shape:
  assumes "tiles e bs2 z" and "\<not> next_alloc bs2"
  obtains nsz cs where "bs2 = Blk e nsz False # cs" and "24 \<le> nsz"
proof (cases bs2)
  case (Cons c cs)
  then show ?thesis using assms that by (cases c) (auto simp: next_alloc_def)
qed (use assms in \<open>simp add: next_alloc_def\<close>)

lemma prev_free_shape:
  assumes "tiles z bs1 e" and "\<not> prev_alloc bs1"
  obtains p psz cs where "bs1 = cs @ [Blk p psz False]" and "e = p + psz" and "24 \<le> psz"
proof (cases bs1 rule: rev_cases)
  case (snoc cs c)
  then show ?thesis using assms that by (cases c) (auto simp: prev_alloc_def tiles_append)
qed (use assms in \<open>simp add: prev_alloc_def\<close>)

text \<open>The free block before the freed one and the freed block become one.\<close>

lemma freed_prev:
  assumes inv: "heap_inv kh bs ns m" and bs: "bs = cs @ Blk p psz False # Blk (p + psz) sz True # bs2"
  shows "freed kh bs m p (psz + sz) ns
           (kheap_merge (of_nat p) (of_nat (p + psz)) (clear_flag (p + psz) m))"
proof -
  have bs': "bs = (cs @ [Blk p psz False]) @ Blk (p + psz) sz True # bs2" using bs by simp
  note clr = freed_clear [OF inv bs']
  have p: "Blk p psz False \<in> set bs" and a: "Blk (p + psz) sz True \<in> set bs" using bs by simp_all
  have "24 \<le> psz" "24 \<le> sz" using tiles_bounds(3) [OF heap_invD(2) [OF inv]] p a by fastforce+
  moreover have "blk_ok (clear_flag (p + psz) m) (Blk p psz False)"
    using freed_blk_ok [OF inv clr p] by simp
  moreover have "p + psz \<le> b_addr b" if "b \<in> set bs" "b_alloc b" "p \<le> b_addr b" for b
    using tiles_disjoint [OF heap_invD(2) [OF inv] that(1) p] that
      tiles_bounds(3) [OF heap_invD(2) [OF inv] that(1)] by force
  then have "marked_free bs p (psz + sz) (clear_flag (p + psz) m)"
    using clr by (auto simp: freed_def marked_free_def)
  ultimately show ?thesis
    using clr by (intro freed_merge [OF inv p _ a, where x = False]) (auto simp: freed_def)
qed

theorem kfree_refines:
  assumes inv: "heap_inv kh bs ns m" and b: "Blk a sz True \<in> set bs"
    and guard: "a + 40 < unat (kheap_end kh)"
  obtains bs' ns' m' where "kfree kh (of_nat (a + 16)) m = (Inr (), m')"
    and "free_step a (bs, ns) (bs', ns')" and "heap_inv kh bs' ns' m'" and "others_kept bs a m m'"
    and "\<not> bit (m' (a + 4)) 0"
proof -
  obtain bs1 bs2 where bs: "bs = bs1 @ Blk a sz True # bs2" using split_list [OF b] by blast
  note run = kfree_run [OF inv bs guard] and clr = freed_clear [OF inv bs]
  have sz: "24 \<le> sz" using tiles_bounds(3) [OF heap_invD(2) [OF inv] b] by simp
  have tt: "tiles (unat (kheap_start kh)) bs1 a" "tiles (a + sz) bs2 (unat (kheap_end kh))"
    using heap_invD(2) [OF inv] bs by (simp_all add: tiles_split)
  show ?thesis
  proof (cases "prev_alloc bs1"; cases "next_alloc bs2")
    assume c: "prev_alloc bs1" "next_alloc bs2"
    have step: "free_step a (bs, ns) (bs1 @ Blk a sz False # bs2, of_nat (a + 8) # ns)"
      unfolding bs using c by (rule free_alone)
    note f = freed_insert [OF inv clr b _ _ subset_refl b]
    show ?thesis
      by (rule that [OF run step]; use freed_final [OF inv _ step f, of "[Blk a sz True]"] bs c sz in
          \<open>simp add: kfree_result_def Let_def del: of_nat_add\<close>)
  next
    assume c: "prev_alloc bs1" "\<not> next_alloc bs2"
    obtain nsz cs where bs2: "bs2 = Blk (a + sz) nsz False # cs" "24 \<le> nsz"
      by (rule next_free_shape [OF tt(2) c(2)])
    have cb: "Blk (a + sz) nsz False \<in> set bs" using bs bs2 by simp
    have step: "free_step a (bs, ns)
        (bs1 @ Blk a (sz + nsz) False # cs, of_nat (a + 8) # remove1 (of_nat (a + sz + 8)) ns)"
      unfolding bs bs2 using c(1) by (rule free_next)
    note f = freed_insert [OF inv freed_next [OF inv clr b _ b _ cb sz] b _ _ set_remove1_subset cb]
    show ?thesis
      by (rule that [OF run step];
          use freed_final [OF inv _ step f, of "[Blk a sz True, Blk (a + sz) nsz False]"] bs bs2 c sz in
            \<open>simp add: kfree_result_def Let_def del: of_nat_add\<close>)
  next
    assume c: "\<not> prev_alloc bs1" "next_alloc bs2"
    obtain p psz cs where bs1: "bs1 = cs @ [Blk p psz False]" "a = p + psz" "24 \<le> psz"
      by (rule prev_free_shape [OF tt(1) c(1)])
    have step: "free_step a (bs, ns) (cs @ Blk p (psz + sz) False # bs2, ns)"
      using free_prev [OF c(2), of a cs p psz sz ns] bs bs1 by simp
    note f = freed_prev [OF inv, of cs p psz sz bs2]
    show ?thesis
      by (rule that [OF run step];
          use freed_final [OF inv _ step f, of "[Blk p psz False, Blk a sz True]"] bs bs1 c sz in
            \<open>simp add: kfree_result_def Let_def del: of_nat_add\<close>)
  next
    assume c: "\<not> prev_alloc bs1" "\<not> next_alloc bs2"
    obtain nsz ds where bs2: "bs2 = Blk (a + sz) nsz False # ds" "24 \<le> nsz"
      by (rule next_free_shape [OF tt(2) c(2)])
    obtain p psz cs where bs1: "bs1 = cs @ [Blk p psz False]" "a = p + psz" "24 \<le> psz"
      by (rule prev_free_shape [OF tt(1) c(1)])
    have cb: "Blk p psz False \<in> set bs" "Blk (p + (psz + sz)) nsz False \<in> set bs"
      using bs bs1 bs2 by (simp_all add: add.assoc)
    have step: "free_step a (bs, ns)
        (cs @ Blk p (psz + sz + nsz) False # ds, remove1 (of_nat (p + (psz + sz) + 8)) ns)"
      using free_both [of a cs p psz sz "a + sz" nsz ds ns] bs bs1 bs2 by (simp add: add.assoc)
    note fp = freed_prev [OF inv, of cs p psz sz bs2]
    have f: "freed kh bs m p (psz + sz + nsz) (remove1 (of_nat (p + (psz + sz) + 8)) ns)
        (kheap_merge (of_nat p) (of_nat (p + (psz + sz))) (list_remove (of_nat (p + (psz + sz) + 8))
          (kheap_merge (of_nat p) (of_nat (p + psz)) (clear_flag (p + psz) m))))"
      using freed_next [OF inv fp cb(1) _ b _ cb(2)] bs bs1 sz by simp
    show ?thesis
      by (rule that [OF run step];
          use freed_final [OF inv _ step f, of "[Blk p psz False, Blk a sz True, Blk (a + sz) nsz False]"]
            bs bs1 bs2 c sz in \<open>simp add: kfree_result_def Let_def add.assoc del: of_nat_add\<close>)
  qed
qed

end
