(* ===== verification/Kheap_Props.thy ===== *)
theory Kheap_Props
  imports Kheap_Free Pmm_Props
begin

text \<open>
  The properties of the kernel heap: the initial heap, allocation and release on a well-formed
  heap, the runs of the allocator, and the requests and pointers that its checks mishandle.
\<close>

subsection \<open>Initialisation\<close>

text \<open>A word of the direct map whose frame the physical memory manager has not given out.\<close>

definition kernel_static :: "pmm \<Rightarrow> vaddr \<Rightarrow> bool" where
  "kernel_static p h \<longleftrightarrow>
     0xC0000000 \<le> unat h \<and> unat h + 8 \<le> 2 ^ 32 \<and> unat h mod 4 = 0
     \<and> \<not> frame_free p ((unat h - 0xC0000000) div 4096)
     \<and> \<not> frame_free p ((unat h + 4 - 0xC0000000) div 4096)"

lemma outside_frames:
  fixes d :: nat
  assumes al: "d mod 4 = 0" and d: "\<not> (f \<le> d div 4096 \<and> d div 4096 < f + n)"
    and d4: "\<not> (f \<le> (d + 4) div 4096 \<and> (d + 4) div 4096 < f + n)" and n: "0 < n"
  shows "d + 8 \<le> 4096 * f \<or> 4096 * (f + n) \<le> d"
proof (cases "d div 4096 < f")
  case True
  obtain e where e: "d = 4 * e" using al by (metis mod_0_imp_dvd dvdE)
  have "d < f * 4096" using True by (simp add: div_less_iff_less_mult)
  then have "(d + 4) div 4096 < f + n" using n by (simp add: div_less_iff_less_mult)
  then have "d + 4 < f * 4096" using d4 by (simp add: div_less_iff_less_mult not_le)
  then have "e + 1 < 1024 * f" using e by simp
  then show ?thesis using e by simp
next
  case False
  then have "f + n \<le> d div 4096" using d by simp
  then have "(f + n) * 4096 \<le> d" by (simp add: less_eq_div_iff_mult_less_eq)
  then show ?thesis by simp
qed

lemma kheap_format_inv:
  assumes r: "heap_range kh" and e: "unat (kheap_end kh) = unat (kheap_start kh) + sz"
    and sz: "24 \<le> sz" "sz mod 4 = 0"
  shows "heap_inv kh [Blk (unat (kheap_start kh)) sz False] [of_nat (unat (kheap_start kh) + 8)]
           (kheap_format kh (of_nat sz) m)"
proof -
  let ?a = "unat (kheap_start kh)" and ?h = "kheap_free_list kh"
  let ?b = "Blk ?a sz False" and ?x = "of_nat (unat (kheap_start kh) + 8) :: vaddr"
  let ?m1 = "m(?a := of_nat sz, ?a + 4 := 0, ?a + sz - 4 := of_nat sz)"
  have t: "tiles ?a [?b] (unat (kheap_end kh))" using e sz by simp
  have lt: "?a + sz < 2 ^ 32" using r e by (simp add: heap_range_def)
  have "kheap_end kh = of_nat (?a + sz)" using e by (rule unat_eqD)
  then have words: "kheap_start kh + 4 = of_nat (?a + 4)" "kheap_end kh - 4 = of_nat (?a + sz - 4)"
    "kheap_start kh + 8 = ?x"
    using sz by (simp_all add: of_nat_diff)
  have m1: "st (kheap_end kh - 4) (of_nat sz) (st (kheap_start kh + 4) 0 (st (kheap_start kh) (of_nat sz) m)) = ?m1"
  proof -
    have "st (kheap_start kh) (of_nat sz) m = m(?a := of_nat sz)" by (simp add: st_def)
    then show ?thesis
      unfolding words(1,2) using lt sz(1) by (simp add: st_of_nat del: of_nat_add of_nat_diff)
  qed
  have fresh: "node_fresh ?x ?h []"
    using heap_node_fresh [OF r t, of ?b "[]"] by simp
  have d0: "dll (list_init ?h ?m1) ?h []" by (rule dll_init)
  have m': "kheap_format kh (of_nat sz) m = list_insert_front ?h ?x (list_init ?h ?m1)"
    unfolding kheap_format_def Let_def set_hdr_size_def set_hdr_flags_def free_node_def m1
    using words(3) by (simp only:)
  have links: "kheap_format kh (of_nat sz) m k = ?m1 k" if k: "k < 2 ^ 32" "k \<notin> list_words kh [?b]" for k
  proof -
    have "of_nat k \<notin> node_words [?x, ?h]"
      by (rule heap_node_words [OF r t _ k(2,1)]) simp
    then have "ld (kheap_format kh (of_nat sz) m) (of_nat k) = ld (list_init ?h ?m1) (of_nat k)"
      unfolding m' by (intro dll_insert_front_frame [OF d0 fresh])
    also have "\<dots> = ld ?m1 (of_nat k)"
      using \<open>of_nat k \<notin> node_words [?x, ?h]\<close>
      by (simp add: list_init_def node_ops node_words_def del: fun_upd_apply)
    finally show ?thesis using k by (simp add: ld_of_nat)
  qed
  have "kheap_format kh (of_nat sz) m k = ?m1 k" if "k \<in> meta ?b" for k
    using that own_words_not_links [OF r t, of ?b k] lt sz by (intro links) (auto simp: meta_def)
  moreover have "blk_ok ?m1 ?b"
  proof -
    obtain s' where "sz = s' + 24" using sz(1) by (metis add.commute le_Suc_ex)
    then show ?thesis using lt by (simp add: blk_ok_def unat_of_nat_small del: of_nat_add)
  qed
  ultimately have "blk_ok (kheap_format kh (of_nat sz) m) ?b"
    using blk_ok_cong [of ?b "kheap_format kh (of_nat sz) m" ?m1] by blast
  moreover have "dll (kheap_format kh (of_nat sz) m) ?h [?x]"
    unfolding m' by (rule dll_insert_front [OF d0 fresh])
  ultimately show ?thesis
    using r t by (simp add: heap_inv_def heap_blocks_def)
qed

text \<open>
  \<open>kheap_init\<close> either fails with \<open>KERR_NOMEM\<close> and changes nothing, when no run of 256 free
  frames lies below 768 MiB, or takes such a run and leaves a well-formed heap whose only block
  is one free block of 1 MiB.
\<close>

theorem kheap_init_spec:
  assumes p: "pmm_inv p" and h: "kernel_static p (kheap_free_list kh)"
    and run: "kheap_init (p, kh, m) = (r, (p', kh', m'))"
  shows "case r of
      Inl e \<Rightarrow> e = KERR_NOMEM \<and> p' = p \<and> kh' = kh \<and> m' = m \<and> no_run p 0 (pmm_hi_frame p KERNEL_LOWMEM_LIMIT) 256
    | Inr _ \<Rightarrow> pmm_inv p' \<and> kheap_free_list kh' = kheap_free_list kh
        \<and> frames_taken p ((unat (kheap_start kh') - 0xC0000000) div 4096) 256 p'
        \<and> heap_inv kh' [Blk (unat (kheap_start kh')) 0x100000 False] [of_nat (unat (kheap_start kh') + 8)] m'"
proof -
  have spec: "case PMM_ALLOC_LOWMEM 256 p of
      (Inr addr, s') \<Rightarrow> alloc_post p (pmm_lo_frame 0) (pmm_hi_frame p KERNEL_LOWMEM_LIMIT) (unat (256::u32)) addr s'
    | (Inl e, s') \<Rightarrow> e = KERR_NOMEM \<and> s' = p
        \<and> no_run p (pmm_lo_frame 0) (pmm_hi_frame p KERNEL_LOWMEM_LIMIT) (unat (256::u32))"
    unfolding PMM_ALLOC_LOWMEM_def by (rule pmm_alloc_strict_spec [OF p]) simp
  have lo: "pmm_lo_frame 0 = 0" by (simp add: pmm_lo_frame_def)
  obtain q s where a: "PMM_ALLOC_LOWMEM 256 p = (q, s)" by fastforce
  show ?thesis
  proof (cases q)
    case (Inl e)
    then show ?thesis using spec run a lo by (auto simp: kheap_init_def)
  next
    case (Inr phys)
    then have "alloc_post p 0 (pmm_hi_frame p KERNEL_LOWMEM_LIMIT) 256 phys s"
      using spec a lo by simp
    then obtain f where f: "unat phys = 4096 * f" "f + 256 \<le> LOWMEM_FRAMES" "frames_taken p f 256 s" "pmm_inv s"
      using pmm_hi_frame_lowmem [of p] by (auto simp: alloc_post_def)
    let ?sz = "PMM_FRAME_SIZE * 256 :: size_t"
    have sz: "?sz = of_nat 0x100000" by (simp add: PMM_FRAME_SIZE_def)
    have res: "r = Inr ()" "p' = s" "kheap_start kh' = PHYS_TO_VIRT phys" "kheap_end kh' = PHYS_TO_VIRT phys + ?sz"
      "kheap_free_list kh' = kheap_free_list kh" "m' = kheap_format kh' (of_nat 0x100000) m"
      using run a Inr sz by (auto simp: kheap_init_def Let_def)
    have st: "unat (kheap_start kh') = 4096 * f + 0xC0000000"
      using f res(3) unat_PHYS_TO_VIRT [of phys] by (simp add: LOWMEM_FRAMES_def)
    then have en: "unat (kheap_end kh') = unat (kheap_start kh') + 0x100000"
      using res(3,4) sz f(2) by (simp add: unat_word_ariths LOWMEM_FRAMES_def)
    let ?h = "unat (kheap_free_list kh)"
    have "f \<le> k \<and> k < f + 256 \<longrightarrow> frame_free p k" for k using f(3) by (auto simp: frames_taken_def)
    then have out: "\<not> (f \<le> (?h - 0xC0000000) div 4096 \<and> (?h - 0xC0000000) div 4096 < f + 256)"
        "\<not> (f \<le> (?h + 4 - 0xC0000000) div 4096 \<and> (?h + 4 - 0xC0000000) div 4096 < f + 256)"
      and hb: "0xC0000000 \<le> ?h" "?h + 8 \<le> 2 ^ 32" "?h mod 4 = 0"
      using h unfolding kernel_static_def by blast+
    have "(?h - 0xC0000000) mod 4 = 0" using hb(3) by (rule mod4_diff) simp
    then have "?h - 0xC0000000 + 8 \<le> 4096 * f \<or> 4096 * (f + 256) \<le> ?h - 0xC0000000"
      using out hb(1) by (intro outside_frames) simp_all
    then have "?h + 8 \<le> 4096 * f + 0xC0000000 \<or> 4096 * f + 0xC0000000 + 0x100000 \<le> ?h"
      using hb(1) by auto
    moreover have "(4096 * f + 0xC0000000) mod 4 = 0"
      by (rule dvd_imp_mod_0, rule dvd_add, rule dvd_mult2) simp_all
    ultimately have "heap_range kh'"
      using st en f(2) res(5) hb(2) by (simp add: heap_range_def LOWMEM_FRAMES_def)
    then have inv: "heap_inv kh' [Blk (unat (kheap_start kh')) 0x100000 False]
        [of_nat (unat (kheap_start kh') + 8)] m'"
      unfolding res(6) by (rule kheap_format_inv [OF _ en]) simp_all
    have fr: "(unat (kheap_start kh') - 0xC0000000) div 4096 = f" using st by simp
    show ?thesis
      unfolding res(1) sum.case fr using inv f(3,4) res(2,5) by blast
  qed
qed

subsection \<open>Allocation\<close>

lemma unique_block:
  assumes inv: "heap_inv kh bs ns m" and b: "b \<in> set bs" "c \<in> set bs" "b_addr b = b_addr c"
  shows "b = c"
  using blk_node_inj [OF heap_invD(1,2) [OF inv] b(1,2)] b(3) by (simp add: blk_node_def)

lemma alloc_addr_ne:
  assumes inv: "heap_inv kh bs ns m" and free: "\<exists>b\<in>set bs. b_addr b = a \<and> \<not> b_alloc b"
    and c: "c \<in> set bs" "b_alloc c"
  shows "b_addr c \<noteq> a"
proof
  assume eq: "b_addr c = a"
  obtain b where b: "b \<in> set bs" "b_addr b = a" "\<not> b_alloc b" using free by blast
  have "b = c" by (rule unique_block [OF inv b(1) c(1)]) (simp add: b(2) eq)
  then show False using b(3) c(2) by simp
qed

lemma KERR_PTR_heap: "a + 16 < 0xFFFFF000 \<Longrightarrow> \<not> KERR_PTR_IS_ERR (of_nat (a + 16))"
  by (rule KERR_PTR_below) (simp add: unat_of_nat_small del: of_nat_add)

lemma alloc_step_alloc:
  assumes "alloc_step n a (bs, ns) (bs', ns')"
  obtains sz where "n \<le> sz" and "Blk a sz True \<in> set bs'"
    and "{b \<in> set bs'. b_alloc b} = insert (Blk a sz True) {b \<in> set bs. b_alloc b}"
    and "\<exists>b\<in>set bs. b_addr b = a \<and> \<not> b_alloc b"
  using assms
proof cases
  case (alloc_split sz bs1 bs2 ns1 ns2)
  then show ?thesis by (intro that [of n]) auto
next
  case (alloc_whole sz bs1 bs2 ns1 ns2)
  then show ?thesis by (intro that [of sz]) auto
qed

lemma kmalloc_cases:
  assumes inv: "heap_inv kh bs ns m" and sz: "0 < unat sz" "unat sz \<le> 0xFFFFFFE8"
  shows "\<exists>p m'. kmalloc kh sz m = Some (p, m') \<and>
     (if KERR_PTR_IS_ERR p
      then p = KERR_PTR KERR_NOMEM \<and> m' = m
           \<and> (\<forall>b\<in>set bs. \<not> b_alloc b \<longrightarrow> b_size b < blk_need (unat sz))
      else \<exists>a bs' ns'. p = of_nat (a + 16) \<and> heap_inv kh bs' ns' m'
           \<and> alloc_step (blk_need (unat sz)) a (bs, ns) (bs', ns')
           \<and> (\<forall>c\<in>set bs. b_alloc c \<longrightarrow> (\<forall>k\<in>payload c. m' k = m k)))"
proof (cases "\<exists>b\<in>set bs. \<not> b_alloc b \<and> blk_need (unat sz) \<le> b_size b")
  case True
  then obtain b where b: "b \<in> set bs" "\<not> b_alloc b" "blk_need (unat sz) \<le> b_size b" by blast
  obtain a bs' ns' m' where k: "kmalloc kh sz m = Some (of_nat (a + 16), m')"
    "alloc_step (blk_need (unat sz)) a (bs, ns) (bs', ns')" "heap_inv kh bs' ns' m'"
    "\<forall>c\<in>set bs. b_alloc c \<longrightarrow> (\<forall>k\<in>payload c. m' k = m k)"
    by (rule kmalloc_refines [OF inv sz b])
  obtain s where "Blk a s True \<in> set bs'" by (rule alloc_step_alloc [OF k(2)])
  from heap_addr_bound [OF heap_invD(1,2) [OF k(3)] this]
  have "\<not> KERR_PTR_IS_ERR (of_nat (a + 16))" by (intro KERR_PTR_heap) simp
  then show ?thesis using k by (simp del: of_nat_add) blast
next
  case False
  then show ?thesis
    using kmalloc_nomem [OF inv sz] KERR_PTR_is_err [of KERR_NOMEM] by (auto simp: not_le)
qed

text \<open>The bytes of a request in the block at \<open>a\<close>.\<close>

definition request_bytes :: "nat \<Rightarrow> size_t \<Rightarrow> nat set" where
  "request_bytes a sz = {a + 16 ..< a + 16 + unat sz}"

subsection \<open>Release\<close>

lemma free_step_alloc:
  assumes inv: "heap_inv kh bs ns m" and b: "Blk a sz True \<in> set bs"
    and step: "free_step a (bs, ns) (bs', ns')"
  shows "{c \<in> set bs'. b_alloc c} = {c \<in> set bs. b_alloc c} - {Blk a sz True}"
proof -
  have one: "c = Blk a sz True" if "c \<in> set bs" "b_addr c = a" for c
    using unique_block [OF inv that(1) b] that(2) by simp
  have other: "c \<noteq> Blk a sz True" if "bs = ds @ Blk a s True # es" "c \<in> set ds \<union> set es" for ds s es c
  proof -
    have "Blk a s True = Blk a sz True" using that(1) by (intro one) simp_all
    then show ?thesis using node_other(2) [of kh ds "Blk a s True" es c] heap_invD(1,2) [OF inv] that by metis
  qed
  have rest: "{c \<in> set bs. b_alloc c} - {Blk a sz True} = {c \<in> set ds \<union> set es. b_alloc c}"
    if bs: "bs = ds @ Blk a s True # es" for ds s es
  proof -
    have "Blk a s True = Blk a sz True" using bs by (intro one) simp_all
    then show ?thesis using other [OF bs] unfolding bs by auto
  qed
  from step show ?thesis
  proof cases
    case (free_alone bs1 bs2 s)
    show ?thesis unfolding rest [OF free_alone(1)] unfolding free_alone(2) by auto
  next
    case (free_next bs1 s c nsz bs2)
    show ?thesis unfolding rest [OF free_next(1)] unfolding free_next(2) by auto
  next
    case (free_prev bs2 bs1 p psz s)
    then have "bs = (bs1 @ [Blk p psz False]) @ Blk a s True # bs2" by simp
    note e = rest [OF this]
    show ?thesis unfolding e free_prev(2) by auto
  next
    case (free_both bs1 p psz s c nsz bs2)
    then have "bs = (bs1 @ [Blk p psz False]) @ Blk a s True # Blk c nsz False # bs2" by simp
    note e = rest [OF this]
    show ?thesis unfolding e free_both(2) by auto
  qed
qed

lemma kfree_block:
  assumes inv: "heap_inv kh bs ns m" and b: "Blk a sz True \<in> set bs"
    and guard: "a + 40 < unat (kheap_end kh)"
  shows "\<exists>bs' ns' m'. kfree kh (of_nat (a + 16)) m = (Inr (), m') \<and> heap_inv kh bs' ns' m'
     \<and> free_step a (bs, ns) (bs', ns')
     \<and> {c \<in> set bs'. b_alloc c} = {c \<in> set bs. b_alloc c} - {Blk a sz True}
     \<and> others_kept bs a m m'"
proof -
  obtain bs' ns' m' where k: "kfree kh (of_nat (a + 16)) m = (Inr (), m')"
    "free_step a (bs, ns) (bs', ns')" "heap_inv kh bs' ns' m'" "others_kept bs a m m'"
    by (rule kfree_refines [OF inv b guard])
  then show ?thesis using free_step_alloc [OF inv b k(2)] by blast
qed

text \<open>The pointers that the checks of \<open>kfree\<close> refuse, without any effect.\<close>

lemma kfree_rejects:
  assumes "ptr = 0 \<or> ptr < kheap_start kh + 16 \<or> kheap_end kh - 24 \<le> ptr \<or> ptr mod 4 \<noteq> 0
     \<or> \<not> bit (ld m (ptr - 12)) 0"
  shows "kfree kh ptr m = (Inl KERR_INVAL, m)"
proof -
  have "ptr - 16 + 4 = ptr - 12" by simp
  then show ?thesis
    using assms by (auto simp: kfree_def Let_def KHEAP_MIN_BLOCK_SIZE_def hdr_flags_def)
qed

text \<open>
  Freeing a pointer a second time is refused with \<open>KERR_INVAL\<close> and changes nothing, also when
  the block has been joined with its neighbours in between.
\<close>

theorem kfree_twice:
  assumes inv: "heap_inv kh bs ns m" and b: "Blk a sz True \<in> set bs"
    and guard: "a + 40 < unat (kheap_end kh)" and run: "kfree kh (of_nat (a + 16)) m = (r, m')"
  shows "kfree kh (of_nat (a + 16)) m' = (Inl KERR_INVAL, m')"
proof -
  have nb: "\<not> bit (m' (a + 4)) 0"
    by (rule kfree_refines [OF inv b guard]) (use run in auto)
  have "(of_nat (a + 16) :: vaddr) - 12 = of_nat (a + 4)" by simp
  moreover have "a + 4 < 2 ^ 32" using heap_addr_bound [OF heap_invD(1,2) [OF inv] b] by simp
  ultimately have "\<not> bit (ld m' (of_nat (a + 16) - 12)) 0" using nb by (simp add: ld_of_nat del: of_nat_add)
  then show ?thesis by (intro kfree_rejects) blast
qed

text \<open>
  C40. The last block of the heap, when it is no larger than 40 bytes, cannot be freed: its pointer
  fails the range check.
\<close>

theorem kfree_small_tail:
  assumes inv: "heap_inv kh (bs @ [Blk a sz True]) ns m" and sz: "sz \<le> 40"
  shows "kfree kh (of_nat (a + 16)) m = (Inl KERR_INVAL, m)"
proof -
  have b: "Blk a sz True \<in> set (bs @ [Blk a sz True])" by simp
  note t = heap_invD(2) [OF inv]
  note bnd = heap_addr_bound [OF heap_invD(1) [OF inv] t b]
  have e: "unat (kheap_end kh) = a + sz" using t by (simp add: tiles_append)
  have "unat (kheap_end kh - 24) = a + sz - 24" using e bnd by (simp add: unat_sub_nowrap)
  moreover have "unat (of_nat (a + 16) :: vaddr) = a + 16"
    using bnd by (simp add: unat_of_nat_small del: of_nat_add)
  ultimately have "kheap_end kh - 24 \<le> of_nat (a + 16)"
    using sz bnd by (simp add: word_le_nat_alt del: of_nat_add)
  then show ?thesis by (intro kfree_rejects) blast
qed

text \<open>
  A request within three bytes of \<open>2 ^ 32\<close> wraps around to a block with no payload at all, and
  the first block of the free list is handed out for it.
\<close>

theorem kmalloc_wraps:
  assumes inv: "heap_inv kh bs (x # ns) m" and sz: "0xFFFFFFFD \<le> unat sz"
  shows "\<exists>m'. kmalloc kh sz m = Some (x + 8, m') \<and> \<not> KERR_PTR_IS_ERR (x + 8)"
proof -
  have "unat sz = 0xFFFFFFFD \<or> unat sz = 0xFFFFFFFE \<or> unat sz = 0xFFFFFFFF"
    using sz unat32_lt [of sz] by linarith
  then have "sz = 0xFFFFFFFD \<or> sz = 0xFFFFFFFE \<or> sz = 0xFFFFFFFF"
    by (auto simp: word_unat_eq_iff)
  then have k: "kmalloc_block_size sz = 20" by (auto simp: kmalloc_block_size_def ALIGN_UP_def)
  have xs: "x \<in> set (x # ns)" by simp
  obtain bs1 a s bs2 where b: "bs = bs1 @ Blk a s False # bs2" "x = of_nat (a + 8)"
    "node_hdr x = of_nat a" "unat (hdr_size m (node_hdr x)) = s" "a + s < 2 ^ 32"
    by (rule free_list_block [OF inv xs])
  then have bin: "Blk a s False \<in> set bs" by simp
  note bnd = heap_addr_bound [OF heap_invD(1,2) [OF inv] bin]
  have fit: "(20 :: u32) \<le> hdr_size m (node_hdr x)" using b(4) bnd by (simp add: word_le_nat_alt)
  have nh: "x \<noteq> kheap_free_list kh" using heap_invD(6) [OF inv] by (auto simp: dll_def)
  have "sz \<noteq> 0" using sz by auto
  then have "\<exists>m'. kmalloc kh sz m = Some (node_hdr x + 16, m')"
    using kmalloc_search [OF inv] fit nh by (simp add: kmalloc_def Let_def k)
  moreover have "node_hdr x + 16 = x + 8" by (simp add: node_hdr_def)
  moreover have "x + 8 = of_nat (a + 16)" using b(2) by simp
  then have "\<not> KERR_PTR_IS_ERR (x + 8)" using KERR_PTR_heap [of a] bnd by (simp del: of_nat_add)
  ultimately show ?thesis by auto
qed

subsection \<open>Allocation followed by release\<close>

text \<open>Releasing a block just allocated gives the list of blocks back as it was.\<close>

lemma free_step_undo:
  assumes inv: "heap_inv kh bs ns m" and inv': "heap_inv kh bs' ns' m'"
    and al: "alloc_step n a (bs, ns) (bs', ns')" and fr: "free_step a (bs', ns') (bs'', ns'')"
  shows "bs'' = bs"
proof -
  have uniq: "ds = bs1 \<and> es = bs2 \<and> s = sz"
    if "bs' = bs1 @ Blk a sz True # bs2" "bs' = ds @ Blk a s True # es" for ds es bs1 bs2 s sz
  proof -
    have "Blk a s True \<in> set bs'" using that(2) by simp
    moreover have "Blk a sz True \<in> set bs'" using that(1) by simp
    ultimately have eq: "Blk a s True = Blk a sz True" by (rule unique_block [OF inv']) simp
    have "Blk a sz True \<notin> set bs1" "Blk a sz True \<notin> set bs2"
      using node_other(2) [of kh bs1 "Blk a sz True" bs2] heap_invD(1,2) [OF inv'] that(1) by auto
    from append_Cons_eq_iff [OF this, of ds es] show ?thesis using that eq by auto
  qed
  have shape: "bs'' = bs1 @ Blk a s False # bs2"
    if bs': "bs' = bs1 @ Blk a sz True # mid @ bs2" and p: "prev_alloc bs1"
      and mid: "mid = [] \<and> s = sz \<and> next_alloc bs2 \<or> (\<exists>r c. mid = [Blk c r False] \<and> s = sz + r)"
    for bs1 sz mid bs2 s
    using fr
  proof cases
    case (free_alone ds es t)
    with uniq [OF bs' free_alone(1)] mid show ?thesis by (auto simp: next_alloc_def)
  next
    case (free_next ds t c nsz es)
    with uniq [OF bs' free_next(1)] mid show ?thesis by (auto simp: next_alloc_def)
  next
    case (free_prev es ds q psz t)
    then have "bs' = (ds @ [Blk q psz False]) @ Blk a t True # es" by simp
    from uniq [OF bs' this] p show ?thesis by (auto simp: prev_alloc_def)
  next
    case (free_both ds q psz t c nsz es)
    then have "bs' = (ds @ [Blk q psz False]) @ Blk a t True # Blk c nsz False # es" by simp
    from uniq [OF bs' this] p show ?thesis by (auto simp: prev_alloc_def)
  qed
  from al show ?thesis
  proof cases
    case (alloc_split sz bs1 bs2 ns1 ns2)
    have "prev_alloc bs1"
      using heap_invD(3) [OF inv] alloc_split(1) by (simp add: coalesced_app)
    then show ?thesis
      using shape [of bs1 n "[Blk (a + n) (sz - n) False]" bs2 sz] alloc_split by simp
  next
    case (alloc_whole sz bs1 bs2 ns1 ns2)
    have "prev_alloc bs1" "next_alloc bs2"
      using heap_invD(3) [OF inv] alloc_whole(1) by (simp_all add: coalesced_app coalesced_Cons)
    then show ?thesis
      using shape [of bs1 sz "[]" bs2 sz] alloc_whole by simp
  qed
qed

text \<open>
  Releasing the pointer that \<open>kmalloc\<close> has just returned gives back exactly the blocks there
  were before, and no payload of another allocated block has changed.
\<close>

theorem kmalloc_kfree:
  assumes inv: "heap_inv kh bs ns m" and sz: "0 < unat sz" "unat sz \<le> 0xFFFFFFE8"
    and run: "kmalloc kh sz m = Some (p, m1)" and ok: "\<not> KERR_PTR_IS_ERR p"
    and guard: "unat p + 24 < unat (kheap_end kh)"
  shows "\<exists>ns' m2. kfree kh p m1 = (Inr (), m2) \<and> heap_inv kh bs ns' m2
     \<and> (\<forall>c\<in>set bs. b_alloc c \<longrightarrow> (\<forall>k\<in>payload c. m2 k = m k))"
proof -
  obtain a bs' ns' where k: "p = of_nat (a + 16)" "heap_inv kh bs' ns' m1"
    "alloc_step (blk_need (unat sz)) a (bs, ns) (bs', ns')"
    "\<forall>c\<in>set bs. b_alloc c \<longrightarrow> (\<forall>k\<in>payload c. m1 k = m k)"
    using kmalloc_cases [OF inv sz] run ok by auto
  obtain s where s: "Blk a s True \<in> set bs'"
    "{b \<in> set bs'. b_alloc b} = insert (Blk a s True) {b \<in> set bs. b_alloc b}"
    and old: "\<exists>b\<in>set bs. b_addr b = a \<and> \<not> b_alloc b"
    by (rule alloc_step_alloc [OF k(3)])
  have "unat p = a + 16"
    using k(1) heap_addr_bound [OF heap_invD(1,2) [OF k(2)] s(1)] by (simp add: unat_of_nat_small del: of_nat_add)
  then have "a + 40 < unat (kheap_end kh)" using guard by simp
  from kfree_refines [OF k(2) s(1) this]
  obtain bs'' ns'' m2 where f: "kfree kh p m1 = (Inr (), m2)" "free_step a (bs', ns') (bs'', ns'')"
    "heap_inv kh bs'' ns'' m2" "others_kept bs' a m1 m2"
    unfolding k(1) by metis
  have "m2 j = m j" if c: "c \<in> set bs" "b_alloc c" and j: "j \<in> payload c" for c j
  proof -
    have "b_addr c \<noteq> a" by (rule alloc_addr_ne [OF inv old c])
    moreover have "c \<in> set bs'" using s(2) c by blast
    ultimately have "m2 j = m1 j" using f(4) c(2) j by (simp add: others_kept_def)
    then show ?thesis using k(4) c j by simp
  qed
  then show ?thesis using f(1,3) free_step_undo [OF inv k(2,3) f(2)] by blast
qed

subsection \<open>The contract of the heap operations\<close>

text \<open>
  C2. On a well-formed heap \<open>kmalloc\<close> returns for every request that does not wrap around. It
  fails with \<open>KERR_NOMEM\<close>, changing nothing, exactly when no free block is large enough;
  otherwise it takes the first block of the free list that is, splitting it when the rest can
  hold a block, keeps the heap well-formed and writes to no payload of an allocated block.
\<close>

theorem kmalloc_correct:
  assumes "heap_inv kh bs ns m" and "0 < unat sz" and "unat sz \<le> 0xFFFFFFE8"
  shows "\<exists>p m'. kmalloc kh sz m = Some (p, m') \<and>
     (if KERR_PTR_IS_ERR p
      then p = KERR_PTR KERR_NOMEM \<and> m' = m
           \<and> (\<forall>b\<in>set bs. \<not> b_alloc b \<longrightarrow> b_size b < blk_need (unat sz))
      else \<exists>a bs' ns'. p = of_nat (a + 16) \<and> heap_inv kh bs' ns' m'
           \<and> alloc_step (blk_need (unat sz)) a (bs, ns) (bs', ns')
           \<and> (\<forall>c\<in>set bs. b_alloc c \<longrightarrow> (\<forall>k\<in>payload c. m' k = m k)))"
  using assms by (rule kmalloc_cases)

text \<open>
  C3. Freeing an allocated block whose pointer passes the range check succeeds, joins the block
  with its free neighbours, keeps the heap well-formed, removes exactly this block from the
  allocated ones and writes to no payload of the others.
\<close>

theorem kfree_correct:
  assumes "heap_inv kh bs ns m" and "Blk a sz True \<in> set bs" and "a + 40 < unat (kheap_end kh)"
  shows "\<exists>bs' ns' m'. kfree kh (of_nat (a + 16)) m = (Inr (), m') \<and> heap_inv kh bs' ns' m'
     \<and> free_step a (bs, ns) (bs', ns')
     \<and> {c \<in> set bs'. b_alloc c} = {c \<in> set bs. b_alloc c} - {Blk a sz True}
     \<and> others_kept bs a m m'"
  using assms by (rule kfree_block)

subsection \<open>Runs of the allocator\<close>

text \<open>
  The heaps that the kernel reaches: after initialisation, any sequence of requests that do not
  wrap around and of releases, each of a pointer that \<open>kmalloc\<close> has returned or of one that the
  checks refuse. \<open>live\<close> is the list of blocks handed out and not yet released, with their sizes.
\<close>

inductive heap_run :: "kheap \<Rightarrow> (vaddr \<times> size_t) list \<Rightarrow> mem \<Rightarrow> bool" for kh where
  run_init: "heap_range kh \<Longrightarrow> unat (kheap_end kh) = unat (kheap_start kh) + 0x100000 \<Longrightarrow>
     heap_run kh [] (kheap_format kh 0x100000 m)"
| run_malloc: "heap_run kh live m \<Longrightarrow> unat sz \<le> 0xFFFFFFE8 \<Longrightarrow> kmalloc kh sz m = Some (p, m') \<Longrightarrow>
     heap_run kh (if KERR_PTR_IS_ERR p then live else (p, sz) # live) m'"
| run_free: "heap_run kh live m \<Longrightarrow> (p, sz) \<in> set live \<Longrightarrow> kfree kh p m = (Inr (), m') \<Longrightarrow>
     heap_run kh (remove1 (p, sz) live) m'"
| run_refused: "heap_run kh live m \<Longrightarrow> kfree kh p m = (Inl e, m') \<Longrightarrow> heap_run kh live m'"

text \<open>The live pointers are those of the allocated blocks, one for each.\<close>

definition live_blocks :: "blk list \<Rightarrow> (vaddr \<times> size_t) list \<Rightarrow> bool" where
  "live_blocks bs live \<longleftrightarrow>
     distinct (map fst live)
     \<and> fst ` set live = (\<lambda>b. of_nat (b_addr b + 16)) ` {b \<in> set bs. b_alloc b}
     \<and> (\<forall>b\<in>set bs. \<forall>sz. b_alloc b \<and> (of_nat (b_addr b + 16), sz) \<in> set live
          \<longrightarrow> request_bytes (b_addr b) sz \<subseteq> payload b)"

lemma ptr_inj:
  assumes inv: "heap_inv kh bs ns m" and b: "b \<in> set bs"
    and inv': "heap_inv kh bs' ns' m'" and c: "c \<in> set bs'"
    and eq: "(of_nat (b_addr b + 16) :: vaddr) = of_nat (b_addr c + 16)"
  shows "b_addr b = b_addr c"
proof -
  have "b_addr b + 16 < 2 ^ 32" "b_addr c + 16 < 2 ^ 32"
    using heap_addr_bound [OF heap_invD(1,2) [OF inv] b] heap_addr_bound [OF heap_invD(1,2) [OF inv'] c]
    by simp_all
  from of_nat_eq_iff_small [OF this] show ?thesis using eq by (simp del: of_nat_add)
qed

lemma live_malloc:
  assumes inv: "heap_inv kh bs ns m" and live: "live_blocks bs live"
    and sz: "unat sz \<le> 0xFFFFFFE8" and run: "kmalloc kh sz m = Some (p, m')"
  shows "\<exists>bs' ns'. heap_inv kh bs' ns' m'
     \<and> live_blocks bs' (if KERR_PTR_IS_ERR p then live else (p, sz) # live)"
proof (cases "sz = 0")
  case True
  then show ?thesis
    using run inv live KERR_PTR_is_err [of KERR_INVAL] by (auto simp: kmalloc_def)
next
  case False
  then have pos: "0 < unat sz" by (simp add: unat_gt_0)
  show ?thesis
  proof (cases "KERR_PTR_IS_ERR p")
    case True
    then show ?thesis using kmalloc_cases [OF inv pos sz] run inv live by auto
  next
    case ok: False
    obtain a bs' ns' where k: "p = of_nat (a + 16)" "heap_inv kh bs' ns' m'"
      "alloc_step (blk_need (unat sz)) a (bs, ns) (bs', ns')"
      using kmalloc_cases [OF inv pos sz] run ok by auto
    obtain s where s: "blk_need (unat sz) \<le> s" "Blk a s True \<in> set bs'"
      "{b \<in> set bs'. b_alloc b} = insert (Blk a s True) {b \<in> set bs. b_alloc b}"
      and old: "\<exists>b\<in>set bs. b_addr b = a \<and> \<not> b_alloc b"
      by (rule alloc_step_alloc [OF k(3)])
    have ne: "p \<noteq> of_nat (b_addr c + 16)" if c: "c \<in> set bs" "b_alloc c" for c
      using ptr_inj [OF inv c(1) k(2) s(2)] alloc_addr_ne [OF inv old c] k(1) by (auto simp del: of_nat_add)
    then have "p \<notin> fst ` set live"
      using live by (auto simp: live_blocks_def simp del: of_nat_add)
    moreover have "fst ` set ((p, sz) # live) = (\<lambda>b. of_nat (b_addr b + 16)) ` {b \<in> set bs'. b_alloc b}"
      using live k(1) unfolding s(3) by (simp add: live_blocks_def del: of_nat_add)
    moreover have "request_bytes (b_addr b) sz' \<subseteq> payload b"
      if b: "b \<in> set bs'" "b_alloc b" "(of_nat (b_addr b + 16), sz') \<in> set ((p, sz) # live)" for b sz'
    proof (cases "b = Blk a s True")
      case True
      then have "sz' = sz"
        using b(3) k(1) \<open>p \<notin> fst ` set live\<close> by (force simp del: of_nat_add)
      then show ?thesis
        using True s(1) blk_need_props(3) [of "unat sz"] by (auto simp: request_bytes_def payload_def)
    next
      case False
      then have c: "b \<in> set bs" using b s(3) by blast
      then have "(of_nat (b_addr b + 16), sz') \<in> set live" using b(3) ne [OF c b(2)] by auto
      then show ?thesis using live c b(2) by (simp add: live_blocks_def)
    qed
    ultimately have "live_blocks bs' ((p, sz) # live)"
      using live by (simp add: live_blocks_def)
    then show ?thesis using k(2) ok by auto
  qed
qed

lemma remove1_keys:
  assumes d: "distinct (map fst xs)" and p: "(p, v) \<in> set xs"
  shows "fst ` set (remove1 (p, v) xs) = fst ` set xs - {p}" and "distinct (map fst (remove1 (p, v) xs))"
proof -
  have xs: "distinct xs" "inj_on fst (set xs)" using d by (simp_all add: distinct_map)
  then have "fst ` (set xs - {(p, v)}) = fst ` set xs - fst ` {(p, v)}"
    using p by (intro inj_on_image_set_diff) auto
  then show "fst ` set (remove1 (p, v) xs) = fst ` set xs - {p}" using xs(1) by (simp add: set_remove1_eq)
  show "distinct (map fst (remove1 (p, v) xs))"
    using xs inj_on_subset [OF xs(2) set_remove1_subset] by (simp add: distinct_map)
qed

lemma live_free:
  assumes inv: "heap_inv kh bs ns m" and live: "live_blocks bs live"
    and p: "(p, sz) \<in> set live" and run: "kfree kh p m = (Inr (), m')"
  shows "\<exists>bs' ns'. heap_inv kh bs' ns' m' \<and> live_blocks bs' (remove1 (p, sz) live)"
proof -
  have "p \<in> fst ` set live" using p by force
  then obtain b where b: "b \<in> set bs" "b_alloc b" "p = of_nat (b_addr b + 16)"
    using live by (auto simp: live_blocks_def simp del: of_nat_add)
  obtain a s where bs: "b = Blk a s True" using b(2) by (cases b) auto
  have bin: "Blk a s True \<in> set bs" using b(1) bs by simp
  note bnd = heap_addr_bound [OF heap_invD(1,2) [OF inv] bin]
  have up: "unat p = a + 16" using b(3) bs bnd by (simp add: unat_of_nat_small del: of_nat_add)
  have guard: "a + 40 < unat (kheap_end kh)"
  proof (rule ccontr)
    assume "\<not> a + 40 < unat (kheap_end kh)"
    moreover have "unat (kheap_end kh - 24) = unat (kheap_end kh) - 24"
      using tiles_bounds(2) [OF heap_invD(2) [OF inv] bin] bnd by (simp add: unat_sub_nowrap)
    ultimately have "kheap_end kh - 24 \<le> p" using up by (simp add: word_le_nat_alt)
    then show False using kfree_rejects [of p kh m] run by auto
  qed
  obtain bs' ns' where f: "heap_inv kh bs' ns' m'"
    "{c \<in> set bs'. b_alloc c} = {c \<in> set bs. b_alloc c} - {Blk a s True}"
    using kfree_block [OF inv bin guard] run b(3) bs by auto
  have d: "distinct (map fst live)" using live by (simp add: live_blocks_def)
  have ne: "of_nat (b_addr c + 16) \<noteq> p" if c: "c \<in> set bs" "c \<noteq> b" for c
    using ptr_inj [OF inv c(1) inv b(1)] unique_block [OF inv c(1) b(1)] c(2) b(3) by blast
  have "fst ` set (remove1 (p, sz) live) = fst ` set live - {p}" by (rule remove1_keys(1) [OF d p])
  also have "\<dots> = (\<lambda>b. of_nat (b_addr b + 16)) ` {b \<in> set bs. b_alloc b} - {p}"
    using live by (simp add: live_blocks_def del: of_nat_add)
  also have "\<dots> = (\<lambda>b. of_nat (b_addr b + 16)) ` {b \<in> set bs'. b_alloc b}"
    unfolding f(2) bs [symmetric] using ne b(3) by blast
  finally have "live_blocks bs' (remove1 (p, sz) live)"
    using live f(2) remove1_keys(2) [OF d p] unfolding live_blocks_def
    by (metis (no_types, lifting) DiffD1 mem_Collect_eq notin_set_remove1)
  then show ?thesis using f(1) by blast
qed

lemma kfree_error_same: "kfree kh p m = (Inl e, m') \<Longrightarrow> m' = m"
  by (auto simp: kfree_def Let_def split: if_splits)

lemma heap_run_inv:
  assumes "heap_run kh live m"
  shows "\<exists>bs ns. heap_inv kh bs ns m \<and> live_blocks bs live"
  using assms
proof induction
  case (run_init m)
  then show ?case
    using kheap_format_inv [OF run_init, of m] by (force simp: live_blocks_def)
next
  case (run_malloc live m sz p m')
  then show ?case using live_malloc by blast
next
  case (run_free live m p sz m')
  then show ?case using live_free by blast
next
  case (run_refused live m p e m')
  then show ?case using kfree_error_same by blast
qed

definition bytes_at :: "vaddr \<Rightarrow> size_t \<Rightarrow> nat set" where
  "bytes_at p sz = {unat p ..< unat p + unat sz}"

lemma live_block:
  assumes inv: "heap_inv kh bs ns m" and live: "live_blocks bs live" and x: "(x, s) \<in> set live"
  obtains b where "b \<in> set bs" and "bytes_at x s \<subseteq> payload b" and "unat x = b_addr b + 16"
proof -
  have "x \<in> fst ` set live" using x by force
  then obtain b where b: "b \<in> set bs" "b_alloc b" "x = of_nat (b_addr b + 16)"
    using live by (auto simp: live_blocks_def simp del: of_nat_add)
  have "unat x = b_addr b + 16"
    using b(3) heap_addr_bound [OF heap_invD(1,2) [OF inv] b(1)] by (simp add: unat_of_nat_small del: of_nat_add)
  then show ?thesis
    using live b x
    by (intro that [of b]) (auto simp: live_blocks_def bytes_at_def request_bytes_def simp del: of_nat_add)
qed

text \<open>
  C1. In every heap the kernel can reach, each live allocation is aligned, lies inside the heap
  with all the bytes that were asked for, and shares no byte with any other live allocation.
\<close>

theorem heap_run_disjoint:
  assumes run: "heap_run kh live m"
  shows "\<forall>(p, sz) \<in> set live.
     unat p mod 4 = 0 \<and> bytes_at p sz \<subseteq> {unat (kheap_start kh) ..< unat (kheap_end kh)}
     \<and> (\<forall>(q, sz') \<in> set live. q \<noteq> p \<longrightarrow> bytes_at p sz \<inter> bytes_at q sz' = {})"
proof (clarify, intro conjI)
  fix p sz assume p: "(p, sz) \<in> set live"
  obtain bs ns where inv: "heap_inv kh bs ns m" and live: "live_blocks bs live"
    using heap_run_inv [OF run] by blast
  obtain b where b: "b \<in> set bs" "bytes_at p sz \<subseteq> payload b" "unat p = b_addr b + 16"
    by (rule live_block [OF inv live p])
  note t = heap_invD(2) [OF inv]
  show "unat p mod 4 = 0"
    using b(3) tiles_bounds(5) [OF t b(1)] heap_invD(1) [OF inv] mod4_add [of "b_addr b" 16]
    by (simp add: heap_range_def)
  show "bytes_at p sz \<subseteq> {unat (kheap_start kh) ..< unat (kheap_end kh)}"
    using b tiles_bounds [OF t b(1)] by (force simp: payload_def)
  show "\<forall>(q, sz') \<in> set live. q \<noteq> p \<longrightarrow> bytes_at p sz \<inter> bytes_at q sz' = {}"
  proof clarify
    fix q sz' assume q: "(q, sz') \<in> set live" "q \<noteq> p"
    obtain c where c: "c \<in> set bs" "bytes_at q sz' \<subseteq> payload c" "unat q = b_addr c + 16"
      by (rule live_block [OF inv live q(1)])
    have "c \<noteq> b" using q(2) b(3) c(3) by (auto simp: word_unat_eq_iff)
    then have "payload b \<inter> payload c = {}"
      using tiles_disjoint [OF t b(1) c(1)] by (auto simp: payload_def)
    then show "bytes_at p sz \<inter> bytes_at q sz' = {}" using b(2) c(2) by blast
  qed
qed

subsection \<open>The heap dump\<close>

definition blk_line :: "blk \<Rightarrow> vaddr \<times> size_t \<times> bool" where
  "blk_line b = (of_nat (b_addr b), of_nat (b_size b), b_alloc b)"

definition count_blk :: "blk \<Rightarrow> kheap_totals \<Rightarrow> kheap_totals" where
  "count_blk b = kheap_count (b_alloc b) (of_nat (b_size b))"

lemma kheap_dump_blocks_spec:
  assumes "\<forall>b\<in>set bs. blk_ok m b" and "tiles a bs (unat (kheap_end kh))"
  shows "kheap_dump_blocks kh m (of_nat a) t out = Some (out @ map blk_line bs, fold count_blk bs t)"
  using assms
proof (induction bs arbitrary: a t out)
  case Nil
  then show ?case by (subst kheap_dump_blocks.simps) simp
next
  case (Cons b bs)
  have e: "b_addr b + b_size b \<le> unat (kheap_end kh)" "24 \<le> b_size b" "b_addr b = a"
    using tiles_bounds [OF Cons.prems(2), of b] Cons.prems(2) by auto
  then have lt: "b_addr b + b_size b < 2 ^ 32" using unat32_lt_pow [of "kheap_end kh"] by linarith
  then have "(of_nat a :: vaddr) < kheap_end kh"
    using e by (simp add: word_less_nat_alt unat_of_nat_small)
  moreover have "hdr_size m (of_nat a) = of_nat (b_size b)" "bit (hdr_flags m (of_nat a)) 0 \<longleftrightarrow> b_alloc b"
    using blk_ok_hdr(1,2) [of m b] Cons.prems(1) lt e by simp_all
  ultimately show ?case
    using Cons.IH [of "a + b_size b"] Cons.prems e
    by (subst kheap_dump_blocks.simps) (simp add: blk_line_def [abs_def] count_blk_def [abs_def] Let_def)
qed

lemma kheap_dump_free_spec:
  assumes "links m (zs @ [kheap_free_list kh])" and "kheap_free_list kh \<notin> set zs"
  shows "kheap_dump_free kh m (hd (zs @ [kheap_free_list kh])) out =
           Some (out @ map (\<lambda>x. (node_hdr x, hdr_size m (node_hdr x))) zs)"
  using assms
proof (induction zs arbitrary: out)
  case Nil
  then show ?case by (subst kheap_dump_free.simps) simp
next
  case (Cons z zs)
  have "links m (zs @ [kheap_free_list kh])" "node_next m z = hd (zs @ [kheap_free_list kh])"
    using Cons.prems(1) by (cases zs; simp)+
  then show ?case
    using Cons by (subst kheap_dump_free.simps) auto
qed

text \<open>
  On a well-formed heap \<open>kheap_dump\<close> ends, prints one line for every block in address order,
  with its size and state, the totals over all blocks, and the free list in its order.
\<close>

theorem kheap_dump_spec:
  assumes inv: "heap_inv kh bs ns m"
  shows "kheap_dump kh m = Some (map blk_line bs,
     fold count_blk bs \<lparr>total_blocks = 0, allocated_blocks = 0, free_blocks = 0, allocated_bytes = 0, free_bytes = 0\<rparr>,
     map (\<lambda>x. (node_hdr x, hdr_size m (node_hdr x))) ns)"
proof -
  have d: "dll m (kheap_free_list kh) ns" using heap_invD(6) [OF inv] .
  then have "links m (ns @ [kheap_free_list kh])" by (cases ns) (auto simp: dll_def)
  moreover have "node_next m (kheap_free_list kh) = hd (ns @ [kheap_free_list kh])"
    using dll_node_next(1) [of m _ "[]" ns] d by simp
  ultimately have "kheap_dump_free kh m (node_next m (kheap_free_list kh)) [] =
      Some (map (\<lambda>x. (node_hdr x, hdr_size m (node_hdr x))) ns)"
    using kheap_dump_free_spec [of m ns kh "[]"] d by (simp add: dll_def)
  moreover have "\<forall>b\<in>set bs. blk_ok m b" using heap_invD(5) [OF inv] by blast
  from kheap_dump_blocks_spec [OF this heap_invD(2) [OF inv]]
  have "kheap_dump_blocks kh m (kheap_start kh) t [] = Some (map blk_line bs, fold count_blk bs t)" for t
    by simp
  ultimately show ?thesis by (simp add: kheap_dump_def)
qed

subsection \<open>A sample heap\<close>

text \<open>A heap of 1 MiB at \<open>0xC0400000\<close> with the sentinel in the kernel image, for the witnesses.\<close>

definition kh_sample :: kheap where
  "kh_sample = \<lparr>kheap_free_list = 0xC0200000, kheap_start = 0xC0400000, kheap_end = 0xC0500000\<rparr>"

definition mem_sample :: mem where
  "mem_sample = kheap_format kh_sample 0x100000 (\<lambda>_. 0)"

lemma sample_range: "heap_range kh_sample" "unat (kheap_end kh_sample) = unat (kheap_start kh_sample) + 0x100000"
  by (simp_all add: heap_range_def kh_sample_def)

lemma sample_inv: "heap_inv kh_sample [Blk 0xC0400000 0x100000 False] [0xC0400008] mem_sample"
  using kheap_format_inv [OF sample_range, of "\<lambda>_. 0"] by (simp add: kh_sample_def mem_sample_def)

lemma sample_run: "heap_run kh_sample [] mem_sample"
  unfolding mem_sample_def by (rule run_init [OF sample_range])

text \<open>The heap after one allocation of 100 bytes.\<close>

lemma sample_malloc:
  obtains m where "kmalloc kh_sample 100 mem_sample = Some (0xC0400010, m)"
    and "heap_inv kh_sample [Blk 0xC0400000 120 True, Blk 0xC0400078 0xFFF88 False] [0xC0400080] m"
proof -
  have n: "blk_need (unat (100 :: size_t)) = 120" by (simp add: blk_need_def)
  obtain a bs' ns' m where k: "kmalloc kh_sample 100 mem_sample = Some (of_nat (a + 16), m)"
    "alloc_step (blk_need (unat (100 :: size_t))) a ([Blk 0xC0400000 0x100000 False], [0xC0400008]) (bs', ns')"
    "heap_inv kh_sample bs' ns' m"
    by (rule kmalloc_refines [OF sample_inv, of 100 "Blk 0xC0400000 0x100000 False"]) (simp_all add: blk_need_def)
  from k(2) have "a = 0xC0400000 \<and> bs' = [Blk 0xC0400000 120 True, Blk 0xC0400078 0xFFF88 False] \<and> ns' = [0xC0400080]"
    unfolding n by cases (auto simp: Cons_eq_append_conv)
  with k show ?thesis using that by simp
qed

lemma sample_run_two:
  obtains p q m where "heap_run kh_sample [(q, 50), (p, 100)] m" and "p \<noteq> q"
proof -
  obtain m1 where k1: "kmalloc kh_sample 100 mem_sample = Some (0xC0400010, m1)"
    and inv1: "heap_inv kh_sample [Blk 0xC0400000 120 True, Blk 0xC0400078 0xFFF88 False] [0xC0400080] m1"
    by (rule sample_malloc)
  obtain a bs' ns' m2 where k2: "kmalloc kh_sample 50 m1 = Some (of_nat (a + 16), m2)"
    "heap_inv kh_sample bs' ns' m2"
    "alloc_step (blk_need (unat (50 :: size_t))) a
       ([Blk 0xC0400000 120 True, Blk 0xC0400078 0xFFF88 False], [0xC0400080]) (bs', ns')"
    by (rule kmalloc_refines [OF inv1, of 50 "Blk 0xC0400078 0xFFF88 False"]) (simp_all add: blk_need_def)
  from k2(3) have a: "a = 0xC0400078" by cases (auto simp: Cons_eq_append_conv)
  have e: "\<not> KERR_PTR_IS_ERR 0xC0400010" "\<not> KERR_PTR_IS_ERR 0xC0400088"
    by (simp_all add: KERR_PTR_IS_ERR_def KERR_MAX_ERRNO_def)
  have "heap_run kh_sample [(0xC0400010, 100)] m1"
    using run_malloc [OF sample_run _ k1] e(1) by simp
  from run_malloc [OF this _ k2(1)] have "heap_run kh_sample [(0xC0400088, 50), (0xC0400010, 100)] m2"
    using e(2) a by simp
  then show ?thesis by (rule that) simp
qed

theorem heap_run_disjoint_witness:
  "\<exists>p q m. heap_run kh_sample [(q, 50), (p, 100)] m \<and> p \<noteq> q \<and> bytes_at p 100 \<inter> bytes_at q 50 = {}"
proof -
  obtain p q m where run: "heap_run kh_sample [(q, 50), (p, 100)] m" and ne: "p \<noteq> q"
    by (rule sample_run_two)
  show ?thesis using heap_run_disjoint [OF run] run ne by auto
qed

theorem kmalloc_correct_witness:
  "\<exists>p m'. kmalloc kh_sample 100 mem_sample = Some (p, m') \<and>
     (if KERR_PTR_IS_ERR p
      then p = KERR_PTR KERR_NOMEM \<and> m' = mem_sample
           \<and> (\<forall>b\<in>set [Blk 0xC0400000 0x100000 False]. \<not> b_alloc b \<longrightarrow> b_size b < blk_need (unat (100 :: size_t)))
      else \<exists>a bs' ns'. p = of_nat (a + 16) \<and> heap_inv kh_sample bs' ns' m'
           \<and> alloc_step (blk_need (unat (100 :: size_t))) a ([Blk 0xC0400000 0x100000 False], [0xC0400008]) (bs', ns')
           \<and> (\<forall>c\<in>set [Blk 0xC0400000 0x100000 False]. b_alloc c \<longrightarrow> (\<forall>k\<in>payload c. m' k = mem_sample k)))"
  by (rule kmalloc_correct [OF sample_inv]) simp_all

theorem kfree_correct_witness:
  "\<exists>m m' bs' ns'. kmalloc kh_sample 100 mem_sample = Some (0xC0400010, m)
     \<and> kfree kh_sample 0xC0400010 m = (Inr (), m') \<and> heap_inv kh_sample bs' ns' m'
     \<and> {c \<in> set bs'. b_alloc c} = {}"
proof -
  obtain m where k: "kmalloc kh_sample 100 mem_sample = Some (0xC0400010, m)"
    and inv: "heap_inv kh_sample [Blk 0xC0400000 120 True, Blk 0xC0400078 0xFFF88 False] [0xC0400080] m"
    by (rule sample_malloc)
  have "Blk 0xC0400000 120 True \<in> set [Blk 0xC0400000 120 True, Blk 0xC0400078 0xFFF88 False]" by simp
  from kfree_correct [OF inv this] obtain bs' ns' m' where
    "kfree kh_sample (of_nat (0xC0400000 + 16)) m = (Inr (), m')" "heap_inv kh_sample bs' ns' m'"
    "{c \<in> set bs'. b_alloc c} =
       {c \<in> set [Blk 0xC0400000 120 True, Blk 0xC0400078 0xFFF88 False]. b_alloc c} - {Blk 0xC0400000 120 True}"
    by (auto simp: kh_sample_def)
  moreover have "{c \<in> set [Blk 0xC0400000 120 True, Blk 0xC0400078 0xFFF88 False]. b_alloc c} - {Blk 0xC0400000 120 True} = {}"
    by auto
  ultimately show ?thesis using k by (intro exI [of _ m] exI [of _ m'] exI [of _ bs'] exI [of _ ns']) simp
qed

theorem kfree_twice_witness:
  "\<exists>m m'. kfree kh_sample 0xC0400010 m = (Inr (), m') \<and> kfree kh_sample 0xC0400010 m' = (Inl KERR_INVAL, m')"
proof -
  obtain m where inv: "heap_inv kh_sample [Blk 0xC0400000 120 True, Blk 0xC0400078 0xFFF88 False] [0xC0400080] m"
    by (rule sample_malloc)
  have b: "Blk 0xC0400000 120 True \<in> set [Blk 0xC0400000 120 True, Blk 0xC0400078 0xFFF88 False]" by simp
  have g: "0xC0400000 + 40 < unat (kheap_end kh_sample)" by (simp add: kh_sample_def)
  obtain m' where m': "kfree kh_sample (of_nat (0xC0400000 + 16)) m = (Inr (), m')"
    by (rule kfree_refines [OF inv b g])
  from kfree_twice [OF inv b g m'] m' show ?thesis by auto
qed

theorem kmalloc_kfree_witness:
  "\<exists>m ns' m2. kmalloc kh_sample 100 mem_sample = Some (0xC0400010, m)
     \<and> kfree kh_sample 0xC0400010 m = (Inr (), m2)
     \<and> heap_inv kh_sample [Blk 0xC0400000 0x100000 False] ns' m2"
proof -
  obtain m where k: "kmalloc kh_sample 100 mem_sample = Some (0xC0400010, m)" by (rule sample_malloc)
  have "\<not> KERR_PTR_IS_ERR 0xC0400010" by (simp add: KERR_PTR_IS_ERR_def KERR_MAX_ERRNO_def)
  from kmalloc_kfree [OF sample_inv _ _ k this] show ?thesis using k by (auto simp: kh_sample_def)
qed

theorem kmalloc_wraps_witness:
  "\<exists>m'. kmalloc kh_sample 0xFFFFFFFF mem_sample = Some (0xC0400010, m')"
  using kmalloc_wraps [OF sample_inv, where sz = "0xFFFFFFFF"] by auto

theorem kheap_dump_spec_witness:
  "\<exists>t. kheap_dump kh_sample mem_sample =
     Some ([(0xC0400000, 0x100000, False)], t, [(0xC0400000, hdr_size mem_sample 0xC0400000)])"
  using kheap_dump_spec [OF sample_inv] by (simp add: blk_line_def node_hdr_def)

text \<open>Two allocations that leave no free space, the second one of four bytes at the very end.\<close>

lemma sample_full:
  obtains m where "heap_inv kh_sample ([Blk 0xC0400000 0xFFFE8 True] @ [Blk 0xC04FFFE8 24 True]) [] m"
    and "heap_run kh_sample [(0xC04FFFF8, 4), (0xC0400010, 0xFFFD4)] m"
proof -
  obtain a1 bs1 ns1 m1 where k1: "kmalloc kh_sample 0xFFFD4 mem_sample = Some (of_nat (a1 + 16), m1)"
    "heap_inv kh_sample bs1 ns1 m1"
    "alloc_step (blk_need (unat (0xFFFD4 :: size_t))) a1 ([Blk 0xC0400000 0x100000 False], [0xC0400008]) (bs1, ns1)"
    by (rule kmalloc_refines [OF sample_inv, of "0xFFFD4" "Blk 0xC0400000 0x100000 False"]) (simp_all add: blk_need_def)
  have n1: "blk_need (unat (0xFFFD4 :: size_t)) = 0xFFFE8" by (simp add: blk_need_def)
  from k1(3) have r1: "a1 = 0xC0400000 \<and> bs1 = [Blk 0xC0400000 0xFFFE8 True, Blk 0xC04FFFE8 24 False] \<and> ns1 = [0xC04FFFF0]"
    unfolding n1 by cases (auto simp: Cons_eq_append_conv)
  then have inv1: "heap_inv kh_sample [Blk 0xC0400000 0xFFFE8 True, Blk 0xC04FFFE8 24 False] [0xC04FFFF0] m1"
    using k1(2) by simp
  obtain a2 bs2 ns2 m2 where k2: "kmalloc kh_sample 4 m1 = Some (of_nat (a2 + 16), m2)"
    "heap_inv kh_sample bs2 ns2 m2"
    "alloc_step (blk_need (unat (4 :: size_t))) a2
       ([Blk 0xC0400000 0xFFFE8 True, Blk 0xC04FFFE8 24 False], [0xC04FFFF0]) (bs2, ns2)"
    by (rule kmalloc_refines [OF inv1, of 4 "Blk 0xC04FFFE8 24 False"]) (simp_all add: blk_need_def)
  have n2: "blk_need (unat (4 :: size_t)) = 24" by (simp add: blk_need_def)
  from k2(3) have r2: "a2 = 0xC04FFFE8 \<and> bs2 = [Blk 0xC0400000 0xFFFE8 True, Blk 0xC04FFFE8 24 True] \<and> ns2 = []"
    unfolding n2 by cases (auto simp: Cons_eq_append_conv)
  have e: "\<not> KERR_PTR_IS_ERR 0xC0400010" "\<not> KERR_PTR_IS_ERR 0xC04FFFF8"
    by (simp_all add: KERR_PTR_IS_ERR_def KERR_MAX_ERRNO_def)
  have "heap_run kh_sample [(0xC0400010, 0xFFFD4)] m1"
    using run_malloc [OF sample_run _ k1(1)] e(1) r1 by simp
  from run_malloc [OF this _ k2(1)] have "heap_run kh_sample [(0xC04FFFF8, 4), (0xC0400010, 0xFFFD4)] m2"
    using e(2) r2 by simp
  then show ?thesis using that k2(2) r2 by simp
qed

theorem kfree_small_tail_witness:
  "\<exists>m. heap_run kh_sample [(0xC04FFFF8, 4), (0xC0400010, 0xFFFD4)] m
     \<and> kfree kh_sample 0xC04FFFF8 m = (Inl KERR_INVAL, m)"
proof -
  obtain m where m: "heap_inv kh_sample ([Blk 0xC0400000 0xFFFE8 True] @ [Blk 0xC04FFFE8 24 True]) [] m"
    "heap_run kh_sample [(0xC04FFFF8, 4), (0xC0400010, 0xFFFD4)] m"
    by (rule sample_full)
  from kfree_small_tail [OF m(1)] m(2) show ?thesis by auto
qed

theorem kheap_init_spec_witness:
  "\<exists>p' kh' m'. kheap_init (pmm_sample, kh_sample, \<lambda>_. 0) = (Inr (), (p', kh', m'))
     \<and> heap_inv kh' [Blk (unat (kheap_start kh')) 0x100000 False] [of_nat (unat (kheap_start kh') + 8)] m'"
proof -
  have st: "kernel_static pmm_sample (kheap_free_list kh_sample)"
    by (simp add: kernel_static_def kh_sample_def pmm_sample_def frame_free_def)
  obtain r p' kh' m' where run: "kheap_init (pmm_sample, kh_sample, \<lambda>_. 0) = (r, (p', kh', m'))"
    by (metis prod_cases3 prod.exhaust)
  note spec = kheap_init_spec [OF pmm_sample_inv st run]
  have "frames_free_run pmm_sample 0 256"
    by (simp add: frames_free_run_def pmm_sample_free)
  then have "\<not> no_run pmm_sample 0 (pmm_hi_frame pmm_sample KERNEL_LOWMEM_LIMIT) 256"
    by (auto simp: no_run_def pmm_hi_frame_def pmm_sample_def KERNEL_LOWMEM_LIMIT_def unat_pmm_addr_to_frame)
  then show ?thesis using spec run by (cases r) auto
qed

end
