(* ===== verification/X86_Paging.thy ===== *)
theory X86_Paging
  imports Pmm_Props
begin

text \<open>
  The two-level page tables of \<^verbatim>\<open>src/kernel/arch/x86/mm.c\<close>. Page directories and page tables
  are frames of low memory, reached through the direct map: entry \<open>i\<close> of the table in the frame
  at physical address \<open>p\<close> is the word at \<open>PHYS_TO_VIRT p + 4 * i\<close> of the store. A space is given
  by the physical address of its page directory; \<open>None\<close> is the NULL pointer. The state also
  records the TLB entries that were invalidated and the control register CR3.
\<close>

subsection \<open>Operations\<close>

record arch_vm_space =
  pd_phys :: paddr

record x86_mm =
  xm_pmm :: pmm
  xm_mem :: mem
  xm_invlpg :: "vaddr list"
  xm_cr3 :: u32

definition X86_PAGE_SIZE :: "'a::len word" where
  "X86_PAGE_SIZE = 4096"

definition X86_PDE_COUNT :: nat where
  "X86_PDE_COUNT = 1024"

definition X86_KERNEL_PDE_BASE :: nat where
  "X86_KERNEL_PDE_BASE = 768"

definition X86_PAGE_MASK :: u32 where
  "X86_PAGE_MASK = 0xFFFFF000"

definition X86_PDE_PRESENT :: u32 where "X86_PDE_PRESENT = BIT 0"
definition X86_PDE_WRITABLE :: u32 where "X86_PDE_WRITABLE = BIT 1"
definition X86_PDE_USER :: u32 where "X86_PDE_USER = BIT 2"
definition X86_PDE_PAGE_SIZE :: u32 where "X86_PDE_PAGE_SIZE = BIT 7"
definition X86_PTE_PRESENT :: u32 where "X86_PTE_PRESENT = BIT 0"
definition X86_PTE_WRITABLE :: u32 where "X86_PTE_WRITABLE = BIT 1"
definition X86_PTE_USER :: u32 where "X86_PTE_USER = BIT 2"

definition VM_READ :: u32 where "VM_READ = BIT 0"
definition VM_WRITE :: u32 where "VM_WRITE = BIT 1"
definition VM_EXEC :: u32 where "VM_EXEC = BIT 2"
definition VM_USER :: u32 where "VM_USER = BIT 3"
definition VM_GROWSDOWN :: u32 where "VM_GROWSDOWN = BIT 4"

definition arch_vm_page_size :: size_t where
  "arch_vm_page_size = X86_PAGE_SIZE"

definition x86_invlpg :: "vaddr \<Rightarrow> x86_mm \<Rightarrow> x86_mm" where
  "x86_invlpg va s = s\<lparr>xm_invlpg := va # xm_invlpg s\<rparr>"

definition x86_vm_flags_to_pte :: "u32 \<Rightarrow> u32" where
  "x86_vm_flags_to_pte flags =
     (let pte_flags = X86_PTE_PRESENT;
          pte_flags = (if MASK_TEST flags VM_WRITE then pte_flags OR X86_PTE_WRITABLE else pte_flags)
      in if MASK_TEST flags VM_USER then pte_flags OR X86_PTE_USER else pte_flags)"

definition x86_vm_flags_to_pde :: "u32 \<Rightarrow> u32" where
  "x86_vm_flags_to_pde flags =
     (let pde_flags = X86_PDE_PRESENT OR X86_PDE_WRITABLE
      in if MASK_TEST flags VM_USER then pde_flags OR X86_PDE_USER else pde_flags)"

text \<open>\<open>((uint32_t *)PHYS_TO_VIRT(p))[i]\<close>, read and written.\<close>

definition entry_ptr :: "paddr \<Rightarrow> u32 \<Rightarrow> vaddr" where
  "entry_ptr p i = PHYS_TO_VIRT p + 4 * i"

definition ld_entry :: "x86_mm \<Rightarrow> paddr \<Rightarrow> u32 \<Rightarrow> u32" where
  "ld_entry s p i = ld (xm_mem s) (entry_ptr p i)"

definition st_entry :: "paddr \<Rightarrow> u32 \<Rightarrow> u32 \<Rightarrow> x86_mm \<Rightarrow> x86_mm" where
  "st_entry p i v s = s\<lparr>xm_mem := st (entry_ptr p i) v (xm_mem s)\<rparr>"

text \<open>\<open>memset(PHYS_TO_VIRT(p), 0, X86_PAGE_SIZE)\<close>: the 1024 words of the frame are cleared.\<close>

definition clear_table :: "paddr \<Rightarrow> x86_mm \<Rightarrow> x86_mm" where
  "clear_table p s = fold (\<lambda>i. st_entry p (of_nat i) 0) [0..<1024] s"

definition vm_alloc_lowmem :: "(x86_mm, paddr) kfun" where
  "vm_alloc_lowmem = kzoom xm_pmm (\<lambda>p s. s\<lparr>xm_pmm := p\<rparr>) (PMM_ALLOC_LOWMEM 1)"

definition vm_pmm_free :: "paddr \<Rightarrow> (x86_mm, unit) kfun" where
  "vm_pmm_free a = kzoom xm_pmm (\<lambda>p s. s\<lparr>xm_pmm := p\<rparr>) (pmm_free a 1)"

text \<open>The result of \<open>arch_vm_space_init\<close> is the new contents of \<open>*vm\<close>.\<close>

definition arch_vm_space_init :: "bool \<Rightarrow> (x86_mm, arch_vm_space) kfun" where
  "arch_vm_space_init vm =
     (if \<not> vm then kfail KERR_INVAL
      else kerr_try vm_alloc_lowmem
        (\<lambda>pd s. kret \<lparr>pd_phys = pd\<rparr> (clear_table pd s)))"

definition arch_vm_kernel_prepare :: "arch_vm_space option \<Rightarrow> (x86_mm, unit) kfun" where
  "arch_vm_kernel_prepare vm =
     (case vm of None \<Rightarrow> kfail KERR_INVAL
      | Some vm \<Rightarrow>
          kerr_for [X86_KERNEL_PDE_BASE..<X86_PDE_COUNT]
            (\<lambda>i. kerr_try vm_alloc_lowmem
               (\<lambda>pt_phys s. kret ()
                  (st_entry (pd_phys vm) (of_nat i)
                     (ucast pt_phys OR X86_PDE_PRESENT OR X86_PDE_WRITABLE)
                     (clear_table pt_phys s)))))"

text \<open>The result of \<open>arch_vm_space_destroy\<close> is the new contents of \<open>*vm\<close>.\<close>

definition arch_vm_space_destroy :: "arch_vm_space option \<Rightarrow> (x86_mm, arch_vm_space) kfun" where
  "arch_vm_space_destroy vm =
     (case vm of None \<Rightarrow> kfail KERR_INVAL
      | Some vm \<Rightarrow>
          kerr_try
            (kerr_for [0..<X86_KERNEL_PDE_BASE]
               (\<lambda>i s. let pde = ld_entry s (pd_phys vm) (of_nat i)
                      in if \<not> MASK_TEST pde X86_PDE_PRESENT then kret () s
                         else if MASK_TEST pde X86_PDE_PAGE_SIZE then kret () s
                         else vm_pmm_free (ucast (pde AND X86_PAGE_MASK)) s))
            (\<lambda>_. kerr_try (vm_pmm_free (pd_phys vm)) (\<lambda>_. kret (vm\<lparr>pd_phys := 0\<rparr>))))"

definition arch_vm_space_attach_kernel ::
  "arch_vm_space option \<Rightarrow> arch_vm_space option \<Rightarrow> (x86_mm, unit) kfun" where
  "arch_vm_space_attach_kernel vm kernel_vm s =
     (case (vm, kernel_vm) of
        (Some vm, Some kvm) \<Rightarrow>
          kret () (fold (\<lambda>i s. st_entry (pd_phys vm) (of_nat i) (ld_entry s (pd_phys kvm) (of_nat i)) s)
                     [X86_KERNEL_PDE_BASE..<X86_PDE_COUNT] s)
      | _ \<Rightarrow> kfail KERR_INVAL s)"

text \<open>
  The offsets of the loop over the pages of a range. \<open>size\<close> is a multiple of the page size, so
  the offset does not wrap around.
\<close>

definition page_offsets :: "size_t \<Rightarrow> size_t list" where
  "page_offsets sz = map (\<lambda>i. of_nat (4096 * i)) [0..<unat sz div 4096]"

definition pde_index :: "vaddr \<Rightarrow> u32" where
  "pde_index va = drop_bit 22 va"

definition pte_index :: "vaddr \<Rightarrow> u32" where
  "pte_index va = drop_bit 12 va AND 0x3FF"

definition pte_table :: "u32 \<Rightarrow> paddr" where
  "pte_table pde = ucast (pde AND X86_PAGE_MASK)"

text \<open>The body of the loop of \<open>arch_vm_map\<close>.\<close>

definition x86_map_page :: "arch_vm_space \<Rightarrow> vaddr \<Rightarrow> paddr \<Rightarrow> u32 \<Rightarrow> (x86_mm, unit) kfun" where
  "x86_map_page vm va pa flags =
     kerr_try
       (\<lambda>s. let pde = ld_entry s (pd_phys vm) (pde_index va)
            in if \<not> MASK_TEST pde X86_PDE_PRESENT then
                 kerr_try vm_alloc_lowmem
                   (\<lambda>pt_phys s.
                      let s = clear_table pt_phys s;
                          s = st_entry (pd_phys vm) (pde_index va)
                                (ucast pt_phys OR x86_vm_flags_to_pde flags) s
                      in kret (ld_entry s (pd_phys vm) (pde_index va)) s) s
               else if MASK_TEST pde X86_PDE_PAGE_SIZE then kfail KERR_NOSUP s
               else kret pde s)
       (\<lambda>pde s.
          if MASK_TEST (ld_entry s (pte_table pde) (pte_index va)) X86_PTE_PRESENT
          then kfail KERR_EXISTS s
          else kret () (x86_invlpg va
                 (st_entry (pte_table pde) (pte_index va)
                    (ucast (pa AND ucast X86_PAGE_MASK) OR x86_vm_flags_to_pte flags) s)))"

definition arch_vm_map ::
  "arch_vm_space option \<Rightarrow> vaddr \<Rightarrow> paddr \<Rightarrow> size_t \<Rightarrow> u32 \<Rightarrow> (x86_mm, unit) kfun" where
  "arch_vm_map vm virt phys sz flags =
     (case vm of None \<Rightarrow> kfail KERR_INVAL
      | Some vm \<Rightarrow>
          if sz = 0 then kfail KERR_INVAL
          else if \<not> ALIGN_TEST virt X86_PAGE_SIZE \<or> \<not> ALIGN_TEST phys X86_PAGE_SIZE
                  \<or> \<not> ALIGN_TEST sz X86_PAGE_SIZE then kfail KERR_INVAL
          else kerr_for (page_offsets sz)
                 (\<lambda>off. x86_map_page vm (virt + off) (phys + ucast off) flags))"

text \<open>The present page-table entry of an address: its table and its value.\<close>

definition x86_walk :: "arch_vm_space \<Rightarrow> vaddr \<Rightarrow> (x86_mm, paddr \<times> u32) kfun" where
  "x86_walk vm va s =
     (let pde = ld_entry s (pd_phys vm) (pde_index va)
      in if \<not> MASK_TEST pde X86_PDE_PRESENT then kfail KERR_NOENT s
         else if MASK_TEST pde X86_PDE_PAGE_SIZE then kfail KERR_NOSUP s
         else let pte = ld_entry s (pte_table pde) (pte_index va)
              in if \<not> MASK_TEST pte X86_PTE_PRESENT then kfail KERR_NOENT s
                 else kret (pte_table pde, pte) s)"

definition x86_unmap_page :: "arch_vm_space \<Rightarrow> vaddr \<Rightarrow> (x86_mm, unit) kfun" where
  "x86_unmap_page vm va =
     kerr_try (x86_walk vm va)
       (\<lambda>(pt, pte) s. kret () (x86_invlpg va (st_entry pt (pte_index va) 0 s)))"

definition arch_vm_unmap :: "arch_vm_space option \<Rightarrow> vaddr \<Rightarrow> size_t \<Rightarrow> (x86_mm, unit) kfun" where
  "arch_vm_unmap vm virt sz =
     (case vm of None \<Rightarrow> kfail KERR_INVAL
      | Some vm \<Rightarrow>
          if sz = 0 then kfail KERR_INVAL
          else if \<not> ALIGN_TEST virt X86_PAGE_SIZE \<or> \<not> ALIGN_TEST sz X86_PAGE_SIZE then kfail KERR_INVAL
          else kerr_for (page_offsets sz) (\<lambda>off. x86_unmap_page vm (virt + off)))"

definition x86_protect_page :: "arch_vm_space \<Rightarrow> vaddr \<Rightarrow> u32 \<Rightarrow> (x86_mm, unit) kfun" where
  "x86_protect_page vm va flags =
     kerr_try (x86_walk vm va)
       (\<lambda>(pt, pte) s.
          let phys = ucast (pte AND X86_PAGE_MASK) :: paddr
          in kret () (x86_invlpg va
               (st_entry pt (pte_index va) (ucast phys OR x86_vm_flags_to_pte flags) s)))"

definition arch_vm_protect :: "arch_vm_space option \<Rightarrow> vaddr \<Rightarrow> size_t \<Rightarrow> u32 \<Rightarrow> (x86_mm, unit) kfun" where
  "arch_vm_protect vm virt sz flags =
     (case vm of None \<Rightarrow> kfail KERR_INVAL
      | Some vm \<Rightarrow>
          if sz = 0 then kfail KERR_INVAL
          else if \<not> ALIGN_TEST virt X86_PAGE_SIZE \<or> \<not> ALIGN_TEST sz X86_PAGE_SIZE then kfail KERR_INVAL
          else kerr_for (page_offsets sz) (\<lambda>off. x86_protect_page vm (virt + off) flags))"

definition arch_vm_space_load :: "arch_vm_space option \<Rightarrow> (x86_mm, unit) kfun" where
  "arch_vm_space_load vm s =
     (case vm of None \<Rightarrow> kfail KERR_INVAL s
      | Some vm \<Rightarrow> kret () (s\<lparr>xm_cr3 := ucast (pd_phys vm)\<rparr>))"

text \<open>\<open>out\<close> says whether the output pointer is not NULL.\<close>

definition arch_vm_translate :: "arch_vm_space option \<Rightarrow> vaddr \<Rightarrow> bool \<Rightarrow> (x86_mm, paddr) kfun" where
  "arch_vm_translate vm virt out =
     (case vm of None \<Rightarrow> kfail KERR_INVAL
      | Some vm \<Rightarrow>
          if \<not> out then kfail KERR_INVAL
          else kerr_try (x86_walk vm virt)
                 (\<lambda>(pt, pte). kret (ucast ((pte AND X86_PAGE_MASK) OR (virt AND (X86_PAGE_SIZE - 1))))))"

end
