(* ===== verification/X86_Paging_Inv.thy ===== *)
theory X86_Paging_Inv
  imports X86_Paging
begin

text \<open>
  Page tables as a map from page numbers to page-table entries: the words of the tables, the
  invariant of an address space, and the effect of mapping, unmapping and protecting one page.
\<close>

subsection \<open>Table words\<close>

text \<open>The word of entry \<open>i\<close> of the table in frame \<open>f\<close>.\<close>

definition slot :: "nat \<Rightarrow> nat \<Rightarrow> nat" where
  "slot f i = 0xC0000000 + 4096 * f + 4 * i"

lemma page_inj:
  assumes ij: "i < 1024" "j < (1024::nat)"
  shows "1024 * f + i = 1024 * g + j \<longleftrightarrow> f = g \<and> i = j"
proof
  assume e: "1024 * f + i = 1024 * g + j"
  then have "(1024 * f + i) div 1024 = (1024 * g + j) div 1024" by simp
  with ij have "f = g" by simp
  with e show "f = g \<and> i = j" by simp
qed simp

lemma slot_inj: "i < 1024 \<Longrightarrow> j < 1024 \<Longrightarrow> slot f i = slot g j \<longleftrightarrow> f = g \<and> i = j"
  using page_inj [of i j f g] by (auto simp: slot_def)

definition table_at :: "paddr \<Rightarrow> nat \<Rightarrow> bool" where
  "table_at p f \<longleftrightarrow> unat p = 4096 * f \<and> f < LOWMEM_FRAMES"

lemma unat_entry_ptr:
  assumes "table_at p f" and "unat i < 1024"
  shows "unat (entry_ptr p i) = slot f (unat i)"
proof -
  have p: "unat (PHYS_TO_VIRT p) = 4096 * f + 0xC0000000"
    using assms by (subst unat_PHYS_TO_VIRT) (auto simp: table_at_def LOWMEM_FRAMES_def)
  have i: "unat (4 * i) = 4 * unat i" using assms(2) by (simp add: unat_word_ariths)
  have "unat (PHYS_TO_VIRT p) + unat (4 * i) < 2 ^ 32"
    using p i assms by (simp add: table_at_def LOWMEM_FRAMES_def)
  then show ?thesis by (simp add: entry_ptr_def unat_add_nowrap p i slot_def)
qed

lemma ld_entry_slot: "table_at p f \<Longrightarrow> unat i < 1024 \<Longrightarrow> ld_entry s p i = xm_mem s (slot f (unat i))"
  by (simp add: ld_entry_def ld_def unat_entry_ptr)

lemma st_entry_slot:
  "table_at p f \<Longrightarrow> unat i < 1024 \<Longrightarrow> st_entry p i v s = s\<lparr>xm_mem := (xm_mem s)(slot f (unat i) := v)\<rparr>"
  by (simp add: st_entry_def st_def unat_entry_ptr)

lemma clear_table_slot:
  assumes "table_at p f"
  shows "clear_table p s = s\<lparr>xm_mem := (\<lambda>k. if \<exists>i<1024. k = slot f i then 0 else xm_mem s k)\<rparr>"
proof -
  have "fold (\<lambda>i. st_entry p (of_nat i) 0) [0..<n] s
      = s\<lparr>xm_mem := (\<lambda>k. if \<exists>i<n. k = slot f i then 0 else xm_mem s k)\<rparr>" if "n \<le> 1024" for n
    using that
  proof (induction n)
    case (Suc n)
    have "unat (of_nat n :: u32) = n" using Suc.prems by (simp add: unat_of_nat_small)
    then have "fold (\<lambda>i. st_entry p (of_nat i) 0) [0..<Suc n] s
        = s\<lparr>xm_mem := (\<lambda>k. if \<exists>i<n. k = slot f i then 0 else xm_mem s k)(slot f n := 0)\<rparr>"
      using Suc st_entry_slot [OF assms, of "of_nat n"] by simp
    moreover have "(\<lambda>k. if \<exists>i<n. k = slot f i then 0 else xm_mem s k)(slot f n := 0)
        = (\<lambda>k. if \<exists>i<Suc n. k = slot f i then 0 else xm_mem s k)"
      by (auto simp: fun_eq_iff less_Suc_eq)
    ultimately show ?case by metis
  qed simp
  then show ?thesis by (simp add: clear_table_def)
qed

subsection \<open>Entries\<close>

definition present :: "u32 \<Rightarrow> bool" where
  "present w \<longleftrightarrow> bit w 0"

definition large :: "u32 \<Rightarrow> bool" where
  "large w \<longleftrightarrow> bit w 7"

definition frame_of :: "u32 \<Rightarrow> nat" where
  "frame_of w = unat w div 4096"

definition is_table :: "u32 \<Rightarrow> bool" where
  "is_table w \<longleftrightarrow> present w \<and> \<not> large w"

lemma MASK_TEST_present [simp]:
  "MASK_TEST w X86_PDE_PRESENT \<longleftrightarrow> present w" "MASK_TEST w X86_PTE_PRESENT \<longleftrightarrow> present w"
  "MASK_TEST w X86_PDE_PAGE_SIZE \<longleftrightarrow> large w"
  by (simp_all add: X86_PDE_PRESENT_def X86_PTE_PRESENT_def X86_PDE_PAGE_SIZE_def present_def large_def
      MASK_TEST_BIT)

lemma unat_page_mask: "unat (w AND X86_PAGE_MASK) = 4096 * frame_of w"
proof -
  have "X86_PAGE_MASK = NOT (mask 12)" by (simp add: X86_PAGE_MASK_def mask_eq_exp_minus_1)
  then have "unat (w AND X86_PAGE_MASK) = unat w div 2 ^ 12 * 2 ^ 12" using unat_and_not_mask [of w 12] by metis
  then show ?thesis by (simp add: frame_of_def)
qed

lemma unat_drop_bit_word: "unat (drop_bit n (w :: 'a::len word)) = unat w div 2 ^ n"
proof -
  have "take_bit LENGTH('a) (unat w) = unat w"
    by (simp add: take_bit_nat_eq_self_iff)
  then show ?thesis by (subst unsigned_drop_bit_eq) (simp add: drop_bit_eq_div)
qed

lemma unat_pte_table: "unat (pte_table w) = 4096 * frame_of w"
  by (simp add: pte_table_def unat_page_mask)

lemma frame_of_or_small:
  assumes "unat b < 4096"
  shows "frame_of (a OR b) = frame_of a"
proof -
  have "drop_bit 12 b = 0"
    using assms by (simp only: word_unat_eq_iff unat_drop_bit_word) simp
  then have "drop_bit 12 (a OR b) = drop_bit 12 a" by (simp add: drop_bit_or)
  then have "unat (drop_bit 12 (a OR b)) = unat (drop_bit 12 a)" by simp
  then show ?thesis by (simp only: unat_drop_bit_word frame_of_def) simp
qed

lemma pde_flags: "unat (x86_vm_flags_to_pde flags) < 4096" "present (x86_vm_flags_to_pde flags)"
    "\<not> large (x86_vm_flags_to_pde flags)"
  by (simp_all add: x86_vm_flags_to_pde_def Let_def X86_PDE_PRESENT_def X86_PDE_WRITABLE_def X86_PDE_USER_def
      BIT_def present_def large_def)

lemma pte_flags: "unat (x86_vm_flags_to_pte flags) < 4096" "present (x86_vm_flags_to_pte flags)"
  by (simp_all add: x86_vm_flags_to_pte_def Let_def X86_PTE_PRESENT_def X86_PTE_WRITABLE_def X86_PTE_USER_def
      BIT_def present_def)

lemma present_or: "present (a OR b) \<longleftrightarrow> present a \<or> present b" "large (a OR b) \<longleftrightarrow> large a \<or> large b"
  by (simp_all add: present_def large_def bit_or_iff)

lemma unat_pde_index: "unat (pde_index va) = unat va div 4096 div 1024" "unat (pde_index va) < 1024"
proof -
  show eq: "unat (pde_index va) = unat va div 4096 div 1024"
    by (simp only: pde_index_def unat_drop_bit_word) (simp flip: div_mult2_eq)
  show "unat (pde_index va) < 1024" unfolding eq using unat32_lt [of va] by (simp del: unat32_lt)
qed

lemma unat_pte_index: "unat (pte_index va) = unat va div 4096 mod 1024"
proof -
  have "unat (drop_bit 12 va AND mask 10) = unat va div 4096 mod 1024"
    by (simp only: unat_drop_bit_word unsigned_take_bit_eq flip: take_bit_eq_mask) (simp add: take_bit_eq_mod)
  then show ?thesis by (simp add: pte_index_def mask_eq_exp_minus_1)
qed

subsection \<open>The address space as a map from pages to entries\<close>

definition pde :: "x86_mm \<Rightarrow> nat \<Rightarrow> nat \<Rightarrow> u32" where
  "pde s F i = xm_mem s (slot F i)"

text \<open>The present entry of page number \<open>v\<close> in the space whose directory is frame \<open>F\<close>.\<close>

definition lookup :: "x86_mm \<Rightarrow> nat \<Rightarrow> nat \<Rightarrow> u32 option" where
  "lookup s F v =
     (let d = pde s F (v div 1024); e = xm_mem s (slot (frame_of d) (v mod 1024))
      in if v < 0x100000 \<and> is_table d \<and> present e then Some e else None)"

definition large_at :: "x86_mm \<Rightarrow> nat \<Rightarrow> nat \<Rightarrow> bool" where
  "large_at s F v \<longleftrightarrow> present (pde s F (v div 1024)) \<and> large (pde s F (v div 1024))"

definition owned :: "x86_mm \<Rightarrow> nat \<Rightarrow> bool" where
  "owned s f \<longleftrightarrow> f < LOWMEM_FRAMES \<and> frame_managed (xm_pmm s) f \<and> \<not> frame_free (xm_pmm s) f"

definition vm_inv :: "x86_mm \<Rightarrow> nat \<Rightarrow> bool" where
  "vm_inv s F \<longleftrightarrow> pmm_inv (xm_pmm s) \<and> owned s F
     \<and> (\<forall>i<1024. is_table (pde s F i) \<longrightarrow> owned s (frame_of (pde s F i)) \<and> frame_of (pde s F i) \<noteq> F)
     \<and> (\<forall>i<1024. \<forall>j<1024. is_table (pde s F i) \<and> is_table (pde s F j)
          \<and> frame_of (pde s F i) = frame_of (pde s F j) \<longrightarrow> i = j)"

definition tables :: "nat set \<Rightarrow> x86_mm \<Rightarrow> nat \<Rightarrow> nat set" where
  "tables I s F = {frame_of (pde s F i) | i. i \<in> I \<and> i < 1024 \<and> is_table (pde s F i)}"

lemma tables_cong:
  assumes "\<And>k. k < 1024 \<Longrightarrow> k \<in> I \<Longrightarrow> pde s' F k = pde s F k"
  shows "tables I s' F = tables I s F"
  using assms unfolding tables_def by (metis (lifting))

text \<open>
  The frames that changing pages below the directory entries \<open>I\<close> may write: the directory, the
  tables of these entries and frames that were free. \<open>kept\<close> says that nothing else was written.
\<close>

definition reach :: "nat set \<Rightarrow> nat \<Rightarrow> x86_mm \<Rightarrow> nat set" where
  "reach I F s = {F} \<union> tables I s F \<union> {f. frame_free (xm_pmm s) f}"

definition entry_kept :: "bool \<Rightarrow> u32 \<Rightarrow> u32 \<Rightarrow> bool" where
  "entry_kept inside d d' \<longleftrightarrow> d' = d \<or> inside \<and> \<not> present d \<and> is_table d'"

definition kept :: "nat set \<Rightarrow> nat \<Rightarrow> x86_mm \<Rightarrow> x86_mm \<Rightarrow> bool" where
  "kept I F s s' \<longleftrightarrow> frame_managed (xm_pmm s') = frame_managed (xm_pmm s) \<and> xm_cr3 s' = xm_cr3 s
     \<and> reach I F s' = reach I F s \<and> {f. frame_free (xm_pmm s') f} \<subseteq> {f. frame_free (xm_pmm s) f}
     \<and> (\<forall>i<1024. entry_kept (i \<in> I) (pde s F i) (pde s' F i))
     \<and> (\<forall>k. (\<forall>f\<in>reach I F s. \<forall>i<1024. k \<noteq> slot f i) \<longrightarrow> xm_mem s' k = xm_mem s k)"

lemma entry_kept_refl [simp]: "entry_kept b d d"
  by (simp add: entry_kept_def)

lemma entry_kept_trans: "entry_kept b d d' \<Longrightarrow> entry_kept b d' d'' \<Longrightarrow> entry_kept b d d''"
  by (auto simp: entry_kept_def is_table_def)

lemma kept_refl: "kept I F s s"
  by (simp add: kept_def)

lemma kept_trans: "kept I F s t \<Longrightarrow> kept I F t u \<Longrightarrow> kept I F s u"
  unfolding kept_def by (intro conjI) (auto simp: subset_iff intro: entry_kept_trans)

lemma kept_large_at:
  assumes k: "kept I F s s'" and v: "v < 0x100000"
  shows "large_at s' F v = large_at s F v"
proof -
  have "v div 1024 < 1024" using v by simp
  then have "entry_kept (v div 1024 \<in> I) (pde s F (v div 1024)) (pde s' F (v div 1024))"
    using k unfolding kept_def by blast
  then show ?thesis by (auto simp: large_at_def entry_kept_def is_table_def)
qed

lemma owned_kept: "kept I F s s' \<Longrightarrow> owned s f \<Longrightarrow> owned s' f"
  by (auto simp: kept_def owned_def)

lemma vm_invD:
  assumes "vm_inv s F"
  shows "pmm_inv (xm_pmm s)" "owned s F"
    "i < 1024 \<Longrightarrow> is_table (pde s F i) \<Longrightarrow> owned s (frame_of (pde s F i))"
    "i < 1024 \<Longrightarrow> is_table (pde s F i) \<Longrightarrow> frame_of (pde s F i) \<noteq> F"
    "i < 1024 \<Longrightarrow> j < 1024 \<Longrightarrow> is_table (pde s F i) \<Longrightarrow> is_table (pde s F j) \<Longrightarrow>
       frame_of (pde s F i) = frame_of (pde s F j) \<Longrightarrow> i = j"
  using assms unfolding vm_inv_def by auto

lemma lookup_at:
  "i < 1024 \<Longrightarrow> j < 1024 \<Longrightarrow> lookup s F (1024 * i + j) =
     (if is_table (pde s F i) \<and> present (xm_mem s (slot (frame_of (pde s F i)) j))
      then Some (xm_mem s (slot (frame_of (pde s F i)) j)) else None)"
  by (simp add: lookup_def Let_def)

lemma lookup_above: "\<not> v < 0x100000 \<Longrightarrow> lookup s F v = None"
  by (simp add: lookup_def Let_def)

lemma page_split:
  assumes "v < 0x100000"
  obtains i j where "v = 1024 * i + j" and "(i::nat) < 1024" and "(j::nat) < 1024"
  by (rule that [of "v div 1024" "v mod 1024"]) (use assms in simp_all)

lemma lookup_eqI:
  assumes "\<And>i j. i < 1024 \<Longrightarrow> j < 1024 \<Longrightarrow> lookup s F (1024 * i + j) = m (1024 * i + j)"
    and "\<And>v. \<not> v < 0x100000 \<Longrightarrow> m v = None"
  shows "lookup s F = m"
proof
  fix v show "lookup s F v = m v"
    by (cases "v < 0x100000") (use assms lookup_above in \<open>auto elim: page_split\<close>)
qed

subsection \<open>Writing one page-table entry\<close>

definition set_slot :: "nat \<Rightarrow> nat \<Rightarrow> u32 \<Rightarrow> x86_mm \<Rightarrow> x86_mm" where
  "set_slot f j e s = s\<lparr>xm_mem := (xm_mem s)(slot f j := e)\<rparr>"

lemma set_slot_simps [simp]:
  "xm_pmm (set_slot f j e s) = xm_pmm s" "xm_cr3 (set_slot f j e s) = xm_cr3 s"
  "owned (set_slot f j e s) = owned s"
  by (simp_all add: set_slot_def owned_def fun_eq_iff)

lemma mem_set_slot:
  "i < 1024 \<Longrightarrow> j < 1024 \<Longrightarrow> xm_mem (set_slot f j e s) (slot g i) = (if g = f \<and> i = j then e else xm_mem s (slot g i))"
  by (simp add: set_slot_def slot_inj)

lemma xm_invlpg_irrelevant [simp]:
  "vm_inv (s\<lparr>xm_invlpg := l\<rparr>) F = vm_inv s F" "lookup (s\<lparr>xm_invlpg := l\<rparr>) F = lookup s F"
  "kept I F s0 (s\<lparr>xm_invlpg := l\<rparr>) = kept I F s0 s" "pde (s\<lparr>xm_invlpg := l\<rparr>) F = pde s F"
proof -
  show p: "pde (s\<lparr>xm_invlpg := l\<rparr>) F = pde s F" for F by (simp add: pde_def fun_eq_iff)
  have t: "tables I (s\<lparr>xm_invlpg := l\<rparr>) F = tables I s F" by (simp add: tables_def p)
  have o: "owned (s\<lparr>xm_invlpg := l\<rparr>) = owned s" by (simp add: owned_def fun_eq_iff)
  show "vm_inv (s\<lparr>xm_invlpg := l\<rparr>) F = vm_inv s F" by (simp add: vm_inv_def p o)
  show "lookup (s\<lparr>xm_invlpg := l\<rparr>) F = lookup s F" by (simp add: lookup_def p fun_eq_iff)
  show "kept I F s0 (s\<lparr>xm_invlpg := l\<rparr>) = kept I F s0 s" by (simp add: kept_def reach_def p t)
qed

lemma write_entry:
  assumes inv: "vm_inv s F" and ij: "i < 1024" "j < 1024" and tab: "is_table (pde s F i)" and I: "i \<in> I"
    and s': "s' = set_slot (frame_of (pde s F i)) j e s"
  shows "\<And>k. k < 1024 \<Longrightarrow> pde s' F k = pde s F k" and "vm_inv s' F"
    and "lookup s' F = (lookup s F)(1024 * i + j := if present e then Some e else None)"
    and "kept I F s s'"
proof -
  let ?t = "frame_of (pde s F i)"
  note D = vm_invD [OF inv]
  show p: "pde s' F k = pde s F k" if "k < 1024" for k
    using that D(4) [OF ij(1) tab] ij(2) by (simp add: pde_def s' mem_set_slot)
  show "vm_inv s' F" using inv by (simp add: vm_inv_def p s' cong: imp_cong conj_cong) (simp add: p flip: s')
  have m: "xm_mem s' (slot (frame_of (pde s F k)) l) = (if k = i \<and> l = j then e else xm_mem s (slot (frame_of (pde s F k)) l))"
    if "k < 1024" "l < 1024" "is_table (pde s F k)" for k l
    using that D(5) [OF that(1) ij(1) that(3) tab] ij(2) by (auto simp: s' mem_set_slot)
  show "lookup s' F = (lookup s F)(1024 * i + j := if present e then Some e else None)"
  proof (rule lookup_eqI, goal_cases)
    case (1 k l)
    then show ?case using tab ij by (auto simp: lookup_at p m page_inj)
  qed (use ij in \<open>auto simp: lookup_above\<close>)
  have t: "tables I s' F = tables I s F" by (rule tables_cong) (rule p)
  have "?t \<in> reach I F s" using tab I ij by (auto simp: reach_def tables_def)
  moreover have "reach I F s' = reach I F s" by (simp add: reach_def t) (simp add: s')
  ultimately show "kept I F s s'"
    using ij by (auto simp: kept_def p) (auto simp: s' set_slot_def)
qed

subsection \<open>Adding a page table\<close>

text \<open>
  A frame taken from the allocator is cleared and entered in the directory: the address space maps
  the same pages as before.
\<close>

lemma vm_alloc_lowmem_cases:
  assumes "pmm_inv (xm_pmm s)"
  shows "(\<exists>a f p. vm_alloc_lowmem s = (Inr a, s\<lparr>xm_pmm := p\<rparr>) \<and> table_at a f \<and> pmm_inv p
           \<and> frame_managed p = frame_managed (xm_pmm s) \<and> frame_free (xm_pmm s) f
           \<and> (\<forall>k. frame_free p k \<longleftrightarrow> frame_free (xm_pmm s) k \<and> k \<noteq> f))
       \<or> vm_alloc_lowmem s = (Inl KERR_NOMEM, s)"
proof (cases "PMM_ALLOC_LOWMEM 1 (xm_pmm s)")
  case (Pair r p)
  then show ?thesis
  proof (cases r)
    case (Inl e)
    with lowmem.alloc_Inl [OF assms] Pair show ?thesis by (auto simp: vm_alloc_lowmem_def kzoom_def)
  next
    case (Inr a)
    with lowmem.alloc_Inr [OF assms] Pair show ?thesis
      by (auto simp: vm_alloc_lowmem_def kzoom_def table_at_def)
  qed
qed

lemma vm_alloc_lowmem_succeeds:
  assumes inv: "pmm_inv (xm_pmm s)" and f: "frame_free (xm_pmm s) f" "f < LOWMEM_FRAMES"
  shows "\<exists>a t. vm_alloc_lowmem s = (Inr a, t)"
proof -
  have "unat (pmm_addr_to_frame KERNEL_LOWMEM_LIMIT) = LOWMEM_FRAMES"
    by (simp add: unat_pmm_addr_to_frame KERNEL_LOWMEM_LIMIT_def LOWMEM_FRAMES_def)
  then have "f + 1 \<le> pmm_hi_frame (xm_pmm s) KERNEL_LOWMEM_LIMIT"
    using f by (simp add: pmm_hi_frame_def KERNEL_LOWMEM_LIMIT_def frame_free_def)
  moreover have "frames_free_run (xm_pmm s) f 1" using f(1) by (auto simp: frames_free_run_def less_Suc_eq)
  ultimately have "\<not> no_run (xm_pmm s) 0 (pmm_hi_frame (xm_pmm s) KERNEL_LOWMEM_LIMIT) 1"
    by (auto simp: no_run_def)
  with pmm_alloc_strict_spec [OF inv, of 1 0 KERNEL_LOWMEM_LIMIT] show ?thesis
    by (auto simp: vm_alloc_lowmem_def kzoom_def PMM_ALLOC_LOWMEM_def split: prod.splits sum.splits)
qed

lemma unat_ucast_table_at: "table_at a f \<Longrightarrow> unat (ucast a :: u32) = 4096 * f"
  by (auto simp: unsigned_ucast_eq take_bit_nat_eq_self_iff table_at_def LOWMEM_FRAMES_def)

lemma table_at_frame_of: "table_at a f \<Longrightarrow> unat fl < 4096 \<Longrightarrow> frame_of (ucast a OR fl) = f"
  by (simp add: frame_of_or_small) (simp add: frame_of_def unat_ucast_table_at)

lemma table_at_not_large:
  assumes "table_at a f"
  shows "\<not> large (ucast a)"
proof -
  have "unat (ucast a :: u32) div 2 ^ 7 = 32 * f" by (simp add: unat_ucast_table_at [OF assms])
  then have "\<not> bit (unat (ucast a :: u32)) 7" by (simp only: bit_iff_odd) simp
  then show ?thesis by (simp add: large_def bit_unsigned_iff)
qed

lemma add_table:
  assumes inv: "vm_inv s F" and i: "i < 1024" "i \<in> I" and np: "\<not> present (pde s F i)"
    and p: "pmm_inv p" "frame_managed p = frame_managed (xm_pmm s)" "frame_free (xm_pmm s) f" "f < LOWMEM_FRAMES"
      "\<And>k. frame_free p k \<longleftrightarrow> frame_free (xm_pmm s) k \<and> k \<noteq> f"
    and d: "is_table d" "frame_of d = f"
    and mem: "\<And>g k. k < 1024 \<Longrightarrow> xm_mem s' (slot g k) =
      (if g = F \<and> k = i then d else if g = f then 0 else xm_mem s (slot g k))"
    and frame: "\<And>a. (\<And>k. k < 1024 \<Longrightarrow> a \<noteq> slot F k \<and> a \<noteq> slot f k) \<Longrightarrow> xm_mem s' a = xm_mem s a"
    and s': "xm_pmm s' = p" "xm_cr3 s' = xm_cr3 s"
  shows "vm_inv s' F" and "lookup s' F = lookup s F" and "kept I F s s'" and "pde s' F i = d"
proof -
  note D = vm_invD [OF inv]
  have man: "frame_managed (xm_pmm s) f" using p(3) by (simp add: frame_managed_def frame_free_def)
  have fF: "f \<noteq> F" using D(2) p(3) by (auto simp: owned_def)
  have ft: "frame_of (pde s F k) \<noteq> f" if "k < 1024" "is_table (pde s F k)" for k
    using D(3) [OF that] p(3) by (auto simp: owned_def)
  have own: "owned s' g \<longleftrightarrow> owned s g \<or> g = f" for g
    using p man by (auto simp: owned_def s')
  have pd: "pde s' F k = (if k = i then d else pde s F k)" if "k < 1024" for k
    using that fF by (simp add: pde_def mem)
  then show "pde s' F i = d" using i by simp
  have nt: "\<not> is_table (pde s F i)" using np by (simp add: is_table_def)
  show "vm_inv s' F"
    unfolding vm_inv_def using p(1) D fF nt d by (auto simp: s' own pd ft ft [THEN not_sym])
  have e: "xm_mem s' (slot (frame_of (pde s F k)) l) = xm_mem s (slot (frame_of (pde s F k)) l)"
    if "k < 1024" "l < 1024" "is_table (pde s F k)" for k l
    using that ft [of k] D(4) [of k] by (simp add: mem)
  have "xm_mem s' (slot f l) = 0" if "l < 1024" for l using that fF by (simp add: mem)
  then show "lookup s' F = lookup s F"
    using nt d by (intro lookup_eqI) (auto simp: lookup_at lookup_above pd e present_def)
  have "tables I s' F = insert f (tables I s F)"
  proof (intro set_eqI iffI)
    fix g assume "g \<in> tables I s' F"
    then show "g \<in> insert f (tables I s F)" using d by (auto simp: tables_def pd split: if_splits)
  next
    fix g assume "g \<in> insert f (tables I s F)"
    then consider "g = f" | k where "g = frame_of (pde s F k)" "k \<in> I" "k < 1024" "is_table (pde s F k)"
      by (auto simp: tables_def)
    then show "g \<in> tables I s' F"
    proof cases
      case 1 then show ?thesis using i d unfolding tables_def by (intro CollectI exI [of _ i]) (simp add: pd)
    next
      case 2 then show ?thesis using nt unfolding tables_def by (intro CollectI exI [of _ k]) (auto simp: pd)
    qed
  qed
  then have "reach I F s' = reach I F s" using p(3) by (auto simp: reach_def s' p(5))
  moreover have "F \<in> reach I F s" "f \<in> reach I F s" using p(3) by (auto simp: reach_def)
  ultimately show "kept I F s s'"
    unfolding kept_def using p(2,5) i frame np d by (auto simp: s' pd entry_kept_def)
qed

lemma add_new_table:
  assumes inv: "vm_inv s F" and pd: "table_at q F" and i: "unat i < 1024" "unat i \<in> I"
    and np: "\<not> present (pde s F (unat i))" and al: "vm_alloc_lowmem s = (Inr a, u)"
    and fl: "unat fl < 4096" "present fl" "\<not> large fl"
  defines "t \<equiv> st_entry q i (ucast a OR fl) (clear_table a u)"
  shows "vm_inv t F" and "lookup t F = lookup s F" and "kept I F s t" and "is_table (pde t F (unat i))"
proof -
  obtain f p where p: "u = s\<lparr>xm_pmm := p\<rparr>" "table_at a f" "pmm_inv p"
      "frame_managed p = frame_managed (xm_pmm s)" "frame_free (xm_pmm s) f"
      "\<And>k. frame_free p k \<longleftrightarrow> frame_free (xm_pmm s) k \<and> k \<noteq> f"
    using vm_alloc_lowmem_cases [OF vm_invD(1) [OF inv]] al by auto
  have fr: "frame_of (ucast a OR fl) = f" by (rule table_at_frame_of [OF p(2) fl(1)])
  have "\<not> large (ucast a OR fl)" using table_at_not_large [OF p(2)] fl(3) by (simp add: present_or)
  then have d: "is_table (ucast a OR fl)" using fl by (simp add: is_table_def present_or)
  have fF: "f \<noteq> F" using vm_invD(2) [OF inv] p(5) by (auto simp: owned_def)
  have t: "t = s\<lparr>xm_pmm := p, xm_mem := (\<lambda>k. if \<exists>i<1024. k = slot f i then 0 else xm_mem s k)(slot F (unat i) := ucast a OR fl)\<rparr>"
    using i by (simp add: t_def st_entry_slot [OF pd] clear_table_slot [OF p(2)] p(1) cong: if_cong)
  have mem: "xm_mem t (slot g k) = (if g = F \<and> k = unat i then ucast a OR fl else if g = f then 0 else xm_mem s (slot g k))"
    if "k < 1024" for g k
    using that i by (auto simp: t slot_inj)
  have frame: "xm_mem t a = xm_mem s a" if "\<And>k. k < 1024 \<Longrightarrow> a \<noteq> slot F k \<and> a \<noteq> slot f k" for a
    using that i by (auto simp: t)
  from add_table [OF inv i np p(3,4,5) _ p(6) d fr mem frame]
  show "vm_inv t F" and "lookup t F = lookup s F" and "kept I F s t" and "is_table (pde t F (unat i))"
    using p(2) d by (auto simp: t table_at_def)
qed

subsection \<open>One page\<close>

definition map_entry :: "paddr \<Rightarrow> u32 \<Rightarrow> u32" where
  "map_entry pa flags = ucast (pa AND ucast X86_PAGE_MASK) OR x86_vm_flags_to_pte flags"

lemma ucast_u64_back: "ucast (ucast (x :: u32) :: u64) = x"
  by transfer simp

lemma page_index:
  obtains i j where "unat (va :: vaddr) div 4096 = 1024 * i + j" "i < 1024" "j < 1024"
    "unat (pde_index va) = i" "unat (pte_index va) = j"
proof -
  have "unat va div 4096 = 1024 * (unat va div 4096 div 1024) + unat va div 4096 mod 1024" by simp
  from that [OF this unat_pde_index(2) [of va, unfolded unat_pde_index(1)] _ unat_pde_index(1) unat_pte_index]
  show ?thesis by simp
qed

lemma table_at_pte_table: "owned s (frame_of d) \<Longrightarrow> table_at (pte_table d) (frame_of d)"
  by (simp add: table_at_def owned_def unat_pte_table)

lemma vm_inv_table_at:
  "vm_inv s F \<Longrightarrow> i < 1024 \<Longrightarrow> is_table (pde s F i) \<Longrightarrow> table_at (pte_table (pde s F i)) (frame_of (pde s F i))"
  by (rule table_at_pte_table [OF vm_invD(3)])

lemma x86_walk_lookup:
  assumes inv: "vm_inv s F" and pd: "table_at (pd_phys vm) F"
  shows "x86_walk vm va s =
    (case lookup s F (unat va div 4096) of
       Some e \<Rightarrow> (Inr (pte_table (pde s F (unat (pde_index va))), e), s)
     | None \<Rightarrow> (Inl (if large_at s F (unat va div 4096) then KERR_NOSUP else KERR_NOENT), s))"
proof -
  obtain i j where v: "unat va div 4096 = 1024 * i + j" "i < 1024" "j < 1024"
      "unat (pde_index va) = i" "unat (pte_index va) = j" by (rule page_index)
  have "ld_entry s (pd_phys vm) (pde_index va) = pde s F i"
    using v by (simp add: ld_entry_slot [OF pd] pde_def)
  moreover have "ld_entry s (pte_table (pde s F i)) (pte_index va) = xm_mem s (slot (frame_of (pde s F i)) j)"
    if "is_table (pde s F i)"
    using v by (simp add: ld_entry_slot [OF vm_inv_table_at [OF inv v(2) that]])
  ultimately show ?thesis
    using v by (auto simp: x86_walk_def Let_def lookup_at large_at_def is_table_def)
qed

lemma write_entry_at:
  assumes inv: "vm_inv s F" and tab: "is_table (pde s F (unat (pde_index va)))"
    and I: "unat (pde_index va) \<in> I"
    and t_def: "t = st_entry (pte_table (pde s F (unat (pde_index va)))) (pte_index va) e s"
  shows "vm_inv t F" and "kept I F s t"
    and "lookup t F = (lookup s F)(unat va div 4096 := if present e then Some e else None)"
proof -
  obtain i j where v: "unat va div 4096 = 1024 * i + j" "i < 1024" "j < 1024"
      "unat (pde_index va) = i" "unat (pte_index va) = j" by (rule page_index)
  have "t = set_slot (frame_of (pde s F i)) j e s"
    using v tab vm_inv_table_at [OF inv v(2)] by (simp add: t_def st_entry_slot set_slot_def)
  from write_entry [OF inv v(2,3) _ _ this, of I] show "vm_inv t F" and "kept I F s t"
    and "lookup t F = (lookup s F)(unat va div 4096 := if present e then Some e else None)"
    using v tab I by auto
qed

lemma present_map_entry [simp]: "present (map_entry pa flags)"
  by (simp add: map_entry_def present_or pte_flags)

lemma lookup_is_table:
  assumes "lookup s F (unat va div 4096) = Some e"
  shows "is_table (pde s F (unat (pde_index va)))"
  using assms unat_pde_index(1) [of va] by (auto simp: lookup_def Let_def split: if_splits)

text \<open>The effect of the three operations on the page of an address, and their errors.\<close>

lemma x86_unmap_page_spec:
  assumes inv: "vm_inv s F" and pd: "table_at (pd_phys vm) F" and I: "unat (pde_index va) \<in> I"
    and r: "x86_unmap_page vm va s = (r, s')"
  shows "r = Inr () \<Longrightarrow> vm_inv s' F \<and> kept I F s s' \<and> lookup s F (unat va div 4096) \<noteq> None
           \<and> lookup s' F = (lookup s F)(unat va div 4096 := None)"
    and "r = Inl e \<Longrightarrow> s' = s \<and> lookup s F (unat va div 4096) = None
           \<and> e = (if large_at s F (unat va div 4096) then KERR_NOSUP else KERR_NOENT)"
proof -
  note w = x86_walk_lookup [OF inv pd, of va]
  show "r = Inl e \<Longrightarrow> s' = s \<and> lookup s F (unat va div 4096) = None
           \<and> e = (if large_at s F (unat va div 4096) then KERR_NOSUP else KERR_NOENT)"
    using r w by (auto simp: x86_unmap_page_def kerr_try_def split: option.splits)
  show "vm_inv s' F \<and> kept I F s s' \<and> lookup s F (unat va div 4096) \<noteq> None
           \<and> lookup s' F = (lookup s F)(unat va div 4096 := None)" if "r = Inr ()"
  proof (cases "lookup s F (unat va div 4096)")
    case None
    with that r w show ?thesis by (simp add: x86_unmap_page_def kerr_try_def)
  next
    case (Some e)
    note W = write_entry_at [OF inv lookup_is_table [OF Some] I refl, of 0]
    from Some r w W show ?thesis
      by (auto simp: x86_unmap_page_def kerr_try_def x86_invlpg_def present_def)
  qed
qed

lemma x86_protect_page_spec:
  assumes inv: "vm_inv s F" and pd: "table_at (pd_phys vm) F" and I: "unat (pde_index va) \<in> I"
    and r: "x86_protect_page vm va flags s = (r, s')"
  defines "new \<equiv> \<lambda>e. (e AND X86_PAGE_MASK) OR x86_vm_flags_to_pte flags"
  shows "r = Inr () \<Longrightarrow> vm_inv s' F \<and> kept I F s s' \<and> lookup s F (unat va div 4096) \<noteq> None
           \<and> lookup s' F = (lookup s F)(unat va div 4096 := map_option new (lookup s F (unat va div 4096)))"
    and "r = Inl e \<Longrightarrow> s' = s \<and> lookup s F (unat va div 4096) = None
           \<and> e = (if large_at s F (unat va div 4096) then KERR_NOSUP else KERR_NOENT)"
proof -
  note w = x86_walk_lookup [OF inv pd, of va]
  show "r = Inl e \<Longrightarrow> s' = s \<and> lookup s F (unat va div 4096) = None
           \<and> e = (if large_at s F (unat va div 4096) then KERR_NOSUP else KERR_NOENT)"
    using r w by (auto simp: x86_protect_page_def Let_def kerr_try_def split: option.splits)
  show "vm_inv s' F \<and> kept I F s s' \<and> lookup s F (unat va div 4096) \<noteq> None
           \<and> lookup s' F = (lookup s F)(unat va div 4096 := map_option new (lookup s F (unat va div 4096)))"
    if "r = Inr ()"
  proof (cases "lookup s F (unat va div 4096)")
    case None
    with that r w show ?thesis by (simp add: x86_protect_page_def kerr_try_def)
  next
    case (Some e)
    note W = write_entry_at [OF inv lookup_is_table [OF Some] I refl, of "new e"]
    have "present (new e)" by (simp add: new_def present_or pte_flags)
    moreover have "ucast (ucast (e AND X86_PAGE_MASK) :: paddr) = e AND X86_PAGE_MASK"
      by (rule ucast_u64_back)
    ultimately show ?thesis using Some r w W
      by (auto simp: x86_protect_page_def kerr_try_def x86_invlpg_def Let_def new_def)
  qed
qed

lemma map_entry_step:
  assumes inv: "vm_inv t F" and tab: "is_table (pde t F (unat (pde_index va)))"
    and I: "unat (pde_index va) \<in> I" and same: "lookup t F = lookup s F" "kept I F s t"
    and r: "(if MASK_TEST (ld_entry t (pte_table (pde t F (unat (pde_index va)))) (pte_index va)) X86_PTE_PRESENT
        then kfail KERR_EXISTS t
        else kret () (x86_invlpg va (st_entry (pte_table (pde t F (unat (pde_index va)))) (pte_index va) e t)))
      = (r, s')" and e: "present e"
  shows "if lookup s F (unat va div 4096) = None
    then r = Inr () \<and> vm_inv s' F \<and> kept I F s s' \<and> lookup s' F = (lookup s F)(unat va div 4096 \<mapsto> e)
    else r = Inl KERR_EXISTS \<and> s' = t"
proof -
  obtain i j where v: "unat va div 4096 = 1024 * i + j" "i < 1024" "j < 1024"
      "unat (pde_index va) = i" "unat (pte_index va) = j" by (rule page_index)
  have "ld_entry t (pte_table (pde t F i)) (pte_index va) = xm_mem t (slot (frame_of (pde t F i)) j)"
    using v tab by (simp add: ld_entry_slot [OF vm_inv_table_at [OF inv v(2)]])
  then have pr: "MASK_TEST (ld_entry t (pte_table (pde t F (unat (pde_index va)))) (pte_index va)) X86_PTE_PRESENT
      \<longleftrightarrow> lookup s F (unat va div 4096) \<noteq> None"
    using v tab by (simp add: lookup_at flip: same(1))
  note W = write_entry_at [OF inv tab I refl, of e]
  show ?thesis using r unfolding pr using W same(1) e kept_trans [OF same(2) W(2)]
    by (auto simp: x86_invlpg_def)
qed

lemma x86_map_page_spec:
  assumes inv: "vm_inv s F" and pd: "table_at (pd_phys vm) F" and I: "unat (pde_index va) \<in> I"
    and r: "x86_map_page vm va pa flags s = (r, s')"
  shows "r = Inr () \<Longrightarrow> vm_inv s' F \<and> kept I F s s' \<and> lookup s F (unat va div 4096) = None
           \<and> lookup s' F = (lookup s F)(unat va div 4096 \<mapsto> map_entry pa flags)"
    and "r = Inl e \<Longrightarrow> s' = s \<and> e = (if large_at s F (unat va div 4096) then KERR_NOSUP
           else if lookup s F (unat va div 4096) \<noteq> None then KERR_EXISTS else KERR_NOMEM)
           \<and> (e = KERR_NOMEM \<longrightarrow> \<not> present (pde s F (unat (pde_index va))))"
proof -
  define i where "i = unat (pde_index va)"
  define j where "j = unat (pte_index va)"
  have v: "unat va div 4096 = 1024 * i + j" "i < 1024" "j < 1024"
    by (rule page_index [of va]; simp add: i_def j_def)+
  have large: "large_at s F (unat va div 4096) \<longleftrightarrow> present (pde s F i) \<and> large (pde s F i)"
    using v by (simp add: large_at_def)
  have ldp: "ld_entry t (pd_phys vm) (pde_index va) = pde t F i" for t
    using v by (simp add: ld_entry_slot [OF pd] pde_def i_def)
  note body = x86_map_page_def [of vm va pa flags, folded map_entry_def]
  consider "large_at s F (unat va div 4096)" | "is_table (pde s F i)" | "\<not> present (pde s F i)"
    using large by (auto simp: is_table_def)
  then have "if large_at s F (unat va div 4096) then r = Inl KERR_NOSUP \<and> s' = s
      else if lookup s F (unat va div 4096) \<noteq> None then r = Inl KERR_EXISTS \<and> s' = s
      else r = Inl KERR_NOMEM \<and> s' = s \<and> \<not> present (pde s F i) \<or>
        r = Inr () \<and> vm_inv s' F \<and> kept I F s s' \<and> lookup s' F = (lookup s F)(unat va div 4096 \<mapsto> map_entry pa flags)"
  proof cases
    case 1
    then have "present (pde s F i)" "large (pde s F i)" using large by auto
    then have "r = Inl KERR_NOSUP" "s' = s" using r by (auto simp: body kerr_try_def ldp)
    with 1 show ?thesis by simp
  next
    case 2
    then have "\<not> large_at s F (unat va div 4096)" by (simp add: large is_table_def)
    with 2 r map_entry_step [OF inv 2 [unfolded i_def] I refl kept_refl _ present_map_entry [of pa flags],
          folded i_def, of r s'] show ?thesis
      by (simp add: body kerr_try_def ldp is_table_def split: if_splits)
  next
    case 3
    have np: "\<not> large_at s F (unat va div 4096)" "lookup s F (unat va div 4096) = None"
      using 3 large by simp (use 3 v in \<open>simp add: lookup_at is_table_def\<close>)
    show ?thesis
    proof (cases "vm_alloc_lowmem s")
      case (Pair q u)
      show ?thesis
      proof (cases q)
        case (Inl e)
        with Pair vm_alloc_lowmem_cases [OF vm_invD(1) [OF inv]] 3 r np show ?thesis
          by (auto simp: body kerr_try_def ldp)
      next
        case (Inr a)
        note t = add_new_table [OF inv pd v(2) [unfolded i_def] I 3 [unfolded i_def] Pair [unfolded Inr]
            pde_flags [of flags], folded i_def]
        from 3 r Pair Inr map_entry_step [OF t(1) t(4) [unfolded i_def] I t(2,3) _ present_map_entry [of pa flags],
            folded i_def, of r s'] np show ?thesis
          by (simp add: body kerr_try_def ldp Let_def)
      qed
    qed
  qed
  then show "r = Inr () \<Longrightarrow> vm_inv s' F \<and> kept I F s s' \<and> lookup s F (unat va div 4096) = None
           \<and> lookup s' F = (lookup s F)(unat va div 4096 \<mapsto> map_entry pa flags)"
    and "r = Inl e \<Longrightarrow> s' = s \<and> e = (if large_at s F (unat va div 4096) then KERR_NOSUP
           else if lookup s F (unat va div 4096) \<noteq> None then KERR_EXISTS else KERR_NOMEM)
           \<and> (e = KERR_NOMEM \<longrightarrow> \<not> present (pde s F (unat (pde_index va))))"
    by (auto simp: i_def split: if_splits)
qed

text \<open>Every page that is changed is invalidated in the TLB.\<close>

lemma invlpg_st_entry [simp]: "xm_invlpg (st_entry p i v s) = xm_invlpg s"
  by (simp add: st_entry_def)

lemma invlpg_clear_table [simp]: "xm_invlpg (clear_table p s) = xm_invlpg s"
  unfolding clear_table_def by (rule fold_inv [where P = "\<lambda>t. xm_invlpg t = xm_invlpg s"]) simp_all

lemma x86_walk_state: "x86_walk vm va s = (r, s') \<Longrightarrow> s' = s"
  by (simp add: x86_walk_def Let_def split: if_splits)

lemma vm_alloc_lowmem_log: "vm_alloc_lowmem s = (r, s') \<Longrightarrow> xm_invlpg s' = xm_invlpg s"
  by (auto simp: vm_alloc_lowmem_def kzoom_def split: prod.splits)

lemma page_op_log:
  "x86_map_page vm va pa flags s = (Inr (), s') \<Longrightarrow> xm_invlpg s' = va # xm_invlpg s"
  "x86_unmap_page vm va s = (Inr (), s') \<Longrightarrow> xm_invlpg s' = va # xm_invlpg s"
  "x86_protect_page vm va flags s = (Inr (), s') \<Longrightarrow> xm_invlpg s' = va # xm_invlpg s"
  by (auto simp: x86_map_page_def x86_unmap_page_def x86_protect_page_def kerr_try_eq_Inr x86_invlpg_def Let_def
      dest!: x86_walk_state vm_alloc_lowmem_log split: if_splits)

end
