(* ===== verification/X86_Sample.thy ===== *)
theory X86_Sample
  imports X86_Paging_Inv
begin

text \<open>A small machine with two address spaces, on which the witnesses of the paging claims are run.\<close>

subsection \<open>A sample machine\<close>

text \<open>
  A machine with 512 frames, of which the first 288 are taken: frame 0 is the kernel's page directory,
  frames 1 to 256 are its page tables for the kernel half, frame 257 is an empty directory.
\<close>

definition x86_sample :: x86_mm where
  "x86_sample = \<lparr>xm_pmm = \<lparr>pmm_bm = \<lparr>bm_data = (\<lambda>i. if i < 9 then - 1 else 0), bm_nbits = 512, bm_nelems = 16\<rparr>,
       pmm_max_addr = 0x200000, pmm_total_frames = 512, pmm_free_frames = 224\<rparr>,
     xm_mem = (\<lambda>k. if 0xC0000C00 \<le> k \<and> k < 0xC0001000
       then of_nat (4096 * ((k - 0xC0000000) div 4 - 767)) OR 3 else 0),
     xm_invlpg = [], xm_cr3 = 0\<rparr>"

definition kvm_sample :: arch_vm_space where
  "kvm_sample = \<lparr>pd_phys = 0\<rparr>"

definition vm_sample :: arch_vm_space where
  "vm_sample = \<lparr>pd_phys = 0x101000\<rparr>"

lemma sample_frame_free: "frame_free (xm_pmm x86_sample) k \<longleftrightarrow> 288 \<le> k \<and> k < 512"
proof -
  have "k div 32 < 9 \<longleftrightarrow> k < 288" by (simp add: div_less_iff_less_mult)
  moreover have "k < 512 \<Longrightarrow> k < 2 ^ 32" by simp
  ultimately show ?thesis by (auto simp: frame_free_def x86_sample_def bm_free_bit bit_minus_1_iff possible_bit_def)
qed

lemma sample_pmm_inv: "pmm_inv (xm_pmm x86_sample)"
proof -
  have "k < 512 \<and> bm_free (pmm_bm (xm_pmm x86_sample)) k \<longleftrightarrow> k \<in> {288..<512}" for k
    unfolding atLeastLessThan_iff sample_frame_free [symmetric] by (simp add: frame_free_def x86_sample_def)
  then have "{k. k < 512 \<and> bm_free (pmm_bm (xm_pmm x86_sample)) k} = {288..<512}" by blast
  then have "bm_zeros (pmm_bm (xm_pmm x86_sample)) 512 = 224" by (simp add: bm_zeros_def)
  moreover have "pmm_total_frames (xm_pmm x86_sample) = 512" "pmm_free_frames (xm_pmm x86_sample) = 224"
    "bm_nbits (pmm_bm (xm_pmm x86_sample)) = 512" by (simp_all add: x86_sample_def)
  ultimately show ?thesis by (simp add: pmm_inv_def)
qed

lemma sample_owned: "f < 288 \<Longrightarrow> owned x86_sample f"
  by (simp add: owned_def sample_frame_free LOWMEM_FRAMES_def) (simp add: frame_managed_def x86_sample_def)

lemma sample_pde_user: "i < 768 \<Longrightarrow> pde x86_sample 0 i = 0" and sample_pde_empty: "i < 1024 \<Longrightarrow> pde x86_sample 257 i = 0"
  by (simp_all add: pde_def x86_sample_def slot_def)

lemma sample_pde_kernel:
  assumes "768 \<le> i" and "i < 1024"
  shows "is_table (pde x86_sample 0 i)" and "frame_of (pde x86_sample 0 i) = i - 767"
proof -
  have d: "pde x86_sample 0 i = of_nat (4096 * (i - 767)) OR 3"
    using assms by (simp add: pde_def x86_sample_def slot_def del: of_nat_mult)
  have u: "unat (of_nat (4096 * (i - 767)) :: u32) = 4096 * (i - 767)"
    using assms by (intro unat_of_nat_small) simp
  show "frame_of (pde x86_sample 0 i) = i - 767" unfolding d by (subst frame_of_or_small) (simp_all add: frame_of_def u del: of_nat_mult)
  have "\<not> bit (unat (of_nat (4096 * (i - 767)) :: u32)) 7" unfolding u bit_iff_odd by simp
  then have "\<not> large (of_nat (4096 * (i - 767)))" by (simp add: large_def bit_unsigned_iff del: of_nat_mult)
  then show "is_table (pde x86_sample 0 i)"
    unfolding d by (simp add: is_table_def present_or del: of_nat_mult) (simp add: present_def large_def)
qed

lemma sample_kernel_inv: "vm_inv x86_sample 0"
proof -
  have tab: "is_table (pde x86_sample 0 i) \<longleftrightarrow> 768 \<le> i" if "i < 1024" for i
    using that sample_pde_user [of i] sample_pde_kernel(1) [of i] by (cases "i < 768") (auto simp: is_table_def present_def)
  show ?thesis
    unfolding vm_inv_def using sample_pmm_inv sample_owned by (auto simp: tab sample_pde_kernel(2))
qed

lemma sample_space_inv: "vm_inv x86_sample 257"
  unfolding vm_inv_def using sample_pmm_inv sample_owned by (auto simp: sample_pde_empty is_table_def present_def)

lemma sample_table_at: "table_at (pd_phys vm_sample) 257" "table_at (pd_phys kvm_sample) 0"
  by (simp_all add: table_at_def vm_sample_def kvm_sample_def LOWMEM_FRAMES_def)

lemma sample_tables: "tables I x86_sample 257 = {}" "tables I x86_sample 0 \<subseteq> {1..256}"
proof -
  show "tables I x86_sample 257 = {}" by (auto simp: tables_def sample_pde_empty is_table_def present_def)
  show "tables I x86_sample 0 \<subseteq> {1..256}"
  proof
    fix f assume "f \<in> tables I x86_sample 0"
    then obtain i where i: "f = frame_of (pde x86_sample 0 i)" "i < 1024" "is_table (pde x86_sample 0 i)"
      by (auto simp: tables_def)
    then have "768 \<le> i" using sample_pde_user [of i] by (cases "i < 768") (auto simp: is_table_def present_def)
    with i show "f \<in> {1..256}" by (auto simp: sample_pde_kernel)
  qed
qed

end
