(* ===== verification/X86_Paging_Props.thy ===== *)
theory X86_Paging_Props
  imports X86_Sample
begin

text \<open>
  Mapping, unmapping and protecting a range of pages: the loops over the pages as instances of one
  contract, and what they mean for address translation.
\<close>

subsection \<open>An operation on a range of pages\<close>

definition range_upd :: "nat \<Rightarrow> nat \<Rightarrow> (nat \<Rightarrow> 'e option \<Rightarrow> 'e option) \<Rightarrow> (nat \<Rightarrow> 'e option) \<Rightarrow> nat \<Rightarrow> 'e option" where
  "range_upd p0 m upd look v = (if p0 \<le> v \<and> v < p0 + m then upd (v - p0) (look v) else look v)"

lemma range_upd_0 [simp]: "range_upd p0 0 upd look = look"
  by (auto simp: range_upd_def fun_eq_iff)

lemma range_upd_Suc:
  "(range_upd p0 m upd look)(p0 + m := upd m (range_upd p0 m upd look (p0 + m))) = range_upd p0 (Suc m) upd look"
  by (auto simp: range_upd_def fun_eq_iff)

text \<open>
  The contract of the body of such a loop: it either updates the entry of its page and nothing else,
  recording the page in a log, or fails without effect.
\<close>

locale page_range =
  fixes inv :: "'s \<Rightarrow> bool" and look :: "'s \<Rightarrow> nat \<Rightarrow> 'e option"
    and op :: "nat \<Rightarrow> ('s, unit) kfun" and p0 n :: nat
    and upd :: "nat \<Rightarrow> 'e option \<Rightarrow> 'e option" and ok :: "'e option \<Rightarrow> bool"
    and same :: "'s \<Rightarrow> 's \<Rightarrow> bool" and log :: "'s \<Rightarrow> 'v list" and va :: "nat \<Rightarrow> 'v"
  assumes op_Inr: "i < n \<Longrightarrow> inv s \<Longrightarrow> op i s = (Inr (), s') \<Longrightarrow>
      inv s' \<and> same s s' \<and> ok (look s (p0 + i)) \<and> look s' = (look s)(p0 + i := upd i (look s (p0 + i)))
      \<and> log s' = va i # log s"
    and op_Inl: "i < n \<Longrightarrow> inv s \<Longrightarrow> op i s = (Inl e, s') \<Longrightarrow> s' = s"
    and same_refl: "same s s"
    and same_trans: "same s t \<Longrightarrow> same t u \<Longrightarrow> same s u"
begin

lemma run_from:
  assumes "k \<le> n" and "inv s" and "same s0 s" and "look s = range_upd p0 k upd (look s0)"
    and "\<forall>i<k. ok (look s0 (p0 + i))" and "log s = rev (map va [0..<k]) @ log s0"
    and "kerr_for [k..<n] op s = (r, s')"
  shows "\<exists>m\<le>n. inv s' \<and> same s0 s' \<and> look s' = range_upd p0 m upd (look s0)
     \<and> (\<forall>i<m. ok (look s0 (p0 + i))) \<and> log s' = rev (map va [0..<m]) @ log s0
     \<and> (r = Inr () \<longrightarrow> m = n) \<and> (\<forall>e. r = Inl e \<longrightarrow> m < n \<and> op m s' = (Inl e, s'))"
  using assms
proof (induction "n - k" arbitrary: k s)
  case 0
  then show ?case by (intro exI [of _ n]) auto
next
  case (Suc x)
  then have k: "k < n" by simp
  then have run: "kerr_try (op k) (\<lambda>_. kerr_for [Suc k..<n] op) s = (r, s')"
    using Suc.prems(7) by (simp add: upt_conv_Cons)
  obtain q t where q: "op k s = (q, t)" by (cases "op k s")
  show ?case
  proof (cases q)
    case (Inl e)
    then have "t = s" using op_Inl [OF k Suc.prems(2)] q by simp
    then have "r = Inl e" "s' = s" using run q Inl by (auto simp: kerr_try_def)
    then show ?thesis using Suc.prems k q Inl \<open>t = s\<close> by (intro exI [of _ k]) auto
  next
    case (Inr y)
    note o = op_Inr [OF k Suc.prems(2), of t]
    have at: "look s (p0 + k) = look s0 (p0 + k)" using Suc.prems(4) by (simp add: range_upd_def)
    have o': "inv t" "same s t" "ok (look s0 (p0 + k))" "log t = va k # log s"
        "look t = range_upd p0 (Suc k) upd (look s0)"
      using o q Inr at range_upd_Suc [of p0 k upd "look s0"] Suc.prems(4) by auto
    have "kerr_for [Suc k..<n] op t = (r, s')" using run q Inr by (simp add: kerr_try_def)
    with Suc.hyps(2) k show ?thesis
      by (intro Suc.hyps(1) [of "Suc k" t])
        (use o' Suc.prems same_trans in \<open>auto simp: less_Suc_eq\<close>)
  qed
qed

lemma run:
  assumes "inv s" and "kerr_for [0..<n] op s = (r, s')"
  shows "\<exists>m\<le>n. inv s' \<and> same s s' \<and> look s' = range_upd p0 m upd (look s)
     \<and> (\<forall>i<m. ok (look s (p0 + i))) \<and> log s' = rev (map va [0..<m]) @ log s
     \<and> (r = Inr () \<longrightarrow> m = n) \<and> (\<forall>e. r = Inl e \<longrightarrow> m < n \<and> op m s' = (Inl e, s'))"
  by (rule run_from [of 0 s]) (use assms same_refl in auto)

end

subsection \<open>The loops of the paging code\<close>

lemma kerr_for_map: "kerr_for (map f xs) body s = kerr_for xs (\<lambda>x. body (f x)) s"
  by (induction xs arbitrary: s) (auto simp: kerr_try_def split: prod.splits sum.splits)

definition page_va :: "vaddr \<Rightarrow> nat \<Rightarrow> vaddr" where
  "page_va virt i = virt + of_nat (4096 * i)"

text \<open>The pages \<open>0, \<dots>, n - 1\<close> from \<open>virt\<close> on lie below the directory entries \<open>I\<close>.\<close>

definition pages_ok :: "arch_vm_space \<Rightarrow> nat \<Rightarrow> vaddr \<Rightarrow> nat \<Rightarrow> nat set \<Rightarrow> bool" where
  "pages_ok vm F virt n I \<longleftrightarrow> table_at (pd_phys vm) F \<and> unat virt mod 4096 = 0 \<and> unat virt + 4096 * n \<le> 2 ^ 32
     \<and> (\<forall>i<n. (unat virt div 4096 + i) div 1024 \<in> I)"

lemma unat_page_va:
  assumes "pages_ok vm F virt n I" and "i < n"
  shows "unat (page_va virt i) = unat virt + 4096 * i"
    and "unat (page_va virt i) div 4096 = unat virt div 4096 + i" and "unat (pde_index (page_va virt i)) \<in> I"
proof -
  have b: "unat virt + 4096 * i < 2 ^ 32" using assms by (simp add: pages_ok_def)
  then have "unat (of_nat (4096 * i) :: u32) = 4096 * i" by (intro unat_of_nat_small) simp
  then show u: "unat (page_va virt i) = unat virt + 4096 * i"
    using b unfolding page_va_def by (subst unat_add_nowrap) simp_all
  then show v: "unat (page_va virt i) div 4096 = unat virt div 4096 + i" by simp
  show "unat (pde_index (page_va virt i)) \<in> I"
    using assms unfolding unat_pde_index(1) v by (simp add: pages_ok_def)
qed

interpretation map_range: page_range "\<lambda>s. vm_inv s F \<and> pages_ok vm F virt n I" "\<lambda>s. lookup s F"
    "\<lambda>i. x86_map_page vm (page_va virt i) (phys + ucast (of_nat (4096 * i) :: u32)) flags"
    "unat virt div 4096" n "\<lambda>i _. Some (map_entry (phys + ucast (of_nat (4096 * i) :: u32)) flags)"
    "\<lambda>e. e = None" "kept I F" xm_invlpg "page_va virt"
  for vm F virt n I phys flags
proof (unfold_locales, goal_cases)
  case (1 i s s')
  then have p: "pages_ok vm F virt n I" and inv: "vm_inv s F" "table_at (pd_phys vm) F"
    by (auto simp: pages_ok_def)
  note u = unat_page_va [OF p 1(1)]
  show ?case using x86_map_page_spec(1) [OF inv u(3) 1(3) refl] page_op_log(1) [OF 1(3)] p by (simp add: u(2))
next
  case (2 i s e s')
  then have p: "pages_ok vm F virt n I" and inv: "vm_inv s F" "table_at (pd_phys vm) F"
    by (auto simp: pages_ok_def)
  show ?case using x86_map_page_spec(2) [OF inv unat_page_va(3) [OF p 2(1)] 2(3) refl] by simp
qed (auto intro: kept_refl kept_trans)

interpretation unmap_range: page_range "\<lambda>s. vm_inv s F \<and> pages_ok vm F virt n I" "\<lambda>s. lookup s F"
    "\<lambda>i. x86_unmap_page vm (page_va virt i)" "unat virt div 4096" n "\<lambda>i _. None"
    "\<lambda>e. e \<noteq> None" "kept I F" xm_invlpg "page_va virt"
  for vm F virt n I
proof (unfold_locales, goal_cases)
  case (1 i s s')
  then have p: "pages_ok vm F virt n I" and inv: "vm_inv s F" "table_at (pd_phys vm) F"
    by (auto simp: pages_ok_def)
  note u = unat_page_va [OF p 1(1)]
  show ?case using x86_unmap_page_spec(1) [OF inv u(3) 1(3) refl] page_op_log(2) [OF 1(3)] p by (simp add: u(2))
next
  case (2 i s e s')
  then have p: "pages_ok vm F virt n I" and inv: "vm_inv s F" "table_at (pd_phys vm) F"
    by (auto simp: pages_ok_def)
  show ?case using x86_unmap_page_spec(2) [OF inv unat_page_va(3) [OF p 2(1)] 2(3) refl] by simp
qed (auto intro: kept_refl kept_trans)

definition protect_entry :: "u32 \<Rightarrow> u32 \<Rightarrow> u32" where
  "protect_entry flags e = (e AND X86_PAGE_MASK) OR x86_vm_flags_to_pte flags"

interpretation protect_range: page_range "\<lambda>s. vm_inv s F \<and> pages_ok vm F virt n I" "\<lambda>s. lookup s F"
    "\<lambda>i. x86_protect_page vm (page_va virt i) flags" "unat virt div 4096" n "\<lambda>i. map_option (protect_entry flags)"
    "\<lambda>e. e \<noteq> None" "kept I F" xm_invlpg "page_va virt"
  for vm F virt n I flags
proof (unfold_locales, goal_cases)
  case (1 i s s')
  then have p: "pages_ok vm F virt n I" and inv: "vm_inv s F" "table_at (pd_phys vm) F"
    by (auto simp: pages_ok_def)
  note u = unat_page_va [OF p 1(1)]
  have "protect_entry flags = (\<lambda>e. (e AND X86_PAGE_MASK) OR x86_vm_flags_to_pte flags)"
    by (simp add: protect_entry_def fun_eq_iff)
  then show ?case using x86_protect_page_spec(1) [OF inv u(3) 1(3) refl] page_op_log(3) [OF 1(3)] p
    by (simp add: u(2))
next
  case (2 i s e s')
  then have p: "pages_ok vm F virt n I" and inv: "vm_inv s F" "table_at (pd_phys vm) F"
    by (auto simp: pages_ok_def)
  show ?case using x86_protect_page_spec(2) [OF inv unat_page_va(3) [OF p 2(1)] 2(3) refl] by simp
qed (auto intro: kept_refl kept_trans)

subsection \<open>Translation\<close>

definition translates :: "arch_vm_space \<Rightarrow> x86_mm \<Rightarrow> vaddr \<Rightarrow> kerror + paddr" where
  "translates vm s a = fst (arch_vm_translate (Some vm) a True s)"

lemma unat_page_or_offset: "unat ((e AND X86_PAGE_MASK) OR (a AND (X86_PAGE_SIZE - 1))) = 4096 * frame_of e + unat a mod 4096"
proof -
  have m: "(X86_PAGE_SIZE - 1 :: u32) = mask 12" "X86_PAGE_MASK = NOT (mask 12)"
    by (simp_all add: X86_PAGE_SIZE_def X86_PAGE_MASK_def mask_eq_exp_minus_1)
  have "(e AND X86_PAGE_MASK) AND (a AND (X86_PAGE_SIZE - 1)) = 0"
    unfolding m by (rule bit_word_eqI) (auto simp: bit_simps)
  then have or: "(e AND X86_PAGE_MASK) OR (a AND (X86_PAGE_SIZE - 1)) = (e AND X86_PAGE_MASK) + (a AND (X86_PAGE_SIZE - 1))"
    by (simp add: disjunctive_add_eq_or)
  have "unat (a AND (X86_PAGE_SIZE - 1)) = unat a mod 4096"
    unfolding m take_bit_eq_mask [symmetric] by (simp add: take_bit_eq_mod unat_mod_word)
  moreover have "4096 * frame_of e + unat a mod 4096 < 4294967296"
  proof -
    have "frame_of e < 0x100000" using unat32_lt [of e] by (simp add: frame_of_def del: unat32_lt)
    moreover have "unat a mod 4096 < 4096" by simp
    ultimately show ?thesis by linarith
  qed
  ultimately show ?thesis unfolding or by (subst unat_add_nowrap) (simp_all add: unat_page_mask)
qed

lemma translates_lookup:
  assumes "vm_inv s F" and "table_at (pd_phys vm) F"
  shows "translates vm s a =
    (case lookup s F (unat a div 4096) of
       Some e \<Rightarrow> Inr (of_nat (4096 * frame_of e + unat a mod 4096))
     | None \<Rightarrow> Inl (if large_at s F (unat a div 4096) then KERR_NOSUP else KERR_NOENT))"
proof -
  have "ucast w = (of_nat (unat w) :: paddr)" for w :: u32 by simp
  then have "ucast ((e AND X86_PAGE_MASK) OR (a AND (X86_PAGE_SIZE - 1)))
      = (of_nat (4096 * frame_of e + unat a mod 4096) :: paddr)" for e
    by (metis unat_page_or_offset)
  then show ?thesis
    using x86_walk_lookup [OF assms, of a]
    by (auto simp: translates_def arch_vm_translate_def kerr_try_def simp del: of_nat_add of_nat_mult split: option.splits)
qed

lemma frame_of_page_mask [simp]: "frame_of (w AND X86_PAGE_MASK) = frame_of w"
  by (simp add: frame_of_def [of "w AND X86_PAGE_MASK"] unat_page_mask)

lemma frame_of_map_entry: "frame_of (map_entry pa flags) = unat (ucast pa :: u32) div 4096"
proof -
  have "ucast (pa AND ucast X86_PAGE_MASK) = (ucast pa :: u32) AND X86_PAGE_MASK"
    by (rule bit_word_eqI) (auto simp: bit_simps)
  then show ?thesis
    by (simp add: map_entry_def frame_of_or_small pte_flags) (simp add: frame_of_def)
qed

lemma frame_of_protect_entry [simp]: "frame_of (protect_entry flags e) = frame_of e"
  by (simp add: protect_entry_def frame_of_or_small pte_flags)

lemma lookup_not_large: "lookup s F v \<noteq> None \<Longrightarrow> \<not> large_at s F v"
  by (auto simp: lookup_def Let_def large_at_def is_table_def split: if_splits)

text \<open>
  \<open>range_mapped\<close>: in the state after, the bytes from \<open>virt\<close> on translate to those from \<open>phys\<close> on, and
  every other address translates as in the state before. An entry holds 32 bits of a physical address, so the
  addresses are those modulo 4 GiB. \<open>range_unmapped\<close>: the bytes are not mapped.
\<close>

definition phys_at :: "paddr \<Rightarrow> vaddr \<Rightarrow> paddr" where
  "phys_at phys off = ucast (ucast phys + off :: u32)"

lemma phys_at_below:
  assumes "unat phys + unat off < 2 ^ 32"
  shows "phys_at phys off = phys + ucast off"
proof -
  have "unat (ucast phys :: u32) = unat phys" using assms by (simp add: unsigned_ucast_eq take_bit_nat_eq_self_iff)
  moreover from this have "unat (ucast phys + off) = unat phys + unat off" using assms by (subst unat_add_nowrap) simp_all
  moreover have "unat (phys + ucast off) = unat phys + unat off" using assms by (subst unat_add_nowrap) simp_all
  ultimately show ?thesis by (simp add: phys_at_def word_unat_eq_iff)
qed

definition range_mapped :: "arch_vm_space \<Rightarrow> vaddr \<Rightarrow> paddr \<Rightarrow> nat \<Rightarrow> x86_mm \<Rightarrow> x86_mm \<Rightarrow> bool" where
  "range_mapped vm virt phys len s s' \<longleftrightarrow> (\<forall>a. translates vm s' a =
     (if unat virt \<le> unat a \<and> unat a < unat virt + len then Inr (phys_at phys (a - virt)) else translates vm s a))"

definition range_unmapped :: "arch_vm_space \<Rightarrow> vaddr \<Rightarrow> nat \<Rightarrow> x86_mm \<Rightarrow> x86_mm \<Rightarrow> bool" where
  "range_unmapped vm virt len s s' \<longleftrightarrow> (\<forall>a. translates vm s' a =
     (if unat virt \<le> unat a \<and> unat a < unat virt + len then Inl KERR_NOENT else translates vm s a))"

lemma in_page_range:
  fixes virt a m :: nat
  assumes "virt mod 4096 = 0"
  shows "virt div 4096 \<le> a div 4096 \<and> a div 4096 < virt div 4096 + m \<longleftrightarrow> virt \<le> a \<and> a < virt + 4096 * m"
proof -
  obtain q where "virt = 4096 * q" using assms by (auto simp: mod_eq_0_iff_dvd)
  then show ?thesis
    using less_eq_div_iff_mult_less_eq [of 4096 q a] div_less_iff_less_mult [of 4096 a "q + m"]
    by (simp add: algebra_simps)
qed

lemma unat_ucast_u32: "unat (ucast (x :: u64) :: u32) = unat x mod 2 ^ 32"
  by (simp add: unsigned_ucast_eq take_bit_eq_mod)

lemma ucast_add_u32: "ucast (x + ucast y :: u64) = (ucast x + y :: u32)"
proof -
  have d: "(4294967296 :: nat) dvd 18446744073709551616" by simp
  have "(unat x + unat y) mod 18446744073709551616 mod 4294967296 = (unat x mod 4294967296 + unat y) mod (4294967296 :: nat)"
    unfolding mod_mod_cancel [OF d] by (simp add: mod_add_left_eq)
  then show ?thesis by (simp add: word_unat_eq_iff unat_ucast_u32 unat_word_ariths)
qed

lemma aligned_sum:
  assumes "unat (phys :: u64) mod 4096 = 0"
  shows "unat (ucast phys + of_nat (4096 * i) :: u32) mod 4096 = 0"
proof -
  have d: "4096 dvd (2 ^ 32 :: nat)" by simp
  have "4096 dvd unat (ucast phys :: u32)" using assms d by (simp add: unat_ucast_u32 mod_eq_0_iff_dvd dvd_mod)
  moreover have "4096 dvd unat (of_nat (4096 * i) :: u32)" unfolding unat_of_nat using d by (intro dvd_mod) simp_all
  ultimately have "4096 dvd unat (ucast phys :: u32) + unat (of_nat (4096 * i) :: u32)" by (rule dvd_add)
  then have "4096 dvd unat (ucast phys + of_nat (4096 * i) :: u32)" unfolding unat_word_ariths using d by (intro dvd_mod) simp_all
  then show ?thesis by (rule dvd_imp_mod_0)
qed

lemma aligned_add_offset:
  assumes "unat (q :: u32) mod 4096 = 0" and "d < 4096"
  shows "unat (q + of_nat d) = unat q + d"
proof -
  obtain n where n: "unat q = 4096 * n" using assms(1) by (auto simp: mod_eq_0_iff_dvd)
  then have "n < 0x100000" using unat32_lt [of q] by (simp del: unat32_lt)
  then have "unat q + d < 2 ^ 32" using n assms(2) by simp
  moreover have "unat (of_nat d :: u32) = d" using assms(2) by (intro unat_of_nat_small) simp
  ultimately show ?thesis by (subst unat_add_nowrap) simp_all
qed

lemma range_mapped_lookup:
  assumes inv: "vm_inv s F" "vm_inv s' F" and pd: "table_at (pd_phys vm) F" and k: "kept I F s s'"
    and v: "unat virt mod 4096 = 0" "unat virt + 4096 * m \<le> 2 ^ 32" and p: "unat phys mod 4096 = 0"
    and l: "lookup s' F = range_upd (unat virt div 4096) m
      (\<lambda>i _. Some (map_entry (phys + ucast (of_nat (4096 * i) :: u32)) flags)) (lookup s F)"
  shows "range_mapped vm virt phys (4096 * m) s s'"
  unfolding range_mapped_def
proof
  fix a :: vaddr
  show "translates vm s' a = (if unat virt \<le> unat a \<and> unat a < unat virt + 4096 * m
      then Inr (phys_at phys (a - virt)) else translates vm s a)"
  proof (cases "unat virt \<le> unat a \<and> unat a < unat virt + 4096 * m")
    case False
    have "large_at s' F (unat a div 4096) = large_at s F (unat a div 4096)"
      by (rule kept_large_at [OF k]) (use unat32_lt [of a] in \<open>simp del: unat32_lt\<close>)
    moreover have "lookup s' F (unat a div 4096) = lookup s F (unat a div 4096)"
      using False in_page_range [OF v(1), of "unat a" m] by (auto simp: l range_upd_def)
    ultimately show ?thesis using False
      by (simp only: translates_lookup [OF inv(1) pd] translates_lookup [OF inv(2) pd] if_False simp_thms)
  next
    case True
    define i where "i = unat a div 4096 - unat virt div 4096"
    have i: "i < m" and vi: "unat a div 4096 = unat virt div 4096 + i"
      using True in_page_range [OF v(1), of "unat a" m] by (auto simp: i_def)
    let ?q = "ucast phys + of_nat (4096 * i) :: u32"
    have "ucast (phys + ucast (of_nat (4096 * i) :: u32)) = ?q" by (rule ucast_add_u32)
    then have "lookup s' F (unat a div 4096) = Some (map_entry (phys + ucast (of_nat (4096 * i) :: u32)) flags)"
        "frame_of (map_entry (phys + ucast (of_nat (4096 * i) :: u32)) flags) = unat ?q div 4096"
      using True in_page_range [OF v(1), of "unat a" m] by (simp_all add: l range_upd_def i_def frame_of_map_entry del: of_nat_mult)
    then have tr: "translates vm s' a = Inr (of_nat (4096 * (unat ?q div 4096) + unat a mod 4096))"
      by (simp add: translates_lookup [OF inv(2) pd] del: of_nat_mult of_nat_add)
    have q: "unat ?q mod 4096 = 0" using p by (rule aligned_sum)
    have "unat (a - virt) = 4096 * i + unat a mod 4096"
      using True vi v(1) div_mult_mod_eq [of "unat a" 4096] div_mult_mod_eq [of "unat virt" 4096] by (simp add: unat_sub_nowrap)
    then have "a - virt = of_nat (4096 * i + unat a mod 4096)" by (metis of_nat_unat ucast_id)
    then have "ucast phys + (a - virt) = ?q + of_nat (unat a mod 4096)" by simp
    moreover have "unat (?q + of_nat (unat a mod 4096)) = unat ?q + unat a mod 4096"
      by (rule aligned_add_offset [OF q]) simp
    moreover have "4096 * (unat ?q div 4096) = unat ?q" using q by (metis mult_div_mod_eq add.right_neutral)
    ultimately have "4096 * (unat ?q div 4096) + unat a mod 4096 = unat (ucast phys + (a - virt))" by (simp only:)
    moreover have "phys_at phys off = of_nat (unat (ucast phys + off))" for off by (simp add: phys_at_def)
    ultimately have "phys_at phys (a - virt) = of_nat (4096 * (unat ?q div 4096) + unat a mod 4096)" by (simp only:)
    then show ?thesis using True tr by simp
  qed
qed

lemma range_unmapped_lookup:
  assumes inv: "vm_inv s F" "vm_inv s' F" and pd: "table_at (pd_phys vm) F" and k: "kept I F s s'"
    and v: "unat virt mod 4096 = 0" and m: "\<forall>i<m. lookup s F (unat virt div 4096 + i) \<noteq> None"
    and l: "lookup s' F = range_upd (unat virt div 4096) m (\<lambda>i _. None) (lookup s F)"
  shows "range_unmapped vm virt (4096 * m) s s'"
  unfolding range_unmapped_def
proof
  fix a :: vaddr
  let ?v = "unat a div 4096"
  have eq: "large_at s' F ?v = large_at s F ?v"
    by (rule kept_large_at [OF k]) (use unat32_lt [of a] in \<open>simp del: unat32_lt\<close>)
  note r = in_page_range [OF v, of "unat a" m]
  show "translates vm s' a = (if unat virt \<le> unat a \<and> unat a < unat virt + 4096 * m
      then Inl KERR_NOENT else translates vm s a)"
  proof (cases "unat virt \<le> unat a \<and> unat a < unat virt + 4096 * m")
    case False
    then have "lookup s' F ?v = lookup s F ?v" using r by (auto simp: l range_upd_def)
    then show ?thesis using False eq
      by (simp only: translates_lookup [OF inv(1) pd] translates_lookup [OF inv(2) pd] if_False simp_thms)
  next
    case True
    then have "lookup s F ?v \<noteq> None" and none: "lookup s' F ?v = None"
      using r m [rule_format, of "?v - unat virt div 4096"] by (auto simp: l range_upd_def)
    then have "\<not> large_at s F ?v" by (intro lookup_not_large)
    then show ?thesis using True none eq by (simp add: translates_lookup [OF inv(2) pd])
  qed
qed

subsection \<open>The claims\<close>

lemma page_args:
  fixes virt :: vaddr and sz :: size_t
  assumes "unat sz mod 4096 = 0" and "sz \<noteq> 0"
  obtains n where "unat sz = 4096 * n" and "0 < n" and "page_offsets sz = map (\<lambda>i. of_nat (4096 * i)) [0..<n]"
proof -
  obtain n where n: "unat sz = 4096 * n" using assms(1) by (auto simp: mod_eq_0_iff_dvd)
  moreover have "0 < n" using n assms(2) by (auto simp: word_unat_eq_iff)
  ultimately show ?thesis by (intro that [of n]) (simp_all add: page_offsets_def)
qed

lemma ALIGN_TEST_page [simp]:
  "ALIGN_TEST (x :: u32) X86_PAGE_SIZE \<longleftrightarrow> unat x mod 4096 = 0"
  "ALIGN_TEST (p :: u64) X86_PAGE_SIZE \<longleftrightarrow> unat p mod 4096 = 0"
  by (simp_all add: ALIGN_TEST_def X86_PAGE_SIZE_def word_unat_eq_iff unat_mod_word)

text \<open>Arguments that the three functions refuse.\<close>

definition bad_range :: "vaddr \<Rightarrow> size_t \<Rightarrow> bool" where
  "bad_range virt sz \<longleftrightarrow> sz = 0 \<or> unat virt mod 4096 \<noteq> 0 \<or> unat sz mod 4096 \<noteq> 0"

lemma arch_vm_range_cases:
  "arch_vm_map (Some vm) virt phys sz flags =
     (if bad_range virt sz \<or> unat phys mod 4096 \<noteq> 0 then kfail KERR_INVAL
      else kerr_for [0..<unat sz div 4096]
        (\<lambda>i. x86_map_page vm (page_va virt i) (phys + ucast (of_nat (4096 * i) :: u32)) flags))"
  "arch_vm_unmap (Some vm) virt sz =
     (if bad_range virt sz then kfail KERR_INVAL
      else kerr_for [0..<unat sz div 4096] (\<lambda>i. x86_unmap_page vm (page_va virt i)))"
  "arch_vm_protect (Some vm) virt sz flags =
     (if bad_range virt sz then kfail KERR_INVAL
      else kerr_for [0..<unat sz div 4096] (\<lambda>i. x86_protect_page vm (page_va virt i) flags))"
  by (auto simp: fun_eq_iff arch_vm_map_def arch_vm_unmap_def arch_vm_protect_def bad_range_def
      page_offsets_def kerr_for_map page_va_def simp del: of_nat_mult)

lemma pages_okI:
  assumes "table_at (pd_phys vm) F" and "\<not> bad_range virt sz" and "unat virt + unat sz \<le> 2 ^ 32"
    and "\<And>i. i < unat sz div 4096 \<Longrightarrow> (unat virt div 4096 + i) div 1024 \<in> I"
  shows "pages_ok vm F virt (unat sz div 4096) I"
  using assms div_mult_mod_eq [of "unat sz" 4096] by (auto simp: pages_ok_def bad_range_def)

text \<open>The error of mapping a page, by what its address translates to.\<close>

fun map_error :: "kerror + paddr \<Rightarrow> kerror" where
  "map_error (Inr _) = KERR_EXISTS"
| "map_error (Inl e) = (if e = KERR_NOSUP then KERR_NOSUP else KERR_NOMEM)"

lemma page_errors:
  assumes inv: "vm_inv s F" and pd: "table_at (pd_phys vm) F"
  shows "x86_map_page vm va pa flags s = (Inl e, s') \<Longrightarrow> e = map_error (translates vm s va)"
    and "x86_unmap_page vm va s = (Inl e, s') \<Longrightarrow> translates vm s va = Inl e"
    and "x86_protect_page vm va flags s = (Inl e, s') \<Longrightarrow> translates vm s va = Inl e"
proof -
  show "x86_map_page vm va pa flags s = (Inl e, s') \<Longrightarrow> e = map_error (translates vm s va)"
    using x86_map_page_spec(2) [OF inv pd UNIV_I _ refl, of va pa flags e s'] lookup_not_large [of s F "unat va div 4096"]
    by (auto simp: translates_lookup [OF inv pd] split: option.splits)
  show "x86_unmap_page vm va s = (Inl e, s') \<Longrightarrow> translates vm s va = Inl e"
    using x86_unmap_page_spec(2) [OF inv pd UNIV_I _ refl, of va e s']
    by (auto simp: translates_lookup [OF inv pd])
  show "x86_protect_page vm va flags s = (Inl e, s') \<Longrightarrow> translates vm s va = Inl e"
    using x86_protect_page_spec(2) [OF inv pd UNIV_I _ refl, of va flags e s']
    by (auto simp: translates_lookup [OF inv pd])
qed

lemma arch_vm_map_full:
  assumes inv: "vm_inv s F" and pd: "table_at (pd_phys vm) F"
    and args: "sz \<noteq> 0" "unat virt mod 4096 = 0" "unat phys mod 4096 = 0" "unat sz mod 4096 = 0"
    and fits: "unat virt + unat sz \<le> 2 ^ 32"
    and I: "\<And>i. i < unat sz div 4096 \<Longrightarrow> (unat virt div 4096 + i) div 1024 \<in> I"
    and run: "arch_vm_map (Some vm) virt phys sz flags s = (r, s')"
  shows "vm_inv s' F \<and> kept I F s s' \<and> (\<exists>m\<le>unat sz div 4096. range_mapped vm virt phys (4096 * m) s s'
     \<and> lookup s' F = range_upd (unat virt div 4096) m (\<lambda>i _. Some (map_entry (phys + ucast (of_nat (4096 * i) :: u32)) flags)) (lookup s F)
     \<and> (\<forall>i<m. translates vm s (page_va virt i) = Inl KERR_NOENT)
     \<and> xm_invlpg s' = rev (map (page_va virt) [0..<m]) @ xm_invlpg s
     \<and> (r = Inr () \<longrightarrow> 4096 * m = unat sz)
     \<and> (\<forall>e. r = Inl e \<longrightarrow> 4096 * m < unat sz \<and> e = map_error (translates vm s (page_va virt m))
        \<and> (e = KERR_NOMEM \<longrightarrow> \<not> present (pde s F ((unat virt div 4096 + m) div 1024)))))"
proof -
  define n where "n = unat sz div 4096"
  have sz: "unat sz = 4096 * n" using args(4) by (auto simp: n_def)
  have ok: "pages_ok vm F virt n I"
    unfolding n_def by (rule pages_okI [OF pd _ fits]) (use args in \<open>simp_all add: bad_range_def I\<close>)
  have "kerr_for [0..<n]
      (\<lambda>i. x86_map_page vm (page_va virt i) (phys + ucast (of_nat (4096 * i) :: u32)) flags) s = (r, s')"
    using run args by (simp only: arch_vm_range_cases n_def) (simp add: bad_range_def)
  from map_range.run [OF conjI [OF inv ok] this] obtain m where m: "m \<le> n" "vm_inv s' F" "kept I F s s'"
    "lookup s' F = range_upd (unat virt div 4096) m
       (\<lambda>i _. Some (map_entry (phys + ucast (of_nat (4096 * i) :: u32)) flags)) (lookup s F)"
    "\<forall>i<m. lookup s F (unat virt div 4096 + i) = None"
    "xm_invlpg s' = rev (map (page_va virt) [0..<m]) @ xm_invlpg s" "r = Inr () \<longrightarrow> m = n"
    "\<forall>e. r = Inl e \<longrightarrow> m < n \<and>
       x86_map_page vm (page_va virt m) (phys + ucast (of_nat (4096 * m) :: u32)) flags s' = (Inl e, s')"
    by blast
  have mapped: "range_mapped vm virt phys (4096 * m) s s'"
    by (rule range_mapped_lookup [OF inv m(2) pd m(3) args(2) _ args(3) m(4)]) (use fits sz m(1) in auto)
  have none: "translates vm s (page_va virt i) = Inl KERR_NOENT" if "i < m" for i
  proof -
    have i: "i < n" using that m(1) by simp
    note u = unat_page_va [OF ok i]
    have "lookup s' F (unat (page_va virt i) div 4096) \<noteq> None" using that by (simp add: m(4) u range_upd_def)
    moreover have "large_at s' F (unat (page_va virt i) div 4096) = large_at s F (unat (page_va virt i) div 4096)"
      by (rule kept_large_at [OF m(3)]) (use unat32_lt [of "page_va virt i"] in \<open>simp del: unat32_lt\<close>)
    ultimately have "\<not> large_at s F (unat (page_va virt i) div 4096)" using lookup_not_large by blast
    moreover have "lookup s F (unat (page_va virt i) div 4096) = None" using that m(5) by (simp only: u(2))
    ultimately show ?thesis by (simp add: translates_lookup [OF inv pd])
  qed
  have err: "4096 * m < unat sz \<and> e = map_error (translates vm s (page_va virt m))
      \<and> (e = KERR_NOMEM \<longrightarrow> \<not> present (pde s F ((unat virt div 4096 + m) div 1024)))" if "r = Inl e" for e
  proof -
    have "translates vm s' (page_va virt m) = translates vm s (page_va virt m)"
      using mapped that m(8) unat_page_va(1) [OF ok, of m] by (simp add: range_mapped_def)
    moreover have "m < n" using that m(8) by blast
    note u = unat_page_va [OF ok this]
    have "e = KERR_NOMEM \<longrightarrow> \<not> present (pde s' F ((unat virt div 4096 + m) div 1024))"
      using x86_map_page_spec(2) [OF m(2) pd u(3) _ refl] that m(8) unfolding unat_pde_index(1) u(2) by blast
    moreover have "(unat virt div 4096 + m) div 1024 < 1024"
      using unat_pde_index(2) [of "page_va virt m"] unfolding unat_pde_index(1) u(2) .
    then have "present (pde s F ((unat virt div 4096 + m) div 1024)) \<longrightarrow> present (pde s' F ((unat virt div 4096 + m) div 1024))"
      using m(3) unfolding kept_def entry_kept_def by metis
    ultimately show ?thesis using that m(8) page_errors(1) [OF m(2) pd] sz by fastforce
  qed
  show ?thesis using m(1,2,3,4,6,7) mapped none err sz by (auto simp: n_def [symmetric])
qed

lemma arch_vm_map_spec:
  assumes inv: "vm_inv s F" and pd: "table_at (pd_phys vm) F"
    and args: "sz \<noteq> 0" "unat virt mod 4096 = 0" "unat phys mod 4096 = 0" "unat sz mod 4096 = 0"
    and fits: "unat virt + unat sz \<le> 2 ^ 32"
    and I: "\<And>i. i < unat sz div 4096 \<Longrightarrow> (unat virt div 4096 + i) div 1024 \<in> I"
    and run: "arch_vm_map (Some vm) virt phys sz flags s = (r, s')"
  shows "vm_inv s' F \<and> kept I F s s' \<and> (\<exists>m\<le>unat sz div 4096. range_mapped vm virt phys (4096 * m) s s'
     \<and> (\<forall>i<m. translates vm s (page_va virt i) = Inl KERR_NOENT)
     \<and> xm_invlpg s' = rev (map (page_va virt) [0..<m]) @ xm_invlpg s
     \<and> (r = Inr () \<longrightarrow> 4096 * m = unat sz)
     \<and> (\<forall>e. r = Inl e \<longrightarrow> 4096 * m < unat sz \<and> e = map_error (translates vm s (page_va virt m))
        \<and> (e = KERR_NOMEM \<longrightarrow> \<not> present (pde s F ((unat virt div 4096 + m) div 1024)))))"
  using arch_vm_map_full [OF inv pd args fits I run] by blast

lemma arch_vm_unmap_spec:
  assumes inv: "vm_inv s F" and pd: "table_at (pd_phys vm) F"
    and args: "sz \<noteq> 0" "unat virt mod 4096 = 0" "unat sz mod 4096 = 0" "unat virt + unat sz \<le> 2 ^ 32"
    and I: "\<And>i. i < unat sz div 4096 \<Longrightarrow> (unat virt div 4096 + i) div 1024 \<in> I"
    and run: "arch_vm_unmap (Some vm) virt sz s = (r, s')"
  shows "vm_inv s' F \<and> kept I F s s' \<and> (\<exists>m\<le>unat sz div 4096. range_unmapped vm virt (4096 * m) s s'
     \<and> (\<forall>i<m. \<exists>p. translates vm s (page_va virt i) = Inr p)
     \<and> xm_invlpg s' = rev (map (page_va virt) [0..<m]) @ xm_invlpg s
     \<and> (r = Inr () \<longrightarrow> 4096 * m = unat sz)
     \<and> (\<forall>e. r = Inl e \<longrightarrow> 4096 * m < unat sz \<and> translates vm s (page_va virt m) = Inl e))"
proof -
  define n where "n = unat sz div 4096"
  have sz: "unat sz = 4096 * n" using args(3) by (auto simp: n_def)
  have ok: "pages_ok vm F virt n I"
    unfolding n_def by (rule pages_okI [OF pd _ args(4)]) (use args in \<open>simp_all add: bad_range_def I\<close>)
  have "kerr_for [0..<n] (\<lambda>i. x86_unmap_page vm (page_va virt i)) s = (r, s')"
    using run args by (simp only: arch_vm_range_cases n_def) (simp add: bad_range_def)
  from unmap_range.run [OF conjI [OF inv ok] this] obtain m where m: "m \<le> n" "vm_inv s' F" "kept I F s s'"
    "lookup s' F = range_upd (unat virt div 4096) m (\<lambda>i _. None) (lookup s F)"
    "\<forall>i<m. lookup s F (unat virt div 4096 + i) \<noteq> None"
    "xm_invlpg s' = rev (map (page_va virt) [0..<m]) @ xm_invlpg s" "r = Inr () \<longrightarrow> m = n"
    "\<forall>e. r = Inl e \<longrightarrow> m < n \<and> x86_unmap_page vm (page_va virt m) s' = (Inl e, s')"
    by blast
  have un: "range_unmapped vm virt (4096 * m) s s'"
    by (rule range_unmapped_lookup [OF inv m(2) pd m(3) args(2) m(5,4)])
  have some: "\<exists>p. translates vm s (page_va virt i) = Inr p" if "i < m" for i
  proof -
    have "lookup s F (unat (page_va virt i) div 4096) \<noteq> None"
      using m(5) that unat_page_va(2) [OF ok, of i] m(1) by simp
    then show ?thesis by (auto simp: translates_lookup [OF inv pd])
  qed
  have err: "4096 * m < unat sz \<and> translates vm s (page_va virt m) = Inl e" if "r = Inl e" for e
  proof -
    have "translates vm s' (page_va virt m) = translates vm s (page_va virt m)"
      using un that m(8) unat_page_va(1) [OF ok, of m] by (simp add: range_unmapped_def)
    then show ?thesis using that m(8) page_errors(2) [OF m(2) pd] sz by fastforce
  qed
  show ?thesis using m(1,2,3,6,7) un some err sz by (auto simp: n_def [symmetric])
qed

lemma translates_same_frames:
  assumes inv: "vm_inv s F" "vm_inv s' F" and pd: "table_at (pd_phys vm) F" and k: "kept I F s s'"
    and l: "\<And>v. map_option frame_of (lookup s' F v) = map_option frame_of (lookup s F v)"
  shows "translates vm s' a = translates vm s a"
proof -
  have "large_at s' F (unat a div 4096) = large_at s F (unat a div 4096)"
    by (rule kept_large_at [OF k]) (use unat32_lt [of a] in \<open>simp del: unat32_lt\<close>)
  with l [of "unat a div 4096"] show ?thesis
    by (cases "lookup s F (unat a div 4096)"; cases "lookup s' F (unat a div 4096)")
      (simp_all add: translates_lookup [OF inv(1) pd] translates_lookup [OF inv(2) pd])
qed

lemma arch_vm_protect_spec:
  assumes inv: "vm_inv s F" and pd: "table_at (pd_phys vm) F"
    and args: "sz \<noteq> 0" "unat virt mod 4096 = 0" "unat sz mod 4096 = 0" "unat virt + unat sz \<le> 2 ^ 32"
    and I: "\<And>i. i < unat sz div 4096 \<Longrightarrow> (unat virt div 4096 + i) div 1024 \<in> I"
    and run: "arch_vm_protect (Some vm) virt sz flags s = (r, s')"
  shows "vm_inv s' F \<and> kept I F s s' \<and> (\<forall>a. translates vm s' a = translates vm s a)
     \<and> (\<exists>m\<le>unat sz div 4096.
       (\<forall>v. lookup s' F v = (if unat virt div 4096 \<le> v \<and> v < unat virt div 4096 + m
          then map_option (\<lambda>e. (e AND X86_PAGE_MASK) OR x86_vm_flags_to_pte flags) (lookup s F v) else lookup s F v))
     \<and> (\<forall>i<m. lookup s F (unat virt div 4096 + i) \<noteq> None)
     \<and> xm_invlpg s' = rev (map (page_va virt) [0..<m]) @ xm_invlpg s
     \<and> (r = Inr () \<longrightarrow> 4096 * m = unat sz)
     \<and> (\<forall>e. r = Inl e \<longrightarrow> 4096 * m < unat sz \<and> translates vm s (page_va virt m) = Inl e))"
proof -
  define n where "n = unat sz div 4096"
  have sz: "unat sz = 4096 * n" using args(3) by (auto simp: n_def)
  have ok: "pages_ok vm F virt n I"
    unfolding n_def by (rule pages_okI [OF pd _ args(4)]) (use args in \<open>simp_all add: bad_range_def I\<close>)
  have "kerr_for [0..<n] (\<lambda>i. x86_protect_page vm (page_va virt i) flags) s = (r, s')"
    using run args by (simp only: arch_vm_range_cases n_def) (simp add: bad_range_def)
  from protect_range.run [OF conjI [OF inv ok] this] obtain m where m: "m \<le> n" "vm_inv s' F" "kept I F s s'"
    "lookup s' F = range_upd (unat virt div 4096) m (\<lambda>i. map_option (protect_entry flags)) (lookup s F)"
    "\<forall>i<m. lookup s F (unat virt div 4096 + i) \<noteq> None"
    "xm_invlpg s' = rev (map (page_va virt) [0..<m]) @ xm_invlpg s" "r = Inr () \<longrightarrow> m = n"
    "\<forall>e. r = Inl e \<longrightarrow> m < n \<and> x86_protect_page vm (page_va virt m) flags s' = (Inl e, s')"
    by blast
  have same: "translates vm s' a = translates vm s a" for a
    by (rule translates_same_frames [OF inv m(2) pd m(3)])
      (auto simp: m(4) range_upd_def option.map_comp comp_def)
  have err: "4096 * m < unat sz \<and> translates vm s (page_va virt m) = Inl e" if "r = Inl e" for e
    using that m(8) page_errors(3) [OF m(2) pd] sz same by fastforce
  have "protect_entry flags = (\<lambda>e. (e AND X86_PAGE_MASK) OR x86_vm_flags_to_pte flags)"
    by (simp add: protect_entry_def fun_eq_iff)
  then have "lookup s' F v = (if unat virt div 4096 \<le> v \<and> v < unat virt div 4096 + m
      then map_option (\<lambda>e. (e AND X86_PAGE_MASK) OR x86_vm_flags_to_pte flags) (lookup s F v) else lookup s F v)" for v
    by (simp add: m(4) range_upd_def)
  with m(1,2,3,5,6,7) same err sz show ?thesis unfolding n_def [symmetric]
    by (intro conjI allI exI [of _ m]) auto
qed

text \<open>The permissions of an entry: writable, user, and none of the other bits.\<close>

definition entry_permits :: "u32 \<Rightarrow> u32 \<Rightarrow> bool" where
  "entry_permits flags e \<longleftrightarrow> bit e 0 \<and> (bit e 1 \<longleftrightarrow> bit flags 1) \<and> (bit e 2 \<longleftrightarrow> bit flags 3) \<and> (\<forall>k. 3 \<le> k \<and> k < 12 \<longrightarrow> \<not> bit e k)"

lemma map_entry_permits: "entry_permits flags (map_entry pa flags)"
proof -
  have m: "X86_PAGE_MASK = NOT (mask 12)" by (simp add: X86_PAGE_MASK_def mask_eq_exp_minus_1)
  have "\<not> bit (ucast (pa AND ucast X86_PAGE_MASK) :: u32) k" if "k < 12" for k
    using that unfolding m by (simp add: bit_simps)
  then show ?thesis
    by (auto simp: entry_permits_def map_entry_def bit_or_iff x86_vm_flags_to_pte_def Let_def X86_PTE_PRESENT_def X86_PTE_WRITABLE_def
        X86_PTE_USER_def bit_BIT VM_WRITE_def VM_USER_def MASK_TEST_BIT)
qed

text \<open>A page table that had to be created is writable, and accessible to user mode if the flags say so.\<close>

definition table_permits :: "u32 \<Rightarrow> u32 \<Rightarrow> bool" where
  "table_permits flags d \<longleftrightarrow> bit d 1 \<and> (bit d 2 \<longleftrightarrow> bit flags 3)"

lemma new_table_permits:
  assumes "table_at a f"
  shows "table_permits flags (ucast a OR x86_vm_flags_to_pde flags)"
proof -
  have "unat a mod 2 ^ 12 = 0" using assms by (simp add: table_at_def)
  then have "take_bit 12 a = 0" by (simp add: word_unat_eq_iff take_bit_eq_mod unat_mod)
  then have "\<not> bit a k" if "k < 12" for k using that by (metis bit_0_eq bit_take_bit_iff bot_apply bot_bool_def)
  then show ?thesis
    by (auto simp: table_permits_def bit_or_iff bit_ucast_iff x86_vm_flags_to_pde_def Let_def X86_PDE_PRESENT_def X86_PDE_WRITABLE_def
        X86_PDE_USER_def bit_BIT VM_USER_def MASK_TEST_BIT)
qed

lemma x86_map_page_new_table:
  assumes inv: "vm_inv s F" and pd: "table_at (pd_phys vm) F" and run: "x86_map_page vm va pa flags s = (Inr (), s')"
    and k: "k < 1024" "\<not> present (pde s F k)" "present (pde s' F k)"
  shows "table_permits flags (pde s' F k)"
proof -
  let ?i = "unat (pde_index va)"
  have "kept {?i} F s s'" using x86_map_page_spec(1) [OF inv pd _ run refl, of "{?i}"] by simp
  then have ki: "k = ?i" using k by (auto simp: kept_def entry_kept_def)
  have ldp: "ld_entry t (pd_phys vm) (pde_index va) = pde t F ?i" for t
    using k(1) ki by (simp add: ld_entry_slot [OF pd] pde_def)
  obtain a f u where a: "vm_alloc_lowmem s = (Inr a, u)" "table_at a f"
    using vm_alloc_lowmem_cases [OF vm_invD(1) [OF inv]] run k(2)
    by (auto simp: x86_map_page_def kerr_try_def ldp ki)
  define t where "t = st_entry (pd_phys vm) (pde_index va) (ucast a OR x86_vm_flags_to_pde flags) (clear_table a u)"
  note T = add_new_table [OF inv pd _ _ _ a(1) pde_flags [of flags], of "pde_index va" "{?i}", folded t_def]
  have t: "vm_inv t F" "is_table (pde t F ?i)" using T k(1,2) ki by simp_all
  have "(if MASK_TEST (ld_entry t (pte_table (pde t F ?i)) (pte_index va)) X86_PTE_PRESENT then kfail KERR_EXISTS t
      else kret () (x86_invlpg va (st_entry (pte_table (pde t F ?i)) (pte_index va) (map_entry pa flags) t))) = (Inr (), s')"
    using run k(2) a(1) by (simp add: x86_map_page_def map_entry_def kerr_try_def ldp ki Let_def t_def [symmetric] split: if_splits)
  from map_entry_step [OF t _ refl kept_refl this present_map_entry, of "{?i}"] have "kept {?i} F t s'" by (auto split: if_splits)
  then have "pde s' F ?i = pde t F ?i" using t(2) k(1) ki by (auto simp: kept_def entry_kept_def is_table_def)
  also have "\<dots> = ucast a OR x86_vm_flags_to_pde flags"
    unfolding ldp [symmetric] by (simp add: t_def ld_entry_def st_entry_def ld_def st_def)
  finally show ?thesis using new_table_permits [OF a(2)] by (simp add: ki)
qed

lemma arch_vm_map_tables:
  assumes inv: "vm_inv s F" and pd: "table_at (pd_phys vm) F" and run: "arch_vm_map (Some vm) virt phys sz flags s = (r, s')"
    and k: "k < 1024" "\<not> present (pde s F k)" "present (pde s' F k)"
  shows "table_permits flags (pde s' F k)"
proof -
  let ?P = "\<lambda>t. vm_inv t F \<and> (\<forall>k<1024. \<not> present (pde s F k) \<and> present (pde t F k) \<longrightarrow> table_permits flags (pde t F k))"
  have step: "?P t'" if t: "?P t" and st: "x86_map_page vm va pa flags t = (q, t')" for t t' va pa q
  proof (cases q)
    case (Inl e)
    then show ?thesis using x86_map_page_spec(2) [OF _ pd UNIV_I st] t by simp
  next
    case (Inr u)
    then have st: "x86_map_page vm va pa flags t = (Inr (), t')" using st by simp
    have k: "vm_inv t' F" "kept UNIV F t t'" using x86_map_page_spec(1) [OF _ pd UNIV_I st refl] t by simp_all
    have "table_permits flags (pde t' F k)" if "k < 1024" "\<not> present (pde s F k)" "present (pde t' F k)" for k
    proof (cases "present (pde t F k)")
      case True
      then have "pde t' F k = pde t F k" using k(2) that(1) by (auto simp: kept_def entry_kept_def)
      then show ?thesis using t that True by simp
    qed (use x86_map_page_new_table [OF _ pd st] t that in blast)
    then show ?thesis using k(1) by blast
  qed
  have "?P s'"
  proof (cases "bad_range virt sz \<or> unat phys mod 4096 \<noteq> 0")
    case True
    then show ?thesis using run inv by (auto simp: arch_vm_map_def bad_range_def split: if_splits)
  next
    case False
    have "kerr_for (page_offsets sz) (\<lambda>off. x86_map_page vm (virt + off) (phys + ucast off) flags) s = (r, s')"
      using run False by (auto simp: arch_vm_map_def bad_range_def)
    from kerr_for_inv [where P = ?P, OF _ _ this] inv step show ?thesis by blast
  qed
  then show ?thesis using k by blast
qed

text \<open>
  C7. Mapping an aligned range into a well-formed address space. The page tables stay well-formed, and
  whatever the result, a prefix of the range is mapped as asked: nothing was mapped there before, every byte of it
  translates to the byte of the physical range (modulo 4 GiB, since an entry has 32 bits and the code drops the upper half of a
  64-bit physical address), and the entries have exactly the permissions of the flags. A page table that had to be
  created is writable and open to user mode if the flags are. Every other entry is kept and every other address
  translates as before, and exactly the mapped pages were invalidated in the TLB. On success the
  prefix is the whole range; an error names its reason: the page after the prefix was mapped
  already, lies in a 4 MiB page, or needs a page table for which there is no memory. The virtual range has to end at or below 4 GiB.
\<close>

theorem arch_vm_map_correct:
  assumes inv: "vm_inv s F" and pd: "table_at (pd_phys vm) F"
    and args: "sz \<noteq> 0" "unat virt mod 4096 = 0" "unat phys mod 4096 = 0" "unat sz mod 4096 = 0"
    and fits: "unat virt + unat sz \<le> 2 ^ 32"
    and run: "arch_vm_map (Some vm) virt phys sz flags s = (r, s')"
  shows "vm_inv s' F \<and> (\<exists>m\<le>unat sz div 4096. range_mapped vm virt phys (4096 * m) s s'
     \<and> (\<forall>i<m. translates vm s (page_va virt i) = Inl KERR_NOENT)
     \<and> (\<forall>i<m. \<exists>e. lookup s' F (unat virt div 4096 + i) = Some e \<and> entry_permits flags e)
     \<and> (\<forall>v. \<not> (unat virt div 4096 \<le> v \<and> v < unat virt div 4096 + m) \<longrightarrow> lookup s' F v = lookup s F v)
     \<and> (\<forall>k<1024. \<not> present (pde s F k) \<and> present (pde s' F k) \<longrightarrow> table_permits flags (pde s' F k))
     \<and> xm_invlpg s' = rev (map (page_va virt) [0..<m]) @ xm_invlpg s
     \<and> (r = Inr () \<longrightarrow> 4096 * m = unat sz)
     \<and> (\<forall>e. r = Inl e \<longrightarrow> 4096 * m < unat sz \<and> e = map_error (translates vm s (page_va virt m))))"
proof -
  from arch_vm_map_full [OF inv pd args fits UNIV_I run] obtain m where m: "vm_inv s' F" "m \<le> unat sz div 4096"
    "range_mapped vm virt phys (4096 * m) s s'" "\<forall>i<m. translates vm s (page_va virt i) = Inl KERR_NOENT"
    "lookup s' F = range_upd (unat virt div 4096) m (\<lambda>i _. Some (map_entry (phys + ucast (of_nat (4096 * i) :: u32)) flags)) (lookup s F)"
    "xm_invlpg s' = rev (map (page_va virt) [0..<m]) @ xm_invlpg s" "r = Inr () \<longrightarrow> 4096 * m = unat sz"
    "\<forall>e. r = Inl e \<longrightarrow> 4096 * m < unat sz \<and> e = map_error (translates vm s (page_va virt m))" by blast
  have "\<forall>i<m. \<exists>e. lookup s' F (unat virt div 4096 + i) = Some e \<and> entry_permits flags e"
    by (simp add: m(5) range_upd_def map_entry_permits)
  moreover have "\<forall>v. \<not> (unat virt div 4096 \<le> v \<and> v < unat virt div 4096 + m) \<longrightarrow> lookup s' F v = lookup s F v"
    by (auto simp: m(5) range_upd_def)
  ultimately show ?thesis using m arch_vm_map_tables [OF inv pd run] by (intro conjI exI [of _ m]) blast+
qed

text \<open>
  Unmapping an aligned range of a well-formed address space. A prefix of the range, mapped
  before, is unmapped afterwards; every other address translates as before, the page tables stay
  well-formed and exactly the unmapped pages were invalidated. The call succeeds exactly when
  every page of the range was mapped; otherwise it stops at the first page that was not, with the
  error that translating it gives.
\<close>

theorem arch_vm_unmap_correct:
  assumes inv: "vm_inv s F" and pd: "table_at (pd_phys vm) F"
    and args: "sz \<noteq> 0" "unat virt mod 4096 = 0" "unat sz mod 4096 = 0" "unat virt + unat sz \<le> 2 ^ 32"
    and run: "arch_vm_unmap (Some vm) virt sz s = (r, s')"
  shows "vm_inv s' F \<and> (\<exists>m\<le>unat sz div 4096. range_unmapped vm virt (4096 * m) s s'
     \<and> (\<forall>i<m. \<exists>p. translates vm s (page_va virt i) = Inr p)
     \<and> xm_invlpg s' = rev (map (page_va virt) [0..<m]) @ xm_invlpg s
     \<and> (r = Inr () \<longrightarrow> 4096 * m = unat sz)
     \<and> (\<forall>e. r = Inl e \<longrightarrow> 4096 * m < unat sz \<and> translates vm s (page_va virt m) = Inl e))"
  using arch_vm_unmap_spec [OF inv pd args UNIV_I run] by blast

text \<open>
  Changing the protection of an aligned range never changes what an address translates to. The
  entries of a prefix of the range, all present, get exactly the permission bits of the flags
  (present, writable and user) and keep their frame, every other entry is kept, and the changed
  pages are invalidated; on success the prefix is the whole range, an error is that of
  translating the first page after it.
\<close>

theorem arch_vm_protect_correct:
  assumes inv: "vm_inv s F" and pd: "table_at (pd_phys vm) F"
    and args: "sz \<noteq> 0" "unat virt mod 4096 = 0" "unat sz mod 4096 = 0" "unat virt + unat sz \<le> 2 ^ 32"
    and run: "arch_vm_protect (Some vm) virt sz flags s = (r, s')"
  shows "vm_inv s' F \<and> (\<forall>a. translates vm s' a = translates vm s a)
     \<and> (\<exists>m\<le>unat sz div 4096.
       (\<forall>v. lookup s' F v = (if unat virt div 4096 \<le> v \<and> v < unat virt div 4096 + m
          then map_option (\<lambda>e. (e AND X86_PAGE_MASK) OR x86_vm_flags_to_pte flags) (lookup s F v) else lookup s F v))
     \<and> (\<forall>i<m. lookup s F (unat virt div 4096 + i) \<noteq> None)
     \<and> xm_invlpg s' = rev (map (page_va virt) [0..<m]) @ xm_invlpg s
     \<and> (r = Inr () \<longrightarrow> 4096 * m = unat sz)
     \<and> (\<forall>e. r = Inl e \<longrightarrow> 4096 * m < unat sz \<and> translates vm s (page_va virt m) = Inl e))"
  using arch_vm_protect_spec [OF inv pd args UNIV_I run] by blast

subsection \<open>Witnesses\<close>

theorem arch_vm_map_correct_witness:
  "\<exists>r s' m. arch_vm_map (Some vm_sample) 0x400000 0x800000 0x2000 VM_WRITE x86_sample = (r, s')
     \<and> vm_inv s' 257 \<and> range_mapped vm_sample 0x400000 0x800000 (4096 * m) x86_sample s'
     \<and> (\<forall>i<m. \<exists>e. lookup s' 257 (1024 + i) = Some e \<and> entry_permits VM_WRITE e)"
proof -
  obtain r s' where run: "arch_vm_map (Some vm_sample) 0x400000 0x800000 0x2000 VM_WRITE x86_sample = (r, s')" by fastforce
  from arch_vm_map_correct [OF sample_space_inv sample_table_at(1) _ _ _ _ _ run] run show ?thesis by auto
qed

theorem arch_vm_unmap_correct_witness:
  "\<exists>r s' m. arch_vm_unmap (Some vm_sample) 0x400000 0x2000 x86_sample = (r, s')
     \<and> vm_inv s' 257 \<and> range_unmapped vm_sample 0x400000 (4096 * m) x86_sample s'"
proof -
  obtain r s' where run: "arch_vm_unmap (Some vm_sample) 0x400000 0x2000 x86_sample = (r, s')" by fastforce
  from arch_vm_unmap_correct [OF sample_space_inv sample_table_at(1) _ _ _ _ run] run show ?thesis by auto
qed

theorem arch_vm_protect_correct_witness:
  "\<exists>r s'. arch_vm_protect (Some vm_sample) 0x400000 0x2000 VM_WRITE x86_sample = (r, s')
     \<and> vm_inv s' 257 \<and> translates vm_sample s' 0x400000 = translates vm_sample x86_sample 0x400000"
proof -
  obtain r s' where run: "arch_vm_protect (Some vm_sample) 0x400000 0x2000 VM_WRITE x86_sample = (r, s')" by fastforce
  from arch_vm_protect_correct [OF sample_space_inv sample_table_at(1) _ _ _ _ run] run show ?thesis by auto
qed

end
