(* ===== verification/X86_Spaces.thy ===== *)
theory X86_Spaces
  imports X86_Paging_Props
begin

text \<open>
  Several address spaces over one physical memory: operations on the user half of one space do not
  change another, the kernel half is shared by all spaces that it was attached to, and the life
  of a space gives back every frame that it took.
\<close>

subsection \<open>Spaces that were not touched\<close>

definition space_frames :: "x86_mm \<Rightarrow> nat \<Rightarrow> nat set" where
  "space_frames s F = insert F (tables UNIV s F)"

lemma frame_of_in_tables: "i < 1024 \<Longrightarrow> i \<in> I \<Longrightarrow> is_table (pde s F i) \<Longrightarrow> frame_of (pde s F i) \<in> tables I s F"
  by (auto simp: tables_def)

lemma tables_UNIV: "tables I s F \<subseteq> tables UNIV s F"
  by (auto simp: tables_def)

lemma dir_not_table:
  assumes "vm_inv s F"
  shows "F \<notin> tables I s F"
proof
  assume "F \<in> tables I s F"
  then obtain i where "F = frame_of (pde s F i)" "i < 1024" "is_table (pde s F i)" by (auto simp: tables_def)
  with vm_invD(4) [OF assms, of i] show False by simp
qed

lemma space_frames_owned: "vm_inv s F \<Longrightarrow> f \<in> space_frames s F \<Longrightarrow> owned s f"
  by (auto simp: space_frames_def tables_def vm_inv_def)

lemma space_same:
  assumes inv: "vm_inv s F" and p: "pmm_inv (xm_pmm s')" "\<And>f. f \<in> space_frames s F \<Longrightarrow> owned s' f"
    and mem: "\<And>f i. f \<in> space_frames s F \<Longrightarrow> i < 1024 \<Longrightarrow> xm_mem s' (slot f i) = xm_mem s (slot f i)"
  shows "vm_inv s' F" and "lookup s' F = lookup s F" and "tables I s' F = tables I s F"
    and "v < 0x100000 \<Longrightarrow> large_at s' F v = large_at s F v" and "\<And>i. i < 1024 \<Longrightarrow> pde s' F i = pde s F i"
proof -
  show pd: "pde s' F i = pde s F i" if "i < 1024" for i
    using mem [of F i] that by (simp add: pde_def space_frames_def)
  show "tables I s' F = tables I s F" by (rule tables_cong) (rule pd)
  have "owned s' F" "\<And>i. i < 1024 \<Longrightarrow> is_table (pde s F i) \<Longrightarrow> owned s' (frame_of (pde s F i))"
    using p(2) by (auto simp: space_frames_def frame_of_in_tables)
  then show "vm_inv s' F" using vm_invD [OF inv] p(1) unfolding vm_inv_def by (auto simp: pd)
  show "lookup s' F = lookup s F"
    by (rule lookup_eqI) (auto simp: lookup_at lookup_above pd mem space_frames_def frame_of_in_tables)
  show "large_at s' F v = large_at s F v" if "v < 0x100000"
    using that by (simp add: large_at_def pd)
qed

lemma kept_mem:
  assumes "kept I F s s'" and "f \<notin> reach I F s" and "i < 1024"
  shows "xm_mem s' (slot f i) = xm_mem s (slot f i)"
proof -
  have "\<forall>g\<in>reach I F s. \<forall>j<1024. slot f i \<noteq> slot g j" using assms(2,3) by (auto simp: slot_inj)
  then show ?thesis using assms(1) by (simp add: kept_def)
qed

lemma kept_space_same:
  assumes k: "kept I F s s'" and inv: "vm_inv s G" "pmm_inv (xm_pmm s')"
    and d: "reach I F s \<inter> space_frames s G = {}"
  shows "vm_inv s' G" and "lookup s' G = lookup s G" and "tables J s' G = tables J s G"
    and "v < 0x100000 \<Longrightarrow> large_at s' G v = large_at s G v" and "i < 1024 \<Longrightarrow> pde s' G i = pde s G i"
proof -
  have mem: "xm_mem s' (slot f i) = xm_mem s (slot f i)" if "f \<in> space_frames s G" "i < 1024" for f i
    using kept_mem [OF k _ that(2)] that(1) d by blast
  note S = space_same [OF inv(1,2) owned_kept [OF k space_frames_owned [OF inv(1)]] mem]
  show "vm_inv s' G" "lookup s' G = lookup s G" "tables J s' G = tables J s G"
    "v < 0x100000 \<Longrightarrow> large_at s' G v = large_at s G v" "i < 1024 \<Longrightarrow> pde s' G i = pde s G i"
    by (rule S; assumption)+
qed

subsection \<open>Sequences of operations on user memory\<close>

inductive vm_run :: "arch_vm_space \<Rightarrow> x86_mm \<Rightarrow> x86_mm \<Rightarrow> bool" for vm where
  vm_start: "vm_run vm s s"
| vm_mapped: "vm_run vm s t \<Longrightarrow> unat virt + unat sz \<le> 0xC0000000 \<Longrightarrow>
    arch_vm_map (Some vm) virt phys sz flags t = (r, u) \<Longrightarrow> vm_run vm s u"
| vm_unmapped: "vm_run vm s t \<Longrightarrow> unat virt + unat sz \<le> 0xC0000000 \<Longrightarrow>
    arch_vm_unmap (Some vm) virt sz t = (r, u) \<Longrightarrow> vm_run vm s u"
| vm_protected: "vm_run vm s t \<Longrightarrow> unat virt + unat sz \<le> 0xC0000000 \<Longrightarrow>
    arch_vm_protect (Some vm) virt sz flags t = (r, u) \<Longrightarrow> vm_run vm s u"

lemma user_pages_ok:
  assumes "table_at (pd_phys vm) F" and "\<not> bad_range virt sz" and "unat virt + unat sz \<le> 0xC0000000"
  shows "pages_ok vm F virt (unat sz div 4096) {..<768}"
proof (rule pages_okI [OF assms(1,2)])
  show "unat virt + unat sz \<le> 2 ^ 32" using assms(3) by simp
  fix i assume "i < unat sz div 4096"
  then have "i + 1 \<le> unat sz div 4096" by simp
  then have "(i + 1) * 4096 \<le> unat sz" by (subst (asm) less_eq_div_iff_mult_less_eq) simp_all
  then have "(unat virt div 4096 + i) * 4096 < 0xC0000 * 4096"
    using assms(3) div_times_less_eq_dividend [of "unat virt" 4096] unfolding add_mult_distrib by linarith
  then have "unat virt div 4096 + i < 0xC0000" unfolding mult_less_cancel2 by blast
  then show "(unat virt div 4096 + i) div 1024 \<in> {..<768}" by simp
qed

lemma vm_run_kept:
  assumes "vm_run vm s t" and "vm_inv s F" and pd: "table_at (pd_phys vm) F"
  shows "vm_inv t F \<and> kept {..<768} F s t"
  using assms(1,2)
proof induction
  case (vm_start s)
  then show ?case by (simp add: kept_refl)
next
  case (vm_mapped s t virt sz phys flags r u)
  then have IH: "vm_inv t F" "kept {..<768} F s t" by auto
  show ?case
  proof (cases "bad_range virt sz \<or> unat phys mod 4096 \<noteq> 0")
    case True
    then show ?thesis using vm_mapped.hyps(3) IH by (simp add: arch_vm_range_cases)
  next
    case False
    then have ok: "pages_ok vm F virt (unat sz div 4096) {..<768}"
      using user_pages_ok [OF pd] vm_mapped.hyps(2) by blast
    from map_range.run [OF conjI [OF IH(1) ok], of phys flags r u] vm_mapped.hyps(3) False IH(2)
    show ?thesis by (auto simp: arch_vm_range_cases simp del: of_nat_mult intro: kept_trans)
  qed
next
  case (vm_unmapped s t virt sz r u)
  then have IH: "vm_inv t F" "kept {..<768} F s t" by auto
  show ?case
  proof (cases "bad_range virt sz")
    case True
    then show ?thesis using vm_unmapped.hyps(3) IH by (simp add: arch_vm_range_cases)
  next
    case False
    note ok = user_pages_ok [OF pd this vm_unmapped.hyps(2)]
    from unmap_range.run [OF conjI [OF IH(1) ok], of r u] vm_unmapped.hyps(3) False IH(2)
    show ?thesis by (auto simp: arch_vm_range_cases intro: kept_trans)
  qed
next
  case (vm_protected s t virt sz flags r u)
  then have IH: "vm_inv t F" "kept {..<768} F s t" by auto
  show ?case
  proof (cases "bad_range virt sz")
    case True
    then show ?thesis using vm_protected.hyps(3) IH by (simp add: arch_vm_range_cases)
  next
    case False
    note ok = user_pages_ok [OF pd this vm_protected.hyps(2)]
    from protect_range.run [OF conjI [OF IH(1) ok], of flags r u] vm_protected.hyps(3) False IH(2)
    show ?thesis by (auto simp: arch_vm_range_cases intro: kept_trans)
  qed
qed

subsection \<open>Creating, attaching and destroying a space\<close>

lemma arch_vm_space_init_cases:
  assumes inv: "pmm_inv (xm_pmm s)" and run: "arch_vm_space_init True s = (r, s')"
  shows "r = Inl KERR_NOMEM \<and> s' = s \<or>
    (\<exists>vm F. r = Inr vm \<and> table_at (pd_phys vm) F \<and> vm_inv s' F \<and> frame_free (xm_pmm s) F
       \<and> (\<forall>k. frame_free (xm_pmm s') k \<longleftrightarrow> frame_free (xm_pmm s) k \<and> k \<noteq> F)
       \<and> frame_managed (xm_pmm s') = frame_managed (xm_pmm s)
       \<and> (\<forall>i<1024. pde s' F i = 0) \<and> (\<forall>f i. f \<noteq> F \<and> i < 1024 \<longrightarrow> xm_mem s' (slot f i) = xm_mem s (slot f i)))"
  using vm_alloc_lowmem_cases [OF inv]
proof
  assume "vm_alloc_lowmem s = (Inl KERR_NOMEM, s)"
  then show ?thesis using run by (simp add: arch_vm_space_init_def kerr_try_def)
next
  assume "\<exists>a f p. vm_alloc_lowmem s = (Inr a, s\<lparr>xm_pmm := p\<rparr>) \<and> table_at a f \<and> pmm_inv p
           \<and> frame_managed p = frame_managed (xm_pmm s) \<and> frame_free (xm_pmm s) f
           \<and> (\<forall>k. frame_free p k \<longleftrightarrow> frame_free (xm_pmm s) k \<and> k \<noteq> f)"
  then obtain a f p where a: "vm_alloc_lowmem s = (Inr a, s\<lparr>xm_pmm := p\<rparr>)" "table_at a f" "pmm_inv p"
    "frame_managed p = frame_managed (xm_pmm s)" "frame_free (xm_pmm s) f"
    "\<forall>k. frame_free p k \<longleftrightarrow> frame_free (xm_pmm s) k \<and> k \<noteq> f" by blast
  have r: "r = Inr \<lparr>pd_phys = a\<rparr>" and s': "s' = clear_table a (s\<lparr>xm_pmm := p\<rparr>)"
    using run a(1) by (auto simp: arch_vm_space_init_def kerr_try_def)
  have mem: "xm_mem s' (slot g i) = (if g = f then 0 else xm_mem s (slot g i))" if "i < 1024" for g i
    using that by (auto simp: s' clear_table_slot [OF a(2)] slot_inj)
  have p: "xm_pmm s' = p" by (simp add: s' clear_table_slot [OF a(2)])
  have pd: "pde s' f i = 0" if "i < 1024" for i using that by (simp add: pde_def mem)
  have "frame_managed p f" using a(4,5) by (simp add: frame_managed_def frame_free_def)
  then have "vm_inv s' f"
    using a pd by (auto simp: vm_inv_def p owned_def table_at_def is_table_def present_def)
  then show ?thesis using r a p pd mem by auto
qed

lemma arch_vm_space_attach_mem:
  assumes F: "table_at (pd_phys vm) F" and K: "table_at (pd_phys kvm) K" and FK: "F \<noteq> K"
    and s'_def: "s' = snd (arch_vm_space_attach_kernel (Some vm) (Some kvm) s)"
  shows "arch_vm_space_attach_kernel (Some vm) (Some kvm) s = (Inr (), s')" and "xm_pmm s' = xm_pmm s"
    and "\<And>f i. i < 1024 \<Longrightarrow> xm_mem s' (slot f i) =
      (if f = F \<and> 768 \<le> i then xm_mem s (slot K i) else xm_mem s (slot f i))"
proof -
  have n: "xm_pmm t = xm_pmm s \<and> (\<forall>f i. i < 1024 \<longrightarrow> xm_mem t (slot f i) =
      (if f = F \<and> 768 \<le> i \<and> i < n then xm_mem s (slot K i) else xm_mem s (slot f i)))"
    if "n \<le> 1024" "768 \<le> n" "t = fold (\<lambda>i s. st_entry (pd_phys vm) (of_nat i) (ld_entry s (pd_phys kvm) (of_nat i)) s) [768..<n] s"
    for n t
    using that(2,1,3)
  proof (induction n arbitrary: t rule: dec_induct)
    case (step n)
    have u: "unat (of_nat n :: u32) = n" using step.prems by (simp add: unat_of_nat_small)
    let ?u = "fold (\<lambda>i s. st_entry (pd_phys vm) (of_nat i) (ld_entry s (pd_phys kvm) (of_nat i)) s) [768..<n] s"
    have IH: "xm_pmm ?u = xm_pmm s" "\<forall>f i. i < 1024 \<longrightarrow> xm_mem ?u (slot f i) =
        (if f = F \<and> 768 \<le> i \<and> i < n then xm_mem s (slot K i) else xm_mem s (slot f i))"
      using step.IH [OF _ refl] step.prems(1) by auto
    have t: "t = ?u\<lparr>xm_mem := (xm_mem ?u)(slot F n := xm_mem ?u (slot K n))\<rparr>"
      using step.prems step.hyps(1) st_entry_slot [OF F, of "of_nat n"] ld_entry_slot [OF K, of "of_nat n"] u by simp
    show ?case using IH step.prems(1) step.hyps(1) FK unfolding t by (auto simp: slot_inj less_Suc_eq)
  qed auto
  have s': "s' = fold (\<lambda>i s. st_entry (pd_phys vm) (of_nat i) (ld_entry s (pd_phys kvm) (of_nat i)) s) [768..<1024] s"
    by (simp add: s'_def arch_vm_space_attach_kernel_def X86_KERNEL_PDE_BASE_def X86_PDE_COUNT_def
        del: upt_rec_numeral)
  show "arch_vm_space_attach_kernel (Some vm) (Some kvm) s = (Inr (), s')"
    by (simp add: s' arch_vm_space_attach_kernel_def X86_KERNEL_PDE_BASE_def X86_PDE_COUNT_def
        del: upt_rec_numeral)
  show "xm_pmm s' = xm_pmm s" and "\<And>f i. i < 1024 \<Longrightarrow> xm_mem s' (slot f i) =
      (if f = F \<and> 768 \<le> i then xm_mem s (slot K i) else xm_mem s (slot f i))"
    using n [OF _ _ s'] by auto
qed

lemma kerr_for_append:
  "kerr_for (xs @ ys) body s = kerr_try (kerr_for xs body) (\<lambda>_. kerr_for ys body) s"
  by (induction xs arbitrary: s) (auto simp: kerr_try_def split: prod.splits sum.splits)

lemma tables_Suc:
  "tables {..<Suc n} s F = tables {..<n} s F \<union> (if n < 1024 \<and> is_table (pde s F n) then {frame_of (pde s F n)} else {})"
  by (auto simp: tables_def less_Suc_eq)

lemma vm_pmm_free_ok:
  assumes "pmm_inv (xm_pmm s)" and "frame_managed (xm_pmm s) f" and "\<not> frame_free (xm_pmm s) f" and "unat a = 4096 * f"
  shows "\<exists>p. vm_pmm_free a s = (Inr (), s\<lparr>xm_pmm := p\<rparr>) \<and> pmm_inv p \<and> frame_managed p = frame_managed (xm_pmm s)
    \<and> (\<forall>k. frame_free p k \<longleftrightarrow> frame_free (xm_pmm s) k \<or> k = f)"
  using pmm_free_one [OF assms] by (auto simp: vm_pmm_free_def kzoom_def)

lemma destroy_tables:
  assumes inv: "vm_inv s F" and pd: "table_at (pd_phys vm) F" and n: "n \<le> 768"
  shows "\<exists>p. kerr_for [0..<n]
      (\<lambda>i s. let pde = ld_entry s (pd_phys vm) (of_nat i)
             in if \<not> MASK_TEST pde X86_PDE_PRESENT then kret () s
                else if MASK_TEST pde X86_PDE_PAGE_SIZE then kret () s
                else vm_pmm_free (ucast (pde AND X86_PAGE_MASK)) s) s = (Inr (), s\<lparr>xm_pmm := p\<rparr>)
    \<and> pmm_inv p \<and> frame_managed p = frame_managed (xm_pmm s)
    \<and> (\<forall>k. frame_free p k \<longleftrightarrow> frame_free (xm_pmm s) k \<or> k \<in> tables {..<n} s F)"
    (is "\<exists>p. kerr_for _ ?body s = _ \<and> ?P n p")
  using n
proof (induction n)
  case 0
  then show ?case using vm_invD(1) [OF inv] by (intro exI [of _ "xm_pmm s"]) (simp add: tables_def)
next
  case (Suc n)
  then obtain p where p: "kerr_for [0..<n] ?body s = (Inr (), s\<lparr>xm_pmm := p\<rparr>)" "?P n p" by auto
  let ?t = "s\<lparr>xm_pmm := p\<rparr>"
  have n: "n < 1024" "unat (of_nat n :: u32) = n" using Suc.prems by (simp_all add: unat_of_nat_small)
  have ld: "ld_entry ?t (pd_phys vm) (of_nat n) = pde s F n"
    using n by (simp add: ld_entry_slot [OF pd] pde_def)
  have "\<exists>q. ?body n ?t = (Inr (), ?t\<lparr>xm_pmm := q\<rparr>) \<and> ?P (Suc n) q"
  proof (cases "is_table (pde s F n)")
    case False
    then show ?thesis using p(2) n by (intro exI [of _ p]) (auto simp: Let_def ld tables_Suc is_table_def)
  next
    case True
    let ?f = "frame_of (pde s F n)"
    have "owned s ?f" by (rule vm_invD(3) [OF inv n(1) True])
    moreover have "?f \<notin> tables {..<n} s F"
      using vm_invD(5) [OF inv _ n(1) _ True] n by (auto simp: tables_def)
    ultimately have "frame_managed p ?f" "\<not> frame_free p ?f" using p(2) by (auto simp: owned_def)
    then obtain q where "vm_pmm_free (ucast (pde s F n AND X86_PAGE_MASK)) ?t = (Inr (), ?t\<lparr>xm_pmm := q\<rparr>)"
        "pmm_inv q" "frame_managed q = frame_managed p" "\<forall>k. frame_free q k \<longleftrightarrow> frame_free p k \<or> k = ?f"
      using vm_pmm_free_ok [of ?t ?f "ucast (pde s F n AND X86_PAGE_MASK)"] p(2) by (auto simp: unat_page_mask)
    then show ?thesis using True p(2) n by (intro exI [of _ q]) (auto simp: Let_def ld tables_Suc is_table_def)
  qed
  then show ?case using p(1) by (auto simp: kerr_for_append kerr_try_def)
qed

lemma arch_vm_space_destroy_ok:
  assumes inv: "vm_inv s F" and pd: "table_at (pd_phys vm) F"
  shows "\<exists>p. arch_vm_space_destroy (Some vm) s = (Inr (vm\<lparr>pd_phys := 0\<rparr>), s\<lparr>xm_pmm := p\<rparr>)
    \<and> pmm_inv p \<and> frame_managed p = frame_managed (xm_pmm s)
    \<and> (\<forall>k. frame_free p k \<longleftrightarrow> k \<in> reach {..<768} F s)"
proof -
  obtain p where p: "kerr_for [0..<768]
      (\<lambda>i s. let pde = ld_entry s (pd_phys vm) (of_nat i)
             in if \<not> MASK_TEST pde X86_PDE_PRESENT then kret () s
                else if MASK_TEST pde X86_PDE_PAGE_SIZE then kret () s
                else vm_pmm_free (ucast (pde AND X86_PAGE_MASK)) s) s = (Inr (), s\<lparr>xm_pmm := p\<rparr>)"
    "pmm_inv p" "frame_managed p = frame_managed (xm_pmm s)"
    "\<forall>k. frame_free p k \<longleftrightarrow> frame_free (xm_pmm s) k \<or> k \<in> tables {..<768} s F"
    using destroy_tables [OF inv pd, of 768] by auto
  have "frame_managed p F" "\<not> frame_free p F" using dir_not_table [OF inv] vm_invD(2) [OF inv] p(3,4) by (auto simp: owned_def)
  then obtain q where "vm_pmm_free (pd_phys vm) (s\<lparr>xm_pmm := p\<rparr>) = (Inr (), s\<lparr>xm_pmm := q\<rparr>)"
      "pmm_inv q" "frame_managed q = frame_managed p" "\<forall>k. frame_free q k \<longleftrightarrow> frame_free p k \<or> k = F"
    using vm_pmm_free_ok [of "s\<lparr>xm_pmm := p\<rparr>" F "pd_phys vm"] p(2) pd by (auto simp: table_at_def)
  then show ?thesis using p
    by (intro exI [of _ q]) (auto simp: arch_vm_space_destroy_def X86_KERNEL_PDE_BASE_def kerr_try_def reach_def)
qed

subsection \<open>The claims\<close>

lemma user_reach_disjoint:
  assumes inv: "vm_inv s F" "vm_inv s G"
    and d: "F \<notin> space_frames s G" "tables {..<768} s F \<inter> space_frames s G = {}"
  shows "reach {..<768} F s \<inter> space_frames s G = {}"
  using space_frames_owned [OF inv(2)] d by (auto simp: reach_def owned_def)

lemma translates_same:
  assumes "vm_inv s G" "vm_inv s' G" and "table_at (pd_phys vm) G" and "lookup s' G = lookup s G"
    and "\<And>v. v < 0x100000 \<Longrightarrow> large_at s' G v = large_at s G v"
  shows "translates vm s' a = translates vm s a"
proof -
  have "unat a div 4096 < 0x100000" using unat32_lt [of a] by (simp del: unat32_lt)
  from assms(5) [OF this] show ?thesis
    by (simp add: translates_lookup [OF assms(1,3)] translates_lookup [OF assms(2,3)] assms(4))
qed

text \<open>
  C8. Isolation. Whatever sequence of mapping, unmapping and protecting user memory is run on one
  address space, with whatever outcomes, every address of another space that does not share user
  page tables with it translates as before (the two may share all kernel page tables), and
  both spaces stay well-formed.
\<close>

theorem vm_spaces_isolated:
  assumes inv: "vm_inv s F" "vm_inv s G" and pd: "table_at (pd_phys vm) F" "table_at (pd_phys other) G"
    and apart: "F \<notin> space_frames s G" "tables {..<768} s F \<inter> space_frames s G = {}"
    and run: "vm_run vm s t"
  shows "translates other t a = translates other s a \<and> vm_inv t F \<and> vm_inv t G"
proof -
  have k: "vm_inv t F" "kept {..<768} F s t" using vm_run_kept [OF run inv(1) pd(1)] by auto
  note S = kept_space_same [OF k(2) inv(2) vm_invD(1) [OF k(1)] user_reach_disjoint [OF inv apart]]
  have "translates other t a = translates other s a"
    by (rule translates_same [OF inv(2) S(1) pd(2) S(2) S(4)])
  then show ?thesis using k(1) S(1) by simp
qed

lemma attach_vm_inv:
  assumes inv: "vm_inv s F" "vm_inv s K" and pd: "table_at (pd_phys vm) F" "table_at (pd_phys kvm) K"
    and apart: "F \<notin> space_frames s K" "K \<notin> tables UNIV s F" "tables {..<768} s F \<inter> tables UNIV s K = {}"
    and run: "arch_vm_space_attach_kernel (Some vm) (Some kvm) s = (r, s')"
  shows "r = Inr ()" and "xm_pmm s' = xm_pmm s" and "vm_inv s' F" and "vm_inv s' K"
    and "\<And>i. i < 1024 \<Longrightarrow> pde s' F i = (if i < 768 then pde s F i else pde s K i)"
    and "\<And>f i. f \<noteq> F \<Longrightarrow> i < 1024 \<Longrightarrow> xm_mem s' (slot f i) = xm_mem s (slot f i)"
    and "lookup s' K = lookup s K"
proof -
  have FK: "F \<noteq> K" using apart(1) by (auto simp: space_frames_def)
  note A = arch_vm_space_attach_mem [OF pd FK refl, where s = s]
  have r: "r = Inr ()" and s': "s' = snd (arch_vm_space_attach_kernel (Some vm) (Some kvm) s)"
    using run A(1) by auto
  note A = A [folded s']
  show "r = Inr ()" by (rule r)
  show "xm_pmm s' = xm_pmm s" by (rule A(2))
  show mem: "\<And>f i. f \<noteq> F \<Longrightarrow> i < 1024 \<Longrightarrow> xm_mem s' (slot f i) = xm_mem s (slot f i)" using A(3) by simp
  show pdF: "\<And>i. i < 1024 \<Longrightarrow> pde s' F i = (if i < 768 then pde s F i else pde s K i)"
    using A(3) by (simp add: pde_def)
  have own: "owned s' = owned s" using A(2) by (simp add: owned_def fun_eq_iff)
  have memK: "xm_mem s' (slot f i) = xm_mem s (slot f i)" if "f \<in> space_frames s K" "i < 1024" for f i
    using mem that apart(1) by metis
  have "pmm_inv (xm_pmm s')" using A(2) vm_invD(1) [OF inv(1)] by simp
  note S = space_same [OF inv(2) this space_frames_owned [OF inv(2), folded own] memK]
  show "vm_inv s' K" and "lookup s' K = lookup s K" by (rule S(1,2); assumption)+
  note F = vm_invD [OF inv(1)] and K = vm_invD [OF inv(2)]
  have tF: "frame_of (pde s F i) \<in> tables {..<768} s F" if "i < 768" "is_table (pde s F i)" for i
    using that by (auto intro!: frame_of_in_tables)
  have tK: "frame_of (pde s K i) \<in> tables UNIV s K" if "i < 1024" "is_table (pde s K i)" for i
    using that by (auto intro!: frame_of_in_tables)
  have ne: "frame_of (pde s F i) \<noteq> frame_of (pde s K j)"
    if "i < 768" "is_table (pde s F i)" "j < 1024" "is_table (pde s K j)" for i j
    using tF [OF that(1,2)] tK [OF that(3,4)] apart(3) by auto
  have nF: "frame_of (pde s K i) \<noteq> F" if "i < 1024" "is_table (pde s K i)" for i
    using tK [OF that] apart(1) by (auto simp: space_frames_def)
  show "vm_inv s' F"
    unfolding vm_inv_def using F K A(2) ne ne [THEN not_sym] nF by (auto simp: own pdF)
qed

lemma kernel_map_kept:
  assumes inv: "vm_inv s K" and pd: "table_at (pd_phys kvm) K"
    and v: "0xC0000000 \<le> unat virt" "unat virt + unat sz \<le> 2 ^ 32"
    and run: "arch_vm_map (Some kvm) virt phys sz flags s = (r, s')"
  shows "vm_inv s' K \<and> kept {768..<1024} K s s'"
proof (cases "bad_range virt sz \<or> unat phys mod 4096 \<noteq> 0")
  case True
  then show ?thesis using run inv by (simp add: arch_vm_range_cases kept_refl)
next
  case False
  have ok: "pages_ok kvm K virt (unat sz div 4096) {768..<1024}"
  proof (rule pages_okI [OF pd _ v(2)])
    fix i assume "i < unat sz div 4096"
    then have "i + 1 \<le> unat sz div 4096" by simp
    then have "(i + 1) * 4096 \<le> unat sz" by (subst (asm) less_eq_div_iff_mult_less_eq) simp_all
    then have "(unat virt div 4096 + i) * 4096 < 0x100000 * 4096"
      using v(2) div_times_less_eq_dividend [of "unat virt" 4096] unfolding add_mult_distrib by simp
    then have "unat virt div 4096 + i < 0x100000" unfolding mult_less_cancel2 by blast
    moreover have "0xC0000 \<le> unat virt div 4096" using v(1) by (simp add: less_eq_div_iff_mult_less_eq)
    ultimately show "(unat virt div 4096 + i) div 1024 \<in> {768..<1024}" by (simp add: less_eq_div_iff_mult_less_eq div_less_iff_less_mult)
  qed (use False in simp)
  from map_range.run [OF conjI [OF inv ok], of phys flags r s'] run False
  show ?thesis by (auto simp: arch_vm_range_cases simp del: of_nat_mult)
qed

text \<open>
  C10. The kernel half is shared. Once the kernel's page directory entries, all present, have been
  attached to a space, every kernel address translates in that space as in the kernel's own, and
  it still does after any later mapping of kernel memory through the kernel's space.
\<close>

theorem vm_kernel_half_shared:
  assumes inv: "vm_inv s F" "vm_inv s K" and pd: "table_at (pd_phys vm) F" "table_at (pd_phys kvm) K"
    and apart: "F \<notin> space_frames s K" "K \<notin> tables UNIV s F" "tables {..<768} s F \<inter> tables UNIV s K = {}"
    and prepared: "\<And>i. 768 \<le> i \<Longrightarrow> i < 1024 \<Longrightarrow> is_table (pde s K i)"
    and attach: "arch_vm_space_attach_kernel (Some vm) (Some kvm) s = (r, s1)"
    and v: "0xC0000000 \<le> unat virt" "unat virt + unat sz \<le> 2 ^ 32"
    and kmap: "arch_vm_map (Some kvm) virt phys sz flags s1 = (q, s2)"
    and a: "0xC0000000 \<le> unat a"
  shows "r = Inr () \<and> translates vm s2 a = translates kvm s2 a"
proof -
  note A = attach_vm_inv [OF inv pd apart attach]
  have FK: "F \<noteq> K" using apart(1) by (auto simp: space_frames_def)
  have K: "vm_inv s2 K" "kept {768..<1024} K s1 s2" using kernel_map_kept [OF A(4) pd(2) v kmap] by auto
  have pdK1: "pde s1 K i = pde s K i" if "i < 1024" for i using A(6) [OF FK [symmetric] that] by (simp add: pde_def)
  have pdK2: "pde s2 K i = pde s K i" if "768 \<le> i" "i < 1024" for i
    using K(2) prepared [OF that] pdK1 [of i] that unfolding kept_def by (auto simp: entry_kept_def is_table_def)
  have t1: "tables I s1 K = tables I s K" for I by (rule tables_cong) (rule pdK1)
  have "F \<notin> tables {768..<1024} s1 K"
    unfolding t1 using apart(1) tables_UNIV [of "{768..<1024}" s K] by (auto simp: space_frames_def)
  then have "F \<notin> reach {768..<1024} K s1" using FK vm_invD(2) [OF inv(1)] by (auto simp: reach_def A(2) owned_def)
  then have "xm_mem s2 (slot F i) = xm_mem s1 (slot F i)" if "i < 1024" for i
    using that by (rule kept_mem [OF K(2)])
  then have pdF: "pde s2 F i = (if i < 768 then pde s F i else pde s K i)" if "i < 1024" for i
    using A(5) [OF that] that by (simp add: pde_def)
  have F2: "vm_inv s2 F"
    using vm_invD [OF A(3)] vm_invD(1) [OF K(1)] owned_kept [OF K(2)] unfolding vm_inv_def
    by (auto simp: pdF A(5))
  have v: "768 \<le> unat a div 4096 div 1024" "unat a div 4096 div 1024 < 1024"
    using a unat32_lt [of a] by (simp_all add: less_eq_div_iff_mult_less_eq del: unat32_lt)
  then have eq: "pde s2 F (unat a div 4096 div 1024) = pde s2 K (unat a div 4096 div 1024)"
    using pdF pdK2 by auto
  then have "lookup s2 F (unat a div 4096) = lookup s2 K (unat a div 4096)"
      "large_at s2 F (unat a div 4096) = large_at s2 K (unat a div 4096)"
    by (simp_all add: lookup_def large_at_def)
  then have "translates vm s2 a = translates kvm s2 a"
    by (simp add: translates_lookup [OF F2 pd(1)] translates_lookup [OF K(1) pd(2)])
  with A(1) show ?thesis by simp
qed

text \<open>A space that was created and got the kernel half attached.\<close>

lemma space_created:
  assumes inv: "vm_inv s K" and pd: "table_at (pd_phys kvm) K"
    and init: "arch_vm_space_init True s = (Inr vm, s1)"
    and attach: "arch_vm_space_attach_kernel (Some vm) (Some kvm) s1 = (r, s2)"
  obtains F where "table_at (pd_phys vm) F" and "frame_free (xm_pmm s) F" and "r = Inr ()" and "vm_inv s2 F" and "vm_inv s2 K"
    and "\<forall>k. frame_free (xm_pmm s2) k \<longleftrightarrow> frame_free (xm_pmm s) k \<and> k \<noteq> F"
    and "tables {..<768} s2 F = {}" and "space_frames s2 K = space_frames s K" and "F \<notin> space_frames s K"
    and "lookup s2 K = lookup s K" and "\<forall>v<0x100000. large_at s2 K v = large_at s K v"
    and "\<forall>i<1024. pde s2 K i = pde s K i" and "frame_managed (xm_pmm s2) = frame_managed (xm_pmm s)"
proof -
  obtain F where F: "table_at (pd_phys vm) F" "vm_inv s1 F" "frame_free (xm_pmm s) F"
      "\<forall>k. frame_free (xm_pmm s1) k \<longleftrightarrow> frame_free (xm_pmm s) k \<and> k \<noteq> F"
      "frame_managed (xm_pmm s1) = frame_managed (xm_pmm s)" "\<forall>i<1024. pde s1 F i = 0"
      "\<forall>f i. f \<noteq> F \<and> i < 1024 \<longrightarrow> xm_mem s1 (slot f i) = xm_mem s (slot f i)"
    using arch_vm_space_init_cases [OF vm_invD(1) [OF inv] init] by auto
  have FK: "F \<notin> space_frames s K" using space_frames_owned [OF inv, of F] F(3) by (auto simp: owned_def)
  have nt: "tables I s1 F = {}" for I using F(6) by (auto simp: tables_def is_table_def present_def)
  have own: "owned s1 f" if "f \<in> space_frames s K" for f
    using space_frames_owned [OF inv that] that FK F(4,5) by (auto simp: owned_def)
  have mem: "xm_mem s1 (slot f i) = xm_mem s (slot f i)" if "f \<in> space_frames s K" "i < 1024" for f i
    using F(7) that FK by auto
  have S1: "vm_inv s1 K" "lookup s1 K = lookup s K" "tables UNIV s1 K = tables UNIV s K"
      "\<And>v. v < 0x100000 \<Longrightarrow> large_at s1 K v = large_at s K v" "\<And>i. i < 1024 \<Longrightarrow> pde s1 K i = pde s K i"
    by (rule space_same [OF inv vm_invD(1) [OF F(2)] own mem]; assumption)+
  have sf1: "space_frames s1 K = space_frames s K" by (simp add: space_frames_def S1(3))
  note A = attach_vm_inv [OF F(2) S1(1) F(1) pd _ _ _ attach, unfolded sf1 nt, OF FK]
  have A: "r = Inr ()" "xm_pmm s2 = xm_pmm s1" "vm_inv s2 F" "vm_inv s2 K" "lookup s2 K = lookup s1 K"
      "\<And>i. i < 1024 \<Longrightarrow> pde s2 F i = (if i < 768 then pde s1 F i else pde s1 K i)"
      "\<And>i. i < 1024 \<Longrightarrow> pde s2 K i = pde s1 K i"
    using A FK by (auto simp: pde_def space_frames_def)
  have nt2: "tables {..<768} s2 F = {}" using A(6) F(6) by (auto simp: tables_def is_table_def present_def)
  have "tables UNIV s2 K = tables UNIV s1 K" by (rule tables_cong) (rule A(7))
  then have sf2: "space_frames s2 K = space_frames s K" using sf1 by (simp add: space_frames_def)
  have "large_at s2 K v = large_at s K v" if "v < 0x100000" for v
    using that S1(4) by (simp add: large_at_def A(7))
  then show ?thesis using that F(1,3,4,5) A(1,2,3,4,5,7) nt2 sf2 FK S1(2,5) by simp
qed

text \<open>
  C9. The life of an address space leaks nothing. A space is created, gets the kernel half
  attached, and any sequence of mapping, unmapping and protecting user memory is run on it, with
  whatever outcomes. Then destroying it succeeds, exactly the frames that were free before it was
  created are free again, and the kernel's own space translates as before.
\<close>

theorem vm_space_lifecycle:
  assumes inv: "vm_inv s K" and pd: "table_at (pd_phys kvm) K"
    and init: "arch_vm_space_init True s = (Inr vm, s1)"
    and attach: "arch_vm_space_attach_kernel (Some vm) (Some kvm) s1 = (r, s2)"
    and run: "vm_run vm s2 s3"
  shows "\<exists>s4. arch_vm_space_destroy (Some vm) s3 = (Inr \<lparr>pd_phys = 0\<rparr>, s4) \<and> pmm_inv (xm_pmm s4)
     \<and> (\<forall>k. frame_free (xm_pmm s4) k \<longleftrightarrow> frame_free (xm_pmm s) k)
     \<and> (\<forall>a. translates kvm s4 a = translates kvm s a)"
proof -
  obtain F where F: "table_at (pd_phys vm) F" "frame_free (xm_pmm s) F" "r = Inr ()" "vm_inv s2 F" "vm_inv s2 K"
      "\<forall>k. frame_free (xm_pmm s2) k \<longleftrightarrow> frame_free (xm_pmm s) k \<and> k \<noteq> F"
      "tables {..<768} s2 F = {}" "space_frames s2 K = space_frames s K" "F \<notin> space_frames s K"
      "lookup s2 K = lookup s K" "\<forall>v<0x100000. large_at s2 K v = large_at s K v"
      "\<forall>i<1024. pde s2 K i = pde s K i"
    by (rule space_created [OF inv pd init attach])
  have k: "vm_inv s3 F" "kept {..<768} F s2 s3" using vm_run_kept [OF run F(4,1)] by auto
  have disj: "reach {..<768} F s2 \<inter> space_frames s2 K = {}"
    by (rule user_reach_disjoint [OF F(4,5)]) (simp_all add: F(7,8,9))
  note S3 = kept_space_same [OF k(2) F(5) vm_invD(1) [OF k(1)] disj]
  have sf3: "space_frames s3 K = space_frames s2 K" by (simp add: space_frames_def S3(3))
  obtain p where p: "arch_vm_space_destroy (Some vm) s3 = (Inr (vm\<lparr>pd_phys := 0\<rparr>), s3\<lparr>xm_pmm := p\<rparr>)"
    "pmm_inv p" "frame_managed p = frame_managed (xm_pmm s3)" "\<forall>k. frame_free p k \<longleftrightarrow> k \<in> reach {..<768} F s3"
    using arch_vm_space_destroy_ok [OF k(1) F(1)] by blast
  have reach: "reach {..<768} F s3 = reach {..<768} F s2" using k(2) by (simp add: kept_def)
  have free: "frame_free p k \<longleftrightarrow> frame_free (xm_pmm s) k" for k
    using p(4) F(2,6,7) unfolding reach by (auto simp: reach_def)
  have own4: "owned (s3\<lparr>xm_pmm := p\<rparr>) f" if "f \<in> space_frames s3 K" for f
    using space_frames_owned [OF S3(1) that] p(3,4) disj that unfolding sf3 reach by (auto simp: owned_def)
  have S4: "vm_inv (s3\<lparr>xm_pmm := p\<rparr>) K" "lookup (s3\<lparr>xm_pmm := p\<rparr>) K = lookup s3 K"
      "\<And>v. v < 0x100000 \<Longrightarrow> large_at (s3\<lparr>xm_pmm := p\<rparr>) K v = large_at s3 K v"
    by (rule space_same [OF S3(1) _ own4]; simp add: p(2))+
  have "translates kvm (s3\<lparr>xm_pmm := p\<rparr>) a = translates kvm s a" for a
    by (rule translates_same [OF inv S4(1) pd]) (simp_all add: S4 S3(2,4) F(10,11))
  moreover have "vm\<lparr>pd_phys := 0\<rparr> = \<lparr>pd_phys = 0\<rparr>" by simp
  ultimately show ?thesis using p(1,2) free by (intro exI [of _ "s3\<lparr>xm_pmm := p\<rparr>"]) simp
qed

subsection \<open>Witnesses\<close>

lemma sample_apart: "257 \<notin> space_frames x86_sample 0" "0 \<notin> space_frames x86_sample 257"
  using sample_tables(1) [of UNIV] sample_tables(2) [of UNIV] by (auto simp: space_frames_def)

theorem vm_spaces_isolated_witness:
  "\<exists>r t. arch_vm_map (Some vm_sample) 0x400000 0x800000 0x2000 VM_WRITE x86_sample = (r, t)
     \<and> translates kvm_sample t 0xC0000000 = translates kvm_sample x86_sample 0xC0000000"
proof -
  obtain r t where run: "arch_vm_map (Some vm_sample) 0x400000 0x800000 0x2000 VM_WRITE x86_sample = (r, t)" by fastforce
  then have "vm_run vm_sample x86_sample t" by (rule vm_mapped [OF vm_start, rotated]) simp
  from vm_spaces_isolated [OF sample_space_inv sample_kernel_inv sample_table_at sample_apart(1) _ this]
  show ?thesis using run by (auto simp: sample_tables(1))
qed

theorem vm_kernel_half_shared_witness:
  "\<exists>s1 q s2. arch_vm_space_attach_kernel (Some vm_sample) (Some kvm_sample) x86_sample = (Inr (), s1)
     \<and> arch_vm_map (Some kvm_sample) 0xF0000000 0x100000 0x1000 VM_WRITE s1 = (q, s2)
     \<and> translates vm_sample s2 0xF0000000 = translates kvm_sample s2 0xF0000000"
proof -
  obtain r s1 where a: "arch_vm_space_attach_kernel (Some vm_sample) (Some kvm_sample) x86_sample = (r, s1)" by fastforce
  obtain q s2 where m: "arch_vm_map (Some kvm_sample) 0xF0000000 0x100000 0x1000 VM_WRITE s1 = (q, s2)" by fastforce
  have "r = Inr () \<and> translates vm_sample s2 0xF0000000 = translates kvm_sample s2 0xF0000000"
    by (rule vm_kernel_half_shared [OF sample_space_inv sample_kernel_inv sample_table_at sample_apart(1) _ _
          sample_pde_kernel(1) a _ _ m]) (simp_all add: sample_tables(1))
  with a m show ?thesis by auto
qed

theorem vm_space_lifecycle_witness:
  "\<exists>vm s1 s2 s3 s4 r q. arch_vm_space_init True x86_sample = (Inr vm, s1)
     \<and> arch_vm_space_attach_kernel (Some vm) (Some kvm_sample) s1 = (q, s2)
     \<and> arch_vm_map (Some vm) 0x400000 0x800000 0x2000 VM_WRITE s2 = (r, s3)
     \<and> arch_vm_space_destroy (Some vm) s3 = (Inr \<lparr>pd_phys = 0\<rparr>, s4)
     \<and> frame_free (xm_pmm s4) 288 \<and> \<not> frame_free (xm_pmm s4) 0"
proof -
  have "frame_free (xm_pmm x86_sample) 288" by (simp add: sample_frame_free)
  then obtain a t where "vm_alloc_lowmem x86_sample = (Inr a, t)"
    using vm_alloc_lowmem_succeeds [OF sample_pmm_inv, of 288] by (auto simp: LOWMEM_FRAMES_def)
  then obtain vm s1 where i: "arch_vm_space_init True x86_sample = (Inr vm, s1)"
    by (simp add: arch_vm_space_init_def kerr_try_def)
  obtain q s2 where a: "arch_vm_space_attach_kernel (Some vm) (Some kvm_sample) s1 = (q, s2)" by fastforce
  obtain r s3 where m: "arch_vm_map (Some vm) 0x400000 0x800000 0x2000 VM_WRITE s2 = (r, s3)" by fastforce
  then have "vm_run vm s2 s3" by (rule vm_mapped [OF vm_start, rotated]) simp
  from vm_space_lifecycle [OF sample_kernel_inv sample_table_at(2) i a this] i a m show ?thesis
    by (fastforce simp: sample_frame_free)
qed

end
