(* ===== verification/Kernel_Vm.thy ===== *)
theory Kernel_Vm
  imports X86_Spaces Kheap_Props
begin

text \<open>
  The kernel's own address space, \<^verbatim>\<open>src/kernel/mm/kernel_vm.c\<close>. The record \<open>kern\<close> holds the static
  variables of the memory-management files: the machine with its frames and page tables, the
  kernel's space \<open>kernel_vm\<close>, the heap with its own words, and the bitmaps of kernel stacks and
  process identifiers. The heap and the page tables lie in different frames of the direct map;
  the words of the heap are kept in a store of their own. The linker symbols of the kernel image
  are arguments of \<open>vm_kern_init\<close>.
\<close>

subsection \<open>State and operations\<close>

record kern =
  kn_mm :: x86_mm
  kernel_vm :: arch_vm_space
  kn_kheap :: kheap
  kn_heap :: mem
  kernel_stack_bm :: bitmap
  pid_bm :: bitmap

abbreviation kn_x86 :: "(x86_mm, 'a) kfun \<Rightarrow> (kern, 'a) kfun" where
  "kn_x86 \<equiv> kzoom kn_mm (\<lambda>x s. s\<lparr>kn_mm := x\<rparr>)"

definition UINTPTR_MAX :: u32 where
  "UINTPTR_MAX = 0xFFFFFFFF"

definition vm_kern_range_valid :: "vaddr \<Rightarrow> size_t \<Rightarrow> bool" where
  "vm_kern_range_valid virt sz =
     (if sz = 0 then False
      else if (ucast virt :: u64) < KERNEL_VIRT_OFFSET then False
      else if UINTPTR_MAX - virt < sz - 1 then False
      else True)"

definition vm_kern_map :: "vaddr \<Rightarrow> paddr \<Rightarrow> size_t \<Rightarrow> u32 \<Rightarrow> (kern, unit) kfun" where
  "vm_kern_map virt phys sz flags s =
     (if \<not> vm_kern_range_valid virt sz then kfail KERR_INVAL s
      else kn_x86 (arch_vm_map (Some (kernel_vm s)) virt phys sz flags) s)"

definition vm_kern_unmap :: "vaddr \<Rightarrow> size_t \<Rightarrow> (kern, unit) kfun" where
  "vm_kern_unmap virt sz s =
     (if \<not> vm_kern_range_valid virt sz then kfail KERR_INVAL s
      else kn_x86 (arch_vm_unmap (Some (kernel_vm s)) virt sz) s)"

definition vm_kern_protect :: "vaddr \<Rightarrow> size_t \<Rightarrow> u32 \<Rightarrow> (kern, unit) kfun" where
  "vm_kern_protect virt sz flags s =
     (if \<not> vm_kern_range_valid virt sz then kfail KERR_INVAL s
      else kn_x86 (arch_vm_protect (Some (kernel_vm s)) virt sz flags) s)"

definition vm_kern_attach :: "arch_vm_space option \<Rightarrow> (kern, unit) kfun" where
  "vm_kern_attach vm s =
     (case vm of None \<Rightarrow> kfail KERR_INVAL s
      | Some _ \<Rightarrow> kn_x86 (arch_vm_space_attach_kernel vm (Some (kernel_vm s))) s)"

text \<open>\<open>out\<close> says whether the output pointer is not NULL.\<close>

definition vm_kern_translate :: "vaddr \<Rightarrow> bool \<Rightarrow> (kern, paddr) kfun" where
  "vm_kern_translate virt out s =
     (if \<not> out then kfail KERR_INVAL s
      else if \<not> vm_kern_range_valid virt 1 then kfail KERR_INVAL s
      else kn_x86 (arch_vm_translate (Some (kernel_vm s)) virt out) s)"

definition vm_kern_init :: "vaddr \<Rightarrow> vaddr \<Rightarrow> vaddr \<Rightarrow> vaddr \<Rightarrow> (kern, unit) kfun" where
  "vm_kern_init text_start text_end rodata_start rodata_end =
     kerr_try (\<lambda>s. kerr_try (kn_x86 (arch_vm_space_init True)) (\<lambda>vm s. kret () (s\<lparr>kernel_vm := vm\<rparr>)) s)
       (\<lambda>_. kerr_try (\<lambda>s. kn_x86 (arch_vm_kernel_prepare (Some (kernel_vm s))) s)
       (\<lambda>_. kerr_try (vm_kern_map (ucast KERNEL_VIRT_OFFSET) 0 KERNEL_DIRECT_MAP_SIZE (VM_READ OR VM_WRITE))
       (\<lambda>_. kerr_try (vm_kern_protect text_start (text_end - text_start) (VM_READ OR VM_EXEC))
       (\<lambda>_. kerr_try (vm_kern_protect rodata_start (rodata_end - rodata_start) VM_READ)
       (\<lambda>_ s. kn_x86 (arch_vm_space_load (Some (kernel_vm s))) s)))))"

subsection \<open>Ranges\<close>

lemma vm_kern_range_valid_iff:
  "vm_kern_range_valid virt sz \<longleftrightarrow> sz \<noteq> 0 \<and> 0xC0000000 \<le> unat virt \<and> unat virt + unat sz \<le> 2 ^ 32"
proof (cases "sz = 0")
  case False
  then have s: "unat (sz - 1) = unat sz - 1" "0 < unat sz" by (simp_all add: unat_minus_one word_unat_eq_iff)
  have v: "unat (UINTPTR_MAX - virt) = 0xFFFFFFFF - unat virt"
    using unat32_lt [of virt] by (simp add: UINTPTR_MAX_def unat_sub_nowrap del: unat32_lt)
  have "(ucast virt :: u64) < KERNEL_VIRT_OFFSET \<longleftrightarrow> unat virt < 0xC0000000"
    by (simp add: word_less_nat_alt KERNEL_VIRT_OFFSET_def)
  moreover have "UINTPTR_MAX - virt < sz - 1 \<longleftrightarrow> 2 ^ 32 < unat virt + unat sz"
    unfolding word_less_nat_alt v s(1) using s(2) unat32_lt [of virt] by (auto simp del: unat32_lt)
  ultimately show ?thesis using False by (auto simp: vm_kern_range_valid_def)
qed (simp add: vm_kern_range_valid_def)

subsection \<open>Preparing the kernel's page tables\<close>

definition lowmem_free :: "x86_mm \<Rightarrow> nat set" where
  "lowmem_free s = {f. frame_free (xm_pmm s) f \<and> f < LOWMEM_FRAMES}"

lemma finite_lowmem_free [simp]: "finite (lowmem_free s)"
  by (simp add: lowmem_free_def)

text \<open>
  Taking the lowest frames: \<open>T\<close> is \<open>S\<close> without its \<open>k\<close> smallest members. All allocations of page tables are of
  this kind, because the search for a frame starts at the lowest one.
\<close>

definition lows_taken :: "nat \<Rightarrow> nat set \<Rightarrow> nat set \<Rightarrow> bool" where
  "lows_taken k S T \<longleftrightarrow> T \<subseteq> S \<and> card (S - T) = k \<and> (\<forall>x\<in>S - T. \<forall>y\<in>T. x < y)"

lemma lows_taken_refl [simp]: "lows_taken 0 S S"
  by (simp add: lows_taken_def)

lemma lows_taken_trans:
  assumes "finite S" and "lows_taken j S T" and "lows_taken k T U"
  shows "lows_taken (j + k) S U"
proof -
  have sub: "T \<subseteq> S" "U \<subseteq> T" "S - U = (S - T) \<union> (T - U)" using assms(2,3) by (auto simp: lows_taken_def)
  have "card (S - U) = card (S - T) + card (T - U)"
    unfolding sub(3) by (rule card_Un_disjoint) (use assms(1) sub in \<open>auto intro: finite_subset\<close>)
  then show ?thesis using assms(2,3) sub by (auto simp: lows_taken_def)
qed

lemma lows_taken_one:
  assumes "f \<in> S" and "\<And>g. g \<in> S \<Longrightarrow> f \<le> g"
  shows "lows_taken 1 S (S - {f})"
proof -
  have "S - (S - {f}) = {f}" using assms(1) by auto
  then show ?thesis using assms(2) by (auto simp: lows_taken_def order_less_le)
qed

text \<open>A run of free frames loses at most its beginning.\<close>

lemma lows_taken_run:
  assumes "finite S" and k: "lows_taken k S T" and run: "\<And>j. j < n \<Longrightarrow> a + j \<in> S" and j: "k \<le> j" "j < n"
  shows "a + j \<in> T"
proof (rule ccontr)
  assume "a + j \<notin> T"
  then have "a + j \<in> S - T" using run [OF j(2)] by simp
  then have "x \<notin> T" if "x \<le> a + j" for x using k that unfolding lows_taken_def by (meson leD)
  moreover have "x \<in> S" if "a \<le> x" "x \<le> a + j" for x
    using run [of "x - a"] that j(2) by simp
  ultimately have "{a..a + j} \<subseteq> S - T" by auto
  then have "card {a..a + j} \<le> card (S - T)" using assms(1) by (intro card_mono) simp_all
  then show False using k j(1) by (simp add: lows_taken_def)
qed

definition low_frames_taken :: "nat \<Rightarrow> x86_mm \<Rightarrow> x86_mm \<Rightarrow> bool" where
  "low_frames_taken k s t \<longleftrightarrow> lows_taken k (lowmem_free s) (lowmem_free t)
     \<and> frame_managed (xm_pmm t) = frame_managed (xm_pmm s)
     \<and> (\<forall>f. frame_free (xm_pmm t) f \<longrightarrow> frame_free (xm_pmm s) f)"

lemma low_frames_taken_trans:
  "low_frames_taken j s t \<Longrightarrow> low_frames_taken k t u \<Longrightarrow> low_frames_taken (j + k) s u"
  using lows_taken_trans [OF finite_lowmem_free] by (auto simp: low_frames_taken_def)

lemma low_frames_taken_same:
  "frame_free (xm_pmm t) = frame_free (xm_pmm s) \<Longrightarrow> frame_managed (xm_pmm t) = frame_managed (xm_pmm s) \<Longrightarrow> low_frames_taken 0 s t"
  by (simp add: low_frames_taken_def lowmem_free_def)

lemma low_frames_taken_card: "low_frames_taken k s t \<Longrightarrow> card (lowmem_free t) + k = card (lowmem_free s)"
proof -
  assume "low_frames_taken k s t"
  then have "lowmem_free t \<subseteq> lowmem_free s" "card (lowmem_free s - lowmem_free t) = k"
    by (simp_all add: low_frames_taken_def lows_taken_def)
  then show ?thesis using card_Diff_subset [of "lowmem_free t" "lowmem_free s"] card_mono [of "lowmem_free s" "lowmem_free t"] by simp
qed

lemma vm_alloc_lowmem_lowest:
  assumes inv: "pmm_inv (xm_pmm s)" and al: "vm_alloc_lowmem s = (Inr a, t)" and u: "xm_pmm u = xm_pmm t"
  shows "low_frames_taken 1 s u"
proof -
  let ?p = "xm_pmm s"
  obtain p where p: "PMM_ALLOC_LOWMEM 1 ?p = (Inr a, p)" "t = s\<lparr>xm_pmm := p\<rparr>"
    using al by (cases "PMM_ALLOC_LOWMEM 1 ?p") (auto simp: vm_alloc_lowmem_def kzoom_def)
  then have "alloc_post ?p 0 (pmm_hi_frame ?p KERNEL_LOWMEM_LIMIT) 1 a p"
    using pmm_alloc_strict_spec [OF inv, of 1 0 KERNEL_LOWMEM_LIMIT] by (simp add: PMM_ALLOC_LOWMEM_def)
  then obtain r where r: "r + 1 \<le> pmm_hi_frame ?p KERNEL_LOWMEM_LIMIT" "frames_taken ?p r 1 p" "\<And>q. q < r \<Longrightarrow> \<not> frames_free_run ?p q 1"
    by (auto simp: alloc_post_def)
  have free: "frame_free ?p r" "frame_free p k \<longleftrightarrow> frame_free ?p k \<and> k \<noteq> r" for k
    using r(2) by (auto simp: frames_taken_def less_Suc_eq)
  have least: "r \<le> q" if "frame_free ?p q" for q
    using r(3) [of q] that by (force simp: frames_free_run_def less_Suc_eq)
  have low: "lowmem_free u = lowmem_free s - {r}" "r \<in> lowmem_free s"
    using free r(1) pmm_hi_frame_lowmem [of ?p] u p(2) by (auto simp: lowmem_free_def)
  have "lows_taken 1 (lowmem_free s) (lowmem_free u)"
    unfolding low(1) by (rule lows_taken_one [OF low(2)]) (use least in \<open>simp add: lowmem_free_def\<close>)
  moreover have "frame_managed p = frame_managed ?p" using r(2) by (auto simp: frames_taken_def frame_managed_def)
  ultimately show ?thesis using free(2) u p(2) by (simp add: low_frames_taken_def)
qed

lemma prepare_step:
  assumes inv: "vm_inv s F" and pd: "table_at p F" and i: "i < 1024" "\<not> present (pde s F i)"
    and run: "kerr_try vm_alloc_lowmem (\<lambda>pt_phys s. kret () (st_entry p (of_nat i)
        (ucast pt_phys OR X86_PDE_PRESENT OR X86_PDE_WRITABLE) (clear_table pt_phys s))) s = (r, t)"
  shows "r = Inl KERR_NOMEM \<and> t = s \<and> lowmem_free s = {} \<or>
    r = Inr () \<and> vm_inv t F \<and> lookup t F = lookup s F \<and> is_table (pde t F i)
      \<and> (\<forall>j<1024. j \<noteq> i \<longrightarrow> pde t F j = pde s F j) \<and> low_frames_taken 1 s t"
proof (cases "vm_alloc_lowmem s")
  case (Pair q u)
  have u: "unat (of_nat i :: u32) = i" using i(1) by (simp add: unat_of_nat_small)
  show ?thesis
  proof (cases q)
    case (Inl e)
    have "lowmem_free s = {}"
      using vm_alloc_lowmem_succeeds [OF vm_invD(1) [OF inv]] Pair Inl by (auto simp: lowmem_free_def)
    then show ?thesis using run Pair Inl vm_alloc_lowmem_cases [OF vm_invD(1) [OF inv]] by (auto simp: kerr_try_def)
  next
    case (Inr a)
    let ?fl = "X86_PDE_PRESENT OR X86_PDE_WRITABLE"
    have fl: "unat ?fl < 4096" "present ?fl" "\<not> large ?fl"
      by (simp_all add: X86_PDE_PRESENT_def X86_PDE_WRITABLE_def BIT_def present_def large_def)
    have t: "t = st_entry p (of_nat i) (ucast a OR ?fl) (clear_table a u)" and r: "r = Inr ()"
      using run Pair Inr by (auto simp: kerr_try_def or.assoc)
    note T = add_new_table [OF inv pd _ _ _ Pair [unfolded Inr] fl, of "of_nat i" "{i}", unfolded u, OF i(1) _ i(2), folded t]
    have "pde t F j = pde s F j" if "j < 1024" "j \<noteq> i" for j
      using T(3) that by (auto simp: kept_def entry_kept_def)
    moreover have "low_frames_taken 1 s t"
    proof (rule vm_alloc_lowmem_lowest [OF vm_invD(1) [OF inv] Pair [unfolded Inr]])
      obtain f where "table_at a f" using vm_alloc_lowmem_cases [OF vm_invD(1) [OF inv]] Pair Inr by auto
      then show "xm_pmm t = xm_pmm u" by (simp add: t st_entry_def clear_table_slot)
    qed
    ultimately show ?thesis using T r by auto
  qed
qed

lemma prepare_loop:
  assumes "vm_inv s F" and pd: "table_at p F" and "distinct is" and "\<forall>i\<in>set is. i < 1024 \<and> \<not> present (pde s F i)"
    and "kerr_for is (\<lambda>i. kerr_try vm_alloc_lowmem (\<lambda>pt_phys s. kret () (st_entry p (of_nat i)
        (ucast pt_phys OR X86_PDE_PRESENT OR X86_PDE_WRITABLE) (clear_table pt_phys s)))) s = (r, t)"
  shows "vm_inv t F \<and> lookup t F = lookup s F \<and> (\<forall>i<1024. i \<notin> set is \<longrightarrow> pde t F i = pde s F i)
    \<and> (r = Inr () \<longrightarrow> (\<forall>i\<in>set is. is_table (pde t F i)) \<and> low_frames_taken (length is) s t)
    \<and> (length is \<le> card (lowmem_free s) \<longrightarrow> r = Inr ()) \<and> (r = Inr () \<or> r = Inl KERR_NOMEM)"
  using assms(1,3,4,5)
proof (induction "is" arbitrary: s)
  case (Cons i "is")
  let ?body = "\<lambda>i. kerr_try vm_alloc_lowmem (\<lambda>pt_phys s. kret () (st_entry p (of_nat i)
        (ucast pt_phys OR X86_PDE_PRESENT OR X86_PDE_WRITABLE) (clear_table pt_phys s)))"
  obtain q u where u: "?body i s = (q, u)" by fastforce
  have i: "i < 1024" "\<not> present (pde s F i)" using Cons.prems(3) by auto
  from prepare_step [OF Cons.prems(1) pd i u] show ?case
  proof
    assume "q = Inl KERR_NOMEM \<and> u = s \<and> lowmem_free s = {}"
    then show ?thesis using Cons.prems(1,4) u by (simp add: kerr_for_Cons del: kerr_for.simps(2)) auto
  next
    assume U: "q = Inr () \<and> vm_inv u F \<and> lookup u F = lookup s F \<and> is_table (pde u F i)
      \<and> (\<forall>j<1024. j \<noteq> i \<longrightarrow> pde u F j = pde s F j) \<and> low_frames_taken 1 s u"
    then have run: "kerr_for is ?body u = (r, t)"
      using Cons.prems(4) u by (simp add: kerr_for_Cons del: kerr_for.simps(2))
    have "\<forall>j\<in>set is. j < 1024 \<and> \<not> present (pde u F j)" using Cons.prems(2,3) U by auto
    note IH = Cons.IH [OF _ _ this run]
    have "low_frames_taken (Suc (length is)) s t" if "low_frames_taken (length is) u t"
      using low_frames_taken_trans [OF _ that, of 1 s] U by simp
    moreover have "card (lowmem_free s) = Suc (card (lowmem_free u))" using U low_frames_taken_card [of 1 s u] by simp
    ultimately show ?thesis using IH U Cons.prems(2,3) by auto
  qed
qed (auto simp: low_frames_taken_same)

subsection \<open>Setting up the kernel's address space\<close>

text \<open>A section of the kernel image: page aligned, not empty and inside the direct map.\<close>

definition section_ok :: "vaddr \<Rightarrow> vaddr \<Rightarrow> bool" where
  "section_ok a b \<longleftrightarrow> unat a mod 4096 = 0 \<and> unat b mod 4096 = 0 \<and> 0xC0000000 \<le> unat a \<and> unat a < unat b
     \<and> unat b \<le> 0xF0000000"

abbreviation kernel_tables :: "x86_mm \<Rightarrow> nat \<Rightarrow> bool" where
  "kernel_tables s F \<equiv> \<forall>i. 768 \<le> i \<and> i < 1024 \<longrightarrow> is_table (pde s F i)"

definition writable :: "x86_mm \<Rightarrow> nat \<Rightarrow> vaddr \<Rightarrow> bool" where
  "writable s F a \<longleftrightarrow> (case lookup s F (unat a div 4096) of None \<Rightarrow> False | Some e \<Rightarrow> bit e 1)"

lemma section_size:
  assumes "section_ok a b"
  shows "unat (b - a) = unat b - unat a" "b - a \<noteq> 0" "unat (b - a) mod 4096 = 0" "unat a + unat (b - a) \<le> 2 ^ 32"
    "vm_kern_range_valid a (b - a)"
proof -
  show u: "unat (b - a) = unat b - unat a" using assms by (simp add: section_ok_def unat_sub_nowrap)
  show ne: "b - a \<noteq> 0" using assms by (auto simp: section_ok_def)
  show "unat (b - a) mod 4096 = 0" unfolding u using assms by (simp add: section_ok_def mod_eq_0_iff_dvd dvd_diff_nat)
  show le: "unat a + unat (b - a) \<le> 2 ^ 32" unfolding u using assms by (simp add: section_ok_def)
  show "vm_kern_range_valid a (b - a)" using assms ne le by (simp add: vm_kern_range_valid_iff section_ok_def)
qed

lemma read_only_entry: "\<not> MASK_TEST flags VM_WRITE \<Longrightarrow> \<not> bit ((e AND X86_PAGE_MASK) OR x86_vm_flags_to_pte flags) 1"
  by (simp add: x86_vm_flags_to_pte_def Let_def bit_or_iff bit_and_iff X86_PAGE_MASK_def X86_PTE_PRESENT_def
      X86_PTE_USER_def bit_BIT)

text \<open>Writing below tables that are there takes no frames.\<close>

lemma kept_free_eq:
  assumes k: "kept I F s s'" and inv: "vm_inv s F" "vm_inv s' F" and tab: "\<And>i. i \<in> I \<Longrightarrow> i < 1024 \<and> is_table (pde s F i)"
  shows "frame_free (xm_pmm s') = frame_free (xm_pmm s)" and "\<And>i. i < 1024 \<Longrightarrow> pde s' F i = pde s F i"
proof -
  show pd: "\<And>i. i < 1024 \<Longrightarrow> pde s' F i = pde s F i"
    using k tab unfolding kept_def entry_kept_def by (metis is_table_def)
  have t: "tables I s' F = tables I s F" by (rule tables_cong) (rule pd)
  have own: "\<not> frame_free (xm_pmm u) f" if "vm_inv u F" "f = F \<or> f \<in> tables I u F" for u f
    using space_frames_owned [OF that(1), of f] that(2) tables_UNIV [of I u F] by (auto simp: space_frames_def owned_def)
  have "frame_free (xm_pmm s') f = frame_free (xm_pmm s) f" for f
  proof -
    have "f \<in> reach I F s' \<longleftrightarrow> f \<in> reach I F s" using k by (simp add: kept_def)
    then show ?thesis using own [OF inv(1), of f] own [OF inv(2), of f] t by (auto simp: reach_def)
  qed
  then show "frame_free (xm_pmm s') = frame_free (xm_pmm s)" by blast
qed

lemma kept_kernel_tables:
  assumes "kept {768..<1024} F s s'" and "vm_inv s F" and "vm_inv s' F" and "kernel_tables s F"
  shows "kernel_tables s' F" and "low_frames_taken 0 s s'"
proof -
  note k = kept_free_eq [OF assms(1-3)]
  show "kernel_tables s' F" using k(2) assms(4) by simp
  show "low_frames_taken 0 s s'"
    by (rule low_frames_taken_same [OF k(1)]) (use assms(1,4) in \<open>auto simp: kept_def\<close>)
qed

lemma kernel_pde: "0xC0000 \<le> (v :: nat) \<Longrightarrow> v < 0x100000 \<Longrightarrow> v div 1024 \<in> {768..<1024}"
  by (simp add: less_eq_div_iff_mult_less_eq div_less_iff_less_mult)

text \<open>Protecting a section whose pages are all mapped succeeds.\<close>

lemma protect_section:
  assumes inv: "vm_inv s F" and pd: "table_at (pd_phys vm) F" and sec: "section_ok a b"
    and mapped: "\<And>x. unat a \<le> unat x \<Longrightarrow> unat x < unat b \<Longrightarrow> \<exists>p. translates vm s x = Inr p"
    and ro: "\<not> MASK_TEST flags VM_WRITE" and tab: "kernel_tables s F"
  shows "\<exists>s'. arch_vm_protect (Some vm) a (b - a) flags s = (Inr (), s') \<and> vm_inv s' F \<and> kernel_tables s' F \<and> low_frames_taken 0 s s'
     \<and> (\<forall>x. translates vm s' x = translates vm s x)
     \<and> (\<forall>x. unat a \<le> unat x \<and> unat x < unat b \<longrightarrow> \<not> writable s' F x)
     \<and> (\<forall>x. \<not> writable s F x \<longrightarrow> \<not> writable s' F x)"
proof -
  note sz = section_size [OF sec]
  have al: "unat a mod 4096 = 0" using sec by (simp add: section_ok_def)
  obtain r s' where run: "arch_vm_protect (Some vm) a (b - a) flags s = (r, s')" by fastforce
  have I: "(unat a div 4096 + i) div 1024 \<in> {768..<1024}" if "i < unat (b - a) div 4096" for i
  proof (rule kernel_pde)
    have "0xC0000 \<le> unat a div 4096" using sec by (simp add: less_eq_div_iff_mult_less_eq section_ok_def)
    then show "0xC0000 \<le> unat a div 4096 + i" by simp
    have "4096 * (i + 1) \<le> unat b - unat a" using that sz(1,3) by auto
    then show "unat a div 4096 + i < 0x100000" using sec unat32_lt_pow [of b] by (simp add: section_ok_def) linarith
  qed
  from arch_vm_protect_spec [OF inv pd sz(2) al sz(3,4) I run] obtain m where m: "vm_inv s' F"
    "\<forall>x. translates vm s' x = translates vm s x"
    "\<forall>v. lookup s' F v = (if unat a div 4096 \<le> v \<and> v < unat a div 4096 + m
        then map_option (\<lambda>e. (e AND X86_PAGE_MASK) OR x86_vm_flags_to_pte flags) (lookup s F v) else lookup s F v)"
    "r = Inr () \<longrightarrow> 4096 * m = unat (b - a)"
    "\<forall>e. r = Inl e \<longrightarrow> 4096 * m < unat (b - a) \<and> translates vm s (page_va a m) = Inl e"
    "kept {768..<1024} F s s'"
    by blast
  have r: "r = Inr ()"
  proof (cases r)
    case (Inl e)
    then have lt: "4096 * m < unat (b - a)" and tr: "translates vm s (page_va a m) = Inl e" using m(5) by auto
    have ok: "pages_ok vm F a (unat (b - a) div 4096) UNIV"
      by (rule pages_okI [OF pd _ sz(4)]) (use al sz in \<open>simp_all add: bad_range_def\<close>)
    have "m < unat (b - a) div 4096" using lt sz(3) by auto
    from unat_page_va(1) [OF ok this] mapped [of "page_va a m"] lt tr sz(1) show ?thesis
      by (auto simp: less_diff_conv add.commute)
  qed simp
  have ro1: "\<not> bit (e AND X86_PAGE_MASK OR x86_vm_flags_to_pte flags) (Suc 0)" for e
    using read_only_entry [OF ro] by simp
  have "\<not> writable s' F x" if "unat a \<le> unat x \<and> unat x < unat b" for x
  proof -
    have "unat x < unat a + 4096 * m" using that r m(4) sz(1) by simp
    then have "unat a div 4096 \<le> unat x div 4096 \<and> unat x div 4096 < unat a div 4096 + m"
      using that in_page_range [OF al, of "unat x" m] by blast
    then show ?thesis using ro1 by (simp add: writable_def m(3) split: option.splits)
  qed
  moreover have "\<not> writable s' F x" if "\<not> writable s F x" for x
    using that ro1 by (simp add: writable_def m(3) split: option.splits)
  ultimately show ?thesis using run r m(1,2) kept_kernel_tables [OF m(6) inv m(1) tab] by auto
qed

lemma x86_init_prepare:
  assumes inv: "pmm_inv (xm_pmm s)" and free: "257 \<le> card (lowmem_free s)"
  obtains vm F s1 s2 where "arch_vm_space_init True s = (Inr vm, s1)" and "table_at (pd_phys vm) F"
    and "arch_vm_kernel_prepare (Some vm) s1 = (Inr (), s2)" and "vm_inv s2 F" and "lookup s2 F = (\<lambda>_. None)"
    and "kernel_tables s2 F" and "low_frames_taken 257 s s2"
proof -
  have "lowmem_free s \<noteq> {}" using free by auto
  then obtain f where "frame_free (xm_pmm s) f" "f < LOWMEM_FRAMES" by (auto simp: lowmem_free_def)
  then obtain a t where al: "vm_alloc_lowmem s = (Inr a, t)" using vm_alloc_lowmem_succeeds [OF inv] by blast
  obtain r s1 where run: "arch_vm_space_init True s = (r, s1)" by fastforce
  then have "r \<noteq> Inl KERR_NOMEM" using al by (auto simp: arch_vm_space_init_def kerr_try_def)
  then obtain vm F where F: "r = Inr vm" "table_at (pd_phys vm) F" "vm_inv s1 F"
      "\<forall>k. frame_free (xm_pmm s1) k \<longleftrightarrow> frame_free (xm_pmm s) k \<and> k \<noteq> F" "\<forall>i<1024. pde s1 F i = 0"
    using arch_vm_space_init_cases [OF inv run] by blast
  have one: "low_frames_taken 1 s s1"
  proof (rule vm_alloc_lowmem_lowest [OF inv al])
    obtain f where f: "table_at a f" using vm_alloc_lowmem_cases [OF inv] al by auto
    show "xm_pmm s1 = xm_pmm t" using run by (auto simp: arch_vm_space_init_def kerr_try_def al clear_table_slot [OF f])
  qed
  have card: "1024 - 768 \<le> card (lowmem_free s1)" using free low_frames_taken_card [OF one] by simp
  have np: "\<forall>i\<in>set [768..<1024]. i < 1024 \<and> \<not> present (pde s1 F i)"
    using F(5) unfolding set_upt by (simp add: present_def)
  obtain q s2 where prep: "arch_vm_kernel_prepare (Some vm) s1 = (q, s2)" by fastforce
  then have "kerr_for [768..<1024] (\<lambda>i. kerr_try vm_alloc_lowmem (\<lambda>pt_phys s. kret () (st_entry (pd_phys vm) (of_nat i)
        (ucast pt_phys OR X86_PDE_PRESENT OR X86_PDE_WRITABLE) (clear_table pt_phys s)))) s1 = (q, s2)"
    by (simp add: arch_vm_kernel_prepare_def X86_KERNEL_PDE_BASE_def X86_PDE_COUNT_def del: upt_rec_numeral)
  note P = prepare_loop [OF F(3,2) distinct_upt np this, unfolded set_upt length_upt]
  then have q: "q = Inr ()" using card by blast
  have "lookup s1 F = (\<lambda>_. None)"
    using F(5) by (auto simp: lookup_def fun_eq_iff is_table_def present_def Let_def)
  moreover have "is_table (pde s2 F i)" if "768 \<le> i" "i < 1024" for i
    using P q that by simp
  moreover have "low_frames_taken (1 + 256) s s2" by (rule low_frames_taken_trans [OF one]) (use P q in simp)
  ultimately show ?thesis using P q run F(1,2) prep by (intro that [of vm s1 F s2]) simp_all
qed

text \<open>Mapping pages that are not mapped yet, below page tables that are there, succeeds.\<close>

lemma map_prepared:
  assumes inv: "vm_inv s F" and pd: "table_at (pd_phys vm) F"
    and args: "sz \<noteq> 0" "unat virt mod 4096 = 0" "unat phys mod 4096 = 0" "unat sz mod 4096 = 0"
    and fits: "unat virt + unat sz \<le> 2 ^ 32"
    and tab: "\<And>i. i < unat sz div 4096 \<Longrightarrow> is_table (pde s F ((unat virt div 4096 + i) div 1024))"
    and none: "\<And>i. i < unat sz div 4096 \<Longrightarrow> lookup s F (unat virt div 4096 + i) = None"
    and I: "\<And>i. i < unat sz div 4096 \<Longrightarrow> (unat virt div 4096 + i) div 1024 \<in> I"
  shows "\<exists>s'. arch_vm_map (Some vm) virt phys sz flags s = (Inr (), s') \<and> vm_inv s' F \<and> kept I F s s'
    \<and> range_mapped vm virt phys (unat sz) s s'"
proof -
  obtain r s' where run: "arch_vm_map (Some vm) virt phys sz flags s = (r, s')" by fastforce
  from arch_vm_map_spec [OF inv pd args fits I run] obtain m where m: "vm_inv s' F" "kept I F s s'"
    "range_mapped vm virt phys (4096 * m) s s'" "r = Inr () \<longrightarrow> 4096 * m = unat sz"
    "\<forall>e. r = Inl e \<longrightarrow> 4096 * m < unat sz \<and> e = map_error (translates vm s (page_va virt m))
        \<and> (e = KERR_NOMEM \<longrightarrow> \<not> present (pde s F ((unat virt div 4096 + m) div 1024)))"
    by blast
  have "r = Inr ()"
  proof (cases r)
    case (Inl e)
    then have i: "m < unat sz div 4096" using m(5) args(4) by auto
    have ok: "pages_ok vm F virt (unat sz div 4096) UNIV"
      by (rule pages_okI [OF pd _ fits]) (use args in \<open>simp_all add: bad_range_def\<close>)
    have "\<not> large_at s F (unat virt div 4096 + m)" using tab [OF i] by (simp add: large_at_def is_table_def)
    then have "translates vm s (page_va virt m) = Inl KERR_NOENT"
      unfolding translates_lookup [OF inv pd] unat_page_va(2) [OF ok i] using none [OF i] by simp
    then have "e = KERR_NOMEM" using m(5) Inl by simp
    then show ?thesis using m(5) Inl tab [OF i] by (simp add: is_table_def)
  qed simp
  then show ?thesis using run m by auto
qed

lemma kern_translate:
  assumes "0xC0000000 \<le> unat a"
  shows "fst (vm_kern_translate a True s) = translates (kernel_vm s) (kn_mm s) a"
proof -
  have "vm_kern_range_valid a 1"
    using assms unat32_lt [of a] by (simp add: vm_kern_range_valid_iff del: unat32_lt)
  then show ?thesis by (simp add: vm_kern_translate_def translates_def kzoom_def split: prod.splits)
qed

lemma cr3_irrelevant:
  "vm_inv (s\<lparr>xm_cr3 := c\<rparr>) F = vm_inv s F" "lookup (s\<lparr>xm_cr3 := c\<rparr>) F = lookup s F"
  "translates vm (s\<lparr>xm_cr3 := c\<rparr>) a = translates vm s a"
proof -
  have p: "pde (s\<lparr>xm_cr3 := c\<rparr>) F = pde s F" for F by (simp add: pde_def fun_eq_iff)
  have o: "owned (s\<lparr>xm_cr3 := c\<rparr>) = owned s" by (simp add: owned_def fun_eq_iff)
  show "vm_inv (s\<lparr>xm_cr3 := c\<rparr>) F = vm_inv s F" by (simp add: vm_inv_def p o)
  show "lookup (s\<lparr>xm_cr3 := c\<rparr>) F = lookup s F" by (simp add: lookup_def p fun_eq_iff)
  have "ld_entry (s\<lparr>xm_cr3 := c\<rparr>) = ld_entry s" by (simp add: ld_entry_def fun_eq_iff)
  then show "translates vm (s\<lparr>xm_cr3 := c\<rparr>) a = translates vm s a"
    by (simp add: translates_def arch_vm_translate_def kerr_try_def x86_walk_def Let_def)
qed

lemma direct_map_range:
  "unat (0xC0000000 :: u32) mod 4096 = 0" "unat (ucast KERNEL_VIRT_OFFSET :: u32) = 0xC0000000"
  "unat KERNEL_DIRECT_MAP_SIZE = 0x30000000" "KERNEL_DIRECT_MAP_SIZE \<noteq> 0"
  by (simp_all add: KERNEL_VIRT_OFFSET_def KERNEL_DIRECT_MAP_SIZE_def)

lemma direct_map_ok:
  assumes inv: "vm_inv s F" and pd: "table_at (pd_phys vm) F" and none: "lookup s F = (\<lambda>_. None)"
    and tab: "kernel_tables s F"
  shows "\<exists>s'. arch_vm_map (Some vm) (ucast KERNEL_VIRT_OFFSET) 0 KERNEL_DIRECT_MAP_SIZE flags s = (Inr (), s')
    \<and> vm_inv s' F \<and> kernel_tables s' F \<and> low_frames_taken 0 s s'
    \<and> (\<forall>a. 0xC0000000 \<le> unat a \<and> unat a < 0xF0000000 \<longrightarrow> translates vm s' a = Inr (ucast (a - 0xC0000000)))
    \<and> (\<forall>a. 0xF0000000 \<le> unat a \<longrightarrow> translates vm s' a = Inl KERR_NOENT)"
proof -
  note d = direct_map_range
  have "\<exists>s'. arch_vm_map (Some vm) (ucast KERNEL_VIRT_OFFSET) 0 KERNEL_DIRECT_MAP_SIZE flags s = (Inr (), s')
    \<and> vm_inv s' F \<and> kept {768..<1024} F s s' \<and> range_mapped vm (ucast KERNEL_VIRT_OFFSET) 0 (unat KERNEL_DIRECT_MAP_SIZE) s s'"
  proof (rule map_prepared [OF inv pd d(4)])
    fix i assume "i < unat KERNEL_DIRECT_MAP_SIZE div 4096"
    then have "i < 0x30000" by (simp add: d)
    then have m: "(0xC0000 + i) div 1024 \<in> {768..<1024}" by (intro kernel_pde) simp_all
    then show "is_table (pde s F ((unat (ucast KERNEL_VIRT_OFFSET :: u32) div 4096 + i) div 1024))"
      by (simp add: d tab)
    show "(unat (ucast KERNEL_VIRT_OFFSET :: u32) div 4096 + i) div 1024 \<in> {768..<1024}" using m by (simp add: d)
  qed (simp_all add: d none)
  then obtain s' where s': "arch_vm_map (Some vm) (ucast KERNEL_VIRT_OFFSET) 0 KERNEL_DIRECT_MAP_SIZE flags s = (Inr (), s')"
    "vm_inv s' F" "kept {768..<1024} F s s'" "range_mapped vm (ucast KERNEL_VIRT_OFFSET) 0 (unat KERNEL_DIRECT_MAP_SIZE) s s'"
    by blast
  have none': "translates vm s a = Inl KERR_NOENT" if "0xF0000000 \<le> unat a" for a
  proof -
    have "0xC0000 \<le> unat a div 4096" "unat a div 4096 < 0x100000"
      using that unat32_lt_pow [of a] by (simp_all add: less_eq_div_iff_mult_less_eq div_less_iff_less_mult)
    then have "\<not> large_at s F (unat a div 4096)" using tab kernel_pde [of "unat a div 4096"] by (simp add: large_at_def is_table_def)
    then show ?thesis unfolding translates_lookup [OF inv pd] by (simp add: none)
  qed
  show ?thesis
    using s' kept_kernel_tables [OF s'(3) inv s'(2) tab] none' by (auto simp: range_mapped_def phys_at_def d KERNEL_VIRT_OFFSET_def)
qed

text \<open>
  Setting up the kernel's address space succeeds on every machine with at least 257 free frames
  of low memory, for page-aligned code and read-only sections inside the direct map; it takes the 257
  lowest of them. Afterwards the page tables are well-formed and loaded into CR3, the direct map is right
  (for every physical address below 768 MiB, the pointer that \<open>PHYS_TO_VIRT\<close> computes translates to that
  address), nothing is mapped above it, and no page of the kernel's code or read-only data is writable.
\<close>

lemma vm_kern_init_spec:
  assumes inv: "pmm_inv (xm_pmm (kn_mm s))" and free: "257 \<le> card (lowmem_free (kn_mm s))"
    and sec: "section_ok text_start text_end" "section_ok rodata_start rodata_end"
  shows "\<exists>vm m F. vm_kern_init text_start text_end rodata_start rodata_end s = (Inr (), s\<lparr>kernel_vm := vm, kn_mm := m\<rparr>)
     \<and> table_at (pd_phys vm) F \<and> vm_inv m F \<and> kernel_tables m F \<and> low_frames_taken 257 (kn_mm s) m
     \<and> xm_cr3 m = ucast (pd_phys vm)
     \<and> (\<forall>p. unat p < 0x30000000 \<longrightarrow> translates vm m (PHYS_TO_VIRT p) = Inr p)
     \<and> (\<forall>a. 0xF0000000 \<le> unat a \<longrightarrow> translates vm m a = Inl KERR_NOENT)
     \<and> (\<forall>a. (unat text_start \<le> unat a \<and> unat a < unat text_end)
            \<or> (unat rodata_start \<le> unat a \<and> unat a < unat rodata_end) \<longrightarrow> \<not> writable m F a)"
proof -
  obtain vm F s1 s2 where i: "arch_vm_space_init True (kn_mm s) = (Inr vm, s1)" "table_at (pd_phys vm) F"
      "arch_vm_kernel_prepare (Some vm) s1 = (Inr (), s2)" "vm_inv s2 F" "lookup s2 F = (\<lambda>_. None)"
      "kernel_tables s2 F" "low_frames_taken 257 (kn_mm s) s2"
    by (rule x86_init_prepare [OF inv free])
  obtain s3 where s3: "arch_vm_map (Some vm) (ucast KERNEL_VIRT_OFFSET) 0 KERNEL_DIRECT_MAP_SIZE (VM_READ OR VM_WRITE) s2 = (Inr (), s3)"
      "vm_inv s3 F" "\<forall>a. 0xC0000000 \<le> unat a \<and> unat a < 0xF0000000 \<longrightarrow> translates vm s3 a = Inr (ucast (a - 0xC0000000))"
      "kernel_tables s3 F" "low_frames_taken 0 s2 s3" "\<forall>a. 0xF0000000 \<le> unat a \<longrightarrow> translates vm s3 a = Inl KERR_NOENT"
    using direct_map_ok [OF i(4,2,5,6)] by blast
  have ro: "\<not> MASK_TEST (VM_READ OR VM_EXEC) VM_WRITE" "\<not> MASK_TEST VM_READ VM_WRITE"
    by (simp_all add: MASK_TEST_def VM_READ_def VM_EXEC_def VM_WRITE_def BIT_def)
  have m3: "\<exists>p. translates vm s3 x = Inr p" if "section_ok a b" "unat a \<le> unat x" "unat x < unat b" for a b x
    using s3(3) that by (simp add: section_ok_def)
  obtain s4 where s4: "arch_vm_protect (Some vm) text_start (text_end - text_start) (VM_READ OR VM_EXEC) s3 = (Inr (), s4)"
      "vm_inv s4 F" "\<forall>x. translates vm s4 x = translates vm s3 x"
      "\<forall>x. unat text_start \<le> unat x \<and> unat x < unat text_end \<longrightarrow> \<not> writable s4 F x" "kernel_tables s4 F" "low_frames_taken 0 s3 s4"
    using protect_section [OF s3(2) i(2) sec(1) m3 [OF sec(1)] ro(1) s3(4)] by blast
  have m4: "\<exists>p. translates vm s4 x = Inr p" if "unat rodata_start \<le> unat x" "unat x < unat rodata_end" for x
    using s4(3) m3 [OF sec(2) that] by simp
  obtain s5 where s5: "arch_vm_protect (Some vm) rodata_start (rodata_end - rodata_start) VM_READ s4 = (Inr (), s5)"
      "vm_inv s5 F" "\<forall>x. translates vm s5 x = translates vm s4 x"
      "\<forall>x. unat rodata_start \<le> unat x \<and> unat x < unat rodata_end \<longrightarrow> \<not> writable s5 F x"
      "\<forall>x. \<not> writable s4 F x \<longrightarrow> \<not> writable s5 F x" "kernel_tables s5 F" "low_frames_taken 0 s4 s5"
    using protect_section [OF s4(2) i(2) sec(2) m4 ro(2) s4(5)] by blast
  have v: "vm_kern_range_valid (ucast KERNEL_VIRT_OFFSET) KERNEL_DIRECT_MAP_SIZE"
    by (simp add: vm_kern_range_valid_iff direct_map_range)
  let ?m = "s5\<lparr>xm_cr3 := ucast (pd_phys vm)\<rparr>"
  have run: "vm_kern_init text_start text_end rodata_start rodata_end s = (Inr (), s\<lparr>kernel_vm := vm, kn_mm := ?m\<rparr>)"
    by (simp add: vm_kern_init_def kerr_try_def kzoom_def i(1,3) vm_kern_map_def v s3(1) vm_kern_protect_def
        section_size(5) [OF sec(1)] section_size(5) [OF sec(2)] s4(1) s5(1) arch_vm_space_load_def)
  have tr: "translates vm s5 (PHYS_TO_VIRT p) = Inr p" if "unat p < 0x30000000" for p
  proof -
    have u: "unat (PHYS_TO_VIRT p) = unat p + 0xC0000000" using that by (intro unat_PHYS_TO_VIRT) simp
    then have "translates vm s5 (PHYS_TO_VIRT p) = Inr (ucast (PHYS_TO_VIRT p - 0xC0000000))"
      using that s3(3) s4(3) s5(3) by simp
    moreover have "ucast (PHYS_TO_VIRT p - 0xC0000000) = p"
      using u by (simp add: word_unat_eq_iff unat_sub_nowrap)
    ultimately show ?thesis by simp
  qed
  have "low_frames_taken (257 + (0 + (0 + 0))) (kn_mm s) s5"
    by (intro low_frames_taken_trans [OF i(7)] low_frames_taken_trans [OF s3(5)] low_frames_taken_trans [OF s4(6)] s5(7))
  then have taken: "low_frames_taken 257 (kn_mm s) ?m" by (simp add: low_frames_taken_def lowmem_free_def)
  have "pde ?m F = pde s5 F" by (simp add: pde_def fun_eq_iff)
  then show ?thesis using run i(2) s5(2,3,4,5,6) s4(3,4) s3(6) tr taken
    by (intro exI [of _ vm] exI [of _ ?m] exI [of _ F]) (simp add: cr3_irrelevant writable_def)
qed

text \<open>A machine with 512 free frames, before the kernel's address space is set up.\<close>

definition kern_sample :: kern where
  "kern_sample = \<lparr>kn_mm = \<lparr>xm_pmm = pmm_sample, xm_mem = (\<lambda>_. 0), xm_invlpg = [], xm_cr3 = 0\<rparr>,
     kernel_vm = \<lparr>pd_phys = 0\<rparr>, kn_kheap = kh_sample, kn_heap = mem_sample,
     kernel_stack_bm = \<lparr>bm_data = (\<lambda>_. 0), bm_nbits = 64, bm_nelems = 2\<rparr>,
     pid_bm = \<lparr>bm_data = (\<lambda>_. 0), bm_nbits = 64, bm_nelems = 2\<rparr>\<rparr>"

lemma kern_sample_ok: "pmm_inv (xm_pmm (kn_mm kern_sample))" "257 \<le> card (lowmem_free (kn_mm kern_sample))"
proof -
  show "pmm_inv (xm_pmm (kn_mm kern_sample))" by (simp add: kern_sample_def pmm_sample_inv)
  have "lowmem_free (kn_mm kern_sample) = {..<512}"
    by (auto simp: lowmem_free_def kern_sample_def pmm_sample_free LOWMEM_FRAMES_def)
  then show "257 \<le> card (lowmem_free (kn_mm kern_sample))" by simp
qed

end
