(* ===== verification/Kernel_Stack.thy ===== *)
theory Kernel_Stack
  imports Kernel_Vm
begin

text \<open>
  Kernel stacks, \<^verbatim>\<open>src/kernel/mm/kernel_stack.c\<close>: each stack takes four frames and maps them at the
  place that a bitmap of 64 positions assigns to it.
\<close>

subsection \<open>Operations\<close>

record kernel_stack =
  ks_base :: vaddr
  ks_stack_pointer :: vaddr
  ks_size :: vaddr

definition KERNEL_STACK_MAX :: u32 where
  "KERNEL_STACK_MAX = 64"

definition KERNEL_STACK_PAGES :: u32 where
  "KERNEL_STACK_PAGES = 4"

definition KERNEL_STACK_BASE :: u32 where
  "KERNEL_STACK_BASE = 0xF0000000"

definition kn_pmm :: "(pmm, 'a) kfun \<Rightarrow> (kern, 'a) kfun" where
  "kn_pmm f = kn_x86 (kzoom xm_pmm (\<lambda>p s. s\<lparr>xm_pmm := p\<rparr>) f)"

definition kstack_base :: "size_t \<Rightarrow> vaddr" where
  "kstack_base pos = KERNEL_STACK_BASE + KERNEL_STACK_PAGES * pos * arch_vm_page_size"

text \<open>The body of the loop of \<open>kstack_alloc\<close>: a frame for page \<open>i\<close> of the stack, and its mapping.\<close>

definition kstack_map_page :: "vaddr \<Rightarrow> u32 \<Rightarrow> (kern, unit) kfun" where
  "kstack_map_page base i =
     kerr_try (kn_pmm (PMM_ALLOC_ANY 1))
       (\<lambda>frame. vm_kern_map (base + i * arch_vm_page_size) frame arch_vm_page_size (VM_GROWSDOWN OR VM_READ OR VM_WRITE))"

text \<open>The result is the new contents of \<open>*stack\<close>; \<open>None\<close> is the NULL pointer.\<close>

definition kstack_alloc :: "kernel_stack option \<Rightarrow> (kern, kernel_stack) kfun" where
  "kstack_alloc stack s =
     (case stack of None \<Rightarrow> kfail KERR_INVAL s
      | Some stack \<Rightarrow>
          if ks_base stack \<noteq> 0 \<or> ks_size stack \<noteq> 0 then kfail KERR_EXISTS s
          else case bitmap_find_zero (kernel_stack_bm s) of
            None \<Rightarrow> kfail KERR_NOSPC s
          | Some pos \<Rightarrow>
              kerr_try (kerr_for (words_upto 0 KERNEL_STACK_PAGES) (kstack_map_page (kstack_base pos)))
                (\<lambda>_ s. kret (stack\<lparr>ks_base := kstack_base pos, ks_size := KERNEL_STACK_PAGES * arch_vm_page_size\<rparr>)
                         (s\<lparr>kernel_stack_bm := bitmap_set (kernel_stack_bm s) pos\<rparr>)) s)"

definition kstack_unmap_page :: "vaddr \<Rightarrow> u32 \<Rightarrow> (kern, unit) kfun" where
  "kstack_unmap_page base i =
     kerr_try (vm_kern_translate (base + i * arch_vm_page_size) True)
       (\<lambda>phys. kerr_try (vm_kern_unmap (base + i * arch_vm_page_size) arch_vm_page_size)
         (\<lambda>_. kn_pmm (pmm_free phys 1)))"

definition kstack_free :: "kernel_stack option \<Rightarrow> (kern, kernel_stack) kfun" where
  "kstack_free stack s =
     (case stack of None \<Rightarrow> kfail KERR_INVAL s
      | Some stack \<Rightarrow>
          if ks_base stack = 0 \<or> ks_size stack = 0 then kfail KERR_NOENT s
          else let pos = (ks_base stack - KERNEL_STACK_BASE) div (KERNEL_STACK_PAGES * arch_vm_page_size) in
            kerr_try (kerr_for (words_upto 0 KERNEL_STACK_PAGES) (kstack_unmap_page (ks_base stack)))
              (\<lambda>_ s. kret (stack\<lparr>ks_base := 0, ks_size := 0, ks_stack_pointer := 0\<rparr>)
                       (s\<lparr>kernel_stack_bm := bitmap_clear (kernel_stack_bm s) pos\<rparr>)) s)"

subsection \<open>The kernel's space once it is set up\<close>

definition kern_inv :: "kern \<Rightarrow> nat \<Rightarrow> bool" where
  "kern_inv s F \<longleftrightarrow> table_at (pd_phys (kernel_vm s)) F \<and> vm_inv (kn_mm s) F
     \<and> (\<forall>i. 768 \<le> i \<and> i < 1024 \<longrightarrow> is_table (pde (kn_mm s) F i))"

lemma kern_invD:
  assumes "kern_inv s F"
  shows "table_at (pd_phys (kernel_vm s)) F" "vm_inv (kn_mm s) F"
    "\<And>i. 768 \<le> i \<Longrightarrow> i < 1024 \<Longrightarrow> is_table (pde (kn_mm s) F i)"
  using assms by (simp_all add: kern_inv_def)

text \<open>Nothing but the machine's memory has changed.\<close>

definition only_mm :: "kern \<Rightarrow> kern \<Rightarrow> bool" where
  "only_mm s s' \<longleftrightarrow> (\<exists>m. s' = s\<lparr>kn_mm := m\<rparr>)"

lemma only_mm_update [simp]: "only_mm s (s\<lparr>kn_mm := m\<rparr>)"
  by (auto simp: only_mm_def)

lemma only_mm_refl [simp]: "only_mm s s"
  unfolding only_mm_def by (rule exI [of _ "kn_mm s"]) simp

lemma only_mm_trans: "only_mm s t \<Longrightarrow> only_mm t u \<Longrightarrow> only_mm s u"
  by (auto simp: only_mm_def)

lemma only_mm_bm:
  assumes "only_mm s t"
  shows "only_mm (s\<lparr>kernel_stack_bm := b\<rparr>) (t\<lparr>kernel_stack_bm := b\<rparr>)"
proof -
  obtain m where "t = s\<lparr>kn_mm := m\<rparr>" using assms by (auto simp: only_mm_def)
  then show ?thesis unfolding only_mm_def by (intro exI [of _ m]) simp
qed

lemma only_mmD:
  "only_mm s s' \<Longrightarrow> kernel_vm s' = kernel_vm s" "only_mm s s' \<Longrightarrow> kernel_stack_bm s' = kernel_stack_bm s"
  "only_mm s s' \<Longrightarrow> pid_bm s' = pid_bm s" "only_mm s s' \<Longrightarrow> kn_heap s' = kn_heap s" "only_mm s s' \<Longrightarrow> kn_kheap s' = kn_kheap s"
  by (auto simp: only_mm_def)

text \<open>Changing the allocator only, so that the frames of a space stay taken.\<close>

lemma pmm_update_same:
  "lookup (s\<lparr>xm_pmm := p\<rparr>) F = lookup s F" "pde (s\<lparr>xm_pmm := p\<rparr>) F i = pde s F i"
  "translates vm (s\<lparr>xm_pmm := p\<rparr>) a = translates vm s a"
proof -
  show pd: "pde (s\<lparr>xm_pmm := p\<rparr>) F i = pde s F i" for i by (simp add: pde_def)
  show "lookup (s\<lparr>xm_pmm := p\<rparr>) F = lookup s F" by (simp add: lookup_def pd fun_eq_iff)
  have "ld_entry (s\<lparr>xm_pmm := p\<rparr>) = ld_entry s" by (simp add: ld_entry_def fun_eq_iff)
  then show "translates vm (s\<lparr>xm_pmm := p\<rparr>) a = translates vm s a"
    by (simp add: translates_def arch_vm_translate_def kerr_try_def x86_walk_def Let_def)
qed

lemma vm_inv_pmm_update:
  assumes inv: "vm_inv s F" and p: "pmm_inv p" "frame_managed p = frame_managed (xm_pmm s)"
    and own: "\<And>f. f \<in> space_frames s F \<Longrightarrow> \<not> frame_free p f"
  shows "vm_inv (s\<lparr>xm_pmm := p\<rparr>) F"
proof (rule space_same(1) [OF inv])
  show "owned (s\<lparr>xm_pmm := p\<rparr>) f" if "f \<in> space_frames s F" for f
    using space_frames_owned [OF inv that] own [OF that] p(2) by (simp add: owned_def)
qed (use p in simp_all)

definition small_memory :: "kern \<Rightarrow> bool" where
  "small_memory s \<longleftrightarrow> unat (pmm_total_frames (xm_pmm (kn_mm s))) \<le> 0x100000"

definition kern_page :: "vaddr \<Rightarrow> bool" where
  "kern_page va \<longleftrightarrow> unat va mod 4096 = 0 \<and> 0xC0000000 \<le> unat va \<and> unat va + 4096 \<le> 2 ^ 32"

lemma kern_page_index:
  assumes "kern_page va"
  shows "768 \<le> unat va div 4096 div 1024" "unat va div 4096 div 1024 < 1024" "vm_kern_range_valid va 4096"
  using assms
  by (simp_all add: kern_page_def less_eq_div_iff_mult_less_eq div_less_iff_less_mult vm_kern_range_valid_iff)

lemma no_frame_left:
  assumes inv: "pmm_inv s" and run: "PMM_ALLOC_ANY 1 s = (Inl e, s')"
  shows "\<not> frame_free s f"
proof
  assume f: "frame_free s f"
  then have "frames_free_run s f 1" "f + 1 \<le> pmm_hi_frame s 0"
    by (auto simp: frames_free_run_def less_Suc_eq frame_free_def)
  then have "\<not> no_run s (pmm_lo_frame 0) (pmm_hi_frame s 0) 1" by (auto simp: no_run_def)
  with pmm_alloc_strict_spec [OF inv, of 1 0 0] run show False by (simp add: PMM_ALLOC_ANY_def)
qed

lemma kstack_map_page_cases:
  assumes inv: "kern_inv s F" and small: "small_memory s" and va: "kern_page va" "va = base + i * arch_vm_page_size"
    and none: "lookup (kn_mm s) F (unat va div 4096) = None" and run: "kstack_map_page base i s = (r, s')"
  shows "r = Inl KERR_NOMEM \<and> s' = s \<and> (\<forall>f. \<not> frame_free (xm_pmm (kn_mm s)) f) \<or>
    (\<exists>f a. r = Inr () \<and> kern_inv s' F \<and> only_mm s s' \<and> frame_free (xm_pmm (kn_mm s)) f \<and> unat a = 4096 * f
       \<and> (\<forall>k. frame_free (xm_pmm (kn_mm s')) k \<longleftrightarrow> frame_free (xm_pmm (kn_mm s)) k \<and> k \<noteq> f)
       \<and> frame_managed (xm_pmm (kn_mm s')) = frame_managed (xm_pmm (kn_mm s))
       \<and> (\<forall>i<1024. pde (kn_mm s') F i = pde (kn_mm s) F i)
       \<and> range_mapped (kernel_vm s) va a 4096 (kn_mm s) (kn_mm s'))"
proof (cases "PMM_ALLOC_ANY 1 (xm_pmm (kn_mm s))")
  case (Pair q p)
  note I = kern_invD [OF inv]
  have pi: "pmm_inv (xm_pmm (kn_mm s))" using vm_invD(1) [OF I(2)] .
  show ?thesis
  proof (cases q)
    case (Inl e)
    then show ?thesis using anymem.alloc_Inl [OF pi] no_frame_left [OF pi] Pair run
      by (auto simp: kstack_map_page_def kn_pmm_def kzoom_def kerr_try_def)
  next
    case (Inr a)
    obtain f where f: "pmm_inv p" "frame_managed p = frame_managed (xm_pmm (kn_mm s))" "unat a = 4096 * f"
        "frame_free (xm_pmm (kn_mm s)) f" "\<forall>k. frame_free p k \<longleftrightarrow> frame_free (xm_pmm (kn_mm s)) k \<and> k \<noteq> f"
      using anymem.alloc_Inr [OF pi] Pair Inr by auto
    let ?t = "(kn_mm s)\<lparr>xm_pmm := p\<rparr>"
    have t: "vm_inv ?t F"
      using space_frames_owned [OF I(2)] f(1,2,5) by (intro vm_inv_pmm_update [OF I(2)]) (auto simp: owned_def)
    have kp: "unat va mod 4096 = 0" "unat va + unat (4096 :: u32) \<le> 2 ^ 32" using va(1) by (simp_all add: kern_page_def)
    let ?i = "unat va div 4096 div 1024"
    have tab: "is_table (pde ?t F ?i)" using I(3) [OF kern_page_index(1,2) [OF va(1)]] by (simp add: pmm_update_same)
    have "\<exists>u. arch_vm_map (Some (kernel_vm s)) va a 4096 (VM_GROWSDOWN OR VM_READ OR VM_WRITE) ?t = (Inr (), u)
        \<and> vm_inv u F \<and> kept {?i} F ?t u \<and> range_mapped (kernel_vm s) va a (unat (4096 :: u32)) ?t u"
      by (rule map_prepared [OF t I(1) _ kp(1) _ _ kp(2)]) (use f(3) tab none in \<open>simp_all add: pmm_update_same\<close>)
    then obtain u where u: "arch_vm_map (Some (kernel_vm s)) va a 4096 (VM_GROWSDOWN OR VM_READ OR VM_WRITE) ?t = (Inr (), u)"
        "vm_inv u F" "kept {?i} F ?t u" "range_mapped (kernel_vm s) va a 4096 ?t u" by auto
    note E = kept_free_eq [OF u(3) t u(2)]
    have E: "frame_free (xm_pmm u) = frame_free p" "\<And>i. i < 1024 \<Longrightarrow> pde u F i = pde (kn_mm s) F i"
      using E kern_page_index(2) [OF va(1)] tab by (auto simp: pmm_update_same)
    have s': "r = Inr ()" "s' = s\<lparr>kn_mm := u\<rparr>"
      using run Pair Inr u(1) kern_page_index(3) [OF va(1)] va(2)
      by (auto simp: kstack_map_page_def kn_pmm_def kzoom_def kerr_try_def vm_kern_map_def arch_vm_page_size_def X86_PAGE_SIZE_def)
    have "kern_inv s' F" using I(1,3) u(2) E(2) by (simp add: kern_inv_def s')
    moreover have "range_mapped (kernel_vm s) va a 4096 (kn_mm s) u" using u(4) by (simp add: range_mapped_def pmm_update_same)
    moreover have "frame_managed (xm_pmm u) = frame_managed (xm_pmm (kn_mm s))" using u(3) f(2) by (simp add: kept_def)
    ultimately show ?thesis using f(3,4,5) s' E by (intro disjI2 exI [of _ f] exI [of _ a]) simp
  qed
qed

lemma translate_eq: "arch_vm_translate (Some vm) a True s = (translates vm s a, s)"
  by (auto simp: translates_def arch_vm_translate_def kerr_try_def dest: x86_walk_state split: prod.splits sum.splits)

lemma kstack_unmap_page_ok:
  assumes inv: "kern_inv s F" and va: "kern_page va" "va = base + i * arch_vm_page_size"
    and tr: "translates (kernel_vm s) (kn_mm s) va = Inr a" and f: "unat a = 4096 * f"
    and own: "frame_managed (xm_pmm (kn_mm s)) f" "\<not> frame_free (xm_pmm (kn_mm s)) f" "f \<notin> space_frames (kn_mm s) F"
  shows "\<exists>s'. kstack_unmap_page base i s = (Inr (), s') \<and> kern_inv s' F \<and> only_mm s s'
    \<and> (\<forall>k. frame_free (xm_pmm (kn_mm s')) k \<longleftrightarrow> frame_free (xm_pmm (kn_mm s)) k \<or> k = f)
    \<and> frame_managed (xm_pmm (kn_mm s')) = frame_managed (xm_pmm (kn_mm s))
    \<and> range_unmapped (kernel_vm s) va 4096 (kn_mm s) (kn_mm s')
    \<and> (\<forall>i<1024. pde (kn_mm s') F i = pde (kn_mm s) F i)"
proof -
  note I = kern_invD [OF inv]
  let ?i = "unat va div 4096 div 1024"
  have kp: "unat va mod 4096 = 0" "unat va + unat (4096 :: u32) \<le> 2 ^ 32" using va(1) by (simp_all add: kern_page_def)
  obtain r u where run: "arch_vm_unmap (Some (kernel_vm s)) va 4096 (kn_mm s) = (r, u)" by fastforce
  have "vm_inv u F \<and> kept {?i} F (kn_mm s) u \<and> (\<exists>m\<le>unat (4096 :: u32) div 4096. range_unmapped (kernel_vm s) va (4096 * m) (kn_mm s) u
     \<and> (\<forall>i<m. \<exists>p. translates (kernel_vm s) (kn_mm s) (page_va va i) = Inr p)
     \<and> xm_invlpg u = rev (map (page_va va) [0..<m]) @ xm_invlpg (kn_mm s)
     \<and> (r = Inr () \<longrightarrow> 4096 * m = unat (4096 :: u32))
     \<and> (\<forall>e. r = Inl e \<longrightarrow> 4096 * m < unat (4096 :: u32) \<and> translates (kernel_vm s) (kn_mm s) (page_va va m) = Inl e))"
    by (rule arch_vm_unmap_spec [OF I(2,1) _ kp(1) _ kp(2) _ run]) simp_all
  then have u: "vm_inv u F" "kept {?i} F (kn_mm s) u" and r: "r = Inr ()" "range_unmapped (kernel_vm s) va 4096 (kn_mm s) u"
    using tr by (auto simp: page_va_def le_Suc_eq)
       (cases r; auto simp: page_va_def le_Suc_eq)+
  note E = kept_free_eq [OF u(2) I(2) u(1)]
  have E: "frame_free (xm_pmm u) = frame_free (xm_pmm (kn_mm s))" "\<And>i. i < 1024 \<Longrightarrow> pde u F i = pde (kn_mm s) F i"
    using E I(3) kern_page_index [OF va(1)] by auto
  have man: "frame_managed (xm_pmm u) = frame_managed (xm_pmm (kn_mm s))" using u(2) by (simp add: kept_def)
  have fu: "\<exists>p. pmm_free a 1 (xm_pmm u) = (Inr (), p) \<and> pmm_inv p \<and> frame_managed p = frame_managed (xm_pmm u)
      \<and> (\<forall>k. frame_free p k \<longleftrightarrow> frame_free (xm_pmm u) k \<or> k = f)"
    by (rule pmm_free_one [OF vm_invD(1) [OF u(1)] _ _ f]) (simp_all add: man E(1) own)
  then obtain p where p: "pmm_free a 1 (xm_pmm u) = (Inr (), p)" "pmm_inv p" "frame_managed p = frame_managed (xm_pmm u)"
      "\<forall>k. frame_free p k \<longleftrightarrow> frame_free (xm_pmm u) k \<or> k = f" by blast
  have sf: "space_frames u F = space_frames (kn_mm s) F"
    unfolding space_frames_def by (rule arg_cong [where f = "insert F"], rule tables_cong) (rule E(2))
  have inv': "vm_inv (u\<lparr>xm_pmm := p\<rparr>) F"
    using p(2,3,4) own(3) space_frames_owned [OF u(1)]
    by (intro vm_inv_pmm_update [OF u(1)]) (auto simp: sf owned_def)
  have "vm_kern_range_valid va 1" using va(1) by (simp add: vm_kern_range_valid_iff kern_page_def)
  moreover have "arch_vm_translate (Some (kernel_vm s)) va True (kn_mm s) = (Inr a, kn_mm s)"
    using tr by (simp add: translate_eq)
  ultimately have "kstack_unmap_page base i s = (Inr (), s\<lparr>kn_mm := u\<lparr>xm_pmm := p\<rparr>\<rparr>)"
    using run r(1) p(1) kern_page_index(3) [OF va(1)] va(2)
    by (simp add: kstack_unmap_page_def vm_kern_translate_def vm_kern_unmap_def kn_pmm_def kzoom_def kerr_try_def
        arch_vm_page_size_def X86_PAGE_SIZE_def)
  moreover have "kern_inv (s\<lparr>kn_mm := u\<lparr>xm_pmm := p\<rparr>\<rparr>) F"
    using I(1,3) inv' E(2) by (simp add: kern_inv_def pmm_update_same)
  ultimately show ?thesis using p r(2) E man
    by (intro exI [of _ "s\<lparr>kn_mm := u\<lparr>xm_pmm := p\<rparr>\<rparr>"]) (simp add: range_unmapped_def pmm_update_same)
qed

subsection \<open>The pages of one stack\<close>

text \<open>
  \<open>stack_part s0 s F base j k fs\<close>: compared to \<open>s0\<close>, the pages \<open>j, \<dots>, k - 1\<close> from \<open>base\<close> on are mapped
  to the frames that \<open>fs\<close> gives, which were free before; nothing else has changed.
\<close>

definition stack_part :: "kern \<Rightarrow> kern \<Rightarrow> nat \<Rightarrow> vaddr \<Rightarrow> nat \<Rightarrow> nat \<Rightarrow> (nat \<Rightarrow> nat) \<Rightarrow> bool" where
  "stack_part s0 s F base j k fs \<longleftrightarrow> kern_inv s F \<and> only_mm s0 s \<and> inj_on fs {j..<k}
     \<and> (\<forall>i\<in>{j..<k}. frame_free (xm_pmm (kn_mm s0)) (fs i))
     \<and> (\<forall>x. frame_free (xm_pmm (kn_mm s)) x \<longleftrightarrow> frame_free (xm_pmm (kn_mm s0)) x \<and> x \<notin> fs ` {j..<k})
     \<and> frame_managed (xm_pmm (kn_mm s)) = frame_managed (xm_pmm (kn_mm s0))
     \<and> (\<forall>i<1024. pde (kn_mm s) F i = pde (kn_mm s0) F i)
     \<and> (\<forall>a. translates (kernel_vm s0) (kn_mm s) a =
          (if unat base + 4096 * j \<le> unat a \<and> unat a < unat base + 4096 * k
           then Inr (of_nat (4096 * fs ((unat a - unat base) div 4096) + unat a mod 4096))
           else translates (kernel_vm s0) (kn_mm s0) a))"

definition stack_pages :: "vaddr \<Rightarrow> bool" where
  "stack_pages base \<longleftrightarrow> unat base mod 4096 = 0 \<and> 0xF0000000 \<le> unat base \<and> unat base + 0x4000 \<le> 2 ^ 32"

lemma stack_page:
  assumes "stack_pages base" and "i < 4"
  shows "unat (base + of_nat i * arch_vm_page_size) = unat base + 4096 * i" and "kern_page (base + of_nat i * arch_vm_page_size)"
proof -
  have "unat (of_nat i * arch_vm_page_size :: u32) = 4096 * i"
    using assms(2) by (simp add: arch_vm_page_size_def X86_PAGE_SIZE_def unat_mult_nowrap unat_of_nat_small)
  then show u: "unat (base + of_nat i * arch_vm_page_size) = unat base + 4096 * i"
    using assms by (subst unat_add_nowrap) (simp_all add: stack_pages_def)
  show "kern_page (base + of_nat i * arch_vm_page_size)"
    using assms unfolding kern_page_def u by (auto simp: stack_pages_def)
qed

lemma stack_part_0: "kern_inv s F \<Longrightarrow> stack_part s s F base 0 0 fs"
  by (auto simp: stack_part_def)

lemma page_offset:
  fixes b a i :: nat
  assumes "b mod 4096 = 0" and "b + 4096 * i \<le> a" and "a < b + 4096 * Suc i"
  shows "(a - b) div 4096 = i" and "a - (b + 4096 * i) = a mod 4096"
proof -
  obtain q where q: "b = 4096 * q" using assms(1) by (auto simp: mod_eq_0_iff_dvd)
  define d where "d = a - (b + 4096 * i)"
  have a: "a = 4096 * (q + i) + d" "d < 4096" using assms(2,3) q by (auto simp: d_def)
  then have "a mod 4096 = d" by (metis mod_mult_self4 mod_less)
  then show "a - (b + 4096 * i) = a mod 4096" by (simp add: d_def)
  have "a - b = 4096 * i + d" using a q by simp
  then show "(a - b) div 4096 = i" using a(2) by simp
qed

lemma stack_partD:
  assumes "stack_part s0 s F base j k fs"
  shows "kern_inv s F" "only_mm s0 s" "inj_on fs {j..<k}"
    "\<And>i. j \<le> i \<Longrightarrow> i < k \<Longrightarrow> frame_free (xm_pmm (kn_mm s0)) (fs i)"
    "\<And>x. frame_free (xm_pmm (kn_mm s)) x \<longleftrightarrow> frame_free (xm_pmm (kn_mm s0)) x \<and> x \<notin> fs ` {j..<k}"
    "frame_managed (xm_pmm (kn_mm s)) = frame_managed (xm_pmm (kn_mm s0))"
    "\<And>i. i < 1024 \<Longrightarrow> pde (kn_mm s) F i = pde (kn_mm s0) F i"
    "\<And>a. translates (kernel_vm s0) (kn_mm s) a =
          (if unat base + 4096 * j \<le> unat a \<and> unat a < unat base + 4096 * k
           then Inr (of_nat (4096 * fs ((unat a - unat base) div 4096) + unat a mod 4096))
           else translates (kernel_vm s0) (kn_mm s0) a)"
  using assms by (simp_all add: stack_part_def)

lemma stack_part_add:
  assumes part: "stack_part s0 s F base 0 k fs" and base: "stack_pages base" and k: "k < 4" and low: "f < 0x100000"
    and f: "kern_inv t F" "only_mm s t" "frame_free (xm_pmm (kn_mm s)) f" "unat a = 4096 * f"
      "\<forall>x. frame_free (xm_pmm (kn_mm t)) x \<longleftrightarrow> frame_free (xm_pmm (kn_mm s)) x \<and> x \<noteq> f"
      "frame_managed (xm_pmm (kn_mm t)) = frame_managed (xm_pmm (kn_mm s))"
      "\<forall>i<1024. pde (kn_mm t) F i = pde (kn_mm s) F i"
      "range_mapped (kernel_vm s) (base + of_nat k * arch_vm_page_size) a 4096 (kn_mm s) (kn_mm t)"
  shows "stack_part s0 t F base 0 (Suc k) (fs(k := f))"
proof -
  let ?va = "base + of_nat k * arch_vm_page_size :: vaddr"
  note u = stack_page(1) [OF base k]
  note P = stack_partD [OF part]
  have vm: "kernel_vm s = kernel_vm s0" by (rule only_mmD(1) [OF P(2)])
  have fr: "f \<notin> fs ` {0..<k}" "frame_free (xm_pmm (kn_mm s0)) f" using P(5) f(3) by auto
  have tr: "translates (kernel_vm s0) (kn_mm t) x =
      (if unat base + 4096 * 0 \<le> unat x \<and> unat x < unat base + 4096 * Suc k
       then Inr (of_nat (4096 * (fs(k := f)) ((unat x - unat base) div 4096) + unat x mod 4096))
       else translates (kernel_vm s0) (kn_mm s0) x)" for x
  proof (cases "unat ?va \<le> unat x \<and> unat x < unat ?va + 4096")
    case True
    have bm: "unat base mod 4096 = 0" using base by (simp add: stack_pages_def)
    note o = page_offset [OF bm, of k "unat x"]
    have off: "unat (x - ?va) = unat x mod 4096" using True u o(2) by (subst unat_sub_nowrap) auto
    moreover have "unat x mod 4096 < 4096" by simp
    then have "unat a + unat (x - ?va) < 2 ^ 32" unfolding off f(4) using low by simp
    then have "phys_at a (x - ?va) = a + ucast (x - ?va)" by (rule phys_at_below)
    moreover have "a = of_nat (4096 * f)" unfolding f(4) [symmetric] by simp
    moreover have "ucast w = (of_nat (unat w) :: paddr)" for w :: u32 by simp
    ultimately have "phys_at a (x - ?va) = of_nat (4096 * f + unat x mod 4096)" by (metis of_nat_add)
    then show ?thesis using f(8) True u o(1) by (simp add: range_mapped_def vm)
  next
    case False
    then have x: "translates (kernel_vm s0) (kn_mm t) x = translates (kernel_vm s0) (kn_mm s) x"
      using f(8) by (auto simp: range_mapped_def vm)
    have "(unat x - unat base) div 4096 \<noteq> k" if "unat base \<le> unat x" "unat x < unat base + 4096 * k"
    proof -
      have "unat x - unat base < k * 4096" using that by linarith
      then have "(unat x - unat base) div 4096 < k" by (simp add: div_less_iff_less_mult)
      then show ?thesis by simp
    qed
    then show ?thesis using False u by (auto simp: x P(8))
  qed
  have img: "(fs(k := f)) ` {0..<Suc k} = insert f (fs ` {0..<k})" by (auto simp: less_Suc_eq)
  have "inj_on (fs(k := f)) {0..<Suc k}"
    using P(3) fr(1) by (auto simp: inj_on_def less_Suc_eq image_iff)
  moreover have "frame_free (xm_pmm (kn_mm s0)) ((fs(k := f)) i)" if "i \<in> {0..<Suc k}" for i
    using that P(4) [of i] fr(2) by (auto simp: less_Suc_eq)
  moreover have "only_mm s0 t" by (rule only_mm_trans [OF P(2) f(2)])
  moreover have "frame_free (xm_pmm (kn_mm t)) x \<longleftrightarrow> frame_free (xm_pmm (kn_mm s0)) x \<and> x \<notin> (fs(k := f)) ` {0..<Suc k}" for x
    unfolding img using f(5) P(5) by auto
  moreover have "frame_managed (xm_pmm (kn_mm t)) = frame_managed (xm_pmm (kn_mm s0))" using f(6) P(6) by simp
  moreover have "pde (kn_mm t) F i = pde (kn_mm s0) F i" if "i < 1024" for i using f(7) P(7) that by simp
  ultimately show ?thesis unfolding stack_part_def using f(1) tr by blast
qed

lemma stack_part_drop:
  assumes part: "stack_part s0 s F base j k fs" and base: "stack_pages base" and jk: "j < k" "k \<le> 4"
    and none: "\<And>x. unat base \<le> unat x \<Longrightarrow> unat x < unat base + 0x4000 \<Longrightarrow> translates (kernel_vm s0) (kn_mm s0) x = Inl KERR_NOENT"
    and f: "kern_inv t F" "only_mm s t"
      "\<forall>x. frame_free (xm_pmm (kn_mm t)) x \<longleftrightarrow> frame_free (xm_pmm (kn_mm s)) x \<or> x = fs j"
      "frame_managed (xm_pmm (kn_mm t)) = frame_managed (xm_pmm (kn_mm s))"
      "\<forall>i<1024. pde (kn_mm t) F i = pde (kn_mm s) F i"
      "range_unmapped (kernel_vm s) (base + of_nat j * arch_vm_page_size) 4096 (kn_mm s) (kn_mm t)"
  shows "stack_part s0 t F base (Suc j) k fs"
proof -
  note P = stack_partD [OF part] and u = stack_page(1) [OF base less_le_trans [OF jk]]
  have vm: "kernel_vm s = kernel_vm s0" by (rule only_mmD(1) [OF P(2)])
  have split: "{j..<k} = insert j {Suc j..<k}" using jk(1) by auto
  have img: "fs ` {j..<k} = insert (fs j) (fs ` {Suc j..<k})" unfolding split by simp
  have nj: "fs j \<notin> fs ` {Suc j..<k}"
  proof
    assume "fs j \<in> fs ` {Suc j..<k}"
    then obtain x where "x \<in> {Suc j..<k}" "fs j = fs x" by blast
    with inj_onD [OF P(3), of j x] jk(1) show False by simp
  qed
  have "translates (kernel_vm s0) (kn_mm t) x =
      (if unat base + 4096 * Suc j \<le> unat x \<and> unat x < unat base + 4096 * k
       then Inr (of_nat (4096 * fs ((unat x - unat base) div 4096) + unat x mod 4096))
       else translates (kernel_vm s0) (kn_mm s0) x)" for x
    using f(6) none [of x] jk unfolding range_unmapped_def vm u by (auto simp: P(8))
  moreover have "frame_free (xm_pmm (kn_mm t)) x \<longleftrightarrow> frame_free (xm_pmm (kn_mm s0)) x \<and> x \<notin> fs ` {Suc j..<k}" for x
    using f(3) P(5) [of x] P(4) [of j] jk(1) nj unfolding img by auto
  moreover have "inj_on fs {Suc j..<k}" by (rule inj_on_subset [OF P(3)]) auto
  moreover have "only_mm s0 t" by (rule only_mm_trans [OF P(2) f(2)])
  ultimately show ?thesis unfolding stack_part_def using f(1,4,5) P(4,6,7) by auto
qed

lemma stack_map_loop:
  assumes inv: "kern_inv s0 F" and small: "small_memory s0" and base: "stack_pages base"
    and none: "\<And>x. unat base \<le> unat x \<Longrightarrow> unat x < unat base + 0x4000 \<Longrightarrow> translates (kernel_vm s0) (kn_mm s0) x = Inl KERR_NOENT"
    and n: "n \<le> 4" and run: "kerr_for (map of_nat [0..<n]) (kstack_map_page base) s0 = (r, s)"
  shows "\<exists>k\<le>n. \<exists>fs. stack_part s0 s F base 0 k fs \<and> (r = Inr () \<longrightarrow> k = n) \<and> (\<forall>e. r = Inl e \<longrightarrow> e = KERR_NOMEM \<and> k < n \<and> (\<forall>f. \<not> frame_free (xm_pmm (kn_mm s)) f))"
  using n run
proof (induction n arbitrary: r s)
  case 0
  then show ?case using stack_part_0 [OF inv] by auto
next
  case (Suc n)
  obtain q t where t: "kerr_for (map of_nat [0..<n]) (kstack_map_page base) s0 = (q, t)" by fastforce
  obtain k fs where k: "k \<le> n" "stack_part s0 t F base 0 k fs" "q = Inr () \<longrightarrow> k = n" "\<forall>e. q = Inl e \<longrightarrow> e = KERR_NOMEM \<and> k < n \<and> (\<forall>f. \<not> frame_free (xm_pmm (kn_mm t)) f)"
    using Suc.IH [OF _ t] Suc.prems(1) by auto
  show ?case
  proof (cases q)
    case (Inl e)
    then have "r = Inl e" "s = t" using Suc.prems(2) t by (auto simp: kerr_for_append kerr_try_def)
    then show ?thesis using k Inl by (intro exI [of _ k]) (auto simp: le_SucI)
  next
    case (Inr y)
    then have kn: "k = n" using k(3) by simp
    have run1: "kstack_map_page base (of_nat n) t = (r, s)"
      using Suc.prems(2) t Inr by (auto simp: kerr_for_append kerr_try_def split: prod.splits sum.splits)
    note P = stack_partD [OF k(2)] and pg = stack_page [OF base, of n]
    have "frame_managed (xm_pmm (kn_mm t)) = frame_managed (xm_pmm (kn_mm s0))" by (rule P(6))
    then have small': "small_memory t"
      using small unfolding small_memory_def frame_managed_def fun_eq_iff by (metis linorder_not_less nat_less_le order_refl)
    have "translates (kernel_vm s0) (kn_mm t) (base + of_nat n * arch_vm_page_size) = Inl KERR_NOENT"
      unfolding P(8) using pg(1) Suc.prems(1) kn none by auto
    then have nl: "lookup (kn_mm t) F (unat (base + of_nat n * arch_vm_page_size) div 4096) = None"
      using translates_lookup [OF kern_invD(2,1) [OF P(1)]] only_mmD(1) [OF P(2)] by (auto split: option.splits)
    have n4: "n < 4" using Suc.prems(1) by simp
    from kstack_map_page_cases [OF P(1) small' pg(2) [OF n4] refl nl run1] show ?thesis
    proof
      assume "r = Inl KERR_NOMEM \<and> s = t \<and> (\<forall>f. \<not> frame_free (xm_pmm (kn_mm t)) f)"
      then show ?thesis using k(2) kn by (intro exI [of _ n]) auto
    next
      assume "\<exists>f a. r = Inr () \<and> kern_inv s F \<and> only_mm t s \<and> frame_free (xm_pmm (kn_mm t)) f \<and> unat a = 4096 * f
       \<and> (\<forall>k. frame_free (xm_pmm (kn_mm s)) k \<longleftrightarrow> frame_free (xm_pmm (kn_mm t)) k \<and> k \<noteq> f)
       \<and> frame_managed (xm_pmm (kn_mm s)) = frame_managed (xm_pmm (kn_mm t))
       \<and> (\<forall>i<1024. pde (kn_mm s) F i = pde (kn_mm t) F i)
       \<and> range_mapped (kernel_vm t) (base + of_nat n * arch_vm_page_size) a 4096 (kn_mm t) (kn_mm s)"
      then obtain f a where f: "kern_inv s F" "only_mm t s" "frame_free (xm_pmm (kn_mm t)) f" "unat a = 4096 * f"
       "\<forall>k. frame_free (xm_pmm (kn_mm s)) k \<longleftrightarrow> frame_free (xm_pmm (kn_mm t)) k \<and> k \<noteq> f"
       "frame_managed (xm_pmm (kn_mm s)) = frame_managed (xm_pmm (kn_mm t))"
       "\<forall>i<1024. pde (kn_mm s) F i = pde (kn_mm t) F i"
       "range_mapped (kernel_vm t) (base + of_nat n * arch_vm_page_size) a 4096 (kn_mm t) (kn_mm s)"
       and r: "r = Inr ()" by blast
      have "f < 0x100000" using f(3) small' by (simp add: frame_free_def small_memory_def)
      from stack_part_add [OF k(2) [unfolded kn] base n4 this f] r show ?thesis by (intro exI [of _ "Suc n"]) auto
    qed
  qed
qed

text \<open>The tables of other spaces are not written: neither the kernel's tables nor frames that were free.\<close>

lemma kstack_map_page_mem:
  assumes inv: "kern_inv s F" and va: "kern_page va" "va = base + i * arch_vm_page_size" and run: "kstack_map_page base i s = (r, s')"
    and g: "g \<notin> space_frames (kn_mm s) F" "\<not> frame_free (xm_pmm (kn_mm s)) g" "j < 1024"
  shows "xm_mem (kn_mm s') (slot g j) = xm_mem (kn_mm s) (slot g j)"
proof (cases "PMM_ALLOC_ANY 1 (xm_pmm (kn_mm s))")
  case (Pair q p)
  note I = kern_invD [OF inv]
  have pi: "pmm_inv (xm_pmm (kn_mm s))" using vm_invD(1) [OF I(2)] .
  show ?thesis
  proof (cases q)
    case (Inl e)
    then show ?thesis using anymem.alloc_Inl [OF pi] Pair run by (auto simp: kstack_map_page_def kn_pmm_def kzoom_def kerr_try_def)
  next
    case (Inr a)
    obtain f where f: "pmm_inv p" "frame_managed p = frame_managed (xm_pmm (kn_mm s))" "unat a = 4096 * f"
        "\<forall>k. frame_free p k \<longleftrightarrow> frame_free (xm_pmm (kn_mm s)) k \<and> k \<noteq> f"
      using anymem.alloc_Inr [OF pi] Pair Inr by auto
    let ?t = "(kn_mm s)\<lparr>xm_pmm := p\<rparr>"
    have t: "vm_inv ?t F"
      using space_frames_owned [OF I(2)] f(1,2,4) by (intro vm_inv_pmm_update [OF I(2)]) (auto simp: owned_def)
    have kp: "unat va mod 4096 = 0" "unat va + unat (4096 :: u32) \<le> 2 ^ 32" using va(1) by (simp_all add: kern_page_def)
    obtain w u where u: "arch_vm_map (Some (kernel_vm s)) va a 4096 (VM_GROWSDOWN OR VM_READ OR VM_WRITE) ?t = (w, u)" by fastforce
    have "kept UNIV F ?t u" using arch_vm_map_spec [OF t I(1) _ kp(1) _ _ kp(2) UNIV_I u] f(3) by simp
    moreover have "g \<notin> reach UNIV F ?t"
      using g(1,2) f(4) tables_cong [of UNIV ?t F "kn_mm s"] by (auto simp: reach_def space_frames_def pmm_update_same)
    ultimately have "xm_mem u (slot g j) = xm_mem ?t (slot g j)" using g(3) by (rule kept_mem)
    moreover have "kn_mm s' = u"
      using run Pair Inr u kern_page_index(3) [OF va(1)] va(2)
      by (cases w) (auto simp: kstack_map_page_def kn_pmm_def kzoom_def kerr_try_def vm_kern_map_def arch_vm_page_size_def X86_PAGE_SIZE_def)
    ultimately show ?thesis by simp
  qed
qed

lemma stack_map_loop_mem:
  assumes inv: "kern_inv s0 F" and small: "small_memory s0" and base: "stack_pages base"
    and none: "\<And>x. unat base \<le> unat x \<Longrightarrow> unat x < unat base + 0x4000 \<Longrightarrow> translates (kernel_vm s0) (kn_mm s0) x = Inl KERR_NOENT"
    and n: "n \<le> 4" and run: "kerr_for (map of_nat [0..<n]) (kstack_map_page base) s0 = (r, s)"
    and g: "g \<notin> space_frames (kn_mm s0) F" "\<not> frame_free (xm_pmm (kn_mm s0)) g" "j < 1024"
  shows "xm_mem (kn_mm s) (slot g j) = xm_mem (kn_mm s0) (slot g j)"
  using n run
proof (induction n arbitrary: r s)
  case (Suc n)
  obtain q t where t: "kerr_for (map of_nat [0..<n]) (kstack_map_page base) s0 = (q, t)" by fastforce
  have n: "n \<le> 4" "n < 4" using Suc.prems(1) by simp_all
  note IH = Suc.IH [OF n(1) t]
  obtain k fs where k: "stack_part s0 t F base 0 k fs" using stack_map_loop [OF inv small base none n(1) t] by auto
  note P = stack_partD [OF k]
  show ?case
  proof (cases q)
    case (Inl e)
    then show ?thesis using Suc.prems(2) t IH by (auto simp: kerr_for_append kerr_try_def)
  next
    case (Inr y)
    have run1: "kstack_map_page base (of_nat n) t = (r, s)"
      using Suc.prems(2) t Inr by (auto simp: kerr_for_append kerr_try_def split: prod.splits sum.splits)
    have "tables UNIV (kn_mm t) F = tables UNIV (kn_mm s0) F" by (rule tables_cong) (rule P(7))
    then have "g \<notin> space_frames (kn_mm t) F" using g(1) by (simp add: space_frames_def)
    moreover have "\<not> frame_free (xm_pmm (kn_mm t)) g" using P(5) g(2) by simp
    ultimately show ?thesis using kstack_map_page_mem [OF P(1) stack_page(2) [OF base n(2)] refl run1 _ _ g(3)] IH by simp
  qed
qed simp

lemma stack_unmap_loop:
  assumes part: "stack_part s0 s F base 0 4 fs" and small: "small_memory s0" and base: "stack_pages base"
    and none: "\<And>x. unat base \<le> unat x \<Longrightarrow> unat x < unat base + 0x4000 \<Longrightarrow> translates (kernel_vm s0) (kn_mm s0) x = Inl KERR_NOENT"
    and inv0: "kern_inv s0 F" and n: "n \<le> 4"
  shows "\<exists>t. kerr_for (map of_nat [0..<n]) (kstack_unmap_page base) s = (Inr (), t) \<and> stack_part s0 t F base n 4 fs"
  using n
proof (induction n)
  case 0
  then show ?case using part by simp
next
  case (Suc n)
  then obtain t where t: "kerr_for (map of_nat [0..<n]) (kstack_unmap_page base) s = (Inr (), t)" "stack_part s0 t F base n 4 fs"
    by auto
  note P = stack_partD [OF t(2)]
  have n4: "n < 4" using Suc.prems by simp
  let ?va = "base + of_nat n * arch_vm_page_size :: vaddr"
  note pg = stack_page [OF base n4]
  have bm: "unat base mod 4096 = 0" using base by (simp add: stack_pages_def)
  have o: "(unat ?va - unat base) div 4096 = n" "unat ?va mod 4096 = 0" using pg(1) bm by (simp_all add: mod_mult2_eq)
  have free0: "frame_free (xm_pmm (kn_mm s0)) (fs n)" using P(4) [of n] n4 by simp
  then have man: "fs n < 0x100000" "frame_managed (xm_pmm (kn_mm t)) (fs n)"
    using small P(6) by (auto simp: frame_free_def small_memory_def frame_managed_def)
  define a where "a = (of_nat (4096 * fs n) :: paddr)"
  have a: "unat a = 4096 * fs n" unfolding a_def using man(1) by (intro unat_of_nat_small) simp
  have "translates (kernel_vm t) (kn_mm t) ?va = Inr a"
    unfolding only_mmD(1) [OF P(2)] P(8) using pg(1) n4 o by (simp add: a_def)
  moreover have "\<not> frame_free (xm_pmm (kn_mm t)) (fs n)" using P(5) [of "fs n"] n4 by auto
  moreover have "fs n \<notin> space_frames (kn_mm t) F"
  proof -
    have "tables UNIV (kn_mm t) F = tables UNIV (kn_mm s0) F" by (rule tables_cong) (rule P(7))
    then show ?thesis using space_frames_owned [OF kern_invD(2) [OF inv0], of "fs n"] free0
      by (auto simp: space_frames_def owned_def)
  qed
  ultimately obtain t' where t': "kstack_unmap_page base (of_nat n) t = (Inr (), t')" "kern_inv t' F" "only_mm t t'"
    "\<forall>k. frame_free (xm_pmm (kn_mm t')) k \<longleftrightarrow> frame_free (xm_pmm (kn_mm t)) k \<or> k = fs n"
    "frame_managed (xm_pmm (kn_mm t')) = frame_managed (xm_pmm (kn_mm t))"
    "range_unmapped (kernel_vm t) ?va 4096 (kn_mm t) (kn_mm t')" "\<forall>i<1024. pde (kn_mm t') F i = pde (kn_mm t) F i"
    using kstack_unmap_page_ok [OF P(1) pg(2) refl _ a man(2)] by blast
  have "stack_part s0 t' F base (Suc n) 4 fs"
    by (rule stack_part_drop [OF t(2) base n4 _ none t'(2,3,4,5,7,6)]) simp_all
  then show ?case using t(1) t'(1) by (auto simp: kerr_for_append kerr_try_def)
qed

subsection \<open>Allocating and freeing stacks\<close>

definition stack_bytes :: "size_t \<Rightarrow> vaddr \<Rightarrow> bool" where
  "stack_bytes pos a \<longleftrightarrow> 0xF0000000 + 0x4000 * unat pos \<le> unat a \<and> unat a < 0xF0000000 + 0x4000 * unat pos + 0x4000"

text \<open>The pages of every stack position that is not taken are not mapped.\<close>

definition stacks_ok :: "kern \<Rightarrow> bool" where
  "stacks_ok s \<longleftrightarrow> bm_nbits (kernel_stack_bm s) = 64 \<and>
     (\<forall>pos<64. \<not> bitmap_test (kernel_stack_bm s) pos \<longrightarrow>
        (\<forall>a. stack_bytes pos a \<longrightarrow> translates (kernel_vm s) (kn_mm s) a = Inl KERR_NOENT))"

lemma kstack_base_at:
  assumes "pos < 64"
  shows "unat (kstack_base pos) = 0xF0000000 + 0x4000 * unat pos" "stack_pages (kstack_base pos)"
    "(kstack_base pos - KERNEL_STACK_BASE) div (KERNEL_STACK_PAGES * arch_vm_page_size) = pos" "kstack_base pos \<noteq> 0"
proof -
  have p: "unat pos < 64" using assms by (simp add: word_less_nat_alt)
  have m: "unat (0x4000 * pos) = 0x4000 * unat pos" using p by (simp add: unat_mult_nowrap)
  have e: "kstack_base pos = 0xF0000000 + 0x4000 * pos"
    by (simp add: kstack_base_def KERNEL_STACK_BASE_def KERNEL_STACK_PAGES_def arch_vm_page_size_def X86_PAGE_SIZE_def)
  show u: "unat (kstack_base pos) = 0xF0000000 + 0x4000 * unat pos"
    unfolding e using p m by (subst unat_add_nowrap) simp_all
  then show "stack_pages (kstack_base pos)" using p by (auto simp: stack_pages_def)
  show "kstack_base pos \<noteq> 0" using u by auto
  have "kstack_base pos - KERNEL_STACK_BASE = 0x4000 * pos" by (simp add: e KERNEL_STACK_BASE_def)
  then have "unat ((kstack_base pos - KERNEL_STACK_BASE) div (KERNEL_STACK_PAGES * arch_vm_page_size)) = unat pos"
    by (simp add: KERNEL_STACK_PAGES_def arch_vm_page_size_def X86_PAGE_SIZE_def unat_div_word m)
  then show "(kstack_base pos - KERNEL_STACK_BASE) div (KERNEL_STACK_PAGES * arch_vm_page_size) = pos"
    by (simp add: word_unat_eq_iff)
qed

lemma words_upto_4: "words_upto 0 KERNEL_STACK_PAGES = map of_nat [0..<4]"
  by (simp add: words_upto_def KERNEL_STACK_PAGES_def)

lemma kstack_alloc_run:
  assumes inv: "kern_inv s F" and small: "small_memory s" and ok: "stacks_ok s"
    and run: "kstack_alloc (Some stk) s = (r, s')" and fresh: "ks_base stk = 0" "ks_size stk = 0"
    and pos: "bitmap_find_zero (kernel_stack_bm s) = Some pos"
  obtains k t fs where "k \<le> 4" "stack_part s t F (kstack_base pos) 0 k fs" "pos < 64" "\<not> bitmap_test (kernel_stack_bm s) pos"
    "k = 4 \<longrightarrow> r = Inr (stk\<lparr>ks_base := kstack_base pos, ks_size := 0x4000\<rparr>)
       \<and> s' = t\<lparr>kernel_stack_bm := bitmap_set (kernel_stack_bm s) pos\<rparr>"
    "k < 4 \<longrightarrow> r = Inl KERR_NOMEM \<and> s' = t \<and> (\<forall>f. \<not> frame_free (xm_pmm (kn_mm t)) f)"
proof -
  have nb: "bm_nbits (kernel_stack_bm s) = 64" using ok by (simp add: stacks_ok_def)
  have p: "pos < 64" "\<not> bitmap_test (kernel_stack_bm s) pos"
    using bitmap_find_zero_SomeD(1,2) [OF pos] nb by simp_all
  obtain q t where t: "kerr_for (map of_nat [0..<4]) (kstack_map_page (kstack_base pos)) s = (q, t)" by fastforce
  have none: "translates (kernel_vm s) (kn_mm s) x = Inl KERR_NOENT"
    if "unat (kstack_base pos) \<le> unat x" "unat x < unat (kstack_base pos) + 0x4000" for x
    using ok p that kstack_base_at(1) [OF p(1)] by (simp add: stacks_ok_def stack_bytes_def)
  obtain k fs where k: "k \<le> 4" "stack_part s t F (kstack_base pos) 0 k fs" "q = Inr () \<longrightarrow> k = 4"
      "\<forall>e. q = Inl e \<longrightarrow> e = KERR_NOMEM \<and> k < 4 \<and> (\<forall>f. \<not> frame_free (xm_pmm (kn_mm t)) f)"
    using stack_map_loop [OF inv small kstack_base_at(2) [OF p(1)] none _ t] by auto
  have sz: "KERNEL_STACK_PAGES * arch_vm_page_size = 0x4000"
    by (simp add: KERNEL_STACK_PAGES_def arch_vm_page_size_def X86_PAGE_SIZE_def)
  have bm: "kernel_stack_bm t = kernel_stack_bm s" by (rule only_mmD(2) [OF stack_partD(2) [OF k(2)]])
  show ?thesis
    by (rule that [OF k(1,2) p]) (use run t k(3,4) fresh pos in
      \<open>cases q; auto simp: kstack_alloc_def words_upto_4 kerr_try_def bm sz simp del: upt_rec_numeral\<close>)+
qed

lemma stack_bytes_disjoint: "stack_bytes p a \<Longrightarrow> stack_bytes q a \<Longrightarrow> p = q"
proof -
  assume "stack_bytes p a" "stack_bytes q a"
  then have "unat p = unat q" unfolding stack_bytes_def by linarith
  then show ?thesis by (simp add: word_unat_eq_iff)
qed

lemma kern_inv_bm [simp]: "kern_inv (s\<lparr>kernel_stack_bm := b\<rparr>) F = kern_inv s F"
  by (simp add: kern_inv_def)

text \<open>A successful allocation.\<close>

lemma kstack_alloc_Inr:
  assumes inv: "kern_inv s F" and small: "small_memory s" and ok: "stacks_ok s"
    and run: "kstack_alloc (Some stk) s = (Inr stk', s')"
  shows "\<exists>pos fs. pos < 64 \<and> \<not> bitmap_test (kernel_stack_bm s) pos \<and> (\<forall>q<pos. bitmap_test (kernel_stack_bm s) q)
     \<and> (\<forall>q. bitmap_test (kernel_stack_bm s') q \<longleftrightarrow> q = pos \<or> bitmap_test (kernel_stack_bm s) q)
     \<and> unat (ks_base stk') = 0xF0000000 + 0x4000 * unat pos \<and> ks_size stk' = 0x4000
     \<and> inj_on fs {0..<4} \<and> (\<forall>x. frame_free (xm_pmm (kn_mm s)) x \<longleftrightarrow> frame_free (xm_pmm (kn_mm s')) x \<or> x \<in> fs ` {0..<4})
     \<and> (\<forall>i<4. \<not> frame_free (xm_pmm (kn_mm s')) (fs i))
     \<and> (\<forall>a. translates (kernel_vm s') (kn_mm s') a =
          (if stack_bytes pos a then Inr (of_nat (4096 * fs ((unat a - unat (ks_base stk')) div 4096) + unat a mod 4096))
           else translates (kernel_vm s) (kn_mm s) a))
     \<and> kern_inv s' F \<and> stacks_ok s'"
proof -
  have fresh: "ks_base stk = 0" "ks_size stk = 0" using run by (auto simp: kstack_alloc_def split: if_splits)
  obtain pos where pos: "bitmap_find_zero (kernel_stack_bm s) = Some pos"
    using run by (auto simp: kstack_alloc_def split: if_splits option.splits)
  obtain k t fs where k: "k \<le> 4" "stack_part s t F (kstack_base pos) 0 k fs" "pos < 64" "\<not> bitmap_test (kernel_stack_bm s) pos"
    "k = 4 \<longrightarrow> (Inr stk' :: kerror + kernel_stack) = Inr (stk\<lparr>ks_base := kstack_base pos, ks_size := 0x4000\<rparr>)
       \<and> s' = t\<lparr>kernel_stack_bm := bitmap_set (kernel_stack_bm s) pos\<rparr>"
    "k < 4 \<longrightarrow> Inr stk' = Inl KERR_NOMEM \<and> s' = t \<and> (\<forall>f. \<not> frame_free (xm_pmm (kn_mm t)) f)"
    by (rule kstack_alloc_run [OF inv small ok run fresh pos])
  then have k4: "k = 4" by auto
  note P = stack_partD [OF k(2) [unfolded k4]]
  have s': "stk' = stk\<lparr>ks_base := kstack_base pos, ks_size := 0x4000\<rparr>" "s' = t\<lparr>kernel_stack_bm := bitmap_set (kernel_stack_bm s) pos\<rparr>"
    using k(5) k4 by simp_all
  have u: "unat (ks_base stk') = 0xF0000000 + 0x4000 * unat pos" using kstack_base_at(1) [OF k(3)] by (simp add: s')
  have vm: "kernel_vm s' = kernel_vm s" using only_mmD(1) [OF P(2)] by (simp add: s')
  have tr: "translates (kernel_vm s') (kn_mm s') a =
      (if stack_bytes pos a then Inr (of_nat (4096 * fs ((unat a - unat (ks_base stk')) div 4096) + unat a mod 4096))
       else translates (kernel_vm s) (kn_mm s) a)" for a
    using P(8) [of a] u unfolding vm by (simp add: s' stack_bytes_def)
  have test: "bitmap_test (kernel_stack_bm s') q \<longleftrightarrow> q = pos \<or> bitmap_test (kernel_stack_bm s) q" for q
    by (simp add: s' bitmap_test_set)
  have "stacks_ok s'"
    unfolding stacks_ok_def tr test using ok stack_bytes_disjoint [of pos] by (auto simp: stacks_ok_def s')
  moreover have "frame_free (xm_pmm (kn_mm s)) x \<longleftrightarrow> frame_free (xm_pmm (kn_mm s')) x \<or> x \<in> fs ` {0..<4}" for x
    using P(4,5) by (auto simp: s')
  moreover have "\<not> frame_free (xm_pmm (kn_mm s')) (fs i)" if "i < 4" for i using P(5) [of "fs i"] that by (auto simp: s')
  moreover have "kern_inv s' F" using P(1) by (simp add: s')
  moreover have "ks_size stk' = 0x4000" by (simp add: s')
  moreover have "\<forall>q<pos. bitmap_test (kernel_stack_bm s) q"
    using bitmap_find_zero_SomeD(3) [OF pos] ok by (simp add: stacks_ok_def)
  ultimately show ?thesis using k(3,4) P(3) u test tr by (intro exI [of _ pos] exI [of _ fs]) blast
qed

text \<open>A failed one.\<close>

lemma kstack_alloc_Inl:
  assumes inv: "kern_inv s F" and small: "small_memory s" and ok: "stacks_ok s" and fresh: "ks_base stk = 0" "ks_size stk = 0"
    and run: "kstack_alloc (Some stk) s = (Inl e, s')"
  shows "e = KERR_NOSPC \<and> s' = s \<and> (\<forall>q<64. bitmap_test (kernel_stack_bm s) q) \<or>
    (\<exists>pos k fs. e = KERR_NOMEM \<and> bitmap_find_zero (kernel_stack_bm s) = Some pos \<and> pos < 64 \<and> k < 4
       \<and> stack_part s s' F (kstack_base pos) 0 k fs \<and> (\<forall>f. \<not> frame_free (xm_pmm (kn_mm s')) f))"
proof (cases "bitmap_find_zero (kernel_stack_bm s)")
  case None
  then have "\<forall>q<64. bitmap_test (kernel_stack_bm s) q" using ok by (simp add: stacks_ok_def bitmap_find_zero_None_iff)
  then show ?thesis using run fresh None by (simp add: kstack_alloc_def)
next
  case (Some pos)
  obtain k t fs where k: "k \<le> 4" "stack_part s t F (kstack_base pos) 0 k fs" "pos < 64" "\<not> bitmap_test (kernel_stack_bm s) pos"
    "k = 4 \<longrightarrow> (Inl e :: kerror + kernel_stack) = Inr (stk\<lparr>ks_base := kstack_base pos, ks_size := 0x4000\<rparr>)
       \<and> s' = t\<lparr>kernel_stack_bm := bitmap_set (kernel_stack_bm s) pos\<rparr>"
    "k < 4 \<longrightarrow> (Inl e :: kerror + kernel_stack) = Inl KERR_NOMEM \<and> s' = t \<and> (\<forall>f. \<not> frame_free (xm_pmm (kn_mm t)) f)"
    by (rule kstack_alloc_run [OF inv small ok run fresh Some])
  then have "k < 4" by (cases "k = 4") simp_all
  with k Some show ?thesis by auto
qed

lemma kstack_alloc_mem:
  assumes inv: "kern_inv s F" and small: "small_memory s" and ok: "stacks_ok s" and run: "kstack_alloc (Some stk) s = (r, s')"
    and g: "g \<notin> space_frames (kn_mm s) F" "\<not> frame_free (xm_pmm (kn_mm s)) g" "j < 1024"
  shows "xm_mem (kn_mm s') (slot g j) = xm_mem (kn_mm s) (slot g j)"
proof (cases "ks_base stk = 0 \<and> ks_size stk = 0 \<and> bitmap_find_zero (kernel_stack_bm s) \<noteq> None")
  case True
  then obtain pos where pos: "bitmap_find_zero (kernel_stack_bm s) = Some pos" by blast
  have p: "pos < 64" "\<not> bitmap_test (kernel_stack_bm s) pos"
    using bitmap_find_zero_SomeD(1,2) [OF pos] ok by (simp_all add: stacks_ok_def)
  obtain q t where t: "kerr_for (map of_nat [0..<4]) (kstack_map_page (kstack_base pos)) s = (q, t)" by fastforce
  have none: "translates (kernel_vm s) (kn_mm s) x = Inl KERR_NOENT"
    if "unat (kstack_base pos) \<le> unat x" "unat x < unat (kstack_base pos) + 0x4000" for x
    using ok p that kstack_base_at(1) [OF p(1)] by (simp add: stacks_ok_def stack_bytes_def)
  have "xm_mem (kn_mm t) (slot g j) = xm_mem (kn_mm s) (slot g j)"
    by (rule stack_map_loop_mem [OF inv small kstack_base_at(2) [OF p(1)] none _ t g]) simp_all
  moreover have "kn_mm s' = kn_mm t"
    using run t pos True by (cases q) (auto simp: kstack_alloc_def words_upto_4 kerr_try_def simp del: upt_rec_numeral)
  ultimately show ?thesis by simp
next
  case False
  then show ?thesis using run by (auto simp: kstack_alloc_def split: if_splits option.splits)
qed

lemma stack_part_card:
  assumes "stack_part s t F base 0 k fs"
  shows "card {f. frame_free (xm_pmm (kn_mm s)) f} = card {f. frame_free (xm_pmm (kn_mm t)) f} + k"
proof -
  note P = stack_partD [OF assms]
  have fin: "finite {f. frame_free p f}" for p by (rule finite_subset [of _ "{..<unat (pmm_total_frames p)}"]) (auto simp: frame_free_def)
  have "{f. frame_free (xm_pmm (kn_mm s)) f} = {f. frame_free (xm_pmm (kn_mm t)) f} \<union> fs ` {0..<k}" using P(4,5) by auto
  moreover have "{f. frame_free (xm_pmm (kn_mm t)) f} \<inter> fs ` {0..<k} = {}" using P(5) by auto
  ultimately have "card {f. frame_free (xm_pmm (kn_mm s)) f} = card {f. frame_free (xm_pmm (kn_mm t)) f} + card (fs ` {0..<k})"
    using fin by (simp add: card_Un_disjoint)
  then show ?thesis using card_image [OF P(3)] by simp
qed

text \<open>
  C29. Allocating a kernel stack, on a machine with at most 4 GiB of memory where no page of a free stack position is mapped.
  It succeeds exactly when a position and four frames are free. The stack then takes the lowest free position, above the direct map; its
  four pages translate to four different frames that were free and no longer are, every other address translates as
  before, exactly that position becomes taken, and the pages of all free positions are still unmapped, so that the next
  stack is apart from it. Otherwise it reports that positions ran out, with nothing changed, or that memory ran out.
\<close>

theorem kstack_alloc_correct:
  assumes inv: "kern_inv s F" and small: "small_memory s" and ok: "stacks_ok s" and fresh: "ks_base stk = 0" "ks_size stk = 0"
    and run: "kstack_alloc (Some stk) s = (r, s')"
  shows "if (\<exists>q<64. \<not> bitmap_test (kernel_stack_bm s) q) \<and> 4 \<le> card {f. frame_free (xm_pmm (kn_mm s)) f}
    then \<exists>stk'. r = Inr stk' \<and> (\<exists>pos fs. pos < 64 \<and> \<not> bitmap_test (kernel_stack_bm s) pos \<and> (\<forall>q<pos. bitmap_test (kernel_stack_bm s) q)
     \<and> (\<forall>q. bitmap_test (kernel_stack_bm s') q \<longleftrightarrow> q = pos \<or> bitmap_test (kernel_stack_bm s) q)
     \<and> unat (ks_base stk') = 0xF0000000 + 0x4000 * unat pos \<and> ks_size stk' = 0x4000
     \<and> inj_on fs {0..<4} \<and> (\<forall>x. frame_free (xm_pmm (kn_mm s)) x \<longleftrightarrow> frame_free (xm_pmm (kn_mm s')) x \<or> x \<in> fs ` {0..<4})
     \<and> (\<forall>i<4. \<not> frame_free (xm_pmm (kn_mm s')) (fs i))
     \<and> (\<forall>a. translates (kernel_vm s') (kn_mm s') a =
          (if stack_bytes pos a then Inr (of_nat (4096 * fs ((unat a - unat (ks_base stk')) div 4096) + unat a mod 4096))
           else translates (kernel_vm s) (kn_mm s) a))
     \<and> kern_inv s' F \<and> stacks_ok s')
    else r = Inl KERR_NOSPC \<and> s' = s \<and> (\<forall>q<64. bitmap_test (kernel_stack_bm s) q)
      \<or> r = Inl KERR_NOMEM \<and> card {f. frame_free (xm_pmm (kn_mm s)) f} < 4"
proof (cases r)
  case (Inr stk')
  note S = kstack_alloc_Inr [OF inv small ok run [unfolded Inr]]
  then obtain pos fs where q: "pos < 64" "\<not> bitmap_test (kernel_stack_bm s) pos" "inj_on fs {0..<4::nat}"
    "\<forall>x. frame_free (xm_pmm (kn_mm s)) x \<longleftrightarrow> frame_free (xm_pmm (kn_mm s')) x \<or> x \<in> fs ` {0..<4}"
    by (elim exE conjE) (rule that)
  then have p: "pos < 64" "\<not> bitmap_test (kernel_stack_bm s) pos" "inj_on fs {0..<4::nat}"
    "fs ` {0..<4} \<subseteq> {f. frame_free (xm_pmm (kn_mm s)) f}" by auto
  have "finite {f. frame_free (xm_pmm (kn_mm s)) f}"
    by (rule finite_subset [of _ "{..<unat (pmm_total_frames (xm_pmm (kn_mm s)))}"]) (auto simp: frame_free_def)
  from card_mono [OF this p(4)] have "4 \<le> card {f. frame_free (xm_pmm (kn_mm s)) f}" using card_image [OF p(3)] by simp
  then have c: "(\<exists>q<64. \<not> bitmap_test (kernel_stack_bm s) q) \<and> 4 \<le> card {f. frame_free (xm_pmm (kn_mm s)) f}" using p(1,2) by blast
  show ?thesis unfolding if_P [OF c] by (intro exI [of _ stk'] conjI [OF Inr]) (rule S)
next
  case (Inl e)
  have "e = KERR_NOSPC \<and> s' = s \<and> (\<forall>q<64. bitmap_test (kernel_stack_bm s) q)
      \<or> e = KERR_NOMEM \<and> card {f. frame_free (xm_pmm (kn_mm s)) f} < 4"
    using kstack_alloc_Inl [OF inv small ok fresh run [unfolded Inl]] by (auto dest!: stack_part_card)
  then show ?thesis using Inl by auto
qed

text \<open>
  Freeing a stack that was just allocated succeeds and undoes the allocation: the same frames are
  free, every address translates as before, and the same positions are taken.
\<close>

theorem kstack_alloc_free:
  assumes inv: "kern_inv s F" and small: "small_memory s" and ok: "stacks_ok s"
    and run: "kstack_alloc (Some stk) s = (Inr stk', s1)"
  shows "\<exists>s2 stk2. kstack_free (Some stk') s1 = (Inr stk2, s2) \<and> ks_base stk2 = 0 \<and> ks_size stk2 = 0 \<and> kern_inv s2 F
     \<and> (\<forall>x. frame_free (xm_pmm (kn_mm s2)) x \<longleftrightarrow> frame_free (xm_pmm (kn_mm s)) x)
     \<and> (\<forall>a. translates (kernel_vm s2) (kn_mm s2) a = translates (kernel_vm s) (kn_mm s) a)
     \<and> (\<forall>q. bitmap_test (kernel_stack_bm s2) q = bitmap_test (kernel_stack_bm s) q)"
proof -
  have fresh: "ks_base stk = 0" "ks_size stk = 0" using run by (auto simp: kstack_alloc_def split: if_splits)
  obtain pos where pos: "bitmap_find_zero (kernel_stack_bm s) = Some pos"
    using run by (auto simp: kstack_alloc_def split: if_splits option.splits)
  obtain k t fs where k: "k \<le> 4" "stack_part s t F (kstack_base pos) 0 k fs" "pos < 64" "\<not> bitmap_test (kernel_stack_bm s) pos"
    "k = 4 \<longrightarrow> (Inr stk' :: kerror + kernel_stack) = Inr (stk\<lparr>ks_base := kstack_base pos, ks_size := 0x4000\<rparr>)
       \<and> s1 = t\<lparr>kernel_stack_bm := bitmap_set (kernel_stack_bm s) pos\<rparr>"
    "k < 4 \<longrightarrow> Inr stk' = Inl KERR_NOMEM \<and> s1 = t \<and> (\<forall>f. \<not> frame_free (xm_pmm (kn_mm t)) f)"
    by (rule kstack_alloc_run [OF inv small ok run fresh pos])
  then have k4: "k = 4" by auto
  have s1: "stk' = stk\<lparr>ks_base := kstack_base pos, ks_size := 0x4000\<rparr>" "s1 = t\<lparr>kernel_stack_bm := bitmap_set (kernel_stack_bm s) pos\<rparr>"
    using k(5) k4 by simp_all
  let ?b = "bitmap_set (kernel_stack_bm s) pos" and ?s = "s\<lparr>kernel_stack_bm := bitmap_set (kernel_stack_bm s) pos\<rparr>"
  note P = stack_partD [OF k(2) [unfolded k4]] and B = kstack_base_at [OF k(3)]
  have om: "only_mm ?s s1" unfolding s1(2) by (rule only_mm_bm [OF P(2)])
  have part: "stack_part ?s s1 F (kstack_base pos) 0 4 fs"
    using k(2) k4 om by (simp add: stack_part_def s1)
  have none: "translates (kernel_vm ?s) (kn_mm ?s) x = Inl KERR_NOENT"
    if "unat (kstack_base pos) \<le> unat x" "unat x < unat (kstack_base pos) + 0x4000" for x
    using ok k(3,4) that B(1) by (simp add: stacks_ok_def stack_bytes_def)
  have "small_memory ?s" "kern_inv ?s F" using small inv by (simp_all add: small_memory_def)
  from stack_unmap_loop [OF part this(1) B(2) none this(2), of 4]
  obtain u where u: "kerr_for (map of_nat [0..<4]) (kstack_unmap_page (kstack_base pos)) s1 = (Inr (), u)"
      "stack_part ?s u F (kstack_base pos) 4 4 fs" by auto
  note U = stack_partD [OF u(2)]
  have bm: "kernel_stack_bm u = ?b" and vm: "kernel_vm u = kernel_vm s" using only_mmD(1,2) [OF U(2)] by simp_all
  have "kstack_free (Some stk') s1 = (Inr (stk'\<lparr>ks_base := 0, ks_size := 0, ks_stack_pointer := 0\<rparr>),
      u\<lparr>kernel_stack_bm := bitmap_clear ?b pos\<rparr>)"
    using u(1) B(3,4) by (simp add: kstack_free_def s1(1) words_upto_4 kerr_try_def bm del: upt_rec_numeral)
  moreover have "bitmap_test (bitmap_clear ?b pos) q = bitmap_test (kernel_stack_bm s) q" for q
    using k(4) by (auto simp: bitmap_test_set bitmap_test_clear)
  ultimately show ?thesis using U(1,5,8) vm by auto
qed

text \<open>Mapping a kernel page that is mapped already fails; the frame it took stays taken.\<close>

lemma arch_map_mapped:
  assumes inv: "vm_inv s F" and pd: "table_at (pd_phys vm) F" and kp: "unat va mod 4096 = 0"
    and a: "unat a mod 4096 = 0" and tr: "translates vm s va = Inr p"
  shows "arch_vm_map (Some vm) va a 4096 flags s = (Inl KERR_EXISTS, s)"
proof -
  obtain r u where u: "x86_map_page vm va a flags s = (r, u)" by fastforce
  obtain e' where l: "lookup s F (unat va div 4096) = Some e'"
    using tr by (auto simp: translates_lookup [OF inv pd] split: option.splits)
  have "(r, u) = (Inl KERR_EXISTS, s)"
  proof (cases r)
    case (Inl e)
    then show ?thesis using x86_map_page_spec(2) [OF inv pd UNIV_I u] l lookup_not_large [of s F "unat va div 4096"] by auto
  next
    case (Inr x)
    then show ?thesis using x86_map_page_spec(1) [OF inv pd UNIV_I u] l by simp
  qed
  then have "x86_map_page vm va a flags s = (Inl KERR_EXISTS, s)" using u by simp
  then show ?thesis using kp a by (simp add: arch_vm_map_def page_offsets_def kerr_try_def)
qed

lemma kstack_map_page_mapped:
  assumes inv: "kern_inv s F" and va: "kern_page va" "va = base + i * arch_vm_page_size"
    and tr: "translates (kernel_vm s) (kn_mm s) va = Inr p" and run: "kstack_map_page base i s = (r, s')"
  shows "r = Inl (if \<exists>f. frame_free (xm_pmm (kn_mm s)) f then KERR_EXISTS else KERR_NOMEM)"
    and "\<exists>p'. s' = s\<lparr>kn_mm := (kn_mm s)\<lparr>xm_pmm := p'\<rparr>\<rparr> \<and> kern_inv s' F \<and> pmm_total_frames p' = pmm_total_frames (xm_pmm (kn_mm s))"
proof -
  note I = kern_invD [OF inv]
  have pi: "pmm_inv (xm_pmm (kn_mm s))" using vm_invD(1) [OF I(2)] .
  obtain q p' where al: "PMM_ALLOC_ANY 1 (xm_pmm (kn_mm s)) = (q, p')" by fastforce
  have "r = Inl (if \<exists>f. frame_free (xm_pmm (kn_mm s)) f then KERR_EXISTS else KERR_NOMEM)
    \<and> (\<exists>p'. s' = s\<lparr>kn_mm := (kn_mm s)\<lparr>xm_pmm := p'\<rparr>\<rparr> \<and> kern_inv s' F \<and> pmm_total_frames p' = pmm_total_frames (xm_pmm (kn_mm s)))"
  proof (cases q)
    case (Inl e)
    then have "e = KERR_NOMEM" "p' = xm_pmm (kn_mm s)" "\<And>f. \<not> frame_free (xm_pmm (kn_mm s)) f"
      using anymem.alloc_Inl [OF pi] no_frame_left [OF pi] al by auto
    then show ?thesis using run al Inl inv
      by (auto simp: kstack_map_page_def kn_pmm_def kzoom_def kerr_try_def intro!: exI [of _ "xm_pmm (kn_mm s)"])
  next
    case (Inr a)
    obtain f where f: "pmm_inv p'" "frame_managed p' = frame_managed (xm_pmm (kn_mm s))" "unat a = 4096 * f"
        "frame_free (xm_pmm (kn_mm s)) f" "\<forall>k. frame_free p' k \<longleftrightarrow> frame_free (xm_pmm (kn_mm s)) k \<and> k \<noteq> f"
      using anymem.alloc_Inr [OF pi] al Inr by auto
    let ?t = "(kn_mm s)\<lparr>xm_pmm := p'\<rparr>"
    have t: "vm_inv ?t F"
      using space_frames_owned [OF I(2)] f(1,2,5) by (intro vm_inv_pmm_update [OF I(2)]) (auto simp: owned_def)
    have kp: "unat va mod 4096 = 0" using va(1) by (simp add: kern_page_def)
    have "arch_vm_map (Some (kernel_vm s)) va a 4096 (VM_GROWSDOWN OR VM_READ OR VM_WRITE) ?t = (Inl KERR_EXISTS, ?t)"
      by (rule arch_map_mapped [OF t I(1) kp]) (use f(3) tr in \<open>simp_all add: pmm_update_same\<close>)
    then have "r = Inl KERR_EXISTS" "s' = s\<lparr>kn_mm := ?t\<rparr>"
      using run al Inr kern_page_index(3) [OF va(1)] va(2)
      by (auto simp: kstack_map_page_def kn_pmm_def kzoom_def kerr_try_def vm_kern_map_def arch_vm_page_size_def X86_PAGE_SIZE_def)
    moreover have "kern_inv (s\<lparr>kn_mm := ?t\<rparr>) F" using I(1,3) t by (simp add: kern_inv_def pmm_update_same)
    moreover have "unat (pmm_total_frames p') = unat (pmm_total_frames (xm_pmm (kn_mm s)))"
      using f(2) unfolding frame_managed_def fun_eq_iff by (metis linorder_neqE_nat order_less_irrefl)
    ultimately show ?thesis using f(4) by (auto simp: word_unat_eq_iff)
  qed
  then show "r = Inl (if \<exists>f. frame_free (xm_pmm (kn_mm s)) f then KERR_EXISTS else KERR_NOMEM)"
    and "\<exists>p'. s' = s\<lparr>kn_mm := (kn_mm s)\<lparr>xm_pmm := p'\<rparr>\<rparr> \<and> kern_inv s' F \<and> pmm_total_frames p' = pmm_total_frames (xm_pmm (kn_mm s))"
    by blast+
qed

text \<open>
  What can happen after a state, short of freeing a kernel stack: further attempts to allocate one, and anything that leaves
  the kernel's mappings and the positions of stacks alone (allocations of frames, the heap, user spaces).
\<close>

inductive no_stack_freed :: "nat \<Rightarrow> kern \<Rightarrow> kern \<Rightarrow> bool" for F s0 where
  nsf_start: "no_stack_freed F s0 s0"
| nsf_alloc: "no_stack_freed F s0 s \<Longrightarrow> kstack_alloc stack s = (r, s') \<Longrightarrow> no_stack_freed F s0 s'"
| nsf_other: "no_stack_freed F s0 s \<Longrightarrow> kern_inv s' F \<Longrightarrow> kernel_vm s' = kernel_vm s \<Longrightarrow> kernel_stack_bm s' = kernel_stack_bm s \<Longrightarrow>
    (\<And>a. 0xC0000000 \<le> unat a \<Longrightarrow> translates (kernel_vm s) (kn_mm s') a = translates (kernel_vm s) (kn_mm s) a) \<Longrightarrow> no_stack_freed F s0 s'"

text \<open>The next position is mapped in part.\<close>

definition stack_blocked :: "nat \<Rightarrow> size_t \<Rightarrow> kern \<Rightarrow> bool" where
  "stack_blocked F pos s \<longleftrightarrow> kern_inv s F \<and> pos < 64 \<and> bitmap_find_zero (kernel_stack_bm s) = Some pos
     \<and> (\<exists>p. translates (kernel_vm s) (kn_mm s) (kstack_base pos) = Inr p)"

lemma kstack_alloc_blocked:
  assumes b: "stack_blocked F pos s" and run: "kstack_alloc stack s = (r, s')"
  shows "stack_blocked F pos s'"
    and "stack = Some stk \<Longrightarrow> ks_base stk = 0 \<Longrightarrow> ks_size stk = 0 \<Longrightarrow>
      r = Inl (if \<exists>f. frame_free (xm_pmm (kn_mm s)) f then KERR_EXISTS else KERR_NOMEM)"
proof -
  obtain p where inv: "kern_inv s F" and pos: "pos < 64" "bitmap_find_zero (kernel_stack_bm s) = Some pos"
    and tr: "translates (kernel_vm s) (kn_mm s) (kstack_base pos) = Inr p" using b by (auto simp: stack_blocked_def)
  have va: "kern_page (kstack_base pos)" "kstack_base pos = kstack_base pos + 0 * arch_vm_page_size"
    using stack_page(2) [OF kstack_base_at(2) [OF pos(1)], of 0] by simp_all
  obtain q t where q: "kstack_map_page (kstack_base pos) 0 s = (q, t)" by fastforce
  note M = kstack_map_page_mapped [OF inv va tr q]
  have four: "words_upto 0 KERNEL_STACK_PAGES = 0 # map of_nat [1..<4]"
    by (simp add: words_upto_def KERNEL_STACK_PAGES_def upt_conv_Cons)
  have fail: "kerr_for (words_upto 0 KERNEL_STACK_PAGES) (kstack_map_page (kstack_base pos)) s = (q, t)"
    unfolding four using q M(1) by (simp add: kerr_try_def)
  have t: "stack_blocked F pos t" using M(2) b by (auto simp: stack_blocked_def pmm_update_same)
  show "stack_blocked F pos s'"
    using run b t M(1) fail pos(2) by (auto simp: kstack_alloc_def kerr_try_def split: option.splits if_splits)
  show "r = Inl (if \<exists>f. frame_free (xm_pmm (kn_mm s)) f then KERR_EXISTS else KERR_NOMEM)"
    if "stack = Some stk" "ks_base stk = 0" "ks_size stk = 0"
    using run that M(1) fail pos(2) by (auto simp: kstack_alloc_def kerr_try_def)
qed

text \<open>
  C38. A stack allocation that runs out of frames half way is not undone: the pages mapped so far stay
  mapped while their position stays marked as free. From then on, as long as no kernel stack is freed and whatever else happens to
  the frames, the heap and the user spaces, no kernel stack can be allocated: every attempt picks the same position and is
  refused, with KERR_EXISTS as soon as a frame is free.
\<close>

theorem kstack_alloc_stuck:
  assumes inv: "kern_inv s F" and small: "small_memory s" and ok: "stacks_ok s"
    and some: "frame_free (xm_pmm (kn_mm s)) f" and fresh: "ks_base stk = 0" "ks_size stk = 0"
    and run: "kstack_alloc (Some stk) s = (Inl KERR_NOMEM, s1)"
    and later: "no_stack_freed F s1 s2" and fresh2: "ks_base stk2 = 0" "ks_size stk2 = 0"
  shows "fst (kstack_alloc (Some stk2) s2) = Inl (if \<exists>f. frame_free (xm_pmm (kn_mm s2)) f then KERR_EXISTS else KERR_NOMEM)"
proof -
  obtain pos k fs where k: "bitmap_find_zero (kernel_stack_bm s) = Some pos" "pos < 64" "k < 4"
    "stack_part s s1 F (kstack_base pos) 0 k fs" "\<forall>f. \<not> frame_free (xm_pmm (kn_mm s1)) f"
    using kstack_alloc_Inl [OF inv small ok fresh run] by auto
  note P = stack_partD [OF k(4)]
  have "0 < k" using P(5) [of f] k(5) some by (cases k) auto
  then have "\<exists>p. translates (kernel_vm s) (kn_mm s1) (kstack_base pos) = Inr p" unfolding P(8) by simp
  then have s1: "stack_blocked F pos s1" using k(1,2) P(1) only_mmD(1,2) [OF P(2)] by (simp add: stack_blocked_def)
  have base: "0xC0000000 \<le> unat (kstack_base pos)" using kstack_base_at(1) [OF k(2)] by simp
  from later have s2: "stack_blocked F pos s2"
  proof induction
    case (nsf_alloc s stack r s')
    then show ?case using kstack_alloc_blocked(1) by blast
  next
    case (nsf_other s s')
    then show ?case using base by (auto simp: stack_blocked_def)
  qed (rule s1)
  obtain r s3 where r: "kstack_alloc (Some stk2) s2 = (r, s3)" by fastforce
  from kstack_alloc_blocked(2) [OF s2 r refl fresh2] show ?thesis by (simp add: r)
qed

subsection \<open>Witnesses\<close>

text \<open>The sample machine with an empty set of stacks, and the same with a single free frame.\<close>

definition kstk_sample :: kern where
  "kstk_sample = kern_sample\<lparr>kn_mm := x86_sample, kernel_vm := kvm_sample\<rparr>"

definition pmm_one :: pmm where
  "pmm_one = \<lparr>pmm_bm = \<lparr>bm_data = (\<lambda>i. if i < 15 then - 1 else 0), bm_nbits = 481, bm_nelems = 16\<rparr>,
     pmm_max_addr = 0x1E1000, pmm_total_frames = 481, pmm_free_frames = 1\<rparr>"

definition kstk_low :: kern where
  "kstk_low = kstk_sample\<lparr>kn_mm := x86_sample\<lparr>xm_pmm := pmm_one\<rparr>\<rparr>"

definition stack_sample :: kernel_stack where
  "stack_sample = \<lparr>ks_base = 0, ks_stack_pointer = 0, ks_size = 0\<rparr>"

lemma pmm_one_free: "frame_free pmm_one k \<longleftrightarrow> k = 480"
proof -
  have "k div 32 < 15 \<longleftrightarrow> k < 480" by (simp add: div_less_iff_less_mult)
  moreover have "k < 481 \<Longrightarrow> k < 2 ^ 32" by simp
  ultimately show ?thesis by (auto simp: frame_free_def pmm_one_def bm_free_bit bit_minus_1_iff possible_bit_def)
qed

lemma pmm_one_inv: "pmm_inv pmm_one"
proof -
  have "k < 481 \<and> bm_free (pmm_bm pmm_one) k \<longleftrightarrow> k \<in> {480}" for k
    unfolding singleton_iff pmm_one_free [symmetric] by (simp add: frame_free_def pmm_one_def)
  then have "{k. k < 481 \<and> bm_free (pmm_bm pmm_one) k} = {480}" by blast
  then have "bm_zeros (pmm_bm pmm_one) 481 = 1" by (simp add: bm_zeros_def)
  moreover have "pmm_total_frames pmm_one = 481" "pmm_free_frames pmm_one = 1" "bm_nbits (pmm_bm pmm_one) = 481"
    by (simp_all add: pmm_one_def)
  ultimately show ?thesis by (simp add: pmm_inv_def)
qed

lemma kstk_sample_inv: "kern_inv kstk_sample 0" "small_memory kstk_sample" "kern_inv kstk_low 0" "small_memory kstk_low"
proof -
  show "kern_inv kstk_sample 0"
    using sample_table_at(2) sample_kernel_inv sample_pde_kernel(1) by (simp add: kern_inv_def kstk_sample_def)
  show "small_memory kstk_sample" by (simp add: small_memory_def kstk_sample_def x86_sample_def)
  have "vm_inv (x86_sample\<lparr>xm_pmm := pmm_one\<rparr>) 0"
  proof (rule space_same(1) [OF sample_kernel_inv])
    fix f assume "f \<in> space_frames x86_sample 0"
    then have "f \<le> 256" using sample_tables(2) [of UNIV] by (auto simp: space_frames_def)
    then show "owned (x86_sample\<lparr>xm_pmm := pmm_one\<rparr>) f"
      by (simp add: owned_def pmm_one_free LOWMEM_FRAMES_def) (simp add: frame_managed_def pmm_one_def)
  qed (simp_all add: pmm_one_inv)
  then show "kern_inv kstk_low 0"
    using sample_table_at(2) sample_pde_kernel(1) by (simp add: kern_inv_def kstk_low_def kstk_sample_def pmm_update_same)
  show "small_memory kstk_low" by (simp add: small_memory_def kstk_low_def pmm_one_def)
qed

lemma sample_unmapped: "0xF0000000 \<le> unat a \<Longrightarrow> translates kvm_sample x86_sample a = Inl KERR_NOENT"
proof -
  assume a: "0xF0000000 \<le> unat a"
  let ?i = "unat a div 4096 div 1024"
  have i: "768 \<le> ?i" "?i < 1024" using a unat32_lt [of a]
    by (simp_all add: less_eq_div_iff_mult_less_eq div_less_iff_less_mult del: unat32_lt)
  have "1 \<le> frame_of (pde x86_sample 0 ?i)" using sample_pde_kernel(2) [OF i] i(1) by linarith
  then have "xm_mem x86_sample (slot (frame_of (pde x86_sample 0 ?i)) j) = 0" for j
    by (simp add: x86_sample_def slot_def)
  then have "lookup x86_sample 0 (unat a div 4096) = None" by (simp add: lookup_def Let_def present_def)
  moreover have "\<not> large_at x86_sample 0 (unat a div 4096)"
    using sample_pde_kernel(1) [OF i] by (simp add: large_at_def is_table_def)
  ultimately show ?thesis by (simp add: translates_lookup [OF sample_kernel_inv sample_table_at(2)])
qed

lemma kstk_sample_stacks: "stacks_ok kstk_sample" "stacks_ok kstk_low"
  using sample_unmapped by (auto simp: stacks_ok_def kstk_sample_def kstk_low_def kern_sample_def stack_bytes_def pmm_update_same)

lemma sample_pos: "\<exists>pos. bitmap_find_zero (kernel_stack_bm kstk_sample) = Some pos"
proof -
  have "bitmap_find_zero (kernel_stack_bm kstk_sample) \<noteq> None"
    by (subst bitmap_find_zero_None_iff) (auto simp: kstk_sample_def kern_sample_def bitmap_test_bit intro!: exI [of _ 0])
  then show ?thesis by auto
qed

lemma sample_kstack_alloc:
  obtains stk' s' where "kstack_alloc (Some stack_sample) kstk_sample = (Inr stk', s')"
proof -
  obtain r s' where run: "kstack_alloc (Some stack_sample) kstk_sample = (r, s')" by fastforce
  obtain pos where pos: "bitmap_find_zero (kernel_stack_bm kstk_sample) = Some pos" using sample_pos by blast
  obtain k t fs where k: "stack_part kstk_sample t 0 (kstack_base pos) 0 k fs"
    "k = 4 \<longrightarrow> r = Inr (stack_sample\<lparr>ks_base := kstack_base pos, ks_size := 0x4000\<rparr>)"
    "k < 4 \<longrightarrow> (\<forall>f. \<not> frame_free (xm_pmm (kn_mm t)) f)" "k \<le> 4"
    by (rule kstack_alloc_run [OF kstk_sample_inv(1,2) kstk_sample_stacks(1) run _ _ pos]) (simp_all add: stack_sample_def)
  have "k = 4"
  proof (rule ccontr)
    assume "k \<noteq> 4"
    then have none: "\<not> frame_free (xm_pmm (kn_mm t)) f" for f using k(3,4) by simp
    have "{288..<512} \<subseteq> fs ` {0..<k}"
      using none stack_partD(5) [OF k(1)] by (auto simp: kstk_sample_def sample_frame_free)
    then have "card {288..<512::nat} \<le> card (fs ` {0..<k})" by (rule card_mono [rotated]) simp
    also have "\<dots> \<le> k" using card_image_le [of "{0..<k}" fs] by simp
    finally show False using k(4) by simp
  qed
  then show ?thesis using that run k(2) by auto
qed

theorem kstack_alloc_correct_witness:
  "\<exists>stk' s' pos. kstack_alloc (Some stack_sample) kstk_sample = (Inr stk', s')
     \<and> unat (ks_base stk') = 0xF0000000 + 0x4000 * unat (pos :: u32) \<and> kern_inv s' 0 \<and> stacks_ok s'"
proof -
  obtain stk' s' where run: "kstack_alloc (Some stack_sample) kstk_sample = (Inr stk', s')" by (rule sample_kstack_alloc)
  have "ks_base stack_sample = 0" "ks_size stack_sample = 0" by (simp_all add: stack_sample_def)
  from kstack_alloc_correct [OF kstk_sample_inv(1,2) kstk_sample_stacks(1) this run] run show ?thesis by (auto split: if_splits)
qed

theorem kstack_alloc_free_witness:
  "\<exists>stk' s1 stk2 s2. kstack_alloc (Some stack_sample) kstk_sample = (Inr stk', s1)
     \<and> kstack_free (Some stk') s1 = (Inr stk2, s2) \<and> frame_free (xm_pmm (kn_mm s2)) 288"
proof -
  obtain stk' s' where run: "kstack_alloc (Some stack_sample) kstk_sample = (Inr stk', s')" by (rule sample_kstack_alloc)
  from kstack_alloc_free [OF kstk_sample_inv(1,2) kstk_sample_stacks(1) run] run show ?thesis
    by (fastforce simp: kstk_sample_def sample_frame_free)
qed

theorem kstack_alloc_stuck_witness:
  "\<exists>s1. kstack_alloc (Some stack_sample) kstk_low = (Inl KERR_NOMEM, s1)
     \<and> fst (kstack_alloc (Some stack_sample) (s1\<lparr>kn_mm := (kn_mm s1)\<lparr>xm_pmm := xm_pmm x86_sample\<rparr>\<rparr>)) = Inl KERR_EXISTS"
proof -
  obtain r s1 where run: "kstack_alloc (Some stack_sample) kstk_low = (r, s1)" by fastforce
  obtain pos where pos: "bitmap_find_zero (kernel_stack_bm kstk_low) = Some pos"
    using sample_pos by (auto simp: kstk_low_def)
  obtain k t fs where k: "stack_part kstk_low t 0 (kstack_base pos) 0 k fs"
    "k < 4 \<longrightarrow> r = Inl KERR_NOMEM \<and> s1 = t \<and> (\<forall>f. \<not> frame_free (xm_pmm (kn_mm t)) f)" "k \<le> 4"
    by (rule kstack_alloc_run [OF kstk_sample_inv(3,4) kstk_sample_stacks(2) run _ _ pos]) (simp_all add: stack_sample_def)
  note P = stack_partD [OF k(1)]
  have one: "frame_free (xm_pmm (kn_mm kstk_low)) f \<longleftrightarrow> f = 480" for f by (simp add: kstk_low_def pmm_one_free)
  have "k < 4"
  proof (rule ccontr)
    assume "\<not> k < 4"
    then have "fs 0 = 480" "fs 1 = 480" using P(4) [of 0] P(4) [of 1] one by auto
    with inj_onD [OF P(3), of 0 1] \<open>\<not> k < 4\<close> show False by simp
  qed
  then have r: "r = Inl KERR_NOMEM" "s1 = t" using k(2) by auto
  let ?s2 = "s1\<lparr>kn_mm := (kn_mm s1)\<lparr>xm_pmm := xm_pmm x86_sample\<rparr>\<rparr>"
  have T: "vm_inv (kn_mm t) 0" by (rule kern_invD(2) [OF P(1)])
  have "tables UNIV (kn_mm t) 0 = tables UNIV (kn_mm kstk_low) 0" by (rule tables_cong) (rule P(7))
  also have "\<dots> = tables UNIV x86_sample 0" by (rule tables_cong) (simp add: kstk_low_def pmm_update_same)
  finally have sf: "space_frames (kn_mm t) 0 = space_frames x86_sample 0" by (simp add: space_frames_def)
  have "vm_inv ((kn_mm t)\<lparr>xm_pmm := xm_pmm x86_sample\<rparr>) 0"
  proof (rule space_same(1) [OF T])
    fix f assume "f \<in> space_frames (kn_mm t) 0"
    then have "owned x86_sample f" using space_frames_owned [OF sample_kernel_inv] sf by simp
    then show "owned ((kn_mm t)\<lparr>xm_pmm := xm_pmm x86_sample\<rparr>) f" by (simp add: owned_def)
  qed (simp_all add: sample_pmm_inv)
  then have "kern_inv ?s2 0"
    using kern_invD(1,3) [OF P(1)] by (simp add: kern_inv_def r(2) pmm_update_same)
  moreover have "frame_free (xm_pmm x86_sample) 288" by (simp add: sample_frame_free)
  ultimately have "frame_free (xm_pmm (kn_mm ?s2)) 288" "kern_inv ?s2 0" by simp_all
  moreover have "no_stack_freed 0 s1 ?s2"
    by (rule nsf_other [OF nsf_start]) (use \<open>kern_inv ?s2 0\<close> in \<open>simp_all add: pmm_update_same\<close>)
  moreover have "frame_free (xm_pmm (kn_mm kstk_low)) 480" "ks_base stack_sample = 0" "ks_size stack_sample = 0"
    by (simp_all add: one stack_sample_def)
  ultimately have "fst (kstack_alloc (Some stack_sample) ?s2) = Inl KERR_EXISTS"
    using kstack_alloc_stuck [OF kstk_sample_inv(3,4) kstk_sample_stacks(2) _ _ _ run [unfolded r(1)]] by auto
  then show ?thesis using run r(1) by blast
qed

end
