(* ===== verification/Vmm.thy ===== *)
theory Vmm
  imports Kernel_Stack
begin

text \<open>
  The virtual memory manager, \<^verbatim>\<open>src/kernel/mm/vmm.c\<close>: an address space is a list of areas (VMAs) and
  the page tables behind them. The list is modelled as the sequence of its nodes in list order,
  each with the address of the \<open>struct vma\<close> and its contents; that address comes from \<open>kmalloc\<close>
  and goes back to \<open>kfree\<close>. The operations work on the kernel's state and the space that their
  pointer argument refers to; \<open>nn\<close> says that this pointer is not NULL.
\<close>

subsection \<open>State\<close>

record vma =
  vma_start :: vaddr
  vma_end :: vaddr
  vma_flags :: u32

record vm_space =
  vs_vmas :: "(vaddr \<times> vma) list"
  vs_arch :: arch_vm_space

type_synonym vm_state = "kern \<times> vm_space"

definition VM_USER_START :: vaddr where
  "VM_USER_START = 0"

definition VM_USER_END :: vaddr where
  "VM_USER_END = VM_USER_START + ucast KERNEL_VIRT_OFFSET"

definition UINT64_MAX :: u64 where
  "UINT64_MAX = 0xFFFFFFFFFFFFFFFF"

text \<open>\<open>sizeof(struct vma)\<close>.\<close>

definition vma_size :: size_t where
  "vma_size = 20"

text \<open>
  Calls of the heap on the kernel's state. \<open>kmalloc\<close> returns on every well-formed heap; a heap whose
  free list does not lead back to its head, where it would not return, is left as it is here.
\<close>

definition kn_kmalloc :: "size_t \<Rightarrow> kern \<Rightarrow> vaddr \<times> kern" where
  "kn_kmalloc sz s =
     (case kmalloc (kn_kheap s) sz (kn_heap s) of
        Some (p, m) \<Rightarrow> (p, s\<lparr>kn_heap := m\<rparr>)
      | None \<Rightarrow> (KERR_PTR KERR_NOMEM, s))"

definition kn_kfree :: "vaddr \<Rightarrow> kern \<Rightarrow> kern" where
  "kn_kfree p s = s\<lparr>kn_heap := snd (kfree (kn_kheap s) p (kn_heap s))\<rparr>"

definition vm_x86 :: "(x86_mm, 'a) kfun \<Rightarrow> (vm_state, 'a) kfun" where
  "vm_x86 f = kzoom fst (\<lambda>s (_, vs). (s, vs)) (kn_x86 f)"

subsection \<open>Operations\<close>

definition vm_user_range_valid :: "vaddr \<Rightarrow> size_t \<Rightarrow> bool" where
  "vm_user_range_valid virt sz =
     (if sz = 0 then False
      else if virt < VM_USER_START \<or> VM_USER_END \<le> virt then False
      else if UINTPTR_MAX - virt < sz - 1 then False
      else virt + sz \<le> VM_USER_END)"

definition vm_phys_range_valid :: "paddr \<Rightarrow> size_t \<Rightarrow> bool" where
  "vm_phys_range_valid phys sz =
     (if sz = 0 then False
      else if UINT64_MAX - phys < ucast (sz - 1) then False
      else True)"

text \<open>The loops over the areas, which are kept in the order of their addresses.\<close>

fun vma_range_search :: "vaddr \<Rightarrow> vaddr \<Rightarrow> (vaddr \<times> vma) list \<Rightarrow> (vaddr \<times> vma) option" where
  "vma_range_search virt vend [] = None"
| "vma_range_search virt vend (v # vs) =
     (if virt < vma_start (snd v) then None
      else if vma_start (snd v) \<le> virt \<and> vend \<le> vma_end (snd v) then Some v
      else vma_range_search virt vend vs)"

definition vm_find_vma_range :: "vm_space option \<Rightarrow> vaddr \<Rightarrow> size_t \<Rightarrow> (vaddr \<times> vma) option" where
  "vm_find_vma_range vm virt sz =
     (case vm of None \<Rightarrow> None
      | Some vm \<Rightarrow> if \<not> vm_user_range_valid virt sz then None
                   else vma_range_search virt (virt + sz) (vs_vmas vm))"

fun vma_search :: "vaddr \<Rightarrow> (vaddr \<times> vma) list \<Rightarrow> (vaddr \<times> vma) option" where
  "vma_search virt [] = None"
| "vma_search virt (v # vs) =
     (if virt < vma_start (snd v) then None
      else if vma_start (snd v) \<le> virt \<and> virt < vma_end (snd v) then Some v
      else vma_search virt vs)"

definition vm_find_vma :: "vm_space option \<Rightarrow> vaddr \<Rightarrow> (vaddr \<times> vma) option" where
  "vm_find_vma vm virt =
     (case vm of None \<Rightarrow> None
      | Some vm \<Rightarrow> if VM_USER_END \<le> virt then None else vma_search virt (vs_vmas vm))"

text \<open>
  The loop of \<open>vm_add_vma\<close>: how many areas lie before the new one, or \<open>None\<close> when an area overlaps it.
\<close>

fun vma_gap :: "vaddr \<Rightarrow> vaddr \<Rightarrow> (vaddr \<times> vma) list \<Rightarrow> nat option" where
  "vma_gap virt new_end [] = Some 0"
| "vma_gap virt new_end (v # vs) =
     (if vma_end (snd v) \<le> virt then map_option Suc (vma_gap virt new_end vs)
      else if new_end \<le> vma_start (snd v) then Some 0
      else None)"

definition vm_add_vma :: "bool \<Rightarrow> vaddr \<Rightarrow> size_t \<Rightarrow> u32 \<Rightarrow> (vm_state, unit) kfun" where
  "vm_add_vma nn virt sz flags s =
     (if \<not> nn \<or> sz = 0 then kfail KERR_INVAL s
      else if \<not> ALIGN_TEST virt arch_vm_page_size \<or> \<not> ALIGN_TEST sz arch_vm_page_size then kfail KERR_INVAL s
      else if \<not> vm_user_range_valid virt sz then kfail KERR_INVAL s
      else case vma_gap virt (virt + sz) (vs_vmas (snd s)) of
        None \<Rightarrow> kfail KERR_EXISTS s
      | Some i \<Rightarrow>
          (case kn_kmalloc vma_size (fst s) of (p, k) \<Rightarrow>
             if KERR_PTR_IS_ERR p then kfail KERR_NOMEM (k, snd s)
             else let vs = vs_vmas (snd s); new = (p, \<lparr>vma_start = virt, vma_end = virt + sz, vma_flags = flags\<rparr>)
                  in kret () (k, (snd s)\<lparr>vs_vmas := take i vs @ new # drop i vs\<rparr>)))"

text \<open>\<open>list_remove\<close> of the node of an area and \<open>kfree\<close> of the area.\<close>

definition vma_drop :: "vaddr \<times> vma \<Rightarrow> vm_state \<Rightarrow> vm_state" where
  "vma_drop v s = (kn_kfree (fst v) (fst s), (snd s)\<lparr>vs_vmas := remove1 v (vs_vmas (snd s))\<rparr>)"

definition vm_remove_vma :: "vaddr \<Rightarrow> (vm_state, unit) kfun" where
  "vm_remove_vma virt s =
     (case vm_find_vma (Some (snd s)) virt of
        None \<Rightarrow> kfail KERR_NOENT s
      | Some v \<Rightarrow> kret () (vma_drop v s))"

definition vm_map :: "bool \<Rightarrow> vaddr \<Rightarrow> paddr \<Rightarrow> size_t \<Rightarrow> u32 \<Rightarrow> (vm_state, unit) kfun" where
  "vm_map nn virt phys sz flags s =
     (if \<not> nn \<or> sz = 0 then kfail KERR_INVAL s
      else if \<not> ALIGN_TEST virt arch_vm_page_size \<or> \<not> ALIGN_TEST phys X86_PAGE_SIZE
              \<or> \<not> ALIGN_TEST sz arch_vm_page_size then kfail KERR_INVAL s
      else if \<not> vm_user_range_valid virt sz then kfail KERR_INVAL s
      else if \<not> vm_phys_range_valid phys sz then kfail KERR_INVAL s
      else kerr_try (vm_add_vma nn virt sz flags)
             (\<lambda>_ s. case vm_x86 (arch_vm_map (Some (vs_arch (snd s))) virt phys sz flags) s of
                      (Inl e, s) \<Rightarrow> (Inl e, snd (vm_remove_vma virt s))
                    | (Inr _, s) \<Rightarrow> kret () s) s)"

definition vm_unmap :: "bool \<Rightarrow> vaddr \<Rightarrow> size_t \<Rightarrow> (vm_state, unit) kfun" where
  "vm_unmap nn virt sz s =
     (if \<not> nn \<or> sz = 0 then kfail KERR_INVAL s
      else if \<not> ALIGN_TEST virt arch_vm_page_size \<or> \<not> ALIGN_TEST sz arch_vm_page_size then kfail KERR_INVAL s
      else if \<not> vm_user_range_valid virt sz then kfail KERR_INVAL s
      else case vm_find_vma_range (Some (snd s)) virt sz of
        None \<Rightarrow> kfail KERR_NOENT s
      | Some v \<Rightarrow>
          if vma_start (snd v) \<noteq> virt \<or> vma_end (snd v) \<noteq> virt + sz then kfail KERR_INVAL s
          else kerr_try (vm_x86 (arch_vm_unmap (Some (vs_arch (snd s))) virt sz))
                 (\<lambda>_ s. kret () (vma_drop v s)) s)"

definition vm_protect :: "bool \<Rightarrow> vaddr \<Rightarrow> size_t \<Rightarrow> u32 \<Rightarrow> (vm_state, unit) kfun" where
  "vm_protect nn virt sz flags s =
     (if \<not> nn \<or> sz = 0 then kfail KERR_INVAL s
      else if \<not> ALIGN_TEST virt arch_vm_page_size \<or> \<not> ALIGN_TEST sz arch_vm_page_size then kfail KERR_INVAL s
      else if \<not> vm_user_range_valid virt sz then kfail KERR_INVAL s
      else case vm_find_vma_range (Some (snd s)) virt sz of
        None \<Rightarrow> kfail KERR_NOENT s
      | Some v \<Rightarrow>
          if vma_start (snd v) \<noteq> virt \<or> vma_end (snd v) \<noteq> virt + sz then kfail KERR_INVAL s
          else kerr_try (vm_x86 (arch_vm_protect (Some (vs_arch (snd s))) virt sz flags))
                 (\<lambda>_ (k, vs). kret () (k, vs\<lparr>vs_vmas := map (\<lambda>w. if fst w = fst v then (fst w, (snd w)\<lparr>vma_flags := flags\<rparr>) else w)
                                       (vs_vmas vs)\<rparr>)) s)"

definition vm_space_init :: "bool \<Rightarrow> (vm_state, unit) kfun" where
  "vm_space_init nn s =
     (if \<not> nn then kfail KERR_INVAL s
      else kerr_try (vm_x86 (arch_vm_space_init True))
             (\<lambda>arch (k, vs).
                let vs = vs\<lparr>vs_arch := arch\<rparr>
                in case vm_kern_attach (Some arch) k of
                     (Inr _, k) \<Rightarrow> kret () (k, vs)
                   | (Inl e, k) \<Rightarrow>
                       (case kn_x86 (arch_vm_space_destroy (Some arch)) k of
                          (Inr arch, k) \<Rightarrow> (Inl e, (k, vs\<lparr>vs_arch := arch\<rparr>))
                        | (Inl _, k) \<Rightarrow> (Inl e, (k, vs))))
             (fst s, (snd s)\<lparr>vs_vmas := []\<rparr>))"

definition vm_space_destroy :: "bool \<Rightarrow> (vm_state, unit) kfun" where
  "vm_space_destroy nn s =
     (if \<not> nn then kfail KERR_INVAL s
      else let s = fold vma_drop (vs_vmas (snd s)) s
           in kerr_try (vm_x86 (arch_vm_space_destroy (Some (vs_arch (snd s)))))
                (\<lambda>arch (k, vs). kret () (k, vs\<lparr>vs_arch := arch\<rparr>)) s)"

definition vm_space_load :: "bool \<Rightarrow> (vm_state, unit) kfun" where
  "vm_space_load nn s =
     (if \<not> nn then kfail KERR_INVAL s
      else vm_x86 (arch_vm_space_load (Some (vs_arch (snd s)))) s)"

definition vmm_init :: "vaddr \<Rightarrow> vaddr \<Rightarrow> vaddr \<Rightarrow> vaddr \<Rightarrow> (kern, unit) kfun" where
  "vmm_init text_start text_end rodata_start rodata_end =
     kerr_try (vm_kern_init text_start text_end rodata_start rodata_end) (\<lambda>_. kret ())"

end
