(* ===== verification/Vmm_Props.thy ===== *)
theory Vmm_Props
  imports Vmm
begin

text \<open>
  The invariant of an address space with its areas, that every call keeps it, and what each call does. A range that ends at
  exactly 4 GiB passes the checks and is entered as an area with end 0; then only the invariant of the page tables is kept.
\<close>

subsection \<open>Ranges\<close>

lemma VM_USER_END_eq: "VM_USER_END = 0xC0000000" "unat VM_USER_END = 0xC0000000"
  by (simp_all add: VM_USER_END_def VM_USER_START_def KERNEL_VIRT_OFFSET_def)

lemma user_range_iff:
  "vm_user_range_valid virt sz \<longleftrightarrow> sz \<noteq> 0 \<and> unat virt < 0xC0000000 \<and>
     (unat virt + unat sz \<le> 0xC0000000 \<or> unat virt + unat sz = 2 ^ 32)"
proof (cases "sz = 0")
  case False
  then have s: "unat (sz - 1) = unat sz - 1" "0 < unat sz" by (simp_all add: unat_minus_one word_unat_eq_iff)
  have v: "unat (UINTPTR_MAX - virt) = 0xFFFFFFFF - unat virt"
    using unat32_lt [of virt] by (simp add: UINTPTR_MAX_def unat_sub_nowrap del: unat32_lt)
  have le: "UINTPTR_MAX - virt < sz - 1 \<longleftrightarrow> 2 ^ 32 < unat virt + unat sz"
    unfolding word_less_nat_alt v s(1) using s(2) unat32_lt [of virt] by (auto simp del: unat32_lt)
  have start: "virt < VM_USER_START \<longleftrightarrow> False" by (simp add: VM_USER_START_def)
  have e: "VM_USER_END \<le> virt \<longleftrightarrow> 0xC0000000 \<le> unat virt" by (simp add: word_le_nat_alt VM_USER_END_eq)
  have "virt + sz \<le> VM_USER_END \<longleftrightarrow> unat virt + unat sz \<le> 0xC0000000 \<or> unat virt + unat sz = 2 ^ 32"
    if "unat virt + unat sz \<le> 2 ^ 32"
  proof (cases "unat virt + unat sz = 2 ^ 32")
    case True
    then have "unat (virt + sz) = 0" by (simp add: unat_word_ariths)
    then show ?thesis using True by (simp add: word_le_nat_alt)
  next
    case False
    then have "unat (virt + sz) = unat virt + unat sz" using that by (intro unat_add_nowrap) simp
    then show ?thesis using False by (simp add: word_le_nat_alt VM_USER_END_eq)
  qed
  then show ?thesis using False by (auto simp: vm_user_range_valid_def le start e)
qed (simp add: vm_user_range_valid_def)

lemma phys_range_iff: "vm_phys_range_valid phys sz \<longleftrightarrow> sz \<noteq> 0 \<and> unat phys + unat sz \<le> 2 ^ 64"
proof (cases "sz = 0")
  case False
  then have s: "unat (sz - 1) = unat sz - 1" "0 < unat sz" by (simp_all add: unat_minus_one word_unat_eq_iff)
  have "unat (UINT64_MAX - phys) = 0xFFFFFFFFFFFFFFFF - unat phys"
    using unat64_lt [of phys] by (simp add: UINT64_MAX_def unat_sub_nowrap del: unat64_lt)
  then have "UINT64_MAX - phys < ucast (sz - 1) \<longleftrightarrow> 2 ^ 64 < unat phys + unat sz"
    unfolding word_less_nat_alt unat_ucast_u64 s(1) using s(2) unat64_lt [of phys] by (auto simp del: unat64_lt)
  then show ?thesis using False by (simp add: vm_phys_range_valid_def)
qed (simp add: vm_phys_range_valid_def)

subsection \<open>The list of areas\<close>

definition vma_ok :: "vma \<Rightarrow> bool" where
  "vma_ok v \<longleftrightarrow> unat (vma_start v) < unat (vma_end v) \<and> unat (vma_end v) \<le> 0xC0000000
     \<and> unat (vma_start v) mod 4096 = 0 \<and> unat (vma_end v) mod 4096 = 0"

definition vmas_ok :: "vma list \<Rightarrow> bool" where
  "vmas_ok vs \<longleftrightarrow> (\<forall>v\<in>set vs. vma_ok v) \<and> sorted_wrt (\<lambda>v w. unat (vma_end v) \<le> unat (vma_start w)) vs"

definition in_vma :: "vaddr \<Rightarrow> vma \<Rightarrow> bool" where
  "in_vma a v \<longleftrightarrow> unat (vma_start v) \<le> unat a \<and> unat a < unat (vma_end v)"

lemma vmas_ok_Cons:
  "vmas_ok (v # vs) \<longleftrightarrow> vma_ok v \<and> vmas_ok vs \<and> (\<forall>w\<in>set vs. unat (vma_end v) \<le> unat (vma_start w))"
  by (auto simp: vmas_ok_def)

lemma vma_search_find:
  "vmas_ok (map snd vs) \<Longrightarrow> vma_search a vs = find (\<lambda>v. in_vma a (snd v)) vs"
proof (induction vs)
  case (Cons v vs)
  have none: "find (\<lambda>v. in_vma a (snd v)) vs = None" if "unat a < unat (vma_start (snd v))"
  proof -
    have "\<not> in_vma a (snd w)" if w: "w \<in> set vs" for w
      using Cons.prems w \<open>unat a < unat (vma_start (snd v))\<close> by (auto simp: vmas_ok_Cons in_vma_def vma_ok_def)
    then show ?thesis by (auto simp: find_None_iff)
  qed
  have IH: "vma_search a vs = find (\<lambda>v. in_vma a (snd v)) vs" using Cons by (simp add: vmas_ok_Cons)
  show ?case by (auto simp: IH none word_less_nat_alt word_le_nat_alt in_vma_def [of a "snd v"])
qed simp

lemma vma_range_search_exact:
  assumes "vmas_ok (map snd vs)" and "v \<in> set vs"
  shows "vma_range_search (vma_start (snd v)) (vma_end (snd v)) vs = Some v"
  using assms
proof (induction vs)
  case (Cons w vs)
  show ?case
  proof (cases "v = w")
    case False
    then have v: "v \<in> set vs" "unat (vma_end (snd w)) \<le> unat (vma_start (snd v))" "vma_ok (snd v)" "vma_ok (snd w)"
      using Cons.prems by (auto simp: vmas_ok_Cons vmas_ok_def)
    have IH: "vma_range_search (vma_start (snd v)) (vma_end (snd v)) vs = Some v"
      using Cons v(1) by (simp add: vmas_ok_Cons)
    show ?thesis using v(2,3,4) by (auto simp: IH word_less_nat_alt word_le_nat_alt vma_ok_def)
  qed simp
qed simp

lemma vmas_apart:
  assumes "vmas_ok (map snd vs)" and "u \<in> set vs" and "v \<in> set vs" and "u \<noteq> v" and "distinct vs"
  shows "\<not> (in_vma a (snd u) \<and> in_vma a (snd v))"
  using assms
proof (induction vs)
  case (Cons w vs)
  have w: "\<not> (in_vma a (snd w) \<and> in_vma a (snd x))" if "x \<in> set vs" for x
    using Cons.prems(1) that by (auto simp: vmas_ok_Cons in_vma_def)
  have ok: "vmas_ok (map snd vs)" using Cons.prems(1) by (simp add: vmas_ok_Cons)
  consider "u = w" "v \<in> set vs" | "v = w" "u \<in> set vs" | "u \<in> set vs" "v \<in> set vs" using Cons.prems(2,3,4) by auto
  then show ?case
  proof cases
    case 1 then show ?thesis using w [OF 1(2)] by blast
  next
    case 2 then show ?thesis using w [OF 2(2)] by blast
  next
    case 3 then show ?thesis using Cons.IH [OF ok 3 Cons.prems(4)] Cons.prems(5) by simp
  qed
qed simp

lemma vma_range_search_in: "vma_range_search virt e vs = Some v \<Longrightarrow> v \<in> set vs"
  by (induction vs) (auto split: if_splits)

text \<open>The place that the search finds keeps the areas sorted and apart.\<close>

lemma vma_gap_insert:
  assumes "vmas_ok (map snd vs)" and "vma_gap (vma_start n) (vma_end n) vs = Some i" and "vma_ok n"
  shows "vmas_ok (map snd (take i vs @ (p, n) # drop i vs))" and "i \<le> length vs"
    and "\<forall>v\<in>set vs. \<forall>a. \<not> (in_vma a (snd v) \<and> in_vma a n)"
proof -
  have "vmas_ok (map snd (take i vs @ (p, n) # drop i vs)) \<and> i \<le> length vs
      \<and> (\<forall>v\<in>set vs. \<forall>a. \<not> (in_vma a (snd v) \<and> in_vma a n))
      \<and> (\<forall>e. (\<forall>v\<in>set vs. e \<le> unat (vma_start (snd v))) \<and> e \<le> unat (vma_start n)
          \<longrightarrow> (\<forall>v\<in>set (take i vs @ (p, n) # drop i vs). e \<le> unat (vma_start (snd v))))"
    using assms(1,2)
  proof (induction vs arbitrary: i)
    case Nil
    then show ?case using assms(3) by (simp add: vmas_ok_def)
  next
    case (Cons v vs)
    have v: "vma_ok (snd v)" "vmas_ok (map snd vs)" "\<forall>w\<in>set vs. unat (vma_end (snd v)) \<le> unat (vma_start (snd w))"
      using Cons.prems(1) by (auto simp: vmas_ok_Cons)
    show ?case
    proof (cases "vma_end (snd v) \<le> vma_start n")
      case True
      then obtain j where j: "vma_gap (vma_start n) (vma_end n) vs = Some j" "i = Suc j"
        using Cons.prems(2) by auto
      note IH = Cons.IH [OF v(2) j(1)]
      have "unat (vma_end (snd v)) \<le> unat (vma_start n)" using True by (simp add: word_le_nat_alt)
      then show ?thesis using IH v unfolding j(2) by (auto simp: vmas_ok_Cons in_vma_def vma_ok_def)
    next
      case False
      then have i: "i = 0" "unat (vma_end n) \<le> unat (vma_start (snd v))"
        using Cons.prems(2) by (auto simp: word_le_nat_alt split: if_splits)
      then show ?thesis using v assms(3) by (auto simp: vmas_ok_Cons in_vma_def vma_ok_def)
    qed
  qed
  then show "vmas_ok (map snd (take i vs @ (p, n) # drop i vs))" and "i \<le> length vs"
    and "\<forall>v\<in>set vs. \<forall>a. \<not> (in_vma a (snd v) \<and> in_vma a n)" by auto
qed

lemma vma_gap_None:
  assumes "vmas_ok (map snd vs)" and "vma_gap (vma_start n) (vma_end n) vs = None" and "vma_ok n"
  shows "\<exists>v\<in>set vs. \<exists>a. in_vma a (snd v) \<and> in_vma a n"
  using assms(1,2)
proof (induction vs)
  case (Cons v vs)
  show ?case
  proof (cases "vma_end (snd v) \<le> vma_start n")
    case True
    then show ?thesis using Cons by (auto simp: vmas_ok_Cons)
  next
    case False
    then have "\<not> vma_end n \<le> vma_start (snd v)" using Cons.prems(2) by (auto split: if_splits)
    then have o: "unat (vma_start (snd v)) < unat (vma_end n)" "unat (vma_start n) < unat (vma_end (snd v))"
      using False by (simp_all add: word_le_nat_alt)
    let ?a = "if unat (vma_start n) \<le> unat (vma_start (snd v)) then vma_start (snd v) else vma_start n"
    have "in_vma ?a (snd v) \<and> in_vma ?a n"
      using o assms(3) Cons.prems(1) by (auto simp: in_vma_def vma_ok_def vmas_ok_Cons)
    then show ?thesis by (metis list.set_intros(1))
  qed
qed simp

subsection \<open>The invariant of an address space\<close>

text \<open>
  The areas are in order, apart and below the kernel; each is a live allocation of the heap; and
  every byte of an area is mapped. \<open>F\<close> is the frame of the page directory, \<open>live\<close> the live
  allocations of the heap.
\<close>

definition area_mapped :: "vm_state \<Rightarrow> vma \<Rightarrow> bool" where
  "area_mapped s v \<longleftrightarrow> (\<forall>a. in_vma a v \<longrightarrow> (\<exists>p. translates (vs_arch (snd s)) (kn_mm (fst s)) a = Inr p))"

definition heap_areas :: "vm_state \<Rightarrow> bool" where
  "heap_areas s \<longleftrightarrow> distinct (map fst (vs_vmas (snd s)))
     \<and> (\<exists>live. heap_run (kn_kheap (fst s)) live (kn_heap (fst s))
          \<and> (\<forall>v\<in>set (vs_vmas (snd s)). (fst v, vma_size) \<in> set live))"

definition space_inv :: "vm_state \<Rightarrow> nat \<Rightarrow> bool" where
  "space_inv s F \<longleftrightarrow> vmas_ok (map snd (vs_vmas (snd s))) \<and> heap_areas s
     \<and> table_at (pd_phys (vs_arch (snd s))) F \<and> vm_inv (kn_mm (fst s)) F
     \<and> (\<forall>v\<in>set (vs_vmas (snd s)). area_mapped s (snd v))"

lemma kn_kmalloc_run:
  assumes run: "heap_run (kn_kheap s) live (kn_heap s)" and k: "kn_kmalloc sz s = (p, s')" and sz: "0 < unat sz" "unat sz \<le> 0xFFFFFFE8"
  shows "\<exists>m. s' = s\<lparr>kn_heap := m\<rparr>"
    and "KERR_PTR_IS_ERR p \<Longrightarrow> heap_run (kn_kheap s) live (kn_heap s')"
    and "\<not> KERR_PTR_IS_ERR p \<Longrightarrow> heap_run (kn_kheap s) ((p, sz) # live) (kn_heap s') \<and> p \<notin> fst ` set live"
proof -
  obtain bs ns where inv: "heap_inv (kn_kheap s) bs ns (kn_heap s)" using heap_run_inv [OF run] by blast
  obtain q m where m: "kmalloc (kn_kheap s) sz (kn_heap s) = Some (q, m)"
    using kmalloc_cases [OF inv sz] by blast
  then have e: "p = q" "s' = s\<lparr>kn_heap := m\<rparr>" using k by (auto simp: kn_kmalloc_def)
  then show "\<exists>m. s' = s\<lparr>kn_heap := m\<rparr>" by blast
  have r: "heap_run (kn_kheap s) (if KERR_PTR_IS_ERR q then live else (q, sz) # live) m"
    by (rule run_malloc [OF run sz(2) m])
  then show "KERR_PTR_IS_ERR p \<Longrightarrow> heap_run (kn_kheap s) live (kn_heap s')" by (simp add: e)
  show "heap_run (kn_kheap s) ((p, sz) # live) (kn_heap s') \<and> p \<notin> fst ` set live" if "\<not> KERR_PTR_IS_ERR p"
  proof -
    have h: "heap_run (kn_kheap s) ((p, sz) # live) m" using r that by (simp add: e)
    from heap_run_inv [OF h] have "p \<notin> fst ` set live" by (auto simp: live_blocks_def)
    with h show ?thesis by (simp add: e)
  qed
qed

lemma vma_size_bounds: "0 < unat vma_size" "unat vma_size \<le> 0xFFFFFFE8"
  by (simp_all add: vma_size_def)

lemmas kn_kmalloc_cases = kn_kmalloc_run [OF _ _ vma_size_bounds]

lemma kn_kfree_run:
  assumes run: "heap_run (kn_kheap s) live (kn_heap s)" and p: "(p, sz) \<in> set live"
  shows "\<exists>live'. heap_run (kn_kheap s) live' (kn_heap (kn_kfree p s)) \<and> (\<forall>x\<in>set live. fst x \<noteq> p \<longrightarrow> x \<in> set live')"
proof (cases "kfree (kn_kheap s) p (kn_heap s)")
  case (Pair r m)
  show ?thesis
  proof (cases r)
    case (Inl e)
    then show ?thesis using run_refused [OF run] Pair by (intro exI [of _ live]) (simp add: kn_kfree_def)
  next
    case (Inr u)
    then show ?thesis using run_free [OF run p] Pair
      by (intro exI [of _ "remove1 (p, sz) live"]) (auto simp: kn_kfree_def in_set_remove1)
  qed
qed

lemma kn_kfree_simps [simp]:
  "kn_mm (kn_kfree p s) = kn_mm s" "kn_kheap (kn_kfree p s) = kn_kheap s" "kernel_vm (kn_kfree p s) = kernel_vm s"
  by (simp_all add: kn_kfree_def)

lemma vma_drop_simps [simp]:
  "kn_mm (fst (vma_drop v s)) = kn_mm (fst s)" "vs_arch (snd (vma_drop v s)) = vs_arch (snd s)"
  "vs_vmas (snd (vma_drop v s)) = remove1 v (vs_vmas (snd s))" "kn_kheap (fst (vma_drop v s)) = kn_kheap (fst s)"
  by (simp_all add: vma_drop_def)

lemma vmas_ok_remove1: "vmas_ok (map snd vs) \<Longrightarrow> vmas_ok (map snd (remove1 v vs))"
  by (induction vs) (auto simp: vmas_ok_Cons dest: notin_set_remove1 [rotated])

lemma heap_areas_drop:
  assumes h: "heap_areas s" and v: "v \<in> set (vs_vmas (snd s))"
  shows "heap_areas (vma_drop v s)"
proof -
  obtain live where l: "heap_run (kn_kheap (fst s)) live (kn_heap (fst s))" "\<forall>w\<in>set (vs_vmas (snd s)). (fst w, vma_size) \<in> set live"
    and d: "distinct (map fst (vs_vmas (snd s)))" using h by (auto simp: heap_areas_def)
  obtain live' where l': "heap_run (kn_kheap (fst s)) live' (kn_heap (kn_kfree (fst v) (fst s)))"
      "\<forall>x\<in>set live. fst x \<noteq> fst v \<longrightarrow> x \<in> set live'"
    using kn_kfree_run [OF l(1)] l(2) v by blast
  have ne: "fst w \<noteq> fst v" if "w \<in> set (remove1 v (vs_vmas (snd s)))" for w
  proof -
    have dv: "distinct (vs_vmas (snd s))" using d by (simp add: distinct_map)
    then have "w \<in> set (vs_vmas (snd s))" "w \<noteq> v" using that by (auto simp: set_remove1_eq)
    then show ?thesis using d v by (auto simp: distinct_map inj_on_def)
  qed
  have "distinct (map fst (remove1 v (vs_vmas (snd s))))"
    using d by (auto simp: distinct_map intro: inj_on_subset dest: set_remove1_subset [THEN subsetD])
  moreover have "(fst w, vma_size) \<in> set live'" if "w \<in> set (remove1 v (vs_vmas (snd s)))" for w
    using l(2) l'(2) ne [OF that] that set_remove1_subset by fastforce
  ultimately show ?thesis using l'(1) unfolding heap_areas_def vma_drop_def by auto
qed

subsection \<open>Mapping\<close>

lemma range_mapped_0: "range_mapped vm virt phys 0 s s"
  by (auto simp: range_mapped_def)

lemma ALIGN_arch_page [simp]: "ALIGN_TEST x arch_vm_page_size \<longleftrightarrow> unat x mod 4096 = 0"
  by (simp add: arch_vm_page_size_def)

abbreviation new_vma :: "vaddr \<Rightarrow> size_t \<Rightarrow> u32 \<Rightarrow> vma" where
  "new_vma virt sz flags \<equiv> \<lparr>vma_start = virt, vma_end = virt + sz, vma_flags = flags\<rparr>"

lemma new_vma_ok:
  assumes "vm_user_range_valid virt sz" and "unat virt mod 4096 = 0" and "unat sz mod 4096 = 0" and "unat virt + unat sz < 2 ^ 32"
  shows "vma_ok (new_vma virt sz flags)" and "unat (virt + sz) = unat virt + unat sz" and "unat virt + unat sz \<le> 0xC0000000"
proof -
  show e: "unat (virt + sz) = unat virt + unat sz" using assms(4) by (intro unat_add_nowrap) simp
  show le: "unat virt + unat sz \<le> 0xC0000000" using assms(1,4) by (simp add: user_range_iff)
  have "0 < unat sz" using assms(1) by (simp add: user_range_iff word_unat_eq_iff)
  moreover have "(unat virt + unat sz) mod 4096 = 0" using assms(2,3) by (simp add: mod_add_eq [symmetric])
  ultimately show "vma_ok (new_vma virt sz flags)" using le assms(2) by (simp add: vma_ok_def e)
qed

lemma inserted_cases: "w \<in> set (take i vs @ x # drop i vs) \<Longrightarrow> w = x \<or> w \<in> set vs"
  by (auto dest: in_set_takeD in_set_dropD)

lemma distinct_insert_at:
  assumes "distinct (map f vs)" and "f x \<notin> f ` set vs"
  shows "distinct (map f (take i vs) @ f x # map f (drop i vs))"
proof -
  have "distinct (map f (take i vs @ drop i vs))" using assms(1) by simp
  then show ?thesis
    using assms(2) unfolding map_append distinct_append by (auto dest: in_set_takeD in_set_dropD)
qed

text \<open>Adding an area, before its pages are mapped.\<close>

lemma vm_add_vma_cases:
  assumes inv: "space_inv s F" and args: "vm_user_range_valid virt sz" "unat virt mod 4096 = 0" "unat sz mod 4096 = 0"
      "unat virt + unat sz < 2 ^ 32"
    and run: "vm_add_vma True virt sz flags s = (r, s')"
  shows "(\<exists>e. r = Inl e \<and> e \<in> {KERR_EXISTS, KERR_NOMEM} \<and> space_inv s' F \<and> snd s' = snd s \<and> kn_mm (fst s') = kn_mm (fst s)
       \<and> (e = KERR_EXISTS \<longrightarrow> (\<exists>v\<in>set (vs_vmas (snd s)). \<exists>a. in_vma a (snd v) \<and> in_vma a (new_vma virt sz flags)))) \<or>
     (\<exists>p i. r = Inr () \<and> kn_mm (fst s') = kn_mm (fst s) \<and> vs_arch (snd s') = vs_arch (snd s) \<and> i \<le> length (vs_vmas (snd s))
       \<and> vs_vmas (snd s') = take i (vs_vmas (snd s)) @ (p, new_vma virt sz flags) # drop i (vs_vmas (snd s))
       \<and> vmas_ok (map snd (vs_vmas (snd s'))) \<and> heap_areas s' \<and> p \<notin> fst ` set (vs_vmas (snd s))
       \<and> (\<forall>v\<in>set (vs_vmas (snd s)). \<forall>a. \<not> (in_vma a (snd v) \<and> in_vma a (new_vma virt sz flags))))"
proof -
  let ?n = "new_vma virt sz flags" and ?vs = "vs_vmas (snd s)"
  have sz: "sz \<noteq> 0" using args(1) by (simp add: user_range_iff)
  have n: "vma_ok ?n" by (rule new_vma_ok(1) [OF args])
  have vok: "vmas_ok (map snd ?vs)" using inv by (simp add: space_inv_def)
  obtain live where l: "heap_run (kn_kheap (fst s)) live (kn_heap (fst s))" "\<forall>w\<in>set ?vs. (fst w, vma_size) \<in> set live"
    and d: "distinct (map fst ?vs)" using inv by (auto simp: space_inv_def heap_areas_def)
  show ?thesis
  proof (cases "vma_gap virt (virt + sz) ?vs")
    case None
    then have "r = Inl KERR_EXISTS" "s' = s" using run args sz by (auto simp: vm_add_vma_def)
    moreover have "\<exists>v\<in>set ?vs. \<exists>a. in_vma a (snd v) \<and> in_vma a ?n"
      by (rule vma_gap_None [OF vok]) (use None n in simp_all)
    ultimately show ?thesis using inv by (intro disjI1) blast
  next
    case (Some i)
    obtain p k where k: "kn_kmalloc vma_size (fst s) = (p, k)" by fastforce
    note K = kn_kmalloc_cases [OF l(1) k]
    obtain m where m: "k = (fst s)\<lparr>kn_heap := m\<rparr>" using K(1) by blast
    show ?thesis
    proof (cases "KERR_PTR_IS_ERR p")
      case True
      then have r: "r = Inl KERR_NOMEM" "s' = (k, snd s)" using run args sz Some k by (auto simp: vm_add_vma_def)
      have "heap_areas s'" using K(2) [OF True] l(2) d by (auto simp: heap_areas_def r m)
      then have "space_inv s' F" using inv by (auto simp: space_inv_def r m area_mapped_def)
      then show ?thesis using r m by simp
    next
      case False
      then have r: "r = Inr ()" "s' = (k, (snd s)\<lparr>vs_vmas := take i ?vs @ (p, ?n) # drop i ?vs\<rparr>)"
        using run args sz Some k by (auto simp: vm_add_vma_def Let_def)
      have G: "vmas_ok (map snd (take i ?vs @ (p, ?n) # drop i ?vs))" "i \<le> length ?vs"
          "\<forall>v\<in>set ?vs. \<forall>a. \<not> (in_vma a (snd v) \<and> in_vma a ?n)"
        by (rule vma_gap_insert [OF vok _ n]; simp add: Some)+
      have fresh: "p \<notin> fst ` set ?vs" using K(3) [OF False] l(2) by force
      have "distinct (map fst (take i ?vs @ (p, ?n) # drop i ?vs))"
        using distinct_insert_at [OF d, of "(p, ?n)" i] fresh by simp
      moreover have "\<forall>w\<in>set (take i ?vs @ (p, ?n) # drop i ?vs). (fst w, vma_size) \<in> set ((p, vma_size) # live)"
        using inserted_cases l(2) by fastforce
      moreover have "heap_run (kn_kheap (fst s)) ((p, vma_size) # live) m" using K(3) [OF False] m by simp
      ultimately have "heap_areas s'"
        unfolding heap_areas_def r(2) m by (intro conjI exI [of _ "(p, vma_size) # live"]) simp_all
      then show ?thesis using G fresh r m by auto
    qed
  qed
qed

lemma vm_x86_eq: "vm_x86 f s = (case f (kn_mm (fst s)) of (r, x) \<Rightarrow> (r, ((fst s)\<lparr>kn_mm := x\<rparr>, snd s)))"
  by (simp add: vm_x86_def kzoom_def split: prod.splits)

lemma remove1_inserted: "x \<notin> set (take i vs) \<Longrightarrow> remove1 x (take i vs @ x # drop i vs) = vs"
  by (simp add: remove1_append)

lemma find_first: "P y \<Longrightarrow> (\<And>x. x \<in> set xs \<Longrightarrow> \<not> P x) \<Longrightarrow> find P (xs @ y # ys) = Some y"
  by (induction xs) auto

lemma vm_map_guard:
  "vm_map True virt phys sz flags s =
     (if sz = 0 \<or> unat virt mod 4096 \<noteq> 0 \<or> unat phys mod 4096 \<noteq> 0 \<or> unat sz mod 4096 \<noteq> 0
        \<or> \<not> vm_user_range_valid virt sz \<or> \<not> vm_phys_range_valid phys sz then (Inl KERR_INVAL, s)
      else kerr_try (vm_add_vma True virt sz flags)
             (\<lambda>_ s. case vm_x86 (arch_vm_map (Some (vs_arch (snd s))) virt phys sz flags) s of
                      (Inl e, s) \<Rightarrow> (Inl e, snd (vm_remove_vma virt s))
                    | (Inr _, s) \<Rightarrow> kret () s) s)"
  by (simp add: vm_map_def)

lemma vm_map_result:
  assumes inv: "space_inv s F" and fits: "unat virt + unat sz \<noteq> 2 ^ 32"
    and run: "vm_map True virt phys sz flags s = (r, s')"
  shows "space_inv s' F \<and> vs_arch (snd s') = vs_arch (snd s) \<and>
    (case r of
       Inr _ \<Rightarrow> range_mapped (vs_arch (snd s)) virt phys (unat sz) (kn_mm (fst s)) (kn_mm (fst s'))
         \<and> (\<forall>v\<in>set (vs_vmas (snd s)). \<forall>a. \<not> (in_vma a (snd v) \<and> in_vma a (new_vma virt sz flags)))
         \<and> (\<exists>p i. vs_vmas (snd s') = take i (vs_vmas (snd s)) @ (p, new_vma virt sz flags) # drop i (vs_vmas (snd s)))
     | Inl e \<Rightarrow> vs_vmas (snd s') = vs_vmas (snd s)
         \<and> (\<exists>m. 4096 * m \<le> unat sz \<and> range_mapped (vs_arch (snd s)) virt phys (4096 * m) (kn_mm (fst s)) (kn_mm (fst s'))))"
proof (cases "sz = 0 \<or> unat virt mod 4096 \<noteq> 0 \<or> unat phys mod 4096 \<noteq> 0 \<or> unat sz mod 4096 \<noteq> 0
    \<or> \<not> vm_user_range_valid virt sz \<or> \<not> vm_phys_range_valid phys sz")
  case True
  then have "r = Inl KERR_INVAL" "s' = s" using run unfolding vm_map_guard by auto
  then show ?thesis using inv range_mapped_0 by (auto intro!: exI [of _ 0])
next
  case False
  then have args: "vm_user_range_valid virt sz" "unat virt mod 4096 = 0" "unat sz mod 4096 = 0" "unat virt + unat sz < 2 ^ 32"
    and a: "sz \<noteq> 0" "unat phys mod 4096 = 0" using fits by (auto simp: user_range_iff)
  let ?n = "new_vma virt sz flags" and ?vs = "vs_vmas (snd s)" and ?vm = "vs_arch (snd s)" and ?x = "kn_mm (fst s)"
  note n = new_vma_ok(1,2,3) [OF args]
  have pd: "table_at (pd_phys ?vm) F" and vinv: "vm_inv ?x F" and maps: "\<forall>v\<in>set ?vs. area_mapped s (snd v)"
    using inv by (auto simp: space_inv_def)
  obtain q t where q: "vm_add_vma True virt sz flags s = (q, t)" by (cases "vm_add_vma True virt sz flags s")
  from vm_add_vma_cases [OF inv args q] show ?thesis
  proof (elim disjE exE conjE)
    fix e assume e: "q = Inl e" "space_inv t F" "snd t = snd s" "kn_mm (fst t) = ?x"
    then have "r = Inl e" "s' = t" using run False q unfolding vm_map_guard by (auto simp: kerr_try_def)
    then show ?thesis using e range_mapped_0 by (auto intro!: exI [of _ 0])
  next
    fix p i assume t: "q = Inr ()" "kn_mm (fst t) = ?x" "vs_arch (snd t) = ?vm" "i \<le> length ?vs"
      "vs_vmas (snd t) = take i ?vs @ (p, ?n) # drop i ?vs" "vmas_ok (map snd (vs_vmas (snd t)))" "heap_areas t"
      "p \<notin> fst ` set ?vs" "\<forall>v\<in>set ?vs. \<forall>a. \<not> (in_vma a (snd v) \<and> in_vma a ?n)"
    obtain w x where w: "arch_vm_map (Some ?vm) virt phys sz flags ?x = (w, x)" by fastforce
    have f32: "unat virt + unat sz \<le> 2 ^ 32" using args(4) by simp
    from arch_vm_map_spec [OF vinv pd a(1) args(2) a(2) args(3) f32 UNIV_I w] obtain m where m: "vm_inv x F"
      "m \<le> unat sz div 4096" "range_mapped ?vm virt phys (4096 * m) ?x x" "w = Inr () \<longrightarrow> 4096 * m = unat sz" by blast
    have szm: "4096 * m \<le> unat sz" using m(2) by (simp add: less_eq_div_iff_mult_less_eq mult.commute)
    have old: "\<exists>p. translates ?vm x y = Inr p" if "v \<in> set ?vs" "in_vma y (snd v)" for v y
    proof -
      have "\<not> in_vma y ?n" using t(9) that by blast
      then have "\<not> (unat virt \<le> unat y \<and> unat y < unat virt + 4096 * m)" using szm n(2) by (auto simp: in_vma_def)
      then have "translates ?vm x y = translates ?vm ?x y" using m(3) by (auto simp: range_mapped_def)
      then show ?thesis using maps that by (auto simp: area_mapped_def)
    qed
    show ?thesis
    proof (cases w)
      case (Inr u)
      then have r: "r = Inr ()" "s' = ((fst t)\<lparr>kn_mm := x\<rparr>, snd t)"
        using run False q t(1,2,3) w Inr unfolding vm_map_guard by (auto simp: kerr_try_def vm_x86_eq)
      have all: "range_mapped ?vm virt phys (unat sz) ?x x" using m(3,4) Inr by simp
      have new: "area_mapped s' ?n"
        using all n(2) t(3) by (auto simp: area_mapped_def r range_mapped_def in_vma_def)
      have "area_mapped s' (snd v)" if "v \<in> set (vs_vmas (snd t))" for v
      proof -
        have "v = (p, ?n) \<or> v \<in> set ?vs" using that unfolding t(5) by (rule inserted_cases)
        then show ?thesis using new old [of v] t(3) by (auto simp: area_mapped_def r)
      qed
      moreover have "heap_areas s'" using t(7) by (simp add: heap_areas_def r)
      ultimately have "space_inv s' F" using t(3,6) pd m(1) by (simp add: space_inv_def r)
      then show ?thesis using r t all by auto
    next
      case (Inl e)
      let ?t = "((fst t)\<lparr>kn_mm := x\<rparr>, snd t)"
      have "in_vma virt ?n" using n(1) by (simp add: in_vma_def vma_ok_def)
      then have "find (\<lambda>v. in_vma virt (snd v)) (vs_vmas (snd t)) = Some (p, ?n)"
        using t(9) unfolding t(5) by (intro find_first) (auto dest: in_set_takeD)
      then have "vm_find_vma (Some (snd t)) virt = Some (p, ?n)"
        using args(1) vma_search_find [OF t(6)] by (simp add: vm_find_vma_def user_range_iff word_le_nat_alt VM_USER_END_eq)
      then have r: "r = Inl e" "s' = vma_drop (p, ?n) ?t"
        using run False q t(1,2,3) w Inl unfolding vm_map_guard by (auto simp: kerr_try_def vm_x86_eq vm_remove_vma_def)
      have "(p, ?n) \<notin> set (take i ?vs)" using t(8) by (force dest: in_set_takeD)
      then have vs: "vs_vmas (snd s') = ?vs" by (simp add: r t(5) remove1_inserted)
      have "heap_areas ?t" using t(7) by (simp add: heap_areas_def)
      then have "heap_areas s'" unfolding r(2) by (rule heap_areas_drop) (simp add: t(5))
      moreover have "area_mapped s' (snd v)" if "v \<in> set ?vs" for v
        using old that t(3) by (auto simp: area_mapped_def r)
      ultimately have "space_inv s' F" using inv t(3) m(1) unfolding space_inv_def vs by (simp add: r)
      then show ?thesis using r vs t(3) szm m(3) by auto
    qed
  qed
qed

text \<open>
  A range that ends at 4 GiB, whose end wraps around to 0, passes every check. Once its descriptor is allocated the new area
  is in the list for good: when the pages cannot be mapped, \<open>vm_remove_vma\<close> does not find it.
\<close>

lemma kn_kmalloc_mm: "kn_kmalloc sz s = (p, k) \<Longrightarrow> kn_mm k = kn_mm s"
  by (auto simp: kn_kmalloc_def split: option.splits)

lemma vma_search_some: "vma_search a vs = Some v \<Longrightarrow> v \<in> set vs \<and> in_vma a (snd v)"
  by (induction vs) (auto simp: in_vma_def word_le_nat_alt word_less_nat_alt split: if_splits)

lemma vma_gap_wrap: "vma_gap virt 0 vs \<noteq> None"
  by (induction vs) auto

lemma vm_map_wrap:
  assumes inv: "space_inv s F" and wrap: "unat virt + unat sz = 2 ^ 32" and run: "vm_map True virt phys sz flags s = (r, s')"
  shows "(\<exists>e. r = Inl e) \<and> vs_vmas (snd s') = vs_vmas (snd s) \<and> kn_mm (fst s') = kn_mm (fst s) \<and> space_inv s' F
    \<or> vma_end (new_vma virt sz flags) = 0 \<and> (\<exists>p. (p, new_vma virt sz flags) \<in> set (vs_vmas (snd s')))"
proof (cases "sz = 0 \<or> unat virt mod 4096 \<noteq> 0 \<or> unat phys mod 4096 \<noteq> 0 \<or> unat sz mod 4096 \<noteq> 0
    \<or> \<not> vm_user_range_valid virt sz \<or> \<not> vm_phys_range_valid phys sz")
  case True
  then have "r = Inl KERR_INVAL" "s' = s" using run unfolding vm_map_guard by auto
  then show ?thesis using inv by auto
next
  case False
  let ?n = "new_vma virt sz flags" and ?vs = "vs_vmas (snd s)"
  have z: "virt + sz = 0" using wrap by (simp add: word_unat_eq_iff unat_word_ariths)
  obtain i where i: "vma_gap virt 0 ?vs = Some i" using vma_gap_wrap by blast
  obtain p k where k: "kn_kmalloc vma_size (fst s) = (p, k)" by fastforce
  obtain live where l: "heap_run (kn_kheap (fst s)) live (kn_heap (fst s))" "\<forall>w\<in>set ?vs. (fst w, vma_size) \<in> set live"
    and d: "distinct (map fst ?vs)" using inv by (auto simp: space_inv_def heap_areas_def)
  note K = kn_kmalloc_cases [OF l(1) k]
  obtain m where m: "k = (fst s)\<lparr>kn_heap := m\<rparr>" using K(1) by blast
  show ?thesis
  proof (cases "KERR_PTR_IS_ERR p")
    case True
    then have r: "r = Inl KERR_NOMEM" "s' = (k, snd s)"
      using run False k i z unfolding vm_map_guard by (auto simp: vm_add_vma_def kerr_try_def)
    have "heap_areas s'" using K(2) [OF True] l(2) d by (auto simp: heap_areas_def r m)
    then have "space_inv s' F" using inv by (auto simp: space_inv_def r m area_mapped_def)
    then show ?thesis using r m by simp
  next
    case ok: False
    let ?t = "(k, (snd s)\<lparr>vs_vmas := take i ?vs @ (p, ?n) # drop i ?vs\<rparr>)"
    have add: "vm_add_vma True virt sz flags s = (Inr (), ?t)"
      using False k i z ok by (auto simp: vm_add_vma_def Let_def)
    obtain w x where w: "arch_vm_map (Some (vs_arch (snd s))) virt phys sz flags (kn_mm k) = (w, x)" by fastforce
    let ?u = "(k\<lparr>kn_mm := x\<rparr>, snd ?t)"
    have "(p, ?n) \<in> set (vs_vmas (snd (snd (vm_remove_vma virt ?u))))"
    proof (cases "vm_find_vma (Some (snd ?u)) virt")
      case (Some v)
      then have "in_vma virt (snd v)" by (auto simp: vm_find_vma_def split: if_splits dest: vma_search_some)
      then have "v \<noteq> (p, ?n)" by (auto simp: in_vma_def z)
      then show ?thesis using Some by (simp add: vm_remove_vma_def in_set_remove1)
    qed (simp add: vm_remove_vma_def)
    moreover have "s' = ?u \<or> s' = snd (vm_remove_vma virt ?u)"
      using run False add w unfolding vm_map_guard by (cases w) (auto simp: kerr_try_def vm_x86_eq)
    ultimately have "(p, ?n) \<in> set (vs_vmas (snd s'))" by auto
    then show ?thesis using z by auto
  qed
qed

text \<open>The page tables stay well-formed in every case.\<close>

lemma vm_add_vma_mm:
  "vm_add_vma nn virt sz flags s = (r, s') \<Longrightarrow> kn_mm (fst s') = kn_mm (fst s) \<and> vs_arch (snd s') = vs_arch (snd s)"
  by (auto simp: vm_add_vma_def Let_def kn_kmalloc_mm split: if_splits option.splits prod.splits)

lemma vm_remove_vma_mm: "vm_remove_vma virt s = (r, s') \<Longrightarrow> kn_mm (fst s') = kn_mm (fst s) \<and> vs_arch (snd s') = vs_arch (snd s)"
  by (auto simp: vm_remove_vma_def split: option.splits)

definition tables_ok :: "vm_state \<Rightarrow> nat \<Rightarrow> bool" where
  "tables_ok s F \<longleftrightarrow> table_at (pd_phys (vs_arch (snd s))) F \<and> vm_inv (kn_mm (fst s)) F"

lemma user_range_fits: "vm_user_range_valid virt sz \<Longrightarrow> unat virt + unat sz \<le> 2 ^ 32"
  by (auto simp: user_range_iff)

lemma vm_map_tables:
  assumes ok: "tables_ok s F" and run: "vm_map True virt phys sz flags s = (r, s')"
  shows "tables_ok s' F \<and> vs_arch (snd s') = vs_arch (snd s)"
proof (cases "sz = 0 \<or> unat virt mod 4096 \<noteq> 0 \<or> unat phys mod 4096 \<noteq> 0 \<or> unat sz mod 4096 \<noteq> 0
    \<or> \<not> vm_user_range_valid virt sz \<or> \<not> vm_phys_range_valid phys sz")
  case True
  then show ?thesis using run ok unfolding vm_map_guard by auto
next
  case False
  then have args: "sz \<noteq> 0" "unat virt mod 4096 = 0" "unat phys mod 4096 = 0" "unat sz mod 4096 = 0" "unat virt + unat sz \<le> 2 ^ 32"
    using user_range_fits by auto
  obtain q t where q: "vm_add_vma True virt sz flags s = (q, t)" by (cases "vm_add_vma True virt sz flags s")
  note T = vm_add_vma_mm [OF q]
  obtain w x where w: "arch_vm_map (Some (vs_arch (snd s))) virt phys sz flags (kn_mm (fst s)) = (w, x)" by fastforce
  have x: "vm_inv x F" using arch_vm_map_spec [OF _ _ args UNIV_I w] ok by (auto simp: tables_ok_def)
  obtain v u where v: "vm_remove_vma virt ((fst t)\<lparr>kn_mm := x\<rparr>, snd t) = (v, u)" by (cases "vm_remove_vma virt ((fst t)\<lparr>kn_mm := x\<rparr>, snd t)")
  have "s' = t \<or> s' = ((fst t)\<lparr>kn_mm := x\<rparr>, snd t) \<or> s' = u"
    using run False q w v T unfolding vm_map_guard by (cases q; cases w) (auto simp: kerr_try_def vm_x86_eq)
  then show ?thesis using T vm_remove_vma_mm [OF v] ok x by (auto simp: tables_ok_def)
qed

subsection \<open>Unmapping and protecting\<close>

lemma vm_unmap_tables:
  assumes ok: "tables_ok s F" and run: "vm_unmap True virt sz s = (r, s')"
  shows "tables_ok s' F"
proof (cases "sz = 0 \<or> unat virt mod 4096 \<noteq> 0 \<or> unat sz mod 4096 \<noteq> 0 \<or> \<not> vm_user_range_valid virt sz")
  case False
  then have args: "sz \<noteq> 0" "unat virt mod 4096 = 0" "unat sz mod 4096 = 0" "unat virt + unat sz \<le> 2 ^ 32"
    using user_range_fits by auto
  obtain w x where w: "arch_vm_unmap (Some (vs_arch (snd s))) virt sz (kn_mm (fst s)) = (w, x)" by fastforce
  have x: "vm_inv x F" using arch_vm_unmap_spec [OF _ _ args UNIV_I w] ok by (auto simp: tables_ok_def)
  have "s' = s \<or> s' = ((fst s)\<lparr>kn_mm := x\<rparr>, snd s) \<or> (\<exists>v. s' = vma_drop v ((fst s)\<lparr>kn_mm := x\<rparr>, snd s))"
    using run False w by (cases w) (auto simp: vm_unmap_def kerr_try_def vm_x86_eq split: option.splits if_splits)
  then show ?thesis using ok x by (auto simp: tables_ok_def)
next
  case True
  then have "s' = s" using run by (auto simp: vm_unmap_def split: if_splits)
  then show ?thesis using ok by simp
qed

lemma vm_protect_tables:
  assumes ok: "tables_ok s F" and run: "vm_protect True virt sz flags s = (r, s')"
  shows "tables_ok s' F"
proof (cases "sz = 0 \<or> unat virt mod 4096 \<noteq> 0 \<or> unat sz mod 4096 \<noteq> 0 \<or> \<not> vm_user_range_valid virt sz")
  case False
  then have args: "sz \<noteq> 0" "unat virt mod 4096 = 0" "unat sz mod 4096 = 0" "unat virt + unat sz \<le> 2 ^ 32"
    using user_range_fits by auto
  obtain w x where w: "arch_vm_protect (Some (vs_arch (snd s))) virt sz flags (kn_mm (fst s)) = (w, x)" by fastforce
  have x: "vm_inv x F" using arch_vm_protect_spec [OF _ _ args UNIV_I w] ok by (auto simp: tables_ok_def)
  have "s' = s \<or> s' = ((fst s)\<lparr>kn_mm := x\<rparr>, snd s) \<or> (\<exists>vs. s' = ((fst s)\<lparr>kn_mm := x\<rparr>, (snd s)\<lparr>vs_vmas := vs\<rparr>))"
    using run False w by (cases w) (auto simp: vm_protect_def kerr_try_def vm_x86_eq split: option.splits if_splits)
  then show ?thesis using ok x by (auto simp: tables_ok_def)
next
  case True
  then have "s' = s" using run by (auto simp: vm_protect_def split: if_splits)
  then show ?thesis using ok by simp
qed

definition exact_vma :: "vm_space \<Rightarrow> vaddr \<Rightarrow> size_t \<Rightarrow> vaddr \<times> vma \<Rightarrow> bool" where
  "exact_vma vm virt sz v \<longleftrightarrow> v \<in> set (vs_vmas vm) \<and> vma_start (snd v) = virt \<and> vma_end (snd v) = virt + sz"

lemma exact_vma_range:
  assumes ok: "vmas_ok (map snd (vs_vmas vm))" and v: "exact_vma vm virt sz v" and sz: "sz \<noteq> 0" and fit: "unat virt + unat sz < 2 ^ 32"
  shows "vm_find_vma_range (Some vm) virt sz = Some v" and "vm_user_range_valid virt sz"
    and "unat virt mod 4096 = 0" and "unat sz mod 4096 = 0" and "unat (virt + sz) = unat virt + unat sz"
proof -
  have vo: "vma_ok (snd v)" using ok v by (auto simp: exact_vma_def vmas_ok_def)
  show e: "unat (virt + sz) = unat virt + unat sz" using fit by (intro unat_add_nowrap) simp
  show u: "vm_user_range_valid virt sz" using vo v sz e by (auto simp: user_range_iff vma_ok_def exact_vma_def)
  show m: "unat virt mod 4096 = 0" using vo v by (auto simp: vma_ok_def exact_vma_def)
  have "(unat virt + unat sz) mod 4096 = 0" using vo v e by (auto simp: vma_ok_def exact_vma_def)
  then show "unat sz mod 4096 = 0" using m by (simp add: mod_add_left_eq [symmetric, of "unat virt"])
  show "vm_find_vma_range (Some vm) virt sz = Some v"
    using vma_range_search_exact [OF ok, of v] v u by (simp add: vm_find_vma_range_def exact_vma_def)
qed

lemma exact_vma_fits:
  assumes ok: "vmas_ok (map snd (vs_vmas vm))" and v: "exact_vma vm virt sz v"
  shows "unat virt + unat sz < 2 ^ 32"
proof (rule ccontr)
  assume "\<not> unat virt + unat sz < 2 ^ 32"
  then have "(unat virt + unat sz) mod 2 ^ 32 = (unat virt + unat sz - 2 ^ 32) mod 2 ^ 32" by (intro le_mod_geq) simp
  then have "unat (virt + sz) \<le> unat virt + unat sz - 2 ^ 32" by (simp add: unat_word_ariths)
  then have "unat (virt + sz) < unat virt" using unat32_lt [of sz] \<open>\<not> unat virt + unat sz < 2 ^ 32\<close> by (simp del: unat32_lt)
  moreover have "unat virt < unat (virt + sz)" using ok v by (auto simp: vmas_ok_def exact_vma_def vma_ok_def)
  ultimately show False by simp
qed

lemma no_exact_vma:
  assumes "\<nexists>v. exact_vma (snd s) virt sz v"
  shows "\<exists>e. vm_unmap True virt sz s = (Inl e, s)" and "\<exists>e. vm_protect True virt sz flags s = (Inl e, s)"
proof -
  have "vma_start (snd v) \<noteq> virt \<or> vma_end (snd v) \<noteq> virt + sz"
    if "vm_find_vma_range (Some (snd s)) virt sz = Some v" for v
  proof -
    have "vma_range_search virt (virt + sz) (vs_vmas (snd s)) = Some v"
      using that by (simp add: vm_find_vma_range_def split: if_splits)
    then have "v \<in> set (vs_vmas (snd s))" by (rule vma_range_search_in)
    then show ?thesis using assms unfolding exact_vma_def by blast
  qed
  then show "\<exists>e. vm_unmap True virt sz s = (Inl e, s)" and "\<exists>e. vm_protect True virt sz flags s = (Inl e, s)"
    by (auto simp: vm_unmap_def vm_protect_def split: option.splits)
qed

lemma page_in_vma:
  assumes "unat virt mod 4096 = 0" and "unat sz mod 4096 = 0" and "unat virt + unat sz < 2 ^ 32" and "4096 * m < unat sz"
  shows "unat (page_va virt m) = unat virt + 4096 * m"
proof -
  have "unat (of_nat (4096 * m) :: u32) = 4096 * m" using assms(3,4) by (intro unat_of_nat_small) simp
  then show ?thesis unfolding page_va_def using assms(3,4) by (subst unat_add_nowrap) simp_all
qed

lemma vm_unmap_result:
  assumes inv: "space_inv s F" and v: "exact_vma (snd s) virt sz v" and sz: "sz \<noteq> 0" and fit: "unat virt + unat sz < 2 ^ 32"
  shows "\<exists>s'. vm_unmap True virt sz s = (Inr (), s') \<and> space_inv s' F \<and> vs_arch (snd s') = vs_arch (snd s)
    \<and> vs_vmas (snd s') = remove1 v (vs_vmas (snd s))
    \<and> range_unmapped (vs_arch (snd s)) virt (unat sz) (kn_mm (fst s)) (kn_mm (fst s'))"
proof -
  let ?vs = "vs_vmas (snd s)" and ?vm = "vs_arch (snd s)" and ?x = "kn_mm (fst s)"
  have ok: "vmas_ok (map snd ?vs)" and pd: "table_at (pd_phys ?vm) F" and vinv: "vm_inv ?x F"
    and maps: "\<forall>v\<in>set ?vs. area_mapped s (snd v)" and h: "heap_areas s" using inv by (auto simp: space_inv_def)
  note E = exact_vma_range [OF ok v sz fit]
  have vin: "v \<in> set ?vs" and nv: "vma_start (snd v) = virt" "vma_end (snd v) = virt + sz" using v by (auto simp: exact_vma_def)
  obtain w x where w: "arch_vm_unmap (Some ?vm) virt sz ?x = (w, x)" by fastforce
  have f32: "unat virt + unat sz \<le> 2 ^ 32" using fit by simp
  from arch_vm_unmap_spec [OF vinv pd sz E(3,4) f32 UNIV_I w] obtain m where m: "vm_inv x F"
    "range_unmapped ?vm virt (4096 * m) ?x x" "w = Inr () \<longrightarrow> 4096 * m = unat sz"
    "\<forall>e. w = Inl e \<longrightarrow> 4096 * m < unat sz \<and> translates ?vm ?x (page_va virt m) = Inl e" by blast
  have "w = Inr ()"
  proof (cases w)
    case (Inl e)
    then have "in_vma (page_va virt m) (snd v)"
      using m(4) page_in_vma [OF E(3,4) fit, of m] by (simp add: in_vma_def nv E(5))
    then show ?thesis using maps vin m(4) Inl by (force simp: area_mapped_def)
  qed simp
  then have all: "range_unmapped ?vm virt (unat sz) ?x x" using m(2,3) by simp
  let ?s = "((fst s)\<lparr>kn_mm := x\<rparr>, snd s)"
  have run: "vm_unmap True virt sz s = (Inr (), vma_drop v ?s)"
    using E w \<open>w = Inr ()\<close> sz nv by (simp add: vm_unmap_def kerr_try_def vm_x86_eq)
  have h': "heap_areas (vma_drop v ?s)" using h vin by (intro heap_areas_drop) (simp_all add: heap_areas_def)
  have "area_mapped (vma_drop v ?s) (snd u)" if "u \<in> set (remove1 v ?vs)" for u
    unfolding area_mapped_def
  proof (intro allI impI)
    fix a assume a: "in_vma a (snd u)"
    have dv: "distinct ?vs" using h by (simp add: heap_areas_def distinct_map)
    then have u: "u \<in> set ?vs" "u \<noteq> v" using that by (auto simp: set_remove1_eq)
    then have "\<not> in_vma a (snd v)" using vmas_apart [OF ok u(1) vin u(2) dv] a by blast
    then have "translates ?vm x a = translates ?vm ?x a" using all by (auto simp: range_unmapped_def in_vma_def nv E(5))
    then show "\<exists>p. translates (vs_arch (snd (vma_drop v ?s))) (kn_mm (fst (vma_drop v ?s))) a = Inr p"
      using maps u(1) a by (auto simp: area_mapped_def)
  qed
  then have "space_inv (vma_drop v ?s) F"
    using vmas_ok_remove1 [OF ok] h' pd m(1) by (simp add: space_inv_def)
  then show ?thesis using run all by (intro exI [of _ "vma_drop v ?s"]) simp
qed

definition set_flags :: "vaddr \<Rightarrow> u32 \<Rightarrow> vaddr \<times> vma \<Rightarrow> vaddr \<times> vma" where
  "set_flags p flags w = (if fst w = p then (fst w, (snd w)\<lparr>vma_flags := flags\<rparr>) else w)"

lemma set_flags_simps [simp]:
  "fst (set_flags p flags w) = fst w" "vma_start (snd (set_flags p flags w)) = vma_start (snd w)"
  "vma_end (snd (set_flags p flags w)) = vma_end (snd w)"
  by (simp_all add: set_flags_def)

lemma vmas_ok_set_flags: "vmas_ok (map snd (map (set_flags p flags) vs)) = vmas_ok (map snd vs)"
  by (induction vs) (auto simp: vmas_ok_Cons vma_ok_def)

lemma in_vma_set_flags [simp]: "in_vma a (snd (set_flags p flags w)) = in_vma a (snd w)"
  by (simp add: in_vma_def)

lemma vm_protect_result:
  assumes inv: "space_inv s F" and v: "exact_vma (snd s) virt sz v" and sz: "sz \<noteq> 0" and fit: "unat virt + unat sz < 2 ^ 32"
  shows "\<exists>s'. vm_protect True virt sz flags s = (Inr (), s') \<and> space_inv s' F \<and> vs_arch (snd s') = vs_arch (snd s)
    \<and> vs_vmas (snd s') = map (set_flags (fst v) flags) (vs_vmas (snd s))
    \<and> (\<forall>a. translates (vs_arch (snd s)) (kn_mm (fst s')) a = translates (vs_arch (snd s)) (kn_mm (fst s)) a)"
proof -
  let ?vs = "vs_vmas (snd s)" and ?vm = "vs_arch (snd s)" and ?x = "kn_mm (fst s)"
  have ok: "vmas_ok (map snd ?vs)" and pd: "table_at (pd_phys ?vm) F" and vinv: "vm_inv ?x F"
    and maps: "\<forall>v\<in>set ?vs. area_mapped s (snd v)" and h: "heap_areas s" using inv by (auto simp: space_inv_def)
  note E = exact_vma_range [OF ok v sz fit]
  have vin: "v \<in> set ?vs" and nv: "vma_start (snd v) = virt" "vma_end (snd v) = virt + sz" using v by (auto simp: exact_vma_def)
  obtain w x where w: "arch_vm_protect (Some ?vm) virt sz flags ?x = (w, x)" by fastforce
  have f32: "unat virt + unat sz \<le> 2 ^ 32" using fit by simp
  from arch_vm_protect_spec [OF vinv pd sz E(3,4) f32 UNIV_I w] obtain m where m: "vm_inv x F"
    "\<forall>a. translates ?vm x a = translates ?vm ?x a"
    "\<forall>e. w = Inl e \<longrightarrow> 4096 * m < unat sz \<and> translates ?vm ?x (page_va virt m) = Inl e" by blast
  have "w = Inr ()"
  proof (cases w)
    case (Inl e)
    then have "in_vma (page_va virt m) (snd v)"
      using m(3) page_in_vma [OF E(3,4) fit, of m] by (simp add: in_vma_def nv E(5))
    then show ?thesis using maps vin m(3) Inl by (force simp: area_mapped_def)
  qed simp
  let ?s = "((fst s)\<lparr>kn_mm := x\<rparr>, (snd s)\<lparr>vs_vmas := map (set_flags (fst v) flags) ?vs\<rparr>)"
  have "(\<lambda>w. if fst w = fst v then (fst w, (snd w)\<lparr>vma_flags := flags\<rparr>) else w) = set_flags (fst v) flags"
    by (simp add: set_flags_def fun_eq_iff)
  then have run: "vm_protect True virt sz flags s = (Inr (), ?s)"
    using E w \<open>w = Inr ()\<close> sz nv by (simp add: vm_protect_def kerr_try_def vm_x86_eq)
  have "map fst (map (set_flags (fst v) flags) ?vs) = map fst ?vs" by simp
  then have "heap_areas ?s" using h unfolding heap_areas_def by (auto simp del: map_map)
  moreover have "\<forall>w\<in>set (map (set_flags (fst v) flags) ?vs). area_mapped ?s (snd w)"
    using maps m(2) by (simp add: area_mapped_def)
  ultimately have "space_inv ?s F" using ok pd m(1) vmas_ok_set_flags [of "fst v" flags ?vs] by (simp add: space_inv_def)
  then show ?thesis using run m(2) by (intro exI [of _ ?s]) simp
qed

subsection \<open>A new space\<close>

lemma vm_space_init_inv:
  assumes inv: "kern_inv (fst s) K" and h: "heap_run (kn_kheap (fst s)) live (kn_heap (fst s))"
    and run: "vm_space_init True s = (r, s')"
  shows "r = Inl KERR_NOMEM \<and> fst s' = fst s \<or>
    r = Inr () \<and> vs_vmas (snd s') = [] \<and> kern_inv (fst s') K \<and> (\<exists>F. space_inv s' F)"
proof -
  note I = kern_invD [OF inv]
  let ?x = "kn_mm (fst s)"
  obtain q x where q: "arch_vm_space_init True ?x = (q, x)" by fastforce
  from arch_vm_space_init_cases [OF vm_invD(1) [OF I(2)] q] show ?thesis
  proof
    assume "q = Inl KERR_NOMEM \<and> x = ?x"
    then show ?thesis using run q by (auto simp: vm_space_init_def kerr_try_def vm_x86_eq)
  next
    assume "\<exists>vm F. q = Inr vm \<and> table_at (pd_phys vm) F \<and> vm_inv x F \<and> frame_free (xm_pmm ?x) F
       \<and> (\<forall>k. frame_free (xm_pmm x) k \<longleftrightarrow> frame_free (xm_pmm ?x) k \<and> k \<noteq> F)
       \<and> frame_managed (xm_pmm x) = frame_managed (xm_pmm ?x)
       \<and> (\<forall>i<1024. pde x F i = 0) \<and> (\<forall>f i. f \<noteq> F \<and> i < 1024 \<longrightarrow> xm_mem x (slot f i) = xm_mem ?x (slot f i))"
    then obtain vm where vm: "q = Inr vm" by blast
    obtain w y where w: "arch_vm_space_attach_kernel (Some vm) (Some (kernel_vm (fst s))) x = (w, y)" by fastforce
    obtain F where F: "table_at (pd_phys vm) F" "w = Inr ()" "vm_inv y F" "vm_inv y K" "\<forall>i<1024. pde y K i = pde ?x K i"
      by (rule space_created [OF I(2,1) q [unfolded vm] w])
    let ?s = "((fst s)\<lparr>kn_mm := y\<rparr>, (snd s)\<lparr>vs_vmas := [], vs_arch := vm\<rparr>)"
    have s': "r = Inr ()" "s' = ?s"
      using run q vm w F(2) by (auto simp: vm_space_init_def kerr_try_def vm_x86_eq vm_kern_attach_def kzoom_def)
    have "space_inv ?s F" using F(1,3) h by (auto simp: space_inv_def vmas_ok_def heap_areas_def)
    moreover have "kern_inv (fst ?s) K" using I F(4,5) by (simp add: kern_inv_def)
    ultimately show ?thesis using s' by auto
  qed
qed

subsection \<open>The claims\<close>

text \<open>
  The address spaces that the kernel reaches: a space is created over a kernel that is set up, then any sequence of mapping,
  unmapping and protecting is run on it, with any arguments and any outcome. The index records that a range that ends at
  exactly 4 GiB was entered as an area.
\<close>

inductive vmm_reach :: "bool \<Rightarrow> vm_state \<Rightarrow> bool" where
  reach_init: "kern_inv (fst s) K \<Longrightarrow> heap_run (kn_kheap (fst s)) live (kn_heap (fst s)) \<Longrightarrow>
    vm_space_init True s = (Inr (), s') \<Longrightarrow> vmm_reach False s'"
| reach_map: "vmm_reach w s \<Longrightarrow> vm_map True virt phys sz flags s = (r, s') \<Longrightarrow>
    w' = (w \<or> unat virt + unat sz = 2 ^ 32 \<and> vs_vmas (snd s') \<noteq> vs_vmas (snd s)) \<Longrightarrow> vmm_reach w' s'"
| reach_unmap: "vmm_reach w s \<Longrightarrow> vm_unmap True virt sz s = (r, s') \<Longrightarrow> vmm_reach w s'"
| reach_protect: "vmm_reach w s \<Longrightarrow> vm_protect True virt sz flags s = (r, s') \<Longrightarrow> vmm_reach w s'"

lemma vm_null_size: "vm_unmap True virt 0 s = (Inl KERR_INVAL, s)" "vm_protect True virt 0 flags s = (Inl KERR_INVAL, s)"
  by (simp_all add: vm_unmap_def vm_protect_def)

lemma space_inv_tables: "space_inv s F \<Longrightarrow> tables_ok s F"
  by (simp add: space_inv_def tables_ok_def)

lemma vm_map_keeps:
  assumes inv: "space_inv s F" and run: "vm_map True virt phys sz flags s = (r, s')"
    and ok: "unat virt + unat sz = 2 ^ 32 \<longrightarrow> vs_vmas (snd s') = vs_vmas (snd s)"
  shows "space_inv s' F"
proof (cases "unat virt + unat sz = 2 ^ 32")
  case True
  have "(p, new_vma virt sz flags) \<notin> set (vs_vmas (snd s))" if "virt + sz = 0" for p
  proof
    assume "(p, new_vma virt sz flags) \<in> set (vs_vmas (snd s))"
    then have "vma_ok (new_vma virt sz flags)" using inv by (force simp: space_inv_def vmas_ok_def)
    then show False using that by (simp add: vma_ok_def)
  qed
  then show ?thesis using vm_map_wrap [OF inv True run] True ok by auto
next
  case False
  then show ?thesis using vm_map_result [OF inv _ run] by blast
qed

lemma vm_unmap_keeps:
  assumes inv: "space_inv s F" and run: "vm_unmap True virt sz s = (r, s')"
  shows "space_inv s' F"
proof (cases "sz = 0 \<or> (\<nexists>v. exact_vma (snd s) virt sz v)")
  case True
  then show ?thesis using run inv vm_null_size(1) [of virt s] no_exact_vma(1) [of s virt sz] by auto
next
  case False
  then obtain v where v: "exact_vma (snd s) virt sz v" and sz: "sz \<noteq> 0" by blast
  have "unat virt + unat sz < 2 ^ 32" by (rule exact_vma_fits [OF _ v]) (use inv in \<open>simp add: space_inv_def\<close>)
  from vm_unmap_result [OF inv v sz this] run show ?thesis by simp
qed

lemma vm_protect_keeps:
  assumes inv: "space_inv s F" and run: "vm_protect True virt sz flags s = (r, s')"
  shows "space_inv s' F"
proof (cases "sz = 0 \<or> (\<nexists>v. exact_vma (snd s) virt sz v)")
  case True
  then show ?thesis using run inv vm_null_size(2) [of virt flags s] no_exact_vma(2) [of s virt sz flags] by auto
next
  case False
  then obtain v where v: "exact_vma (snd s) virt sz v" and sz: "sz \<noteq> 0" by blast
  have "unat virt + unat sz < 2 ^ 32" by (rule exact_vma_fits [OF _ v]) (use inv in \<open>simp add: space_inv_def\<close>)
  from vm_protect_result [OF inv v sz this, of flags] run show ?thesis by simp
qed

text \<open>
  C26. In every address space that the kernel reaches, by any calls with any arguments, the page tables are well-formed. As
  long as no range that ends at exactly 4 GiB was entered as an area, moreover, the areas are sorted, pairwise apart, page
  aligned and below the kernel, every byte of every area is mapped by the page tables, and the descriptors of the areas are
  distinct live blocks of the heap. (The check of ranges lets such a range through, with an end that wraps around to 0.)
\<close>

theorem vmm_reach_inv:
  assumes "vmm_reach w s"
  shows "\<exists>F. tables_ok s F \<and> (\<not> w \<longrightarrow> space_inv s F)"
  using assms
proof induction
  case (reach_init s K live s')
  then show ?case using vm_space_init_inv space_inv_tables by blast
next
  case (reach_map w s virt phys sz flags r s' w')
  then obtain F where F: "tables_ok s F" "\<not> w \<longrightarrow> space_inv s F" by blast
  have "space_inv s' F" if "\<not> w'" using vm_map_keeps [OF _ reach_map.hyps(2)] F(2) reach_map.hyps(3) that by blast
  then show ?case using vm_map_tables [OF F(1) reach_map.hyps(2)] by blast
next
  case (reach_unmap w s virt sz r s')
  then show ?case using vm_unmap_tables vm_unmap_keeps by blast
next
  case (reach_protect w s virt sz flags r s')
  then show ?case using vm_protect_tables vm_protect_keeps by blast
qed

text \<open>
  C28. Mapping a range, with any arguments. On success the new area overlaps no older one, is linked in at its place, and
  exactly the bytes of the range translate to the physical range (of whose addresses the page tables keep the low 32
  bits). On failure the list of areas is what it was, but a prefix of the pages may stay mapped: the page tables are not
  rolled back. A range that ends at exactly 4 GiB is the exception: either the call fails with the areas and the page
  tables as they were, or the new area, whose end is 0, is in the list afterwards, even when the call reports a failure.
\<close>

theorem vm_map_correct:
  assumes "space_inv s F" and "vm_map True virt phys sz flags s = (r, s')"
  shows "vs_arch (snd s') = vs_arch (snd s) \<and> tables_ok s' F \<and>
    (if unat virt + unat sz = 2 ^ 32
     then (\<exists>e. r = Inl e) \<and> vs_vmas (snd s') = vs_vmas (snd s) \<and> kn_mm (fst s') = kn_mm (fst s) \<and> space_inv s' F
       \<or> vma_end (new_vma virt sz flags) = 0 \<and> (\<exists>p. (p, new_vma virt sz flags) \<in> set (vs_vmas (snd s')))
     else space_inv s' F \<and>
      (case r of
         Inr _ \<Rightarrow> range_mapped (vs_arch (snd s)) virt phys (unat sz) (kn_mm (fst s)) (kn_mm (fst s'))
           \<and> (\<forall>v\<in>set (vs_vmas (snd s)). \<forall>a. \<not> (in_vma a (snd v) \<and> in_vma a (new_vma virt sz flags)))
           \<and> (\<exists>p i. vs_vmas (snd s') = take i (vs_vmas (snd s)) @ (p, new_vma virt sz flags) # drop i (vs_vmas (snd s)))
       | Inl e \<Rightarrow> vs_vmas (snd s') = vs_vmas (snd s)
           \<and> (\<exists>m. 4096 * m \<le> unat sz \<and> range_mapped (vs_arch (snd s)) virt phys (4096 * m) (kn_mm (fst s)) (kn_mm (fst s')))))"
proof (cases "unat virt + unat sz = 2 ^ 32")
  case True
  show ?thesis unfolding if_P [OF True]
    using vm_map_tables [OF space_inv_tables [OF assms(1)] assms(2)] vm_map_wrap [OF assms(1) True assms(2)] by blast
next
  case False
  show ?thesis unfolding if_not_P [OF False]
    using vm_map_tables [OF space_inv_tables [OF assms(1)] assms(2)] vm_map_result [OF assms(1) False assms(2)] by blast
qed

text \<open>
  Unmapping succeeds exactly for the whole of one area: then the area is gone and none of its
  bytes is mapped, every other address translates as before. Every other request is refused and
  changes nothing, so that an area is never unmapped in part.
\<close>

theorem vm_unmap_exact:
  assumes inv: "space_inv s F" and sz: "sz \<noteq> 0" and fit: "unat virt + unat sz < 2 ^ 32"
    and run: "vm_unmap True virt sz s = (r, s')"
  shows "if \<exists>v. exact_vma (snd s) virt sz v
    then r = Inr () \<and> range_unmapped (vs_arch (snd s)) virt (unat sz) (kn_mm (fst s)) (kn_mm (fst s'))
      \<and> (\<exists>v. exact_vma (snd s) virt sz v \<and> vs_vmas (snd s') = remove1 v (vs_vmas (snd s)))
    else (\<exists>e. r = Inl e) \<and> s' = s"
proof (cases "\<exists>v. exact_vma (snd s) virt sz v")
  case True
  then obtain v where v: "exact_vma (snd s) virt sz v" by blast
  have res: "r = Inr ()" "vs_vmas (snd s') = remove1 v (vs_vmas (snd s))"
    "range_unmapped (vs_arch (snd s)) virt (unat sz) (kn_mm (fst s)) (kn_mm (fst s'))"
    using vm_unmap_result [OF inv v sz fit] run by simp_all
  have "\<exists>v. exact_vma (snd s) virt sz v \<and> vs_vmas (snd s') = remove1 v (vs_vmas (snd s))" using res v by blast
  with res True show ?thesis by simp
next
  case False
  then show ?thesis using no_exact_vma(1) [of s virt sz] run by auto
qed

text \<open>
  C30. The search for the area of an address, which stops at the first area that starts above it,
  agrees with looking through all areas for one that contains the address.
\<close>

theorem vm_find_vma_spec:
  assumes "vmas_ok (map snd (vs_vmas vm))"
  shows "vm_find_vma (Some vm) a = find (\<lambda>v. in_vma a (snd v)) (vs_vmas vm)"
proof (cases "VM_USER_END \<le> a")
  case False
  then show ?thesis using vma_search_find [OF assms] by (simp add: vm_find_vma_def)
next
  case True
  have "\<not> in_vma a (snd v)" if "v \<in> set (vs_vmas vm)" for v
    using assms that True by (auto simp: vmas_ok_def vma_ok_def in_vma_def word_le_nat_alt VM_USER_END_eq)
  then have "find (\<lambda>v. in_vma a (snd v)) (vs_vmas vm) = None" by (auto simp: find_None_iff)
  then show ?thesis using True by (simp add: vm_find_vma_def)
qed

text \<open>
  C39. The check of user ranges accepts exactly the non-empty ranges that end at or below the kernel, and
  one more: a range that ends at 4 GiB, whose end wraps around to 0. Such a range covers the whole
  kernel half.
\<close>

theorem vm_user_range_exact:
  "vm_user_range_valid virt sz \<longleftrightarrow> sz \<noteq> 0 \<and> unat virt < 0xC0000000 \<and>
     (unat virt + unat sz \<le> 0xC0000000 \<or> unat virt + unat sz = 2 ^ 32)"
  by (rule user_range_iff)

subsection \<open>Witnesses\<close>

definition vm0 :: vm_state where
  "vm0 = (kstk_sample, \<lparr>vs_vmas = [], vs_arch = \<lparr>pd_phys = 0\<rparr>\<rparr>)"

lemma vm0_heap: "heap_run (kn_kheap (fst vm0)) [] (kn_heap (fst vm0))"
  using sample_run by (simp add: vm0_def kstk_sample_def kern_sample_def)

lemma vm0_init:
  obtains s where "vm_space_init True vm0 = (Inr (), s)"
proof -
  obtain r s where run: "vm_space_init True vm0 = (r, s)" by (cases "vm_space_init True vm0")
  have inv: "kern_inv (fst vm0) 0" by (simp add: vm0_def kstk_sample_inv)
  have "frame_free (xm_pmm x86_sample) 288" by (simp add: sample_frame_free)
  then obtain a t where "vm_alloc_lowmem x86_sample = (Inr a, t)"
    using vm_alloc_lowmem_succeeds [OF sample_pmm_inv, of 288] by (auto simp: LOWMEM_FRAMES_def)
  then have "r \<noteq> Inl KERR_NOMEM"
    using run by (auto simp: vm_space_init_def kerr_try_def vm_x86_eq arch_vm_space_init_def vm0_def kstk_sample_def
        vm_kern_attach_def kzoom_def arch_vm_space_attach_kernel_def simp del: upt_rec_numeral)
  with vm_space_init_inv [OF inv vm0_heap run] run that show ?thesis by blast
qed

lemma vm0_reach:
  obtains s F where "vmm_reach False s" "space_inv s F" "vs_vmas (snd s) = []"
proof -
  obtain s where run: "vm_space_init True vm0 = (Inr (), s)" by (rule vm0_init)
  have inv: "kern_inv (fst vm0) 0" by (simp add: vm0_def kstk_sample_inv)
  from vm_space_init_inv [OF inv vm0_heap run] reach_init [OF inv vm0_heap run] that show ?thesis by blast
qed

theorem vmm_reach_inv_witness:
  "\<exists>s r s' F. vmm_reach False s \<and> vm_map True 0x400000 0x800000 0x2000 VM_USER s = (r, s') \<and> space_inv s' F"
proof -
  obtain s F where s: "vmm_reach False s" "space_inv s F" "vs_vmas (snd s) = []" by (rule vm0_reach)
  obtain r s' where run: "vm_map True 0x400000 0x800000 0x2000 VM_USER s = (r, s')"
    by (cases "vm_map True 0x400000 0x800000 0x2000 VM_USER s")
  have "vmm_reach False s'" by (rule reach_map [OF s(1) run]) simp
  from vmm_reach_inv [OF this] run s(1) show ?thesis by blast
qed

theorem vm_map_correct_witness:
  "\<exists>s r s' F. vm_map True 0x400000 0x800000 0x2000 VM_USER s = (r, s') \<and> space_inv s F \<and> space_inv s' F"
proof -
  obtain s F where s: "vmm_reach False s" "space_inv s F" "vs_vmas (snd s) = []" by (rule vm0_reach)
  obtain r s' where run: "vm_map True 0x400000 0x800000 0x2000 VM_USER s = (r, s')"
    by (cases "vm_map True 0x400000 0x800000 0x2000 VM_USER s")
  have "space_inv s' F" using vm_map_correct [OF s(2) run] by simp
  with run s(2) show ?thesis by blast
qed

theorem vm_unmap_exact_witness:
  "\<exists>s e F. space_inv s F \<and> vm_unmap True 0x400000 0x2000 s = (Inl e, s)"
proof -
  obtain s F where s: "vmm_reach False s" "space_inv s F" "vs_vmas (snd s) = []" by (rule vm0_reach)
  obtain r s' where run: "vm_unmap True 0x400000 0x2000 s = (r, s')" by (cases "vm_unmap True 0x400000 0x2000 s")
  have "\<nexists>v. exact_vma (snd s) 0x400000 0x2000 v" using s(3) by (simp add: exact_vma_def)
  then have "(\<exists>e. r = Inl e) \<and> s' = s" using vm_unmap_exact [OF s(2) _ _ run] by simp
  with run s(2) show ?thesis by blast
qed

theorem vm_find_vma_spec_witness:
  "\<exists>vm v. vm_find_vma (Some vm) 0x5123 = Some v \<and> fst v = 0x20"
proof -
  let ?vm = "\<lparr>vs_vmas = [(0x10, \<lparr>vma_start = 0x1000, vma_end = 0x3000, vma_flags = 0\<rparr>),
      (0x20, \<lparr>vma_start = 0x5000, vma_end = 0x6000, vma_flags = 0\<rparr>)], vs_arch = \<lparr>pd_phys = 0\<rparr>\<rparr>"
  have "vmas_ok (map snd (vs_vmas ?vm))" by (simp add: vmas_ok_def vma_ok_def)
  from vm_find_vma_spec [OF this, of "0x5123"]
  have "vm_find_vma (Some ?vm) 0x5123 = Some (0x20, \<lparr>vma_start = 0x5000, vma_end = 0x6000, vma_flags = 0\<rparr>)"
    by (simp add: in_vma_def)
  then show ?thesis by (metis fst_conv)
qed

end
