(* ===== verification/Klib_Memory.thy ===== *)
theory Klib_Memory
  imports Prelude
begin

text \<open>
  The memory and string routines of the kernel library
  (\<^verbatim>\<open>src/kernel/klib/memory.c\<close> and \<^verbatim>\<open>src/kernel/klib/string.c\<close>) on a store of bytes. Pointers
  are 32-bit addresses, so pointer arithmetic wraps around; a loop that runs up to a terminating zero
  byte need not end and is a partial function. The lemmas show what the routines do on buffers that
  may overlap and on strings that are terminated.
\<close>

type_synonym bytes = "u32 \<Rightarrow> u8"

subsection \<open>memory.c\<close>

definition memset :: "u32 \<Rightarrow> u8 \<Rightarrow> size_t \<Rightarrow> bytes \<Rightarrow> bytes" where
  "memset dst val n m = for_u32 0 n (\<lambda>i m. m(dst + i := val)) m"

definition memcpy :: "u32 \<Rightarrow> u32 \<Rightarrow> size_t \<Rightarrow> bytes \<Rightarrow> bytes" where
  "memcpy dst src n m = for_u32 0 n (\<lambda>i m. m(dst + i := m (src + i))) m"

definition memcmp :: "u32 \<Rightarrow> u32 \<Rightarrow> size_t \<Rightarrow> bytes \<Rightarrow> int" where
  "memcmp s1 s2 n m =
     (case find (\<lambda>i. m (s1 + i) \<noteq> m (s2 + i)) (words_upto 0 n) of
        Some i \<Rightarrow> uint (m (s1 + i)) - uint (m (s2 + i))
      | None \<Rightarrow> 0)"

text \<open>The second loop of \<open>memmove\<close> counts down: it visits the indices in the reverse order.\<close>

definition memmove :: "u32 \<Rightarrow> u32 \<Rightarrow> size_t \<Rightarrow> bytes \<Rightarrow> bytes" where
  "memmove d s n m =
     (if d = s then m
      else if d < s then for_u32 0 n (\<lambda>i m. m(d + i := m (s + i))) m
      else fold (\<lambda>i m. m(d + i := m (s + i))) (rev (words_upto 0 n)) m)"

definition memchr :: "u32 \<Rightarrow> u8 \<Rightarrow> size_t \<Rightarrow> bytes \<Rightarrow> u32 option" where
  "memchr src val n m = map_option (\<lambda>i. src + i) (find (\<lambda>i. m (src + i) = val) (words_upto 0 n))"

subsection \<open>string.c\<close>

text \<open>The walk to the terminating zero byte.\<close>

partial_function (option) str_end :: "bytes \<Rightarrow> u32 \<Rightarrow> u32 option" where
  "str_end m s = (if m s = 0 then Some s else str_end m (s + 1))"

definition strlen :: "u32 \<Rightarrow> bytes \<Rightarrow> size_t option" where
  "strlen str m = map_option (\<lambda>s. s - str) (str_end m str)"

partial_function (option) strcmp :: "u32 \<Rightarrow> u32 \<Rightarrow> bytes \<Rightarrow> int option" where
  "strcmp str1 str2 m =
     (if m str1 \<noteq> 0 \<and> m str1 = m str2 then strcmp (str1 + 1) (str2 + 1) m
      else Some (uint (m str1) - uint (m str2)))"

fun strncmp_loop :: "nat \<Rightarrow> u32 \<Rightarrow> u32 \<Rightarrow> bytes \<Rightarrow> int" where
  "strncmp_loop 0 str1 str2 m = 0"
| "strncmp_loop (Suc n) str1 str2 m =
     (if m str1 \<noteq> 0 \<and> m str1 = m str2 then strncmp_loop n (str1 + 1) (str2 + 1) m
      else uint (m str1) - uint (m str2))"

definition strncmp :: "u32 \<Rightarrow> u32 \<Rightarrow> size_t \<Rightarrow> bytes \<Rightarrow> int" where
  "strncmp str1 str2 n m = strncmp_loop (unat n) str1 str2 m"

definition strcpy :: "u32 \<Rightarrow> u32 \<Rightarrow> bytes \<Rightarrow> bytes option" where
  "strcpy dst src m = map_option (\<lambda>len. memcpy dst src (len + 1) m) (strlen src m)"

fun strncpy_fill :: "nat \<Rightarrow> u32 \<Rightarrow> bytes \<Rightarrow> bytes" where
  "strncpy_fill 0 dst m = m"
| "strncpy_fill (Suc n) dst m = strncpy_fill n (dst + 1) (m(dst := 0))"

fun strncpy_loop :: "nat \<Rightarrow> u32 \<Rightarrow> u32 \<Rightarrow> bytes \<Rightarrow> bytes" where
  "strncpy_loop 0 dst src m = m"
| "strncpy_loop (Suc n) dst src m =
     (if m src \<noteq> 0 then strncpy_loop n (dst + 1) (src + 1) (m(dst := m src))
      else strncpy_fill (Suc n) dst m)"

definition strncpy :: "u32 \<Rightarrow> u32 \<Rightarrow> size_t \<Rightarrow> bytes \<Rightarrow> bytes" where
  "strncpy dst src n m = strncpy_loop (unat n) dst src m"

text \<open>The result of \<open>strchr\<close> and \<open>strrchr\<close> is \<open>Some None\<close> for the NULL pointer.\<close>

partial_function (option) strchr :: "u32 \<Rightarrow> u8 \<Rightarrow> bytes \<Rightarrow> u32 option option" where
  "strchr str c m =
     (if m str = 0 then Some (if c = 0 then Some str else None)
      else if m str = c then Some (Some str)
      else strchr (str + 1) c m)"

partial_function (option) strrchr_loop :: "u32 \<Rightarrow> u8 \<Rightarrow> bytes \<Rightarrow> u32 option \<Rightarrow> u32 option option" where
  "strrchr_loop str c m found =
     (if m str = 0 then Some (if c = 0 then Some str else found)
      else strrchr_loop (str + 1) c m (if m str = c then Some str else found))"

definition strrchr :: "u32 \<Rightarrow> u8 \<Rightarrow> bytes \<Rightarrow> u32 option option" where
  "strrchr str c m = strrchr_loop str c m None"

subsection \<open>Copying\<close>

text \<open>
  A copying loop that visits the indices \<open>xs\<close> in that order: when no byte is written before it is
  read, the result is the simultaneous copy.
\<close>

lemma copy_fold:
  fixes m :: bytes
  assumes "sorted_wrt (\<lambda>i j. dst + i \<noteq> src + j) xs" and "distinct xs"
  shows "fold (\<lambda>i m. m(dst + i := m (src + i))) xs m = (\<lambda>a. if a - dst \<in> set xs then m (src + (a - dst)) else m a)"
  using assms
proof (induction xs arbitrary: m)
  case (Cons i xs)
  let ?m = "m(dst + i := m (src + i))"
  have later: "?m (src + j) = m (src + j)" if "j \<in> set xs" for j
  proof -
    have "dst + i \<noteq> src + j" using Cons.prems(1) that unfolding sorted_wrt.simps by blast
    from fun_upd_other [OF this [symmetric]] show ?thesis .
  qed
  have IH: "fold (\<lambda>i m. m(dst + i := m (src + i))) xs ?m = (\<lambda>a. if a - dst \<in> set xs then ?m (src + (a - dst)) else ?m a)"
    by (rule Cons.IH) (use Cons.prems in auto)
  have "(if a - dst \<in> set xs then ?m (src + (a - dst)) else ?m a)
      = (if a - dst \<in> set (i # xs) then m (src + (a - dst)) else m a)" for a
  proof (cases "a - dst \<in> set xs")
    case True
    then show ?thesis using later [OF True] by (simp del: fun_upd_apply)
  next
    case False
    have "a - dst = i \<longleftrightarrow> a = dst + i" by (simp add: diff_eq_eq add.commute)
    with False show ?thesis by simp
  qed
  then show ?case by (simp only: fold_simps IH)
qed simp

lemma distinct_words_upto: "distinct (words_upto a b)"
proof -
  have "inj_on (of_nat :: nat \<Rightarrow> u32) {unat a..<unat b}"
  proof (rule inj_onI)
    fix i j assume "i \<in> {unat a..<unat b}" "j \<in> {unat a..<unat b}" and eq: "(of_nat i :: u32) = of_nat j"
    then have "i < 2 ^ 32" "j < 2 ^ 32" using unat32_lt_pow [of b] by (auto simp del: unat32_lt)
    then have "unat (of_nat i :: u32) = i" "unat (of_nat j :: u32) = j" by (simp_all add: unat_of_nat_small)
    with eq show "i = j" by metis
  qed
  then show ?thesis by (simp add: words_upto_def distinct_map)
qed

lemma sorted_words_upto: "sorted_wrt (<) (words_upto a b)"
proof -
  have "sorted_wrt (\<lambda>i j. (of_nat i :: u32) < of_nat j) [unat a..<unat b]"
  proof (rule sorted_wrt_mono_rel [OF _ sorted_wrt_upt])
    fix i j assume ij: "i \<in> set [unat a..<unat b]" "j \<in> set [unat a..<unat b]" "i < j"
    then have "i < 2 ^ 32" "j < 2 ^ 32" using unat32_lt_pow [of b] by (auto simp del: unat32_lt)
    then show "(of_nat i :: u32) < of_nat j" using ij(3) by (simp add: word_less_nat_alt unat_of_nat_small)
  qed
  then show ?thesis by (simp add: words_upto_def sorted_wrt_map)
qed

definition fits :: "u32 \<Rightarrow> size_t \<Rightarrow> bool" where
  "fits p n \<longleftrightarrow> unat p + unat n \<le> 2 ^ 32"

lemma fits_add: "fits p n \<Longrightarrow> i < n \<Longrightarrow> unat (p + i) = unat p + unat i"
  by (rule unat_add_nowrap) (simp add: fits_def word_less_nat_alt)

text \<open>
  What a copy that behaves as if the source were read at once leaves in memory.
\<close>

definition copied :: "u32 \<Rightarrow> u32 \<Rightarrow> size_t \<Rightarrow> bytes \<Rightarrow> bytes" where
  "copied dst src n m = (\<lambda>a. if a - dst < n then m (src + (a - dst)) else m a)"

lemma forward_copy:
  assumes "\<forall>i<n. \<forall>j<n. i < j \<longrightarrow> dst + i \<noteq> src + j"
  shows "for_u32 0 n (\<lambda>i m. m(dst + i := m (src + i))) m = copied dst src n m"
proof -
  have "sorted_wrt (\<lambda>i j. dst + i \<noteq> src + j) (words_upto 0 n)"
    using assms by (intro sorted_wrt_mono_rel [OF _ sorted_words_upto]) auto
  from copy_fold [OF this distinct_words_upto] show ?thesis by (simp add: for_u32_def copied_def)
qed

lemma memcpy_disjoint:
  assumes "\<forall>i<n. \<forall>j<n. dst + i \<noteq> src + j"
  shows "memcpy dst src n m = copied dst src n m"
  unfolding memcpy_def by (rule forward_copy) (use assms in blast)

lemma memset_eq: "memset dst val n m = (\<lambda>a. if a - dst < n then val else m a)"
proof -
  have "fold (\<lambda>i m. m(dst + i := val)) xs m = (\<lambda>a. if a - dst \<in> set xs then val else m a)" for xs
    by (induction xs arbitrary: m) (auto simp: fun_eq_iff algebra_simps)
  then show ?thesis by (simp add: memset_def for_u32_def)
qed

lemma memmove_eq:
  assumes d: "fits dst n" and s: "fits src n"
  shows "memmove dst src n m = copied dst src n m"
proof -
  have neq: "dst + i \<noteq> src + j" if "i < n" "j < n" "dst < src \<and> i < j \<or> src < dst \<and> j < i" for i j
  proof -
    have "unat (dst + i) \<noteq> unat (src + j)"
      using that fits_add [OF d that(1)] fits_add [OF s that(2)] by (auto simp: word_less_nat_alt)
    then show ?thesis by auto
  qed
  consider "dst = src" | "dst < src" | "src < dst" by (rule linorder_cases)
  then show ?thesis
  proof cases
    case 1
    then show ?thesis by (simp add: memmove_def copied_def fun_eq_iff)
  next
    case 2
    then have "dst \<noteq> src" by auto
    with 2 show ?thesis using forward_copy [of n dst src m] neq by (simp add: memmove_def)
  next
    case 3
    have "sorted_wrt (\<lambda>j i. j < i) (words_upto 0 n)" by (rule sorted_words_upto)
    then have "sorted_wrt (\<lambda>j i. dst + i \<noteq> src + j) (words_upto 0 n)"
      by (rule sorted_wrt_mono_rel [rotated]) (use 3 neq in auto)
    then have "sorted_wrt (\<lambda>i j. dst + i \<noteq> src + j) (rev (words_upto 0 n))" by (simp add: sorted_wrt_rev)
    from copy_fold [OF this, of m] have "fold (\<lambda>i m. m(dst + i := m (src + i))) (rev (words_upto 0 n)) m = copied dst src n m"
      by (simp add: copied_def distinct_words_upto)
    moreover have "dst \<noteq> src" "\<not> dst < src" using 3 by auto
    ultimately show ?thesis by (simp add: memmove_def)
  qed
qed

subsection \<open>Terminated strings\<close>

text \<open>The bytes of the string at an address, up to the terminating zero.\<close>

fun cstr :: "bytes \<Rightarrow> u32 \<Rightarrow> u8 list \<Rightarrow> bool" where
  "cstr m p [] \<longleftrightarrow> m p = 0"
| "cstr m p (b # bs) \<longleftrightarrow> m p = b \<and> b \<noteq> 0 \<and> cstr m (p + 1) bs"

lemma str_end_cstr: "cstr m p bs \<Longrightarrow> str_end m p = Some (p + of_nat (length bs))"
  by (induction bs arbitrary: p) (simp_all add: str_end.simps algebra_simps)

lemma strlen_cstr: "cstr m p bs \<Longrightarrow> strlen p m = Some (of_nat (length bs))"
  by (simp add: strlen_def str_end_cstr)

lemma cstr_nth:
  "cstr m p bs \<longleftrightarrow> (\<forall>i<length bs. m (p + of_nat i) = bs ! i \<and> bs ! i \<noteq> 0) \<and> m (p + of_nat (length bs)) = 0"
proof (induction bs arbitrary: p)
  case (Cons b bs)
  show ?case
    by (simp add: Cons.IH All_less_Suc2 algebra_simps nth_Cons' del: of_nat_Suc)
      (auto simp: algebra_simps)
qed simp

lemma strcmp_go: "m a \<noteq> 0 \<Longrightarrow> m a = m b \<Longrightarrow> strcmp a b m = strcmp (a + 1) (b + 1) m"
  by (simp add: strcmp.simps [of a])

lemma strcmp_stop: "m a = 0 \<or> m a \<noteq> m b \<Longrightarrow> strcmp a b m = Some (uint (m a) - uint (m b))"
  by (subst strcmp.simps) auto

lemma strcmp_cstr:
  assumes "cstr m a xs" and "cstr m b ys"
  shows "\<exists>r. strcmp a b m = Some r \<and> (r = 0 \<longleftrightarrow> xs = ys) \<and> (r < 0 \<longleftrightarrow> (xs, ys) \<in> lexord {(c, d). c < d})"
  using assms
proof (induction xs arbitrary: a b ys)
  case Nil
  have r: "strcmp a b m = Some (uint (m a) - uint (m b))" by (rule strcmp_stop) (use Nil in simp)
  have "m b = 0 \<longleftrightarrow> ys = []" using Nil by (cases ys) auto
  moreover have "0 < uint (m b) \<longleftrightarrow> m b \<noteq> 0" using uint_ge_0 [of "m b"] by (auto simp: order_le_less uint_0_iff)
  ultimately show ?case using r Nil by (cases ys) auto
next
  case (Cons x xs)
  show ?case
  proof (cases "\<exists>ys'. ys = x # ys'")
    case True
    then obtain ys' where ys: "ys = x # ys'" by blast
    then obtain r where "strcmp (a + 1) (b + 1) m = Some r" "r = 0 \<longleftrightarrow> xs = ys'"
      "r < 0 \<longleftrightarrow> (xs, ys') \<in> lexord {(c, d). c < d}"
      using Cons.IH [of "a + 1" "b + 1" ys'] Cons.prems by auto
    moreover have "strcmp a b m = strcmp (a + 1) (b + 1) m" by (rule strcmp_go) (use ys Cons.prems in auto)
    ultimately show ?thesis using ys by simp
  next
    case False
    have b: "m b \<noteq> x" "m b = 0 \<longleftrightarrow> ys = []" using False Cons.prems by (cases ys; auto)+
    have r: "strcmp a b m = Some (uint (m a) - uint (m b))" by (rule strcmp_stop) (use b Cons.prems in simp)
    have lt: "uint (m b) \<noteq> uint x" "m b < x \<longleftrightarrow> uint (m b) < uint x" using b(1) by (auto simp: word_less_def word_uint_eq_iff)
    show ?thesis
    proof (cases ys)
      case Nil
      then have "m b = 0" "0 < uint x" using b(2) lt(1) uint_ge_0 [of x] by (auto simp: order_le_less)
      then show ?thesis using r Nil Cons.prems(1) by simp
    next
      case ys: (Cons y ys')
      then have y: "y = m b" "x \<noteq> y" "x < y \<longleftrightarrow> uint x < uint y" using Cons.prems(2) b(1) by (auto simp: word_less_def)
      then show ?thesis using r ys Cons.prems(1) lt(1) by simp
    qed
  qed
qed

lemma strcpy_cstr:
  assumes str: "cstr m src bs" and d: "unat dst + length bs < 2 ^ 32" and s: "unat src + length bs < 2 ^ 32"
    and apart: "unat dst + length bs < unat src \<or> unat src + length bs < unat dst"
  shows "\<exists>m'. strcpy dst src m = Some m' \<and> cstr m' dst bs \<and> cstr m' src bs
    \<and> (\<forall>a. unat a < unat dst \<or> unat dst + length bs < unat a \<longrightarrow> m' a = m a)"
proof -
  have len: "length bs + 1 < 2 ^ 32" using d s apart by linarith
  let ?n = "of_nat (length bs) + 1 :: u32"
  have "?n = of_nat (length bs + 1)" by simp
  then have n: "unat ?n = length bs + 1" using unat_of_nat_small [of "length bs + 1", where 'a=32] len by (simp only: len_bit0 len_num1) simp
  then have fd: "fits dst ?n" and fs: "fits src ?n" using d s by (simp_all add: fits_def)
  have "dst + i \<noteq> src + j" if "i < ?n" "j < ?n" for i j
    using fits_add [OF fd that(1)] fits_add [OF fs that(2)] that n apart by (auto simp: word_less_nat_alt)
  then have run: "strcpy dst src m = Some (copied dst src ?n m)"
    using strlen_cstr [OF str] memcpy_disjoint [of ?n dst src m] by (simp add: strcpy_def)
  have at: "copied dst src ?n m (dst + of_nat i) = m (src + of_nat i)" if "i \<le> length bs" for i
    using that len n by (simp add: copied_def word_less_nat_alt unat_of_nat_small)
  have outside: "copied dst src ?n m a = m a" if "unat a < unat dst \<or> unat dst + length bs < unat a" for a
  proof -
    have "\<not> a - dst < ?n"
    proof
      assume lt: "a - dst < ?n"
      then have "unat (dst + (a - dst)) = unat dst + unat (a - dst)" by (rule fits_add [OF fd])
      then show False using that lt n by (auto simp: word_less_nat_alt)
    qed
    then show ?thesis by (simp add: copied_def)
  qed
  have src: "copied dst src ?n m (src + of_nat i) = m (src + of_nat i)" if "i \<le> length bs" for i
  proof -
    have i: "unat (of_nat i :: u32) = i" using that len by (simp add: unat_of_nat_small)
    have "unat (src + of_nat i) = unat src + i" using that s i by (subst unat_add_nowrap) simp_all
    then show ?thesis using that apart by (intro outside) auto
  qed
  have "cstr (copied dst src ?n m) dst bs" "cstr (copied dst src ?n m) src bs"
    using str at src by (simp_all add: cstr_nth)
  with run outside show ?thesis by blast
qed

subsection \<open>The claims\<close>

text \<open>
  \<open>memmove\<close> on two buffers that may overlap: afterwards the destination holds the bytes that
  the source held before the call, and no other byte has changed.
\<close>

theorem memmove_correct:
  assumes "unat dst + unat n \<le> 2 ^ 32" and "unat src + unat n \<le> 2 ^ 32"
  shows "(\<forall>i<n. memmove dst src n m (dst + i) = m (src + i)) \<and>
    (\<forall>a. unat a < unat dst \<or> unat dst + unat n \<le> unat a \<longrightarrow> memmove dst src n m a = m a)"
proof -
  have fit: "fits dst n" "fits src n" using assms by (simp_all add: fits_def)
  have "\<not> a - dst < n" if "unat a < unat dst \<or> unat dst + unat n \<le> unat a" for a
    using fits_add [OF fit(1), of "a - dst"] that by (auto simp: word_less_nat_alt)
  then show ?thesis by (simp add: memmove_eq [OF fit] copied_def)
qed

text \<open>
  \<open>strcmp\<close> of two terminated strings returns; its result is 0 exactly when the strings are
  equal and negative exactly when the first comes first in the lexicographic order of their bytes.
\<close>

theorem strcmp_correct:
  assumes "cstr m a xs" and "cstr m b ys"
  shows "\<exists>r. strcmp a b m = Some r \<and> (r = 0 \<longleftrightarrow> xs = ys) \<and> (r < 0 \<longleftrightarrow> (xs, ys) \<in> lexord {(c, d). c < d})"
  using assms by (rule strcmp_cstr)

definition bytes_sample :: bytes where
  "bytes_sample = (\<lambda>_. 0)(0x10 := 0x61, 0x11 := 0x62, 0x20 := 0x61, 0x21 := 0x63)"

theorem memmove_correct_witness:
  "memmove 0x11 0x10 2 bytes_sample 0x11 = 0x61 \<and> memmove 0x11 0x10 2 bytes_sample 0x12 = 0x62"
  using memmove_correct [of "0x11" 2 "0x10" bytes_sample]
  by (auto simp: bytes_sample_def dest: spec [of _ 0] spec [of _ 1])

theorem strcmp_correct_witness: "\<exists>r<0. strcmp 0x10 0x20 bytes_sample = Some r"
  using strcmp_correct [of bytes_sample "0x10" "[0x61, 0x62]" "0x20" "[0x61, 0x63]"]
  by (auto simp: bytes_sample_def)

end
