(* ===== verification/Klib_Ringbuf.thy ===== *)
theory Klib_Ringbuf
  imports Prelude
begin

text \<open>
  The byte ring buffer of the kernel library (\<^verbatim>\<open>src/kernel/klib/ringbuf.c\<close>) and the
  system log that is kept in one (\<^verbatim>\<open>src/kernel/log/syslog.c\<close>). The positions grow
  without bound and wrap around at 32 bits; the index is their low bits. The interface of the buffer is
  the locale of bounded queues that drop their oldest element, the log relies on it only.
\<close>

subsection \<open>ringbuf.c\<close>

record ringbuf =
  rb_buf :: "u8 list"
  rb_cap :: size_t
  rb_head :: size_t
  rb_tail :: size_t

definition ringbuf_init :: "u8 list \<Rightarrow> size_t \<Rightarrow> ringbuf" where
  "ringbuf_init storage cap = \<lparr>rb_buf = storage, rb_cap = cap, rb_head = 0, rb_tail = 0\<rparr>"

definition ringbuf_is_empty :: "ringbuf \<Rightarrow> bool" where
  "ringbuf_is_empty rb \<longleftrightarrow> rb_head rb = rb_tail rb"

definition ringbuf_len :: "ringbuf \<Rightarrow> size_t" where
  "ringbuf_len rb = rb_head rb - rb_tail rb"

definition ringbuf_is_full :: "ringbuf \<Rightarrow> bool" where
  "ringbuf_is_full rb \<longleftrightarrow> rb_head rb - rb_tail rb = rb_cap rb"

definition ringbuf_available :: "ringbuf \<Rightarrow> size_t" where
  "ringbuf_available rb = rb_cap rb - (rb_head rb - rb_tail rb)"

definition ringbuf_overwrite :: "u8 \<Rightarrow> ringbuf \<Rightarrow> ringbuf" where
  "ringbuf_overwrite data rb =
     (let rb = (if ringbuf_is_full rb then rb\<lparr>rb_tail := rb_tail rb + 1\<rparr> else rb);
          rb = rb\<lparr>rb_buf := (rb_buf rb)[unat (rb_head rb AND (rb_cap rb - 1)) := data]\<rparr>
      in rb\<lparr>rb_head := rb_head rb + 1\<rparr>)"

definition ringbuf_push :: "u8 \<Rightarrow> ringbuf \<Rightarrow> bool \<times> ringbuf" where
  "ringbuf_push data rb = (if ringbuf_is_full rb then (False, rb) else (True, ringbuf_overwrite data rb))"

text \<open>The output pointer is \<open>None\<close> when it is NULL and otherwise the byte it points to.\<close>

definition ringbuf_pop :: "u8 option \<Rightarrow> ringbuf \<Rightarrow> bool \<times> u8 option \<times> ringbuf" where
  "ringbuf_pop data rb =
     (if ringbuf_is_empty rb then (False, data, rb)
      else (True, map_option (\<lambda>_. rb_buf rb ! unat (rb_tail rb AND (rb_cap rb - 1))) data,
            rb\<lparr>rb_tail := rb_tail rb + 1\<rparr>))"

definition ringbuf_peek :: "size_t \<Rightarrow> u8 option \<Rightarrow> ringbuf \<Rightarrow> bool \<times> u8 option" where
  "ringbuf_peek index data rb =
     (if ringbuf_len rb \<le> index then (False, data)
      else let calc_idx = (rb_tail rb + index) AND (rb_cap rb - 1)
           in (True, map_option (\<lambda>_. rb_buf rb ! unat calc_idx) data))"

subsection \<open>The queue that a ring buffer holds\<close>

definition rb_ok :: "nat \<Rightarrow> ringbuf \<Rightarrow> bool" where
  "rb_ok k rb \<longleftrightarrow> k < 32 \<and> rb_cap rb = 2 ^ k \<and> length (rb_buf rb) = 2 ^ k \<and> unat (ringbuf_len rb) \<le> 2 ^ k"

definition rb_seq :: "ringbuf \<Rightarrow> u8 list" where
  "rb_seq rb = map (\<lambda>i. rb_buf rb ! ((unat (rb_tail rb) + i) mod unat (rb_cap rb))) [0..<unat (ringbuf_len rb)]"

lemma unat_pow_cap: "k < 32 \<Longrightarrow> unat (2 ^ k :: u32) = 2 ^ k"
  using unat_of_nat_small [of "2 ^ k", where 'a=32] power_strict_increasing [of k 32 "2::nat"] by simp

lemma ring_index: "k < 32 \<Longrightarrow> unat (x AND (2 ^ k - 1) :: u32) = unat x mod 2 ^ k"
  by (simp add: mask_eq_exp_minus_1 [symmetric] take_bit_eq_mask [symmetric] take_bit_eq_mod unat_mod unat_pow_cap)

lemma ring_index_add:
  assumes "k < 32"
  shows "unat (x + y :: u32) mod 2 ^ k = (unat x + unat y) mod 2 ^ k"
proof -
  have "(2::nat) ^ k dvd 2 ^ 32" using assms by (intro le_imp_power_dvd) simp
  then show ?thesis by (simp only: unat_word_ariths len_bit0 len_num1) (simp add: mod_mod_cancel)
qed

lemma ring_mod_neq: "i < j \<Longrightarrow> j - i < c \<Longrightarrow> (t + i) mod c \<noteq> (t + j) mod (c::nat)"
proof
  assume ij: "i < j" "j - i < c" and eq: "(t + i) mod c = (t + j) mod c"
  then have "c dvd (t + j) - (t + i)" using mod_eq_dvd_iff_nat [of "t + i" "t + j" c] by simp
  then have "c dvd j - i" by simp
  then show False using ij by (auto dest: dvd_imp_le)
qed

lemma rb_seq_length [simp]: "length (rb_seq rb) = unat (ringbuf_len rb)"
  by (simp add: rb_seq_def)

lemma rb_full_iff: "rb_ok k rb \<Longrightarrow> ringbuf_is_full rb \<longleftrightarrow> length (rb_seq rb) = 2 ^ k"
  by (auto simp: rb_ok_def ringbuf_is_full_def ringbuf_len_def unat_pow_cap word_unat_eq_iff)

lemma rb_head_slot:
  assumes "rb_ok k rb"
  shows "unat (rb_head rb AND (rb_cap rb - 1)) = (unat (rb_tail rb) + unat (ringbuf_len rb)) mod 2 ^ k"
proof -
  have k: "k < 32" "rb_cap rb = 2 ^ k" using assms by (auto simp: rb_ok_def)
  have "rb_head rb = rb_tail rb + ringbuf_len rb" by (simp add: ringbuf_len_def)
  then show ?thesis using ring_index [OF k(1)] ring_index_add [OF k(1)] k(2) by metis
qed

text \<open>Dropping the oldest byte, and writing one into a buffer that is not full.\<close>

lemma rb_drop:
  assumes ok: "rb_ok k rb" and ne: "ringbuf_len rb \<noteq> 0"
  shows "rb_ok k (rb\<lparr>rb_tail := rb_tail rb + 1\<rparr>) \<and> rb_seq (rb\<lparr>rb_tail := rb_tail rb + 1\<rparr>) = tl (rb_seq rb)"
proof -
  have k: "k < 32" "rb_cap rb = 2 ^ k" using ok by (auto simp: rb_ok_def)
  let ?rb = "rb\<lparr>rb_tail := rb_tail rb + 1\<rparr>"
  have "ringbuf_len ?rb = ringbuf_len rb - 1" by (simp add: ringbuf_len_def)
  then have len: "unat (ringbuf_len ?rb) = unat (ringbuf_len rb) - 1"
    using ne by (simp add: unat_sub_nowrap unat_gt_0 Suc_leI)
  have slot: "(unat (rb_tail rb + 1) + i) mod 2 ^ k = (unat (rb_tail rb) + Suc i) mod 2 ^ k" for i
  proof -
    have "(unat (rb_tail rb + 1) + i) mod 2 ^ k = (unat (rb_tail rb + 1) mod 2 ^ k + i) mod 2 ^ k" by (simp add: mod_add_left_eq)
    also have "\<dots> = ((unat (rb_tail rb) + 1) mod 2 ^ k + i) mod 2 ^ k" using ring_index_add [OF k(1), of "rb_tail rb" 1] by simp
    finally show ?thesis by (simp add: mod_add_left_eq)
  qed
  have "rb_seq ?rb ! i = rb_seq rb ! Suc i" if "i < unat (ringbuf_len rb) - 1" for i
    using that by (simp add: len rb_seq_def slot k unat_pow_cap less_diff_conv)
  then have "rb_seq ?rb = tl (rb_seq rb)" by (intro nth_equalityI) (simp_all add: len nth_tl)
  then show ?thesis using ok len by (auto simp: rb_ok_def)
qed

lemma rb_add:
  assumes ok: "rb_ok k rb" and room: "unat (ringbuf_len rb) < 2 ^ k"
    and rb': "rb' = rb\<lparr>rb_buf := (rb_buf rb)[unat (rb_head rb AND (rb_cap rb - 1)) := data], rb_head := rb_head rb + 1\<rparr>"
  shows "rb_ok k rb' \<and> rb_seq rb' = rb_seq rb @ [data]"
proof -
  have k: "k < 32" "rb_cap rb = 2 ^ k" "length (rb_buf rb) = 2 ^ k" using ok by (auto simp: rb_ok_def)
  let ?n = "unat (ringbuf_len rb)" and ?t = "unat (rb_tail rb)"
  have "ringbuf_len rb' = ringbuf_len rb + 1" by (simp add: rb' ringbuf_len_def)
  moreover have "(2::nat) ^ k < 2 ^ 32" using k(1) by (intro power_strict_increasing) simp_all
  ultimately have len: "unat (ringbuf_len rb') = ?n + 1" using room by (simp add: unat_add_nowrap)
  have "rb_seq rb' ! i = (rb_seq rb @ [data]) ! i" if i: "i < ?n + 1" for i
  proof (cases "i < ?n")
    case True
    then have "(?t + i) mod 2 ^ k \<noteq> (?t + ?n) mod 2 ^ k" using room by (intro ring_mod_neq) auto
    then show ?thesis using True len rb_head_slot [OF ok] k by (simp add: rb_seq_def rb' nth_append unat_pow_cap del: upt_Suc)
  next
    case False
    then have "i = ?n" using i by simp
    then show ?thesis using len rb_head_slot [OF ok] k
      by (simp add: rb_seq_def rb' nth_append unat_pow_cap del: upt_Suc)
  qed
  then have "rb_seq rb' = rb_seq rb @ [data]" by (intro nth_equalityI) (simp_all add: len)
  then show ?thesis using ok room len by (simp add: rb_ok_def rb')
qed

lemma rb_init:
  assumes "k < 32" and "length storage = 2 ^ k"
  shows "rb_ok k (ringbuf_init storage (2 ^ k)) \<and> rb_seq (ringbuf_init storage (2 ^ k)) = []"
  using assms by (simp add: rb_ok_def rb_seq_def ringbuf_init_def ringbuf_len_def)

lemma rb_overwrite:
  assumes ok: "rb_ok k rb"
  shows "rb_ok k (ringbuf_overwrite data rb) \<and>
    rb_seq (ringbuf_overwrite data rb) = (if length (rb_seq rb) = 2 ^ k then tl (rb_seq rb) else rb_seq rb) @ [data]"
proof (cases "ringbuf_is_full rb")
  case True
  let ?rb = "rb\<lparr>rb_tail := rb_tail rb + 1\<rparr>"
  have full: "length (rb_seq rb) = 2 ^ k" using True rb_full_iff [OF ok] by simp
  then have "ringbuf_len rb \<noteq> 0" by auto
  from rb_drop [OF ok this] have d: "rb_ok k ?rb" "rb_seq ?rb = tl (rb_seq rb)" by auto
  moreover have "length (tl (rb_seq rb)) < 2 ^ k" using full by simp
  ultimately have "unat (ringbuf_len ?rb) < 2 ^ k" by (metis rb_seq_length)
  from rb_add [OF d(1) this refl, of data] show ?thesis
    using True full d(2) by (simp add: ringbuf_overwrite_def Let_def)
next
  case False
  then have "unat (ringbuf_len rb) < 2 ^ k" using ok rb_full_iff [OF ok] by (auto simp: rb_ok_def)
  from rb_add [OF ok this refl, of data] False show ?thesis
    using rb_full_iff [OF ok] by (simp add: ringbuf_overwrite_def Let_def)
qed

lemma rb_pop:
  assumes ok: "rb_ok k rb"
  shows "ringbuf_pop data rb =
    (case rb_seq rb of [] \<Rightarrow> (False, data, rb) | b # _ \<Rightarrow> (True, map_option (\<lambda>_. b) data, rb\<lparr>rb_tail := rb_tail rb + 1\<rparr>))"
proof -
  have k: "k < 32" "rb_cap rb = 2 ^ k" using ok by (auto simp: rb_ok_def)
  have e: "ringbuf_is_empty rb \<longleftrightarrow> rb_seq rb = []"
    using rb_seq_length [of rb] unfolding ringbuf_is_empty_def ringbuf_len_def by (metis length_0_conv right_minus_eq unat_eq_0)
  show ?thesis
  proof (cases "rb_seq rb")
    case Nil
    then show ?thesis using e by (simp add: ringbuf_pop_def)
  next
    case (Cons b bs)
    then have "0 < unat (ringbuf_len rb)" using rb_seq_length [of rb] by simp
    then have "rb_seq rb ! 0 = rb_buf rb ! (unat (rb_tail rb) mod 2 ^ k)" using k by (simp add: rb_seq_def unat_pow_cap)
    then show ?thesis using Cons e k ring_index [OF k(1)] by (simp add: ringbuf_pop_def)
  qed
qed

lemma rb_peek:
  assumes ok: "rb_ok k rb"
  shows "ringbuf_peek i data rb =
    (if unat i < length (rb_seq rb) then (True, map_option (\<lambda>_. rb_seq rb ! unat i) data) else (False, data))"
proof -
  have k: "k < 32" "rb_cap rb = 2 ^ k" using ok by (auto simp: rb_ok_def)
  show ?thesis using ring_index [OF k(1)] ring_index_add [OF k(1), of "rb_tail rb" i] k
    by (auto simp: ringbuf_peek_def rb_seq_def unat_pow_cap word_le_nat_alt)
qed

subsection \<open>The interface\<close>

text \<open>
  A bounded queue whose write never fails: when it is full the oldest element gives way. What clients
  rely on: the write, the look at an element, and the number of elements.
\<close>

locale overwrite_queue =
  fixes ok :: "'s \<Rightarrow> bool" and elems :: "'s \<Rightarrow> 'a list" and bound :: nat
    and put :: "'a \<Rightarrow> 's \<Rightarrow> 's" and look :: "nat \<Rightarrow> 's \<Rightarrow> 'a option"
  assumes put_ok: "ok s \<Longrightarrow> ok (put x s)"
    and put_elems: "ok s \<Longrightarrow> elems (put x s) = (if length (elems s) = bound then tl (elems s) else elems s) @ [x]"
    and bounded: "ok s \<Longrightarrow> length (elems s) \<le> bound"
    and look_elems: "ok s \<Longrightarrow> look i s = (if i < length (elems s) then Some (elems s ! i) else None)"
begin

lemma put_last: "ok s \<Longrightarrow> 0 < bound \<Longrightarrow> elems (put x s) = drop (length (elems s) + 1 - bound) (elems s @ [x])"
  using put_elems [of s x] bounded [of s] by (auto simp: tl_drop drop_Suc)

lemma fold_put_ok: "ok s \<Longrightarrow> ok (fold put xs s)"
  by (induction xs arbitrary: s) (auto intro: put_ok)

text \<open>Writing a sequence keeps the last elements of all that was ever written.\<close>

lemma fold_put:
  assumes "ok s" and "0 < bound"
  shows "elems (fold put xs s) = drop (length (elems s @ xs) - bound) (elems s @ xs)"
  using assms
proof (induction xs arbitrary: s)
  case Nil
  then show ?case using bounded [of s] by simp
next
  case (Cons x xs)
  have len: "length (elems s) \<le> bound" using Cons.prems bounded by blast
  have "elems (fold put (x # xs) s) = drop (length (elems (put x s) @ xs) - bound) (elems (put x s) @ xs)"
    using Cons.IH [OF put_ok [OF Cons.prems(1)] Cons.prems(2)] by simp
  also have "\<dots> = drop (length (elems s @ x # xs) - bound) (elems s @ x # xs)"
    using put_last [OF Cons.prems] len Cons.prems(2)
    by (cases "length (elems s) = bound") (auto simp: drop_append)
  finally show ?case .
qed

lemma look_all: "ok s \<Longrightarrow> n \<le> length (elems s) \<Longrightarrow> map (\<lambda>i. look i s) [0..<n] = map Some (take n (elems s))"
  by (rule nth_equalityI) (simp_all add: look_elems)

end

text \<open>The look at an element, as the log uses it: the byte that a successful \<open>ringbuf_peek\<close> stores.\<close>

definition rb_look :: "nat \<Rightarrow> ringbuf \<Rightarrow> u8 option" where
  "rb_look i rb = (if i < 2 ^ 32 then case ringbuf_peek (of_nat i) (Some 0) rb of (b, data) \<Rightarrow> if b then data else None else None)"

lemma rb_look_seq: "rb_ok k rb \<Longrightarrow> rb_look i rb = (if i < length (rb_seq rb) then Some (rb_seq rb ! i) else None)"
  using unat32_lt_pow [of "ringbuf_len rb"]
  by (auto simp: rb_look_def rb_peek unat_of_nat_small simp del: unat32_lt)

interpretation rbq: overwrite_queue "rb_ok k" rb_seq "2 ^ k" ringbuf_overwrite rb_look for k
proof unfold_locales
  fix rb :: ringbuf and x assume ok: "rb_ok k rb"
  show "rb_ok k (ringbuf_overwrite x rb)"
    "rb_seq (ringbuf_overwrite x rb) = (if length (rb_seq rb) = 2 ^ k then tl (rb_seq rb) else rb_seq rb) @ [x]"
    using rb_overwrite [OF ok, of x] by blast+
  show "length (rb_seq rb) \<le> 2 ^ k" using ok by (simp add: rb_ok_def)
  show "rb_look i rb = (if i < length (rb_seq rb) then Some (rb_seq rb ! i) else None)" for i
    by (rule rb_look_seq [OF ok])
qed

subsection \<open>syslog.c\<close>

definition SYSLOG_BUFFER_SIZE :: size_t where
  "SYSLOG_BUFFER_SIZE = 4096"

record syslog =
  syslog_rb :: ringbuf
  syslog_ready :: bool

definition syslog_init :: "u8 list \<Rightarrow> syslog" where
  "syslog_init storage = \<lparr>syslog_rb = ringbuf_init storage SYSLOG_BUFFER_SIZE, syslog_ready = True\<rparr>"

definition syslog_putc :: "u8 \<Rightarrow> syslog \<Rightarrow> syslog" where
  "syslog_putc c s = (if \<not> syslog_ready s then s else s\<lparr>syslog_rb := ringbuf_overwrite c (syslog_rb s)\<rparr>)"

text \<open>A string argument is the array it points into: the string ends before the first zero.\<close>

definition c_string :: "u8 list \<Rightarrow> u8 list" where
  "c_string str = takeWhile (\<lambda>c. c \<noteq> 0) str"

definition syslog_write :: "u8 list \<Rightarrow> syslog \<Rightarrow> syslog" where
  "syslog_write str s = fold syslog_putc (c_string str) s"

definition syslog_len :: "syslog \<Rightarrow> size_t" where
  "syslog_len s = (if \<not> syslog_ready s then 0 else ringbuf_len (syslog_rb s))"

definition syslog_read :: "u8 list option \<Rightarrow> size_t \<Rightarrow> syslog \<Rightarrow> size_t \<times> u8 list option" where
  "syslog_read dst sz s =
     (case dst of None \<Rightarrow> (0, dst)
      | Some d \<Rightarrow>
          if \<not> syslog_ready s \<or> sz = 0 then (0, dst)
          else let len = ringbuf_len (syslog_rb s);
                   len = (if sz \<le> len then sz - 1 else len);
                   d = for_u32 0 len (\<lambda>i d. case ringbuf_peek i (Some 0) (syslog_rb s) of
                         (True, Some c) \<Rightarrow> d[unat i := c] | _ \<Rightarrow> d) d
               in (len, Some (d[unat len := 0])))"

lemma fold_syslog_putc:
  "syslog_ready s \<Longrightarrow> fold syslog_putc cs s = s\<lparr>syslog_rb := fold ringbuf_overwrite cs (syslog_rb s)\<rparr>"
  by (induction cs arbitrary: s) (simp_all add: syslog_putc_def)

lemma fold_syslog_write:
  "syslog_ready s \<Longrightarrow> fold syslog_write strs s = s\<lparr>syslog_rb := fold ringbuf_overwrite (concat (map c_string strs)) (syslog_rb s)\<rparr>"
  by (induction strs arbitrary: s) (simp_all add: syslog_write_def fold_syslog_putc)

text \<open>A loop that stores a sequence of bytes in an array.\<close>

lemma fold_store:
  assumes "n \<le> length d" and "n \<le> length xs" and "n \<le> 2 ^ 32"
  shows "fold (\<lambda>i d. d[unat i := xs ! unat i]) (map of_nat [0..<n] :: u32 list) d = take n xs @ drop n d"
  using assms
proof (induction n)
  case (Suc n)
  then have IH: "fold (\<lambda>i d. d[unat i := xs ! unat i]) (map of_nat [0..<n] :: u32 list) d = take n xs @ drop n d" by simp
  have "unat (of_nat n :: u32) = n" using Suc.prems(3) by (simp add: unat_of_nat_small)
  then show ?case using IH Suc.prems(1,2) by (simp add: list_update_append take_Suc_conv_app_nth Cons_nth_drop_Suc [symmetric])
qed simp

lemma syslog_read_seq:
  assumes ok: "rb_ok k (syslog_rb s)" and ready: "syslog_ready s" and sz: "sz \<noteq> 0" "unat sz \<le> length d"
    and n: "n = min (length (rb_seq (syslog_rb s))) (unat sz - 1)"
  shows "syslog_read (Some d) sz s = (of_nat n, Some (take n (rb_seq (syslog_rb s)) @ 0 # drop (n + 1) d))"
proof -
  let ?xs = "rb_seq (syslog_rb s)"
  let ?len = "if sz \<le> ringbuf_len (syslog_rb s) then sz - 1 else ringbuf_len (syslog_rb s)"
  have len: "unat ?len = n" using n sz(1) by (auto simp: word_le_nat_alt unat_sub_nowrap unat_gt_0 Suc_leI)
  have n_le: "n \<le> length ?xs" "n < length d" "n \<le> 2 ^ 32"
    using n sz(2) unat32_lt_pow [of sz] unat_gt_0 [of sz] sz(1) by linarith+
  have "for_u32 0 ?len (\<lambda>i d. case ringbuf_peek i (Some 0) (syslog_rb s) of (True, Some c) \<Rightarrow> d[unat i := c] | _ \<Rightarrow> d) d
      = fold (\<lambda>i d. d[unat i := ?xs ! unat i]) (words_upto 0 ?len) d"
    unfolding for_u32_def using n_le(1) len
    by (intro fold_cong refl) (auto simp: rb_peek [OF ok] word_less_nat_alt)
  also have "\<dots> = take n ?xs @ drop n d"
    using fold_store [of n d ?xs] n_le len by (simp add: words_upto_def)
  finally have "for_u32 0 ?len (\<lambda>i d. case ringbuf_peek i (Some 0) (syslog_rb s) of (True, Some c) \<Rightarrow> d[unat i := c] | _ \<Rightarrow> d) d
    = take n ?xs @ drop n d" .
  moreover have "(take n ?xs @ drop n d)[n := 0] = take n ?xs @ 0 # drop (n + 1) d"
    using n_le by (simp add: list_update_append Cons_nth_drop_Suc [symmetric])
  moreover have "?len = of_nat n" unfolding len [symmetric] by simp
  ultimately show ?thesis using ready sz(1) len unfolding syslog_read_def Let_def option.case by (simp only: if_False if_True simp_thms)
qed

subsection \<open>The claims\<close>

text \<open>
  C33. A ring buffer whose capacity is a power of two is a bounded queue, also when its positions wrap
  around: writing appends and drops the oldest byte when the buffer is full, pushing refuses instead,
  popping takes the oldest byte, peeking reads any byte, and the counters tell the length.
\<close>

theorem ringbuf_queue:
  assumes "rb_ok k rb"
  shows "rb_ok k (ringbuf_overwrite x rb) \<and>
    rb_seq (ringbuf_overwrite x rb) = (if length (rb_seq rb) = 2 ^ k then tl (rb_seq rb) else rb_seq rb) @ [x] \<and>
    ringbuf_push x rb = (if length (rb_seq rb) = 2 ^ k then (False, rb) else (True, ringbuf_overwrite x rb)) \<and>
    (\<exists>rb'. ringbuf_pop (Some y) rb = (rb_seq rb \<noteq> [], Some (hd (rb_seq rb @ [y])), rb') \<and> rb_ok k rb' \<and> rb_seq rb' = tl (rb_seq rb)) \<and>
    ringbuf_peek i (Some y) rb = (if unat i < length (rb_seq rb) then (True, Some (rb_seq rb ! unat i)) else (False, Some y)) \<and>
    unat (ringbuf_len rb) = length (rb_seq rb) \<and> unat (ringbuf_available rb) = 2 ^ k - length (rb_seq rb)"
proof -
  have "\<exists>rb'. ringbuf_pop (Some y) rb = (rb_seq rb \<noteq> [], Some (hd (rb_seq rb @ [y])), rb') \<and> rb_ok k rb' \<and> rb_seq rb' = tl (rb_seq rb)"
  proof (cases "rb_seq rb")
    case (Cons b bs)
    then have "ringbuf_len rb \<noteq> 0" using rb_seq_length [of rb] by auto
    from rb_drop [OF assms this] Cons show ?thesis by (simp add: rb_pop [OF assms])
  qed (simp add: rb_pop [OF assms] assms)
  moreover have "unat (ringbuf_available rb) = 2 ^ k - length (rb_seq rb)"
    using assms by (simp add: ringbuf_available_def ringbuf_len_def [symmetric] rb_ok_def unat_pow_cap unat_sub_nowrap)
  ultimately show ?thesis using rb_overwrite [OF assms, of x] rb_full_iff [OF assms] rb_peek [OF assms, of i "Some y"]
    by (simp add: ringbuf_push_def)
qed

text \<open>
  Reading the log after any sequence of messages: the reader gets the beginning of what the log
  keeps, and the log keeps the last 4096 bytes of all messages in order. The copy is cut to the size of
  the destination and always terminated.
\<close>

theorem syslog_read_last:
  assumes "length storage = 4096" and "sz \<noteq> 0" and "unat sz \<le> length d"
    and "sent = concat (map c_string strs)" and "kept = drop (length sent - 4096) sent"
    and "n = min (length kept) (unat sz - 1)"
  shows "syslog_read (Some d) sz (fold syslog_write strs (syslog_init storage))
    = (of_nat n, Some (take n kept @ 0 # drop (n + 1) d))"
proof -
  let ?rb = "ringbuf_init storage SYSLOG_BUFFER_SIZE"
  have rb: "rb_ok 12 ?rb" "rb_seq ?rb = []" using rb_init [of 12 storage] assms(1) by (simp_all add: SYSLOG_BUFFER_SIZE_def)
  have s: "fold syslog_write strs (syslog_init storage) = (syslog_init storage)\<lparr>syslog_rb := fold ringbuf_overwrite sent ?rb\<rparr>"
    using fold_syslog_write [of "syslog_init storage" strs] assms(4) by (simp add: syslog_init_def)
  have "rb_ok 12 (fold ringbuf_overwrite sent ?rb)" by (rule rbq.fold_put_ok [OF rb(1)])
  moreover have "rb_seq (fold ringbuf_overwrite sent ?rb) = kept" using rbq.fold_put [OF rb(1)] rb(2) assms(5) by simp
  ultimately show ?thesis
    unfolding s using syslog_read_seq [of 12 "(syslog_init storage)\<lparr>syslog_rb := fold ringbuf_overwrite sent ?rb\<rparr>" sz d n] assms(2,3,6)
    by (simp add: syslog_init_def)
qed

theorem ringbuf_queue_witness:
  "rb_seq (ringbuf_overwrite 7 \<lparr>rb_buf = [1, 2, 3, 4], rb_cap = 4, rb_head = 1, rb_tail = 0xFFFFFFFD\<rparr>) = [3, 4, 1, 7]"
proof -
  let ?rb = "\<lparr>rb_buf = [1, 2, 3, 4], rb_cap = 4, rb_head = 1, rb_tail = 0xFFFFFFFD\<rparr>"
  have ok: "rb_ok 2 ?rb" by (simp add: rb_ok_def ringbuf_len_def)
  have "[0..<4::nat] = [0, 1, 2, 3]" by (simp add: upt_rec)
  then have seq: "rb_seq ?rb = [2, 3, 4, 1]" by (simp add: rb_seq_def ringbuf_len_def)
  from ringbuf_queue [OF ok, of 7] seq show ?thesis by simp
qed

theorem syslog_read_last_witness:
  "syslog_read (Some [9, 9, 9, 9, 9]) 4 (fold syslog_write [[0x61, 0x62, 0], [0x63, 0x64, 0]] (syslog_init (replicate 4096 0)))
    = (3, Some [0x61, 0x62, 0x63, 0, 9])"
proof -
  let ?strs = "[[0x61, 0x62, 0], [0x63, 0x64, 0]] :: u8 list list" and ?sent = "[0x61, 0x62, 0x63, 0x64] :: u8 list"
  have sent: "?sent = concat (map c_string ?strs)" by (simp add: c_string_def)
  have kept: "?sent = drop (length ?sent - 4096) ?sent" and n: "3 = min (length ?sent) (unat (4 :: u32) - 1)" by simp_all
  have "syslog_read (Some [9, 9, 9, 9, 9]) 4 (fold syslog_write ?strs (syslog_init (replicate 4096 0)))
      = (of_nat 3, Some (take 3 ?sent @ 0 # drop (3 + 1) [9, 9, 9, 9, 9]))"
    by (rule syslog_read_last [OF length_replicate _ _ sent kept n]) simp_all
  also have "\<dots> = (3, Some [0x61, 0x62, 0x63, 0, 9])" by simp
  finally show ?thesis .
qed

end
