(* ===== verification/Klib_Fmt.thy ===== *)
theory Klib_Fmt
  imports Prelude
begin

text \<open>
  Numbers and text: the conversions of \<^verbatim>\<open>src/kernel/klib/conv.c\<close> and the bounded
  formatting of \<^verbatim>\<open>src/kernel/klib/printf.c\<close>. Characters are HOL characters, which are
  exactly the bytes; an array of characters is a list. \<open>None\<close> is undefined behaviour: a division by
  zero, a loop that never ends, an overflow of a signed integer, or a missing argument.
\<close>

subsection \<open>Digits\<close>

definition digit_char :: "bool \<Rightarrow> u32 \<Rightarrow> char" where
  "digit_char uppercase digit =
     (if digit < 10 then char_of (48 + unat digit)
      else char_of ((if uppercase then 65 else 97) + (unat digit - 10)))"

text \<open>The loop that takes the digits of a number apart, lowest first.\<close>

partial_function (option) digits_loop :: "bool \<Rightarrow> u32 \<Rightarrow> u32 \<Rightarrow> string \<Rightarrow> string option" where
  "digits_loop uppercase base value tmp =
     (if value = 0 then Some tmp
      else if base = 0 then None
      else digits_loop uppercase base (value div base) (tmp @ [digit_char uppercase (value mod base)]))"

text \<open>The loop that swaps the characters of an array from both ends.\<close>

definition reverse :: "string \<Rightarrow> nat \<Rightarrow> string" where
  "reverse str len = fold (\<lambda>i str. str[i := str ! (len - i - 1), len - i - 1 := str ! i]) [0..<len div 2] str"

subsection \<open>conv.c\<close>

definition CONV_BASE_10 :: u8 where
  "CONV_BASE_10 = 10"

text \<open>The result is the characters written before the terminating zero.\<close>

definition conv_itoa :: "u32 \<Rightarrow> u8 \<Rightarrow> string option" where
  "conv_itoa value base =
     (let is_negative = (base = CONV_BASE_10 \<and> sint value < 0);
          n = (if is_negative then - value else value);
          sign = (if is_negative then ''-'' else '''')
      in if n = 0 then Some (sign @ ''0'')
         else map_option (\<lambda>ds. sign @ reverse ds (length ds)) (digits_loop True (ucast base) n ''''))"

definition conv_digit :: "char \<Rightarrow> nat" where
  "conv_digit ch =
     (let c = of_char ch :: nat
      in if 48 \<le> c \<and> c \<le> 57 then c - 48
         else if 65 \<le> c \<and> c \<le> 70 then c - 65 + 10
         else if 97 \<le> c \<and> c \<le> 102 then c - 97 + 10
         else 255)"

definition int32_ok :: "int \<Rightarrow> bool" where
  "int32_ok x \<longleftrightarrow> - (2 ^ 31) \<le> x \<and> x < 2 ^ 31"

fun conv_atoi_loop :: "string \<Rightarrow> u8 \<Rightarrow> int \<Rightarrow> int option" where
  "conv_atoi_loop [] base result = Some result"
| "conv_atoi_loop (c # ptr) base result =
     (if unat base \<le> conv_digit c then Some result
      else let product = result * uint base; next_result = product + int (conv_digit c)
           in if int32_ok product \<and> int32_ok next_result then conv_atoi_loop ptr base next_result else None)"

definition conv_atoi :: "string \<Rightarrow> u8 \<Rightarrow> int option" where
  "conv_atoi str base =
     (let is_negative = (str \<noteq> [] \<and> hd str = CHR ''-'');
          ptr = (if is_negative then tl str else str)
      in case conv_atoi_loop ptr base 0 of
           None \<Rightarrow> None
         | Some result \<Rightarrow> Some (if is_negative then - result else result))"

subsection \<open>printf.c\<close>

record printf_buffer =
  pb_buf :: string
  pb_size :: size_t
  pb_pos :: size_t
  pb_total :: size_t

definition buffer_putc :: "char \<Rightarrow> printf_buffer \<Rightarrow> printf_buffer" where
  "buffer_putc c b =
     (let b = (if 0 < pb_size b \<and> pb_pos b < pb_size b - 1
               then b\<lparr>pb_buf := (pb_buf b)[unat (pb_pos b) := c], pb_pos := pb_pos b + 1\<rparr> else b)
      in b\<lparr>pb_total := pb_total b + 1\<rparr>)"

definition buffer_puts :: "string \<Rightarrow> printf_buffer \<Rightarrow> printf_buffer" where
  "buffer_puts str b = fold buffer_putc str b"

definition buffer_finish :: "printf_buffer \<Rightarrow> printf_buffer" where
  "buffer_finish b =
     (if 0 < pb_size b
      then if pb_pos b < pb_size b then b\<lparr>pb_buf := (pb_buf b)[unat (pb_pos b) := CHR 0x00]\<rparr>
           else b\<lparr>pb_buf := (pb_buf b)[unat (pb_size b - 1) := CHR 0x00]\<rparr>
      else b)"

definition format_uint :: "u32 \<Rightarrow> u32 \<Rightarrow> bool \<Rightarrow> printf_buffer \<Rightarrow> printf_buffer option" where
  "format_uint value base uppercase b =
     (if value = 0 then Some (buffer_putc (CHR ''0'') b)
      else case digits_loop uppercase base value '''' of
             None \<Rightarrow> None
           | Some tmp \<Rightarrow> Some (fold buffer_putc (reverse tmp (length tmp)) b))"

definition format_int :: "u32 \<Rightarrow> printf_buffer \<Rightarrow> printf_buffer option" where
  "format_int value b =
     (if sint value < 0 then format_uint (- value) 10 False (buffer_putc (CHR ''-'') b)
      else format_uint value 10 False b)"

text \<open>
  One conversion: the character after the percent sign. The arguments are the 32-bit words of the
  variable argument list; \<open>str_at\<close> gives the string at an address.
\<close>

definition format_one :: "(u32 \<Rightarrow> string) \<Rightarrow> char \<Rightarrow> u32 list \<Rightarrow> printf_buffer \<Rightarrow> (printf_buffer \<times> u32 list) option" where
  "format_one str_at c args b =
     (if c = CHR ''%'' then Some (buffer_putc (CHR ''%'') b, args)
      else if c \<in> set ''csdiuxXop'' then
        (case args of
           [] \<Rightarrow> None
         | v # args \<Rightarrow> map_option (\<lambda>b. (b, args))
             (if c = CHR ''c'' then Some (buffer_putc (char_of (unat v)) b)
              else if c = CHR ''s'' then Some (buffer_puts (if v \<noteq> 0 then str_at v else ''(null)'') b)
              else if c = CHR ''d'' \<or> c = CHR ''i'' then format_int v b
              else if c = CHR ''u'' then format_uint v 10 False b
              else if c = CHR ''x'' then format_uint v 16 False b
              else if c = CHR ''X'' then format_uint v 16 True b
              else if c = CHR ''o'' then format_uint v 8 False b
              else format_uint v 16 False (buffer_puts ''0x'' b)))
      else Some (buffer_putc c (buffer_putc (CHR ''%'') b), args))"

fun format_loop :: "(u32 \<Rightarrow> string) \<Rightarrow> string \<Rightarrow> u32 list \<Rightarrow> printf_buffer \<Rightarrow> printf_buffer option" where
  "format_loop str_at [] args b = Some b"
| "format_loop str_at [c] args b = Some (if c \<noteq> CHR ''%'' then buffer_putc c b else b)"
| "format_loop str_at (c # d # fmt) args b =
     (if c \<noteq> CHR ''%'' then format_loop str_at (d # fmt) args (buffer_putc c b)
      else case format_one str_at d args b of
             None \<Rightarrow> None
           | Some (b, args) \<Rightarrow> format_loop str_at fmt args b)"

text \<open>The result is the return value and the array.\<close>

definition vsnprintf :: "(u32 \<Rightarrow> string) \<Rightarrow> string \<Rightarrow> size_t \<Rightarrow> string \<Rightarrow> u32 list \<Rightarrow> (size_t \<times> string) option" where
  "vsnprintf str_at buf sz fmt args =
     (case format_loop str_at fmt args \<lparr>pb_buf = buf, pb_size = sz, pb_pos = 0, pb_total = 0\<rparr> of
        None \<Rightarrow> None
      | Some b \<Rightarrow> Some (pb_total b, pb_buf (buffer_finish b)))"

definition snprintf :: "(u32 \<Rightarrow> string) \<Rightarrow> string \<Rightarrow> size_t \<Rightarrow> string \<Rightarrow> u32 list \<Rightarrow> (size_t \<times> string) option" where
  "snprintf str_at buf sz fmt args = vsnprintf str_at buf sz fmt args"

subsection \<open>Numerals\<close>

text \<open>The digits of a number, highest first, and the number of a list of digits.\<close>

function num_digits :: "nat \<Rightarrow> nat \<Rightarrow> nat list" where
  "num_digits b n = (if b < 2 \<or> n = 0 then [] else num_digits b (n div b) @ [n mod b])"
  by auto
termination by (relation "measure snd") auto

declare num_digits.simps [simp del]

definition num_value :: "nat \<Rightarrow> nat list \<Rightarrow> nat" where
  "num_value b ds = foldl (\<lambda>a d. a * b + d) 0 ds"

lemma num_value_digits: "2 \<le> b \<Longrightarrow> num_value b (num_digits b n) = n"
proof (induction b n rule: num_digits.induct)
  case (1 b n)
  show ?case
  proof (cases "n = 0")
    case False
    then have "num_digits b n = num_digits b (n div b) @ [n mod b]" using 1 by (subst num_digits.simps) simp
    then show ?thesis using 1 False by (simp add: num_value_def)
  qed (simp add: num_digits.simps num_value_def)
qed

lemma num_digits_less: "2 \<le> b \<Longrightarrow> d \<in> set (num_digits b n) \<Longrightarrow> d < b"
proof (induction b n rule: num_digits.induct)
  case (1 b n)
  then show ?case by (subst (asm) num_digits.simps) (auto split: if_splits)
qed

text \<open>What the code prints for a number.\<close>

definition digit_name :: "bool \<Rightarrow> nat \<Rightarrow> char" where
  "digit_name uppercase d = (if d < 10 then char_of (48 + d) else char_of ((if uppercase then 65 else 97) + (d - 10)))"

definition numeral_of :: "bool \<Rightarrow> nat \<Rightarrow> nat \<Rightarrow> string" where
  "numeral_of uppercase b n = (if n = 0 then ''0'' else map (digit_name uppercase) (num_digits b n))"

lemma digit_char_name: "digit_char uppercase d = digit_name uppercase (unat d)"
  by (simp add: digit_char_def digit_name_def word_less_nat_alt)

lemma digits_loop_eq:
  assumes "2 \<le> unat base"
  shows "digits_loop uppercase base val tmp = Some (tmp @ rev (map (digit_name uppercase) (num_digits (unat base) (unat val))))"
  using assms
proof (induction "unat val" arbitrary: val tmp rule: less_induct)
  case less
  show ?case
  proof (cases "val = 0")
    case True
    then show ?thesis by (subst digits_loop.simps) (simp add: num_digits.simps)
  next
    case False
    have base: "base \<noteq> 0" "\<not> unat base < 2" using less.prems by auto
    have v: "unat val \<noteq> 0" using False by (simp add: unat_eq_0)
    have "unat (val div base) < unat val" using less.prems v by (simp add: unat_div)
    from less.hyps [OF this less.prems]
    have "digits_loop uppercase base val tmp
        = Some ((tmp @ [digit_char uppercase (val mod base)]) @ rev (map (digit_name uppercase) (num_digits (unat base) (unat (val div base)))))"
      using False base by (subst digits_loop.simps) simp
    moreover have "num_digits (unat base) (unat val) = num_digits (unat base) (unat (val div base)) @ [unat (val mod base)]"
      using base v by (subst num_digits.simps) (simp add: unat_div unat_mod)
    ultimately show ?thesis by (simp add: digit_char_name)
  qed
qed

text \<open>
  The swapping loop reverses its array: after \<open>k\<close> rounds the outer \<open>k\<close> characters on both sides
  are swapped.
\<close>

lemma reverse_rounds:
  assumes "k \<le> length str div 2" and "i < length str"
  shows "fold (\<lambda>i s. s[i := s ! (length str - i - 1), length str - i - 1 := s ! i]) [0..<k] str ! i
    = (if i < k \<or> length str - k \<le> i then str ! (length str - i - 1) else str ! i)
    \<and> length (fold (\<lambda>i s. s[i := s ! (length str - i - 1), length str - i - 1 := s ! i]) [0..<k] str) = length str"
  using assms
proof (induction k arbitrary: i)
  case (Suc k)
  let ?f = "\<lambda>i (s :: 'a list). s[i := s ! (length str - i - 1), length str - i - 1 := s ! i]"
  let ?s = "fold ?f [0..<k] str" and ?n = "length str"
  have k: "k < ?n - k - 1" "k < ?n" using Suc.prems(1) by auto
  have len: "length ?s = ?n" using Suc k(2) by auto
  have ends: "?s ! k = str ! k" "?s ! (?n - k - 1) = str ! (?n - k - 1)"
    using Suc.IH [of k] Suc.IH [of "?n - k - 1"] k Suc.prems(1) by auto
  have "fold ?f [0..<Suc k] str = ?s[k := str ! (?n - k - 1), ?n - k - 1 := str ! k]" using ends by simp
  moreover have "?s ! i = (if i < k \<or> ?n - k \<le> i then str ! (?n - i - 1) else str ! i)"
    using Suc.IH [of i] Suc.prems by auto
  moreover have "?n - (?n - k - 1) - 1 = k" using k by simp
  ultimately have "fold ?f [0..<Suc k] str ! i = (if i = ?n - k - 1 then str ! k else if i = k then str ! (?n - k - 1)
      else if i < k \<or> ?n - k \<le> i then str ! (?n - i - 1) else str ! i)"
    using k len Suc.prems(2) by (simp only: nth_list_update length_list_update simp_thms)
      (simp only: nth_list_update length_list_update simp_thms eq_commute if_cancel split: if_split)
  moreover have "i < Suc k \<longleftrightarrow> i < k \<or> i = k" "?n - Suc k \<le> i \<longleftrightarrow> ?n - k \<le> i \<or> i = ?n - k - 1" using k by linarith+
  ultimately show ?case using k len Suc.prems by auto
qed simp

lemma reverse_length: "reverse str (length str) = rev str"
proof (rule nth_equalityI)
  show len: "length (reverse str (length str)) = length (rev str)"
    using reverse_rounds [of "length str div 2" str 0] by (cases str) (auto simp: reverse_def)
  fix i assume "i < length (reverse str (length str))"
  then have i: "i < length str" using len by simp
  have "\<not> (i < length str div 2 \<or> length str - length str div 2 \<le> i) \<Longrightarrow> length str - i - 1 = i" using i by linarith
  then show "reverse str (length str) ! i = rev str ! i"
    using reverse_rounds [of "length str div 2" str i] i by (auto simp: reverse_def rev_nth)
qed

lemma reverse_eq [simp]: "n = length str \<Longrightarrow> reverse str n = rev str"
  by (simp add: reverse_length)

lemma format_uint_eq:
  assumes "2 \<le> unat base"
  shows "format_uint v base uppercase b = Some (fold buffer_putc (numeral_of uppercase (unat base) (unat v)) b)"
  by (simp add: format_uint_def digits_loop_eq [OF assms] numeral_of_def unat_eq_0)

lemma sint32: "sint (v :: u32) = (uint v + 2 ^ 31) mod 2 ^ 32 - 2 ^ 31"
  unfolding sint_uint signed_take_bit_eq_take_bit_shift by (simp add: take_bit_eq_mod)

lemma sint32_cases: "sint (v :: u32) = (if uint v < 2 ^ 31 then uint v else uint v - 2 ^ 32)"
proof (cases "uint v < 2 ^ 31")
  case True
  then have "(uint v + 2 ^ 31) mod 2 ^ 32 = uint v + 2 ^ 31" by (intro mod_pos_pos_trivial) simp_all
  then show ?thesis using True by (simp add: sint32)
next
  case False
  have "uint v + 2 ^ 31 = (uint v - 2 ^ 31) + 2 ^ 32" by simp
  also have "\<dots> mod 2 ^ 32 = (uint v - 2 ^ 31) mod 2 ^ 32" by (simp only: mod_add_self2)
  also have "\<dots> = uint v - 2 ^ 31" using False uint_lt2p [of v] by (intro mod_pos_pos_trivial) simp_all
  finally show ?thesis using False by (simp add: sint32)
qed

lemma uint_minus32: "v \<noteq> 0 \<Longrightarrow> uint (- v :: u32) = 2 ^ 32 - uint v"
proof -
  assume "v \<noteq> 0"
  then have "0 < uint v" using uint_ge_0 [of v] by (auto simp: order_le_less uint_0_iff)
  then have "(- uint v) mod 2 ^ 32 = 2 ^ 32 - uint v" using uint_lt2p [of v]
    by (subst zmod_zminus1_eq_if) simp
  then show ?thesis by (simp add: uint_word_ariths)
qed

lemma magnitude: "sint (v :: u32) < 0 \<Longrightarrow> unat (- v) = nat (- sint v)" "0 \<le> sint v \<Longrightarrow> unat v = nat (sint v)"
proof -
  show "unat (- v) = nat (- sint v)" if "sint v < 0"
  proof -
    have "v \<noteq> 0" using that by auto
    then have "uint (- v) = - sint v" using that uint_minus32 [of v] by (simp add: sint32_cases split: if_splits)
    then show ?thesis by (simp add: unat_eq_nat_uint)
  qed
  show "0 \<le> sint v \<Longrightarrow> unat v = nat (sint v)"
    using uint_lt2p [of v] by (simp add: sint32_cases split: if_splits)
qed

subsection \<open>What is printed\<close>

text \<open>The text of one conversion, and of a whole format; \<open>None\<close> when an argument is missing.\<close>

definition int_text :: "int \<Rightarrow> string" where
  "int_text i = (if i < 0 then CHR ''-'' # numeral_of False 10 (nat (- i)) else numeral_of False 10 (nat i))"

definition conv_text :: "(u32 \<Rightarrow> string) \<Rightarrow> char \<Rightarrow> u32 \<Rightarrow> string" where
  "conv_text str_at c v =
     (if c = CHR ''c'' then [char_of (unat v)]
      else if c = CHR ''s'' then (if v \<noteq> 0 then str_at v else ''(null)'')
      else if c = CHR ''d'' \<or> c = CHR ''i'' then int_text (sint v)
      else if c = CHR ''u'' then numeral_of False 10 (unat v)
      else if c = CHR ''x'' then numeral_of False 16 (unat v)
      else if c = CHR ''X'' then numeral_of True 16 (unat v)
      else if c = CHR ''o'' then numeral_of False 8 (unat v)
      else ''0x'' @ numeral_of False 16 (unat v))"

fun fmt_text :: "(u32 \<Rightarrow> string) \<Rightarrow> string \<Rightarrow> u32 list \<Rightarrow> string option" where
  "fmt_text str_at [] args = Some []"
| "fmt_text str_at [c] args = Some (if c \<noteq> CHR ''%'' then [c] else [])"
| "fmt_text str_at (c # d # fmt) args =
     (if c \<noteq> CHR ''%'' then map_option ((#) c) (fmt_text str_at (d # fmt) args)
      else if d = CHR ''%'' then map_option ((#) d) (fmt_text str_at fmt args)
      else if d \<notin> set ''csdiuxXop'' then map_option (\<lambda>t. c # d # t) (fmt_text str_at fmt args)
      else case args of [] \<Rightarrow> None
           | v # args \<Rightarrow> map_option ((@) (conv_text str_at d v)) (fmt_text str_at fmt args))"

lemma format_int_eq: "format_int v b = Some (fold buffer_putc (int_text (sint v)) b)"
  by (simp add: format_int_def format_uint_eq int_text_def magnitude)

lemma format_one_eq:
  "format_one str_at d args b =
     (if d = CHR ''%'' then Some (buffer_putc d b, args)
      else if d \<notin> set ''csdiuxXop'' then Some (fold buffer_putc [CHR ''%'', d] b, args)
      else case args of [] \<Rightarrow> None | v # args \<Rightarrow> Some (fold buffer_putc (conv_text str_at d v) b, args))"
proof (cases args)
  case (Cons v vs)
  consider "d = CHR ''%''" | "d \<noteq> CHR ''%'' \<and> d \<notin> set ''csdiuxXop''" | "d \<noteq> CHR ''%'' \<and> d \<in> set ''csdiuxXop''" by blast
  then show ?thesis
  proof cases
    case 3
    then have "format_one str_at d args b = Some (fold buffer_putc (conv_text str_at d v) b, vs)"
      using Cons by (simp add: format_one_def conv_text_def format_int_eq format_uint_eq buffer_puts_def)
    then show ?thesis using 3 Cons by simp
  qed (simp_all add: format_one_def Cons)
qed (simp add: format_one_def)

lemma format_loop_eq: "format_loop str_at fmt args b = map_option (\<lambda>out. fold buffer_putc out b) (fmt_text str_at fmt args)"
proof (induction str_at fmt args b rule: format_loop.induct)
  case (3 str_at c d fmt args b)
  show ?case
  proof (cases "c = CHR ''%''")
    case False
    then show ?thesis using 3(1) by (simp add: option.map_comp comp_def)
  next
    case True
    then show ?thesis using 3(2)
      by (cases args) (auto simp: format_one_eq option.map_comp comp_def simp del: fold_simps)
  qed
qed simp_all

text \<open>Where the text goes: the first characters into the array, all of it into the count.\<close>

lemma fold_buffer_putc:
  assumes sz: "unat sz \<le> length buf"
  shows "fold buffer_putc out \<lparr>pb_buf = buf, pb_size = sz, pb_pos = 0, pb_total = 0\<rparr>
    = \<lparr>pb_buf = take (unat sz - 1) out @ drop (length (take (unat sz - 1) out)) buf, pb_size = sz,
       pb_pos = of_nat (length (take (unat sz - 1) out)), pb_total = of_nat (length out)\<rparr>"
proof (induction out rule: rev_induct)
  case (snoc c out)
  let ?n = "min (length out) (unat sz - 1)"
  have n: "unat (of_nat ?n :: u32) = ?n"
  proof (rule unat_of_nat_small)
    have "?n < 2 ^ 32" using unat32_lt_pow [of sz] by linarith
    then show "?n < 2 ^ LENGTH(32)" by simp
  qed
  have sz1: "unat (sz - 1) = unat sz - 1" if "sz \<noteq> 0" using that by (simp add: unat_sub_nowrap unat_gt_0 Suc_leI)
  show ?case
  proof (cases "length out < unat sz - 1")
    case True
    then have "sz \<noteq> 0" "?n = length out" "length out < length buf" using sz by auto
    then show ?thesis using True snoc.IH n sz1
      by (simp add: buffer_putc_def word_less_nat_alt list_update_append Cons_nth_drop_Suc [symmetric] unat_gt_0)
  next
    case False
    then have "?n = unat sz - 1" by simp
    then have "\<not> (0 < sz \<and> of_nat ?n < sz - 1)" using n sz1 by (auto simp: word_less_nat_alt)
    then show ?thesis using False snoc.IH by (simp add: buffer_putc_def min_def)
  qed
qed simp

subsection \<open>Round trip\<close>

lemma conv_digit_name: "d < 16 \<Longrightarrow> conv_digit (digit_name True d) = d" "d < 16 \<Longrightarrow> digit_name True d \<noteq> CHR ''-''"
proof -
  have of: "of_char (digit_name True d) = (if d < 10 then 48 + d else 65 + (d - 10))" if "d < 16"
    using that by (simp add: digit_name_def)
  then show "d < 16 \<Longrightarrow> conv_digit (digit_name True d) = d" by (auto simp: conv_digit_def)
  show "digit_name True d \<noteq> CHR ''-''" if "d < 16"
  proof
    assume "digit_name True d = CHR ''-''"
    then have "(of_char (digit_name True d) :: nat) = 45" by simp
    then show False using of [OF that] by (auto split: if_splits)
  qed
qed

lemma foldl_num_ge: "0 < b \<Longrightarrow> r \<le> foldl (\<lambda>a d. a * b + d) r (ds :: nat list)"
proof (induction ds arbitrary: r)
  case (Cons d ds)
  have "r \<le> r * b + d" using Cons.prems by (simp add: trans_le_add1)
  also have "\<dots> \<le> foldl (\<lambda>a d. a * b + d) (r * b + d) ds" by (rule Cons.IH [OF Cons.prems])
  finally show ?case by simp
qed simp

lemma int32_ok_int: "int32_ok (int x) \<longleftrightarrow> x < 2 ^ 31"
  by (simp add: int32_ok_def)

lemma conv_atoi_loop_eq:
  assumes "unat base \<le> 16" and "\<forall>d\<in>set ds. d < unat base"
  shows "conv_atoi_loop (map (digit_name True) ds) base (int r) =
    (let v = foldl (\<lambda>a d. a * unat base + d) r ds in if v < 2 ^ 31 \<or> ds = [] then Some (int v) else None)"
  using assms(2)
proof (induction ds arbitrary: r)
  case (Cons d ds)
  have d: "d < unat base" "conv_digit (digit_name True d) = d" using Cons.prems assms(1) conv_digit_name(1) [of d] by auto
  let ?p = "r * unat base" and ?b = "unat base"
  let ?v = "foldl (\<lambda>a d. a * ?b + d) (?p + d) ds"
  have ge: "?p + d \<le> ?v" using foldl_num_ge [of ?b "?p + d" ds] d(1) by simp
  have step: "conv_atoi_loop (map (digit_name True) (d # ds)) base (int r)
      = (if int32_ok (int ?p) \<and> int32_ok (int (?p + d)) then conv_atoi_loop (map (digit_name True) ds) base (int (?p + d)) else None)"
    using d by (simp add: Let_def)
  show ?case
  proof (cases "?p + d < 2 ^ 31")
    case True
    then have "int32_ok (int ?p)" "int32_ok (int (?p + d))" by (simp_all only: int32_ok_int)
    then show ?thesis using step Cons.IH [of "?p + d"] Cons.prems True by (simp add: Let_def del: of_nat_add)
  next
    case False
    have "\<not> int32_ok (int (?p + d))" using False int32_ok_int [of "?p + d"] by blast
    moreover have "\<not> ?v < 2 ^ 31" using False ge by linarith
    ultimately show ?thesis using step by (simp add: Let_def del: of_nat_add)
  qed
qed simp

lemma conv_itoa_eq:
  assumes "2 \<le> unat base"
  shows "conv_itoa v base = Some (if base = 10 \<and> sint v < 0 then CHR ''-'' # numeral_of True 10 (nat (- sint v))
    else numeral_of True (unat base) (unat v))"
proof -
  have ub: "unat (ucast base :: u32) = unat base" by (simp add: unsigned_ucast_eq take_bit_nat_eq_self_iff less_trans [OF unsigned_less])
  then show ?thesis using assms magnitude(1) [of v]
    by (auto simp: conv_itoa_def Let_def CONV_BASE_10_def digits_loop_eq numeral_of_def unat_eq_0)
qed

lemma conv_atoi_numeral:
  assumes b: "2 \<le> unat base" "unat base \<le> 16" and s: "s = [] \<or> s = ''-''"
  shows "conv_atoi (s @ numeral_of True (unat base) n) base
    = (if n < 2 ^ 31 then Some (if s = [] then int n else - int n) else None)"
proof -
  define ds where "ds = (if n = 0 then [0] else num_digits (unat base) n)"
  have "digit_name True 0 = CHR ''0''" by code_simp
  then have num: "numeral_of True (unat base) n = map (digit_name True) ds" by (simp add: ds_def numeral_of_def)
  have "num_value (unat base) ds = n" using b num_value_digits [of "unat base" n] by (auto simp: ds_def num_value_def)
  then have fold: "foldl (\<lambda>a d. a * unat base + d) 0 ds = n" by (simp add: num_value_def)
  have less: "\<forall>d\<in>set ds. d < unat base" using b num_digits_less by (auto simp: ds_def)
  have ne: "ds \<noteq> []"
  proof
    assume "ds = []"
    then show False using fold by (auto simp: ds_def split: if_splits)
  qed
  then have "hd ds < 16" using less b by (meson hd_in_set le_less_trans less_le_trans)
  then have "hd (map (digit_name True) ds) \<noteq> CHR ''-''" using ne conv_digit_name(2) by (simp add: hd_map)
  moreover have "conv_atoi_loop (map (digit_name True) ds) base 0 = (if n < 2 ^ 31 then Some (int n) else None)"
    using conv_atoi_loop_eq [OF b(2) less, of 0] fold ne by simp
  ultimately show ?thesis using s ne by (auto simp: num conv_atoi_def Let_def)
qed

lemma vsnprintf_eq:
  assumes "unat sz \<le> length buf" and "fmt_text str_at fmt args = Some out" and "n = min (length out) (unat sz - 1)"
  shows "vsnprintf str_at buf sz fmt args =
    Some (of_nat (length out), if sz = 0 then buf else take n out @ CHR 0x00 # drop (n + 1) buf)"
proof -
  have n: "unat (of_nat n :: u32) = n"
  proof (rule unat_of_nat_small)
    have "n < 2 ^ 32" using assms(3) unat32_lt_pow [of sz] by linarith
    then show "n < 2 ^ LENGTH(32)" by simp
  qed
  have len: "length (take (unat sz - 1) out) = n" "take (unat sz - 1) out = take n out" using assms(3) by (simp_all add: min_def)
  have lt: "n < unat sz \<and> n < length buf" if "sz \<noteq> 0" using that assms(1,3) unat_gt_0 [of sz] by linarith
  have "(take n out @ drop n buf)[n := CHR 0x00] = take n out @ CHR 0x00 # drop (n + 1) buf" if "sz \<noteq> 0"
    using lt [OF that] assms(3) by (simp add: list_update_append Cons_nth_drop_Suc [symmetric])
  then show ?thesis
    using lt n len fold_buffer_putc [OF assms(1), of out]
    by (auto simp: vsnprintf_def format_loop_eq assms(2) buffer_finish_def word_less_nat_alt unat_gt_0)
qed

subsection \<open>The claims\<close>

text \<open>
  C34. Formatting into an array of any size: when no argument is missing, the function returns, stores
  the text cut to one character less than the size and a terminating zero, writes nothing beyond, and
  returns the length of the whole text.
\<close>

theorem vsnprintf_correct:
  assumes "unat sz \<le> length buf" and "fmt_text str_at fmt args = Some out" and "n = min (length out) (unat sz - 1)"
  shows "vsnprintf str_at buf sz fmt args =
    Some (of_nat (length out), if sz = 0 then buf else take n out @ CHR 0x00 # drop (n + 1) buf)"
  using assms by (rule vsnprintf_eq)

text \<open>
  Converting a number to text and back gives the number, with one exception: the smallest integer,
  whose magnitude overflows the accumulator, which is undefined behaviour. Bases other than ten print
  negative numbers as unsigned ones, so there the number has to be non-negative.
\<close>

theorem conv_roundtrip:
  assumes "2 \<le> unat base" and "unat base \<le> 16" and "base = 10 \<or> 0 \<le> sint v"
  shows "\<exists>str. conv_itoa v base = Some str \<and> conv_atoi str base = (if sint v = - (2 ^ 31) then None else Some (sint v))"
proof (cases "sint v < 0")
  case True
  then have "base = 10" using assms(3) by simp
  moreover have "- (2 ^ 31) \<le> sint v" using sint_ge [of v] by simp
  ultimately show ?thesis
    using True conv_itoa_eq [OF assms(1), of v] conv_atoi_numeral [OF assms(1,2), of "''-''" "nat (- sint v)"] by auto
next
  case False
  moreover have "sint v < 2 ^ 31" using sint_lt [of v] by simp
  ultimately show ?thesis
    using conv_itoa_eq [OF assms(1), of v] conv_atoi_numeral [OF assms(1,2), of "[]" "unat v"] magnitude(2) [of v] by auto
qed

theorem vsnprintf_correct_witness:
  "vsnprintf (\<lambda>_. ''ab'') ''.......'' 6 ''%s=%d%c'' [1, 0xFFFFFFD6, 33] = Some (7, ''ab=-4'' @ [CHR 0x00, CHR ''.''])"
proof -
  have "int_text (- 42) = ''-42''" "char_of (33 :: nat) = CHR ''!''" by code_simp+
  then have "conv_text (\<lambda>_. ''ab'') (CHR ''s'') 1 = ''ab''" "conv_text (\<lambda>_. ''ab'') (CHR ''d'') 0xFFFFFFD6 = ''-42''"
    "conv_text (\<lambda>_. ''ab'') (CHR ''c'') 33 = ''!''" by (simp_all add: conv_text_def)
  then have out: "fmt_text (\<lambda>_. ''ab'') ''%s=%d%c'' [1, 0xFFFFFFD6, 33] = Some ''ab=-42!''" by simp
  have n: "5 = min (length ''ab=-42!'') (unat (6 :: u32) - 1)" by simp
  show ?thesis using vsnprintf_correct [OF _ out n, of "''.......''"] by (simp del: fmt_text.simps)
qed

theorem conv_roundtrip_witness:
  "\<exists>str. conv_itoa 0xFFFFFF85 10 = Some str \<and> conv_atoi str 10 = Some (- 123)"
  using conv_roundtrip [of 10 "0xFFFFFF85"] by simp

end
