(* ===== verification/Iwbf.thy ===== *)
theory Iwbf
  imports Klib_Memory
begin

text \<open>
  The executable format: the little-endian accessors of \<^verbatim>\<open>src/kernel/include/klib/endian.h\<close> and
  the parsers of \<^verbatim>\<open>src/kernel/format/iwbf.c\<close>. A buffer is the store of bytes that its
  pointer points into, so a read past its end yields whatever lies there. The lemmas show that the
  parsers invert the documented layout.
\<close>

subsection \<open>endian.h\<close>

definition read_le16 :: "bytes \<Rightarrow> u32 \<Rightarrow> u16" where
  "read_le16 m buf = ucast (m buf) OR push_bit 8 (ucast (m (buf + 1)))"

definition read_le32 :: "bytes \<Rightarrow> u32 \<Rightarrow> u32" where
  "read_le32 m buf = ucast (m buf) OR push_bit 8 (ucast (m (buf + 1))) OR
     push_bit 16 (ucast (m (buf + 2))) OR push_bit 24 (ucast (m (buf + 3)))"

definition read_le64 :: "bytes \<Rightarrow> u32 \<Rightarrow> u64" where
  "read_le64 m buf = ucast (m buf) OR push_bit 8 (ucast (m (buf + 1))) OR
     push_bit 16 (ucast (m (buf + 2))) OR push_bit 24 (ucast (m (buf + 3))) OR
     push_bit 32 (ucast (m (buf + 4))) OR push_bit 40 (ucast (m (buf + 5))) OR
     push_bit 48 (ucast (m (buf + 6))) OR push_bit 56 (ucast (m (buf + 7)))"

definition write_le16 :: "u32 \<Rightarrow> u16 \<Rightarrow> bytes \<Rightarrow> bytes" where
  "write_le16 buf v m = m(buf := ucast v, buf + 1 := ucast (drop_bit 8 v))"

definition write_le32 :: "u32 \<Rightarrow> u32 \<Rightarrow> bytes \<Rightarrow> bytes" where
  "write_le32 buf v m = m(buf := ucast v, buf + 1 := ucast (drop_bit 8 v),
     buf + 2 := ucast (drop_bit 16 v), buf + 3 := ucast (drop_bit 24 v))"

definition write_le64 :: "u32 \<Rightarrow> u64 \<Rightarrow> bytes \<Rightarrow> bytes" where
  "write_le64 buf v m = m(buf := ucast v, buf + 1 := ucast (drop_bit 8 v),
     buf + 2 := ucast (drop_bit 16 v), buf + 3 := ucast (drop_bit 24 v),
     buf + 4 := ucast (drop_bit 32 v), buf + 5 := ucast (drop_bit 40 v),
     buf + 6 := ucast (drop_bit 48 v), buf + 7 := ucast (drop_bit 56 v))"

subsection \<open>iwbf.c\<close>

record iwbf32_hdr =
  hdr_magic :: u32
  hdr_type :: u16
  hdr_arch :: u16
  hdr_entry :: u32
  hdr_segment_count :: u32

record iwbf32_segment_hdr =
  seg_vaddr :: u32
  seg_file_off :: u32
  seg_file_size :: u32
  seg_mem_size :: u32
  seg_flags :: u32

definition IWBF_HDR_MAGIC :: u32 where
  "IWBF_HDR_MAGIC = 0x46425749"

definition IWBF_HDR_TYPE_EXEC :: u16 where
  "IWBF_HDR_TYPE_EXEC = 1"

definition IWBF_HDR_ARCH_I386 :: u16 where
  "IWBF_HDR_ARCH_I386 = 1"

definition IWBF_SEG_FLAG_READ :: u32 where
  "IWBF_SEG_FLAG_READ = push_bit 0 1"

definition IWBF_SEG_FLAG_WRITE :: u32 where
  "IWBF_SEG_FLAG_WRITE = push_bit 1 1"

definition IWBF_SEG_FLAG_EXEC :: u32 where
  "IWBF_SEG_FLAG_EXEC = push_bit 2 1"

definition IWBF32_HDR_SIZE :: size_t where
  "IWBF32_HDR_SIZE = 16"

definition IWBF32_SEGMENT_HDR_SIZE :: size_t where
  "IWBF32_SEGMENT_HDR_SIZE = 20"

text \<open>The flags \<open>buf_ok\<close> and \<open>out_ok\<close> say that the pointers are not NULL.\<close>

definition iwbf_parse_hdr :: "bytes \<Rightarrow> bool \<Rightarrow> u32 \<Rightarrow> size_t \<Rightarrow> bool \<Rightarrow> kerror + iwbf32_hdr" where
  "iwbf_parse_hdr m buf_ok buf sz out_ok =
     (if \<not> buf_ok \<or> \<not> out_ok then Inl KERR_INVAL
      else if sz < IWBF32_HDR_SIZE then Inl KERR_INVAL
      else let out = \<lparr>hdr_magic = read_le32 m buf, hdr_type = read_le16 m (buf + 4), hdr_arch = read_le16 m (buf + 6),
             hdr_entry = read_le32 m (buf + 8), hdr_segment_count = ucast (read_le16 m (buf + 12))\<rparr>
           in if hdr_magic out \<noteq> IWBF_HDR_MAGIC then Inl KERR_INVAL
              else if hdr_type out \<noteq> IWBF_HDR_TYPE_EXEC then Inl KERR_INVAL
              else if hdr_arch out \<noteq> IWBF_HDR_ARCH_I386 then Inl KERR_INVAL
              else if hdr_segment_count out = 0 then Inl KERR_INVAL
              else Inr out)"

definition iwbf_parse_segment_hdr :: "bytes \<Rightarrow> bool \<Rightarrow> u32 \<Rightarrow> size_t \<Rightarrow> bool \<Rightarrow> kerror + iwbf32_segment_hdr" where
  "iwbf_parse_segment_hdr m buf_ok buf sz out_ok =
     (if \<not> buf_ok \<or> \<not> out_ok then Inl KERR_INVAL
      else if sz < IWBF32_SEGMENT_HDR_SIZE then Inl KERR_INVAL
      else let out = \<lparr>seg_vaddr = read_le32 m buf, seg_file_off = read_le32 m (buf + 4), seg_file_size = read_le32 m (buf + 8),
             seg_mem_size = read_le32 m (buf + 12), seg_flags = read_le32 m (buf + 16)\<rparr>
           in if seg_mem_size out < seg_file_size out then Inl KERR_INVAL
              else if seg_flags out AND (IWBF_SEG_FLAG_READ OR IWBF_SEG_FLAG_WRITE OR IWBF_SEG_FLAG_EXEC) = 0 then Inl KERR_INVAL
              else if seg_flags out AND NOT (IWBF_SEG_FLAG_READ OR IWBF_SEG_FLAG_WRITE OR IWBF_SEG_FLAG_EXEC) \<noteq> 0 then Inl KERR_INVAL
              else Inr out)"

subsection \<open>Reading back what was written\<close>

lemma ptr_add_neq: "(buf :: u32) + numeral a = buf + numeral b \<longleftrightarrow> (numeral a :: u32) = numeral b"
  "buf + numeral a = buf \<longleftrightarrow> (numeral a :: u32) = 0" "buf = buf + numeral a \<longleftrightarrow> (numeral a :: u32) = 0"
  "buf + 1 = buf + numeral a \<longleftrightarrow> (1 :: u32) = numeral a" "buf + numeral a = buf + 1 \<longleftrightarrow> (numeral a :: u32) = 1"
  by auto

lemma le16_bytes: "ucast (ucast v :: u8) OR push_bit 8 (ucast (ucast (drop_bit 8 v) :: u8)) = (v :: u16)"
  by (rule bit_word_eqI) (simp add: bit_or_iff bit_part bit_part_0, linarith)

lemma le32_bytes:
  "ucast (ucast v :: u8) OR push_bit 8 (ucast (ucast (drop_bit 8 v) :: u8)) OR
     push_bit 16 (ucast (ucast (drop_bit 16 v) :: u8)) OR push_bit 24 (ucast (ucast (drop_bit 24 v) :: u8)) = (v :: u32)"
  by (rule bit_word_eqI) (simp add: bit_or_iff bit_part bit_part_0, linarith)

lemma le64_bytes:
  "ucast (ucast v :: u8) OR push_bit 8 (ucast (ucast (drop_bit 8 v) :: u8)) OR
     push_bit 16 (ucast (ucast (drop_bit 16 v) :: u8)) OR push_bit 24 (ucast (ucast (drop_bit 24 v) :: u8)) OR
     push_bit 32 (ucast (ucast (drop_bit 32 v) :: u8)) OR push_bit 40 (ucast (ucast (drop_bit 40 v) :: u8)) OR
     push_bit 48 (ucast (ucast (drop_bit 48 v) :: u8)) OR push_bit 56 (ucast (ucast (drop_bit 56 v) :: u8)) = (v :: u64)"
  by (rule bit_word_eqI) (simp add: bit_or_iff bit_part bit_part_0, linarith)

lemma read_write_le16: "read_le16 (write_le16 buf v m) buf = v"
  by (simp add: read_le16_def write_le16_def le16_bytes)

lemma read_write_le32: "read_le32 (write_le32 buf v m) buf = v"
  by (simp add: read_le32_def write_le32_def le32_bytes ptr_add_neq)

lemma read_write_le64: "read_le64 (write_le64 buf v m) buf = v"
  by (simp add: read_le64_def write_le64_def le64_bytes ptr_add_neq)

subsection \<open>The documented layout\<close>

text \<open>The fields of the headers, each at its offset in the layout of the structures.\<close>

definition encode_hdr :: "u32 \<Rightarrow> iwbf32_hdr \<Rightarrow> bytes \<Rightarrow> bytes" where
  "encode_hdr buf h m = write_le32 (buf + 12) (hdr_segment_count h) (write_le32 (buf + 8) (hdr_entry h)
     (write_le16 (buf + 6) (hdr_arch h) (write_le16 (buf + 4) (hdr_type h) (write_le32 buf (hdr_magic h) m))))"

definition encode_segment :: "u32 \<Rightarrow> iwbf32_segment_hdr \<Rightarrow> bytes \<Rightarrow> bytes" where
  "encode_segment buf h m = write_le32 (buf + 16) (seg_flags h) (write_le32 (buf + 12) (seg_mem_size h)
     (write_le32 (buf + 8) (seg_file_size h) (write_le32 (buf + 4) (seg_file_off h) (write_le32 buf (seg_vaddr h) m))))"

definition hdr_ok :: "iwbf32_hdr \<Rightarrow> bool" where
  "hdr_ok h \<longleftrightarrow> hdr_magic h = IWBF_HDR_MAGIC \<and> hdr_type h = IWBF_HDR_TYPE_EXEC \<and> hdr_arch h = IWBF_HDR_ARCH_I386"

definition segment_ok :: "iwbf32_segment_hdr \<Rightarrow> bool" where
  "segment_ok h \<longleftrightarrow> seg_file_size h \<le> seg_mem_size h \<and> seg_flags h \<noteq> 0 \<and> seg_flags h < 8"

lemma le16_low: "ucast (ucast v :: u8) OR push_bit 8 (ucast (ucast (drop_bit 8 v) :: u8)) = (ucast v :: u16)" for v :: u32
proof -
  have "(ucast (ucast (ucast v :: u16) :: u8) :: u16) = ucast (ucast v :: u8)"
    "(ucast (ucast (drop_bit 8 (ucast v :: u16)) :: u8) :: u16) = ucast (ucast (drop_bit 8 v) :: u8)"
    by (rule bit_word_eqI, auto simp: bit_simps)+
  then show ?thesis using le16_bytes [of "ucast v"] by simp
qed

lemmas layout_simps = read_le32_def read_le16_def write_le32_def write_le16_def le32_bytes le16_bytes le16_low ptr_add_neq add.assoc

lemma read_encode_hdr:
  "read_le32 (encode_hdr buf h m) buf = hdr_magic h" "read_le16 (encode_hdr buf h m) (buf + 4) = hdr_type h"
  "read_le16 (encode_hdr buf h m) (buf + 6) = hdr_arch h" "read_le32 (encode_hdr buf h m) (buf + 8) = hdr_entry h"
  "read_le16 (encode_hdr buf h m) (buf + 12) = ucast (hdr_segment_count h)"
  by (simp_all add: encode_hdr_def layout_simps)

lemma read_encode_segment:
  "read_le32 (encode_segment buf h m) buf = seg_vaddr h" "read_le32 (encode_segment buf h m) (buf + 4) = seg_file_off h"
  "read_le32 (encode_segment buf h m) (buf + 8) = seg_file_size h" "read_le32 (encode_segment buf h m) (buf + 12) = seg_mem_size h"
  "read_le32 (encode_segment buf h m) (buf + 16) = seg_flags h"
  by (simp_all add: encode_segment_def layout_simps)

lemma segment_flags_iff: "(x AND 7 \<noteq> 0 \<and> x AND NOT 7 = 0) \<longleftrightarrow> x \<noteq> 0 \<and> x < 8" for x :: u32
proof -
  have m: "(7 :: u32) = mask 3" by (simp add: mask_eq_exp_minus_1)
  have "x AND NOT 7 = 0 \<longleftrightarrow> unat x div 8 * 8 = 0" using unat_and_not_mask [of x 3] by (simp add: m flip: unat_eq_0)
  then have a: "x AND NOT 7 = 0 \<longleftrightarrow> x < 8" by (auto simp: word_less_nat_alt)
  have b: "x AND 7 = x" if "x < 8"
  proof -
    have "x AND 7 = x mod 8" by (simp add: m take_bit_eq_mask [symmetric] take_bit_eq_mod)
    then show ?thesis using that by (simp add: mod_word_less)
  qed
  show ?thesis using a b by metis
qed

lemma iwbf_parse_hdr_encode:
  assumes "hdr_ok h" and "16 \<le> sz"
  shows "iwbf_parse_hdr (encode_hdr buf h m) True buf sz True =
    (let n = ucast (ucast (hdr_segment_count h) :: u16) in if n = 0 then Inl KERR_INVAL else Inr (h\<lparr>hdr_segment_count := n\<rparr>))"
  using assms leD [OF assms(2)] by (simp add: iwbf_parse_hdr_def read_encode_hdr Let_def hdr_ok_def IWBF32_HDR_SIZE_def)

lemma iwbf_parse_segment_encode:
  assumes "20 \<le> sz"
  shows "iwbf_parse_segment_hdr (encode_segment buf h m) True buf sz True = (if segment_ok h then Inr h else Inl KERR_INVAL)"
proof -
  have f: "IWBF_SEG_FLAG_READ OR IWBF_SEG_FLAG_WRITE OR IWBF_SEG_FLAG_EXEC = 7"
    by (simp add: IWBF_SEG_FLAG_READ_def IWBF_SEG_FLAG_WRITE_def IWBF_SEG_FLAG_EXEC_def)
  show ?thesis using assms segment_flags_iff [of "seg_flags h"]
    unfolding iwbf_parse_segment_hdr_def f read_encode_segment Let_def segment_ok_def
    by (auto simp: IWBF32_SEGMENT_HDR_SIZE_def not_less)
qed

subsection \<open>The claims\<close>

text \<open>
  C35. Headers that are laid out as the structures document are parsed back. Of the segment count the
  parser reads only the low 16 bits, although the structure has 32: a header with more than 65535
  segments is accepted with a wrong count, or refused when the low half is 0. A segment header is
  accepted exactly when it is not larger in the file than in memory and has permissions, all known.
\<close>

theorem iwbf_roundtrip:
  assumes "hdr_ok h" and "16 \<le> sz" and "20 \<le> sz'"
  shows "iwbf_parse_hdr (encode_hdr buf h m) True buf sz True =
      (if unat (hdr_segment_count h) mod 65536 = 0 then Inl KERR_INVAL
       else Inr (h\<lparr>hdr_segment_count := hdr_segment_count h mod 65536\<rparr>)) \<and>
    iwbf_parse_segment_hdr (encode_segment buf seg m) True buf sz' True = (if segment_ok seg then Inr seg else Inl KERR_INVAL)"
proof -
  have "(ucast (ucast c :: u16) :: u32) = c mod 65536" for c :: u32
  proof -
    have "(ucast (ucast c :: u16) :: u32) = take_bit 16 c" by (rule bit_word_eqI) (auto simp: bit_simps)
    then show ?thesis by (simp add: take_bit_eq_mod)
  qed
  moreover have "c mod 65536 = 0 \<longleftrightarrow> unat c mod 65536 = 0" for c :: u32
    using unat_mod_word [of c 65536] by (simp flip: unat_eq_0)
  ultimately show ?thesis
    using iwbf_parse_hdr_encode [OF assms(1,2), of buf m] iwbf_parse_segment_encode [OF assms(3), of buf seg m] by (simp add: Let_def)
qed

definition hdr_sample :: iwbf32_hdr where
  "hdr_sample = \<lparr>hdr_magic = 0x46425749, hdr_type = 1, hdr_arch = 1, hdr_entry = 0x400000, hdr_segment_count = 0x10001\<rparr>"

definition seg_sample :: iwbf32_segment_hdr where
  "seg_sample = \<lparr>seg_vaddr = 0x400000, seg_file_off = 36, seg_file_size = 5, seg_mem_size = 0x1000, seg_flags = 5\<rparr>"

theorem iwbf_roundtrip_witness:
  "iwbf_parse_hdr (encode_hdr 0 hdr_sample (\<lambda>_. 0)) True 0 16 True = Inr (hdr_sample\<lparr>hdr_segment_count := 1\<rparr>) \<and>
   iwbf_parse_segment_hdr (encode_segment 0 seg_sample (\<lambda>_. 0)) True 0 20 True = Inr seg_sample"
proof -
  have "hdr_ok hdr_sample"
    by (simp add: hdr_ok_def hdr_sample_def IWBF_HDR_MAGIC_def IWBF_HDR_TYPE_EXEC_def IWBF_HDR_ARCH_I386_def)
  moreover have "segment_ok seg_sample" by (simp add: segment_ok_def seg_sample_def)
  ultimately show ?thesis
    using iwbf_roundtrip [of hdr_sample 16 20 0 "\<lambda>_. 0" seg_sample] by (simp add: hdr_sample_def)
qed

end
