(* ===== verification/X86_Cpu.thy ===== *)
theory X86_Cpu
  imports Prelude
begin

text \<open>
  The processor tables and registers that the x86 port sets up
  (\<^verbatim>\<open>src/kernel/arch/x86/cpu\<close> and \<^verbatim>\<open>src/kernel/arch/x86/interrupt\<close>): segment descriptors and the
  task state segment, interrupt gates, EFLAGS and the CPUID information. The effect of writing EFLAGS
  and of the CPUID instruction belong to the processor and are parameters. The decoding functions of the
  lemmas read a descriptor as the processor does.
\<close>

subsection \<open>gdt.h and gdt.c\<close>

definition X86_GDT_SELECTOR_KERN_CODE :: u16 where "X86_GDT_SELECTOR_KERN_CODE = 0x08"
definition X86_GDT_SELECTOR_KERN_DATA :: u16 where "X86_GDT_SELECTOR_KERN_DATA = 0x10"
definition X86_GDT_SELECTOR_USER_CODE :: u16 where "X86_GDT_SELECTOR_USER_CODE = 0x18 OR 3"
definition X86_GDT_SELECTOR_USER_DATA :: u16 where "X86_GDT_SELECTOR_USER_DATA = 0x20 OR 3"
definition X86_GDT_SELECTOR_TSS :: u16 where "X86_GDT_SELECTOR_TSS = 0x28"

record x86_gdt_raw_entry =
  limit_low :: u16
  base_low :: u16
  base_mid :: u8
  access_byte :: u8
  limit_high_flags :: u8
  base_high :: u8

record x86_gdt_entry =
  ge_limit :: u32
  ge_base :: u32
  ge_access :: u8
  ge_flags :: u8

definition X86_GDT_FLAG_G_MASK :: u8 where "X86_GDT_FLAG_G_MASK = BIT 3"
definition X86_GDT_FLAG_DB_MASK :: u8 where "X86_GDT_FLAG_DB_MASK = BIT 2"
definition X86_GDT_ACCESS_BYTE_P_MASK :: u8 where "X86_GDT_ACCESS_BYTE_P_MASK = BIT 7"
definition X86_GDT_ACCESS_BYTE_S_MASK :: u8 where "X86_GDT_ACCESS_BYTE_S_MASK = BIT 4"
definition X86_GDT_ACCESS_BYTE_E_MASK :: u8 where "X86_GDT_ACCESS_BYTE_E_MASK = BIT 3"
definition X86_GDT_ACCESS_BYTE_RW_MASK :: u8 where "X86_GDT_ACCESS_BYTE_RW_MASK = BIT 1"
definition X86_GDT_ACCESS_BYTE_A_MASK :: u8 where "X86_GDT_ACCESS_BYTE_A_MASK = BIT 0"

record x86_gdt_descriptor =
  gdtr_size :: u16
  gdtr_offset :: u32

definition X86_GDT_ENTRIES :: nat where
  "X86_GDT_ENTRIES = 6"

definition x86_gdt_set_entry :: "nat \<Rightarrow> x86_gdt_entry \<Rightarrow> x86_gdt_raw_entry list \<Rightarrow> x86_gdt_raw_entry list" where
  "x86_gdt_set_entry index e gdt = gdt[index :=
     \<lparr>limit_low = ucast (ge_limit e AND 0xFFFF), base_low = ucast (ge_base e AND 0xFFFF),
      base_mid = ucast (drop_bit 16 (ge_base e) AND 0xFF), access_byte = ge_access e,
      limit_high_flags = ucast (drop_bit 16 (ge_limit e) AND 0x0F) OR (push_bit 4 (ge_flags e) AND 0xF0),
      base_high = ucast (drop_bit 24 (ge_base e) AND 0xFF)\<rparr>]"

definition x86_gdt_raw_zero :: x86_gdt_raw_entry where
  "x86_gdt_raw_zero = \<lparr>limit_low = 0, base_low = 0, base_mid = 0, access_byte = 0, limit_high_flags = 0, base_high = 0\<rparr>"

definition x86_tss_size :: u32 where
  "x86_tss_size = 104"

text \<open>The arguments are the addresses of the tables; the result is the table and its descriptor.\<close>

definition x86_gdt_init :: "u32 \<Rightarrow> u32 \<Rightarrow> x86_gdt_raw_entry list \<times> x86_gdt_descriptor" where
  "x86_gdt_init gdt_addr tss_addr =
     (let gdt_descriptor = \<lparr>gdtr_size = of_nat (8 * X86_GDT_ENTRIES) - 1, gdtr_offset = gdt_addr\<rparr>;
          gdt = replicate X86_GDT_ENTRIES x86_gdt_raw_zero;
          gdt = x86_gdt_set_entry 0 \<lparr>ge_limit = 0, ge_base = 0, ge_access = 0, ge_flags = 0\<rparr> gdt;
          kern_code = \<lparr>ge_limit = 0xFFFFF, ge_base = 0,
            ge_access = X86_GDT_ACCESS_BYTE_P_MASK OR X86_GDT_ACCESS_BYTE_S_MASK OR X86_GDT_ACCESS_BYTE_E_MASK OR
              X86_GDT_ACCESS_BYTE_RW_MASK OR X86_GDT_ACCESS_BYTE_A_MASK,
            ge_flags = X86_GDT_FLAG_G_MASK OR X86_GDT_FLAG_DB_MASK\<rparr>;
          gdt = x86_gdt_set_entry 1 kern_code gdt;
          kern_data = \<lparr>ge_limit = 0xFFFFF, ge_base = 0,
            ge_access = X86_GDT_ACCESS_BYTE_P_MASK OR X86_GDT_ACCESS_BYTE_S_MASK OR
              X86_GDT_ACCESS_BYTE_RW_MASK OR X86_GDT_ACCESS_BYTE_A_MASK,
            ge_flags = X86_GDT_FLAG_G_MASK OR X86_GDT_FLAG_DB_MASK\<rparr>;
          gdt = x86_gdt_set_entry 2 kern_data gdt;
          user_code = \<lparr>ge_limit = 0xFFFFF, ge_base = 0,
            ge_access = (X86_GDT_ACCESS_BYTE_P_MASK OR X86_GDT_ACCESS_BYTE_S_MASK OR X86_GDT_ACCESS_BYTE_E_MASK OR
              X86_GDT_ACCESS_BYTE_RW_MASK OR X86_GDT_ACCESS_BYTE_A_MASK) OR 0b01100000,
            ge_flags = X86_GDT_FLAG_G_MASK OR X86_GDT_FLAG_DB_MASK\<rparr>;
          gdt = x86_gdt_set_entry 3 user_code gdt;
          user_data = \<lparr>ge_limit = 0xFFFFF, ge_base = 0,
            ge_access = (X86_GDT_ACCESS_BYTE_P_MASK OR X86_GDT_ACCESS_BYTE_S_MASK OR
              X86_GDT_ACCESS_BYTE_RW_MASK OR X86_GDT_ACCESS_BYTE_A_MASK) OR 0b01100000,
            ge_flags = X86_GDT_FLAG_G_MASK OR X86_GDT_FLAG_DB_MASK\<rparr>;
          gdt = x86_gdt_set_entry 4 user_data gdt;
          tss_descr = \<lparr>ge_limit = x86_tss_size - 1, ge_base = tss_addr,
            ge_access = X86_GDT_ACCESS_BYTE_P_MASK OR 0x9, ge_flags = 0\<rparr>;
          gdt = x86_gdt_set_entry 5 tss_descr gdt
      in (gdt, gdt_descriptor))"

subsection \<open>tss.c\<close>

text \<open>The fields of the task state segment that the kernel writes; all others stay zero.\<close>

record x86_tss =
  tss_esp0 :: u32
  tss_ss0 :: u16
  tss_iomap_base :: u16

definition x86_tss_init :: x86_tss where
  "x86_tss_init = \<lparr>tss_esp0 = 0, tss_ss0 = X86_GDT_SELECTOR_KERN_DATA, tss_iomap_base = ucast x86_tss_size\<rparr>"

definition x86_tss_set_kernel_stack :: "u32 \<Rightarrow> x86_tss \<Rightarrow> x86_tss" where
  "x86_tss_set_kernel_stack esp0 tss = tss\<lparr>tss_esp0 := esp0\<rparr>"

subsection \<open>idt.c and isr.c\<close>

record x86_idt_raw_entry =
  offset_low :: u16
  segment_selector :: u16
  idt_reserved :: u8
  idt_flags :: u8
  offset_high :: u16

record x86_idt_gate =
  gate_handler :: u32
  gate_selector :: u16
  gate_flags :: u8

record x86_idt_descriptor =
  idtr_size :: u16
  idtr_offset :: u32

definition X86_IDT_ENTRIES :: nat where
  "X86_IDT_ENTRIES = 256"

definition X86_IDT_FLAG_PRESENT_MASK :: u8 where "X86_IDT_FLAG_PRESENT_MASK = BIT 7"
definition X86_IDT_FLAG_DPL_SHIFT :: nat where "X86_IDT_FLAG_DPL_SHIFT = 5"
definition X86_IDT_FLAG_DPL_MASK :: u8 where "X86_IDT_FLAG_DPL_MASK = BIT 5 OR BIT 6"
definition X86_IDT_FLAG_TYPE_MASK :: u8 where "X86_IDT_FLAG_TYPE_MASK = 0x0F"
definition X86_IDT_FLAG_TYPE_SHIFT :: nat where "X86_IDT_FLAG_TYPE_SHIFT = 0"

definition X86_IDT_FLAG_BUILD :: "u8 \<Rightarrow> u8 \<Rightarrow> u8" where
  "X86_IDT_FLAG_BUILD dpl type =
     X86_IDT_FLAG_PRESENT_MASK OR
     FIELD_SET 0 X86_IDT_FLAG_DPL_MASK X86_IDT_FLAG_DPL_SHIFT dpl OR
     FIELD_SET 0 X86_IDT_FLAG_TYPE_MASK X86_IDT_FLAG_TYPE_SHIFT type"

definition X86_IDT_GATE_INT_32 :: u8 where "X86_IDT_GATE_INT_32 = 0xE"
definition X86_IDT_GATE_TRAP_32 :: u8 where "X86_IDT_GATE_TRAP_32 = 0xF"
definition X86_IDT_DPL_RING0 :: u8 where "X86_IDT_DPL_RING0 = 0"
definition X86_IDT_DPL_RING3 :: u8 where "X86_IDT_DPL_RING3 = 3"

definition x86_idt_set_gate :: "u8 \<Rightarrow> x86_idt_gate \<Rightarrow> x86_idt_raw_entry list \<Rightarrow> x86_idt_raw_entry list" where
  "x86_idt_set_gate vector g idt = idt[unat vector :=
     \<lparr>offset_low = ucast (gate_handler g AND 0xFFFF), segment_selector = gate_selector g, idt_reserved = 0,
      idt_flags = gate_flags g, offset_high = ucast (drop_bit 16 (gate_handler g) AND 0xFFFF)\<rparr>]"

definition x86_idt_desc_init :: "u32 \<Rightarrow> x86_idt_descriptor" where
  "x86_idt_desc_init idt_addr = \<lparr>idtr_size = of_nat (8 * X86_IDT_ENTRIES) - 1, idtr_offset = idt_addr\<rparr>"

definition x86_idt_init :: "u32 \<Rightarrow> x86_idt_raw_entry list \<times> x86_idt_descriptor" where
  "x86_idt_init idt_addr =
     (replicate X86_IDT_ENTRIES \<lparr>offset_low = 0, segment_selector = 0, idt_reserved = 0, idt_flags = 0, offset_high = 0\<rparr>,
      x86_idt_desc_init idt_addr)"

text \<open>The flags that \<open>x86_isr_init\<close> chooses for a vector.\<close>

definition x86_isr_flags :: "nat \<Rightarrow> u8" where
  "x86_isr_flags i =
     (if i < 32 then
        let type = (if i = 1 \<or> i = 3 \<or> i = 4 then X86_IDT_GATE_TRAP_32 else X86_IDT_GATE_INT_32)
        in X86_IDT_FLAG_BUILD X86_IDT_DPL_RING0 type
      else if i = 0x80 then X86_IDT_FLAG_BUILD X86_IDT_DPL_RING3 X86_IDT_GATE_TRAP_32
      else X86_IDT_FLAG_BUILD X86_IDT_DPL_RING0 X86_IDT_GATE_INT_32)"

definition x86_isr_init :: "u32 list \<Rightarrow> x86_idt_raw_entry list \<Rightarrow> x86_idt_raw_entry list" where
  "x86_isr_init x86_isr_stub_table idt =
     fold (\<lambda>i. x86_idt_set_gate (of_nat i)
             \<lparr>gate_handler = x86_isr_stub_table ! i, gate_selector = X86_GDT_SELECTOR_KERN_CODE, gate_flags = x86_isr_flags i\<rparr>)
       [0..<X86_IDT_ENTRIES] idt"

text \<open>Where \<open>x86_isr_handler\<close> sends an interrupt.\<close>

datatype isr_target = Nmi_handler | Exception_handler | Irq_handler

definition x86_isr_handler :: "u32 \<Rightarrow> isr_target" where
  "x86_isr_handler int_no =
     (let vector = ucast int_no :: u8
      in if vector = 2 then Nmi_handler
         else if vector < 32 then Exception_handler
         else Irq_handler)"

subsection \<open>exception.c\<close>

datatype exception_type = EXCEPTION_ARITHMETIC | EXCEPTION_UNKNOWN

definition x86_exception_translate :: "u32 \<Rightarrow> exception_type" where
  "x86_exception_translate vector = (if vector = 0 then EXCEPTION_ARITHMETIC else EXCEPTION_UNKNOWN)"

record exception_info =
  exc_type :: exception_type
  exc_ip :: u32
  exc_user_mode :: bool

text \<open>The portable description that \<open>x86_exception_handler\<close> dispatches, from the frame's number, EIP and CS.\<close>

definition x86_exception_handler :: "u32 \<Rightarrow> u32 \<Rightarrow> u32 \<Rightarrow> exception_info" where
  "x86_exception_handler int_no eip cs =
     \<lparr>exc_type = x86_exception_translate int_no, exc_ip = eip, exc_user_mode = (cs AND 3 = 3)\<rparr>"

subsection \<open>flags.c\<close>

definition X86_FLAGS_RESERVED_MASK :: u32 where "X86_FLAGS_RESERVED_MASK = BIT 1"
definition X86_FLAGS_TF_MASK :: u32 where "X86_FLAGS_TF_MASK = BIT 8"
definition X86_FLAGS_IF_MASK :: u32 where "X86_FLAGS_IF_MASK = BIT 9"
definition X86_FLAGS_DF_MASK :: u32 where "X86_FLAGS_DF_MASK = BIT 10"
definition X86_FLAGS_ID_MASK :: u32 where "X86_FLAGS_ID_MASK = BIT 21"

text \<open>
  The state is the register. What the processor makes of a value written to it is the parameter \<open>popf\<close>:
  it gets the value and the old contents.
\<close>

definition x86_cli :: "u32 \<Rightarrow> u32" where
  "x86_cli eflags = MASK_CLEAR eflags X86_FLAGS_IF_MASK"

definition x86_sti :: "u32 \<Rightarrow> u32" where
  "x86_sti eflags = MASK_SET eflags X86_FLAGS_IF_MASK"

definition x86_interrupts_enabled :: "u32 \<Rightarrow> bool" where
  "x86_interrupts_enabled eflags = MASK_TEST eflags X86_FLAGS_IF_MASK"

definition x86_interrupt_save_disable :: "u32 \<Rightarrow> bool \<times> u32" where
  "x86_interrupt_save_disable eflags = (let enabled = x86_interrupts_enabled eflags in (enabled, x86_cli eflags))"

definition x86_interrupt_restore :: "bool \<Rightarrow> u32 \<Rightarrow> u32" where
  "x86_interrupt_restore state eflags = (if state then x86_sti eflags else eflags)"

definition x86_cld :: "u32 \<Rightarrow> u32" where
  "x86_cld eflags = MASK_CLEAR eflags X86_FLAGS_DF_MASK"

definition x86_std :: "u32 \<Rightarrow> u32" where
  "x86_std eflags = MASK_SET eflags X86_FLAGS_DF_MASK"

definition x86_direction_enabled :: "u32 \<Rightarrow> bool" where
  "x86_direction_enabled eflags = MASK_TEST eflags X86_FLAGS_DF_MASK"

definition x86_trap_enable :: "(u32 \<Rightarrow> u32 \<Rightarrow> u32) \<Rightarrow> u32 \<Rightarrow> u32" where
  "x86_trap_enable popf eflags = popf (MASK_SET eflags X86_FLAGS_TF_MASK) eflags"

definition x86_trap_disable :: "(u32 \<Rightarrow> u32 \<Rightarrow> u32) \<Rightarrow> u32 \<Rightarrow> u32" where
  "x86_trap_disable popf eflags = popf (MASK_CLEAR eflags X86_FLAGS_TF_MASK) eflags"

definition x86_trap_enabled :: "u32 \<Rightarrow> bool" where
  "x86_trap_enabled eflags = MASK_TEST eflags X86_FLAGS_TF_MASK"

subsection \<open>cpuid.c\<close>

record x86_cpuid_regs =
  cr_eax :: u32
  cr_ebx :: u32
  cr_ecx :: u32
  cr_edx :: u32

record x86_cpuid_leaf_1 =
  l1_valid :: bool
  l1_stepping :: u8
  l1_model :: u8
  l1_family :: u8
  l1_type :: u8
  l1_extended_model :: u8
  l1_extended_family :: u8
  l1_clflush_size :: u8
  l1_logical_processors :: u8
  l1_initial_apic_id :: u8
  l1_features_ecx :: u32
  l1_features_edx :: u32

record x86_cpu_info =
  ci_vendor :: "u8 list"
  ci_max_basic_leaf :: u32
  ci_max_extended_leaf :: u32
  ci_leaf1 :: x86_cpuid_leaf_1

definition x86_cpuid_supported :: "(u32 \<Rightarrow> u32 \<Rightarrow> u32) \<Rightarrow> u32 \<Rightarrow> bool \<times> u32" where
  "x86_cpuid_supported popf eflags =
     (let old = eflags;
          test = old XOR X86_FLAGS_ID_MASK;
          now = popf test eflags
      in (MASK_TEST (old XOR now) X86_FLAGS_ID_MASK, popf old now))"

definition x86_cpuid_leaf_1_decode :: "x86_cpuid_regs \<Rightarrow> x86_cpuid_leaf_1" where
  "x86_cpuid_leaf_1_decode regs =
     (let eax = cr_eax regs; ebx = cr_ebx regs
      in \<lparr>l1_valid = True,
          l1_stepping = ucast (eax AND 0x0f),
          l1_model = ucast (drop_bit 4 eax AND 0x0f),
          l1_family = ucast (drop_bit 8 eax AND 0x0f),
          l1_type = ucast (drop_bit 12 eax AND 0x03),
          l1_extended_model = ucast (drop_bit 16 eax AND 0x0f),
          l1_extended_family = ucast (drop_bit 20 eax AND 0xff),
          l1_clflush_size = ucast ((drop_bit 8 ebx AND 0xff) * 8),
          l1_logical_processors = ucast (drop_bit 16 ebx AND 0xff),
          l1_initial_apic_id = ucast (drop_bit 24 ebx AND 0xff),
          l1_features_ecx = cr_ecx regs,
          l1_features_edx = cr_edx regs\<rparr>)"

definition reg_bytes :: "u32 \<Rightarrow> u8 list" where
  "reg_bytes r = map (\<lambda>k. ucast (drop_bit (8 * k) r)) [0..<4]"

definition x86_cpuid_leaf_1_zero :: x86_cpuid_leaf_1 where
  "x86_cpuid_leaf_1_zero = \<lparr>l1_valid = False, l1_stepping = 0, l1_model = 0, l1_family = 0, l1_type = 0,
     l1_extended_model = 0, l1_extended_family = 0, l1_clflush_size = 0, l1_logical_processors = 0, l1_initial_apic_id = 0,
     l1_features_ecx = 0, l1_features_edx = 0\<rparr>"

definition x86_cpu_detect ::
  "(u32 \<Rightarrow> u32 \<Rightarrow> u32) \<Rightarrow> (u32 \<Rightarrow> u32 \<Rightarrow> x86_cpuid_regs) \<Rightarrow> u32 \<Rightarrow> bool \<times> x86_cpu_info \<times> u32" where
  "x86_cpu_detect popf cpuid eflags =
     (let info = \<lparr>ci_vendor = replicate 13 0, ci_max_basic_leaf = 0, ci_max_extended_leaf = 0, ci_leaf1 = x86_cpuid_leaf_1_zero\<rparr>
      in case x86_cpuid_supported popf eflags of (supported, eflags) \<Rightarrow>
        if \<not> supported then (False, info, eflags)
        else let regs = cpuid 0 0;
                 info = info\<lparr>ci_max_basic_leaf := cr_eax regs,
                   ci_vendor := reg_bytes (cr_ebx regs) @ reg_bytes (cr_edx regs) @ reg_bytes (cr_ecx regs) @ [0]\<rparr>;
                 regs = cpuid 0x80000000 0;
                 info = info\<lparr>ci_max_extended_leaf := cr_eax regs\<rparr>;
                 info = (if 1 \<le> ci_max_basic_leaf info then info\<lparr>ci_leaf1 := x86_cpuid_leaf_1_decode (cpuid 1 0)\<rparr> else info)
             in (True, info, eflags))"

subsection \<open>Descriptors as the processor reads them\<close>

definition desc_base :: "x86_gdt_raw_entry \<Rightarrow> u32" where
  "desc_base e = ucast (base_low e) OR push_bit 16 (ucast (base_mid e)) OR push_bit 24 (ucast (base_high e))"

definition desc_limit :: "x86_gdt_raw_entry \<Rightarrow> u32" where
  "desc_limit e = ucast (limit_low e) OR push_bit 16 (ucast (limit_high_flags e AND 0x0F))"

definition desc_flags :: "x86_gdt_raw_entry \<Rightarrow> u8" where
  "desc_flags e = drop_bit 4 (limit_high_flags e)"

text \<open>Present, privilege level, and the last byte of the segment.\<close>

definition desc_present :: "x86_gdt_raw_entry \<Rightarrow> bool" where
  "desc_present e = bit (access_byte e) 7"

definition desc_dpl :: "x86_gdt_raw_entry \<Rightarrow> nat" where
  "desc_dpl e = unat (drop_bit 5 (access_byte e) AND 3)"

definition desc_last :: "x86_gdt_raw_entry \<Rightarrow> nat" where
  "desc_last e = (if bit (desc_flags e) 3 then unat (desc_limit e) * 4096 + 4095 else unat (desc_limit e))"

definition gate_offset :: "x86_idt_raw_entry \<Rightarrow> u32" where
  "gate_offset e = ucast (offset_low e) OR push_bit 16 (ucast (offset_high e))"

lemma mask_numerals: "(0xFF :: u32) = mask 8" "(0xFFFF :: u32) = mask 16"
  by (simp_all add: mask_eq_exp_minus_1)

lemma desc_base_set:
  assumes "i < length gdt"
  shows "desc_base (x86_gdt_set_entry i e gdt ! i) = ge_base e"
proof -
  have "ucast (ucast v :: u16) OR push_bit 16 (ucast (ucast (drop_bit 16 v) :: u8)) OR push_bit 24 (ucast (ucast (drop_bit 24 v) :: u8)) = v"
    for v :: u32
    by (rule bit_word_eqI) (simp add: bit_or_iff bit_part bit_part_0, linarith)
  then show ?thesis using assms by (simp add: desc_base_def x86_gdt_set_entry_def mask_numerals ucast_and_mask)
qed

lemma gate_offset_set:
  assumes "unat v < length idt"
  shows "gate_offset (x86_idt_set_gate v g idt ! unat v) = gate_handler g"
proof -
  have "ucast (ucast v :: u16) OR push_bit 16 (ucast (ucast (drop_bit 16 v) :: u16)) = v" for v :: u32
    by (rule bit_word_eqI) (simp add: bit_or_iff bit_part bit_part_0, linarith)
  then show ?thesis using assms by (simp add: gate_offset_def x86_idt_set_gate_def mask_numerals ucast_and_mask)
qed

lemma x86_isr_loop:
  assumes "n \<le> 256" and "length idt = 256"
  shows "length (fold (\<lambda>i. x86_idt_set_gate (of_nat i) (f i)) [0..<n] idt) = 256 \<and>
    (\<forall>i<n. \<exists>idt'. length idt' = 256 \<and> fold (\<lambda>i. x86_idt_set_gate (of_nat i) (f i)) [0..<n] idt ! i = x86_idt_set_gate (of_nat i) (f i) idt' ! i)"
  using assms(1)
proof (induction n)
  case (Suc n)
  let ?t = "fold (\<lambda>i. x86_idt_set_gate (of_nat i) (f i)) [0..<n] idt"
  have len: "length ?t = 256" using Suc by simp
  have u: "unat (of_nat n :: u8) = n" using Suc.prems by (simp add: unat_of_nat_small)
  have "\<exists>idt'. length idt' = 256 \<and> x86_idt_set_gate (of_nat n) (f n) ?t ! i = x86_idt_set_gate (of_nat i) (f i) idt' ! i" if "i < Suc n" for i
  proof (cases "i = n")
    case False
    then have "x86_idt_set_gate (of_nat n) (f n) ?t ! i = ?t ! i" using u by (simp add: x86_idt_set_gate_def)
    then show ?thesis using Suc False that by auto
  qed (use len in blast)
  moreover have "length (x86_idt_set_gate (of_nat n) (f n) ?t) = 256" using len by (simp add: x86_idt_set_gate_def)
  ultimately show ?case by simp
qed (use assms in simp)

subsection \<open>The claims\<close>

text \<open>
  C36. The segment table that is loaded: the null descriptor is empty, the selectors of kernel and
  user code and data name present segments of the privilege level of the selector that span exactly
  4 GiB from address 0, executable for the code selectors and writable for the data selectors, and the
  task selector names the task state segment.
\<close>

theorem x86_gdt_init_correct:
  "case x86_gdt_init gdt_addr tss_addr of (gdt, gdtr) \<Rightarrow>
     length gdt = 6 \<and> gdtr_size gdtr = 47 \<and> gdtr_offset gdtr = gdt_addr \<and> gdt ! 0 = x86_gdt_raw_zero
     \<and> (\<forall>(sel, code) \<in> {(X86_GDT_SELECTOR_KERN_CODE, True), (X86_GDT_SELECTOR_KERN_DATA, False),
            (X86_GDT_SELECTOR_USER_CODE, True), (X86_GDT_SELECTOR_USER_DATA, False)}.
          let e = gdt ! (unat sel div 8) in desc_present e \<and> desc_dpl e = unat sel mod 4 \<and> desc_base e = 0
            \<and> desc_last e = 2 ^ 32 - 1 \<and> bit (access_byte e) 4 \<and> bit (access_byte e) 3 = code \<and> bit (access_byte e) 1)
     \<and> (let e = gdt ! (unat X86_GDT_SELECTOR_TSS div 8) in desc_present e \<and> desc_dpl e = 0 \<and> desc_base e = tss_addr
            \<and> desc_last e + 1 = unat x86_tss_size \<and> access_byte e AND 0x1F = 9)"
proof -
  obtain gdt gdtr where run: "x86_gdt_init gdt_addr tss_addr = (gdt, gdtr)" by (cases "x86_gdt_init gdt_addr tss_addr")
  note masks = X86_GDT_FLAG_G_MASK_def X86_GDT_FLAG_DB_MASK_def X86_GDT_ACCESS_BYTE_P_MASK_def X86_GDT_ACCESS_BYTE_S_MASK_def
    X86_GDT_ACCESS_BYTE_E_MASK_def X86_GDT_ACCESS_BYTE_RW_MASK_def X86_GDT_ACCESS_BYTE_A_MASK_def BIT_def
  have six: "replicate 6 x = [x, x, x, x, x, x]" for x :: x86_gdt_raw_entry by (simp add: numeral_eq_Suc)
  have upd6: "[a, b, c, d, e, f][1 := x] = [a, x, c, d, e, f]" "[a, b, c, d, e, f][2 := x] = [a, b, x, d, e, f]"
    "[a, b, c, d, e, f][3 := x] = [a, b, c, x, e, f]" "[a, b, c, d, e, f][4 := x] = [a, b, c, d, x, f]"
    "[a, b, c, d, e, f][5 := x] = [a, b, c, d, e, x]" for a b c d e f x :: x86_gdt_raw_entry by (simp_all add: numeral_eq_Suc)
  have gdt: "gdt = [x86_gdt_raw_zero,
      \<lparr>limit_low = 0xFFFF, base_low = 0, base_mid = 0, access_byte = 0x9B, limit_high_flags = 0xCF, base_high = 0\<rparr>,
      \<lparr>limit_low = 0xFFFF, base_low = 0, base_mid = 0, access_byte = 0x93, limit_high_flags = 0xCF, base_high = 0\<rparr>,
      \<lparr>limit_low = 0xFFFF, base_low = 0, base_mid = 0, access_byte = 0xFB, limit_high_flags = 0xCF, base_high = 0\<rparr>,
      \<lparr>limit_low = 0xFFFF, base_low = 0, base_mid = 0, access_byte = 0xF3, limit_high_flags = 0xCF, base_high = 0\<rparr>,
      hd (x86_gdt_set_entry 0 \<lparr>ge_limit = 0x67, ge_base = tss_addr, ge_access = 0x89, ge_flags = 0\<rparr> [x86_gdt_raw_zero])]"
    and gdtr: "gdtr = \<lparr>gdtr_size = 47, gdtr_offset = gdt_addr\<rparr>"
    using run six upd6 by (auto simp: x86_gdt_init_def Let_def X86_GDT_ENTRIES_def x86_gdt_set_entry_def masks x86_tss_size_def
        x86_gdt_raw_zero_def)
  define T where "T = hd (x86_gdt_set_entry 0 \<lparr>ge_limit = 0x67, ge_base = tss_addr, ge_access = 0x89, ge_flags = 0\<rparr> [x86_gdt_raw_zero])"
  have T: "desc_base T = tss_addr" "access_byte T = 0x89" "limit_high_flags T = 0" "limit_low T = 0x67"
    using desc_base_set [of 0 "[x86_gdt_raw_zero]" "\<lparr>ge_limit = 0x67, ge_base = tss_addr, ge_access = 0x89, ge_flags = 0\<rparr>"]
    by (simp_all add: T_def x86_gdt_set_entry_def)
  show ?thesis unfolding run gdt [folded T_def] gdtr
    by (simp add: T(2-4) T(1) [unfolded desc_base_def] desc_present_def desc_dpl_def desc_last_def desc_base_def desc_flags_def desc_limit_def Let_def x86_tss_size_def
        X86_GDT_SELECTOR_KERN_CODE_def X86_GDT_SELECTOR_KERN_DATA_def X86_GDT_SELECTOR_USER_CODE_def
        X86_GDT_SELECTOR_USER_DATA_def X86_GDT_SELECTOR_TSS_def)
qed

text \<open>
  C37. The interrupt table after the gates are set: every vector has a present gate into the kernel code
  segment at the address of its stub. Only the system call vector can be raised from user mode, and only
  it and the debug exceptions leave interrupts enabled.
\<close>

theorem x86_isr_init_correct:
  assumes "length idt = 256" and "i < 256" and "e = x86_isr_init stubs idt ! i"
  shows "gate_offset e = stubs ! i \<and> segment_selector e = X86_GDT_SELECTOR_KERN_CODE \<and> bit (idt_flags e) 7
    \<and> (unat (drop_bit 5 (idt_flags e) AND 3) = (if i = 0x80 then 3 else 0))
    \<and> (idt_flags e AND 0x0F = (if i \<in> {1, 3, 4, 0x80} then 0xF else 0xE))"
proof -
  let ?g = "\<lambda>i. \<lparr>gate_handler = stubs ! i, gate_selector = X86_GDT_SELECTOR_KERN_CODE, gate_flags = x86_isr_flags i\<rparr>"
  have u: "unat (of_nat i :: u8) = i" using assms(2) by (simp add: unat_of_nat_small)
  obtain idt' where idt': "length idt' = 256" "e = x86_idt_set_gate (of_nat i) (?g i) idt' ! i"
    using x86_isr_loop [of 256 idt ?g] assms by (auto simp: x86_isr_init_def X86_IDT_ENTRIES_def)
  then have "gate_offset e = stubs ! i" using gate_offset_set [of "of_nat i" idt' "?g i"] u assms(2) by simp
  moreover have "segment_selector e = X86_GDT_SELECTOR_KERN_CODE" "idt_flags e = x86_isr_flags i"
    using idt' u assms(2) by (simp_all add: x86_idt_set_gate_def)
  moreover have "x86_isr_flags i = (if i \<in> {1, 3, 4} then 0x8F else if i = 0x80 then 0xEF else 0x8E)"
    by (simp add: x86_isr_flags_def X86_IDT_FLAG_BUILD_def FIELD_SET_def X86_IDT_FLAG_PRESENT_MASK_def X86_IDT_FLAG_DPL_MASK_def
        X86_IDT_FLAG_TYPE_MASK_def X86_IDT_FLAG_DPL_SHIFT_def X86_IDT_FLAG_TYPE_SHIFT_def X86_IDT_GATE_INT_32_def
        X86_IDT_GATE_TRAP_32_def X86_IDT_DPL_RING0_def X86_IDT_DPL_RING3_def BIT_def Let_def)
  ultimately show ?thesis by auto
qed

theorem x86_gdt_init_correct_witness:
  "desc_dpl (fst (x86_gdt_init 0xC0100000 0xC0101000) ! (unat X86_GDT_SELECTOR_USER_CODE div 8)) = unat X86_GDT_SELECTOR_USER_CODE mod 4
     \<and> desc_base (fst (x86_gdt_init 0xC0100000 0xC0101000) ! (unat X86_GDT_SELECTOR_TSS div 8)) = 0xC0101000"
  using x86_gdt_init_correct [of "0xC0100000" "0xC0101000"] unfolding Let_def by (simp add: case_prod_beta)

theorem x86_isr_init_correct_witness:
  "gate_offset (x86_isr_init (replicate 256 0x100) (fst (x86_idt_init 0)) ! 0x80) = replicate 256 0x100 ! 0x80"
proof -
  have "length (fst (x86_idt_init 0)) = 256" by (simp only: x86_idt_init_def X86_IDT_ENTRIES_def fst_conv length_replicate)
  moreover have "(0x80 :: nat) < 256" by simp
  ultimately show ?thesis by (rule x86_isr_init_correct [OF _ _ refl, THEN conjunct1])
qed

end
