(* ===== verification/Process.thy ===== *)
theory Process
  imports Vmm_Props Iwbf X86_Cpu
begin

text \<open>
  Process identifiers, processes and the loading of executables
  (\<^verbatim>\<open>src/kernel/process/pid.c\<close>, \<^verbatim>\<open>src/kernel/process/process.c\<close> and
  \<^verbatim>\<open>src/kernel/arch/x86/proc.c\<close>): definitions. A process is a block of the kernel heap, known by
  its address. The bytes behind the direct map that belong to the image and to the segments of
  processes are one store of bytes; kernel stacks are words at their kernel addresses.
\<close>

subsection \<open>pid.c\<close>

definition PID_MAX :: int where
  "PID_MAX = 64"

definition PID_FIRST :: int where
  "PID_FIRST = 1"

definition pid_alloc :: "(kern, u32) kfun" where
  "pid_alloc s =
     (case bitmap_find_zero (pid_bm s) of
        None \<Rightarrow> kfail KERR_NOSPC s
      | Some pos \<Rightarrow> kret pos (s\<lparr>pid_bm := bitmap_set (pid_bm s) pos\<rparr>))"

definition pid_free :: "u32 \<Rightarrow> (kern, unit) kfun" where
  "pid_free pid s =
     (if sint pid < PID_FIRST \<or> PID_MAX \<le> sint pid then kfail KERR_INVAL s
      else if \<not> bitmap_test (pid_bm s) pid then kfail KERR_NOENT s
      else kret () (s\<lparr>pid_bm := bitmap_clear (pid_bm s) pid\<rparr>))"

definition pid_init :: "(kern, unit) kfun" where
  "pid_init s = kret () (s\<lparr>pid_bm := bitmap_set (pid_bm s) 0\<rparr>)"

subsection \<open>process.h\<close>

definition PROCESS_MAX :: int where
  "PROCESS_MAX = PID_MAX"

definition USER_STACK_TOP :: vaddr where
  "USER_STACK_TOP = 0xBFFFE000"

definition USER_STACK_SIZE :: size_t where
  "USER_STACK_SIZE = 4 * 4096"

datatype process_state = PROCESS_CREATED | PROCESS_READY | PROCESS_RUNNING | PROCESS_BLOCKED | PROCESS_EXITED

record process =
  proc_name :: vaddr
  proc_pid :: u32
  proc_state :: process_state
  proc_vm :: vm_space
  proc_kstack :: kernel_stack
  proc_entry :: vaddr

text \<open>\<open>sizeof(struct process)\<close>: three words, the list and the directory address, three words, one, and a list node.\<close>

definition process_size :: size_t where
  "process_size = 3 * 4 + (8 + 8) + 3 * 4 + 4 + 8"

definition process_zero :: process where
  "process_zero = \<lparr>proc_name = 0, proc_pid = 0, proc_state = PROCESS_CREATED,
     proc_vm = \<lparr>vs_vmas = [], vs_arch = \<lparr>pd_phys = 0\<rparr>\<rparr>,
     proc_kstack = \<lparr>ks_base = 0, ks_stack_pointer = 0, ks_size = 0\<rparr>, proc_entry = 0\<rparr>"

text \<open>The state: the kernel, memory, the table of processes (addresses) and the processes at their addresses.\<close>

record psys =
  ps_kern :: kern
  ps_ram :: bytes
  ps_stacks :: mem
  process_table :: "vaddr list"
  ps_procs :: "vaddr \<Rightarrow> process"

definition ps_kn :: "(kern, 'a) kfun \<Rightarrow> (psys, 'a) kfun" where
  "ps_kn f = kzoom ps_kern (\<lambda>k s. s\<lparr>ps_kern := k\<rparr>) f"

definition set_proc :: "vaddr \<Rightarrow> (process \<Rightarrow> process) \<Rightarrow> psys \<Rightarrow> psys" where
  "set_proc p f s = s\<lparr>ps_procs := (ps_procs s)(p := f (ps_procs s p))\<rparr>"

text \<open>Running an operation of the virtual memory manager on \<open>&proc->vm\<close>.\<close>

definition ps_vm :: "vaddr \<Rightarrow> (vm_state, 'a) kfun \<Rightarrow> (psys, 'a) kfun" where
  "ps_vm p f s =
     (case f (ps_kern s, proc_vm (ps_procs s p)) of
        (r, (k, v)) \<Rightarrow> (r, set_proc p (\<lambda>proc. proc\<lparr>proc_vm := v\<rparr>) (s\<lparr>ps_kern := k\<rparr>)))"

subsection \<open>process.c\<close>

definition process_get :: "u32 \<Rightarrow> psys \<Rightarrow> vaddr" where
  "process_get pid s = (if sint pid < PID_FIRST \<or> PID_MAX \<le> sint pid then 0 else process_table s ! unat pid)"

text \<open>The result is the pointer that is returned, an error pointer on failure.\<close>

definition process_create :: "vaddr \<Rightarrow> psys \<Rightarrow> vaddr \<times> psys" where
  "process_create name s =
     (if name = 0 then (KERR_PTR KERR_INVAL, s)
      else case ps_kn pid_alloc s of
        (Inl e, s) \<Rightarrow> (KERR_PTR e, s)
      | (Inr pid, s) \<Rightarrow>
          (case kn_kmalloc process_size (ps_kern s) of
             (proc, k) \<Rightarrow>
               let s = s\<lparr>ps_kern := k\<rparr>
               in if KERR_PTR_IS_ERR proc then (proc, snd (ps_kn (pid_free pid) s))
                  else
                    let s = set_proc proc (\<lambda>_. process_zero\<lparr>proc_pid := pid, proc_state := PROCESS_CREATED, proc_name := name\<rparr>) s
                    in case ps_vm proc (vm_space_init True) s of
                         (Inl e, s) \<Rightarrow>
                           let s = snd (ps_kn (pid_free pid) s)
                           in (KERR_PTR e, s\<lparr>ps_kern := kn_kfree proc (ps_kern s)\<rparr>)
                       | (Inr _, s) \<Rightarrow>
                           (case ps_kn (kstack_alloc (Some (proc_kstack (ps_procs s proc)))) s of
                              (Inl e, s) \<Rightarrow>
                                let s = snd (ps_vm proc (vm_space_destroy True) s);
                                    s = snd (ps_kn (pid_free pid) s)
                                in (KERR_PTR e, s\<lparr>ps_kern := kn_kfree proc (ps_kern s)\<rparr>)
                            | (Inr stk, s) \<Rightarrow>
                                let s = set_proc proc (\<lambda>pr. pr\<lparr>proc_kstack := stk\<rparr>) s
                                in (proc, s\<lparr>process_table := (process_table s)[unat pid := proc]\<rparr>))))"

text \<open>The conversion of the permissions of a segment.\<close>

definition segment_vm_flags :: "iwbf32_segment_hdr \<Rightarrow> u32" where
  "segment_vm_flags seg =
     (let vm_flags = VM_USER;
          vm_flags = (if seg_flags seg AND IWBF_SEG_FLAG_READ \<noteq> 0 then vm_flags OR VM_READ else vm_flags);
          vm_flags = (if seg_flags seg AND IWBF_SEG_FLAG_WRITE \<noteq> 0 then vm_flags OR VM_WRITE else vm_flags)
      in if seg_flags seg AND IWBF_SEG_FLAG_EXEC \<noteq> 0 then vm_flags OR VM_EXEC else vm_flags)"

text \<open>Copying the file data of a segment to its memory and clearing the rest.\<close>

definition segment_fill :: "vaddr \<Rightarrow> iwbf32_segment_hdr \<Rightarrow> paddr \<Rightarrow> bytes \<Rightarrow> bytes" where
  "segment_fill img seg phys m =
     (let m = (if seg_file_size seg \<noteq> 0 then memcpy (PHYS_TO_VIRT phys) (img + seg_file_off seg) (seg_file_size seg) m else m)
      in if seg_file_size seg < seg_mem_size seg
         then memset (PHYS_TO_VIRT phys + seg_file_size seg) 0 (seg_mem_size seg - seg_file_size seg) m else m)"

text \<open>The body of the loop of \<open>process_load\<close>.\<close>

definition process_load_segment :: "vaddr \<Rightarrow> vaddr \<Rightarrow> size_t \<Rightarrow> u32 \<Rightarrow> (psys, unit) kfun" where
  "process_load_segment proc img sz i s =
     (let seg_off = IWBF32_HDR_SIZE + IWBF32_SEGMENT_HDR_SIZE * i
      in case iwbf_parse_segment_hdr (ps_ram s) True (img + seg_off) (sz - seg_off) True of
           Inl e \<Rightarrow> kfail e s
         | Inr seg \<Rightarrow>
             if seg_mem_size seg < seg_file_size seg then kfail KERR_INVAL s
             else if sz < seg_file_off seg then kfail KERR_INVAL s
             else if sz - seg_file_off seg < seg_file_size seg then kfail KERR_INVAL s
             else kerr_try (ps_kn (kn_pmm (PMM_ALLOC_LOWMEM (seg_mem_size seg div arch_vm_page_size))))
                    (\<lambda>phys s.
                       case ps_vm proc (vm_map True (seg_vaddr seg) phys (seg_mem_size seg) (segment_vm_flags seg)) s of
                         (Inl e, s) \<Rightarrow> (Inl e, snd (ps_kn (kn_pmm (pmm_free phys (seg_mem_size seg div arch_vm_page_size))) s))
                       | (Inr _, s) \<Rightarrow> kret () (s\<lparr>ps_ram := segment_fill img seg phys (ps_ram s)\<rparr>)) s)"

definition process_load :: "vaddr \<Rightarrow> vaddr \<Rightarrow> size_t \<Rightarrow> (psys, unit) kfun" where
  "process_load proc img sz s =
     (if proc = 0 \<or> img = 0 \<or> sz = 0 then kfail KERR_INVAL s
      else if proc_state (ps_procs s proc) \<noteq> PROCESS_CREATED then kfail KERR_INVAL s
      else case iwbf_parse_hdr (ps_ram s) True img sz True of
             Inl e \<Rightarrow> kfail e s
           | Inr hdr \<Rightarrow>
               kerr_try (kerr_for (words_upto 0 (hdr_segment_count hdr)) (process_load_segment proc img sz))
                 (\<lambda>_ s. kret () (set_proc proc (\<lambda>pr. pr\<lparr>proc_entry := hdr_entry hdr\<rparr>) s)) s)"

subsection \<open>arch/x86/proc.c\<close>

definition arch_process_stack_prepare :: "vaddr \<Rightarrow> (psys, unit) kfun" where
  "arch_process_stack_prepare proc s =
     (if proc = 0 then kfail KERR_INVAL s
      else let pr = ps_procs s proc;
               top = ks_base (proc_kstack pr) + ks_size (proc_kstack pr);
               m = st (top - 4) (ucast X86_GDT_SELECTOR_USER_DATA) (ps_stacks s);
               m = st (top - 8) USER_STACK_TOP m;
               m = st (top - 12) (X86_FLAGS_IF_MASK OR X86_FLAGS_RESERVED_MASK) m;
               m = st (top - 16) (ucast X86_GDT_SELECTOR_USER_CODE) m;
               m = st (top - 20) (proc_entry pr) m
           in kret () (set_proc proc (\<lambda>pr. pr\<lparr>proc_kstack := (proc_kstack pr)\<lparr>ks_stack_pointer := top - 20\<rparr>\<rparr>)
                (s\<lparr>ps_stacks := m\<rparr>)))"

text \<open>The registers that \<open>arch_process_start\<close> leaves: the kernel stack of the task state segment and what IRET pops.\<close>

record iret_frame =
  fr_eip :: u32
  fr_cs :: u32
  fr_eflags :: u32
  fr_esp :: u32
  fr_ss :: u32

definition arch_process_start :: "vaddr \<Rightarrow> psys \<Rightarrow> x86_tss \<Rightarrow> x86_tss \<times> iret_frame" where
  "arch_process_start proc s tss =
     (let pr = ps_procs s proc;
          stack_top = ks_base (proc_kstack pr) + ks_size (proc_kstack pr);
          sp = ks_stack_pointer (proc_kstack pr); m = ps_stacks s
      in (x86_tss_set_kernel_stack stack_top tss,
          \<lparr>fr_eip = ld m sp, fr_cs = ld m (sp + 4), fr_eflags = ld m (sp + 8), fr_esp = ld m (sp + 12), fr_ss = ld m (sp + 16)\<rparr>))"

definition process_prepare :: "vaddr \<Rightarrow> (psys, unit) kfun" where
  "process_prepare proc s =
     (if proc = 0 then kfail KERR_INVAL s
      else if proc_state (ps_procs s proc) \<noteq> PROCESS_CREATED then kfail KERR_INVAL s
      else kerr_try (ps_kn (kn_pmm (PMM_ALLOC_LOWMEM (USER_STACK_SIZE div arch_vm_page_size))))
             (\<lambda>stack_phys. kerr_try (ps_vm proc (vm_map True (USER_STACK_TOP - USER_STACK_SIZE) stack_phys USER_STACK_SIZE
                                 (VM_USER OR VM_READ OR VM_WRITE OR VM_GROWSDOWN)))
                (\<lambda>_. kerr_try (arch_process_stack_prepare proc) (\<lambda>_. kret ()))) s)"

text \<open>\<open>process_start\<close> does not return; \<open>None\<close> is its error return for the NULL pointer.\<close>

definition process_start :: "vaddr \<Rightarrow> psys \<Rightarrow> x86_tss \<Rightarrow> (x86_tss \<times> iret_frame) option" where
  "process_start proc s tss = (if proc = 0 then None else Some (arch_process_start proc s tss))"

end
