(* ===== verification/Process_Props.thy ===== *)
theory Process_Props
  imports Process
begin

text \<open>
  What a process is after it was created, loaded and prepared. The central notion is the byte that a
  program reads at an address of its own: the page tables give the physical address, the direct map the
  byte. The lemmas follow one segment through allocation, mapping and copying, show that later segments
  leave it alone, and then the whole loop.
\<close>

subsection \<open>The memory of a segment\<close>

definition frame_bytes :: "nat \<Rightarrow> u32 set" where
  "frame_bytes f = {a. 0xC0000000 + 4096 * f \<le> unat a \<and> unat a < 0xC0000000 + 4096 * f + 4096}"

lemma sub_less_iff: "fits p n \<Longrightarrow> a - p < n \<longleftrightarrow> unat p \<le> unat a \<and> unat a < unat p + unat n"
proof
  assume fit: "fits p n" and "a - p < n"
  then show "unat p \<le> unat a \<and> unat a < unat p + unat n"
    using fits_add [OF fit, of "a - p"] by (simp add: word_less_nat_alt)
next
  assume "unat p \<le> unat a \<and> unat a < unat p + unat n"
  then show "a - p < n" by (simp add: word_less_nat_alt unat_sub_nowrap less_diff_conv2)
qed

lemma run_bytes:
  assumes "unat p = 0xC0000000 + 4096 * r" and "unat n = 4096 * k" and "r + k \<le> LOWMEM_FRAMES"
  shows "a - p < n \<longleftrightarrow> (\<exists>f. r \<le> f \<and> f < r + k \<and> a \<in> frame_bytes f)"
proof -
  have "fits p n" using assms by (simp add: fits_def LOWMEM_FRAMES_def)
  then have "a - p < n \<longleftrightarrow> 0xC0000000 + 4096 * r \<le> unat a \<and> unat a < 0xC0000000 + 4096 * (r + k)"
    using assms by (simp add: sub_less_iff algebra_simps)
  also have "\<dots> \<longleftrightarrow> (\<exists>f. r \<le> f \<and> f < r + k \<and> a \<in> frame_bytes f)"
  proof
    assume "0xC0000000 + 4096 * r \<le> unat a \<and> unat a < 0xC0000000 + 4096 * (r + k)"
    then have "r \<le> (unat a - 0xC0000000) div 4096" "(unat a - 0xC0000000) div 4096 < r + k" "a \<in> frame_bytes ((unat a - 0xC0000000) div 4096)"
      by (auto simp: frame_bytes_def less_eq_div_iff_mult_less_eq div_less_iff_less_mult algebra_simps)
    then show "\<exists>f. r \<le> f \<and> f < r + k \<and> a \<in> frame_bytes f" by blast
  qed (auto simp: frame_bytes_def)
  finally show ?thesis .
qed

lemma frame_bytes_inj: "a \<in> frame_bytes f \<Longrightarrow> a \<in> frame_bytes g \<Longrightarrow> f = g"
  by (auto simp: frame_bytes_def)

lemma word_sub_shift: "k \<le> n \<Longrightarrow> d - k < n - k \<longleftrightarrow> k \<le> d \<and> d < (n :: u32)"
proof (cases "k \<le> d")
  case True
  then show "k \<le> n \<Longrightarrow> ?thesis" by (auto simp: word_less_nat_alt word_le_nat_alt unat_sub_nowrap)
next
  case False
  assume kn: "k \<le> n"
  have "unat (d - k) = 2 ^ 32 + unat d - unat k"
    using False unat32_lt_pow [of d] by (simp add: unat_sub_if' word_le_nat_alt word_size)
  moreover have "unat n < 2 ^ 32" by (rule unat32_lt_pow)
  moreover have "unat (n - k) = unat n - unat k" "unat k \<le> unat n" using kn by (simp_all add: word_le_nat_alt unat_sub_nowrap)
  ultimately have "\<not> unat (d - k) < unat (n - k)" by linarith
  then have "\<not> d - k < n - k" by (simp add: word_less_nat_alt)
  then show ?thesis using False by simp
qed

lemma segment_fill_eq:
  assumes "seg_file_size seg \<le> seg_mem_size seg"
    and "\<forall>i < seg_mem_size seg. \<forall>j < seg_file_size seg. PHYS_TO_VIRT phys + i \<noteq> img + seg_file_off seg + j"
  shows "segment_fill img seg phys m = (\<lambda>a. let d = a - PHYS_TO_VIRT phys in
    if d < seg_mem_size seg then if d < seg_file_size seg then m (img + seg_file_off seg + d) else 0 else m a)"
proof -
  let ?b = "PHYS_TO_VIRT phys" and ?n = "seg_file_size seg"
  have "memcpy ?b (img + seg_file_off seg) ?n m = copied ?b (img + seg_file_off seg) ?n m"
    using assms by (intro memcpy_disjoint) (auto dest: order.strict_trans2)
  moreover have "copied ?b (img + seg_file_off seg) 0 m = m" by (simp add: copied_def fun_eq_iff)
  ultimately have c: "(if ?n \<noteq> 0 then memcpy ?b (img + seg_file_off seg) ?n m else m) = copied ?b (img + seg_file_off seg) ?n m" by auto
  have shift: "a - (?b + ?n) < seg_mem_size seg - ?n \<longleftrightarrow> ?n \<le> a - ?b \<and> a - ?b < seg_mem_size seg" for a
    using word_sub_shift [OF assms(1), of "a - ?b"] by (simp add: diff_diff_add)
  show ?thesis
  proof (cases "?n < seg_mem_size seg")
    case True
    then show ?thesis by (auto simp: segment_fill_def Let_def c memset_eq shift copied_def fun_eq_iff not_less)
  next
    case False
    then have "seg_mem_size seg = ?n" using assms(1) by simp
    then show ?thesis using False by (auto simp: segment_fill_def Let_def c copied_def fun_eq_iff)
  qed
qed

subsection \<open>Allocation and mapping\<close>

text \<open>Taking a run of low frames keeps an address space as it is.\<close>

lemma kn_pmm_lowmem:
  assumes inv: "pmm_inv (xm_pmm (kn_mm k))" and run: "kn_pmm (PMM_ALLOC_LOWMEM n) k = (Inr phys, k')"
  shows "\<exists>q r. k' = k\<lparr>kn_mm := (kn_mm k)\<lparr>xm_pmm := q\<rparr>\<rparr> \<and> unat phys = 4096 * r \<and> r + unat n \<le> LOWMEM_FRAMES
    \<and> frames_taken (xm_pmm (kn_mm k)) r (unat n) q \<and> pmm_inv q"
proof -
  obtain q where q: "PMM_ALLOC_LOWMEM n (xm_pmm (kn_mm k)) = (Inr phys, q)" "k' = k\<lparr>kn_mm := (kn_mm k)\<lparr>xm_pmm := q\<rparr>\<rparr>"
    using run by (auto simp: kn_pmm_def kzoom_def split: prod.splits)
  have n: "n \<noteq> 0" using q(1) pmm_alloc_zero by (auto simp: PMM_ALLOC_LOWMEM_def)
  from pmm_alloc_strict_spec [OF inv n, of 0 KERNEL_LOWMEM_LIMIT] q(1) pmm_hi_frame_lowmem [of "xm_pmm (kn_mm k)"]
  show ?thesis using q(2) by (auto simp: PMM_ALLOC_LOWMEM_def alloc_post_def intro!: exI [of _ q])
qed

lemma frames_taken_managed: "frames_taken s r n s' \<Longrightarrow> frame_managed s' = frame_managed s"
  by (simp add: frames_taken_def frame_managed_def fun_eq_iff)

lemma space_inv_taken:
  assumes inv: "space_inv (k, v) F" and t: "frames_taken (xm_pmm (kn_mm k)) r n q" and q: "pmm_inv q"
    and k': "k' = k\<lparr>kn_mm := (kn_mm k)\<lparr>xm_pmm := q\<rparr>\<rparr>"
  shows "space_inv (k', v) F" and "translates vm (kn_mm k') a = translates vm (kn_mm k) a"
proof -
  have vinv: "vm_inv (kn_mm k) F" using inv by (simp add: space_inv_def)
  have "\<not> frame_free q f" if "f \<in> space_frames (kn_mm k) F" for f
    using space_frames_owned [OF vinv that] t by (auto simp: owned_def frames_taken_def)
  then have "vm_inv ((kn_mm k)\<lparr>xm_pmm := q\<rparr>) F" by (rule vm_inv_pmm_update [OF vinv q frames_taken_managed [OF t]])
  then show "space_inv (k', v) F"
    using inv unfolding space_inv_def k' by (simp add: heap_areas_def area_mapped_def pmm_update_same)
  show "translates vm (kn_mm k') a = translates vm (kn_mm k) a" by (simp add: k' pmm_update_same)
qed

text \<open>Mapping takes frames but gives none back.\<close>

lemma vm_map_frames:
  assumes inv: "space_inv s F" and fits: "unat virt + unat sz < 2 ^ 32"
    and run: "vm_map True virt phys sz flags s = (Inr (), s')"
  shows "frame_free (xm_pmm (kn_mm (fst s'))) f \<Longrightarrow> frame_free (xm_pmm (kn_mm (fst s))) f" and "unat sz mod 4096 = 0"
proof -
  have ok: "\<not> (sz = 0 \<or> unat virt mod 4096 \<noteq> 0 \<or> unat phys mod 4096 \<noteq> 0 \<or> unat sz mod 4096 \<noteq> 0
      \<or> \<not> vm_user_range_valid virt sz \<or> \<not> vm_phys_range_valid phys sz)"
    using run unfolding vm_map_guard by (auto split: if_splits)
  then show "unat sz mod 4096 = 0" by simp
  have args: "vm_user_range_valid virt sz" "unat virt mod 4096 = 0" "unat sz mod 4096 = 0" "unat virt + unat sz < 2 ^ 32"
    "sz \<noteq> 0" "unat phys mod 4096 = 0" using ok fits by auto
  let ?vm = "vs_arch (snd s)" and ?x = "kn_mm (fst s)"
  have pd: "table_at (pd_phys ?vm) F" and vinv: "vm_inv ?x F" using inv by (auto simp: space_inv_def)
  obtain q t where q: "vm_add_vma True virt sz flags s = (q, t)" by (cases "vm_add_vma True virt sz flags s")
  obtain w x where w: "arch_vm_map (Some ?vm) virt phys sz flags ?x = (w, x)" by (cases "arch_vm_map (Some ?vm) virt phys sz flags ?x")
  have "q = Inr ()" using run ok q unfolding vm_map_guard by (cases q) (auto simp: kerr_try_def)
  then have t: "kn_mm (fst t) = ?x" "vs_arch (snd t) = ?vm" using vm_add_vma_cases [OF inv args(1-4) q] by auto
  have "w = Inr () \<and> s' = ((fst t)\<lparr>kn_mm := x\<rparr>, snd t)"
    using run ok q \<open>q = Inr ()\<close> t w unfolding vm_map_guard by (cases w) (auto simp: kerr_try_def vm_x86_eq)
  moreover have "unat virt + unat sz \<le> 2 ^ 32" using fits by simp
  then have "kept UNIV F ?x x" using arch_vm_map_spec [OF vinv pd args(5,2,6,3) _ UNIV_I w] by blast
  ultimately show "frame_free (xm_pmm (kn_mm (fst s'))) f \<Longrightarrow> frame_free (xm_pmm ?x) f"
    by (auto simp: kept_def)
qed

subsection \<open>One segment\<close>

abbreviation ps_space :: "vaddr \<Rightarrow> psys \<Rightarrow> vm_state" where
  "ps_space p s \<equiv> (ps_kern s, proc_vm (ps_procs s p))"

abbreviation ps_free :: "psys \<Rightarrow> nat \<Rightarrow> bool" where
  "ps_free s f \<equiv> frame_free (xm_pmm (kn_mm (ps_kern s))) f"

abbreviation ps_translates :: "vaddr \<Rightarrow> psys \<Rightarrow> vaddr \<Rightarrow> kerror + paddr" where
  "ps_translates p s a \<equiv> translates (vs_arch (proc_vm (ps_procs s p))) (kn_mm (ps_kern s)) a"

text \<open>The byte that the process reads at one of its addresses.\<close>

definition user_byte :: "vaddr \<Rightarrow> psys \<Rightarrow> vaddr \<Rightarrow> u8 option" where
  "user_byte p s a = (case ps_translates p s a of Inr phys \<Rightarrow> Some (ps_ram s (PHYS_TO_VIRT phys)) | Inl _ \<Rightarrow> None)"

text \<open>The byte that a segment has at an offset: from the file, or zero.\<close>

definition segment_byte :: "bytes \<Rightarrow> vaddr \<Rightarrow> iwbf32_segment_hdr \<Rightarrow> u32 \<Rightarrow> u8" where
  "segment_byte m img seg d = (if d < seg_file_size seg then m (img + seg_file_off seg + d) else 0)"

text \<open>No byte of the image lies in a frame that could be handed out.\<close>

definition image_safe :: "vaddr \<Rightarrow> size_t \<Rightarrow> psys \<Rightarrow> bool" where
  "image_safe img sz s \<longleftrightarrow> (\<forall>k < sz. \<forall>f<LOWMEM_FRAMES. ps_free s f \<longrightarrow> img + k \<notin> frame_bytes f)"

definition segment_loaded :: "vaddr \<Rightarrow> bytes \<Rightarrow> vaddr \<Rightarrow> iwbf32_segment_hdr \<Rightarrow> psys \<Rightarrow> bool" where
  "segment_loaded p m img seg s \<longleftrightarrow> (\<exists>r k. unat (seg_mem_size seg) = 4096 * k \<and> r + k \<le> LOWMEM_FRAMES
     \<and> unat (seg_vaddr seg) + unat (seg_mem_size seg) < 2 ^ 32
     \<and> (\<forall>f. r \<le> f \<and> f < r + k \<longrightarrow> \<not> ps_free s f)
     \<and> (\<exists>v\<in>set (vs_vmas (proc_vm (ps_procs s p))). snd v = new_vma (seg_vaddr seg) (seg_mem_size seg) (segment_vm_flags seg))
     \<and> (\<forall>d < seg_mem_size seg. ps_translates p s (seg_vaddr seg + d) = Inr (of_nat (4096 * r) + ucast d)
          \<and> ps_ram s (of_nat (0xC0000000 + 4096 * r) + d) = segment_byte m img seg d))"

lemma parse_segment_cong:
  assumes "\<forall>j<20. m' (buf + j) = m (buf + j)"
  shows "iwbf_parse_segment_hdr m' b buf n b' = iwbf_parse_segment_hdr m b buf n b'"
proof -
  have "m' (buf + j) = m (buf + j)" if "j < 20" for j using assms that by blast
  note this [simp]
  have "m' buf = m buf" using assms [rule_format, of 0] by simp
  then have "read_le32 m' buf = read_le32 m buf" "read_le32 m' (buf + 4) = read_le32 m (buf + 4)"
    "read_le32 m' (buf + 8) = read_le32 m (buf + 8)" "read_le32 m' (buf + 12) = read_le32 m (buf + 12)"
    "read_le32 m' (buf + 16) = read_le32 m (buf + 16)"
    by (simp_all add: read_le32_def add.assoc)
  then show ?thesis by (simp add: iwbf_parse_segment_hdr_def)
qed

lemma unat_lowmem_virt:
  assumes "unat phys = 4096 * r" and "r < LOWMEM_FRAMES"
  shows "unat (PHYS_TO_VIRT phys) = 0xC0000000 + 4096 * r" and "PHYS_TO_VIRT phys = of_nat (0xC0000000 + 4096 * r)"
proof -
  show u: "unat (PHYS_TO_VIRT phys) = 0xC0000000 + 4096 * r" using assms unat_PHYS_TO_VIRT [of phys] by (simp add: LOWMEM_FRAMES_def)
  show "PHYS_TO_VIRT phys = of_nat (0xC0000000 + 4096 * r)" unfolding u [symmetric] by simp
qed

lemma of_nat_lowmem: "unat (phys :: u64) = 4096 * r \<Longrightarrow> phys = of_nat (4096 * r)"
  by (metis of_nat_unat ucast_id)

lemma in_new_vma: "unat virt + unat sz < 2 ^ 32 \<Longrightarrow> in_vma a (new_vma virt sz flags) \<longleftrightarrow> unat virt \<le> unat a \<and> unat a < unat virt + unat sz"
  by (simp add: in_vma_def unat_add_nowrap)

text \<open>What a successful round of the loop does, before its effect on memory.\<close>

lemma load_segment_run:
  assumes inv: "space_inv (ps_space p s) F" and run: "process_load_segment p img sz i s = (Inr (), s')"
    and parse: "iwbf_parse_segment_hdr (ps_ram s) True (img + (16 + 20 * i)) (sz - (16 + 20 * i)) True = Inr seg"
    and fit: "unat (seg_vaddr seg) + unat (seg_mem_size seg) < 2 ^ 32"
  shows "\<exists>r k phys. unat phys = 4096 * r \<and> unat (seg_mem_size seg) = 4096 * k \<and> 0 < k \<and> r + k \<le> LOWMEM_FRAMES
    \<and> seg_file_size seg \<le> seg_mem_size seg \<and> seg_file_off seg \<le> sz \<and> seg_file_size seg \<le> sz - seg_file_off seg
    \<and> (\<forall>f. r \<le> f \<and> f < r + k \<longrightarrow> ps_free s f) \<and> (\<forall>f. ps_free s' f \<longrightarrow> ps_free s f \<and> \<not> (r \<le> f \<and> f < r + k))
    \<and> space_inv (ps_space p s') F \<and> vs_arch (proc_vm (ps_procs s' p)) = vs_arch (proc_vm (ps_procs s p))
    \<and> range_mapped (vs_arch (proc_vm (ps_procs s p))) (seg_vaddr seg) phys (4096 * k) (kn_mm (ps_kern s)) (kn_mm (ps_kern s'))
    \<and> (\<forall>v\<in>set (vs_vmas (proc_vm (ps_procs s p))). \<forall>a. \<not> (in_vma a (snd v) \<and> in_vma a (new_vma (seg_vaddr seg) (seg_mem_size seg) (segment_vm_flags seg))))
    \<and> (\<exists>q. set (vs_vmas (proc_vm (ps_procs s' p))) = insert (q, new_vma (seg_vaddr seg) (seg_mem_size seg) (segment_vm_flags seg)) (set (vs_vmas (proc_vm (ps_procs s p)))))
    \<and> ps_ram s' = segment_fill img seg phys (ps_ram s)
    \<and> proc_state (ps_procs s' p) = proc_state (ps_procs s p)"
proof -
  let ?n = "seg_mem_size seg div arch_vm_page_size" and ?k = "ps_kern s" and ?v = "proc_vm (ps_procs s p)"
  let ?map = "vm_map True (seg_vaddr seg)"
  have n: "unat ?n = unat (seg_mem_size seg) div 4096" by (simp add: arch_vm_page_size_def X86_PAGE_SIZE_def unat_div)
  have checks: "seg_file_size seg \<le> seg_mem_size seg" "seg_file_off seg \<le> sz" "seg_file_size seg \<le> sz - seg_file_off seg"
    and run2: "kerr_try (ps_kn (kn_pmm (PMM_ALLOC_LOWMEM ?n)))
      (\<lambda>phys s. case ps_vm p (?map phys (seg_mem_size seg) (segment_vm_flags seg)) s of
           (Inl e, s) \<Rightarrow> (Inl e, snd (ps_kn (kn_pmm (pmm_free phys ?n)) s))
         | (Inr _, s) \<Rightarrow> kret () (s\<lparr>ps_ram := segment_fill img seg phys (ps_ram s)\<rparr>)) s = (Inr (), s')"
    using run parse by (auto simp: process_load_segment_def Let_def IWBF32_HDR_SIZE_def IWBF32_SEGMENT_HDR_SIZE_def not_less split: if_splits)
  then obtain phys s1 where a: "ps_kn (kn_pmm (PMM_ALLOC_LOWMEM ?n)) s = (Inr phys, s1)"
    and b: "(case ps_vm p (?map phys (seg_mem_size seg) (segment_vm_flags seg)) s1 of
           (Inl e, s) \<Rightarrow> (Inl e, snd (ps_kn (kn_pmm (pmm_free phys ?n)) s))
         | (Inr _, s) \<Rightarrow> kret () (s\<lparr>ps_ram := segment_fill img seg phys (ps_ram s)\<rparr>)) = (Inr (), s')"
    by (auto simp: kerr_try_eq_Inr)
  obtain k1 where k1: "kn_pmm (PMM_ALLOC_LOWMEM ?n) ?k = (Inr phys, k1)" "s1 = s\<lparr>ps_kern := k1\<rparr>"
    using a by (auto simp: ps_kn_def kzoom_def split: prod.splits)
  have "pmm_inv (xm_pmm (kn_mm ?k))" using inv by (simp add: space_inv_def vm_inv_def)
  from kn_pmm_lowmem [OF this k1(1)] obtain q r where q: "k1 = ?k\<lparr>kn_mm := (kn_mm ?k)\<lparr>xm_pmm := q\<rparr>\<rparr>" "unat phys = 4096 * r"
    "r + unat ?n \<le> LOWMEM_FRAMES" "frames_taken (xm_pmm (kn_mm ?k)) r (unat ?n) q" "pmm_inv q" by blast
  have i1: "space_inv (k1, ?v) F" and t1: "translates vm (kn_mm k1) a = translates vm (kn_mm ?k) a" for vm a
    using space_inv_taken [OF inv q(4,5,1)] by simp_all
  obtain w k2 v2 where m: "?map phys (seg_mem_size seg) (segment_vm_flags seg) (k1, ?v) = (w, (k2, v2))"
    by (cases "?map phys (seg_mem_size seg) (segment_vm_flags seg) (k1, ?v)") auto
  have vm: "ps_vm p (?map phys (seg_mem_size seg) (segment_vm_flags seg)) s1
      = (w, set_proc p (\<lambda>proc. proc\<lparr>proc_vm := v2\<rparr>) (s\<lparr>ps_kern := k2\<rparr>))"
    using m k1(2) by (simp add: ps_vm_def)
  then have w: "w = Inr ()" and s': "s' = (set_proc p (\<lambda>proc. proc\<lparr>proc_vm := v2\<rparr>) (s\<lparr>ps_kern := k2\<rparr>))\<lparr>ps_ram := segment_fill img seg phys (ps_ram s)\<rparr>"
    using b by (cases w; auto simp: set_proc_def)+
  have fit2: "unat (seg_vaddr seg) + unat (seg_mem_size seg) \<noteq> 2 ^ 32" using fit by simp
  from vm_map_result [OF i1 fit2 m] w have res: "space_inv (k2, v2) F" "vs_arch v2 = vs_arch ?v"
    "range_mapped (vs_arch ?v) (seg_vaddr seg) phys (unat (seg_mem_size seg)) (kn_mm k1) (kn_mm k2)"
    "\<forall>v\<in>set (vs_vmas ?v). \<forall>a. \<not> (in_vma a (snd v) \<and> in_vma a (new_vma (seg_vaddr seg) (seg_mem_size seg) (segment_vm_flags seg)))"
    "\<exists>p i. vs_vmas v2 = take i (vs_vmas ?v) @ (p, new_vma (seg_vaddr seg) (seg_mem_size seg) (segment_vm_flags seg)) # drop i (vs_vmas ?v)"
    by auto
  have mem: "unat (seg_mem_size seg) mod 4096 = 0" using vm_map_frames(2) [OF i1 fit] m w by simp
  have free: "frame_free (xm_pmm (kn_mm k2)) f \<Longrightarrow> frame_free q f" for f
    using vm_map_frames(1) [OF i1 fit, where s' = "(k2, v2)"] m w by (simp add: q(1))
  let ?c = "unat (seg_mem_size seg) div 4096"
  have c: "unat (seg_mem_size seg) = 4096 * ?c" using mem by auto
  have "seg_mem_size seg \<noteq> 0" using m w unfolding vm_map_guard by (auto split: if_splits)
  then have "0 < ?c" using c by (metis gr0I mult_0_right unat_eq_0)
  obtain q0 j where ins: "vs_vmas v2 = take j (vs_vmas ?v) @ (q0, new_vma (seg_vaddr seg) (seg_mem_size seg) (segment_vm_flags seg)) # drop j (vs_vmas ?v)"
    using res(5) by blast
  have vmas: "\<exists>q. set (vs_vmas v2) = insert (q, new_vma (seg_vaddr seg) (seg_mem_size seg) (segment_vm_flags seg)) (set (vs_vmas ?v))"
    unfolding ins by (rule exI [of _ q0]) (simp, metis set_append append_take_drop_id)
  have map: "range_mapped (vs_arch ?v) (seg_vaddr seg) phys (4096 * ?c) (kn_mm ?k) (kn_mm k2)"
    using res(3) c by (simp add: range_mapped_def t1)
  have taken: "\<forall>f. r \<le> f \<and> f < r + ?c \<longrightarrow> ps_free s f"
    "\<forall>f. frame_free (xm_pmm (kn_mm k2)) f \<longrightarrow> ps_free s f \<and> \<not> (r \<le> f \<and> f < r + ?c)"
    using q(4) free by (auto simp: frames_taken_def n)
  have s'_simps: "ps_kern s' = k2" "proc_vm (ps_procs s' p) = v2" "ps_ram s' = segment_fill img seg phys (ps_ram s)"
    "proc_state (ps_procs s' p) = proc_state (ps_procs s p)" by (simp_all add: s' set_proc_def)
  have bound: "r + ?c \<le> LOWMEM_FRAMES" using q(3) n by simp
  show ?thesis unfolding s'_simps
    by (intro exI [of _ r] exI [of _ ?c] exI [of _ phys] conjI)
      (fact q(2) c \<open>0 < ?c\<close> bound checks taken res vmas map refl)+
qed

lemma off_add: "unat a + unat j < unat b \<Longrightarrow> unat (a + j) = unat a + unat j" "unat a + unat j < unat b \<Longrightarrow> a + j < b"
  for a :: u32
proof -
  assume lt: "unat a + unat j < unat b"
  from less_trans [OF lt unat32_lt] show "unat (a + j) = unat a + unat j" by (intro unat_add_nowrap) simp
  then show "a + j < b" using lt by (simp add: word_less_nat_alt)
qed

text \<open>The whole round: the segment is in place, and nothing that was in place before has moved.\<close>

lemma load_segment_step:
  assumes inv: "space_inv (ps_space p s) F" and run: "process_load_segment p img sz i s = (Inr (), s')"
    and safe: "image_safe img sz s" and same: "\<forall>k < sz. ps_ram s (img + k) = m (img + k)"
    and tab: "16 + 20 * (unat i + 1) \<le> unat sz"
    and fit: "\<forall>seg. iwbf_parse_segment_hdr m True (img + (16 + 20 * i)) (sz - (16 + 20 * i)) True = Inr seg
      \<longrightarrow> unat (seg_vaddr seg) + unat (seg_mem_size seg) < 2 ^ 32"
  shows "space_inv (ps_space p s') F \<and> image_safe img sz s' \<and> (\<forall>k < sz. ps_ram s' (img + k) = m (img + k))
    \<and> proc_state (ps_procs s' p) = proc_state (ps_procs s p)
    \<and> (\<exists>seg. iwbf_parse_segment_hdr m True (img + (16 + 20 * i)) (sz - (16 + 20 * i)) True = Inr seg \<and> segment_loaded p m img seg s')
    \<and> (\<forall>seg. segment_loaded p m img seg s \<longrightarrow> segment_loaded p m img seg s')"
proof -
  let ?off = "16 + 20 * i :: u32"
  have off: "unat ?off = 16 + 20 * unat i"
  proof -
    have "16 + 20 * unat i < 4294967296" using le_less_trans [OF tab unat32_lt] by simp
    then show ?thesis by (simp add: unat_word_ariths)
  qed
  have "ps_ram s (img + ?off + j) = m (img + ?off + j)" if "j < 20" for j
  proof -
    have "?off + j < sz" using that off tab by (intro off_add(2)) (simp add: word_less_nat_alt)
    then show ?thesis using same by (simp add: add.assoc)
  qed
  then have cong: "iwbf_parse_segment_hdr (ps_ram s) True (img + ?off) n True = iwbf_parse_segment_hdr m True (img + ?off) n True" for n
    by (intro parse_segment_cong) blast
  obtain seg where seg: "iwbf_parse_segment_hdr (ps_ram s) True (img + ?off) (sz - ?off) True = Inr seg"
    using run by (cases "iwbf_parse_segment_hdr (ps_ram s) True (img + ?off) (sz - ?off) True")
      (auto simp: process_load_segment_def Let_def IWBF32_HDR_SIZE_def IWBF32_SEGMENT_HDR_SIZE_def)
  then have parse: "iwbf_parse_segment_hdr m True (img + ?off) (sz - ?off) True = Inr seg" using cong by simp
  have fit': "unat (seg_vaddr seg) + unat (seg_mem_size seg) < 2 ^ 32" using fit parse by blast
  let ?v = "seg_vaddr seg" and ?n = "seg_mem_size seg" and ?new = "new_vma (seg_vaddr seg) (seg_mem_size seg) (segment_vm_flags seg)"
  from load_segment_run [OF inv run seg fit'] obtain r k phys where
    r: "unat phys = 4096 * r" "unat ?n = 4096 * k" "0 < k" "r + k \<le> LOWMEM_FRAMES"
    and f: "seg_file_size seg \<le> ?n" "seg_file_off seg \<le> sz" "seg_file_size seg \<le> sz - seg_file_off seg"
    and free: "\<forall>f. r \<le> f \<and> f < r + k \<longrightarrow> ps_free s f" "\<forall>f. ps_free s' f \<longrightarrow> ps_free s f \<and> \<not> (r \<le> f \<and> f < r + k)"
    and i': "space_inv (ps_space p s') F" and arch: "vs_arch (proc_vm (ps_procs s' p)) = vs_arch (proc_vm (ps_procs s p))"
    and map: "range_mapped (vs_arch (proc_vm (ps_procs s p))) ?v phys (4096 * k) (kn_mm (ps_kern s)) (kn_mm (ps_kern s'))"
    and apart: "\<forall>v\<in>set (vs_vmas (proc_vm (ps_procs s p))). \<forall>a. \<not> (in_vma a (snd v) \<and> in_vma a ?new)"
    and vmas: "\<exists>q. set (vs_vmas (proc_vm (ps_procs s' p))) = insert (q, ?new) (set (vs_vmas (proc_vm (ps_procs s p))))"
    and ram: "ps_ram s' = segment_fill img seg phys (ps_ram s)"
    and st: "proc_state (ps_procs s' p) = proc_state (ps_procs s p)" by blast
  have base: "unat (PHYS_TO_VIRT phys) = 0xC0000000 + 4096 * r" "PHYS_TO_VIRT phys = of_nat (0xC0000000 + 4096 * r)"
    using unat_lowmem_virt [OF r(1)] r(3,4) by simp_all
  note inside = run_bytes [OF base(1) r(2,4)]
  have data: "seg_file_off seg + j < sz" if "j < seg_file_size seg" for j
    using that f by (intro off_add(2)) (simp add: word_less_nat_alt word_le_nat_alt unat_sub_nowrap)
  have out: "\<not> img + d - PHYS_TO_VIRT phys < ?n" if "d < sz" for d
  proof
    assume "img + d - PHYS_TO_VIRT phys < ?n"
    then obtain g where "r \<le> g" "g < r + k" "img + d \<in> frame_bytes g" using inside by blast
    then show False using free(1) safe that r(4) by (auto simp: image_safe_def)
  qed
  have "PHYS_TO_VIRT phys + d \<noteq> img + seg_file_off seg + j" if "d < ?n" "j < seg_file_size seg" for d j
  proof
    assume eq: "PHYS_TO_VIRT phys + d = img + seg_file_off seg + j"
    then have "img + (seg_file_off seg + j) - PHYS_TO_VIRT phys = d" by (metis add.assoc add_diff_cancel_left')
    then show False using out [OF data [OF that(2)]] that(1) by simp
  qed
  then have fill: "ps_ram s' a = (if a - PHYS_TO_VIRT phys < ?n then segment_byte (ps_ram s) img seg (a - PHYS_TO_VIRT phys) else ps_ram s a)" for a
    unfolding ram by (subst segment_fill_eq [OF f(1)]) (auto simp: Let_def segment_byte_def)
  have sb: "segment_byte (ps_ram s) img seg d = segment_byte m img seg d" for d
    using data [of d] same by (simp add: segment_byte_def add.assoc)
  have tr: "ps_translates p s' a = (if unat ?v \<le> unat a \<and> unat a < unat ?v + 4096 * k then Inr (phys_at phys (a - ?v)) else ps_translates p s a)" for a
    using map arch by (simp add: range_mapped_def)
  have "segment_loaded p m img seg s'"
    unfolding segment_loaded_def
  proof (intro exI conjI)
    show "unat ?n = 4096 * k" "r + k \<le> LOWMEM_FRAMES" "unat ?v + unat ?n < 2 ^ 32" by fact+
    show "\<forall>f. r \<le> f \<and> f < r + k \<longrightarrow> \<not> ps_free s' f" using free(2) by blast
    show "\<exists>v\<in>set (vs_vmas (proc_vm (ps_procs s' p))). snd v = ?new" using vmas by auto
    have "ps_translates p s' (?v + d) = Inr (of_nat (4096 * r) + ucast d)" if "d < ?n" for d
    proof -
      have "unat (?v + d) = unat ?v + unat d" using that fit' by (intro unat_add_nowrap) (simp add: word_less_nat_alt)
      moreover have "phys_at phys d = phys + ucast d"
        using that r(1,2,4) by (intro phys_at_below) (simp add: word_less_nat_alt LOWMEM_FRAMES_def)
      ultimately show ?thesis using that r(2) of_nat_lowmem [OF r(1)] by (simp add: tr word_less_nat_alt)
    qed
    moreover have "ps_ram s' (of_nat (0xC0000000 + 4096 * r) + d) = segment_byte m img seg d" if "d < ?n" for d
      using that unfolding base(2) [symmetric] by (simp add: fill sb)
    ultimately show "\<forall>d < ?n. ps_translates p s' (?v + d) = Inr (of_nat (4096 * r) + ucast d)
        \<and> ps_ram s' (of_nat (0xC0000000 + 4096 * r) + d) = segment_byte m img seg d" by blast
  qed
  moreover have "segment_loaded p m img seg' s'" if old: "segment_loaded p m img seg' s" for seg'
  proof -
    obtain r' k' where o: "unat (seg_mem_size seg') = 4096 * k'" "r' + k' \<le> LOWMEM_FRAMES"
      "unat (seg_vaddr seg') + unat (seg_mem_size seg') < 2 ^ 32" "\<forall>f. r' \<le> f \<and> f < r' + k' \<longrightarrow> \<not> ps_free s f"
      "\<exists>v\<in>set (vs_vmas (proc_vm (ps_procs s p))). snd v = new_vma (seg_vaddr seg') (seg_mem_size seg') (segment_vm_flags seg')"
      "\<forall>d < seg_mem_size seg'. ps_translates p s (seg_vaddr seg' + d) = Inr (of_nat (4096 * r') + ucast d)
        \<and> ps_ram s (of_nat (0xC0000000 + 4096 * r') + d) = segment_byte m img seg' d"
      using old unfolding segment_loaded_def by blast
    have "ps_translates p s' (seg_vaddr seg' + d) = ps_translates p s (seg_vaddr seg' + d)" if "d < seg_mem_size seg'" for d
    proof -
      have "unat (seg_vaddr seg' + d) = unat (seg_vaddr seg') + unat d" using that o(3) by (intro unat_add_nowrap) (simp add: word_less_nat_alt)
      then have "in_vma (seg_vaddr seg' + d) (new_vma (seg_vaddr seg') (seg_mem_size seg') (segment_vm_flags seg'))"
        using that in_new_vma [OF o(3)] by (simp add: word_less_nat_alt)
      then have "\<not> in_vma (seg_vaddr seg' + d) ?new" using apart o(5) by auto
      then show ?thesis using in_new_vma [OF fit'] r(2) by (auto simp: tr)
    qed
    moreover have "ps_ram s' (of_nat (0xC0000000 + 4096 * r') + d) = ps_ram s (of_nat (0xC0000000 + 4096 * r') + d)" if d: "d < seg_mem_size seg'" for d
    proof -
      let ?b = "of_nat (0xC0000000 + 4096 * r') :: u32"
      have b: "unat ?b = 0xC0000000 + 4096 * r'" using o(2) by (intro unat_of_nat_small) (simp add: LOWMEM_FRAMES_def)
      have "?b + d - ?b < seg_mem_size seg'" using d by simp
      then obtain g where g: "r' \<le> g" "g < r' + k'" "?b + d \<in> frame_bytes g" using run_bytes [OF b o(1,2)] by blast
      have "\<not> ?b + d - PHYS_TO_VIRT phys < ?n"
      proof
        assume "?b + d - PHYS_TO_VIRT phys < ?n"
        then obtain g' where "r \<le> g'" "g' < r + k" "?b + d \<in> frame_bytes g'" using inside by blast
        then show False using g o(4) free(1) frame_bytes_inj [of "?b + d" g g'] by auto
      qed
      then show ?thesis by (simp add: fill)
    qed
    moreover have "\<exists>v\<in>set (vs_vmas (proc_vm (ps_procs s' p))). snd v = new_vma (seg_vaddr seg') (seg_mem_size seg') (segment_vm_flags seg')"
      using o(5) vmas by auto
    moreover have "\<forall>f. r' \<le> f \<and> f < r' + k' \<longrightarrow> \<not> ps_free s' f" using o(4) free(2) by blast
    ultimately show ?thesis unfolding segment_loaded_def using o(1,2,3,6) by (intro exI [of _ r'] exI [of _ k']) simp
  qed
  moreover have "image_safe img sz s'" using safe free(2) by (auto simp: image_safe_def)
  moreover have "\<forall>d < sz. ps_ram s' (img + d) = m (img + d)" using out same by (simp add: fill)
  ultimately show ?thesis using i' st parse by blast
qed

subsection \<open>The whole image\<close>

definition segment_at :: "bytes \<Rightarrow> vaddr \<Rightarrow> size_t \<Rightarrow> u32 \<Rightarrow> kerror + iwbf32_segment_hdr" where
  "segment_at m img sz i = iwbf_parse_segment_hdr m True (img + (16 + 20 * i)) (sz - (16 + 20 * i)) True"

lemma load_segments:
  assumes "space_inv (ps_space p s) F" and "image_safe img sz s" and "\<forall>k < sz. ps_ram s (img + k) = m (img + k)"
    and "\<forall>i\<in>set is. 16 + 20 * (unat i + 1) \<le> unat sz"
    and "\<forall>i\<in>set is. \<forall>seg. segment_at m img sz i = Inr seg \<longrightarrow> unat (seg_vaddr seg) + unat (seg_mem_size seg) < 2 ^ 32"
    and "kerr_for is (process_load_segment p img sz) s = (Inr (), s')"
  shows "space_inv (ps_space p s') F \<and> (\<forall>i\<in>set is. \<exists>seg. segment_at m img sz i = Inr seg \<and> segment_loaded p m img seg s')
    \<and> (\<forall>seg. segment_loaded p m img seg s \<longrightarrow> segment_loaded p m img seg s')"
  using assms
proof (induction "is" arbitrary: s)
  case (Cons i "is")
  obtain s1 where s1: "process_load_segment p img sz i s = (Inr (), s1)" "kerr_for is (process_load_segment p img sz) s1 = (Inr (), s')"
    using Cons.prems(6) by (auto simp: kerr_try_eq_Inr)
  have "16 + 20 * (unat i + 1) \<le> unat sz"
    and fit: "\<forall>seg. iwbf_parse_segment_hdr m True (img + (16 + 20 * i)) (sz - (16 + 20 * i)) True = Inr seg
      \<longrightarrow> unat (seg_vaddr seg) + unat (seg_mem_size seg) < 2 ^ 32" using Cons.prems(4,5) by (auto simp: segment_at_def)
  note step = load_segment_step [OF Cons.prems(1) s1(1) Cons.prems(2,3) this]
  have rest: "\<forall>i\<in>set is. 16 + 20 * (unat i + 1) \<le> unat sz"
    "\<forall>i\<in>set is. \<forall>seg. segment_at m img sz i = Inr seg \<longrightarrow> unat (seg_vaddr seg) + unat (seg_mem_size seg) < 2 ^ 32"
    using Cons.prems(4,5) by simp_all
  have s1_inv: "space_inv (ps_space p s1) F" "image_safe img sz s1" "\<forall>k < sz. ps_ram s1 (img + k) = m (img + k)" using step by blast+
  from Cons.IH [OF s1_inv rest s1(2)] step show ?case unfolding segment_at_def by (metis set_ConsD)
qed simp

lemma load_segment_frame:
  assumes "process_load_segment p img sz i s = (r, s')"
  shows "proc_entry (ps_procs s' p) = proc_entry (ps_procs s p)" and "proc_state (ps_procs s' p) = proc_state (ps_procs s p)"
  using assms
  by (auto simp: process_load_segment_def Let_def kerr_try_def ps_kn_def kzoom_def ps_vm_def set_proc_def split: sum.splits prod.splits if_splits)

lemma load_segments_frame:
  assumes "kerr_for is (process_load_segment p img sz) s = (r, s')"
  shows "proc_entry (ps_procs s' p) = proc_entry (ps_procs s p) \<and> proc_state (ps_procs s' p) = proc_state (ps_procs s p)"
  by (rule kerr_for_inv [where P = "\<lambda>t. proc_entry (ps_procs t p) = proc_entry (ps_procs s p) \<and> proc_state (ps_procs t p) = proc_state (ps_procs s p)", OF _ _ assms])
    (use load_segment_frame in fastforce)+

lemma user_byte_loaded:
  assumes "segment_loaded p m img seg s" and "d < seg_mem_size seg"
  shows "user_byte p s (seg_vaddr seg + d) = Some (segment_byte m img seg d)"
proof -
  obtain r k where l: "unat (seg_mem_size seg) = 4096 * k" "r + k \<le> LOWMEM_FRAMES"
    "ps_translates p s (seg_vaddr seg + d) = Inr (of_nat (4096 * r) + ucast d)"
    "ps_ram s (of_nat (0xC0000000 + 4096 * r) + d) = segment_byte m img seg d"
    using assms unfolding segment_loaded_def by blast
  have d: "unat d < 4096 * k" using assms(2) l(1) by (simp add: word_less_nat_alt)
  have u: "unat (of_nat (4096 * r) :: u64) = 4096 * r" using l(2) by (intro unat_of_nat_small) (simp add: LOWMEM_FRAMES_def)
  have "unat (of_nat (4096 * r) + ucast d :: u64) = 4096 * r + unat d"
    using d l(2) u by (subst unat_add_nowrap) (simp_all add: LOWMEM_FRAMES_def)
  then have v: "unat (PHYS_TO_VIRT (of_nat (4096 * r) + ucast d)) = 0xC0000000 + 4096 * r + unat d"
    using d l(2) by (subst unat_PHYS_TO_VIRT) (simp_all add: LOWMEM_FRAMES_def)
  have w: "unat (of_nat (0xC0000000 + 4096 * r) + d :: u32) = 0xC0000000 + 4096 * r + unat d"
  proof -
    have "unat (of_nat (0xC0000000 + 4096 * r) :: u32) = 0xC0000000 + 4096 * r"
      using l(2) by (intro unat_of_nat_small) (simp add: LOWMEM_FRAMES_def)
    then show ?thesis using d l(2) by (subst unat_add_nowrap) (simp_all add: LOWMEM_FRAMES_def)
  qed
  have "PHYS_TO_VIRT (of_nat (4096 * r) + ucast d) = of_nat (0xC0000000 + 4096 * r) + d" using v w by (simp only: word_unat_eq_iff)
  then show ?thesis using l(3,4) by (simp add: user_byte_def)
qed

lemma prepared_start:
  assumes inv: "space_inv (ps_space p s) F" and run: "process_prepare p s = (Inr (), s1)"
  shows "\<exists>tss' fr. process_start p s1 tss = Some (tss', fr) \<and> space_inv (ps_space p s1) F
    \<and> fr_eip fr = proc_entry (ps_procs s p) \<and> fr_cs fr = ucast X86_GDT_SELECTOR_USER_CODE \<and> fr_ss fr = ucast X86_GDT_SELECTOR_USER_DATA
    \<and> bit (fr_eflags fr) 9 \<and> fr_esp fr = USER_STACK_TOP
    \<and> (\<forall>a. unat (fr_esp fr) - 16384 \<le> unat a \<and> unat a < unat (fr_esp fr) \<longrightarrow> (\<exists>b. user_byte p s1 a = Some b))
    \<and> tss_esp0 tss' = ks_base (proc_kstack (ps_procs s p)) + ks_size (proc_kstack (ps_procs s p))"
proof -
  let ?k = "ps_kern s" and ?v = "proc_vm (ps_procs s p)" and ?n = "USER_STACK_SIZE div arch_vm_page_size"
  let ?map = "\<lambda>phys. vm_map True (USER_STACK_TOP - USER_STACK_SIZE) phys USER_STACK_SIZE (VM_USER OR VM_READ OR VM_WRITE OR VM_GROWSDOWN)"
  have p: "p \<noteq> 0" using run by (auto simp: process_prepare_def)
  have "kerr_try (ps_kn (kn_pmm (PMM_ALLOC_LOWMEM ?n))) (\<lambda>phys. kerr_try (ps_vm p (?map phys)) (\<lambda>_. kerr_try (arch_process_stack_prepare p) (\<lambda>_. kret ()))) s = (Inr (), s1)"
    using run by (auto simp: process_prepare_def split: if_splits)
  then obtain phys t t2 where t: "ps_kn (kn_pmm (PMM_ALLOC_LOWMEM ?n)) s = (Inr phys, t)" "ps_vm p (?map phys) t = (Inr (), t2)"
    "arch_process_stack_prepare p t2 = (Inr (), s1)" by (auto simp: kerr_try_eq_Inr)
  obtain k1 where a: "kn_pmm (PMM_ALLOC_LOWMEM ?n) ?k = (Inr phys, k1)" and t1: "t = s\<lparr>ps_kern := k1\<rparr>"
    using t(1) by (cases "kn_pmm (PMM_ALLOC_LOWMEM ?n) ?k") (auto simp: ps_kn_def kzoom_def)
  obtain w k2 v2 where m': "?map phys (k1, ?v) = (w, (k2, v2))" by (cases "?map phys (k1, ?v)") auto
  then have m: "?map phys (k1, ?v) = (Inr (), (k2, v2))" and t2: "t2 = set_proc p (\<lambda>proc. proc\<lparr>proc_vm := v2\<rparr>) (s\<lparr>ps_kern := k2\<rparr>)"
    using t(2) by (simp_all add: ps_vm_def t1)
  have b: "arch_process_stack_prepare p (set_proc p (\<lambda>proc. proc\<lparr>proc_vm := v2\<rparr>) (s\<lparr>ps_kern := k2\<rparr>)) = (Inr (), s1)"
    using t(3) t2 by simp
  have n: "unat ?n = 4" "unat USER_STACK_SIZE = 16384" "unat (USER_STACK_TOP - USER_STACK_SIZE) = 0xBFFFA000"
    by (simp_all add: USER_STACK_SIZE_def USER_STACK_TOP_def arch_vm_page_size_def X86_PAGE_SIZE_def)
  have "pmm_inv (xm_pmm (kn_mm ?k))" using inv by (simp add: space_inv_def vm_inv_def)
  from kn_pmm_lowmem [OF this a] n obtain q r where q: "k1 = ?k\<lparr>kn_mm := (kn_mm ?k)\<lparr>xm_pmm := q\<rparr>\<rparr>" "unat phys = 4096 * r"
    "r + 4 \<le> LOWMEM_FRAMES" "frames_taken (xm_pmm (kn_mm ?k)) r 4 q" "pmm_inv q" by auto
  have i1: "space_inv (k1, ?v) F" using space_inv_taken(1) [OF inv q(4,5,1)] .
  have fit: "unat (USER_STACK_TOP - USER_STACK_SIZE) + unat USER_STACK_SIZE \<noteq> 2 ^ 32"
    using n by simp
  from vm_map_result [OF i1 fit m] n(2) have res: "space_inv (k2, v2) F" "vs_arch v2 = vs_arch ?v"
    "range_mapped (vs_arch ?v) (USER_STACK_TOP - USER_STACK_SIZE) phys 16384 (kn_mm k1) (kn_mm k2)" by auto
  let ?top = "ks_base (proc_kstack (ps_procs s p)) + ks_size (proc_kstack (ps_procs s p))"
  have s1: "ps_kern s1 = k2" "proc_vm (ps_procs s1 p) = v2" "ks_stack_pointer (proc_kstack (ps_procs s1 p)) = ?top - 20"
    "ks_base (proc_kstack (ps_procs s1 p)) + ks_size (proc_kstack (ps_procs s1 p)) = ?top"
    "ps_stacks s1 = st (?top - 20) (proc_entry (ps_procs s p)) (st (?top - 16) (ucast X86_GDT_SELECTOR_USER_CODE)
       (st (?top - 12) (X86_FLAGS_IF_MASK OR X86_FLAGS_RESERVED_MASK) (st (?top - 8) USER_STACK_TOP
       (st (?top - 4) (ucast X86_GDT_SELECTOR_USER_DATA) (ps_stacks s)))))"
    using b p by (auto simp: arch_process_stack_prepare_def Let_def set_proc_def)
  have "\<exists>b. user_byte p s1 a = Some b" if "0xBFFFA000 \<le> unat a \<and> unat a < 0xBFFFE000" for a
    using res(3) that n(3) by (auto simp: user_byte_def s1 res(2) range_mapped_def)
  moreover have "t - 20 + 4 = t - 16" "t - 20 + 8 = t - 12" "t - 20 + 12 = t - 8" "t - 20 + 16 = t - 4" for t :: u32 by simp_all
  moreover have "bit (X86_FLAGS_IF_MASK OR X86_FLAGS_RESERVED_MASK) 9" by (simp add: X86_FLAGS_IF_MASK_def X86_FLAGS_RESERVED_MASK_def BIT_def)
  moreover have "(t - x = t - y) = (x = y)" for t x y :: u32 by auto
  ultimately show ?thesis using p res(1)
    by (simp add: process_start_def arch_process_start_def Let_def x86_tss_set_kernel_stack_def s1 ld_st USER_STACK_TOP_def)
qed

lemma prepare_failed:
  assumes "process_prepare p s = (Inl e, s1)"
  shows "ps_stacks s1 = ps_stacks s" "proc_state (ps_procs s1 p) = proc_state (ps_procs s p)"
    "proc_entry (ps_procs s1 p) = proc_entry (ps_procs s p)" "proc_kstack (ps_procs s1 p) = proc_kstack (ps_procs s p)"
  using assms
  by (auto simp: process_prepare_def arch_process_stack_prepare_def Let_def kerr_try_def ps_kn_def kzoom_def ps_vm_def set_proc_def
      split: sum.splits prod.splits if_splits)

subsection \<open>The claims\<close>

text \<open>
  C11. Loading an executable. When it succeeds, the process finds every segment that the image lists at the
  address it asks for: the bytes of the file first, zeros after them; the address space is well-formed and
  the entry point is that of the header. When it fails, the entry point and the state of the process have
  not changed. The image must lie outside the frames that are free, its segment table inside the image, and
  no segment may end at 4 GiB.
\<close>

theorem process_load_correct:
  assumes inv: "space_inv (ps_space p s) F" and safe: "image_safe img sz s"
    and hdr: "iwbf_parse_hdr (ps_ram s) True img sz True = Inr hdr" and tab: "16 + 20 * unat (hdr_segment_count hdr) \<le> unat sz"
    and fit: "\<forall>i<hdr_segment_count hdr. \<forall>seg. segment_at (ps_ram s) img sz i = Inr seg \<longrightarrow> unat (seg_vaddr seg) + unat (seg_mem_size seg) < 2 ^ 32"
    and run: "process_load p img sz s = (r, s')"
  shows "case r of
      Inr _ \<Rightarrow> space_inv (ps_space p s') F \<and> proc_entry (ps_procs s' p) = hdr_entry hdr
        \<and> (\<forall>i<hdr_segment_count hdr. \<exists>seg. segment_at (ps_ram s) img sz i = Inr seg
             \<and> (\<forall>d < seg_mem_size seg. user_byte p s' (seg_vaddr seg + d) = Some (segment_byte (ps_ram s) img seg d)))
    | Inl e \<Rightarrow> proc_entry (ps_procs s' p) = proc_entry (ps_procs s p) \<and> proc_state (ps_procs s' p) = proc_state (ps_procs s p)"
proof (cases "p = 0 \<or> img = 0 \<or> sz = 0 \<or> proc_state (ps_procs s p) \<noteq> PROCESS_CREATED")
  case True
  then have "process_load p img sz s = (Inl KERR_INVAL, s)" unfolding process_load_def kfail_def by (simp only: if_True if_False simp_thms split: if_split) blast
  then show ?thesis using run by simp
next
  case False
  let ?is = "words_upto 0 (hdr_segment_count hdr)"
  obtain q t where t: "kerr_for ?is (process_load_segment p img sz) s = (q, t)" by (cases "kerr_for ?is (process_load_segment p img sz) s")
  show ?thesis
  proof (cases q)
    case (Inl e)
    then have "r = Inl e" "s' = t" using run False hdr t by (simp_all add: process_load_def kerr_try_def)
    then show ?thesis using load_segments_frame [OF t] by simp
  next
    case (Inr u)
    then have r: "r = Inr ()" "s' = set_proc p (\<lambda>pr. pr\<lparr>proc_entry := hdr_entry hdr\<rparr>) t"
      using run False hdr t by (simp_all add: process_load_def kerr_try_def)
    have tab': "\<forall>i\<in>set ?is. 16 + 20 * (unat i + 1) \<le> unat sz" using tab by (auto simp: word_less_nat_alt)
    have fit': "\<forall>i\<in>set ?is. \<forall>seg. segment_at (ps_ram s) img sz i = Inr seg \<longrightarrow> unat (seg_vaddr seg) + unat (seg_mem_size seg) < 2 ^ 32"
      using fit by simp
    have l: "space_inv (ps_space p t) F \<and> (\<forall>i\<in>set ?is. \<exists>seg. segment_at (ps_ram s) img sz i = Inr seg \<and> segment_loaded p (ps_ram s) img seg t)"
      using load_segments [OF inv safe _ tab' fit', of s'] load_segments [OF inv safe _ tab' fit', of t] t Inr by auto
    have same: "user_byte p s' a = user_byte p t a" "ps_space p s' = ps_space p t" for a
      by (simp_all add: user_byte_def r set_proc_def cong: sum.case_cong)
    have "proc_entry (ps_procs s' p) = hdr_entry hdr" by (simp add: r set_proc_def)
    then show ?thesis using l user_byte_loaded [of p "ps_ram s" img _ t] by (simp add: r(1) same) blast
  qed
qed

text \<open>
  C13. What runs when a prepared process is started: the processor pops the entry point, the user code and
  stack segments at the lowest privilege, interrupts enabled, and a stack pointer at the end of sixteen
  kilobytes of memory that the process can read; and the task state segment names the top of the kernel
  stack of the process. When the preparation fails, the descriptor and the kernel stack are as they were.
\<close>

theorem process_start_correct:
  assumes "space_inv (ps_space p s) F" and "process_prepare p s = (r, s1)"
  shows "case r of Inl e \<Rightarrow> ps_stacks s1 = ps_stacks s \<and> proc_state (ps_procs s1 p) = proc_state (ps_procs s p)
        \<and> proc_entry (ps_procs s1 p) = proc_entry (ps_procs s p) \<and> proc_kstack (ps_procs s1 p) = proc_kstack (ps_procs s p)
    | Inr _ \<Rightarrow> (\<exists>tss' fr. process_start p s1 tss = Some (tss', fr) \<and> space_inv (ps_space p s1) F
    \<and> fr_eip fr = proc_entry (ps_procs s p) \<and> fr_cs fr = ucast X86_GDT_SELECTOR_USER_CODE \<and> fr_ss fr = ucast X86_GDT_SELECTOR_USER_DATA
    \<and> bit (fr_eflags fr) 9 \<and> fr_esp fr = USER_STACK_TOP
    \<and> (\<forall>a. unat (fr_esp fr) - 16384 \<le> unat a \<and> unat a < unat (fr_esp fr) \<longrightarrow> (\<exists>b. user_byte p s1 a = Some b))
    \<and> tss_esp0 tss' = ks_base (proc_kstack (ps_procs s p)) + ks_size (proc_kstack (ps_procs s p)))"
  using assms prepared_start [of _ _ _ s1 tss] prepare_failed [of p s _ s1] by (cases r) auto

end
