(* ===== verification/Process_Create.thy ===== *)
theory Process_Create
  imports Process_Props Klib_Fmt
begin

text \<open>
  The creation of processes: the table of processes, the identifiers in use and the heap agree, every
  failure gives the identifier back, and a success uses a fresh identifier and a fresh descriptor. The
  witnesses of the claims on processes are here too.
\<close>

subsection \<open>What the steps leave alone\<close>

text \<open>Everything of the kernel but page tables, frames and stack slots.\<close>

definition same_rest :: "kern \<Rightarrow> kern \<Rightarrow> bool" where
  "same_rest k k' \<longleftrightarrow> pid_bm k' = pid_bm k \<and> kn_heap k' = kn_heap k \<and> kn_kheap k' = kn_kheap k"

lemma same_rest_refl [simp]: "same_rest k k"
  by (simp add: same_rest_def)

lemma same_rest_mm [simp]: "same_rest k (k'\<lparr>kn_mm := x\<rparr>) \<longleftrightarrow> same_rest k k'"
  by (simp add: same_rest_def)

lemma same_rest_bm [simp]: "same_rest k (k'\<lparr>kernel_stack_bm := b\<rparr>) \<longleftrightarrow> same_rest k k'"
  by (simp add: same_rest_def)

lemma same_rest_trans: "same_rest a b \<Longrightarrow> same_rest b c \<Longrightarrow> same_rest a c"
  by (simp add: same_rest_def)

lemma kn_x86_rest: "kn_x86 f k = (r, k') \<Longrightarrow> same_rest k k'"
  by (auto simp: kzoom_def split: prod.splits)

lemma kn_pmm_rest: "kn_pmm f k = (r, k') \<Longrightarrow> same_rest k k'"
  unfolding kn_pmm_def by (rule kn_x86_rest)

lemma vm_kern_map_rest: "vm_kern_map virt phys sz flags k = (r, k') \<Longrightarrow> same_rest k k'"
  by (auto simp: vm_kern_map_def dest: kn_x86_rest split: if_splits)

lemma kstack_map_page_rest:
  assumes "kstack_map_page base i k = (r, k')"
  shows "same_rest k k'"
proof -
  obtain q k1 where q: "kn_pmm (PMM_ALLOC_ANY 1) k = (q, k1)" by (cases "kn_pmm (PMM_ALLOC_ANY 1) k")
  then have "same_rest k k1" by (rule kn_pmm_rest)
  then show ?thesis using assms q
    by (cases q) (auto simp: kstack_map_page_def kerr_try_def dest: vm_kern_map_rest intro: same_rest_trans)
qed

lemma kstack_alloc_rest:
  assumes "kstack_alloc stk k = (r, k')"
  shows "same_rest k k'"
proof -
  have loop: "same_rest k t" if "kerr_for is (kstack_map_page b) k = (q, t)" for "is" b q t
    by (rule kerr_for_inv [where P = "same_rest k", OF _ _ that]) (auto intro: same_rest_trans kstack_map_page_rest)
  show ?thesis
    using assms by (auto simp: kstack_alloc_def kerr_try_def dest!: loop split: option.splits if_splits prod.splits sum.splits)
qed

lemma vm_space_init_rest:
  assumes "vm_space_init True (k, v) = (r, (k', v'))"
  shows "same_rest k k' \<and> vs_vmas v' = []"
proof -
  obtain q x where q: "arch_vm_space_init True (kn_mm k) = (q, x)" by (cases "arch_vm_space_init True (kn_mm k)")
  show ?thesis
  proof (cases q)
    case (Inl e)
    then show ?thesis using assms q by (auto simp: vm_space_init_def kerr_try_def vm_x86_eq)
  next
    case (Inr a)
    let ?k = "k\<lparr>kn_mm := x\<rparr>"
    obtain q2 k2 where q2: "vm_kern_attach (Some a) ?k = (q2, k2)" by (cases "vm_kern_attach (Some a) ?k")
    then have r2: "same_rest ?k k2" by (auto simp: vm_kern_attach_def dest: kn_x86_rest)
    obtain q3 k3 where q3: "kn_x86 (arch_vm_space_destroy (Some a)) k2 = (q3, k3)" by (cases "kn_x86 (arch_vm_space_destroy (Some a)) k2")
    then have "same_rest k2 k3" by (rule kn_x86_rest)
    moreover have "same_rest k k2" using r2 by (simp add: same_rest_def)
    ultimately show ?thesis using assms q Inr q2 q3
      by (cases q2; cases q3) (auto simp: vm_space_init_def kerr_try_def vm_x86_eq intro: same_rest_trans)
  qed
qed

lemma vm_space_destroy_rest:
  assumes "vm_space_destroy True (k, v) = (r, (k', v'))" and "vs_vmas v = []"
  shows "same_rest k k'"
  using assms by (auto simp: vm_space_destroy_def kerr_try_def vm_x86_eq split: prod.splits sum.splits)

subsection \<open>The table of processes\<close>

definition ptab :: "psys \<Rightarrow> (vaddr \<times> size_t) list \<Rightarrow> bool" where
  "ptab s live \<longleftrightarrow> length (process_table s) = 64 \<and> bm_nbits (pid_bm (ps_kern s)) = 64 \<and> bitmap_test (pid_bm (ps_kern s)) 0
     \<and> heap_run (kn_kheap (ps_kern s)) live (kn_heap (ps_kern s))
     \<and> (\<forall>pid<64. process_table s ! unat pid \<noteq> 0 \<longrightarrow> bitmap_test (pid_bm (ps_kern s)) pid
          \<and> proc_pid (ps_procs s (process_table s ! unat pid)) = pid \<and> (process_table s ! unat pid, process_size) \<in> set live)"

definition pids_same :: "kern \<Rightarrow> kern \<Rightarrow> bool" where
  "pids_same k k' \<longleftrightarrow> bm_nbits (pid_bm k') = bm_nbits (pid_bm k) \<and> (\<forall>j. bitmap_test (pid_bm k') j = bitmap_test (pid_bm k) j)"

lemma ptab_kept:
  assumes "ptab s live" and "process_table s' = process_table s" and "pids_same (ps_kern s) (ps_kern s')"
    and "heap_run (kn_kheap (ps_kern s')) live' (kn_heap (ps_kern s'))"
    and "\<forall>x\<in>set live. x \<in> set live' \<and> ps_procs s' (fst x) = ps_procs s (fst x)"
  shows "ptab s' live'"
  using assms unfolding ptab_def pids_same_def by force

lemma sint_small: "unat (x :: u32) < 2 ^ 31 \<Longrightarrow> sint x = int (unat x)"
proof -
  assume "unat x < 2 ^ 31"
  then have "int (unat x) < int (2 ^ 31)" by (simp only: of_nat_less_iff)
  then show ?thesis by (simp add: sint32_cases)
qed

lemma pid_alloc_cases:
  assumes "bm_nbits (pid_bm k) = 64" and "bitmap_test (pid_bm k) 0" and "pid_alloc k = (r, k')"
  shows "r = Inl KERR_NOSPC \<and> k' = k \<or>
    (\<exists>pid. r = Inr pid \<and> 0 < pid \<and> pid < 64 \<and> \<not> bitmap_test (pid_bm k) pid \<and> (\<forall>q<pid. bitmap_test (pid_bm k) q)
       \<and> k' = k\<lparr>pid_bm := bitmap_set (pid_bm k) pid\<rparr>)"
proof (cases "bitmap_find_zero (pid_bm k)")
  case (Some pid)
  then have z: "pid < 64" "\<not> bitmap_test (pid_bm k) pid" "\<forall>q<pid. bitmap_test (pid_bm k) q"
    using bitmap_find_zero_SomeD [OF Some] assms(1) by simp_all
  then have "pid \<noteq> 0" using assms(2) by auto
  then show ?thesis using Some z assms(3) by (auto simp: pid_alloc_def word_neq_0_conv)
qed (use assms in \<open>simp add: pid_alloc_def\<close>)

lemma pid_free_allocated:
  assumes "0 < pid" and "pid < 64" and "bitmap_test (pid_bm k) pid"
  shows "pid_free pid k = (Inr (), k\<lparr>pid_bm := bitmap_clear (pid_bm k) pid\<rparr>)"
proof -
  have "0 < unat pid" "unat pid < 64" using assms by (simp_all add: word_less_nat_alt)
  moreover from this have "sint pid = int (unat pid)" by (intro sint_small) simp
  ultimately have "1 \<le> sint pid" "sint pid < 64" by linarith+
  then show ?thesis using assms(3) unfolding pid_free_def PID_FIRST_def PID_MAX_def by auto
qed

lemma live_nonzero:
  assumes "heap_run kh live m" and "(p, sz) \<in> set live"
  shows "p \<noteq> 0"
proof -
  obtain bs ns where "heap_inv kh bs ns m" "live_blocks bs live" using heap_run_inv [OF assms(1)] by blast
  from live_block [OF this assms(2)] show ?thesis by fastforce
qed

lemma KERR_PTR_err_or_null: "KERR_PTR_IS_ERR (KERR_PTR e) \<or> KERR_PTR e = 0"
  using KERR_PTR_is_err [of e] by (cases "e = KERR_OK") (auto simp: KERR_PTR_def)

lemma ptab_insert:
  assumes t: "ptab s live" and pid: "pid < 64" and h: "heap_run (kn_kheap (ps_kern s')) ((q, process_size) # live) (kn_heap (ps_kern s'))"
    and new: "q \<notin> fst ` set live" and bm: "bm_nbits (pid_bm (ps_kern s')) = 64"
    and bits: "\<And>j. bitmap_test (pid_bm (ps_kern s')) j \<longleftrightarrow> j = pid \<or> bitmap_test (pid_bm (ps_kern s)) j"
    and tab: "process_table s' = (process_table s)[unat pid := q]"
    and pr: "proc_pid (ps_procs s' q) = pid" "\<And>x. x \<noteq> q \<Longrightarrow> ps_procs s' x = ps_procs s x"
  shows "ptab s' ((q, process_size) # live)"
proof -
  have l: "length (process_table s) = 64" "bitmap_test (pid_bm (ps_kern s')) 0" using t bits [of 0] by (auto simp: ptab_def)
  have "bitmap_test (pid_bm (ps_kern s')) j \<and> proc_pid (ps_procs s' (process_table s' ! unat j)) = j
     \<and> (process_table s' ! unat j, process_size) \<in> set ((q, process_size) # live)" if j: "j < 64" "process_table s' ! unat j \<noteq> 0" for j
  proof (cases "j = pid")
    case True
    then show ?thesis using pid l bits pr(1) by (simp add: tab word_less_nat_alt)
  next
    case False
    then have e: "process_table s' ! unat j = process_table s ! unat j" by (simp add: tab word_unat_eq_iff)
    then have o: "bitmap_test (pid_bm (ps_kern s)) j" "proc_pid (ps_procs s (process_table s ! unat j)) = j"
      "(process_table s ! unat j, process_size) \<in> set live" using t j by (auto simp: ptab_def)
    then have "process_table s ! unat j \<noteq> q" using new by force
    then show ?thesis using o bits pr(2) by (simp add: e)
  qed
  then show ?thesis using h bm l by (simp add: ptab_def tab)
qed

subsection \<open>What a failed creation gives back\<close>

text \<open>A live block of more than 24 bytes is never refused by the range check of \<open>kfree\<close>.\<close>

lemma kn_kfree_exact:
  assumes run: "heap_run (kn_kheap s) ((p, sz) # live) (kn_heap s)" and sz: "24 < unat sz"
  shows "heap_run (kn_kheap s) live (kn_heap (kn_kfree p s))"
proof -
  obtain bs ns where inv: "heap_inv (kn_kheap s) bs ns (kn_heap s)" and lb: "live_blocks bs ((p, sz) # live)"
    using heap_run_inv [OF run] by blast
  have "fst ` set ((p, sz) # live) = (\<lambda>b. of_nat (b_addr b + 16)) ` {b \<in> set bs. b_alloc b}" using lb unfolding live_blocks_def by blast
  moreover have "p \<in> fst ` set ((p, sz) # live)" by simp
  ultimately obtain b where b: "b \<in> set bs" "b_alloc b" "p = of_nat (b_addr b + 16)" by blast
  have "request_bytes (b_addr b) sz \<subseteq> payload b"
    using lb b by (auto simp: live_blocks_def simp del: of_nat_add)
  then have "b_addr b + 16 + unat sz \<le> b_addr b + b_size b" using sz by (auto simp: request_bytes_def payload_def)
  then have guard: "b_addr b + 40 < unat (kheap_end (kn_kheap s))" using tiles_bounds [OF heap_invD(2) [OF inv] b(1)] sz by simp
  have "Blk (b_addr b) (b_size b) True \<in> set bs" using b(1,2) by (metis blk.collapse)
  from kfree_block [OF inv this guard] b(3) obtain m' where "kfree (kn_kheap s) p (kn_heap s) = (Inr (), m')" by metis
  from run_free [OF run _ this, of sz] this show ?thesis by (simp add: kn_kfree_def)
qed

lemma total_frames_cong: "frame_managed p' = frame_managed p \<Longrightarrow> unat (pmm_total_frames p') = unat (pmm_total_frames p)"
  unfolding frame_managed_def fun_eq_iff by (metis linorder_neqE_nat order_less_irrefl)

lemma vm_inv_dir:
  assumes "vm_inv s F" and "pmm_inv (xm_pmm s')" and "\<And>f. owned s f \<Longrightarrow> owned s' f" and "\<And>i. i < 1024 \<Longrightarrow> pde s' F i = pde s F i"
  shows "vm_inv s' F"
  using assms by (simp add: vm_inv_def)

lemma finite_free: "finite {f. frame_free p f}"
  by (rule finite_subset [of _ "{..<unat (pmm_total_frames p)}"]) (auto simp: frame_free_def)

text \<open>
  The frames after a failed creation. A stack allocation that runs out of frames half way keeps up to three of them: they
  stay mapped in the area of the kernel stacks.
\<close>

definition frames_back :: "nat \<Rightarrow> kern \<Rightarrow> vaddr \<Rightarrow> kern \<Rightarrow> bool" where
  "frames_back K k p k' \<longleftrightarrow> kern_inv k' K \<and> (\<exists>lost \<subseteq> {x. frame_free (xm_pmm (kn_mm k)) x}. card lost < 4
     \<and> (lost \<noteq> {} \<longrightarrow> p = KERR_PTR KERR_NOMEM \<and> card {x. frame_free (xm_pmm (kn_mm k)) x} \<le> 4)
     \<and> (\<forall>x. frame_free (xm_pmm (kn_mm k')) x \<longleftrightarrow> frame_free (xm_pmm (kn_mm k)) x \<and> x \<notin> lost)
     \<and> (\<forall>x\<in>lost. \<exists>a. 0xF0000000 \<le> unat a \<and> translates (kernel_vm k') (kn_mm k') a = Inr (of_nat (4096 * x))))"

lemma frames_back_same:
  "kern_inv k K \<Longrightarrow> kn_mm k' = kn_mm k \<Longrightarrow> kernel_vm k' = kernel_vm k \<Longrightarrow> frames_back K k p k'"
  by (auto simp: frames_back_def kern_inv_def intro!: exI [of _ "{}"])

text \<open>The space and the stack of the new process: the stack allocation fails, the space is destroyed.\<close>

lemma create_failed_frames:
  assumes inv: "kern_inv k K" and small: "small_memory k" and ok: "stacks_ok k"
    and init: "vm_space_init True (k, v) = (Inr (), (k3, v3))"
    and st: "kstack_alloc (Some stk) k3 = (Inl e, k4)" and fresh: "ks_base stk = 0" "ks_size stk = 0"
    and d: "vm_space_destroy True (k4, v3) = (r, (k5, v5))"
  shows "frames_back K k (KERR_PTR e) k5"
proof -
  note I = kern_invD [OF inv]
  obtain q x where q: "arch_vm_space_init True (kn_mm k) = (q, x)" by fastforce
  obtain vm where vm: "q = Inr vm" using init q by (cases q) (auto simp: vm_space_init_def kerr_try_def vm_x86_eq)
  obtain w y where w: "arch_vm_space_attach_kernel (Some vm) (Some (kernel_vm k)) x = (w, y)" by fastforce
  obtain F where F: "table_at (pd_phys vm) F" "frame_free (xm_pmm (kn_mm k)) F" "w = Inr ()" "vm_inv y F" "vm_inv y K"
      "\<forall>f. frame_free (xm_pmm y) f \<longleftrightarrow> frame_free (xm_pmm (kn_mm k)) f \<and> f \<noteq> F"
      "tables {..<768} y F = {}" "space_frames y K = space_frames (kn_mm k) K" "F \<notin> space_frames (kn_mm k) K"
      "lookup y K = lookup (kn_mm k) K" "\<forall>v<0x100000. large_at y K v = large_at (kn_mm k) K v"
      "\<forall>i<1024. pde y K i = pde (kn_mm k) K i" "frame_managed (xm_pmm y) = frame_managed (xm_pmm (kn_mm k))"
    by (rule space_created [OF I(2,1) q [unfolded vm] w])
  have k3: "k3 = k\<lparr>kn_mm := y\<rparr>" "vs_vmas v3 = []" "vs_arch v3 = vm"
    using init q vm w F(3) by (auto simp: vm_space_init_def kerr_try_def vm_x86_eq vm_kern_attach_def kzoom_def)
  have inv3: "kern_inv k3 K" using I(1,3) F(5,12) by (simp add: kern_inv_def k3)
  have tr3: "translates (kernel_vm k) y a = translates (kernel_vm k) (kn_mm k) a" for a
    by (rule translates_same [OF I(2) F(5) I(1) F(10)]) (use F(11) in blast)
  have ok3: "stacks_ok k3" using ok by (simp add: stacks_ok_def k3 tr3)
  have small3: "small_memory k3" using small total_frames_cong [OF F(13)] by (simp add: small_memory_def k3)
  have "\<exists>n fs base. stack_pages base \<and> stack_part k3 k4 K base 0 n fs \<and> n < 4
      \<and> (0 < n \<longrightarrow> e = KERR_NOMEM \<and> (\<forall>f. \<not> frame_free (xm_pmm (kn_mm k4)) f))"
    using kstack_alloc_Inl [OF inv3 small3 ok3 fresh st]
  proof (elim disjE exE conjE)
    assume "k4 = k3"
    then show ?thesis using stack_part_0 [OF inv3] kstack_base_at(2) [of 0]
      by (intro exI [of _ 0] exI [of _ undefined] exI [of _ "kstack_base 0"]) simp
  qed (use kstack_base_at(2) in blast)
  then obtain n fs base where n: "stack_pages base" "stack_part k3 k4 K base 0 n fs" "n < 4"
      "0 < n \<longrightarrow> e = KERR_NOMEM \<and> (\<forall>f. \<not> frame_free (xm_pmm (kn_mm k4)) f)" by blast
  note P = stack_partD [OF n(2)]
  have vm4: "kernel_vm k4 = kernel_vm k" using only_mmD(1) [OF P(2)] by (simp add: k3)
  have free4: "frame_free (xm_pmm (kn_mm k4)) f \<longleftrightarrow> frame_free (xm_pmm (kn_mm k)) f \<and> f \<noteq> F \<and> f \<notin> fs ` {0..<n}" for f
    using P(5) F(6) by (simp add: k3)
  have pdF: "pde (kn_mm k4) F i = pde y F i" if "i < 1024" for i
    using kstack_alloc_mem [OF inv3 small3 ok3 st, of F i] that F(6,8,9) by (simp add: pde_def k3)
  have vF: "vm_inv (kn_mm k4) F"
    by (rule vm_inv_dir [OF F(4) vm_invD(1) [OF kern_invD(2) [OF P(1)]] _ pdF])
      (use P(6) free4 F(6) in \<open>auto simp: owned_def k3\<close>)
  have "tables {..<768} (kn_mm k4) F = {}" using F(7) tables_cong [of "{..<768}" "kn_mm k4" F y] pdF by simp
  then obtain p where p: "arch_vm_space_destroy (Some vm) (kn_mm k4) = (Inr (vm\<lparr>pd_phys := 0\<rparr>), (kn_mm k4)\<lparr>xm_pmm := p\<rparr>)"
      "pmm_inv p" "frame_managed p = frame_managed (xm_pmm (kn_mm k4))"
      "\<forall>f. frame_free p f \<longleftrightarrow> f = F \<or> frame_free (xm_pmm (kn_mm k4)) f"
    using arch_vm_space_destroy_ok [OF vF F(1)] by (auto simp: reach_def)
  have k5: "k5 = k4\<lparr>kn_mm := (kn_mm k4)\<lparr>xm_pmm := p\<rparr>\<rparr>"
    using d p(1) k3(2,3) by (simp add: vm_space_destroy_def kerr_try_def vm_x86_eq)
  have "frame_free (xm_pmm (kn_mm k)) (fs i) \<and> fs i \<noteq> F" if "i < n" for i using P(4) [of i] F(6) that by (simp add: k3)
  then have fsF: "F \<notin> fs ` {0..<n}" "fs ` {0..<n} \<subseteq> {x. frame_free (xm_pmm (kn_mm k)) x}" by (auto, blast)
  have sf: "space_frames (kn_mm k4) K = space_frames y K"
    using tables_cong [of UNIV "kn_mm k4" K y] P(7) by (simp add: space_frames_def k3)
  have "\<not> frame_free p f" if "f \<in> space_frames (kn_mm k4) K" for f
    using that space_frames_owned [OF kern_invD(2) [OF P(1)] that] sf F(8,9) p(4) by (auto simp: owned_def)
  then have "vm_inv ((kn_mm k4)\<lparr>xm_pmm := p\<rparr>) K" by (rule vm_inv_pmm_update [OF kern_invD(2) [OF P(1)] p(2,3)])
  then have inv5: "kern_inv k5 K" using kern_invD(1,3) [OF P(1)] by (simp add: kern_inv_def k5 pmm_update_same)
  have stay: "\<exists>a. 0xF0000000 \<le> unat a \<and> translates (kernel_vm k5) (kn_mm k5) a = Inr (of_nat (4096 * fs i))" if i: "i < n" for i
  proof -
    let ?a = "base + of_nat i * arch_vm_page_size :: vaddr"
    have a: "unat ?a = unat base + 4096 * i" "unat base mod 4096 = 0" "0xF0000000 \<le> unat base"
      using stack_page(1) [OF n(1), of i] i n(1,3) by (auto simp: stack_pages_def)
    then have "(unat ?a - unat base) div 4096 = i" "unat ?a mod 4096 = 0" by (simp_all add: mod_mult2_eq)
    then have "translates (kernel_vm k) (kn_mm k4) ?a = Inr (of_nat (4096 * fs i))" using P(8) [of ?a] a(1) i by (simp add: k3)
    then show ?thesis using a by (intro exI [of _ ?a]) (simp add: k5 vm4 pmm_update_same)
  qed
  have few: "card {x. frame_free (xm_pmm (kn_mm k)) x} \<le> 4" if "0 < n"
  proof -
    have "{x. frame_free (xm_pmm (kn_mm k)) x} \<subseteq> insert F (fs ` {0..<n})" using free4 n(4) that by blast
    then have "card {x. frame_free (xm_pmm (kn_mm k)) x} \<le> card (insert F (fs ` {0..<n}))" by (rule card_mono [rotated]) simp
    also have "\<dots> \<le> Suc n" using card_image_le [of "{0..<n}" fs] by (simp add: card_insert_if)
    finally show ?thesis using n(3) by simp
  qed
  have "frame_free (xm_pmm (kn_mm k5)) f \<longleftrightarrow> frame_free (xm_pmm (kn_mm k)) f \<and> f \<notin> fs ` {0..<n}" for f
    using p(4) free4 F(2) fsF(1) by (auto simp: k5)
  then have given: "\<forall>f. frame_free (xm_pmm (kn_mm k5)) f \<longleftrightarrow> frame_free (xm_pmm (kn_mm k)) f \<and> f \<notin> fs ` {0..<n}" by blast
  have "card (fs ` {0..<n}) < 4" using card_image_le [of "{0..<n}" fs] n(3) by simp
  moreover have "fs ` {0..<n} \<noteq> {} \<longrightarrow> KERR_PTR e = KERR_PTR KERR_NOMEM \<and> card {x. frame_free (xm_pmm (kn_mm k)) x} \<le> 4"
    using n(4) few by (cases n) simp_all
  moreover have "\<forall>x\<in>fs ` {0..<n}. \<exists>a. 0xF0000000 \<le> unat a \<and> translates (kernel_vm k5) (kn_mm k5) a = Inr (of_nat (4096 * x))"
    using stay by (simp only: ball_simps atLeast0LessThan) blast
  ultimately show ?thesis unfolding frames_back_def
    by (intro conjI inv5 exI [of _ "fs ` {0..<n}"] fsF(2) given)
qed

text \<open>The two ways in which a creation ends once the descriptor is allocated.\<close>

lemma create_undo:
  assumes t: "ptab s live" and pid: "0 < pid" "pid < 64" "\<not> bitmap_test (pid_bm (ps_kern s)) pid"
    and run: "heap_run (kn_kheap (ps_kern s)) ((p, process_size) # live) h" and p: "p \<notin> fst ` set live"
    and u: "pid_bm (ps_kern u) = bitmap_set (pid_bm (ps_kern s)) pid" "kn_heap (ps_kern u) = h" "kn_kheap (ps_kern u) = kn_kheap (ps_kern s)"
      "process_table u = process_table s" "\<forall>q. q \<noteq> p \<longrightarrow> ps_procs u q = ps_procs s q"
    and s': "s' = (let u = snd (ps_kn (pid_free pid) u) in u\<lparr>ps_kern := kn_kfree p (ps_kern u)\<rparr>)"
  shows "ptab s' live" and "process_table s' = process_table s" and "pids_same (ps_kern s) (ps_kern s')"
    and "kn_mm (ps_kern s') = kn_mm (ps_kern u)" and "kernel_vm (ps_kern s') = kernel_vm (ps_kern u)"
proof -
  let ?k = "(ps_kern u)\<lparr>pid_bm := bitmap_clear (pid_bm (ps_kern u)) pid\<rparr>"
  have "bitmap_test (pid_bm (ps_kern u)) pid" using u(1) by (simp add: bitmap_test_set)
  then have s'': "s' = u\<lparr>ps_kern := kn_kfree p ?k\<rparr>"
    using pid_free_allocated [OF pid(1,2), of "ps_kern u"] by (simp add: s' ps_kn_def kzoom_def)
  then show tab: "process_table s' = process_table s" using u(4) by simp
  have "pid_bm (kn_kfree p ?k) = pid_bm ?k" by (simp add: kn_kfree_def)
  then show same: "pids_same (ps_kern s) (ps_kern s')"
    using pid(3) by (auto simp: pids_same_def s'' u(1) bitmap_test_clear bitmap_test_set)
  have "heap_run (kn_kheap ?k) ((p, process_size) # live) (kn_heap ?k)" using run u by simp
  then have "heap_run (kn_kheap ?k) live (kn_heap (kn_kfree p ?k))" by (rule kn_kfree_exact) (simp add: process_size_def)
  then have l: "heap_run (kn_kheap (ps_kern s')) live (kn_heap (ps_kern s'))" by (simp add: s'')
  have "\<forall>x\<in>set live. x \<in> set live \<and> ps_procs s' (fst x) = ps_procs s (fst x)" using p u(5) by (force simp: s'')
  then show "ptab s' live" using ptab_kept [OF t tab same l] by blast
  show "kn_mm (ps_kern s') = kn_mm (ps_kern u)" "kernel_vm (ps_kern s') = kernel_vm (ps_kern u)" by (simp_all add: s'')
qed

subsection \<open>The claims\<close>

lemma process_create_spec:
  assumes t: "ptab s live" and run: "process_create name s = (p, s')"
  shows "\<exists>live'. ptab s' live' \<and>
    (if KERR_PTR_IS_ERR p \<or> p = 0
     then live' = live \<and> process_table s' = process_table s \<and> pids_same (ps_kern s) (ps_kern s')
       \<and> (\<forall>K. kern_inv (ps_kern s) K \<and> small_memory (ps_kern s) \<and> stacks_ok (ps_kern s) \<longrightarrow> frames_back K (ps_kern s) p (ps_kern s'))
     else live' = (p, process_size) # live \<and> (\<exists>pid. 0 < pid \<and> pid < 64 \<and> \<not> bitmap_test (pid_bm (ps_kern s)) pid \<and> (\<forall>q<pid. bitmap_test (pid_bm (ps_kern s)) q)
       \<and> process_get pid s' = p \<and> process_table s' = (process_table s)[unat pid := p]
       \<and> (\<forall>j. bitmap_test (pid_bm (ps_kern s')) j \<longleftrightarrow> j = pid \<or> bitmap_test (pid_bm (ps_kern s)) j)
       \<and> proc_pid (ps_procs s' p) = pid \<and> proc_state (ps_procs s' p) = PROCESS_CREATED \<and> proc_name (ps_procs s' p) = name))"
proof (cases "name = 0")
  case True
  then have "p = KERR_PTR KERR_INVAL" "s' = s" using run by (simp_all add: process_create_def)
  then show ?thesis using t KERR_PTR_is_err [of KERR_INVAL] frames_back_same by (auto simp: pids_same_def)
next
  case name: False
  let ?k = "ps_kern s"
  obtain r k1 where a: "pid_alloc ?k = (r, k1)" by (cases "pid_alloc ?k")
  have k: "bm_nbits (pid_bm ?k) = 64" "bitmap_test (pid_bm ?k) 0" "heap_run (kn_kheap ?k) live (kn_heap ?k)" "length (process_table s) = 64"
    using t by (auto simp: ptab_def)
  from pid_alloc_cases [OF k(1,2) a] show ?thesis
  proof (elim disjE exE conjE)
    assume "r = Inl KERR_NOSPC" "k1 = ?k"
    then have "p = KERR_PTR KERR_NOSPC" "s' = s" using run a name by (simp_all add: process_create_def ps_kn_def kzoom_def)
    then show ?thesis using t KERR_PTR_is_err [of KERR_NOSPC] frames_back_same by (auto simp: pids_same_def)
  next
    fix pid assume pid: "r = Inr pid" "0 < pid" "pid < 64" "\<not> bitmap_test (pid_bm ?k) pid" "\<forall>q<pid. bitmap_test (pid_bm ?k) q"
      and k1: "k1 = ?k\<lparr>pid_bm := bitmap_set (pid_bm ?k) pid\<rparr>"
    obtain q k2 where m: "kn_kmalloc process_size k1 = (q, k2)" by (cases "kn_kmalloc process_size k1")
    have sz: "0 < unat process_size" "unat process_size \<le> 0xFFFFFFE8" by (simp_all add: process_size_def)
    have hr: "heap_run (kn_kheap k1) live (kn_heap k1)" using k(3) by (simp add: k1)
    from kn_kmalloc_run [OF hr m sz] obtain h where k2: "k2 = k1\<lparr>kn_heap := h\<rparr>"
      and err: "KERR_PTR_IS_ERR q \<Longrightarrow> heap_run (kn_kheap ?k) live h"
      and new: "\<not> KERR_PTR_IS_ERR q \<Longrightarrow> heap_run (kn_kheap ?k) ((q, process_size) # live) h \<and> q \<notin> fst ` set live"
      by (auto simp: k1)
    have bm2: "pid_bm k2 = bitmap_set (pid_bm ?k) pid" "kn_kheap k2 = kn_kheap ?k" "kn_heap k2 = h" by (simp_all add: k2 k1)
    show ?thesis
    proof (cases "KERR_PTR_IS_ERR q")
      case True
      have "bitmap_test (pid_bm k2) pid" by (simp add: bm2 bitmap_test_set)
      then have s': "p = q" "s' = s\<lparr>ps_kern := k2\<lparr>pid_bm := bitmap_clear (pid_bm k2) pid\<rparr>\<rparr>"
        using run name a pid(1) m True pid_free_allocated [OF pid(2,3), of k2]
        by (simp_all add: process_create_def ps_kn_def kzoom_def Let_def)
      have same: "pids_same ?k (ps_kern s')" using pid(4) by (auto simp: pids_same_def s' bm2 bitmap_test_clear bitmap_test_set)
      have "ptab s' live" by (rule ptab_kept [OF t _ same]) (use err [OF True] in \<open>simp_all add: s' bm2\<close>)
      moreover have "frames_back K ?k p (ps_kern s')" if "kern_inv ?k K" for K
        using that by (rule frames_back_same) (simp_all add: s' k2 k1)
      ultimately show ?thesis using same True by (auto simp: s')
    next
      case False
      note new = new [OF False]
      have q0: "q \<noteq> 0" using live_nonzero [OF conjunct1 [OF new], of q process_size] by simp
      let ?pr = "process_zero\<lparr>proc_pid := pid, proc_state := PROCESS_CREATED, proc_name := name\<rparr>"
      obtain r3 k3 v3 where i: "vm_space_init True (k2, proc_vm ?pr) = (r3, (k3, v3))" by (cases "vm_space_init True (k2, proc_vm ?pr)") auto
      have r3: "same_rest k2 k3" "vs_vmas v3 = []" using vm_space_init_rest [OF i] by simp_all
      let ?s3 = "s\<lparr>ps_kern := k3, ps_procs := (ps_procs s)(q := ?pr\<lparr>proc_vm := v3\<rparr>)\<rparr>"
      have i3: "ps_vm q (vm_space_init True) (set_proc q (\<lambda>_. ?pr) (s\<lparr>ps_kern := k2\<rparr>)) = (r3, ?s3)"
        using i by (simp add: ps_vm_def set_proc_def)
      obtain r4 k4 where st: "kstack_alloc (Some (proc_kstack ?pr)) k3 = (r4, k4)" by (cases "kstack_alloc (Some (proc_kstack ?pr)) k3")
      have r4: "same_rest k2 k4" using kstack_alloc_rest [OF st] r3(1) by (rule same_rest_trans [rotated])
      obtain r5 k5 v5 where d: "vm_space_destroy True (k4, v3) = (r5, (k5, v5))" by (cases "vm_space_destroy True (k4, v3)") auto
      have r5: "same_rest k2 k5" using vm_space_destroy_rest [OF d r3(2)] r4 by (rule same_rest_trans [rotated])
      let ?s5 = "s\<lparr>ps_kern := k5, ps_procs := (ps_procs s)(q := ?pr\<lparr>proc_vm := v5\<rparr>)\<rparr>"
      have d5: "ps_vm q (vm_space_destroy True) (?s3\<lparr>ps_kern := k4\<rparr>) = (r5, ?s5)" using d by (simp add: ps_vm_def set_proc_def)
      note create = process_create_def ps_kn_def kzoom_def Let_def
      note undo = create_undo [OF t pid(2,3,4) conjunct1 [OF new] conjunct2 [OF new]]
      consider e where "r3 = Inl e" | e where "r3 = Inr ()" "r4 = Inl e" | stk where "r3 = Inr ()" "r4 = Inr stk" by (cases r3; cases r4) auto
      then show ?thesis
      proof cases
        case (1 e)
        have s': "s' = (let u = snd (ps_kn (pid_free pid) ?s3) in u\<lparr>ps_kern := kn_kfree q (ps_kern u)\<rparr>)"
          and p: "p = KERR_PTR e" using run name a pid(1) m False i3 1 k1 by (simp_all add: create set_proc_def)
        note U = undo [OF _ _ _ _ _ s']
        have "frames_back K ?k p (ps_kern s')" if K: "kern_inv ?k K" for K
        proof -
          have "kern_inv k2 K" "heap_run (kn_kheap k2) ((q, process_size) # live) (kn_heap k2)"
            using K new by (simp_all add: kern_inv_def k2 k1)
          then have "k3 = k2" using vm_space_init_inv [of "(k2, proc_vm ?pr)" K "(q, process_size) # live" r3 "(k3, v3)"] i 1 by auto
          then show ?thesis using U(4,5) r3(1) bm2 K by (intro frames_back_same) (simp_all add: same_rest_def k2 k1)
        qed
        moreover have "KERR_PTR_IS_ERR p \<or> p = 0" by (simp add: p KERR_PTR_err_or_null)
        ultimately show ?thesis using U(1,2,3) r3(1) bm2 by (simp add: same_rest_def)
      next
        case (2 e)
        have s': "s' = (let u = snd (ps_kn (pid_free pid) ?s5) in u\<lparr>ps_kern := kn_kfree q (ps_kern u)\<rparr>)"
          and p: "p = KERR_PTR e" using run name a pid(1) m False i3 2 k1 st d5 by (simp_all add: create set_proc_def)
        note U = undo [OF _ _ _ _ _ s']
        have "frames_back K ?k p (ps_kern s')" if "kern_inv ?k K" "small_memory ?k" "stacks_ok ?k" for K
        proof -
          have "kern_inv k2 K" "small_memory k2" "stacks_ok k2"
            using that by (simp_all add: kern_inv_def small_memory_def stacks_ok_def k2 k1)
          from create_failed_frames [OF this i [unfolded 2] st [unfolded 2] _ _ d] have "frames_back K k2 p k5"
            by (simp add: p process_zero_def)
          then show ?thesis using U(4,5) r5 bm2 by (simp add: frames_back_def kern_inv_def same_rest_def k2 k1)
        qed
        moreover have "KERR_PTR_IS_ERR p \<or> p = 0" by (simp add: p KERR_PTR_err_or_null)
        ultimately show ?thesis using U(1,2,3) r5 bm2 by (simp add: same_rest_def)
      next
        case (3 stk)
        have "(p, s') = (q, s\<lparr>ps_kern := k4, ps_procs := (ps_procs s)(q := ?pr\<lparr>proc_vm := v3, proc_kstack := stk\<rparr>),
            process_table := (process_table s)[unat pid := q]\<rparr>)"
          unfolding run [symmetric] using name a pid(1) m False i3 3 k1 st by (simp add: create set_proc_def)
        then have p: "p = q" and s': "s' = s\<lparr>ps_kern := k4, ps_procs := (ps_procs s)(q := ?pr\<lparr>proc_vm := v3, proc_kstack := stk\<rparr>),
            process_table := (process_table s)[unat pid := q]\<rparr>" by simp_all
        have "unat pid < 64" "0 < unat pid" using pid(2,3) by (simp_all add: word_less_nat_alt)
        moreover from this have "sint pid = int (unat pid)" by (intro sint_small) simp
        ultimately have "1 \<le> sint pid" "sint pid < 64" by linarith+
        then have get: "process_get pid s' = p"
          using \<open>unat pid < 64\<close> k(4) unfolding process_get_def PID_FIRST_def PID_MAX_def by (auto simp: s' p)
        have bits: "bitmap_test (pid_bm (ps_kern s')) j \<longleftrightarrow> j = pid \<or> bitmap_test (pid_bm ?k) j" for j
          using r4 by (auto simp: s' same_rest_def bm2 bitmap_test_set)
        have h: "heap_run (kn_kheap k4) ((q, process_size) # live) (kn_heap k4)" "bm_nbits (pid_bm k4) = 64"
          using r4 new k(1) by (simp_all add: same_rest_def bm2)
        have "ptab s' ((q, process_size) # live)"
          by (rule ptab_insert [OF t pid(3) _ conjunct2 [OF new] _ bits]) (use h in \<open>simp_all add: s'\<close>)
        moreover have "proc_pid (ps_procs s' p) = pid" "proc_state (ps_procs s' p) = PROCESS_CREATED" "proc_name (ps_procs s' p) = name"
          "process_table s' = (process_table s)[unat pid := p]" by (simp_all add: s' p)
        ultimately show ?thesis using False q0 pid get bits by (intro exI [of _ "(q, process_size) # live"]) (auto simp: p)
      qed
    qed
  qed
qed

text \<open>
  C12. Creating a process, on a machine with at most 4 GiB of memory where no page of a free stack position is mapped. On success the process has the lowest free
  identifier, which was free and is now taken, it is found in the table under it, and it is in the created state; all other
  identifiers and table entries are as before. On failure the identifiers in use, the table and the live blocks of the heap
  are exactly those of before, and so are the free frames, with one exception: when fewer than five frames were free, up to
  three frames of a half allocated kernel stack are not given back and stay mapped among the kernel stacks. In both cases
  the table, the identifiers and the heap agree as they did.
\<close>

theorem process_create_correct:
  assumes t: "ptab s live" and inv: "kern_inv (ps_kern s) K" and small: "small_memory (ps_kern s)" and ok: "stacks_ok (ps_kern s)"
    and run: "process_create name s = (p, s')"
  shows "if KERR_PTR_IS_ERR p \<or> p = 0
    then process_table s' = process_table s \<and> pids_same (ps_kern s) (ps_kern s') \<and> ptab s' live \<and> kern_inv (ps_kern s') K
      \<and> (\<exists>lost \<subseteq> {x. ps_free s x}. card lost < 4 \<and> (lost \<noteq> {} \<longrightarrow> p = KERR_PTR KERR_NOMEM \<and> card {x. ps_free s x} \<le> 4)
          \<and> (\<forall>x. ps_free s' x \<longleftrightarrow> ps_free s x \<and> x \<notin> lost)
          \<and> (\<forall>x\<in>lost. \<exists>a. 0xF0000000 \<le> unat a
               \<and> translates (kernel_vm (ps_kern s')) (kn_mm (ps_kern s')) a = Inr (of_nat (4096 * x))))
    else ptab s' ((p, process_size) # live)
      \<and> (\<exists>pid. 0 < pid \<and> pid < 64 \<and> \<not> bitmap_test (pid_bm (ps_kern s)) pid \<and> (\<forall>q<pid. bitmap_test (pid_bm (ps_kern s)) q)
       \<and> process_get pid s' = p \<and> process_table s' = (process_table s)[unat pid := p]
       \<and> (\<forall>j. bitmap_test (pid_bm (ps_kern s')) j \<longleftrightarrow> j = pid \<or> bitmap_test (pid_bm (ps_kern s)) j)
       \<and> proc_pid (ps_procs s' p) = pid \<and> proc_state (ps_procs s' p) = PROCESS_CREATED \<and> proc_name (ps_procs s' p) = name)"
proof (cases "KERR_PTR_IS_ERR p \<or> p = 0")
  case True
  then have "process_table s' = process_table s" "pids_same (ps_kern s) (ps_kern s')" "ptab s' live" "frames_back K (ps_kern s) p (ps_kern s')"
    using process_create_spec [OF t run] inv small ok by auto
  then show ?thesis unfolding if_P [OF True] frames_back_def by blast
next
  case False
  then show ?thesis using process_create_spec [OF t run] by auto
qed

subsection \<open>Witnesses\<close>

definition psys0 :: psys where
  "psys0 = \<lparr>ps_kern = (fst vm0)\<lparr>pid_bm := bitmap_set (BITMAP_INIT (\<lambda>_. 0) 64) 0\<rparr>, ps_ram = (\<lambda>_. 0), ps_stacks = (\<lambda>_. 0),
     process_table = replicate 64 0, ps_procs = (\<lambda>_. process_zero)\<rparr>"

lemma psys0_ptab: "ptab psys0 []"
  using vm0_heap
  by (auto simp: ptab_def psys0_def bitmap_test_set BITMAP_INIT_def word_less_nat_alt)

theorem process_create_correct_witness:
  "\<exists>p s' live'. process_create 0x1000 psys0 = (p, s') \<and> ptab s' live'
     \<and> (KERR_PTR_IS_ERR p \<or> p = 0 \<or> (\<exists>pid. 0 < pid \<and> pid < 64 \<and> process_get pid s' = p))"
proof -
  obtain p s' where run: "process_create 0x1000 psys0 = (p, s')" by (cases "process_create 0x1000 psys0")
  have k: "kern_inv (ps_kern psys0) 0" "small_memory (ps_kern psys0)" "stacks_ok (ps_kern psys0)"
    using kstk_sample_inv(1,2) kstk_sample_stacks(1) by (simp_all add: psys0_def vm0_def kern_inv_def small_memory_def stacks_ok_def)
  from process_create_correct [OF psys0_ptab k run] obtain live' where "ptab s' live'"
    "if KERR_PTR_IS_ERR p \<or> p = 0 then True else \<exists>pid. 0 < pid \<and> pid < 64 \<and> process_get pid s' = p"
    by (auto split: if_splits)
  with run show ?thesis by (auto split: if_splits)
qed

definition image0 :: bytes where
  "image0 = encode_hdr 0x1000 (hdr_sample\<lparr>hdr_segment_count := 1\<rparr>) (encode_segment 0x1010 seg_sample (\<lambda>_. 0))"

lemma image0_hdr: "iwbf_parse_hdr image0 True 0x1000 41 True = Inr (hdr_sample\<lparr>hdr_segment_count := 1\<rparr>)"
  unfolding image0_def
  by (subst iwbf_parse_hdr_encode)
    (simp_all add: hdr_ok_def hdr_sample_def IWBF_HDR_MAGIC_def IWBF_HDR_TYPE_EXEC_def IWBF_HDR_ARCH_I386_def)

lemma image0_segment: "segment_at image0 0x1000 41 0 = Inr seg_sample"
proof -
  have "read_le32 image0 0x1010 = seg_vaddr seg_sample" "read_le32 image0 0x1014 = seg_file_off seg_sample"
    "read_le32 image0 0x1018 = seg_file_size seg_sample" "read_le32 image0 0x101C = seg_mem_size seg_sample"
    "read_le32 image0 0x1020 = seg_flags seg_sample"
    by (simp_all add: image0_def encode_hdr_def encode_segment_def layout_simps)
  then show ?thesis
    by (simp add: segment_at_def iwbf_parse_segment_hdr_def seg_sample_def IWBF32_SEGMENT_HDR_SIZE_def
        IWBF_SEG_FLAG_READ_def IWBF_SEG_FLAG_WRITE_def IWBF_SEG_FLAG_EXEC_def)
qed

text \<open>A process with an address space, and the image of a program with one segment.\<close>

lemma psys1:
  obtains s F where "space_inv (ps_space 0xC0400000 s) F" "image_safe 0x1000 41 s" "ps_ram s = image0"
proof -
  obtain t F where t: "space_inv t F" using vm0_reach by blast
  define s where "s = psys0\<lparr>ps_kern := fst t, ps_ram := image0, ps_procs := (\<lambda>_. process_zero\<lparr>proc_vm := snd t\<rparr>)\<rparr>"
  have "0x1000 + k \<notin> frame_bytes f" if "k < 41" for f and k :: u32
  proof -
    have "unat k < 41" using that by (simp add: word_less_nat_alt)
    then have "unat (0x1000 + k) = 0x1000 + unat k" by (subst unat_add_nowrap) simp_all
    then show ?thesis using \<open>unat k < 41\<close> by (simp add: frame_bytes_def)
  qed
  then have "image_safe 0x1000 41 s" by (simp add: image_safe_def)
  moreover have "space_inv (ps_space 0xC0400000 s) F" using t by (simp add: s_def)
  moreover have "ps_ram s = image0" by (simp add: s_def)
  ultimately show ?thesis using that by blast
qed

theorem process_load_correct_witness:
  "\<exists>s r s'. process_load 0xC0400000 0x1000 41 s = (r, s') \<and> ps_ram s = image0 \<and>
     (case r of Inr _ \<Rightarrow> proc_entry (ps_procs s' 0xC0400000) = 0x400000 \<and> user_byte 0xC0400000 s' 0x400FFF = Some 0
      | Inl e \<Rightarrow> proc_entry (ps_procs s' 0xC0400000) = proc_entry (ps_procs s 0xC0400000))"
proof -
  obtain s F where s: "space_inv (ps_space 0xC0400000 s) F" "image_safe 0x1000 41 s" "ps_ram s = image0" by (rule psys1)
  obtain r s' where run: "process_load 0xC0400000 0x1000 41 s = (r, s')" by (cases "process_load 0xC0400000 0x1000 41 s")
  have one: "i < 1 \<longleftrightarrow> i = 0" for i :: u32 by (simp add: word_less_nat_alt unat_eq_0)
  let ?h = "hdr_sample\<lparr>hdr_segment_count := 1\<rparr>"
  have h: "iwbf_parse_hdr (ps_ram s) True 0x1000 41 True = Inr ?h" by (simp add: s(3) image0_hdr)
  have tab: "16 + 20 * unat (hdr_segment_count ?h) \<le> unat (41 :: u32)" by simp
  have fit: "\<forall>i<hdr_segment_count ?h. \<forall>seg. segment_at (ps_ram s) 0x1000 41 i = Inr seg \<longrightarrow> unat (seg_vaddr seg) + unat (seg_mem_size seg) < 2 ^ 32"
    by (auto simp: one s(3) image0_segment seg_sample_def)
  have "segment_byte image0 0x1000 seg_sample 0xFFF = 0" by (simp add: segment_byte_def seg_sample_def)
  moreover have "seg_vaddr seg_sample + 0xFFF = 0x400FFF" "(0xFFF :: u32) < seg_mem_size seg_sample" by (simp_all add: seg_sample_def)
  moreover have "case r of Inr _ \<Rightarrow> proc_entry (ps_procs s' 0xC0400000) = 0x400000
      \<and> (\<forall>d < seg_mem_size seg_sample. user_byte 0xC0400000 s' (seg_vaddr seg_sample + d) = Some (segment_byte image0 0x1000 seg_sample d))
    | Inl e \<Rightarrow> proc_entry (ps_procs s' 0xC0400000) = proc_entry (ps_procs s 0xC0400000)"
    using process_load_correct [OF s(1,2) h tab fit run] by (auto simp: one s(3) image0_segment hdr_sample_def split: sum.splits)
  ultimately show ?thesis using run s(3)
    by (intro exI [of _ s] exI [of _ r] exI [of _ s'] conjI) (fastforce split: sum.splits)+
qed

theorem process_start_correct_witness:
  "\<exists>s r s1. process_prepare 0xC0400000 s = (r, s1) \<and>
     (case r of Inl e \<Rightarrow> ps_stacks s1 = ps_stacks s
      | Inr _ \<Rightarrow> \<exists>tss' fr. process_start 0xC0400000 s1 x86_tss_init = Some (tss', fr) \<and> fr_esp fr = 0xBFFFE000)"
proof -
  obtain s F where s: "space_inv (ps_space 0xC0400000 s) F" by (rule psys1)
  obtain r s1 where run: "process_prepare 0xC0400000 s = (r, s1)" by (cases "process_prepare 0xC0400000 s")
  have "case r of Inl e \<Rightarrow> ps_stacks s1 = ps_stacks s
      | Inr _ \<Rightarrow> \<exists>tss' fr. process_start 0xC0400000 s1 x86_tss_init = Some (tss', fr) \<and> fr_esp fr = 0xBFFFE000"
    using process_start_correct [OF s run, of x86_tss_init] by (auto simp: USER_STACK_TOP_def split: sum.splits)
  with run show ?thesis by (intro exI [of _ s] exI [of _ r] exI [of _ s1] conjI)
qed

end
