(* ===== verification/Hal.thy ===== *)
theory Hal
  imports X86_Cpu
begin

text \<open>
  The hardware as the drivers see it (\<^verbatim>\<open>src/kernel/arch/x86/io.c\<close>, \<^verbatim>\<open>hal/port.c\<close> and
  \<^verbatim>\<open>hal/interrupt.c\<close>). The devices behind the I/O ports are a parameter: a function that answers
  every read of a port, given all accesses to ports made before. The state keeps those accesses, oldest
  first, and the EFLAGS register.
\<close>

datatype port_op =
    In8 u16 | In16 u16 | In32 u16
  | Out8 u16 u8 | Out16 u16 u16 | Out32 u16 u32

type_synonym port_dev = "port_op list \<Rightarrow> port_op \<Rightarrow> u32"

record hal =
  hal_log :: "port_op list"
  hal_eflags :: u32

subsection \<open>io.c\<close>

definition x86_in :: "port_dev \<Rightarrow> port_op \<Rightarrow> 'a hal_scheme \<Rightarrow> 'b::len word \<times> 'a hal_scheme" where
  "x86_in dev op s = (ucast (dev (hal_log s) op), s\<lparr>hal_log := hal_log s @ [op]\<rparr>)"

definition x86_out :: "port_op \<Rightarrow> 'a hal_scheme \<Rightarrow> 'a hal_scheme" where
  "x86_out op s = s\<lparr>hal_log := hal_log s @ [op]\<rparr>"

definition x86_inb :: "port_dev \<Rightarrow> u16 \<Rightarrow> 'a hal_scheme \<Rightarrow> u8 \<times> 'a hal_scheme" where
  "x86_inb dev port = x86_in dev (In8 port)"

definition x86_inw :: "port_dev \<Rightarrow> u16 \<Rightarrow> 'a hal_scheme \<Rightarrow> u16 \<times> 'a hal_scheme" where
  "x86_inw dev port = x86_in dev (In16 port)"

definition x86_inl :: "port_dev \<Rightarrow> u16 \<Rightarrow> 'a hal_scheme \<Rightarrow> u32 \<times> 'a hal_scheme" where
  "x86_inl dev port = x86_in dev (In32 port)"

definition x86_outb :: "u16 \<Rightarrow> u8 \<Rightarrow> 'a hal_scheme \<Rightarrow> 'a hal_scheme" where
  "x86_outb port v = x86_out (Out8 port v)"

definition x86_outw :: "u16 \<Rightarrow> u16 \<Rightarrow> 'a hal_scheme \<Rightarrow> 'a hal_scheme" where
  "x86_outw port v = x86_out (Out16 port v)"

definition x86_outl :: "u16 \<Rightarrow> u32 \<Rightarrow> 'a hal_scheme \<Rightarrow> 'a hal_scheme" where
  "x86_outl port v = x86_out (Out32 port v)"

subsection \<open>hal/port.c\<close>

definition hal_port_read8 :: "port_dev \<Rightarrow> u16 \<Rightarrow> 'a hal_scheme \<Rightarrow> u8 \<times> 'a hal_scheme" where
  "hal_port_read8 dev port = x86_inb dev port"

definition hal_port_read16 :: "port_dev \<Rightarrow> u16 \<Rightarrow> 'a hal_scheme \<Rightarrow> u16 \<times> 'a hal_scheme" where
  "hal_port_read16 dev port = x86_inw dev port"

definition hal_port_read32 :: "port_dev \<Rightarrow> u16 \<Rightarrow> 'a hal_scheme \<Rightarrow> u32 \<times> 'a hal_scheme" where
  "hal_port_read32 dev port = x86_inl dev port"

definition hal_port_write8 :: "u16 \<Rightarrow> u8 \<Rightarrow> 'a hal_scheme \<Rightarrow> 'a hal_scheme" where
  "hal_port_write8 port v = x86_outb port v"

definition hal_port_write16 :: "u16 \<Rightarrow> u16 \<Rightarrow> 'a hal_scheme \<Rightarrow> 'a hal_scheme" where
  "hal_port_write16 port v = x86_outw port v"

definition hal_port_write32 :: "u16 \<Rightarrow> u32 \<Rightarrow> 'a hal_scheme \<Rightarrow> 'a hal_scheme" where
  "hal_port_write32 port v = x86_outl port v"

subsection \<open>hal/interrupt.c\<close>

definition hal_interrupt_enable :: "'a hal_scheme \<Rightarrow> 'a hal_scheme" where
  "hal_interrupt_enable s = s\<lparr>hal_eflags := x86_sti (hal_eflags s)\<rparr>"

definition hal_interrupt_disable :: "'a hal_scheme \<Rightarrow> 'a hal_scheme" where
  "hal_interrupt_disable s = s\<lparr>hal_eflags := x86_cli (hal_eflags s)\<rparr>"

definition hal_interrupt_enabled :: "'a hal_scheme \<Rightarrow> bool" where
  "hal_interrupt_enabled s = x86_interrupts_enabled (hal_eflags s)"

definition hal_interrupt_save_disable :: "'a hal_scheme \<Rightarrow> bool \<times> 'a hal_scheme" where
  "hal_interrupt_save_disable s =
     (case x86_interrupt_save_disable (hal_eflags s) of (b, f) \<Rightarrow> (b, s\<lparr>hal_eflags := f\<rparr>))"

definition hal_interrupt_restore :: "bool \<Rightarrow> 'a hal_scheme \<Rightarrow> 'a hal_scheme" where
  "hal_interrupt_restore b s = s\<lparr>hal_eflags := x86_interrupt_restore b (hal_eflags s)\<rparr>"

subsection \<open>What the accesses do\<close>

named_theorems hal_simps \<open>effect of the hardware accesses on the state\<close>

lemma hal_read8 [hal_simps]:
  "hal_port_read8 dev p s = (ucast (dev (hal_log s) (In8 p)), s\<lparr>hal_log := hal_log s @ [In8 p]\<rparr>)"
  by (simp add: hal_port_read8_def x86_inb_def x86_in_def)

lemma hal_write8 [hal_simps]: "hal_port_write8 p v s = s\<lparr>hal_log := hal_log s @ [Out8 p v]\<rparr>"
  by (simp add: hal_port_write8_def x86_outb_def x86_out_def)

text \<open>Saving and restoring the interrupt flag brackets a critical section.\<close>

lemma IF_bit: "x86_interrupts_enabled f \<longleftrightarrow> bit f 9"
  unfolding x86_interrupts_enabled_def X86_FLAGS_IF_MASK_def by (rule MASK_TEST_BIT) simp

lemma hal_save_disable [hal_simps]:
  "hal_interrupt_save_disable s = (bit (hal_eflags s) 9, s\<lparr>hal_eflags := MASK_CLEAR (hal_eflags s) (BIT 9)\<rparr>)"
  by (simp add: hal_interrupt_save_disable_def x86_interrupt_save_disable_def IF_bit x86_cli_def X86_FLAGS_IF_MASK_def)

lemma hal_interrupt_bracket:
  assumes "hal_interrupt_save_disable s = (b, t)" and "hal_eflags u = hal_eflags t"
  shows "hal_eflags (hal_interrupt_restore b u) = hal_eflags s" and "\<not> hal_interrupt_enabled t"
proof -
  have b: "b = bit (hal_eflags s) 9" "hal_eflags t = MASK_CLEAR (hal_eflags s) (BIT 9)" using assms by (auto simp: hal_simps)
  have "x86_interrupt_restore b (MASK_CLEAR (hal_eflags s) (BIT 9)) = hal_eflags s"
    unfolding x86_interrupt_restore_def x86_sti_def X86_FLAGS_IF_MASK_def b(1)
    by (rule bit_word_eqI) (auto simp: bit_MASK_SET_BIT bit_MASK_CLEAR_BIT)
  then show "hal_eflags (hal_interrupt_restore b u) = hal_eflags s" using assms(2) b by (simp add: hal_interrupt_restore_def)
  show "\<not> hal_interrupt_enabled t" by (simp add: hal_interrupt_enabled_def b IF_bit bit_MASK_CLEAR_BIT)
qed

end
