(* ===== verification/Irq.thy ===== *)
theory Irq
  imports Hal Klib_Bitmap
begin

text \<open>
  The interrupt layer: kernel interrupt numbers (\<^verbatim>\<open>src/kernel/irq/irq.c\<close>), the linear maps from
  hardware to kernel numbers (\<^verbatim>\<open>irq/map.c\<close>), the descriptors (\<^verbatim>\<open>irq/desc.c\<close>), the driver of the
  8259 interrupt controllers (\<^verbatim>\<open>drivers/irqchip/i8259.c\<close>) and its entry from the processor
  (\<^verbatim>\<open>arch/x86/interrupt/irq.c\<close>, \<^verbatim>\<open>irqchip.c\<close>): definitions. Pointers to maps, controllers and handlers
  are addresses; the operations of the controllers and the handlers at those addresses are parameters of
  the functions that call through them.
\<close>

subsection \<open>Data\<close>

definition IRQ_INVALID :: u32 where
  "IRQ_INVALID = - 1"

definition IRQ_MAX :: u32 where
  "IRQ_MAX = 256"

record irq_map =
  map_name :: vaddr
  first_hwirq :: u32
  first_irq :: u32
  map_count :: u32

record irq_desc =
  desc_hwirq :: u32
  desc_map :: vaddr
  desc_chip :: vaddr
  desc_handler :: vaddr
  desc_dev_id :: vaddr

record 's irq_chip =
  handle_vector :: "u32 \<Rightarrow> ('s, u32) kfun"
  chip_enable :: "irq_desc \<Rightarrow> 's \<Rightarrow> 's"
  chip_disable :: "irq_desc \<Rightarrow> 's \<Rightarrow> 's"
  chip_eoi :: "irq_desc \<Rightarrow> 's \<Rightarrow> 's"

record irq_sys = hal +
  irq_allocated :: bitmap
  irq_descs :: "irq_desc list"
  irq_maps :: "vaddr \<Rightarrow> irq_map"

subsection \<open>irq.c: numbers\<close>

definition irq_init :: "('a irq_sys_scheme, unit) kfun" where
  "irq_init s = kret () (s\<lparr>irq_allocated := bitmap_init (irq_allocated s) (bm_data (irq_allocated s)) IRQ_MAX\<rparr>)"

definition irq_alloc_range :: "u32 \<Rightarrow> bool \<Rightarrow> ('a irq_sys_scheme, u32) kfun" where
  "irq_alloc_range n out s =
     (if n = 0 \<or> \<not> out then kfail KERR_INVAL s
      else if IRQ_MAX < n then kfail KERR_INVAL s
      else case bitmap_scan (irq_allocated s) n IRQ_MAX 0 0 of
             None \<Rightarrow> kfail KERR_NOSPC s
           | Some first \<Rightarrow>
               kret first (s\<lparr>irq_allocated := for_u32 0 n (\<lambda>j b. bitmap_set b (first + j)) (irq_allocated s)\<rparr>))"

definition irq_free_range :: "u32 \<Rightarrow> u32 \<Rightarrow> ('a irq_sys_scheme, unit) kfun" where
  "irq_free_range first n s =
     (if n = 0 then kfail KERR_INVAL s
      else if IRQ_MAX \<le> first \<or> IRQ_MAX - first < n then kfail KERR_INVAL s
      else if list_ex (\<lambda>i. \<not> bitmap_test (irq_allocated s) (i + first)) (words_upto 0 n) then kfail KERR_NOENT s
      else kret () (s\<lparr>irq_allocated := for_u32 first (first + n) (\<lambda>i b. bitmap_clear b i) (irq_allocated s)\<rparr>))"

definition irq_is_allocated :: "u32 \<Rightarrow> 'a irq_sys_scheme \<Rightarrow> bool" where
  "irq_is_allocated irq s = (if IRQ_MAX \<le> irq then False else bitmap_test (irq_allocated s) irq)"

subsection \<open>map.c\<close>

definition irq_map_init :: "vaddr \<Rightarrow> vaddr \<Rightarrow> u32 \<Rightarrow> u32 \<Rightarrow> ('a irq_sys_scheme, unit) kfun" where
  "irq_map_init mp name hw n s =
     (if mp = 0 \<or> name = 0 \<or> n = 0 then kfail KERR_INVAL s
      else kerr_try (irq_alloc_range n True)
        (\<lambda>irq s. kret () (s\<lparr>irq_maps := (irq_maps s)(mp := \<lparr>map_name = name, first_hwirq = hw, first_irq = irq, map_count = n\<rparr>)\<rparr>)) s)"

definition irq_map_hwirq_to_irq :: "vaddr \<Rightarrow> u32 \<Rightarrow> 'a irq_sys_scheme \<Rightarrow> u32" where
  "irq_map_hwirq_to_irq mp hwirq s =
     (if mp = 0 then IRQ_INVALID
      else let m = irq_maps s mp
           in if hwirq < first_hwirq m \<or> first_hwirq m + map_count m \<le> hwirq then IRQ_INVALID
              else first_irq m + (hwirq - first_hwirq m))"

definition irq_map_destroy :: "vaddr \<Rightarrow> ('a irq_sys_scheme, unit) kfun" where
  "irq_map_destroy mp s =
     (if mp = 0 then kfail KERR_INVAL s
      else kerr_try (irq_free_range (first_irq (irq_maps s mp)) (map_count (irq_maps s mp))) (\<lambda>_. kret ()) s)"

subsection \<open>desc.c\<close>

definition irq_desc_configure :: "u32 \<Rightarrow> u32 \<Rightarrow> vaddr \<Rightarrow> vaddr \<Rightarrow> ('a irq_sys_scheme, unit) kfun" where
  "irq_desc_configure irq hwirq mp chip s =
     (if IRQ_MAX \<le> irq \<or> mp = 0 \<or> chip = 0 then kfail KERR_INVAL s
      else if \<not> irq_is_allocated irq s then kfail KERR_NOENT s
      else if desc_map (irq_descs s ! unat irq) \<noteq> 0 then kfail KERR_BUSY s
      else if hwirq < first_hwirq (irq_maps s mp) \<or> first_hwirq (irq_maps s mp) + map_count (irq_maps s mp) \<le> hwirq
      then kfail KERR_INVAL s
      else kret () (s\<lparr>irq_descs := (irq_descs s)[unat irq :=
             (irq_descs s ! unat irq)\<lparr>desc_hwirq := hwirq, desc_map := mp, desc_chip := chip\<rparr>]\<rparr>))"

definition irq_desc_get :: "u32 \<Rightarrow> 'a irq_sys_scheme \<Rightarrow> irq_desc option" where
  "irq_desc_get irq s = (if IRQ_MAX \<le> irq then None else Some (irq_descs s ! unat irq))"

subsection \<open>irq.c: handlers\<close>

definition irq_request :: "u32 \<Rightarrow> vaddr \<Rightarrow> vaddr \<Rightarrow> ('a irq_sys_scheme, unit) kfun" where
  "irq_request irq handler dev_id s =
     (if handler = 0 \<or> IRQ_MAX \<le> irq then kfail KERR_INVAL s
      else if \<not> irq_is_allocated irq s then kfail KERR_NOENT s
      else let desc = irq_descs s ! unat irq
           in if desc_map desc = 0 \<or> desc_chip desc = 0 then kfail KERR_NOENT s
              else if desc_handler desc \<noteq> 0 then kfail KERR_BUSY s
              else kret () (s\<lparr>irq_descs := (irq_descs s)[unat irq := desc\<lparr>desc_handler := handler, desc_dev_id := dev_id\<rparr>]\<rparr>))"

definition irq_free :: "u32 \<Rightarrow> ('a irq_sys_scheme, unit) kfun" where
  "irq_free irq s =
     (if IRQ_MAX \<le> irq then kfail KERR_INVAL s
      else if \<not> irq_is_allocated irq s then kfail KERR_NOENT s
      else let desc = irq_descs s ! unat irq
           in if desc_map desc = 0 \<or> desc_chip desc = 0 then kfail KERR_NOENT s
              else if desc_handler desc = 0 then kfail KERR_NOENT s
              else kret () (s\<lparr>irq_descs := (irq_descs s)[unat irq := desc\<lparr>desc_handler := 0\<rparr>]\<rparr>))"

definition irq_dispatch ::
  "(vaddr \<Rightarrow> 'a irq_sys_scheme irq_chip) \<Rightarrow> (vaddr \<Rightarrow> vaddr \<Rightarrow> 'a irq_sys_scheme \<Rightarrow> 'a irq_sys_scheme)
     \<Rightarrow> vaddr \<Rightarrow> vaddr \<Rightarrow> u32 \<Rightarrow> ('a irq_sys_scheme, unit) kfun" where
  "irq_dispatch chips calls chip mp vector s =
     (if chip = 0 \<or> mp = 0 then kfail KERR_INVAL s
      else kerr_try (handle_vector (chips chip) vector)
        (\<lambda>hwirq s.
           let irq = irq_map_hwirq_to_irq mp hwirq s
           in if irq = IRQ_INVALID then kfail KERR_NOENT s
              else case irq_desc_get irq s of
                     None \<Rightarrow> kfail KERR_NOENT s
                   | Some desc \<Rightarrow>
                       if desc_handler desc = 0 then kfail KERR_NOENT s
                       else let s = calls (desc_handler desc) (desc_dev_id desc) s
                            in kret () (chip_eoi (chips chip) (irq_descs s ! unat irq) s)) s)"

definition irq_enable :: "(vaddr \<Rightarrow> 'a irq_sys_scheme irq_chip) \<Rightarrow> u32 \<Rightarrow> ('a irq_sys_scheme, unit) kfun" where
  "irq_enable chips irq s =
     (if IRQ_MAX \<le> irq then kfail KERR_INVAL s
      else let desc = irq_descs s ! unat irq
           in if desc_chip desc = 0 then kfail KERR_NOENT s
              else kret () (chip_enable (chips (desc_chip desc)) desc s))"

definition irq_disable :: "(vaddr \<Rightarrow> 'a irq_sys_scheme irq_chip) \<Rightarrow> u32 \<Rightarrow> ('a irq_sys_scheme, unit) kfun" where
  "irq_disable chips irq s =
     (if IRQ_MAX \<le> irq then kfail KERR_INVAL s
      else let desc = irq_descs s ! unat irq
           in if desc_chip desc = 0 then kfail KERR_NOENT s
              else kret () (chip_disable (chips (desc_chip desc)) desc s))"

subsection \<open>i8259.c\<close>

definition I8259_PIC1_COMMAND_PORT :: u16 where "I8259_PIC1_COMMAND_PORT = 0x20"
definition I8259_PIC1_DATA_PORT :: u16 where "I8259_PIC1_DATA_PORT = 0x21"
definition I8259_PIC2_COMMAND_PORT :: u16 where "I8259_PIC2_COMMAND_PORT = 0xA0"
definition I8259_PIC2_DATA_PORT :: u16 where "I8259_PIC2_DATA_PORT = 0xA1"

definition I8259_ICW1_IC4_MASK :: u8 where "I8259_ICW1_IC4_MASK = BIT 0"
definition I8259_ICW1_SNGL_MASK :: u8 where "I8259_ICW1_SNGL_MASK = BIT 1"
definition I8259_ICW1_INIT_MASK :: u8 where "I8259_ICW1_INIT_MASK = BIT 4"
definition I8259_ICW2_MASTER_VECTOR_OFFSET :: u32 where "I8259_ICW2_MASTER_VECTOR_OFFSET = 0x20"
definition I8259_ICW2_SLAVE_VECTOR_OFFSET :: u32 where "I8259_ICW2_SLAVE_VECTOR_OFFSET = 0x28"
definition I8259_ICW3_MASTER :: u8 where "I8259_ICW3_MASTER = BIT 2"
definition I8259_ICW3_SLAVE :: u8 where "I8259_ICW3_SLAVE = 2"
definition I8259_ICW4_8086_MASK :: u8 where "I8259_ICW4_8086_MASK = BIT 0"
definition I8259_OCW2_EOI_MASK :: u8 where "I8259_OCW2_EOI_MASK = BIT 5"
definition I8259_OCW3_READ_ISR_MASK :: u8 where "I8259_OCW3_READ_ISR_MASK = BIT 3 OR BIT 1 OR BIT 0"
definition I8259_OCW3_READ_IRR_MASK :: u8 where "I8259_OCW3_READ_IRR_MASK = BIT 3 OR BIT 1"

lemmas i8259_consts = I8259_PIC1_COMMAND_PORT_def I8259_PIC1_DATA_PORT_def I8259_PIC2_COMMAND_PORT_def I8259_PIC2_DATA_PORT_def
  I8259_ICW1_IC4_MASK_def I8259_ICW1_SNGL_MASK_def I8259_ICW1_INIT_MASK_def I8259_ICW2_MASTER_VECTOR_OFFSET_def
  I8259_ICW2_SLAVE_VECTOR_OFFSET_def I8259_ICW3_MASTER_def I8259_ICW3_SLAVE_def I8259_ICW4_8086_MASK_def
  I8259_OCW2_EOI_MASK_def I8259_OCW3_READ_ISR_MASK_def I8259_OCW3_READ_IRR_MASK_def

definition i8259_io_wait :: "'a hal_scheme \<Rightarrow> 'a hal_scheme" where
  "i8259_io_wait = hal_port_write8 0x80 0"

definition i8259_remap :: "port_dev \<Rightarrow> u8 \<Rightarrow> u8 \<Rightarrow> 'a hal_scheme \<Rightarrow> 'a hal_scheme" where
  "i8259_remap dev master_offset slave_offset s =
     (case hal_port_read8 dev I8259_PIC1_DATA_PORT s of (mask1, s) \<Rightarrow>
      case hal_port_read8 dev I8259_PIC2_DATA_PORT s of (mask2, s) \<Rightarrow>
      let s = i8259_io_wait (hal_port_write8 I8259_PIC1_COMMAND_PORT (I8259_ICW1_IC4_MASK OR I8259_ICW1_INIT_MASK) s);
          s = i8259_io_wait (hal_port_write8 I8259_PIC2_COMMAND_PORT (I8259_ICW1_IC4_MASK OR I8259_ICW1_INIT_MASK) s);
          s = i8259_io_wait (hal_port_write8 I8259_PIC1_DATA_PORT master_offset s);
          s = i8259_io_wait (hal_port_write8 I8259_PIC2_DATA_PORT slave_offset s);
          s = i8259_io_wait (hal_port_write8 I8259_PIC1_DATA_PORT I8259_ICW3_MASTER s);
          s = i8259_io_wait (hal_port_write8 I8259_PIC2_DATA_PORT I8259_ICW3_SLAVE s);
          s = i8259_io_wait (hal_port_write8 I8259_PIC1_DATA_PORT I8259_ICW4_8086_MASK s);
          s = i8259_io_wait (hal_port_write8 I8259_PIC2_DATA_PORT I8259_ICW4_8086_MASK s);
          s = i8259_io_wait (hal_port_write8 I8259_PIC1_DATA_PORT mask1 s)
      in hal_port_write8 I8259_PIC2_DATA_PORT mask2 s)"

definition i8259_mask_irq :: "port_dev \<Rightarrow> irq_desc \<Rightarrow> 'a hal_scheme \<Rightarrow> 'a hal_scheme" where
  "i8259_mask_irq dev desc s =
     (if 8 \<le> desc_hwirq desc
      then case hal_port_read8 dev I8259_PIC2_DATA_PORT s of (msk, s) \<Rightarrow>
             let msk = MASK_SET msk (BIT (unat (desc_hwirq desc - 8)));
                 s = hal_port_write8 I8259_PIC2_DATA_PORT msk s
             in if msk = 0xFF
                then case hal_port_read8 dev I8259_PIC1_DATA_PORT s of (master_mask, s) \<Rightarrow>
                       hal_port_write8 I8259_PIC1_DATA_PORT (MASK_SET master_mask (BIT 2)) s
                else s
      else case hal_port_read8 dev I8259_PIC1_DATA_PORT s of (msk, s) \<Rightarrow>
             hal_port_write8 I8259_PIC1_DATA_PORT (MASK_SET msk (BIT (unat (desc_hwirq desc)))) s)"

definition i8259_mask_all :: "'a hal_scheme \<Rightarrow> 'a hal_scheme" where
  "i8259_mask_all s = hal_port_write8 I8259_PIC2_DATA_PORT 0xFF (hal_port_write8 I8259_PIC1_DATA_PORT 0xFF s)"

definition i8259_unmask_irq :: "port_dev \<Rightarrow> irq_desc \<Rightarrow> 'a hal_scheme \<Rightarrow> 'a hal_scheme" where
  "i8259_unmask_irq dev desc s =
     (if 8 \<le> desc_hwirq desc
      then case hal_port_read8 dev I8259_PIC1_DATA_PORT s of (master_mask, s) \<Rightarrow>
             let s = hal_port_write8 I8259_PIC1_DATA_PORT (MASK_CLEAR master_mask (BIT 2)) s
             in case hal_port_read8 dev I8259_PIC2_DATA_PORT s of (slave_mask, s) \<Rightarrow>
                  hal_port_write8 I8259_PIC2_DATA_PORT (MASK_CLEAR slave_mask (BIT (unat (desc_hwirq desc - 8)))) s
      else case hal_port_read8 dev I8259_PIC1_DATA_PORT s of (msk, s) \<Rightarrow>
             hal_port_write8 I8259_PIC1_DATA_PORT (MASK_CLEAR msk (BIT (unat (desc_hwirq desc)))) s)"

definition i8259_send_eoi :: "irq_desc \<Rightarrow> 'a hal_scheme \<Rightarrow> 'a hal_scheme" where
  "i8259_send_eoi desc s =
     (let s = (if 8 \<le> desc_hwirq desc then hal_port_write8 I8259_PIC2_COMMAND_PORT I8259_OCW2_EOI_MASK s else s)
      in hal_port_write8 I8259_PIC1_COMMAND_PORT I8259_OCW2_EOI_MASK s)"

definition i8259_read_isr :: "port_dev \<Rightarrow> 'a hal_scheme \<Rightarrow> u16 \<times> 'a hal_scheme" where
  "i8259_read_isr dev s =
     (case hal_port_read8 dev I8259_PIC1_COMMAND_PORT (hal_port_write8 I8259_PIC1_COMMAND_PORT I8259_OCW3_READ_ISR_MASK s) of (v1, s) \<Rightarrow>
      case hal_port_read8 dev I8259_PIC2_COMMAND_PORT (hal_port_write8 I8259_PIC2_COMMAND_PORT I8259_OCW3_READ_ISR_MASK s) of (v2, s) \<Rightarrow>
        (ucast v1 OR push_bit 8 (ucast v2), s))"

definition i8259_read_irr :: "port_dev \<Rightarrow> 'a hal_scheme \<Rightarrow> u16 \<times> 'a hal_scheme" where
  "i8259_read_irr dev s =
     (case hal_port_read8 dev I8259_PIC1_COMMAND_PORT (hal_port_write8 I8259_PIC1_COMMAND_PORT I8259_OCW3_READ_IRR_MASK s) of (v1, s) \<Rightarrow>
      case hal_port_read8 dev I8259_PIC2_COMMAND_PORT (hal_port_write8 I8259_PIC2_COMMAND_PORT I8259_OCW3_READ_IRR_MASK s) of (v2, s) \<Rightarrow>
        (ucast v1 OR push_bit 8 (ucast v2), s))"

definition i8259_is_spurious :: "port_dev \<Rightarrow> u32 \<Rightarrow> 'a hal_scheme \<Rightarrow> bool \<times> 'a hal_scheme" where
  "i8259_is_spurious dev hwirq s =
     (if hwirq \<noteq> 7 \<and> hwirq \<noteq> 15 then (False, s)
      else case i8259_read_isr dev s of (isr, s) \<Rightarrow> (\<not> isr AND BIT (unat hwirq) \<noteq> 0, s))"

definition i8259_handle_vector :: "port_dev \<Rightarrow> bool \<Rightarrow> u32 \<Rightarrow> ('a hal_scheme, u32) kfun" where
  "i8259_handle_vector dev out vector s =
     (if \<not> out then kfail KERR_INVAL s
      else case (if I8259_ICW2_MASTER_VECTOR_OFFSET \<le> vector \<and> vector < I8259_ICW2_MASTER_VECTOR_OFFSET + 8
                 then Some (vector - I8259_ICW2_MASTER_VECTOR_OFFSET)
                 else if I8259_ICW2_SLAVE_VECTOR_OFFSET \<le> vector \<and> vector < I8259_ICW2_SLAVE_VECTOR_OFFSET + 8
                 then Some (8 + (vector - I8259_ICW2_SLAVE_VECTOR_OFFSET)) else None) of
             None \<Rightarrow> kfail KERR_NOENT s
           | Some hwirq \<Rightarrow>
               (case i8259_is_spurious dev hwirq s of (spurious, s) \<Rightarrow>
                  if spurious
                  then kfail KERR_NOENT (if hwirq = 15 then hal_port_write8 I8259_PIC1_COMMAND_PORT I8259_OCW2_EOI_MASK s else s)
                  else kret hwirq s))"

text \<open>The controller as the structure of its operations; \<open>&i8259_chip\<close> and \<open>&i8259_map\<close> are parameters below.\<close>

definition i8259_chip :: "port_dev \<Rightarrow> 'a hal_scheme irq_chip" where
  "i8259_chip dev = \<lparr>handle_vector = i8259_handle_vector dev True, chip_enable = i8259_unmask_irq dev,
     chip_disable = i8259_mask_irq dev, chip_eoi = i8259_send_eoi\<rparr>"

definition i8259_configure :: "vaddr \<Rightarrow> vaddr \<Rightarrow> u32 \<Rightarrow> ('a irq_sys_scheme, unit) kfun" where
  "i8259_configure chip mp hwirq s = irq_desc_configure (irq_map_hwirq_to_irq mp hwirq s) hwirq mp chip s"

definition i8259_init :: "port_dev \<Rightarrow> vaddr \<Rightarrow> vaddr \<Rightarrow> vaddr \<Rightarrow> ('a irq_sys_scheme, unit) kfun" where
  "i8259_init dev chip mp name s =
     (let s = i8259_remap dev (ucast I8259_ICW2_MASTER_VECTOR_OFFSET) (ucast I8259_ICW2_SLAVE_VECTOR_OFFSET) s;
          s = i8259_mask_all s
      in kerr_try (irq_map_init mp name 0 16)
           (\<lambda>_ s. kerr_try (kerr_for (words_upto 0 (map_count (irq_maps s mp))) (i8259_configure chip mp)) (\<lambda>_. kret ()) s) s)"

subsection \<open>arch/x86/interrupt/irq.c and irqchip.c\<close>

definition x86_irq_handler ::
  "(vaddr \<Rightarrow> 'a irq_sys_scheme irq_chip) \<Rightarrow> (vaddr \<Rightarrow> vaddr \<Rightarrow> 'a irq_sys_scheme \<Rightarrow> 'a irq_sys_scheme)
     \<Rightarrow> vaddr \<Rightarrow> vaddr \<Rightarrow> u32 \<Rightarrow> 'a irq_sys_scheme \<Rightarrow> 'a irq_sys_scheme" where
  "x86_irq_handler chips calls chip mp int_no s = snd (irq_dispatch chips calls chip mp int_no s)"

definition arch_irqchip_init :: "port_dev \<Rightarrow> vaddr \<Rightarrow> vaddr \<Rightarrow> vaddr \<Rightarrow> ('a irq_sys_scheme, unit) kfun" where
  "arch_irqchip_init dev chip mp name = kerr_try (i8259_init dev chip mp name) (\<lambda>_. kret ())"

end
