(* ===== verification/Irq_Props.thy ===== *)
theory Irq_Props
  imports Irq
begin

text \<open>
  What the interrupt layer guarantees. The 8259 controllers are described by what their data sheet says
  of the accesses to their two ports: the initialization sequence, the mask register and its reading
  back. On top of that: the controllers are initialized with all lines masked and all sixteen lines
  routed, enabling and disabling change one line, and a dispatched interrupt runs the one handler that
  was registered for its line.
\<close>

subsection \<open>The controllers as documented\<close>

record pic =
  pic_next :: nat
  pic_icw1 :: u8
  pic_vec :: u8
  pic_icw3 :: u8
  pic_icw4 :: u8
  pic_imr :: u8

definition pic_reset :: pic where
  "pic_reset = \<lparr>pic_next = 0, pic_icw1 = 0, pic_vec = 0, pic_icw3 = 0, pic_icw4 = 0, pic_imr = 0\<rparr>"

text \<open>
  The controller with its command port at \<open>c\<close> and its data port at \<open>c + 1\<close>. \<open>pic_next\<close> is the number of the
  initialization word that it expects on the data port, 0 when it is in operation.
\<close>

definition pic_data :: "u8 \<Rightarrow> pic \<Rightarrow> pic" where
  "pic_data v p =
     (let word4 = (if bit (pic_icw1 p) 0 then 4 else 0)
      in if pic_next p = 2 then p\<lparr>pic_vec := v, pic_next := (if bit (pic_icw1 p) 1 then word4 else 3)\<rparr>
         else if pic_next p = 3 then p\<lparr>pic_icw3 := v, pic_next := word4\<rparr>
         else if pic_next p = 4 then p\<lparr>pic_icw4 := v, pic_next := 0\<rparr>
         else p\<lparr>pic_imr := v\<rparr>)"

fun pic_step :: "u16 \<Rightarrow> port_op \<Rightarrow> pic \<Rightarrow> pic" where
  "pic_step c (Out8 port v) p =
     (if port = c then if bit v 4 then p\<lparr>pic_next := 2, pic_icw1 := v, pic_imr := 0\<rparr> else p
      else if port = c + 1 then pic_data v p else p)"
| "pic_step c _ p = p"

definition pic_of :: "u16 \<Rightarrow> port_op list \<Rightarrow> pic" where
  "pic_of c log = fold (pic_step c) log pic_reset"

lemma pic_of_snoc [simp]: "pic_of c (log @ [op]) = pic_step c op (pic_of c log)"
  by (simp add: pic_of_def)

text \<open>A controller in operation answers a read of its data port with the mask register.\<close>

definition mask_reads_back :: "port_dev \<Rightarrow> bool" where
  "mask_reads_back dev \<longleftrightarrow> (\<forall>log. \<forall>c\<in>{0x20, 0xA0}. pic_next (pic_of c log) = 0 \<longrightarrow> ucast (dev log (In8 (c + 1))) = pic_imr (pic_of c log))"

text \<open>Interrupts of line \<open>n\<close> reach the processor.\<close>

definition line_open :: "port_op list \<Rightarrow> nat \<Rightarrow> bool" where
  "line_open log n \<longleftrightarrow> (if n < 8 then \<not> bit (pic_imr (pic_of 0x20 log)) n
     else \<not> bit (pic_imr (pic_of 0xA0 log)) (n - 8) \<and> \<not> bit (pic_imr (pic_of 0x20 log)) 2)"

text \<open>Both controllers are in operation, and the cascade line is masked exactly when all lines behind it are.\<close>

definition pics_ok :: "port_op list \<Rightarrow> bool" where
  "pics_ok log \<longleftrightarrow> pic_next (pic_of 0x20 log) = 0 \<and> pic_next (pic_of 0xA0 log) = 0
     \<and> (bit (pic_imr (pic_of 0x20 log)) 2 \<longleftrightarrow> pic_imr (pic_of 0xA0 log) = 0xFF)"

lemma pic_imr_read:
  assumes "mask_reads_back dev"
  shows "pic_next (pic_of 0x20 log) = 0 \<Longrightarrow> ucast (dev log (In8 0x21)) = pic_imr (pic_of 0x20 log)"
    and "pic_next (pic_of 0xA0 log) = 0 \<Longrightarrow> ucast (dev log (In8 0xA1)) = pic_imr (pic_of 0xA0 log)"
  using assms by (auto simp: mask_reads_back_def)

lemma u8_full_iff: "(x :: u8) = 0xFF \<longleftrightarrow> (\<forall>k<8. bit x k)"
proof -
  have "bit (0xFF :: u8) k" if "k < 8" for k
  proof -
    have "(0xFF :: u8) = - 1" by simp
    then show ?thesis using that by (simp only: bit_minus_1_iff) simp
  qed
  then show ?thesis by (auto intro!: bit_word_eqI dest: bit_imp_le_length)
qed

lemma u8_clear_not_full: "k < 8 \<Longrightarrow> MASK_CLEAR (m :: u8) (BIT k) \<noteq> 0xFF"
  by (auto simp: u8_full_iff bit_MASK_CLEAR_BIT)

lemma u8_set_full: "MASK_SET (m :: u8) (BIT k) = 0xFF \<Longrightarrow> j < 8 \<Longrightarrow> bit m j \<or> j = k"
  by (auto simp: u8_full_iff bit_MASK_SET_BIT)

subsection \<open>Enabling and disabling a line\<close>

text \<open>The two mask registers, and what the operations make of them.\<close>

definition pics_at :: "port_op list \<Rightarrow> u8 \<Rightarrow> u8 \<Rightarrow> bool" where
  "pics_at log m1 m2 \<longleftrightarrow> pic_next (pic_of 0x20 log) = 0 \<and> pic_next (pic_of 0xA0 log) = 0
     \<and> pic_imr (pic_of 0x20 log) = m1 \<and> pic_imr (pic_of 0xA0 log) = m2"

lemma pics_at_write [simp]:
  "pics_at log m1 m2 \<Longrightarrow> pics_at (log @ [Out8 0x21 v]) v m2"
  "pics_at log m1 m2 \<Longrightarrow> pics_at (log @ [Out8 0xA1 v]) m1 v"
  by (simp_all add: pics_at_def pic_data_def)

lemma pics_at_read [simp]: "pics_at (log @ [In8 p]) m1 m2 \<longleftrightarrow> pics_at log m1 m2"
  by (simp add: pics_at_def)

lemma pics_at_update [simp]:
  "pics_at log m1 m2 \<Longrightarrow> pics_at (log @ [In8 p, Out8 0x21 v]) v m2"
  "pics_at log m1 m2 \<Longrightarrow> pics_at (log @ [In8 p, Out8 0xA1 v]) m1 v"
  using pics_at_write [of "log @ [In8 p]"] by simp_all

lemma pics_ok_at: "pics_ok log \<longleftrightarrow> (\<exists>m1 m2. pics_at log m1 m2 \<and> (bit m1 2 \<longleftrightarrow> m2 = 0xFF))"
  by (auto simp: pics_ok_def pics_at_def)

lemma line_open_at:
  "pics_at log m1 m2 \<Longrightarrow> line_open log n \<longleftrightarrow> (if n < 8 then \<not> bit m1 n else \<not> bit m2 (n - 8) \<and> \<not> bit m1 2)"
  by (simp add: line_open_def pics_at_def)

lemma pics_at_mask:
  assumes "mask_reads_back dev" and "pics_at log m1 m2"
  shows "ucast (dev log (In8 0x21)) = m1" and "ucast (dev log (In8 0xA1)) = m2"
  using pic_imr_read [OF assms(1)] assms(2) by (auto simp: pics_at_def)

lemma hwirq_cases:
  assumes "desc_hwirq d = of_nat n" and "n < 16"
  shows "8 \<le> desc_hwirq d \<longleftrightarrow> 8 \<le> n" and "unat (desc_hwirq d) = n" and "8 \<le> n \<Longrightarrow> unat (desc_hwirq d - 8) = n - 8"
proof -
  show u: "unat (desc_hwirq d) = n" unfolding assms(1) using assms(2) by (intro unat_of_nat_small) simp
  then show "8 \<le> desc_hwirq d \<longleftrightarrow> 8 \<le> n" by (simp add: word_le_nat_alt)
  show "8 \<le> n \<Longrightarrow> unat (desc_hwirq d - 8) = n - 8" using u by (subst unat_sub_nowrap) simp_all
qed

lemma unmask_at:
  assumes dev: "mask_reads_back dev" and at: "pics_at (hal_log s) m1 m2" and n: "desc_hwirq d = of_nat n" "n < 16"
  shows "pics_at (hal_log (i8259_unmask_irq dev d s)) (MASK_CLEAR m1 (BIT (if n < 8 then n else 2))) (if n < 8 then m2 else MASK_CLEAR m2 (BIT (n - 8)))"
proof (cases "n < 8")
  case True
  then show ?thesis using at hwirq_cases [OF n] by (simp add: i8259_unmask_irq_def hal_simps i8259_consts pics_at_mask [OF dev at])
next
  case False
  let ?log = "(hal_log s @ [In8 0x21]) @ [Out8 0x21 (MASK_CLEAR m1 (BIT 2))]"
  have at2: "pics_at ?log (MASK_CLEAR m1 (BIT 2)) m2" using at by simp
  have "hal_log (i8259_unmask_irq dev d s) = (?log @ [In8 0xA1]) @ [Out8 0xA1 (MASK_CLEAR m2 (BIT (n - 8)))]"
    using False hwirq_cases [OF n] pics_at_mask(2) [OF dev at2] by (simp add: i8259_unmask_irq_def hal_simps i8259_consts Let_def pics_at_mask [OF dev at])
  moreover have "pics_at ((?log @ [In8 0xA1]) @ [Out8 0xA1 (MASK_CLEAR m2 (BIT (n - 8)))]) (MASK_CLEAR m1 (BIT 2)) (MASK_CLEAR m2 (BIT (n - 8)))"
    using at2 by (simp del: append_assoc)
  ultimately show ?thesis using False by (simp only: if_False)
qed

lemma mask_at:
  assumes dev: "mask_reads_back dev" and at: "pics_at (hal_log s) m1 m2" and n: "desc_hwirq d = of_nat n" "n < 16"
  shows "pics_at (hal_log (i8259_mask_irq dev d s))
    (if n < 8 then MASK_SET m1 (BIT n) else if MASK_SET m2 (BIT (n - 8)) = 0xFF then MASK_SET m1 (BIT 2) else m1)
    (if n < 8 then m2 else MASK_SET m2 (BIT (n - 8)))"
proof (cases "n < 8")
  case True
  then show ?thesis using at hwirq_cases [OF n] by (simp add: i8259_mask_irq_def hal_simps i8259_consts pics_at_mask [OF dev at])
next
  case False
  let ?m2 = "MASK_SET m2 (BIT (n - 8))"
  let ?log = "(hal_log s @ [In8 0xA1]) @ [Out8 0xA1 ?m2]"
  have at2: "pics_at ?log m1 ?m2" using at by (simp del: append_assoc)
  have "hal_log (i8259_mask_irq dev d s) = (if ?m2 = 0xFF then (?log @ [In8 0x21]) @ [Out8 0x21 (MASK_SET m1 (BIT 2))] else ?log)"
    using False hwirq_cases [OF n] pics_at_mask(1) [OF dev at2] by (cases "?m2 = 0xFF") (simp_all add: i8259_mask_irq_def hal_simps i8259_consts Let_def pics_at_mask [OF dev at])
  moreover have "pics_at ((?log @ [In8 0x21]) @ [Out8 0x21 (MASK_SET m1 (BIT 2))]) (MASK_SET m1 (BIT 2)) ?m2"
    using at2 by (simp del: append_assoc)
  ultimately show ?thesis using False at2 by (simp only: if_False split: if_split) simp
qed

lemma unmask_lines:
  assumes dev: "mask_reads_back dev" and ok: "pics_ok (hal_log s)" and n: "desc_hwirq d = of_nat n" "n < 16" "n \<noteq> 2"
  shows "pics_ok (hal_log (i8259_unmask_irq dev d s)) \<and>
    (\<forall>m<16. m \<noteq> 2 \<longrightarrow> line_open (hal_log (i8259_unmask_irq dev d s)) m \<longleftrightarrow> m = n \<or> line_open (hal_log s) m)"
proof -
  obtain m1 m2 where at: "pics_at (hal_log s) m1 m2" and c: "bit m1 2 \<longleftrightarrow> m2 = 0xFF" using ok by (auto simp: pics_ok_at)
  note at2 = unmask_at [OF dev at n(1,2)]
  have "pics_ok (hal_log (i8259_unmask_irq dev d s))"
    unfolding pics_ok_at
    by (rule exI, rule exI, rule conjI [OF at2]) (use c n(2,3) u8_clear_not_full [of "n - 8" m2] in \<open>auto simp: bit_MASK_CLEAR_BIT\<close>)
  moreover have "line_open (hal_log (i8259_unmask_irq dev d s)) m \<longleftrightarrow> m = n \<or> line_open (hal_log s) m" if "m < 16" "m \<noteq> 2" for m
    unfolding line_open_at [OF at2] line_open_at [OF at] using that c n(2,3)
    by (cases "n < 8"; cases "m < 8") (auto simp: bit_MASK_CLEAR_BIT u8_full_iff)
  ultimately show ?thesis by blast
qed

lemma diff_8: "m < 16 \<Longrightarrow> m - 8 < (8 :: nat)" "8 \<le> m \<Longrightarrow> 8 \<le> n \<Longrightarrow> m - 8 = n - 8 \<longleftrightarrow> m = (n :: nat)"
  by arith+

lemma mask_lines:
  assumes dev: "mask_reads_back dev" and ok: "pics_ok (hal_log s)" and n: "desc_hwirq d = of_nat n" "n < 16" "n \<noteq> 2"
  shows "pics_ok (hal_log (i8259_mask_irq dev d s)) \<and>
    (\<forall>m<16. m \<noteq> 2 \<longrightarrow> line_open (hal_log (i8259_mask_irq dev d s)) m \<longleftrightarrow> m \<noteq> n \<and> line_open (hal_log s) m)"
proof -
  obtain m1 m2 where at: "pics_at (hal_log s) m1 m2" and c: "bit m1 2 \<longleftrightarrow> m2 = 0xFF" using ok by (auto simp: pics_ok_at)
  note at2 = mask_at [OF dev at n(1,2)]
  have full: "m2 = 0xFF \<Longrightarrow> MASK_SET m2 (BIT k) = 0xFF" for k by (auto simp: u8_full_iff bit_MASK_SET_BIT)
  have "pics_ok (hal_log (i8259_mask_irq dev d s))"
    unfolding pics_ok_at
    by (rule exI, rule exI, rule conjI [OF at2]) (use c n(2,3) full in \<open>auto simp: bit_MASK_SET_BIT\<close>)
  moreover have "line_open (hal_log (i8259_mask_irq dev d s)) m \<longleftrightarrow> m \<noteq> n \<and> line_open (hal_log s) m" if "m < 16" "m \<noteq> 2" for m
    unfolding line_open_at [OF at2] line_open_at [OF at] using that n(2,3) u8_set_full [of m2 "n - 8" "m - 8"] diff_8(1) [of m] diff_8(2) [of m n]
    by (cases "n < 8"; cases "m < 8") (auto simp: bit_MASK_SET_BIT)
  ultimately show ?thesis by blast
qed

subsection \<open>Routing\<close>

text \<open>The sixteen lines of the controllers have consecutive kernel numbers, whose descriptors name their lines.\<close>

definition pic_routed :: "vaddr \<Rightarrow> vaddr \<Rightarrow> 'a irq_sys_scheme \<Rightarrow> bool" where
  "pic_routed chip mp s \<longleftrightarrow> mp \<noteq> 0 \<and> chip \<noteq> 0 \<and> first_hwirq (irq_maps s mp) = 0 \<and> map_count (irq_maps s mp) = 16
     \<and> length (irq_descs s) = 256 \<and> unat (first_irq (irq_maps s mp)) + 16 \<le> 256
     \<and> (\<forall>n<16. let d = irq_descs s ! (unat (first_irq (irq_maps s mp)) + n)
          in desc_hwirq d = of_nat n \<and> desc_map d = mp \<and> desc_chip d = chip
             \<and> bitmap_test (irq_allocated s) (first_irq (irq_maps s mp) + of_nat n))"

abbreviation pic_irq :: "vaddr \<Rightarrow> nat \<Rightarrow> 'a irq_sys_scheme \<Rightarrow> u32" where
  "pic_irq mp n s \<equiv> first_irq (irq_maps s mp) + of_nat n"

lemma pic_irq_unat:
  assumes "pic_routed chip mp s" and "n < 16"
  shows "unat (pic_irq mp n s) = unat (first_irq (irq_maps s mp)) + n" and "\<not> IRQ_MAX \<le> pic_irq mp n s"
    and "pic_irq mp n s \<noteq> IRQ_INVALID"
proof -
  have u: "unat (of_nat n :: u32) = n" using assms(2) by (intro unat_of_nat_small) simp
  show v: "unat (pic_irq mp n s) = unat (first_irq (irq_maps s mp)) + n"
    using assms u by (subst unat_add_nowrap) (simp_all add: pic_routed_def)
  then show "\<not> IRQ_MAX \<le> pic_irq mp n s" using assms by (simp add: IRQ_MAX_def word_le_nat_alt pic_routed_def)
  then show "pic_irq mp n s \<noteq> IRQ_INVALID" by (auto simp: IRQ_INVALID_def IRQ_MAX_def)
qed

lemma pic_desc:
  assumes "pic_routed chip mp s" and "n < 16"
  shows "desc_hwirq (irq_descs s ! unat (pic_irq mp n s)) = of_nat n" and "desc_chip (irq_descs s ! unat (pic_irq mp n s)) = chip"
    and "desc_map (irq_descs s ! unat (pic_irq mp n s)) = mp" and "irq_is_allocated (pic_irq mp n s) s"
  using assms pic_irq_unat [OF assms] by (simp_all add: pic_routed_def Let_def irq_is_allocated_def)

lemma pic_map:
  assumes "pic_routed chip mp s" and "n < 16"
  shows "irq_map_hwirq_to_irq mp (of_nat n) s = pic_irq mp n s"
proof -
  have "unat (of_nat n :: u32) = n" using assms(2) by (intro unat_of_nat_small) simp
  then show ?thesis using assms by (simp add: irq_map_hwirq_to_irq_def pic_routed_def word_le_nat_alt)
qed

subsection \<open>Initialization\<close>

lemma configure_lines:
  assumes "mp \<noteq> 0" "chip \<noteq> 0" "first_hwirq (irq_maps s mp) = 0" "map_count (irq_maps s mp) = 16" "length (irq_descs s) = 256"
    and "unat (first_irq (irq_maps s mp)) + 16 \<le> 256" and "k \<le> 16"
    and "\<forall>n<16. bitmap_test (irq_allocated s) (pic_irq mp n s)"
    and "\<forall>n. k \<le> n \<and> n < 16 \<longrightarrow> desc_map (irq_descs s ! (unat (first_irq (irq_maps s mp)) + n)) = 0"
    and "\<forall>n<k. let d = irq_descs s ! (unat (first_irq (irq_maps s mp)) + n) in desc_hwirq d = of_nat n \<and> desc_map d = mp \<and> desc_chip d = chip"
  shows "\<exists>s'. kerr_for (map of_nat [k..<16]) (i8259_configure chip mp) s = (Inr (), s') \<and> pic_routed chip mp s'
    \<and> hal_log s' = hal_log s \<and> irq_maps s' = irq_maps s \<and> map desc_handler (irq_descs s') = map desc_handler (irq_descs s)"
  using assms
proof (induction "16 - k" arbitrary: k s)
  case 0
  then have "k = 16" by simp
  then show ?case using 0 by (simp add: pic_routed_def)
next
  case (Suc j)
  let ?b = "first_irq (irq_maps s mp)" and ?irq = "pic_irq mp k s"
  have k: "k < 16" "[k..<16] = k # [Suc k..<16]" using Suc.hyps(2) by (simp_all add: upt_conv_Cons)
  have u: "unat (of_nat k :: u32) = k" using k by (intro unat_of_nat_small) simp
  have irq: "unat ?irq = unat ?b + k" using u k Suc.prems(6) by (subst unat_add_nowrap) simp_all
  have lt: "\<not> IRQ_MAX \<le> ?irq" using irq k Suc.prems(6) by (simp add: IRQ_MAX_def word_le_nat_alt)
  have to: "irq_map_hwirq_to_irq mp (of_nat k) s = ?irq" using Suc.prems(1,3,4) u k by (simp add: irq_map_hwirq_to_irq_def word_le_nat_alt)
  have hw: "\<not> (of_nat k < first_hwirq (irq_maps s mp) \<or> first_hwirq (irq_maps s mp) + map_count (irq_maps s mp) \<le> (of_nat k :: u32))"
    using Suc.prems(3,4) u k by (simp add: word_le_nat_alt)
  have al: "irq_is_allocated ?irq s" "desc_map (irq_descs s ! unat ?irq) = 0" using Suc.prems(8,9) k lt irq by (simp_all add: irq_is_allocated_def)
  let ?d = "(irq_descs s ! unat ?irq)\<lparr>desc_hwirq := of_nat k, desc_map := mp, desc_chip := chip\<rparr>"
  let ?t = "s\<lparr>irq_descs := (irq_descs s)[unat ?irq := ?d]\<rparr>"
  have step: "i8259_configure chip mp (of_nat k) s = (Inr (), ?t)"
    unfolding i8259_configure_def to irq_desc_configure_def using lt al hw Suc.prems(1,2) by (simp only: if_False simp_thms kret_simp)
  have len: "unat ?irq < length (irq_descs s)" using irq k Suc.prems(5,6) by simp
  have "\<exists>s'. kerr_for (map of_nat [Suc k..<16]) (i8259_configure chip mp) ?t = (Inr (), s') \<and> pic_routed chip mp s'
    \<and> hal_log s' = hal_log ?t \<and> irq_maps s' = irq_maps ?t \<and> map desc_handler (irq_descs s') = map desc_handler (irq_descs ?t)"
    by (rule Suc.hyps(1)) (use Suc.hyps(2) Suc.prems len irq in \<open>auto simp: nth_list_update Let_def less_Suc_eq\<close>)
  moreover have "map desc_handler (irq_descs ?t) = map desc_handler (irq_descs s)"
    using len by (auto simp: list_eq_iff_nth_eq nth_list_update)
  ultimately show ?case using step by (simp add: k(2) kerr_try_def del: upt_rec_numeral)
qed

text \<open>The log after the controllers were programmed.\<close>

lemma pics_programmed:
  assumes "hal_log (i8259_mask_all (i8259_remap dev 0x20 0x28 s)) = log"
  shows "pics_at log 0xFF 0xFF" and "pic_vec (pic_of 0x20 log) = 0x20" and "pic_vec (pic_of 0xA0 log) = 0x28"
    and "pic_icw3 (pic_of 0x20 log) = 4" and "pic_icw3 (pic_of 0xA0 log) = 2"
    and "pic_icw4 (pic_of 0x20 log) = 1" and "pic_icw4 (pic_of 0xA0 log) = 1"
proof -
  have "log = hal_log s @ [In8 0x21, In8 0xA1, Out8 0x20 0x11, Out8 0x80 0, Out8 0xA0 0x11, Out8 0x80 0,
      Out8 0x21 0x20, Out8 0x80 0, Out8 0xA1 0x28, Out8 0x80 0, Out8 0x21 4, Out8 0x80 0, Out8 0xA1 2, Out8 0x80 0,
      Out8 0x21 1, Out8 0x80 0, Out8 0xA1 1, Out8 0x80 0, Out8 0x21 (ucast (dev (hal_log s) (In8 0x21))), Out8 0x80 0,
      Out8 0xA1 (ucast (dev (hal_log s @ [In8 0x21]) (In8 0xA1))), Out8 0x21 0xFF, Out8 0xA1 0xFF]"
    using assms by (simp add: i8259_mask_all_def i8259_remap_def i8259_io_wait_def hal_simps i8259_consts BIT_def Let_def)
  then obtain v w where log: "log = hal_log s @ [In8 0x21, In8 0xA1, Out8 0x20 0x11, Out8 0x80 0, Out8 0xA0 0x11, Out8 0x80 0,
      Out8 0x21 0x20, Out8 0x80 0, Out8 0xA1 0x28, Out8 0x80 0, Out8 0x21 4, Out8 0x80 0, Out8 0xA1 2, Out8 0x80 0,
      Out8 0x21 1, Out8 0x80 0, Out8 0xA1 1, Out8 0x80 0, Out8 0x21 v, Out8 0x80 0, Out8 0xA1 w, Out8 0x21 0xFF, Out8 0xA1 0xFF]"
    by blast
  have b: "bit (0x11 :: u8) 0" "bit (0x11 :: u8) 4" "\<not> bit (0x11 :: u8) 1" by simp_all
  show "pics_at log 0xFF 0xFF" and "pic_vec (pic_of 0x20 log) = 0x20" and "pic_vec (pic_of 0xA0 log) = 0x28"
    and "pic_icw3 (pic_of 0x20 log) = 4" and "pic_icw3 (pic_of 0xA0 log) = 2"
    and "pic_icw4 (pic_of 0x20 log) = 1" and "pic_icw4 (pic_of 0xA0 log) = 1"
    by (simp_all add: log pics_at_def pic_of_def pic_data_def b)
qed

text \<open>Allocation of numbers is first fit.\<close>

lemma irq_alloc_range_cases:
  assumes "0 < unat n" and "unat n \<le> 256"
  shows "case bitmap_scan (irq_allocated s) n IRQ_MAX 0 0 of
      None \<Rightarrow> irq_alloc_range n True s = (Inl KERR_NOSPC, s) \<and> (\<forall>p. p + unat n \<le> 256 \<longrightarrow> \<not> bm_run (irq_allocated s) p (unat n))
    | Some r \<Rightarrow> unat r + unat n \<le> 256 \<and> bm_run (irq_allocated s) (unat r) (unat n)
        \<and> (\<exists>b. irq_alloc_range n True s = (Inr r, s\<lparr>irq_allocated := b\<rparr>)
             \<and> (\<forall>j. bitmap_test b j \<longleftrightarrow> bitmap_test (irq_allocated s) j \<or> unat r \<le> unat j \<and> unat j < unat r + unat n))"
proof -
  have n: "n \<noteq> 0" "\<not> IRQ_MAX < n" using assms by (auto simp: IRQ_MAX_def word_less_nat_alt)
  have m: "unat IRQ_MAX = 256" by (simp add: IRQ_MAX_def)
  note scan = bitmap_scan_spec [of 0 0 n "irq_allocated s" IRQ_MAX]
  show ?thesis
  proof (cases "bitmap_scan (irq_allocated s) n IRQ_MAX 0 0")
    case None
    then show ?thesis using scan assms n m by (simp add: irq_alloc_range_def)
  next
    case (Some r)
    then have r: "unat r + unat n \<le> 256" "bm_run (irq_allocated s) (unat r) (unat n)" using scan assms m by simp_all
    then have "unat r + unat n \<le> 2 ^ 32" by simp
    from bitmap_test_set_run [OF this, of "irq_allocated s"] show ?thesis using Some r n by (auto simp: irq_alloc_range_def)
  qed
qed

lemma i8259_init_run:
  assumes len: "length (irq_descs s) = 256" and fresh: "\<forall>d\<in>set (irq_descs s). desc_map d = 0"
    and free: "p + 16 \<le> 256" "bm_run (irq_allocated s) p 16" and ptr: "mp \<noteq> 0" "chip \<noteq> 0" "name \<noteq> 0"
  shows "\<exists>s'. i8259_init dev chip mp name s = (Inr (), s') \<and> pic_routed chip mp s'
    \<and> hal_log s' = hal_log (i8259_mask_all (i8259_remap dev 0x20 0x28 s)) \<and> map desc_handler (irq_descs s') = map desc_handler (irq_descs s)
    \<and> (\<forall>n<16. \<not> bitmap_test (irq_allocated s) (pic_irq mp n s'))"
proof -
  let ?t = "i8259_mask_all (i8259_remap dev 0x20 0x28 s)"
  have t: "irq_descs ?t = irq_descs s" "irq_allocated ?t = irq_allocated s"
    by (simp_all add: i8259_mask_all_def i8259_remap_def i8259_io_wait_def hal_simps Let_def)
  have u16: "unat (16 :: u32) = 16" by simp
  obtain r b where r: "unat r + 16 \<le> 256" "bm_run (irq_allocated s) (unat r) 16"
    and al: "irq_alloc_range 16 True ?t = (Inr r, ?t\<lparr>irq_allocated := b\<rparr>)"
    and b: "\<forall>j. bitmap_test b j \<longleftrightarrow> bitmap_test (irq_allocated s) j \<or> unat r \<le> unat j \<and> unat j < unat r + 16"
    using irq_alloc_range_cases [of 16 ?t] free by (cases "bitmap_scan (irq_allocated s) 16 IRQ_MAX 0 0") (auto simp: t)
  let ?m = "\<lparr>map_name = name, first_hwirq = 0, first_irq = r, map_count = 16\<rparr>"
  let ?u = "?t\<lparr>irq_allocated := b, irq_maps := (irq_maps ?t)(mp := ?m)\<rparr>"
  have init: "irq_map_init mp name 0 16 ?t = (Inr (), ?u)" using al ptr by (simp add: irq_map_init_def kerr_try_def)
  have irq: "unat (r + of_nat n) = unat r + n" if "n < 16" for n
  proof -
    have "unat (of_nat n :: u32) = n" using that by (intro unat_of_nat_small) simp
    then show ?thesis using that r(1) by (subst unat_add_nowrap) simp_all
  qed
  have words: "words_upto 0 (map_count (irq_maps ?u mp)) = map of_nat [0..<16]" by (simp add: words_upto_def del: upt_rec_numeral)
  have "desc_map (irq_descs s ! (unat r + n)) = 0" if "n < 16" for n using fresh that r(1) len by simp
  then have "\<exists>s'. kerr_for (map of_nat [0..<16]) (i8259_configure chip mp) ?u = (Inr (), s') \<and> pic_routed chip mp s'
    \<and> hal_log s' = hal_log ?u \<and> irq_maps s' = irq_maps ?u \<and> map desc_handler (irq_descs s') = map desc_handler (irq_descs ?u)"
    using ptr len r(1) b irq by (intro configure_lines) (simp_all add: t)
  then obtain s' where s': "kerr_for (map of_nat [0..<16]) (i8259_configure chip mp) ?u = (Inr (), s')" "pic_routed chip mp s'"
    "hal_log s' = hal_log ?t" "irq_maps s' mp = ?m" "map desc_handler (irq_descs s') = map desc_handler (irq_descs s)" by (auto simp: t)
  have "i8259_init dev chip mp name s = (Inr (), s')"
    unfolding i8259_init_def Let_def using init s'(1) words
    by (simp add: kerr_try_def i8259_consts del: upt_rec_numeral)
  moreover have "\<not> bitmap_test (irq_allocated s) (pic_irq mp n s')" if "n < 16" for n
    using r(2) irq [OF that] that bm_free_unat [of "irq_allocated s" "r + of_nat n"] by (auto simp: s'(4) bm_run_def)
  ultimately show ?thesis using s' by blast
qed

subsection \<open>Dispatching\<close>

text \<open>The accesses that read the in-service registers, and whether the interrupt of line \<open>n\<close> is spurious.\<close>

definition isr_accesses :: "nat \<Rightarrow> port_op list" where
  "isr_accesses n = (if n = 7 \<or> n = 15 then [Out8 0x20 0x0B, In8 0x20, Out8 0xA0 0x0B, In8 0xA0] else [])"

definition spurious_irq :: "port_dev \<Rightarrow> port_op list \<Rightarrow> nat \<Rightarrow> bool" where
  "spurious_irq dev log n \<longleftrightarrow>
     n = 7 \<and> \<not> bit (ucast (dev (log @ [Out8 0x20 0x0B]) (In8 0x20)) :: u8) 7
   \<or> n = 15 \<and> \<not> bit (ucast (dev (log @ [Out8 0x20 0x0B, In8 0x20, Out8 0xA0 0x0B]) (In8 0xA0)) :: u8) 7"

definition eoi_accesses :: "nat \<Rightarrow> port_op list" where
  "eoi_accesses n = (if 8 \<le> n then [Out8 0xA0 0x20, Out8 0x20 0x20] else [Out8 0x20 0x20])"

lemma isr_bit:
  "(ucast (x :: u8) OR push_bit 8 (ucast (y :: u8)) :: u16) AND BIT 7 = 0 \<longleftrightarrow> \<not> bit x 7"
  "(ucast x OR push_bit 8 (ucast y) :: u16) AND BIT 15 = 0 \<longleftrightarrow> \<not> bit y 7"
  using MASK_TEST_BIT [of 7 "ucast x OR push_bit 8 (ucast y) :: u16"] MASK_TEST_BIT [of 15 "ucast x OR push_bit 8 (ucast y) :: u16"]
  by (auto simp: MASK_TEST_def bit_simps dest: bit_imp_le_length)

lemma read_isr_word: "I8259_OCW3_READ_ISR_MASK = 0x0B"
  by (simp add: I8259_OCW3_READ_ISR_MASK_def BIT_def)

lemma handle_line:
  assumes "n < 16"
  shows "i8259_handle_vector dev True (0x20 + of_nat n) s =
    (let s1 = s\<lparr>hal_log := hal_log s @ isr_accesses n\<rparr>
     in if spurious_irq dev (hal_log s) n
        then (Inl KERR_NOENT, if n = 15 then s1\<lparr>hal_log := hal_log s1 @ [Out8 0x20 0x20]\<rparr> else s1)
        else (Inr (of_nat n), s1))"
proof -
  let ?v = "0x20 + of_nat n :: u32"
  have u: "unat (of_nat n :: u32) = n" using assms by (intro unat_of_nat_small) simp
  then have v: "unat ?v = 32 + n" using assms by (subst unat_add_nowrap) simp_all
  have hw: "(if I8259_ICW2_MASTER_VECTOR_OFFSET \<le> ?v \<and> ?v < I8259_ICW2_MASTER_VECTOR_OFFSET + 8
       then Some (?v - I8259_ICW2_MASTER_VECTOR_OFFSET)
       else if I8259_ICW2_SLAVE_VECTOR_OFFSET \<le> ?v \<and> ?v < I8259_ICW2_SLAVE_VECTOR_OFFSET + 8
       then Some (8 + (?v - I8259_ICW2_SLAVE_VECTOR_OFFSET)) else None) = Some (of_nat n)"
    using v assms by (auto simp: i8259_consts word_le_nat_alt word_less_nat_alt)
  have eq: "(of_nat n :: u32) = 7 \<longleftrightarrow> n = 7" "(of_nat n :: u32) = 15 \<longleftrightarrow> n = 15" using u by (auto simp: word_unat_eq_iff)
  consider "n = 7" | "n = 15" | "n \<noteq> 7" "n \<noteq> 15" by blast
  then have "i8259_is_spurious dev (of_nat n) s = (spurious_irq dev (hal_log s) n, s\<lparr>hal_log := hal_log s @ isr_accesses n\<rparr>)"
    by cases (simp_all add: i8259_is_spurious_def i8259_read_isr_def hal_simps read_isr_word I8259_PIC1_COMMAND_PORT_def
      I8259_PIC2_COMMAND_PORT_def isr_bit eq spurious_irq_def isr_accesses_def)
  then show ?thesis unfolding i8259_handle_vector_def hw using eq
    by (simp add: Let_def hal_simps i8259_consts BIT_def)
qed

lemma send_eoi:
  assumes "desc_hwirq d = of_nat n" and "n < 16"
  shows "i8259_send_eoi d s = s\<lparr>hal_log := hal_log s @ eoi_accesses n\<rparr>"
  using hwirq_cases(1) [OF assms] by (simp add: i8259_send_eoi_def hal_simps eoi_accesses_def i8259_consts BIT_def Let_def)

lemma dispatch_line:
  assumes routed: "pic_routed chip mp s" and chip: "chips chip = i8259_chip dev" and n: "n < 16"
  shows "irq_dispatch chips calls chip mp (0x20 + of_nat n) s =
    (let s1 = s\<lparr>hal_log := hal_log s @ isr_accesses n\<rparr>; d = irq_descs s ! unat (pic_irq mp n s);
         s2 = calls (desc_handler d) (desc_dev_id d) s1
     in if spurious_irq dev (hal_log s) n
        then (Inl KERR_NOENT, if n = 15 then s1\<lparr>hal_log := hal_log s1 @ [Out8 0x20 0x20]\<rparr> else s1)
        else if desc_handler d = 0 then (Inl KERR_NOENT, s1)
        else (Inr (), i8259_send_eoi (irq_descs s2 ! unat (pic_irq mp n s)) s2))"
proof -
  let ?s1 = "s\<lparr>hal_log := hal_log s @ isr_accesses n\<rparr>"
  have r1: "pic_routed chip mp ?s1" using routed by (simp add: pic_routed_def)
  have p: "chip \<noteq> 0" "mp \<noteq> 0" using routed by (simp_all add: pic_routed_def)
  have "irq_map_hwirq_to_irq mp (of_nat n) ?s1 = pic_irq mp n s" using pic_map [OF r1 n] by simp
  moreover have "irq_desc_get (pic_irq mp n s) ?s1 = Some (irq_descs s ! unat (pic_irq mp n s))"
    using pic_irq_unat(2) [OF routed n] by (simp add: irq_desc_get_def)
  ultimately show ?thesis using p chip pic_irq_unat(3) [OF routed n] handle_line [OF n, of dev s]
    by (simp add: irq_dispatch_def kerr_try_def i8259_chip_def Let_def)
qed

lemma request_routed:
  assumes "pic_routed chip mp s0" and "irq_request irq h d s0 = (Inr (), s)"
  shows "pic_routed chip mp s" and "irq_maps s = irq_maps s0" and "irq < IRQ_MAX" and "h \<noteq> 0"
    and "irq_descs s = (irq_descs s0)[unat irq := (irq_descs s0 ! unat irq)\<lparr>desc_handler := h, desc_dev_id := d\<rparr>]"
proof -
  have s: "s = s0\<lparr>irq_descs := (irq_descs s0)[unat irq := (irq_descs s0 ! unat irq)\<lparr>desc_handler := h, desc_dev_id := d\<rparr>]\<rparr>"
    "irq < IRQ_MAX" "h \<noteq> 0"
    using assms(2) by (auto simp: irq_request_def Let_def split: if_splits)
  then show "irq_maps s = irq_maps s0" "irq < IRQ_MAX" "h \<noteq> 0"
    "irq_descs s = (irq_descs s0)[unat irq := (irq_descs s0 ! unat irq)\<lparr>desc_handler := h, desc_dev_id := d\<rparr>]" by simp_all
  have "unat irq < 256" using s(2) by (simp add: IRQ_MAX_def word_less_nat_alt)
  then show "pic_routed chip mp s" using assms(1) by (auto simp: pic_routed_def s(1) nth_list_update Let_def)
qed

subsection \<open>The claims\<close>

text \<open>
  C18. Initialization of the interrupt controllers. With sixteen consecutive free numbers and unused
  descriptors it succeeds. Both controllers are then programmed as the processor needs them (vectors 0x20
  and 0x28, cascade on line 2, 8086 mode), every line is masked, and the sixteen lines have consecutive
  numbers that were free, each with its own descriptor. No handler is installed or removed.
\<close>

theorem i8259_init_correct:
  assumes "length (irq_descs s) = 256" and "\<forall>d\<in>set (irq_descs s). desc_map d = 0"
    and "p + 16 \<le> 256" and "bm_run (irq_allocated s) p 16" and "mp \<noteq> 0" and "chip \<noteq> 0" and "name \<noteq> 0"
  shows "\<exists>s'. arch_irqchip_init dev chip mp name s = (Inr (), s') \<and> pic_routed chip mp s'
    \<and> pics_ok (hal_log s') \<and> (\<forall>n<16. \<not> line_open (hal_log s') n)
    \<and> pic_vec (pic_of 0x20 (hal_log s')) = 0x20 \<and> pic_vec (pic_of 0xA0 (hal_log s')) = 0x28
    \<and> pic_icw3 (pic_of 0x20 (hal_log s')) = BIT 2 \<and> pic_icw3 (pic_of 0xA0 (hal_log s')) = 2
    \<and> bit (pic_icw4 (pic_of 0x20 (hal_log s'))) 0 \<and> bit (pic_icw4 (pic_of 0xA0 (hal_log s'))) 0
    \<and> (\<forall>n<16. \<not> bitmap_test (irq_allocated s) (pic_irq mp n s')) \<and> map desc_handler (irq_descs s') = map desc_handler (irq_descs s)"
proof -
  obtain s' where s': "i8259_init dev chip mp name s = (Inr (), s')" "pic_routed chip mp s'"
    "hal_log (i8259_mask_all (i8259_remap dev 0x20 0x28 s)) = hal_log s'" "map desc_handler (irq_descs s') = map desc_handler (irq_descs s)"
    "\<forall>n<16. \<not> bitmap_test (irq_allocated s) (pic_irq mp n s')"
    using i8259_init_run [OF assms] by metis
  note prog = pics_programmed [OF s'(3)]
  have full: "\<forall>k<8. bit (0xFF :: u8) k" by (simp only: u8_full_iff [symmetric])
  have "pics_ok (hal_log s')" unfolding pics_ok_at using prog(1) full by (intro exI conjI) auto
  moreover have "\<not> line_open (hal_log s') n" if "n < 16" for n
    using that full by (auto simp: line_open_at [OF prog(1)])
  ultimately show ?thesis using s' prog by (auto simp: arch_irqchip_init_def kerr_try_def BIT_def)
qed

text \<open>
  C17. Enabling or disabling a line through its kernel number opens or closes exactly that line: the set of
  lines that reach the processor gains or loses it and nothing else, although the code also has to mask and
  unmask the cascade line between the two controllers. Line 2, which is the cascade, is excluded. The
  hypothesis on the devices is what the data sheet says: the mask registers read back.
\<close>

theorem irq_lines_correct:
  assumes "mask_reads_back dev" and "pic_routed chip mp s" and "chips chip = i8259_chip dev" and "pics_ok (hal_log s)"
    and "n < 16" and "n \<noteq> 2" and "irq_enable chips (pic_irq mp n s) s = (r, s1)" and "irq_disable chips (pic_irq mp n s) s = (r', s2)"
  shows "r = Inr () \<and> pics_ok (hal_log s1) \<and> {m. m < 16 \<and> m \<noteq> 2 \<and> line_open (hal_log s1) m} = insert n {m. m < 16 \<and> m \<noteq> 2 \<and> line_open (hal_log s) m}
    \<and> r' = Inr () \<and> pics_ok (hal_log s2) \<and> {m. m < 16 \<and> m \<noteq> 2 \<and> line_open (hal_log s2) m} = {m. m < 16 \<and> m \<noteq> 2 \<and> line_open (hal_log s) m} - {n}"
proof -
  let ?d = "irq_descs s ! unat (pic_irq mp n s)"
  note d = pic_desc [OF assms(2,5)]
  have "chip \<noteq> 0" using assms(2) by (simp add: pic_routed_def)
  then have "r = Inr ()" "s1 = i8259_unmask_irq dev ?d s" "r' = Inr ()" "s2 = i8259_mask_irq dev ?d s"
    using assms(3,7,8) d(2) pic_irq_unat(2) [OF assms(2,5)] by (auto simp: irq_enable_def irq_disable_def Let_def i8259_chip_def)
  then show ?thesis
    using unmask_lines [OF assms(1,4) d(1) assms(5,6)] mask_lines [OF assms(1,4) d(1) assms(5,6)] assms(5,6) by auto
qed

text \<open>
  C16. Dispatching. After a handler was registered for line \<open>n\<close>, an interrupt of line \<open>m\<close> runs that handler
  with its argument exactly when \<open>m = n\<close>, and the handler registered before otherwise; the controllers are
  then told in the right order that the interrupt is over. A spurious interrupt runs no handler, and only
  the first controller is told, and only when the second one raised it. An interrupt that has no handler is
  reported as an error, but then the controllers are never told that it is over.
\<close>

theorem irq_dispatch_correct:
  assumes routed: "pic_routed chip mp s0" and req: "irq_request (pic_irq mp n s0) h d s0 = (Inr (), s)"
    and chip: "chips chip = i8259_chip dev" and n: "n < 16" and m: "m < 16"
    and keep: "\<And>f a t. irq_descs (calls f a t) = irq_descs t"
  shows "pic_routed chip mp s \<and> irq_dispatch chips calls chip mp (0x20 + of_nat m) s =
    (let s1 = s\<lparr>hal_log := hal_log s @ isr_accesses m\<rparr>; old = irq_descs s0 ! unat (pic_irq mp m s0);
         f = (if m = n then h else desc_handler old); a = (if m = n then d else desc_dev_id old); s2 = calls f a s1
     in if spurious_irq dev (hal_log s) m
        then (Inl KERR_NOENT, if m = 15 then s1\<lparr>hal_log := hal_log s1 @ [Out8 0x20 0x20]\<rparr> else s1)
        else if f = 0 then (Inl KERR_NOENT, s1)
        else (Inr (), s2\<lparr>hal_log := hal_log s2 @ eoi_accesses m\<rparr>))"
proof -
  note R = request_routed [OF routed req]
  have irq: "unat (pic_irq mp n s0) = unat (first_irq (irq_maps s0 mp)) + n" "unat (pic_irq mp m s0) = unat (first_irq (irq_maps s0 mp)) + m"
    using pic_irq_unat(1) [OF routed] n m by simp_all
  have len: "unat (pic_irq mp m s0) < length (irq_descs s0)" using irq(2) m routed by (simp add: pic_routed_def)
  let ?d = "irq_descs s ! unat (pic_irq mp m s)"
  have fa: "desc_handler ?d = (if m = n then h else desc_handler (irq_descs s0 ! unat (pic_irq mp m s0)))"
    "desc_dev_id ?d = (if m = n then d else desc_dev_id (irq_descs s0 ! unat (pic_irq mp m s0)))"
    using irq len by (simp_all add: R(2,5) nth_list_update)
  have eoi: "i8259_send_eoi (irq_descs s ! unat (pic_irq mp m s)) t = t\<lparr>hal_log := hal_log t @ eoi_accesses m\<rparr>" for t
    by (rule send_eoi [OF pic_desc(1) [OF R(1) m] m])
  have keep': "irq_descs (calls f a (s\<lparr>hal_log := l\<rparr>)) = irq_descs s" for f a l by (simp add: keep)
  show ?thesis
    unfolding dispatch_line [where calls = calls and chips = chips and dev = dev, OF R(1) chip m] Let_def fa keep' eoi
    using R(1) by (simp only: simp_thms)
qed

subsection \<open>Witnesses\<close>

definition pic_dev :: port_dev where
  "pic_dev log op = (if op = In8 0x21 then ucast (pic_imr (pic_of 0x20 log)) else if op = In8 0xA1 then ucast (pic_imr (pic_of 0xA0 log)) else 0)"

definition irq0 :: irq_sys where
  "irq0 = \<lparr>hal_log = [], hal_eflags = 0, irq_allocated = BITMAP_INIT (\<lambda>_. 0) 256,
     irq_descs = replicate 256 \<lparr>desc_hwirq = 0, desc_map = 0, desc_chip = 0, desc_handler = 0, desc_dev_id = 0\<rparr>,
     irq_maps = (\<lambda>_. \<lparr>map_name = 0, first_hwirq = 0, first_irq = 0, map_count = 0\<rparr>)\<rparr>"

lemma pic_dev_reads: "mask_reads_back pic_dev"
proof -
  have "ucast (ucast x :: u32) = x" for x :: u8 by (rule bit_word_eqI) (auto simp: bit_simps)
  then show ?thesis by (auto simp: mask_reads_back_def pic_dev_def)
qed

lemma irq0_facts: "length (irq_descs irq0) = 256" "\<forall>d\<in>set (irq_descs irq0). desc_map d = 0 \<and> desc_handler d = 0" "bm_run (irq_allocated irq0) 0 16"
  by (simp_all add: irq0_def bm_run_def bm_free_def bitmap_test_bit BITMAP_INIT_def)

lemma irq1:
  obtains s where "pic_routed 0x2000 0x3000 s" "pics_ok (hal_log s)" "\<forall>d\<in>set (irq_descs (s :: irq_sys)). desc_handler d = 0"
proof -
  have "\<forall>d\<in>set (irq_descs irq0). desc_map d = 0" using irq0_facts by blast
  from i8259_init_run [OF irq0_facts(1) this _ irq0_facts(3), of "0x3000" "0x2000" "0x1000" pic_dev]
  obtain s :: irq_sys where s: "pic_routed 0x2000 0x3000 s" "hal_log s = hal_log (i8259_mask_all (i8259_remap pic_dev 0x20 0x28 irq0))"
    "map desc_handler (irq_descs s) = map desc_handler (irq_descs irq0)" by auto
  have full: "\<forall>k<8. bit (0xFF :: u8) k" by (simp only: u8_full_iff [symmetric])
  have "pics_ok (hal_log s)" unfolding pics_ok_at using pics_programmed(1) [OF s(2) [symmetric]] full by (intro exI conjI) auto
  moreover have "desc_handler ` set (irq_descs s) \<subseteq> {0}" using arg_cong [OF s(3), of set] irq0_facts(2) by auto
  ultimately show ?thesis using that s(1) by blast
qed

theorem i8259_init_correct_witness:
  "\<exists>s'. arch_irqchip_init pic_dev 0x2000 0x3000 0x1000 irq0 = (Inr (), s') \<and> pic_routed 0x2000 0x3000 s' \<and> \<not> line_open (hal_log s') 0"
proof -
  have "\<forall>d\<in>set (irq_descs irq0). desc_map d = 0" using irq0_facts by blast
  from i8259_init_correct [OF irq0_facts(1) this _ irq0_facts(3), of "0x3000" "0x2000" "0x1000" pic_dev]
  obtain s' where "arch_irqchip_init pic_dev 0x2000 0x3000 0x1000 irq0 = (Inr (), s')" "pic_routed 0x2000 0x3000 s'" "\<forall>n<16. \<not> line_open (hal_log s') n" by auto
  then show ?thesis by (intro exI [of _ s']) simp
qed

theorem irq_lines_correct_witness:
  "\<exists>(s :: irq_sys) s1. pic_routed 0x2000 0x3000 s \<and> irq_enable (\<lambda>_. i8259_chip pic_dev) (pic_irq 0x3000 9 s) s = (Inr (), s1) \<and> line_open (hal_log s1) 9"
proof -
  obtain s :: irq_sys where s: "pic_routed 0x2000 0x3000 s" "pics_ok (hal_log s)" by (rule irq1)
  let ?chips = "\<lambda>_ :: vaddr. i8259_chip pic_dev :: irq_sys irq_chip"
  obtain r s1 where e: "irq_enable ?chips (pic_irq 0x3000 9 s) s = (r, s1)" by (cases "irq_enable ?chips (pic_irq 0x3000 9 s) s")
  obtain r' s2 where d: "irq_disable ?chips (pic_irq 0x3000 9 s) s = (r', s2)" by (cases "irq_disable ?chips (pic_irq 0x3000 9 s) s")
  from irq_lines_correct [OF pic_dev_reads s(1) _ s(2) _ _ e d] have "r = Inr ()"
    "9 \<in> {m. m < 16 \<and> m \<noteq> 2 \<and> line_open (hal_log s1) m}" by auto
  then show ?thesis using s(1) e by (intro exI [of _ s] exI [of _ s1]) simp
qed

theorem irq_dispatch_correct_witness:
  "\<exists>(s :: irq_sys) s'. pic_routed 0x2000 0x3000 s \<and>
     irq_dispatch (\<lambda>_. i8259_chip pic_dev) (\<lambda>f a t. t\<lparr>hal_eflags := f\<rparr>) 0x2000 0x3000 0x20 s = (Inr (), s') \<and> hal_eflags s' = 0x4000"
proof -
  obtain s0 :: irq_sys where s: "pic_routed 0x2000 0x3000 s0" "\<forall>d\<in>set (irq_descs s0). desc_handler d = 0" by (rule irq1)
  let ?irq = "pic_irq 0x3000 0 s0"
  note d = pic_desc [OF s(1), of 0]
  have "unat ?irq < length (irq_descs s0)" using s(1) by (simp add: pic_routed_def)
  then have "desc_handler (irq_descs s0 ! unat ?irq) = 0" using s(2) by simp
  then obtain s1 where req: "irq_request ?irq 0x4000 0x5000 s0 = (Inr (), s1)"
    using d pic_irq_unat(2) [OF s(1), of 0] by (simp add: irq_request_def Let_def)
  let ?chips = "\<lambda>_ :: vaddr. i8259_chip pic_dev :: irq_sys irq_chip" and ?calls = "\<lambda>f (a :: vaddr) t. t\<lparr>hal_eflags := f\<rparr>"
  have "pic_routed 0x2000 0x3000 s1 \<and> irq_dispatch ?chips ?calls 0x2000 0x3000 (0x20 + of_nat 0) s1 =
    (Inr (), s1\<lparr>hal_eflags := 0x4000, hal_log := hal_log s1 @ eoi_accesses 0\<rparr>)"
    using irq_dispatch_correct [where calls = ?calls and chips = ?chips and dev = pic_dev and m = 0, OF s(1) req]
    by (simp add: Let_def spurious_irq_def isr_accesses_def)
  then show ?thesis by (intro exI [of _ s1] exI [of _ "s1\<lparr>hal_eflags := 0x4000, hal_log := hal_log s1 @ eoi_accesses 0\<rparr>"]) simp
qed

end
