(* ===== verification/Device.thy ===== *)
theory Device
  imports Irq Vmm Klib_Memory
begin

text \<open>
  The device model (\<^verbatim>\<open>src/kernel/device/\<close>): resources, buses, devices and drivers, and the platform
  bus, with the order of probing and binding. Structures are known by their addresses, the lists of a bus
  are the sequences of the addresses they link (the linked list itself is in \<^verbatim>\<open>klib/list.h\<close>). The
  functions that a bus or a driver points to are parameters. The traversal of a list of a bus takes the
  sequence as it is when the traversal starts: no probe function of the kernel registers a device or a
  driver. Debug messages are left out.
\<close>

subsection \<open>resource.h, resource.c\<close>

datatype resource_type = RESOURCE_TYPE_PORT | RESOURCE_TYPE_IRQ | RESOURCE_TYPE_MMIO

datatype resource =
    RESOURCE_PORT u32 u32
  | RESOURCE_IRQ u32 vaddr
  | RESOURCE_MMIO paddr paddr

fun res_type :: "resource \<Rightarrow> resource_type" where
  "res_type (RESOURCE_PORT _ _) = RESOURCE_TYPE_PORT"
| "res_type (RESOURCE_IRQ _ _) = RESOURCE_TYPE_IRQ"
| "res_type (RESOURCE_MMIO _ _) = RESOURCE_TYPE_MMIO"

definition RESOURCE_RANGE_SIZE :: "'a::len word \<Rightarrow> 'a word \<Rightarrow> 'a word" where
  "RESOURCE_RANGE_SIZE s e = (if s \<le> e then e - s + 1 else 0)"

fun RESOURCE_PORT_SIZE :: "resource \<Rightarrow> u32" where
  "RESOURCE_PORT_SIZE (RESOURCE_PORT s e) = RESOURCE_RANGE_SIZE s e"
| "RESOURCE_PORT_SIZE _ = 0"

fun RESOURCE_MMIO_SIZE :: "resource \<Rightarrow> paddr" where
  "RESOURCE_MMIO_SIZE (RESOURCE_MMIO s e) = RESOURCE_RANGE_SIZE s e"
| "RESOURCE_MMIO_SIZE _ = 0"

fun resource_scan :: "resource list \<Rightarrow> resource_type \<Rightarrow> size_t \<Rightarrow> size_t \<Rightarrow> resource option" where
  "resource_scan [] t i cur = None"
| "resource_scan (r # rs) t i cur =
     (if res_type r \<noteq> t then resource_scan rs t i cur
      else if cur = i then Some r
      else resource_scan rs t i (cur + 1))"

text \<open>\<open>None\<close> is the NULL pointer; an error is the error pointer that the code returns.\<close>

definition resource_get :: "resource list option \<Rightarrow> size_t \<Rightarrow> resource_type \<Rightarrow> size_t \<Rightarrow> kerror + resource" where
  "resource_get resources count t i =
     (case resources of
        None \<Rightarrow> Inl KERR_INVAL
      | Some rs \<Rightarrow> (case resource_scan (take (unat count) rs) t i 0 of Some r \<Rightarrow> Inr r | None \<Rightarrow> Inl KERR_NOENT))"

subsection \<open>bus.h, device.h, driver.h, platform.h\<close>

record device =
  dev_name :: vaddr
  dev_id :: u32
  dev_bus :: vaddr
  dev_driver :: vaddr
  dev_driver_data :: vaddr

record platform_device = device +
  pdev_resources :: "resource list option"
  pdev_resource_count :: size_t

record driver =
  drv_name :: vaddr
  drv_bus :: vaddr

record platform_driver = driver +
  pdrv_probe :: vaddr

record bus =
  bus_name :: vaddr
  bus_drivers :: "vaddr list"
  bus_devices :: "vaddr list"
  bus_match :: vaddr
  bus_probe :: vaddr

record dev_sys = irq_sys +
  ds_kern :: kern
  ds_strings :: bytes
  buses :: "vaddr list"
  ds_buses :: "vaddr \<Rightarrow> bus"
  ds_devices :: "vaddr \<Rightarrow> platform_device"
  ds_drivers :: "vaddr \<Rightarrow> platform_driver"

text \<open>The functions behind \<open>bus->match\<close> and \<open>bus->probe\<close>, by their addresses.\<close>

record 's bus_code =
  code_match :: "vaddr \<Rightarrow> vaddr \<Rightarrow> vaddr \<Rightarrow> 's \<Rightarrow> bool"
  code_probe :: "vaddr \<Rightarrow> vaddr \<Rightarrow> vaddr \<Rightarrow> ('s, unit) kfun"

definition set_bus :: "vaddr \<Rightarrow> (bus \<Rightarrow> bus) \<Rightarrow> 'a dev_sys_scheme \<Rightarrow> 'a dev_sys_scheme" where
  "set_bus b f s = s\<lparr>ds_buses := (ds_buses s)(b := f (ds_buses s b))\<rparr>"

definition set_device :: "vaddr \<Rightarrow> (platform_device \<Rightarrow> platform_device) \<Rightarrow> 'a dev_sys_scheme \<Rightarrow> 'a dev_sys_scheme" where
  "set_device d f s = s\<lparr>ds_devices := (ds_devices s)(d := f (ds_devices s d))\<rparr>"

definition set_driver :: "vaddr \<Rightarrow> (platform_driver \<Rightarrow> platform_driver) \<Rightarrow> 'a dev_sys_scheme \<Rightarrow> 'a dev_sys_scheme" where
  "set_driver d f s = s\<lparr>ds_drivers := (ds_drivers s)(d := f (ds_drivers s d))\<rparr>"

definition bus_init :: "vaddr \<Rightarrow> 'a dev_sys_scheme \<Rightarrow> 'a dev_sys_scheme" where
  "bus_init b = set_bus b (\<lambda>bs. bs\<lparr>bus_devices := [], bus_drivers := []\<rparr>)"

subsection \<open>bus.c\<close>

definition bus_register :: "vaddr \<Rightarrow> ('a dev_sys_scheme, unit) kfun" where
  "bus_register b s =
     (if b = 0 \<or> bus_match (ds_buses s b) = 0 \<or> bus_probe (ds_buses s b) = 0 then kfail KERR_INVAL s
      else kret () (s\<lparr>buses := buses s @ [b]\<rparr>))"

text \<open>The loop of \<open>bus_add_device\<close> over the drivers.\<close>

fun bus_try_drivers :: "'a dev_sys_scheme bus_code \<Rightarrow> vaddr \<Rightarrow> vaddr \<Rightarrow> vaddr list \<Rightarrow> 'a dev_sys_scheme \<Rightarrow> 'a dev_sys_scheme" where
  "bus_try_drivers code b dev [] s = s"
| "bus_try_drivers code b dev (drv # drvs) s =
     (if \<not> code_match code (bus_match (ds_buses s b)) dev drv s then bus_try_drivers code b dev drvs s
      else case code_probe code (bus_probe (ds_buses s b)) dev drv s of
             (Inr _, s) \<Rightarrow> set_device dev (\<lambda>d. d\<lparr>dev_driver := drv\<rparr>) s
           | (Inl _, s) \<Rightarrow> bus_try_drivers code b dev drvs s)"

definition bus_add_device :: "'a dev_sys_scheme bus_code \<Rightarrow> vaddr \<Rightarrow> vaddr \<Rightarrow> ('a dev_sys_scheme, unit) kfun" where
  "bus_add_device code b dev s =
     (if b = 0 \<or> dev = 0 then kfail KERR_INVAL s
      else let s = set_bus b (\<lambda>bs. bs\<lparr>bus_devices := bus_devices bs @ [dev]\<rparr>) s
           in kret () (bus_try_drivers code b dev (bus_drivers (ds_buses s b)) s))"

text \<open>The loop of \<open>bus_add_driver\<close> over the devices; it ends with the first device that is bound.\<close>

fun bus_try_devices :: "'a dev_sys_scheme bus_code \<Rightarrow> vaddr \<Rightarrow> vaddr \<Rightarrow> vaddr list \<Rightarrow> 'a dev_sys_scheme \<Rightarrow> 'a dev_sys_scheme" where
  "bus_try_devices code b drv [] s = s"
| "bus_try_devices code b drv (dev # devs) s =
     (if dev_driver (ds_devices s dev) \<noteq> 0 then bus_try_devices code b drv devs s
      else if \<not> code_match code (bus_match (ds_buses s b)) dev drv s then bus_try_devices code b drv devs s
      else case code_probe code (bus_probe (ds_buses s b)) dev drv s of
             (Inr _, s) \<Rightarrow> set_device dev (\<lambda>d. d\<lparr>dev_driver := drv\<rparr>) s
           | (Inl _, s) \<Rightarrow> bus_try_devices code b drv devs s)"

definition bus_add_driver :: "'a dev_sys_scheme bus_code \<Rightarrow> vaddr \<Rightarrow> vaddr \<Rightarrow> ('a dev_sys_scheme, unit) kfun" where
  "bus_add_driver code b drv s =
     (if b = 0 \<or> drv = 0 then kfail KERR_INVAL s
      else let s = set_bus b (\<lambda>bs. bs\<lparr>bus_drivers := bus_drivers bs @ [drv]\<rparr>) s
           in kret () (bus_try_devices code b drv (bus_devices (ds_buses s b)) s))"

subsection \<open>device.c, driver.c\<close>

definition device_register :: "'a dev_sys_scheme bus_code \<Rightarrow> vaddr \<Rightarrow> ('a dev_sys_scheme, unit) kfun" where
  "device_register code dev s =
     (if dev = 0 \<or> dev_bus (ds_devices s dev) = 0 then kfail KERR_INVAL s
      else bus_add_device code (dev_bus (ds_devices s dev)) dev s)"

definition driver_register :: "'a dev_sys_scheme bus_code \<Rightarrow> vaddr \<Rightarrow> ('a dev_sys_scheme, unit) kfun" where
  "driver_register code drv s =
     (if drv = 0 \<or> drv_bus (ds_drivers s drv) = 0 then kfail KERR_INVAL s
      else bus_add_driver code (drv_bus (ds_drivers s drv)) drv s)"

subsection \<open>platform.c\<close>

text \<open>A comparison of names that does not end counts as no match.\<close>

definition platform_match :: "vaddr \<Rightarrow> vaddr \<Rightarrow> 'a dev_sys_scheme \<Rightarrow> bool" where
  "platform_match dev drv s =
     (if dev = 0 \<or> drv = 0 \<or> dev_name (ds_devices s dev) = 0 \<or> drv_name (ds_drivers s drv) = 0 then False
      else strcmp (dev_name (ds_devices s dev)) (drv_name (ds_drivers s drv)) (ds_strings s) = Some 0)"

text \<open>\<open>probes\<close> gives the probe functions of the drivers by their addresses.\<close>

definition platform_probe :: "(vaddr \<Rightarrow> vaddr \<Rightarrow> ('a dev_sys_scheme, unit) kfun) \<Rightarrow> vaddr \<Rightarrow> vaddr \<Rightarrow> ('a dev_sys_scheme, unit) kfun" where
  "platform_probe probes dev drv s =
     (if pdrv_probe (ds_drivers s drv) = 0 then kfail KERR_INVAL s
      else probes (pdrv_probe (ds_drivers s drv)) dev s)"

definition platform_bus :: "(vaddr \<Rightarrow> vaddr \<Rightarrow> ('a dev_sys_scheme, unit) kfun) \<Rightarrow> 'a dev_sys_scheme bus_code" where
  "platform_bus probes = \<lparr>code_match = (\<lambda>_. platform_match), code_probe = (\<lambda>_. platform_probe probes)\<rparr>"

definition platform_init :: "vaddr \<Rightarrow> ('a dev_sys_scheme, unit) kfun" where
  "platform_init pb s = bus_register pb (bus_init pb s)"

definition platform_driver_register :: "'a dev_sys_scheme bus_code \<Rightarrow> vaddr \<Rightarrow> vaddr \<Rightarrow> ('a dev_sys_scheme, unit) kfun" where
  "platform_driver_register code pb pdrv s =
     (if pdrv = 0 then kfail KERR_INVAL s
      else driver_register code pdrv (set_driver pdrv (\<lambda>d. d\<lparr>drv_bus := pb\<rparr>) s))"

definition platform_device_register :: "'a dev_sys_scheme bus_code \<Rightarrow> vaddr \<Rightarrow> vaddr \<Rightarrow> ('a dev_sys_scheme, unit) kfun" where
  "platform_device_register code pb pdev s =
     (if pdev = 0 then kfail KERR_INVAL s
      else device_register code pdev (set_device pdev (\<lambda>d. d\<lparr>dev_bus := pb\<rparr>) s))"

end
