(* ===== verification/Device_Props.thy ===== *)
theory Device_Props
  imports Device
begin

text \<open>
  What the device model guarantees: the lookup of resources, and the binding of devices to drivers in
  every order of their registration.
\<close>

subsection \<open>Resources\<close>

lemma resource_scan_filter:
  assumes "unat cur \<le> unat i" and "unat i < 2 ^ 32 - 1"
  shows "resource_scan rs t i cur =
    (let xs = filter (\<lambda>r. res_type r = t) rs in if unat i - unat cur < length xs then Some (xs ! (unat i - unat cur)) else None)"
  using assms(1)
proof (induction rs arbitrary: cur)
  case (Cons r rs)
  show ?case
  proof (cases "res_type r = t \<and> cur \<noteq> i")
    case True
    then have "unat cur < unat i" using Cons.prems by (metis le_neq_implies_less word_unat_eq_iff)
    moreover from this have "unat (cur + 1) = unat cur + 1" by (intro unat_plus_1_less [of cur i]) (simp add: word_less_nat_alt)
    moreover from \<open>unat cur < unat i\<close> obtain k where "unat i = unat cur + Suc k" by (metis less_iff_Suc_add add_Suc_right)
    ultimately show ?thesis using True Cons.IH [of "cur + 1"] by (auto simp: Let_def)
  next
    case False
    then show ?thesis using Cons by (auto simp: Let_def)
  qed
qed simp

subsection \<open>What probing leaves alone\<close>

abbreviation bound_to :: "'a dev_sys_scheme \<Rightarrow> vaddr \<Rightarrow> vaddr" where
  "bound_to s d \<equiv> dev_driver (ds_devices s d)"

text \<open>Names, lists and bindings are as before; a probe function may change anything else.\<close>

definition dm_kept :: "'a dev_sys_scheme \<Rightarrow> 'a dev_sys_scheme \<Rightarrow> bool" where
  "dm_kept s s' \<longleftrightarrow> ds_buses s' = ds_buses s \<and> ds_drivers s' = ds_drivers s \<and> ds_strings s' = ds_strings s
     \<and> (\<forall>d. dev_name (ds_devices s' d) = dev_name (ds_devices s d) \<and> bound_to s' d = bound_to s d)"

definition probes_keep :: "(vaddr \<Rightarrow> vaddr \<Rightarrow> ('a dev_sys_scheme, unit) kfun) \<Rightarrow> bool" where
  "probes_keep probes \<longleftrightarrow> (\<forall>f dev s. dm_kept s (snd (probes f dev s)))"

lemma dm_kept_refl [simp]: "dm_kept s s"
  by (simp add: dm_kept_def)

lemma platform_match_kept: "dm_kept s s' \<Longrightarrow> platform_match d r s' = platform_match d r s"
  by (simp add: dm_kept_def platform_match_def)

lemma platform_match_bound [simp]:
  "platform_match d r (set_device e (\<lambda>x. x\<lparr>dev_driver := q\<rparr>) s) = platform_match d r s"
  by (simp add: platform_match_def set_device_def)

lemma bound_to_set [simp]: "bound_to (set_device e (\<lambda>x. x\<lparr>dev_driver := q\<rparr>) s) d = (if d = e then q else bound_to s d)"
  by (simp add: set_device_def)

lemma set_device_rest [simp]:
  "ds_buses (set_device e f s) = ds_buses s" "ds_drivers (set_device e f s) = ds_drivers s" "ds_strings (set_device e f s) = ds_strings s"
  by (simp_all add: set_device_def)

lemma platform_probe_keeps:
  assumes "probes_keep probes" and "platform_probe probes dev drv s = (r, s')"
  shows "dm_kept s s'"
  using assms by (auto simp: platform_probe_def probes_keep_def split: if_splits) (metis snd_conv)

subsection \<open>The two loops\<close>

text \<open>
  Both loops leave everything of the device model alone but one binding at most; the relation says which
  device \<open>d\<close> may have been bound to which driver \<open>r\<close>.
\<close>

definition binds :: "'a dev_sys_scheme \<Rightarrow> vaddr \<Rightarrow> vaddr \<Rightarrow> 'a dev_sys_scheme \<Rightarrow> bool" where
  "binds s d r s' \<longleftrightarrow> ds_buses s' = ds_buses s \<and> ds_drivers s' = ds_drivers s
     \<and> (\<forall>e q. platform_match e q s' = platform_match e q s) \<and> platform_match d r s
     \<and> (\<forall>e. bound_to s' e = (if e = d then r else bound_to s e))"

definition unbound_same :: "'a dev_sys_scheme \<Rightarrow> 'a dev_sys_scheme \<Rightarrow> bool" where
  "unbound_same s s' \<longleftrightarrow> ds_buses s' = ds_buses s \<and> ds_drivers s' = ds_drivers s
     \<and> (\<forall>e q. platform_match e q s' = platform_match e q s) \<and> (\<forall>e. bound_to s' e = bound_to s e)"

lemma kept_unbound_same: "dm_kept s s' \<Longrightarrow> unbound_same s s'"
  by (simp add: unbound_same_def platform_match_kept) (simp add: dm_kept_def)

lemma unbound_same_trans: "unbound_same s t \<Longrightarrow> unbound_same t u \<Longrightarrow> unbound_same s u"
  by (simp add: unbound_same_def)

lemma unbound_same_binds: "unbound_same s t \<Longrightarrow> binds t d r u \<Longrightarrow> binds s d r u"
  by (simp add: unbound_same_def binds_def)

lemma kept_bind: "dm_kept s t \<Longrightarrow> platform_match d r s \<Longrightarrow> binds s d r (set_device d (\<lambda>x. x\<lparr>dev_driver := r\<rparr>) t)"
  by (simp add: binds_def platform_match_kept) (simp add: dm_kept_def)

abbreviation "probes_succeed probes \<equiv> (\<forall>f dev s. \<exists>s'. probes f dev s = (Inr (), s'))"

lemma try_drivers:
  assumes keep: "probes_keep probes"
  shows "unbound_same s (bus_try_drivers (platform_bus probes) b d rs s)
      \<and> ((\<forall>r\<in>set rs. pdrv_probe (ds_drivers s r) \<noteq> 0) \<and> probes_succeed probes \<longrightarrow> (\<forall>r\<in>set rs. \<not> platform_match d r s))
    \<or> (\<exists>r\<in>set rs. binds s d r (bus_try_drivers (platform_bus probes) b d rs s))"
proof (induction rs arbitrary: s)
  case Nil
  show ?case by (simp add: unbound_same_def)
next
  case (Cons r rs)
  show ?case
  proof (cases "platform_match d r s")
    case False
    then show ?thesis using Cons [of s] by (auto simp: platform_bus_def)
  next
    case True
    obtain q t where q: "platform_probe probes d r s = (q, t)" by (cases "platform_probe probes d r s")
    note k = platform_probe_keeps [OF keep q]
    show ?thesis
    proof (cases q)
      case (Inr u)
      then show ?thesis using True q kept_bind [OF k True] by (auto simp: platform_bus_def)
    next
      case (Inl e)
      then have no: "\<not> (pdrv_probe (ds_drivers s r) \<noteq> 0 \<and> probes_succeed probes)"
        using q by (auto simp: platform_probe_def) (metis Inl_Inr_False Pair_inject)
      have "bus_try_drivers (platform_bus probes) b d (r # rs) s = bus_try_drivers (platform_bus probes) b d rs t"
        using True q Inl by (simp add: platform_bus_def)
      then show ?thesis using no Cons.IH [of t] unbound_same_trans [OF kept_unbound_same [OF k]] unbound_same_binds [OF kept_unbound_same [OF k]]
        by (metis list.set_intros)
    qed
  qed
qed

lemma try_devices:
  assumes keep: "probes_keep probes" and r: "r \<noteq> 0"
  shows "unbound_same s (bus_try_devices (platform_bus probes) b r ds s)
      \<and> (pdrv_probe (ds_drivers s r) \<noteq> 0 \<and> probes_succeed probes \<longrightarrow> (\<forall>d\<in>set ds. bound_to s d = 0 \<longrightarrow> \<not> platform_match d r s))
    \<or> (\<exists>d\<in>set ds. bound_to s d = 0 \<and> binds s d r (bus_try_devices (platform_bus probes) b r ds s))"
proof (induction ds arbitrary: s)
  case Nil
  show ?case by (simp add: unbound_same_def)
next
  case (Cons d ds)
  show ?case
  proof (cases "bound_to s d = 0 \<and> platform_match d r s")
    case False
    then show ?thesis using Cons [of s] by (auto simp: platform_bus_def)
  next
    case True
    obtain q t where q: "platform_probe probes d r s = (q, t)" by (cases "platform_probe probes d r s")
    note k = platform_probe_keeps [OF keep q]
    show ?thesis
    proof (cases q)
      case (Inr u)
      then show ?thesis using True q kept_bind [OF k conjunct2 [OF True]] by (auto simp: platform_bus_def)
    next
      case (Inl e)
      then have no: "\<not> (pdrv_probe (ds_drivers s r) \<noteq> 0 \<and> probes_succeed probes)"
        using q by (auto simp: platform_probe_def) (metis Inl_Inr_False Pair_inject)
      have same: "bound_to t e = bound_to s e" for e using k by (simp add: dm_kept_def)
      have "bus_try_devices (platform_bus probes) b r (d # ds) s = bus_try_devices (platform_bus probes) b r ds t"
        using True q Inl by (simp add: platform_bus_def)
      then show ?thesis using no Cons.IH [of t] same unbound_same_trans [OF kept_unbound_same [OF k]] unbound_same_binds [OF kept_unbound_same [OF k]]
        by (metis list.set_intros)
    qed
  qed
qed

subsection \<open>Sequences of registrations\<close>

abbreviation pb_devices :: "vaddr \<Rightarrow> 'a dev_sys_scheme \<Rightarrow> vaddr list" where
  "pb_devices pb s \<equiv> bus_devices (ds_buses s pb)"

abbreviation pb_drivers :: "vaddr \<Rightarrow> 'a dev_sys_scheme \<Rightarrow> vaddr list" where
  "pb_drivers pb s \<equiv> bus_drivers (ds_buses s pb)"

text \<open>
  The states of the platform bus: initialization, then registrations of devices that are not registered
  and not bound and of drivers that have a probe function, in any order.
\<close>

inductive platform_reach :: "(vaddr \<Rightarrow> vaddr \<Rightarrow> ('a dev_sys_scheme, unit) kfun) \<Rightarrow> vaddr \<Rightarrow> 'a dev_sys_scheme \<Rightarrow> bool" for probes pb where
  reach_init: "platform_init pb s = (Inr (), s') \<Longrightarrow> platform_reach probes pb s'"
| reach_device: "platform_reach probes pb s \<Longrightarrow> d \<notin> set (pb_devices pb s) \<Longrightarrow> bound_to s d = 0 \<Longrightarrow>
     platform_device_register (platform_bus probes) pb d s = (r, s') \<Longrightarrow> platform_reach probes pb s'"
| reach_driver: "platform_reach probes pb s \<Longrightarrow> pdrv_probe (ds_drivers s q) \<noteq> 0 \<Longrightarrow>
     platform_driver_register (platform_bus probes) pb q s = (r, s') \<Longrightarrow> platform_reach probes pb s'"

definition bindings_ok :: "vaddr \<Rightarrow> 'a dev_sys_scheme \<Rightarrow> bool" where
  "bindings_ok pb s \<longleftrightarrow> pb \<noteq> 0 \<and> 0 \<notin> set (pb_drivers pb s) \<and> (\<forall>q\<in>set (pb_drivers pb s). pdrv_probe (ds_drivers s q) \<noteq> 0)
     \<and> (\<forall>d\<in>set (pb_devices pb s). bound_to s d \<noteq> 0 \<longrightarrow> bound_to s d \<in> set (pb_drivers pb s) \<and> platform_match d (bound_to s d) s)"

definition bindings_complete :: "vaddr \<Rightarrow> 'a dev_sys_scheme \<Rightarrow> bool" where
  "bindings_complete pb s \<longleftrightarrow> (\<forall>q\<in>set (pb_drivers pb s). \<forall>d\<in>set (pb_devices pb s).
     platform_match d q s \<and> bound_to s d = 0 \<longrightarrow> (\<exists>d'\<in>set (pb_devices pb s). bound_to s d' = q))"

lemma add_device_step:
  assumes keep: "probes_keep probes" and ok: "bindings_ok pb s" and new: "d \<notin> set (pb_devices pb s)" "bound_to s d = 0"
    and run: "platform_device_register (platform_bus probes) pb d s = (r, s')"
  shows "bindings_ok pb s' \<and> (probes_succeed probes \<and> bindings_complete pb s \<longrightarrow> bindings_complete pb s')"
proof (cases "d = 0")
  case True
  then show ?thesis using run ok by (simp add: platform_device_register_def)
next
  case False
  let ?t = "set_bus pb (\<lambda>bs. bs\<lparr>bus_devices := bus_devices bs @ [d]\<rparr>) (set_device d (\<lambda>x. x\<lparr>dev_bus := pb\<rparr>) s)"
  have t: "pb_devices pb ?t = pb_devices pb s @ [d]" "pb_drivers pb ?t = pb_drivers pb s" "ds_drivers ?t = ds_drivers s"
    "\<And>e q. platform_match e q ?t = platform_match e q s" "\<And>e. bound_to ?t e = bound_to s e"
    by (simp_all add: set_bus_def set_device_def platform_match_def)
  have s': "s' = bus_try_drivers (platform_bus probes) pb d (pb_drivers pb s) ?t"
    using run False ok t(2) by (simp add: platform_device_register_def device_register_def bus_add_device_def bindings_ok_def Let_def set_device_def)
  have rest: "\<forall>q\<in>set (pb_drivers pb s). pdrv_probe (ds_drivers ?t q) \<noteq> 0" using ok by (simp add: bindings_ok_def t)
  from try_drivers [OF keep, of ?t pb d "pb_drivers pb s"] consider
      (same) "unbound_same ?t s'" "probes_succeed probes \<longrightarrow> (\<forall>q\<in>set (pb_drivers pb s). \<not> platform_match d q s)"
    | (bind) q where "q \<in> set (pb_drivers pb s)" "binds ?t d q s'"
    using rest unfolding s' t by blast
  then show ?thesis
  proof cases
    case same
    then show ?thesis using ok new t unfolding bindings_ok_def bindings_complete_def unbound_same_def by auto
  next
    case (bind q)
    then have b: "ds_buses s' = ds_buses ?t" "ds_drivers s' = ds_drivers s" "\<And>e p. platform_match e p s' = platform_match e p s"
      "platform_match d q s" "\<And>e. bound_to s' e = (if e = d then q else bound_to s e)" by (simp_all add: binds_def t)
    have "q \<noteq> 0" using bind(1) ok by (auto simp: bindings_ok_def)
    then show ?thesis using ok new t(1,2) bind(1) b(1,2) unfolding bindings_ok_def bindings_complete_def b(3,5) b(1) t by (auto simp: b(4))
  qed
qed

lemma add_driver_step:
  assumes keep: "probes_keep probes" and ok: "bindings_ok pb s" and pr: "pdrv_probe (ds_drivers s q) \<noteq> 0"
    and run: "platform_driver_register (platform_bus probes) pb q s = (r, s')"
  shows "bindings_ok pb s' \<and> (probes_succeed probes \<and> bindings_complete pb s \<longrightarrow> bindings_complete pb s')"
proof (cases "q = 0")
  case True
  then show ?thesis using run ok by (simp add: platform_driver_register_def)
next
  case False
  let ?t = "set_bus pb (\<lambda>bs. bs\<lparr>bus_drivers := bus_drivers bs @ [q]\<rparr>) (set_driver q (\<lambda>x. x\<lparr>drv_bus := pb\<rparr>) s)"
  have t: "pb_drivers pb ?t = pb_drivers pb s @ [q]" "pb_devices pb ?t = pb_devices pb s" "\<And>e. pdrv_probe (ds_drivers ?t e) = pdrv_probe (ds_drivers s e)"
    "\<And>e q. platform_match e q ?t = platform_match e q s" "\<And>e. bound_to ?t e = bound_to s e"
    by (simp_all add: set_bus_def set_driver_def platform_match_def)
  have s': "s' = bus_try_devices (platform_bus probes) pb q (pb_devices pb s) ?t"
    using run False ok t(2) by (simp add: platform_driver_register_def driver_register_def bus_add_driver_def bindings_ok_def Let_def set_driver_def)
  from try_devices [OF keep False, of ?t pb "pb_devices pb s"] consider
      (same) "unbound_same ?t s'" "probes_succeed probes \<longrightarrow> (\<forall>d\<in>set (pb_devices pb s). bound_to s d = 0 \<longrightarrow> \<not> platform_match d q s)"
    | (bind) d where "d \<in> set (pb_devices pb s)" "bound_to s d = 0" "binds ?t d q s'"
    using pr unfolding s' t by blast
  then show ?thesis
  proof cases
    case same
    then have b: "ds_buses s' = ds_buses ?t" "\<And>e. pdrv_probe (ds_drivers s' e) = pdrv_probe (ds_drivers s e)" "\<And>e p. platform_match e p s' = platform_match e p s"
      "\<And>e. bound_to s' e = bound_to s e" by (simp_all add: unbound_same_def t)
    show ?thesis using ok same(2) pr False unfolding bindings_ok_def bindings_complete_def b t by auto
  next
    case (bind d)
    then have b: "ds_buses s' = ds_buses ?t" "\<And>e. pdrv_probe (ds_drivers s' e) = pdrv_probe (ds_drivers s e)" "\<And>e p. platform_match e p s' = platform_match e p s"
      "platform_match d q s" "\<And>e. bound_to s' e = (if e = d then q else bound_to s e)" by (simp_all add: binds_def t)
    have "bindings_ok pb s'" using ok pr False b(4) unfolding bindings_ok_def b(1,2,3,5) t by auto
    moreover have "bindings_complete pb s'" if c: "bindings_complete pb s"
      unfolding bindings_complete_def b(1,3,5) t
    proof (intro ballI impI)
      fix q' e assume h: "q' \<in> set (pb_drivers pb s @ [q])" "e \<in> set (pb_devices pb s)" "platform_match e q' s \<and> (if e = d then q else bound_to s e) = 0"
      show "\<exists>d'\<in>set (pb_devices pb s). (if d' = d then q else bound_to s d') = q'"
      proof (cases "q' = q")
        case True
        then show ?thesis using bind(1) by (intro bexI [of _ d]) simp_all
      next
        case neq: False
        then have "q' \<in> set (pb_drivers pb s)" "q' \<noteq> 0" "bound_to s e = 0" using h ok False by (auto simp: bindings_ok_def split: if_splits)
        then obtain d' where "d' \<in> set (pb_devices pb s)" "bound_to s d' = q'" using c h(2,3) by (auto simp: bindings_complete_def)
        then show ?thesis using bind(2) \<open>q' \<noteq> 0\<close> by (intro bexI [of _ d']) auto
      qed
    qed
    ultimately show ?thesis by blast
  qed
qed

lemma platform_reach_bindings:
  assumes "platform_reach probes pb s" and "probes_keep probes"
  shows "bindings_ok pb s \<and> (probes_succeed probes \<longrightarrow> bindings_complete pb s)"
  using assms(1)
proof induction
  case (reach_init s s')
  then show ?case by (auto simp: platform_init_def bus_register_def bus_init_def set_bus_def bindings_ok_def bindings_complete_def split: if_splits)
next
  case (reach_device s d r s')
  then show ?case using add_device_step [OF assms(2)] by blast
next
  case (reach_driver s q r s')
  then show ?case using add_driver_step [OF assms(2)] by blast
qed

subsection \<open>The claims\<close>

text \<open>
  C23. Binding on the platform bus, for every order in which devices and drivers are registered. A device is
  only ever bound to a registered driver of its own name. If the probe functions succeed, a registered
  device with a registered driver of its name is bound, provided that it is the only device of that name.
  A driver is bound to one device at a time of its registration, so that with several devices of one name
  some may stay unbound although a driver for them is there. The probe functions are assumed not to change
  names, lists and bindings themselves.
\<close>

theorem platform_binding:
  assumes "platform_reach probes pb s" and "probes_keep probes" and "d \<in> set (pb_devices pb s)"
  shows "(bound_to s d \<noteq> 0 \<longrightarrow> bound_to s d \<in> set (pb_drivers pb s) \<and> platform_match d (bound_to s d) s) \<and>
    (probes_succeed probes \<and> q \<in> set (pb_drivers pb s) \<and> platform_match d q s \<and> (\<forall>e\<in>set (pb_devices pb s). platform_match e q s \<longrightarrow> e = d)
       \<longrightarrow> bound_to s d \<noteq> 0)"
proof -
  have ok: "bindings_ok pb s" and c: "probes_succeed probes \<longrightarrow> bindings_complete pb s"
    using platform_reach_bindings [OF assms(1,2)] by blast+
  have "bound_to s d \<noteq> 0" if h: "probes_succeed probes" "q \<in> set (pb_drivers pb s)" "platform_match d q s"
    "\<forall>e\<in>set (pb_devices pb s). platform_match e q s \<longrightarrow> e = d"
  proof
    assume "bound_to s d = 0"
    then obtain e where e: "e \<in> set (pb_devices pb s)" "bound_to s e = q"
      using c h(1,2,3) assms(3) by (auto simp: bindings_complete_def)
    moreover have "q \<noteq> 0" using ok h(2) by (auto simp: bindings_ok_def)
    ultimately have "platform_match e q s" using ok by (auto simp: bindings_ok_def)
    then show False using h(4) e \<open>bound_to s d = 0\<close> \<open>q \<noteq> 0\<close> by auto
  qed
  moreover have "bound_to s d \<noteq> 0 \<longrightarrow> bound_to s d \<in> set (pb_drivers pb s) \<and> platform_match d (bound_to s d) s"
    using ok assms(3) by (simp add: bindings_ok_def)
  ultimately show ?thesis by blast
qed

text \<open>
  The loop over the devices ends with the first one that is bound. When a driver is registered for two
  unbound devices of its name, the second one stays unbound, although the driver could serve it and the
  documentation of the function says that it tries every device.
\<close>

theorem bus_add_driver_first_only:
  assumes "probes_keep probes" and "probes_succeed probes" and "b \<noteq> 0" and "q \<noteq> 0" and "pdrv_probe (ds_drivers s q) \<noteq> 0"
    and "bus_devices (ds_buses s b) = [d1, d2]" and "d1 \<noteq> d2" and "bound_to s d1 = 0" and "bound_to s d2 = 0"
    and "platform_match d1 q s" and "platform_match d2 q s" and "bus_add_driver (platform_bus probes) b q s = (r, s')"
  shows "r = Inr () \<and> bound_to s' d1 = q \<and> bound_to s' d2 = 0"
proof -
  let ?t = "set_bus b (\<lambda>bs. bs\<lparr>bus_drivers := bus_drivers bs @ [q]\<rparr>) s"
  have t: "bus_devices (ds_buses ?t b) = [d1, d2]" "ds_drivers ?t = ds_drivers s" "platform_match d1 q ?t" "bound_to ?t d1 = 0" "bound_to ?t d2 = 0"
    using assms(6-10) by (auto simp: set_bus_def platform_match_def)
  obtain u where "probes (pdrv_probe (ds_drivers s q)) d1 ?t = (Inr (), u)" using assms(2) by blast
  then have u: "platform_probe probes d1 q ?t = (Inr (), u)" using assms(5) t(2) by (simp add: platform_probe_def)
  have "bound_to u d2 = 0" using platform_probe_keeps [OF assms(1) u] t(5) by (simp add: dm_kept_def)
  moreover have "r = Inr ()" "s' = set_device d1 (\<lambda>x. x\<lparr>dev_driver := q\<rparr>) u"
    using assms(3,4,12) t u by (simp_all add: bus_add_driver_def Let_def platform_bus_def)
  ultimately show ?thesis using assms(7) by simp
qed

subsection \<open>Witnesses\<close>

text \<open>A bus, two devices and a driver of one name, and a probe function that records the device.\<close>

definition name_bytes :: bytes where
  "name_bytes = (\<lambda>_. 0)(0x1000 := 65)"

definition dm0 :: dev_sys where
  "dm0 = \<lparr>hal_log = [], hal_eflags = 0, irq_allocated = BITMAP_INIT (\<lambda>_. 0) 256, irq_descs = [],
     irq_maps = (\<lambda>_. \<lparr>map_name = 0, first_hwirq = 0, first_irq = 0, map_count = 0\<rparr>), ds_kern = kstk_sample, ds_strings = name_bytes, buses = [],
     ds_buses = (\<lambda>_. \<lparr>bus_name = 0x1000, bus_drivers = [], bus_devices = [], bus_match = 1, bus_probe = 2\<rparr>),
     ds_devices = (\<lambda>_. \<lparr>dev_name = 0x1000, dev_id = 0, dev_bus = 0, dev_driver = 0, dev_driver_data = 0, pdev_resources = None, pdev_resource_count = 0\<rparr>),
     ds_drivers = (\<lambda>_. \<lparr>drv_name = 0x1000, drv_bus = 0, pdrv_probe = 3\<rparr>)\<rparr>"

definition probe0 :: "vaddr \<Rightarrow> vaddr \<Rightarrow> (dev_sys, unit) kfun" where
  "probe0 f d s = kret () (set_device d (\<lambda>x. x\<lparr>dev_driver_data := d\<rparr>) s)"

lemma probe0_keeps: "probes_keep probe0"
  by (auto simp: probes_keep_def probe0_def dm_kept_def set_device_def)

lemma names_match: "strcmp 0x1000 0x1000 name_bytes = Some 0"
  using strcmp_go [of name_bytes "0x1000" "0x1000"] strcmp_stop [of name_bytes "0x1001" "0x1001"] by (simp add: name_bytes_def)

lemma match0 [simp]: "d \<noteq> 0 \<Longrightarrow> q \<noteq> 0 \<Longrightarrow> dev_name (ds_devices s d) = 0x1000 \<Longrightarrow> drv_name (ds_drivers s q) = 0x1000 \<Longrightarrow> ds_strings s = name_bytes
    \<Longrightarrow> platform_match d q s"
  by (simp add: platform_match_def names_match)

theorem platform_binding_witness:
  "\<exists>s. platform_reach probe0 0x10 s \<and> pb_devices 0x10 s = [0x20] \<and> bound_to s 0x20 = 0x40"
proof -
  obtain s1 where s1: "platform_init 0x10 dm0 = (Inr (), s1)" by (simp add: platform_init_def bus_register_def bus_init_def set_bus_def dm0_def)
  obtain r2 s2 where s2: "platform_device_register (platform_bus probe0) 0x10 0x20 s1 = (r2, s2)" by (cases "platform_device_register (platform_bus probe0) 0x10 0x20 s1")
  obtain r3 s3 where s3: "platform_driver_register (platform_bus probe0) 0x10 0x40 s2 = (r3, s3)" by (cases "platform_driver_register (platform_bus probe0) 0x10 0x40 s2")
  note defs = platform_init_def bus_register_def bus_init_def set_bus_def dm0_def platform_device_register_def device_register_def
    bus_add_device_def platform_driver_register_def driver_register_def bus_add_driver_def set_device_def set_driver_def Let_def
  have f1: "pb_devices 0x10 s1 = []" "bound_to s1 0x20 = 0" using s1 by (auto simp: defs)
  have f2: "s2 = set_bus 0x10 (\<lambda>bs. bs\<lparr>bus_devices := [0x20]\<rparr>) (set_device 0x20 (\<lambda>x. x\<lparr>dev_bus := 0x10\<rparr>) s1)"
    using s1 s2 by (auto simp: defs)
  have p2: "pdrv_probe (ds_drivers s2 0x40) \<noteq> 0" using s1 by (auto simp: f2 defs)
  have r1: "platform_reach probe0 0x10 s1" using s1 by (rule platform_reach.reach_init)
  have r2: "platform_reach probe0 0x10 s2" by (rule platform_reach.reach_device [OF r1 _ _ s2]) (simp_all add: f1)
  have r3: "platform_reach probe0 0x10 s3" by (rule platform_reach.reach_driver [OF r2 p2 s3])
  have f3: "pb_devices 0x10 s3 = [0x20]" "pb_drivers 0x10 s3 = [0x40]" "platform_match 0x20 0x40 s3"
    using s1 s3 by (auto simp: f2 defs platform_bus_def platform_probe_def probe0_def platform_match_def names_match)
  then have d: "0x20 \<in> set (pb_devices 0x10 s3)" by simp
  have "probes_succeed probe0" by (simp add: probe0_def)
  then have "bound_to s3 0x20 \<noteq> 0" using platform_binding [OF r3 probe0_keeps d, of "0x40"] f3 by simp
  moreover have "bound_to s3 0x20 \<noteq> 0 \<longrightarrow> bound_to s3 0x20 \<in> set (pb_drivers 0x10 s3)" using platform_binding [OF r3 probe0_keeps d, of 0] by blast
  ultimately show ?thesis using r3 f3 by auto
qed

theorem bus_add_driver_first_only_witness:
  "\<exists>s s'. platform_match 0x21 0x40 s \<and> bus_add_driver (platform_bus probe0) 0x10 0x40 s = (Inr (), s') \<and> bound_to s' 0x20 = 0x40 \<and> bound_to s' 0x21 = 0"
proof -
  define s where "s = set_bus 0x10 (\<lambda>bs. bs\<lparr>bus_devices := [0x20, 0x21]\<rparr>) dm0"
  obtain r s' where run: "bus_add_driver (platform_bus probe0) 0x10 0x40 s = (r, s')" by (cases "bus_add_driver (platform_bus probe0) 0x10 0x40 s")
  have m: "platform_match 0x20 0x40 s" "platform_match 0x21 0x40 s" by (simp_all add: s_def set_bus_def dm0_def)
  have "probes_succeed probe0" by (simp add: probe0_def)
  from bus_add_driver_first_only [OF probe0_keeps this _ _ _ _ _ _ _ m run]
  have "r = Inr () \<and> bound_to s' 0x20 = 0x40 \<and> bound_to s' 0x21 = 0" by (simp add: s_def set_bus_def dm0_def)
  then show ?thesis using run m by (intro exI [of _ s] exI [of _ s']) simp
qed

end
