(* ===== verification/Vga_Text.thy ===== *)
theory Vga_Text
  imports Device Klib_Ringbuf Klib_Fmt
begin

text \<open>
  The console (\<^verbatim>\<open>src/kernel/console/console.c\<close>), its VGA text driver
  (\<^verbatim>\<open>src/kernel/drivers/video/vga/vga_text.c\<close>) and the printing of kernel messages
  (\<^verbatim>\<open>src/kernel/log/printk.c\<close>): definitions. A console structure is the first member of the private
  structure of its driver, so both have the same address. The cells of the screen are a memory of 16-bit
  units at their addresses. A buffer that is passed with a length is what the pointer shows: the byte at
  every offset, inside the array it points to and beyond it.
\<close>

subsection \<open>Data\<close>

definition CONSOLE_TAB_SIZE :: u32 where
  "CONSOLE_TAB_SIZE = 4"

record console =
  con_name :: vaddr
  con_width :: u32
  con_height :: u32
  cursor_x :: u32
  cursor_y :: u32

record vga_text_priv =
  vp_con :: console
  vp_buffer :: vaddr
  vp_port_base :: u32

record io_sys = dev_sys +
  vram :: "u32 \<Rightarrow> u16"
  active_con :: vaddr
  vga_privs :: "vaddr \<Rightarrow> vga_text_priv"
  sys_log :: syslog

text \<open>The operations that a console points to.\<close>

record 's console_ops =
  op_write :: "vaddr \<Rightarrow> (u32 \<Rightarrow> u8) option \<Rightarrow> size_t \<Rightarrow> ('s, unit) kfun"
  op_clear :: "vaddr \<Rightarrow> ('s, unit) kfun"
  op_set_cursor_position :: "vaddr \<Rightarrow> u32 \<Rightarrow> u32 \<Rightarrow> ('s, unit) kfun"
  op_set_cursor_visible :: "vaddr \<Rightarrow> bool \<Rightarrow> ('s, unit) kfun"

subsection \<open>console.c\<close>

definition console_register :: "vaddr \<Rightarrow> ('a io_sys_scheme, unit) kfun" where
  "console_register con s =
     (if con = 0 then kfail KERR_INVAL s
      else if active_con s \<noteq> 0 then kfail KERR_BUSY s
      else kret () (s\<lparr>active_con := con\<rparr>))"

definition console_write :: "(vaddr \<Rightarrow> 'a io_sys_scheme console_ops) \<Rightarrow> (u32 \<Rightarrow> u8) option \<Rightarrow> size_t \<Rightarrow> ('a io_sys_scheme, unit) kfun" where
  "console_write ops buf len s =
     (if active_con s = 0 then kfail KERR_NODEV s else op_write (ops (active_con s)) (active_con s) buf len s)"

definition console_clear :: "(vaddr \<Rightarrow> 'a io_sys_scheme console_ops) \<Rightarrow> ('a io_sys_scheme, unit) kfun" where
  "console_clear ops s =
     (if active_con s = 0 then kfail KERR_NODEV s else op_clear (ops (active_con s)) (active_con s) s)"

definition console_set_cursor_position :: "(vaddr \<Rightarrow> 'a io_sys_scheme console_ops) \<Rightarrow> u32 \<Rightarrow> u32 \<Rightarrow> ('a io_sys_scheme, unit) kfun" where
  "console_set_cursor_position ops x y s =
     (if active_con s = 0 then kfail KERR_NODEV s else op_set_cursor_position (ops (active_con s)) (active_con s) x y s)"

definition console_set_cursor_visible :: "(vaddr \<Rightarrow> 'a io_sys_scheme console_ops) \<Rightarrow> bool \<Rightarrow> ('a io_sys_scheme, unit) kfun" where
  "console_set_cursor_visible ops visible s =
     (if active_con s = 0 then kfail KERR_NODEV s else op_set_cursor_visible (ops (active_con s)) (active_con s) visible s)"

subsection \<open>vga_text.c\<close>

definition VGA_TEXT_80X25_SIZE :: paddr where
  "VGA_TEXT_80X25_SIZE = 80 * 25 * 2"

definition VGA_COLOR_BLACK :: u16 where "VGA_COLOR_BLACK = 0x00"
definition VGA_COLOR_LIGHT_GREY :: u16 where "VGA_COLOR_LIGHT_GREY = 0x07"
definition VGA_BLINK_FALSE :: u16 where "VGA_BLINK_FALSE = 0"

definition VGA_CELL :: "u8 \<Rightarrow> u16 \<Rightarrow> u16 \<Rightarrow> u16 \<Rightarrow> u16" where
  "VGA_CELL ch fg bg blink = ucast ch OR push_bit 8 fg OR push_bit 12 bg OR push_bit 15 blink"

definition VGA_CELL_CLEAR :: u16 where
  "VGA_CELL_CLEAR = VGA_CELL 32 VGA_COLOR_LIGHT_GREY VGA_COLOR_BLACK VGA_BLINK_FALSE"

definition VGA_INDEX_PORT_OFFSET :: u32 where "VGA_INDEX_PORT_OFFSET = 0"
definition VGA_DATA_PORT_OFFSET :: u32 where "VGA_DATA_PORT_OFFSET = 1"

abbreviation vga_con :: "vaddr \<Rightarrow> 'a io_sys_scheme \<Rightarrow> console" where
  "vga_con con s \<equiv> vp_con (vga_privs s con)"

definition set_con :: "vaddr \<Rightarrow> (console \<Rightarrow> console) \<Rightarrow> 'a io_sys_scheme \<Rightarrow> 'a io_sys_scheme" where
  "set_con con f s = s\<lparr>vga_privs := (vga_privs s)(con := (vga_privs s con)\<lparr>vp_con := f (vga_con con s)\<rparr>)\<rparr>"

text \<open>\<open>dev_priv->buffer[i]\<close>.\<close>

definition vga_load :: "vaddr \<Rightarrow> u32 \<Rightarrow> 'a io_sys_scheme \<Rightarrow> u16" where
  "vga_load con i s = vram s (vp_buffer (vga_privs s con) + 2 * i)"

definition vga_store :: "vaddr \<Rightarrow> u32 \<Rightarrow> u16 \<Rightarrow> 'a io_sys_scheme \<Rightarrow> 'a io_sys_scheme" where
  "vga_store con i v s = s\<lparr>vram := (vram s)(vp_buffer (vga_privs s con) + 2 * i := v)\<rparr>"

definition vga_out :: "vaddr \<Rightarrow> u32 \<Rightarrow> u8 \<Rightarrow> 'a io_sys_scheme \<Rightarrow> 'a io_sys_scheme" where
  "vga_out con off v s = hal_port_write8 (ucast (vp_port_base (vga_privs s con) + off)) v s"

definition vga_text_update_cursor :: "vaddr \<Rightarrow> 'a io_sys_scheme \<Rightarrow> 'a io_sys_scheme" where
  "vga_text_update_cursor con s =
     (let position = ucast (cursor_y (vga_con con s) * con_width (vga_con con s) + cursor_x (vga_con con s)) :: u16;
          s = vga_out con VGA_INDEX_PORT_OFFSET 0x0F s;
          s = vga_out con VGA_DATA_PORT_OFFSET (ucast (position AND 0xFF)) s;
          s = vga_out con VGA_INDEX_PORT_OFFSET 0x0E s
      in vga_out con VGA_DATA_PORT_OFFSET (ucast (drop_bit 8 position AND 0xFF)) s)"

text \<open>The switch on the character.\<close>

definition vga_put :: "vaddr \<Rightarrow> u8 \<Rightarrow> 'a io_sys_scheme \<Rightarrow> 'a io_sys_scheme" where
  "vga_put con c s =
     (let k = vga_con con s
      in if c = 10 then set_con con (\<lambda>k. k\<lparr>cursor_x := 0, cursor_y := cursor_y k + 1\<rparr>) s
         else if c = 13 then set_con con (\<lambda>k. k\<lparr>cursor_x := 0\<rparr>) s
         else if c = 9 then set_con con (\<lambda>k. k\<lparr>cursor_x := cursor_x k + (CONSOLE_TAB_SIZE - cursor_x k mod CONSOLE_TAB_SIZE)\<rparr>) s
         else if c = 8 then
           if 0 < cursor_x k
           then let s = set_con con (\<lambda>k. k\<lparr>cursor_x := cursor_x k - 1\<rparr>) s
                in vga_store con (cursor_y (vga_con con s) * con_width (vga_con con s) + cursor_x (vga_con con s)) VGA_CELL_CLEAR s
           else if 0 < cursor_y k
           then let s = set_con con (\<lambda>k. k\<lparr>cursor_y := cursor_y k - 1, cursor_x := con_width k - 1\<rparr>) s
                in vga_store con (cursor_y (vga_con con s) * con_width (vga_con con s) + cursor_x (vga_con con s)) VGA_CELL_CLEAR s
           else s
         else set_con con (\<lambda>k. k\<lparr>cursor_x := cursor_x k + 1\<rparr>)
                (vga_store con (cursor_y k * con_width k + cursor_x k) (VGA_CELL c VGA_COLOR_LIGHT_GREY VGA_COLOR_BLACK VGA_BLINK_FALSE) s))"

definition vga_scroll :: "vaddr \<Rightarrow> 'a io_sys_scheme \<Rightarrow> 'a io_sys_scheme" where
  "vga_scroll con s =
     (let w = con_width (vga_con con s); h = con_height (vga_con con s);
          s = for_u32 1 h (\<lambda>y s. for_u32 0 w (\<lambda>x s. vga_store con ((y - 1) * w + x) (vga_load con (y * w + x) s) s) s) s;
          s = for_u32 0 w (\<lambda>x s. vga_store con ((h - 1) * w + x) VGA_CELL_CLEAR s) s
      in set_con con (\<lambda>k. k\<lparr>cursor_y := con_height k - 1\<rparr>) s)"

text \<open>The body of the loop of \<open>vga_text_console_write\<close>.\<close>

definition vga_write_char :: "vaddr \<Rightarrow> u8 \<Rightarrow> 'a io_sys_scheme \<Rightarrow> 'a io_sys_scheme" where
  "vga_write_char con c s =
     (let s = vga_put con c s;
          s = (if con_width (vga_con con s) \<le> cursor_x (vga_con con s)
               then set_con con (\<lambda>k. k\<lparr>cursor_x := 0, cursor_y := cursor_y k + 1\<rparr>) s else s)
      in if con_height (vga_con con s) \<le> cursor_y (vga_con con s) then vga_scroll con s else s)"

definition vga_text_console_write :: "vaddr \<Rightarrow> (u32 \<Rightarrow> u8) option \<Rightarrow> size_t \<Rightarrow> ('a io_sys_scheme, unit) kfun" where
  "vga_text_console_write con buf len s =
     (case buf of
        None \<Rightarrow> kfail KERR_INVAL s
      | Some b \<Rightarrow>
          if con = 0 then kfail KERR_INVAL s
          else kret () (vga_text_update_cursor con (for_u32 0 len (\<lambda>i. vga_write_char con (b i)) s)))"

definition vga_text_console_clear :: "vaddr \<Rightarrow> ('a io_sys_scheme, unit) kfun" where
  "vga_text_console_clear con s =
     (if con = 0 then kfail KERR_INVAL s
      else let s = for_u32 0 (80 * 25) (\<lambda>i. vga_store con i VGA_CELL_CLEAR) s;
               s = set_con con (\<lambda>k. k\<lparr>cursor_x := 0, cursor_y := 0\<rparr>) s
           in kret () (vga_text_update_cursor con s))"

definition vga_text_console_set_cursor_position :: "vaddr \<Rightarrow> u32 \<Rightarrow> u32 \<Rightarrow> ('a io_sys_scheme, unit) kfun" where
  "vga_text_console_set_cursor_position con x y s =
     (if con = 0 then kfail KERR_INVAL s
      else if con_width (vga_con con s) \<le> x \<or> con_height (vga_con con s) \<le> y then kfail KERR_RANGE s
      else kret () (vga_text_update_cursor con (set_con con (\<lambda>k. k\<lparr>cursor_x := x, cursor_y := y\<rparr>) s)))"

definition vga_text_console_set_cursor_visible :: "port_dev \<Rightarrow> vaddr \<Rightarrow> bool \<Rightarrow> ('a io_sys_scheme, unit) kfun" where
  "vga_text_console_set_cursor_visible dev con visible s =
     (if con = 0 then kfail KERR_INVAL s
      else let s = vga_out con VGA_INDEX_PORT_OFFSET 0x0A s
           in case hal_port_read8 dev (ucast (vp_port_base (vga_privs s con) + VGA_DATA_PORT_OFFSET)) s of (v, s) \<Rightarrow>
                if visible
                then let v = v AND NOT 0x1F; v = v OR 13; v = v AND NOT (BIT 5);
                         s = vga_out con VGA_DATA_PORT_OFFSET v s;
                         s = vga_out con VGA_INDEX_PORT_OFFSET 0x0B s
                     in kret () (vga_out con VGA_DATA_PORT_OFFSET 15 s)
                else kret () (vga_out con VGA_DATA_PORT_OFFSET (v OR BIT 5) s))"

definition vga_text_ops :: "port_dev \<Rightarrow> 'a io_sys_scheme console_ops" where
  "vga_text_ops dev = \<lparr>op_write = vga_text_console_write, op_clear = vga_text_console_clear,
     op_set_cursor_position = vga_text_console_set_cursor_position,
     op_set_cursor_visible = vga_text_console_set_cursor_visible dev\<rparr>"

text \<open>\<open>sizeof(struct vga_text_priv)\<close>: five words and four pointers of the console, the buffer and the port.\<close>

definition vga_text_priv_size :: size_t where
  "vga_text_priv_size = (5 + 4) * 4 + 4 + 4"

text \<open>\<open>KERR_PTR_ERR\<close> of an error pointer, as an error.\<close>

definition kerr_decode :: "vaddr \<Rightarrow> kerror" where
  "kerr_decode p = (case find (\<lambda>e. KERR_PTR e = p) [KERR_INVAL, KERR_RANGE, KERR_NOMEM, KERR_NOENT, KERR_EXISTS, KERR_BUSY, KERR_NOSPC, KERR_NOSUP, KERR_NODEV] of
     Some e \<Rightarrow> e | None \<Rightarrow> KERR_OK)"

definition vga_text_probe :: "(vaddr \<Rightarrow> 'a io_sys_scheme console_ops) \<Rightarrow> vaddr \<Rightarrow> ('a io_sys_scheme, unit) kfun" where
  "vga_text_probe ops pdev s =
     (let pd = ds_devices s pdev;
          mmio_res = resource_get (pdev_resources pd) (pdev_resource_count pd) RESOURCE_TYPE_MMIO 0;
          port_res = resource_get (pdev_resources pd) (pdev_resource_count pd) RESOURCE_TYPE_PORT 0
      in case (mmio_res, port_res) of
           (Inr mmio, Inr port) \<Rightarrow>
             if RESOURCE_MMIO_SIZE mmio \<noteq> VGA_TEXT_80X25_SIZE then kfail KERR_NOSUP s
             else (case kn_kmalloc vga_text_priv_size (ds_kern s) of
                     (dev_priv, k) \<Rightarrow>
                       let s = s\<lparr>ds_kern := k\<rparr>
                       in if KERR_PTR_IS_ERR dev_priv then kfail (kerr_decode dev_priv) s
                          else let mmio_start = (case mmio of RESOURCE_MMIO a _ \<Rightarrow> a | _ \<Rightarrow> 0);
                                   port_start = (case port of RESOURCE_PORT a _ \<Rightarrow> a | _ \<Rightarrow> 0);
                                   s = s\<lparr>vga_privs := (vga_privs s)(dev_priv :=
                                          \<lparr>vp_con = \<lparr>con_name = dev_name pd, con_width = 80, con_height = 25, cursor_x = 0, cursor_y = 0\<rparr>,
                                           vp_buffer = PHYS_TO_VIRT mmio_start, vp_port_base = port_start\<rparr>)\<rparr>;
                                   s = set_device pdev (\<lambda>d. d\<lparr>dev_driver_data := dev_priv\<rparr>) s
                               in case console_register dev_priv s of
                                    (Inl e, s) \<Rightarrow> kfail e (s\<lparr>ds_kern := kn_kfree dev_priv (ds_kern s)\<rparr>)
                                  | (Inr _, s) \<Rightarrow>
                                      let s = snd (console_clear ops s);
                                          s = snd (console_set_cursor_visible ops False s)
                                      in kret () s)
         | _ \<Rightarrow> kfail KERR_INVAL s)"

subsection \<open>printk.c\<close>

text \<open>
  \<open>beyond\<close> is what lies behind the local buffer of 1024 bytes. The texts of the messages are strings of
  characters; the console and the log take their codes.
\<close>

definition char_bytes :: "string \<Rightarrow> u8 list" where
  "char_bytes cs = map (\<lambda>c. of_nat (of_char c)) cs"

definition vprintk ::
  "(vaddr \<Rightarrow> 'a io_sys_scheme console_ops) \<Rightarrow> (u32 \<Rightarrow> string) \<Rightarrow> string \<Rightarrow> (u32 \<Rightarrow> u8) \<Rightarrow> string \<Rightarrow> u32 list
     \<Rightarrow> 'a io_sys_scheme \<Rightarrow> (size_t \<times> 'a io_sys_scheme) option" where
  "vprintk ops str_at buf beyond fmt args s =
     (case vsnprintf str_at buf 1024 fmt args of
        None \<Rightarrow> None
      | Some (total_len, text') \<Rightarrow>
          let bytes' = char_bytes text';
              s = s\<lparr>sys_log := syslog_write bytes' (sys_log s)\<rparr>
          in Some (total_len, snd (console_write ops
               (Some (\<lambda>i. if unat i < length bytes' then bytes' ! unat i else beyond i)) total_len s)))"

definition printk ::
  "(vaddr \<Rightarrow> 'a io_sys_scheme console_ops) \<Rightarrow> (u32 \<Rightarrow> string) \<Rightarrow> string \<Rightarrow> (u32 \<Rightarrow> u8) \<Rightarrow> string \<Rightarrow> u32 list
     \<Rightarrow> 'a io_sys_scheme \<Rightarrow> (size_t \<times> 'a io_sys_scheme) option" where
  "printk ops str_at buf beyond fmt args s = vprintk ops str_at buf beyond fmt args s"

end
