(* ===== verification/Vga_Props.thy ===== *)
theory Vga_Props
  imports Vga_Text Device_Props
begin

text \<open>
  The screen as a terminal: an abstract terminal is a list of 2000 cells and a cursor, with its own reading
  of the control characters and of scrolling. The lemmas show that the driver, which works on the memory of
  the adapter with 32-bit indices and copies cell by cell, refines it, that it writes nowhere else, and what
  that gives for the messages of the kernel.
\<close>

subsection \<open>The abstract terminal\<close>

type_synonym terminal = "u16 list \<times> nat \<times> nat"

definition blank :: u16 where
  "blank = 0x0720"

definition glyph :: "u8 \<Rightarrow> u16" where
  "glyph c = ucast c OR 0x0700"

fun term_put :: "u8 \<Rightarrow> terminal \<Rightarrow> terminal" where
  "term_put c (cs, x, y) =
     (if c = 10 then (cs, 0, y + 1)
      else if c = 13 then (cs, 0, y)
      else if c = 9 then (cs, (x div 4 + 1) * 4, y)
      else if c = 8 then (if 0 < x then (cs[y * 80 + (x - 1) := blank], x - 1, y)
             else if 0 < y then (cs[(y - 1) * 80 + 79 := blank], 79, y - 1) else (cs, x, y))
      else (cs[y * 80 + x := glyph c], x + 1, y))"

fun term_wrap :: "terminal \<Rightarrow> terminal" where
  "term_wrap (cs, x, y) = (if 80 \<le> x then (cs, 0, y + 1) else (cs, x, y))"

fun term_scroll :: "terminal \<Rightarrow> terminal" where
  "term_scroll (cs, x, y) = (if 25 \<le> y then (drop 80 cs @ replicate 80 blank, x, 24) else (cs, x, y))"

definition term_char :: "u8 \<Rightarrow> terminal \<Rightarrow> terminal" where
  "term_char c t = term_scroll (term_wrap (term_put c t))"

subsection \<open>The view of the driver\<close>

definition screen :: "vaddr \<Rightarrow> 'a io_sys_scheme \<Rightarrow> u16 list" where
  "screen con s = map (\<lambda>i. vga_load con (of_nat i) s) [0..<2000]"

definition con_view :: "vaddr \<Rightarrow> 'a io_sys_scheme \<Rightarrow> terminal" where
  "con_view con s = (screen con s, unat (cursor_x (vga_con con s)), unat (cursor_y (vga_con con s)))"

definition con_dims :: "vaddr \<Rightarrow> 'a io_sys_scheme \<Rightarrow> bool" where
  "con_dims con s \<longleftrightarrow> con_width (vga_con con s) = 80 \<and> con_height (vga_con con s) = 25 \<and> unat (vp_buffer (vga_privs s con)) + 4000 \<le> 2 ^ 32"

definition con_ok :: "vaddr \<Rightarrow> 'a io_sys_scheme \<Rightarrow> bool" where
  "con_ok con s \<longleftrightarrow> con_dims con s \<and> cursor_x (vga_con con s) < 80 \<and> cursor_y (vga_con con s) < 25"

text \<open>Only cells of the screen, the cursor and nothing else has changed.\<close>

definition vga_only :: "vaddr \<Rightarrow> 'a io_sys_scheme \<Rightarrow> 'a io_sys_scheme \<Rightarrow> bool" where
  "vga_only con s s' \<longleftrightarrow> (\<exists>m x y. s' = set_con con (\<lambda>k. k\<lparr>cursor_x := x, cursor_y := y\<rparr>) (s\<lparr>vram := m\<rparr>)
     \<and> (\<forall>a. 4000 \<le> a - vp_buffer (vga_privs s con) \<longrightarrow> m a = vram s a))"

lemma vga_only_refl [simp]: "vga_only con s s"
  unfolding vga_only_def
  by (intro exI [of _ "vram s"] exI [of _ "cursor_x (vga_con con s)"] exI [of _ "cursor_y (vga_con con s)"]) (simp add: set_con_def)

lemma vga_only_trans: "vga_only con s t \<Longrightarrow> vga_only con t u \<Longrightarrow> vga_only con s u"
  unfolding vga_only_def by (fastforce simp: set_con_def)

lemma vga_only_cursor: "vga_only con s (set_con con (\<lambda>k. k\<lparr>cursor_x := x, cursor_y := y\<rparr>) s)"
  unfolding vga_only_def by (intro exI [of _ "vram s"] exI [of _ x] exI [of _ y]) simp

lemma vga_only_dims: "vga_only con s s' \<Longrightarrow> con_dims con s' \<longleftrightarrow> con_dims con s"
  by (auto simp: vga_only_def con_dims_def set_con_def)

lemma cell_addr:
  assumes "con_dims con s" and "i < 2000"
  shows "unat (vp_buffer (vga_privs s con) + 2 * of_nat i) = unat (vp_buffer (vga_privs s con)) + 2 * i"
    and "vp_buffer (vga_privs s con) + 2 * of_nat i - vp_buffer (vga_privs s con) < 4000"
proof -
  have i: "unat (of_nat (2 * i) :: u32) = 2 * i" using assms(2) by (intro unat_of_nat_small) simp
  then show "unat (vp_buffer (vga_privs s con) + 2 * of_nat i) = unat (vp_buffer (vga_privs s con)) + 2 * i"
    using assms by (subst unat_add_nowrap) (simp_all add: con_dims_def)
  show "vp_buffer (vga_privs s con) + 2 * of_nat i - vp_buffer (vga_privs s con) < 4000"
    using i assms(2) by (simp add: word_less_nat_alt)
qed

lemma store_view:
  assumes d: "con_dims con s" and i: "i < 2000"
  shows "screen con (vga_store con (of_nat i) v s) = (screen con s)[i := v]" and "vga_only con s (vga_store con (of_nat i) v s)"
    and "vga_privs (vga_store con (of_nat i) v s) = vga_privs s"
proof -
  let ?b = "vp_buffer (vga_privs s con)"
  have "?b + 2 * of_nat j = ?b + 2 * of_nat i \<longleftrightarrow> j = i" if "j < 2000" for j
    using cell_addr(1) [OF d that] cell_addr(1) [OF d i] by (metis add_left_cancel mult_left_cancel zero_neq_numeral)
  then show "screen con (vga_store con (of_nat i) v s) = (screen con s)[i := v]"
    by (intro nth_equalityI) (auto simp: screen_def vga_load_def vga_store_def nth_list_update simp del: upt_rec_numeral)
  show "vga_only con s (vga_store con (of_nat i) v s)"
    unfolding vga_only_def vga_store_def set_con_def using cell_addr(2) [OF d i]
    by (intro exI [of _ "(vram s)(?b + 2 * of_nat i := v)"] exI [of _ "cursor_x (vga_con con s)"] exI [of _ "cursor_y (vga_con con s)"]) auto
  show "vga_privs (vga_store con (of_nat i) v s) = vga_privs s" by (simp add: vga_store_def)
qed

lemma load_view: "i < 2000 \<Longrightarrow> vga_load con (of_nat i) s = screen con s ! i"
  by (simp add: screen_def del: upt_rec_numeral)

lemma length_screen [simp]: "length (screen con s) = 2000"
  by (simp add: screen_def)

lemma screen_set_con [simp]: "screen con (set_con con f s) = screen con s"
  by (simp add: screen_def vga_load_def set_con_def)

text \<open>A loop whose steps have a view: the view of the result is the loop over the views.\<close>

lemma fold_view:
  assumes "\<And>x s. x \<in> set xs \<Longrightarrow> P s \<Longrightarrow> P (f x s) \<and> v (f x s) = g x (v s)" and "P s"
  shows "P (fold f xs s) \<and> v (fold f xs s) = fold g xs (v s)"
  using assms by (induction xs arbitrary: s) simp_all

lemma fold_upto: "for_u32 a b f s = fold (\<lambda>n. f (of_nat n)) [unat a..<unat b] s"
  by (simp add: for_u32_def words_upto_def fold_map o_def)

subsection \<open>Scrolling\<close>

text \<open>Copying every cell from the row below, cell by cell.\<close>

lemma fold_copy_up:
  assumes "0 < w" and "b + w \<le> length cs" and "a \<le> b"
  shows "length (fold (\<lambda>k cs. cs[k := cs ! (k + w)]) [a..<b] cs) = length cs \<and>
    (\<forall>i<length cs. fold (\<lambda>k cs. cs[k := cs ! (k + w)]) [a..<b] cs ! i = (if a \<le> i \<and> i < b then cs ! (i + w) else cs ! i))"
  using assms(2,3)
proof (induction b)
  case (Suc b)
  then show ?case using assms(1) by (cases "a = Suc b") (auto simp: nth_list_update less_Suc_eq)
qed simp

lemma fold_rows: "fold (\<lambda>y. fold f [(y - 1) * w..<y * w]) [1..<Suc n] cs = fold f [0..<n * w] cs"
proof (induction n)
  case (Suc n)
  have "[0..<Suc n * w] = [0..<n * w] @ [n * w..<Suc n * w]" using upt_add_eq_append [of 0 "n * w" w] by (simp add: add.commute)
  then show ?case using Suc by simp
qed simp

lemma fold_shift: "fold (\<lambda>x. f (a + x)) [0..<w] cs = fold f [a..<a + w] cs"
proof -
  have "[a..<a + w] = map (\<lambda>x. a + x) [0..<w]" using map_add_upt [of a w] by (simp add: add.commute)
  then show ?thesis by (simp add: fold_map o_def)
qed

lemma fold_fill: "n \<le> length cs \<Longrightarrow> a \<le> n \<Longrightarrow> fold (\<lambda>k cs. cs[k := v]) [a..<n] cs = take a cs @ replicate (n - a) v @ drop n cs"
proof (induction n)
  case (Suc n)
  show ?case
  proof (cases "a = Suc n")
    case False
    then have "fold (\<lambda>k cs. cs[k := v]) [a..<Suc n] cs = (take a cs @ replicate (n - a) v @ drop n cs)[n := v]" using Suc by simp
    also have "\<dots> = take a cs @ replicate (Suc n - a) v @ drop (Suc n) cs"
      using Suc.prems False by (intro nth_equalityI) (auto simp: nth_append nth_list_update min_def less_Suc_eq)
    finally show ?thesis .
  qed simp
qed simp

abbreviation copy_cell :: "nat \<Rightarrow> u16 list \<Rightarrow> u16 list" where
  "copy_cell k cs \<equiv> cs[k := cs ! (k + 80)]"

lemma vga_same_step:
  assumes "con_dims con s0" and "vga_privs s = vga_privs s0 \<and> vga_only con s0 s" and "i < 2000"
  shows "vga_privs (vga_store con (of_nat i) v s) = vga_privs s0 \<and> vga_only con s0 (vga_store con (of_nat i) v s)"
    and "screen con (vga_store con (of_nat i) v s) = (screen con s)[i := v]"
proof -
  have d: "con_dims con s" using assms(1,2) vga_only_dims by blast
  show "vga_privs (vga_store con (of_nat i) v s) = vga_privs s0 \<and> vga_only con s0 (vga_store con (of_nat i) v s)"
    using assms(2) store_view(3) [OF d assms(3)] vga_only_trans [OF conjunct2 [OF assms(2)] store_view(2) [OF d assms(3)]] by simp
  show "screen con (vga_store con (of_nat i) v s) = (screen con s)[i := v]" by (rule store_view(1) [OF d assms(3)])
qed

lemma copy_row:
  assumes d: "con_dims con s0" and s: "vga_privs s = vga_privs s0 \<and> vga_only con s0 s" and y: "1 \<le> y" "y < 25"
  shows "(vga_privs (for_u32 0 80 (\<lambda>x s. vga_store con ((of_nat y - 1) * 80 + x) (vga_load con (of_nat y * 80 + x) s) s) s) = vga_privs s0
      \<and> vga_only con s0 (for_u32 0 80 (\<lambda>x s. vga_store con ((of_nat y - 1) * 80 + x) (vga_load con (of_nat y * 80 + x) s) s) s))
    \<and> screen con (for_u32 0 80 (\<lambda>x s. vga_store con ((of_nat y - 1) * 80 + x) (vga_load con (of_nat y * 80 + x) s) s) s)
      = fold copy_cell [(y - 1) * 80..<y * 80] (screen con s)"
proof -
  let ?f = "\<lambda>x s. vga_store con ((of_nat y - 1) * 80 + of_nat x) (vga_load con (of_nat y * 80 + of_nat x) s) s"
  have step: "(vga_privs (?f x t) = vga_privs s0 \<and> vga_only con s0 (?f x t)) \<and> screen con (?f x t) = copy_cell ((y - 1) * 80 + x) (screen con t)"
    if x: "x \<in> set [0..<80]" and t: "vga_privs t = vga_privs s0 \<and> vga_only con s0 t" for x t
  proof -
    have i: "((of_nat y - 1) * 80 + of_nat x :: u32) = of_nat ((y - 1) * 80 + x)" using y(1) by simp
    have j: "(of_nat y * 80 + of_nat x :: u32) = of_nat ((y - 1) * 80 + x + 80)" using y(1) by (simp add: algebra_simps)
    have lt: "(y - 1) * 80 + x < 2000" "(y - 1) * 80 + x + 80 < 2000" using y x by auto
    show ?thesis unfolding i j load_view [OF lt(2)] using vga_same_step [OF d t lt(1)] by blast
  qed
  have e: "fold (\<lambda>x. copy_cell ((y - 1) * 80 + x)) [0..<80] (screen con s) = fold copy_cell [(y - 1) * 80..<y * 80] (screen con s)"
    using fold_shift [of copy_cell "(y - 1) * 80" 80 "screen con s"] y(1) by (simp add: algebra_simps del: upt_rec_numeral)
  have b: "unat (0 :: u32) = 0" "unat (80 :: u32) = 80" by simp_all
  note F = fold_view [where P = "\<lambda>t. vga_privs t = vga_privs s0 \<and> vga_only con s0 t" and v = "screen con" and f = ?f and g = "\<lambda>x. copy_cell ((y - 1) * 80 + x)", OF step s]
  show ?thesis unfolding fold_upto b e [symmetric] using F by (simp only: simp_thms)
qed

lemma vga_scroll_view:
  assumes d: "con_dims con s"
  shows "screen con (vga_scroll con s) = drop 80 (screen con s) @ replicate 80 blank" and "vga_only con s (vga_scroll con s)"
    and "cursor_x (vga_con con (vga_scroll con s)) = cursor_x (vga_con con s)" and "cursor_y (vga_con con (vga_scroll con s)) = 24"
proof -
  let ?P = "\<lambda>t. vga_privs t = vga_privs s \<and> vga_only con s t" and ?cs = "screen con s"
  let ?row = "\<lambda>y. for_u32 0 80 (\<lambda>x s. vga_store con ((y - 1) * 80 + x) (vga_load con (y * 80 + x) s) s)"
  let ?s1 = "for_u32 1 25 ?row s"
  have "?P (fold (\<lambda>y. ?row (of_nat y)) [1..<25] s) \<and> screen con (fold (\<lambda>y. ?row (of_nat y)) [1..<25] s)
    = fold (\<lambda>y. fold copy_cell [(y - 1) * 80..<y * 80]) [1..<25] ?cs"
    by (rule fold_view) (use copy_row [OF d] in \<open>simp_all del: upt_rec_numeral\<close>)
  then have s1: "?P ?s1" "screen con ?s1 = fold copy_cell [0..<24 * 80] ?cs"
    using fold_rows [of copy_cell 80 24 ?cs] by (simp_all add: fold_upto del: upt_rec_numeral)
  let ?fill = "\<lambda>x s. vga_store con ((25 - 1) * 80 + x) VGA_CELL_CLEAR s"
  let ?s2 = "for_u32 0 80 ?fill ?s1"
  have step: "?P (?fill (of_nat x) t) \<and> screen con (?fill (of_nat x) t) = (screen con t)[1920 + x := VGA_CELL_CLEAR]"
    if "x \<in> set [0..<80]" "?P t" for x t
  proof -
    have "((25 - 1) * 80 + of_nat x :: u32) = of_nat (1920 + x)" by simp
    then show ?thesis using vga_same_step [OF d that(2), of "1920 + x"] that(1) by (simp del: of_nat_add)
  qed
  have "?P (fold (\<lambda>x. ?fill (of_nat x)) [0..<80] ?s1) \<and> screen con (fold (\<lambda>x. ?fill (of_nat x)) [0..<80] ?s1)
    = fold (\<lambda>x cs. cs[1920 + x := VGA_CELL_CLEAR]) [0..<80] (screen con ?s1)"
    by (rule fold_view [where P = ?P and v = "screen con" and f = "\<lambda>x. ?fill (of_nat x)" and g = "\<lambda>x cs. cs[1920 + x := VGA_CELL_CLEAR]", OF step s1(1)])
  then have s2: "?P ?s2" "screen con ?s2 = fold (\<lambda>k cs. cs[k := VGA_CELL_CLEAR]) [1920..<2000] (screen con ?s1)"
    using fold_shift [of "\<lambda>k cs. cs[k := VGA_CELL_CLEAR]" 1920 80 "screen con ?s1"] by (simp_all add: fold_upto del: upt_rec_numeral)
  have copy: "length (screen con ?s1) = 2000" "\<forall>i<2000. screen con ?s1 ! i = (if i < 1920 then ?cs ! (i + 80) else ?cs ! i)"
    using fold_copy_up [of 80 "24 * 80" ?cs 0] unfolding s1(2) by simp_all
  have "VGA_CELL_CLEAR = blank" by (simp add: VGA_CELL_CLEAR_def VGA_CELL_def VGA_COLOR_LIGHT_GREY_def VGA_COLOR_BLACK_def VGA_BLINK_FALSE_def blank_def)
  then have fill: "screen con ?s2 = take 1920 (screen con ?s1) @ replicate 80 blank"
    unfolding s2(2) using fold_fill [of 2000 "screen con ?s1" 1920 VGA_CELL_CLEAR] copy(1) by (simp del: upt_rec_numeral)
  have "take 1920 (screen con ?s1) = drop 80 ?cs" using copy by (intro nth_equalityI) (auto simp: add.commute)
  then have scr: "screen con ?s2 = drop 80 ?cs @ replicate 80 blank" using fill by simp
  obtain u where u: "u = ?s2" by blast
  have eq: "vga_scroll con s = set_con con (\<lambda>k. k\<lparr>cursor_y := con_height k - 1\<rparr>) u"
    using d unfolding u vga_scroll_def Let_def con_dims_def by (simp only:)
  have priv: "vga_privs u = vga_privs s" "vga_only con s u" "screen con u = drop 80 ?cs @ replicate 80 blank" using s2(1) scr unfolding u by blast+
  show "screen con (vga_scroll con s) = drop 80 ?cs @ replicate 80 blank" unfolding eq using priv(3) by simp
  have "set_con con (\<lambda>k. k\<lparr>cursor_y := con_height k - 1\<rparr>) u = set_con con (\<lambda>k. k\<lparr>cursor_x := cursor_x (vga_con con s), cursor_y := 24\<rparr>) u"
    using d by (simp add: set_con_def priv con_dims_def)
  then show "vga_only con s (vga_scroll con s)" unfolding eq using vga_only_trans [OF priv(2) vga_only_cursor] by simp
  show "cursor_x (vga_con con (vga_scroll con s)) = cursor_x (vga_con con s)" "cursor_y (vga_con con (vga_scroll con s)) = 24"
    using d by (simp_all add: eq set_con_def priv con_dims_def)
qed

subsection \<open>One character\<close>

lemma cell_views: "VGA_CELL_CLEAR = blank" "VGA_CELL c VGA_COLOR_LIGHT_GREY VGA_COLOR_BLACK VGA_BLINK_FALSE = glyph c"
  by (simp_all add: VGA_CELL_CLEAR_def VGA_CELL_def VGA_COLOR_LIGHT_GREY_def VGA_COLOR_BLACK_def VGA_BLINK_FALSE_def blank_def glyph_def)

lemma cursor_view: "con_view con (set_con con (\<lambda>k. k\<lparr>cursor_x := x, cursor_y := y\<rparr>) s) = (screen con s, unat x, unat y)"
  by (simp add: con_view_def) (simp add: set_con_def)

text \<open>Writing a cell and then placing the cursor.\<close>

lemma put_cell_view:
  assumes d: "con_dims con s" and i: "i < 2000" and t: "t = set_con con (\<lambda>k. k\<lparr>cursor_x := x, cursor_y := y\<rparr>) (vga_store con (of_nat i) v s)"
  shows "vga_only con s t" and "con_view con t = ((screen con s)[i := v], unat x, unat y)"
  unfolding t using vga_only_trans [OF store_view(2) [OF d i] vga_only_cursor] store_view(1) [OF d i] by (simp_all add: cursor_view)

lemma vga_put_view:
  assumes ok: "con_ok con s"
  shows "vga_only con s (vga_put con c s) \<and> con_view con (vga_put con c s) = term_put c (con_view con s)"
proof -
  let ?k = "vga_con con s"
  let ?X = "unat (cursor_x ?k)" and ?Y = "unat (cursor_y ?k)"
  have d: "con_dims con s" and xy: "?X < 80" "?Y < 25" using ok by (simp_all add: con_ok_def word_less_nat_alt)
  have w: "con_width ?k = 80" using d by (simp add: con_dims_def)
  have y1: "unat (cursor_y ?k + 1) = ?Y + 1" using xy by (subst unat_add_nowrap) simp_all
  have x1: "unat (cursor_x ?k + 1) = ?X + 1" using xy by (subst unat_add_nowrap) simp_all
  have tab: "unat (cursor_x ?k + (CONSOLE_TAB_SIZE - cursor_x ?k mod CONSOLE_TAB_SIZE)) = (?X div 4 + 1) * 4"
  proof -
    have "unat (CONSOLE_TAB_SIZE - cursor_x ?k mod CONSOLE_TAB_SIZE) = 4 - ?X mod 4"
      by (subst unat_sub_nowrap) (simp_all add: CONSOLE_TAB_SIZE_def unat_mod)
    then show ?thesis using xy(1) by (subst unat_add_nowrap) (simp_all, presburger+)
  qed
  have idx: "y * 80 + x = of_nat (unat y * 80 + unat x)" for x y :: u32 by simp
  have cm: "k\<lparr>cursor_y := b, cursor_x := a\<rparr> = k\<lparr>cursor_x := a, cursor_y := b\<rparr>" for k :: console and a b by simp
  consider "c = 10" | "c = 13" | "c = 9" | "c = 8" "0 < ?X" | "c = 8" "?X = 0" "0 < ?Y" | "c = 8" "?X = 0" "?Y = 0" | "c \<notin> {8, 9, 10, 13}" by auto
  then show ?thesis
  proof cases
    case 1
    then have "vga_put con c s = set_con con (\<lambda>k. k\<lparr>cursor_x := 0, cursor_y := cursor_y ?k + 1\<rparr>) s" by (simp add: vga_put_def set_con_def)
    then show ?thesis using 1 y1 vga_only_cursor by (simp add: cursor_view) (simp add: con_view_def)
  next
    case 2
    then have "vga_put con c s = set_con con (\<lambda>k. k\<lparr>cursor_x := 0, cursor_y := cursor_y ?k\<rparr>) s" by (simp add: vga_put_def set_con_def)
    then show ?thesis using 2 vga_only_cursor by (simp add: cursor_view) (simp add: con_view_def)
  next
    case 3
    then have "vga_put con c s = set_con con (\<lambda>k. k\<lparr>cursor_x := cursor_x ?k + (CONSOLE_TAB_SIZE - cursor_x ?k mod CONSOLE_TAB_SIZE), cursor_y := cursor_y ?k\<rparr>) s"
      by (simp add: vga_put_def set_con_def)
    then show ?thesis using 3 tab vga_only_cursor by (simp add: cursor_view) (simp add: con_view_def)
  next
    case 4
    have x: "unat (cursor_x ?k - 1) = ?X - 1" "0 < cursor_x ?k" using 4 by (simp_all add: unat_sub_nowrap word_less_nat_alt)
    have t: "vga_put con c s = set_con con (\<lambda>k. k\<lparr>cursor_x := cursor_x ?k - 1, cursor_y := cursor_y ?k\<rparr>) (vga_store con (of_nat (?Y * 80 + (?X - 1))) blank s)"
      unfolding idx [of "cursor_y ?k" "cursor_x ?k - 1", unfolded x(1), symmetric]
      using 4 x(2) by (simp add: vga_put_def Let_def cell_views set_con_def vga_store_def w)
    from put_cell_view [OF d _ t] show ?thesis using 4 x xy by (simp add: con_view_def)
  next
    case 5
    have y: "unat (cursor_y ?k - 1) = ?Y - 1" "0 < cursor_y ?k" "cursor_x ?k = 0" using 5 by (simp_all add: unat_sub_nowrap word_less_nat_alt unat_eq_0)
    have "unat (79 :: u32) = 79" by simp
    then have i5: "of_nat ((?Y - 1) * 80 + 79) = (cursor_y ?k - 1) * 80 + (79 :: u32)" using idx [of "cursor_y ?k - 1" 79] by (simp only: y(1))
    have t: "vga_put con c s = set_con con (\<lambda>k. k\<lparr>cursor_x := 79, cursor_y := cursor_y ?k - 1\<rparr>) (vga_store con (of_nat ((?Y - 1) * 80 + 79)) blank s)"
      unfolding i5 using 5(1) y(2,3) by (simp add: cm vga_put_def Let_def cell_views set_con_def vga_store_def w)
    from put_cell_view [OF d _ t] show ?thesis using 5 y xy by (simp add: con_view_def)
  next
    case 6
    then have "cursor_x ?k = 0" "cursor_y ?k = 0" by (simp_all add: unat_eq_0)
    then have "vga_put con c s = s" using 6 by (simp add: vga_put_def Let_def)
    then show ?thesis using 6 by (simp add: con_view_def)
  next
    case 7
    then have t: "vga_put con c s = set_con con (\<lambda>k. k\<lparr>cursor_x := cursor_x ?k + 1, cursor_y := cursor_y ?k\<rparr>) (vga_store con (of_nat (?Y * 80 + ?X)) (glyph c) s)"
      unfolding idx [of "cursor_y ?k" "cursor_x ?k", symmetric] by (simp add: vga_put_def Let_def cell_views set_con_def vga_store_def w)
    from put_cell_view [OF d _ t] show ?thesis using 7 x1 xy by (simp add: con_view_def)
  qed
qed

lemma term_put_bounds:
  assumes "x < 80" and "y < 25" and "length cs = 2000"
  shows "case term_put c (cs, x, y) of (cs', x', y') \<Rightarrow> x' \<le> 80 \<and> y' \<le> 25 \<and> (y' = 25 \<longrightarrow> x' = 0) \<and> length cs' = 2000"
  using assms by (auto split: if_splits)

lemma vga_write_char_view:
  assumes ok: "con_ok con s"
  shows "con_ok con (vga_write_char con c s) \<and> vga_only con s (vga_write_char con c s)
    \<and> con_view con (vga_write_char con c s) = term_char c (con_view con s)"
proof -
  let ?s1 = "vga_put con c s"
  have d: "con_dims con s" and xy: "unat (cursor_x (vga_con con s)) < 80" "unat (cursor_y (vga_con con s)) < 25"
    using ok by (simp_all add: con_ok_def word_less_nat_alt)
  note put = vga_put_view [OF ok, of c]
  have d1: "con_dims con ?s1" using put d vga_only_dims by blast
  have b1: "unat (cursor_x (vga_con con ?s1)) \<le> 80" "unat (cursor_y (vga_con con ?s1)) \<le> 25"
    "unat (cursor_y (vga_con con ?s1)) = 25 \<longrightarrow> unat (cursor_x (vga_con con ?s1)) = 0"
    using term_put_bounds [OF xy length_screen, of c con s]
    unfolding con_view_def [of con s, symmetric] conjunct2 [OF put, symmetric] by (simp_all add: con_view_def)
  let ?s2 = "if con_width (vga_con con ?s1) \<le> cursor_x (vga_con con ?s1)
    then set_con con (\<lambda>k. k\<lparr>cursor_x := 0, cursor_y := cursor_y (vga_con con ?s1) + 1\<rparr>) ?s1 else ?s1"
  have s2: "vga_only con s ?s2 \<and> con_view con ?s2 = term_wrap (con_view con ?s1) \<and> unat (cursor_x (vga_con con ?s2)) < 80 \<and> unat (cursor_y (vga_con con ?s2)) \<le> 25"
  proof (cases "80 \<le> unat (cursor_x (vga_con con ?s1))")
    case True
    then have "unat (cursor_y (vga_con con ?s1) + 1) = unat (cursor_y (vga_con con ?s1)) + 1" "unat (cursor_y (vga_con con ?s1)) < 25"
      using b1 by (auto simp: unat_add_nowrap)
    then show ?thesis using True d1 vga_only_trans [OF conjunct1 [OF put] vga_only_cursor]
      by (simp add: con_dims_def word_le_nat_alt cursor_view) (simp add: con_view_def set_con_def)
  next
    case False
    then show ?thesis using d1 conjunct1 [OF put] b1 by (simp add: con_dims_def word_le_nat_alt con_view_def)
  qed
  have d2: "con_dims con ?s2" using s2 d vga_only_dims by blast
  have w: "vga_write_char con c s = (if con_height (vga_con con ?s2) \<le> cursor_y (vga_con con ?s2) then vga_scroll con ?s2 else ?s2)"
    by (simp add: vga_write_char_def Let_def set_con_def)
  obtain u where u: "u = ?s2" by blast
  have x80: "unat (cursor_x (vga_con con u)) < 80" using s2 unfolding u by blast
  note s2 = s2 [folded u] and d2 = d2 [folded u] and w = w [folded u]
  have "con_view con (vga_write_char con c s) = term_scroll (con_view con u) \<and> vga_only con s (vga_write_char con c s) \<and> con_ok con (vga_write_char con c s)"
  proof (cases "25 \<le> unat (cursor_y (vga_con con u))")
    case True
    then have eq: "vga_write_char con c s = vga_scroll con u" using d2 w by (simp add: con_dims_def word_le_nat_alt)
    note sc = vga_scroll_view [OF d2]
    have "con_dims con (vga_scroll con u)" using sc(2) d2 vga_only_dims by blast
    then show ?thesis using True sc x80 vga_only_trans [OF conjunct1 [OF s2] sc(2)] unfolding eq
      by (simp add: con_view_def con_ok_def word_less_nat_alt)
  next
    case False
    then have "vga_write_char con c s = u" using d2 w by (simp add: con_dims_def word_le_nat_alt)
    then show ?thesis using False conjunct1 [OF s2] x80 d2 by (simp add: con_view_def con_ok_def word_less_nat_alt)
  qed
  then show ?thesis using s2 put by (simp add: term_char_def del: term_put.simps)
qed

subsection \<open>The hardware cursor\<close>

text \<open>The accesses that place the hardware cursor on cell \<open>p\<close>: its low byte to register 0x0F, its high byte to 0x0E.\<close>

definition cursor_ops :: "u32 \<Rightarrow> nat \<Rightarrow> port_op list" where
  "cursor_ops port p = [Out8 (ucast port) 0x0F, Out8 (ucast (port + 1)) (of_nat (p mod 256)),
     Out8 (ucast port) 0x0E, Out8 (ucast (port + 1)) (of_nat (p div 256))]"

fun term_pos :: "terminal \<Rightarrow> nat" where
  "term_pos (cs, x, y) = y * 80 + x"

lemma position_bytes:
  assumes "p < 2000"
  shows "ucast ((ucast (of_nat p :: u32) :: u16) AND 0xFF) = (of_nat (p mod 256) :: u8)"
    and "ucast (drop_bit 8 (ucast (of_nat p :: u32) :: u16) AND 0xFF) = (of_nat (p div 256) :: u8)"
proof -
  let ?w = "ucast (of_nat p :: u32) :: u16"
  have w: "unat ?w = p"
  proof -
    have "unat (of_nat p :: u32) = p" using assms by (intro unat_of_nat_small) simp
    then show ?thesis using assms by (simp add: unsigned_ucast_eq take_bit_nat_eq_self_iff)
  qed
  have m: "(0xFF :: u16) = mask 8" by (simp add: mask_eq_exp_minus_1)
  have u: "unat (ucast (x AND 0xFF) :: u8) = unat x mod 256" for x :: u16
  proof -
    have "(ucast (x AND 0xFF) :: u8) = ucast x" unfolding m by (rule ucast_and_mask) simp
    then show ?thesis by (simp add: unsigned_ucast_eq take_bit_eq_mod)
  qed
  have d: "unat (drop_bit 8 ?w) = p div 256" using w by (simp add: drop_bit_eq_div unat_div)
  have o: "unat (of_nat k :: u8) = k" if "k < 256" for k using that by (intro unat_of_nat_small) simp
  show "ucast (?w AND 0xFF) = (of_nat (p mod 256) :: u8)" using u [of ?w] w o [of "p mod 256"] by (simp add: word_unat_eq_iff)
  show "ucast (drop_bit 8 ?w AND 0xFF) = (of_nat (p div 256) :: u8)"
    using u [of "drop_bit 8 ?w"] d o [of "p div 256"] assms by (simp add: word_unat_eq_iff)
qed

lemma update_cursor_eq:
  assumes "con_ok con s"
  shows "vga_text_update_cursor con s = s\<lparr>hal_log := hal_log s @ cursor_ops (vp_port_base (vga_privs s con)) (term_pos (con_view con s))\<rparr>"
proof -
  let ?X = "unat (cursor_x (vga_con con s))" and ?Y = "unat (cursor_y (vga_con con s))"
  have "con_width (vga_con con s) = 80" and lt: "?Y * 80 + ?X < 2000"
    using assms by (simp_all add: con_ok_def con_dims_def word_less_nat_alt)
  then have i: "cursor_y (vga_con con s) * con_width (vga_con con s) + cursor_x (vga_con con s) = of_nat (?Y * 80 + ?X)" by simp
  show ?thesis unfolding vga_text_update_cursor_def Let_def i position_bytes [OF lt]
    by (simp add: vga_out_def hal_simps cursor_ops_def con_view_def VGA_INDEX_PORT_OFFSET_def VGA_DATA_PORT_OFFSET_def)
qed

subsection \<open>Writing to the console\<close>

lemma write_loop_view:
  assumes "con_ok con s"
  shows "con_ok con (for_u32 0 len (\<lambda>i. vga_write_char con (b i)) s) \<and> vga_only con s (for_u32 0 len (\<lambda>i. vga_write_char con (b i)) s)
    \<and> con_view con (for_u32 0 len (\<lambda>i. vga_write_char con (b i)) s) = fold term_char (map (\<lambda>i. b (of_nat i)) [0..<unat len]) (con_view con s)"
proof -
  let ?P = "\<lambda>t. con_ok con t \<and> vga_only con s t"
  have step: "?P (vga_write_char con (b (of_nat i)) t) \<and> con_view con (vga_write_char con (b (of_nat i)) t) = term_char (b (of_nat i)) (con_view con t)"
    if "i \<in> set [0..<unat len]" "?P t" for i t
    using vga_write_char_view [of con t "b (of_nat i)"] that(2) vga_only_trans by blast
  have "?P s" using assms by simp
  from fold_view [where P = ?P and v = "con_view con" and f = "\<lambda>i. vga_write_char con (b (of_nat i))" and g = "\<lambda>i. term_char (b (of_nat i))" and xs = "[0..<unat len]", OF step this]
  show ?thesis by (simp add: fold_upto fold_map o_def)
qed

lemma vga_write_view:
  assumes ok: "con_ok con s" and "con \<noteq> 0"
  shows "\<exists>s'. vga_text_console_write con (Some b) len s = (Inr (), s') \<and> con_ok con s'
    \<and> con_view con s' = fold term_char (map (\<lambda>i. b (of_nat i)) [0..<unat len]) (con_view con s)
    \<and> (\<forall>a. 4000 \<le> a - vp_buffer (vga_privs s con) \<longrightarrow> vram s' a = vram s a)
    \<and> hal_log s' = hal_log s @ cursor_ops (vp_port_base (vga_privs s con)) (term_pos (con_view con s')) \<and> sys_log s' = sys_log s"
proof -
  let ?t = "for_u32 0 len (\<lambda>i. vga_write_char con (b i)) s"
  obtain t where t: "t = ?t" by blast
  note L = write_loop_view [OF ok, of len b, folded t]
  have o: "hal_log t = hal_log s" "sys_log t = sys_log s" "vp_port_base (vga_privs t con) = vp_port_base (vga_privs s con)"
    "\<forall>a. 4000 \<le> a - vp_buffer (vga_privs s con) \<longrightarrow> vram t a = vram s a"
    using L by (auto simp: vga_only_def set_con_def)
  let ?s' = "t\<lparr>hal_log := hal_log t @ cursor_ops (vp_port_base (vga_privs t con)) (term_pos (con_view con t))\<rparr>"
  have "vga_text_console_write con (Some b) len s = (Inr (), ?s')"
    using assms(2) update_cursor_eq [of con t] L by (simp add: vga_text_console_write_def t [symmetric])
  moreover have "con_view con ?s' = con_view con t" "con_ok con ?s'" using L
    by (simp_all add: con_view_def screen_def vga_load_def con_ok_def con_dims_def)
  ultimately show ?thesis using L o by (intro exI [of _ ?s']) simp
qed

lemma shown_bytes:
  fixes cs zs :: "u8 list"
  assumes "length (take 1023 cs @ 0 # zs) = 1024"
  shows "map (\<lambda>i. if i < 1024 then (take 1023 cs @ 0 # zs) ! i else f i) [0..<length cs]
    = (if length cs < 1024 then cs else take 1023 cs @ 0 # map f [1024..<length cs])"
proof (cases "length cs < 1024")
  case True
  then have "take 1023 cs = cs" by simp
  then show ?thesis using True by (intro nth_equalityI) (auto simp: nth_append)
next
  case False
  then have "zs = []" using assms by simp
  then show ?thesis using False by (intro nth_equalityI) (auto simp: nth_append nth_Cons')
qed

subsection \<open>The claims\<close>

text \<open>
  C19. The VGA console is a terminal. Writing any bytes, control characters included, to a console whose
  cursor is on the screen succeeds; the cells and the cursor become what the abstract terminal makes of the
  bytes, the cursor stays on the screen, no memory outside the 2000 cells changes, and the hardware cursor
  is placed on the cell of the cursor.
\<close>

theorem vga_write_correct:
  assumes "con_ok con s" and "con \<noteq> 0"
  shows "\<exists>s'. vga_text_console_write con (Some b) len s = (Inr (), s') \<and> con_ok con s'
    \<and> con_view con s' = fold term_char (map (\<lambda>i. b (of_nat i)) [0..<unat len]) (con_view con s)
    \<and> (\<forall>a. 4000 \<le> a - vp_buffer (vga_privs s con) \<longrightarrow> vram s' a = vram s a)
    \<and> hal_log s' = hal_log s @ cursor_ops (vp_port_base (vga_privs s con)) (term_pos (con_view con s'))"
  using vga_write_view [OF assms, of b len] by blast

text \<open>
  C20. A kernel message. Its text goes to the system log, cut to 1023 characters, and to the active console,
  and its full length is returned. When the text has 1024 characters or more, the console is given the full
  length although the buffer holds 1023 characters and a zero: it shows the zero and then what lies behind
  the buffer.
\<close>

theorem vprintk_correct:
  assumes "fmt_text str_at fmt args = Some out" and "length out < 2 ^ 32" and "length buf = 1024"
    and "con_ok con s" and "con \<noteq> 0" and "active_con s = con" and "ops con = vga_text_ops dev"
  shows "\<exists>s'. vprintk ops str_at buf beyond fmt args s = Some (of_nat (length out), s') \<and> con_ok con s'
    \<and> sys_log s' = fold syslog_putc (takeWhile (\<lambda>c. c \<noteq> 0) (char_bytes (take 1023 out))) (sys_log s)
    \<and> con_view con s' = fold term_char (if length out < 1024 then char_bytes out
          else char_bytes (take 1023 out) @ 0 # map (\<lambda>i. beyond (of_nat i)) [1024..<length out]) (con_view con s)"
proof -
  let ?n = "min (length out) 1023"
  let ?text = "take ?n out @ CHR 0x00 # drop (?n + 1) buf"
  have v: "vsnprintf str_at buf 1024 fmt args = Some (of_nat (length out), ?text)"
    using vsnprintf_eq [of 1024 buf str_at fmt args out ?n] assms(1,3) by simp
  obtain B where B: "B = char_bytes ?text" by blast
  have bs: "B = char_bytes (take 1023 out) @ 0 # char_bytes (drop (?n + 1) buf)" "length B = 1024"
    unfolding B using assms(3) by (simp_all add: char_bytes_def min_def take_map [symmetric])
  have log: "syslog_write B l = fold syslog_putc (takeWhile (\<lambda>c. c \<noteq> 0) (char_bytes (take 1023 out))) l" for l
    unfolding syslog_write_def c_string_def bs(1) by (simp add: takeWhile_tail)
  let ?s1 = "s\<lparr>sys_log := syslog_write B (sys_log s)\<rparr>"
  let ?b = "\<lambda>i. if unat i < length B then B ! unat i else beyond i"
  have ok1: "con_ok con ?s1" "con_view con ?s1 = con_view con s"
    using assms(4) by (simp_all add: con_ok_def con_dims_def con_view_def screen_def vga_load_def)
  have len: "unat (of_nat (length out) :: u32) = length out" using assms(2) by (intro unat_of_nat_small) simp
  from vga_write_view [OF ok1(1) assms(5), of ?b "of_nat (length out)"] obtain s' where
    s': "vga_text_console_write con (Some ?b) (of_nat (length out)) ?s1 = (Inr (), s')" "con_ok con s'"
    "con_view con s' = fold term_char (map (\<lambda>i. ?b (of_nat i)) [0..<length out]) (con_view con s)" "sys_log s' = sys_log ?s1"
    unfolding len ok1(2) by blast
  have "map (\<lambda>i. ?b (of_nat i)) [0..<length out] = (if length out < 1024 then char_bytes out
      else char_bytes (take 1023 out) @ 0 # map (\<lambda>i. beyond (of_nat i)) [1024..<length out])"
  proof -
    have u: "unat (of_nat i :: u32) = i" if "i < length out" for i using that assms(2) by (intro unat_of_nat_small) simp
    have "map (\<lambda>i. ?b (of_nat i)) [0..<length out] = map (\<lambda>i. if i < 1024 then B ! i else beyond (of_nat i)) [0..<length out]"
      using u bs(2) by (intro map_cong) (simp_all del: upt_rec_numeral)
    moreover have "char_bytes (take 1023 out) = take 1023 (char_bytes out)" "length (char_bytes out) = length out" by (simp_all add: char_bytes_def take_map)
    ultimately show ?thesis using shown_bytes [of "char_bytes out" "char_bytes (drop (?n + 1) buf)" "\<lambda>i. beyond (of_nat i)"] bs by (simp only:)
  qed
  moreover have "vprintk ops str_at buf beyond fmt args s = Some (of_nat (length out), s')"
    unfolding vprintk_def v option.case prod.case B [symmetric] Let_def
    using s'(1) assms(5,6,7) by (simp add: console_write_def vga_text_ops_def)
  ultimately show ?thesis using s' log by (intro exI [of _ s']) simp
qed

subsection \<open>Witnesses\<close>

definition vga_priv0 :: vga_text_priv where
  "vga_priv0 = \<lparr>vp_con = \<lparr>con_name = 0x1000, con_width = 80, con_height = 25, cursor_x = 79, cursor_y = 24\<rparr>, vp_buffer = 0xC00B8000, vp_port_base = 0x3D4\<rparr>"

definition io0 :: io_sys where
  "io0 = dev_sys.extend dm0 (io_sys.fields (\<lambda>_. blank) 0x5000 (\<lambda>_. vga_priv0) (syslog_init (replicate 4096 0)))"

lemma io0_simps: "vga_privs io0 con = vga_priv0" "active_con io0 = 0x5000" "vram io0 a = blank"
  by (simp_all add: io0_def dev_sys.defs io_sys.defs)

lemma io0_ok: "con_ok 0x5000 io0"
  by (simp add: con_ok_def con_dims_def io0_simps vga_priv0_def)

lemma io0_view: "con_view con io0 = (replicate 2000 blank, 79, 24)"
proof -
  have "screen con io0 = map (\<lambda>_. blank) [0..<2000]" by (simp add: screen_def vga_load_def io0_simps del: upt_rec_numeral)
  also have "\<dots> = replicate (length [0..<2000]) blank" by (rule map_replicate_const)
  finally show ?thesis by (simp add: con_view_def io0_simps vga_priv0_def)
qed

theorem vga_write_correct_witness:
  "\<exists>s'. vga_text_console_write 0x5000 (Some (\<lambda>_. 65)) 1 io0 = (Inr (), s') \<and> fst (con_view 0x5000 s') ! 1919 = glyph 65 \<and> snd (con_view 0x5000 s') = (0, 24)"
proof -
  obtain s' where s': "vga_text_console_write 0x5000 (Some (\<lambda>_. 65)) 1 io0 = (Inr (), s')"
    "con_view 0x5000 s' = fold term_char (map (\<lambda>i. 65) [0..<unat (1 :: u32)]) (con_view 0x5000 io0)"
    using vga_write_correct [OF io0_ok, of "\<lambda>_. 65" 1] by auto
  have "con_view 0x5000 s' = (drop 80 ((replicate 2000 blank)[1999 := glyph 65]) @ replicate 80 blank, 0, 24)"
    unfolding s'(2) io0_view by (simp add: term_char_def)
  then show ?thesis using s'(1) by (intro exI [of _ s']) (simp add: nth_append)
qed

theorem vprintk_correct_witness:
  "\<exists>s'. vprintk (\<lambda>_. vga_text_ops (\<lambda>_ _. 0)) (\<lambda>_. []) (replicate 1024 (CHR 0x00)) (\<lambda>_. 0) ''k'' [] io0 = Some (1, s') \<and> snd (con_view 0x5000 s') = (0, 24)"
proof -
  have t: "fmt_text (\<lambda>_. []) ''k'' [] = Some ''k''" by simp
  obtain s' where s': "vprintk (\<lambda>_. vga_text_ops (\<lambda>_ _. 0)) (\<lambda>_. []) (replicate 1024 (CHR 0x00)) (\<lambda>_. 0) ''k'' [] io0 = Some (of_nat (length ''k''), s')"
    "con_view 0x5000 s' = fold term_char (char_bytes ''k'') (con_view 0x5000 io0)"
    using vprintk_correct [OF t _ _ io0_ok, of "replicate 1024 (CHR 0x00)" "\<lambda>_. vga_text_ops (\<lambda>_ _. 0)" "\<lambda>_ _. 0" "\<lambda>_. 0"] by (auto simp: io0_simps)
  have "char_bytes ''k'' = [107]" by (simp add: char_bytes_def)
  then have "snd (con_view 0x5000 s') = (0, 24)" unfolding s'(2) io0_view by (simp add: term_char_def)
  then show ?thesis using s'(1) by auto
qed

end
