(* ===== verification/I8254.thy ===== *)
theory I8254
  imports Vga_Text Irq_Props
begin

text \<open>
  Timer devices (\<^verbatim>\<open>src/kernel/time/timer_device.c\<close>) and the driver of the 8254 interval timer
  (\<^verbatim>\<open>src/kernel/drivers/timer/i8254.c\<close>): definitions. The generic timer is the first member of the private
  structure of the driver, so both have the same address; the pointers to the three operations of the
  driver are constants and not stored.
\<close>

subsection \<open>timer_device.h, timer_device.c\<close>

datatype timer_device_mode = TIMER_DEVICE_MODE_DISABLED | TIMER_DEVICE_MODE_PERIODIC | TIMER_DEVICE_MODE_ONESHOT

record timer_device =
  tm_name :: vaddr
  tm_mode :: timer_device_mode
  min_delta_ns :: u64
  max_delta_ns :: u64
  tm_event :: vaddr

record i8254_priv =
  tp_timer :: timer_device
  tp_port_base :: u32
  tp_irq :: u32

record tm_sys = io_sys +
  timer_devices :: "vaddr list"
  timer_selected :: vaddr
  timers :: "vaddr \<Rightarrow> i8254_priv"

definition timer_device_register :: "vaddr \<Rightarrow> ('a tm_sys_scheme, unit) kfun" where
  "timer_device_register timer s =
     (if timer = 0 then kfail KERR_INVAL s
      else kret () (s\<lparr>timer_devices := timer_devices s @ [timer], timer_selected := timer\<rparr>))"

definition timer_device_get_selected :: "'a tm_sys_scheme \<Rightarrow> vaddr" where
  "timer_device_get_selected s = timer_selected s"

subsection \<open>i8254.c\<close>

definition I8254_CH0_OFFSET :: u32 where "I8254_CH0_OFFSET = 0"
definition I8254_CMD_OFFSET :: u32 where "I8254_CMD_OFFSET = 3"
definition I8254_BASE_FREQ :: u64 where "I8254_BASE_FREQ = 1193182"
definition NS_PER_SEC :: u64 where "NS_PER_SEC = 1000000000"
definition I8254_MIN_DELTA_NS :: u64 where "I8254_MIN_DELTA_NS = NS_PER_SEC * 20 div I8254_BASE_FREQ"
definition I8254_MAX_DELTA_NS :: u64 where "I8254_MAX_DELTA_NS = NS_PER_SEC * 0xFFFF div I8254_BASE_FREQ"

definition set_timer :: "vaddr \<Rightarrow> (timer_device \<Rightarrow> timer_device) \<Rightarrow> 'a tm_sys_scheme \<Rightarrow> 'a tm_sys_scheme" where
  "set_timer t f s = s\<lparr>timers := (timers s)(t := (timers s t)\<lparr>tp_timer := f (tp_timer (timers s t))\<rparr>)\<rparr>"

definition i8254_timer_start_periodic :: "(vaddr \<Rightarrow> 'a tm_sys_scheme irq_chip) \<Rightarrow> vaddr \<Rightarrow> u64 \<Rightarrow> ('a tm_sys_scheme, unit) kfun" where
  "i8254_timer_start_periodic chips timer period_ns s =
     (if timer = 0 then kfail KERR_INVAL s
      else if period_ns < min_delta_ns (tp_timer (timers s timer)) \<or> max_delta_ns (tp_timer (timers s timer)) < period_ns then kfail KERR_RANGE s
      else let pit_counter = period_ns * I8254_BASE_FREQ div NS_PER_SEC;
               priv = timers s timer
           in case hal_interrupt_save_disable s of (interrupt_state, s) \<Rightarrow>
                let s = hal_port_write8 (ucast (tp_port_base priv + I8254_CMD_OFFSET)) 0x36 s;
                    s = hal_port_write8 (ucast (tp_port_base priv + I8254_CH0_OFFSET)) (ucast (pit_counter AND 0xFF)) s;
                    s = hal_port_write8 (ucast (tp_port_base priv + I8254_CH0_OFFSET)) (ucast (drop_bit 8 pit_counter AND 0xFF)) s
                in kerr_try (irq_enable chips (tp_irq priv))
                     (\<lambda>_ s. let s = set_timer timer (\<lambda>t. t\<lparr>tm_mode := TIMER_DEVICE_MODE_PERIODIC\<rparr>) s
                             in kret () (hal_interrupt_restore interrupt_state s)) s)"

definition i8254_timer_start_oneshot :: "(vaddr \<Rightarrow> 'a tm_sys_scheme irq_chip) \<Rightarrow> vaddr \<Rightarrow> u64 \<Rightarrow> ('a tm_sys_scheme, unit) kfun" where
  "i8254_timer_start_oneshot chips timer delta_ns s =
     (if timer = 0 then kfail KERR_INVAL s
      else if delta_ns < min_delta_ns (tp_timer (timers s timer)) \<or> max_delta_ns (tp_timer (timers s timer)) < delta_ns then kfail KERR_RANGE s
      else let pit_counter = delta_ns * I8254_BASE_FREQ div NS_PER_SEC;
               priv = timers s timer
           in case hal_interrupt_save_disable s of (interrupt_state, s) \<Rightarrow>
                let s = hal_port_write8 (ucast (tp_port_base priv + I8254_CMD_OFFSET)) 0x30 s;
                    s = hal_port_write8 (ucast (tp_port_base priv + I8254_CH0_OFFSET)) (ucast (pit_counter AND 0xFF)) s;
                    s = hal_port_write8 (ucast (tp_port_base priv + I8254_CH0_OFFSET)) (ucast (drop_bit 8 pit_counter AND 0xFF)) s
                in kerr_try (irq_enable chips (tp_irq priv))
                     (\<lambda>_ s. let s = set_timer timer (\<lambda>t. t\<lparr>tm_mode := TIMER_DEVICE_MODE_ONESHOT\<rparr>) s
                             in kret () (hal_interrupt_restore interrupt_state s)) s)"

definition i8254_timer_stop :: "(vaddr \<Rightarrow> 'a tm_sys_scheme irq_chip) \<Rightarrow> vaddr \<Rightarrow> ('a tm_sys_scheme, unit) kfun" where
  "i8254_timer_stop chips timer s =
     (if timer = 0 then kfail KERR_INVAL s
      else case hal_interrupt_save_disable s of (interrupt_state, s) \<Rightarrow>
             let s = set_timer timer (\<lambda>t. t\<lparr>tm_mode := TIMER_DEVICE_MODE_DISABLED\<rparr>) s
             in kerr_try (irq_disable chips (tp_irq (timers s timer))) (\<lambda>_ s. kret () (hal_interrupt_restore interrupt_state s)) s)"

text \<open>\<open>events\<close> gives the callbacks by their addresses; a callback is called with the timer.\<close>

definition i8254_irq_handler ::
  "(vaddr \<Rightarrow> 'a tm_sys_scheme irq_chip) \<Rightarrow> (vaddr \<Rightarrow> vaddr \<Rightarrow> 'a tm_sys_scheme \<Rightarrow> 'a tm_sys_scheme) \<Rightarrow> vaddr \<Rightarrow> 'a tm_sys_scheme \<Rightarrow> 'a tm_sys_scheme" where
  "i8254_irq_handler chips events priv s =
     (if priv = 0 then s
      else let t = tp_timer (timers s priv);
               s = (if tm_mode t \<noteq> TIMER_DEVICE_MODE_DISABLED \<and> tm_event t \<noteq> 0 then events (tm_event t) priv s else s)
           in if tm_mode (tp_timer (timers s priv)) = TIMER_DEVICE_MODE_ONESHOT
              then case hal_interrupt_save_disable s of (interrupt_state, s) \<Rightarrow>
                     let s = snd (irq_disable chips (tp_irq (timers s priv)) s);
                         s = set_timer priv (\<lambda>t. t\<lparr>tm_mode := TIMER_DEVICE_MODE_DISABLED\<rparr>) s
                     in hal_interrupt_restore interrupt_state s
              else s)"

text \<open>\<open>sizeof(struct i8254_priv)\<close>: name and mode, two 64-bit numbers, four pointers, a list node, two words.\<close>

definition i8254_priv_size :: size_t where
  "i8254_priv_size = 8 + 16 + 16 + 8 + 8"

text \<open>\<open>handler\<close> is the address of \<open>i8254_irq_handler\<close>.\<close>

definition i8254_probe :: "vaddr \<Rightarrow> vaddr \<Rightarrow> ('a tm_sys_scheme, unit) kfun" where
  "i8254_probe handler pdev s =
     (case kn_kmalloc i8254_priv_size (ds_kern s) of (dev_priv, k) \<Rightarrow>
        let s = s\<lparr>ds_kern := k\<rparr>
        in if KERR_PTR_IS_ERR dev_priv then kfail (kerr_decode dev_priv) s
           else
             let pd = ds_devices s pdev;
                 s = set_timer dev_priv (\<lambda>_. \<lparr>tm_name = dev_name pd, tm_mode = TIMER_DEVICE_MODE_DISABLED,
                       min_delta_ns = I8254_MIN_DELTA_NS, max_delta_ns = I8254_MAX_DELTA_NS, tm_event = 0\<rparr>) s;
                 release = (\<lambda>s. s\<lparr>ds_kern := kn_kfree dev_priv (ds_kern s)\<rparr>)
             in case (resource_get (pdev_resources pd) (pdev_resource_count pd) RESOURCE_TYPE_PORT 0,
                      resource_get (pdev_resources pd) (pdev_resource_count pd) RESOURCE_TYPE_IRQ 0) of
                  (Inr port_res, Inr irq_res) \<Rightarrow>
                    let port_start = (case port_res of RESOURCE_PORT a _ \<Rightarrow> a | _ \<Rightarrow> 0);
                        s = s\<lparr>timers := (timers s)(dev_priv := (timers s dev_priv)\<lparr>tp_port_base := port_start\<rparr>)\<rparr>;
                        irq = (case irq_res of RESOURCE_IRQ hw mp \<Rightarrow> irq_map_hwirq_to_irq mp hw s | _ \<Rightarrow> IRQ_INVALID)
                    in if irq = IRQ_INVALID then kfail KERR_NOENT (release s)
                       else let s = s\<lparr>timers := (timers s)(dev_priv := (timers s dev_priv)\<lparr>tp_irq := irq\<rparr>)\<rparr>
                            in case irq_request irq handler dev_priv s of
                                 (Inl e, s) \<Rightarrow> kfail e (release s)
                               | (Inr _, s) \<Rightarrow>
                                   let s = set_device pdev (\<lambda>d. d\<lparr>dev_driver_data := dev_priv\<rparr>) s
                                   in case timer_device_register dev_priv s of
                                        (Inl e, s) \<Rightarrow> kfail e (set_device pdev (\<lambda>d. d\<lparr>dev_driver_data := 0\<rparr>) (release (snd (irq_free irq s))))
                                      | (Inr _, s) \<Rightarrow> kret () s
                | _ \<Rightarrow> kfail KERR_INVAL (release s))"

definition i8254_driver_init :: "'a tm_sys_scheme bus_code \<Rightarrow> vaddr \<Rightarrow> vaddr \<Rightarrow> ('a tm_sys_scheme, unit) kfun" where
  "i8254_driver_init code pb i8254_driver s = platform_driver_register code pb i8254_driver s"

end
