(* ===== verification/I8254_Props.thy ===== *)
theory I8254_Props
  imports I8254 Vga_Props
begin

text \<open>
  What the timer driver guarantees: the divisor that is programmed, the line that is opened, the critical
  section, and what an interrupt does. The two functions that start the timer differ in the command byte
  and the mode only.
\<close>

subsection \<open>The two ways to start\<close>

definition timer_ops :: "u32 \<Rightarrow> u8 \<Rightarrow> nat \<Rightarrow> port_op list" where
  "timer_ops port cmd n = [Out8 (ucast (port + 3)) cmd, Out8 (ucast port) (of_nat (n mod 256)), Out8 (ucast port) (of_nat (n div 256))]"

lemma delta_bounds: "I8254_MIN_DELTA_NS = 16761" "I8254_MAX_DELTA_NS = 54924563"
  by (simp_all add: I8254_MIN_DELTA_NS_def I8254_MAX_DELTA_NS_def NS_PER_SEC_def I8254_BASE_FREQ_def)

lemma unat_counter:
  assumes "unat ns \<le> 54924563"
  shows "unat (ns * I8254_BASE_FREQ div NS_PER_SEC) = unat ns * 1193182 div 1000000000"
proof -
  have "unat (ns * I8254_BASE_FREQ) = unat ns * 1193182" using assms by (subst unat_mult_nowrap) (simp_all add: I8254_BASE_FREQ_def)
  then show ?thesis by (simp add: unat_div NS_PER_SEC_def)
qed

lemma counter_bytes:
  assumes "unat (w :: u64) = n" and "n < 65536"
  shows "ucast (w AND 0xFF) = (of_nat (n mod 256) :: u8)" and "ucast (drop_bit 8 w AND 0xFF) = (of_nat (n div 256) :: u8)"
proof -
  have m: "(0xFF :: u64) = mask 8" by (simp add: mask_eq_exp_minus_1)
  have u: "unat (ucast (x AND 0xFF) :: u8) = unat x mod 256" for x :: u64
  proof -
    have "(ucast (x AND 0xFF) :: u8) = ucast x" unfolding m by (rule ucast_and_mask) simp
    then show ?thesis by (simp add: unsigned_ucast_eq take_bit_eq_mod)
  qed
  have d: "unat (drop_bit 8 w) = n div 256" using assms(1) by (simp add: drop_bit_eq_div unat_div)
  have o: "unat (of_nat k :: u8) = k" if "k < 256" for k using that by (intro unat_of_nat_small) simp
  show "ucast (w AND 0xFF) = (of_nat (n mod 256) :: u8)" using u [of w] assms(1) o [of "n mod 256"] by (simp add: word_unat_eq_iff)
  show "ucast (drop_bit 8 w AND 0xFF) = (of_nat (n div 256) :: u8)"
    using u [of "drop_bit 8 w"] d o [of "n div 256"] assms(2) by (simp add: word_unat_eq_iff)
qed

text \<open>The functions that start the timer, with their command bytes and modes.\<close>

definition starts ::
  "(vaddr \<Rightarrow> 'a tm_sys_scheme irq_chip) \<Rightarrow> ((vaddr \<Rightarrow> u64 \<Rightarrow> ('a tm_sys_scheme, unit) kfun) \<times> u8 \<times> timer_device_mode) set" where
  "starts chips = {(i8254_timer_start_periodic chips, 0x36, TIMER_DEVICE_MODE_PERIODIC), (i8254_timer_start_oneshot chips, 0x30, TIMER_DEVICE_MODE_ONESHOT)}"

text \<open>A timer as the driver leaves it when it has found its device.\<close>

definition timer_ok :: "vaddr \<Rightarrow> 'a tm_sys_scheme \<Rightarrow> bool" where
  "timer_ok t s \<longleftrightarrow> t \<noteq> 0 \<and> min_delta_ns (tp_timer (timers s t)) = I8254_MIN_DELTA_NS \<and> max_delta_ns (tp_timer (timers s t)) = I8254_MAX_DELTA_NS"

lemma start_eq:
  assumes "(f, cmd, mode) \<in> starts chips" and t: "timer_ok t s" and ns: "16761 \<le> unat ns" "unat ns \<le> 54924563"
  shows "f t ns s = (let s1 = s\<lparr>hal_eflags := MASK_CLEAR (hal_eflags s) (BIT 9),
         hal_log := hal_log s @ timer_ops (tp_port_base (timers s t)) cmd (unat ns * 1193182 div 1000000000)\<rparr>
     in case irq_enable chips (tp_irq (timers s t)) s1 of
          (Inl e, s2) \<Rightarrow> (Inl e, s2)
        | (Inr _, s2) \<Rightarrow> (Inr (), hal_interrupt_restore (bit (hal_eflags s) 9) (set_timer t (\<lambda>x. x\<lparr>tm_mode := mode\<rparr>) s2)))"
proof -
  let ?n = "unat ns * 1193182 div 1000000000" and ?w = "ns * I8254_BASE_FREQ div NS_PER_SEC"
  have n: "unat ?w = ?n" by (rule unat_counter [OF ns(2)])
  have "?n < 65536" using ns(2) by simp
  note b = counter_bytes [OF n this]
  have r: "\<not> (ns < min_delta_ns (tp_timer (timers s t)) \<or> max_delta_ns (tp_timer (timers s t)) < ns)" "t \<noteq> 0"
    using t ns by (simp_all add: timer_ok_def delta_bounds word_less_nat_alt)
  from assms(1) consider "f = i8254_timer_start_periodic chips" "cmd = 0x36" "mode = TIMER_DEVICE_MODE_PERIODIC"
    | "f = i8254_timer_start_oneshot chips" "cmd = 0x30" "mode = TIMER_DEVICE_MODE_ONESHOT" by (auto simp: starts_def)
  then show ?thesis
  proof cases
    case 1
    then show ?thesis unfolding 1 i8254_timer_start_periodic_def Let_def b using r
      by (simp add: hal_simps timer_ops_def I8254_CMD_OFFSET_def I8254_CH0_OFFSET_def kerr_try_def cong: sum.case_cong)
  next
    case 2
    then show ?thesis unfolding 2 i8254_timer_start_oneshot_def Let_def b using r
      by (simp add: hal_simps timer_ops_def I8254_CMD_OFFSET_def I8254_CH0_OFFSET_def kerr_try_def cong: sum.case_cong)
  qed
qed

subsection \<open>The interrupt controllers see nothing of it\<close>

lemma pic_of_timer: "c = 0x20 \<or> c = 0xA0 \<Longrightarrow> pic_of c (log @ timer_ops 0x40 cmd n) = pic_of c log"
  by (auto simp: pic_of_def timer_ops_def)

lemma pics_timer: "pics_ok (log @ timer_ops 0x40 cmd n) = pics_ok log" "line_open (log @ timer_ops 0x40 cmd n) = line_open log"
  by (simp_all add: pics_ok_def line_open_def pic_of_timer fun_eq_iff)

lemma unmask_extends: "\<exists>rest. i8259_unmask_irq dev d s = s\<lparr>hal_log := hal_log s @ rest\<rparr>"
  by (auto simp: i8259_unmask_irq_def hal_simps Let_def)

lemma mask_extends: "\<exists>rest. i8259_mask_irq dev d s = s\<lparr>hal_log := hal_log s @ rest\<rparr>"
  by (auto simp: i8259_mask_irq_def hal_simps Let_def)

abbreviation open_lines :: "port_op list \<Rightarrow> nat set" where
  "open_lines log \<equiv> {m. m < 16 \<and> m \<noteq> 2 \<and> line_open log m}"

subsection \<open>The claims\<close>

text \<open>
  C21. Starting the timer, periodically or once, on the interrupt line 0 of the controllers. For every interval
  within the limits that the driver announces it succeeds: the counter that is programmed fits its 16 bits,
  is not zero, and is the interval to within one period of the clock, without overflow of the 64-bit
  product; line 0 is opened and no other line changes; the mode is recorded, and interrupts are enabled
  afterwards exactly if they were before.
\<close>

theorem i8254_start_correct:
  assumes start: "(f, cmd, mode) \<in> starts chips" and t: "timer_ok t s" and ns: "16761 \<le> unat ns" "unat ns \<le> 54924563"
    and port: "tp_port_base (timers s t) = 0x40" and routed: "pic_routed chip mp s" and irq: "tp_irq (timers s t) = pic_irq mp 0 s"
    and chip: "chips chip = i8259_chip dev" and dev: "mask_reads_back dev" and pics: "pics_ok (hal_log s)"
  shows "\<exists>s' n rest. f t ns s = (Inr (), s') \<and> 0 < n \<and> n < 65536 \<and> n * 1000000000 \<le> unat ns * 1193182 \<and> unat ns * 1193182 < (n + 1) * 1000000000
    \<and> hal_log s' = hal_log s @ timer_ops 0x40 cmd n @ rest \<and> pics_ok (hal_log s') \<and> open_lines (hal_log s') = insert 0 (open_lines (hal_log s))
    \<and> tm_mode (tp_timer (timers s' t)) = mode \<and> hal_eflags s' = hal_eflags s"
proof -
  let ?n = "unat ns * 1193182 div 1000000000"
  let ?s1 = "s\<lparr>hal_eflags := MASK_CLEAR (hal_eflags s) (BIT 9), hal_log := hal_log s @ timer_ops 0x40 cmd ?n\<rparr>"
  let ?d = "irq_descs s ! unat (pic_irq mp 0 s)"
  have z: "0 < (16 :: nat)" by simp
  note d = pic_desc [OF routed z]
  have "chip \<noteq> 0" using routed by (simp add: pic_routed_def)
  then have en: "irq_enable chips (pic_irq mp 0 s) ?s1 = (Inr (), i8259_unmask_irq dev ?d ?s1)"
    using chip d(2) pic_irq_unat(2) [OF routed z] by (simp add: irq_enable_def Let_def i8259_chip_def)
  obtain rest where rest: "i8259_unmask_irq dev ?d ?s1 = ?s1\<lparr>hal_log := hal_log ?s1 @ rest\<rparr>" using unmask_extends by blast
  have "pics_ok (hal_log ?s1)" using pics by (simp add: pics_timer)
  from unmask_lines [OF dev this d(1) z] have lines: "pics_ok (hal_log s @ timer_ops 0x40 cmd ?n @ rest)"
    "\<forall>m<16. m \<noteq> 2 \<longrightarrow> line_open (hal_log s @ timer_ops 0x40 cmd ?n @ rest) m \<longleftrightarrow> m = 0 \<or> line_open (hal_log s) m"
    unfolding rest by (simp_all add: pics_timer)
  let ?s' = "hal_interrupt_restore (bit (hal_eflags s) 9) (set_timer t (\<lambda>x. x\<lparr>tm_mode := mode\<rparr>) (?s1\<lparr>hal_log := hal_log ?s1 @ rest\<rparr>))"
  have run: "f t ns s = (Inr (), ?s')" using start_eq [OF start t ns] port irq en rest by (simp add: Let_def)
  have fl: "hal_eflags ?s' = hal_eflags s"
    by (rule hal_interrupt_bracket(1) [where t = "s\<lparr>hal_eflags := MASK_CLEAR (hal_eflags s) (BIT 9)\<rparr>"]) (simp_all add: hal_simps set_timer_def)
  have o: "hal_log ?s' = hal_log s @ timer_ops 0x40 cmd ?n @ rest" "tm_mode (tp_timer (timers ?s' t)) = mode"
    by (simp_all add: hal_interrupt_restore_def set_timer_def)
  have "open_lines (hal_log ?s') = insert 0 (open_lines (hal_log s))" unfolding o(1) using lines(2) by auto
  moreover have "0 < ?n" "?n < 65536" "?n * 1000000000 \<le> unat ns * 1193182" "unat ns * 1193182 < (?n + 1) * 1000000000"
    using ns by (simp_all add: div_greater_zero_iff div_less_iff_less_mult)
  ultimately show ?thesis using run fl o lines(1) by (intro exI [of _ ?s'] exI [of _ ?n] exI [of _ rest]) simp
qed

text \<open>
  When the interrupt line cannot be enabled, the functions that start and stop the timer return between
  disabling interrupts and restoring them: interrupts stay disabled.
\<close>

theorem i8254_error_leaves_disabled:
  assumes "(f, cmd, mode) \<in> starts chips" and "timer_ok t s" and "16761 \<le> unat ns" and "unat ns \<le> 54924563"
    and "tp_irq (timers s t) < IRQ_MAX" and "desc_chip (irq_descs s ! unat (tp_irq (timers s t))) = 0"
  shows "\<exists>s1 s2. f t ns s = (Inl KERR_NOENT, s1) \<and> \<not> hal_interrupt_enabled s1
    \<and> i8254_timer_stop chips t s = (Inl KERR_NOENT, s2) \<and> \<not> hal_interrupt_enabled s2"
proof -
  have "\<not> IRQ_MAX \<le> tp_irq (timers s t)" "t \<noteq> 0" using assms(2,5) by (simp_all add: timer_ok_def)
  then show ?thesis using start_eq [OF assms(1-4)] assms(6)
    by (auto simp: irq_enable_def irq_disable_def i8254_timer_stop_def hal_simps kerr_try_def Let_def set_timer_def
        hal_interrupt_enabled_def IF_bit bit_MASK_CLEAR_BIT)
qed

text \<open>
  C22. The timer interrupt. The callback is called exactly when the timer is running and has one. If the timer is
  in one-shot mode after that, its line is closed and it is disabled, so that no second interrupt calls the
  callback; in the other modes nothing else happens. Interrupts are enabled afterwards exactly if they were
  after the callback.
\<close>

theorem i8254_irq_handler_correct:
  assumes t: "t \<noteq> 0" and chip: "chips chip = i8259_chip dev" and dev: "mask_reads_back dev"
    and s1: "s1 = (if tm_mode (tp_timer (timers s t)) \<noteq> TIMER_DEVICE_MODE_DISABLED \<and> tm_event (tp_timer (timers s t)) \<noteq> 0
                   then events (tm_event (tp_timer (timers s t))) t s else s)"
    and routed: "pic_routed chip mp s1" and irq: "tp_irq (timers s1 t) = pic_irq mp 0 s1" and pics: "pics_ok (hal_log s1)"
  shows "if tm_mode (tp_timer (timers s1 t)) = TIMER_DEVICE_MODE_ONESHOT
    then \<exists>s'. i8254_irq_handler chips events t s = s' \<and> tm_mode (tp_timer (timers s' t)) = TIMER_DEVICE_MODE_DISABLED
      \<and> open_lines (hal_log s') = open_lines (hal_log s1) - {0} \<and> pics_ok (hal_log s') \<and> hal_eflags s' = hal_eflags s1
      \<and> i8254_irq_handler chips events t s' = s'
    else i8254_irq_handler chips events t s = s1"
proof (cases "tm_mode (tp_timer (timers s1 t)) = TIMER_DEVICE_MODE_ONESHOT")
  case False
  then show ?thesis using t s1 by (simp add: i8254_irq_handler_def Let_def)
next
  case True
  let ?s2 = "s1\<lparr>hal_eflags := MASK_CLEAR (hal_eflags s1) (BIT 9)\<rparr>" and ?d = "irq_descs s1 ! unat (pic_irq mp 0 s1)"
  have z: "0 < (16 :: nat)" by simp
  note d = pic_desc [OF routed z]
  have "chip \<noteq> 0" using routed by (simp add: pic_routed_def)
  then have dis: "irq_disable chips (pic_irq mp 0 s1) ?s2 = (Inr (), i8259_mask_irq dev ?d ?s2)"
    using chip d(2) pic_irq_unat(2) [OF routed z] by (simp add: irq_disable_def Let_def i8259_chip_def)
  obtain rest where rest: "i8259_mask_irq dev ?d ?s2 = ?s2\<lparr>hal_log := hal_log ?s2 @ rest\<rparr>" using mask_extends by blast
  have p2: "pics_ok (hal_log ?s2)" using pics by simp
  from mask_lines [OF dev p2 d(1) z] have lines: "pics_ok (hal_log s1 @ rest)"
    "\<forall>m<16. m \<noteq> 2 \<longrightarrow> line_open (hal_log s1 @ rest) m \<longleftrightarrow> m \<noteq> 0 \<and> line_open (hal_log s1) m" unfolding rest by simp_all
  let ?s' = "hal_interrupt_restore (bit (hal_eflags s1) 9) (set_timer t (\<lambda>x. x\<lparr>tm_mode := TIMER_DEVICE_MODE_DISABLED\<rparr>) (?s2\<lparr>hal_log := hal_log ?s2 @ rest\<rparr>))"
  have run: "i8254_irq_handler chips events t s = ?s'"
    unfolding i8254_irq_handler_def Let_def s1 [symmetric] using t True irq dis rest by (simp add: hal_simps)
  have fl: "hal_eflags ?s' = hal_eflags s1"
    by (rule hal_interrupt_bracket(1) [where t = ?s2]) (simp_all add: hal_simps set_timer_def)
  have o: "hal_log ?s' = hal_log s1 @ rest" "tm_mode (tp_timer (timers ?s' t)) = TIMER_DEVICE_MODE_DISABLED"
    by (simp_all add: hal_interrupt_restore_def set_timer_def)
  have "i8254_irq_handler chips events t ?s' = ?s'" using t o(2) by (simp add: i8254_irq_handler_def Let_def)
  moreover have "open_lines (hal_log ?s') = open_lines (hal_log s1) - {0}" unfolding o(1) using lines(2) by auto
  ultimately show ?thesis using True run fl o lines(1) by simp
qed

subsection \<open>Witnesses\<close>

definition timer0 :: i8254_priv where
  "timer0 = \<lparr>tp_timer = \<lparr>tm_name = 0x1000, tm_mode = TIMER_DEVICE_MODE_ONESHOT, min_delta_ns = I8254_MIN_DELTA_NS, max_delta_ns = I8254_MAX_DELTA_NS, tm_event = 0\<rparr>,
     tp_port_base = 0x40, tp_irq = 0\<rparr>"

definition tm0 :: tm_sys where
  "tm0 = (io_sys.extend io0 (tm_sys.fields [] 0 (\<lambda>_. timer0)))\<lparr>irq_descs := irq_descs irq0\<rparr>"

lemma tm0_simps: "irq_descs tm0 = irq_descs irq0" "irq_allocated tm0 = irq_allocated irq0" "timers tm0 = (\<lambda>_. timer0)"
  by (simp_all add: tm0_def io_sys.defs tm_sys.defs io0_def dev_sys.defs dm0_def irq0_def)

lemma tm1:
  obtains s :: tm_sys where "pic_routed 0x2000 0x3000 s" "pics_ok (hal_log s)" "timer_ok 0x6000 s" "tp_port_base (timers s 0x6000) = 0x40"
    "tp_irq (timers s 0x6000) = pic_irq 0x3000 0 s" "tm_mode (tp_timer (timers s 0x6000)) = TIMER_DEVICE_MODE_ONESHOT" "tm_event (tp_timer (timers s 0x6000)) = 0"
proof -
  have f: "length (irq_descs tm0) = 256" "\<forall>d\<in>set (irq_descs tm0). desc_map d = 0" "bm_run (irq_allocated tm0) 0 16"
    using irq0_facts by (auto simp: tm0_simps)
  from i8259_init_run [OF f(1,2) _ f(3), of "0x3000" "0x2000" "0x1000" pic_dev] obtain s :: tm_sys where
    s: "pic_routed 0x2000 0x3000 s" "hal_log s = hal_log (i8259_mask_all (i8259_remap pic_dev 0x20 0x28 tm0))" by auto
  have full: "\<forall>k<8. bit (0xFF :: u8) k" by (simp only: u8_full_iff [symmetric])
  have ok: "pics_ok (hal_log s)" unfolding pics_ok_at using pics_programmed(1) [OF s(2) [symmetric]] full by (intro exI conjI) auto
  let ?s = "s\<lparr>timers := (\<lambda>_. timer0\<lparr>tp_irq := pic_irq 0x3000 0 s\<rparr>)\<rparr>"
  have "pic_routed 0x2000 0x3000 ?s" using s(1) by (simp add: pic_routed_def)
  then show ?thesis by (rule that) (use ok in \<open>simp_all add: timer_ok_def timer0_def\<close>)
qed

theorem i8254_start_correct_witness:
  "\<exists>(s :: tm_sys) s'. i8254_timer_start_periodic (\<lambda>_. i8259_chip pic_dev) 0x6000 10000000 s = (Inr (), s') \<and> line_open (hal_log s') 0"
proof -
  obtain s :: tm_sys where s: "pic_routed 0x2000 0x3000 s" "pics_ok (hal_log s)" "timer_ok 0x6000 s" "tp_port_base (timers s 0x6000) = 0x40"
    "tp_irq (timers s 0x6000) = pic_irq 0x3000 0 s" by (rule tm1)
  let ?chips = "\<lambda>_ :: vaddr. i8259_chip pic_dev :: tm_sys irq_chip"
  have st: "(i8254_timer_start_periodic ?chips, 0x36, TIMER_DEVICE_MODE_PERIODIC) \<in> starts ?chips" by (simp add: starts_def)
  have ns: "16761 \<le> unat (10000000 :: u64)" "unat (10000000 :: u64) \<le> 54924563" and c: "?chips 0x2000 = i8259_chip pic_dev" by simp_all
  obtain s' where s': "i8254_timer_start_periodic ?chips 0x6000 10000000 s = (Inr (), s')" "open_lines (hal_log s') = insert 0 (open_lines (hal_log s))"
    using i8254_start_correct [OF st s(3) ns s(4,1,5) c pic_dev_reads s(2)] by blast
  have "0 \<in> open_lines (hal_log s')" unfolding s'(2) by blast
  then show ?thesis using s'(1) by (intro exI [of _ s] exI [of _ s']) simp
qed

theorem i8254_error_leaves_disabled_witness:
  "\<exists>s1. i8254_timer_start_oneshot (\<lambda>_. i8259_chip pic_dev) 0x6000 10000000 tm0 = (Inl KERR_NOENT, s1) \<and> \<not> hal_interrupt_enabled s1"
proof -
  let ?chips = "\<lambda>_ :: vaddr. i8259_chip pic_dev :: tm_sys irq_chip"
  have st: "(i8254_timer_start_oneshot ?chips, 0x30, TIMER_DEVICE_MODE_ONESHOT) \<in> starts ?chips" by (simp add: starts_def)
  have t: "timer_ok 0x6000 tm0" by (simp add: timer_ok_def tm0_simps timer0_def)
  have "desc_chip (irq_descs tm0 ! unat (tp_irq (timers tm0 0x6000))) = 0" by (simp add: tm0_simps timer0_def irq0_def)
  moreover have "tp_irq (timers tm0 0x6000) < IRQ_MAX" by (simp add: tm0_simps timer0_def IRQ_MAX_def)
  ultimately show ?thesis using i8254_error_leaves_disabled [OF st t, of 10000000] by auto
qed

theorem i8254_irq_handler_correct_witness:
  "\<exists>(s :: tm_sys) s'. i8254_irq_handler (\<lambda>_. i8259_chip pic_dev) (\<lambda>_ _ s. s) 0x6000 s = s' \<and> \<not> line_open (hal_log s') 0
     \<and> tm_mode (tp_timer (timers s 0x6000)) = TIMER_DEVICE_MODE_ONESHOT \<and> tm_mode (tp_timer (timers s' 0x6000)) = TIMER_DEVICE_MODE_DISABLED"
proof -
  obtain s :: tm_sys where s: "pic_routed 0x2000 0x3000 s" "pics_ok (hal_log s)" "tp_irq (timers s 0x6000) = pic_irq 0x3000 0 s"
    "tm_mode (tp_timer (timers s 0x6000)) = TIMER_DEVICE_MODE_ONESHOT" "tm_event (tp_timer (timers s 0x6000)) = 0" by (rule tm1)
  let ?chips = "\<lambda>_ :: vaddr. i8259_chip pic_dev :: tm_sys irq_chip" and ?ev = "\<lambda>(_ :: vaddr) (_ :: vaddr) (s :: tm_sys). s"
  have e: "s = (if tm_mode (tp_timer (timers s 0x6000)) \<noteq> TIMER_DEVICE_MODE_DISABLED \<and> tm_event (tp_timer (timers s 0x6000)) \<noteq> 0
    then ?ev (tm_event (tp_timer (timers s 0x6000))) 0x6000 s else s)" by simp
  have c: "?chips 0x2000 = i8259_chip pic_dev" and t: "(0x6000 :: vaddr) \<noteq> 0" by simp_all
  from i8254_irq_handler_correct [where events = ?ev and chips = ?chips, OF t c pic_dev_reads e s(1,3,2)] s(4) obtain s' where
    s': "i8254_irq_handler ?chips ?ev 0x6000 s = s'" "tm_mode (tp_timer (timers s' 0x6000)) = TIMER_DEVICE_MODE_DISABLED"
    "open_lines (hal_log s') = open_lines (hal_log s) - {0}" by auto
  have "0 \<notin> open_lines (hal_log s')" unfolding s'(3) by simp
  then show ?thesis using s'(1,2) s(4) by (intro exI [of _ s] exI [of _ s']) simp
qed

end
