(* ===== verification/Kmain.thy ===== *)
theory Kmain
  imports I8254 Process_Create
begin

text \<open>
  The kernel core: the information from the boot loader (\<^verbatim>\<open>src/kernel/core/boot.c\<close>), panics
  (\<^verbatim>\<open>log/panic.c\<close>), exceptions (\<^verbatim>\<open>core/exception.c\<close>, \<^verbatim>\<open>arch/x86/interrupt/nmi.c\<close>), the start of the memory managers
  (\<^verbatim>\<open>mm/mm.c\<close>), of the processor (\<^verbatim>\<open>arch/x86/arch.c\<close>) and of the devices (\<^verbatim>\<open>core/initcall.c\<close>,
  \<^verbatim>\<open>arch/x86/platform/\<close>), and \<open>kmain\<close> itself (\<^verbatim>\<open>core/kmain.c\<close>): definitions. The state puts the states of all
  components together. The record \<open>kenv\<close> holds what the kernel runs on and cannot see: the devices behind the
  ports, the processor's answers, the strings of the image and the garbage in and behind the uninitialised
  buffer of a message. The record \<open>kimage\<close> holds the symbols of the linker and the addresses of static
  objects. An action ends in one of four ways: it returns, the kernel halts in a panic, the
  processor leaves to user mode, or it is stuck: a loop does not end, a copy leaves its array, an access leaves the memory
  that is mapped at that time (without an interrupt table, the processor then resets), or the model says nothing because two of
  its stores would overlap. Until the kernel has loaded its own page tables, the processor runs on the bootstrap page
  directory of \<^verbatim>\<open>arch/x86/kernel.asm\<close>, which maps the first 4 MiB of memory at \<open>0xC0000000\<close>.
\<close>

subsection \<open>boot\_info.h and boot.h\<close>

definition BOOT_MAGIC :: u32 where "BOOT_MAGIC = 0x54425749"
definition BOOT_MEMORY_MAP_MAX :: u16 where "BOOT_MEMORY_MAP_MAX = 64"
definition BOOT_VIDEO_TYPE_TEXT :: u32 where "BOOT_VIDEO_TYPE_TEXT = 1"

record boot_video =
  video_type :: u32
  video_mode :: u8
  video_page :: u8
  video_cols :: u8
  video_rows :: u8
  video_buffer :: paddr

record boot_info =
  info_memory_map_count :: u16
  info_memory_map_phys :: paddr
  info_video :: boot_video
  info_system_image :: paddr
  info_system_image_size :: u32

record boot_state =
  memory_map_count :: u16
  memory_map :: "boot_mem_map_entry list"
  boot_video :: boot_video
  system_image :: vaddr
  system_image_size :: u32

text \<open>The packed structures as they lie in memory.\<close>

definition boot_mem_map_entry_at :: "bytes \<Rightarrow> vaddr \<Rightarrow> boot_mem_map_entry" where
  "boot_mem_map_entry_at m p =
     \<lparr>me_base = read_le64 m p, me_length = read_le64 m (p + 8), me_type = read_le32 m (p + 16), me_attr = read_le32 m (p + 20)\<rparr>"

definition boot_video_at :: "bytes \<Rightarrow> vaddr \<Rightarrow> boot_video" where
  "boot_video_at m p =
     \<lparr>video_type = read_le32 m p, video_mode = m (p + 4), video_page = m (p + 5), video_cols = m (p + 6), video_rows = m (p + 7),
      video_buffer = read_le64 m (p + 8)\<rparr>"

definition boot_info_at :: "bytes \<Rightarrow> vaddr \<Rightarrow> boot_info" where
  "boot_info_at m p =
     \<lparr>info_memory_map_count = read_le16 m p, info_memory_map_phys = read_le64 m (p + 2), info_video = boot_video_at m (p + 10),
      info_system_image = read_le64 m (p + 26), info_system_image_size = read_le32 m (p + 34)\<rparr>"

subsection \<open>The state and its environment\<close>

record kernel = tm_sys +
  kernel_boot_state :: boot_state
  k_ram :: bytes
  k_stacks :: mem
  k_process_table :: "vaddr list"
  k_procs :: "vaddr \<Rightarrow> process"
  k_gdt :: "x86_gdt_raw_entry list"
  k_gdtr :: x86_gdt_descriptor
  k_tss :: x86_tss
  k_idt :: "x86_idt_raw_entry list"
  k_idt_desc :: x86_idt_descriptor
  k_idtr :: x86_idt_descriptor
  k_cpu_info :: x86_cpu_info
  panicking :: bool

record kenv =
  ke_dev :: port_dev
  ke_popf :: "u32 \<Rightarrow> u32 \<Rightarrow> u32"
  ke_cpuid :: "u32 \<Rightarrow> u32 \<Rightarrow> x86_cpuid_regs"
  ke_str_at :: "u32 \<Rightarrow> string"
  ke_buf :: "kernel \<Rightarrow> string"
  ke_beyond :: "kernel \<Rightarrow> u32 \<Rightarrow> u8"

datatype initcall_fn = Vga_text_driver_init | I8254_driver_init | Vga_device_init | I8254_device_init

record initcall =
  ic_name :: vaddr
  ic_fn :: initcall_fn

record kimage =
  ki_kernel_start :: vaddr
  ki_kernel_end :: vaddr
  ki_text_start :: vaddr
  ki_text_end :: vaddr
  ki_rodata_start :: vaddr
  ki_rodata_end :: vaddr
  ki_behind :: "nat \<Rightarrow> u32"
  ki_gdt :: vaddr
  ki_tss :: vaddr
  ki_idt :: vaddr
  ki_isr_stub_table :: "u32 list"
  ki_i8259_chip :: vaddr
  ki_i8259_map :: vaddr
  ki_i8259_name :: vaddr
  ki_platform_bus :: vaddr
  ki_vga_device :: vaddr
  ki_i8254_0_device :: vaddr
  ki_vga_text_driver :: vaddr
  ki_i8254_driver :: vaddr
  ki_vga_text_probe :: vaddr
  ki_i8254_probe :: vaddr
  ki_i8254_irq_handler :: vaddr
  ki_vga_text_name :: vaddr
  ki_i8254_name :: vaddr
  ki_system_name :: vaddr
  ki_alloc_name :: vaddr
  ki_free_name :: vaddr
  ki_initcall_devdrv :: "initcall list"

text \<open>How an action ends, and actions in sequence.\<close>

datatype 'a kresult = Kret 'a kernel | Kpanic kernel | Kuser iret_frame kernel | Kstuck

type_synonym 'a kact = "kernel \<Rightarrow> 'a kresult"

fun kbind :: "'a kresult \<Rightarrow> ('a \<Rightarrow> 'b kact) \<Rightarrow> 'b kresult" where
  "kbind (Kret v s) f = f v s"
| "kbind (Kpanic s) f = Kpanic s"
| "kbind (Kuser fr s) f = Kuser fr s"
| "kbind Kstuck f = Kstuck"

definition kthen :: "'a kact \<Rightarrow> ('a \<Rightarrow> 'b kact) \<Rightarrow> 'b kact" where
  "kthen a f s = kbind (a s) f"

definition kcall :: "(kernel, 'a) kfun \<Rightarrow> (kerror + 'a) kact" where
  "kcall f s = (case f s of (r, s) \<Rightarrow> Kret r s)"

definition kdo :: "(kernel \<Rightarrow> kernel) \<Rightarrow> unit kact" where
  "kdo f s = Kret () (f s)"

text \<open>The kernel's memory and the processes, as their components see them.\<close>

definition k_kern :: "(kern, 'a) kfun \<Rightarrow> (kernel, 'a) kfun" where
  "k_kern f = kzoom ds_kern (\<lambda>k s. s\<lparr>ds_kern := k\<rparr>) f"

definition psys_of :: "kernel \<Rightarrow> psys" where
  "psys_of s = \<lparr>ps_kern = ds_kern s, ps_ram = k_ram s, ps_stacks = k_stacks s, process_table = k_process_table s, ps_procs = k_procs s\<rparr>"

definition set_psys :: "psys \<Rightarrow> kernel \<Rightarrow> kernel" where
  "set_psys p s = s\<lparr>ds_kern := ps_kern p, k_ram := ps_ram p, k_stacks := ps_stacks p, k_process_table := process_table p, k_procs := ps_procs p\<rparr>"

definition k_psys :: "(psys, 'a) kfun \<Rightarrow> (kernel, 'a) kfun" where
  "k_psys f = kzoom psys_of set_psys f"

subsection \<open>printk.h and panic.c\<close>

definition console_code :: "kenv \<Rightarrow> vaddr \<Rightarrow> kernel console_ops" where
  "console_code K con = vga_text_ops (ke_dev K)"

definition kprintk :: "kenv \<Rightarrow> string \<Rightarrow> u32 list \<Rightarrow> unit kact" where
  "kprintk K fmt args s =
     (case printk (console_code K) (ke_str_at K) (ke_buf K s) (ke_beyond K s) fmt args s of
        None \<Rightarrow> Kstuck | Some (_, s) \<Rightarrow> Kret () s)"

definition PRINTK_FATAL :: string where "PRINTK_FATAL = ''[FATAL] ''"
definition PRINTK_ERR :: string where "PRINTK_ERR = ''[ERR]   ''"
definition PRINTK_DEBUG :: string where "PRINTK_DEBUG = ''[DEBUG] ''"

definition pr_fatal :: "kenv \<Rightarrow> string \<Rightarrow> u32 list \<Rightarrow> unit kact" where
  "pr_fatal K fmt args = kprintk K (PRINTK_FATAL @ fmt) args"

definition pr_err :: "kenv \<Rightarrow> string \<Rightarrow> u32 list \<Rightarrow> unit kact" where
  "pr_err K fmt args = kprintk K (PRINTK_ERR @ fmt) args"

definition pr_debug :: "kenv \<Rightarrow> string \<Rightarrow> u32 list \<Rightarrow> unit kact" where
  "pr_debug K fmt args = kprintk K (PRINTK_DEBUG @ fmt) args"

abbreviation nl :: string where
  "nl \<equiv> [CHR 0x0A]"

text \<open>The processor halts at the end: the endless loop around HLT is the outcome \<open>Kpanic\<close>.\<close>

definition vpanic :: "kenv \<Rightarrow> string \<Rightarrow> u32 list \<Rightarrow> 'a kact" where
  "vpanic K fmt args =
     kthen (kdo (\<lambda>s. s\<lparr>hal_eflags := x86_cli (hal_eflags s)\<rparr>))
       (\<lambda>_. kthen
         (\<lambda>s. if panicking s then Kret () s
              else kthen (kdo (\<lambda>s. s\<lparr>panicking := True\<rparr>))
                     (\<lambda>_. kthen (pr_fatal K (nl @ nl @ ''--- KERNEL PANIC ---'' @ nl) [])
                     (\<lambda>_. kthen (kprintk K fmt args)
                     (\<lambda>_. kprintk K nl []))) s)
         (\<lambda>_. kthen (pr_fatal K (nl @ ''--- System Halted ---'' @ nl) []) (\<lambda>_. Kpanic)))"

definition panic :: "kenv \<Rightarrow> string \<Rightarrow> u32 list \<Rightarrow> 'a kact" where
  "panic K fmt args = vpanic K fmt args"

subsection \<open>exception.c, nmi.c and the dispatch of isr.c\<close>

definition exception_code :: "exception_type \<Rightarrow> u32" where
  "exception_code t = (case t of EXCEPTION_ARITHMETIC \<Rightarrow> 0 | EXCEPTION_UNKNOWN \<Rightarrow> 1)"

definition exception_dispatch :: "kenv \<Rightarrow> exception_info \<Rightarrow> unit kact" where
  "exception_dispatch K info = panic K ''Exception %d at %p'' [exception_code (exc_type info), exc_ip info]"

definition x86_nmi_handler :: "kenv \<Rightarrow> unit kact" where
  "x86_nmi_handler K = panic K ''NMI received'' []"

text \<open>The whole of \<open>x86_isr_handler\<close> on the interrupt number, EIP and CS of the frame.\<close>

definition x86_isr_run ::
  "kenv \<Rightarrow> kimage \<Rightarrow> (vaddr \<Rightarrow> kernel irq_chip) \<Rightarrow> (vaddr \<Rightarrow> vaddr \<Rightarrow> kernel \<Rightarrow> kernel) \<Rightarrow> u32 \<Rightarrow> u32 \<Rightarrow> u32 \<Rightarrow> unit kact" where
  "x86_isr_run K I chips calls int_no eip cs =
     (case x86_isr_handler int_no of
        Nmi_handler \<Rightarrow> x86_nmi_handler K
      | Exception_handler \<Rightarrow> exception_dispatch K (x86_exception_handler int_no eip cs)
      | Irq_handler \<Rightarrow> kdo (x86_irq_handler chips calls (ki_i8259_chip I) (ki_i8259_map I) int_no))"

subsection \<open>boot.c\<close>

definition boot_print_entry :: "kenv \<Rightarrow> nat \<times> boot_mem_map_entry \<Rightarrow> unit kact" where
  "boot_print_entry K e =
     pr_debug K (''Boot: [%d] base=%x len=%x type=%x attr=%x'' @ nl)
       [of_nat (fst e), ucast (me_base (snd e)), ucast (me_length (snd e)), me_type (snd e), me_attr (snd e)]"

fun kfor :: "'a list \<Rightarrow> ('a \<Rightarrow> unit kact) \<Rightarrow> unit kact" where
  "kfor [] body = Kret ()"
| "kfor (x # xs) body = kthen (body x) (\<lambda>_. kfor xs body)"

definition boot_print :: "kenv \<Rightarrow> boot_state \<Rightarrow> unit kact" where
  "boot_print K b =
     kthen (pr_debug K (''Boot: Physical Memory Map:'' @ nl) [])
       (\<lambda>_. kthen (kfor (enumerate 0 (memory_map b)) (boot_print_entry K))
       (\<lambda>_. kthen (if video_type (boot_video b) = BOOT_VIDEO_TYPE_TEXT
                    then pr_debug K (''Boot: Video: type=TEXT mode=0x%x buf=%p rows=%d cols=%d page=%u'' @ nl)
                           [ucast (video_mode (boot_video b)), ucast (video_buffer (boot_video b)), ucast (video_rows (boot_video b)),
                            ucast (video_cols (boot_video b)), ucast (video_page (boot_video b))]
                    else Kret ())
       (\<lambda>_. pr_debug K (''System image: addr=%p size=0x%x'' @ nl) [system_image b, system_image_size b])))"

text \<open>The state that the copies leave; the entries are 24 bytes each.\<close>

definition boot_state_at :: "bytes \<Rightarrow> vaddr \<Rightarrow> boot_state" where
  "boot_state_at m p =
     (let info = boot_info_at m p; src = PHYS_TO_VIRT (info_memory_map_phys info)
      in \<lparr>memory_map_count = info_memory_map_count info,
          memory_map = map (\<lambda>i. boot_mem_map_entry_at m (src + 24 * of_nat i)) [0..<unat (info_memory_map_count info)],
          boot_video = info_video info,
          system_image = PHYS_TO_VIRT (info_system_image info),
          system_image_size = info_system_image_size info\<rparr>)"

text \<open>The addresses of the direct map that the bootstrap page directory maps.\<close>

definition boot_mapped :: "vaddr \<Rightarrow> nat \<Rightarrow> bool" where
  "boot_mapped a n \<longleftrightarrow> n = 0 \<or> 0xC0000000 \<le> unat a \<and> unat a + n \<le> 0xC0400000"

text \<open>
  The structure of 38 bytes and the map must be mapped. The array that the map is copied to has 64 entries; a copy of more
  leaves it.
\<close>

definition boot_readable :: "bytes \<Rightarrow> vaddr \<Rightarrow> bool" where
  "boot_readable m p \<longleftrightarrow> boot_mapped p 38 \<and> info_memory_map_count (boot_info_at m p) \<le> BOOT_MEMORY_MAP_MAX
     \<and> boot_mapped (PHYS_TO_VIRT (info_memory_map_phys (boot_info_at m p))) (24 * unat (info_memory_map_count (boot_info_at m p)))"

definition boot_init :: "kenv \<Rightarrow> vaddr \<Rightarrow> unit kact" where
  "boot_init K p s =
     (if \<not> boot_readable (k_ram s) p then Kstuck
      else let b = boot_state_at (k_ram s) p in boot_print K b (s\<lparr>kernel_boot_state := b\<rparr>))"

subsection \<open>mm.c\<close>

definition kn_kheap_init :: "(kern, unit) kfun" where
  "kn_kheap_init =
     kzoom (\<lambda>k. (xm_pmm (kn_mm k), kn_kheap k, kn_heap k))
       (\<lambda>(p, kh, m) k. k\<lparr>kn_mm := (kn_mm k)\<lparr>xm_pmm := p\<rparr>, kn_kheap := kh, kn_heap := m\<rparr>) kheap_init"

text \<open>
  What \<open>pmm_init\<close> and \<open>vm_kern_init\<close> access before the kernel's page tables are loaded: the words of the frame bitmap, which starts
  behind the image (no entry of the map frees a frame beyond it when the number of frames is not cut to 32 bits), and the frames
  of the page directory and of the 256 page tables, which are the lowest free ones. The bitmap must stay off the video memory and the
  firmware between 640 KiB and 1 MiB.
\<close>

definition bitmap_end :: "kimage \<Rightarrow> pmm \<Rightarrow> nat" where
  "bitmap_end I p = unat (ki_kernel_end I) + 4 * ((unat (pmm_total_frames p) + 31) div 32)"

definition boot_reach :: "kimage \<Rightarrow> boot_mem_map_entry list \<Rightarrow> pmm \<Rightarrow> bool" where
  "boot_reach I entries p \<longleftrightarrow> unat (pmm_init_max_addr entries) \<le> 4096 * unat (pmm_total_frames p)
     \<and> bitmap_end I p \<le> 0xC0400000 \<and> (bitmap_end I p \<le> 0xC00A0000 \<or> 0xC0100000 \<le> unat (ki_kernel_start I))
     \<and> list_all (\<lambda>f. f < 1024) (take 257 (filter (frame_free p) [0..<LOWMEM_FRAMES]))"

definition mm_pmm_init :: "kimage \<Rightarrow> boot_mem_map_entry list \<Rightarrow> (kern, unit) kfun" where
  "mm_pmm_init I entries = kn_pmm (pmm_init (ki_kernel_start I) (ki_kernel_end I) (ki_behind I) (Some entries))"

text \<open>\<open>None\<close> is an access to memory that is not mapped or is no RAM.\<close>

definition mm_init :: "kimage \<Rightarrow> boot_mem_map_entry list \<Rightarrow> kern \<Rightarrow> ((kerror + unit) \<times> kern) option" where
  "mm_init I entries s =
     (case mm_pmm_init I entries s of
        (Inl e, s) \<Rightarrow> Some (Inl e, s)
      | (Inr _, s) \<Rightarrow>
          if \<not> boot_reach I entries (xm_pmm (kn_mm s)) then None
          else Some (kerr_try (vmm_init (ki_text_start I) (ki_text_end I) (ki_rodata_start I) (ki_rodata_end I))
                       (\<lambda>_. kerr_try kn_kheap_init (\<lambda>_. kret ())) s))"

subsection \<open>arch.c\<close>

definition arch_init :: "kenv \<Rightarrow> kimage \<Rightarrow> unit kact" where
  "arch_init K I s =
     (let s = s\<lparr>hal_eflags := x86_cli (hal_eflags s)\<rparr>;
          s = s\<lparr>hal_eflags := x86_cld (hal_eflags s)\<rparr>
      in case x86_cpu_detect (ke_popf K) (ke_cpuid K) (hal_eflags s) of (ok, info, eflags) \<Rightarrow>
           let s = s\<lparr>k_cpu_info := info, hal_eflags := eflags\<rparr>
           in if \<not> ok then panic K ''CPUID is not supported'' [] s
              else let s = s\<lparr>k_tss := x86_tss_init\<rparr>
                   in case x86_gdt_init (ki_gdt I) (ki_tss I) of (gdt, gdtr) \<Rightarrow>
                        let s = s\<lparr>k_gdt := gdt, k_gdtr := gdtr\<rparr>
                        in case x86_idt_init (ki_idt I) of (idt, idt_desc) \<Rightarrow>
                             let s = s\<lparr>k_idt := idt, k_idt_desc := idt_desc\<rparr>;
                                 s = s\<lparr>k_idt := x86_isr_init (ki_isr_stub_table I) (k_idt s)\<rparr>
                             in Kret () (s\<lparr>k_idtr := k_idt_desc s\<rparr>))"

subsection \<open>platform/vga.c and platform/i8254.c\<close>

definition vga_text_resources :: "resource list" where
  "vga_text_resources = [RESOURCE_MMIO 0xB8000 0xB8F9F, RESOURCE_PORT 0x3D4 0x3D5]"

text \<open>The last argument is the map of the interrupt controller; the initialiser has NULL there.\<close>

definition i8254_0_resources :: "vaddr \<Rightarrow> resource list" where
  "i8254_0_resources mp = [RESOURCE_PORT 0x40 0x43, RESOURCE_IRQ 0 mp]"

definition i8254_0_device :: "kimage \<Rightarrow> platform_device" where
  "i8254_0_device I = \<lparr>dev_name = ki_i8254_name I, dev_id = 0, dev_bus = 0, dev_driver = 0, dev_driver_data = 0,
     pdev_resources = Some (i8254_0_resources 0), pdev_resource_count = 2\<rparr>"

definition vga_device :: platform_device where
  "vga_device = \<lparr>dev_name = 0, dev_id = 0, dev_bus = 0, dev_driver = 0, dev_driver_data = 0, pdev_resources = None, pdev_resource_count = 0\<rparr>"

definition vga_text_driver :: "kimage \<Rightarrow> platform_driver" where
  "vga_text_driver I = \<lparr>drv_name = ki_vga_text_name I, drv_bus = 0, pdrv_probe = ki_vga_text_probe I\<rparr>"

definition i8254_driver :: "kimage \<Rightarrow> platform_driver" where
  "i8254_driver I = \<lparr>drv_name = ki_i8254_name I, drv_bus = 0, pdrv_probe = ki_i8254_probe I\<rparr>"

text \<open>The kernel has two probe functions; the platform bus calls the one a driver points to.\<close>

definition kernel_probes :: "kenv \<Rightarrow> kimage \<Rightarrow> vaddr \<Rightarrow> vaddr \<Rightarrow> (kernel, unit) kfun" where
  "kernel_probes K I f =
     (if f = ki_vga_text_probe I then vga_text_probe (console_code K) else i8254_probe (ki_i8254_irq_handler I))"

definition kernel_bus :: "kenv \<Rightarrow> kimage \<Rightarrow> kernel bus_code" where
  "kernel_bus K I = platform_bus (kernel_probes K I)"

definition vga_text_driver_init :: "kenv \<Rightarrow> kimage \<Rightarrow> (kernel, unit) kfun" where
  "vga_text_driver_init K I = platform_driver_register (kernel_bus K I) (ki_platform_bus I) (ki_vga_text_driver I)"

definition vga_device_init :: "kenv \<Rightarrow> kimage \<Rightarrow> (kernel, unit) kfun" where
  "vga_device_init K I s =
     (let s = set_device (ki_vga_device I) (\<lambda>d. d\<lparr>dev_id := 0\<rparr>) s
      in if video_type (boot_video (kernel_boot_state s)) = BOOT_VIDEO_TYPE_TEXT
         then platform_device_register (kernel_bus K I) (ki_platform_bus I) (ki_vga_device I)
                (set_device (ki_vga_device I) (\<lambda>d. d\<lparr>dev_name := ki_vga_text_name I, pdev_resources := Some vga_text_resources,
                   pdev_resource_count := 2\<rparr>) s)
         else kfail KERR_NOSUP s)"

definition i8254_device_init :: "kenv \<Rightarrow> kimage \<Rightarrow> (kernel, unit) kfun" where
  "i8254_device_init K I s =
     platform_device_register (kernel_bus K I) (ki_platform_bus I) (ki_i8254_0_device I)
       (set_device (ki_i8254_0_device I) (\<lambda>d. d\<lparr>pdev_resources := Some (i8254_0_resources (ki_i8259_map I))\<rparr>) s)"

subsection \<open>initcall.c\<close>

definition initcall_run :: "kenv \<Rightarrow> kimage \<Rightarrow> initcall_fn \<Rightarrow> (kernel, unit) kfun" where
  "initcall_run K I f =
     (case f of
        Vga_text_driver_init \<Rightarrow> vga_text_driver_init K I
      | I8254_driver_init \<Rightarrow> i8254_driver_init (kernel_bus K I) (ki_platform_bus I) (ki_i8254_driver I)
      | Vga_device_init \<Rightarrow> vga_device_init K I
      | I8254_device_init \<Rightarrow> i8254_device_init K I)"

fun initcalls_invoke_range :: "kenv \<Rightarrow> kimage \<Rightarrow> initcall list \<Rightarrow> (kerror + unit) kact" where
  "initcalls_invoke_range K I [] = Kret (Inr ())"
| "initcalls_invoke_range K I (ic # ics) =
     kthen (kcall (initcall_run K I (ic_fn ic)))
       (\<lambda>ret. case ret of
          Inl e \<Rightarrow> kthen (pr_err K (''initcall: %s failed'' @ nl) [ic_name ic]) (\<lambda>_. Kret (Inl e))
        | Inr _ \<Rightarrow> kthen (pr_debug K (''initcall: %s succeed'' @ nl) [ic_name ic]) (\<lambda>_. initcalls_invoke_range K I ics))"

definition initcalls_invoke_devdrv :: "kenv \<Rightarrow> kimage \<Rightarrow> (kerror + unit) kact" where
  "initcalls_invoke_devdrv K I = initcalls_invoke_range K I (ki_initcall_devdrv I)"

subsection \<open>The messages of kheap\_dump\<close>

text \<open>The walk itself is \<open>kheap_dump\<close>; it changes nothing, so the messages can follow it.\<close>

definition kheap_dump_print :: "kenv \<Rightarrow> kimage \<Rightarrow> unit kact" where
  "kheap_dump_print K I s =
     (case kheap_dump (kn_kheap (ds_kern s)) (kn_heap (ds_kern s)) of
        None \<Rightarrow> Kstuck
      | Some (lines, t, free_lines) \<Rightarrow>
          kthen (kprintk K (''KHEAP DUMP'' @ nl) [])
            (\<lambda>_. kthen (kprintk K (replicate 32 (CHR ''-'') @ nl) [])
            (\<lambda>_. kthen (kfor lines (\<lambda>(hdr, sz, allocated).
                     kprintk K (''%p   %d   %s'' @ nl) [hdr, sz, if allocated then ki_alloc_name I else ki_free_name I]))
            (\<lambda>_. kthen (kprintk K (''blocks:     %d'' @ nl) [total_blocks t])
            (\<lambda>_. kthen (kprintk K (''allocated:  %d (%d bytes)'' @ nl) [allocated_blocks t, allocated_bytes t])
            (\<lambda>_. kthen (kprintk K (''free:       %d (%d bytes)'' @ nl) [free_blocks t, free_bytes t])
            (\<lambda>_. kthen (kprintk K (''FREELIST'' @ nl) [])
            (\<lambda>_. kthen (kfor free_lines (\<lambda>(hdr, sz). kprintk K (''%p   %d'' @ nl) [hdr, sz]))
            (\<lambda>_. kprintk K (replicate 32 (CHR ''-'') @ nl) [])))))))) s)"

subsection \<open>kmain.c\<close>

text \<open>A call whose failure is a panic.\<close>

definition or_panic :: "kenv \<Rightarrow> string \<Rightarrow> (kernel, 'a) kfun \<Rightarrow> 'a kact" where
  "or_panic K msg f = kthen (kcall f) (\<lambda>r. case r of Inl _ \<Rightarrow> panic K msg [] | Inr v \<Rightarrow> Kret v)"

text \<open>
  The bytes of the system image are kept in a store of their own. That is the memory of the machine only when the image lies in
  the direct map, apart from the kernel with the frame bitmap behind it and from the video memory, and in no frame that the
  allocator could hand out.
\<close>

definition image_kept :: "kimage \<Rightarrow> boot_state \<Rightarrow> kern \<Rightarrow> bool" where
  "image_kept I b k =
     (let p = xm_pmm (kn_mm (snd (mm_pmm_init I (memory_map b) k)));
          img = unat (system_image b); n = unat (system_image_size b)
      in n = 0 \<or> (0xC0000000 \<le> img \<and> img + n \<le> 0xF0000000
           \<and> (img + n \<le> unat (ki_kernel_start I) \<or> bitmap_end I p \<le> img)
           \<and> (img + n \<le> 0xC00B8000 \<or> 0xC00B8FA0 \<le> img)
           \<and> list_all (\<lambda>f. \<not> frame_free p f) [(img - 0xC0000000) div 4096..<(img - 0xC0000000 + n + 4095) div 4096]))"

definition kmain_mm :: "kenv \<Rightarrow> kimage \<Rightarrow> unit kact" where
  "kmain_mm K I s =
     (if \<not> image_kept I (kernel_boot_state s) (ds_kern s) then Kstuck
      else case mm_init I (memory_map (kernel_boot_state s)) (ds_kern s) of
        None \<Rightarrow> Kstuck
      | Some (Inl _, k) \<Rightarrow> panic K ''Failed to initialize the Memory Manager'' [] (s\<lparr>ds_kern := k\<rparr>)
      | Some (Inr _, k) \<Rightarrow> Kret () (s\<lparr>ds_kern := k\<rparr>))"

text \<open>The first part: everything up to the creation of the system process.\<close>

definition kmain_init :: "kenv \<Rightarrow> kimage \<Rightarrow> u32 \<Rightarrow> paddr \<Rightarrow> unit kact" where
  "kmain_init K I magic boot_info_phys =
     kthen (kdo (\<lambda>s. s\<lparr>sys_log := syslog_init (replicate (unat SYSLOG_BUFFER_SIZE) 0)\<rparr>))
     (\<lambda>_. kthen (boot_init K (PHYS_TO_VIRT boot_info_phys))
     (\<lambda>_. kthen (if magic \<noteq> BOOT_MAGIC then panic K ''Invalid boot magic value'' [] else Kret ())
     (\<lambda>_. kthen (kmain_mm K I)
     (\<lambda>_. kthen (arch_init K I)
     (\<lambda>_. kthen (or_panic K ''Failed to initialize the IRQ generic subsystem'' irq_init)
     (\<lambda>_. kthen (or_panic K ''Failed to initialize the architecture-specific IRQ chip''
                   (arch_irqchip_init (ke_dev K) (ki_i8259_chip I) (ki_i8259_map I) (ki_i8259_name I)))
     (\<lambda>_. kthen (or_panic K ''Failed to initialize platform bus'' (platform_init (ki_platform_bus I)))
     (\<lambda>_. kthen (initcalls_invoke_devdrv K I)
     (\<lambda>_. kthen (kcall (k_kern pid_init))
     (\<lambda>_. kprintk K (''Welcome to ItWorksOS'' @ nl) []))))))))))"

text \<open>The second part: the system process. \<open>process_start\<close> does not come back.\<close>

definition kmain_system :: "kenv \<Rightarrow> kimage \<Rightarrow> unit kact" where
  "kmain_system K I =
     kthen (\<lambda>s. case process_create (ki_system_name I) (psys_of s) of (p, ps) \<Rightarrow> Kret p (set_psys ps s))
     (\<lambda>system_proc. kthen (if KERR_PTR_IS_ERR system_proc
                            then panic K ''Failed to create system process: %d'' [of_int (KERR_PTR_ERR system_proc)] else Kret ())
     (\<lambda>_. kthen (\<lambda>s. or_panic K ''Failed to load system process''
                        (k_psys (process_load system_proc (system_image (kernel_boot_state s)) (system_image_size (kernel_boot_state s)))) s)
     (\<lambda>_. kthen (or_panic K ''Failed to prepare system process'' (k_psys (process_prepare system_proc)))
     (\<lambda>_. kthen (kheap_dump_print K I)
     (\<lambda>_. kthen (or_panic K ''system: vm_space_load'' (k_psys (ps_vm system_proc (vm_space_load True))))
     (\<lambda>_. kthen (kdo (\<lambda>s. set_psys (set_proc system_proc (\<lambda>pr. pr\<lparr>proc_state := PROCESS_RUNNING\<rparr>) (psys_of s)) s))
     (\<lambda>_ s. case process_start system_proc (psys_of s) (k_tss s) of
               None \<Rightarrow> panic K ''system: process_start'' [] s
             | Some (tss, fr) \<Rightarrow> Kuser fr (s\<lparr>k_tss := tss\<rparr>))))))))"

definition kmain :: "kenv \<Rightarrow> kimage \<Rightarrow> u32 \<Rightarrow> paddr \<Rightarrow> unit kact" where
  "kmain K I magic boot_info_phys = kthen (kmain_init K I magic boot_info_phys) (\<lambda>_. kmain_system K I)"

end
