(* ===== verification/Kmain_Mm.thy ===== *)
theory Kmain_Mm
  imports Kmain
begin

text \<open>
  The memory managers after \<open>mm_init\<close>: the physical frames, the kernel's address space and the heap are set up
  one on top of the other, and every invariant that the rest of the kernel relies on holds.
\<close>

subsection \<open>The heap on top of the frames\<close>

lemma pmm_hi_lowmem: "pmm_hi_frame p KERNEL_LOWMEM_LIMIT = min LOWMEM_FRAMES (unat (pmm_total_frames p))"
proof -
  have "unat (pmm_addr_to_frame KERNEL_LOWMEM_LIMIT) = LOWMEM_FRAMES"
    by (simp add: unat_pmm_addr_to_frame KERNEL_LOWMEM_LIMIT_def LOWMEM_FRAMES_def)
  then show ?thesis by (simp add: pmm_hi_frame_def KERNEL_LOWMEM_LIMIT_def)
qed

lemma low_run:
  assumes "\<And>j. j < n \<Longrightarrow> frame_free p (b + j)" and "b + n \<le> LOWMEM_FRAMES" and "0 < n"
  shows "\<not> no_run p 0 (pmm_hi_frame p KERNEL_LOWMEM_LIMIT) n"
proof -
  have "frame_free p (b + (n - 1))" using assms by (intro assms(1)) simp
  then have "b + (n - 1) < unat (pmm_total_frames p)" unfolding frame_free_def by blast
  then have "b + n \<le> unat (pmm_total_frames p)" using assms(3) by linarith
  moreover have "frames_free_run p b n" using assms(1) by (metis frames_free_run_def le_Suc_ex nat_add_left_cancel_less)
  ultimately show ?thesis using assms(2) by (auto simp: no_run_def pmm_hi_lowmem)
qed

lemma kn_kheap_init_run:
  assumes inv: "pmm_inv (xm_pmm (kn_mm s))" and h: "kernel_static (xm_pmm (kn_mm s)) (kheap_free_list (kn_kheap s))"
    and run: "\<And>j. j < 256 \<Longrightarrow> frame_free (xm_pmm (kn_mm s)) (b + j)" and b: "b + 256 \<le> LOWMEM_FRAMES"
  obtains p kh m f where "kn_kheap_init s = (Inr (), s\<lparr>kn_mm := (kn_mm s)\<lparr>xm_pmm := p\<rparr>, kn_kheap := kh, kn_heap := m\<rparr>)"
    and "pmm_inv p" and "frames_taken (xm_pmm (kn_mm s)) f 256 p" and "unat (kheap_start kh) = 0xC0000000 + 4096 * f"
    and "heap_run kh [] m" and "f + 256 \<le> LOWMEM_FRAMES"
proof -
  let ?p = "xm_pmm (kn_mm s)"
  obtain r p kh m where k: "kheap_init (?p, kn_kheap s, kn_heap s) = (r, (p, kh, m))" by (metis surj_pair)
  note spec = kheap_init_spec [OF inv h k]
  obtain q p1 where a: "PMM_ALLOC_LOWMEM 256 ?p = (q, p1)" by fastforce
  have "r = Inr ()" using spec low_run [OF run b] by (cases r) auto
  then obtain phys where q: "q = Inr phys" using k a by (cases q) (auto simp: kheap_init_def)
  have post: "alloc_post ?p 0 (pmm_hi_frame ?p KERNEL_LOWMEM_LIMIT) 256 phys p1"
    using pmm_alloc_strict_spec [OF inv, of 256 0 KERNEL_LOWMEM_LIMIT] a q by (simp add: PMM_ALLOC_LOWMEM_def pmm_lo_frame_def)
  then obtain f where f: "unat phys = 4096 * f" "f + 256 \<le> LOWMEM_FRAMES" "frames_taken ?p f 256 p1"
    using pmm_hi_frame_lowmem [of ?p] by (auto simp: alloc_post_def)
  have sz: "(PMM_FRAME_SIZE * 256 :: size_t) = 0x100000" by (simp add: PMM_FRAME_SIZE_def)
  have res: "p = p1" "kheap_start kh = PHYS_TO_VIRT phys" "m = kheap_format kh 0x100000 (kn_heap s)"
    using k a q sz by (auto simp: kheap_init_def Let_def)
  have start: "unat (kheap_start kh) = 0xC0000000 + 4096 * f"
    using f(1,2) res(2) unat_PHYS_TO_VIRT [of phys] by (simp add: LOWMEM_FRAMES_def)
  have hi: "heap_inv kh [Blk (unat (kheap_start kh)) 0x100000 False] [of_nat (unat (kheap_start kh) + 8)] m" and pi: "pmm_inv p"
    using spec \<open>r = Inr ()\<close> by simp_all
  have "heap_range kh" "unat (kheap_end kh) = unat (kheap_start kh) + 0x100000"
    using hi by (auto simp: heap_inv_def heap_blocks_def)
  then have "heap_run kh [] m" unfolding res(3) by (rule run_init)
  moreover have "kn_kheap_init s = (Inr (), s\<lparr>kn_mm := (kn_mm s)\<lparr>xm_pmm := p\<rparr>, kn_kheap := kh, kn_heap := m\<rparr>)"
    using k \<open>r = Inr ()\<close> by (simp add: kn_kheap_init_def kzoom_def)
  ultimately show thesis using that f(2,3) res(1) start pi by blast
qed

subsection \<open>All three managers\<close>

text \<open>What the linker guarantees: the image lies in the direct map, its sections are page aligned and inside it.\<close>

definition image_ok :: "kimage \<Rightarrow> bool" where
  "image_ok I \<longleftrightarrow> 0xC0000000 \<le> unat (ki_kernel_start I) \<and> unat (ki_kernel_start I) \<le> unat (ki_kernel_end I)
     \<and> section_ok (ki_text_start I) (ki_text_end I) \<and> section_ok (ki_rodata_start I) (ki_rodata_end I)"

text \<open>A static structure of eight bytes, such as the head of the free list of the heap.\<close>

definition in_image :: "kimage \<Rightarrow> vaddr \<Rightarrow> bool" where
  "in_image I h \<longleftrightarrow> unat (ki_kernel_start I) \<le> unat h \<and> unat h + 8 \<le> unat (ki_kernel_end I) \<and> unat h mod 4 = 0"

abbreviation boot_free :: "kimage \<Rightarrow> boot_mem_map_entry list \<Rightarrow> nat \<Rightarrow> bool" where
  "boot_free I es \<equiv> init_free es (kphys (ki_kernel_start I)) (kphys (ki_kernel_end I)) (unat (pmm_init_total es))"

lemma in_image_static:
  assumes I: "image_ok I" and h: "in_image I h" and free: "\<And>f. frame_free p f \<Longrightarrow> boot_free I es f"
  shows "kernel_static p h"
proof -
  have ge: "0xC0000000 \<le> unat h" using I h by (simp add: image_ok_def in_image_def)
  have no: "\<not> frame_free p ((unat h + d - 0xC0000000) div 4096)" if "d < 8" for d
  proof
    let ?x = "unat h + d - 0xC0000000"
    assume "frame_free p (?x div 4096)"
    then have "boot_free I es (?x div 4096)" by (rule free)
    then have "\<not> (kphys (ki_kernel_start I) div 4096 \<le> ?x div 4096 \<and> 4096 * (?x div 4096) < kphys (ki_kernel_end I))"
      by (simp add: init_free_def)
    moreover have "kphys (ki_kernel_start I) div 4096 \<le> ?x div 4096"
      unfolding kphys_def by (intro div_le_mono diff_le_mono) (use h in \<open>simp add: in_image_def\<close>)
    moreover have "?x < kphys (ki_kernel_end I)" using h ge that unfolding kphys_def in_image_def by linarith
    then have "4096 * (?x div 4096) < kphys (ki_kernel_end I)" using le_less_trans [OF times_div_less_eq_dividend] by blast
    ultimately show False by blast
  qed
  have "unat h + 8 \<le> 2 ^ 32" using h unat32_lt_pow [of "ki_kernel_end I"] unfolding in_image_def by linarith
  then show ?thesis using ge h no [of 0] no [of 4] by (simp add: kernel_static_def in_image_def)
qed

text \<open>The frame bitmap covers the whole memory map and lies in the first 4 MiB, off the hole between 640 KiB and 1 MiB.\<close>

definition boot_bitmap :: "kimage \<Rightarrow> boot_mem_map_entry list \<Rightarrow> bool" where
  "boot_bitmap I es \<longleftrightarrow> unat (pmm_init_max_addr es) \<le> 4096 * unat (pmm_init_total es)
     \<and> kphys (ki_kernel_end I) + 4 * ((unat (pmm_init_total es) + 31) div 32) \<le> 0x400000
     \<and> (kphys (ki_kernel_end I) + 4 * ((unat (pmm_init_total es) + 31) div 32) \<le> 0xA0000 \<or> 0x100000 \<le> kphys (ki_kernel_start I))"

lemma card_le_mono: "n \<le> card A \<Longrightarrow> A \<subseteq> B \<Longrightarrow> finite B \<Longrightarrow> n \<le> card B"
  by (meson card_mono le_trans)

lemma first_frames_low:
  assumes "257 \<le> card {f. f < c \<and> P f}" and "c \<le> n"
  shows "list_all (\<lambda>f. f < c) (take 257 (filter P [0..<n]))"
proof -
  have "[0..<n] = [0..<c] @ [c..<n]" using assms(2) by (metis le_iff_add upt_add_eq_append zero_le)
  moreover have "length (filter P [0..<c]) = card {f. f < c \<and> P f}"
    by (simp add: distinct_length_filter) (metis (no_types) Collect_conj_eq Int_commute lessThan_def atLeast0LessThan)
  ultimately have "take 257 (filter P [0..<n]) = take 257 (filter P [0..<c])" using assms(1) by simp
  then show ?thesis by (auto simp: list_all_iff dest!: in_set_takeD)
qed

lemma pmm_init_at_boot:
  assumes I: "image_ok I" and es: "es \<noteq> []" "boot_bitmap I es"
  obtains p where "mm_pmm_init I es s = (Inr (), s\<lparr>kn_mm := (kn_mm s)\<lparr>xm_pmm := p\<rparr>\<rparr>)" and "pmm_inv p"
    and "\<forall>k. frame_free p k \<longleftrightarrow> boot_free I es k" and "unat (pmm_total_frames p) = unat (pmm_init_total es)"
proof -
  have ik: "0xC0000000 \<le> unat (ki_kernel_start I)" "unat (ki_kernel_start I) \<le> unat (ki_kernel_end I)"
    using I by (simp_all add: image_ok_def)
  have "4 * ((unat (pmm_init_total es) + 31) div 32) \<le> 0x400000" using es(2) by (simp add: boot_bitmap_def)
  then have "unat (pmm_init_total es) + 7 < 2 ^ 32" by simp
  from pmm_init_spec [OF es(1) ik this] obtain p where
    "pmm_init (ki_kernel_start I) (ki_kernel_end I) (ki_behind I) (Some es) (xm_pmm (kn_mm s)) = (Inr (), p)"
    "pmm_inv p" "\<forall>k. frame_free p k \<longleftrightarrow> boot_free I es k" "unat (pmm_total_frames p) = unat (pmm_init_total es)" by metis
  then show ?thesis using that by (simp add: mm_pmm_init_def kn_pmm_def kzoom_def)
qed

lemma boot_reach_ok:
  assumes I: "image_ok I" and es: "boot_bitmap I es" and low: "257 \<le> card {f. f < min a 1024 \<and> boot_free I es f}"
    and p: "\<forall>k. frame_free p k \<longleftrightarrow> boot_free I es k" "unat (pmm_total_frames p) = unat (pmm_init_total es)"
  shows "boot_reach I es p"
proof -
  have "{f. f < min a 1024 \<and> boot_free I es f} \<subseteq> {f. f < 1024 \<and> frame_free p f}" using p(1) by auto
  with low have "257 \<le> card {f. f < 1024 \<and> frame_free p f}" by (rule card_le_mono) simp
  moreover have "bitmap_end I p \<le> 0xC0400000" using I es unfolding bitmap_end_def boot_bitmap_def kphys_def image_ok_def p(2) by linarith
  moreover have "bitmap_end I p \<le> 0xC00A0000 \<or> 0xC0100000 \<le> unat (ki_kernel_start I)"
    using I es unfolding bitmap_end_def boot_bitmap_def kphys_def image_ok_def p(2) by linarith
  ultimately show ?thesis
    using es p(2) first_frames_low [of 1024 "frame_free p" LOWMEM_FRAMES] by (simp add: boot_reach_def boot_bitmap_def LOWMEM_FRAMES_def)
qed

text \<open>When the lowest frames are taken, a run of free frames above enough of them stays.\<close>

lemma lows_taken_above:
  assumes S: "finite S" and k: "lows_taken k S T" and x: "x \<in> S" and c: "k \<le> card {y \<in> S. y < x}"
  shows "x \<in> T"
proof (rule ccontr)
  assume "x \<notin> T"
  then have "insert x {y \<in> S. y < x} \<subseteq> S - T" using k x by (auto simp: lows_taken_def dest: order.asym)
  then have "card (insert x {y \<in> S. y < x}) \<le> card (S - T)" using S by (intro card_mono) simp_all
  then have "card (insert x {y \<in> S. y < x}) \<le> k" using k by (simp add: lows_taken_def)
  then show False using c S by simp
qed

lemma mm_init_spec:
  assumes I: "image_ok I" "in_image I (kheap_free_list (kn_kheap s))" and es: "es \<noteq> []" "boot_bitmap I es"
    and low: "257 \<le> card {f. f < min a 1024 \<and> boot_free I es f}"
    and run: "\<forall>j<256. boot_free I es (a + j)" "a + 256 \<le> LOWMEM_FRAMES" and stk: "bm_nbits (kernel_stack_bm s) = 64"
  shows "\<exists>s' F f. mm_init I es s = Some (Inr (), s') \<and> kern_inv s' F \<and> stacks_ok s'
     \<and> xm_cr3 (kn_mm s') = ucast (pd_phys (kernel_vm s'))
     \<and> (\<forall>p. unat p < 0x30000000 \<longrightarrow> fst (vm_kern_translate (PHYS_TO_VIRT p) True s') = Inr p)
     \<and> (\<forall>v. (unat (ki_text_start I) \<le> unat v \<and> unat v < unat (ki_text_end I))
            \<or> (unat (ki_rodata_start I) \<le> unat v \<and> unat v < unat (ki_rodata_end I)) \<longrightarrow> \<not> writable (kn_mm s') F v)
     \<and> heap_run (kn_kheap s') [] (kn_heap s') \<and> unat (kheap_start (kn_kheap s')) = 0xC0000000 + 4096 * f
     \<and> (\<forall>g. f \<le> g \<and> g < f + 256 \<longrightarrow> boot_free I es g \<and> g \<notin> space_frames (kn_mm s') F \<and> \<not> frame_free (xm_pmm (kn_mm s')) g)
     \<and> (\<forall>g. frame_free (xm_pmm (kn_mm s')) g \<longrightarrow> boot_free I es g)
     \<and> pid_bm s' = pid_bm s"
proof -
  let ?t = "unat (pmm_init_total es)"
  have ik: "0xC0000000 \<le> unat (ki_kernel_start I)" "unat (ki_kernel_start I) \<le> unat (ki_kernel_end I)"
    "section_ok (ki_text_start I) (ki_text_end I)" "section_ok (ki_rodata_start I) (ki_rodata_end I)"
    using I(1) by (simp_all add: image_ok_def)
  obtain p0 where p0: "mm_pmm_init I es s = (Inr (), s\<lparr>kn_mm := (kn_mm s)\<lparr>xm_pmm := p0\<rparr>\<rparr>)" "pmm_inv p0"
    "\<forall>k. frame_free p0 k \<longleftrightarrow> boot_free I es k" "unat (pmm_total_frames p0) = ?t"
    by (rule pmm_init_at_boot [OF I(1) es])
  have reach: "boot_reach I es p0" by (rule boot_reach_ok [OF I(1) es(2) low p0(3,4)])
  define s0 where "s0 = s\<lparr>kn_mm := (kn_mm s)\<lparr>xm_pmm := p0\<rparr>\<rparr>"
  have "{f. f < min a 1024 \<and> boot_free I es f} \<subseteq> lowmem_free (kn_mm s0)" by (auto simp: lowmem_free_def s0_def p0(3) LOWMEM_FRAMES_def)
  with low have "257 \<le> card (lowmem_free (kn_mm s0))" by (rule card_le_mono) simp
  from vm_kern_init_spec [OF _ this ik(3,4)] p0(2) obtain vm m F where
    vm: "vm_kern_init (ki_text_start I) (ki_text_end I) (ki_rodata_start I) (ki_rodata_end I) s0 = (Inr (), s0\<lparr>kernel_vm := vm, kn_mm := m\<rparr>)"
      "table_at (pd_phys vm) F" "vm_inv m F" "kernel_tables m F" "low_frames_taken 257 (kn_mm s0) m" "xm_cr3 m = ucast (pd_phys vm)"
      "\<forall>p. unat p < 0x30000000 \<longrightarrow> translates vm m (PHYS_TO_VIRT p) = Inr p" "\<forall>a. 0xF0000000 \<le> unat a \<longrightarrow> translates vm m a = Inl KERR_NOENT"
      "\<forall>v. (unat (ki_text_start I) \<le> unat v \<and> unat v < unat (ki_text_end I))
            \<or> (unat (ki_rodata_start I) \<le> unat v \<and> unat v < unat (ki_rodata_end I)) \<longrightarrow> \<not> writable m F v"
    by (auto simp: s0_def)
  define s1 where "s1 = s0\<lparr>kernel_vm := vm, kn_mm := m\<rparr>"
  have free: "boot_free I es g" if "frame_free (xm_pmm m) g" for g
    using vm(5) that by (simp add: low_frames_taken_def s0_def p0(3))
  have left: "frame_free (xm_pmm m) (a + j)" if "j < 256" for j
  proof -
    have x: "a + j \<in> lowmem_free (kn_mm s0)" using run that by (simp add: lowmem_free_def s0_def p0(3))
    have "{f. f < min a 1024 \<and> boot_free I es f} \<subseteq> {y \<in> lowmem_free (kn_mm s0). y < a + j}"
      by (auto simp: lowmem_free_def s0_def p0(3) LOWMEM_FRAMES_def)
    with low have "257 \<le> card {y \<in> lowmem_free (kn_mm s0). y < a + j}" by (rule card_le_mono) simp
    moreover have "lows_taken 257 (lowmem_free (kn_mm s0)) (lowmem_free m)" using vm(5) by (simp add: low_frames_taken_def)
    ultimately have "a + j \<in> lowmem_free m" using lows_taken_above [OF finite_lowmem_free _ x] by blast
    then show ?thesis by (simp add: lowmem_free_def)
  qed
  have st: "kernel_static (xm_pmm m) (kheap_free_list (kn_kheap s1))"
    by (rule in_image_static [OF I(1) _ free]) (simp_all add: s1_def s0_def I(2))
  obtain p kh h f where k: "kn_kheap_init s1 = (Inr (), s1\<lparr>kn_mm := (kn_mm s1)\<lparr>xm_pmm := p\<rparr>, kn_kheap := kh, kn_heap := h\<rparr>)"
    "pmm_inv p" "frames_taken (xm_pmm m) f 256 p" "unat (kheap_start kh) = 0xC0000000 + 4096 * f" "heap_run kh [] h"
    by (rule kn_kheap_init_run [of s1 a]) (use vm_invD(1) [OF vm(3)] st left run(2) in \<open>simp_all add: s1_def\<close>)
  let ?m = "m\<lparr>xm_pmm := p\<rparr>"
  let ?s = "s1\<lparr>kn_mm := ?m, kn_kheap := kh, kn_heap := h\<rparr>"
  have ran: "mm_init I es s = Some (Inr (), ?s)"
    using p0(1) reach vm(1) k(1) by (simp add: mm_init_def kerr_try_def vmm_init_def s0_def s1_def)
  have sf: "\<not> frame_free (xm_pmm m) g" if "g \<in> space_frames m F" for g
    using space_frames_owned [OF vm(3) that] by (simp add: owned_def)
  have fm: "frame_managed p = frame_managed (xm_pmm m)" using k(3) by (auto simp: frames_taken_def frame_managed_def)
  have inv: "vm_inv ?m F"
    by (rule vm_inv_pmm_update [OF vm(3) k(2) fm]) (use sf k(3) in \<open>auto simp: frames_taken_def\<close>)
  have ki: "kern_inv ?s F" using vm(2,4) inv by (simp add: kern_inv_def s1_def pmm_update_same)
  have so: "stacks_ok ?s"
    using vm(8) stk by (auto simp: stacks_ok_def s1_def s0_def pmm_update_same stack_bytes_def)
  have tr: "fst (vm_kern_translate (PHYS_TO_VIRT q) True ?s) = Inr q" if "unat q < 0x30000000" for q
    using that vm(7) unat_PHYS_TO_VIRT [of q] by (simp add: kern_translate s1_def pmm_update_same)
  have hp: "boot_free I es g \<and> g \<notin> space_frames ?m F \<and> \<not> frame_free p g" if "f \<le> g \<and> g < f + 256" for g
  proof -
    have "frame_free (xm_pmm m) g" "\<not> frame_free p g" using k(3) that by (auto simp: frames_taken_def)
    moreover have "space_frames ?m F = space_frames m F" by (simp add: space_frames_def tables_def pmm_update_same)
    ultimately show ?thesis using free sf by blast
  qed
  have fr: "boot_free I es g" if "frame_free p g" for g using free k(3) that by (simp add: frames_taken_def)
  have wr: "writable ?m F v = writable m F v" for v by (simp add: writable_def pmm_update_same)
  show ?thesis
    using ran ki so tr vm(6,9) wr k(4,5) hp fr by (intro exI [of _ ?s] exI [of _ F] exI [of _ f]) (simp add: s1_def s0_def)
qed

text \<open>
  C27. Starting the memory managers succeeds, without a page fault, when the frame bitmap behind the image and the 257 lowest
  usable frames (one for the kernel's page directory and 256 for its page tables) lie in the first 4 MiB, which is all that is mapped
  before the kernel's page tables are loaded, the bitmap is not in the hole between 640 KiB and 1 MiB, and the memory map has 256 usable frames in a row for the heap, above them and below
  768 MiB. Then the kernel runs on page tables that are well-formed and complete for its half, with the direct map in place,
  its code and read-only data write protected and the space of all kernel stacks unmapped; the heap is the result
  of an empty run; the heap lies in frames that the memory map offers, that no part of the image and none of the
  page tables occupies, and that are no longer free; and only frames that the memory map offers are free.
\<close>

theorem mm_init_correct:
  assumes I: "image_ok I" "in_image I (kheap_free_list (kn_kheap s))" and es: "es \<noteq> []" "boot_bitmap I es"
    and low: "257 \<le> card {f. f < min a 1024 \<and> boot_free I es f}"
    and run: "\<forall>j<256. boot_free I es (a + j)" "a + 256 \<le> LOWMEM_FRAMES" and stk: "bm_nbits (kernel_stack_bm s) = 64"
  shows "\<exists>s' F f. mm_init I es s = Some (Inr (), s') \<and> kern_inv s' F \<and> stacks_ok s'
     \<and> xm_cr3 (kn_mm s') = ucast (pd_phys (kernel_vm s'))
     \<and> (\<forall>p. unat p < 0x30000000 \<longrightarrow> fst (vm_kern_translate (PHYS_TO_VIRT p) True s') = Inr p)
     \<and> (\<forall>v. (unat (ki_text_start I) \<le> unat v \<and> unat v < unat (ki_text_end I))
            \<or> (unat (ki_rodata_start I) \<le> unat v \<and> unat v < unat (ki_rodata_end I)) \<longrightarrow> \<not> writable (kn_mm s') F v)
     \<and> heap_run (kn_kheap s') [] (kn_heap s') \<and> unat (kheap_start (kn_kheap s')) = 0xC0000000 + 4096 * f
     \<and> (\<forall>g. f \<le> g \<and> g < f + 256 \<longrightarrow> boot_free I es g \<and> g \<notin> space_frames (kn_mm s') F \<and> \<not> frame_free (xm_pmm (kn_mm s')) g)
     \<and> (\<forall>g. frame_free (xm_pmm (kn_mm s')) g \<longrightarrow> boot_free I es g)"
  using mm_init_spec [OF assms] by blast

text \<open>With a bitmap that leaves the first 4 MiB, the first access behind them is a page fault.\<close>

lemma mm_init_faults:
  assumes I: "image_ok I" and es: "es \<noteq> []" "unat (pmm_init_total es) + 7 < 2 ^ 32"
    and big: "0x400000 < kphys (ki_kernel_end I) + 4 * ((unat (pmm_init_total es) + 31) div 32)"
  shows "mm_init I es s = None"
proof -
  have ik: "0xC0000000 \<le> unat (ki_kernel_start I)" "unat (ki_kernel_start I) \<le> unat (ki_kernel_end I)"
    using I by (simp_all add: image_ok_def)
  from pmm_init_spec [OF es(1) ik es(2)] obtain p where
    "pmm_init (ki_kernel_start I) (ki_kernel_end I) (ki_behind I) (Some es) (xm_pmm (kn_mm s)) = (Inr (), p)"
    "unat (pmm_total_frames p) = unat (pmm_init_total es)" by metis
  moreover from this(2) have "\<not> bitmap_end I p \<le> 0xC0400000" using big ik by (simp add: bitmap_end_def kphys_def)
  ultimately show ?thesis by (simp add: mm_init_def mm_pmm_init_def kn_pmm_def kzoom_def boot_reach_def)
qed

subsection \<open>A sample machine\<close>

text \<open>Usable memory from one to sixteen megabytes (\<open>map_sample\<close>), and a kernel image of 256 KiB at its start.\<close>

definition image_sample :: kimage where
  "image_sample = \<lparr>ki_kernel_start = 0xC0100000, ki_kernel_end = 0xC0140000, ki_text_start = 0xC0102000, ki_text_end = 0xC0110000,
     ki_rodata_start = 0xC0120000, ki_rodata_end = 0xC0124000, ki_behind = (\<lambda>_. 0), ki_gdt = 0xC0130000, ki_tss = 0xC0130100,
     ki_idt = 0xC0130800, ki_isr_stub_table = replicate 256 0xC0101000, ki_i8259_chip = 0xC0131100, ki_i8259_map = 0xC0131200,
     ki_i8259_name = 0xC0120100, ki_platform_bus = 0xC0131300, ki_vga_device = 0xC0131400, ki_i8254_0_device = 0xC0131500,
     ki_vga_text_driver = 0xC0131600, ki_i8254_driver = 0xC0131700, ki_vga_text_probe = 0xC0103000, ki_i8254_probe = 0xC0104000,
     ki_i8254_irq_handler = 0xC0105000, ki_vga_text_name = 0xC0120200, ki_i8254_name = 0xC0120300, ki_system_name = 0xC0120400,
     ki_alloc_name = 0xC0120500, ki_free_name = 0xC0120600,
     ki_initcall_devdrv = [\<lparr>ic_name = 0xC0120700, ic_fn = Vga_text_driver_init\<rparr>, \<lparr>ic_name = 0xC0120720, ic_fn = I8254_driver_init\<rparr>,
       \<lparr>ic_name = 0xC0120740, ic_fn = Vga_device_init\<rparr>, \<lparr>ic_name = 0xC0120760, ic_fn = I8254_device_init\<rparr>]\<rparr>"

definition boot_kern_sample :: kern where
  "boot_kern_sample = kern_sample\<lparr>kn_kheap := \<lparr>kheap_free_list = 0xC0132000, kheap_start = 0, kheap_end = 0\<rparr>, kn_heap := (\<lambda>_. 0)\<rparr>"

lemma image_sample_ok: "image_ok image_sample" "in_image image_sample (kheap_free_list (kn_kheap boot_kern_sample))"
  by (simp_all add: image_ok_def in_image_def image_sample_def section_ok_def boot_kern_sample_def)

lemma map_sample_total: "pmm_init_total map_sample = 4096"
  by (simp add: pmm_init_total_def pmm_init_max_addr_def map_sample_def BOOT_TYPE_USABLE_def ALIGN_UP_def PMM_FRAME_SIZE_def)

lemma map_sample_free:
  assumes "400 \<le> k" and "k < 4096"
  shows "boot_free image_sample map_sample k"
proof -
  have "unat (of_nat k :: u32) = k" using assms(2) by (simp add: unat_of_nat_small)
  then have "in_usable map_sample (of_nat k)" using assms
    by (simp add: in_usable_def map_sample_def usable_def BOOT_TYPE_USABLE_def entry_start_frame_def entry_end_frame_def
        ALIGN_UP_def ALIGN_DOWN_def PMM_FRAME_SIZE_def word_less_nat_alt word_le_nat_alt)
  then show ?thesis using assms
    by (simp add: init_free_def map_sample_total kphys_def image_sample_def bitmap_bytes_def)
qed

lemma boot_sample_memory:
  "boot_bitmap image_sample map_sample" "257 \<le> card {f. f < min 768 1024 \<and> boot_free image_sample map_sample f}"
  "\<forall>j<256. boot_free image_sample map_sample (768 + j)"
proof -
  show "boot_bitmap image_sample map_sample"
    by (simp add: boot_bitmap_def map_sample_total kphys_def image_sample_def pmm_init_max_addr_def)
      (simp add: map_sample_def BOOT_TYPE_USABLE_def)
  have "{511..<768} \<subseteq> {f. f < min 768 1024 \<and> boot_free image_sample map_sample f}" by (auto simp: map_sample_free)
  then have "card {511..<768::nat} \<le> card {f. f < min 768 1024 \<and> boot_free image_sample map_sample f}" by (rule card_mono [rotated]) simp
  then show "257 \<le> card {f. f < min 768 1024 \<and> boot_free image_sample map_sample f}" by simp
  show "\<forall>j<256. boot_free image_sample map_sample (768 + j)" by (simp add: map_sample_free)
qed

theorem mm_init_correct_witness:
  "\<exists>s' F. mm_init image_sample map_sample boot_kern_sample = Some (Inr (), s') \<and> kern_inv s' F \<and> stacks_ok s'
     \<and> heap_run (kn_kheap s') [] (kn_heap s') \<and> fst (vm_kern_translate (PHYS_TO_VIRT 0xB8000) True s') = Inr 0xB8000"
proof -
  have "map_sample \<noteq> []" "768 + 256 \<le> LOWMEM_FRAMES" "bm_nbits (kernel_stack_bm boot_kern_sample) = 64"
    by (simp add: map_sample_def) (simp_all add: LOWMEM_FRAMES_def boot_kern_sample_def kern_sample_def)
  then obtain s' F where "mm_init image_sample map_sample boot_kern_sample = Some (Inr (), s')" "kern_inv s' F" "stacks_ok s'"
    "heap_run (kn_kheap s') [] (kn_heap s')" "\<forall>p. unat p < 0x30000000 \<longrightarrow> fst (vm_kern_translate (PHYS_TO_VIRT p) True s') = Inr p"
    using mm_init_correct [OF image_sample_ok _ boot_sample_memory] by blast
  then show ?thesis by auto
qed

end
