(* ===== verification/Kmain_Logic.thy ===== *)
theory Kmain_Logic
  imports Kmain_Mm
begin

text \<open>
  How the actions of the kernel core end: a judgement on outcomes with a rule for every way of putting actions
  together, and what messages, panics, the interrupt controllers, the devices and the memory of
  processes leave alone.
\<close>

subsection \<open>Outcomes\<close>

definition panicked :: "kernel \<Rightarrow> bool" where
  "panicked s \<longleftrightarrow> \<not> x86_interrupts_enabled (hal_eflags s) \<and> panicking s"

text \<open>
  The action is not stuck; what it returns satisfies \<open>P\<close>, a panic has disabled interrupts, and user mode is
  entered as \<open>U\<close> says.
\<close>

fun ends :: "('a \<Rightarrow> kernel \<Rightarrow> bool) \<Rightarrow> (iret_frame \<Rightarrow> kernel \<Rightarrow> bool) \<Rightarrow> 'a kresult \<Rightarrow> bool" where
  "ends P U (Kret v s) = P v s"
| "ends P U (Kpanic s) = panicked s"
| "ends P U (Kuser fr s) = U fr s"
| "ends P U Kstuck = False"

lemma ends_kthen:
  assumes "ends P U (a s)" and "\<And>v t. P v t \<Longrightarrow> ends Q U (f v t)"
  shows "ends Q U (kthen a f s)"
  using assms by (cases "a s") (simp_all add: kthen_def)

lemma ends_mono: "ends P U r \<Longrightarrow> (\<And>v t. P v t \<Longrightarrow> Q v t) \<Longrightarrow> ends Q U r"
  by (cases r) simp_all

lemma ends_kdo: "P () (f s) \<Longrightarrow> ends P U (kdo f s)"
  by (simp add: kdo_def)

lemma ends_kcall: "(\<And>r t. f s = (r, t) \<Longrightarrow> P r t) \<Longrightarrow> ends P U (kcall f s)"
  by (simp add: kcall_def split: prod.split)

lemma ends_kfor:
  assumes "P s" and "\<And>x t. x \<in> set xs \<Longrightarrow> P t \<Longrightarrow> ends (\<lambda>_. P) U (body x t)"
  shows "ends (\<lambda>_. P) U (kfor xs body s)"
  using assms
proof (induction xs arbitrary: s)
  case (Cons x xs)
  have "ends (\<lambda>_. P) U (kthen (body x) (\<lambda>_. kfor xs body) s)"
    by (rule ends_kthen [where P = "\<lambda>_. P"]) (use Cons in auto)
  then show ?case by simp
qed simp

subsection \<open>Messages\<close>

text \<open>What no message changes.\<close>

definition kview :: "kernel \<Rightarrow> psys \<times> boot_state \<times> bool \<times> u32 \<times> x86_tss" where
  "kview s = (psys_of s, kernel_boot_state s, panicking s, hal_eflags s, k_tss s)"

lemma kviewD:
  assumes "kview t = kview s"
  shows "psys_of t = psys_of s" "kernel_boot_state t = kernel_boot_state s" "panicking t = panicking s" "hal_eflags t = hal_eflags s"
    "k_tss t = k_tss s"
  using assms by (simp_all add: kview_def)

lemma kview_vga [simp]:
  "kview (set_con con f s) = kview s" "kview (vga_store con i v s) = kview s" "kview (vga_out con off w s) = kview s"
  by (simp_all add: kview_def psys_of_def set_con_def vga_store_def vga_out_def hal_port_write8_def x86_outb_def x86_out_def)

lemma kview_for: "(\<And>i t. kview (f i t) = kview t) \<Longrightarrow> kview (for_u32 a b f s) = kview s"
proof -
  assume f: "\<And>i t. kview (f i t) = kview t"
  have "kview (fold f xs s) = kview s" for xs by (induction xs arbitrary: s) (simp_all add: f)
  then show ?thesis by (simp add: for_u32_def)
qed

lemma kview_write_char [simp]: "kview (vga_write_char con c s) = kview s"
proof -
  have "kview (vga_put con c t) = kview t" for t by (simp add: vga_put_def Let_def)
  moreover have "kview (vga_scroll con t) = kview t" for t
    by (simp add: vga_scroll_def Let_def kview_for)
  ultimately show ?thesis by (simp add: vga_write_char_def Let_def)
qed

lemma kview_console_write: "kview (snd (console_write (console_code K) buf len s)) = kview s"
  by (simp add: console_write_def console_code_def vga_text_ops_def vga_text_console_write_def vga_text_update_cursor_def Let_def kview_for
      split: option.split)

text \<open>The number of arguments that a format takes.\<close>

fun fmt_args :: "string \<Rightarrow> nat" where
  "fmt_args (c # d # fmt) =
     (if c \<noteq> CHR ''%'' then fmt_args (d # fmt)
      else if d \<in> set ''csdiuxXop'' then Suc (fmt_args fmt) else fmt_args fmt)"
| "fmt_args _ = 0"

lemma fmt_args_Cons [simp]: "c \<noteq> CHR ''%'' \<Longrightarrow> fmt_args (c # fmt) = fmt_args fmt"
  by (cases fmt) simp_all

lemma fmt_text_enough: "fmt_args fmt \<le> length args \<Longrightarrow> fmt_text str_at fmt args \<noteq> None"
proof (induction str_at fmt args rule: fmt_text.induct)
  case (3 str_at c d fmt args)
  consider "c \<noteq> CHR ''%''" | "c = CHR ''%''" "d \<in> set ''csdiuxXop''" | "c = CHR ''%''" "d \<notin> set ''csdiuxXop''" by blast
  then show ?case
  proof cases
    case 2
    then have "d \<noteq> CHR ''%''" by auto
    then show ?thesis using 2 3 by (cases args) auto
  next
    case third: 3
    then show ?thesis using 3(2,3,5) by (cases "d = CHR ''%''") auto
  qed (use 3 in simp)
qed simp_all

lemma ends_kprintk:
  assumes "fmt_args fmt \<le> length args"
  shows "ends (\<lambda>_ t. kview t = kview s) U (kprintk K fmt args s)"
proof -
  obtain n text' where "vsnprintf (ke_str_at K) (ke_buf K s) 1024 fmt args = Some (n, text')"
    using fmt_text_enough [OF assms, of "ke_str_at K"] by (auto simp: vsnprintf_def format_loop_eq)
  moreover have "kview (s\<lparr>sys_log := l\<rparr>) = kview s" for l by (simp add: kview_def psys_of_def)
  ultimately show ?thesis
    by (simp add: kprintk_def printk_def vprintk_def Let_def kview_console_write)
qed

lemma ends_pr:
  assumes "fmt_args fmt \<le> length args"
  shows "ends (\<lambda>_ t. kview t = kview s) U (pr_fatal K fmt args s)" "ends (\<lambda>_ t. kview t = kview s) U (pr_err K fmt args s)"
    "ends (\<lambda>_ t. kview t = kview s) U (pr_debug K fmt args s)"
  unfolding pr_fatal_def pr_err_def pr_debug_def
  by (intro ends_kprintk; use assms in \<open>simp add: PRINTK_FATAL_def PRINTK_ERR_def PRINTK_DEBUG_def\<close>)+

subsection \<open>Panics\<close>

lemma cli_disables: "\<not> x86_interrupts_enabled (x86_cli f)"
  by (simp add: IF_bit x86_cli_def X86_FLAGS_IF_MASK_def MASK_CLEAR_def bit_and_iff bit_not_iff bit_BIT)

lemma ends_panic:
  assumes "fmt_args fmt \<le> length args"
  shows "ends P U (panic K fmt args s)"
proof -
  let ?off = "\<lambda>t. \<not> x86_interrupts_enabled (hal_eflags t)"
  have off: "ends (\<lambda>_ t. ?off t) U (kdo (\<lambda>s. s\<lparr>hal_eflags := x86_cli (hal_eflags s)\<rparr>) s)"
    by (rule ends_kdo) (simp add: cli_disables)
  have say: "ends (\<lambda>_. panicked) U (kprintk K fmt' args' t)" if "panicked t" "fmt_args fmt' \<le> length args'" for fmt' args' t
    by (rule ends_mono [OF ends_kprintk [OF that(2)]]) (use that(1) in \<open>simp add: panicked_def kview_def\<close>)
  have fatal: "ends (\<lambda>_. panicked) U (pr_fatal K fmt' [] t)" if "panicked t" "fmt_args fmt' = 0" for fmt' t
    unfolding pr_fatal_def by (rule say [OF that(1)]) (simp add: PRINTK_FATAL_def that(2))
  have body: "ends (\<lambda>_. panicked) U ((if panicking t then Kret () t
      else kthen (kdo (\<lambda>s. s\<lparr>panicking := True\<rparr>))
             (\<lambda>_. kthen (pr_fatal K (nl @ nl @ ''--- KERNEL PANIC ---'' @ nl) [])
             (\<lambda>_. kthen (kprintk K fmt args) (\<lambda>_. kprintk K nl []))) t))" if "?off t" for t
  proof (cases "panicking t")
    case False
    have on: "panicked (t\<lparr>panicking := True\<rparr>)" by (simp add: panicked_def that)
    have "ends (\<lambda>_. panicked) U (kthen (kdo (\<lambda>s. s\<lparr>panicking := True\<rparr>))
        (\<lambda>_. kthen (pr_fatal K (nl @ nl @ ''--- KERNEL PANIC ---'' @ nl) []) (\<lambda>_. kthen (kprintk K fmt args) (\<lambda>_. kprintk K nl []))) t)"
      by (intro ends_kthen [where P = "\<lambda>_. panicked"] ends_kdo fatal say) (simp_all add: on assms)
    then show ?thesis using False by simp
  qed (simp add: panicked_def that)
  show ?thesis unfolding panic_def vpanic_def
    by (rule ends_kthen [where P = "\<lambda>_. ?off"], rule off, rule ends_kthen [where P = "\<lambda>_. panicked"], erule body,
        rule ends_kthen [where P = "\<lambda>_. panicked"], erule fatal) simp_all
qed

lemma ends_or_panic:
  assumes "\<And>v t. f s = (Inr v, t) \<Longrightarrow> P v t" and "fmt_args msg = 0"
  shows "ends P U (or_panic K msg f s)"
  unfolding or_panic_def
  by (rule ends_kthen [where P = "\<lambda>r t. f s = (r, t)"], rule ends_kcall) (auto split: sum.split intro: ends_panic simp: assms)

subsection \<open>Boot information\<close>

lemma ends_boot_init:
  assumes "boot_readable (k_ram s) p"
  shows "ends (\<lambda>_ t. kview t = kview (s\<lparr>kernel_boot_state := boot_state_at (k_ram s) p\<rparr>)) U (boot_init K p s)"
proof -
  let ?b = "boot_state_at (k_ram s) p"
  let ?s = "s\<lparr>kernel_boot_state := ?b\<rparr>"
  let ?P = "\<lambda>_ t. kview t = kview ?s"
  have pr: "ends ?P U (pr_debug K fmt args t)" if "kview t = kview ?s" "fmt_args fmt \<le> length args" for fmt args t
    using ends_pr(3) [OF that(2), of t U K] that(1) by simp
  have "ends ?P U (boot_print K ?b ?s)"
    unfolding boot_print_def
    by (rule ends_kthen [where P = ?P], rule pr, simp, simp, rule ends_kthen [where P = ?P], rule ends_kfor, assumption)
      (auto intro!: ends_kthen [where P = ?P] pr simp: boot_print_entry_def)
  then show ?thesis using assms by (simp add: boot_init_def Let_def)
qed

subsection \<open>The heap and the rest of the memory\<close>

definition heap_ok :: "kern \<Rightarrow> bool" where
  "heap_ok k \<longleftrightarrow> (\<exists>live. heap_run (kn_kheap k) live (kn_heap k))"

lemma kn_kmalloc_ok:
  assumes "heap_ok k" and "kn_kmalloc sz k = (p, k')" and "0 < unat sz" and "unat sz \<le> 0xFFFFFFE8"
  shows "heap_ok k'" and "pid_bm k' = pid_bm k" and "\<not> KERR_PTR_IS_ERR p \<Longrightarrow> heap_ok (kn_kfree p k')"
proof -
  obtain live where l: "heap_run (kn_kheap k) live (kn_heap k)" using assms(1) by (auto simp: heap_ok_def)
  note r = kn_kmalloc_run [OF l assms(2-4)]
  obtain m where m: "k' = k\<lparr>kn_heap := m\<rparr>" using r(1) by blast
  show "heap_ok k'" using r(2,3) by (cases "KERR_PTR_IS_ERR p") (auto simp: heap_ok_def m)
  show "pid_bm k' = pid_bm k" by (simp add: m)
  assume "\<not> KERR_PTR_IS_ERR p"
  then have "heap_run (kn_kheap k') ((p, sz) # live) (kn_heap k')" using r(3) by (simp add: m)
  from kn_kfree_run [OF this, of p sz] show "heap_ok (kn_kfree p k')" by (auto simp: heap_ok_def)
qed

lemma pid_bm_kfree [simp]: "pid_bm (kn_kfree p k) = pid_bm k"
  by (simp add: kn_kfree_def)

text \<open>What the devices leave alone: everything of the processes, and the well-formedness of the heap.\<close>

definition krest :: "kernel \<Rightarrow> bytes \<times> mem \<times> vaddr list \<times> (vaddr \<Rightarrow> process) \<times> bitmap \<times> boot_state" where
  "krest s = (k_ram s, k_stacks s, k_process_table s, k_procs s, pid_bm (ds_kern s), kernel_boot_state s)"

definition kinv :: "bytes \<times> mem \<times> vaddr list \<times> (vaddr \<Rightarrow> process) \<times> bitmap \<times> boot_state \<Rightarrow> kernel \<Rightarrow> bool" where
  "kinv c s \<longleftrightarrow> heap_ok (ds_kern s) \<and> krest s = c"

lemma kinv_update [simp]:
  "kinv c (set_device d f s) = kinv c s" "kinv c (set_bus b g s) = kinv c s" "kinv c (set_driver r h s) = kinv c s"
  "kinv c (set_con con j s) = kinv c s" "kinv c (vga_store con i v s) = kinv c s" "kinv c (vga_out con off w s) = kinv c s"
  "kinv c (s\<lparr>vga_privs := vp\<rparr>) = kinv c s" "kinv c (s\<lparr>active_con := a\<rparr>) = kinv c s" "kinv c (s\<lparr>hal_log := l\<rparr>) = kinv c s"
  "kinv c (s\<lparr>hal_eflags := e\<rparr>) = kinv c s" "kinv c (s\<lparr>timers := tm\<rparr>) = kinv c s" "kinv c (set_timer t q s) = kinv c s"
  "kinv c (s\<lparr>buses := bs\<rparr>) = kinv c s" "kinv c (s\<lparr>irq_allocated := ia\<rparr>) = kinv c s" "kinv c (s\<lparr>irq_descs := ds\<rparr>) = kinv c s"
  "kinv c (s\<lparr>irq_maps := im\<rparr>) = kinv c s" "kinv c (s\<lparr>timer_devices := td, timer_selected := ts\<rparr>) = kinv c s"
  by (simp_all add: kinv_def krest_def set_device_def set_bus_def set_driver_def set_con_def vga_store_def vga_out_def set_timer_def hal_simps)

lemma kinv_kern: "kinv c (s\<lparr>ds_kern := k\<rparr>) \<longleftrightarrow> heap_ok k \<and> krest (s\<lparr>ds_kern := k\<rparr>) = c"
  by (simp add: kinv_def)

lemma kinv_kview: "kview t = kview s \<Longrightarrow> kinv c t = kinv c s"
  by (auto simp: kview_def kinv_def krest_def psys_of_def)

subsection \<open>Registering devices and drivers\<close>

text \<open>An invariant of the whole system that probe functions keep is kept by every registration.\<close>

locale bus_invariant =
  fixes P :: "'a dev_sys_scheme \<Rightarrow> bool" and probes :: "vaddr \<Rightarrow> vaddr \<Rightarrow> ('a dev_sys_scheme, unit) kfun"
  assumes P_device: "P s \<Longrightarrow> P (set_device d f s)"
    and P_bus: "P s \<Longrightarrow> P (set_bus b g s)"
    and P_driver: "P s \<Longrightarrow> P (set_driver r h s)"
    and P_probe: "P s \<Longrightarrow> P (snd (probes a d s))"
begin

lemma P_platform_probe: "P s \<Longrightarrow> P (snd (platform_probe probes d r s))"
  by (simp add: platform_probe_def P_probe)

lemma P_probe_result:
  assumes "P s" and "platform_probe probes d r s = (q, t)"
  shows "P t"
  using P_platform_probe [OF assms(1), of d r] assms(2) by simp

lemma P_try_drivers: "P s \<Longrightarrow> P (bus_try_drivers (platform_bus probes) b d rs s)"
proof (induction rs arbitrary: s)
  case (Cons r rs)
  then show ?case
    by (auto simp: platform_bus_def P_device split: prod.split sum.split dest: P_probe_result)
qed simp

lemma P_try_devices: "P s \<Longrightarrow> P (bus_try_devices (platform_bus probes) b r ds s)"
proof (induction ds arbitrary: s)
  case (Cons d ds)
  then show ?case
    by (auto simp: platform_bus_def P_device split: prod.split sum.split dest: P_probe_result)
qed simp

lemma P_register_device: "P s \<Longrightarrow> P (snd (platform_device_register (platform_bus probes) pb d s))"
  by (simp add: platform_device_register_def device_register_def bus_add_device_def Let_def P_device P_bus P_try_drivers)

lemma P_register_driver: "P s \<Longrightarrow> P (snd (platform_driver_register (platform_bus probes) pb r s))"
  by (simp add: platform_driver_register_def driver_register_def bus_add_driver_def Let_def P_driver P_bus P_try_devices)

end

lemma kinv_for: "(\<And>i t. kinv c (f i t) = kinv c t) \<Longrightarrow> kinv c (for_u32 a b f s) = kinv c s"
proof -
  assume f: "\<And>i t. kinv c (f i t) = kinv c t"
  have "kinv c (fold f xs s) = kinv c s" for xs by (induction xs arbitrary: s) (simp_all add: f)
  then show ?thesis by (simp add: for_u32_def)
qed

lemma kinv_console:
  "kinv c (snd (console_clear (console_code K) s)) = kinv c s"
  "kinv c (snd (console_set_cursor_visible (console_code K) v s)) = kinv c s"
  by (simp_all add: console_clear_def console_set_cursor_visible_def console_code_def vga_text_ops_def vga_text_console_clear_def
      vga_text_console_set_cursor_visible_def vga_text_update_cursor_def Let_def kinv_for hal_simps)

lemma kinv_malloc:
  assumes "kinv c s" and "kn_kmalloc sz (ds_kern s) = (p, k)" and "0 < unat sz" and "unat sz \<le> 0xFFFFFFE8"
  shows "kinv c (s\<lparr>ds_kern := k\<rparr>)" and "\<not> KERR_PTR_IS_ERR p \<Longrightarrow> heap_ok (kn_kfree p k)"
  using kn_kmalloc_ok [OF _ assms(2-4)] assms(1) by (simp_all add: kinv_def krest_def)

text \<open>Releasing the block just allocated, when nothing else has touched the kernel memory.\<close>

lemma kinv_release:
  assumes "kinv c t" and "ds_kern t = k" and "heap_ok (kn_kfree p k)"
  shows "kinv c (t\<lparr>ds_kern := kn_kfree p k\<rparr>)"
  using assms by (simp add: kinv_def krest_def)

lemma vga_probe_keeps:
  assumes "kinv c s"
  shows "kinv c (snd (vga_text_probe (console_code K) d s))"
proof -
  obtain p k where m: "kn_kmalloc vga_text_priv_size (ds_kern s) = (p, k)" by fastforce
  have sz: "0 < unat vga_text_priv_size" "unat vga_text_priv_size \<le> 0xFFFFFFE8" by (simp_all add: vga_text_priv_size_def)
  note k = kinv_malloc [OF assms m sz]
  show ?thesis
    using assms k
    by (auto simp: vga_text_probe_def m Let_def console_register_def kinv_console set_device_def split: sum.split)
      (simp_all add: kinv_def krest_def)
qed

lemma irq_handlers_keep:
  "kinv c (snd (irq_request i h p s)) = kinv c s" "ds_kern (snd (irq_request i h p s)) = ds_kern s"
  "kinv c (snd (irq_free i s)) = kinv c s" "ds_kern (snd (irq_free i s)) = ds_kern s"
  by (simp_all add: irq_request_def irq_free_def Let_def)

text \<open>The last part of \<open>i8254_probe\<close>, with the block \<open>p\<close> for the driver's data.\<close>

lemma i8254_claim_keeps:
  assumes s: "kinv c s" and p: "heap_ok (kn_kfree p (ds_kern s))"
  shows "kinv c (snd (case irq_request i h p s of
      (Inl e, s) \<Rightarrow> kfail e (s\<lparr>ds_kern := kn_kfree p (ds_kern s)\<rparr>)
    | (Inr _, s) \<Rightarrow>
        let s = set_device d (\<lambda>d. d\<lparr>dev_driver_data := p\<rparr>) s
        in case timer_device_register p s of
             (Inl e, s) \<Rightarrow> kfail e (set_device d (\<lambda>d. d\<lparr>dev_driver_data := 0\<rparr>)
               ((snd (irq_free i s))\<lparr>ds_kern := kn_kfree p (ds_kern (snd (irq_free i s)))\<rparr>))
           | (Inr _, s) \<Rightarrow> kret () s))"
proof -
  obtain r t where r: "irq_request i h p s = (r, t)" by fastforce
  have t: "kinv c t" "ds_kern t = ds_kern s" using irq_handlers_keep(1,2) [where i = i and h = h and p = p and s = s] s r by auto
  let ?u = "set_device d (\<lambda>d. d\<lparr>dev_driver_data := p\<rparr>) t"
  have u: "kinv c (snd (irq_free i ?u))" "ds_kern (snd (irq_free i ?u)) = ds_kern s"
    using t by (simp_all add: irq_handlers_keep) (simp add: set_device_def)
  show ?thesis
    using t u kinv_release [OF t(1) refl, of p] kinv_release [OF u(1) refl, of p] p
    by (cases r) (auto simp: r timer_device_register_def Let_def)
qed

lemma i8254_probe_keeps:
  assumes "kinv c s"
  shows "kinv c (snd (i8254_probe h d s))"
proof -
  obtain p k where m: "kn_kmalloc i8254_priv_size (ds_kern s) = (p, k)" by fastforce
  have sz: "0 < unat i8254_priv_size" "unat i8254_priv_size \<le> 0xFFFFFFE8" by (simp_all add: i8254_priv_size_def)
  note k = kinv_malloc [OF assms m sz]
  show ?thesis
  proof (cases "KERR_PTR_IS_ERR p")
    case False
    define s1 where "s1 = set_timer p (\<lambda>_. \<lparr>tm_name = dev_name (ds_devices s d), tm_mode = TIMER_DEVICE_MODE_DISABLED,
                       min_delta_ns = I8254_MIN_DELTA_NS, max_delta_ns = I8254_MAX_DELTA_NS, tm_event = 0\<rparr>) (s\<lparr>ds_kern := k\<rparr>)"
    have s1: "kinv c s1" "ds_kern s1 = k" using k by (simp_all add: s1_def) (simp add: set_timer_def)
    have s2: "kinv c (s1\<lparr>timers := tm\<rparr>)" "ds_kern (s1\<lparr>timers := tm\<rparr>) = k" for tm using s1 by simp_all
    have free: "heap_ok (kn_kfree p k)" by (rule k(2) [OF False])
    have rel: "kinv c (s1\<lparr>ds_kern := kn_kfree p k\<rparr>)" "kinv c (s1\<lparr>timers := tm, ds_kern := kn_kfree p k\<rparr>)" for tm
      using kinv_release [OF s1 free] kinv_release [OF s2 free, of tm] by simp_all
    have d: "ds_devices (s\<lparr>ds_kern := k\<rparr>) = ds_devices s" by simp
    show ?thesis
      using rel s2 i8254_claim_keeps [OF s2(1), of p] free
      by (simp add: i8254_probe_def m False Let_def s1_def [symmetric] s1(2) split: sum.split)
  qed (use k in \<open>simp add: i8254_probe_def m\<close>)
qed

interpretation kb: bus_invariant "kinv c" "kernel_probes K I" for c K I
  by unfold_locales (simp_all add: kernel_probes_def vga_probe_keeps i8254_probe_keeps)

lemma initcall_keeps: "kinv c s \<Longrightarrow> kinv c (snd (initcall_run K I f s))"
  by (cases f)
    (simp_all add: initcall_run_def vga_text_driver_init_def i8254_driver_init_def vga_device_init_def i8254_device_init_def
      kernel_bus_def Let_def kb.P_register_device kb.P_register_driver)

lemma ends_initcalls:
  assumes "kinv c s"
  shows "ends (\<lambda>_. kinv c) U (initcalls_invoke_range K I ics s)"
  using assms
proof (induction ics arbitrary: s)
  case (Cons ic ics)
  have call: "ends (\<lambda>_. kinv c) U (kcall (initcall_run K I (ic_fn ic)) s)"
    using initcall_keeps [OF Cons.prems] by (intro ends_kcall) (metis snd_conv)
  have err: "ends (\<lambda>_. kinv c) U (pr_err K fmt args t)" "ends (\<lambda>_. kinv c) U (pr_debug K fmt args t)"
    if "kinv c t" "fmt_args fmt \<le> length args" for fmt args t
    by (rule ends_mono [OF ends_pr(2) [OF that(2)]], use that(1) kinv_kview in blast)
      (rule ends_mono [OF ends_pr(3) [OF that(2)]], use that(1) kinv_kview in blast)
  show ?case unfolding initcalls_invoke_range.simps
    by (rule ends_kthen [where P = "\<lambda>_. kinv c"], rule call)
      (auto split: sum.split intro!: ends_kthen [where P = "\<lambda>_. kinv c"] err Cons.IH)
qed simp

subsection \<open>Interrupts, the platform bus and the processor\<close>

lemma kerr_try_keeps:
  assumes "P (snd (f s))" and "\<And>v t. P t \<Longrightarrow> P (snd (g v t))"
  shows "P (snd (kerr_try f g s))"
proof (cases "f s")
  case (Pair r t)
  then show ?thesis using assms by (cases r) (simp_all add: kerr_try_def)
qed

lemma irq_init_keeps: "kinv c s \<Longrightarrow> kinv c (snd (irq_init s))"
  by (simp add: irq_init_def)

lemma platform_init_keeps: "kinv c s \<Longrightarrow> kinv c (snd (platform_init pb s))"
  by (simp add: platform_init_def bus_init_def bus_register_def)

end
