(* ===== verification/Kmain_Props.thy ===== *)
theory Kmain_Props
  imports Kmain_Logic
begin

text \<open>
  What \<open>kmain\<close> guarantees: it never returns and never gets stuck, and when it leaves to user mode, it is the system
  process that runs, in the lowest privilege, at the entry point of its image.
\<close>

subsection \<open>The interrupt controllers and the processor\<close>

text \<open>What does not depend on the interrupt layer and the ports survives the start of the controllers.\<close>

lemma irqchip_inv:
  assumes "P s" and log: "\<And>l t. P t \<Longrightarrow> P (t\<lparr>hal_log := l\<rparr>)" and alloc: "\<And>a t. P t \<Longrightarrow> P (t\<lparr>irq_allocated := a\<rparr>)"
    and maps: "\<And>m t. P t \<Longrightarrow> P (t\<lparr>irq_maps := m\<rparr>)" and descs: "\<And>d t. P t \<Longrightarrow> P (t\<lparr>irq_descs := d\<rparr>)"
  shows "P (snd (arch_irqchip_init dev chip mp name s))"
proof -
  have hw: "P (i8259_mask_all (i8259_remap dev a b s))" for a b
    using assms(1) by (simp add: i8259_mask_all_def i8259_remap_def i8259_io_wait_def hal_simps Let_def log)
  have m: "P (snd (irq_map_init mp name 0 16 t))" if "P t" for t
    using that maps [OF alloc [OF that]] by (simp add: irq_map_init_def irq_alloc_range_def kerr_try_def split: option.split)
  have conf: "P (snd (i8259_configure chip mp i t))" if "P t" for i t
    using that by (simp add: i8259_configure_def irq_desc_configure_def descs)
  have loop: "P (snd (kerr_for is (i8259_configure chip mp) t))" if "P t" for "is" t
    using kerr_for_inv [where P = P and xs = "is" and body = "i8259_configure chip mp" and s = t] that conf
    by (metis prod.collapse snd_conv)
  show ?thesis
    unfolding arch_irqchip_init_def i8259_init_def Let_def
    by (intro kerr_try_keeps [where P = P] m loop hw) simp_all
qed

lemma irqchip_keeps: "kinv c s \<Longrightarrow> kinv c (snd (arch_irqchip_init dev chip mp name s))"
  by (rule irqchip_inv) simp_all

lemma ends_arch_init:
  assumes "kinv c s"
  shows "ends (\<lambda>_. kinv c) U (arch_init K I s)"
  using assms
  by (auto simp: arch_init_def Let_def kinv_def krest_def intro!: ends_panic split: prod.split)

subsection \<open>Processes and the heap\<close>

lemma heap_areas_mm: "heap_areas (k\<lparr>kn_mm := x\<rparr>, v) = heap_areas (k, v)"
  by (simp add: heap_areas_def)

lemma vm_add_vma_areas:
  assumes h: "heap_areas s" and run: "vm_add_vma nn virt sz flags s = (r, s')"
  shows "heap_areas s'"
proof -
  let ?vs = "vs_vmas (snd s)"
  obtain live where l: "heap_run (kn_kheap (fst s)) live (kn_heap (fst s))" "\<forall>w\<in>set ?vs. (fst w, vma_size) \<in> set live"
    and d: "distinct (map fst ?vs)" using h by (auto simp: heap_areas_def)
  obtain p k where k: "kn_kmalloc vma_size (fst s) = (p, k)" by fastforce
  note K = kn_kmalloc_cases [OF l(1) k]
  obtain m where m: "k = (fst s)\<lparr>kn_heap := m\<rparr>" using K(1) by blast
  consider "s' = s" | "KERR_PTR_IS_ERR p" "s' = (k, snd s)"
    | i where "\<not> KERR_PTR_IS_ERR p"
        "s' = (k, (snd s)\<lparr>vs_vmas := take i ?vs @ (p, new_vma virt sz flags) # drop i ?vs\<rparr>)"
    using run k by (auto simp: vm_add_vma_def Let_def split: if_splits option.splits)
  then show ?thesis
  proof cases
    case 2
    then show ?thesis using K(2) l(2) d by (auto simp: heap_areas_def m)
  next
    case 3
    have fresh: "p \<notin> fst ` set ?vs" using K(3) [OF 3(1)] l(2) by force
    have "distinct (map fst (take i ?vs @ (p, new_vma virt sz flags) # drop i ?vs))"
      using distinct_insert_at [OF d, of "(p, new_vma virt sz flags)" i] fresh by simp
    moreover have "\<forall>w\<in>set (take i ?vs @ (p, new_vma virt sz flags) # drop i ?vs). (fst w, vma_size) \<in> set ((p, vma_size) # live)"
      using inserted_cases l(2) by fastforce
    moreover have "heap_run (kn_kheap (fst s)) ((p, vma_size) # live) m" using K(3) [OF 3(1)] m by simp
    ultimately show ?thesis
      unfolding heap_areas_def 3(2) m by (intro conjI exI [of _ "(p, vma_size) # live"]) simp_all
  qed (use h in simp)
qed

lemma vma_search_in: "vma_search a vs = Some v \<Longrightarrow> v \<in> set vs"
  by (induction vs) (auto split: if_splits)

lemma vm_map_areas:
  assumes h: "heap_areas s" and run: "vm_map nn virt phys sz flags s = (r, s')"
  shows "heap_areas s'"
proof -
  have drop: "heap_areas (snd (vm_remove_vma virt t))" if "heap_areas t" for t
    using that heap_areas_drop vma_search_in by (auto simp: vm_remove_vma_def vm_find_vma_def split: option.split if_splits)
  have x86: "heap_areas t" if "heap_areas u" "vm_x86 f u = (q, t)" for f q t u
    using that by (auto simp: vm_x86_eq heap_areas_def split: prod.splits)
  obtain q t where q: "vm_add_vma nn virt sz flags s = (q, t)" by (cases "vm_add_vma nn virt sz flags s")
  note t = vm_add_vma_areas [OF h q]
  obtain w u where w: "vm_x86 (arch_vm_map (Some (vs_arch (snd t))) virt phys sz flags) t = (w, u)"
    by (cases "vm_x86 (arch_vm_map (Some (vs_arch (snd t))) virt phys sz flags) t")
  note u = x86 [OF t w]
  show ?thesis
    using run h t u drop [OF u] q w by (auto simp: vm_map_def kerr_try_def split: if_splits sum.splits)
qed

text \<open>The areas of a process are blocks of the heap, and the table of processes is \<open>tab\<close>.\<close>

abbreviation pareas :: "vaddr list \<Rightarrow> vaddr \<Rightarrow> psys \<Rightarrow> bool" where
  "pareas tab p s \<equiv> heap_areas (ps_space p s) \<and> process_table s = tab"

lemma ps_kn_pmm_areas: "pareas tab p s \<Longrightarrow> pareas tab p (snd (ps_kn (kn_pmm f) s))"
  by (simp add: ps_kn_def kn_pmm_def kzoom_def heap_areas_def split: prod.split)

lemma ps_vm_map_areas:
  assumes "pareas tab p s"
  shows "pareas tab p (snd (ps_vm p (vm_map nn virt phys sz flags) s))"
proof (cases "vm_map nn virt phys sz flags (ps_space p s)")
  case (fields r k v)
  then have "heap_areas (k, v)" using vm_map_areas [OF conjunct1 [OF assms]] by blast
  then show ?thesis using assms by (simp add: ps_vm_def set_proc_def fields)
qed

lemma load_segment_areas:
  assumes h: "pareas tab p s"
  shows "pareas tab p (snd (process_load_segment p img sz i s))"
proof -
  have step: "pareas tab p (snd (case ps_vm p (vm_map True va phys n fl) u of
        (Inl e, s) \<Rightarrow> (Inl e, snd (ps_kn (kn_pmm (pmm_free phys k)) s))
      | (Inr _, s) \<Rightarrow> kret () (s\<lparr>ps_ram := segment_fill img seg phys (ps_ram s)\<rparr>)))" if "pareas tab p u" for va phys n fl u k seg
  proof (cases "ps_vm p (vm_map True va phys n fl) u")
    case (Pair r t)
    then have "pareas tab p t" using ps_vm_map_areas [OF that, of True va phys n fl] by simp
    then show ?thesis using ps_kn_pmm_areas [where p = p and s = t and tab = tab] by (cases r) (simp_all add: Pair)
  qed
  have "pareas tab p (snd (kerr_try (ps_kn (kn_pmm (PMM_ALLOC_LOWMEM (seg_mem_size seg div arch_vm_page_size))))
      (\<lambda>phys s. case ps_vm p (vm_map True (seg_vaddr seg) phys (seg_mem_size seg) (segment_vm_flags seg)) s of
          (Inl e, s) \<Rightarrow> (Inl e, snd (ps_kn (kn_pmm (pmm_free phys (seg_mem_size seg div arch_vm_page_size))) s))
        | (Inr _, s) \<Rightarrow> kret () (s\<lparr>ps_ram := segment_fill img seg phys (ps_ram s)\<rparr>)) s))" for seg
    by (rule kerr_try_keeps [where P = "pareas tab p"], rule ps_kn_pmm_areas [OF h], erule step)
  then show ?thesis using h by (simp add: process_load_segment_def Let_def split: sum.split)
qed

lemma process_load_areas:
  assumes h: "pareas tab p s" and run: "process_load p img sz s = (r, t)"
  shows "pareas tab p t"
    and "r = Inr () \<Longrightarrow> p \<noteq> 0 \<and> (\<exists>hdr. iwbf_parse_hdr (ps_ram s) True img sz True = Inr hdr \<and> proc_entry (ps_procs t p) = hdr_entry hdr)"
proof -
  have loop: "pareas tab p (snd (kerr_for is (process_load_segment p img sz) s))" for "is"
    using kerr_for_inv [where P = "pareas tab p" and xs = "is" and body = "process_load_segment p img sz", OF h] load_segment_areas
    by (metis prod.collapse snd_conv)
  have entry: "pareas tab p (set_proc p (\<lambda>pr. pr\<lparr>proc_entry := e\<rparr>) u) = pareas tab p u" for e u by (simp add: set_proc_def)
  have run': "process_load p img sz s = (r, t)" by (fact run)
  have "pareas tab p (snd (process_load p img sz s))"
    using h loop by (auto simp: process_load_def entry kerr_try_def split: sum.splits prod.splits) (metis snd_conv)+
  then show "pareas tab p t" by (simp add: run')
  show "p \<noteq> 0 \<and> (\<exists>hdr. iwbf_parse_hdr (ps_ram s) True img sz True = Inr hdr \<and> proc_entry (ps_procs t p) = hdr_entry hdr)" if "r = Inr ()"
    using run that by (auto simp: process_load_def kerr_try_def set_proc_def split: if_splits sum.splits prod.splits)
qed

text \<open>The process is ready to be started: the frame on its kernel stack leads to user mode.\<close>

definition start_ready :: "vaddr \<Rightarrow> psys \<Rightarrow> bool" where
  "start_ready p s \<longleftrightarrow> (\<forall>tss tss' fr. arch_process_start p s tss = (tss', fr) \<longrightarrow>
     fr_eip fr = proc_entry (ps_procs s p) \<and> fr_cs fr = ucast X86_GDT_SELECTOR_USER_CODE \<and> fr_ss fr = ucast X86_GDT_SELECTOR_USER_DATA
     \<and> fr_esp fr = USER_STACK_TOP \<and> bit (fr_eflags fr) 9
     \<and> tss_esp0 tss' = ks_base (proc_kstack (ps_procs s p)) + ks_size (proc_kstack (ps_procs s p)))"

lemma stack_prepare_ready:
  assumes "arch_process_stack_prepare p s = (Inr (), t)"
  shows "start_ready p t" and "proc_entry (ps_procs t p) = proc_entry (ps_procs s p)" and "p \<noteq> 0"
    and "ps_space p t = ps_space p s" and "process_table t = process_table s"
proof -
  have "t - 20 + 4 = t - 16" "t - 20 + 8 = t - 12" "t - 20 + 12 = t - 8" "t - 20 + 16 = t - 4" "(t - x = t - y) = (x = y)" for t x y :: u32
    by simp_all
  moreover have "bit (X86_FLAGS_IF_MASK OR X86_FLAGS_RESERVED_MASK) 9" by (simp add: X86_FLAGS_IF_MASK_def X86_FLAGS_RESERVED_MASK_def BIT_def)
  ultimately show "start_ready p t" using assms
    by (auto simp: start_ready_def arch_process_start_def arch_process_stack_prepare_def Let_def x86_tss_set_kernel_stack_def
        set_proc_def ld_st split: if_splits)
qed (use assms in \<open>auto simp: arch_process_stack_prepare_def Let_def set_proc_def split: if_splits\<close>)

lemma process_prepare_ready:
  assumes h: "pareas tab p s" and run: "process_prepare p s = (Inr (), t)"
  shows "start_ready p t" and "proc_entry (ps_procs t p) = proc_entry (ps_procs s p)" and "pareas tab p t" and "p \<noteq> 0"
proof -
  let ?map = "\<lambda>phys. vm_map True (USER_STACK_TOP - USER_STACK_SIZE) phys USER_STACK_SIZE (VM_USER OR VM_READ OR VM_WRITE OR VM_GROWSDOWN)"
  obtain phys u v where u: "ps_kn (kn_pmm (PMM_ALLOC_LOWMEM (USER_STACK_SIZE div arch_vm_page_size))) s = (Inr phys, u)"
    "ps_vm p (?map phys) u = (Inr (), v)" "arch_process_stack_prepare p v = (Inr (), t)"
    using run by (auto simp: process_prepare_def kerr_try_eq_Inr split: if_splits)
  have "pareas tab p u" using ps_kn_pmm_areas [OF h] u(1) by (metis snd_conv)
  then have v: "pareas tab p v" using ps_vm_map_areas [where p = p and s = u] u(2) by (metis snd_conv)
  note r = stack_prepare_ready [OF u(3)]
  have "proc_entry (ps_procs v p) = proc_entry (ps_procs s p)"
    using u(1,2) by (auto simp: ps_kn_def kzoom_def ps_vm_def set_proc_def split: prod.splits)
  then show "start_ready p t" "proc_entry (ps_procs t p) = proc_entry (ps_procs s p)" "pareas tab p t" "p \<noteq> 0"
    using r v by simp_all
qed

lemma start_ready_cong:
  assumes "start_ready p s" and "ps_stacks t = ps_stacks s" and "proc_entry (ps_procs t p) = proc_entry (ps_procs s p)"
    and "proc_kstack (ps_procs t p) = proc_kstack (ps_procs s p)"
  shows "start_ready p t"
  using assms by (simp add: start_ready_def arch_process_start_def Let_def)

text \<open>A process that has just been created has no areas.\<close>

lemma space_init_empty: "vm_space_init True (k, v) = (Inr (), (k', v')) \<Longrightarrow> vs_vmas v' = []"
  by (auto simp: vm_space_init_def kerr_try_def vm_x86_eq Let_def split: prod.splits sum.splits)

lemma create_no_areas:
  assumes "process_create name s = (p, t)" and "\<not> KERR_PTR_IS_ERR p" and "p \<noteq> 0"
  shows "vs_vmas (proc_vm (ps_procs t p)) = []" and "ps_ram t = ps_ram s"
proof -
  have e: "\<not> KERR_PTR_IS_ERR (KERR_PTR e) \<Longrightarrow> KERR_PTR e = 0" for e using KERR_PTR_err_or_null by blast
  show "vs_vmas (proc_vm (ps_procs t p)) = []"
    using assms e
    by (auto simp: process_create_def Let_def ps_vm_def ps_kn_def kzoom_def set_proc_def split: if_splits sum.splits prod.splits
        dest: space_init_empty)
  show "ps_ram t = ps_ram s"
    using assms e
    by (auto simp: process_create_def Let_def ps_vm_def ps_kn_def kzoom_def set_proc_def split: if_splits sum.splits prod.splits)
qed

subsection \<open>The messages about the heap\<close>

lemma fmt_args_dashes: "fmt_args (replicate n (CHR ''-'') @ nl) = 0"
  by (induction n) simp_all

lemma ends_kheap_dump:
  assumes "heap_ok (ds_kern s)"
  shows "ends (\<lambda>_ t. kview t = kview s) U (kheap_dump_print K I s)"
proof -
  let ?P = "\<lambda>t. kview t = kview s"
  obtain live bs ns where "heap_inv (kn_kheap (ds_kern s)) bs ns (kn_heap (ds_kern s))"
    using assms heap_run_inv unfolding heap_ok_def by blast
  from kheap_dump_spec [OF this] obtain ls tt fl where d: "kheap_dump (kn_kheap (ds_kern s)) (kn_heap (ds_kern s)) = Some (ls, tt, fl)" by blast
  have pr: "ends (\<lambda>_. ?P) U (kprintk K fmt args t)" if "?P t" "fmt_args fmt \<le> length args" for fmt args t
    using ends_kprintk [OF that(2), of t U K] that(1) by simp
  have loop: "ends (\<lambda>_. ?P) U (kfor xs (\<lambda>x. kprintk K (f x) (a x)) t)" if "?P t" "\<And>x. fmt_args (f x) \<le> length (a x)" for xs f a t
    by (rule ends_kfor [where P = ?P], rule that(1), rule pr, assumption, rule that(2))
  show ?thesis unfolding kheap_dump_print_def d option.case prod.case case_prod_unfold
    by (intro ends_kthen [where P = "\<lambda>_. ?P"] pr loop) (simp_all add: fmt_args_dashes)
qed

subsection \<open>The system process\<close>

text \<open>
  How the kernel enters user mode: with the frame of the process at entry \<open>pid\<close> of the table, which runs, on its own page
  tables, from the entry point of the image at \<open>img\<close>.
\<close>

definition enters_user :: "bytes \<Rightarrow> vaddr \<Rightarrow> size_t \<Rightarrow> iret_frame \<Rightarrow> kernel \<Rightarrow> bool" where
  "enters_user m img sz fr t \<longleftrightarrow>
     (\<exists>p hdr. process_get 1 (psys_of t) = p \<and> p \<noteq> 0 \<and> proc_state (k_procs t p) = PROCESS_RUNNING
        \<and> iwbf_parse_hdr m True img sz True = Inr hdr \<and> fr_eip fr = hdr_entry hdr
        \<and> fr_cs fr = ucast X86_GDT_SELECTOR_USER_CODE \<and> fr_ss fr = ucast X86_GDT_SELECTOR_USER_DATA
        \<and> fr_esp fr = USER_STACK_TOP \<and> bit (fr_eflags fr) 9
        \<and> tss_esp0 (k_tss t) = ks_base (proc_kstack (k_procs t p)) + ks_size (proc_kstack (k_procs t p))
        \<and> xm_cr3 (kn_mm (ds_kern t)) = ucast (pd_phys (vs_arch (proc_vm (k_procs t p)))))"

lemma psys_set [simp]: "psys_of (set_psys q s) = q" "k_tss (set_psys q s) = k_tss s" "kernel_boot_state (set_psys q s) = kernel_boot_state s"
  by (simp_all add: psys_of_def set_psys_def)

lemma k_psys_eq: "k_psys f s = (r, t) \<longleftrightarrow> (\<exists>q. f (psys_of s) = (r, q) \<and> t = set_psys q s)"
  by (auto simp: k_psys_def kzoom_def split: prod.splits)

lemma psys_fields:
  "ps_kern (psys_of s) = ds_kern s" "ps_ram (psys_of s) = k_ram s" "ps_procs (psys_of s) = k_procs s" "process_table (psys_of s) = k_process_table s"
  by (simp_all add: psys_of_def)

text \<open>The last steps: the page tables of the process are loaded, it is marked as running and started.\<close>

lemma ends_start:
  assumes ready: "start_ready p (psys_of s)" "p \<noteq> 0" and tab: "k_process_table s ! 1 = p"
    and hdr: "iwbf_parse_hdr m True img sz True = Inr hdr" "proc_entry (k_procs s p) = hdr_entry hdr"
  shows "ends P (enters_user m img sz) (kthen (or_panic K ''system: vm_space_load'' (k_psys (ps_vm p (vm_space_load True))))
     (\<lambda>_. kthen (kdo (\<lambda>s. set_psys (set_proc p (\<lambda>pr. pr\<lparr>proc_state := PROCESS_RUNNING\<rparr>) (psys_of s)) s))
     (\<lambda>_ s. case process_start p (psys_of s) (k_tss s) of
               None \<Rightarrow> panic K ''system: process_start'' [] s
             | Some (tss, fr) \<Rightarrow> Kuser fr (s\<lparr>k_tss := tss\<rparr>))) s)"
proof -
  let ?q = "psys_of s" and ?pr = "k_procs s p"
  let ?k = "(ds_kern s)\<lparr>kn_mm := (kn_mm (ds_kern s))\<lparr>xm_cr3 := ucast (pd_phys (vs_arch (proc_vm ?pr)))\<rparr>\<rparr>"
  have load: "ps_vm p (vm_space_load True) ?q = (Inr (), ?q\<lparr>ps_kern := ?k\<rparr>)"
    by (simp add: ps_vm_def vm_space_load_def vm_x86_eq arch_vm_space_load_def psys_fields set_proc_def)
  define u where "u = set_proc p (\<lambda>pr. pr\<lparr>proc_state := PROCESS_RUNNING\<rparr>) (?q\<lparr>ps_kern := ?k\<rparr>)"
  have r: "start_ready p u" by (rule start_ready_cong [OF ready(1)]) (simp_all add: u_def set_proc_def)
  obtain tss fr where st: "arch_process_start p u (k_tss s) = (tss, fr)" by fastforce
  have pr: "ps_procs u p = ?pr\<lparr>proc_state := PROCESS_RUNNING\<rparr>" "process_table u = k_process_table s" "ps_kern u = ?k"
    by (simp_all add: u_def set_proc_def psys_fields)
  define t where "t = (set_psys u (set_psys (?q\<lparr>ps_kern := ?k\<rparr>) s))\<lparr>k_tss := tss\<rparr>"
  have t: "psys_of t = u" "k_tss t = tss" by (simp_all add: t_def psys_of_def set_psys_def)
  have f: "k_procs t p = ?pr\<lparr>proc_state := PROCESS_RUNNING\<rparr>" "ds_kern t = ?k" using pr psys_fields(1,3) [of t, unfolded t(1)] by simp_all
  have "process_get 1 u = p" using tab by (simp add: process_get_def PID_FIRST_def PID_MAX_def pr)
  then have "enters_user m img sz fr t"
    using r [unfolded start_ready_def, rule_format, OF st] ready(2) hdr
    unfolding enters_user_def t pr by (intro exI [of _ p] exI [of _ hdr]) (simp add: f pr)
  then show ?thesis
    by (simp add: kthen_def or_panic_def kcall_def k_psys_def kzoom_def load kdo_def process_start_def ready(2) u_def [symmetric] st t_def)
qed

lemma ends_kmain_system:
  assumes tab: "ptab (psys_of s) live" and one: "\<not> bitmap_test (pid_bm (ds_kern s)) 1"
  shows "ends P (enters_user (k_ram s) (system_image (kernel_boot_state s)) (system_image_size (kernel_boot_state s))) (kmain_system K I s)"
proof -
  let ?img = "system_image (kernel_boot_state s)" and ?sz = "system_image_size (kernel_boot_state s)"
  let ?U = "enters_user (k_ram s) ?img ?sz"
  obtain p q where q: "process_create (ki_system_name I) (psys_of s) = (p, q)" by (cases "process_create (ki_system_name I) (psys_of s)")
  let ?tab = "process_table q"
  have loaded: "pareas ?tab p q1 \<and> p \<noteq> 0 \<and> ?tab ! 1 = p
      \<and> (\<exists>hdr. iwbf_parse_hdr (k_ram s) True ?img ?sz True = Inr hdr \<and> proc_entry (ps_procs q1 p) = hdr_entry hdr)"
    if l: "process_load p ?img ?sz q = (Inr (), q1)" and e: "\<not> KERR_PTR_IS_ERR p" for q1
  proof -
    have p: "p \<noteq> 0" using l by (auto simp: process_load_def)
    obtain live' pid where c: "ptab q live'" "0 < pid" "pid < 64" "\<forall>x<pid. bitmap_test (pid_bm (ds_kern s)) x"
        "process_table q = (k_process_table s)[unat pid := p]"
      using process_create_spec [OF tab q] e p by (auto simp: psys_fields)
    have "\<not> 1 < pid" using c(4) one by blast
    then have "pid = 1" using c(2) by (simp add: word_less_nat_alt word_unat_eq_iff)
    moreover have "length (k_process_table s) = 64" using tab by (simp add: ptab_def psys_fields)
    ultimately have t1: "?tab ! 1 = p" by (simp add: c(5))
    have "pareas ?tab p q"
      using c(1) create_no_areas(1) [OF q e p] by (auto simp: heap_areas_def ptab_def)
    from process_load_areas [OF this l] create_no_areas(2) [OF q e p] p t1 show ?thesis by (simp add: psys_fields)
  qed
  let ?A = "\<lambda>u. psys_of u = q \<and> kernel_boot_state u = kernel_boot_state s \<and> \<not> KERR_PTR_IS_ERR p"
  let ?L = "\<lambda>u. process_load p ?img ?sz q = (Inr (), psys_of u) \<and> \<not> KERR_PTR_IS_ERR p"
  let ?R = "\<lambda>u. \<exists>q1. process_load p ?img ?sz q = (Inr (), q1) \<and> process_prepare p q1 = (Inr (), psys_of u) \<and> \<not> KERR_PTR_IS_ERR p"
  have create: "ends (\<lambda>_. ?A) ?U ((if KERR_PTR_IS_ERR p then panic K ''Failed to create system process: %d'' [of_int (KERR_PTR_ERR p)]
      else Kret ()) (set_psys q s))"
    by (simp add: ends_panic)
  have load: "ends (\<lambda>_. ?L) ?U (or_panic K ''Failed to load system process''
      (k_psys (process_load p (system_image (kernel_boot_state u)) (system_image_size (kernel_boot_state u)))) u)" if "?A u" for u
    by (rule ends_or_panic) (use that in \<open>auto simp: k_psys_eq\<close>)
  have prepare: "ends (\<lambda>_. ?R) ?U (or_panic K ''Failed to prepare system process'' (k_psys (process_prepare p)) u)" if "?L u" for u
    by (rule ends_or_panic) (use that in \<open>auto simp: k_psys_eq\<close>)
  have dump: "ends (\<lambda>_. ?R) ?U (kheap_dump_print K I u)" if R: "?R u" for u
  proof -
    have "pareas ?tab p (psys_of u)" using R loaded process_prepare_ready(3) by blast
    then have "heap_ok (ds_kern u)" by (auto simp: heap_areas_def heap_ok_def psys_fields)
    from ends_kheap_dump [OF this] show ?thesis by (rule ends_mono) (use R in \<open>auto simp: kview_def\<close>)
  qed
  have start: "ends P ?U (kthen (or_panic K ''system: vm_space_load'' (k_psys (ps_vm p (vm_space_load True))))
     (\<lambda>_. kthen (kdo (\<lambda>s. set_psys (set_proc p (\<lambda>pr. pr\<lparr>proc_state := PROCESS_RUNNING\<rparr>) (psys_of s)) s))
     (\<lambda>_ s. case process_start p (psys_of s) (k_tss s) of
               None \<Rightarrow> panic K ''system: process_start'' [] s
             | Some (tss, fr) \<Rightarrow> Kuser fr (s\<lparr>k_tss := tss\<rparr>))) u)" if R: "?R u" for u
  proof -
    obtain q1 where l: "process_load p ?img ?sz q = (Inr (), q1)" "process_prepare p q1 = (Inr (), psys_of u)" "\<not> KERR_PTR_IS_ERR p"
      using R by blast
    note ld = loaded [OF l(1,3)]
    note r = process_prepare_ready [OF conjunct1 [OF ld] l(2)]
    obtain hdr where hdr: "iwbf_parse_hdr (k_ram s) True ?img ?sz True = Inr hdr" "proc_entry (k_procs u p) = hdr_entry hdr"
      using ld r(2) by (auto simp: psys_fields)
    show ?thesis by (rule ends_start [OF r(1,4) _ hdr]) (use ld r(3) in \<open>simp add: psys_fields\<close>)
  qed
  show ?thesis unfolding kmain_system_def
    by (rule ends_kthen [where P = "\<lambda>v t. v = p \<and> t = set_psys q s"], simp add: q, elim conjE, hypsubst,
        rule ends_kthen [where P = "\<lambda>_. ?A"], rule create, rule ends_kthen [where P = "\<lambda>_. ?L"], erule load,
        rule ends_kthen [where P = "\<lambda>_. ?R"], erule prepare, rule ends_kthen [where P = "\<lambda>_. ?R"], erule dump, erule start)
qed

subsection \<open>kmain\<close>

text \<open>What the memory managers need, as in the theorem about \<open>mm_init\<close>.\<close>

definition memory_ok :: "kimage \<Rightarrow> boot_mem_map_entry list \<Rightarrow> kern \<Rightarrow> bool" where
  "memory_ok I es k \<longleftrightarrow> image_ok I \<and> in_image I (kheap_free_list (kn_kheap k)) \<and> es \<noteq> [] \<and> boot_bitmap I es
     \<and> bm_nbits (kernel_stack_bm k) = 64
     \<and> (\<exists>a. 257 \<le> card {f. f < min a 1024 \<and> boot_free I es f} \<and> (\<forall>j<256. boot_free I es (a + j)) \<and> a + 256 \<le> LOWMEM_FRAMES)"

lemma mm_init_heap:
  assumes "memory_ok I es k"
  obtains k' where "mm_init I es k = Some (Inr (), k')" and "heap_ok k'" and "pid_bm k' = pid_bm k"
proof -
  obtain a where "257 \<le> card {f. f < min a 1024 \<and> boot_free I es f}" "\<forall>j<256. boot_free I es (a + j)" "a + 256 \<le> LOWMEM_FRAMES"
    using assms(1) unfolding memory_ok_def by blast
  from mm_init_spec [OF _ _ _ _ this, of k] assms obtain k1 where "mm_init I es k = Some (Inr (), k1)" "heap_run (kn_kheap k1) [] (kn_heap k1)"
    "pid_bm k1 = pid_bm k"
    unfolding memory_ok_def by blast
  then show thesis using that by (auto simp: heap_ok_def)
qed

lemma ends_kmain_init:
  assumes count: "boot_readable (k_ram s) (PHYS_TO_VIRT phys)"
    and mem: "memory_ok I (memory_map (boot_state_at (k_ram s) (PHYS_TO_VIRT phys))) (ds_kern s)"
    and img: "image_kept I (boot_state_at (k_ram s) (PHYS_TO_VIRT phys)) (ds_kern s)"
  shows "ends (\<lambda>_ t. magic = BOOT_MAGIC \<and> kinv (k_ram s, k_stacks s, k_process_table s, k_procs s, bitmap_set (pid_bm (ds_kern s)) 0,
      boot_state_at (k_ram s) (PHYS_TO_VIRT phys)) t) U (kmain_init K I magic phys s)"
proof -
  let ?b = "boot_state_at (k_ram s) (PHYS_TO_VIRT phys)"
  let ?s = "s\<lparr>kernel_boot_state := ?b\<rparr>"
  let ?c = "krest ?s" and ?d = "(k_ram s, k_stacks s, k_process_table s, k_procs s, bitmap_set (pid_bm (ds_kern s)) 0, ?b)"
  let ?Q = "\<lambda>_ t. magic = BOOT_MAGIC \<and> kinv ?c t"
  have keep: "ends ?Q U (or_panic K msg f t)" if "magic = BOOT_MAGIC \<and> kinv ?c t" "kinv ?c (snd (f t))" "fmt_args msg = 0" for msg f t
    by (rule ends_or_panic) (use that in \<open>metis snd_conv\<close>)+
  have boot: "ends (\<lambda>_ t. kview t = kview ?s) U (boot_init K (PHYS_TO_VIRT phys) t)" if "kview t = kview s" for t
  proof -
    have r: "k_ram t = k_ram s" using that by (simp add: kview_def psys_of_def)
    have "kview (t\<lparr>kernel_boot_state := ?b\<rparr>) = kview ?s" using that by (simp add: kview_def psys_of_def)
    then show ?thesis using ends_boot_init [of t "PHYS_TO_VIRT phys" U K] count by (simp add: r)
  qed
  have mm: "ends ?Q U (kmain_mm K I t)" if t: "kview t = kview ?s" "magic = BOOT_MAGIC" for t
  proof -
    have f: "kernel_boot_state t = ?b" "ds_kern t = ds_kern s" "krest t = ?c" using t(1) by (simp_all add: kview_def psys_of_def krest_def)
    obtain k where k: "mm_init I (memory_map ?b) (ds_kern s) = Some (Inr (), k)" "heap_ok k" "pid_bm k = pid_bm (ds_kern s)"
      by (rule mm_init_heap [OF mem])
    then show ?thesis using f t(2) img by (simp add: kmain_mm_def kinv_def krest_def)
  qed
  have say: "ends (\<lambda>_ t. magic = BOOT_MAGIC \<and> kinv ?d t) U (kprintk K (''Welcome to ItWorksOS'' @ nl) [] t)" if "magic = BOOT_MAGIC \<and> kinv ?d t" for t
    by (rule ends_mono [OF ends_kprintk]) (simp, use that kinv_kview in blast)
  have pid: "ends (\<lambda>_ t. magic = BOOT_MAGIC \<and> kinv ?d t) U (kcall (k_kern pid_init) t)" if "magic = BOOT_MAGIC \<and> kinv ?c t" for t
    by (rule ends_kcall) (use that in \<open>auto simp: k_kern_def kzoom_def pid_init_def kinv_def krest_def heap_ok_def\<close>)
  have arch: "ends ?Q U (arch_init K I t)" "ends ?Q U (initcalls_invoke_devdrv K I t)" if "magic = BOOT_MAGIC \<and> kinv ?c t" for t
    unfolding initcalls_invoke_devdrv_def
    using ends_mono [OF ends_arch_init [of ?c t U K I], of ?Q] ends_mono [OF ends_initcalls [of ?c t U K I], of ?Q] that by simp_all
  have log: "kview (s\<lparr>sys_log := l\<rparr>) = kview s" for l by (simp add: kview_def psys_of_def)
  have magic: "ends (\<lambda>_ t. kview t = kview ?s \<and> magic = BOOT_MAGIC) U
      ((if magic \<noteq> BOOT_MAGIC then panic K ''Invalid boot magic value'' [] else Kret ()) t)" if "kview t = kview ?s" for t
    using that by (simp add: ends_panic)
  show ?thesis unfolding kmain_init_def
    by (rule ends_kthen [where P = "\<lambda>_ t. kview t = kview s"], rule ends_kdo, rule log,
        rule ends_kthen [where P = "\<lambda>_ t. kview t = kview ?s"], erule boot,
        rule ends_kthen [where P = "\<lambda>_ t. kview t = kview ?s \<and> magic = BOOT_MAGIC"], erule magic,
        rule ends_kthen [where P = ?Q], erule conjE, erule (1) mm,
        rule ends_kthen [where P = ?Q], erule arch(1),
        rule ends_kthen [where P = ?Q], rule keep, assumption, simp add: irq_init_keeps, simp,
        rule ends_kthen [where P = ?Q], rule keep, assumption, simp add: irqchip_keeps, simp,
        rule ends_kthen [where P = ?Q], rule keep, assumption, simp add: platform_init_keeps, simp,
        rule ends_kthen [where P = ?Q], erule arch(2),
        rule ends_kthen [where P = "\<lambda>_ t. magic = BOOT_MAGIC \<and> kinv ?d t"], erule pid, erule say)
qed

lemma ends_user_mono: "ends P U r \<Longrightarrow> (\<And>fr t. U fr t \<Longrightarrow> V fr t) \<Longrightarrow> ends P V r"
  by (cases r) simp_all

text \<open>
  C14. What happens when the boot loader starts the kernel with its information in the first 4 MiB, a memory map of at most 64
  entries, enough memory for the memory managers (as in the theorem about \<open>mm_init\<close>: the frame bitmap and 257 usable frames in the
  first 4 MiB; all of it below 4 GiB, since page tables cut the frames of a kernel stack to 32 bits) and a system image that
  overlaps neither the kernel with its frame bitmap, nor the video memory, nor usable frames: \<open>kmain\<close> neither returns nor gets
  stuck. Either it halts in a panic, with interrupts disabled, or the magic number was right and the processor leaves to user mode: it runs process 1 on its own page tables and in the lowest
  privilege, at the entry point of the header of the system image, with interrupts enabled, an empty user stack and the
  kernel stack of that process in the task state segment. This holds for every processor, every device behind the
  ports, every content of such an image and every order of the initialisation calls.
\<close>

theorem kmain_correct:
  assumes "boot_readable (k_ram s) (PHYS_TO_VIRT phys)"
    and "memory_ok I (memory_map (boot_state_at (k_ram s) (PHYS_TO_VIRT phys))) (ds_kern s)"
    and "image_kept I (boot_state_at (k_ram s) (PHYS_TO_VIRT phys)) (ds_kern s)"
    and "unat (pmm_init_total (memory_map (boot_state_at (k_ram s) (PHYS_TO_VIRT phys)))) \<le> 0x100000"
    and "k_process_table s = replicate 64 0" and "bm_nbits (pid_bm (ds_kern s)) = 64" and "\<not> bitmap_test (pid_bm (ds_kern s)) 1"
  shows "case kmain K I magic phys s of
      Kret _ _ \<Rightarrow> False
    | Kstuck \<Rightarrow> False
    | Kpanic t \<Rightarrow> panicked t
    | Kuser fr t \<Rightarrow> magic = BOOT_MAGIC \<and> enters_user (k_ram s)
        (PHYS_TO_VIRT (info_system_image (boot_info_at (k_ram s) (PHYS_TO_VIRT phys))))
        (info_system_image_size (boot_info_at (k_ram s) (PHYS_TO_VIRT phys))) fr t"
proof -
  let ?b = "boot_state_at (k_ram s) (PHYS_TO_VIRT phys)"
  let ?d = "(k_ram s, k_stacks s, k_process_table s, k_procs s, bitmap_set (pid_bm (ds_kern s)) 0, ?b)"
  let ?U = "\<lambda>fr t. magic = BOOT_MAGIC \<and> enters_user (k_ram s) (system_image ?b) (system_image_size ?b) fr t"
  have sys: "ends (\<lambda>_ _. False) ?U (kmain_system K I t)" if t: "magic = BOOT_MAGIC \<and> kinv ?d t" for t
  proof -
    obtain live where l: "heap_run (kn_kheap (ds_kern t)) live (kn_heap (ds_kern t))" using t by (auto simp: kinv_def heap_ok_def)
    have f: "k_ram t = k_ram s" "k_process_table t = replicate 64 0" "pid_bm (ds_kern t) = bitmap_set (pid_bm (ds_kern s)) 0"
      "kernel_boot_state t = ?b"
      using t assms(5) by (simp_all add: kinv_def krest_def)
    have "ptab (psys_of t) live"
      using l assms(6) by (auto simp: ptab_def psys_fields f bitmap_test_set word_less_nat_alt)
    moreover have "\<not> bitmap_test (pid_bm (ds_kern t)) 1" using assms(7) by (simp add: f bitmap_test_set)
    ultimately have "ends (\<lambda>_ _. False) (enters_user (k_ram s) (system_image ?b) (system_image_size ?b)) (kmain_system K I t)"
      using ends_kmain_system [of t live "\<lambda>_ _. False" K I] unfolding f by blast
    then show ?thesis by (rule ends_user_mono) (use t in blast)
  qed
  have "ends (\<lambda>_ _. False) ?U (kmain K I magic phys s)"
    unfolding kmain_def
    by (rule ends_kthen [where P = "\<lambda>_ t. magic = BOOT_MAGIC \<and> kinv ?d t"], rule ends_kmain_init [OF assms(1,2,3)], erule sys)
  moreover have "system_image ?b = PHYS_TO_VIRT (info_system_image (boot_info_at (k_ram s) (PHYS_TO_VIRT phys)))"
    "system_image_size ?b = info_system_image_size (boot_info_at (k_ram s) (PHYS_TO_VIRT phys))"
    by (simp_all add: boot_state_at_def Let_def)
  ultimately show ?thesis by (cases "kmain K I magic phys s") simp_all
qed

text \<open>With more than 64 entries the copy leaves its array, whatever the magic number says: it is checked later.\<close>

lemma kmain_overrun:
  assumes "BOOT_MEMORY_MAP_MAX < info_memory_map_count (boot_info_at (k_ram s) (PHYS_TO_VIRT phys))"
  shows "kmain K I magic phys s = Kstuck"
proof -
  have "\<not> boot_readable (k_ram s) (PHYS_TO_VIRT phys)" using assms by (auto simp: boot_readable_def)
  then show ?thesis by (simp add: kmain_def kmain_init_def kthen_def kdo_def boot_init_def)
qed

subsection \<open>A sample machine\<close>

text \<open>
  A boot loader that passes the memory map \<open>map_sample\<close> and an image of 41 bytes at \<open>0x70000\<close>, and a machine that has just been
  switched on.
\<close>

definition ram_sample :: bytes where
  "ram_sample = (\<lambda>_. 0)(0xC0007000 := 1, 0xC0007003 := 0x71, 0xC000701C := 7, 0xC0007022 := 41, 0xC0007102 := 0x10, 0xC000710A := 0xF0, 0xC0007110 := 1)"

definition env_sample :: kenv where
  "env_sample = \<lparr>ke_dev = (\<lambda>_ _. 0), ke_popf = (\<lambda>v _. v),
     ke_cpuid = (\<lambda>_ _. \<lparr>cr_eax = 1, cr_ebx = 0, cr_ecx = 0, cr_edx = 0\<rparr>), ke_str_at = (\<lambda>_. []),
     ke_buf = (\<lambda>_. replicate 1024 (CHR 0x00)), ke_beyond = (\<lambda>_ _. 0)\<rparr>"

definition boot_zero :: boot_state where
  "boot_zero = \<lparr>memory_map_count = 0, memory_map = [], boot_video = boot_video_at (\<lambda>_. 0) 0, system_image = 0, system_image_size = 0\<rparr>"

definition kernel_sample :: kernel where
  "kernel_sample = \<lparr>hal_log = [], hal_eflags = 2, irq_allocated = \<lparr>bm_data = (\<lambda>_. 0), bm_nbits = 256, bm_nelems = 8\<rparr>,
     irq_descs = replicate 256 \<lparr>desc_hwirq = 0, desc_map = 0, desc_chip = 0, desc_handler = 0, desc_dev_id = 0\<rparr>,
     irq_maps = (\<lambda>_. \<lparr>map_name = 0, first_hwirq = 0, first_irq = 0, map_count = 0\<rparr>),
     ds_kern = boot_kern_sample, ds_strings = (\<lambda>_. 0), buses = [],
     ds_buses = (\<lambda>_. \<lparr>bus_name = 0, bus_drivers = [], bus_devices = [], bus_match = 0xC0106000, bus_probe = 0xC0106100\<rparr>),
     ds_devices = (\<lambda>d. if d = ki_i8254_0_device image_sample then i8254_0_device image_sample else vga_device),
     ds_drivers = (\<lambda>d. if d = ki_i8254_driver image_sample then i8254_driver image_sample else vga_text_driver image_sample),
     vram = (\<lambda>_. 0), active_con = 0,
     vga_privs = (\<lambda>_. \<lparr>vp_con = \<lparr>con_name = 0, con_width = 0, con_height = 0, cursor_x = 0, cursor_y = 0\<rparr>, vp_buffer = 0, vp_port_base = 0\<rparr>),
     sys_log = syslog_init (replicate 4096 0), timer_devices = [], timer_selected = 0,
     timers = (\<lambda>_. \<lparr>tp_timer = \<lparr>tm_name = 0, tm_mode = TIMER_DEVICE_MODE_DISABLED, min_delta_ns = 0, max_delta_ns = 0, tm_event = 0\<rparr>,
       tp_port_base = 0, tp_irq = 0\<rparr>),
     kernel_boot_state = boot_zero, k_ram = ram_sample, k_stacks = (\<lambda>_. 0), k_process_table = replicate 64 0, k_procs = (\<lambda>_. process_zero),
     k_gdt = [], k_gdtr = \<lparr>gdtr_size = 0, gdtr_offset = 0\<rparr>, k_tss = x86_tss_init, k_idt = [],
     k_idt_desc = \<lparr>idtr_size = 0, idtr_offset = 0\<rparr>, k_idtr = \<lparr>idtr_size = 0, idtr_offset = 0\<rparr>,
     k_cpu_info = \<lparr>ci_vendor = [], ci_max_basic_leaf = 0, ci_max_extended_leaf = 0, ci_leaf1 = x86_cpuid_leaf_1_zero\<rparr>, panicking = False\<rparr>"

lemma boot_sample:
  "memory_map (boot_state_at ram_sample 0xC0007000) = map_sample" "boot_readable ram_sample 0xC0007000"
  "system_image (boot_state_at ram_sample 0xC0007000) = 0xC0070000" "system_image_size (boot_state_at ram_sample 0xC0007000) = 41"
  by (simp_all add: boot_state_at_def boot_info_at_def boot_mem_map_entry_at_def read_le16_def read_le32_def read_le64_def ram_sample_def
      PHYS_TO_VIRT_def KERNEL_VIRT_OFFSET_def map_sample_def BOOT_TYPE_USABLE_def Let_def boot_readable_def boot_mapped_def
      BOOT_MEMORY_MAP_MAX_def)

lemma memory_ok_sample: "memory_ok image_sample map_sample boot_kern_sample"
  unfolding memory_ok_def using image_sample_ok boot_sample_memory
  by (intro conjI exI [of _ 768]) (simp_all add: LOWMEM_FRAMES_def boot_kern_sample_def kern_sample_def, simp add: map_sample_def)

lemma image_kept_sample: "image_kept image_sample (boot_state_at ram_sample 0xC0007000) boot_kern_sample"
proof -
  have es: "map_sample \<noteq> []" by (simp add: map_sample_def)
  obtain p where p: "mm_pmm_init image_sample map_sample boot_kern_sample = (Inr (), boot_kern_sample\<lparr>kn_mm := (kn_mm boot_kern_sample)\<lparr>xm_pmm := p\<rparr>\<rparr>)"
    "\<forall>k. frame_free p k \<longleftrightarrow> boot_free image_sample map_sample k"
    by (rule pmm_init_at_boot [OF image_sample_ok(1) es boot_sample_memory(1)])
  then have "\<not> frame_free p 112" by (simp add: init_free_def)
  moreover have "unat (ki_kernel_start image_sample) = 0xC0100000" by (simp add: image_sample_def)
  ultimately show ?thesis by (simp add: image_kept_def boot_sample p(1) upt_conv_Cons)
qed

theorem kmain_correct_witness:
  "case kmain env_sample image_sample BOOT_MAGIC 0x7000 kernel_sample of
     Kret _ _ \<Rightarrow> False | Kstuck \<Rightarrow> False | Kpanic t \<Rightarrow> panicked t | Kuser fr t \<Rightarrow> enters_user ram_sample 0xC0070000 41 fr t"
proof -
  have p: "PHYS_TO_VIRT 0x7000 = 0xC0007000" by (simp add: PHYS_TO_VIRT_def KERNEL_VIRT_OFFSET_def)
  have f: "k_ram kernel_sample = ram_sample" "ds_kern kernel_sample = boot_kern_sample" "k_process_table kernel_sample = replicate 64 0"
    by (simp_all add: kernel_sample_def)
  have i: "PHYS_TO_VIRT (info_system_image (boot_info_at ram_sample 0xC0007000)) = 0xC0070000"
    "info_system_image_size (boot_info_at ram_sample 0xC0007000) = 41"
    by (simp_all add: boot_info_at_def read_le32_def read_le64_def ram_sample_def PHYS_TO_VIRT_def KERNEL_VIRT_OFFSET_def)
  have b: "bm_nbits (pid_bm boot_kern_sample) = 64" "\<not> bitmap_test (pid_bm boot_kern_sample) 1"
    by (simp_all add: boot_kern_sample_def kern_sample_def bitmap_test_def MASK_TEST_def)
  from kmain_correct [where s = kernel_sample and phys = "0x7000" and I = image_sample and K = env_sample and magic = BOOT_MAGIC] show ?thesis
    by (simp add: p f i b boot_sample memory_ok_sample image_kept_sample map_sample_total split: kresult.splits)
qed

end
