(* ===== verification/Kmain_Start.thy ===== *)
theory Kmain_Start
  imports Kmain_Props Irq_Props
begin

text \<open>
  The first half of \<open>kmain\<close> succeeds: on a machine with the memory, the processor and the static tables that the
  kernel expects, every call up to the creation of the system process returns, and the kernel's tables,
  interrupt numbers and page tables are in place, whatever the drivers find.
\<close>

subsection \<open>Actions that return\<close>

definition returns :: "('a \<Rightarrow> kernel \<Rightarrow> bool) \<Rightarrow> 'a kresult \<Rightarrow> bool" where
  "returns P r \<longleftrightarrow> (\<exists>v s. r = Kret v s \<and> P v s)"

lemma returns_Kret [simp]: "returns P (Kret v s) = P v s"
  by (auto simp: returns_def)

lemma returns_kthen:
  assumes "returns P (a s)" and "\<And>v t. P v t \<Longrightarrow> returns Q (f v t)"
  shows "returns Q (kthen a f s)"
  using assms by (auto simp: returns_def kthen_def)

lemma returns_or_panic:
  assumes "f s = (Inr v, t)" and "P v t"
  shows "returns P (or_panic K msg f s)"
  using assms by (simp add: or_panic_def kthen_def kcall_def)

lemma returns_kfor:
  assumes "P s" and "\<And>x t. P t \<Longrightarrow> returns (\<lambda>_. P) (body x t)"
  shows "returns (\<lambda>_. P) (kfor xs body s)"
  using assms(1)
proof (induction xs arbitrary: s)
  case (Cons x xs)
  have "returns (\<lambda>_. P) (kthen (body x) (\<lambda>_. kfor xs body) s)"
    by (rule returns_kthen [where P = "\<lambda>_. P"]) (use Cons assms(2) in auto)
  then show ?case by simp
qed simp

text \<open>Such an action also ends as the judgement of \<open>Kmain_Logic\<close> says.\<close>

lemma returns_ends:
  assumes "returns P r" and "ends Q U r"
  shows "returns (\<lambda>v s. P v s \<and> Q v s) r"
  using assms by (auto simp: returns_def)

subsection \<open>What messages and drivers leave alone\<close>

definition desc_line :: "irq_desc \<Rightarrow> u32 \<times> vaddr \<times> vaddr" where
  "desc_line d = (desc_hwirq d, desc_map d, desc_chip d)"

record kbase =
  b_tables :: "x86_gdt_raw_entry list \<times> x86_gdt_descriptor \<times> x86_tss \<times> x86_idt_raw_entry list \<times> x86_idt_descriptor"
  b_buses :: "vaddr list"
  b_lines :: "(vaddr \<Rightarrow> irq_map) \<times> bitmap \<times> (u32 \<times> vaddr \<times> vaddr) list"
  b_mm :: "x86_mm \<times> arch_vm_space \<times> bitmap"

definition kern_base :: "kern \<Rightarrow> x86_mm \<times> arch_vm_space \<times> bitmap" where
  "kern_base k = (kn_mm k, kernel_vm k, kernel_stack_bm k)"

definition kbase_of :: "kernel \<Rightarrow> kbase" where
  "kbase_of s = \<lparr>b_tables = (k_gdt s, k_gdtr s, k_tss s, k_idt s, k_idtr s), b_buses = buses s,
     b_lines = (irq_maps s, irq_allocated s, map desc_line (irq_descs s)), b_mm = kern_base (ds_kern s)\<rparr>"

lemma kbase_update [simp]:
  "kbase_of (set_device d f s) = kbase_of s" "kbase_of (set_bus b g s) = kbase_of s" "kbase_of (set_driver r h s) = kbase_of s"
  "kbase_of (set_con con j s) = kbase_of s" "kbase_of (vga_store con i v s) = kbase_of s" "kbase_of (vga_out con off w s) = kbase_of s"
  "kbase_of (s\<lparr>vga_privs := vp\<rparr>) = kbase_of s" "kbase_of (s\<lparr>active_con := a\<rparr>) = kbase_of s" "kbase_of (s\<lparr>timers := tm\<rparr>) = kbase_of s"
  "kbase_of (set_timer t q s) = kbase_of s" "kbase_of (s\<lparr>timer_devices := td, timer_selected := ts\<rparr>) = kbase_of s"
  "kbase_of (s\<lparr>sys_log := l\<rparr>) = kbase_of s" "kbase_of (s\<lparr>kernel_boot_state := bs\<rparr>) = kbase_of s"
  "kbase_of (s\<lparr>hal_log := hl\<rparr>) = kbase_of s"
  by (simp_all add: kbase_of_def set_device_def set_bus_def set_driver_def set_con_def vga_store_def vga_out_def set_timer_def hal_simps)

lemma kbase_kern: "kern_base k = kern_base (ds_kern s) \<Longrightarrow> kbase_of (s\<lparr>ds_kern := k\<rparr>) = kbase_of s"
  by (simp add: kbase_of_def)

lemma kmalloc_base: "kn_kmalloc sz k = (p, k') \<Longrightarrow> kern_base k' = kern_base k"
  by (auto simp: kn_kmalloc_def kern_base_def split: option.splits)

lemma kfree_base [simp]: "kern_base (kn_kfree p k) = kern_base k"
  by (simp add: kn_kfree_def kern_base_def)

text \<open>A message changes neither these nor the buses.\<close>

definition kmsg :: "kernel \<Rightarrow> kbase \<times> (vaddr \<Rightarrow> bus) \<times> irq_desc list" where
  "kmsg s = (kbase_of s, ds_buses s, irq_descs s)"

lemma kmsg_vga [simp]:
  "kmsg (set_con con f s) = kmsg s" "kmsg (vga_store con i v s) = kmsg s" "kmsg (vga_out con off w s) = kmsg s"
  "kmsg (s\<lparr>sys_log := l\<rparr>) = kmsg s" "kmsg (s\<lparr>kernel_boot_state := bs\<rparr>) = kmsg s"
  by (simp_all add: kmsg_def) (simp_all add: set_con_def vga_store_def vga_out_def hal_simps)

lemma keeps_for: "(\<And>i t. P (f i t) = P t) \<Longrightarrow> P (for_u32 a b f s) = P s"
proof -
  assume f: "\<And>i t. P (f i t) = P t"
  have "P (fold f xs s) = P s" for xs by (induction xs arbitrary: s) (simp_all add: f)
  then show ?thesis by (simp add: for_u32_def)
qed

lemma kmsg_console_write: "kmsg (snd (console_write (console_code K) buf len s)) = kmsg s"
proof -
  have "kmsg (vga_write_char con c t) = kmsg t" for con c t
    by (simp add: vga_write_char_def vga_put_def vga_scroll_def Let_def keeps_for [where P = kmsg])
  then show ?thesis
    by (simp add: console_write_def console_code_def vga_text_ops_def vga_text_console_write_def vga_text_update_cursor_def Let_def
        keeps_for [where P = kmsg] split: option.split)
qed

lemma returns_kprintk:
  assumes "fmt_args fmt \<le> length args"
  shows "returns (\<lambda>_ t. kmsg t = kmsg s \<and> kview t = kview s) (kprintk K fmt args s)"
proof -
  obtain n text' where "vsnprintf (ke_str_at K) (ke_buf K s) 1024 fmt args = Some (n, text')"
    using fmt_text_enough [OF assms, of "ke_str_at K"] by (auto simp: vsnprintf_def format_loop_eq)
  then have "returns (\<lambda>_ t. kmsg t = kmsg s) (kprintk K fmt args s)"
    by (simp add: kprintk_def printk_def vprintk_def Let_def kmsg_console_write)
  from returns_ends [OF this ends_kprintk [OF assms]] show ?thesis .
qed

lemma returns_pr:
  assumes "fmt_args fmt \<le> length args"
  shows "returns (\<lambda>_ t. kmsg t = kmsg s \<and> kview t = kview s) (pr_err K fmt args s)"
    "returns (\<lambda>_ t. kmsg t = kmsg s \<and> kview t = kview s) (pr_debug K fmt args s)"
  unfolding pr_err_def pr_debug_def
  by (intro returns_kprintk; use assms in \<open>simp add: PRINTK_ERR_def PRINTK_DEBUG_def\<close>)+

lemma returns_boot_init:
  assumes "boot_readable (k_ram s) p"
  shows "returns (\<lambda>_ t. kmsg t = kmsg s \<and> kview t = kview (s\<lparr>kernel_boot_state := boot_state_at (k_ram s) p\<rparr>)) (boot_init K p s)"
proof -
  let ?b = "boot_state_at (k_ram s) p"
  let ?s = "s\<lparr>kernel_boot_state := ?b\<rparr>"
  let ?P = "\<lambda>t. kmsg t = kmsg ?s \<and> kview t = kview ?s"
  have pr: "returns (\<lambda>_. ?P) (pr_debug K fmt args t)" if "?P t" "fmt_args fmt \<le> length args" for fmt args t
    using returns_pr(2) [OF that(2), of t K] that(1) by simp
  have "returns (\<lambda>_. ?P) (boot_print K ?b ?s)"
    unfolding boot_print_def
    by (rule returns_kthen [where P = "\<lambda>_. ?P"], rule pr, simp, simp, rule returns_kthen [where P = "\<lambda>_. ?P"], rule returns_kfor, assumption)
      (auto intro!: returns_kthen [where P = "\<lambda>_. ?P"] pr simp: boot_print_entry_def simp del: kmsg_vga(5))
  then show ?thesis using assms by (simp add: boot_init_def Let_def)
qed

subsection \<open>Drivers\<close>

lemma kbase_irq: 
  "kbase_of (snd (irq_request i h p s)) = kbase_of s" "kbase_of (snd (irq_free i s)) = kbase_of s"
proof -
  have "map desc_line ((irq_descs s)[n := d]) = map desc_line (irq_descs s)" if "desc_line d = desc_line (irq_descs s ! n)" for n d
    using that by (simp add: map_update list_update_same_conv) (metis list_update_beyond list_update_id map_update not_less)
  then show "kbase_of (snd (irq_request i h p s)) = kbase_of s" "kbase_of (snd (irq_free i s)) = kbase_of s"
    by (simp_all add: irq_request_def irq_free_def Let_def kbase_of_def desc_line_def)
qed

lemma vga_probe_base: "kbase_of (snd (vga_text_probe (console_code K) d s)) = kbase_of s"
proof -
  obtain p k where m: "kn_kmalloc vga_text_priv_size (ds_kern s) = (p, k)" by fastforce
  have k: "kbase_of (s\<lparr>ds_kern := k\<rparr>) = kbase_of s" using kmalloc_base [OF m] by (simp add: kbase_kern)
  have c: "kbase_of (snd (console_clear (console_code K) t)) = kbase_of t"
    "kbase_of (snd (console_set_cursor_visible (console_code K) v t)) = kbase_of t" for t v
    by (simp_all add: console_clear_def console_set_cursor_visible_def console_code_def vga_text_ops_def vga_text_console_clear_def
        vga_text_console_set_cursor_visible_def vga_text_update_cursor_def Let_def keeps_for [where P = kbase_of] hal_simps)
  show ?thesis
    using k by (auto simp: vga_text_probe_def m Let_def console_register_def c kbase_kern split: sum.split)
qed

lemma i8254_probe_base: "kbase_of (snd (i8254_probe h d s)) = kbase_of s"
proof -
  obtain p k where m: "kn_kmalloc i8254_priv_size (ds_kern s) = (p, k)" by fastforce
  have k: "kbase_of (s\<lparr>ds_kern := k\<rparr>) = kbase_of s" using kmalloc_base [OF m] by (simp add: kbase_kern)
  have rel: "kbase_of (t\<lparr>ds_kern := kn_kfree q (ds_kern t)\<rparr>) = kbase_of t"
    "kbase_of (t\<lparr>timers := tm, ds_kern := kn_kfree q (ds_kern t)\<rparr>) = kbase_of t" for t q tm
    by (simp add: kbase_kern) (simp add: kbase_of_def)
  have claim: "kbase_of (snd (case irq_request i h p t of
      (Inl e, s) \<Rightarrow> kfail e (s\<lparr>ds_kern := kn_kfree p (ds_kern s)\<rparr>)
    | (Inr _, s) \<Rightarrow>
        let s = set_device d (\<lambda>d. d\<lparr>dev_driver_data := p\<rparr>) s
        in case timer_device_register p s of
             (Inl e, s) \<Rightarrow> kfail e (set_device d (\<lambda>d. d\<lparr>dev_driver_data := 0\<rparr>)
               ((snd (irq_free i s))\<lparr>ds_kern := kn_kfree p (ds_kern (snd (irq_free i s)))\<rparr>))
           | (Inr _, s) \<Rightarrow> kret () s)) = kbase_of t" for i t
  proof -
    obtain r u where "irq_request i h p t = (r, u)" by fastforce
    then show ?thesis using kbase_irq(1) [of i h p t]
      by (cases r) (simp_all add: rel timer_device_register_def Let_def kbase_irq)
  qed
  show ?thesis
    using k rel claim by (simp add: i8254_probe_def m Let_def split: sum.split)
qed

interpretation kbb: bus_invariant "\<lambda>s. kbase_of s = b" "kernel_probes K I" for b K I
  by unfold_locales (simp_all add: kernel_probes_def vga_probe_base i8254_probe_base)

lemma initcall_base: "kbase_of (snd (initcall_run K I f s)) = kbase_of s"
  by (cases f)
    (simp_all add: initcall_run_def vga_text_driver_init_def i8254_driver_init_def vga_device_init_def i8254_device_init_def
      kernel_bus_def Let_def kbb.P_register_device kbb.P_register_driver)

lemma returns_initcalls: "returns (\<lambda>_ t. kbase_of t = kbase_of s) (initcalls_invoke_range K I ics s)"
proof (induction ics arbitrary: s)
  case (Cons ic ics)
  let ?P = "\<lambda>t. kbase_of t = kbase_of s"
  obtain r t where run: "initcall_run K I (ic_fn ic) s = (r, t)" by fastforce
  then have t: "?P t" using initcall_base [of K I "ic_fn ic" s] by simp
  have pr: "returns (\<lambda>_. ?P) (pr_err K fmt args u)" "returns (\<lambda>_. ?P) (pr_debug K fmt args u)"
    if "?P u" "fmt_args fmt \<le> length args" for fmt args u
    using returns_pr [OF that(2), of u K] that(1) by (auto simp: returns_def kmsg_def)
  have "returns (\<lambda>_. ?P) (case r of
      Inl e \<Rightarrow> kthen (pr_err K (''initcall: %s failed'' @ nl) [ic_name ic]) (\<lambda>_. Kret (Inl e)) t
    | Inr _ \<Rightarrow> kthen (pr_debug K (''initcall: %s succeed'' @ nl) [ic_name ic]) (\<lambda>_. initcalls_invoke_range K I ics) t)"
  proof (cases r)
    case (Inl e)
    then show ?thesis by (auto intro!: returns_kthen [where P = "\<lambda>_. ?P"] pr t)
  next
    case (Inr v)
    have "returns (\<lambda>_. ?P) (initcalls_invoke_range K I ics u)" if "?P u" for u using Cons.IH [of u] that by simp
    then show ?thesis using Inr by (auto intro!: returns_kthen [where P = "\<lambda>_. ?P"] pr t)
  qed
  then show ?case by (cases r) (simp_all add: kthen_def kcall_def run)
qed simp

subsection \<open>The kernel after its start\<close>

text \<open>What the memory managers leave behind, as in the theorem about \<open>mm_init\<close>.\<close>

definition mm_ready :: "kimage \<Rightarrow> boot_mem_map_entry list \<Rightarrow> kern \<Rightarrow> bool" where
  "mm_ready I es k \<longleftrightarrow> (\<exists>F. kern_inv k F \<and> stacks_ok k \<and> xm_cr3 (kn_mm k) = ucast (pd_phys (kernel_vm k))
     \<and> (\<forall>p. unat p < 0x30000000 \<longrightarrow> fst (vm_kern_translate (PHYS_TO_VIRT p) True k) = Inr p)
     \<and> (\<forall>v. (unat (ki_text_start I) \<le> unat v \<and> unat v < unat (ki_text_end I))
            \<or> (unat (ki_rodata_start I) \<le> unat v \<and> unat v < unat (ki_rodata_end I)) \<longrightarrow> \<not> writable (kn_mm k) F v)
     \<and> (\<forall>g. frame_free (xm_pmm (kn_mm k)) g \<longrightarrow> boot_free I es g))"

text \<open>The tables of the processor that \<open>arch_init\<close> loads.\<close>

definition tables_ready :: "kimage \<Rightarrow> kernel \<Rightarrow> bool" where
  "tables_ready I s \<longleftrightarrow> (k_gdt s, k_gdtr s) = x86_gdt_init (ki_gdt I) (ki_tss I) \<and> k_tss s = x86_tss_init
     \<and> k_idt s = x86_isr_init (ki_isr_stub_table I) (fst (x86_idt_init (ki_idt I))) \<and> k_idtr s = snd (x86_idt_init (ki_idt I))"

lemma mm_ready_cong: "kern_base k = kern_base l \<Longrightarrow> mm_ready I es k = mm_ready I es l"
  by (simp add: mm_ready_def kern_base_def kern_inv_def stacks_ok_def vm_kern_translate_def kzoom_def split: prod.split)

lemma base_cong:
  assumes "kbase_of t = kbase_of s"
  shows "mm_ready I es (ds_kern t) = mm_ready I es (ds_kern s)" "tables_ready I t = tables_ready I s" "buses t = buses s"
    "pic_routed chip mp t = pic_routed chip mp s"
proof -
  have f: "kern_base (ds_kern t) = kern_base (ds_kern s)" "irq_maps t = irq_maps s" "irq_allocated t = irq_allocated s"
    "map desc_line (irq_descs t) = map desc_line (irq_descs s)"
    using assms by (simp_all add: kbase_of_def)
  show "mm_ready I es (ds_kern t) = mm_ready I es (ds_kern s)" using f(1) by (rule mm_ready_cong)
  show "tables_ready I t = tables_ready I s" "buses t = buses s" using assms by (simp_all add: kbase_of_def tables_ready_def)
  have "length (irq_descs t) = length (irq_descs s)" using f(4) by (rule map_eq_imp_length_eq)
  moreover have "desc_line (irq_descs t ! i) = desc_line (irq_descs s ! i)" if "i < length (irq_descs s)" for i
    using that f(4) calculation by (metis nth_map)
  ultimately show "pic_routed chip mp t = pic_routed chip mp s"
    by (auto simp: pic_routed_def f(2,3) Let_def desc_line_def)
qed

text \<open>An interrupt layer that nothing has used: unconfigured descriptors and sixteen free numbers in a row.\<close>

definition irqs_fresh :: "irq_desc list \<Rightarrow> bitmap \<Rightarrow> bool" where
  "irqs_fresh ds bm \<longleftrightarrow> length ds = 256 \<and> (\<forall>d\<in>set ds. desc_map d = 0) \<and> (\<exists>p. p + 16 \<le> 256 \<and> bm_run bm p 16)"

definition pointers_ok :: "kimage \<Rightarrow> bool" where
  "pointers_ok I \<longleftrightarrow> ki_i8259_chip I \<noteq> 0 \<and> ki_i8259_map I \<noteq> 0 \<and> ki_i8259_name I \<noteq> 0 \<and> ki_platform_bus I \<noteq> 0"

lemma irqs_fresh_init: "irqs_fresh ds bm \<Longrightarrow> irqs_fresh ds (bitmap_init bm (bm_data bm) n)"
  by (simp add: irqs_fresh_def bm_run_def bm_free_def bitmap_init_def bitmap_test_def)

text \<open>Up to the memory managers nothing but the boot information and the memory changes.\<close>

definition before_arch :: "kimage \<Rightarrow> boot_mem_map_entry list \<Rightarrow> kernel \<Rightarrow> kernel \<Rightarrow> bool" where
  "before_arch I es s t \<longleftrightarrow> mm_ready I es (ds_kern t) \<and> ds_buses t = ds_buses s \<and> irq_descs t = irq_descs s \<and> irq_allocated t = irq_allocated s"

lemma returns_mm_init:
  assumes mem: "memory_ok I (memory_map (kernel_boot_state t)) (ds_kern t)" and img: "image_kept I (kernel_boot_state t) (ds_kern t)"
    and t: "kmsg t = kmsg s"
  shows "returns (\<lambda>_. before_arch I (memory_map (kernel_boot_state t)) s) (kmain_mm K I t)"
proof -
  let ?es = "memory_map (kernel_boot_state t)"
  obtain a where a: "257 \<le> card {f. f < min a 1024 \<and> boot_free I ?es f}" "\<forall>j<256. boot_free I ?es (a + j)" "a + 256 \<le> LOWMEM_FRAMES"
    using mem unfolding memory_ok_def by blast
  from mm_init_spec [OF _ _ _ _ this, of "ds_kern t"] mem obtain k F where
    "mm_init I ?es (ds_kern t) = Some (Inr (), k)" "kern_inv k F" "stacks_ok k" "xm_cr3 (kn_mm k) = ucast (pd_phys (kernel_vm k))"
    "\<forall>p. unat p < 0x30000000 \<longrightarrow> fst (vm_kern_translate (PHYS_TO_VIRT p) True k) = Inr p"
    "\<forall>v. (unat (ki_text_start I) \<le> unat v \<and> unat v < unat (ki_text_end I))
       \<or> (unat (ki_rodata_start I) \<le> unat v \<and> unat v < unat (ki_rodata_end I)) \<longrightarrow> \<not> writable (kn_mm k) F v"
    "\<forall>g. frame_free (xm_pmm (kn_mm k)) g \<longrightarrow> boot_free I ?es g"
    unfolding memory_ok_def by blast
  then have "mm_init I ?es (ds_kern t) = Some (Inr (), k)" "mm_ready I ?es k" unfolding mm_ready_def by blast+
  then show ?thesis using t img by (simp add: kmain_mm_def before_arch_def kmsg_def kbase_of_def)
qed

lemma returns_arch_init:
  assumes t: "before_arch I es s t" and cpu: "\<And>f. fst (x86_cpuid_supported (ke_popf K) f)"
  shows "returns (\<lambda>_ u. before_arch I es s u \<and> tables_ready I u) (arch_init K I t)"
proof -
  have "\<exists>i e. x86_cpu_detect (ke_popf K) (ke_cpuid K) f = (True, i, e)" for f
    using cpu [of f] by (cases "x86_cpuid_supported (ke_popf K) f") (simp add: x86_cpu_detect_def Let_def)
  then obtain i e where "x86_cpu_detect (ke_popf K) (ke_cpuid K) (x86_cld (x86_cli (hal_eflags t))) = (True, i, e)" by blast
  then show ?thesis
    using t by (simp add: arch_init_def Let_def before_arch_def tables_ready_def split: prod.split)
qed

text \<open>With the processor's tables in place.\<close>

definition after_arch :: "kimage \<Rightarrow> boot_mem_map_entry list \<Rightarrow> kernel \<Rightarrow> kernel \<Rightarrow> bool" where
  "after_arch I es s t \<longleftrightarrow> mm_ready I es (ds_kern t) \<and> tables_ready I t \<and> ds_buses t = ds_buses s"

lemma returns_irq_init:
  assumes "before_arch I es s t" and "tables_ready I t" and "irqs_fresh (irq_descs s) (irq_allocated s)"
  shows "returns (\<lambda>_ u. after_arch I es s u \<and> irqs_fresh (irq_descs u) (irq_allocated u)) (or_panic K msg irq_init t)"
  by (rule returns_or_panic [where v = "()"], simp add: irq_init_def)
    (use assms in \<open>simp add: before_arch_def after_arch_def tables_ready_def irqs_fresh_init\<close>)

lemma returns_irqchip_init:
  assumes t: "after_arch I es s t" "irqs_fresh (irq_descs t) (irq_allocated t)" and ptr: "pointers_ok I"
  shows "returns (\<lambda>_ u. after_arch I es s u \<and> pic_routed (ki_i8259_chip I) (ki_i8259_map I) u)
    (or_panic K msg (arch_irqchip_init (ke_dev K) (ki_i8259_chip I) (ki_i8259_map I) (ki_i8259_name I)) t)"
proof -
  obtain p where "length (irq_descs t) = 256" "\<forall>d\<in>set (irq_descs t). desc_map d = 0" "p + 16 \<le> 256" "bm_run (irq_allocated t) p 16"
    using t(2) unfolding irqs_fresh_def by blast
  from i8259_init_run [OF this, of "ki_i8259_map I" "ki_i8259_chip I" "ki_i8259_name I" "ke_dev K"] ptr
  obtain u where u: "arch_irqchip_init (ke_dev K) (ki_i8259_chip I) (ki_i8259_map I) (ki_i8259_name I) t = (Inr (), u)"
    "pic_routed (ki_i8259_chip I) (ki_i8259_map I) u"
    by (auto simp: pointers_ok_def arch_irqchip_init_def kerr_try_def)
  have "after_arch I es s (snd (arch_irqchip_init (ke_dev K) (ki_i8259_chip I) (ki_i8259_map I) (ki_i8259_name I) t))"
    using t(1) by (intro irqchip_inv [where P = "after_arch I es s"]) (simp_all add: after_arch_def tables_ready_def)
  then show ?thesis using u by (intro returns_or_panic [where v = "()"]) simp_all
qed

text \<open>All of the above, with the platform bus; messages and drivers keep it.\<close>

definition started :: "kimage \<Rightarrow> boot_mem_map_entry list \<Rightarrow> kernel \<Rightarrow> bool" where
  "started I es t \<longleftrightarrow> mm_ready I es (ds_kern t) \<and> tables_ready I t \<and> pic_routed (ki_i8259_chip I) (ki_i8259_map I) t
     \<and> ki_platform_bus I \<in> set (buses t)"

lemma started_cong: "kbase_of t = kbase_of s \<Longrightarrow> started I es t = started I es s"
  by (simp add: started_def base_cong [of t s])

lemma returns_platform_init:
  assumes t: "after_arch I es s t" "pic_routed (ki_i8259_chip I) (ki_i8259_map I) t" and ptr: "pointers_ok I"
    and bus: "bus_match (ds_buses s (ki_platform_bus I)) \<noteq> 0" "bus_probe (ds_buses s (ki_platform_bus I)) \<noteq> 0"
  shows "returns (\<lambda>_. started I es) (or_panic K msg (platform_init (ki_platform_bus I)) t)"
proof (rule returns_or_panic [where v = "()"])
  let ?u = "set_bus (ki_platform_bus I) (\<lambda>bs. bs\<lparr>bus_devices := [], bus_drivers := []\<rparr>) t"
  show "platform_init (ki_platform_bus I) t = (Inr (), ?u\<lparr>buses := buses ?u @ [ki_platform_bus I]\<rparr>)"
    using assms by (simp add: platform_init_def bus_register_def bus_init_def after_arch_def pointers_ok_def set_bus_def)
  show "started I es (?u\<lparr>buses := buses ?u @ [ki_platform_bus I]\<rparr>)"
    using t by (simp add: started_def after_arch_def tables_ready_def pic_routed_def set_bus_def)
qed

lemma kmain_init_starts:
  assumes count: "boot_readable (k_ram s) (PHYS_TO_VIRT phys)"
    and mem: "memory_ok I (memory_map (boot_state_at (k_ram s) (PHYS_TO_VIRT phys))) (ds_kern s)"
    and img: "image_kept I (boot_state_at (k_ram s) (PHYS_TO_VIRT phys)) (ds_kern s)"
    and cpu: "\<And>f. fst (x86_cpuid_supported (ke_popf K) f)"
    and irq: "irqs_fresh (irq_descs s) (irq_allocated s)" and ptr: "pointers_ok I"
    and bus: "bus_match (ds_buses s (ki_platform_bus I)) \<noteq> 0" "bus_probe (ds_buses s (ki_platform_bus I)) \<noteq> 0"
  shows "returns (\<lambda>_. started I (memory_map (boot_state_at (k_ram s) (PHYS_TO_VIRT phys)))) (kmain_init K I BOOT_MAGIC phys s)"
proof -
  let ?b = "boot_state_at (k_ram s) (PHYS_TO_VIRT phys)"
  define es where "es = memory_map ?b"
  let ?B = "\<lambda>t. kmsg t = kmsg s \<and> kview t = kview (s\<lparr>kernel_boot_state := ?b\<rparr>)"
  let ?R = "\<lambda>t. after_arch I es s t \<and> pic_routed (ki_i8259_chip I) (ki_i8259_map I) t"
  let ?F = "\<lambda>t. after_arch I es s t \<and> irqs_fresh (irq_descs t) (irq_allocated t)"
  have boot: "returns (\<lambda>_. ?B) (boot_init K (PHYS_TO_VIRT phys) t)" if "t = s\<lparr>sys_log := l\<rparr>" for t l
  proof -
    have "kview (t\<lparr>kernel_boot_state := ?b\<rparr>) = kview (s\<lparr>kernel_boot_state := ?b\<rparr>)" "kmsg t = kmsg s" "k_ram t = k_ram s"
      using that by (simp_all add: kview_def psys_of_def)
    then show ?thesis using returns_boot_init [of t "PHYS_TO_VIRT phys" K] count by simp
  qed
  have mm: "returns (\<lambda>_. before_arch I es s) (kmain_mm K I t)" if "?B t" for t
  proof -
    have f: "kernel_boot_state t = ?b" "ds_kern t = ds_kern s" using that by (simp_all add: kview_def psys_of_def)
    then show ?thesis using returns_mm_init [of I t s K] mem img that by (simp add: es_def)
  qed
  have keep: "started I es t" if "kbase_of t = kbase_of u" "started I es u" for t u using started_cong [OF that(1)] that(2) by simp
  have calls: "returns (\<lambda>_. started I es) (initcalls_invoke_devdrv K I t)" if "started I es t" for t
    using returns_initcalls [of t K I "ki_initcall_devdrv I"] that keep [of _ t] unfolding initcalls_invoke_devdrv_def returns_def by blast
  have pid: "returns (\<lambda>_. started I es) (kcall (k_kern pid_init) t)" if "started I es t" for t
  proof -
    have "kbase_of (t\<lparr>ds_kern := (ds_kern t)\<lparr>pid_bm := x\<rparr>\<rparr>) = kbase_of t" for x by (rule kbase_kern) (simp add: kern_base_def)
    then show ?thesis using that keep [of _ t] by (simp add: kcall_def k_kern_def kzoom_def pid_init_def)
  qed
  have say: "returns (\<lambda>_. started I es) (kprintk K (''Welcome to ItWorksOS'' @ nl) [] t)" if "started I es t" for t
    using returns_kprintk [of "''Welcome to ItWorksOS'' @ nl" "[]" t K] that keep [of _ t] by (fastforce simp: returns_def kmsg_def)
  show ?thesis unfolding kmain_init_def es_def [symmetric]
    by (rule returns_kthen [where P = "\<lambda>_ t. t = s\<lparr>sys_log := syslog_init (replicate (unat SYSLOG_BUFFER_SIZE) 0)\<rparr>"], simp add: kdo_def,
        rule returns_kthen [where P = "\<lambda>_. ?B"], erule boot, rule returns_kthen [where P = "\<lambda>_. ?B"], simp,
        rule returns_kthen [where P = "\<lambda>_. before_arch I es s"], erule mm,
        rule returns_kthen, erule returns_arch_init [OF _ cpu],
        rule returns_kthen [where P = "\<lambda>_. ?F"], elim conjE, erule (1) returns_irq_init [OF _ _ irq],
        rule returns_kthen [where P = "\<lambda>_. ?R"], elim conjE, erule (1) returns_irqchip_init [OF _ _ ptr],
        rule returns_kthen [where P = "\<lambda>_. started I es"], elim conjE, erule (1) returns_platform_init [OF _ _ ptr bus],
        rule returns_kthen [where P = "\<lambda>_. started I es"], erule calls,
        rule returns_kthen [where P = "\<lambda>_. started I es"], erule pid, erule say)
qed

subsection \<open>The claim\<close>

lemma image_kept_safe:
  assumes kept: "image_kept I b k" and mem: "memory_ok I (memory_map b) k"
    and free: "\<forall>g. frame_free (xm_pmm (kn_mm (ps_kern ps))) g \<longrightarrow> boot_free I (memory_map b) g"
  shows "image_safe (system_image b) (system_image_size b) ps"
  unfolding image_safe_def
proof (intro allI impI)
  fix d f assume d: "d < system_image_size b" and f: "f < LOWMEM_FRAMES" "ps_free ps f"
  let ?img = "unat (system_image b)" and ?n = "unat (system_image_size b)"
  obtain p where p: "mm_pmm_init I (memory_map b) k = (Inr (), k\<lparr>kn_mm := (kn_mm k)\<lparr>xm_pmm := p\<rparr>\<rparr>)"
    "\<forall>k. frame_free p k \<longleftrightarrow> boot_free I (memory_map b) k"
    using mem unfolding memory_ok_def by (metis pmm_init_at_boot)
  have dn: "unat d < ?n" using d by (simp add: word_less_nat_alt)
  have i: "0xC0000000 \<le> ?img" "?img + ?n \<le> 0xF0000000"
      "\<forall>g\<in>set [(?img - 0xC0000000) div 4096..<(?img - 0xC0000000 + ?n + 4095) div 4096]. \<not> frame_free p g"
    using kept dn by (simp_all add: image_kept_def p(1) Let_def list_all_iff)
  show "system_image b + d \<notin> frame_bytes f"
  proof
    assume "system_image b + d \<in> frame_bytes f"
    moreover have "unat (system_image b + d) = ?img + unat d" using i dn by (intro unat_add_nowrap) simp
    ultimately have r: "4096 * f \<le> ?img - 0xC0000000 + unat d" "?img - 0xC0000000 + unat d < 4096 * f + 4096"
      using i(1) by (auto simp: frame_bytes_def)
    then have "(?img - 0xC0000000) div 4096 \<le> f" "f < (?img - 0xC0000000 + ?n + 4095) div 4096" using dn by linarith+
    then show False using i(3) p(2) free f(2) by auto
  qed
qed

text \<open>
  C15. The first half of \<open>kmain\<close> comes through on a machine that the kernel is made for: the boot information lies in the first 4 MiB,
  the memory map fits and offers enough memory there and below 768 MiB, the system image overlaps neither the kernel with its frame
  bitmap nor usable frames, the processor has CPUID, and the interrupt layer and the platform bus are as the linker left
  them. For every device behind the ports and every list of initialisation calls, whether they fail or not, it
  returns, in a state where: the kernel runs on its own complete page tables, with the direct map in place and its code and
  read-only data write protected; the processor uses the kernel's segment, task and interrupt tables; the sixteen lines of
  the interrupt controllers have kernel numbers with configured descriptors; the platform bus is registered; the heap is
  the result of a run of allocations; the boot information is the loader's; the bytes of the system image are untouched and lie in
  no frame that can still be handed out; process number 0 is reserved, and there is no process yet.
\<close>

theorem kmain_init_correct:
  assumes "boot_readable (k_ram s) (PHYS_TO_VIRT phys)"
    and "memory_ok I (memory_map (boot_state_at (k_ram s) (PHYS_TO_VIRT phys))) (ds_kern s)"
    and "image_kept I (boot_state_at (k_ram s) (PHYS_TO_VIRT phys)) (ds_kern s)"
    and "\<And>f. fst (x86_cpuid_supported (ke_popf K) f)"
    and "irqs_fresh (irq_descs s) (irq_allocated s)" and "pointers_ok I"
    and "bus_match (ds_buses s (ki_platform_bus I)) \<noteq> 0" and "bus_probe (ds_buses s (ki_platform_bus I)) \<noteq> 0"
  shows "\<exists>t. kmain_init K I BOOT_MAGIC phys s = Kret () t
    \<and> mm_ready I (memory_map (boot_state_at (k_ram s) (PHYS_TO_VIRT phys))) (ds_kern t) \<and> tables_ready I t
    \<and> pic_routed (ki_i8259_chip I) (ki_i8259_map I) t \<and> ki_platform_bus I \<in> set (buses t)
    \<and> (\<exists>live. heap_run (kn_kheap (ds_kern t)) live (kn_heap (ds_kern t)))
    \<and> kernel_boot_state t = boot_state_at (k_ram s) (PHYS_TO_VIRT phys)
    \<and> (\<forall>i < system_image_size (kernel_boot_state t). k_ram t (system_image (kernel_boot_state t) + i) = k_ram s (system_image (kernel_boot_state t) + i))
    \<and> image_safe (system_image (kernel_boot_state t)) (system_image_size (kernel_boot_state t)) (psys_of t)
    \<and> pid_bm (ds_kern t) = bitmap_set (pid_bm (ds_kern s)) 0 \<and> k_process_table t = k_process_table s"
proof -
  let ?b = "boot_state_at (k_ram s) (PHYS_TO_VIRT phys)"
  from returns_ends [OF kmain_init_starts [OF assms] ends_kmain_init [OF assms(1,2,3), of BOOT_MAGIC "\<lambda>_ _. False" K]]
  obtain t where t: "kmain_init K I BOOT_MAGIC phys s = Kret () t" "started I (memory_map ?b) t"
    "kinv (k_ram s, k_stacks s, k_process_table s, k_procs s, bitmap_set (pid_bm (ds_kern s)) 0, ?b) t"
    by (auto simp: returns_def)
  have "image_safe (system_image ?b) (system_image_size ?b) (psys_of t)"
    by (rule image_kept_safe [OF assms(3,2)]) (use t(2) in \<open>auto simp: started_def mm_ready_def psys_fields\<close>)
  then show ?thesis using t by (intro exI [of _ t]) (simp add: started_def kinv_def krest_def heap_ok_def)
qed

subsection \<open>Witness\<close>

lemma cpu_sample: "fst (x86_cpuid_supported (ke_popf env_sample) f)"
proof -
  have "f XOR (f XOR X86_FLAGS_ID_MASK) = X86_FLAGS_ID_MASK" by (simp add: xor.assoc [symmetric])
  then show ?thesis by (simp add: x86_cpuid_supported_def env_sample_def MASK_TEST_def X86_FLAGS_ID_MASK_def BIT_def Let_def)
qed

lemma irqs_sample: "irqs_fresh (irq_descs kernel_sample) (irq_allocated kernel_sample)"
  by (auto simp: irqs_fresh_def kernel_sample_def bm_run_def bm_free_def bitmap_test_def MASK_TEST_def)

theorem kmain_init_correct_witness:
  "\<exists>t. kmain_init env_sample image_sample BOOT_MAGIC 0x7000 kernel_sample = Kret () t \<and> tables_ready image_sample t
     \<and> 0xC0131300 \<in> set (buses t) \<and> memory_map (kernel_boot_state t) = map_sample"
proof -
  have p: "PHYS_TO_VIRT 0x7000 = 0xC0007000" by (simp add: PHYS_TO_VIRT_def KERNEL_VIRT_OFFSET_def)
  have f: "k_ram kernel_sample = ram_sample" "ds_kern kernel_sample = boot_kern_sample"
    "bus_match (ds_buses kernel_sample b) \<noteq> 0" "bus_probe (ds_buses kernel_sample b) \<noteq> 0" for b
    by (simp_all add: kernel_sample_def)
  have i: "pointers_ok image_sample" "ki_platform_bus image_sample = 0xC0131300" by (simp_all add: pointers_ok_def image_sample_def)
  have h: "boot_readable (k_ram kernel_sample) (PHYS_TO_VIRT 0x7000)"
    "memory_ok image_sample (memory_map (boot_state_at (k_ram kernel_sample) (PHYS_TO_VIRT 0x7000))) (ds_kern kernel_sample)"
    "image_kept image_sample (boot_state_at (k_ram kernel_sample) (PHYS_TO_VIRT 0x7000)) (ds_kern kernel_sample)"
    by (simp_all add: p f boot_sample memory_ok_sample image_kept_sample)
  from kmain_init_correct [OF h cpu_sample irqs_sample i(1) f(3,4)] obtain t where
    "kmain_init env_sample image_sample BOOT_MAGIC 0x7000 kernel_sample = Kret () t" "tables_ready image_sample t"
    "ki_platform_bus image_sample \<in> set (buses t)" "kernel_boot_state t = boot_state_at (k_ram kernel_sample) (PHYS_TO_VIRT 0x7000)"
    by blast
  then show ?thesis unfolding i(2) p f(1) by (intro exI [of _ t]) (simp add: boot_sample)
qed

end
