(* ===== verification/Mkimage_Fat32.thy ===== *)
theory Mkimage_Fat32
  imports Mkimage_Tree "HOL-Library.Monad_Syntax"
begin

text \<open>
  The image builder, second part: the FAT32 writer of \<^verbatim>\<open>src/tools/mkimage/fat32.c\<close> and the program
  \<^verbatim>\<open>src/tools/mkimage/main.c\<close>. The image is the content of a file: a byte for every position and the size.
  An access outside of an array, a read through NULL, and a loop that does not end are the result
  \<open>None\<close>. File positions are natural numbers: they are computed with 64 bits, which cannot overflow
  (\<open>fat32_offset_bound\<close>); the numbers of clusters and of entries keep their 32 bits.
\<close>

subsection \<open>The image file\<close>

record image =
  img_data :: "nat \<Rightarrow> u8"
  img_size :: nat

definition img_empty :: image where
  "img_empty = \<lparr>img_data = (\<lambda>_. 0), img_size = 0\<rparr>"

text \<open>\<open>fseek\<close> to a position and \<open>fwrite\<close> of some bytes; a gap that this leaves reads as zero.\<close>

definition img_write :: "nat \<Rightarrow> u8 list \<Rightarrow> image \<Rightarrow> image" where
  "img_write off bs img =
     \<lparr>img_data = (\<lambda>i. if off \<le> i \<and> i < off + length bs then bs ! (i - off) else img_data img i),
      img_size = (if bs = [] then img_size img else max (img_size img) (off + length bs))\<rparr>"

definition put_le16 :: "u16 \<Rightarrow> u8 list" where
  "put_le16 v = [ucast v, ucast (drop_bit 8 v)]"

definition put_le32 :: "u32 \<Rightarrow> u8 list" where
  "put_le32 v = [ucast v, ucast (drop_bit 8 v), ucast (drop_bit 16 v), ucast (drop_bit 24 v)]"

definition get_le16 :: "(nat \<Rightarrow> u8) \<Rightarrow> nat \<Rightarrow> u16" where
  "get_le16 f i = ucast (f i) OR push_bit 8 (ucast (f (i + 1)))"

definition get_le32 :: "(nat \<Rightarrow> u8) \<Rightarrow> nat \<Rightarrow> u32" where
  "get_le32 f i = ucast (f i) OR push_bit 8 (ucast (f (i + 1))) OR
     push_bit 16 (ucast (f (i + 2))) OR push_bit 24 (ucast (f (i + 3)))"

subsection \<open>fat32.h\<close>

definition FAT_NAME_LEN :: nat where
  "FAT_NAME_LEN = 11"

definition ATTR_DIRECTORY :: u8 where
  "ATTR_DIRECTORY = 0x10"

definition ATTR_ARCHIVE :: u8 where
  "ATTR_ARCHIVE = 0x20"

definition FAT_FREE :: u32 where
  "FAT_FREE = 0"

definition FAT_EOF :: u32 where
  "FAT_EOF = 0x0FFFFFFF"

text \<open>The fields of the boot sectors that the program reads, with their offsets in the packed structures.\<close>

definition mbr_lba_start :: "(nat \<Rightarrow> u8) \<Rightarrow> u32" where
  "mbr_lba_start mbr = get_le32 mbr 454"

record fat32_vbr =
  bytes_per_sector :: u16
  sectors_per_cluster :: u8
  reserved_sectors :: u16
  fat_count :: u8
  media_descriptor :: u8
  total_sectors_32 :: u32
  fat_size_32 :: u32
  root_cluster :: u32

definition fat32_vbr_of :: "(nat \<Rightarrow> u8) \<Rightarrow> fat32_vbr" where
  "fat32_vbr_of b =
     \<lparr>bytes_per_sector = get_le16 b 11, sectors_per_cluster = b 13, reserved_sectors = get_le16 b 14,
      fat_count = b 16, media_descriptor = b 21, total_sectors_32 = get_le32 b 32,
      fat_size_32 = get_le32 b 36, root_cluster = get_le32 b 44\<rparr>"

record fat_dir_entry =
  de_name :: "u8 list"
  de_attr :: u8
  de_nt_res :: u8
  de_crt_time_tenth :: u8
  de_crt_time :: u16
  de_crt_date :: u16
  de_lst_acc_date :: u16
  de_fst_clus_hi :: u16
  de_wrt_time :: u16
  de_wrt_date :: u16
  de_fst_clus_lo :: u16
  de_file_size :: u32

definition fat_dir_entry_zero :: fat_dir_entry where
  "fat_dir_entry_zero =
     \<lparr>de_name = replicate 11 0, de_attr = 0, de_nt_res = 0, de_crt_time_tenth = 0, de_crt_time = 0,
      de_crt_date = 0, de_lst_acc_date = 0, de_fst_clus_hi = 0, de_wrt_time = 0, de_wrt_date = 0,
      de_fst_clus_lo = 0, de_file_size = 0\<rparr>"

definition fat_dir_entry_bytes :: "fat_dir_entry \<Rightarrow> u8 list" where
  "fat_dir_entry_bytes e =
     de_name e @ [de_attr e, de_nt_res e, de_crt_time_tenth e] @ put_le16 (de_crt_time e) @
     put_le16 (de_crt_date e) @ put_le16 (de_lst_acc_date e) @ put_le16 (de_fst_clus_hi e) @
     put_le16 (de_wrt_time e) @ put_le16 (de_wrt_date e) @ put_le16 (de_fst_clus_lo e) @
     put_le32 (de_file_size e)"

text \<open>
  The context. The root of the tree is the node that the traversals start from, so that the
  comparison with \<open>ctx->root\<close> is a flag of theirs.
\<close>

record ctx =
  ctx_image :: image
  ctx_vbr :: fat32_vbr
  ctx_fat :: "u32 list"
  ctx_partition_offset :: nat
  ctx_next_free_cluster :: u32
  ctx_allocs :: allocs

subsection \<open>Utilities\<close>

definition fat32_cluster_size :: "ctx \<Rightarrow> u32" where
  "fat32_cluster_size ctx = ucast (bytes_per_sector (ctx_vbr ctx)) * ucast (sectors_per_cluster (ctx_vbr ctx))"

definition fat32_data_offset :: "ctx \<Rightarrow> nat" where
  "fat32_data_offset ctx =
     ctx_partition_offset ctx +
     (unat (reserved_sectors (ctx_vbr ctx)) + unat (fat_count (ctx_vbr ctx)) * unat (fat_size_32 (ctx_vbr ctx))) *
       unat (bytes_per_sector (ctx_vbr ctx))"

subsection \<open>FAT table\<close>

text \<open>A store into the table, and the number of its entries as two functions compute it.\<close>

definition fat_store :: "u32 \<Rightarrow> u32 \<Rightarrow> ctx \<Rightarrow> ctx option" where
  "fat_store i v ctx =
     (if unat i < length (ctx_fat ctx) then Some (ctx\<lparr>ctx_fat := (ctx_fat ctx)[unat i := v]\<rparr>) else None)"

definition fat_entries :: "fat32_vbr \<Rightarrow> u32" where
  "fat_entries vbr = (fat_size_32 vbr * ucast (bytes_per_sector vbr)) div 4"

text \<open>The flag says that neither the context nor its boot record is NULL.\<close>

definition fat32_table_init :: "bool \<Rightarrow> ctx \<Rightarrow> (bool \<times> ctx) option" where
  "fat32_table_init ptr_ok ctx =
     (if \<not> ptr_ok then Some (False, ctx)
      else let vbr = ctx_vbr ctx; entries = fat_entries vbr
           in case host_alloc (ctx_allocs ctx) of
                (False, h) \<Rightarrow> Some (False, ctx\<lparr>ctx_fat := [], ctx_allocs := h\<rparr>)
              | (True, h) \<Rightarrow> do {
                  ctx \<leftarrow> fat_store 0 (0xFFFFFF00 OR ucast (media_descriptor vbr))
                           (ctx\<lparr>ctx_fat := replicate (unat entries) 0, ctx_allocs := h\<rparr>);
                  ctx \<leftarrow> fat_store 1 FAT_EOF ctx;
                  ctx \<leftarrow> fat_store (root_cluster vbr) FAT_EOF ctx;
                  Some (True, ctx\<lparr>ctx_next_free_cluster := root_cluster vbr + 1\<rparr>)
                })"

definition fat32_cluster_alloc :: "ctx \<Rightarrow> u32 \<times> ctx" where
  "fat32_cluster_alloc ctx =
     (case find (\<lambda>i. ctx_fat ctx ! unat i = FAT_FREE) (words_upto (ctx_next_free_cluster ctx) (fat_entries (ctx_vbr ctx))) of
        Some i \<Rightarrow> (i, ctx\<lparr>ctx_fat := (ctx_fat ctx)[unat i := FAT_EOF], ctx_next_free_cluster := i + 1\<rparr>)
      | None \<Rightarrow> (0, ctx))"

text \<open>The bytes that are written are read from the table; \<open>None\<close> when it has fewer.\<close>

definition fat32_table_flush :: "ctx \<Rightarrow> ctx option" where
  "fat32_table_flush ctx =
     (let vbr = ctx_vbr ctx;
          fat_size = unat (fat_size_32 vbr) * unat (bytes_per_sector vbr);
          first_fat = ctx_partition_offset ctx + unat (reserved_sectors vbr) * unat (bytes_per_sector vbr);
          bytes = concat (map put_le32 (ctx_fat ctx))
      in if 0 < fat_count vbr \<and> length bytes < fat_size then None
         else Some (ctx\<lparr>ctx_image := fold (\<lambda>i. img_write (first_fat + i * fat_size) (take fat_size bytes))
                                       [0..<unat (fat_count vbr)] (ctx_image ctx)\<rparr>))"

subsection \<open>Cluster write\<close>

definition fat32_write_cluster :: "u32 \<Rightarrow> u8 list \<Rightarrow> ctx \<Rightarrow> ctx" where
  "fat32_write_cluster cluster buffer ctx =
     ctx\<lparr>ctx_image := img_write (fat32_data_offset ctx + unat (cluster - 2) * unat (fat32_cluster_size ctx)) buffer
                        (ctx_image ctx)\<rparr>"

subsection \<open>File writing\<close>

text \<open>A buffer of zero bytes into which some bytes were copied at its start.\<close>

definition zero_padded :: "nat \<Rightarrow> u8 list \<Rightarrow> u8 list" where
  "zero_padded n bs = take n bs @ replicate (n - length bs) 0"

text \<open>The loop over the clusters of the file; \<open>fp\<close> is what is left to read. It returns the last cluster.\<close>

partial_function (option) fat32_write_loop ::
  "u32 \<Rightarrow> u32 \<Rightarrow> u32 \<Rightarrow> u8 list \<Rightarrow> ctx \<Rightarrow> (u32 \<times> ctx) option" where
  "fat32_write_loop remaining cluster previous fp ctx =
     (if 0 < remaining then do {
        ctx \<leftarrow> (if previous \<noteq> 0 then fat_store previous cluster ctx else Some ctx);
        let cluster_size = fat32_cluster_size ctx;
        let ctx = fat32_write_cluster cluster (zero_padded (unat cluster_size) (take (unat cluster_size) fp)) ctx;
        let remaining = remaining - (if remaining > cluster_size then cluster_size else remaining);
        let (next, ctx) = (if 0 < remaining then fat32_cluster_alloc ctx else (cluster, ctx));
        fat32_write_loop remaining next cluster (drop (unat cluster_size) fp) ctx
      } else Some (previous, ctx))"

declare fat32_write_loop.simps [code]

text \<open>The buffer is not checked for NULL before the loop writes to it.\<close>

definition fat32_write_file :: "host \<Rightarrow> fs_node \<Rightarrow> ctx \<Rightarrow> ctx option" where
  "fat32_write_file host node ctx =
     (case host (node_host_path node) of
        None \<Rightarrow> Some ctx
      | Some bytes \<Rightarrow>
          (case host_alloc (ctx_allocs ctx) of
             (ok, h) \<Rightarrow>
               if \<not> ok \<and> 0 < node_file_size node then None
               else do {
                 (previous, ctx) \<leftarrow> fat32_write_loop (node_file_size node) (first_cluster node) 0 bytes (ctx\<lparr>ctx_allocs := h\<rparr>);
                 fat_store previous FAT_EOF ctx
               }))"

subsection \<open>Directory entry\<close>

definition toupper :: "u8 \<Rightarrow> u8" where
  "toupper c = (if 0x61 \<le> c \<and> c \<le> 0x7A then c - 0x20 else c)"

text \<open>\<open>memcpy\<close> into an array, \<open>None\<close> when the bytes do not fit.\<close>

definition copy_at :: "nat \<Rightarrow> u8 list \<Rightarrow> u8 list \<Rightarrow> u8 list option" where
  "copy_at off src dst =
     (if off + length src \<le> length dst then Some (take off dst @ src @ drop (off + length src) dst) else None)"

text \<open>The name has to fit, with its NUL, in an array of \<open>FAT_NAME_LEN\<close> characters.\<close>

definition fat32_entry_name :: "string \<Rightarrow> u8 list option" where
  "fat32_entry_name name =
     (if FAT_NAME_LEN \<le> length name then None
      else let tmp = replicate FAT_NAME_LEN 0x20;
               base = map of_char (takeWhile (\<lambda>c. c \<noteq> CHR ''.'') name);
               rest = dropWhile (\<lambda>c. c \<noteq> CHR ''.'') name
           in do {
             tmp \<leftarrow> copy_at 0 base tmp;
             tmp \<leftarrow> (if rest \<noteq> [] then copy_at 8 (map of_char (tl rest)) tmp else Some tmp);
             Some (map toupper tmp)
           })"

definition fat32_create_entry :: "fs_node \<Rightarrow> fat_dir_entry option" where
  "fat32_create_entry node =
     do {
       name \<leftarrow> fat32_entry_name (node_name node);
       Some (fat_dir_entry_zero
               \<lparr>de_name := name,
                de_attr := (if is_directory node then ATTR_DIRECTORY else ATTR_ARCHIVE),
                de_fst_clus_hi := ucast (drop_bit 16 (first_cluster node)),
                de_fst_clus_lo := ucast (first_cluster node AND 0xFFFF),
                de_file_size := (if is_directory node then 0 else node_file_size node)\<rparr>)
     }"

subsection \<open>Directory write\<close>

definition fat32_dot_entry :: "string \<Rightarrow> u32 \<Rightarrow> fat_dir_entry" where
  "fat32_dot_entry name cluster =
     fat_dir_entry_zero
       \<lparr>de_name := map of_char name, de_attr := ATTR_DIRECTORY,
        de_fst_clus_hi := ucast (drop_bit 16 cluster), de_fst_clus_lo := ucast (cluster AND 0xFFFF)\<rparr>"

fun fat32_create_entries :: "fs_node list \<Rightarrow> fat_dir_entry list option" where
  "fat32_create_entries [] = Some []"
| "fat32_create_entries (n # ns) =
     do { e \<leftarrow> fat32_create_entry n; es \<leftarrow> fat32_create_entries ns; Some (e # es) }"

text \<open>
  The entries are written one after the other into a buffer of one cluster; \<open>None\<close> when they
  do not fit. \<open>parent\<close> is the first cluster of the parent, if there is one.
\<close>

definition fat32_write_directory :: "bool \<Rightarrow> u32 option \<Rightarrow> fs_node \<Rightarrow> ctx \<Rightarrow> ctx option" where
  "fat32_write_directory is_root parent node ctx =
     (let cluster_size = fat32_cluster_size ctx
      in case host_alloc (ctx_allocs ctx) of
           (False, h) \<Rightarrow> Some (ctx\<lparr>ctx_allocs := h\<rparr>)
         | (True, h) \<Rightarrow> do {
             let dots = (if is_root then []
                         else [fat32_dot_entry ''.          '' (first_cluster node),
                               fat32_dot_entry ''..         '' (case parent of Some c \<Rightarrow> c | None \<Rightarrow> 0)]);
             es \<leftarrow> fat32_create_entries (children node);
             let bytes = concat (map fat_dir_entry_bytes (dots @ es));
             if unat cluster_size < length bytes then None
             else Some (fat32_write_cluster (first_cluster node) (zero_padded (unat cluster_size) bytes) (ctx\<lparr>ctx_allocs := h\<rparr>))
           })"

subsection \<open>First step: allocate clusters\<close>

function fat32_prepare_tree :: "bool \<Rightarrow> fs_node \<Rightarrow> ctx \<Rightarrow> fs_node \<times> ctx"
  and fat32_prepare_children :: "fs_node list \<Rightarrow> ctx \<Rightarrow> fs_node list \<times> ctx" where
  "fat32_prepare_tree is_root node ctx =
     (let (c, ctx) = (if is_root then (root_cluster (ctx_vbr ctx), ctx)
                      else if first_cluster node = 0 then fat32_cluster_alloc ctx
                      else (first_cluster node, ctx))
      in case node of
           NODE_FILE n _ p s \<Rightarrow> (NODE_FILE n c p s, ctx)
         | NODE_DIRECTORY n _ ns \<Rightarrow>
             (case fat32_prepare_children ns ctx of (ns, ctx) \<Rightarrow> (NODE_DIRECTORY n c ns, ctx)))"
| "fat32_prepare_children [] ctx = ([], ctx)"
| "fat32_prepare_children (n # ns) ctx =
     (case fat32_prepare_tree False n ctx of
        (n, ctx) \<Rightarrow> (case fat32_prepare_children ns ctx of (ns, ctx) \<Rightarrow> (n # ns, ctx)))"
  by pat_completeness auto
termination
  by (relation "measure (\<lambda>x. case x of Inl (_, n, _) \<Rightarrow> size n | Inr (ns, _) \<Rightarrow> size_list size ns)") auto

subsection \<open>Second step: write data\<close>

function fat32_write_tree :: "host \<Rightarrow> bool \<Rightarrow> u32 option \<Rightarrow> fs_node \<Rightarrow> ctx \<Rightarrow> ctx option"
  and fat32_write_children :: "host \<Rightarrow> u32 option \<Rightarrow> fs_node list \<Rightarrow> ctx \<Rightarrow> ctx option" where
  "fat32_write_tree host is_root parent (NODE_FILE n c p s) ctx = fat32_write_file host (NODE_FILE n c p s) ctx"
| "fat32_write_tree host is_root parent (NODE_DIRECTORY n c ns) ctx =
     do {
       ctx \<leftarrow> fat32_write_directory is_root parent (NODE_DIRECTORY n c ns) ctx;
       fat32_write_children host (Some c) ns ctx
     }"
| "fat32_write_children host parent [] ctx = Some ctx"
| "fat32_write_children host parent (n # ns) ctx =
     do { ctx \<leftarrow> fat32_write_tree host False parent n ctx; fat32_write_children host parent ns ctx }"
  by pat_completeness auto
termination
  by (relation "measure (\<lambda>x. case x of Inl (_, _, _, n, _) \<Rightarrow> size n | Inr (_, _, ns, _) \<Rightarrow> size_list size ns)") auto

subsection \<open>main.c\<close>

definition BOOT_SECTOR_SIZE :: nat where
  "BOOT_SECTOR_SIZE = 512"

definition bytes_fun :: "u8 list \<Rightarrow> nat \<Rightarrow> u8" where
  "bytes_fun bs i = (if i < length bs then bs ! i else 0)"

text \<open>The image as it is before the tree is written: zero bytes, the two boot sectors.\<close>

definition image_init :: "u8 list \<Rightarrow> u8 list \<Rightarrow> nat \<Rightarrow> image" where
  "image_init mbr vbr partition_offset =
     (let v = fat32_vbr_of (bytes_fun vbr);
          image_size = partition_offset + unat (total_sectors_32 v) * unat (bytes_per_sector v)
      in img_write partition_offset vbr (img_write 0 mbr (img_write (image_size - 1) [0] img_empty)))"

text \<open>
  The arguments after the name of the program; \<open>writable\<close> says for which paths the image
  can be opened. The result is the exit status and the content of the image file when it was opened. A boot sector
  file that is too short leaves fields uninitialised that are read later, which is \<open>None\<close>. The input files
  are assumed not to be the image file.
\<close>

definition mkimage_main :: "host \<Rightarrow> (string \<Rightarrow> bool) \<Rightarrow> string list \<Rightarrow> allocs \<Rightarrow> (nat \<times> image option) option" where
  "mkimage_main host writable args h =
     (case args of
        [mbr_path, vbr_path, image_path, files_path] \<Rightarrow>
          (case (host mbr_path, host vbr_path, host files_path) of
             (Some mbr_file, Some vbr_file, Some files) \<Rightarrow>
               if \<not> writable image_path then Some (1, None)
               else if length mbr_file < BOOT_SECTOR_SIZE \<or> length vbr_file < BOOT_SECTOR_SIZE then None
               else do {
                 let mbr = take BOOT_SECTOR_SIZE mbr_file;
                 let vbr = take BOOT_SECTOR_SIZE vbr_file;
                 let v = fat32_vbr_of (bytes_fun vbr);
                 let partition_offset = unat (mbr_lba_start (bytes_fun mbr)) * unat (bytes_per_sector v);
                 let image = image_init mbr vbr partition_offset;
                 (root, errs, h) \<leftarrow> parse_disk_files host (map (\<lambda>b. char_of (unat b)) files) h;
                 (case root of
                    None \<Rightarrow> Some (1, Some image)
                  | Some root \<Rightarrow> do {
                      (ok, ctx) \<leftarrow> fat32_table_init True
                        \<lparr>ctx_image = image, ctx_vbr = v, ctx_fat = [], ctx_partition_offset = partition_offset,
                         ctx_next_free_cluster = 0, ctx_allocs = h\<rparr>;
                      if \<not> ok then Some (1, Some (ctx_image ctx))
                      else do {
                        let (root, ctx) = fat32_prepare_tree True root ctx;
                        ctx \<leftarrow> fat32_write_tree host True None root ctx;
                        ctx \<leftarrow> fat32_table_flush ctx;
                        Some (0, Some (ctx_image ctx))
                      }
                    })
               }
           | _ \<Rightarrow> Some (1, if writable image_path then Some img_empty else None))
      | _ \<Rightarrow> Some (1, None))"

end
