(* ===== verification/Mkimage_Alloc.thy ===== *)
theory Mkimage_Alloc
  imports Mkimage_Fat32 Iwbf
begin

text \<open>
  Clusters of the image that \<^verbatim>\<open>mkimage\<close> writes: the content of a cluster, the invariant of the
  allocation, and the chain of clusters that a file is written to.
\<close>

subsection \<open>Clusters of the image\<close>

definition clus_size :: "ctx \<Rightarrow> nat" where
  "clus_size ctx = unat (fat32_cluster_size ctx)"

definition clus_off :: "ctx \<Rightarrow> u32 \<Rightarrow> nat" where
  "clus_off ctx c = fat32_data_offset ctx + (unat c - 2) * clus_size ctx"

definition clus :: "ctx \<Rightarrow> u32 \<Rightarrow> u8 list" where
  "clus ctx c = map (img_data (ctx_image ctx)) [clus_off ctx c..<clus_off ctx c + clus_size ctx]"

text \<open>Two contexts of the same volume.\<close>

definition same_vol :: "ctx \<Rightarrow> ctx \<Rightarrow> bool" where
  "same_vol ctx ctx' \<longleftrightarrow> ctx_vbr ctx' = ctx_vbr ctx \<and> ctx_partition_offset ctx' = ctx_partition_offset ctx"

lemma same_vol_refl [simp]: "same_vol ctx ctx"
  by (simp add: same_vol_def)

lemma same_vol_trans: "same_vol a b \<Longrightarrow> same_vol b c \<Longrightarrow> same_vol a c"
  by (simp add: same_vol_def)

lemma vol_data_offset: "same_vol ctx ctx' \<Longrightarrow> fat32_data_offset ctx' = fat32_data_offset ctx"
  by (simp add: same_vol_def fat32_data_offset_def)

lemma vol_cluster_size: "same_vol ctx ctx' \<Longrightarrow> fat32_cluster_size ctx' = fat32_cluster_size ctx"
  by (simp add: same_vol_def fat32_cluster_size_def)

lemma vol_clus_size: "same_vol ctx ctx' \<Longrightarrow> clus_size ctx' = clus_size ctx"
  by (simp add: clus_size_def vol_cluster_size)

lemma vol_clus_off: "same_vol ctx ctx' \<Longrightarrow> clus_off ctx' c = clus_off ctx c"
  by (simp add: clus_off_def vol_clus_size vol_data_offset)

lemma clus_cong: "same_vol ctx ctx' \<Longrightarrow> ctx_image ctx' = ctx_image ctx \<Longrightarrow> clus ctx' c = clus ctx c"
  by (simp add: clus_def vol_clus_size vol_clus_off)

lemma clus_length [simp]: "length (clus ctx c) = clus_size ctx"
  by (simp add: clus_def)

lemma img_write_read:
  "map (img_data (img_write off bs img)) [off..<off + length bs] = bs"
  by (rule nth_equalityI) (simp_all add: img_write_def)

lemma img_write_other:
  "b \<le> off \<or> off + length bs \<le> a \<Longrightarrow> map (img_data (img_write off bs img)) [a..<b] = map (img_data img) [a..<b]"
  by (auto simp: img_write_def)

lemma unat_le_max: "unat (x :: 'a::len word) \<le> 2 ^ LENGTH('a) - 1"
  using unsigned_less [of x, where 'a=nat] by linarith

text \<open>64 bits are enough for every position of the image.\<close>

lemma fat32_offset_bound:
  fixes c :: u32
  assumes "ctx_partition_offset ctx \<le> (2 ^ 32 - 1) * (2 ^ 16 - 1)"
  shows "fat32_data_offset ctx + unat (c - 2) * unat (fat32_cluster_size ctx) + unat (fat32_cluster_size ctx) < 2 ^ 63"
proof -
  let ?v = "ctx_vbr ctx"
  have b: "unat (reserved_sectors ?v) \<le> 2 ^ 16 - 1" "unat (fat_count ?v) \<le> 2 ^ 8 - 1" "unat (bytes_per_sector ?v) \<le> 2 ^ 16 - 1"
     "unat (fat_size_32 ?v) \<le> 2 ^ 32 - 1" "unat (c - 2) \<le> 2 ^ 32 - 1" "unat (fat32_cluster_size ctx) \<le> 2 ^ 32 - 1"
    using unat_le_max [of "reserved_sectors ?v"] unat_le_max [of "fat_count ?v"] unat_le_max [of "bytes_per_sector ?v"]
      unat_le_max [of "fat_size_32 ?v"] unat_le_max [of "c - 2"] unat_le_max [of "fat32_cluster_size ctx"] by simp_all
  have s: "unat (fat32_cluster_size ctx) \<le> (2 ^ 16 - 1) * (2 ^ 8 - 1)"
  proof -
    have "unat (fat32_cluster_size ctx) \<le> unat (bytes_per_sector ?v) * unat (sectors_per_cluster ?v)"
      unfolding fat32_cluster_size_def by (simp add: unat_word_ariths unsigned_ucast_eq)
        (meson le_trans mod_less_eq_dividend mult_le_mono take_bit_nat_less_eq_self)
    also have "\<dots> \<le> (2 ^ 16 - 1) * (2 ^ 8 - 1)"
      using b(3) unat_le_max [of "sectors_per_cluster ?v"] by (intro mult_le_mono) simp_all
    finally show ?thesis .
  qed
  have "unat (fat_count ?v) * unat (fat_size_32 ?v) \<le> (2 ^ 8 - 1) * (2 ^ 32 - 1)" using b by (intro mult_le_mono)
  then have "(unat (reserved_sectors ?v) + unat (fat_count ?v) * unat (fat_size_32 ?v)) * unat (bytes_per_sector ?v)
      \<le> ((2 ^ 16 - 1) + (2 ^ 8 - 1) * (2 ^ 32 - 1)) * (2 ^ 16 - 1)" using b by (intro mult_le_mono add_le_mono)
  moreover have "unat (c - 2) * unat (fat32_cluster_size ctx) \<le> (2 ^ 32 - 1) * ((2 ^ 16 - 1) * (2 ^ 8 - 1))"
    using b s by (intro mult_le_mono)
  ultimately show ?thesis using assms s unfolding fat32_data_offset_def by simp
qed

lemma write_cluster_vol [simp]: "same_vol ctx (fat32_write_cluster c b ctx)"
  by (simp add: same_vol_def fat32_write_cluster_def)

lemma write_cluster_fields [simp]:
  "ctx_fat (fat32_write_cluster c b ctx) = ctx_fat ctx"
  "ctx_next_free_cluster (fat32_write_cluster c b ctx) = ctx_next_free_cluster ctx"
  "ctx_allocs (fat32_write_cluster c b ctx) = ctx_allocs ctx"
  by (simp_all add: fat32_write_cluster_def)

lemma clus_write:
  assumes c: "2 \<le> unat c" and d: "2 \<le> unat d" and b: "length b = clus_size ctx"
  shows "clus (fat32_write_cluster c b ctx) d = (if d = c then b else clus ctx d)"
proof -
  have "2 \<le> c" using c by (simp add: word_le_nat_alt)
  then have u: "unat (c - 2) = unat c - 2" by (simp add: unat_sub)
  have w: "fat32_write_cluster c b ctx = ctx\<lparr>ctx_image := img_write (clus_off ctx c) b (ctx_image ctx)\<rparr>"
    by (simp add: fat32_write_cluster_def clus_off_def clus_size_def u)
  have d': "clus (fat32_write_cluster c b ctx) d = map (img_data (img_write (clus_off ctx c) b (ctx_image ctx))) [clus_off ctx d..<clus_off ctx d + clus_size ctx]"
    using vol_clus_off [OF write_cluster_vol [of ctx c b]] vol_clus_size [OF write_cluster_vol [of ctx c b]] by (simp add: clus_def w)
  show ?thesis
  proof (cases "d = c")
    case True
    then show ?thesis unfolding d' using img_write_read [of "clus_off ctx c" b] b by simp
  next
    case False
    then have "unat c - 2 \<noteq> unat d - 2" using c d by (simp add: word_unat_eq_iff)
    then have "Suc (unat c - 2) \<le> unat d - 2 \<or> Suc (unat d - 2) \<le> unat c - 2" by arith
    then have "Suc (unat c - 2) * clus_size ctx \<le> (unat d - 2) * clus_size ctx \<or> Suc (unat d - 2) * clus_size ctx \<le> (unat c - 2) * clus_size ctx"
      using mult_le_mono1 by blast
    then have "clus_off ctx d + clus_size ctx \<le> clus_off ctx c \<or> clus_off ctx c + length b \<le> clus_off ctx d"
      unfolding b clus_off_def by auto
    then show ?thesis unfolding d' using False by (simp add: img_write_other) (simp add: clus_def)
  qed
qed

subsection \<open>Allocation\<close>

definition alloc_inv :: "ctx \<Rightarrow> bool" where
  "alloc_inv ctx \<longleftrightarrow> length (ctx_fat ctx) = unat (fat_entries (ctx_vbr ctx)) \<and> length (ctx_fat ctx) < 0x0FFFFFF8 \<and>
     3 \<le> unat (ctx_next_free_cluster ctx) \<and> unat (ctx_next_free_cluster ctx) \<le> length (ctx_fat ctx) \<and>
     (\<forall>i. unat (ctx_next_free_cluster ctx) \<le> i \<and> i < length (ctx_fat ctx) \<longrightarrow> ctx_fat ctx ! i = FAT_FREE) \<and>
     0 < clus_size ctx \<and> ctx_allocs ctx = []"

abbreviation next_free :: "ctx \<Rightarrow> nat" where
  "next_free ctx \<equiv> unat (ctx_next_free_cluster ctx)"

lemma cluster_alloc_ok:
  assumes inv: "alloc_inv ctx" and room: "next_free ctx < length (ctx_fat ctx)"
  defines "ctx' \<equiv> ctx\<lparr>ctx_fat := (ctx_fat ctx)[next_free ctx := FAT_EOF], ctx_next_free_cluster := ctx_next_free_cluster ctx + 1\<rparr>"
  shows "fat32_cluster_alloc ctx = (ctx_next_free_cluster ctx, ctx')" "alloc_inv ctx'" "same_vol ctx ctx'"
    "next_free ctx' = next_free ctx + 1"
proof -
  have e: "unat (fat_entries (ctx_vbr ctx)) = length (ctx_fat ctx)" using inv by (simp add: alloc_inv_def)
  then have "[next_free ctx..<unat (fat_entries (ctx_vbr ctx))] = next_free ctx # [Suc (next_free ctx)..<length (ctx_fat ctx)]"
    using room by (simp add: upt_conv_Cons)
  then show "fat32_cluster_alloc ctx = (ctx_next_free_cluster ctx, ctx')"
    using inv room by (simp add: fat32_cluster_alloc_def words_upto_def alloc_inv_def ctx'_def)
  show v: "same_vol ctx ctx'" by (simp add: same_vol_def ctx'_def)
  have "next_free ctx + 1 < 2 ^ 32" using inv room by (simp add: alloc_inv_def)
  then show n: "next_free ctx' = next_free ctx + 1" by (simp add: ctx'_def unat_add_nowrap)
  have "clus_size ctx' = clus_size ctx" using v by (rule vol_clus_size)
  then show "alloc_inv ctx'" using inv room n by (auto simp: alloc_inv_def ctx'_def)
qed

subsection \<open>The clusters of a file\<close>

fun linked :: "u32 list \<Rightarrow> u32 list \<Rightarrow> bool" where
  "linked fat [] = False"
| "linked fat [c] \<longleftrightarrow> fat ! unat c = FAT_EOF"
| "linked fat (c # d # cs) \<longleftrightarrow> fat ! unat c = d \<and> linked fat (d # cs)"

lemma linked_cong: "(\<And>c. c \<in> set cs \<Longrightarrow> fat' ! unat c = fat ! unat c) \<Longrightarrow> linked fat' cs = linked fat cs"
  by (induction cs rule: induct_list012) auto

text \<open>What does not change outside of the clusters of a set.\<close>

definition same_on :: "nat set \<Rightarrow> ctx \<Rightarrow> ctx \<Rightarrow> bool" where
  "same_on S ctx ctx' \<longleftrightarrow> (\<forall>c. unat c \<in> S \<longrightarrow> ctx_fat ctx' ! unat c = ctx_fat ctx ! unat c \<and> clus ctx' c = clus ctx c)"

lemma same_on_trans: "same_on S a b \<Longrightarrow> same_on S b c \<Longrightarrow> same_on S a c"
  by (simp add: same_on_def)

lemma same_on_mono: "same_on S a b \<Longrightarrow> T \<subseteq> S \<Longrightarrow> same_on T a b"
  by (auto simp: same_on_def)

text \<open>The number of clusters that a file needs besides its first one.\<close>

definition extra_clusters :: "nat \<Rightarrow> nat \<Rightarrow> nat" where
  "extra_clusters cs n = (n - 1) div cs"

lemma extra_clusters_step: "0 < cs \<Longrightarrow> cs < n \<Longrightarrow> extra_clusters cs n = Suc (extra_clusters cs (n - cs))"
proof -
  assume a: "0 < cs" "cs < n"
  then have "n - 1 = (n - cs - 1) + cs" by simp
  then have "(n - 1) div cs = (n - cs - 1) div cs + 1" using a by (metis div_add_self2 gr_implies_not0)
  then show ?thesis by (simp add: extra_clusters_def)
qed

lemma extra_clusters_one: "n \<le> cs \<Longrightarrow> 0 < n \<Longrightarrow> extra_clusters cs n = 0"
  by (simp add: extra_clusters_def)

text \<open>Storing a link and the record fields it leaves alone.\<close>

lemma fat_store_ok:
  "unat i < length (ctx_fat ctx) \<Longrightarrow> fat_store i v ctx = Some (ctx\<lparr>ctx_fat := (ctx_fat ctx)[unat i := v]\<rparr>)"
  by (simp add: fat_store_def)

lemma clus_set_fat [simp]: "clus (ctx\<lparr>ctx_fat := f\<rparr>) c = clus ctx c" "clus_size (ctx\<lparr>ctx_fat := f\<rparr>) = clus_size ctx"
  by (simp_all add: clus_def clus_off_def clus_size_def fat32_cluster_size_def fat32_data_offset_def)

lemma alloc_inv_store:
  "alloc_inv ctx \<Longrightarrow> unat i < next_free ctx \<Longrightarrow> alloc_inv (ctx\<lparr>ctx_fat := (ctx_fat ctx)[unat i := v]\<rparr>)"
  by (auto simp: alloc_inv_def)

lemma alloc_inv_write: "alloc_inv ctx \<Longrightarrow> alloc_inv (fat32_write_cluster c b ctx)"
  using vol_clus_size [OF write_cluster_vol [of ctx c b]] write_cluster_vol [of ctx c b] by (simp add: alloc_inv_def same_vol_def)

text \<open>One turn of the loop: the link from the previous cluster and the data of the cluster.\<close>

definition write_turn :: "u32 \<Rightarrow> u32 \<Rightarrow> u8 list \<Rightarrow> ctx \<Rightarrow> ctx" where
  "write_turn c p fp ctx =
     (let ctx = (if p \<noteq> 0 then ctx\<lparr>ctx_fat := (ctx_fat ctx)[unat p := c]\<rparr> else ctx)
      in fat32_write_cluster c (zero_padded (clus_size ctx) (take (clus_size ctx) fp)) ctx)"

lemma zero_padded_length [simp]: "length (zero_padded n bs) = n"
  by (simp add: zero_padded_def)

lemma write_turn_spec:
  fixes fp :: "u8 list"
  assumes inv: "alloc_inv ctx" and c: "2 \<le> unat c" "unat c < next_free ctx" and p: "p = 0 \<or> 2 \<le> unat p \<and> unat p < next_free ctx"
    and cp: "p \<noteq> c"
  defines "ctx' \<equiv> write_turn c p fp ctx"
  shows "alloc_inv ctx'" "same_vol ctx ctx'" "ctx_next_free_cluster ctx' = ctx_next_free_cluster ctx"
    "ctx_fat ctx' = (if p \<noteq> 0 then (ctx_fat ctx)[unat p := c] else ctx_fat ctx)"
    "clus ctx' c = zero_padded (clus_size ctx) (take (clus_size ctx) fp)"
    "same_on ({2..} - {unat c, unat p}) ctx ctx'"
    "\<And>d. 2 \<le> unat d \<Longrightarrow> d \<noteq> c \<Longrightarrow> clus ctx' d = clus ctx d"
proof -
  show fat: "ctx_fat ctx' = (if p \<noteq> 0 then (ctx_fat ctx)[unat p := c] else ctx_fat ctx)"
    and v: "same_vol ctx ctx'" and "ctx_next_free_cluster ctx' = ctx_next_free_cluster ctx"
    by (simp_all add: ctx'_def write_turn_def Let_def same_vol_def fat32_write_cluster_def)
  show "alloc_inv ctx'" using inv p by (auto simp: ctx'_def write_turn_def Let_def intro!: alloc_inv_write alloc_inv_store)
  show "clus ctx' c = zero_padded (clus_size ctx) (take (clus_size ctx) fp)"
    using c by (auto simp: ctx'_def write_turn_def Let_def clus_write)
  show d: "clus ctx' d = clus ctx d" if "2 \<le> unat d" "d \<noteq> c" for d
    using c that by (auto simp: ctx'_def write_turn_def Let_def clus_write)
  show "same_on ({2..} - {unat c, unat p}) ctx ctx'" using d by (auto simp: same_on_def fat)
qed

lemma write_loop_end: "fat32_write_loop 0 c p fp ctx = Some (p, ctx)"
  by (subst fat32_write_loop.simps) simp

lemma write_loop_step:
  assumes "0 < r" "p = 0 \<or> unat p < length (ctx_fat ctx)"
  shows "fat32_write_loop r c p fp ctx =
    (let ctx' = write_turn c p fp ctx; r' = (if fat32_cluster_size ctx < r then r - fat32_cluster_size ctx else 0);
         (n, ctx') = (if 0 < r' then fat32_cluster_alloc ctx' else (c, ctx'))
     in fat32_write_loop r' n c (drop (clus_size ctx) fp) ctx')"
proof -
  have cs: "fat32_cluster_size (ctx\<lparr>ctx_fat := f\<rparr>) = fat32_cluster_size ctx" for f by (simp add: fat32_cluster_size_def)
  show ?thesis
    by (subst fat32_write_loop.simps)
      (use assms in \<open>auto simp: write_turn_def Let_def fat_store_ok cs clus_size_def split: prod.splits\<close>)
qed

lemma write_loop_spec:
  assumes "alloc_inv ctx" "0 < r" "2 \<le> unat c" "unat c < next_free ctx" "p = 0 \<or> 2 \<le> unat p \<and> unat p < next_free ctx" "p \<noteq> c"
    and "ctx_fat ctx ! unat c = FAT_EOF" "next_free ctx + extra_clusters (clus_size ctx) (unat r) \<le> length (ctx_fat ctx)"
    and "length fp = unat r"
  shows "\<exists>cs ctx'. fat32_write_loop r c p fp ctx = Some (last (c # cs), ctx') \<and> alloc_inv ctx' \<and> same_vol ctx ctx' \<and>
    next_free ctx' = next_free ctx + extra_clusters (clus_size ctx) (unat r) \<and>
    linked (ctx_fat ctx') (c # cs) \<and> unat ` set cs \<subseteq> {next_free ctx..<next_free ctx'} \<and>
    take (unat r) (concat (map (clus ctx') (c # cs))) = fp \<and>
    (p \<noteq> 0 \<longrightarrow> ctx_fat ctx' ! unat p = c \<and> clus ctx' p = clus ctx p) \<and> same_on ({2..<next_free ctx} - {unat c, unat p}) ctx ctx'"
  using assms
proof (induction "unat r" arbitrary: r c p fp ctx rule: less_induct)
  case less
  let ?cs = "clus_size ctx" and ?t = "write_turn c p fp ctx"
  note t = write_turn_spec [OF less.prems(1,3,4,5,6), where fp = fp]
  have pos: "0 < ?cs" and len: "next_free ctx \<le> length (ctx_fat ctx)" using less.prems(1) by (auto simp: alloc_inv_def)
  have pl: "p = 0 \<or> unat p < length (ctx_fat ctx)" using less.prems(5) len by auto
  have tc: "ctx_fat ?t ! unat c = FAT_EOF" using less.prems(6,7) t(4) by (auto simp: word_unat_eq_iff)
  have tp: "ctx_fat ?t ! unat p = c" if "p \<noteq> 0" using that pl t(4) by simp
  have tcp: "clus ?t p = clus ctx p" if "p \<noteq> 0" using that less.prems(5,6) t(7) by blast
  show ?case
  proof (cases "unat r \<le> ?cs")
    case True
    then have "fat32_write_loop r c p fp ctx = Some (c, ?t)"
      using write_loop_step [OF less.prems(2) pl, of c fp]
      by (simp add: clus_size_def word_less_nat_alt write_loop_end)
    moreover have "extra_clusters ?cs (unat r) = 0" using True less.prems(2) by (simp add: extra_clusters_one word_less_nat_alt)
    moreover have "take (unat r) (clus ?t c) = fp" using True less.prems(9) t(5) by (simp add: zero_padded_def)
    moreover have "same_on ({2..<next_free ctx} - {unat c, unat p}) ctx ?t" using t(6) by (rule same_on_mono) auto
    ultimately show ?thesis using t tc tp tcp by (intro exI [of _ "[]"] exI [of _ ?t]) simp
  next
    case False
    let ?r = "r - fat32_cluster_size ctx"
    have lt: "fat32_cluster_size ctx < r" using False by (simp add: clus_size_def word_less_nat_alt)
    then have r': "unat ?r = unat r - ?cs" by (simp add: clus_size_def unat_sub)
    have rpos: "0 < ?r" using r' False by (simp add: word_less_nat_alt)
    have ex: "extra_clusters ?cs (unat r) = Suc (extra_clusters ?cs (unat ?r))"
      using extra_clusters_step [OF pos, of "unat r"] False r' by simp
    have room: "next_free ?t < length (ctx_fat ?t)" using less.prems(8) ex t(3,4) by simp
    let ?n = "ctx_next_free_cluster ctx"
    let ?u = "?t\<lparr>ctx_fat := (ctx_fat ?t)[next_free ?t := FAT_EOF], ctx_next_free_cluster := ctx_next_free_cluster ?t + 1\<rparr>"
    note u = cluster_alloc_ok [OF t(1) room]
    have un: "next_free ?u = next_free ctx + 1" using u(4) t(3) by simp
    have n2: "2 \<le> next_free ctx" using less.prems(1) by (simp add: alloc_inv_def)
    have vu: "same_vol ctx ?u" using same_vol_trans [OF t(2) u(3)] .
    have step: "fat32_write_loop r c p fp ctx = fat32_write_loop ?r ?n c (drop ?cs fp) ?u"
      using write_loop_step [OF less.prems(2) pl, of c fp] lt rpos u(1) t(3) by (simp add: Let_def)
    have clu: "clus ?u d = clus ?t d" for d using clus_cong [OF u(3)] by simp
    have fu: "ctx_fat ?u ! unat d = ctx_fat ?t ! unat d" if "unat d < next_free ctx" for d using that t(3) by simp
    obtain cs w where w: "fat32_write_loop ?r ?n c (drop ?cs fp) ?u = Some (last (?n # cs), w)" "alloc_inv w" "same_vol ?u w"
        "next_free w = next_free ?u + extra_clusters ?cs (unat ?r)" "linked (ctx_fat w) (?n # cs)"
        "unat ` set cs \<subseteq> {next_free ?u..<next_free w}" "take (unat ?r) (concat (map (clus w) (?n # cs))) = drop ?cs fp"
        "ctx_fat w ! unat c = ?n" "clus w c = clus ?u c" "same_on ({2..<next_free ?u} - {next_free ctx, unat c}) ?u w"
    proof -
      have c0: "c \<noteq> 0" using less.prems(3) by auto
      have h: "unat ?r < unat r" "0 < ?r" "c = 0 \<or> 2 \<le> unat c \<and> unat c < next_free ?u" "c \<noteq> ?n"
          "2 \<le> unat ?n" "unat ?n < next_free ?u" "ctx_fat ?u ! unat ?n = FAT_EOF"
          "next_free ?u + extra_clusters (clus_size ?u) (unat ?r) \<le> length (ctx_fat ?u)" "length (drop ?cs fp) = unat ?r"
        using r' pos False less.prems un n2 t(3) room ex vol_clus_size [OF vu] rpos by (auto simp: t(4))
      show thesis using less.hyps [OF h(1) u(2) h(2,5,6,3,4,7,8,9)] that c0 unfolding vol_clus_size [OF vu] by blast
    qed
    have cw: "clus w c = take ?cs fp" using w(9) clu t(5) False less.prems(9) by (simp add: zero_padded_def)
    have cont: "take (unat r) (concat (map (clus w) (c # ?n # cs))) = fp"
    proof -
      have "take (unat r) (take ?cs fp @ concat (map (clus w) (?n # cs))) = take ?cs fp @ take (unat ?r) (concat (map (clus w) (?n # cs)))"
        using False less.prems(9) r' by simp
      then show ?thesis using cw w(7) by simp
    qed
    have pw: "ctx_fat w ! unat p = c \<and> clus w p = clus ctx p" if p0: "p \<noteq> 0"
    proof -
      have pin: "unat p \<in> {2..<next_free ?u} - {next_free ctx, unat c}" and pn: "unat p < next_free ctx"
        using less.prems(5,6) p0 un by (auto simp: word_unat_eq_iff)
      then show ?thesis using w(10) tp [OF p0] tcp [OF p0] clu [of p] fu [OF pn] unfolding same_on_def by metis
    qed
    have "same_on ({2..<next_free ctx} - {unat c, unat p}) ctx ?t" using t(6) by (rule same_on_mono) auto
    moreover have "same_on ({2..<next_free ctx} - {unat c, unat p}) ?t ?u" using clu fu unfolding same_on_def by auto
    moreover have "same_on ({2..<next_free ctx} - {unat c, unat p}) ?u w" using w(10) by (rule same_on_mono) (use un in auto)
    ultimately have same: "same_on ({2..<next_free ctx} - {unat c, unat p}) ctx w" using same_on_trans by blast
    have "unat ` set (?n # cs) \<subseteq> {next_free ctx..<next_free w}" using w(4,6) un by auto
    then show ?thesis
      using step w(1-3,5,8) same_vol_trans [OF vu w(3)] w(4) un ex cont pw same
      by (intro exI [of _ "?n # cs"] exI [of _ w]) simp
  qed
qed

end
