(* ===== verification/Mkimage_Write.thy ===== *)
theory Mkimage_Write
  imports Mkimage_Alloc
begin

text \<open>
  What \<open>fat32_prepare_tree\<close> and \<open>fat32_write_tree\<close> leave in the image: every directory is a cluster with the
  entries of its children, every file a chain of clusters with its content, and the clusters of different nodes
  are different.
\<close>

subsection \<open>The trees that can be written\<close>

fun clusters_of :: "fs_node \<Rightarrow> u32 list" where
  "clusters_of (NODE_FILE n c p s) = [c]"
| "clusters_of (NODE_DIRECTORY n c ns) = c # concat (map clusters_of ns)"

fun extra_of :: "nat \<Rightarrow> fs_node \<Rightarrow> nat" where
  "extra_of cs (NODE_FILE n c p s) = extra_clusters cs (unat s)"
| "extra_of cs (NODE_DIRECTORY n c ns) = sum_list (map (extra_of cs) ns)"

text \<open>
  Names that the code can turn into distinct 8.3 names, directories that fit into a cluster, and
  files that the host still has with the size that was recorded.
\<close>

definition entry_names_ok :: "fs_node list \<Rightarrow> bool" where
  "entry_names_ok ns \<longleftrightarrow> (\<forall>m\<in>set ns. case fat32_entry_name (node_name m) of None \<Rightarrow> False | Some n \<Rightarrow> hd n \<noteq> 0) \<and>
     distinct (map (\<lambda>m. fat32_entry_name (node_name m)) ns)"

fun fits :: "host \<Rightarrow> nat \<Rightarrow> bool \<Rightarrow> fs_node \<Rightarrow> bool" where
  "fits host cs is_root (NODE_FILE n c p s) = (case host p of None \<Rightarrow> False | Some bytes \<Rightarrow> length bytes = unat s)"
| "fits host cs is_root (NODE_DIRECTORY n c ns) \<longleftrightarrow>
     entry_names_ok ns \<and> 32 * (length ns + (if is_root then 0 else 2)) \<le> cs \<and> (\<forall>m\<in>set ns. fits host cs False m)"

subsection \<open>What is stored\<close>

definition file_stored :: "ctx \<Rightarrow> nat set \<Rightarrow> u32 \<Rightarrow> u8 list \<Rightarrow> bool" where
  "file_stored ctx R c bytes \<longleftrightarrow>
     (\<exists>cs. linked (ctx_fat ctx) (c # cs) \<and> unat ` set (c # cs) \<subseteq> R \<and>
        take (length bytes) (concat (map (clus ctx) (c # cs))) = bytes)"

definition dot_entries :: "bool \<Rightarrow> u32 \<Rightarrow> u32 option \<Rightarrow> fat_dir_entry list" where
  "dot_entries is_root c parent =
     (if is_root then []
      else [fat32_dot_entry ''.          '' c, fat32_dot_entry ''..         '' (case parent of Some c \<Rightarrow> c | None \<Rightarrow> 0)])"

definition dir_stored :: "ctx \<Rightarrow> nat set \<Rightarrow> bool \<Rightarrow> u32 option \<Rightarrow> u32 \<Rightarrow> fs_node list \<Rightarrow> bool" where
  "dir_stored ctx R is_root parent c ns \<longleftrightarrow> unat c \<in> R \<and> ctx_fat ctx ! unat c = FAT_EOF \<and>
     (\<exists>es. fat32_create_entries ns = Some es \<and>
        clus ctx c = zero_padded (clus_size ctx) (concat (map fat_dir_entry_bytes (dot_entries is_root c parent @ es))))"

fun stored :: "host \<Rightarrow> ctx \<Rightarrow> nat set \<Rightarrow> bool \<Rightarrow> u32 option \<Rightarrow> fs_node \<Rightarrow> bool" where
  "stored host ctx R is_root parent (NODE_FILE n c p s) \<longleftrightarrow>
     (\<exists>bytes. host p = Some bytes \<and> length bytes = unat s \<and> file_stored ctx R c bytes)"
| "stored host ctx R is_root parent (NODE_DIRECTORY n c ns) \<longleftrightarrow>
     dir_stored ctx R is_root parent c ns \<and> (\<forall>m\<in>set ns. stored host ctx R False (Some c) m)"

lemma file_stored_frame:
  assumes "file_stored ctx R c bytes" "same_on R ctx ctx'"
  shows "file_stored ctx' R c bytes"
proof -
  obtain cs where cs: "linked (ctx_fat ctx) (c # cs)" "unat ` set (c # cs) \<subseteq> R"
      "take (length bytes) (concat (map (clus ctx) (c # cs))) = bytes" using assms(1) by (auto simp: file_stored_def)
  have "\<forall>d\<in>set (c # cs). ctx_fat ctx' ! unat d = ctx_fat ctx ! unat d \<and> clus ctx' d = clus ctx d"
    using cs(2) assms(2) unfolding same_on_def by blast
  then have "linked (ctx_fat ctx') (c # cs)" "map (clus ctx') (c # cs) = map (clus ctx) (c # cs)"
    using cs(1) linked_cong [of "c # cs" "ctx_fat ctx'" "ctx_fat ctx"] by auto
  then show ?thesis using cs unfolding file_stored_def by metis
qed

lemma dir_stored_frame:
  "dir_stored ctx R r parent c ns \<Longrightarrow> same_on R ctx ctx' \<Longrightarrow> same_vol ctx ctx' \<Longrightarrow> dir_stored ctx' R r parent c ns"
  by (auto simp: dir_stored_def same_on_def vol_clus_size)

lemma stored_frame:
  "stored host ctx R r parent t \<Longrightarrow> same_on R ctx ctx' \<Longrightarrow> same_vol ctx ctx' \<Longrightarrow> stored host ctx' R r parent t"
  by (induction host ctx R r parent t rule: stored.induct) (auto intro: file_stored_frame dir_stored_frame)

lemma stored_mono: "stored host ctx R r parent t \<Longrightarrow> R \<subseteq> S \<Longrightarrow> stored host ctx S r parent t"
  by (induction host ctx R r parent t rule: stored.induct) (auto simp: file_stored_def dir_stored_def, blast)

subsection \<open>Steps of the writer\<close>

text \<open>
  Before a step that writes the clusters of the set \<open>C\<close> and allocates \<open>e\<close> more, and after it.
\<close>

definition write_pre :: "ctx \<Rightarrow> nat set \<Rightarrow> nat \<Rightarrow> bool" where
  "write_pre ctx C e \<longleftrightarrow> alloc_inv ctx \<and> C \<subseteq> {2..<next_free ctx} \<and> (\<forall>c::u32. unat c \<in> C \<longrightarrow> ctx_fat ctx ! unat c = FAT_EOF) \<and>
     next_free ctx + e \<le> length (ctx_fat ctx)"

definition write_post :: "ctx \<Rightarrow> ctx \<Rightarrow> nat set \<Rightarrow> nat \<Rightarrow> bool" where
  "write_post ctx ctx' C e \<longleftrightarrow> alloc_inv ctx' \<and> same_vol ctx ctx' \<and> next_free ctx' = next_free ctx + e \<and>
     same_on ({2..<next_free ctx} - C) ctx ctx'"

lemma write_post_fat_length: "alloc_inv ctx \<Longrightarrow> write_post ctx ctx' C e \<Longrightarrow> length (ctx_fat ctx') = length (ctx_fat ctx)"
  by (simp add: write_post_def alloc_inv_def same_vol_def)

lemma write_post_trans:
  assumes "write_post ctx a C e" "write_post a b D f"
  shows "write_post ctx b (C \<union> D) (e + f)"
proof -
  have "same_on ({2..<next_free ctx} - (C \<union> D)) ctx a" "same_on ({2..<next_free ctx} - (C \<union> D)) a b"
    using assms by (auto simp: write_post_def elim!: same_on_mono)
  then show ?thesis using assms same_on_trans same_vol_trans by (fastforce simp: write_post_def)
qed

lemma write_pre_after:
  assumes "write_pre ctx (C \<union> D) (e + f)" "C \<inter> D = {}" "write_post ctx a C e"
  shows "write_pre a D f"
proof -
  have "ctx_fat a ! unat c = FAT_EOF" if "unat c \<in> D" for c :: u32
  proof -
    have "unat c \<in> {2..<next_free ctx} - C" using that assms(1,2) by (auto simp: write_pre_def)
    then have "ctx_fat a ! unat c = ctx_fat ctx ! unat c" using assms(3) by (auto simp: write_post_def same_on_def)
    then show ?thesis using that assms(1) by (simp add: write_pre_def)
  qed
  then show ?thesis using assms write_post_fat_length [OF _ assms(3)] by (auto simp: write_pre_def write_post_def)
qed

lemma linked_last: "linked fat cs \<Longrightarrow> fat ! unat (last cs) = FAT_EOF"
  by (induction fat cs rule: linked.induct) auto

lemma write_file_spec:
  assumes pre: "write_pre ctx {unat c} (extra_clusters (clus_size ctx) (unat s))" and h: "host p = Some bytes" "length bytes = unat s"
  shows "\<exists>ctx'. fat32_write_file host (NODE_FILE n c p s) ctx = Some ctx' \<and>
    write_post ctx ctx' {unat c} (extra_clusters (clus_size ctx) (unat s)) \<and>
    file_stored ctx' ({unat c} \<union> {next_free ctx..<next_free ctx'}) c bytes"
proof -
  have inv: "alloc_inv ctx" and c: "2 \<le> unat c" "unat c < next_free ctx" "ctx_fat ctx ! unat c = FAT_EOF"
    and room: "next_free ctx + extra_clusters (clus_size ctx) (unat s) \<le> length (ctx_fat ctx)"
    using pre by (auto simp: write_pre_def)
  have nf: "3 \<le> next_free ctx" "next_free ctx \<le> length (ctx_fat ctx)" and al: "ctx\<lparr>ctx_allocs := []\<rparr> = ctx"
    using inv by (auto simp: alloc_inv_def)
  show ?thesis
  proof (cases "s = 0")
    case True
    let ?u = "ctx\<lparr>ctx_fat := (ctx_fat ctx)[0 := FAT_EOF]\<rparr>"
    have "fat32_write_file host (NODE_FILE n c p s) ctx = Some ?u"
      using True h inv nf by (simp add: fat32_write_file_def alloc_inv_def write_loop_end fat_store_def)
    moreover have "write_post ctx ?u {unat c} 0"
      using alloc_inv_store [OF inv, of 0 FAT_EOF] nf by (auto simp: write_post_def same_vol_def same_on_def)
    moreover have "linked (ctx_fat ?u) [c]" using c by simp
    ultimately show ?thesis using True h
      by (intro exI [of _ ?u]) (auto simp: file_stored_def extra_clusters_def intro!: exI [of _ "[]"])
  next
    case False
    then have r: "0 < s" by (simp add: word_neq_0_conv)
    have "(0::u32) \<noteq> c" using c by auto
    from write_loop_spec [OF inv r c(1,2) _ this c(3) room h(2)] obtain cs w where
      w: "fat32_write_loop s c 0 bytes ctx = Some (last (c # cs), w)" "alloc_inv w" "same_vol ctx w"
        "next_free w = next_free ctx + extra_clusters (clus_size ctx) (unat s)" "linked (ctx_fat w) (c # cs)"
        "unat ` set cs \<subseteq> {next_free ctx..<next_free w}" "take (unat s) (concat (map (clus w) (c # cs))) = bytes"
        "same_on ({2..<next_free ctx} - {unat c, unat (0::u32)}) ctx w" by auto
    have "unat (last (c # cs)) < next_free w" using w(4,6) c(2) by (cases cs rule: rev_cases) auto
    then have lst: "unat (last (c # cs)) < length (ctx_fat w)" using w(2) by (simp add: alloc_inv_def)
    have "(ctx_fat w)[unat (last (c # cs)) := FAT_EOF] = ctx_fat w" using linked_last [OF w(5)] by (metis list_update_id)
    then have "fat_store (last (c # cs)) FAT_EOF w = Some w" using fat_store_ok [OF lst] by simp
    then have "fat32_write_file host (NODE_FILE n c p s) ctx = Some w"
      using h inv w(1) r by (simp add: fat32_write_file_def alloc_inv_def al)
    moreover have "write_post ctx w {unat c} (extra_clusters (clus_size ctx) (unat s))"
      unfolding write_post_def by (intro conjI w(2-4) same_on_mono [OF w(8)]) auto
    moreover have "file_stored w ({unat c} \<union> {next_free ctx..<next_free w}) c bytes"
      using w(5-7) h(2) unfolding file_stored_def by (intro exI [of _ cs]) auto
    ultimately show ?thesis by blast
  qed
qed

lemma create_entries_ok:
  "\<forall>m\<in>set ns. fat32_entry_name (node_name m) \<noteq> None \<Longrightarrow> \<exists>es. fat32_create_entries ns = Some es \<and> length es = length ns"
  by (induction ns) (auto simp: fat32_create_entry_def)

lemma copy_at_length: "copy_at off src dst = Some r \<Longrightarrow> length r = length dst"
  by (auto simp: copy_at_def split: if_splits)

lemma entry_name_length: "fat32_entry_name n = Some r \<Longrightarrow> length r = 11"
  by (auto simp: fat32_entry_name_def Let_def FAT_NAME_LEN_def split: if_splits option.splits bind_splits dest!: copy_at_length)

lemma dir_entry_bytes_length: "length (de_name e) = 11 \<Longrightarrow> length (fat_dir_entry_bytes e) = 32"
  by (simp add: fat_dir_entry_bytes_def put_le16_def put_le32_def)

lemma create_entry_name_length: "fat32_create_entry m = Some e \<Longrightarrow> length (de_name e) = 11"
  by (auto simp: fat32_create_entry_def entry_name_length split: bind_splits)

lemma create_entries_name_length:
  "fat32_create_entries ns = Some es \<Longrightarrow> e \<in> set es \<Longrightarrow> length (de_name e) = 11"
  by (induction ns arbitrary: es) (auto split: bind_splits dest: create_entry_name_length)

lemma dot_entries_name_length: "e \<in> set (dot_entries r c parent) \<Longrightarrow> length (de_name e) = 11"
  by (auto simp: dot_entries_def fat32_dot_entry_def split: if_splits)

lemma concat_entries_length:
  "\<forall>e\<in>set es. length (de_name e) = 11 \<Longrightarrow> length (concat (map fat_dir_entry_bytes es)) = 32 * length es"
  by (induction es) (auto simp: dir_entry_bytes_length)

lemma write_directory_spec:
  assumes pre: "write_pre ctx {unat c} 0" and f: "fits host (clus_size ctx) r (NODE_DIRECTORY n c ns)"
  shows "\<exists>ctx'. fat32_write_directory r parent (NODE_DIRECTORY n c ns) ctx = Some ctx' \<and>
    write_post ctx ctx' {unat c} 0 \<and> dir_stored ctx' {unat c} r parent c ns"
proof -
  have inv: "alloc_inv ctx" and c: "2 \<le> unat c" "unat c < next_free ctx" "ctx_fat ctx ! unat c = FAT_EOF"
    using pre by (auto simp: write_pre_def)
  have al: "ctx\<lparr>ctx_allocs := []\<rparr> = ctx" using inv by (simp add: alloc_inv_def)
  obtain es where es: "fat32_create_entries ns = Some es" "length es = length ns"
    using create_entries_ok [of ns] f by (force simp: entry_names_ok_def split: option.splits)
  let ?bs = "concat (map fat_dir_entry_bytes (dot_entries r c parent @ es))"
  let ?u = "fat32_write_cluster c (zero_padded (clus_size ctx) ?bs) ctx"
  have "length ?bs = 32 * length (dot_entries r c parent @ es)"
    using create_entries_name_length [OF es(1)] dot_entries_name_length by (intro concat_entries_length) auto
  then have "length ?bs \<le> clus_size ctx" using f es(2) by (auto simp: dot_entries_def)
  then have "fat32_write_directory r parent (NODE_DIRECTORY n c ns) ctx = Some ?u"
    using inv es(1) by (auto simp: fat32_write_directory_def alloc_inv_def dot_entries_def clus_size_def Let_def al)
  moreover have "write_post ctx ?u {unat c} 0"
    using alloc_inv_write [OF inv] c by (auto simp: write_post_def same_on_def clus_write)
  moreover have "dir_stored ?u {unat c} r parent c ns"
    using c es(1) vol_clus_size [OF write_cluster_vol [of ctx c]] by (simp add: dir_stored_def clus_write)
  ultimately show ?thesis by blast
qed

subsection \<open>The whole tree\<close>

abbreviation clus_set :: "fs_node \<Rightarrow> nat set" where
  "clus_set t \<equiv> unat ` set (clusters_of t)"

abbreviation clus_sets :: "fs_node list \<Rightarrow> nat set" where
  "clus_sets ns \<equiv> unat ` set (concat (map clusters_of ns))"

lemma distinct_unat_image: "set xs \<inter> set ys = {} \<Longrightarrow> unat ` set xs \<inter> unat ` set (ys :: u32 list) = {}"
  by (auto dest!: word_unat_eq_iff [THEN iffD2])

lemma region_split:
  fixes X Y :: "nat set"
  assumes "X \<subseteq> {2..<k}" "Y \<subseteq> {2..<k}" "2 \<le> k" "X \<inter> Y = {}" "k \<le> l"
  shows "X \<union> {k..<l} \<subseteq> {2..<l} - Y"
proof
  fix x assume x: "x \<in> X \<union> {k..<l}"
  have "x \<in> X \<Longrightarrow> 2 \<le> x \<and> x < k" "x \<in> Y \<Longrightarrow> x < k" using assms(1,2) by auto
  then show "x \<in> {2..<l} - Y" using x assms(3-5) by auto
qed

lemma write_tree_spec:
  "write_pre ctx (clus_set t) (extra_of (clus_size ctx) t) \<Longrightarrow> fits host (clus_size ctx) r t \<Longrightarrow> distinct (clusters_of t) \<Longrightarrow>
    \<exists>ctx'. fat32_write_tree host r parent t ctx = Some ctx' \<and> write_post ctx ctx' (clus_set t) (extra_of (clus_size ctx) t) \<and>
      stored host ctx' (clus_set t \<union> {next_free ctx..<next_free ctx'}) r parent t"
  "write_pre ctx (clus_sets ns) (sum_list (map (extra_of (clus_size ctx)) ns)) \<Longrightarrow> \<forall>m\<in>set ns. fits host (clus_size ctx) False m \<Longrightarrow>
    distinct (concat (map clusters_of ns)) \<Longrightarrow>
    \<exists>ctx'. fat32_write_children host parent ns ctx = Some ctx' \<and>
      write_post ctx ctx' (clus_sets ns) (sum_list (map (extra_of (clus_size ctx)) ns)) \<and>
      (\<forall>m\<in>set ns. stored host ctx' (clus_sets ns \<union> {next_free ctx..<next_free ctx'}) False parent m)"
proof (induction host r parent t ctx and host parent ns ctx rule: fat32_write_tree_fat32_write_children.induct)
  case (1 host r parent n c p s ctx)
  then show ?case using write_file_spec [of ctx c s host p] by (auto split: option.splits)
next
  case (2 host r parent n c ns ctx)
  let ?C = "clus_sets ns" let ?e = "sum_list (map (extra_of (clus_size ctx)) ns)"
  have dj: "{unat c} \<inter> ?C = {}" using "2.prems"(3) distinct_unat_image [of "[c]" "concat (map clusters_of ns)"] by auto
  have pre: "write_pre ctx ({unat c} \<union> ?C) (0 + ?e)" using "2.prems"(1) by simp
  then have "write_pre ctx {unat c} 0" by (auto simp: write_pre_def)
  from write_directory_spec [OF this "2.prems"(2)] obtain a where
    a: "fat32_write_directory r parent (NODE_DIRECTORY n c ns) ctx = Some a" "write_post ctx a {unat c} 0" "dir_stored a {unat c} r parent c ns"
    by blast
  have sz: "clus_size a = clus_size ctx" using a(2) by (simp add: write_post_def vol_clus_size)
  obtain b where b: "fat32_write_children host (Some c) ns a = Some b" "write_post a b ?C ?e"
      "\<forall>m\<in>set ns. stored host b (?C \<union> {next_free a..<next_free b}) False (Some c) m"
    using "2.IH" [OF a(1)] write_pre_after [OF pre dj a(2)] "2.prems" by (auto simp: sz)
  have post: "write_post ctx b ({unat c} \<union> ?C) (0 + ?e)" using write_post_trans [OF a(2) b(2)] .
  have na: "next_free a = next_free ctx" using a(2) by (simp add: write_post_def)
  have "same_on {unat c} a b" using b(2) dj pre na by (auto simp: write_post_def write_pre_def elim!: same_on_mono)
  then have "dir_stored b {unat c} r parent c ns" using a(3) b(2) dir_stored_frame by (auto simp: write_post_def)
  then have "dir_stored b (clus_set (NODE_DIRECTORY n c ns) \<union> {next_free ctx..<next_free b}) r parent c ns" by (auto simp: dir_stored_def)
  moreover have "\<forall>m\<in>set ns. stored host b (clus_set (NODE_DIRECTORY n c ns) \<union> {next_free ctx..<next_free b}) False (Some c) m"
    using b(3) na by (auto elim!: stored_mono)
  ultimately show ?case using a(1) b(1) post by auto
next
  case (3 host parent ctx)
  then show ?case by (auto simp: write_post_def write_pre_def same_on_def)
next
  case (4 host parent n ns ctx)
  let ?C = "clus_set n" and ?D = "clus_sets ns"
  let ?e = "extra_of (clus_size ctx) n" let ?f = "sum_list (map (extra_of (clus_size ctx)) ns)"
  have dj: "?C \<inter> ?D = {}" using "4.prems"(3) distinct_unat_image [of "clusters_of n" "concat (map clusters_of ns)"] by auto
  have pre: "write_pre ctx (?C \<union> ?D) (?e + ?f)" using "4.prems"(1) by (simp add: image_Un)
  then have "write_pre ctx ?C ?e" by (auto simp: write_pre_def)
  then obtain a where a: "fat32_write_tree host False parent n ctx = Some a" "write_post ctx a ?C ?e"
      "stored host a (?C \<union> {next_free ctx..<next_free a}) False parent n"
    using "4.IH"(1) "4.prems" by auto
  have sz: "clus_size a = clus_size ctx" using a(2) by (simp add: write_post_def vol_clus_size)
  obtain b where b: "fat32_write_children host parent ns a = Some b" "write_post a b ?D ?f"
      "\<forall>m\<in>set ns. stored host b (?D \<union> {next_free a..<next_free b}) False parent m"
    using "4.IH"(2) [OF a(1)] write_pre_after [OF pre dj a(2)] "4.prems" by (auto simp: sz)
  have post: "write_post ctx b (?C \<union> ?D) (?e + ?f)" using write_post_trans [OF a(2) b(2)] .
  have n: "next_free ctx \<le> next_free a" "next_free a \<le> next_free b" using a(2) b(2) by (auto simp: write_post_def)
  have "same_on (?C \<union> {next_free ctx..<next_free a}) a b"
  proof -
    have "?C \<union> ?D \<subseteq> {2..<next_free ctx}" "2 \<le> next_free ctx" using pre unfolding write_pre_def alloc_inv_def by auto
    then have "?C \<union> {next_free ctx..<next_free a} \<subseteq> {2..<next_free a} - ?D" by (intro region_split [OF _ _ _ dj n(1)]) simp_all
    then show ?thesis using b(2) same_on_mono unfolding write_post_def by blast
  qed
  then have "stored host b (?C \<union> {next_free ctx..<next_free a}) False parent n" using a(3) b(2) stored_frame by (auto simp: write_post_def)
  then have "stored host b (clus_sets (n # ns) \<union> {next_free ctx..<next_free b}) False parent n" by (rule stored_mono) (use n in auto)
  moreover have sub: "?D \<union> {next_free a..<next_free b} \<subseteq> clus_sets (n # ns) \<union> {next_free ctx..<next_free b}" using n by auto
  then have "\<forall>m\<in>set ns. stored host b (clus_sets (n # ns) \<union> {next_free ctx..<next_free b}) False parent m"
    using b(3) stored_mono [OF _ sub] by blast
  ultimately show ?case using a(1) b(1) post by (auto simp: image_Un)
qed

subsection \<open>The numbering of the clusters\<close>

fun erase :: "fs_node \<Rightarrow> fs_node" where
  "erase (NODE_FILE n c p s) = NODE_FILE n 0 p s"
| "erase (NODE_DIRECTORY n c ns) = NODE_DIRECTORY n 0 (map erase ns)"

fun node_count :: "fs_node \<Rightarrow> nat" where
  "node_count (NODE_FILE n c p s) = 1"
| "node_count (NODE_DIRECTORY n c ns) = 1 + sum_list (map node_count ns)"

lemma erase_name [simp]: "node_name (erase t) = node_name t"
  by (cases t) auto

lemma entry_names_ok_erase: "entry_names_ok (map erase ns) = entry_names_ok ns"
  by (simp add: entry_names_ok_def o_def)

lemma fits_erase: "fits host cs r (erase t) = fits host cs r t"
  by (induction host cs r t rule: fits.induct) (simp_all add: entry_names_ok_erase)

lemma extra_erase: "extra_of cs (erase t) = extra_of cs t"
  by (induction cs t rule: extra_of.induct) (simp_all add: o_def cong: map_cong)

definition numbered :: "ctx \<Rightarrow> ctx \<Rightarrow> nat \<Rightarrow> bool" where
  "numbered ctx ctx' k \<longleftrightarrow> alloc_inv ctx' \<and> same_vol ctx ctx' \<and> ctx_image ctx' = ctx_image ctx \<and> next_free ctx' = next_free ctx + k \<and>
     (\<forall>i < next_free ctx. ctx_fat ctx' ! i = ctx_fat ctx ! i) \<and>
     (\<forall>i. next_free ctx \<le> i \<and> i < next_free ctx' \<longrightarrow> ctx_fat ctx' ! i = FAT_EOF)"

lemma numbered_fat_length: "alloc_inv ctx \<Longrightarrow> numbered ctx ctx' k \<Longrightarrow> length (ctx_fat ctx') = length (ctx_fat ctx)"
  by (simp add: numbered_def alloc_inv_def same_vol_def)

lemma numbered_trans:
  assumes "numbered ctx a k" "numbered a b l"
  shows "numbered ctx b (k + l)"
proof -
  have "ctx_fat b ! i = FAT_EOF" if "next_free ctx \<le> i" "i < next_free b" for i
    using assms that by (cases "i < next_free a") (auto simp: numbered_def)
  then show ?thesis using assms same_vol_trans by (auto simp: numbered_def)
qed

lemma numbered_alloc:
  assumes "alloc_inv ctx" "next_free ctx < length (ctx_fat ctx)"
  shows "\<exists>ctx'. fat32_cluster_alloc ctx = (ctx_next_free_cluster ctx, ctx') \<and> numbered ctx ctx' 1"
  using cluster_alloc_ok [OF assms] assms(2) by (auto simp: numbered_def le_less_Suc_eq)

lemma upt_glue: "i \<le> j \<Longrightarrow> j \<le> k \<Longrightarrow> [i..<j] @ [j..<k] = [i..<k]"
  using upt_add_eq_append [of i j "k - j"] by simp

lemma prepare_spec:
  "r = False \<Longrightarrow> alloc_inv ctx \<Longrightarrow> erase t = t \<Longrightarrow> next_free ctx + node_count t \<le> length (ctx_fat ctx) \<Longrightarrow>
    \<exists>t' ctx'. fat32_prepare_tree r t ctx = (t', ctx') \<and> numbered ctx ctx' (node_count t) \<and> erase t' = t \<and>
      map unat (clusters_of t') = [next_free ctx..<next_free ctx']"
  "alloc_inv ctx \<Longrightarrow> map erase ns = ns \<Longrightarrow> next_free ctx + sum_list (map node_count ns) \<le> length (ctx_fat ctx) \<Longrightarrow>
    \<exists>ns' ctx'. fat32_prepare_children ns ctx = (ns', ctx') \<and> numbered ctx ctx' (sum_list (map node_count ns)) \<and> map erase ns' = ns \<and>
      map unat (concat (map clusters_of ns')) = [next_free ctx..<next_free ctx']"
proof (induction r t ctx and ns ctx rule: fat32_prepare_tree_fat32_prepare_children.induct)
  case (1 r t ctx)
  have "0 < node_count t" by (cases t) auto
  then have "next_free ctx < length (ctx_fat ctx)" using "1.prems" by simp
  then obtain a where a: "fat32_cluster_alloc ctx = (ctx_next_free_cluster ctx, a)" "numbered ctx a 1"
    using numbered_alloc "1.prems"(2) by blast
  have fc: "first_cluster t = 0" using "1.prems"(3) by (cases t) auto
  have na: "next_free a = next_free ctx + 1" using a(2) by (simp add: numbered_def)
  show ?case
  proof (cases t)
    case (NODE_FILE n c p s)
    then show ?thesis using a fc na "1.prems" by auto
  next
    case (NODE_DIRECTORY n c ns)
    have h: "alloc_inv a" "map erase ns = ns" "next_free a + sum_list (map node_count ns) \<le> length (ctx_fat a)"
      using a(2) na numbered_fat_length [OF "1.prems"(2) a(2)] "1.prems" by (auto simp: NODE_DIRECTORY numbered_def)
    have "\<exists>ns' b. fat32_prepare_children ns a = (ns', b) \<and> numbered a b (sum_list (map node_count ns)) \<and> map erase ns' = ns \<and>
        map unat (concat (map clusters_of ns')) = [next_free a..<next_free b]"
      by (rule "1.IH" [OF _ _ NODE_DIRECTORY h]) (use a(1) fc "1.prems"(1) in simp_all)
    then obtain ns' b where b: "fat32_prepare_children ns a = (ns', b)" "numbered a b (sum_list (map node_count ns))" "map erase ns' = ns"
        "map unat (concat (map clusters_of ns')) = [next_free a..<next_free b]" by blast
    have "next_free a \<le> next_free b" using b(2) by (simp add: numbered_def)
    then have "next_free ctx # [next_free a..<next_free b] = [next_free ctx..<next_free b]" using na by (simp add: upt_conv_Cons)
    then show ?thesis using b a fc "1.prems"(1,3) numbered_trans [OF a(2) b(2)] by (auto simp: NODE_DIRECTORY)
  qed
next
  case (2 ctx)
  then show ?case by (auto simp: numbered_def)
next
  case (3 n ns ctx)
  obtain n' a where a: "fat32_prepare_tree False n ctx = (n', a)" "numbered ctx a (node_count n)" "erase n' = n"
      "map unat (clusters_of n') = [next_free ctx..<next_free a]" using "3.IH"(1) "3.prems" by auto
  have "next_free a + sum_list (map node_count ns) \<le> length (ctx_fat a)" "alloc_inv a"
    using a(2) "3.prems" numbered_fat_length [OF "3.prems"(1) a(2)] by (auto simp: numbered_def)
  then obtain ns' b where b: "fat32_prepare_children ns a = (ns', b)" "numbered a b (sum_list (map node_count ns))" "map erase ns' = ns"
      "map unat (concat (map clusters_of ns')) = [next_free a..<next_free b]"
    using "3.IH"(2) [OF a(1) [symmetric]] "3.prems"(2) by auto
  have "next_free ctx \<le> next_free a" "next_free a \<le> next_free b" using a(2) b(2) by (auto simp: numbered_def)
  then have "map unat (concat (map clusters_of (n' # ns'))) = [next_free ctx..<next_free b]"
    using a(4) b(4) upt_glue by simp
  then show ?case using a(1,3) b(1,3) numbered_trans [OF a(2) b(2)] by auto
qed

lemma prepare_root:
  assumes "alloc_inv ctx" "erase (NODE_DIRECTORY n 0 ns) = NODE_DIRECTORY n 0 ns"
    and "next_free ctx + sum_list (map node_count ns) \<le> length (ctx_fat ctx)"
  shows "\<exists>ns' ctx'. fat32_prepare_tree True (NODE_DIRECTORY n 0 ns) ctx = (NODE_DIRECTORY n (root_cluster (ctx_vbr ctx)) ns', ctx') \<and>
    numbered ctx ctx' (sum_list (map node_count ns)) \<and> map erase ns' = ns \<and>
    map unat (concat (map clusters_of ns')) = [next_free ctx..<next_free ctx']"
  using prepare_spec(2) [OF assms(1) _ assms(3)] assms(2) by auto

end
