(* ===== verification/Mkimage_Tree_Props.thy ===== *)
theory Mkimage_Tree_Props
  imports Mkimage_Tree
begin

text \<open>
  The directory tree of \<^verbatim>\<open>mkimage\<close> as a map from paths to files and directories: the invariant of the
  tree, the map it represents, and the insertions as updates of that map.
\<close>

subsection \<open>The map and the invariant\<close>

datatype fs_entry = FS_FILE string u32 | FS_DIR

fun entry_of :: "fs_node \<Rightarrow> fs_entry" where
  "entry_of (NODE_FILE n c p s) = FS_FILE p s"
| "entry_of (NODE_DIRECTORY n c ns) = FS_DIR"

fun tree_lookup :: "fs_node \<Rightarrow> string list \<Rightarrow> fs_node option" where
  "tree_lookup t [] = Some t"
| "tree_lookup t (part # parts) =
     (case fs_node_find_child t part of None \<Rightarrow> None | Some i \<Rightarrow> tree_lookup (children t ! i) parts)"

definition tree_map :: "fs_node \<Rightarrow> string list \<Rightarrow> fs_entry option" where
  "tree_map t p = map_option entry_of (tree_lookup t p)"

definition good_name :: "string \<Rightarrow> bool" where
  "good_name n \<longleftrightarrow> n \<noteq> [] \<and> CHR ''/'' \<notin> set n \<and> length n < FS_NAME_MAX"

fun tree_ok :: "fs_node \<Rightarrow> bool" where
  "tree_ok (NODE_FILE n c p s) = True"
| "tree_ok (NODE_DIRECTORY n c ns) \<longleftrightarrow>
     distinct (map node_name ns) \<and> (\<forall>m\<in>set ns. good_name (node_name m) \<and> tree_ok m)"

text \<open>The directories that lead to a path, and a file at its end.\<close>

definition add_dirs :: "string list \<Rightarrow> (string list \<Rightarrow> fs_entry option) \<Rightarrow> string list \<Rightarrow> fs_entry option" where
  "add_dirs parts m q = (if prefix q parts then Some FS_DIR else m q)"

definition no_file_on :: "string list \<Rightarrow> (string list \<Rightarrow> fs_entry option) \<Rightarrow> bool" where
  "no_file_on parts m \<longleftrightarrow> (\<forall>q. prefix q parts \<longrightarrow> m q = None \<or> m q = Some FS_DIR)"

subsection \<open>Children\<close>

lemma tree_ok_children:
  "tree_ok t \<longleftrightarrow> distinct (map node_name (children t)) \<and> (\<forall>m\<in>set (children t). good_name (node_name m) \<and> tree_ok m)"
  by (cases t) auto

lemma tree_ok_distinct: "tree_ok t \<Longrightarrow> distinct (map node_name (children t))"
  by (cases t) auto

lemma map_update_same: "i < length xs \<Longrightarrow> f c = f (xs ! i) \<Longrightarrow> map f (xs[i := c]) = map f xs"
  by (metis list_update_id map_update nth_map)

lemma set_children_simps [simp]:
  "node_name (set_children ns t) = node_name t" "is_directory (set_children ns t) = is_directory t"
  "is_directory t \<Longrightarrow> children (set_children ns t) = ns" "entry_of (set_children ns t) = entry_of t"
  "set_children ms (set_children ns t) = set_children ms t"
  by (cases t; simp)+

lemma entry_of_directory [simp]: "entry_of t = FS_DIR \<longleftrightarrow> is_directory t"
  by (cases t) auto

lemma find_child_Some:
  "fs_node_find_child t p = Some i \<Longrightarrow> i < length (children t) \<and> node_name (children t ! i) = p"
  by (auto simp: fs_node_find_child_def find_Some_iff)

lemma find_child_None: "fs_node_find_child t p = None \<longleftrightarrow> p \<notin> set (map node_name (children t))"
  by (auto simp: fs_node_find_child_def find_None_iff in_set_conv_nth image_iff Bex_def)

lemma find_child_eq:
  assumes "distinct (map node_name (children t))"
  shows "fs_node_find_child t p = Some i \<longleftrightarrow> i < length (children t) \<and> node_name (children t ! i) = p"
proof
  assume r: "i < length (children t) \<and> node_name (children t ! i) = p"
  then have "p \<in> set (map node_name (children t))" by (auto intro: nth_mem)
  then obtain j where j: "fs_node_find_child t p = Some j" using find_child_None [of t p] by auto
  then have "map node_name (children t) ! i = map node_name (children t) ! j" using r find_child_Some [OF j] by simp
  then have "i = j" using r find_child_Some [OF j] nth_eq_iff_index_eq [OF assms, of i j] by simp
  then show "fs_node_find_child t p = Some i" using j by simp
qed (rule find_child_Some)

text \<open>Lookup after a child was replaced, or added at the end.\<close>

lemma lookup_replace:
  assumes ok: "tree_ok t" "is_directory t" and i: "fs_node_find_child t p = Some i" and n: "node_name c = p"
  shows "tree_lookup (set_children ((children t)[i := c]) t) (q # r) = (if q = p then tree_lookup c r else tree_lookup t (q # r))"
proof -
  note i' = find_child_Some [OF i]
  have names: "map node_name ((children t)[i := c]) = map node_name (children t)"
    using i' n by (simp add: map_update_same)
  have d: "distinct (map node_name (children t))" using ok by (simp add: tree_ok_distinct)
  let ?t = "set_children ((children t)[i := c]) t"
  have ch: "children ?t = (children t)[i := c]" using ok by simp
  have f: "fs_node_find_child ?t q = fs_node_find_child t q" for q
  proof (cases "fs_node_find_child t q")
    case None
    then have "fs_node_find_child ?t q = None" by (simp add: find_child_None ch names del: set_map)
    then show ?thesis using None by simp
  next
    case (Some j)
    have "node_name ((children t)[i := c] ! j) = node_name (children t ! j)" using i' n by (cases "i = j") auto
    then show ?thesis using Some d find_child_Some [OF Some] find_child_eq [of ?t q j] by (simp add: ch names)
  qed
  show ?thesis
  proof (cases "fs_node_find_child t q")
    case None then show ?thesis using i by (auto simp: f)
  next
    case (Some j)
    then have "q = p \<Longrightarrow> i = j" using i by simp
    then have "q = p \<longleftrightarrow> i = j" using i' find_child_Some [OF Some] by blast
    then show ?thesis using Some i i' by (simp add: f ch)
  qed
qed

lemma ok_replace:
  assumes "tree_ok t" "is_directory t" "i < length (children t)" "node_name c = node_name (children t ! i)" "tree_ok c"
  shows "tree_ok (set_children ((children t)[i := c]) t)"
proof -
  have names: "map node_name ((children t)[i := c]) = map node_name (children t)"
    using assms by (simp add: map_update_same)
  have "good_name (node_name c)" using assms nth_mem [of i "children t"] tree_ok_children by metis
  then show ?thesis using assms names
    by (subst tree_ok_children) (auto simp: tree_ok_children [of t] dest!: subsetD [OF set_update_subset_insert])
qed

lemma lookup_add:
  assumes "is_directory t" "p \<notin> set (map node_name (children t))" "tree_ok t" and n: "node_name c = p"
  shows "tree_lookup (set_children (children t @ [c]) t) (q # r) = (if q = p then tree_lookup c r else tree_lookup t (q # r))"
proof -
  let ?t = "set_children (children t @ [c]) t"
  have ch: "children ?t = children t @ [c]" using assms by simp
  have d: "distinct (map node_name (children t))" using assms by (simp add: tree_ok_distinct)
  have d': "distinct (map node_name (children ?t))" using assms d by (simp add: ch)
  show ?thesis
  proof (cases "q = p")
    case True
    then have "fs_node_find_child ?t q = Some (length (children t))" using n by (simp add: find_child_eq [OF d'] ch)
    then show ?thesis using True by (simp add: ch)
  next
    case False
    have "fs_node_find_child ?t q = fs_node_find_child t q"
    proof (cases "fs_node_find_child t q")
      case None
      then have "fs_node_find_child ?t q = None" using False n by (simp add: find_child_None ch)
      then show ?thesis using None by simp
    next
      case (Some j) then show ?thesis using find_child_Some [OF Some] by (simp add: find_child_eq [OF d'] ch nth_append)
    qed
    then show ?thesis using False find_child_Some [of t q] by (auto simp: ch nth_append split: option.splits)
  qed
qed

lemma ok_add:
  "tree_ok t \<Longrightarrow> is_directory t \<Longrightarrow> node_name c \<notin> set (map node_name (children t)) \<Longrightarrow> tree_ok c \<Longrightarrow> good_name (node_name c) \<Longrightarrow>
   tree_ok (set_children (children t @ [c]) t)"
  by (subst tree_ok_children) (auto simp: tree_ok_children [of t])

subsection \<open>The walk to a directory\<close>

lemma create_directory_ok: "length p < FS_NAME_MAX \<Longrightarrow> fs_node_create_directory p [] = (Some (NODE_DIRECTORY p 0 []), [])"
  by (simp add: fs_node_create_directory_def strncpy_z_def FS_NAME_MAX_def)

lemma add_child_ok: "fs_node_add_child t c [] = (True, set_children (children t @ [c]) t, [])"
  by (simp add: fs_node_add_child_def)

text \<open>A file on the way: the walk fails and the tree is as it was.\<close>

lemma descend_blocked:
  "is_directory t \<Longrightarrow> \<not> no_file_on parts (tree_map t) \<Longrightarrow> tree_descend fin parts t [] = (False, t, [])"
proof (induction parts arbitrary: t)
  case Nil
  then show ?case by (simp add: no_file_on_def tree_map_def)
next
  case (Cons p parts)
  obtain q where q: "prefix q (p # parts)" "tree_map t q \<noteq> None" "tree_map t q \<noteq> Some FS_DIR"
    using Cons.prems(2) by (auto simp: no_file_on_def)
  obtain r where r: "q = p # r" "prefix r parts" using q Cons.prems(1) by (cases q) (auto simp: tree_map_def)
  then obtain i where i: "fs_node_find_child t p = Some i" using q by (auto simp: tree_map_def split: option.splits)
  have m: "tree_map (children t ! i) r = tree_map t q" by (simp add: tree_map_def r i)
  then have nf: "\<not> no_file_on parts (tree_map (children t ! i))" using q r by (auto simp: no_file_on_def)
  show ?case
  proof (cases "is_directory (children t ! i)")
    case True
    then show ?thesis using Cons.IH [OF True nf] Cons.prems(1) i by (cases t) auto
  qed (simp add: i)
qed

text \<open>
  No file on the way: the result is the tree in which the directory at the path, new when there was none, is
  replaced by what \<open>fin\<close> makes of it.
\<close>

definition dir_at :: "fs_node \<Rightarrow> string list \<Rightarrow> fs_node" where
  "dir_at t parts = (case tree_lookup t parts of Some s \<Rightarrow> s | None \<Rightarrow> NODE_DIRECTORY (last parts) 0 [])"

definition grafted :: "fs_node \<Rightarrow> string list \<Rightarrow> fs_node \<Rightarrow> fs_node \<Rightarrow> bool" where
  "grafted t parts s t' \<longleftrightarrow> node_name t' = node_name t \<and> is_directory t' \<and> tree_ok t' \<and>
     (\<forall>r. tree_map t' (parts @ r) = tree_map s r) \<and>
     (\<forall>q. strict_prefix q parts \<longrightarrow> tree_map t' q = Some FS_DIR) \<and>
     (\<forall>q. \<not> prefix parts q \<and> \<not> prefix q parts \<longrightarrow> tree_map t' q = tree_map t q)"

lemma grafted_Cons:
  assumes g: "grafted c parts s c'" and t': "\<And>q r. tree_lookup t' (q # r) = (if q = p then tree_lookup c' r else tree_lookup t (q # r))"
    and c: "\<And>r. \<not> prefix parts r \<Longrightarrow> \<not> prefix r parts \<Longrightarrow> tree_map c r = tree_map t (p # r)"
    and d: "is_directory t'" "tree_ok t'" "node_name t' = node_name t"
  shows "grafted t (p # parts) s t'"
proof -
  have m: "tree_map t' (q # r) = (if q = p then tree_map c' r else tree_map t (q # r))" for q r
    unfolding tree_map_def t' by simp
  have "tree_map t' q = Some FS_DIR" if "strict_prefix q (p # parts)" for q
    using that g d by (cases q) (auto simp: m grafted_def, auto simp: tree_map_def)
  moreover have "tree_map t' q = tree_map t q" if "\<not> prefix (p # parts) q" "\<not> prefix q (p # parts)" for q
    using that g c by (cases q) (auto simp: m grafted_def)
  ultimately show ?thesis using g d by (auto simp: grafted_def m)
qed

lemma descend_graft:
  assumes "is_directory t" "tree_ok t" "no_file_on parts (tree_map t)" "\<forall>p\<in>set parts. good_name p"
    and "\<And>s. is_directory s \<Longrightarrow> tree_ok s \<Longrightarrow>
           \<exists>ok s'. fin s [] = (ok, s', []) \<and> is_directory s' \<and> tree_ok s' \<and> node_name s' = node_name s"
  shows "\<exists>ok s' t'. fin (dir_at t parts) [] = (ok, s', []) \<and> tree_descend fin parts t [] = (ok, t', []) \<and> grafted t parts s' t'"
  using assms(1-4)
proof (induction parts arbitrary: t)
  case Nil
  then obtain ok s' where "fin t [] = (ok, s', [])" "is_directory s'" "tree_ok s'" "node_name s' = node_name t"
    using assms(5) by blast
  then show ?case by (auto simp: dir_at_def grafted_def)
next
  case (Cons p parts)
  have p: "good_name p" and len: "length p < FS_NAME_MAX" using Cons.prems(4) by (auto simp: good_name_def)
  show ?case
  proof (cases "fs_node_find_child t p")
    case (Some i)
    note i = find_child_Some [OF Some]
    have m: "tree_map (children t ! i) r = tree_map t (p # r)" for r by (simp add: tree_map_def Some)
    have "tree_map t [p] = Some FS_DIR" using Cons.prems(3) Some by (auto simp: no_file_on_def tree_map_def dest: spec [of _ "[p]"])
    then have dir: "is_directory (children t ! i)" by (simp add: tree_map_def Some)
    have ok: "tree_ok (children t ! i)" using Cons.prems(2) i nth_mem [of i "children t"] tree_ok_children by blast
    have nf: "no_file_on parts (tree_map (children t ! i))" using Cons.prems(3) by (auto simp: no_file_on_def m)
    obtain r s' c' where c': "fin (dir_at (children t ! i) parts) [] = (r, s', [])"
        "tree_descend fin parts (children t ! i) [] = (r, c', [])" "grafted (children t ! i) parts s' c'"
      using Cons.IH [OF dir ok nf] Cons.prems(4) by auto
    have n: "node_name c' = p" "tree_ok c'" using c'(3) i by (auto simp: grafted_def)
    let ?t = "set_children ((children t)[i := c']) t"
    have "grafted t (p # parts) s' ?t"
      using Cons.prems n i m
      by (intro grafted_Cons [OF c'(3) lookup_replace [OF Cons.prems(2,1) Some n(1)]] ok_replace) simp_all
    moreover have "dir_at t (p # parts) = dir_at (children t ! i) parts"
      by (cases parts) (auto simp: dir_at_def Some split: option.split)
    ultimately show ?thesis using c' dir Some by auto
  next
    case None
    let ?c = "NODE_DIRECTORY p 0 []"
    have new: "p \<notin> set (map node_name (children t))" using None by (simp add: find_child_None)
    have fc: "fs_node_find_child ?c q = None" for q by (simp add: find_child_None)
    have "tree_map ?c q = None \<or> tree_map ?c q = Some FS_DIR" for q by (cases q) (simp_all add: tree_map_def fc)
    then have nf: "no_file_on parts (tree_map ?c)" by (simp add: no_file_on_def)
    obtain r s' c' where c': "fin (dir_at ?c parts) [] = (r, s', [])" "tree_descend fin parts ?c [] = (r, c', [])" "grafted ?c parts s' c'"
      using Cons.IH [of ?c] nf Cons.prems(4) by auto
    have n: "node_name c' = p" "tree_ok c'" using c'(3) by (auto simp: grafted_def)
    let ?t = "set_children (children t @ [c']) t"
    have "tree_map ?c q = tree_map t (p # q)" if "\<not> prefix q parts" for q
      using that None by (cases q) (auto simp: tree_map_def fc)
    then have "grafted t (p # parts) s' ?t"
      using Cons.prems n new p
      by (intro grafted_Cons [OF c'(3) lookup_add [OF Cons.prems(1) new Cons.prems(2) n(1)]] ok_add) simp_all
    moreover have "dir_at t (p # parts) = dir_at ?c parts" by (cases parts) (auto simp: dir_at_def None fc)
    ultimately show ?thesis using c' None Cons.prems(1) by (auto simp: create_directory_ok [OF len] add_child_ok)
  qed
qed

subsection \<open>The insertions\<close>

lemma grafted_map:
  assumes g: "grafted t ds s' t'"
  shows "tree_map t' q = (if prefix ds q then tree_map s' (drop (length ds) q) else add_dirs ds (tree_map t) q)"
proof (cases "prefix ds q")
  case True
  then show ?thesis using g by (auto simp: grafted_def elim!: prefixE)
next
  case False
  then show ?thesis using g by (auto simp: grafted_def add_dirs_def strict_prefix_def)
qed

lemma tree_lookup_append:
  "tree_lookup t (p @ q) = (case tree_lookup t p of None \<Rightarrow> None | Some s \<Rightarrow> tree_lookup s q)"
  by (induction t p rule: tree_lookup.induct) (auto split: option.splits)

lemma map_empty_directory: "tree_map (NODE_DIRECTORY n c []) r = (if r = [] then Some FS_DIR else None)"
  by (cases r) (auto simp: tree_map_def fs_node_find_child_def)

lemma map_file: "tree_map (NODE_FILE n c p s) r = (if r = [] then Some (FS_FILE p s) else None)"
  by (cases r) (auto simp: tree_map_def fs_node_find_child_def)

lemma map_dir_at:
  assumes "no_file_on ds (tree_map t)"
  shows "tree_map (dir_at t ds) r = add_dirs ds (tree_map t) (ds @ r)"
proof (cases "tree_lookup t ds")
  case None
  then show ?thesis by (auto simp: dir_at_def map_empty_directory add_dirs_def) (simp add: tree_map_def tree_lookup_append)
next
  case (Some s)
  then have "is_directory s" using assms by (auto simp: no_file_on_def tree_map_def dest: spec [of _ ds])
  then show ?thesis using Some by (auto simp: dir_at_def tree_map_def add_dirs_def tree_lookup_append)
qed

lemma is_directory_dir_at:
  assumes "no_file_on ds (tree_map t)"
  shows "is_directory (dir_at t ds)"
  using map_dir_at [OF assms, of "[]"] by (auto simp: tree_map_def add_dirs_def)

lemma tree_ok_lookup: "tree_ok t \<Longrightarrow> tree_lookup t p = Some s \<Longrightarrow> tree_ok s"
proof (induction t p rule: tree_lookup.induct)
  case (2 t part parts)
  obtain i where i: "fs_node_find_child t part = Some i" "tree_lookup (children t ! i) parts = Some s"
    using "2.prems"(2) by (auto split: option.splits)
  have "tree_ok (children t ! i)" using "2.prems"(1) tree_ok_children [of t] find_child_Some [OF i(1)] by auto
  then show ?case using "2.IH" [OF i(1)] i(2) by blast
qed simp

lemma tree_ok_dir_at: "tree_ok t \<Longrightarrow> tree_ok (dir_at t ds)"
  by (auto simp: dir_at_def tree_ok_lookup split: option.split)

text \<open>The file that \<open>fs_node_create_file\<close> makes.\<close>

definition file_entry :: "host \<Rightarrow> string \<Rightarrow> fs_entry" where
  "file_entry host path = FS_FILE (take (FS_PATH_MAX - 1) path) (of_nat (length (the (host path))))"

lemma put_file_spec:
  assumes d: "is_directory s" "tree_ok s" and n: "good_name name"
  shows "\<exists>ok s'. tree_put_file host name path s [] = (ok, s', []) \<and> is_directory s' \<and> tree_ok s' \<and> node_name s' = node_name s \<and>
    ok = (tree_map s [name] = None \<and> host path \<noteq> None) \<and>
    tree_map s' = (if ok then (tree_map s)([name] \<mapsto> file_entry host path) else tree_map s)"
proof (cases "fs_node_find_child s name = None \<and> host path \<noteq> None")
  case False
  then show ?thesis using d
    by (auto simp: tree_put_file_def fs_node_create_file_def tree_map_def split: option.splits)
next
  case True
  then obtain bytes where b: "host path = Some bytes" by blast
  let ?f = "NODE_FILE name 0 (take (FS_PATH_MAX - 1) path) (of_nat (length bytes))"
  let ?s = "set_children (children s @ [?f]) s"
  have new: "name \<notin> set (map node_name (children s))" using True by (simp add: find_child_None)
  have "tree_put_file host name path s [] = (True, ?s, [])"
    using True n by (simp add: tree_put_file_def fs_node_create_file_def b add_child_ok strncpy_z_def good_name_def FS_NAME_MAX_def)
  moreover have "tree_ok ?s" using d n new by (intro ok_add) auto
  moreover have "tree_map ?s q = ((tree_map s)([name] \<mapsto> file_entry host path)) q" for q
  proof (cases q)
    case Nil then show ?thesis by (simp add: tree_map_def)
  next
    case (Cons p r)
    have "tree_map ?s (p # r) = (if p = name then tree_map ?f r else tree_map s (p # r))"
      unfolding tree_map_def lookup_add [OF d(1) new d(2), of ?f, simplified fs_node.sel, OF refl] by simp
    then show ?thesis using True unfolding Cons by (auto simp: map_file file_entry_def b) (simp add: tree_map_def)
  qed
  moreover have "tree_map s [name] = None" using True by (simp add: tree_map_def)
  ultimately show ?thesis using d True by (intro exI [of _ True] exI [of _ ?s]) auto
qed

lemma split_on_no_sep: "w \<in> set (split_on c s) \<Longrightarrow> c \<notin> set w"
  by (induction c s arbitrary: w rule: split_on.induct) (auto split: if_splits list.splits)

lemma split_path_good:
  "p \<in> set (split_path path) \<Longrightarrow> length p < FS_NAME_MAX \<Longrightarrow> good_name p"
  by (auto simp: split_path_def strtok_all_def good_name_def dest!: in_set_takeD split_on_no_sep)

definition path_parts :: "string \<Rightarrow> string list" where
  "path_parts path = split_path (take (FS_PATH_MAX - 1) path)"

definition short_parts :: "string \<Rightarrow> bool" where
  "short_parts path \<longleftrightarrow> (\<forall>p\<in>set (path_parts path). length p < FS_NAME_MAX)"

text \<open>The insertions into the map.\<close>

definition map_insert_file :: "host \<Rightarrow> string list \<Rightarrow> string \<Rightarrow> (string list \<Rightarrow> fs_entry option) \<Rightarrow> bool \<times> (string list \<Rightarrow> fs_entry option)" where
  "map_insert_file host parts path m =
     (if parts = [] \<or> \<not> no_file_on (butlast parts) m then (False, m)
      else if m parts = None \<and> host path \<noteq> None then (True, (add_dirs (butlast parts) m)(parts \<mapsto> file_entry host path))
      else (False, add_dirs (butlast parts) m))"

definition map_insert_dir :: "string list \<Rightarrow> (string list \<Rightarrow> fs_entry option) \<Rightarrow> bool \<times> (string list \<Rightarrow> fs_entry option)" where
  "map_insert_dir parts m = (if parts = [] \<or> \<not> no_file_on parts m then (False, m) else (True, add_dirs parts m))"

lemma tree_insert_directory_spec:
  assumes t: "tree_ok t" "is_directory t" and p: "short_parts path"
  shows "\<exists>ok t'. tree_insert_directory t path [] = (ok, t', []) \<and> tree_ok t' \<and> is_directory t' \<and>
    (ok, tree_map t') = map_insert_dir (path_parts path) (tree_map t)"
proof (cases "path_parts path = [] \<or> \<not> no_file_on (path_parts path) (tree_map t)")
  case True
  then show ?thesis using t descend_blocked [OF t(2)]
    by (auto simp: tree_insert_directory_def map_insert_dir_def path_parts_def strncpy_z_def Let_def)
next
  case False
  let ?ps = "path_parts path"
  have good: "\<forall>p\<in>set ?ps. good_name p" using p split_path_good by (auto simp: short_parts_def path_parts_def)
  have nf: "no_file_on ?ps (tree_map t)" using False by simp
  have fin: "\<exists>ok s'. (\<lambda>c h. (True, c, h)) s [] = (ok, s', []) \<and> is_directory s' \<and> tree_ok s' \<and> node_name s' = node_name s"
    if "is_directory s" "tree_ok s" for s using that by (intro exI [of _ True] exI [of _ s]) simp
  obtain t' where t': "tree_descend (\<lambda>c h. (True, c, h)) ?ps t [] = (True, t', [])" "grafted t ?ps (dir_at t ?ps) t'"
    using descend_graft [where fin = "\<lambda>c h. (True, c, h)", OF t(2,1) nf good fin] by auto
  have "tree_map t' q = add_dirs ?ps (tree_map t) q" for q
    using grafted_map [OF t'(2), of q] map_dir_at [of ?ps t] False by (auto elim!: prefixE)
  then have "tree_map t' = add_dirs ?ps (tree_map t)" by blast
  then show ?thesis using t' False
    by (auto simp: tree_insert_directory_def map_insert_dir_def path_parts_def strncpy_z_def grafted_def)
qed

lemma tree_insert_node_spec:
  assumes t: "tree_ok t" "is_directory t" and p: "short_parts path"
  shows "\<exists>ok t'. tree_insert_node host t path hp [] = (ok, t', []) \<and> tree_ok t' \<and> is_directory t' \<and>
    (ok, tree_map t') = map_insert_file host (path_parts path) hp (tree_map t)"
proof (cases "path_parts path = [] \<or> \<not> no_file_on (butlast (path_parts path)) (tree_map t)")
  case True
  then show ?thesis using t descend_blocked [OF t(2)]
    by (auto simp: tree_insert_node_def map_insert_file_def path_parts_def strncpy_z_def Let_def)
next
  case False
  let ?ps = "path_parts path" let ?ds = "butlast ?ps" let ?n = "last ?ps"
  have ps: "?ps = ?ds @ [?n]" and nf: "no_file_on ?ds (tree_map t)" using False by auto
  have good: "\<forall>p\<in>set ?ps. good_name p" using p split_path_good by (auto simp: short_parts_def path_parts_def)
  then have g: "\<forall>p\<in>set ?ds. good_name p" "good_name ?n" using in_set_butlastD False by fastforce+
  obtain ok s' t' where s': "tree_put_file host ?n hp (dir_at t ?ds) [] = (ok, s', [])"
      and t': "tree_descend (tree_put_file host ?n hp) ?ds t [] = (ok, t', [])" "grafted t ?ds s' t'"
    using descend_graft [OF t(2,1) nf g(1), of "tree_put_file host ?n hp"] put_file_spec [OF _ _ g(2)] by blast
  have s: "ok = (tree_map (dir_at t ?ds) [?n] = None \<and> host hp \<noteq> None)"
      "tree_map s' = (if ok then (tree_map (dir_at t ?ds))([?n] \<mapsto> file_entry host hp) else tree_map (dir_at t ?ds))"
    using put_file_spec [OF is_directory_dir_at [OF nf] tree_ok_dir_at [OF t(1)] g(2), of host hp] s' by auto
  have not_pre: "\<not> prefix ?ps ?ds" using prefix_length_le [of ?ps ?ds] False by (cases ?ps) auto
  have at_ps: "tree_map (dir_at t ?ds) [?n] = tree_map t ?ps"
    using map_dir_at [OF nf, of "[?n]"] ps [symmetric] not_pre by (simp add: add_dirs_def)
  have "tree_map t' q = (if ok then (add_dirs ?ds (tree_map t))(?ps \<mapsto> file_entry host hp) else add_dirs ?ds (tree_map t)) q" for q
  proof (cases "prefix ?ds q")
    case True
    then obtain r where "q = ?ds @ r" by (elim prefixE)
    moreover have "?ds @ r = ?ps \<longleftrightarrow> r = [?n]" by (metis ps same_append_eq)
    ultimately show ?thesis using grafted_map [OF t'(2), of q] s(2) map_dir_at [OF nf, of r] by auto
  next
    case no: False
    moreover have "q \<noteq> ?ps" using no ps by (metis prefixI)
    ultimately show ?thesis using grafted_map [OF t'(2), of q] by auto
  qed
  then have m: "tree_map t' = (if ok then (add_dirs ?ds (tree_map t))(?ps \<mapsto> file_entry host hp) else add_dirs ?ds (tree_map t))" by blast
  have "tree_insert_node host t path hp [] = (ok, t', [])"
    using False t' by (simp add: tree_insert_node_def path_parts_def strncpy_z_def)
  moreover have "(ok, tree_map t') = map_insert_file host ?ps hp (tree_map t)"
    unfolding map_insert_file_def m s(1) at_ps using False by simp
  ultimately show ?thesis using t'(2) by (auto simp: grafted_def)
qed

subsection \<open>The list of files\<close>

text \<open>The lines of the list of files that have a colon, as pairs of a path of the host and a path of the image.\<close>

function disk_lines :: "string \<Rightarrow> (string \<times> string) list" where
  "disk_lines fp =
     (case fgets MAX_BUF_SIZE fp of
        None \<Rightarrow> []
      | Some (line, fp) \<Rightarrow> (case parse_line line of None \<Rightarrow> disk_lines fp | Some hi \<Rightarrow> hi # disk_lines fp))"
  by pat_completeness auto
termination
  by (relation "measure length") (auto dest!: fgets_shorter simp: MAX_BUF_SIZE_def FS_PATH_MAX_def)

declare disk_lines.simps [simp del]

definition line_is_dir :: "string \<Rightarrow> bool" where
  "line_is_dir image_path \<longleftrightarrow> image_path \<noteq> [] \<and> last image_path = CHR ''/''"

definition line_path :: "string \<Rightarrow> string" where
  "line_path image_path = (if line_is_dir image_path then butlast image_path else image_path)"

text \<open>What a line asks for, on the map.\<close>

definition map_insert_line ::
  "host \<Rightarrow> string \<times> string \<Rightarrow> (string list \<Rightarrow> fs_entry option) \<Rightarrow> bool \<times> (string list \<Rightarrow> fs_entry option)" where
  "map_insert_line host hi m =
     (if line_is_dir (snd hi) then map_insert_dir (path_parts (line_path (snd hi))) m
      else map_insert_file host (path_parts (line_path (snd hi))) (fst hi) m)"

fun map_insert_lines ::
  "host \<Rightarrow> (string \<times> string) list \<Rightarrow> (string list \<Rightarrow> fs_entry option) \<Rightarrow> string list \<times> (string list \<Rightarrow> fs_entry option)" where
  "map_insert_lines host [] m = ([], m)"
| "map_insert_lines host (hi # his) m =
     (case map_insert_line host hi m of
        (ok, m) \<Rightarrow> (case map_insert_lines host his m of (errs, m) \<Rightarrow> (if ok then errs else line_path (snd hi) # errs, m)))"

lemma parse_insert_spec:
  assumes "tree_ok t" "is_directory t" "short_parts (line_path ip)"
  shows "\<exists>ok t'. parse_insert host (Some t) hp ip [] = Some (line_path ip, ok, Some t', []) \<and> tree_ok t' \<and> is_directory t' \<and>
    (ok, tree_map t') = map_insert_line host (hp, ip) (tree_map t)"
  using tree_insert_directory_spec [OF assms] tree_insert_node_spec [OF assms, of host hp]
  by (auto simp: parse_insert_def map_insert_line_def line_path_def line_is_dir_def)

lemma parse_lines_spec:
  assumes "tree_ok t" "is_directory t" "\<forall>hi\<in>set (disk_lines fp). short_parts (line_path (snd hi))"
  shows "\<exists>t' errs. parse_lines host fp (Some t) [] = Some (Some t', errs, []) \<and> tree_ok t' \<and> is_directory t' \<and>
    (errs, tree_map t') = map_insert_lines host (disk_lines fp) (tree_map t)"
  using assms
proof (induction fp arbitrary: t rule: disk_lines.induct)
  case (1 fp)
  show ?case
  proof (cases "fgets MAX_BUF_SIZE fp")
    case None
    then show ?thesis using 1 by (simp add: parse_lines.simps disk_lines.simps)
  next
    case (Some r)
    then obtain line fp' where r: "fgets MAX_BUF_SIZE fp = Some (line, fp')" by (cases r) auto
    show ?thesis
    proof (cases "parse_line line")
      case None
      then have "disk_lines fp = disk_lines fp'" "parse_lines host fp (Some t) [] = parse_lines host fp' (Some t) []"
        using r by (simp_all add: disk_lines.simps [of fp] parse_lines.simps [of host fp])
      then show ?thesis using "1.IH"(1) [OF r refl None] "1.prems" by auto
    next
      case (Some hi)
      then obtain hp ip where hi: "parse_line line = Some (hp, ip)" by (cases hi) auto
      have dl: "disk_lines fp = (hp, ip) # disk_lines fp'" using r hi by (simp add: disk_lines.simps [of fp])
      obtain ok t1 where t1: "parse_insert host (Some t) hp ip [] = Some (line_path ip, ok, Some t1, [])" "tree_ok t1" "is_directory t1"
          "(ok, tree_map t1) = map_insert_line host (hp, ip) (tree_map t)"
        using parse_insert_spec [OF "1.prems"(1,2), of ip host hp] "1.prems"(3) by (auto simp: dl)
      obtain t' errs where t': "parse_lines host fp' (Some t1) [] = Some (Some t', errs, [])" "tree_ok t'" "is_directory t'"
          "(errs, tree_map t') = map_insert_lines host (disk_lines fp') (tree_map t1)"
        using "1.IH"(2) [OF r refl hi t1(2,3)] "1.prems"(3) by (auto simp: dl)
      then show ?thesis using r hi t1(1)
        by (auto simp: parse_lines.simps [of host fp] dl t1(4) [symmetric] t'(4) [symmetric])
    qed
  qed
qed

lemma parse_disk_files_lines:
  assumes "\<forall>hi\<in>set (disk_lines fp). short_parts (line_path (snd hi))"
  shows "\<exists>root errs. parse_disk_files host fp [] = Some (Some root, errs, []) \<and> tree_ok root \<and> is_directory root \<and>
    (errs, tree_map root) = map_insert_lines host (disk_lines fp) [[] \<mapsto> FS_DIR]"
proof -
  have "tree_map (NODE_DIRECTORY [] 0 []) = [[] \<mapsto> FS_DIR]" by (auto simp: map_empty_directory)
  then show ?thesis using parse_lines_spec [of "NODE_DIRECTORY [] 0 []" fp host] assms
    by (simp add: parse_disk_files_def create_directory_ok FS_NAME_MAX_def)
qed

subsection \<open>What a list of files means\<close>

text \<open>
  The lines of a list: a file of the host with its path in the image, a directory of the image (with something before the colon
  or nothing), or a line without a colon. A list is written with one line for each; a path is written with slashes between its
  components, and that of a directory with one more at its end.
\<close>

datatype list_entry = Copy string "string list" | Make_dir string "string list" | Remark string

fun path_text :: "string list \<Rightarrow> string" where
  "path_text [] = []"
| "path_text [p] = p"
| "path_text (p # q # ps) = p @ CHR ''/'' # path_text (q # ps)"

fun entry_line :: "list_entry \<Rightarrow> string" where
  "entry_line (Copy host_path parts) = host_path @ CHR '':'' # path_text parts"
| "entry_line (Make_dir host_path parts) = host_path @ CHR '':'' # path_text parts @ ''/''"
| "entry_line (Remark t) = t"

definition list_text :: "list_entry list \<Rightarrow> string" where
  "list_text es = concat (map (\<lambda>e. entry_line e @ [CHR 0x0A]) es)"

fun entry_parts :: "list_entry \<Rightarrow> string list" where
  "entry_parts (Copy host_path parts) = parts"
| "entry_parts (Make_dir host_path parts) = parts"
| "entry_parts (Remark t) = []"

text \<open>The limits of the format: lengths, and the characters that separate lines, sides and components.\<close>

definition host_side_ok :: "string \<Rightarrow> bool" where
  "host_side_ok t \<longleftrightarrow> length t \<le> 255 \<and> set t \<inter> {CHR '':'', CHR 0x0A, CHR 0x00} = {}"

definition parts_ok :: "string list \<Rightarrow> bool" where
  "parts_ok parts \<longleftrightarrow> length parts \<le> 32 \<and> length (path_text parts) \<le> 255
     \<and> (\<forall>p\<in>set parts. p \<noteq> [] \<and> length p \<le> 63 \<and> set p \<inter> {CHR ''/'', CHR 0x0A, CHR 0x00} = {})"

fun entry_ok :: "list_entry \<Rightarrow> bool" where
  "entry_ok (Copy host_path parts) = (host_side_ok host_path \<and> parts_ok parts)"
| "entry_ok (Make_dir host_path parts) = (host_side_ok host_path \<and> parts_ok parts)"
| "entry_ok (Remark t) = host_side_ok t"

text \<open>What the entries ask for, one after the other, and the paths of those that fail.\<close>

fun map_insert_entry :: "host \<Rightarrow> list_entry \<Rightarrow> (string list \<Rightarrow> fs_entry option) \<Rightarrow> bool \<times> (string list \<Rightarrow> fs_entry option)" where
  "map_insert_entry host (Copy host_path parts) m = map_insert_file host parts host_path m"
| "map_insert_entry host (Make_dir host_path parts) m = map_insert_dir parts m"
| "map_insert_entry host (Remark t) m = (True, m)"

fun map_insert_entries :: "host \<Rightarrow> list_entry list \<Rightarrow> (string list \<Rightarrow> fs_entry option) \<Rightarrow> string list \<times> (string list \<Rightarrow> fs_entry option)" where
  "map_insert_entries host [] m = ([], m)"
| "map_insert_entries host (e # es) m =
     (case map_insert_entry host e m of
        (ok, m) \<Rightarrow> (case map_insert_entries host es m of (errs, m) \<Rightarrow> (if ok then errs else path_text (entry_parts e) # errs, m)))"

lemma split_on_word: "c \<notin> set p \<Longrightarrow> split_on c p = [p]"
  by (induction p) auto

lemma split_on_append: "c \<notin> set p \<Longrightarrow> split_on c (p @ c # s) = p # split_on c s"
  by (induction p) auto

lemma split_on_path_text:
  "\<forall>p\<in>set ps. CHR ''/'' \<notin> set p \<Longrightarrow> split_on CHR ''/'' (path_text ps) = (if ps = [] then [[]] else ps)"
  by (induction ps rule: path_text.induct) (simp_all add: split_on_word split_on_append)

lemma path_parts_text:
  assumes "parts_ok ps"
  shows "path_parts (path_text ps) = ps"
proof -
  have "split_on CHR ''/'' (path_text ps) = (if ps = [] then [[]] else ps)"
    using assms by (intro split_on_path_text) (auto simp: parts_ok_def)
  moreover have "filter (\<lambda>w. w \<noteq> []) ps = ps" using assms by (auto simp: parts_ok_def filter_id_conv)
  ultimately have "strtok_all CHR ''/'' (path_text ps) = ps" by (auto simp: strtok_all_def)
  then show ?thesis using assms by (simp add: path_parts_def split_path_def parts_ok_def FS_PATH_MAX_def MAX_PATH_COMPONENTS_def)
qed

lemma path_text_chars: "c \<in> set (path_text ps) \<Longrightarrow> c = CHR ''/'' \<or> (\<exists>p\<in>set ps. c \<in> set p)"
  by (induction ps rule: path_text.induct) auto

lemma path_text_Nil: "\<forall>p\<in>set ps. p \<noteq> [] \<Longrightarrow> path_text ps = [] \<longleftrightarrow> ps = []"
  by (cases ps rule: path_text.cases) auto

lemma path_text_last:
  "\<forall>p\<in>set ps. p \<noteq> [] \<and> CHR ''/'' \<notin> set p \<Longrightarrow> path_text ps \<noteq> [] \<Longrightarrow> last (path_text ps) \<noteq> CHR ''/''"
proof (induction ps rule: path_text.induct)
  case (2 p)
  then show ?case by (metis last_in_set list.set_intros(1) path_text.simps(2))
next
  case (3 p q ps)
  then show ?case using path_text_Nil [of "q # ps"] by auto
qed simp

lemma line_path_text:
  assumes "parts_ok ps"
  shows "\<not> line_is_dir (path_text ps)" and "line_is_dir (path_text ps @ ''/'')" and "line_path (path_text ps) = path_text ps"
    and "line_path (path_text ps @ ''/'') = path_text ps"
  using path_text_last [of ps] assms by (auto simp: line_is_dir_def line_path_def parts_ok_def)

lemma fgets_take_line:
  "CHR 0x0A \<notin> set l \<Longrightarrow> length l < n \<Longrightarrow> fgets_take n (l @ CHR 0x0A # r) = (l @ [CHR 0x0A], r)"
proof (induction l arbitrary: n)
  case Nil
  then show ?case by (cases n) simp_all
next
  case (Cons c l)
  then show ?case by (cases n) auto
qed

lemma fgets_line:
  assumes "CHR 0x0A \<notin> set l" and "length l \<le> 513"
  shows "fgets MAX_BUF_SIZE (l @ CHR 0x0A # r) = Some (l @ [CHR 0x0A], r)"
proof -
  have "MAX_BUF_SIZE - 1 = 514" by (simp add: MAX_BUF_SIZE_def FS_PATH_MAX_def)
  then show ?thesis using fgets_take_line [OF assms(1), of 514 r] assms(2) by (simp add: fgets_def)
qed

lemma takeWhile_until: "c \<notin> set xs \<Longrightarrow> takeWhile (\<lambda>x. x \<noteq> c) (xs @ c # ys) = xs"
  by (induction xs) auto

lemma takeWhile_none: "c \<notin> set xs \<Longrightarrow> takeWhile (\<lambda>x. x \<noteq> c) xs = xs"
  by (induction xs) auto

lemma parse_line_entry:
  assumes "set l \<inter> {CHR 0x0A, CHR 0x00} = {}"
  shows "parse_line (l @ [CHR 0x0A]) =
    (if CHR '':'' \<in> set l then Some (takeWhile (\<lambda>c. c \<noteq> CHR '':'') l, tl (dropWhile (\<lambda>c. c \<noteq> CHR '':'') l)) else None)"
proof -
  have "takeWhile (\<lambda>c. c \<noteq> CHR 0x00) (l @ [CHR 0x0A]) = l @ [CHR 0x0A]" using assms by (intro takeWhile_none) auto
  moreover have "takeWhile (\<lambda>c. c \<noteq> CHR 0x0A) (l @ [CHR 0x0A]) = l" using assms by (intro takeWhile_until) auto
  ultimately show ?thesis by (simp add: parse_line_def Let_def)
qed

lemma parse_line_colon:
  assumes "host_side_ok h" and "set p \<inter> {CHR 0x0A, CHR 0x00} = {}"
  shows "parse_line (h @ CHR '':'' # p @ [CHR 0x0A]) = Some (h, p)"
proof -
  have set_ok: "set (h @ CHR '':'' # p) \<inter> {CHR 0x0A, CHR 0x00} = {}" using assms by (auto simp: host_side_ok_def)
  have c: "CHR '':'' \<notin> set h" using assms(1) by (auto simp: host_side_ok_def)
  have "dropWhile (\<lambda>c. c \<noteq> CHR '':'') (h @ CHR '':'' # p) = CHR '':'' # p" using c by (induction h) auto
  then show ?thesis using parse_line_entry [OF set_ok] takeWhile_until [OF c, of p] by simp
qed

definition entry_request :: "list_entry \<Rightarrow> (string \<times> string) list" where
  "entry_request e = (case e of Copy h ps \<Rightarrow> [(h, path_text ps)] | Make_dir h ps \<Rightarrow> [(h, path_text ps @ ''/'')] | Remark t \<Rightarrow> [])"

lemma disk_lines_entry:
  assumes "entry_ok e"
  shows "disk_lines (entry_line e @ CHR 0x0A # rest) = entry_request e @ disk_lines rest"
proof -
  have ps: "set (path_text ps) \<inter> {CHR 0x0A, CHR 0x00} = {}" "length (path_text ps) \<le> 255" if "parts_ok ps" for ps
    using that path_text_chars [of _ ps] by (fastforce simp: parts_ok_def)+
  have l: "CHR 0x0A \<notin> set (entry_line e)" "length (entry_line e) \<le> 513"
    using assms ps by (cases e; fastforce simp: host_side_ok_def)+
  note f = fgets_line [OF l, of rest]
  have "case parse_line (entry_line e @ [CHR 0x0A]) of None \<Rightarrow> entry_request e = [] | Some hi \<Rightarrow> entry_request e = [hi]"
  proof (cases e)
    case (Copy h p)
    then show ?thesis using parse_line_colon [of h "path_text p"] assms ps by (simp add: entry_request_def)
  next
    case (Make_dir h p)
    then show ?thesis using parse_line_colon [of h "path_text p @ ''/''"] assms ps by (auto simp: entry_request_def)
  next
    case (Remark t)
    then show ?thesis using parse_line_entry [of t] assms by (auto simp: entry_request_def host_side_ok_def)
  qed
  then show ?thesis using f by (auto simp: disk_lines.simps [of "entry_line e @ CHR 0x0A # rest"] split: option.splits)
qed

lemma disk_lines_text: "\<forall>e\<in>set es. entry_ok e \<Longrightarrow> disk_lines (list_text es) = concat (map entry_request es)"
proof (induction es)
  case Nil
  show ?case by (simp add: list_text_def disk_lines.simps fgets_def)
next
  case (Cons e es)
  then show ?case using disk_lines_entry [of e "list_text es"] by (simp add: list_text_def)
qed

lemma insert_lines_entries:
  "\<forall>e\<in>set es. entry_ok e \<Longrightarrow> map_insert_lines host (concat (map entry_request es)) m = map_insert_entries host es m"
proof (induction es arbitrary: m)
  case (Cons e es)
  show ?case
  proof (cases e)
    case (Remark t)
    then show ?thesis using Cons by (simp add: entry_request_def split: prod.split)
  qed (use Cons in \<open>simp_all add: entry_request_def map_insert_line_def line_path_text path_parts_text split: prod.split\<close>)
qed simp

text \<open>
  C25. \<open>parse_disk_files\<close> on a list of files, written line by line as the format prescribes and within its limits (sides of at most
  255 characters, at most 32 components of at most 63 characters), when memory is available. It returns a tree with distinct
  names in every directory whose map from paths to files and directories is the one obtained by carrying out the entries one by
  one, and it reports exactly the entries that fail (a file on the way, a path that is taken, a host file that cannot be opened, a path
  with no component). A line without a colon asks for nothing, and what a directory line has before its colon is ignored, also where it
  names a directory of the host, a line that the documentation calls a failure.
\<close>

theorem parse_disk_files_correct:
  assumes "\<forall>e\<in>set es. entry_ok e"
  shows "\<exists>root errs. parse_disk_files host (list_text es) [] = Some (Some root, errs, []) \<and> tree_ok root \<and> is_directory root \<and>
    (errs, tree_map root) = map_insert_entries host es [[] \<mapsto> FS_DIR]"
proof -
  have "short_parts (line_path (snd hi))" if "hi \<in> set (disk_lines (list_text es))" for hi
  proof -
    obtain e where e: "e \<in> set es" "hi \<in> set (entry_request e)" using \<open>hi \<in> _\<close> disk_lines_text [OF assms] by auto
    have len: "short_parts (path_text ps)" if "parts_ok ps" for ps
      using that by (auto simp: short_parts_def path_parts_text) (auto simp: parts_ok_def FS_NAME_MAX_def)
    have "entry_ok e" using assms e(1) by blast
    with e(2) show ?thesis unfolding entry_request_def by (cases e rule: list_entry.exhaust) (auto simp: line_path_text len)
  qed
  then show ?thesis using parse_disk_files_lines [of "list_text es" host] disk_lines_text [OF assms] insert_lines_entries [OF assms] by simp
qed

text \<open>A list of four lines, the second of which needs a directory that is a file.\<close>

definition list_host :: host where
  "list_host p = (if p = ''k'' then Some [1, 2, 3] else None)"

definition list_sample :: "list_entry list" where
  "list_sample = [Copy ''k'' [''a'', ''b''], Copy ''k'' [''a'', ''b'', ''c''], Remark ''# notes'', Make_dir ''x/'' [''d'']]"

theorem parse_disk_files_witness:
  "\<exists>root errs. parse_disk_files list_host (''k:a/b'' @ CHR 0x0A # ''k:a/b/c'' @ CHR 0x0A # ''# notes'' @ CHR 0x0A # ''x/:d/'' @ [CHR 0x0A]) []
       = Some (Some root, errs, [])
     \<and> tree_ok root \<and> errs = [''a/b/c''] \<and> tree_map root [''a'', ''b''] = Some (FS_FILE ''k'' 3) \<and> tree_map root [''d''] = Some FS_DIR"
proof -
  have t: "list_text list_sample = ''k:a/b'' @ CHR 0x0A # ''k:a/b/c'' @ CHR 0x0A # ''# notes'' @ CHR 0x0A # ''x/:d/'' @ [CHR 0x0A]"
    by (simp add: list_text_def list_sample_def)
  have "\<forall>e\<in>set list_sample. entry_ok e" by (simp add: list_sample_def host_side_ok_def parts_ok_def)
  from parse_disk_files_correct [OF this, of list_host] obtain root errs where
    r: "parse_disk_files list_host (list_text list_sample) [] = Some (Some root, errs, [])" "tree_ok root"
       "(errs, tree_map root) = map_insert_entries list_host list_sample [[] \<mapsto> FS_DIR]" by blast
  have nf: "no_file_on [''a''] [[] \<mapsto> FS_DIR]" by (auto simp: no_file_on_def)
  let ?m = "(add_dirs [''a''] [[] \<mapsto> FS_DIR])([''a'', ''b''] \<mapsto> FS_FILE ''k'' 3)"
  have 1: "map_insert_file list_host [''a'', ''b''] ''k'' [[] \<mapsto> FS_DIR] = (True, ?m)"
    using nf by (simp add: map_insert_file_def list_host_def file_entry_def FS_PATH_MAX_def)
  have "\<not> no_file_on [''a'', ''b''] ?m" by (auto simp: no_file_on_def intro!: exI [of _ "[''a'', ''b'']"])
  then have 2: "map_insert_file list_host [''a'', ''b'', ''c''] ''k'' ?m = (False, ?m)" by (simp add: map_insert_file_def)
  have "no_file_on [''d''] ?m" by (auto simp: no_file_on_def add_dirs_def prefix_Cons)
  then have 3: "map_insert_dir [''d''] ?m = (True, add_dirs [''d''] ?m)" by (simp add: map_insert_dir_def)
  have "errs = [''a/b/c'']" "tree_map root = add_dirs [''d''] ?m"
    using r(3) by (simp_all add: list_sample_def 1 2 3)
  then show ?thesis using r unfolding t by (auto simp: add_dirs_def)
qed

end
