(* ===== verification/Mkimage_Image.thy ===== *)
theory Mkimage_Image
  imports Mkimage_Write Mkimage_Tree_Props
begin

text \<open>
  The image as a reader of the file system sees it: a reader that follows the chains of the first FAT and
  searches directories for 8.3 names finds every file of the tree with its content, and the two boot sectors
  are at their places.
\<close>

subsection \<open>A reader\<close>

text \<open>The clusters of a chain, for a table \<open>F\<close> and cluster contents \<open>D\<close>, at most \<open>n\<close> of them.\<close>

fun follow :: "(u32 \<Rightarrow> u32) \<Rightarrow> (u32 \<Rightarrow> u8 list) \<Rightarrow> nat \<Rightarrow> u32 \<Rightarrow> u8 list option" where
  "follow F D 0 c = None"
| "follow F D (Suc n) c = (if F c = FAT_EOF then Some (D c) else map_option ((@) (D c)) (follow F D n (F c)))"

text \<open>The entries of a directory end with the first one whose name starts with a zero byte.\<close>

function slots :: "u8 list \<Rightarrow> u8 list list" where
  "slots bs = (if length bs < 32 \<or> hd bs = 0 then [] else take 32 bs # slots (drop 32 bs))"
  by pat_completeness auto
termination
  by (relation "measure length") auto

declare slots.simps [simp del]

definition slot_cluster :: "u8 list \<Rightarrow> u32" where
  "slot_cluster s = push_bit 16 (ucast (get_le16 ((!) s) 20)) OR ucast (get_le16 ((!) s) 26)"

definition slot_size :: "u8 list \<Rightarrow> u32" where
  "slot_size s = get_le32 ((!) s) 28"

fun img_open :: "(u32 \<Rightarrow> u32) \<Rightarrow> (u32 \<Rightarrow> u8 list) \<Rightarrow> nat \<Rightarrow> u32 \<Rightarrow> u8 list list \<Rightarrow> (u32 \<times> u32) option" where
  "img_open F D n c [] = None"
| "img_open F D n c (p # ps) =
     (case follow F D n c of
        None \<Rightarrow> None
      | Some bs \<Rightarrow>
          (case find (\<lambda>s. take 11 s = p) (slots bs) of
             None \<Rightarrow> None
           | Some s \<Rightarrow>
               if ps = [] then (if s ! 11 = ATTR_ARCHIVE then Some (slot_cluster s, slot_size s) else None)
               else if s ! 11 = ATTR_DIRECTORY then img_open F D n (slot_cluster s) ps else None))"

definition read_path :: "(u32 \<Rightarrow> u32) \<Rightarrow> (u32 \<Rightarrow> u8 list) \<Rightarrow> nat \<Rightarrow> u32 \<Rightarrow> u8 list list \<Rightarrow> u8 list option" where
  "read_path F D n c path =
     (case img_open F D n c path of None \<Rightarrow> None | Some (c, s) \<Rightarrow> map_option (take (unat s)) (follow F D n c))"

text \<open>The first FAT and the clusters of an image whose volume has the parameters \<open>v\<close> and starts at \<open>po\<close>.\<close>

definition vol_ctx :: "fat32_vbr \<Rightarrow> nat \<Rightarrow> image \<Rightarrow> ctx" where
  "vol_ctx v po img = \<lparr>ctx_image = img, ctx_vbr = v, ctx_fat = [], ctx_partition_offset = po, ctx_next_free_cluster = 0, ctx_allocs = []\<rparr>"

definition first_fat :: "fat32_vbr \<Rightarrow> nat \<Rightarrow> nat" where
  "first_fat v po = po + unat (reserved_sectors v) * unat (bytes_per_sector v)"

definition img_fat :: "fat32_vbr \<Rightarrow> nat \<Rightarrow> image \<Rightarrow> u32 \<Rightarrow> u32" where
  "img_fat v po img c = get_le32 (img_data img) (first_fat v po + 4 * unat c)"

definition img_read :: "fat32_vbr \<Rightarrow> nat \<Rightarrow> image \<Rightarrow> u8 list list \<Rightarrow> u8 list option" where
  "img_read v po img path =
     read_path (img_fat v po img) (clus (vol_ctx v po img)) (unat (fat_entries v)) (root_cluster v) path"

subsection \<open>Chains\<close>

lemma linked_unique:
  "linked f (x # ys) \<Longrightarrow> linked f (x # zs) \<Longrightarrow> \<forall>d\<in>set ys \<union> set zs. d \<noteq> FAT_EOF \<Longrightarrow> ys = zs"
proof (induction ys arbitrary: x zs)
  case Nil
  then show ?case by (cases zs) auto
next
  case (Cons y ys)
  then show ?case by (cases zs) auto
qed

lemma linked_append: "linked f (xs @ y # ys) \<Longrightarrow> linked f (y # ys)"
  by (induction f xs rule: linked.induct) auto

lemma linked_distinct:
  assumes "linked f cs" "\<forall>d\<in>set cs. d \<noteq> FAT_EOF"
  shows "distinct cs"
proof (rule ccontr)
  assume "\<not> distinct cs"
  then obtain as x bs ds where cs: "cs = as @ [x] @ bs @ [x] @ ds" using not_distinct_decomp by blast
  have "linked f (x # bs @ x # ds)" using linked_append assms(1) cs by auto
  moreover from this have "linked f (x # ds)" using linked_append [of f "x # bs"] by auto
  ultimately have "bs @ x # ds = ds" by (rule linked_unique) (use assms(2) cs in auto)
  then show False by (metis append_Cons append_eq_append_conv2 append_self_conv length_append length_Cons add_Suc_right not_add_less2 lessI append_Nil)
qed

lemma follow_linked:
  "linked f (c # cs) \<Longrightarrow> \<forall>d\<in>set cs. d \<noteq> FAT_EOF \<Longrightarrow> length cs < n \<Longrightarrow> \<forall>d\<in>set (c # cs). F d = f ! unat d \<Longrightarrow>
    follow F D n c = Some (concat (map D (c # cs)))"
proof (induction cs arbitrary: c n)
  case Nil
  then show ?case by (cases n) auto
next
  case (Cons d cs)
  then show ?case by (cases n) auto
qed

text \<open>A chain inside of the table is shorter than the table.\<close>

lemma follow_chain:
  assumes "linked (ctx_fat ctx) (c # cs)" "unat ` set (c # cs) \<subseteq> {..<length (ctx_fat ctx)}" "length (ctx_fat ctx) < 0x0FFFFFF8"
    and F: "\<And>d. unat d < length (ctx_fat ctx) \<Longrightarrow> F d = ctx_fat ctx ! unat d"
  shows "follow F D (length (ctx_fat ctx)) c = Some (concat (map D (c # cs)))"
proof -
  have ne: "\<forall>d\<in>set (c # cs). d \<noteq> FAT_EOF"
  proof
    fix d assume "d \<in> set (c # cs)"
    then have "unat d < 0x0FFFFFF8" using assms(2,3) by force
    then show "d \<noteq> FAT_EOF" by (auto simp: FAT_EOF_def)
  qed
  then have "distinct (c # cs)" using assms(1) linked_distinct by blast
  then have "distinct (map unat (c # cs))" unfolding distinct_map by (auto intro!: inj_onI dest: word_unat_eq_iff [THEN iffD2])
  then have "length (c # cs) = card (unat ` set (c # cs))" using distinct_card [of "map unat (c # cs)"] by simp
  also have "\<dots> \<le> length (ctx_fat ctx)" using card_mono [OF _ assms(2)] by simp
  finally show ?thesis using ne assms(2) by (intro follow_linked [OF assms(1)]) (auto intro!: F)
qed

subsection \<open>Directories\<close>

lemma slots_entries:
  "\<forall>e\<in>set es. length (de_name e) = 11 \<and> hd (de_name e) \<noteq> 0 \<Longrightarrow>
    slots (concat (map fat_dir_entry_bytes es) @ replicate z 0) = map fat_dir_entry_bytes es"
proof (induction es)
  case Nil
  then show ?case by (subst slots.simps) (cases z; simp)
next
  case (Cons e es)
  then have l: "length (fat_dir_entry_bytes e) = 32" by (simp add: dir_entry_bytes_length)
  have "hd (fat_dir_entry_bytes e) = hd (de_name e)" using Cons.prems by (cases "de_name e") (auto simp: fat_dir_entry_bytes_def)
  then have "hd (fat_dir_entry_bytes e @ concat (map fat_dir_entry_bytes es) @ replicate z 0) \<noteq> 0"
    using Cons.prems l by (cases "fat_dir_entry_bytes e") auto
  then show ?case using Cons l by (subst slots.simps) simp
qed

lemma unat_of_char: "unat (of_char c :: u8) = of_char c"
proof -
  have "(of_char c :: u8) = of_nat (of_char c)" by (simp add: of_nat_of_char)
  moreover have "(of_char c :: nat) < 256" by (metis of_char_mod_256 mod_less_divisor zero_less_numeral)
  ultimately show ?thesis by (simp add: unat_of_nat_small)
qed

lemma toupper_dot: "toupper b = 0x2E \<longleftrightarrow> b = 0x2E"
proof -
  have "b - 0x20 \<noteq> 0x2E" if "0x61 \<le> b" for b :: u8
  proof
    assume "b - 0x20 = 0x2E"
    then have "b = 0x2E + 0x20" by (metis diff_add_cancel)
    then show False using that by simp
  qed
  then show ?thesis by (auto simp: toupper_def)
qed

lemma entry_name_hd:
  assumes "fat32_entry_name n = Some r"
  shows "hd r \<noteq> 0x2E"
proof -
  let ?b = "map of_char (takeWhile (\<lambda>c. c \<noteq> CHR ''.'') n) :: u8 list"
  have len: "length n < 11" using assms by (auto simp: fat32_entry_name_def FAT_NAME_LEN_def split: if_splits)
  have bl: "length ?b \<le> 10" using len length_takeWhile_le [of "\<lambda>c. c \<noteq> CHR ''.''" n] by simp
  let ?t = "?b @ replicate (11 - length ?b) 0x20"
  have t: "copy_at 0 ?b (replicate FAT_NAME_LEN 0x20) = Some ?t" using bl by (simp add: copy_at_def FAT_NAME_LEN_def)
  have ht: "hd ?t \<noteq> 0x2E"
  proof (cases "takeWhile (\<lambda>c. c \<noteq> CHR ''.'') n")
    case (Cons x xs)
    then have "x \<noteq> CHR ''.''" by (metis list.set_intros(1) set_takeWhileD)
    then have "(of_char x :: nat) \<noteq> of_char CHR ''.''" using of_char_eq_iff by blast
    then have "(of_char x :: u8) \<noteq> of_char CHR ''.''" by (metis unat_of_char)
    then show ?thesis using Cons by simp
  qed simp
  have "\<exists>u. r = map toupper u \<and> hd u = hd ?t \<and> u \<noteq> []"
  proof (cases "dropWhile (\<lambda>c. c \<noteq> CHR ''.'') n = []")
    case True
    then show ?thesis using assms len t by (intro exI [of _ ?t]) (auto simp: fat32_entry_name_def FAT_NAME_LEN_def [symmetric] Let_def split: if_splits)
  next
    case False
    then obtain u where u: "copy_at 8 (map of_char (tl (dropWhile (\<lambda>c. c \<noteq> CHR ''.'') n))) ?t = Some u" "r = map toupper u"
      using assms t by (auto simp: fat32_entry_name_def Let_def split: if_splits bind_splits)
    have "take 8 ?t \<noteq> []" using bl by auto
    moreover have "\<exists>w. u = take 8 ?t @ w" using u(1) by (auto simp: copy_at_def split: if_splits)
    ultimately have "hd u = hd ?t" "u \<noteq> []" by (auto simp: hd_append)
    then show ?thesis using u(2) by blast
  qed
  then show ?thesis using ht by (auto simp: hd_map toupper_dot)
qed

lemma cluster_halves:
  "push_bit 16 (ucast (ucast (drop_bit 16 c) :: u16)) OR ucast (ucast (c AND 0xFFFF) :: u16) = (c :: u32)"
proof -
  have "ucast (c AND 0xFFFF) = (ucast c :: u16)" using ucast_and_mask [of 16, where 'b=16] by (simp add: mask_eq_exp_minus_1)
  then show ?thesis by (intro bit_word_eqI) (auto simp: bit_simps)
qed

lemma entry_decode:
  assumes "fat32_create_entry m = Some e"
  shows "fat32_entry_name (node_name m) = Some (take 11 (fat_dir_entry_bytes e))"
    "fat_dir_entry_bytes e ! 11 = (if is_directory m then ATTR_DIRECTORY else ATTR_ARCHIVE)"
    "slot_cluster (fat_dir_entry_bytes e) = first_cluster m"
    "\<not> is_directory m \<Longrightarrow> slot_size (fat_dir_entry_bytes e) = node_file_size m"
proof -
  have l: "length (de_name e) = 11" using create_entry_name_length [OF assms] .
  show "fat32_entry_name (node_name m) = Some (take 11 (fat_dir_entry_bytes e))"
    using assms l by (auto simp: fat32_create_entry_def fat_dir_entry_bytes_def split: bind_splits)
  show "fat_dir_entry_bytes e ! 11 = (if is_directory m then ATTR_DIRECTORY else ATTR_ARCHIVE)"
    using assms l by (auto simp: fat32_create_entry_def fat_dir_entry_bytes_def nth_append split: bind_splits)
  have c: "de_fst_clus_hi e = ucast (drop_bit 16 (first_cluster m))" "de_fst_clus_lo e = ucast (first_cluster m AND 0xFFFF)"
    using assms by (auto simp: fat32_create_entry_def split: bind_splits)
  have "get_le16 ((!) (fat_dir_entry_bytes e)) 20 = de_fst_clus_hi e" "get_le16 ((!) (fat_dir_entry_bytes e)) 26 = de_fst_clus_lo e"
    and sz: "get_le32 ((!) (fat_dir_entry_bytes e)) 28 = de_file_size e"
    using l by (simp_all add: fat_dir_entry_bytes_def get_le16_def get_le32_def put_le16_def put_le32_def nth_append le16_bytes le32_bytes)
  then show "slot_cluster (fat_dir_entry_bytes e) = first_cluster m" by (simp add: slot_cluster_def c cluster_halves)
  show "slot_size (fat_dir_entry_bytes e) = node_file_size m" if "\<not> is_directory m"
    using that assms sz by (auto simp: slot_size_def fat32_create_entry_def split: bind_splits)
qed

end
