(* ===== verification/Mkimage_Props.thy ===== *)
theory Mkimage_Props
  imports Mkimage_Image
begin

text \<open>
  The theorem on \<^verbatim>\<open>mkimage\<close> as a whole, \<open>mkimage_main_correct\<close>, and what it needs besides the previous
  theories: paths through the directories of the image, the flush of the table, and the bytes before the
  data area.
\<close>

subsection \<open>Paths\<close>

abbreviation name83 :: "string \<Rightarrow> u8 list" where
  "name83 n \<equiv> the (fat32_entry_name n)"

lemma create_entries_nth:
  "fat32_create_entries ns = Some es \<Longrightarrow> i < length ns \<Longrightarrow> i < length es \<and> fat32_create_entry (ns ! i) = Some (es ! i)"
proof (induction ns arbitrary: es i)
  case (Cons n ns)
  then show ?case by (cases i) (auto split: bind_splits)
qed simp

lemma create_entries_set:
  "fat32_create_entries ns = Some es \<Longrightarrow> e \<in> set es \<Longrightarrow> \<exists>m\<in>set ns. fat32_create_entry m = Some e"
  by (induction ns arbitrary: es) (auto split: bind_splits)

lemma create_entries_length: "fat32_create_entries ns = Some es \<Longrightarrow> length es = length ns"
  by (induction ns arbitrary: es) (auto split: bind_splits)

lemma create_entry_name: "fat32_create_entry m = Some e \<Longrightarrow> fat32_entry_name (node_name m) = Some (de_name e)"
  by (auto simp: fat32_create_entry_def split: bind_splits)

lemma dot_entry_name:
  "e \<in> set (dot_entries r c parent) \<Longrightarrow> hd (de_name e) = 0x2E"
  by (auto simp: dot_entries_def fat32_dot_entry_def split: if_splits)

lemma dir_slots:
  assumes d: "dir_stored ctx R r parent c ns" and n: "entry_names_ok ns" "32 * (length ns + (if r then 0 else 2)) \<le> clus_size ctx"
    and es: "fat32_create_entries ns = Some es"
  shows "slots (clus ctx c) = map fat_dir_entry_bytes (dot_entries r c parent @ es)"
proof -
  let ?es = "dot_entries r c parent @ es"
  have nl: "length (de_name e) = 11" if "e \<in> set ?es" for e
    using that create_entries_name_length [OF es] dot_entries_name_length by auto
  have hd0: "hd (de_name e) \<noteq> 0" if e: "e \<in> set ?es" for e
  proof (cases "e \<in> set es")
    case True
    then obtain m where "m \<in> set ns" "fat32_create_entry m = Some e" using create_entries_set [OF es] by blast
    then show ?thesis using n(1) create_entry_name [of m e] by (force simp: entry_names_ok_def)
  next
    case False
    then show ?thesis using e dot_entry_name [of e r c parent] by simp
  qed
  have "length (concat (map fat_dir_entry_bytes ?es)) = 32 * length ?es" using nl by (intro concat_entries_length) blast
  also have "\<dots> \<le> clus_size ctx" using n(2) create_entries_length [OF es] by (auto simp: dot_entries_def)
  finally have "clus ctx c = concat (map fat_dir_entry_bytes ?es) @ replicate (clus_size ctx - length (concat (map fat_dir_entry_bytes ?es))) 0"
    using d es by (simp add: dir_stored_def zero_padded_def)
  then show ?thesis using slots_entries [of ?es] nl hd0 by metis
qed

lemma find_map_nth:
  assumes "i < length xs" "P (xs ! i)" "\<And>j. j < i \<Longrightarrow> \<not> P (xs ! j)"
  shows "find P xs = Some (xs ! i)"
  using assms by (auto simp: find_Some_iff)

lemma dir_find:
  assumes n: "entry_names_ok ns" and es: "fat32_create_entries ns = Some es" and i: "i < length ns"
  shows "find (\<lambda>s. take 11 s = name83 (node_name (ns ! i))) (map fat_dir_entry_bytes (dot_entries r c parent @ es)) =
    Some (fat_dir_entry_bytes (es ! i))"
proof -
  let ?k = "length (dot_entries r c parent)" and ?l = "map fat_dir_entry_bytes (dot_entries r c parent @ es)"
  let ?P = "\<lambda>s. take 11 s = name83 (node_name (ns ! i))"
  have nth: "?l ! (?k + j) = fat_dir_entry_bytes (es ! j)" "fat32_entry_name (node_name (ns ! j)) = Some (take 11 (fat_dir_entry_bytes (es ! j)))"
    if "j < length ns" for j
    using create_entries_nth [OF es that] entry_decode(1) [of "ns ! j" "es ! j"] by (auto simp: nth_append)
  have "\<not> ?P (?l ! j)" if j: "j < ?k + i" for j
  proof (cases "j < ?k")
    case True
    then have e: "dot_entries r c parent ! j \<in> set (dot_entries r c parent)" by simp
    have "take 11 (?l ! j) = de_name (dot_entries r c parent ! j)"
      using True dot_entries_name_length [OF e] by (simp add: nth_append fat_dir_entry_bytes_def)
    then show ?thesis using dot_entry_name [OF e] nth(2) [OF i] entry_name_hd [OF nth(2) [OF i]] by auto
  next
    case False
    then obtain l where l: "j = ?k + l" "l < i" using j by (metis add_diff_inverse_nat nat_add_left_cancel_less)
    then have "fat32_entry_name (node_name (ns ! l)) \<noteq> fat32_entry_name (node_name (ns ! i))"
      using n i unfolding entry_names_ok_def by (auto simp: distinct_conv_nth)
    then show ?thesis using nth [of l] nth(2) [OF i] l i by auto
  qed
  moreover have "?k + i < length ?l" "?P (?l ! (?k + i))" using nth [OF i] i create_entries_length [OF es] by auto
  ultimately show ?thesis using find_map_nth [of "?k + i" ?l ?P] nth(1) [OF i] by simp
qed

lemma open_stored:
  assumes R: "R \<subseteq> {..<length (ctx_fat ctx)}" "length (ctx_fat ctx) < 0x0FFFFFF8"
    and F: "\<And>d. unat d < length (ctx_fat ctx) \<Longrightarrow> F d = ctx_fat ctx ! unat d"
  shows "stored host ctx R r parent t \<Longrightarrow> fits host (clus_size ctx) r t \<Longrightarrow> is_directory t \<Longrightarrow> tree_lookup t path = Some (NODE_FILE n c p s) \<Longrightarrow>
    (\<exists>bytes. host p = Some bytes \<and> length bytes = unat s \<and> file_stored ctx R c bytes) \<and>
    img_open F (clus ctx) (length (ctx_fat ctx)) (first_cluster t) (map name83 path) = Some (c, s)"
proof (induction path arbitrary: r parent t)
  case Nil
  then show ?case by simp
next
  case (Cons q qs)
  obtain tn tc ns where t: "t = NODE_DIRECTORY tn tc ns" using Cons.prems(3) by (cases t) auto
  obtain i where i: "fs_node_find_child t q = Some i" "tree_lookup (ns ! i) qs = Some (NODE_FILE n c p s)"
    using Cons.prems(4) by (auto simp: t split: option.splits)
  have il: "i < length ns" "node_name (ns ! i) = q" using find_child_Some [OF i(1)] by (auto simp: t)
  have ds: "dir_stored ctx R r parent tc ns" and f: "entry_names_ok ns" "32 * (length ns + (if r then 0 else 2)) \<le> clus_size ctx"
    and sub: "stored host ctx R False (Some tc) (ns ! i)" "fits host (clus_size ctx) False (ns ! i)"
    using Cons.prems(1,2) il by (auto simp: t)
  obtain es where es: "fat32_create_entries ns = Some es" using ds by (auto simp: dir_stored_def)
  have ei: "fat32_create_entry (ns ! i) = Some (es ! i)" using create_entries_nth [OF es il(1)] by blast
  have link: "linked (ctx_fat ctx) [tc]" "unat ` set [tc] \<subseteq> {..<length (ctx_fat ctx)}" using ds R(1) by (auto simp: dir_stored_def)
  have fl: "follow F (clus ctx) (length (ctx_fat ctx)) tc = Some (clus ctx tc)"
    using follow_chain [OF link R(2) F, of "clus ctx"] by simp
  have found: "find (\<lambda>s. take 11 s = name83 q) (slots (clus ctx tc)) = Some (fat_dir_entry_bytes (es ! i))"
    unfolding dir_slots [OF ds f es] using dir_find [OF f(1) es il(1)] il(2) by simp
  show ?case
  proof (cases qs)
    case Nil
    then have "ns ! i = NODE_FILE n c p s" using i(2) by simp
    then show ?thesis using sub(1) entry_decode [OF ei] Nil by (simp add: t fl found)
  next
    case (Cons q' qs')
    have dir: "is_directory (ns ! i)" using i(2) Cons by (cases "ns ! i") (auto simp: fs_node_find_child_def)
    have fc: "first_cluster (ns ! i) = slot_cluster (fat_dir_entry_bytes (es ! i))" using entry_decode(3) [OF ei] by simp
    show ?thesis using Cons.IH [OF sub dir i(2)] Cons entry_decode(2) [OF ei] dir by (simp add: t fl found fc)
  qed
qed

lemma read_stored:
  assumes R: "R \<subseteq> {..<length (ctx_fat ctx)}" "length (ctx_fat ctx) < 0x0FFFFFF8"
    and F: "\<And>d. unat d < length (ctx_fat ctx) \<Longrightarrow> F d = ctx_fat ctx ! unat d"
    and t: "stored host ctx R r parent t" "fits host (clus_size ctx) r t" "is_directory t" "tree_map t path = Some (FS_FILE p s)"
  shows "read_path F (clus ctx) (length (ctx_fat ctx)) (first_cluster t) (map name83 path) = host p"
proof -
  obtain n c where l: "tree_lookup t path = Some (NODE_FILE n c p s)"
    using t(4) by (auto simp: tree_map_def elim!: entry_of.elims)
  from open_stored [OF R F t(1-3) l] obtain bytes where b: "host p = Some bytes" "length bytes = unat s" "file_stored ctx R c bytes"
    and o: "img_open F (clus ctx) (length (ctx_fat ctx)) (first_cluster t) (map name83 path) = Some (c, s)" by blast
  then obtain cs where cs: "linked (ctx_fat ctx) (c # cs)" "unat ` set (c # cs) \<subseteq> R"
      "take (unat s) (concat (map (clus ctx) (c # cs))) = bytes" by (auto simp: file_stored_def)
  then have "follow F (clus ctx) (length (ctx_fat ctx)) c = Some (concat (map (clus ctx) (c # cs)))"
    using R by (intro follow_chain F) auto
  then show ?thesis using cs(3) b(1) o by (simp add: read_path_def)
qed

subsection \<open>The bytes before the data area\<close>

definition low_same :: "ctx \<Rightarrow> ctx \<Rightarrow> bool" where
  "low_same ctx ctx' \<longleftrightarrow> same_vol ctx ctx' \<and>
     (\<forall>i < fat32_data_offset ctx. img_data (ctx_image ctx') i = img_data (ctx_image ctx) i)"

lemma low_same_refl: "same_vol ctx ctx' \<Longrightarrow> ctx_image ctx' = ctx_image ctx \<Longrightarrow> low_same ctx ctx'"
  by (simp add: low_same_def)

lemma low_same_trans: "low_same a b \<Longrightarrow> low_same b c \<Longrightarrow> low_same a c"
  using same_vol_trans by (auto simp: low_same_def vol_data_offset)

lemma write_cluster_low: "low_same ctx (fat32_write_cluster c b ctx)"
  by (auto simp: low_same_def) (simp add: fat32_write_cluster_def img_write_def)

lemma fat_store_low: "fat_store i v ctx = Some ctx' \<Longrightarrow> low_same ctx ctx'"
  by (auto simp: fat_store_def same_vol_def low_same_def split: if_splits)

lemma cluster_alloc_low: "fat32_cluster_alloc ctx = (c, ctx') \<Longrightarrow> low_same ctx ctx'"
  by (auto simp: fat32_cluster_alloc_def same_vol_def low_same_def split: option.splits)

lemma write_loop_low:
  assumes "fat32_write_loop r c p fp ctx = Some y"
  shows "low_same ctx (snd y)"
proof (rule fat32_write_loop.raw_induct [of "\<lambda>r c p fp ctx y. low_same ctx (snd y)", OF _ assms])
  fix loop r c p fp ctx y
  assume IH: "\<And>r c p fp ctx y. loop r c p fp ctx = Some y \<Longrightarrow> low_same ctx (snd y)"
    and body: "(if 0 < r then do {
        ctx \<leftarrow> (if p \<noteq> 0 then fat_store p c ctx else Some ctx);
        let cluster_size = fat32_cluster_size ctx;
        let ctx = fat32_write_cluster c (zero_padded (unat cluster_size) (take (unat cluster_size) fp)) ctx;
        let r = r - (if r > cluster_size then cluster_size else r);
        let (next, ctx) = (if 0 < r then fat32_cluster_alloc ctx else (c, ctx));
        loop r next c (drop (unat cluster_size) fp) ctx
      } else Some (p, ctx)) = Some y"
  show "low_same ctx (snd y)"
  proof (cases "0 < r")
    case True
    let ?s = "if p \<noteq> 0 then fat_store p c ctx else Some ctx"
    obtain a where a: "?s = Some a" using body True by (cases ?s) auto
    let ?w = "fat32_write_cluster c (zero_padded (clus_size a) (take (clus_size a) fp)) a"
    let ?r = "r - (if fat32_cluster_size a < r then fat32_cluster_size a else r)"
    obtain n b where b: "(if 0 < ?r then fat32_cluster_alloc ?w else (c, ?w)) = (n, b)" by (meson surj_pair)
    have "loop ?r n c (drop (clus_size a) fp) b = Some y" using body True a b
      unfolding clus_size_def by (simp add: Let_def split del: if_split)
    then have "low_same b (snd y)" by (rule IH)
    moreover have "low_same ctx a" using a fat_store_low by (auto simp: low_same_refl split: if_splits)
    moreover have "low_same ?w b" using b cluster_alloc_low by (auto simp: low_same_refl split: if_splits)
    ultimately show ?thesis using write_cluster_low low_same_trans by blast
  qed (use body in \<open>auto simp: low_same_refl\<close>)
qed

lemma alloc_step_low: "low_same (ctx\<lparr>ctx_allocs := h\<rparr>) ctx' \<longleftrightarrow> low_same ctx ctx'"
  by (simp add: low_same_def same_vol_def fat32_data_offset_def)

lemma write_file_low: "fat32_write_file host t ctx = Some ctx' \<Longrightarrow> low_same ctx ctx'"
  by (auto simp: fat32_write_file_def low_same_refl alloc_step_low split: option.splits prod.splits if_splits bind_splits
      dest!: write_loop_low fat_store_low intro: low_same_trans)

lemma write_directory_low: "fat32_write_directory r parent t ctx = Some ctx' \<Longrightarrow> low_same ctx ctx'"
  using write_cluster_low [of "ctx\<lparr>ctx_allocs := h\<rparr>" for h]
  by (auto simp: fat32_write_directory_def same_vol_def low_same_refl Let_def alloc_step_low
      split: prod.splits bool.splits if_splits bind_splits)

lemma write_tree_low:
  "fat32_write_tree host r parent t ctx = Some ctx' \<Longrightarrow> low_same ctx ctx'"
  "fat32_write_children host parent ns ctx = Some ctx' \<Longrightarrow> low_same ctx ctx'"
proof (induction host r parent t ctx and host parent ns ctx arbitrary: ctx' and ctx' rule: fat32_write_tree_fat32_write_children.induct)
  case (2 host r parent n c ns ctx)
  then show ?case by (auto split: bind_splits dest!: write_directory_low intro: low_same_trans)
next
  case (4 host parent n ns ctx)
  then show ?case by (auto split: bind_splits intro: low_same_trans)
qed (auto dest: write_file_low simp: low_same_refl)

subsection \<open>The flush of the table\<close>

lemma put_le32_nth: "j < 4 \<Longrightarrow> i < length fat \<Longrightarrow> concat (map put_le32 fat) ! (4 * i + j) = put_le32 (fat ! i) ! j"
proof (induction fat arbitrary: i)
  case (Cons f fat)
  have l: "length (put_le32 f) = 4" by (simp add: put_le32_def)
  show ?case using Cons by (cases i) (auto simp: nth_append l)
qed simp

lemma put_le32_length: "length (concat (map put_le32 fat)) = 4 * length fat"
  by (induction fat) (auto simp: put_le32_def)

lemma flush_fold:
  assumes "length bs = fs"
  shows "0 < k \<Longrightarrow> j < fs \<Longrightarrow> img_data (fold (\<lambda>i. img_write (ff + i * fs) bs) [0..<k] img) (ff + j) = bs ! j"
    "i < ff \<or> ff + k * fs \<le> i \<Longrightarrow> img_data (fold (\<lambda>i. img_write (ff + i * fs) bs) [0..<k] img) i = img_data img i"
proof (induction k)
  case (Suc k)
  { case 1
    then show ?case
    proof (cases "k = 0")
      case True then show ?thesis using 1 assms by (simp add: img_write_def)
    next
      case False
      then have "fs \<le> k * fs" by simp
      then have "ff + j < ff + k * fs" using 1 by linarith
      then show ?thesis using Suc.IH(1) False 1 by (simp add: img_write_def)
    qed
  next
    case 2
    then show ?case using Suc.IH(2) assms by (auto simp: img_write_def) }
qed simp_all

text \<open>The parameters of a volume that the program can format.\<close>

definition volume_ok :: "fat32_vbr \<Rightarrow> nat \<Rightarrow> bool" where
  "volume_ok v po \<longleftrightarrow>
     (let fs = unat (fat_size_32 v) * unat (bytes_per_sector v)
      in 4 dvd fs \<and> fs < 2 ^ 32 \<and> fs div 4 < 0x0FFFFFF8 \<and> 0 < fat_count v \<and> 2 \<le> unat (root_cluster v) \<and>
         0 < unat (bytes_per_sector v) * unat (sectors_per_cluster v) \<and>
         BOOT_SECTOR_SIZE \<le> unat (reserved_sectors v) * unat (bytes_per_sector v) \<and> BOOT_SECTOR_SIZE \<le> po)"

lemma unat_ucast_wider:
  fixes x :: "'a::len word"
  assumes "LENGTH('a) \<le> LENGTH('b)"
  shows "unat (ucast x :: 'b::len word) = unat x"
proof -
  have "unat x < 2 ^ LENGTH('a)" by (rule unsigned_less)
  also have "\<dots> \<le> 2 ^ LENGTH('b)" using assms by (simp add: power_increasing)
  finally show ?thesis by (simp add: unsigned_ucast_eq take_bit_nat_eq_self_iff)
qed

lemma unat_fat_entries:
  assumes "unat (fat_size_32 v) * unat (bytes_per_sector v) < 2 ^ 32"
  shows "unat (fat_entries v) = unat (fat_size_32 v) * unat (bytes_per_sector v) div 4"
proof -
  have u: "unat (ucast (bytes_per_sector v) :: u32) = unat (bytes_per_sector v)" by (simp add: unat_ucast_wider)
  have "unat (fat_size_32 v * ucast (bytes_per_sector v)) = unat (fat_size_32 v) * unat (bytes_per_sector v)"
    using assms u by (simp add: unat_mult_nowrap)
  then show ?thesis unfolding fat_entries_def unat_div_word by simp
qed

lemma clus_size_eq: "clus_size ctx = unat (bytes_per_sector (ctx_vbr ctx)) * unat (sectors_per_cluster (ctx_vbr ctx))"
proof -
  let ?b = "bytes_per_sector (ctx_vbr ctx)" and ?s = "sectors_per_cluster (ctx_vbr ctx)"
  have "unat ?b * unat ?s \<le> (2 ^ 16 - 1) * (2 ^ 8 - 1)" using unat_le_max [of ?b] unat_le_max [of ?s] by (intro mult_le_mono) simp_all
  moreover have "unat (ucast ?b :: u32) = unat ?b" "unat (ucast ?s :: u32) = unat ?s" by (simp_all add: unat_ucast_wider)
  ultimately show ?thesis by (simp add: clus_size_def fat32_cluster_size_def unat_mult_nowrap)
qed

lemma flush_spec:
  assumes v: "volume_ok (ctx_vbr ctx) po" "po = ctx_partition_offset ctx" and fat: "length (ctx_fat ctx) = unat (fat_entries (ctx_vbr ctx))"
  shows "\<exists>ctx'. fat32_table_flush ctx = Some ctx' \<and> same_vol ctx ctx' \<and> (\<forall>c. clus ctx' c = clus ctx c) \<and>
    (\<forall>c. unat c < length (ctx_fat ctx) \<longrightarrow> img_fat (ctx_vbr ctx) po (ctx_image ctx') c = ctx_fat ctx ! unat c) \<and>
    (\<forall>i < first_fat (ctx_vbr ctx) po. img_data (ctx_image ctx') i = img_data (ctx_image ctx) i)"
proof -
  let ?v = "ctx_vbr ctx" let ?fs = "unat (fat_size_32 ?v) * unat (bytes_per_sector ?v)" let ?ff = "first_fat ?v po"
  let ?bs = "concat (map put_le32 (ctx_fat ctx))" let ?k = "unat (fat_count ?v)"
  let ?img = "fold (\<lambda>i. img_write (?ff + i * ?fs) ?bs) [0..<?k] (ctx_image ctx)"
  have fs: "4 dvd ?fs" "?fs < 2 ^ 32" "0 < ?k" using v(1) by (auto simp: volume_ok_def Let_def word_less_nat_alt)
  have len: "length ?bs = ?fs" using fs(1) fat unat_fat_entries [OF fs(2)] by (simp add: put_le32_length)
  let ?u = "ctx\<lparr>ctx_image := ?img\<rparr>"
  have "fat32_table_flush ctx = Some ?u" using len v(2) by (simp add: fat32_table_flush_def first_fat_def Let_def)
  moreover have vol: "same_vol ctx ?u" by (simp add: same_vol_def)
  moreover have "clus ?u c = clus ctx c" for c
  proof -
    have "?ff + ?k * ?fs \<le> clus_off ctx c" using v(2) by (simp add: clus_off_def fat32_data_offset_def first_fat_def algebra_simps)
    then show ?thesis using flush_fold(2) [OF len, where k = ?k and ff = ?ff and img = "ctx_image ctx"]
      by (auto simp: clus_def vol_clus_off [OF vol] vol_clus_size [OF vol])
  qed
  moreover have "img_fat ?v po ?img c = ctx_fat ctx ! unat c" if c: "unat c < length (ctx_fat ctx)" for c
  proof -
    have b: "img_data ?img (?ff + (4 * unat c + j)) = put_le32 (ctx_fat ctx ! unat c) ! j" if "j < 4" for j
    proof -
      have "4 * unat c + j < ?fs" using c that len by (simp add: put_le32_length)
      then show ?thesis using flush_fold(1) [OF len fs(3)] put_le32_nth [OF that c] by simp
    qed
    then show ?thesis using b [of 0] b [of 1] b [of 2] b [of 3]
      by (simp add: img_fat_def get_le32_def put_le32_def add.assoc le32_bytes)
  qed
  moreover have "img_data ?img i = img_data (ctx_image ctx) i" if "i < ?ff" for i using flush_fold(2) [OF len] that by blast
  ultimately show ?thesis by (intro exI [of _ ?u]) auto
qed

lemma table_init_spec:
  assumes v: "volume_ok (ctx_vbr ctx) po" and al: "ctx_allocs ctx = []"
    and room: "unat (root_cluster (ctx_vbr ctx)) < unat (fat_entries (ctx_vbr ctx))"
  shows "\<exists>ctx'. fat32_table_init True ctx = Some (True, ctx') \<and> alloc_inv ctx' \<and> same_vol ctx ctx' \<and> ctx_image ctx' = ctx_image ctx \<and>
    next_free ctx' = unat (root_cluster (ctx_vbr ctx)) + 1 \<and> ctx_fat ctx' ! unat (root_cluster (ctx_vbr ctx)) = FAT_EOF"
proof -
  let ?v = "ctx_vbr ctx" let ?e = "unat (fat_entries ?v)" let ?r = "root_cluster ?v"
  let ?fat = "((replicate ?e 0)[0 := 0xFFFFFF00 OR ucast (media_descriptor ?v), 1 := FAT_EOF])[unat ?r := FAT_EOF]"
  let ?u = "ctx\<lparr>ctx_fat := ?fat, ctx_allocs := [], ctx_next_free_cluster := ?r + 1\<rparr>"
  have e: "?e < 0x0FFFFFF8" and r: "2 \<le> unat ?r"
    using v unat_fat_entries [of ?v] by (auto simp: volume_ok_def Let_def)
  have "fat32_table_init True ctx = Some (True, ?u)"
    using al r room by (simp add: fat32_table_init_def fat_store_def Let_def)
  moreover have n: "unat (?r + 1) = unat ?r + 1" using room e by (simp add: unat_add_nowrap)
  moreover have "?fat ! i = FAT_FREE" if "unat ?r + 1 \<le> i" "i < ?e" for i
    using that r by (simp add: FAT_FREE_def nth_list_update)
  moreover have "0 < clus_size ?u" using v by (simp add: clus_size_eq volume_ok_def Let_def)
  ultimately show ?thesis using e r room by (intro exI [of _ ?u]) (auto simp: alloc_inv_def same_vol_def)
qed

subsection \<open>The trees that the parser makes\<close>

text \<open>No cluster has been assigned in them.\<close>

definition fresh_dir :: "fs_node \<Rightarrow> bool" where
  "fresh_dir t \<longleftrightarrow> is_directory t \<and> erase t = t"

lemma fresh_dir_children: "fresh_dir t \<longleftrightarrow> is_directory t \<and> first_cluster t = 0 \<and> map erase (children t) = children t"
  by (cases t) (auto simp: fresh_dir_def)

lemma fresh_child: "fresh_dir t \<Longrightarrow> i < length (children t) \<Longrightarrow> erase (children t ! i) = children t ! i"
  unfolding fresh_dir_children by (metis nth_map)

lemma fresh_set_children: "fresh_dir t \<Longrightarrow> map erase ns = ns \<Longrightarrow> fresh_dir (set_children ns t)"
  by (cases t) (auto simp: fresh_dir_def)

lemma fresh_replace: "fresh_dir t \<Longrightarrow> erase c = c \<Longrightarrow> fresh_dir (set_children ((children t)[i := c]) t)"
  using fresh_set_children [of t "(children t)[i := c]"] by (simp add: map_update fresh_dir_children)

lemma create_directory_fresh: "fs_node_create_directory p h = (Some c, h') \<Longrightarrow> fresh_dir c"
  by (auto simp: fs_node_create_directory_def fresh_dir_def split: prod.splits bool.splits)

lemma add_child_fresh: "fs_node_add_child t c h = (ok, t', h') \<Longrightarrow> fresh_dir t \<Longrightarrow> erase c = c \<Longrightarrow> fresh_dir t'"
  using fresh_set_children [of t "children t @ [c]"]
  by (auto simp: fs_node_add_child_def fresh_dir_children split: prod.splits bool.splits)

lemma descend_fresh:
  assumes fin: "\<And>s h ok s' h'. fin s h = (ok, s', h') \<Longrightarrow> fresh_dir s \<Longrightarrow> fresh_dir s'"
  shows "tree_descend fin parts t h = (ok, t', h') \<Longrightarrow> fresh_dir t \<Longrightarrow> fresh_dir t'"
proof (induction parts arbitrary: t h ok t' h')
  case Nil
  then show ?case using fin by simp
next
  case (Cons part parts)
  have dirs: "erase s = s" if "fresh_dir s" for s using that by (simp add: fresh_dir_def)
  show ?case
  proof (cases "fs_node_find_child t part")
    case (Some i)
    note i = find_child_Some [OF Some]
    show ?thesis
    proof (cases "is_directory (children t ! i)")
      case True
      obtain ok' c h1 where c: "tree_descend fin parts (children t ! i) h = (ok', c, h1)" using prod_cases3 by blast
      have "fresh_dir (children t ! i)" using True fresh_child [OF Cons.prems(2)] i by (simp add: fresh_dir_def)
      then have "fresh_dir c" using Cons.IH [OF c] by simp
      then show ?thesis using Cons.prems fresh_replace dirs by (auto simp: Some c True)
    qed (use Cons.prems Some in auto)
  next
    case None
    show ?thesis
    proof (cases "fst (fs_node_create_directory part h)")
      case None': None
      then show ?thesis using Cons.prems None by (cases "fs_node_create_directory part h") auto
    next
      case (Some c)
      then obtain h1 where c: "fs_node_create_directory part h = (Some c, h1)" by (metis prod.collapse)
      obtain ok1 t1 h2 where t1: "fs_node_add_child t c h1 = (ok1, t1, h2)" using prod_cases3 by blast
      obtain ok2 c2 h3 where c2: "tree_descend fin parts c h2 = (ok2, c2, h3)" using prod_cases3 by blast
      have "fresh_dir c" using create_directory_fresh [OF c] .
      then have "fresh_dir t1" "fresh_dir c2" using add_child_fresh [OF t1 Cons.prems(2)] Cons.IH [OF c2] dirs by auto
      then show ?thesis using Cons.prems fresh_replace dirs by (cases ok1) (auto simp: None c t1 c2)
    qed
  qed
qed

lemma put_file_fresh: "tree_put_file host n p s h = (ok, s', h') \<Longrightarrow> fresh_dir s \<Longrightarrow> fresh_dir s'"
  by (auto simp: tree_put_file_def fs_node_create_file_def split: if_splits prod.splits option.splits bool.splits dest!: add_child_fresh)

lemma insert_directory_fresh:
  assumes "tree_insert_directory t p h = (ok, t', h')" "fresh_dir t"
  shows "fresh_dir t'"
proof -
  have "tree_descend (\<lambda>c h. (True, c, h)) ps t h = (ok, t', h') \<Longrightarrow> fresh_dir t'" for ps
    by (rule descend_fresh [where fin = "\<lambda>c h. (True, c, h)"]) (use assms(2) in auto)
  then show ?thesis using assms by (auto simp: tree_insert_directory_def Let_def split: if_splits)
qed

lemma insert_node_fresh:
  assumes "tree_insert_node host t p hp h = (ok, t', h')" "fresh_dir t"
  shows "fresh_dir t'"
proof -
  have "tree_descend (tree_put_file host n hp) ps t h = (ok, t', h') \<Longrightarrow> fresh_dir t'" for n ps
    by (rule descend_fresh [OF put_file_fresh]) (use assms(2) in auto)
  then show ?thesis using assms by (auto simp: tree_insert_node_def Let_def split: if_splits)
qed

lemma parse_insert_fresh:
  "parse_insert host (Some t) hp ip h = Some (sh, ok, root, h') \<Longrightarrow> fresh_dir t \<Longrightarrow> \<exists>t'. root = Some t' \<and> fresh_dir t'"
  by (auto simp: parse_insert_def Let_def split: if_splits prod.splits dest: insert_directory_fresh insert_node_fresh)

lemma parse_lines_fresh:
  "parse_lines host fp (Some t) h = Some (root, errs, h') \<Longrightarrow> fresh_dir t \<Longrightarrow> \<exists>t'. root = Some t' \<and> fresh_dir t'"
proof (induction fp arbitrary: t h root errs h' rule: disk_lines.induct)
  case (1 fp)
  show ?case
  proof (cases "fgets MAX_BUF_SIZE fp")
    case None
    then show ?thesis using "1.prems" by (auto simp: parse_lines.simps)
  next
    case (Some r)
    then obtain line fp' where r: "fgets MAX_BUF_SIZE fp = Some (line, fp')" by (cases r) auto
    show ?thesis
    proof (cases "parse_line line")
      case None
      then show ?thesis using "1.IH"(1) [OF r refl None] "1.prems" r by (simp add: parse_lines.simps [of host fp])
    next
      case (Some hi)
      then obtain hp ip where hi: "parse_line line = Some (hp, ip)" by (cases hi) auto
      obtain sh ok root1 h1 where p: "parse_insert host (Some t) hp ip h = Some (sh, ok, root1, h1)"
        using "1.prems"(1) r hi by (auto simp: parse_lines.simps [of host fp] split: option.splits)
      obtain t1 where t1: "root1 = Some t1" "fresh_dir t1" using parse_insert_fresh [OF p "1.prems"(2)] by blast
      obtain es hh where "parse_lines host fp' (Some t1) h1 = Some (root, es, hh)"
        using "1.prems"(1) r hi p t1(1) by (auto simp: parse_lines.simps [of host fp] split: option.splits)
      then show ?thesis using "1.IH"(2) [OF r refl hi _ t1(2)] by blast
    qed
  qed
qed

lemma parse_disk_files_fresh: "parse_disk_files host fp [] = Some (Some root, errs, h) \<Longrightarrow> fresh_dir root"
  using parse_lines_fresh [of host fp "NODE_DIRECTORY [] 0 []" "[]"]
  by (auto simp: parse_disk_files_def create_directory_ok FS_NAME_MAX_def fresh_dir_def)

lemma children_erase: "children (erase t) = map erase (children t)"
  by (cases t) auto

lemma find_child_erase: "fs_node_find_child (erase t) p = fs_node_find_child t p"
proof -
  have "map node_name (children (erase t)) = map node_name (children t)" by (simp add: children_erase)
  then have "node_name (children (erase t) ! i) = node_name (children t ! i)" if "i < length (children t)" for i
    using that by (metis children_erase length_map nth_map)
  then show ?thesis by (auto simp: fs_node_find_child_def children_erase intro: find_cong)
qed

lemma entry_of_erase: "entry_of (erase t) = entry_of t"
  by (cases t) auto

lemma tree_map_erase: "tree_map (erase t) p = tree_map t p"
proof (induction t p rule: tree_lookup.induct)
  case (2 t part parts)
  show ?case
  proof (cases "fs_node_find_child t part")
    case (Some i)
    then show ?thesis using 2 find_child_Some [OF Some] by (simp add: tree_map_def find_child_erase children_erase)
  qed (simp add: tree_map_def find_child_erase)
qed (simp add: tree_map_def entry_of_erase)

subsection \<open>The program\<close>

lemma numbering_pre:
  assumes t: "fresh_dir root" and inv: "alloc_inv ctx" and rc: "2 \<le> unat (root_cluster (ctx_vbr ctx))" "next_free ctx = unat (root_cluster (ctx_vbr ctx)) + 1"
    "ctx_fat ctx ! unat (root_cluster (ctx_vbr ctx)) = FAT_EOF"
    and room: "unat (root_cluster (ctx_vbr ctx)) + node_count root + extra_of (clus_size ctx) root \<le> length (ctx_fat ctx)"
  shows "\<exists>t' ctx'. fat32_prepare_tree True root ctx = (t', ctx') \<and> same_vol ctx ctx' \<and> ctx_image ctx' = ctx_image ctx \<and>
    erase t' = root \<and> first_cluster t' = root_cluster (ctx_vbr ctx) \<and> distinct (clusters_of t') \<and>
    write_pre ctx' (clus_set t') (extra_of (clus_size ctx) root)"
proof -
  let ?r = "root_cluster (ctx_vbr ctx)"
  obtain n ns where root: "root = NODE_DIRECTORY n 0 ns" using t by (cases root) (auto simp: fresh_dir_def)
  have "next_free ctx + sum_list (map node_count ns) \<le> length (ctx_fat ctx)" using room rc(2) by (simp add: root)
  from prepare_root [OF inv _ this] t obtain ns' b where b: "fat32_prepare_tree True root ctx = (NODE_DIRECTORY n ?r ns', b)"
      "numbered ctx b (sum_list (map node_count ns))" "map erase ns' = ns" "map unat (concat (map clusters_of ns')) = [next_free ctx..<next_free b]"
    unfolding root fresh_dir_def by blast
  let ?t = "NODE_DIRECTORY n ?r ns'"
  have nb: "next_free b = next_free ctx + sum_list (map node_count ns)" using b(2) by (simp add: numbered_def)
  have cl: "map unat (clusters_of ?t) = [unat ?r..<next_free b]"
    using b(4) upt_conv_Cons [of "unat ?r" "next_free b"] nb rc(2) by (simp del: upt_Suc)
  then have cs: "clus_set ?t = {unat ?r..<next_free b}" by (metis list.set_map set_upt)
  have "distinct (map unat (clusters_of ?t))" unfolding cl by simp
  then have "distinct (clusters_of ?t)" using distinct_map by blast
  moreover have "ctx_fat b ! i = FAT_EOF" if "i \<in> {unat ?r..<next_free b}" for i
    using that b(2) rc(2,3) by (cases "i = unat ?r") (auto simp: numbered_def)
  then have "write_pre b (clus_set ?t) (extra_of (clus_size ctx) root)"
    using rc b(2) nb room numbered_fat_length [OF inv b(2)] unfolding cs write_pre_def by (auto simp: numbered_def root)
  ultimately show ?thesis using b(1-3) by (auto simp: numbered_def root)
qed

text \<open>What \<open>main\<close> does with a tree, from the initialisation of the table to its flush.\<close>

lemma image_of_tree:
  assumes t: "fresh_dir root" "fits host (clus_size ctx) True root" and v: "volume_ok (ctx_vbr ctx) po" "po = ctx_partition_offset ctx"
    and al: "ctx_allocs ctx = []"
    and room: "unat (root_cluster (ctx_vbr ctx)) + node_count root + extra_of (clus_size ctx) root \<le> unat (fat_entries (ctx_vbr ctx))"
  shows "\<exists>a t' b w u. fat32_table_init True ctx = Some (True, a) \<and> fat32_prepare_tree True root a = (t', b) \<and>
    fat32_write_tree host True None t' b = Some w \<and> fat32_table_flush w = Some u \<and>
    (\<forall>i < first_fat (ctx_vbr ctx) po. img_data (ctx_image u) i = img_data (ctx_image ctx) i) \<and>
    (\<forall>path p s. tree_map root path = Some (FS_FILE p s) \<longrightarrow> img_read (ctx_vbr ctx) po (ctx_image u) (map name83 path) = host p)"
proof -
  let ?v = "ctx_vbr ctx"
  have pos: "0 < node_count root" by (cases root) auto
  obtain a where a: "fat32_table_init True ctx = Some (True, a)" "alloc_inv a" "same_vol ctx a" "ctx_image a = ctx_image ctx"
      "next_free a = unat (root_cluster ?v) + 1" "ctx_fat a ! unat (root_cluster ?v) = FAT_EOF"
  proof -
    have "unat (root_cluster ?v) < unat (fat_entries ?v)" using room pos by linarith
    then show thesis using table_init_spec [OF v(1) al] that by blast
  qed
  have va: "ctx_vbr a = ?v" "clus_size a = clus_size ctx" using a(3) vol_clus_size [OF a(3)] by (simp_all add: same_vol_def)
  have "2 \<le> unat (root_cluster ?v)" using v(1) by (simp add: volume_ok_def Let_def)
  then obtain t' b where b: "fat32_prepare_tree True root a = (t', b)" "same_vol a b" "ctx_image b = ctx_image a" "erase t' = root"
      "first_cluster t' = root_cluster ?v" "distinct (clusters_of t')" "write_pre b (clus_set t') (extra_of (clus_size ctx) root)"
    using numbering_pre [OF t(1) a(2)] a(2,5,6) room unfolding va by (auto simp: alloc_inv_def va)
  have vb: "same_vol ctx b" "clus_size b = clus_size ctx" using same_vol_trans [OF a(3) b(2)] vol_clus_size [OF b(2)] va by auto
  have ex: "extra_of (clus_size ctx) t' = extra_of (clus_size ctx) root" "fits host (clus_size ctx) True t'"
    using extra_erase [of _ t'] fits_erase [of _ _ _ t'] b(4) t(2) by auto
  obtain w where w: "fat32_write_tree host True None t' b = Some w" "write_post b w (clus_set t') (extra_of (clus_size ctx) root)"
      "stored host w (clus_set t' \<union> {next_free b..<next_free w}) True None t'"
    using write_tree_spec(1) [of b t' host True None] b(6,7) ex unfolding vb by auto
  have vw: "same_vol ctx w" "alloc_inv w" "next_free b \<le> next_free w" using w(2) same_vol_trans [OF vb(1)] by (auto simp: write_post_def)
  have wv: "ctx_vbr w = ?v" "ctx_partition_offset w = po" "clus_size w = clus_size ctx" using vw(1) v(2) vol_clus_size [OF vw(1)] by (simp_all add: same_vol_def)
  have fat: "length (ctx_fat w) = unat (fat_entries ?v)" "length (ctx_fat w) < 0x0FFFFFF8" "next_free w \<le> length (ctx_fat w)"
    using vw(2) wv by (auto simp: alloc_inv_def)
  obtain u where u: "fat32_table_flush w = Some u" "same_vol w u" "\<forall>c. clus u c = clus w c"
      "\<forall>c. unat c < length (ctx_fat w) \<longrightarrow> img_fat ?v po (ctx_image u) c = ctx_fat w ! unat c"
      "\<forall>i < first_fat ?v po. img_data (ctx_image u) i = img_data (ctx_image w) i"
    using flush_spec [of w po] v(1) fat(1) unfolding wv by auto
  have "first_fat ?v po \<le> fat32_data_offset b" using vb(1) v(2) by (simp add: same_vol_def first_fat_def fat32_data_offset_def)
  then have low: "img_data (ctx_image u) i = img_data (ctx_image ctx) i" if "i < first_fat ?v po" for i
    using that u(5) write_tree_low(1) [OF w(1)] a(4) b(3) by (auto simp: low_same_def)
  have R: "clus_set t' \<union> {next_free b..<next_free w} \<subseteq> {..<length (ctx_fat w)}"
  proof -
    have "clus_set t' \<subseteq> {2..<next_free b}" using b(7) unfolding write_pre_def by (elim conjE)
    also have "\<dots> \<subseteq> {..<length (ctx_fat w)}" using fat(3) vw(3) by auto
    finally show ?thesis using fat(3) by (intro Un_least) auto
  qed
  have cu: "clus (vol_ctx ?v po (ctx_image u)) = clus w"
  proof
    fix c
    have "same_vol u (vol_ctx ?v po (ctx_image u))" using u(2) wv by (simp add: same_vol_def vol_ctx_def)
    from clus_cong [OF this, of c] have "clus (vol_ctx ?v po (ctx_image u)) c = clus u c" by (simp add: vol_ctx_def)
    then show "clus (vol_ctx ?v po (ctx_image u)) c = clus w c" using u(3) by (metis)
  qed
  have "img_read ?v po (ctx_image u) (map name83 path) = host p" if "tree_map root path = Some (FS_FILE p s)" for path p s
  proof -
    have dir: "is_directory t'" using t(1) b(4) by (cases t') (auto simp: fresh_dir_def)
    have tm: "tree_map t' path = Some (FS_FILE p s)" using that b(4) tree_map_erase [of t' path] by simp
    have "read_path (img_fat ?v po (ctx_image u)) (clus w) (length (ctx_fat w)) (root_cluster ?v) (map name83 path) = host p"
      using read_stored [OF R fat(2) _ w(3) _ dir tm, of "img_fat ?v po (ctx_image u)"] u(4) ex(2) b(5) wv by simp
    then show ?thesis by (simp add: img_read_def cu fat(1))
  qed
  then show ?thesis using a(1) b(1) w(1) u(1) low by blast
qed

lemma img_write_at: "j < length bs \<Longrightarrow> img_data (img_write off bs img) (off + j) = bs ! j"
  by (simp add: img_write_def)

lemma image_init_boot:
  assumes "length mbr = BOOT_SECTOR_SIZE" "length vbr = BOOT_SECTOR_SIZE" "BOOT_SECTOR_SIZE \<le> po"
  shows "map (img_data (image_init mbr vbr po)) [0..<BOOT_SECTOR_SIZE] = mbr"
    "map (img_data (image_init mbr vbr po)) [po..<po + BOOT_SECTOR_SIZE] = vbr"
proof -
  obtain img where img: "image_init mbr vbr po = img_write po vbr (img_write 0 mbr img)" by (simp add: image_init_def Let_def)
  show "map (img_data (image_init mbr vbr po)) [0..<BOOT_SECTOR_SIZE] = mbr"
    unfolding img using assms by (intro nth_equalityI) (simp_all add: img_write_def)
  show "map (img_data (image_init mbr vbr po)) [po..<po + BOOT_SECTOR_SIZE] = vbr"
    unfolding img using assms img_write_read [of po vbr] by simp
qed

text \<open>
  C24. The image that \<^verbatim>\<open>mkimage\<close> writes is the file system that was asked for. For boot sectors with usable
  parameters and a tree that fits (8.3 names that are distinct in each directory, directories of at most one cluster, enough
  clusters), the program exits with status 0, no access is out of bounds and every loop ends, the image
  begins with the MBR and its partition with the VBR, and reading a file of the tree from the
  bytes of the image, by following 8.3 names through the directories and chains through the first FAT, gives the
  content of the host file.
\<close>

theorem mkimage_main_correct:
  assumes files: "host mbr_path = Some mbr" "host vbr_path = Some vbr" "host files_path = Some files" "writable image_path"
    and len: "BOOT_SECTOR_SIZE \<le> length mbr" "BOOT_SECTOR_SIZE \<le> length vbr"
    and v: "v = fat32_vbr_of (bytes_fun (take BOOT_SECTOR_SIZE vbr))"
      "po = unat (mbr_lba_start (bytes_fun (take BOOT_SECTOR_SIZE mbr))) * unat (bytes_per_sector v)" "volume_ok v po"
    and root: "parse_disk_files host (map (\<lambda>b. char_of (unat b)) files) [] = Some (Some root, errs, [])"
    and cs: "cs = unat (bytes_per_sector v) * unat (sectors_per_cluster v)" "fits host cs True root"
      "unat (root_cluster v) + node_count root + extra_of cs root \<le> unat (fat_entries v)"
  shows "\<exists>img. mkimage_main host writable [mbr_path, vbr_path, image_path, files_path] [] = Some (0, Some img) \<and>
    map (img_data img) [0..<BOOT_SECTOR_SIZE] = take BOOT_SECTOR_SIZE mbr \<and>
    map (img_data img) [po..<po + BOOT_SECTOR_SIZE] = take BOOT_SECTOR_SIZE vbr \<and>
    (\<forall>path p s. tree_map root path = Some (FS_FILE p s) \<longrightarrow> img_read v po img (map name83 path) = host p)"
proof -
  let ?m = "take BOOT_SECTOR_SIZE mbr" and ?b = "take BOOT_SECTOR_SIZE vbr"
  let ?c = "\<lparr>ctx_image = image_init ?m ?b po, ctx_vbr = v, ctx_fat = [], ctx_partition_offset = po, ctx_next_free_cluster = 0, ctx_allocs = []\<rparr>"
  have sz: "clus_size ?c = cs" by (simp add: clus_size_eq cs(1))
  obtain a t' b w u where run: "fat32_table_init True ?c = Some (True, a)" "fat32_prepare_tree True root a = (t', b)"
      "fat32_write_tree host True None t' b = Some w" "fat32_table_flush w = Some u"
    and low: "\<forall>i < first_fat v po. img_data (ctx_image u) i = img_data (image_init ?m ?b po) i"
    and rd: "\<forall>path p s. tree_map root path = Some (FS_FILE p s) \<longrightarrow> img_read v po (ctx_image u) (map name83 path) = host p"
    using image_of_tree [of root host ?c po] parse_disk_files_fresh [OF root] v(3) cs(2,3) unfolding sz by auto
  have main: "mkimage_main host writable [mbr_path, vbr_path, image_path, files_path] [] = Some (0, Some (ctx_image u))"
    using files len run root by (simp add: mkimage_main_def v(1,2) [symmetric] Let_def)
  have ff: "po + BOOT_SECTOR_SIZE \<le> first_fat v po" "BOOT_SECTOR_SIZE \<le> po" using v(3) by (auto simp: volume_ok_def Let_def first_fat_def)
  have eq: "map (img_data (ctx_image u)) [x..<y] = map (img_data (image_init ?m ?b po)) [x..<y]" if "y \<le> first_fat v po" for x y
    using low that by simp
  have "map (img_data (ctx_image u)) [0..<BOOT_SECTOR_SIZE] = ?m" "map (img_data (ctx_image u)) [po..<po + BOOT_SECTOR_SIZE] = ?b"
    using image_init_boot [of ?m ?b po] len ff eq [of BOOT_SECTOR_SIZE 0] eq [of "po + BOOT_SECTOR_SIZE" po] by simp_all
  then show ?thesis using main rd by blast
qed

text \<open>A volume of 128 table entries and a file of two clusters in a directory.\<close>

definition demo_mbr :: "u8 list" where
  "demo_mbr = replicate 454 0 @ [1, 0, 0, 0] @ replicate 54 0"

definition demo_vbr :: "u8 list" where
  "demo_vbr = replicate 11 0 @ [0, 2, 1, 1, 0, 2, 0, 0, 0, 0, 0xF8] @ replicate 10 0 @ [64, 0, 0, 0, 1, 0, 0, 0] @ replicate 4 0 @
     [2, 0, 0, 0] @ replicate 464 0"

definition demo_host :: host where
  "demo_host p = (if p = ''m'' then Some demo_mbr else if p = ''v'' then Some demo_vbr
     else if p = ''f'' then Some (map of_char (''k:a/b'' @ [CHR 0x0A])) else if p = ''k'' then Some (replicate 600 7) else None)"

definition demo_root :: fs_node where
  "demo_root = NODE_DIRECTORY [] 0 [NODE_DIRECTORY ''a'' 0 [NODE_FILE ''b'' 0 ''k'' 600]]"

lemma demo_vbr_fields: "fat32_vbr_of (bytes_fun (take BOOT_SECTOR_SIZE demo_vbr)) =
  \<lparr>bytes_per_sector = 512, sectors_per_cluster = 1, reserved_sectors = 1, fat_count = 2, media_descriptor = 0xF8, total_sectors_32 = 64,
   fat_size_32 = 1, root_cluster = 2\<rparr>"
  by (simp add: fat32_vbr_of_def bytes_fun_def demo_vbr_def BOOT_SECTOR_SIZE_def get_le16_def get_le32_def nth_append nth_Cons')

lemma demo_mbr_field: "mbr_lba_start (bytes_fun (take BOOT_SECTOR_SIZE demo_mbr)) = 1"
  by (simp add: mbr_lba_start_def bytes_fun_def demo_mbr_def BOOT_SECTOR_SIZE_def get_le32_def nth_append nth_Cons')

lemma demo_parse: "parse_disk_files demo_host (''k:a/b'' @ [CHR 0x0A]) [] = Some (Some demo_root, [], [])"
  by (simp add: parse_disk_files_def parse_lines.simps fgets_def MAX_BUF_SIZE_def FS_PATH_MAX_def FS_NAME_MAX_def numeral_eq_Suc
      parse_line_def parse_insert_def tree_insert_node_def split_path_def strtok_all_def strncpy_z_def MAX_PATH_COMPONENTS_def
      tree_put_file_def fs_node_find_child_def fs_node_create_directory_def fs_node_create_file_def fs_node_add_child_def
      demo_root_def demo_host_def)

lemma demo_names: "fat32_entry_name ''a'' = Some (0x41 # replicate 10 0x20)" "fat32_entry_name ''b'' = Some (0x42 # replicate 10 0x20)"
  by (simp_all add: fat32_entry_name_def FAT_NAME_LEN_def copy_at_def toupper_def)

lemma demo_fits: "fits demo_host 512 True demo_root"
  by (simp add: demo_root_def demo_host_def entry_names_ok_def demo_names)

theorem mkimage_main_witness:
  "\<exists>img. mkimage_main demo_host (\<lambda>p. p = ''i'') [''m'', ''v'', ''i'', ''f''] [] = Some (0, Some img) \<and>
     map (img_data img) [0..<BOOT_SECTOR_SIZE] = demo_mbr \<and>
     img_read (fat32_vbr_of (bytes_fun demo_vbr)) 512 img [0x41 # replicate 10 0x20, 0x42 # replicate 10 0x20] = Some (replicate 600 7)"
proof -
  let ?v = "fat32_vbr_of (bytes_fun (take BOOT_SECTOR_SIZE demo_vbr))"
  have t: "take BOOT_SECTOR_SIZE demo_vbr = demo_vbr" "take BOOT_SECTOR_SIZE demo_mbr = demo_mbr" "length demo_vbr = BOOT_SECTOR_SIZE"
      "length demo_mbr = BOOT_SECTOR_SIZE" by (simp_all add: BOOT_SECTOR_SIZE_def demo_vbr_def demo_mbr_def)
  have h: "demo_host ''m'' = Some demo_mbr" "demo_host ''v'' = Some demo_vbr" "demo_host ''f'' = Some (map of_char (''k:a/b'' @ [CHR 0x0A]))"
    "demo_host ''k'' = Some (replicate 600 7)" by (simp_all add: demo_host_def)
  have po: "512 = unat (mbr_lba_start (bytes_fun (take BOOT_SECTOR_SIZE demo_mbr))) * unat (bytes_per_sector ?v)"
    by (simp add: demo_mbr_field demo_vbr_fields)
  have vol: "volume_ok ?v 512" unfolding demo_vbr_fields volume_ok_def by (simp add: BOOT_SECTOR_SIZE_def)
  have parse: "parse_disk_files demo_host (map (\<lambda>b. char_of (unat b)) (map of_char (''k:a/b'' @ [CHR 0x0A]) :: u8 list)) [] = Some (Some demo_root, [], [])"
    using demo_parse by (simp only: map_map o_def unat_of_char char_of_char list.map_ident)
  have cs: "512 = unat (bytes_per_sector ?v) * unat (sectors_per_cluster ?v)"
      "unat (root_cluster ?v) + node_count demo_root + extra_of 512 demo_root \<le> unat (fat_entries ?v)"
    by (simp_all add: demo_vbr_fields demo_root_def extra_clusters_def fat_entries_def)
  from mkimage_main_correct [of demo_host "''m''" demo_mbr "''v''" demo_vbr "''f''" _ "\<lambda>p. p = ''i''" "''i''" ?v 512 demo_root "[]" 512,
      OF h(1-3) refl _ _ refl po vol parse cs(1) demo_fits cs(2)] t obtain img where
    img: "mkimage_main demo_host (\<lambda>p. p = ''i'') [''m'', ''v'', ''i'', ''f''] [] = Some (0, Some img)"
      "map (img_data img) [0..<BOOT_SECTOR_SIZE] = demo_mbr"
      "\<forall>path p s. tree_map demo_root path = Some (FS_FILE p s) \<longrightarrow> img_read ?v 512 img (map name83 path) = demo_host p" by auto
  have "tree_map demo_root [''a'', ''b''] = Some (FS_FILE ''k'' 600)" by (simp add: tree_map_def demo_root_def fs_node_find_child_def)
  with img(3) have "img_read ?v 512 img (map name83 [''a'', ''b'']) = Some (replicate 600 7)" using h(4) by metis
  then show ?thesis using img(1,2) by (simp add: t demo_names)
qed

end
