(* ===== verification/Spec2Isabelle.thy ===== *)
theory Spec2Isabelle
  imports Klib_Props Pmm_Props Kheap_Props Vmm_Props
    Klib_Memory Klib_Ringbuf Klib_Fmt Iwbf X86_Cpu Process_Create
    Irq_Props Device_Props Vga_Props I8254_Props Kmain_Start Mkimage_Props
begin

text \<open>
  A verification of ItWorksOS, a kernel for 32-bit x86 processors written in C, and of the tool that builds its disk
  image. All paths below are relative to \<^verbatim>\<open>src/\<close>.

  \<^bold>\<open>The program.\<close> A boot loader in assembly (\<^verbatim>\<open>bootloader/\<close>) loads the kernel and a system program
  from a FAT32 image and passes a memory map. The kernel sets up physical memory (\<^verbatim>\<open>kernel/mm/pmm.c\<close>), page
  tables and its own address space (\<^verbatim>\<open>kernel/arch/x86/mm.c\<close>, \<^verbatim>\<open>kernel/mm/kernel_vm.c\<close>), a heap
  (\<^verbatim>\<open>kernel/mm/kheap.c\<close>), the tables of the processor (\<^verbatim>\<open>kernel/arch/x86/cpu\<close>, \<^verbatim>\<open>interrupt\<close>), the interrupt
  layer and its controllers (\<^verbatim>\<open>kernel/irq\<close>, \<^verbatim>\<open>kernel/drivers/irqchip/i8259.c\<close>) and the platform bus with its drivers
  (\<^verbatim>\<open>kernel/device\<close>, \<^verbatim>\<open>kernel/drivers\<close>); then it creates a process from an image in a format of its own
  (\<^verbatim>\<open>kernel/process\<close>, \<^verbatim>\<open>kernel/format/iwbf.c\<close>) and enters user mode. The image is written by
  \<^verbatim>\<open>tools/mkimage\<close> on the host.

  \<^bold>\<open>Conventions.\<close> Integers keep their width (\<open>u8\<close> to \<open>u64\<close> are words; \<open>paddr_t\<close> has 64 bits, pointers and \<open>size_t\<close> 32). A
  kernel function that returns an error code is a state transformer with a result of type
  \<open>kerror + 'a\<close>, and \<open>KERR_TRY\<close> is its sequencing (\<open>Prelude\<close>). Memory behind the direct map is a store of 32-bit words at
  their addresses where the code keeps its structures (heap headers, list nodes, page tables), and a store of bytes
  where it copies bytes. Code that is not in the repository or is not C enters as a parameter: the devices behind
  the ports are a function that answers a read given all earlier accesses, the processor's CPUID and POPF are functions, as are
  the functions behind the pointers of handlers, probes and callbacks, and the files of the host for
  \<^verbatim>\<open>mkimage\<close>. A loop that might not end is a partial function with the result \<open>None\<close> (\<open>str_end\<close>, \<open>strcmp\<close>,
  \<open>list_for_each_until\<close>, \<open>digits_loop\<close>, \<open>fat32_write_loop\<close>), and the theorems show that it returns; no fuel is used in the model (the
  reader of FAT chains in \<open>Mkimage_Image\<close> takes the number of table entries as its bound, which
  \<open>follow_chain\<close> shows to be enough).

  \<^bold>\<open>The theories.\<close>
  \<^item> \<open>Prelude\<close>: integer types, \<^verbatim>\<open>kernel/error.h\<close>, \<^verbatim>\<open>base/bit.h\<close>, \<^verbatim>\<open>base/align.h\<close>, \<^verbatim>\<open>mm/layout.h\<close>, loops over a
    range, word lemmas.
  \<^item> \<open>Klib_Bitmap\<close>, \<open>Klib_List\<close>, \<open>Klib_Props\<close>: \<^verbatim>\<open>klib/bitmap.c\<close> and \<^verbatim>\<open>klib/list.h\<close>. The locale \<open>bitset\<close> is the
    contract of the bitmap that the allocators of frames, stacks, process and interrupt numbers rely on; the locale \<open>node_pool\<close> is the
    contract of the list. The list operations edit the sequence that the links represent, and the walk over it ends.
  \<^item> \<open>Klib_Memory\<close>, \<open>Klib_Ringbuf\<close>, \<open>Klib_Fmt\<close>: \<^verbatim>\<open>klib/memory.c\<close>, \<^verbatim>\<open>string.c\<close>, \<^verbatim>\<open>ringbuf.c\<close>, \<^verbatim>\<open>conv.c\<close>,
    \<^verbatim>\<open>printf.c\<close> and \<^verbatim>\<open>log/syslog.c\<close>. The ring buffer refines a bounded queue (locale \<open>overwrite_queue\<close>, interpreted
    on it and used by the log); formatted text is cut to the buffer and terminated.
  \<^item> \<open>Pmm\<close>, \<open>Pmm_Init\<close>, \<open>Pmm_Props\<close>: the frame allocator. Allocation is first fit, frames that are handed out are disjoint in
    every run of calls with any arguments (the frames that a caller releases without holding them are accounted for), initialization frees usable memory only. The locale \<open>frame_allocator\<close> is what the page tables use of it.
  \<^item> \<open>Kheap\<close>, \<open>Kheap_Inv\<close>, \<open>Kheap_Free\<close>, \<open>Kheap_Props\<close>: the heap with boundary tags and a free list. \<open>kmalloc\<close> and \<open>kfree\<close> carry out
    steps on an abstract sequence of blocks, live blocks never overlap.
  \<^item> \<open>X86_Paging\<close>, \<open>X86_Paging_Inv\<close>, \<open>X86_Paging_Props\<close>, \<open>X86_Spaces\<close>, \<open>X86_Sample\<close>: two-level page tables. The three loops over pages are instances of the locale
    \<open>page_range\<close>; mapping refines the update of a map of pages with the permissions of the flags (entries keep the low 32 bits of a
    physical address), spaces are isolated from each other and share the
    kernel half, and a space gives back what it took.
  \<^item> \<open>Kernel_Vm\<close>, \<open>Kernel_Stack\<close>, \<open>Vmm\<close>, \<open>Vmm_Props\<close>: the kernel's space, its stacks, and areas of user spaces. In every space that is reachable by calls with any
    arguments the page tables are well-formed, and the areas are sorted, disjoint and mapped as long as no range that ends at exactly 4 GiB was
    entered: the check of ranges accepts it, with an end that wraps around to 0 (\<open>vmm_reach\<close> has a flag for it). A stack is allocated exactly when a position and four frames
    are free.
  \<^item> \<open>Iwbf\<close>, \<open>Process\<close>, \<open>Process_Props\<close>, \<open>Process_Create\<close>: the executable format and processes: a loaded process reads its segments at their addresses, starts
    in user mode on its stack, and the table of processes agrees with identifiers and heap.
  \<^item> \<open>X86_Cpu\<close>: segment, task and interrupt tables, EFLAGS and CPUID, as the processor decodes them.
  \<^item> \<open>Hal\<close>, \<open>Irq\<close>, \<open>Irq_Props\<close>: port accesses as a log, interrupt numbers, maps and descriptors, the 8259 driver: initialization, masks,
    dispatch.
  \<^item> \<open>Device\<close>, \<open>Device_Props\<close>: buses, devices, drivers; binding in every order of registration.
  \<^item> \<open>Vga_Text\<close>, \<open>Vga_Props\<close>: console, VGA text driver and \<open>printk\<close>; the driver refines an abstract terminal.
  \<^item> \<open>I8254\<close>, \<open>I8254_Props\<close>: timer devices and the 8254 driver.
  \<^item> \<open>Kmain\<close>, \<open>Kmain_Mm\<close>, \<open>Kmain_Logic\<close>, \<open>Kmain_Props\<close>, \<open>Kmain_Start\<close>: the kernel core (\<^verbatim>\<open>kernel/core/\<close>, \<^verbatim>\<open>log/panic.c\<close>, \<^verbatim>\<open>mm/mm.c\<close>,
    \<^verbatim>\<open>arch/x86/arch.c\<close>, \<^verbatim>\<open>interrupt/nmi.c\<close>, \<^verbatim>\<open>platform/\<close>): boot information, panics and exceptions, the start of the memory managers, the initialisation
    calls with the platform's devices and drivers, and \<open>kmain\<close> itself. The result \<open>kresult\<close> of a function of the core says whether
    it returned, panicked, entered user mode, or cannot go on (an access the C code has no meaning for). The record \<open>kernel\<close> joins the states of all
    components, \<open>psys_of\<close> is the view the processes have of it; \<open>kenv\<close> and \<open>kimage\<close> hold the devices, the functions behind pointers and the
    symbols of the linker script. Before the kernel loads its own page tables only the first 4 MiB are mapped (\<^verbatim>\<open>arch/x86/kernel.asm\<close>):
    \<open>boot_init\<close> and \<open>mm_init\<close> are stuck when they access anything else (\<open>boot_readable\<close>, \<open>boot_reach\<close>). \<open>mm_init\<close> succeeds where the frame
    bitmap and 257 usable frames lie there and 256 frames in a row above are usable for the heap, and \<open>kmain\<close> ends in a panic or in
    user mode with the first process; its first half returns on every such machine with CPUID, whatever the drivers find. The bytes that processes and
    the system image occupy are a store apart from the words of the frame bitmap, the page tables and the heap; that is the one memory of the machine
    as long as the image overlaps none of these, which \<open>image_kept\<close> tests before \<open>mm_init\<close> runs (the outcome is stuck otherwise) and \<open>image_safe\<close> maintains. The judgement \<open>ends\<close> carries this through the sequence of calls, and the locale \<open>bus_invariant\<close>, interpreted on the kernel's
    probes, carries an invariant through device binding.
  \<^item> \<open>Mkimage_Tree\<close>, \<open>Mkimage_Tree_Props\<close>, \<open>Mkimage_Fat32\<close>, \<open>Mkimage_Alloc\<close>, \<open>Mkimage_Write\<close>, \<open>Mkimage_Image\<close>, \<open>Mkimage_Props\<close>: the image builder. The list of files, given by its entries and their printed text, becomes a tree that refines a map of
    paths; every file of the tree can be read back from the bytes of the image.

  The states of the device side are extensible records that extend one another in the order \<open>hal\<close>, \<open>irq_sys\<close>, \<open>dev_sys\<close>,
  \<open>io_sys\<close>, \<open>tm_sys\<close>, so that the operations of a layer are those of every state above it; \<open>kern\<close> is the state of memory
  management, \<open>psys\<close> adds the processes.

  \<^bold>\<open>What the theorems exclude.\<close> They also record where the code does not do what it means to: the failure of
  \<open>kstack_alloc\<close> in the middle, which blocks its position and loses up to three frames, blocks at the end of the heap that cannot be freed, ranges that wrap around, physical addresses that are cut, a bitmap or page
  tables outside of what is mapped at the start, messages
  that are longer than the buffer of \<open>printk\<close>, critical sections that are left with interrupts disabled.

  \<^bold>\<open>Not modelled.\<close> The boot loader, the entry code of the kernel, the stubs of the interrupt vectors and the user program are assembly.
  The access functions of the control registers (\<^verbatim>\<open>arch/x86/cpu/control.c\<close>) and the halt instruction are single instructions; the value of CR3 is a
  field of the memory state. The debug messages of the components are left out (those of the core are part of its model); build files, linker scripts and documentation have no
  model. Caches and the speculative behaviour of the processor are outside of the model; a change of page tables is visible at once, and
  the invalidations of pages are recorded.
\<close>

end
